(* ===== verification/Prelude.thy ===== *)
theory Prelude
  imports Main "HOL-Library.AList" "HOL-Library.Multiset" "HOL-Library.Char_ord" "HOL-Library.List_Lexorder"
begin

text \<open>
  The part of the ECMAScript language and library that the OpenApe sources use, and the generic
  lemmas every component shares.

  \<^item> A JavaScript string is a list of code units. The model keeps the code units \<open>0 .. 255\<close>
    (Latin-1), one \<open>char\<close> each; every operation below is the ECMAScript one on such strings.
    \<open>a < b\<close> on strings is the lexicographic order of code units, which is \<open>(<)\<close> of the
    library's order on lists of characters.
  \<^item> A JavaScript \<open>Map\<close> and an object keep their entries in insertion order, and setting a
    present key keeps its place: association lists with \<open>AList.update\<close> and \<open>AList.delete\<close>.
  \<^item> \<open>Array.prototype.sort\<close> is stable; \<open>sort_by le\<close> is the stable sort for a comparator
    whose result on \<open>(a, b)\<close> is at most 0 exactly when \<open>le a b\<close>.
  \<^item> A thrown error is the left side of a sum, an absent or \<open>undefined\<close> member is \<open>None\<close>.
\<close>

named_theorems js_simps \<open>evaluation rules of the string and object operations\<close>

section \<open>Truthiness\<close>

text \<open>What \<open>if (x)\<close> asks of an optional string, number, list or boolean member.\<close>

definition truthy_str :: "string option \<Rightarrow> bool" where
  "truthy_str s = (case s of None \<Rightarrow> False | Some x \<Rightarrow> x \<noteq> [])"

definition truthy_num :: "int option \<Rightarrow> bool" where
  "truthy_num n = (case n of None \<Rightarrow> False | Some x \<Rightarrow> x \<noteq> 0)"

definition truthy_bool :: "bool option \<Rightarrow> bool" where
  "truthy_bool b = (b = Some True)"

lemma truthy_str_simps [simp]:
  "truthy_str None = False" "truthy_str (Some s) = (s \<noteq> [])"
  by (simp_all add: truthy_str_def)

lemma truthy_num_simps [simp]:
  "truthy_num None = False" "truthy_num (Some n) = (n \<noteq> 0)"
  by (simp_all add: truthy_num_def)

lemma truthy_bool_simps [simp]:
  "truthy_bool None = False" "truthy_bool (Some b) = b"
  by (simp_all add: truthy_bool_def)

text \<open>The operator \<open>a ?? b\<close>.\<close>

definition nullish :: "'a option \<Rightarrow> 'a \<Rightarrow> 'a" where
  "nullish a b = (case a of None \<Rightarrow> b | Some x \<Rightarrow> x)"

lemma nullish_simps [simp]: "nullish None b = b" "nullish (Some x) b = x"
  by (simp_all add: nullish_def)

definition nullish_opt :: "'a option \<Rightarrow> 'a option \<Rightarrow> 'a option" where
  "nullish_opt a b = (case a of None \<Rightarrow> b | Some x \<Rightarrow> Some x)"

lemma nullish_opt_simps [simp]: "nullish_opt None b = b" "nullish_opt (Some x) b = Some x"
  by (simp_all add: nullish_opt_def)

section \<open>Strings\<close>

text \<open>White space and line terminators of \<open>trim\<close> within Latin-1.\<close>

definition is_space :: "char \<Rightarrow> bool" where
  "is_space c = (let n = (of_char c :: nat) in (9 \<le> n \<and> n \<le> 13) \<or> n = 32 \<or> n = 160)"

definition js_trim :: "string \<Rightarrow> string" where
  "js_trim s = rev (dropWhile is_space (rev (dropWhile is_space s)))"

text \<open>\<open>toLowerCase\<close> on a Latin-1 code unit.\<close>

definition lower_char :: "char \<Rightarrow> char" where
  "lower_char c = (let n = (of_char c :: nat) in
     if (65 \<le> n \<and> n \<le> 90) \<or> (192 \<le> n \<and> n \<le> 222 \<and> n \<noteq> 215) then char_of (n + 32) else c)"

definition to_lower :: "string \<Rightarrow> string" where
  "to_lower s = map lower_char s"

definition is_digit :: "char \<Rightarrow> bool" where
  "is_digit c = (let n = (of_char c :: nat) in 48 \<le> n \<and> n \<le> 57)"

definition is_letter :: "char \<Rightarrow> bool" where
  "is_letter c = (let n = (of_char c :: nat) in (65 \<le> n \<and> n \<le> 90) \<or> (97 \<le> n \<and> n \<le> 122))"

text \<open>The regular expression class \<open>\w\<close>.\<close>

definition is_word_char :: "char \<Rightarrow> bool" where
  "is_word_char c = (is_letter c \<or> is_digit c \<or> c = CHR ''_'')"

fun starts_with :: "string \<Rightarrow> string \<Rightarrow> bool" where
  "starts_with s [] = True"
| "starts_with [] (p # ps) = False"
| "starts_with (c # cs) (p # ps) = (c = p \<and> starts_with cs ps)"

text \<open>\<open>s.includes(sub)\<close> and \<open>s.indexOf(c)\<close>, \<open>s.lastIndexOf(c)\<close> for one character.\<close>

fun includes_str :: "string \<Rightarrow> string \<Rightarrow> bool" where
  "includes_str [] sub = (sub = [])"
| "includes_str (c # cs) sub = (starts_with (c # cs) sub \<or> includes_str cs sub)"

fun index_of :: "char \<Rightarrow> string \<Rightarrow> nat option" where
  "index_of x [] = None"
| "index_of x (c # cs) = (if c = x then Some 0 else map_option Suc (index_of x cs))"

definition last_index_of :: "char \<Rightarrow> string \<Rightarrow> nat option" where
  "last_index_of x s = map_option (\<lambda>i. length s - 1 - i) (index_of x (rev s))"

text \<open>\<open>s.split(sep)\<close> for a one-character separator: never the empty list.\<close>

fun split_on :: "char \<Rightarrow> string \<Rightarrow> string list" where
  "split_on x [] = [[]]"
| "split_on x (c # cs) =
     (if c = x then [] # split_on x cs
      else (case split_on x cs of [] \<Rightarrow> [[c]] | p # ps \<Rightarrow> (c # p) # ps))"

text \<open>\<open>xs.join(sep)\<close>.\<close>

fun join :: "string \<Rightarrow> string list \<Rightarrow> string" where
  "join sep [] = []"
| "join sep [x] = x"
| "join sep (x # y # ys) = x @ sep @ join sep (y # ys)"

text \<open>The decimal digits of an integer, as in a template literal.\<close>

fun digits_of :: "nat \<Rightarrow> string" where
  "digits_of n = (if n < 10 then [char_of (48 + n)] else digits_of (n div 10) @ [char_of (48 + n mod 10)])"

declare digits_of.simps [simp del]

definition string_of_int :: "int \<Rightarrow> string" where
  "string_of_int i = (if i < 0 then CHR ''-'' # digits_of (nat (- i)) else digits_of (nat i))"

definition nat_of_digits :: "string \<Rightarrow> nat" where
  "nat_of_digits s = foldl (\<lambda>acc c. 10 * acc + (of_char c - 48)) 0 s"

text \<open>\<open>Number.parseInt(v, 10)\<close>, \<open>None\<close> for \<open>NaN\<close>.\<close>

definition parse_int :: "string \<Rightarrow> int option" where
  "parse_int v = (let s = dropWhile is_space v;
     d = takeWhile is_digit (if s \<noteq> [] \<and> (hd s = CHR ''-'' \<or> hd s = CHR ''+'') then tl s else s) in
     if d = [] then None else Some (if hd s = CHR ''-'' then - int (nat_of_digits d) else int (nat_of_digits d)))"

lemma starts_with_append [simp]: "starts_with (p @ s) p"
  by (induction p) auto

lemma starts_with_iff: "starts_with s p \<longleftrightarrow> (\<exists>t. s = p @ t)"
  by (induction s p rule: starts_with.induct) auto

lemma split_on_not_Nil [simp]: "split_on x s \<noteq> []"
  by (induction s) (auto split: list.splits)

lemma split_on_no_sep: "x \<notin> set s \<Longrightarrow> split_on x s = [s]"
  by (induction s) auto

lemma split_on_append_sep: "x \<notin> set a \<Longrightarrow> split_on x (a @ x # b) = a # split_on x b"
  by (induction a) auto

lemma join_split_on: "join [x] (split_on x s) = s"
proof (induction s)
  case (Cons c cs)
  then obtain p ps where p: "split_on x cs = p # ps" by (meson neq_Nil_conv split_on_not_Nil)
  have "join [x] ((c # p) # ps) = c # join [x] (p # ps)" by (cases ps) auto
  with Cons p show ?case by (simp split: list.splits)
qed simp

lemma split_on_join:
  "xs \<noteq> [] \<Longrightarrow> \<forall>s \<in> set xs. x \<notin> set s \<Longrightarrow> split_on x (join [x] xs) = xs"
proof (induction "[x]" xs rule: join.induct)
  case (3 a b ys)
  then show ?case by (simp add: split_on_append_sep)
qed (auto simp: split_on_no_sep)

lemma join_inject:
  assumes "join [x] xs = join [x] ys" "xs \<noteq> []" "ys \<noteq> []"
    "\<forall>s \<in> set xs. x \<notin> set s" "\<forall>s \<in> set ys. x \<notin> set s"
  shows "xs = ys"
  using assms split_on_join by metis

lemma index_of_Some:
  "index_of x s = Some i \<Longrightarrow> i < length s \<and> s ! i = x \<and> x \<notin> set (take i s)"
  by (induction s arbitrary: i) (auto split: if_splits)

lemma index_of_None [simp]: "index_of x s = None \<longleftrightarrow> x \<notin> set s"
  by (induction s) auto

lemma index_of_append: "x \<notin> set a \<Longrightarrow> index_of x (a @ x # b) = Some (length a)"
  by (induction a) auto

lemma join_append:
  "xs \<noteq> [] \<Longrightarrow> ys \<noteq> [] \<Longrightarrow> join sep (xs @ ys) = join sep xs @ sep @ join sep ys"
proof (induction sep xs rule: join.induct)
  case (2 sep x)
  then show ?case by (cases ys) simp_all
qed simp_all

lemma append_sep_inject:
  "x \<notin> set a \<Longrightarrow> x \<notin> set b \<Longrightarrow> a @ x # s = b @ x # t \<longleftrightarrow> a = b \<and> s = t"
  by (induction a arbitrary: b) (case_tac b; auto)+

section \<open>Stable sorting\<close>

fun insort_by :: "('a \<Rightarrow> 'a \<Rightarrow> bool) \<Rightarrow> 'a \<Rightarrow> 'a list \<Rightarrow> 'a list" where
  "insort_by le x [] = [x]"
| "insort_by le x (y # ys) = (if le x y then x # y # ys else y # insort_by le x ys)"

fun sort_by :: "('a \<Rightarrow> 'a \<Rightarrow> bool) \<Rightarrow> 'a list \<Rightarrow> 'a list" where
  "sort_by le [] = []"
| "sort_by le (x # xs) = insort_by le x (sort_by le xs)"

lemma mset_insort_by [simp]: "mset (insort_by le x xs) = add_mset x (mset xs)"
  by (induction xs) auto

lemma mset_sort_by [simp]: "mset (sort_by le xs) = mset xs"
  by (induction xs) auto

lemma set_insort_by [simp]: "set (insort_by le x xs) = insert x (set xs)"
  by (induction xs) auto

lemma set_sort_by [simp]: "set (sort_by le xs) = set xs"
  by (induction xs) auto

lemma length_sort_by [simp]: "length (sort_by le xs) = length xs"
  by (metis mset_sort_by size_mset)

lemma sort_by_Nil_iff [simp]: "sort_by le xs = [] \<longleftrightarrow> xs = []"
  by (metis length_0_conv length_sort_by)

lemma distinct_sort_by [simp]: "distinct (sort_by le xs) = distinct xs"
  by (metis mset_sort_by mset_eq_imp_distinct_iff)

text \<open>A comparator that orders the elements of a set: total and transitive there.\<close>

definition orders_on :: "'a set \<Rightarrow> ('a \<Rightarrow> 'a \<Rightarrow> bool) \<Rightarrow> bool" where
  "orders_on A le \<longleftrightarrow> (\<forall>a\<in>A. \<forall>b\<in>A. le a b \<or> le b a) \<and>
     (\<forall>a\<in>A. \<forall>b\<in>A. \<forall>c\<in>A. le a b \<longrightarrow> le b c \<longrightarrow> le a c)"

lemma orders_onD:
  assumes "orders_on A le"
  shows "a \<in> A \<Longrightarrow> b \<in> A \<Longrightarrow> le a b \<or> le b a"
    and "a \<in> A \<Longrightarrow> b \<in> A \<Longrightarrow> c \<in> A \<Longrightarrow> le a b \<Longrightarrow> le b c \<Longrightarrow> le a c"
  using assms unfolding orders_on_def by blast+

lemma sorted_insort_by:
  assumes "orders_on A le" "x \<in> A" "set ys \<subseteq> A" "sorted_wrt le ys"
  shows "sorted_wrt le (insort_by le x ys)"
  using assms(3,4)
proof (induction ys)
  case (Cons y ys)
  then have y: "y \<in> A" and IH: "sorted_wrt le (insort_by le x ys)" by auto
  show ?case
  proof (cases "le x y")
    case True
    have "le x z" if "z \<in> set ys" for z
    proof (rule orders_onD(2) [OF assms(1,2) y])
      show "z \<in> A" "le y z" using that Cons.prems by auto
    qed (rule True)
    with True Cons.prems show ?thesis by simp
  next
    case False
    then have "le y x" using orders_onD(1) [OF assms(1,2) y] by blast
    with False Cons.prems IH show ?thesis by simp
  qed
qed simp

lemma sorted_sort_by: "orders_on A le \<Longrightarrow> set xs \<subseteq> A \<Longrightarrow> sorted_wrt le (sort_by le xs)"
proof (induction xs)
  case (Cons x xs)
  then show ?case by (simp add: sorted_insort_by [where A = A])
qed simp

text \<open>A list sorted by a linear order is determined by its elements.\<close>

lemma sorted_wrt_mset_unique:
  assumes "sorted_wrt le xs" "sorted_wrt le ys" "mset xs = mset ys"
    and "\<forall>a\<in>set xs. \<forall>b\<in>set xs. le a b \<longrightarrow> le b a \<longrightarrow> a = b"
  shows "xs = ys"
  using assms
proof (induction xs arbitrary: ys)
  case (Cons x xs)
  then obtain y ys' where ys: "ys = y # ys'" by (cases ys) auto
  have mem: "set (x # xs) = set ys" using Cons.prems(3) by (metis set_mset_mset)
  have "x = y"
  proof (rule ccontr)
    assume ne: "x \<noteq> y"
    then have "x \<in> set ys'" "y \<in> set xs" using mem ys by auto
    then have "le x y" "le y x" using Cons.prems(1,2) ys by auto
    then show False using ne Cons.prems(4) \<open>y \<in> set xs\<close> by (meson list.set_intros)
  qed
  moreover have "xs = ys'"
    by (rule Cons.IH) (use Cons.prems ys \<open>x = y\<close> in simp_all)
  ultimately show ?case using ys by simp
qed simp

lemma sort_by_perm_eq:
  assumes "mset xs = mset ys" "orders_on (set xs) le"
    and "\<forall>a\<in>set xs. \<forall>b\<in>set xs. le a b \<longrightarrow> le b a \<longrightarrow> a = b"
  shows "sort_by le xs = sort_by le ys"
proof (rule sorted_wrt_mset_unique)
  have sets: "set ys = set xs" using assms(1) by (metis set_mset_mset)
  show "sorted_wrt le (sort_by le xs)" by (rule sorted_sort_by [OF assms(2)]) simp
  show "sorted_wrt le (sort_by le ys)" by (rule sorted_sort_by [OF assms(2)]) (simp add: sets)
qed (use assms in simp_all)

section \<open>Objects\<close>

text \<open>
  An object's own enumerable string properties in creation order, as an association list with
  distinct keys. \<open>Object.entries\<close> lists the array indices first, in ascending order, then the
  other keys in creation order. Inherited members of \<open>Object.prototype\<close> are not modelled.
\<close>

type_synonym 'v jsobj = "(string \<times> 'v) list"

definition is_array_index :: "string \<Rightarrow> bool" where
  "is_array_index s = (s = ''0'' \<or>
     (s \<noteq> [] \<and> list_all is_digit s \<and> hd s \<noteq> CHR ''0'' \<and> length s \<le> 10 \<and> nat_of_digits s < 4294967295))"

definition obj_entries :: "'v jsobj \<Rightarrow> (string \<times> 'v) list" where
  "obj_entries ob = sort_by (\<lambda>a b. nat_of_digits (fst a) \<le> nat_of_digits (fst b)) (filter (\<lambda>e. is_array_index (fst e)) ob)
     @ filter (\<lambda>e. \<not> is_array_index (fst e)) ob"

definition obj_keys :: "'v jsobj \<Rightarrow> string list" where
  "obj_keys ob = map fst (obj_entries ob)"

definition obj_from_entries :: "(string \<times> 'v) list \<Rightarrow> 'v jsobj" where
  "obj_from_entries es = foldl (\<lambda>ob e. AList.update (fst e) (snd e) ob) [] es"

lemma set_obj_entries [simp]: "set (obj_entries ob) = set ob"
  unfolding obj_entries_def set_append set_sort_by set_filter by blast

lemma mset_obj_entries [simp]: "mset (obj_entries ob) = mset ob"
  by (simp only: obj_entries_def mset_append mset_sort_by mset_filter multiset_partition [symmetric])

lemma obj_entries_Nil_iff [simp]: "obj_entries ob = [] \<longleftrightarrow> ob = []"
  by (metis mset_obj_entries mset_zero_iff)

lemma distinct_obj_entries [simp]: "distinct (map fst (obj_entries ob)) = distinct (map fst ob)"
  by (metis mset_map mset_obj_entries mset_eq_imp_distinct_iff)

lemma map_of_obj_entries [simp]:
  "distinct (map fst ob) \<Longrightarrow> map_of (obj_entries ob) = map_of ob"
  by (intro map_of_inject_set [THEN iffD2]) auto

lemma foldl_update_fresh:
  "distinct (map fst acc @ map fst es) \<Longrightarrow>
   foldl (\<lambda>ob e. AList.update (fst e) (snd e) ob) acc es = acc @ es"
proof (induction es arbitrary: acc)
  case (Cons e es)
  have "AList.update (fst e) (snd e) acc = acc @ [e]"
    using Cons.prems by (induction acc) auto
  with Cons.IH [of "acc @ [e]"] Cons.prems show ?case by auto
qed simp

lemma obj_from_entries_distinct [simp]:
  "distinct (map fst es) \<Longrightarrow> obj_from_entries es = es"
  using foldl_update_fresh [of "[]" es] by (simp add: obj_from_entries_def)

lemma map_of_update_alist [simp]: "map_of (AList.update k v m) = (map_of m)(k \<mapsto> v)"
  by (simp add: update_conv')

lemma distinct_update_alist [simp]:
  "distinct (map fst m) \<Longrightarrow> distinct (map fst (AList.update k v m))"
  by (rule distinct_update)

text \<open>The interface of a collation, \<open>a.localeCompare(b) <= 0\<close>, on a set of strings it separates.\<close>

locale collation =
  fixes coll :: "string \<Rightarrow> string \<Rightarrow> bool" and K :: "string set"
  assumes coll_total: "a \<in> K \<Longrightarrow> b \<in> K \<Longrightarrow> coll a b \<or> coll b a"
    and coll_trans: "a \<in> K \<Longrightarrow> b \<in> K \<Longrightarrow> c \<in> K \<Longrightarrow> coll a b \<Longrightarrow> coll b c \<Longrightarrow> coll a c"
    and coll_antisym: "a \<in> K \<Longrightarrow> b \<in> K \<Longrightarrow> coll a b \<Longrightarrow> coll b a \<Longrightarrow> a = b"
begin

lemma sort_entries_perm:
  assumes "mset xs = mset ys" "distinct (map fst xs)" "fst ` set xs \<subseteq> K"
  shows "sort_by (\<lambda>a b. coll (fst a) (fst b)) xs = sort_by (\<lambda>a b. coll (fst a) (fst b)) ys"
proof (rule sort_by_perm_eq [OF assms(1)])
  have K: "fst a \<in> K" if "a \<in> set xs" for a using that assms(3) by auto
  show "orders_on (set xs) (\<lambda>a b. coll (fst a) (fst b))"
    unfolding orders_on_def using coll_total coll_trans K by metis
  show "\<forall>a\<in>set xs. \<forall>b\<in>set xs. coll (fst a) (fst b) \<longrightarrow> coll (fst b) (fst a) \<longrightarrow> a = b"
  proof (intro ballI impI)
    fix a b assume ab: "a \<in> set xs" "b \<in> set xs" "coll (fst a) (fst b)" "coll (fst b) (fst a)"
    then have "fst a = fst b" using coll_antisym K by metis
    with ab(1,2) assms(2) show "a = b" by (metis eq_key_imp_eq_value prod.collapse)
  qed
qed

end

lemma collation_mono:
  assumes "collation coll K" "A \<subseteq> K"
  shows "collation coll A"
proof (rule collation.intro)
  fix a b c assume a: "a \<in> A" and b: "b \<in> A"
  then have K: "a \<in> K" "b \<in> K" using assms(2) by blast+
  show "coll a b \<or> coll b a" by (rule collation.coll_total [OF assms(1) K])
  show "coll a b \<Longrightarrow> coll b a \<Longrightarrow> a = b" by (rule collation.coll_antisym [OF assms(1) K])
  assume "c \<in> A"
  with assms(2) have "c \<in> K" by blast
  then show "coll a b \<Longrightarrow> coll b c \<Longrightarrow> coll a c" by (rule collation.coll_trans [OF assms(1) K])
qed

text \<open>The order of code units is a collation; it is the one the concrete instances evaluate.\<close>

interpretation code_units: collation "(\<le>)" K for K
  by unfold_locales auto

text \<open>What \<open>Array.find\<close> returns.\<close>

lemma find_Some_mem: "List.find P xs = Some x \<Longrightarrow> x \<in> set xs \<and> P x"
  by (induction xs) (auto split: if_splits)

text \<open>
  Inverting a chain of fallible steps: \<open>step_ok\<close> turns "the whole chain succeeded" into "every step did",
  one equation per step, without splitting the failing branches.
\<close>

lemma step_ok:
  "(case x of Inl e \<Rightarrow> Inl e | Inr y \<Rightarrow> f y) = Inr z \<longleftrightarrow> (\<exists>y. x = Inr y \<and> f y = Inr z)"
  "(case w of None \<Rightarrow> Inl e | Some v \<Rightarrow> g v) = Inr z \<longleftrightarrow> (\<exists>v. w = Some v \<and> g v = Inr z)"
  "(if b then Inl e else r) = Inr z \<longleftrightarrow> \<not> b \<and> r = Inr z"
  by (auto split: sum.split option.split)

end
