(* ===== verification/Json.thy ===== *)
theory Json
  imports Prelude
begin

text \<open>
  Values of type \<open>unknown\<close> (a parsed request body) and the serialisation of string lists with
  \<open>JSON.stringify\<close>, on which the argv hash and the reference key rest. \<open>JNonInt\<close> is any number
  that is not an integer: the sources only ask \<open>Number.isInteger\<close> of it. The serialisation is
  proved injective, so equal keys mean equal contents.
\<close>

datatype jsval = JUndef | JNull | JBool bool | JInt int | JNonInt | JStr string
  | JArr "jsval list" | JObj "(string \<times> jsval) list"

text \<open>\<open>!value || typeof value !== 'object' || Array.isArray(value)\<close> is false exactly on objects.\<close>

fun as_object :: "jsval \<Rightarrow> jsval jsobj option" where
  "as_object (JObj ob) = Some ob"
| "as_object _ = None"

text \<open>Reading a member; absent ones are \<open>undefined\<close>.\<close>

definition member :: "jsval jsobj \<Rightarrow> string \<Rightarrow> jsval" where
  "member ob k = (case map_of ob k of None \<Rightarrow> JUndef | Some v \<Rightarrow> v)"

fun as_string :: "jsval \<Rightarrow> string option" where
  "as_string (JStr s) = Some s"
| "as_string _ = None"

fun as_array :: "jsval \<Rightarrow> jsval list option" where
  "as_array (JArr xs) = Some xs"
| "as_array _ = None"

text \<open>\<open>Object.keys(ob).some(key => !allowed.includes(key))\<close>\<close>

definition has_unknown_key :: "jsval jsobj \<Rightarrow> string list \<Rightarrow> bool" where
  "has_unknown_key ob allowed = list_ex (\<lambda>k. k \<notin> set allowed) (obj_keys ob)"

lemma has_unknown_key_iff: "has_unknown_key ob allowed \<longleftrightarrow> \<not> fst ` set ob \<subseteq> set allowed"
  by (auto simp: has_unknown_key_def obj_keys_def list_ex_iff image_iff)

section \<open>Serialisation of strings\<close>

definition hex_digit :: "nat \<Rightarrow> char" where
  "hex_digit n = (if n < 10 then char_of (48 + n) else char_of (87 + n))"

definition json_esc :: "char \<Rightarrow> string" where
  "json_esc c = (let n = (of_char c :: nat); bs = CHR 0x5C in
     if c = CHR 0x22 then [bs, CHR 0x22]
     else if c = bs then [bs, bs]
     else if n = 8 then [bs, CHR ''b'']
     else if n = 9 then [bs, CHR ''t'']
     else if n = 10 then [bs, CHR ''n'']
     else if n = 12 then [bs, CHR ''f'']
     else if n = 13 then [bs, CHR ''r'']
     else if n < 32 then [bs, CHR ''u'', CHR ''0'', CHR ''0'', hex_digit (n div 16), hex_digit (n mod 16)]
     else [c])"

definition json_quote :: "string \<Rightarrow> string" where
  "json_quote s = CHR 0x22 # concat (map json_esc s) @ [CHR 0x22]"

definition json_array :: "string list \<Rightarrow> string" where
  "json_array xs = CHR ''['' # join [CHR '',''] xs @ [CHR '']'']"

definition json_strings :: "string list \<Rightarrow> string" where
  "json_strings xs = json_array (map json_quote xs)"

text \<open>Reading one escaped character back.\<close>

definition hex_value :: "char \<Rightarrow> nat" where
  "hex_value c = (let n = (of_char c :: nat) in if n < 58 then n - 48 else n - 87)"

fun json_unesc :: "string \<Rightarrow> (char \<times> string) option" where
  "json_unesc [] = None"
| "json_unesc (c # r) =
     (if c = CHR 0x22 then None
      else if c \<noteq> CHR 0x5C then Some (c, r)
      else case r of
        [] \<Rightarrow> None
      | e # r' \<Rightarrow>
          if e = CHR ''b'' then Some (char_of (8::nat), r')
          else if e = CHR ''t'' then Some (char_of (9::nat), r')
          else if e = CHR ''n'' then Some (char_of (10::nat), r')
          else if e = CHR ''f'' then Some (char_of (12::nat), r')
          else if e = CHR ''r'' then Some (char_of (13::nat), r')
          else if e = CHR ''u'' then
            (case r' of a # b # x # y # r'' \<Rightarrow> Some (char_of (16 * hex_value x + hex_value y), r'') | _ \<Rightarrow> None)
          else Some (e, r'))"

lemma hex_value_digit: "n < 16 \<Longrightarrow> hex_value (hex_digit n) = n"
  by (simp add: hex_value_def hex_digit_def)

lemma json_unesc_esc: "json_unesc (json_esc c @ r) = Some (c, r)"
proof -
  have char: "char_of (of_char c :: nat) = c" by simp
  have code: "c = char_of n" if "(of_char c :: nat) = n" for n using that char by metis
  have hex: "16 * hex_value (hex_digit (of_char c div 16)) + hex_value (hex_digit (of_char c mod 16)) = of_char c"
    if "(of_char c :: nat) < 32" using that by (simp add: hex_value_digit)
  show ?thesis
    by (auto simp: json_esc_def Let_def hex dest: code)
qed

lemma json_esc_quote: "json_unesc (CHR 0x22 # t) = None"
  by simp

lemma json_chars_inject:
  "concat (map json_esc s) @ CHR 0x22 # t = concat (map json_esc s') @ CHR 0x22 # t' \<Longrightarrow> s = s' \<and> t = t'"
proof (induction s arbitrary: s')
  case Nil
  show ?case
  proof (cases s')
    case (Cons c cs)
    with Nil have "json_unesc (CHR 0x22 # t) = json_unesc (json_esc c @ concat (map json_esc cs) @ CHR 0x22 # t')"
      by simp
    then show ?thesis unfolding json_unesc_esc json_esc_quote by simp
  qed (use Nil in simp)
next
  case (Cons c cs)
  have *: "json_unesc (json_esc c @ concat (map json_esc cs) @ CHR 0x22 # t) = Some (c, concat (map json_esc cs) @ CHR 0x22 # t)"
    by (rule json_unesc_esc)
  show ?case
  proof (cases s')
    case Nil
    with Cons.prems * show ?thesis by (simp add: json_esc_quote)
  next
    case (Cons d ds)
    have "json_unesc (json_esc d @ concat (map json_esc ds) @ CHR 0x22 # t') = Some (d, concat (map json_esc ds) @ CHR 0x22 # t')"
      by (rule json_unesc_esc)
    with * Cons.prems Cons have "c = d" "concat (map json_esc cs) @ CHR 0x22 # t = concat (map json_esc ds) @ CHR 0x22 # t'"
      by simp_all
    with Cons.IH Cons show ?thesis by blast
  qed
qed

lemma json_quote_inject:
  "json_quote s @ t = json_quote s' @ t' \<longleftrightarrow> s = s' \<and> t = t'"
  using json_chars_inject [of s t s' t'] by (auto simp: json_quote_def)

lemma json_quote_hd: "json_quote s @ t \<noteq> []" "hd (json_quote s @ t) = CHR 0x22"
  by (simp_all add: json_quote_def)

text \<open>A list of quoted strings is determined by its serialisation, whatever follows it.\<close>

lemma join_quotes_inject:
  "join [CHR '',''] (map json_quote xs) @ CHR '']'' # t = join [CHR '',''] (map json_quote ys) @ CHR '']'' # t'
   \<Longrightarrow> xs = ys \<and> t = t'"
proof (induction xs arbitrary: ys)
  case Nil
  show ?case
  proof (cases ys)
    case (Cons y ys')
    then obtain r where "join [CHR '',''] (map json_quote ys) = json_quote y @ r" by (cases ys') auto
    with Nil have "CHR '']'' # t = json_quote y @ r @ CHR '']'' # t'" by simp
    then show ?thesis by (simp add: json_quote_def)
  qed (use Nil in simp)
next
  case (Cons x xs)
  obtain r where x: "join [CHR '',''] (map json_quote (x # xs)) = json_quote x @ r" by (cases xs) auto
  show ?case
  proof (cases ys)
    case Nil
    with x Cons.prems have "json_quote x @ r @ CHR '']'' # t = CHR '']'' # t'" by simp
    then show ?thesis by (simp add: json_quote_def)
  next
    case ys: (Cons y ys')
    show ?thesis
    proof (cases xs; cases ys')
      assume "xs = []" "ys' = []"
      with Cons.prems ys show ?thesis by (simp add: json_quote_inject)
    next
      fix b bs assume "xs = []" "ys' = b # bs"
      with Cons.prems ys show ?thesis by (simp add: json_quote_inject)
    next
      fix b bs assume "xs = b # bs" "ys' = []"
      with Cons.prems ys show ?thesis by (simp add: json_quote_inject)
    next
      fix a as b bs assume ab: "xs = a # as" "ys' = b # bs"
      then have "x = y" and "join [CHR '',''] (map json_quote xs) @ CHR '']'' # t = join [CHR '',''] (map json_quote ys') @ CHR '']'' # t'"
        using Cons.prems ys by (simp_all add: json_quote_inject)
      with Cons.IH ys show ?thesis by blast
    qed
  qed
qed

lemma json_strings_inject: "json_strings xs = json_strings ys \<longleftrightarrow> xs = ys"
  using join_quotes_inject [of xs "[]" ys "[]"] by (auto simp: json_strings_def json_array_def)

section \<open>Serialisation of values\<close>

text \<open>
  \<open>JSON.stringify\<close> of a value: members that are \<open>undefined\<close> are left out, \<open>undefined\<close> elements of an
  array are \<open>null\<close>. The text of a number that is no integer is not modelled (\<open>0.5\<close> stands for it).
\<close>

fun json_stringify :: "jsval \<Rightarrow> string" where
  "json_stringify JUndef = ''null''"
| "json_stringify JNull = ''null''"
| "json_stringify (JBool b) = (if b then ''true'' else ''false'')"
| "json_stringify (JInt i) = string_of_int i"
| "json_stringify JNonInt = ''0.5''"
| "json_stringify (JStr s) = json_quote s"
| "json_stringify (JArr xs) = json_array (map json_stringify xs)"
| "json_stringify (JObj ob) = CHR ''{'' # join '','' (map (\<lambda>e. json_quote (fst e) @ '':'' @ fst (snd e))
     (filter (\<lambda>e. snd (snd e)) (obj_entries (map (\<lambda>(k, v). (k, (json_stringify v, v \<noteq> JUndef))) ob)))) @ ''}''"

text \<open>Objects built from optional members.\<close>

definition opt_member :: "string \<Rightarrow> ('a \<Rightarrow> jsval) \<Rightarrow> 'a option \<Rightarrow> jsval jsobj" where
  "opt_member k f v = (case v of None \<Rightarrow> [] | Some x \<Rightarrow> [(k, f x)])"

lemma opt_member_simps [simp]: "opt_member k f None = []" "opt_member k f (Some x) = [(k, f x)]"
  by (simp_all add: opt_member_def)

end
