(* ===== verification/Types.thy ===== *)
theory Types
  imports Json
begin

text \<open>
  The data model of \<open>packages/core/src/types\<close>: grants, grant requests, authorization details,
  execution contexts and token claims. An optional member is an \<open>option\<close>; a numeric time or
  duration is an integer number of seconds; a string enumeration is a datatype.
\<close>

section \<open>Enumerations\<close>

datatype policy_mode = ModeOpen | ModeAllowlistAdmin | ModeAllowlistUser | ModeDeny

datatype actor_type = Human | Agent

datatype grant_type = Once | Timed | Always

datatype grant_status = Pending | Approved | Denied | Revoked | Expired | Used | Withdrawn

datatype grant_category = CommandGrant | DelegationGrant | StandingGrant

datatype risk = Low | Medium | High | Critical

text \<open>The risk levels in the order of the code's \<open>RISK_ORDER\<close> tables.\<close>

fun risk_rank :: "risk \<Rightarrow> nat" where
  "risk_rank Low = 0"
| "risk_rank Medium = 1"
| "risk_rank High = 2"
| "risk_rank Critical = 3"

instantiation risk :: linorder
begin

definition less_eq_risk :: "risk \<Rightarrow> risk \<Rightarrow> bool" where
  "less_eq_risk a b = (risk_rank a \<le> risk_rank b)"

definition less_risk :: "risk \<Rightarrow> risk \<Rightarrow> bool" where
  "less_risk a b = (risk_rank a < risk_rank b)"

instance
proof
  fix x y z :: risk
  show "(x < y) = (x \<le> y \<and> \<not> y \<le> x)" by (auto simp: less_eq_risk_def less_risk_def)
  show "x \<le> x" by (simp add: less_eq_risk_def)
  show "x \<le> y \<Longrightarrow> y \<le> z \<Longrightarrow> x \<le> z" by (simp add: less_eq_risk_def)
  show "x \<le> y \<Longrightarrow> y \<le> x \<Longrightarrow> x = y" by (cases x; cases y) (simp_all add: less_eq_risk_def)
  show "x \<le> y \<or> y \<le> x" by (auto simp: less_eq_risk_def)
qed

end

lemma risk_le_iff: "a \<le> b \<longleftrightarrow> risk_rank a \<le> risk_rank b" for a b :: risk
  by (simp add: less_eq_risk_def)

lemma risk_less_iff: "a < b \<longleftrightarrow> risk_rank a < risk_rank b" for a b :: risk
  by (simp add: less_risk_def)

lemmas risk_order_simps = risk_le_iff risk_less_iff

section \<open>Authorization details\<close>

type_synonym selector = "string jsobj"

record resource_ref =
  rr_resource :: string
  rr_selector :: "selector option"

record cli_constraints =
  cc_exact_command :: "bool option"
  cc_single_use :: "bool option"

record cli_detail =
  cd_type :: string
  cd_cli_id :: string
  cd_operation_id :: string
  cd_resource_chain :: "resource_ref list"
  cd_action :: string
  cd_approval :: "grant_type option"
  cd_reason :: "string option"
  cd_grant_id :: "string option"
  cd_permission :: string
  cd_display :: string
  cd_risk :: risk
  cd_constraints :: "cli_constraints option"

record grant_detail =
  gd_action :: string
  gd_locations :: "string list option"
  gd_approval :: "grant_type option"
  gd_reason :: "string option"
  gd_grant_id :: "string option"

datatype auth_detail = CliDetail cli_detail | GrantDetail grant_detail

text \<open>
  The details of type \<open>openape_cli\<close>, as every \<open>cliDetails\<close> helper of the sources filters them.
\<close>

fun cli_of :: "auth_detail \<Rightarrow> cli_detail list" where
  "cli_of (CliDetail d) = (if cd_type d = ''openape_cli'' then [d] else [])"
| "cli_of (GrantDetail g) = []"

definition cliDetails :: "auth_detail list option \<Rightarrow> cli_detail list" where
  "cliDetails details = concat (map cli_of (nullish details []))"

section \<open>Execution contexts and requests\<close>

record exec_context =
  ec_files :: "(string \<times> string) list option"
  ec_argv :: "string list option"
  ec_argv_hash :: "string option"
  ec_adapter_id :: string
  ec_adapter_version :: string
  ec_adapter_digest :: string
  ec_adapter_owner :: "string option"
  ec_adapter_domain :: "string option"
  ec_resolved_executable :: string
  ec_context_bindings :: "string jsobj option"
  ec_program_sha256 :: "string option"
  ec_version_tested :: "bool option"

record grant_batch =
  gb_id :: string
  gb_title :: "string option"
  gb_description :: "string option"
  gb_size :: "int option"

record grant_summary =
  gs_title :: string
  gs_description :: "string option"
  gs_origin :: "string option"
  gs_link :: "string option"

record grant_submitter =
  sub_delegate :: string
  sub_delegation_grant :: string

text \<open>
  Members a stored standing-grant body carries beside those of an ordinary request
  (\<open>StandingGrantRequest\<close>); an ordinary request has none of them.
\<close>

record standing_fields =
  sf_type :: "string option"
  sf_owner :: "string option"
  sf_cli_id :: "string option"
  sf_template :: "resource_ref list option"
  sf_action :: "string option"
  sf_max_risk :: "risk option"

record grant_request =
  rq_reference :: "string option"
  rq_requester :: string
  rq_target_host :: string
  rq_audience :: string
  rq_grant_type :: "grant_type option"
  rq_permissions :: "string list option"
  rq_authorization_details :: "auth_detail list option"
  rq_command :: "string list option"
  rq_cmd_hash :: "string option"
  rq_execution_context :: "exec_context option"
  rq_duration :: "int option"
  rq_reason :: "string option"
  rq_waits_until :: "int option"
  rq_summary :: "grant_summary option"
  rq_batch :: "grant_batch option"
  rq_submitted_by :: "grant_submitter option"
  rq_run_as :: "string option"
  rq_delegator :: "string option"
  rq_delegate :: "string option"
  rq_scopes :: "string list option"
  rq_standing :: "standing_fields option"

record brokered_grant =
  bg_connection_id :: string
  bg_broker_issuer :: string
  bg_agent_issuer :: string
  bg_owner :: string
  bg_key_id :: string
  bg_requester_name :: "string option"

record grant =
  gr_brokered :: "brokered_grant option"
  gr_id :: string
  gr_category :: "grant_category option"
  gr_request :: grant_request
  gr_status :: grant_status
  gr_decided_by :: "string option"
  gr_created_at :: int
  gr_decided_at :: "int option"
  gr_expires_at :: "int option"
  gr_used_at :: "int option"
  gr_withdraw_reason :: "string option"
  gr_decided_by_standing_grant :: "string option"
  gr_auto_approval_kind :: "string option"

text \<open>An ordinary request with only its required members, the base of the concrete instances.\<close>

definition plain_request :: "string \<Rightarrow> string \<Rightarrow> string \<Rightarrow> grant_request" where
  "plain_request requester host aud = \<lparr>rq_reference = None, rq_requester = requester, rq_target_host = host,
     rq_audience = aud, rq_grant_type = None, rq_permissions = None, rq_authorization_details = None,
     rq_command = None, rq_cmd_hash = None, rq_execution_context = None, rq_duration = None, rq_reason = None,
     rq_waits_until = None, rq_summary = None, rq_batch = None, rq_submitted_by = None, rq_run_as = None,
     rq_delegator = None, rq_delegate = None, rq_scopes = None, rq_standing = None\<rparr>"

text \<open>A grant as it is created: the given id, request, status and time, nothing else set.\<close>

definition new_grant :: "string \<Rightarrow> grant_category option \<Rightarrow> grant_request \<Rightarrow> grant_status \<Rightarrow> int \<Rightarrow> grant" where
  "new_grant gid cat request st created = \<lparr>gr_brokered = None, gr_id = gid, gr_category = cat, gr_request = request,
     gr_status = st, gr_decided_by = None, gr_created_at = created, gr_decided_at = None, gr_expires_at = None,
     gr_used_at = None, gr_withdraw_reason = None, gr_decided_by_standing_grant = None, gr_auto_approval_kind = None\<rparr>"

lemma new_grant_simps [simp]:
  "gr_id (new_grant i c r s t) = i" "gr_request (new_grant i c r s t) = r"
  "gr_status (new_grant i c r s t) = s" "gr_created_at (new_grant i c r s t) = t"
  "gr_category (new_grant i c r s t) = c" "gr_brokered (new_grant i c r s t) = None"
  "gr_expires_at (new_grant i c r s t) = None" "gr_decided_by (new_grant i c r s t) = None"
  "gr_used_at (new_grant i c r s t) = None" "gr_decided_at (new_grant i c r s t) = None"
  by (simp_all add: new_grant_def)

lemma cliDetails_type: "d \<in> set (cliDetails ds) \<Longrightarrow> cd_type d = ''openape_cli''"
proof -
  have "d \<in> set (cli_of x) \<Longrightarrow> cd_type d = ''openape_cli''" for x
    by (cases x) (auto split: if_splits)
  then show "d \<in> set (cliDetails ds) \<Longrightarrow> cd_type d = ''openape_cli''"
    unfolding cliDetails_def by auto
qed

lemma cliDetails_simps [simp]:
  "cliDetails None = []" "cliDetails (Some []) = []"
  "cliDetails (Some (x # xs)) = cli_of x @ cliDetails (Some xs)"
  by (simp_all add: cliDetails_def)

end
