(* ===== verification/Globs.thy ===== *)
theory Globs
  imports Prelude
begin

text \<open>
  The glob patterns that three parts of the sources compile to a regular expression. Escaping makes
  every character other than the wildcards stand for itself, so the compiled expression is a sequence
  of atoms: a literal, \<open>.\<close> (\<open>One\<close>), \<open>.*\<close> (\<open>Run\<close>) and \<open>[^/]*\<close> (\<open>SegRun\<close>). Without the \<open>s\<close> flag \<open>.\<close>
  matches no line terminator, which are \<open>\n\<close> and \<open>\r\<close> in Latin-1. \<open>glob_match\<close> is \<open>^...$\<close> on
  the whole input; \<open>glob_match_pieces\<close> is its specification.
\<close>

datatype glob_atom = Lit char | One | Run | SegRun

definition line_end :: "char \<Rightarrow> bool" where
  "line_end c = (c = CHR 0x0A \<or> c = CHR 0x0D)"

fun glob_match :: "glob_atom list \<Rightarrow> string \<Rightarrow> bool" where
  "glob_match [] s = (s = [])"
| "glob_match (Lit c # as) s = (case s of [] \<Rightarrow> False | x # xs \<Rightarrow> x = c \<and> glob_match as xs)"
| "glob_match (One # as) s = (case s of [] \<Rightarrow> False | x # xs \<Rightarrow> \<not> line_end x \<and> glob_match as xs)"
| "glob_match (Run # as) s = (glob_match as s \<or>
     (case s of [] \<Rightarrow> False | x # xs \<Rightarrow> \<not> line_end x \<and> glob_match (Run # as) xs))"
| "glob_match (SegRun # as) s = (glob_match as s \<or>
     (case s of [] \<Rightarrow> False | x # xs \<Rightarrow> x \<noteq> CHR ''/'' \<and> glob_match (SegRun # as) xs))"

text \<open>What one atom may stand for, and the specification of a match as a sequence of such pieces.\<close>

fun glob_piece :: "glob_atom \<Rightarrow> string \<Rightarrow> bool" where
  "glob_piece (Lit c) p = (p = [c])"
| "glob_piece One p = (\<exists>x. p = [x] \<and> \<not> line_end x)"
| "glob_piece Run p = (\<forall>x\<in>set p. \<not> line_end x)"
| "glob_piece SegRun p = (CHR ''/'' \<notin> set p)"

lemma glob_match_Run:
  "glob_match (Run # as) s \<longleftrightarrow> (\<exists>p t. s = p @ t \<and> glob_piece Run p \<and> glob_match as t)"
proof (induction s)
  case Nil
  then show ?case by simp
next
  case (Cons x xs)
  have "(\<exists>p t. x # xs = p @ t \<and> glob_piece Run p \<and> glob_match as t) \<longleftrightarrow>
        glob_match as (x # xs) \<or> (\<not> line_end x \<and> (\<exists>p t. xs = p @ t \<and> glob_piece Run p \<and> glob_match as t))"
    (is "?L = ?R")
  proof
    assume ?L
    then obtain p t where pt: "x # xs = p @ t" "glob_piece Run p" "glob_match as t" by blast
    then show ?R by (cases p) auto
  next
    assume ?R
    then show ?L
    proof
      assume "glob_match as (x # xs)"
      then have "x # xs = [] @ (x # xs) \<and> glob_piece Run [] \<and> glob_match as (x # xs)" by simp
      then show ?L by blast
    next
      assume "\<not> line_end x \<and> (\<exists>p t. xs = p @ t \<and> glob_piece Run p \<and> glob_match as t)"
      then obtain p t where "x # xs = (x # p) @ t" "glob_piece Run (x # p)" "glob_match as t" by auto
      then show ?L by blast
    qed
  qed
  with Cons show ?case by simp
qed

lemma glob_match_SegRun:
  "glob_match (SegRun # as) s \<longleftrightarrow> (\<exists>p t. s = p @ t \<and> glob_piece SegRun p \<and> glob_match as t)"
proof (induction s)
  case Nil
  then show ?case by simp
next
  case (Cons x xs)
  have "(\<exists>p t. x # xs = p @ t \<and> glob_piece SegRun p \<and> glob_match as t) \<longleftrightarrow>
        glob_match as (x # xs) \<or> (x \<noteq> CHR ''/'' \<and> (\<exists>p t. xs = p @ t \<and> glob_piece SegRun p \<and> glob_match as t))"
    (is "?L = ?R")
  proof
    assume ?L
    then obtain p t where pt: "x # xs = p @ t" "glob_piece SegRun p" "glob_match as t" by blast
    then show ?R by (cases p) auto
  next
    assume ?R
    then show ?L
    proof
      assume "glob_match as (x # xs)"
      then have "x # xs = [] @ (x # xs) \<and> glob_piece SegRun [] \<and> glob_match as (x # xs)" by simp
      then show ?L by blast
    next
      assume "x \<noteq> CHR ''/'' \<and> (\<exists>p t. xs = p @ t \<and> glob_piece SegRun p \<and> glob_match as t)"
      then obtain p t where "x # xs = (x # p) @ t" "glob_piece SegRun (x # p)" "glob_match as t" by auto
      then show ?L by blast
    qed
  qed
  with Cons show ?case by simp
qed

lemma glob_match_Cons:
  "glob_match (a # as) s \<longleftrightarrow> (\<exists>p t. s = p @ t \<and> glob_piece a p \<and> glob_match as t)"
proof (cases a)
  case (Lit c)
  then show ?thesis by (cases s) auto
next
  case One
  have "(\<exists>p t. s = p @ t \<and> glob_piece One p \<and> glob_match as t) \<longleftrightarrow>
        (\<exists>x t. s = x # t \<and> \<not> line_end x \<and> glob_match as t)"
    unfolding glob_piece.simps by (metis append_Cons append_Nil)
  with One show ?thesis by (auto split: list.splits)
qed (simp_all only: glob_match_Run glob_match_SegRun)

lemma glob_match_pieces:
  "glob_match as s \<longleftrightarrow> (\<exists>ps. s = concat ps \<and> list_all2 glob_piece as ps)"
proof (induction as arbitrary: s)
  case (Cons a as)
  have "(\<exists>ps. s = concat ps \<and> list_all2 glob_piece (a # as) ps) \<longleftrightarrow>
        (\<exists>p t. s = p @ t \<and> glob_piece a p \<and> (\<exists>ps. t = concat ps \<and> list_all2 glob_piece as ps))"
    (is "?L = ?R")
  proof
    assume ?R
    then obtain p ps where "s = concat (p # ps)" "list_all2 glob_piece (a # as) (p # ps)" by auto
    then show ?L by blast
  next
    assume ?L
    then obtain ps where ps: "s = concat ps" "list_all2 glob_piece (a # as) ps" by blast
    then obtain p qs where "ps = p # qs" "glob_piece a p" "list_all2 glob_piece as qs"
      by (auto simp: list_all2_Cons1)
    with ps(1) have "s = p @ concat qs \<and> glob_piece a p \<and> list_all2 glob_piece as qs" by simp
    then show ?R by blast
  qed
  then show ?case unfolding glob_match_Cons Cons by (rule sym)
qed simp

lemma glob_match_append:
  "glob_match (as @ bs) s \<longleftrightarrow> (\<exists>s1 s2. s = s1 @ s2 \<and> glob_match as s1 \<and> glob_match bs s2)"
proof (induction as arbitrary: s)
  case (Cons a as)
  show ?case
    unfolding append_Cons glob_match_Cons Cons by (metis append.assoc)
qed simp

lemma glob_match_lits: "glob_match (map Lit p) s \<longleftrightarrow> s = p"
  by (induction p arbitrary: s) (auto split: list.splits)

section \<open>Patterns whose only wildcard is the star\<close>

definition star_atoms :: "string \<Rightarrow> glob_atom list" where
  "star_atoms g = map (\<lambda>c. if c = CHR ''*'' then Run else Lit c) g"

lemma star_atoms_simps [simp]:
  "star_atoms [] = []" "star_atoms (c # g) = (if c = CHR ''*'' then Run else Lit c) # star_atoms g"
  "star_atoms (g @ h) = star_atoms g @ star_atoms h"
  by (simp_all add: star_atoms_def)

lemma star_atoms_no_star: "CHR ''*'' \<notin> set g \<Longrightarrow> star_atoms g = map Lit g"
  by (auto simp: star_atoms_def)

lemma star_atoms_no_line_end:
  "glob_match (star_atoms p) s \<Longrightarrow> \<forall>x\<in>set p. \<not> line_end x \<Longrightarrow> \<forall>x\<in>set s. \<not> line_end x"
proof (induction p arbitrary: s)
  case (Cons c p)
  then obtain q t where "s = q @ t" "glob_piece (if c = CHR ''*'' then Run else Lit c) q" "glob_match (star_atoms p) t"
    unfolding star_atoms_simps glob_match_Cons by blast
  with Cons show ?case by (auto split: if_splits)
qed simp

lemma star_match_trans:
  "glob_match (star_atoms v) w \<Longrightarrow> glob_match (star_atoms w) u \<Longrightarrow> glob_match (star_atoms v) u"
proof (induction v arbitrary: w u)
  case (Cons c v)
  then obtain p t where w: "w = p @ t" "glob_piece (if c = CHR ''*'' then Run else Lit c) p" "glob_match (star_atoms v) t"
    unfolding star_atoms_simps glob_match_Cons by blast
  then obtain u1 u2 where u: "u = u1 @ u2" "glob_match (star_atoms p) u1" "glob_match (star_atoms t) u2"
    using Cons.prems(2) by (auto simp: glob_match_append)
  have "glob_piece (if c = CHR ''*'' then Run else Lit c) u1"
  proof (cases "c = CHR ''*''")
    case True
    with star_atoms_no_line_end [OF u(2)] w(2) show ?thesis by simp
  next
    case False
    with w(2) u(2) glob_match_lits [of "[c]" u1] show ?thesis by simp
  qed
  moreover have "glob_match (star_atoms v) u2" by (rule Cons.IH [OF w(3) u(3)])
  ultimately show ?case unfolding star_atoms_simps glob_match_Cons using u(1) by blast
qed simp

lemma star_match_refl: "\<forall>c\<in>set v. \<not> line_end c \<Longrightarrow> glob_match (star_atoms v) v"
proof (induction v)
  case (Cons c v)
  have "glob_piece (if c = CHR ''*'' then Run else Lit c) [c]" using Cons.prems by auto
  moreover have "glob_match (star_atoms v) v" using Cons by simp
  ultimately have "c # v = [c] @ v \<and> glob_piece (if c = CHR ''*'' then Run else Lit c) [c] \<and> glob_match (star_atoms v) v"
    by simp
  then show ?case unfolding star_atoms_simps glob_match_Cons by blast
qed simp

end
