(* ===== verification/CliPermissions.thy ===== *)
theory CliPermissions
  imports Types Globs
begin

text \<open>
  \<open>packages/grants/src/cli-permissions.ts\<close>: the canonical permission string of a CLI authorization
  detail, its validation, and the relations on details the rest of the server decides with:
  covering, similarity, widening and merging. \<open>coll a b\<close> is \<open>a.localeCompare(b) <= 0\<close>, which the
  language leaves to the implementation; \<open>sha\<close> is the hexadecimal SHA-256 of a string's UTF-8 bytes.
\<close>

section \<open>Canonical form\<close>

definition normalizeSelector :: "(string \<Rightarrow> string \<Rightarrow> bool) \<Rightarrow> selector option \<Rightarrow> selector option" where
  "normalizeSelector coll sel = (case sel of None \<Rightarrow> None | Some s \<Rightarrow>
     let entries = sort_by (\<lambda>a b. coll (fst a) (fst b)) (filter (\<lambda>e. snd e \<noteq> []) (obj_entries s))
     in if entries = [] then None else Some (obj_from_entries entries))"

definition selectorString :: "(string \<Rightarrow> string \<Rightarrow> bool) \<Rightarrow> selector option \<Rightarrow> string" where
  "selectorString coll sel = (case normalizeSelector coll sel of None \<Rightarrow> ''*''
     | Some n \<Rightarrow> join '','' (map (\<lambda>e. fst e @ ''='' @ snd e) (obj_entries n)))"

definition chainString :: "(string \<Rightarrow> string \<Rightarrow> bool) \<Rightarrow> resource_ref list \<Rightarrow> string" where
  "chainString coll chain =
     join ''.'' (map (\<lambda>r. rr_resource r @ ''['' @ selectorString coll (rr_selector r) @ '']'') chain)"

definition canonicalizeCliPermission ::
  "(string \<Rightarrow> string \<Rightarrow> bool) \<Rightarrow> string \<Rightarrow> resource_ref list \<Rightarrow> string \<Rightarrow> string" where
  "canonicalizeCliPermission coll cli_id chain action = cli_id @ ''.'' @ chainString coll chain @ ''#'' @ action"

abbreviation canonical :: "(string \<Rightarrow> string \<Rightarrow> bool) \<Rightarrow> cli_detail \<Rightarrow> string" where
  "canonical coll d \<equiv> canonicalizeCliPermission coll (cd_cli_id d) (cd_resource_chain d) (cd_action d)"

section \<open>Covering\<close>

definition selectorValueMatches :: "string \<Rightarrow> string \<Rightarrow> bool" where
  "selectorValueMatches granted required =
     (if CHR ''*'' \<notin> set granted then granted = required
      else if length granted > 256 then False
      else glob_match (star_atoms granted) required)"

definition resourceRefCovers :: "(string \<Rightarrow> string \<Rightarrow> bool) \<Rightarrow> resource_ref \<Rightarrow> resource_ref \<Rightarrow> bool" where
  "resourceRefCovers coll granted required =
     (if rr_resource granted \<noteq> rr_resource required then False
      else case normalizeSelector coll (rr_selector granted) of
        None \<Rightarrow> True
      | Some gs \<Rightarrow> (case normalizeSelector coll (rr_selector required) of
          None \<Rightarrow> False
        | Some rs \<Rightarrow> list_all (\<lambda>e. case map_of rs (fst e) of None \<Rightarrow> False
              | Some req \<Rightarrow> selectorValueMatches (snd e) req) (obj_entries gs)))"

definition isCliAuthorizationDetailExact :: "cli_detail \<Rightarrow> bool" where
  "isCliAuthorizationDetailExact d =
     (case cd_constraints d of None \<Rightarrow> False | Some c \<Rightarrow> cc_exact_command c = Some True)"

definition cliAuthorizationDetailCovers :: "(string \<Rightarrow> string \<Rightarrow> bool) \<Rightarrow> cli_detail \<Rightarrow> cli_detail \<Rightarrow> bool" where
  "cliAuthorizationDetailCovers coll granted required =
     (if cd_type granted \<noteq> ''openape_cli'' \<or> cd_type required \<noteq> ''openape_cli'' then False
      else if cd_cli_id granted \<noteq> cd_cli_id required then False
      else if cd_action granted \<noteq> cd_action required then False
      else if length (cd_resource_chain granted) > length (cd_resource_chain required) then False
      else list_all (\<lambda>(g, r). resourceRefCovers coll g r)
             (zip (cd_resource_chain granted) (cd_resource_chain required)))"

section \<open>Similarity, widening and merging\<close>

definition resourceChainsStructurallyMatch :: "resource_ref list \<Rightarrow> resource_ref list \<Rightarrow> bool" where
  "resourceChainsStructurallyMatch a b =
     (if length a \<noteq> length b then False else list_all (\<lambda>(x, y). rr_resource x = rr_resource y) (zip a b))"

text \<open>The loop reads \<open>b[i]\<close> for every \<open>i\<close> below the length of \<open>a\<close>: its callers pass chains of equal length.\<close>

definition findDifferingSelectors ::
  "(string \<Rightarrow> string \<Rightarrow> bool) \<Rightarrow> resource_ref list \<Rightarrow> resource_ref list \<Rightarrow> nat list" where
  "findDifferingSelectors coll a b =
     filter (\<lambda>i. selectorString coll (rr_selector (a ! i)) \<noteq> selectorString coll (rr_selector (b ! i))) [0..<length a]"

definition cliAuthorizationDetailIsSimilar ::
  "(string \<Rightarrow> string \<Rightarrow> bool) \<Rightarrow> cli_detail \<Rightarrow> cli_detail \<Rightarrow> bool" where
  "cliAuthorizationDetailIsSimilar coll existing incoming =
     (if cd_type existing \<noteq> ''openape_cli'' \<or> cd_type incoming \<noteq> ''openape_cli'' then False
      else if cd_cli_id existing \<noteq> cd_cli_id incoming then False
      else if cd_action existing \<noteq> cd_action incoming then False
      else if \<not> resourceChainsStructurallyMatch (cd_resource_chain existing) (cd_resource_chain incoming) then False
      else if cliAuthorizationDetailCovers coll existing incoming then False
      else length (findDifferingSelectors coll (cd_resource_chain existing) (cd_resource_chain incoming)) > 0)"

definition widened_chain :: "(string \<Rightarrow> string \<Rightarrow> bool) \<Rightarrow> resource_ref list \<Rightarrow> resource_ref list \<Rightarrow> resource_ref list" where
  "widened_chain coll a b = (let differing = findDifferingSelectors coll a b in
     map (\<lambda>(i, r). if i \<in> set differing then \<lparr>rr_resource = rr_resource r, rr_selector = None\<rparr> else r)
       (zip [0..<length a] a))"

definition widenCliAuthorizationDetail ::
  "(string \<Rightarrow> string \<Rightarrow> bool) \<Rightarrow> cli_detail \<Rightarrow> cli_detail \<Rightarrow> cli_detail" where
  "widenCliAuthorizationDetail coll existing incoming =
     (let chain = widened_chain coll (cd_resource_chain existing) (cd_resource_chain incoming) in
      existing\<lparr>cd_resource_chain := chain,
        cd_permission := canonicalizeCliPermission coll (cd_cli_id existing) chain (cd_action existing),
        cd_display := cd_display existing @ '' (widened)''\<rparr>)"

definition merge_step ::
  "(string \<Rightarrow> string \<Rightarrow> bool) \<Rightarrow> (string \<times> cli_detail) list \<Rightarrow> cli_detail \<Rightarrow> (string \<times> cli_detail) list" where
  "merge_step coll byPermission detail = (let key = canonical coll detail in
     if map_of byPermission key = None then AList.update key (detail\<lparr>cd_permission := key\<rparr>) byPermission
     else byPermission)"

definition mergeCliAuthorizationDetails ::
  "(string \<Rightarrow> string \<Rightarrow> bool) \<Rightarrow> cli_detail list list \<Rightarrow> cli_detail list" where
  "mergeCliAuthorizationDetails coll detailSets =
     map snd (foldl (merge_step coll) [] (concat detailSets))"

definition computeArgvHash :: "(string \<Rightarrow> string) \<Rightarrow> string list \<Rightarrow> string" where
  "computeArgvHash sha argv = ''SHA-256:'' @ sha (json_strings argv)"

section \<open>What a selector says\<close>

text \<open>
  A selector is a finite set of demands \<open>key = value\<close>; entries with an empty value say nothing.
  \<open>sel_fields\<close> is that partial function, and covering is stated over it alone: neither the order of
  the keys nor the collation has a part in it.
\<close>

definition sel_fields :: "selector option \<Rightarrow> string \<Rightarrow> string option" where
  "sel_fields sel = (case sel of None \<Rightarrow> Map.empty | Some s \<Rightarrow> map_of (filter (\<lambda>e. snd e \<noteq> []) s))"

definition sel_wf :: "selector option \<Rightarrow> bool" where
  "sel_wf sel = (case sel of None \<Rightarrow> True | Some s \<Rightarrow> distinct (map fst s))"

definition chain_wf :: "resource_ref list \<Rightarrow> bool" where
  "chain_wf chain = list_all (\<lambda>r. sel_wf (rr_selector r)) chain"

lemma sel_wf_simps [simp]: "sel_wf None" "sel_wf (Some s) = distinct (map fst s)"
  by (simp_all add: sel_wf_def)

lemma chain_wf_simps [simp]:
  "chain_wf []" "chain_wf (r # rs) = (sel_wf (rr_selector r) \<and> chain_wf rs)"
  by (simp_all add: chain_wf_def)

lemma chain_wfD: "chain_wf chain \<Longrightarrow> r \<in> set chain \<Longrightarrow> sel_wf (rr_selector r)"
  by (auto simp: chain_wf_def list_all_iff)

definition ref_covers_spec :: "resource_ref \<Rightarrow> resource_ref \<Rightarrow> bool" where
  "ref_covers_spec g r \<longleftrightarrow> rr_resource g = rr_resource r \<and>
     (\<forall>k v. sel_fields (rr_selector g) k = Some v \<longrightarrow>
       (\<exists>w. sel_fields (rr_selector r) k = Some w \<and> selectorValueMatches v w))"

definition covers_spec :: "cli_detail \<Rightarrow> cli_detail \<Rightarrow> bool" where
  "covers_spec g r \<longleftrightarrow> cd_type g = ''openape_cli'' \<and> cd_type r = ''openape_cli'' \<and>
     cd_cli_id g = cd_cli_id r \<and> cd_action g = cd_action r \<and>
     (\<exists>pre post. cd_resource_chain r = pre @ post \<and> list_all2 ref_covers_spec (cd_resource_chain g) pre)"

lemma distinct_filter_fst: "distinct (map fst s) \<Longrightarrow> distinct (map fst (filter P s))"
  by (induction s) auto

lemma filter_obj_entries_mset: "mset (filter P (obj_entries s)) = mset (filter P s)"
  by (simp add: mset_filter)

lemma distinct_map_fst_mset: "mset xs = mset ys \<Longrightarrow> distinct (map fst xs) = distinct (map fst ys)"
  by (metis mset_map mset_eq_imp_distinct_iff)

lemma map_of_mset_eq: "mset xs = mset ys \<Longrightarrow> distinct (map fst xs) \<Longrightarrow> map_of xs = map_of ys"
  by (metis distinct_map_fst_mset map_of_inject_set mset_eq_setD)

lemma normalizeSelector_mset:
  assumes "sel_wf (Some s)" "normalizeSelector coll (Some s) = Some n"
  shows "mset n = mset (filter (\<lambda>e. snd e \<noteq> []) s)" "distinct (map fst n)"
proof -
  let ?es = "sort_by (\<lambda>a b. coll (fst a) (fst b)) (filter (\<lambda>e. snd e \<noteq> []) (obj_entries s))"
  have m: "mset ?es = mset (filter (\<lambda>e. snd e \<noteq> []) s)" by (simp add: filter_obj_entries_mset)
  then have d: "distinct (map fst ?es)" using assms(1) distinct_filter_fst distinct_map_fst_mset
    by (metis sel_wf_simps(2))
  have "n = obj_from_entries ?es" using assms(2) by (simp add: normalizeSelector_def Let_def split: if_splits)
  then have "n = ?es" using d by simp
  with m d show "mset n = mset (filter (\<lambda>e. snd e \<noteq> []) s)" "distinct (map fst n)" by simp_all
qed

lemma normalizeSelector_None_iff:
  "normalizeSelector coll sel = None \<longleftrightarrow> sel_fields sel = Map.empty"
proof (cases sel)
  case (Some s)
  have "normalizeSelector coll (Some s) = None \<longleftrightarrow> (\<forall>e\<in>set s. snd e = [])"
    by (simp add: normalizeSelector_def Let_def filter_empty_conv)
  moreover have "sel_fields sel = Map.empty \<longleftrightarrow> (\<forall>e\<in>set s. snd e = [])"
    using Some by (simp add: sel_fields_def filter_empty_conv)
  ultimately show ?thesis using Some by simp
qed (simp add: normalizeSelector_def sel_fields_def)

lemma normalizeSelector_Some:
  assumes "sel_wf sel" "normalizeSelector coll sel = Some n"
  shows "map_of n = sel_fields sel" "distinct (map fst n)" "\<forall>e\<in>set n. snd e \<noteq> []" "n \<noteq> []"
proof -
  obtain s where s: "sel = Some s" using assms(2) by (cases sel) (auto simp: normalizeSelector_def)
  note n = normalizeSelector_mset [OF assms(1) [unfolded s] assms(2) [unfolded s]]
  show fields: "map_of n = sel_fields sel" unfolding s sel_fields_def using map_of_mset_eq [OF n] by simp
  show "distinct (map fst n)" by (rule n(2))
  have "set n = set (filter (\<lambda>e. snd e \<noteq> []) s)" by (rule mset_eq_setD [OF n(1)])
  then show "\<forall>e\<in>set n. snd e \<noteq> []" by auto
  have "sel_fields sel \<noteq> Map.empty" using assms(2) normalizeSelector_None_iff by (metis option.distinct(1))
  then show "n \<noteq> []" using fields by auto
qed

lemma sel_fields_mset:
  assumes "sel_wf (Some s)" "sel_wf (Some s')" "sel_fields (Some s) = sel_fields (Some s')"
  shows "mset (filter (\<lambda>e. snd e \<noteq> []) s) = mset (filter (\<lambda>e. snd e \<noteq> []) s')"
proof -
  let ?f = "filter (\<lambda>e. snd e \<noteq> ([]::string))"
  have d: "distinct (map fst (?f s))" "distinct (map fst (?f s'))"
    using assms distinct_filter_fst unfolding sel_wf_simps by blast+
  then have "set (?f s) = set (?f s')"
    using assms(3) by (simp add: sel_fields_def map_of_inject_set)
  moreover have "distinct (?f s)" "distinct (?f s')" using d by (simp_all only: distinct_map)
  ultimately show ?thesis by (simp only: set_eq_iff_mset_eq_distinct)
qed

text \<open>Selectors that say the same have the same normal form.\<close>

lemma normalizeSelector_cong:
  assumes "collation coll (dom (sel_fields sel))" "sel_wf sel" "sel_wf sel'" "sel_fields sel = sel_fields sel'"
  shows "normalizeSelector coll sel = normalizeSelector coll sel'"
proof (cases "sel_fields sel = Map.empty")
  case True
  with assms(4) normalizeSelector_None_iff show ?thesis by metis
next
  case False
  then obtain s s' where s: "sel = Some s" "sel' = Some s'" using assms(4)
    by (cases sel; cases sel') (auto simp: sel_fields_def)
  let ?f = "\<lambda>s. filter (\<lambda>e. snd e \<noteq> []) (obj_entries s)"
  have m: "mset (?f s) = mset (?f s')"
    unfolding filter_obj_entries_mset by (rule sel_fields_mset) (use assms s in simp_all)
  have "sort_by (\<lambda>a b. coll (fst a) (fst b)) (?f s) = sort_by (\<lambda>a b. coll (fst a) (fst b)) (?f s')"
  proof (rule collation.sort_entries_perm [OF assms(1) m])
    show "distinct (map fst (?f s))" using assms(2) s by (simp add: distinct_filter_fst)
    show "fst ` set (?f s) \<subseteq> dom (sel_fields sel)"
      using s by (auto simp: sel_fields_def dom_map_of_conv_image_fst image_iff)
  qed
  then show ?thesis using s by (simp add: normalizeSelector_def Let_def)
qed

lemma selectorString_cong:
  assumes "collation coll (dom (sel_fields sel))" "sel_wf sel" "sel_wf sel'" "sel_fields sel = sel_fields sel'"
  shows "selectorString coll sel = selectorString coll sel'"
  unfolding selectorString_def normalizeSelector_cong [OF assms] ..

section \<open>Covering, restated over what selectors say\<close>

lemma list_all_obj_entries:
  assumes "distinct (map fst n)"
  shows "list_all (\<lambda>e. case m (fst e) of None \<Rightarrow> False | Some w \<Rightarrow> P (snd e) w) (obj_entries n) \<longleftrightarrow>
   (\<forall>k v. map_of n k = Some v \<longrightarrow> (\<exists>w. m k = Some w \<and> P v w))"
proof -
  have "(case m k of None \<Rightarrow> False | Some w \<Rightarrow> P v w) \<longleftrightarrow> (\<exists>w. m k = Some w \<and> P v w)" for k v
    by (cases "m k") simp_all
  then show ?thesis by (simp add: list_all_iff map_of_eq_Some_iff [OF assms] Ball_def split_paired_All)
qed

lemma resourceRefCovers_iff:
  assumes "sel_wf (rr_selector g)" "sel_wf (rr_selector r)"
  shows "resourceRefCovers coll g r \<longleftrightarrow> ref_covers_spec g r"
proof (cases "normalizeSelector coll (rr_selector g)")
  case None
  then have "sel_fields (rr_selector g) = Map.empty" by (simp add: normalizeSelector_None_iff)
  with None show ?thesis by (auto simp: resourceRefCovers_def ref_covers_spec_def)
next
  case g: (Some gs)
  note gn = normalizeSelector_Some [OF assms(1) g]
  show ?thesis
  proof (cases "normalizeSelector coll (rr_selector r)")
    case None
    then have "sel_fields (rr_selector r) = Map.empty" by (simp add: normalizeSelector_None_iff)
    moreover have "sel_fields (rr_selector g) \<noteq> Map.empty"
      using g normalizeSelector_None_iff by (metis option.distinct(1))
    then have "\<exists>k v. sel_fields (rr_selector g) k = Some v" by (metis not_None_eq ext)
    ultimately show ?thesis using g None by (simp add: resourceRefCovers_def ref_covers_spec_def)
  next
    case r: (Some rs)
    note rn = normalizeSelector_Some [OF assms(2) r]
    have "resourceRefCovers coll g r \<longleftrightarrow> rr_resource g = rr_resource r \<and>
      list_all (\<lambda>e. case map_of rs (fst e) of None \<Rightarrow> False | Some w \<Rightarrow> selectorValueMatches (snd e) w) (obj_entries gs)"
      using g r by (simp add: resourceRefCovers_def)
    then show ?thesis
      unfolding ref_covers_spec_def list_all_obj_entries [OF gn(2)] gn(1) rn(1) .
  qed
qed

lemma list_all_zip_prefix:
  "length xs \<le> length ys \<Longrightarrow>
   list_all (\<lambda>(x, y). P x y) (zip xs ys) \<longleftrightarrow> (\<exists>pre post. ys = pre @ post \<and> list_all2 P xs pre)"
proof (induction xs arbitrary: ys)
  case (Cons x xs)
  then obtain y ys' where ys: "ys = y # ys'" by (cases ys) auto
  have "(\<exists>pre post. ys = pre @ post \<and> list_all2 P (x # xs) pre) \<longleftrightarrow>
        P x y \<and> (\<exists>pre post. ys' = pre @ post \<and> list_all2 P xs pre)" (is "?L = ?R")
  proof
    assume ?L
    then obtain pre post where "ys = pre @ post" "list_all2 P (x # xs) pre" by blast
    with ys have "y # ys' = pre @ post" "list_all2 P (x # xs) pre" by simp_all
    then have "P x y \<and> ys' = tl pre @ post \<and> list_all2 P xs (tl pre)" by (cases pre) simp_all
    then show ?R by blast
  next
    assume ?R
    then obtain pre post where "ys' = pre @ post" "list_all2 P (x # xs) (y # pre)" by auto
    then have "ys = (y # pre) @ post \<and> list_all2 P (x # xs) (y # pre)" using ys by simp
    then show ?L by blast
  qed
  with Cons ys show ?case by simp
qed simp

lemma list_all2_cong_wf:
  assumes "chain_wf as" "chain_wf bs"
  shows "list_all2 (resourceRefCovers coll) as bs = list_all2 ref_covers_spec as bs"
  using assms by (induction as bs rule: list_induct2') (simp_all add: resourceRefCovers_iff)

lemma covers_iff_spec:
  assumes "chain_wf (cd_resource_chain g)" "chain_wf (cd_resource_chain r)"
  shows "cliAuthorizationDetailCovers coll g r \<longleftrightarrow> covers_spec g r"
proof (cases "length (cd_resource_chain g) \<le> length (cd_resource_chain r)")
  case True
  have wf: "chain_wf pre" if "cd_resource_chain r = pre @ post" for pre post
    using assms(2) that by (simp add: chain_wf_def)
  have "list_all (\<lambda>(x, y). resourceRefCovers coll x y) (zip (cd_resource_chain g) (cd_resource_chain r)) =
      (\<exists>pre post. cd_resource_chain r = pre @ post \<and> list_all2 ref_covers_spec (cd_resource_chain g) pre)"
    unfolding list_all_zip_prefix [OF True] using list_all2_cong_wf [OF assms(1) wf] by metis
  then show ?thesis unfolding cliAuthorizationDetailCovers_def covers_spec_def using True by auto
next
  case False
  have "\<not> covers_spec g r"
  proof
    assume "covers_spec g r"
    then obtain pre post where "cd_resource_chain r = pre @ post" "list_all2 ref_covers_spec (cd_resource_chain g) pre"
      unfolding covers_spec_def by blast
    with False list_all2_lengthD show False by fastforce
  qed
  with False show ?thesis by (simp add: cliAuthorizationDetailCovers_def)
qed

lemma selectorValueMatches_trans:
  "selectorValueMatches v w \<Longrightarrow> selectorValueMatches w u \<Longrightarrow> selectorValueMatches v u"
proof -
  assume vw: "selectorValueMatches v w" and wu: "selectorValueMatches w u"
  have "glob_match (star_atoms w) u"
    using wu glob_match_lits [of w u] by (auto simp: selectorValueMatches_def star_atoms_no_star split: if_splits)
  with vw wu show ?thesis using star_match_trans by (auto simp: selectorValueMatches_def split: if_splits)
qed

lemma ref_covers_spec_trans: "ref_covers_spec a b \<Longrightarrow> ref_covers_spec b c \<Longrightarrow> ref_covers_spec a c"
  unfolding ref_covers_spec_def using selectorValueMatches_trans by metis

lemma covers_spec_trans:
  assumes "covers_spec a b" "covers_spec b c"
  shows "covers_spec a c"
proof -
  obtain p1 q1 where b: "cd_resource_chain b = p1 @ q1" "list_all2 ref_covers_spec (cd_resource_chain a) p1"
    using assms(1) unfolding covers_spec_def by blast
  obtain p2 q2 where c: "cd_resource_chain c = p2 @ q2" "list_all2 ref_covers_spec (cd_resource_chain b) p2"
    using assms(2) unfolding covers_spec_def by blast
  obtain r1 r2 where r: "p2 = r1 @ r2" "list_all2 ref_covers_spec p1 r1"
    using c(2) unfolding b(1) list_all2_append1 by blast
  have "list_all2 ref_covers_spec (cd_resource_chain a) r1"
    by (rule list_all2_trans [OF ref_covers_spec_trans b(2) r(2)])
  moreover have "cd_resource_chain c = r1 @ (r2 @ q2)" using c(1) r(1) by simp
  ultimately show ?thesis using assms unfolding covers_spec_def by metis
qed

text \<open>Values that match themselves: the others hold a star and are too long, or a line terminator.\<close>

definition self_matching :: "string \<Rightarrow> bool" where
  "self_matching v = (CHR ''*'' \<notin> set v \<or> length v \<le> 256 \<and> (\<forall>c\<in>set v. \<not> line_end c))"

definition chain_self_matching :: "resource_ref list \<Rightarrow> bool" where
  "chain_self_matching chain =
     list_all (\<lambda>r. list_all (\<lambda>e. self_matching (snd e)) (nullish (rr_selector r) [])) chain"

lemma selectorValueMatches_refl: "self_matching v \<Longrightarrow> selectorValueMatches v v"
  by (auto simp: self_matching_def selectorValueMatches_def star_match_refl)

lemma ref_covers_spec_refl:
  assumes "list_all (\<lambda>e. self_matching (snd e)) (nullish (rr_selector r) [])"
  shows "ref_covers_spec r r"
proof -
  have "selectorValueMatches v v" if "sel_fields (rr_selector r) k = Some v" for k v
    using that assms by (fastforce simp: sel_fields_def list_all_iff split: option.splits
      intro!: selectorValueMatches_refl dest!: map_of_SomeD)
  then show ?thesis by (auto simp: ref_covers_spec_def)
qed

lemma list_all2_refl_on: "(\<And>x. x \<in> set xs \<Longrightarrow> P x x) \<Longrightarrow> list_all2 P xs xs"
  by (induction xs) auto

lemma covers_spec_refl:
  "cd_type d = ''openape_cli'' \<Longrightarrow> chain_self_matching (cd_resource_chain d) \<Longrightarrow> covers_spec d d"
  unfolding covers_spec_def chain_self_matching_def list_all_iff
  by (metis append_Nil2 list_all2_refl_on list_all_iff ref_covers_spec_refl)

section \<open>The canonical string determines the permission\<close>

text \<open>Details whose parts hold none of the delimiters of the canonical form.\<close>

definition sel_plain :: "selector option \<Rightarrow> bool" where
  "sel_plain sel = list_all (\<lambda>e. CHR '','' \<notin> set (fst e) \<and> CHR ''='' \<notin> set (fst e) \<and> CHR '']'' \<notin> set (fst e) \<and>
     CHR '','' \<notin> set (snd e) \<and> CHR '']'' \<notin> set (snd e)) (nullish sel [])"

definition ref_plain :: "resource_ref \<Rightarrow> bool" where
  "ref_plain r = (CHR ''['' \<notin> set (rr_resource r) \<and> CHR ''#'' \<notin> set (rr_resource r) \<and> sel_plain (rr_selector r))"

definition chain_plain :: "resource_ref list \<Rightarrow> bool" where
  "chain_plain chain = list_all ref_plain chain"

lemma chain_plain_simps [simp]: "chain_plain []" "chain_plain (r # rs) = (ref_plain r \<and> chain_plain rs)"
  by (simp_all add: chain_plain_def)

lemma set_join: "set (join sep xs) \<subseteq> set sep \<union> \<Union> (set ` set xs)"
  by (induction sep xs rule: join.induct) auto

lemma set_join_hd: "set x \<subseteq> set (join sep (x # xs))"
  by (cases xs) auto

lemma normalizeSelector_plain:
  assumes "sel_wf sel" "sel_plain sel" "normalizeSelector coll sel = Some n" "e \<in> set n"
  shows "CHR '','' \<notin> set (fst e)" "CHR ''='' \<notin> set (fst e)" "CHR '']'' \<notin> set (fst e)"
    "CHR '','' \<notin> set (snd e)" "CHR '']'' \<notin> set (snd e)"
proof -
  obtain s where s: "sel = Some s" using assms(3) by (cases sel) (auto simp: normalizeSelector_def)
  have "set n = set (filter (\<lambda>e. snd e \<noteq> []) s)"
    by (rule mset_eq_setD [OF normalizeSelector_mset(1) [OF assms(1) [unfolded s] assms(3) [unfolded s]]])
  with assms(4) have "e \<in> set s" by auto
  then show "CHR '','' \<notin> set (fst e)" "CHR ''='' \<notin> set (fst e)" "CHR '']'' \<notin> set (fst e)"
    "CHR '','' \<notin> set (snd e)" "CHR '']'' \<notin> set (snd e)"
    using assms(2) s by (simp_all add: sel_plain_def list_all_iff)
qed

lemma selectorString_bracket:
  assumes "sel_wf sel" "sel_plain sel"
  shows "CHR '']'' \<notin> set (selectorString coll sel)"
proof (cases "normalizeSelector coll sel")
  case (Some n)
  have "CHR '']'' \<notin> set (fst e @ ''='' @ snd e)" if "e \<in> set n" for e
    using normalizeSelector_plain [OF assms Some that] by simp
  moreover have "set (selectorString coll sel) \<subseteq> set '','' \<union> (\<Union>e\<in>set n. set (fst e @ ''='' @ snd e))"
    using set_join [of "'',''" "map (\<lambda>e. fst e @ ''='' @ snd e) (obj_entries n)"] Some
    by (simp add: selectorString_def)
  ultimately show ?thesis by (elim contra_subsetD) simp
qed (simp add: selectorString_def)

lemma selectorString_star:
  assumes "sel_wf sel" "normalizeSelector coll sel = Some n"
  shows "selectorString coll sel \<noteq> ''*''"
proof -
  obtain e es where "obj_entries n = e # es" using normalizeSelector_Some(4) [OF assms]
    by (metis neq_Nil_conv obj_entries_Nil_iff)
  then have "CHR ''='' \<in> set (selectorString coll sel)"
    using assms(2) set_join_hd [of "fst e @ ''='' @ snd e" "'',''"] by (auto simp: selectorString_def)
  then show ?thesis by auto
qed

lemma entries_inject:
  "map (\<lambda>e. fst e @ CHR ''='' # snd e) xs = map (\<lambda>e. fst e @ CHR ''='' # snd e) ys \<Longrightarrow>
   \<forall>e\<in>set xs. CHR ''='' \<notin> set (fst e) \<Longrightarrow> \<forall>e\<in>set ys. CHR ''='' \<notin> set (fst e) \<Longrightarrow> xs = ys"
proof (induction xs arbitrary: ys)
  case (Cons x xs)
  then obtain y ys' where "ys = y # ys'" by (cases ys) auto
  with Cons show ?case by (simp add: append_sep_inject prod_eq_iff)
qed simp

lemma selectorString_inject:
  assumes "sel_wf a" "sel_wf b" "sel_plain a" "sel_plain b" "selectorString coll a = selectorString coll b"
  shows "sel_fields a = sel_fields b"
proof (cases "normalizeSelector coll a"; cases "normalizeSelector coll b")
  fix n m assume n: "normalizeSelector coll a = Some n" and m: "normalizeSelector coll b = Some m"
  let ?enc = "\<lambda>e. fst e @ CHR ''='' # snd e"
  have "map ?enc (obj_entries n) = map ?enc (obj_entries m)"
  proof (rule join_inject)
    show "join [CHR '',''] (map ?enc (obj_entries n)) = join [CHR '',''] (map ?enc (obj_entries m))"
      using assms(5) n m by (simp add: selectorString_def)
    show "map ?enc (obj_entries n) \<noteq> []" "map ?enc (obj_entries m) \<noteq> []"
      using normalizeSelector_Some(4) [OF assms(1) n] normalizeSelector_Some(4) [OF assms(2) m] by simp_all
    show "\<forall>s\<in>set (map ?enc (obj_entries n)). CHR '','' \<notin> set s"
      using normalizeSelector_plain(1,4) [OF assms(1,3) n] by auto
    show "\<forall>s\<in>set (map ?enc (obj_entries m)). CHR '','' \<notin> set s"
      using normalizeSelector_plain(1,4) [OF assms(2,4) m] by auto
  qed
  then have "obj_entries n = obj_entries m"
  proof (rule entries_inject)
    show "\<forall>e\<in>set (obj_entries n). CHR ''='' \<notin> set (fst e)"
      using normalizeSelector_plain(2) [OF assms(1,3) n] by simp
    show "\<forall>e\<in>set (obj_entries m). CHR ''='' \<notin> set (fst e)"
      using normalizeSelector_plain(2) [OF assms(2,4) m] by simp
  qed
  then have "map_of n = map_of m"
    using normalizeSelector_Some(2) [OF assms(1) n] normalizeSelector_Some(2) [OF assms(2) m] by (metis map_of_obj_entries)
  then show ?thesis using normalizeSelector_Some(1) [OF assms(1) n] normalizeSelector_Some(1) [OF assms(2) m] by simp
next
  fix n assume "normalizeSelector coll a = None" "normalizeSelector coll b = Some n"
  with selectorString_star [OF assms(2), of coll n] assms(5) show ?thesis
    by (simp add: selectorString_def [of coll a])
next
  fix n assume "normalizeSelector coll a = Some n" "normalizeSelector coll b = None"
  with selectorString_star [OF assms(1), of coll n] assms(5) show ?thesis
    by (simp add: selectorString_def [of coll b])
next
  assume "normalizeSelector coll a = None" "normalizeSelector coll b = None"
  then show ?thesis by (simp add: normalizeSelector_None_iff)
qed

lemma chainString_Cons:
  "chainString coll (r # rs) @ t = rr_resource r @ CHR ''['' # selectorString coll (rr_selector r) @ CHR '']'' #
     (if rs = [] then t else CHR ''.'' # chainString coll rs @ t)"
  by (cases rs) (simp_all add: chainString_def)

definition ref_says :: "resource_ref \<Rightarrow> string \<times> (string \<Rightarrow> string option)" where
  "ref_says r = (rr_resource r, sel_fields (rr_selector r))"

lemma chainString_inject:
  assumes "chain_wf xs" "chain_wf ys" "chain_plain xs" "chain_plain ys"
    "chainString coll xs @ CHR ''#'' # a = chainString coll ys @ CHR ''#'' # b"
  shows "map ref_says xs = map ref_says ys \<and> a = b"
  using assms
proof (induction xs arbitrary: ys)
  case Nil
  show ?case
  proof (cases ys)
    case (Cons y ys')
    with Nil.prems show ?thesis
      by (cases "rr_resource y") (auto simp: chainString_Cons ref_plain_def chainString_def [of _ "[]"])
  qed (use Nil.prems in \<open>simp add: chainString_def\<close>)
next
  case (Cons x xs)
  show ?case
  proof (cases ys)
    case Nil
    with Cons.prems show ?thesis
      by (cases "rr_resource x") (auto simp: chainString_Cons ref_plain_def chainString_def [of _ "[]"])
  next
    case ys: (Cons y ys')
    let ?rest = "\<lambda>zs c. if zs = [] then CHR ''#'' # c else CHR ''.'' # chainString coll zs @ CHR ''#'' # c"
    have br: "CHR '']'' \<notin> set (selectorString coll (rr_selector x))" "CHR '']'' \<notin> set (selectorString coll (rr_selector y))"
      using Cons.prems ys by (simp_all add: selectorString_bracket ref_plain_def)
    have eq: "rr_resource x = rr_resource y" "selectorString coll (rr_selector x) = selectorString coll (rr_selector y)"
      "?rest xs a = ?rest ys' b"
      using Cons.prems(5) Cons.prems(3,4) br unfolding ys chainString_Cons
      by (simp_all add: append_sep_inject ref_plain_def)
    have says: "ref_says x = ref_says y"
      using selectorString_inject [OF _ _ _ _ eq(2)] eq(1) Cons.prems ys by (simp add: ref_says_def ref_plain_def)
    show ?thesis
    proof (cases "xs = [] \<or> ys' = []")
      case True
      with eq(3) have "xs = []" "ys' = []" "a = b" by (auto split: if_splits)
      with says ys show ?thesis by simp
    next
      case False
      with eq(3) have "chainString coll xs @ CHR ''#'' # a = chainString coll ys' @ CHR ''#'' # b" by simp
      with Cons.IH [of ys'] Cons.prems ys says show ?thesis by simp
    qed
  qed
qed

text \<open>Two chains that say the same, link by link, have one canonical string.\<close>

lemma chainString_cong:
  assumes "collation coll K" "\<forall>r\<in>set xs. dom (sel_fields (rr_selector r)) \<subseteq> K"
    and "chain_wf xs" "chain_wf ys" "map ref_says xs = map ref_says ys"
  shows "chainString coll xs = chainString coll ys"
proof -
  have link: "rr_resource x @ ''['' @ selectorString coll (rr_selector x) @ '']'' =
      rr_resource y @ ''['' @ selectorString coll (rr_selector y) @ '']''"
    if "x \<in> set xs" "y \<in> set ys" "ref_says x = ref_says y" for x y
  proof -
    have "collation coll (dom (sel_fields (rr_selector x)))"
      by (rule collation_mono [OF assms(1)]) (use assms(2) that(1) in blast)
    moreover have "sel_fields (rr_selector x) = sel_fields (rr_selector y)" using that(3) by (simp add: ref_says_def)
    ultimately have "selectorString coll (rr_selector x) = selectorString coll (rr_selector y)"
      using selectorString_cong chain_wfD [OF assms(3) that(1)] chain_wfD [OF assms(4) that(2)] by blast
    with that(3) show ?thesis by (simp add: ref_says_def)
  qed
  have len: "length xs = length ys" using assms(5) map_eq_imp_length_eq by blast
  have "map (\<lambda>r. rr_resource r @ ''['' @ selectorString coll (rr_selector r) @ '']'') xs =
      map (\<lambda>r. rr_resource r @ ''['' @ selectorString coll (rr_selector r) @ '']'') ys"
  proof (rule nth_equalityI)
    fix i assume i: "i < length (map (\<lambda>r. rr_resource r @ ''['' @ selectorString coll (rr_selector r) @ '']'') xs)"
    then have "i < length xs" "i < length ys" using len by simp_all
    moreover have "map ref_says xs ! i = map ref_says ys ! i" by (simp only: assms(5))
    ultimately have "ref_says (xs ! i) = ref_says (ys ! i)" by (simp only: nth_map)
    then show "map (\<lambda>r. rr_resource r @ ''['' @ selectorString coll (rr_selector r) @ '']'') xs ! i =
        map (\<lambda>r. rr_resource r @ ''['' @ selectorString coll (rr_selector r) @ '']'') ys ! i"
      using link [of "xs ! i" "ys ! i"] i len by simp
  qed (simp add: len)
  then show ?thesis by (simp add: chainString_def)
qed

section \<open>Widening and merging\<close>

lemma ref_covers_spec_says:
  "ref_says a = ref_says b \<Longrightarrow> ref_covers_spec a a \<Longrightarrow> ref_covers_spec a b"
  by (simp add: ref_says_def ref_covers_spec_def)

lemma widened_chain_nth:
  "i < length a \<Longrightarrow> widened_chain coll a b ! i =
     (if selectorString coll (rr_selector (a ! i)) \<noteq> selectorString coll (rr_selector (b ! i))
      then \<lparr>rr_resource = rr_resource (a ! i), rr_selector = None\<rparr> else a ! i)"
  by (simp add: widened_chain_def Let_def findDifferingSelectors_def)

lemma length_widened_chain [simp]: "length (widened_chain coll a b) = length a"
  by (simp add: widened_chain_def Let_def)

lemma chain_wf_widened [intro]: "chain_wf a \<Longrightarrow> chain_wf (widened_chain coll a b)"
  unfolding chain_wf_def list_all_length by (simp add: widened_chain_nth)

lemma ref_covers_spec_wild [simp]: "ref_covers_spec \<lparr>rr_resource = n, rr_selector = None\<rparr> r \<longleftrightarrow> n = rr_resource r"
  by (simp add: ref_covers_spec_def sel_fields_def)

lemma chain_self_matchingD:
  assumes "chain_self_matching a" "r \<in> set a"
  shows "ref_covers_spec r r"
proof (rule ref_covers_spec_refl)
  show "list_all (\<lambda>e. self_matching (snd e)) (nullish (rr_selector r) [])"
    using assms unfolding chain_self_matching_def by (metis (no_types, lifting) Ball_set)
qed

lemma widened_covers_left:
  "chain_self_matching a \<Longrightarrow> list_all2 ref_covers_spec (widened_chain coll a b) a"
  unfolding list_all2_conv_all_nth by (simp add: widened_chain_nth chain_self_matchingD)

lemma widened_covers_right:
  assumes "chain_self_matching a" "chain_wf a" "chain_wf b" "chain_plain a" "chain_plain b"
    "resourceChainsStructurallyMatch a b"
  shows "list_all2 ref_covers_spec (widened_chain coll a b) b"
proof -
  have len: "length a = length b" and res: "rr_resource (a ! i) = rr_resource (b ! i)" if "i < length a" for i
    using assms(6) that by (auto simp: resourceChainsStructurallyMatch_def list_all_length split: if_splits)
  have wf: "sel_wf (rr_selector (a ! i))" "sel_plain (rr_selector (a ! i))"
      "sel_wf (rr_selector (b ! i))" "sel_plain (rr_selector (b ! i))" if "i < length a" for i
    using assms(2-5) that len [OF that] by (auto simp: chain_wf_def chain_plain_def ref_plain_def list_all_length)
  have "ref_covers_spec (widened_chain coll a b ! i) (b ! i)" if i: "i < length a" for i
  proof (cases "selectorString coll (rr_selector (a ! i)) = selectorString coll (rr_selector (b ! i))")
    case True
    have "sel_fields (rr_selector (a ! i)) = sel_fields (rr_selector (b ! i))"
      by (rule selectorString_inject [OF wf(1,3,2,4) [OF i] True])
    then have "ref_says (a ! i) = ref_says (b ! i)" using res [OF i] by (simp only: ref_says_def)
    then have "ref_covers_spec (a ! i) (b ! i)"
      by (rule ref_covers_spec_says) (rule chain_self_matchingD [OF assms(1) nth_mem [OF i]])
    with True i show ?thesis by (simp add: widened_chain_nth)
  qed (use res i in \<open>simp add: widened_chain_nth\<close>)
  moreover have "length a = length b"
    using assms(6) by (auto simp: resourceChainsStructurallyMatch_def split: if_splits)
  ultimately show ?thesis unfolding list_all2_conv_all_nth length_widened_chain by blast
qed

fun keep_first :: "('a \<Rightarrow> 'b) \<Rightarrow> 'a list \<Rightarrow> 'a list" where
  "keep_first f [] = []"
| "keep_first f (x # xs) = x # filter (\<lambda>y. f y \<noteq> f x) (keep_first f xs)"

lemma keep_first_filter: "keep_first f (filter (\<lambda>y. Q (f y)) xs) = filter (\<lambda>y. Q (f y)) (keep_first f xs)"
  by (induction xs) (auto simp: filter_filter conj_commute intro!: filter_cong)

lemma image_keep_first: "f ` set (keep_first f xs) = f ` set xs"
proof (induction xs)
  case (Cons x xs)
  have "insert (f x) (f ` {y \<in> A. f y \<noteq> f x}) = insert (f x) (f ` A)" for A by auto
  with Cons show ?case by simp
qed simp

lemma set_keep_first: "set (keep_first f xs) \<subseteq> set xs"
  by (induction xs) auto

lemma distinct_keep_first: "distinct (map f (keep_first f xs))"
  by (induction xs) (auto simp: distinct_filter_fst distinct_map inj_on_def)

lemma merge_fold:
  "foldl (merge_step coll) acc xs = acc @ map (\<lambda>d. (canonical coll d, d\<lparr>cd_permission := canonical coll d\<rparr>))
     (keep_first (canonical coll) (filter (\<lambda>d. canonical coll d \<notin> fst ` set acc) xs))"
proof (induction xs arbitrary: acc)
  case (Cons x xs)
  show ?case
  proof (cases "canonical coll x \<in> fst ` set acc")
    case True
    then have "merge_step coll acc x = acc" by (simp add: merge_step_def map_of_eq_None_iff)
    with True Cons show ?thesis by simp
  next
    case False
    have "AList.update (canonical coll x) d acc = acc @ [(canonical coll x, d)]" for d
      using False by (induction acc) auto
    then have step: "merge_step coll acc x = acc @ [(canonical coll x, x\<lparr>cd_permission := canonical coll x\<rparr>)]"
      using False by (simp add: merge_step_def Let_def map_of_eq_None_iff)
    let ?rest = "filter (\<lambda>d. canonical coll d \<notin> fst ` set acc) xs"
    have "filter (\<lambda>d. canonical coll d \<notin> fst ` set (merge_step coll acc x)) xs =
        filter (\<lambda>d. canonical coll d \<noteq> canonical coll x) ?rest"
      unfolding filter_filter by (rule filter_cong) (auto simp: step)
    then have "keep_first (canonical coll) (filter (\<lambda>d. canonical coll d \<notin> fst ` set (merge_step coll acc x)) xs) =
        filter (\<lambda>d. canonical coll d \<noteq> canonical coll x) (keep_first (canonical coll) ?rest)"
      by (simp only: keep_first_filter [of "canonical coll" "\<lambda>k. k \<noteq> canonical coll x"])
    then show ?thesis using False unfolding foldl_Cons Cons.IH by (simp add: step)
  qed
qed simp

lemma merge_eq:
  "mergeCliAuthorizationDetails coll sets =
     map (\<lambda>d. d\<lparr>cd_permission := canonical coll d\<rparr>) (keep_first (canonical coll) (concat sets))"
  by (simp add: mergeCliAuthorizationDetails_def merge_fold)

lemma merge_keeps:
  assumes "d \<in> set (concat sets)"
  obtains m where "m \<in> set (mergeCliAuthorizationDetails coll sets)" "canonical coll m = canonical coll d"
    "cd_resource_chain m \<in> cd_resource_chain ` set (concat sets)" "cd_cli_id m \<in> cd_cli_id ` set (concat sets)"
    "cd_type m \<in> cd_type ` set (concat sets)"
proof -
  have "canonical coll d \<in> canonical coll ` set (keep_first (canonical coll) (concat sets))"
    unfolding image_keep_first by (rule imageI [OF assms])
  then obtain x where x: "x \<in> set (keep_first (canonical coll) (concat sets))" "canonical coll x = canonical coll d"
    by (metis (no_types, lifting) imageE)
  have sub: "x \<in> set (concat sets)" by (rule subsetD [OF set_keep_first x(1)])
  show thesis
  proof (rule that)
    show "x\<lparr>cd_permission := canonical coll x\<rparr> \<in> set (mergeCliAuthorizationDetails coll sets)"
      unfolding merge_eq set_map by (rule imageI [OF x(1)])
  qed (use x(2) sub in simp_all)
qed

lemma covers_spec_says:
  assumes "cd_type g = ''openape_cli''" "cd_type r = ''openape_cli''" "cd_cli_id g = cd_cli_id r" "cd_action g = cd_action r"
    and "map ref_says (cd_resource_chain g) = map ref_says (cd_resource_chain r)" "chain_self_matching (cd_resource_chain g)"
  shows "covers_spec g r"
proof -
  have len: "length (cd_resource_chain g) = length (cd_resource_chain r)"
    using map_eq_imp_length_eq [OF assms(5)] .
  have "ref_covers_spec (cd_resource_chain g ! i) (cd_resource_chain r ! i)" if i: "i < length (cd_resource_chain g)" for i
  proof (rule ref_covers_spec_says)
    have "map ref_says (cd_resource_chain g) ! i = map ref_says (cd_resource_chain r) ! i" by (simp only: assms(5))
    then show "ref_says (cd_resource_chain g ! i) = ref_says (cd_resource_chain r ! i)" using i len by simp
    show "ref_covers_spec (cd_resource_chain g ! i) (cd_resource_chain g ! i)"
      by (rule chain_self_matchingD [OF assms(6) nth_mem [OF i]])
  qed
  then have "list_all2 ref_covers_spec (cd_resource_chain g) (cd_resource_chain r)"
    unfolding list_all2_conv_all_nth using len by blast
  moreover have "cd_resource_chain r = cd_resource_chain r @ []" by simp
  ultimately show ?thesis unfolding covers_spec_def using assms(1-4) by blast
qed

lemma canonical_inject:
  assumes "CHR ''.'' \<notin> set (cd_cli_id a)" "CHR ''.'' \<notin> set (cd_cli_id b)"
    "chain_wf (cd_resource_chain a)" "chain_wf (cd_resource_chain b)"
    "chain_plain (cd_resource_chain a)" "chain_plain (cd_resource_chain b)" "canonical coll a = canonical coll b"
  shows "cd_cli_id a = cd_cli_id b \<and> cd_action a = cd_action b \<and>
    map ref_says (cd_resource_chain a) = map ref_says (cd_resource_chain b)"
proof -
  have "cd_cli_id a @ CHR ''.'' # (chainString coll (cd_resource_chain a) @ CHR ''#'' # cd_action a) =
        cd_cli_id b @ CHR ''.'' # (chainString coll (cd_resource_chain b) @ CHR ''#'' # cd_action b)"
    using assms(7) by (simp add: canonicalizeCliPermission_def)
  then have "cd_cli_id a = cd_cli_id b" and
      *: "chainString coll (cd_resource_chain a) @ CHR ''#'' # cd_action a =
       chainString coll (cd_resource_chain b) @ CHR ''#'' # cd_action b"
    by (simp_all only: append_sep_inject [OF assms(1,2)])
  with chainString_inject [OF assms(3-6) *] show ?thesis by blast
qed

lemma merge_distinct: "distinct (map cd_permission (mergeCliAuthorizationDetails coll sets))"
proof -
  have "map cd_permission (mergeCliAuthorizationDetails coll sets) =
      map (canonical coll) (keep_first (canonical coll) (concat sets))"
    by (simp add: merge_eq comp_def)
  then show ?thesis by (simp only: distinct_keep_first)
qed

lemma merge_covers_sets:
  assumes "\<forall>d\<in>set (concat sets). cd_type d = ''openape_cli'' \<and> CHR ''.'' \<notin> set (cd_cli_id d) \<and>
      chain_wf (cd_resource_chain d) \<and> chain_plain (cd_resource_chain d) \<and> chain_self_matching (cd_resource_chain d)"
  shows "\<forall>d\<in>set (concat sets). \<exists>m\<in>set (mergeCliAuthorizationDetails coll sets). cliAuthorizationDetailCovers coll m d"
proof (intro ballI)
  fix d assume d: "d \<in> set (concat sets)"
  then obtain m where m: "m \<in> set (mergeCliAuthorizationDetails coll sets)" "canonical coll m = canonical coll d"
    "cd_resource_chain m \<in> cd_resource_chain ` set (concat sets)" "cd_cli_id m \<in> cd_cli_id ` set (concat sets)"
    "cd_type m \<in> cd_type ` set (concat sets)"
    by (rule merge_keeps)
  have pm: "CHR ''.'' \<notin> set (cd_cli_id m)" "chain_wf (cd_resource_chain m)" "chain_plain (cd_resource_chain m)"
      "chain_self_matching (cd_resource_chain m)" "cd_type m = ''openape_cli''"
    using m(3-5) assms by fastforce+
  have pd: "CHR ''.'' \<notin> set (cd_cli_id d)" "chain_wf (cd_resource_chain d)" "chain_plain (cd_resource_chain d)"
      "cd_type d = ''openape_cli''"
    using assms d by blast+
  have "covers_spec m d"
    using canonical_inject [OF pm(1) pd(1) pm(2) pd(2) pm(3) pd(3) m(2)] covers_spec_says [OF pm(5) pd(4)] pm(4) by blast
  then have "cliAuthorizationDetailCovers coll m d" using pm(2) pd(2) by (simp add: covers_iff_spec)
  with m(1) show "\<exists>m\<in>set (mergeCliAuthorizationDetails coll sets). cliAuthorizationDetailCovers coll m d" by blast
qed

text \<open>A detail with only its permission given, the base of the concrete instances.\<close>

definition simple_detail :: "string \<Rightarrow> resource_ref list \<Rightarrow> string \<Rightarrow> cli_detail" where
  "simple_detail cli chain action = \<lparr>cd_type = ''openape_cli'', cd_cli_id = cli, cd_operation_id = ''op'',
     cd_resource_chain = chain, cd_action = action, cd_approval = None, cd_reason = None, cd_grant_id = None,
     cd_permission = [], cd_display = ''op'', cd_risk = Low, cd_constraints = None\<rparr>"

definition ref :: "string \<Rightarrow> (string \<times> string) list \<Rightarrow> resource_ref" where
  "ref n s = \<lparr>rr_resource = n, rr_selector = Some s\<rparr>"

lemma simple_detail_simps [simp]:
  "cd_type (simple_detail c ch a) = ''openape_cli''" "cd_cli_id (simple_detail c ch a) = c"
  "cd_resource_chain (simple_detail c ch a) = ch" "cd_action (simple_detail c ch a) = a"
  "cd_constraints (simple_detail c ch a) = None"
  "rr_resource (ref n s) = n" "rr_selector (ref n s) = Some s"
  by (simp_all add: simple_detail_def ref_def)

lemma sel_fields_Cons:
  "sel_fields (Some ((k, v) # s)) = (if v = [] then sel_fields (Some s) else (sel_fields (Some s))(k \<mapsto> v))"
  "sel_fields (Some []) = Map.empty"
  by (simp_all add: sel_fields_def)

lemmas canonical_eval = canonicalizeCliPermission_def chainString_def selectorString_def normalizeSelector_def
  obj_entries_def is_array_index_def is_digit_def obj_from_entries_def Let_def

lemmas covers_eval = cliAuthorizationDetailCovers_def resourceRefCovers_def selectorValueMatches_def line_end_def canonical_eval

section \<open>Properties\<close>

text \<open>
  The canonical permission string depends on what a detail says only: details with the same program,
  action and resources whose selectors demand the same values have the same string, whatever the order
  of the selector keys and whether empty values are present, in every locale whose collation separates
  the keys in use.
\<close>

theorem canonical_order_insensitive:
  fixes a b :: cli_detail
  assumes "collation coll K" "\<forall>r\<in>set (cd_resource_chain a). dom (sel_fields (rr_selector r)) \<subseteq> K"
    and "chain_wf (cd_resource_chain a)" "chain_wf (cd_resource_chain b)"
    and "cd_cli_id a = cd_cli_id b" "cd_action a = cd_action b"
    and "map ref_says (cd_resource_chain a) = map ref_says (cd_resource_chain b)"
  shows "canonicalizeCliPermission coll (cd_cli_id a) (cd_resource_chain a) (cd_action a) =
         canonicalizeCliPermission coll (cd_cli_id b) (cd_resource_chain b) (cd_action b)"
  using chainString_cong [OF assms(1-4,7)] assms(5,6) by (simp add: canonicalizeCliPermission_def)

theorem canonical_order_insensitive_witness:
  "canonicalizeCliPermission (\<le>) ''gh'' [ref ''repo'' [(''owner'', ''o''), (''name'', ''n''), (''x'', [])]] ''list'' =
   canonicalizeCliPermission (\<le>) ''gh'' [ref ''repo'' [(''name'', ''n''), (''owner'', ''o'')]] ''list''"
  using canonical_order_insensitive [of "(\<le>)" UNIV
      "simple_detail ''gh'' [ref ''repo'' [(''owner'', ''o''), (''name'', ''n''), (''x'', [])]] ''list''"
      "simple_detail ''gh'' [ref ''repo'' [(''name'', ''n''), (''owner'', ''o'')]] ''list''"]
    code_units.collation_axioms
  by (simp add: ref_says_def sel_fields_Cons fun_upd_twist)

text \<open>
  C13. The canonical string determines the permission: when neither detail holds one of its delimiters
  in a program id, resource name, selector key or selector value, equal strings mean the same program,
  action, resources and demanded selector values.
\<close>

theorem canonical_injective:
  fixes a b :: cli_detail
  assumes "CHR ''.'' \<notin> set (cd_cli_id a)" "CHR ''.'' \<notin> set (cd_cli_id b)"
    and "chain_wf (cd_resource_chain a)" "chain_wf (cd_resource_chain b)"
    and "chain_plain (cd_resource_chain a)" "chain_plain (cd_resource_chain b)"
    and "canonicalizeCliPermission coll (cd_cli_id a) (cd_resource_chain a) (cd_action a) =
         canonicalizeCliPermission coll (cd_cli_id b) (cd_resource_chain b) (cd_action b)"
  shows "cd_cli_id a = cd_cli_id b \<and> cd_action a = cd_action b \<and>
    map ref_says (cd_resource_chain a) = map ref_says (cd_resource_chain b)"
  by (rule canonical_inject [OF assms])

theorem canonical_injective_witness:
  "map ref_says [ref ''file'' [(''path'', ''/a''), (''mode'', ''r'')]] =
   map ref_says [ref ''file'' [(''mode'', ''r''), (''path'', ''/a'')]]"
  using canonical_injective [of "simple_detail ''cat'' [ref ''file'' [(''path'', ''/a''), (''mode'', ''r'')]] ''read''"
      "simple_detail ''cat'' [ref ''file'' [(''mode'', ''r''), (''path'', ''/a'')]] ''read''" "(\<le>)"]
  by (simp add: ref_plain_def sel_plain_def canonical_eval)

text \<open>
  C3. A grant's coverage composes: whenever one detail covers a second and the second covers a third,
  the first covers the third, globs in selector values included. Widening a grant step by step
  therefore never loses a request an earlier step covered.
\<close>

theorem covers_transitive:
  assumes "chain_wf (cd_resource_chain a)" "chain_wf (cd_resource_chain b)" "chain_wf (cd_resource_chain c)"
    and "cliAuthorizationDetailCovers coll a b" "cliAuthorizationDetailCovers coll b c"
  shows "cliAuthorizationDetailCovers coll a c"
  using assms covers_spec_trans by (simp add: covers_iff_spec)

theorem covers_transitive_witness:
  "cliAuthorizationDetailCovers (\<le>) (simple_detail ''cp'' [ref ''file'' [(''path'', ''/tmp/**'')]] ''read'')
     (simple_detail ''cp'' [ref ''file'' [(''path'', ''/tmp/a/b.txt'')], ref ''to'' []] ''read'')"
proof -
  let ?d = "\<lambda>p t. simple_detail ''cp'' (ref ''file'' [(''path'', p)] # t) ''read''"
  have "cliAuthorizationDetailCovers (\<le>) (?d ''/tmp/**'' []) (?d ''/tmp/a/*'' [])"
    by (simp add: covers_eval)
  moreover have "cliAuthorizationDetailCovers (\<le>) (?d ''/tmp/a/*'' []) (?d ''/tmp/a/b.txt'' [ref ''to'' []])"
    by (simp add: covers_eval)
  ultimately show ?thesis
    using covers_transitive [of "?d ''/tmp/**'' []" "?d ''/tmp/a/*'' []" "?d ''/tmp/a/b.txt'' [ref ''to'' []]" "(\<le>)"]
    by simp
qed

text \<open>
  Widening covers both sides: for two details of one program and action whose chains match
  structurally, the widened detail covers the existing and the incoming one (values that do not match
  themselves, over 256 characters with a star, and delimiters of the canonical form aside).
\<close>

theorem widen_covers_both:
  assumes "cd_type e = ''openape_cli''" "cd_type i = ''openape_cli''"
    and "cd_cli_id e = cd_cli_id i" "cd_action e = cd_action i"
    and "resourceChainsStructurallyMatch (cd_resource_chain e) (cd_resource_chain i)"
    and "chain_wf (cd_resource_chain e)" "chain_wf (cd_resource_chain i)"
    and "chain_plain (cd_resource_chain e)" "chain_plain (cd_resource_chain i)"
    and "chain_self_matching (cd_resource_chain e)"
  shows "cliAuthorizationDetailCovers coll (widenCliAuthorizationDetail coll e i) e \<and>
         cliAuthorizationDetailCovers coll (widenCliAuthorizationDetail coll e i) i"
proof -
  let ?w = "widenCliAuthorizationDetail coll e i"
  have w: "cd_type ?w = cd_type e" "cd_cli_id ?w = cd_cli_id e" "cd_action ?w = cd_action e"
      "cd_resource_chain ?w = widened_chain coll (cd_resource_chain e) (cd_resource_chain i)"
    by (simp_all add: widenCliAuthorizationDetail_def Let_def)
  have wf: "chain_wf (cd_resource_chain ?w)" unfolding w(4) by (rule chain_wf_widened [OF assms(6)])
  have "cd_resource_chain x = cd_resource_chain x @ []" for x :: cli_detail by simp
  moreover have "list_all2 ref_covers_spec (cd_resource_chain ?w) (cd_resource_chain e)"
    unfolding w(4) by (rule widened_covers_left [OF assms(10)])
  moreover have "list_all2 ref_covers_spec (cd_resource_chain ?w) (cd_resource_chain i)"
    unfolding w(4) by (rule widened_covers_right [OF assms(10,6-9,5)])
  ultimately have "covers_spec ?w e" "covers_spec ?w i"
    unfolding covers_spec_def w(1-3) using assms(1-4) by blast+
  then show ?thesis using wf assms(6,7) by (simp add: covers_iff_spec)
qed

theorem widen_covers_both_witness:
  "cliAuthorizationDetailCovers (\<le>)
     (widenCliAuthorizationDetail (\<le>) (simple_detail ''cat'' [ref ''file'' [(''path'', ''/a'')]] ''read'')
        (simple_detail ''cat'' [ref ''file'' [(''path'', ''/b'')]] ''read''))
     (simple_detail ''cat'' [ref ''file'' [(''path'', ''/b'')]] ''read'')"
  using widen_covers_both [of "simple_detail ''cat'' [ref ''file'' [(''path'', ''/a'')]] ''read''"
      "simple_detail ''cat'' [ref ''file'' [(''path'', ''/b'')]] ''read''" "(\<le>)"]
  by (simp add: resourceChainsStructurallyMatch_def ref_plain_def sel_plain_def chain_self_matching_def self_matching_def)

text \<open>
  Merging loses nothing and repeats nothing: the merged list has distinct permission strings, and
  every input detail is covered by a merged one, provided no detail holds a delimiter of the canonical
  form.
\<close>

theorem merge_covers_all:
  assumes "\<forall>d\<in>set (concat sets). cd_type d = ''openape_cli'' \<and> CHR ''.'' \<notin> set (cd_cli_id d) \<and>
      chain_wf (cd_resource_chain d) \<and> chain_plain (cd_resource_chain d) \<and> chain_self_matching (cd_resource_chain d)"
  shows "distinct (map cd_permission (mergeCliAuthorizationDetails coll sets)) \<and>
    (\<forall>d\<in>set (concat sets). \<exists>m\<in>set (mergeCliAuthorizationDetails coll sets). cliAuthorizationDetailCovers coll m d)"
  using merge_distinct merge_covers_sets [OF assms] by blast

theorem merge_covers_all_witness:
  "\<exists>m\<in>set (mergeCliAuthorizationDetails (\<le>) [[simple_detail ''cat'' [ref ''file'' [(''path'', ''/a'')]] ''read''],
       [simple_detail ''cat'' [ref ''file'' [(''path'', ''/b'')]] ''read'']]).
     cliAuthorizationDetailCovers (\<le>) m (simple_detail ''cat'' [ref ''file'' [(''path'', ''/b'')]] ''read'')"
  using merge_covers_all [of "[[simple_detail ''cat'' [ref ''file'' [(''path'', ''/a'')]] ''read''],
       [simple_detail ''cat'' [ref ''file'' [(''path'', ''/b'')]] ''read'']]" "(\<le>)"]
  by (simp add: ref_plain_def sel_plain_def chain_self_matching_def self_matching_def del: Set.bex_simps)

definition glued_detail :: cli_detail where
  "glued_detail = simple_detail ''db'' [ref ''row'' [(''a'', ''1,b=2'')]] ''read''"

definition split_detail :: cli_detail where
  "split_detail = simple_detail ''db'' [ref ''row'' [(''a'', ''1''), (''b'', ''2'')]] ''read''"

text \<open>
  Without that proviso merging does lose: two details that demand different things can share one
  canonical string, of which only the first is kept, and it does not cover the second. (The comment in
  the loop takes equal strings to mean equal details.)
\<close>

theorem merge_loses_glued_detail:
  "map cd_resource_chain (mergeCliAuthorizationDetails (\<le>) [[glued_detail], [split_detail]]) = [cd_resource_chain glued_detail] \<and>
   \<not> cliAuthorizationDetailCovers (\<le>) glued_detail split_detail"
  by (simp add: merge_eq glued_detail_def split_detail_def covers_eval)

end
