(* ===== verification/Widening.thy ===== *)
theory Widening
  imports CliPermissions
begin

text \<open>
  \<open>packages/grants/src/widening-suggestions.ts\<close>: the wider details an approver is offered for a
  pending one, derived from the segments of a path-like selector value.
\<close>

definition PATH_LIKE_KEYS :: "string list" where
  "PATH_LIKE_KEYS = [''path'', ''glob'', ''file'', ''filename'', ''uri'']"

datatype widening_scope = ScopeExact | ScopeSiblingType | ScopeDirectory | ScopeSubtree | ScopeWildcard

record widening_suggestion =
  ws_scope :: widening_scope
  ws_label :: string
  ws_detail :: cli_detail
  ws_permission :: string

record path_variant =
  pv_pattern :: string
  pv_scope :: widening_scope
  pv_label :: string

definition path_like_keys :: "selector option \<Rightarrow> string list" where
  "path_like_keys sel = (case sel of None \<Rightarrow> [] | Some s \<Rightarrow> filter (\<lambda>k. k \<in> set PATH_LIKE_KEYS) (obj_keys s))"

definition isPathLike :: "selector option \<Rightarrow> bool" where
  "isPathLike sel = (path_like_keys sel \<noteq> [])"

definition findPathKey :: "selector \<Rightarrow> string option" where
  "findPathKey s = List.find (\<lambda>k. k \<in> set PATH_LIKE_KEYS) (obj_keys s)"

definition path_segments :: "string \<Rightarrow> string list" where
  "path_segments path = filter (\<lambda>s. s \<noteq> []) (split_on CHR ''/'' path)"

definition file_extension :: "string \<Rightarrow> string" where
  "file_extension fileName = (case last_index_of CHR ''.'' fileName of
     Some dotIndex \<Rightarrow> if dotIndex > 0 then drop dotIndex fileName else [] | None \<Rightarrow> [])"

definition subtree_variant :: "string \<Rightarrow> path_variant" where
  "subtree_variant dir = \<lparr>pv_pattern = dir @ ''/**'', pv_scope = ScopeSubtree, pv_label = ''Everything under '' @ dir\<rparr>"

definition derivePathVariants :: "string \<Rightarrow> path_variant list" where
  "derivePathVariants path = (let segments = path_segments path;
       prefix = (if starts_with path ''/'' then ''/'' else []) in
     if segments = [] then []
     else let extension = file_extension (last segments);
         parentSegments = butlast segments;
         parentPath = prefix @ join ''/'' parentSegments in
       (if extension \<noteq> [] \<and> parentSegments \<noteq> []
        then [\<lparr>pv_pattern = parentPath @ ''/*'' @ extension, pv_scope = ScopeSiblingType,
               pv_label = ''All '' @ extension @ '' files in '' @ parentPath\<rparr>] else [])
       @ (if parentSegments \<noteq> []
          then [\<lparr>pv_pattern = parentPath @ ''/*'', pv_scope = ScopeDirectory,
                 pv_label = ''Any file directly in '' @ parentPath\<rparr>, subtree_variant parentPath] else [])
       @ map (\<lambda>i. subtree_variant (prefix @ join ''/'' (take i parentSegments))) (rev [1..<length parentSegments]))"

definition makeSuggestion :: "(string \<Rightarrow> string \<Rightarrow> bool) \<Rightarrow> widening_scope \<Rightarrow> string \<Rightarrow> cli_detail
    \<Rightarrow> resource_ref list \<Rightarrow> widening_suggestion" where
  "makeSuggestion coll scope label base chain =
     (let permission = canonicalizeCliPermission coll (cd_cli_id base) chain (cd_action base) in
      \<lparr>ws_scope = scope, ws_label = label,
       ws_detail = base\<lparr>cd_resource_chain := chain, cd_permission := permission\<rparr>, ws_permission = permission\<rparr>)"

definition wild_ref :: "resource_ref \<Rightarrow> resource_ref" where
  "wild_ref r = \<lparr>rr_resource = rr_resource r, rr_selector = None\<rparr>"

fun find_index :: "('a \<Rightarrow> bool) \<Rightarrow> 'a list \<Rightarrow> nat option" where
  "find_index P [] = None"
| "find_index P (x # xs) = (if P x then Some 0 else map_option Suc (find_index P xs))"

definition suggestWideningsForDetail :: "(string \<Rightarrow> string \<Rightarrow> bool) \<Rightarrow> cli_detail \<Rightarrow> widening_suggestion list" where
  "suggestWideningsForDetail coll detail = (let chain = cd_resource_chain detail;
       exact = makeSuggestion coll ScopeExact ''Exact: this one only'' detail chain in
     case find_index (\<lambda>r. isPathLike (rr_selector r)) chain of
       None \<Rightarrow> [exact, makeSuggestion coll ScopeWildcard ''Any value (wildcard)'' detail (map wild_ref chain)]
     | Some chainIdx \<Rightarrow>
         let target = chain ! chainIdx; sel = nullish (rr_selector target) [];
           pathKey = nullish (findPathKey sel) []; originalPath = nullish (map_of sel pathKey) [];
           suggestions = map (\<lambda>v. makeSuggestion coll (pv_scope v) (pv_label v) detail
             (chain[chainIdx := \<lparr>rr_resource = rr_resource target,
                                rr_selector = Some (AList.update pathKey (pv_pattern v) sel)\<rparr>]))
             (filter (\<lambda>v. pv_pattern v \<noteq> originalPath) (derivePathVariants originalPath))
         in [exact] @ suggestions
            @ [makeSuggestion coll ScopeWildcard ''Any path (wildcard)'' detail (chain[chainIdx := wild_ref target])])"

definition buildWideningSuggestionsForGrant ::
  "(string \<Rightarrow> string \<Rightarrow> bool) \<Rightarrow> cli_detail list \<Rightarrow> widening_suggestion list list" where
  "buildWideningSuggestionsForGrant coll details = map (suggestWideningsForDetail coll) details"

section \<open>Every variant matches the path it was derived from\<close>

text \<open>A path in normal form is its prefix and its segments.\<close>

definition normal_path :: "string \<Rightarrow> bool" where
  "normal_path path \<longleftrightarrow> path = (if starts_with path ''/'' then ''/'' else []) @ join ''/'' (path_segments path)"

lemma star_match_prefix:
  assumes "\<forall>c\<in>set p. \<not> line_end c" "glob_match (star_atoms g) s"
  shows "glob_match (star_atoms (p @ g)) (p @ s)"
  unfolding star_atoms_simps glob_match_append using star_match_refl [OF assms(1)] assms(2) by blast

lemma star_match_star: "\<forall>c\<in>set s. \<not> line_end c \<Longrightarrow> glob_match (star_atoms ''*'') s"
  unfolding star_atoms_simps glob_match_Cons by (intro exI [of _ s] exI [of _ "[]"]) simp

lemma star_match_two_stars:
  assumes "\<forall>c\<in>set s. \<not> line_end c"
  shows "glob_match (star_atoms ''**'') s"
proof -
  have "s = [] @ s \<and> glob_match (star_atoms ''*'') [] \<and> glob_match (star_atoms ''*'') s"
    using star_match_star [OF assms] by simp
  then have "glob_match (star_atoms ''*'' @ star_atoms ''*'') s" unfolding glob_match_append by blast
  then show ?thesis by simp
qed

lemma star_match_star_ext:
  assumes "\<forall>c\<in>set (s @ e). \<not> line_end c"
  shows "glob_match (star_atoms (''*'' @ e)) (s @ e)"
  unfolding star_atoms_simps(3) glob_match_append
  using star_match_star [of s] star_match_refl [of e] assms by auto

lemma file_extension_suffix: "\<exists>s. f = s @ file_extension f"
proof (cases "last_index_of CHR ''.'' f")
  case (Some n)
  have "f = take n f @ drop n f" "f = f @ []" by simp_all
  then show ?thesis unfolding file_extension_def Some option.case by (cases "n > 0") metis+
qed (simp add: file_extension_def)

definition path_prefix :: "string \<Rightarrow> string" where
  "path_prefix path = (if starts_with path ''/'' then ''/'' else [])"

lemma variant_form:
  assumes "v \<in> set (derivePathVariants path)"
  obtains i g where "0 < i" "i < length (path_segments path)"
    "pv_pattern v = (path_prefix path @ join ''/'' (take i (path_segments path)) @ ''/'') @ g"
    "g = ''*'' \<or> g = ''**'' \<or> i = length (path_segments path) - 1 \<and> g = ''*'' @ file_extension (last (path_segments path))"
proof -
  let ?segs = "path_segments path"
  let ?par = "butlast ?segs"
  have ne: "?segs \<noteq> []" using assms by (auto simp: derivePathVariants_def Let_def)
  have len: "length ?par = length ?segs - 1" by simp
  have par: "?par = take (length ?segs - 1) ?segs" by (rule butlast_conv_take)
  have sub: "take i ?par = take i ?segs" if "i < length ?par" for i
    using that by (simp add: par)
  have "set (derivePathVariants path) \<subseteq>
      {v. ?par \<noteq> [] \<and> pv_pattern v = (path_prefix path @ join ''/'' ?par) @ ''/*'' @ file_extension (last ?segs)}
    \<union> {v. ?par \<noteq> [] \<and> pv_pattern v = (path_prefix path @ join ''/'' ?par) @ ''/*''}
    \<union> {v. ?par \<noteq> [] \<and> pv_pattern v = (path_prefix path @ join ''/'' ?par) @ ''/**''}
    \<union> {v. \<exists>i. 0 < i \<and> i < length ?par \<and> pv_pattern v = (path_prefix path @ join ''/'' (take i ?par)) @ ''/**''}"
    unfolding derivePathVariants_def Let_def path_prefix_def [symmetric]
    by (auto simp: subtree_variant_def)
  with assms consider
      "?par \<noteq> []" "pv_pattern v = (path_prefix path @ join ''/'' ?par) @ ''/*'' @ file_extension (last ?segs)"
    | "?par \<noteq> []" "pv_pattern v = (path_prefix path @ join ''/'' ?par) @ ''/*''"
    | "?par \<noteq> []" "pv_pattern v = (path_prefix path @ join ''/'' ?par) @ ''/**''"
    | i where "0 < i" "i < length ?par" "pv_pattern v = (path_prefix path @ join ''/'' (take i ?par)) @ ''/**''"
    by blast
  then show thesis
  proof cases
    case 1
    then show thesis using par len by (intro that [of "length ?par" "''*'' @ file_extension (last ?segs)"]) auto
  next
    case 2
    then show thesis using par len by (intro that [of "length ?par" "''*''"]) auto
  next
    case 3
    then show thesis using par len by (intro that [of "length ?par" "''**''"]) auto
  next
    case (4 i)
    then show thesis using sub by (intro that [of i "''**''"]) auto
  qed
qed

lemma variant_matches:
  assumes "normal_path path" "\<forall>c\<in>set path. \<not> line_end c" "v \<in> set (derivePathVariants path)"
    "length path \<le> 255"
  shows "selectorValueMatches (pv_pattern v) path"
proof -
  let ?segs = "path_segments path"
  obtain i g where v: "0 < i" "i < length ?segs"
    "pv_pattern v = (path_prefix path @ join ''/'' (take i ?segs) @ ''/'') @ g"
    "g = ''*'' \<or> g = ''**'' \<or> i = length ?segs - 1 \<and> g = ''*'' @ file_extension (last ?segs)"
    using assms(3) by (rule variant_form)
  let ?d = "path_prefix path @ join ''/'' (take i ?segs) @ ''/''"
  let ?r = "join ''/'' (drop i ?segs)"
  have "join ''/'' (take i ?segs @ drop i ?segs) = join ''/'' (take i ?segs) @ ''/'' @ ?r"
    by (rule join_append) (use v(1,2) in auto)
  then have path: "path = ?d @ ?r" using assms(1) by (simp add: normal_path_def path_prefix_def)
  then have le: "\<forall>c\<in>set ?d. \<not> line_end c" "\<forall>c\<in>set ?r. \<not> line_end c"
    using assms(2) by (metis Un_iff set_append)+
  have "glob_match (star_atoms g) ?r"
    using v(4)
  proof (elim disjE conjE)
    assume i: "i = length ?segs - 1" and g: "g = ''*'' @ file_extension (last ?segs)"
    have "drop i ?segs = [last ?segs]" using v(2) i by (metis append_butlast_last_id append_eq_conv_conj length_butlast list.size(3) not_less_zero)
    then have r: "?r = last ?segs" by simp
    obtain s where "last ?segs = s @ file_extension (last ?segs)" using file_extension_suffix by blast
    then show ?thesis using star_match_star_ext [of s "file_extension (last ?segs)"] le(2) unfolding g r by simp
  qed (use le(2) star_match_star star_match_two_stars in simp_all)
  have eq: "?d @ ?r = path" using path by simp
  have "glob_match (star_atoms (?d @ g)) (?d @ ?r)"
    by (rule star_match_prefix [OF le(1) \<open>glob_match (star_atoms g) ?r\<close>])
  then have "glob_match (star_atoms (pv_pattern v)) path" unfolding eq v(3) .
  moreover have "CHR ''*'' \<in> set (pv_pattern v)" using v(3,4) by auto
  moreover have "length g \<le> length ?r + 1"
  proof -
    obtain x xs where x: "drop i ?segs = x # xs" using v(2) by (metis Cons_nth_drop_Suc)
    then have "x \<in> set ?segs" by (metis in_set_dropD list.set_intros(1))
    then have "length x > 0" by (simp add: path_segments_def)
    then have len: "length ?r > 0" unfolding x by (cases xs) simp_all
    show ?thesis using v(4)
    proof (elim disjE conjE)
      assume i: "i = length ?segs - 1" and g: "g = ''*'' @ file_extension (last ?segs)"
      have "drop i ?segs = [last ?segs]" using v(2) i by (metis append_butlast_last_id append_eq_conv_conj length_butlast list.size(3) not_less_zero)
      then have r: "?r = last ?segs" by simp
      obtain s where "last ?segs = s @ file_extension (last ?segs)" using file_extension_suffix by blast
      then show ?thesis unfolding g r by (metis add.commute append_assoc le_add2 length_Cons length_append plus_1_eq_Suc add_le_cancel_left append_Cons append_Nil)
    qed (use len in \<open>simp_all add: Suc_le_eq\<close>)
  qed
  then have "length (?d @ g) \<le> length (?d @ ?r) + 1" by simp
  then have "length (pv_pattern v) \<le> 256" using assms(4) unfolding eq v(3) by simp
  ultimately show ?thesis by (simp add: selectorValueMatches_def)
qed

section \<open>Every suggestion covers the detail it widens\<close>

lemma sel_fields_update:
  "p \<noteq> [] \<Longrightarrow> sel_fields (Some (AList.update k p s)) = (sel_fields (Some s))(k \<mapsto> p)"
  unfolding sel_fields_def option.case by (induction s) auto

lemma ref_covers_update:
  assumes "map_of s k = Some v" "selectorValueMatches p v" "p \<noteq> []" "v \<noteq> []" "distinct (map fst s)"
    and "ref_covers_spec \<lparr>rr_resource = n, rr_selector = Some s\<rparr> \<lparr>rr_resource = n, rr_selector = Some s\<rparr>"
  shows "ref_covers_spec \<lparr>rr_resource = n, rr_selector = Some (AList.update k p s)\<rparr> \<lparr>rr_resource = n, rr_selector = Some s\<rparr>"
proof -
  have "(k, v) \<in> set (filter (\<lambda>e. snd e \<noteq> []) s)" using map_of_SomeD [OF assms(1)] assms(4) by simp
  then have "sel_fields (Some s) k = Some v"
    unfolding sel_fields_def option.case using distinct_filter_fst [OF assms(5)] by (simp add: map_of_eq_Some_iff)
  with assms(2,6) show ?thesis by (auto simp: ref_covers_spec_def sel_fields_update [OF assms(3)])
qed

lemma list_all2_covers_update:
  assumes "chain_self_matching chain" "i < length chain" "ref_covers_spec r (chain ! i)"
  shows "list_all2 ref_covers_spec (chain[i := r]) chain"
  unfolding list_all2_conv_all_nth
proof (intro conjI allI impI)
  fix j assume "j < length (chain[i := r])"
  then have "j < length chain" by simp
  then show "ref_covers_spec (chain[i := r] ! j) (chain ! j)"
    using assms(3) chain_self_matchingD [OF assms(1) nth_mem] by (cases "i = j") simp_all
qed simp

lemma find_index_Some: "find_index P xs = Some i \<Longrightarrow> i < length xs \<and> P (xs ! i)"
  by (induction xs arbitrary: i) (auto split: if_splits)

lemma suggestion_covers:
  assumes "cd_type d = ''openape_cli''" "chain_wf (cd_resource_chain d)" "chain_wf ch"
    and "list_all2 ref_covers_spec ch (cd_resource_chain d)"
  shows "cliAuthorizationDetailCovers coll (ws_detail (makeSuggestion coll sc l d ch)) d"
proof -
  have "cd_resource_chain d = cd_resource_chain d @ []" by simp
  then have "covers_spec (d\<lparr>cd_resource_chain := ch, cd_permission := p\<rparr>) d" for p
    unfolding covers_spec_def using assms(1,4) by (metis cli_detail.select_convs cli_detail.simps cli_detail.surjective cli_detail.update_convs)
  then show ?thesis using assms(2,3) by (simp add: makeSuggestion_def Let_def covers_iff_spec)
qed

lemma findPathKey_map_of:
  assumes "path_like_keys (Some s) \<noteq> []"
  obtains k v where "findPathKey s = Some k" "map_of s k = Some v"
proof -
  obtain k where k: "k \<in> set (obj_keys s)" "k \<in> set PATH_LIKE_KEYS"
    using assms by (metis filter_False option.case(2) path_like_keys_def)
  then have "findPathKey s \<noteq> None" unfolding findPathKey_def find_None_iff by blast
  then obtain k' where k': "findPathKey s = Some k'" by blast
  then have "k' \<in> set (obj_keys s)" unfolding findPathKey_def find_Some_iff by auto
  then have "k' \<in> fst ` set s" by (simp add: obj_keys_def)
  then obtain v where "map_of s k' = Some v" by (metis map_of_eq_None_iff not_None_eq)
  with k' that show thesis by blast
qed

lemma derive_nonempty: "v \<in> set (derivePathVariants path) \<Longrightarrow> path \<noteq> [] \<and> pv_pattern v \<noteq> []"
proof -
  assume v: "v \<in> set (derivePathVariants path)"
  then have "path_segments path \<noteq> []" by (auto simp: derivePathVariants_def Let_def)
  then have "path \<noteq> []" by (auto simp: path_segments_def)
  moreover have "pv_pattern v \<noteq> []" using v by (rule variant_form) simp
  ultimately show ?thesis by blast
qed

text \<open>The value a suggestion is derived from, of a detail that has a path-like selector.\<close>

definition suggested_path :: "cli_detail \<Rightarrow> string option" where
  "suggested_path d = (case find_index (\<lambda>r. isPathLike (rr_selector r)) (cd_resource_chain d) of None \<Rightarrow> None
     | Some i \<Rightarrow> (let s = nullish (rr_selector (cd_resource_chain d ! i)) [] in
         case findPathKey s of None \<Rightarrow> None | Some k \<Rightarrow> map_of s k))"

section \<open>Properties\<close>

text \<open>
  Every widening suggestion covers the detail it was made for, so approving any of them approves what
  was asked: the exact, sibling-type, directory, subtree, ancestor and wildcard suggestions alike, when
  the path is written without empty segments or line terminators and in at most 255 characters.
\<close>

theorem suggestions_cover:
  assumes "cd_type d = ''openape_cli''" "chain_wf (cd_resource_chain d)" "chain_self_matching (cd_resource_chain d)"
    and "\<forall>path. suggested_path d = Some path \<longrightarrow>
           normal_path path \<and> (\<forall>c\<in>set path. \<not> line_end c) \<and> length path \<le> 255"
    and "s \<in> set (suggestWideningsForDetail coll d)"
  shows "cliAuthorizationDetailCovers coll (ws_detail s) d"
proof -
  let ?ch = "cd_resource_chain d"
  note mk = suggestion_covers [OF assms(1,2)]
  have self: "list_all2 ref_covers_spec ?ch ?ch" by (rule list_all2_refl_on) (rule chain_self_matchingD [OF assms(3)])
  show ?thesis
  proof (cases "find_index (\<lambda>r. isPathLike (rr_selector r)) ?ch")
    case None
    have "list_all2 ref_covers_spec (map wild_ref ?ch) ?ch" "chain_wf (map wild_ref ?ch)"
      by (simp_all add: list_all2_conv_all_nth wild_ref_def chain_wf_def list_all_iff)
    moreover have "s = makeSuggestion coll ScopeExact ''Exact: this one only'' d ?ch \<or>
        s = makeSuggestion coll ScopeWildcard ''Any value (wildcard)'' d (map wild_ref ?ch)"
      using assms(5) None by (simp add: suggestWideningsForDetail_def Let_def)
    ultimately show ?thesis using mk [OF assms(2) self] mk by blast
  next
    case (Some i)
    then have i: "i < length ?ch" "isPathLike (rr_selector (?ch ! i))" using find_index_Some by blast+
    let ?t = "?ch ! i"
    obtain sel where sel: "rr_selector ?t = Some sel" using i(2) by (auto simp: isPathLike_def path_like_keys_def split: option.splits)
    obtain k path where k: "findPathKey sel = Some k" "map_of sel k = Some path"
      by (rule findPathKey_map_of [of sel]) (use i(2) sel in \<open>simp add: isPathLike_def\<close>)
    have path: "suggested_path d = Some path" by (simp add: suggested_path_def Some sel k)
    have wf: "distinct (map fst sel)" using chain_wfD [OF assms(2) nth_mem [OF i(1)]] sel by simp
    have t: "?t = \<lparr>rr_resource = rr_resource ?t, rr_selector = Some sel\<rparr>" using sel by simp
    let ?sug = "\<lambda>v. makeSuggestion coll (pv_scope v) (pv_label v) d
      (?ch[i := \<lparr>rr_resource = rr_resource ?t, rr_selector = Some (AList.update k (pv_pattern v) sel)\<rparr>])"
    let ?wild = "makeSuggestion coll ScopeWildcard ''Any path (wildcard)'' d (?ch[i := wild_ref ?t])"
    have wfu: "chain_wf (?ch[i := r])" if "sel_wf (rr_selector r)" for r
      using assms(2) that set_update_subset_insert [of ?ch i r] unfolding chain_wf_def list_all_iff by blast
    have "s = makeSuggestion coll ScopeExact ''Exact: this one only'' d ?ch \<or> s = ?wild \<or>
        (\<exists>v\<in>set (derivePathVariants path). s = ?sug v)"
      using assms(5) by (auto simp: suggestWideningsForDetail_def Let_def Some sel k)
    then show ?thesis
    proof (elim disjE bexE)
      assume "s = ?wild"
      then show ?thesis using mk [OF wfu list_all2_covers_update [OF assms(3) i(1)], of "wild_ref ?t"]
        by (simp add: wild_ref_def)
    next
      fix v assume v: "v \<in> set (derivePathVariants path)" and s: "s = ?sug v"
      have "ref_covers_spec \<lparr>rr_resource = rr_resource ?t, rr_selector = Some (AList.update k (pv_pattern v) sel)\<rparr>
          \<lparr>rr_resource = rr_resource ?t, rr_selector = Some sel\<rparr>"
      proof (rule ref_covers_update [OF k(2) _ _ _ wf])
        show "selectorValueMatches (pv_pattern v) path" using variant_matches v assms(4) path by blast
        show "ref_covers_spec \<lparr>rr_resource = rr_resource ?t, rr_selector = Some sel\<rparr>
            \<lparr>rr_resource = rr_resource ?t, rr_selector = Some sel\<rparr>"
          using chain_self_matchingD [OF assms(3) nth_mem [OF i(1)]] t by simp
      qed (use derive_nonempty [OF v] in simp_all)
      then show ?thesis unfolding s
        by (intro mk wfu list_all2_covers_update [OF assms(3) i(1)]) (use t wf in simp_all)
    qed (use mk [OF assms(2) self] in simp)
  qed
qed

definition example_path_detail :: cli_detail where
  "example_path_detail = simple_detail ''cat'' [ref ''file'' [(''path'', ''/tmp/a.txt'')]] ''read''"

lemma example_path_facts:
  "suggested_path example_path_detail = Some ''/tmp/a.txt''" "normal_path ''/tmp/a.txt''"
  by (simp_all add: example_path_detail_def suggested_path_def isPathLike_def path_like_keys_def obj_keys_def
      obj_entries_def is_array_index_def is_digit_def PATH_LIKE_KEYS_def findPathKey_def normal_path_def path_segments_def)

theorem suggestions_cover_witness:
  "list_all (\<lambda>s. cliAuthorizationDetailCovers (\<le>) (ws_detail s) example_path_detail)
     (suggestWideningsForDetail (\<le>) example_path_detail)"
  unfolding list_all_iff
  by (intro ballI suggestions_cover)
    (simp_all add: example_path_facts, simp_all add: example_path_detail_def chain_self_matching_def self_matching_def line_end_def)

end
