(* ===== verification/Similarity.thy ===== *)
theory Similarity
  imports CliPermissions
begin

text \<open>
  \<open>packages/grants/src/similarity.ts\<close>: the approved, reusable grants of one requester that are
  similar to an incoming request but do not cover it, with previews of the widened and merged details.
  \<open>now\<close> is the time in seconds.
\<close>

record similar_match =
  sm_grant :: grant
  sm_similar_detail_indices :: "nat list"

record similar_result =
  sr_similar_grants :: "similar_match list"
  sr_widened_details :: "cli_detail list"
  sr_merged_details :: "cli_detail list"

definition grant_details :: "grant \<Rightarrow> cli_detail list" where
  "grant_details g = cliDetails (rq_authorization_details (gr_request g))"

definition adapter_digest :: "grant_request \<Rightarrow> string option" where
  "adapter_digest r = map_option ec_adapter_digest (rq_execution_context r)"

text \<open>The guards of the loop over existing grants, in the order of its \<open>continue\<close>s.\<close>

definition is_candidate :: "int \<Rightarrow> grant_request \<Rightarrow> grant \<Rightarrow> bool" where
  "is_candidate now incoming g = (let r = gr_request g in
     if gr_status g \<noteq> Approved then False
     else if nullish (rq_grant_type r) Once = Once then False
     else if truthy_num (gr_expires_at g) \<and> the (gr_expires_at g) \<le> now then False
     else if rq_requester r \<noteq> rq_requester incoming then False
     else if rq_target_host r \<noteq> rq_target_host incoming then False
     else if rq_audience r \<noteq> rq_audience incoming then False
     else if rq_run_as r \<noteq> rq_run_as incoming then False
     else if rq_delegator incoming \<noteq> rq_delegator r then False
     else if rq_delegate incoming \<noteq> rq_delegate r then False
     else adapter_digest r = adapter_digest incoming)"

definition similar_indices :: "(string \<Rightarrow> string \<Rightarrow> bool) \<Rightarrow> cli_detail list \<Rightarrow> cli_detail list \<Rightarrow> nat list" where
  "similar_indices coll existing incoming =
     filter (\<lambda>i. list_ex (cliAuthorizationDetailIsSimilar coll (existing ! i)) incoming) [0..<length existing]"

definition find_matches :: "(string \<Rightarrow> string \<Rightarrow> bool) \<Rightarrow> int \<Rightarrow> grant_request \<Rightarrow> cli_detail list \<Rightarrow> grant list
    \<Rightarrow> similar_match list" where
  "find_matches coll now incoming details existing =
     concat (map (\<lambda>g. let indices = similar_indices coll (grant_details g) details in
       if is_candidate now incoming g \<and> grant_details g \<noteq> [] \<and> indices \<noteq> []
       then [\<lparr>sm_grant = g, sm_similar_detail_indices = indices\<rparr>] else []) existing)"

definition widened_pairs :: "(string \<Rightarrow> string \<Rightarrow> bool) \<Rightarrow> cli_detail list \<Rightarrow> cli_detail list \<Rightarrow> cli_detail list" where
  "widened_pairs coll existing incoming = concat (map (\<lambda>e. concat (map (\<lambda>i.
     if cliAuthorizationDetailIsSimilar coll e i then [widenCliAuthorizationDetail coll e i] else []) incoming)) existing)"

definition findSimilarCliGrants ::
  "(string \<Rightarrow> string \<Rightarrow> bool) \<Rightarrow> int \<Rightarrow> grant_request \<Rightarrow> grant list \<Rightarrow> similar_result option" where
  "findSimilarCliGrants coll now incomingRequest existingGrants =
     (let incoming = cliDetails (rq_authorization_details incomingRequest) in
      if incoming = [] then None
      else let matches = find_matches coll now incomingRequest incoming existingGrants in
        if matches = [] then None
        else let existing = concat (map (\<lambda>m. grant_details (sm_grant m)) matches) in
          Some \<lparr>sr_similar_grants = matches,
            sr_widened_details = mergeCliAuthorizationDetails coll [incoming @ widened_pairs coll existing incoming],
            sr_merged_details = mergeCliAuthorizationDetails coll
              (incoming # map (\<lambda>m. grant_details (sm_grant m)) matches)\<rparr>)"

lemma find_matches_mem:
  assumes "m \<in> set (find_matches coll now incoming details existing)"
  shows "sm_grant m \<in> set existing" "is_candidate now incoming (sm_grant m)"
    "sm_similar_detail_indices m = similar_indices coll (grant_details (sm_grant m)) details"
    "sm_similar_detail_indices m \<noteq> []"
  using assms by (auto simp: find_matches_def Let_def split: if_splits)

lemma findSimilar_parts:
  assumes "findSimilarCliGrants coll now request existing = Some r"
  shows "sr_similar_grants r = find_matches coll now request (cliDetails (rq_authorization_details request)) existing"
    "sr_merged_details r = mergeCliAuthorizationDetails coll
       (cliDetails (rq_authorization_details request) # map (\<lambda>m. grant_details (sm_grant m)) (sr_similar_grants r))"
    "cliDetails (rq_authorization_details request) \<noteq> []"
  using assms by (auto simp: findSimilarCliGrants_def Let_def split: if_splits)

lemma is_candidateD:
  assumes "is_candidate now incoming g"
  shows "gr_status g = Approved" "nullish (rq_grant_type (gr_request g)) Once \<noteq> Once"
    "\<not> (truthy_num (gr_expires_at g) \<and> the (gr_expires_at g) \<le> now)"
    "rq_requester (gr_request g) = rq_requester incoming" "rq_target_host (gr_request g) = rq_target_host incoming"
    "rq_audience (gr_request g) = rq_audience incoming" "rq_run_as (gr_request g) = rq_run_as incoming"
  using assms by (simp_all add: is_candidate_def Let_def split: if_split_asm)

section \<open>Properties\<close>

text \<open>
  Everything reported as similar is: each match is an approved, unexpired and reusable grant of the
  same requester, host, audience and local user, and each reported index is a detail of it that is
  similar to an incoming detail yet does not cover it.
\<close>

theorem similar_grants_sound:
  assumes "findSimilarCliGrants coll now request existing = Some r" "m \<in> set (sr_similar_grants r)"
    and "i \<in> set (sm_similar_detail_indices m)"
  shows "sm_grant m \<in> set existing \<and> gr_status (sm_grant m) = Approved \<and>
    rq_grant_type (gr_request (sm_grant m)) \<in> {Some Timed, Some Always} \<and>
    (gr_expires_at (sm_grant m) \<in> {None, Some 0} \<or> now < the (gr_expires_at (sm_grant m))) \<and>
    rq_requester (gr_request (sm_grant m)) = rq_requester request \<and>
    rq_target_host (gr_request (sm_grant m)) = rq_target_host request \<and>
    rq_audience (gr_request (sm_grant m)) = rq_audience request \<and>
    rq_run_as (gr_request (sm_grant m)) = rq_run_as request \<and>
    (\<exists>d\<in>set (cliDetails (rq_authorization_details request)).
       cliAuthorizationDetailIsSimilar coll (grant_details (sm_grant m) ! i) d \<and>
       \<not> cliAuthorizationDetailCovers coll (grant_details (sm_grant m) ! i) d)"
proof -
  note m = find_matches_mem [OF assms(2) [unfolded findSimilar_parts(1) [OF assms(1)]]]
  have c: "is_candidate now request (sm_grant m)" by (rule m(2))
  note st = is_candidateD [OF c]
  have ty: "rq_grant_type (gr_request (sm_grant m)) \<in> {Some Timed, Some Always}"
  proof (cases "rq_grant_type (gr_request (sm_grant m))")
    case (Some t)
    with st(2) show ?thesis by (cases t) simp_all
  qed (use st(2) in simp)
  have ex: "gr_expires_at (sm_grant m) \<in> {None, Some 0} \<or> now < the (gr_expires_at (sm_grant m))"
    using st(3) by (cases "gr_expires_at (sm_grant m)") auto
  obtain d where d: "d \<in> set (cliDetails (rq_authorization_details request))"
      "cliAuthorizationDetailIsSimilar coll (grant_details (sm_grant m) ! i) d"
    using assms(3) unfolding m(3) similar_indices_def by (auto simp: list_ex_iff)
  then have "\<not> cliAuthorizationDetailCovers coll (grant_details (sm_grant m) ! i) d"
    by (simp add: cliAuthorizationDetailIsSimilar_def split: if_splits)
  with d st(1,4-7) ty ex m(1) show ?thesis by blast
qed

definition path_request :: "string \<Rightarrow> grant_request" where
  "path_request p = (plain_request ''bot'' ''host'' ''shapes'')\<lparr>rq_grant_type := Some Always,
     rq_authorization_details := Some [CliDetail (simple_detail ''cat'' [ref ''file'' [(''path'', p)]] ''read'')]\<rparr>"

lemmas similar_eval = findSimilarCliGrants_def find_matches_def similar_indices_def grant_details_def
  is_candidate_def adapter_digest_def path_request_def plain_request_def widened_pairs_def
  cliAuthorizationDetailIsSimilar_def resourceChainsStructurallyMatch_def findDifferingSelectors_def

theorem similar_grants_sound_witness:
  "\<exists>r. findSimilarCliGrants (\<le>) 5 (path_request ''/a'') [new_grant ''g'' None (path_request ''/b'') Approved 1] = Some r \<and>
     gr_status (sm_grant (hd (sr_similar_grants r))) = Approved"
proof -
  let ?g = "new_grant ''g'' None (path_request ''/b'') Approved 1"
  let ?m = "\<lparr>sm_grant = ?g, sm_similar_detail_indices = [0]\<rparr>"
  obtain r where r: "findSimilarCliGrants (\<le>) 5 (path_request ''/a'') [?g] = Some r" "sr_similar_grants r = [?m]"
    by (simp add: similar_eval covers_eval simple_detail_def ref_def)
  have "gr_status (sm_grant ?m) = Approved"
    using similar_grants_sound [OF r(1), of ?m 0] r(2) by simp
  with r show ?thesis by simp
qed

text \<open>
  The merged preview is a superset: every incoming detail and every detail of a matched grant is
  covered by a detail of the preview, when no detail holds a delimiter of the canonical form.
\<close>

theorem merged_preview_covers:
  assumes "findSimilarCliGrants coll now request existing = Some r"
    and "\<forall>d\<in>set (cliDetails (rq_authorization_details request)) \<union> (\<Union>g\<in>set existing. set (grant_details g)).
      CHR ''.'' \<notin> set (cd_cli_id d) \<and> chain_wf (cd_resource_chain d) \<and> chain_plain (cd_resource_chain d) \<and>
      chain_self_matching (cd_resource_chain d)"
    and "d \<in> set (cliDetails (rq_authorization_details request)) \<union>
      (\<Union>m\<in>set (sr_similar_grants r). set (grant_details (sm_grant m)))"
  shows "\<exists>m\<in>set (sr_merged_details r). cliAuthorizationDetailCovers coll m d"
proof -
  let ?sets = "cliDetails (rq_authorization_details request) # map (\<lambda>m. grant_details (sm_grant m)) (sr_similar_grants r)"
  have sub: "sm_grant m \<in> set existing" if "m \<in> set (sr_similar_grants r)" for m
    using that unfolding findSimilar_parts(1) [OF assms(1)] by (rule find_matches_mem(1))
  have types: "cd_type x = ''openape_cli''" if "x \<in> set (concat ?sets)" for x
    using that cliDetails_type by (auto simp: grant_details_def)
  have "x \<in> set (cliDetails (rq_authorization_details request)) \<union> (\<Union>g\<in>set existing. set (grant_details g))"
    if "x \<in> set (concat ?sets)" for x
    using that sub by auto
  then have "\<forall>d\<in>set (concat ?sets). cd_type d = ''openape_cli'' \<and> CHR ''.'' \<notin> set (cd_cli_id d) \<and>
      chain_wf (cd_resource_chain d) \<and> chain_plain (cd_resource_chain d) \<and> chain_self_matching (cd_resource_chain d)"
    using assms(2) types by blast
  from merge_covers_sets [OF this] show ?thesis
    unfolding findSimilar_parts(2) [OF assms(1)] using assms(3) by simp
qed
theorem merged_preview_covers_witness:
  "\<exists>r. findSimilarCliGrants (\<le>) 5 (path_request ''/a'') [new_grant ''g'' None (path_request ''/b'') Approved 1] = Some r \<and>
     (\<exists>m\<in>set (sr_merged_details r). cliAuthorizationDetailCovers (\<le>) m
        (simple_detail ''cat'' [ref ''file'' [(''path'', ''/b'')]] ''read''))"
proof -
  let ?g = "new_grant ''g'' None (path_request ''/b'') Approved 1"
  let ?m = "\<lparr>sm_grant = ?g, sm_similar_detail_indices = [0]\<rparr>"
  obtain r where r: "findSimilarCliGrants (\<le>) 5 (path_request ''/a'') [?g] = Some r" "sr_similar_grants r = [?m]"
    by (simp add: similar_eval covers_eval simple_detail_def ref_def)
  have "\<exists>m\<in>set (sr_merged_details r). cliAuthorizationDetailCovers (\<le>) m
      (simple_detail ''cat'' [ref ''file'' [(''path'', ''/b'')]] ''read'')"
    by (rule merged_preview_covers [OF r(1)])
      (simp_all add: r(2) grant_details_def path_request_def plain_request_def ref_plain_def sel_plain_def
        chain_self_matching_def self_matching_def)
  with r(1) show ?thesis by blast
qed

end
