(* ===== verification/ShapeMatcher.thy ===== *)
theory ShapeMatcher
  imports CliPermissions
begin

text \<open>
  \<open>packages/grants/src/shape-matcher.ts\<close>: matching a command line (the executable already taken off)
  against the operations of a shape and building the authorization detail of the match. The loops over
  tokens are recursive functions; a thrown error is a \<open>shape_error\<close>. A \<open>Record\<close> of bindings is a
  \<open>string jsobj\<close> without the members every object inherits.
\<close>

datatype shape_error =
    MissingBinding string
  | NotOwnerName string
  | UnsupportedTransform string
  | InvalidChainEntry string
  | InvalidSegment string
  | EmptyArgv

datatype op_decision = DecideOnce | DecideDeny

record shape_operation =
  op_id :: string
  op_command :: "string list"
  op_positionals :: "string list option"
  op_required_options :: "string list option"
  op_value_options :: "string list option"
  op_flag_options :: "string list option"
  op_global_options :: "string list option"
  op_display :: string
  op_action :: string
  op_risk :: risk
  op_resource_chain :: "string list"
  op_exact_command :: "bool option"
  op_decision_of :: "op_decision option"

type_synonym bindings = "string jsobj"

section \<open>Options\<close>

definition optionName :: "string \<Rightarrow> string option" where
  "optionName token = (if starts_with token ''--'' then Some (drop 2 token)
     else if starts_with token ''-'' \<and> length token > 1 \<and> \<not> is_digit (token ! 1) then Some (drop 1 token)
     else None)"

definition splitInlineValue :: "string \<Rightarrow> string \<Rightarrow> string \<times> string option" where
  "splitInlineValue token name = (case (if starts_with token ''--'' then index_of CHR ''='' name else None) of
     None \<Rightarrow> (name, None)
   | Some i \<Rightarrow> (take i name, Some (drop (i + 1) name)))"

definition declaresOptions :: "shape_operation \<Rightarrow> bool" where
  "declaresOptions operation = (op_value_options operation \<noteq> None \<or> op_flag_options operation \<noteq> None)"

definition exactOption :: "string \<Rightarrow> (string \<times> string option) option" where
  "exactOption token = (if starts_with token ''--''
     then (let kv = splitInlineValue token (drop 2 token) in if length (fst kv) > 1 then Some kv else None)
     else if length token = 2 then Some ([token ! 1], None) else None)"

fun parse_declared :: "string list \<Rightarrow> string list \<Rightarrow> string list \<Rightarrow> bindings \<Rightarrow> string list
    \<Rightarrow> (bindings \<times> string list) option" where
  "parse_declared takesValue flags [] options positionals = Some (options, positionals)"
| "parse_declared takesValue flags (token # tokens) options positionals =
     (if \<not> starts_with token ''-'' \<or> token = ''-''
      then parse_declared takesValue flags tokens options (positionals @ [token])
      else if \<not> starts_with token ''--'' \<and> length token > 2
      then (if list_all (\<lambda>letter. [letter] \<in> set flags) (tl token)
            then parse_declared takesValue flags tokens
              (foldl (\<lambda>o' letter. AList.update [letter] ''true'' o') options (tl token)) positionals
            else None)
      else case exactOption token of None \<Rightarrow> None
      | Some (key, value) \<Rightarrow>
          if key \<in> set takesValue
          then (case value of
              Some v \<Rightarrow> parse_declared takesValue flags tokens (AList.update key v options) positionals
            | None \<Rightarrow> (case tokens of [] \<Rightarrow> None
                | next' # rest \<Rightarrow> if next' = [] \<or> starts_with next' ''-'' then None
                    else parse_declared takesValue flags rest (AList.update key next' options) positionals))
          else if key \<notin> set flags then None
          else parse_declared takesValue flags tokens (AList.update key (nullish value ''true'') options) positionals)"

definition parseDeclaredOptionArgs :: "string list \<Rightarrow> shape_operation \<Rightarrow> (bindings \<times> string list) option" where
  "parseDeclaredOptionArgs tokens operation = parse_declared
     (nullish (op_required_options operation) [] @ nullish (op_value_options operation) [])
     (nullish (op_flag_options operation) []) tokens [] []"

fun parse_undeclared :: "string list \<Rightarrow> string list \<Rightarrow> bindings \<Rightarrow> string list \<Rightarrow> bindings \<times> string list" where
  "parse_undeclared takesValue [] options positionals = (options, positionals)"
| "parse_undeclared takesValue (token # tokens) options positionals =
     (case optionName token of
        None \<Rightarrow> parse_undeclared takesValue tokens options (positionals @ [token])
      | Some name \<Rightarrow>
          (case splitInlineValue token name of
             (key, Some value) \<Rightarrow> parse_undeclared takesValue tokens (AList.update key value options) positionals
           | (key, None) \<Rightarrow>
               let shortOption = \<not> starts_with token ''--'' \<and> length key = 1;
                   consumes = (if shortOption then key \<in> set takesValue else True) in
               (case tokens of
                  next' # rest \<Rightarrow> if consumes \<and> next' \<noteq> [] \<and> \<not> starts_with next' ''-''
                    then parse_undeclared takesValue rest (AList.update key next' options) positionals
                    else parse_undeclared takesValue tokens (AList.update key ''true'' options) positionals
                | [] \<Rightarrow> parse_undeclared takesValue tokens (AList.update key ''true'' options) positionals)))"

definition parseOptionArgs :: "string list \<Rightarrow> shape_operation \<Rightarrow> (bindings \<times> string list) option" where
  "parseOptionArgs tokens operation = (if declaresOptions operation then parseDeclaredOptionArgs tokens operation
     else Some (parse_undeclared (nullish (op_required_options operation) []) tokens [] []))"

text \<open>\<open>entry.split(sep, 2)\<close>: at most the first two pieces.\<close>

definition split2 :: "char \<Rightarrow> string \<Rightarrow> string \<times> string option" where
  "split2 sep s = (case split_on sep s of [] \<Rightarrow> ([], None) | [a] \<Rightarrow> (a, None) | a # b # _ \<Rightarrow> (a, Some b))"

definition global_binding :: "string \<Rightarrow> string \<times> string" where
  "global_binding entry = (case split2 CHR ''='' entry of (name, b) \<Rightarrow>
     (name, if truthy_str b then the b else name))"

fun parse_globals :: "(string \<times> string) list \<Rightarrow> string list \<Rightarrow> bindings \<Rightarrow> (bindings \<times> string list) option" where
  "parse_globals bindingFor [] bs = Some (bs, [])"
| "parse_globals bindingFor (token # tokens) bs =
     (if \<not> starts_with token ''-'' then Some (bs, token # tokens)
      else case exactOption token of None \<Rightarrow> Some (bs, token # tokens)
      | Some (key, value) \<Rightarrow>
          (case map_of bindingFor key of None \<Rightarrow> Some (bs, token # tokens)
           | Some binding \<Rightarrow>
               if binding = [] then Some (bs, token # tokens)
               else if map_of bs binding \<noteq> None then None
               else case value of
                 Some v \<Rightarrow> parse_globals bindingFor tokens (AList.update binding v bs)
               | None \<Rightarrow> (case tokens of [] \<Rightarrow> None
                   | next' # rest \<Rightarrow> if next' = [] \<or> starts_with next' ''-'' then None
                       else parse_globals bindingFor rest (AList.update binding next' bs))))"

text \<open>A later entry of a \<open>Map\<close> replaces an earlier one with its key.\<close>

definition parseGlobalOptions :: "string list \<Rightarrow> string list \<Rightarrow> (bindings \<times> string list) option" where
  "parseGlobalOptions argv globalOptions = parse_globals (rev (map global_binding globalOptions)) argv []"

section \<open>Templates\<close>

definition resolve_expression :: "string \<Rightarrow> bindings \<Rightarrow> shape_error + string" where
  "resolve_expression expr bs = (let name = takeWhile (\<lambda>c. c \<noteq> CHR ''|'') expr; rest = dropWhile (\<lambda>c. c \<noteq> CHR ''|'') expr in
     if name = [] \<or> rest = ''|'' then Inr (''{'' @ expr @ ''}'')
     else let value = nullish (map_of bs name) [] in
       if value = [] then Inl (MissingBinding name)
       else if rest = [] then Inr value
       else let transform = tl rest in
         if transform = ''owner'' \<or> transform = ''name''
         then (case split2 CHR ''/'' value of (owner, repo) \<Rightarrow>
             if owner = [] \<or> \<not> truthy_str repo then Inl (NotOwnerName name)
             else Inr (if transform = ''owner'' then owner else the repo))
         else Inl (UnsupportedTransform transform))"

lemma length_dropWhile_tl: "dropWhile P cs = x # rest \<Longrightarrow> length rest < Suc (length cs)"
  by (metis dropWhile_eq_Nil_conv impossible_Cons length_dropWhile_le less_Suc_eq_le nat_le_linear order_trans)

function renderTemplate :: "string \<Rightarrow> bindings \<Rightarrow> shape_error + string" where
  "renderTemplate [] bs = Inr []"
| "renderTemplate (c # cs) bs =
     (if c = CHR ''{'' then
        let expr = takeWhile (\<lambda>x. x \<noteq> CHR ''}'') cs in
        (case dropWhile (\<lambda>x. x \<noteq> CHR ''}'') cs of
           _ # rest \<Rightarrow> if expr \<noteq> [] then
               (case resolve_expression expr bs of Inl e \<Rightarrow> Inl e
                | Inr v \<Rightarrow> (case renderTemplate rest bs of Inl e \<Rightarrow> Inl e | Inr t \<Rightarrow> Inr (v @ t)))
             else (case renderTemplate cs bs of Inl e \<Rightarrow> Inl e | Inr t \<Rightarrow> Inr (c # t))
         | [] \<Rightarrow> (case renderTemplate cs bs of Inl e \<Rightarrow> Inl e | Inr t \<Rightarrow> Inr (c # t)))
      else (case renderTemplate cs bs of Inl e \<Rightarrow> Inl e | Inr t \<Rightarrow> Inr (c # t)))"
  by pat_completeness auto
termination
  by (relation "measure (\<lambda>(s, _). length s)") (auto dest: length_dropWhile_tl)

definition resource_name_ok :: "string \<Rightarrow> bool" where
  "resource_name_ok s = (s \<noteq> [] \<and> list_all (\<lambda>c. is_word_char c \<or> c = CHR ''-'') s)"

text \<open>The segments of a selector in order; the first bad one throws.\<close>

fun check_segments :: "string \<Rightarrow> string list \<Rightarrow> shape_error + unit" where
  "check_segments entry [] = Inr ()"
| "check_segments entry (seg # segs) = (case split2 CHR ''='' seg of (key, raw) \<Rightarrow>
     if key = [] \<or> \<not> truthy_str raw then Inl (InvalidSegment seg) else check_segments entry segs)"

fun assertResourceChainTemplates :: "string list \<Rightarrow> shape_error + unit" where
  "assertResourceChainTemplates [] = Inr ()"
| "assertResourceChainTemplates (entry # chain) = (case split2 CHR '':'' entry of (resource, spec) \<Rightarrow>
     if \<not> resource_name_ok resource then Inl (InvalidChainEntry entry)
     else let selectorSpec = nullish spec ''*'' in
       if selectorSpec = ''*'' then assertResourceChainTemplates chain
       else case check_segments entry (split_on CHR '','' selectorSpec) of Inl e \<Rightarrow> Inl e
         | Inr _ \<Rightarrow> assertResourceChainTemplates chain)"

fun render_segments :: "string list \<Rightarrow> bindings \<Rightarrow> shape_error + (string \<times> string) list" where
  "render_segments [] bs = Inr []"
| "render_segments (seg # segs) bs = (case split2 CHR ''='' seg of (key, raw) \<Rightarrow>
     if key = [] \<or> \<not> truthy_str raw then Inl (InvalidSegment seg)
     else case renderTemplate (the raw) bs of Inl e \<Rightarrow> Inl e
       | Inr v \<Rightarrow> (case render_segments segs bs of Inl e \<Rightarrow> Inl e | Inr es \<Rightarrow> Inr ((key, v) # es)))"

fun parseResourceChain :: "string list \<Rightarrow> bindings \<Rightarrow> shape_error + resource_ref list" where
  "parseResourceChain [] bs = Inr []"
| "parseResourceChain (entry # chain) bs = (case split2 CHR '':'' entry of (resource, spec) \<Rightarrow>
     if \<not> resource_name_ok resource then Inl (InvalidChainEntry entry)
     else let selectorSpec = nullish spec ''*'' in
       case (if selectorSpec = ''*'' then Inr None
             else (case render_segments (split_on CHR '','' selectorSpec) bs of Inl e \<Rightarrow> Inl e
                   | Inr es \<Rightarrow> Inr (Some (obj_from_entries es)))) of
         Inl e \<Rightarrow> Inl e
       | Inr sel \<Rightarrow> (case parseResourceChain chain bs of Inl e \<Rightarrow> Inl e
           | Inr rs \<Rightarrow> Inr (\<lparr>rr_resource = resource, rr_selector = sel\<rparr> # rs)))"

section \<open>Matching\<close>

text \<open>Binding the positionals; a literal \<open>=text\<close> must be equal and binds nothing.\<close>

fun bind_positionals :: "string list \<Rightarrow> string list \<Rightarrow> bindings \<Rightarrow> bindings option" where
  "bind_positionals (name # names) (value # values) bs =
     (if starts_with name ''='' then (if value \<noteq> drop 1 name then None else bind_positionals names values bs)
      else bind_positionals names values (AList.update name value bs))"
| "bind_positionals _ _ bs = Some bs"

fun add_globals :: "(string \<times> string) list \<Rightarrow> bindings \<Rightarrow> bindings option" where
  "add_globals [] bs = Some bs"
| "add_globals ((name, value) # rest) bs =
     (if map_of bs name \<noteq> None then None else add_globals rest (AList.update name value bs))"

definition matchOperation :: "shape_operation \<Rightarrow> string list \<Rightarrow> bindings option" where
  "matchOperation operation argv =
     (case (if nullish (op_global_options operation) [] \<noteq> []
            then parseGlobalOptions argv (nullish (op_global_options operation) []) else Some ([], argv)) of
        None \<Rightarrow> None
      | Some (globals, commandArgv) \<Rightarrow>
          let n = length (op_command operation) in
          if length commandArgv < n then None
          else if join [CHR 0x00] (take n commandArgv) \<noteq> join [CHR 0x00] (op_command operation) then None
          else case parseOptionArgs (drop n commandArgv) operation of None \<Rightarrow> None
          | Some (options, positionals) \<Rightarrow>
              let expected = nullish (op_positionals operation) [] in
              if length positionals \<noteq> length expected then None
              else if list_ex (\<lambda>o'. \<not> truthy_str (map_of options o')) (nullish (op_required_options operation) []) then None
              else case bind_positionals expected positionals options of None \<Rightarrow> None
              | Some bs \<Rightarrow> add_globals (obj_entries globals) bs)"

definition expandCombinedFlags :: "string list \<Rightarrow> string list" where
  "expandCombinedFlags argv = concat (map (\<lambda>token.
     if starts_with token ''-'' \<and> \<not> starts_with token ''--'' \<and> length token > 2 \<and> list_all is_letter (tl token)
     then map (\<lambda>c. [CHR ''-'', c]) (tl token) else [token]) argv)"

definition tryMatch :: "shape_operation list \<Rightarrow> string list \<Rightarrow> (shape_operation \<times> bindings) list" where
  "tryMatch operations argv = concat (map (\<lambda>operation.
     case matchOperation operation argv of None \<Rightarrow> [] | Some bs \<Rightarrow> [(operation, bs)]) operations)"

definition all_matches :: "shape_operation list \<Rightarrow> string list \<Rightarrow> (shape_operation \<times> bindings) list" where
  "all_matches operations commandArgv = (let matches = tryMatch operations commandArgv in
     if matches \<noteq> [] then matches
     else let expanded = expandCombinedFlags commandArgv in
       if length expanded \<noteq> length commandArgv
       then tryMatch (filter (\<lambda>operation. \<not> declaresOptions operation) operations) expanded else [])"

definition matchArgvToOperation ::
  "shape_operation list \<Rightarrow> string list \<Rightarrow> (shape_operation \<times> bindings) option" where
  "matchArgvToOperation operations commandArgv =
     (case sort_by (\<lambda>a b. length (op_command (fst b)) \<le> length (op_command (fst a))) (all_matches operations commandArgv) of
        [] \<Rightarrow> None | m # _ \<Rightarrow> Some m)"

definition op_constraints :: "shape_operation \<Rightarrow> cli_constraints option" where
  "op_constraints operation = (if truthy_bool (op_exact_command operation)
     then Some \<lparr>cc_exact_command = Some True,
        cc_single_use = (if op_decision_of operation = Some DecideOnce then Some True else None)\<rparr>
     else None)"

definition buildCliAuthDetail ::
  "(string \<Rightarrow> string \<Rightarrow> bool) \<Rightarrow> string \<Rightarrow> shape_operation \<Rightarrow> bindings \<Rightarrow> shape_error + cli_detail" where
  "buildCliAuthDetail coll cliId operation bs =
     (case parseResourceChain (op_resource_chain operation) bs of Inl e \<Rightarrow> Inl e
      | Inr chain \<Rightarrow> (case renderTemplate (op_display operation) bs of Inl e \<Rightarrow> Inl e
         | Inr display \<Rightarrow> Inr \<lparr>cd_type = ''openape_cli'', cd_cli_id = cliId, cd_operation_id = op_id operation,
             cd_resource_chain = chain, cd_action = op_action operation, cd_approval = None, cd_reason = None,
             cd_grant_id = None, cd_permission = canonicalizeCliPermission coll cliId chain (op_action operation),
             cd_display = display, cd_risk = op_risk operation, cd_constraints = op_constraints operation\<rparr>))"

section \<open>Parsing options\<close>

lemma keys_fold_flags:
  "fst ` set (foldl (\<lambda>o' letter. AList.update [letter] v o') opts letters) = fst ` set opts \<union> (\<lambda>l. [l]) ` set letters"
  by (induction letters arbitrary: opts) (auto simp: dom_update)

text \<open>With declared options, nothing undeclared is read as an option and nothing dashed as a positional.\<close>

lemma parse_declared_sound:
  assumes "parse_declared takes flags tokens opts pos = Some (opts', pos')"
    and "fst ` set opts \<subseteq> set takes \<union> set flags" "\<forall>p\<in>set pos. \<not> starts_with p ''-'' \<or> p = ''-''"
  shows "fst ` set opts' \<subseteq> set takes \<union> set flags \<and> (\<forall>p\<in>set pos'. \<not> starts_with p ''-'' \<or> p = ''-'')"
  using assms
proof (induction takes flags tokens opts pos rule: parse_declared.induct)
  case (2 takes flags token tokens opts pos)
  show ?case
  proof (cases "\<not> starts_with token ''-'' \<or> token = ''-''")
    case True
    then show ?thesis using 2(1) [OF True] 2(6-8) by auto
  next
    case notpos: False
    show ?thesis
    proof (cases "\<not> starts_with token ''--'' \<and> length token > 2")
      case True
      with notpos 2(6) have letters: "list_all (\<lambda>letter. [letter] \<in> set flags) (tl token)" by (simp split: if_splits)
      have "fst ` set (foldl (\<lambda>o' letter. AList.update [letter] ''true'' o') opts (tl token)) \<subseteq> set takes \<union> set flags"
        using 2(7) letters unfolding keys_fold_flags by (auto simp: list_all_iff)
      then show ?thesis using 2(2) [OF notpos True letters] 2(6,8) notpos True letters by simp
    next
      case nobundle: False
      then obtain key val where opt: "exactOption token = Some (key, val)"
        using notpos 2(6) by (cases "exactOption token") auto
      show ?thesis
      proof (cases "key \<in> set takes")
        case True
        show ?thesis
        proof (cases val)
          case (Some v)
          have "fst ` set (AList.update key v opts) \<subseteq> set takes \<union> set flags"
            using 2(7) True by (auto simp: dom_update)
          moreover have "parse_declared takes flags tokens (AList.update key v opts) pos = Some (opts', pos')"
            using 2(6) by (simp only: parse_declared.simps if_not_P [OF notpos] if_not_P [OF nobundle] if_P [OF True] opt Some option.case prod.case)
          ultimately show ?thesis using 2(4) [OF notpos nobundle opt refl True Some _ _ 2(8)] by blast
        next
          case None
          then obtain next' rest where ts: "tokens = next' # rest" "\<not> (next' = [] \<or> starts_with next' ''-'')"
            using notpos nobundle opt True 2(6) by (cases tokens) (simp_all split: if_splits)
          have "fst ` set (AList.update key next' opts) \<subseteq> set takes \<union> set flags"
            using 2(7) True by (auto simp: dom_update)
          moreover have "parse_declared takes flags rest (AList.update key next' opts) pos = Some (opts', pos')"
            using 2(6) by (simp only: parse_declared.simps if_not_P [OF notpos] if_not_P [OF nobundle] if_P [OF True] opt None ts(1) if_not_P [OF ts(2)] option.case prod.case list.case)
          ultimately show ?thesis using 2(3) [OF notpos nobundle opt refl True None ts _ _ 2(8)] by blast
        qed
      next
        case False
        then have flag: "\<not> key \<notin> set flags" using notpos nobundle opt 2(6) by (simp split: if_splits)
        have "fst ` set (AList.update key (nullish val ''true'') opts) \<subseteq> set takes \<union> set flags"
          using 2(7) flag by (auto simp: dom_update)
        moreover have "parse_declared takes flags tokens (AList.update key (nullish val ''true'') opts) pos = Some (opts', pos')"
          using 2(6) by (simp only: parse_declared.simps if_not_P [OF notpos] if_not_P [OF nobundle] if_not_P [OF False] if_not_P [OF flag] opt option.case prod.case)
        ultimately show ?thesis using 2(5) [OF notpos nobundle opt refl False flag _ _ 2(8)] by blast
      qed
    qed
  qed
qed simp

lemma parse_globals_suffix:
  "parse_globals bf argv bs = Some (bs', rest) \<Longrightarrow> \<exists>pre. argv = pre @ rest"
proof (induction bf argv bs rule: parse_globals.induct)
  case (2 bf token tokens bs)
  show ?case
  proof (cases "rest = token # tokens")
    case False
    then have dash: "\<not> \<not> starts_with token ''-''" using 2(3) by (auto split: if_splits)
    with False obtain key val where opt: "exactOption token = Some (key, val)"
      using 2(3) by (cases "exactOption token") auto
    with False dash obtain binding where b: "map_of bf key = Some binding" "binding \<noteq> []" "\<not> map_of bs binding \<noteq> None"
      using 2(3) by (cases "map_of bf key") (auto split: if_splits)
    show ?thesis
    proof (cases val)
      case (Some v)
      then have "\<exists>pre. tokens = pre @ rest" using 2(2) [OF dash opt refl b(1) b(2,3) Some] 2(3) dash opt b by simp
      then show ?thesis by (metis append_Cons)
    next
      case None
      then obtain next' ts where ts: "tokens = next' # ts" "\<not> (next' = [] \<or> starts_with next' ''-'')"
        using 2(3) dash opt b by (cases tokens) (simp_all split: if_splits)
      then have "\<exists>pre. ts = pre @ rest" using 2(1) [OF dash opt refl b(1) b(2,3) None ts] 2(3) dash opt b None by simp
      then show ?thesis unfolding ts(1) by (metis append_Cons)
    qed
  qed simp
qed simp

lemma bind_positionals_literals:
  assumes "bind_positionals names values bs = Some bs'" "i < length names" "i < length values" "starts_with (names ! i) ''=''"
  shows "names ! i = CHR ''='' # values ! i"
  using assms
proof (induction names "values" bs arbitrary: i rule: bind_positionals.induct)
  case (1 name names v vals bs)
  show ?case
  proof (cases i)
    case 0
    with 1 show ?thesis by (cases name) (auto split: if_splits)
  next
    case (Suc j)
    with 1 show ?thesis by (auto split: if_splits)
  qed
qed simp_all

lemma add_globals_mono: "add_globals gs bs = Some bs' \<Longrightarrow> map_of bs k = Some v \<Longrightarrow> map_of bs' k = Some v"
proof (induction gs bs rule: add_globals.induct)
  case (2 name x rest bs)
  then have "map_of bs name = None" "k \<noteq> name" by (auto split: if_splits)
  with 2 show ?case by simp
qed simp

lemma add_globals_keep:
  "add_globals gs bs = Some bs' \<Longrightarrow> (k, v) \<in> set gs \<Longrightarrow> map_of bs' k = Some v"
  by (induction gs bs rule: add_globals.induct) (auto split: if_splits dest: add_globals_mono)

section \<open>What a match means\<close>

text \<open>
  \<open>matches_argv op argv bs\<close>: the command line is global options, the operation's command, and a
  remainder whose options and positionals are what the operation asks for; \<open>bs\<close> holds the globals.
\<close>

definition matches_argv :: "shape_operation \<Rightarrow> string list \<Rightarrow> bindings \<Rightarrow> bool" where
  "matches_argv operation argv bs \<longleftrightarrow> (\<exists>pre remainder globals options positionals.
     argv = pre @ op_command operation @ remainder \<and>
     (nullish (op_global_options operation) [] = [] \<longrightarrow> pre = []) \<and>
     parseOptionArgs remainder operation = Some (options, positionals) \<and>
     length positionals = length (nullish (op_positionals operation) []) \<and>
     (\<forall>o'\<in>set (nullish (op_required_options operation) []). truthy_str (map_of options o')) \<and>
     (\<forall>i<length positionals. starts_with (nullish (op_positionals operation) [] ! i) ''='' \<longrightarrow>
        nullish (op_positionals operation) [] ! i = CHR ''='' # positionals ! i) \<and>
     (nullish (op_global_options operation) [] \<noteq> [] \<longrightarrow>
        parseGlobalOptions argv (nullish (op_global_options operation) []) = Some (globals, op_command operation @ remainder) \<and>
        (\<forall>(k, v)\<in>set globals. map_of bs k = Some v)))"

definition no_nul :: "string list \<Rightarrow> bool" where
  "no_nul xs = (\<forall>x\<in>set xs. CHR 0x00 \<notin> set x)"

lemma join_nul_inject:
  assumes "join [CHR 0x00] xs = join [CHR 0x00] ys" "length xs = length ys" "no_nul xs" "no_nul ys"
  shows "xs = ys"
proof (cases "xs = []")
  case False
  then have "ys \<noteq> []" using assms(2) by auto
  with False show ?thesis using join_inject [OF assms(1)] assms(3,4) by (simp add: no_nul_def)
qed (use assms(2) in simp)

lemma matchOperation_sound:
  assumes "matchOperation operation argv = Some bs" "no_nul argv" "no_nul (op_command operation)"
  shows "matches_argv operation argv bs"
proof -
  let ?go = "nullish (op_global_options operation) []"
  let ?n = "length (op_command operation)"
  let ?ex = "nullish (op_positionals operation) []"
  obtain globals rest where g: "(if ?go \<noteq> [] then parseGlobalOptions argv ?go else Some ([], argv)) = Some (globals, rest)"
    using assms(1) by (auto simp: matchOperation_def split: option.splits)
  have m: "(let n = ?n in
          if length rest < n then None
          else if join [CHR 0x00] (take n rest) \<noteq> join [CHR 0x00] (op_command operation) then None
          else case parseOptionArgs (drop n rest) operation of None \<Rightarrow> None
          | Some (options, positionals) \<Rightarrow>
              let expected = ?ex in
              if length positionals \<noteq> length expected then None
              else if list_ex (\<lambda>o'. \<not> truthy_str (map_of options o')) (nullish (op_required_options operation) []) then None
              else case bind_positionals expected positionals options of None \<Rightarrow> None
              | Some bs \<Rightarrow> add_globals (obj_entries globals) bs) = Some bs"
    using assms(1) g by (simp add: matchOperation_def)
  have len: "?n \<le> length rest" and jn: "join [CHR 0x00] (take ?n rest) = join [CHR 0x00] (op_command operation)"
    using m by (simp_all add: Let_def split: if_splits)
  obtain options positionals where p: "parseOptionArgs (drop ?n rest) operation = Some (options, positionals)"
    using m len jn by (auto simp: Let_def split: option.splits)
  have p2: "length positionals = length ?ex" "\<forall>o'\<in>set (nullish (op_required_options operation) []). truthy_str (map_of options o')"
    using m len jn p by (auto simp: Let_def list_ex_iff split: if_splits)
  obtain bs1 where b: "bind_positionals ?ex positionals options = Some bs1" "add_globals (obj_entries globals) bs1 = Some bs"
    using m len jn p p2 by (auto simp: Let_def list_ex_iff split: option.splits if_splits)
  obtain pre where pre: "argv = pre @ rest" "?go = [] \<longrightarrow> pre = []"
    using g parse_globals_suffix unfolding parseGlobalOptions_def by (cases "?go = []") (auto, blast)
  have "no_nul (take ?n rest)" using assms(2) pre(1) by (auto simp: no_nul_def dest: in_set_takeD)
  then have "take ?n rest = op_command operation"
    using join_nul_inject [OF jn] len assms(3) by simp
  then have rest: "rest = op_command operation @ drop ?n rest" by (metis append_take_drop_id)
  have lit: "\<forall>i<length positionals. starts_with (?ex ! i) ''='' \<longrightarrow> ?ex ! i = CHR ''='' # positionals ! i"
    using bind_positionals_literals [OF b(1)] p2(1) by simp
  have glob: "?go \<noteq> [] \<longrightarrow> parseGlobalOptions argv ?go = Some (globals, op_command operation @ drop ?n rest) \<and>
      (\<forall>(k, v)\<in>set globals. map_of bs k = Some v)"
    using g rest add_globals_keep [OF b(2)] by auto
  show ?thesis unfolding matches_argv_def
    using pre rest p p2 lit glob by (metis append.assoc)
qed

lemma tryMatch_iff: "(operation, bs) \<in> set (tryMatch ops argv) \<longleftrightarrow> operation \<in> set ops \<and> matchOperation operation argv = Some bs"
  by (auto simp: tryMatch_def split: option.splits)

lemma no_nul_expand: "no_nul argv \<Longrightarrow> no_nul (expandCombinedFlags argv)"
proof -
  assume n: "no_nul argv"
  have "CHR 0x00 \<notin> set x" if tok: "token \<in> set argv"
    "x \<in> set (if starts_with token ''-'' \<and> \<not> starts_with token ''--'' \<and> length token > 2 \<and> list_all is_letter (tl token)
     then map (\<lambda>c. [CHR ''-'', c]) (tl token) else [token])" for token x
  proof -
    have tn: "CHR 0x00 \<notin> set token" using n tok(1) by (simp add: no_nul_def)
    then have "CHR 0x00 \<notin> set (tl token)" by (metis list.set_sel(2) tl_Nil)
    with tn tok(2) show ?thesis by (auto split: if_splits)
  qed
  then show ?thesis unfolding no_nul_def expandCombinedFlags_def set_concat set_map by blast
qed

lemma head_of_sort:
  fixes f :: "'a \<Rightarrow> nat"
  assumes "sort_by (\<lambda>a b. f b \<le> f a) xs = m # ms"
  shows "m \<in> set xs" "x \<in> set xs \<Longrightarrow> f x \<le> f m"
proof -
  have "set (sort_by (\<lambda>a b. f b \<le> f a) xs) = set xs" by simp
  with assms have s: "set xs = insert m (set ms)" by simp
  then show "m \<in> set xs" by blast
  have "sorted_wrt (\<lambda>a b. f b \<le> f a) (sort_by (\<lambda>a b. f b \<le> f a) xs)"
    by (rule sorted_sort_by [where A = UNIV]) (auto simp: orders_on_def)
  then show "x \<in> set xs \<Longrightarrow> f x \<le> f m" using assms s by auto
qed

lemma matchArgv_mem:
  assumes "matchArgvToOperation ops argv = Some (operation, bs)"
  shows "(operation, bs) \<in> set (all_matches ops argv)"
    "m \<in> set (all_matches ops argv) \<Longrightarrow> length (op_command (fst m)) \<le> length (op_command operation)"
proof -
  obtain ms where s: "sort_by (\<lambda>a b. length (op_command (fst b)) \<le> length (op_command (fst a))) (all_matches ops argv) = (operation, bs) # ms"
    using assms by (auto simp: matchArgvToOperation_def split: list.splits)
  note h = head_of_sort [where f = "\<lambda>x. length (op_command (fst x))", OF s]
  show "(operation, bs) \<in> set (all_matches ops argv)" by (rule h(1))
  show "m \<in> set (all_matches ops argv) \<Longrightarrow> length (op_command (fst m)) \<le> length (op_command operation)"
    using h(2) by fastforce
qed

lemma all_matches_mem:
  assumes "(operation, bs) \<in> set (all_matches ops argv)"
  shows "operation \<in> set ops \<and> (matchOperation operation argv = Some bs \<or>
    \<not> declaresOptions operation \<and> matchOperation operation (expandCombinedFlags argv) = Some bs)"
  using assms by (auto simp: all_matches_def Let_def tryMatch_iff split: if_splits)

section \<open>Properties\<close>

text \<open>
  A matched operation really describes the command line: the operation is one of the shape's, its
  command words stand at the start (after declared global options only), every required option has a
  value, the positionals are as many as declared with the literal ones equal, and the global bindings
  are kept unchanged. When single-letter bundles had to be expanded for the match, the operation declares no
  options. No matching operation has a longer command.
\<close>

theorem match_sound:
  assumes "matchArgvToOperation ops argv = Some (operation, bs)"
    and "no_nul argv" "\<forall>o'\<in>set ops. no_nul (op_command o')"
  shows "operation \<in> set ops \<and>
    (matches_argv operation argv bs \<or>
     \<not> declaresOptions operation \<and> matches_argv operation (expandCombinedFlags argv) bs) \<and>
    (\<forall>m\<in>set (all_matches ops argv). length (op_command (fst m)) \<le> length (op_command operation))"
  using all_matches_mem [OF matchArgv_mem(1) [OF assms(1)]] matchArgv_mem(2) [OF assms(1)]
    matchOperation_sound assms(2,3) no_nul_expand by blast

definition clone_operation :: shape_operation where
  "clone_operation = \<lparr>op_id = ''git.clone'', op_command = [''clone''], op_positionals = Some [''repo''],
     op_required_options = None, op_value_options = Some [''depth''], op_flag_options = Some [''q''],
     op_global_options = None, op_display = ''Clone {repo}'', op_action = ''read'', op_risk = Low,
     op_resource_chain = [''repo:url={repo}''], op_exact_command = None, op_decision_of = None\<rparr>"

lemmas matcher_eval = matchArgvToOperation_def all_matches_def tryMatch_def matchOperation_def clone_operation_def
  parseOptionArgs_def declaresOptions_def parseDeclaredOptionArgs_def exactOption_def splitInlineValue_def Let_def

theorem match_sound_witness:
  "list_all (\<lambda>m. length (op_command (fst m)) \<le> length (op_command clone_operation))
     (all_matches [clone_operation] [''clone'', ''--depth'', ''1'', ''-q'', ''x''])"
  using match_sound [of "[clone_operation]" "[''clone'', ''--depth'', ''1'', ''-q'', ''x'']" clone_operation
      "[(''depth'', ''1''), (''q'', ''true''), (''repo'', ''x'')]"]
  by (simp add: matcher_eval no_nul_def list_all_iff)

text \<open>
  Declared options fail closed: an operation that declares its options (even an empty list) accepts no
  command line with any other option. Every option read is a declared or required one, and no dashed
  token other than a lone dash passes as a positional.
\<close>

theorem declared_options_only:
  assumes "declaresOptions operation" "parseOptionArgs tokens operation = Some (options, positionals)"
  shows "(\<forall>key\<in>fst ` set options. key \<in> set (nullish (op_required_options operation) []) \<union>
      set (nullish (op_value_options operation) []) \<union> set (nullish (op_flag_options operation) [])) \<and>
    (\<forall>p\<in>set positionals. \<not> starts_with p ''-'' \<or> p = ''-'')"
proof -
  have "parse_declared (nullish (op_required_options operation) [] @ nullish (op_value_options operation) [])
     (nullish (op_flag_options operation) []) tokens [] [] = Some (options, positionals)"
    using assms by (simp add: parseOptionArgs_def parseDeclaredOptionArgs_def)
  from parse_declared_sound [OF this] show ?thesis by auto
qed

theorem declared_options_only_witness:
  "parseOptionArgs [''--depth'', ''1'', ''-q'', ''x''] clone_operation = Some ([(''depth'', ''1''), (''q'', ''true'')], [''x'']) \<and>
   list_all (\<lambda>p. starts_with p ''-'' = (p = ''-'')) [''x''] \<and>
   parseOptionArgs [''--upload-pack'', ''x''] clone_operation = None"
  using declared_options_only [of clone_operation "[''--depth'', ''1'', ''-q'', ''x'']" "[(''depth'', ''1''), (''q'', ''true'')]" "[''x'']"]
  by (simp add: matcher_eval)

lemma check_segments_render:
  "check_segments entry segs = Inr () \<Longrightarrow> render_segments segs bs = Inl e \<Longrightarrow> \<exists>seg\<in>set segs. \<exists>raw. renderTemplate raw bs = Inl e"
  by (induction segs) (auto split: prod.splits if_splits sum.splits)

lemma renderTemplate_errors:
  "renderTemplate s bs = Inl e \<Longrightarrow> (\<exists>n. e = MissingBinding n) \<or> (\<exists>n. e = NotOwnerName n) \<or> (\<exists>n. e = UnsupportedTransform n)"
proof (induction s bs rule: renderTemplate.induct)
  case (2 c cs bs)
  have ex: "resolve_expression x bs = Inl e \<Longrightarrow> (\<exists>n. e = MissingBinding n) \<or> (\<exists>n. e = NotOwnerName n) \<or> (\<exists>n. e = UnsupportedTransform n)" for x
    by (auto simp: resolve_expression_def Let_def split: if_splits prod.splits)
  show ?case using 2 ex
    by (auto simp: Let_def simp del: not_None_eq split: if_splits list.splits sum.splits)
qed simp

text \<open>
  What a shape's publisher is told is what the matcher does: a resource chain accepted by
  \<open>assertResourceChainTemplates\<close> never fails at a call for its form, only for a binding the call lacks
  or that has no such part.
\<close>

theorem published_chain_renders:
  assumes "assertResourceChainTemplates chain = Inr ()" "parseResourceChain chain bs = Inl e"
  shows "\<exists>n. e \<in> {MissingBinding n, NotOwnerName n, UnsupportedTransform n}"
  using assms
proof (induction chain)
  case (Cons entry chain)
  obtain res spec where sp: "split2 CHR '':'' entry = (res, spec)" by (cases "split2 CHR '':'' entry")
  have ok: "resource_name_ok res" using Cons.prems(1) sp by (auto split: if_splits)
  show ?case
  proof (cases "nullish spec ''*'' = ''*''")
    case True
    with Cons sp ok show ?thesis by (auto split: sum.splits)
  next
    case False
    let ?segs = "split_on CHR '','' (nullish spec ''*'')"
    have c: "check_segments entry ?segs = Inr ()" "assertResourceChainTemplates chain = Inr ()"
      using Cons.prems(1) sp ok False by (auto split: sum.splits)
    show ?thesis
    proof (cases "render_segments ?segs bs")
      case (Inl e')
      then have "e = e'" using Cons.prems(2) sp ok False by simp
      moreover obtain raw where "renderTemplate raw bs = Inl e'" using check_segments_render [OF c(1) Inl] by blast
      ultimately show ?thesis using renderTemplate_errors by blast
    next
      case (Inr es)
      then have "parseResourceChain chain bs = Inl e" using Cons.prems(2) sp ok False by (auto split: sum.splits)
      with Cons.IH c(2) show ?thesis by blast
    qed
  qed
qed simp

theorem published_chain_renders_witness:
  "\<exists>n. MissingBinding ''repo'' \<in> {MissingBinding n, NotOwnerName n, UnsupportedTransform n}"
  by (rule published_chain_renders [of "[''repo:url={repo}'']" "[]"])
    (simp_all add: split2_def resource_name_ok_def is_word_char_def is_letter_def is_digit_def resolve_expression_def Let_def)

end
