(* ===== verification/CliValidation.thy ===== *)
theory CliValidation
  imports CliPermissions
begin

text \<open>
  The part of \<open>packages/grants/src/cli-permissions.ts\<close> that reads details of type \<open>unknown\<close>:
  \<open>validateCliAuthorizationDetail\<close>, \<open>isCoverableCliDetail\<close> and the coverage of detail lists.
  \<open>json_of_detail\<close> is a typed detail as the value it is in the program, so the checks on unknown
  values apply to typed details too.
\<close>

section \<open>Reading unknown values\<close>

text \<open>\<open>typeof value === 'object' && value !== null\<close>, with the named members: an array has none of them.\<close>

fun object_like :: "jsval \<Rightarrow> jsval jsobj option" where
  "object_like (JObj ob) = Some ob"
| "object_like (JArr xs) = Some []"
| "object_like _ = None"

definition is_str :: "jsval \<Rightarrow> bool" where
  "is_str v = (as_string v \<noteq> None)"

text \<open>\<open>typeof v === 'string' && v\<close>\<close>

definition nonempty_str :: "jsval \<Rightarrow> bool" where
  "nonempty_str v = truthy_str (as_string v)"

text \<open>\<open>String(v)\<close>; for a number that is no integer only some text that is no word is needed.\<close>

fun js_string :: "jsval \<Rightarrow> string" where
  "js_string JUndef = ''undefined''"
| "js_string JNull = ''null''"
| "js_string (JBool b) = (if b then ''true'' else ''false'')"
| "js_string (JInt i) = string_of_int i"
| "js_string JNonInt = ''0.5''"
| "js_string (JStr s) = s"
| "js_string (JArr xs) = join '','' (map (\<lambda>x. if x = JUndef \<or> x = JNull then [] else js_string x) xs)"
| "js_string (JObj ob) = ''[object Object]''"

definition risk_name :: "risk \<Rightarrow> string" where
  "risk_name r = (case r of Low \<Rightarrow> ''low'' | Medium \<Rightarrow> ''medium'' | High \<Rightarrow> ''high'' | Critical \<Rightarrow> ''critical'')"

section \<open>Validation\<close>

record cli_validation =
  cv_valid :: bool
  cv_errors :: "string list"

definition required_error :: "jsval jsobj \<Rightarrow> string \<Rightarrow> string list" where
  "required_error candidate k = (if nonempty_str (member candidate k) then [] else [k @ '' is required''])"

text \<open>The loop over the selector's entries breaks at the first bad one.\<close>

definition selector_errors :: "string \<Rightarrow> jsval \<Rightarrow> string list" where
  "selector_errors at sel = (case sel of JUndef \<Rightarrow> []
     | JObj ob \<Rightarrow> (if list_ex (\<lambda>e. fst e = [] \<or> \<not> nonempty_str (snd e)) (obj_entries ob)
         then [at @ ''.selector entries must be non-empty strings''] else [])
     | _ \<Rightarrow> [at @ ''.selector must be an object''])"

definition resource_errors :: "nat \<Rightarrow> jsval \<Rightarrow> string list" where
  "resource_errors index resource = (let at = ''resource_chain['' @ string_of_int (int index) @ '']'' in
     case object_like resource of None \<Rightarrow> [at @ '' must be an object'']
     | Some rec \<Rightarrow> (if nonempty_str (member rec ''resource'') then [] else [at @ ''.resource is required''])
         @ selector_errors at (member rec ''selector''))"

definition chain_errors :: "jsval \<Rightarrow> string list" where
  "chain_errors v = (case as_array v of None \<Rightarrow> [''resource_chain must be a non-empty array'']
     | Some [] \<Rightarrow> [''resource_chain must be a non-empty array'']
     | Some xs \<Rightarrow> concat (map (\<lambda>(i, x). resource_errors i x) (zip [0..<length xs] xs)))"

definition shape_errors :: "jsval jsobj \<Rightarrow> string list" where
  "shape_errors candidate =
     (if member candidate ''type'' = JStr ''openape_cli'' then [] else [''type must be \"openape_cli\"''])
     @ concat (map (required_error candidate) [''cli_id'', ''operation_id'', ''action'', ''permission'', ''display''])
     @ (let r = member candidate ''risk'' in
        if js_string (if r = JUndef \<or> r = JNull then JStr [] else r) \<in> {''low'', ''medium'', ''high'', ''critical''}
        then [] else [''risk must be one of: low, medium, high, critical''])
     @ chain_errors (member candidate ''resource_chain'')"

text \<open>The typed view of a chain that passed the checks.\<close>

definition typed_ref :: "jsval \<Rightarrow> resource_ref" where
  "typed_ref v = (let ob = nullish (object_like v) [] in
     \<lparr>rr_resource = nullish (as_string (member ob ''resource'')) [],
      rr_selector = (case member ob ''selector'' of
         JObj s \<Rightarrow> Some (map (\<lambda>(k, x). (k, nullish (as_string x) [])) s) | _ \<Rightarrow> None)\<rparr>)"

definition typed_chain :: "jsval \<Rightarrow> resource_ref list" where
  "typed_chain v = map typed_ref (nullish (as_array v) [])"

definition validateCliAuthorizationDetail :: "(string \<Rightarrow> string \<Rightarrow> bool) \<Rightarrow> jsval \<Rightarrow> cli_validation" where
  "validateCliAuthorizationDetail coll detail = (case object_like detail of
     None \<Rightarrow> \<lparr>cv_valid = False, cv_errors = [''detail must be an object'']\<rparr>
   | Some candidate \<Rightarrow>
       let errors = shape_errors candidate in
       if errors \<noteq> [] then \<lparr>cv_valid = False, cv_errors = errors\<rparr>
       else let expected = canonicalizeCliPermission coll (nullish (as_string (member candidate ''cli_id'')) [])
                (typed_chain (member candidate ''resource_chain'')) (nullish (as_string (member candidate ''action'')) [])
         in if member candidate ''permission'' \<noteq> JStr expected
            then \<lparr>cv_valid = False, cv_errors = [''permission does not match canonical form: expected '' @ expected]\<rparr>
            else \<lparr>cv_valid = True, cv_errors = []\<rparr>)"

section \<open>Coverage of stored lists\<close>

definition isTextRecord :: "jsval \<Rightarrow> bool" where
  "isTextRecord v = (case v of JObj ob \<Rightarrow> list_all (\<lambda>e. is_str (snd e)) (obj_entries ob) | _ \<Rightarrow> False)"

definition isCoverableCliDetail :: "jsval \<Rightarrow> bool" where
  "isCoverableCliDetail detail = (case object_like detail of None \<Rightarrow> False
   | Some candidate \<Rightarrow> member candidate ''type'' = JStr ''openape_cli''
       \<and> list_all (\<lambda>k. is_str (member candidate k)) [''cli_id'', ''operation_id'', ''action'', ''permission'']
       \<and> (case as_array (member candidate ''resource_chain'') of None \<Rightarrow> False
          | Some rs \<Rightarrow> list_all (\<lambda>r. case object_like r of None \<Rightarrow> False
              | Some ob \<Rightarrow> is_str (member ob ''resource'')
                  \<and> (member ob ''selector'' = JUndef \<or> isTextRecord (member ob ''selector''))) rs))"

definition coverableCliDetails :: "jsval \<Rightarrow> jsval list" where
  "coverableCliDetails details = (case as_array details of None \<Rightarrow> [] | Some ds \<Rightarrow> filter isCoverableCliDetail ds)"

definition json_of_ref :: "resource_ref \<Rightarrow> jsval" where
  "json_of_ref r = JObj ((''resource'', JStr (rr_resource r)) #
     (case rr_selector r of None \<Rightarrow> [] | Some s \<Rightarrow> [(''selector'', JObj (map (\<lambda>(k, v). (k, JStr v)) s))]))"

definition json_of_detail :: "cli_detail \<Rightarrow> jsval" where
  "json_of_detail d = JObj
     [(''type'', JStr (cd_type d)), (''cli_id'', JStr (cd_cli_id d)), (''operation_id'', JStr (cd_operation_id d)),
      (''resource_chain'', JArr (map json_of_ref (cd_resource_chain d))), (''action'', JStr (cd_action d)),
      (''permission'', JStr (cd_permission d)), (''display'', JStr (cd_display d)), (''risk'', JStr (risk_name (cd_risk d)))]"

definition cliAuthorizationDetailsCover ::
  "(string \<Rightarrow> string \<Rightarrow> bool) \<Rightarrow> cli_detail list \<Rightarrow> cli_detail list \<Rightarrow> bool" where
  "cliAuthorizationDetailsCover coll grantedDetails requiredDetails =
     list_all (\<lambda>required. list_ex (\<lambda>granted. isCoverableCliDetail (json_of_detail granted)
        \<and> cliAuthorizationDetailCovers coll granted required) grantedDetails) requiredDetails"

section \<open>Typed details as values\<close>

lemma member_Cons [simp]: "member ((k, v) # ob) k' = (if k' = k then v else member ob k')"
  "member [] k' = JUndef"
  by (simp_all add: member_def)

lemma as_array_simps [simp]: "as_array (JArr xs) = Some xs" "as_string (JStr s) = Some s" by simp_all

lemma member_json_of_detail:
  "object_like (json_of_detail d) = Some [(''type'', JStr (cd_type d)), (''cli_id'', JStr (cd_cli_id d)),
      (''operation_id'', JStr (cd_operation_id d)),
      (''resource_chain'', JArr (map json_of_ref (cd_resource_chain d))), (''action'', JStr (cd_action d)),
      (''permission'', JStr (cd_permission d)), (''display'', JStr (cd_display d)), (''risk'', JStr (risk_name (cd_risk d)))]"
  by (simp add: json_of_detail_def)

lemma json_of_ref_parts:
  "object_like (json_of_ref r) = Some ((''resource'', JStr (rr_resource r)) #
     (case rr_selector r of None \<Rightarrow> [] | Some s \<Rightarrow> [(''selector'', JObj (map (\<lambda>(k, v). (k, JStr v)) s))]))"
  by (simp add: json_of_ref_def)

lemma typed_ref_json [simp]: "typed_ref (json_of_ref r) = r"
  by (cases "rr_selector r") (simp_all add: typed_ref_def json_of_ref_parts Let_def comp_def case_prod_unfold)

lemma typed_chain_json: "typed_chain (JArr (map json_of_ref rs)) = rs"
  by (simp add: typed_chain_def comp_def)

lemma coverable_json_of_detail [simp]:
  "isCoverableCliDetail (json_of_detail d) \<longleftrightarrow> cd_type d = ''openape_cli''"
proof -
  have "isTextRecord (JObj (map (\<lambda>(k, v). (k, JStr v)) s))" for s
    by (auto simp: isTextRecord_def list_all_iff is_str_def)
  then have "list_all (\<lambda>r. case object_like r of None \<Rightarrow> False
      | Some ob \<Rightarrow> is_str (member ob ''resource'')
          \<and> (member ob ''selector'' = JUndef \<or> isTextRecord (member ob ''selector''))) (map json_of_ref (cd_resource_chain d))"
    by (simp add: list_all_iff json_of_ref_parts is_str_def split: option.split)
  then show ?thesis by (simp add: isCoverableCliDetail_def member_json_of_detail is_str_def)
qed

definition ref_complete :: "resource_ref \<Rightarrow> bool" where
  "ref_complete r \<longleftrightarrow> rr_resource r \<noteq> [] \<and>
     (\<forall>e\<in>set (nullish (rr_selector r) []). fst e \<noteq> [] \<and> snd e \<noteq> [])"

lemma resource_errors_json: "resource_errors i (json_of_ref r) = [] \<longleftrightarrow> ref_complete r"
  by (cases "rr_selector r")
    (simp_all add: resource_errors_def json_of_ref_parts Let_def nonempty_str_def selector_errors_def ref_complete_def
      list_ex_iff case_prod_unfold)

lemma chain_errors_json:
  "chain_errors (JArr (map json_of_ref rs)) = [] \<longleftrightarrow> rs \<noteq> [] \<and> (\<forall>r\<in>set rs. ref_complete r)"
proof -
  have "concat (map (\<lambda>(i, x). resource_errors i x) (zip [a..<a + length rs] (map json_of_ref rs))) = [] \<longleftrightarrow>
      (\<forall>r\<in>set rs. ref_complete r)" for a
  proof (induction rs arbitrary: a)
    case (Cons r rs)
    have "[a..<a + length (r # rs)] = a # [Suc a..<Suc a + length rs]" by (subst upt_conv_Cons) simp_all
    then show ?case using Cons.IH [of "Suc a"] by (simp add: resource_errors_json)
  qed simp
  from this [of 0] show ?thesis by (cases rs) (simp_all add: chain_errors_def)
qed

lemma shape_errors_json:
  assumes "object_like (json_of_detail d) = Some ob"
  shows "shape_errors ob = [] \<longleftrightarrow> cd_type d = ''openape_cli'' \<and>
     cd_cli_id d \<noteq> [] \<and> cd_operation_id d \<noteq> [] \<and> cd_action d \<noteq> [] \<and> cd_permission d \<noteq> [] \<and> cd_display d \<noteq> [] \<and>
     cd_resource_chain d \<noteq> [] \<and> (\<forall>r\<in>set (cd_resource_chain d). ref_complete r)"
proof -
  have "risk_name r \<in> {''low'', ''medium'', ''high'', ''critical''}" for r by (cases r) (simp_all add: risk_name_def)
  then have risk: "js_string (let r = JStr (risk_name (cd_risk d)) in if r = JUndef \<or> r = JNull then JStr [] else r)
      \<in> {''low'', ''medium'', ''high'', ''critical''}" by simp
  have ob: "ob = [(''type'', JStr (cd_type d)), (''cli_id'', JStr (cd_cli_id d)),
      (''operation_id'', JStr (cd_operation_id d)),
      (''resource_chain'', JArr (map json_of_ref (cd_resource_chain d))), (''action'', JStr (cd_action d)),
      (''permission'', JStr (cd_permission d)), (''display'', JStr (cd_display d)), (''risk'', JStr (risk_name (cd_risk d)))]"
    using assms member_json_of_detail by simp
  show ?thesis
    unfolding shape_errors_def ob required_error_def nonempty_str_def append_is_Nil_conv
    using risk chain_errors_json [of "cd_resource_chain d"] by simp
qed

section \<open>Accepted details are coverable\<close>

lemma nonempty_is_str: "nonempty_str v \<Longrightarrow> is_str v"
  by (cases "as_string v") (simp_all add: nonempty_str_def is_str_def)

lemma selector_errors_text:
  assumes "selector_errors at v = []"
  shows "v = JUndef \<or> isTextRecord v"
proof (cases v)
  case (JObj ob)
  with assms have "\<forall>e\<in>set ob. nonempty_str (snd e)" by (simp add: selector_errors_def list_ex_iff split: if_splits)
  with JObj show ?thesis by (simp add: isTextRecord_def list_all_iff nonempty_is_str)
qed (use assms in \<open>simp_all add: selector_errors_def\<close>)

lemma shape_errorsD:
  assumes "shape_errors ob = []"
  shows "member ob ''type'' = JStr ''openape_cli''" "chain_errors (member ob ''resource_chain'') = []"
    "k \<in> {''cli_id'', ''operation_id'', ''action'', ''permission'', ''display''} \<Longrightarrow> nonempty_str (member ob k)"
proof -
  have parts: "(if member ob ''type'' = JStr ''openape_cli'' then [] else [''type must be \"openape_cli\"'']) = []"
    "concat (map (required_error ob) [''cli_id'', ''operation_id'', ''action'', ''permission'', ''display'']) = []"
    "chain_errors (member ob ''resource_chain'') = []"
    using assms unfolding shape_errors_def append_is_Nil_conv by blast+
  from parts(1) show "member ob ''type'' = JStr ''openape_cli''" by (simp split: if_splits)
  show "chain_errors (member ob ''resource_chain'') = []" by (rule parts(3))
  assume "k \<in> {''cli_id'', ''operation_id'', ''action'', ''permission'', ''display''}"
  then have "required_error ob k = []" using parts(2) by fastforce
  then show "nonempty_str (member ob k)" by (simp add: required_error_def split: if_splits)
qed

lemma resource_errors_coverable:
  assumes "resource_errors i r = []"
  shows "case object_like r of None \<Rightarrow> False
      | Some ob \<Rightarrow> is_str (member ob ''resource'')
          \<and> (member ob ''selector'' = JUndef \<or> isTextRecord (member ob ''selector''))"
  using assms selector_errors_text nonempty_is_str
  by (auto simp: resource_errors_def Let_def split: option.splits if_splits)

lemma chain_errors_coverable:
  assumes "chain_errors v = []"
  obtains rs where "as_array v = Some rs" "rs \<noteq> []" "\<forall>r\<in>set rs. \<exists>i. resource_errors i r = []"
proof -
  obtain rs where some: "as_array v = Some rs" using assms by (cases "as_array v") (simp_all add: chain_errors_def)
  then obtain r0 rs0 where rs0: "rs = r0 # rs0" using assms by (cases rs) (simp_all add: chain_errors_def)
  have rs: "as_array v = Some rs" "rs \<noteq> []"
      "concat (map (\<lambda>(i, x). resource_errors i x) (zip [0..<length rs] rs)) = []"
  proof -
    have "chain_errors v = concat (map (\<lambda>(i, x). resource_errors i x) (zip [0..<length rs] rs))"
      unfolding chain_errors_def some rs0 by (simp only: option.case list.case)
    with assms show "concat (map (\<lambda>(i, x). resource_errors i x) (zip [0..<length rs] rs)) = []" by (simp only:)
    show "rs \<noteq> []" unfolding rs0 by simp
  qed (rule some)
  have step: "\<exists>i. resource_errors i r = []" if r: "r \<in> set rs" for r
  proof -
    from r obtain i where i: "i < length rs" "rs ! i = r" unfolding in_set_conv_nth by blast
    have "zip [0..<length rs] rs ! i \<in> set (zip [0..<length rs] rs)" by (rule nth_mem) (simp add: i)
    then have "(i, r) \<in> set (zip [0..<length rs] rs)" using i by simp
    then have "(\<lambda>(i, x). resource_errors i x) (i, r) = []" using rs(3) unfolding concat_eq_Nil_conv set_map by blast
    then show ?thesis by auto
  qed
  show thesis by (rule that [OF rs(1,2)]) (blast intro: step)
qed

section \<open>Properties\<close>

text \<open>
  C12. A detail sent as JSON is accepted exactly when every required field is non-empty, the resource
  chain is non-empty with complete resources and selectors, and its permission is the canonical string
  of its other fields.
\<close>

theorem validate_typed_iff:
  "cv_valid (validateCliAuthorizationDetail coll (json_of_detail d)) =
     (cd_type d = ''openape_cli'' \<and> cd_cli_id d \<noteq> [] \<and> cd_operation_id d \<noteq> [] \<and> cd_action d \<noteq> [] \<and>
      cd_permission d \<noteq> [] \<and> cd_display d \<noteq> [] \<and> cd_resource_chain d \<noteq> [] \<and>
      list_all ref_complete (cd_resource_chain d) \<and> cd_permission d = canonical coll d)"
proof -
  obtain ob where ob: "object_like (json_of_detail d) = Some ob" using member_json_of_detail by blast
  have "nullish (as_string (member ob ''cli_id'')) [] = cd_cli_id d" "nullish (as_string (member ob ''action'')) [] = cd_action d"
    "typed_chain (member ob ''resource_chain'') = cd_resource_chain d" "member ob ''permission'' = JStr (cd_permission d)"
    using ob by (auto simp: member_json_of_detail typed_chain_json)
  then show ?thesis unfolding validateCliAuthorizationDetail_def ob Let_def list_all_iff
    using shape_errors_json [OF ob] by simp
qed

text \<open>
  Whatever value a client sends, an accepted detail is one the coverage check can read: it has every
  field coverage reads, so a grant for it is never silently ignored.
\<close>

theorem validated_is_coverable:
  assumes "cv_valid (validateCliAuthorizationDetail coll v)"
  shows "isCoverableCliDetail v"
proof -
  obtain ob where ob: "object_like v = Some ob" and errs: "shape_errors ob = []"
  proof (cases "object_like v")
    case (Some ob)
    show thesis
    proof (rule that [OF Some])
      show "shape_errors ob = []"
        using assms by (cases "shape_errors ob = []") (simp_all add: validateCliAuthorizationDetail_def Some Let_def)
    qed
  qed (use assms in \<open>simp add: validateCliAuthorizationDetail_def\<close>)
  note chain = shape_errorsD(2) [OF errs] and str = shape_errorsD(1,3) [OF errs]
  obtain rs where rs: "as_array (member ob ''resource_chain'') = Some rs" "\<forall>r\<in>set rs. \<exists>i. resource_errors i r = []"
    by (rule chain_errors_coverable [OF chain])
  have "list_all (\<lambda>r. case object_like r of None \<Rightarrow> False
      | Some ob \<Rightarrow> is_str (member ob ''resource'')
          \<and> (member ob ''selector'' = JUndef \<or> isTextRecord (member ob ''selector''))) rs"
    unfolding list_all_iff using rs(2) resource_errors_coverable by blast
  then show ?thesis using str rs(1) by (simp add: isCoverableCliDetail_def ob nonempty_is_str)
qed

theorem validated_is_coverable_witness:
  "isCoverableCliDetail (json_of_detail (simple_detail ''cat'' [ref ''file'' [(''path'', ''/a'')]] ''read''
      \<lparr>cd_permission := ''cat.file[path=/a]#read''\<rparr>))"
  by (rule validated_is_coverable [where coll = "(\<le>)"])
    (simp add: validate_typed_iff canonical_eval ref_complete_def simple_detail_def ref_def)

end
