(* ===== verification/GrantReference.thy ===== *)
theory GrantReference
  imports CliValidation
begin

text \<open>
  \<open>packages/grants/src/grant-reference.ts\<close>, \<open>grant-summary.ts\<close> (the request validation),
  \<open>grant-withdraw.ts\<close> (its parsers) and \<open>parseGrantBatch\<close> of \<open>grants.ts\<close>: readers of untrusted
  members of a grant request, and the identity of a referenced request. In Latin-1 the character
  classes the readers refuse are the control characters and U+00AD.
\<close>

section \<open>Errors\<close>

text \<open>One constructor per error class and message of the grants package.\<close>

datatype grant_error =
    InvalidGrantReference string
  | GrantReferenceConflict
  | InvalidGrantSummary string
  | InvalidGrantBatch string
  | InvalidGrantWithdraw string
  | StoreError string
  | GrantNotFound string
  | NotPending grant_status
  | NotRevocable grant_status
  | NotApproved grant_status
  | ChangedWhileUsed
  | ReferencedBinding
  | SingleUseRequired
  | DurationRequired
  | CannotWiden
  | ExtendNotFound string
  | ExtendNotApproved grant_status
  | ExtendHostMismatch
  | ExtendAudienceMismatch
  | ExtendShapeMismatch
  | NoCliDetails
  | WidenLength nat nat
  | WidenType nat
  | WidenCliId nat
  | WidenAction nat
  | WidenOperation nat
  | WidenStructure nat
  | WidenNotCovering nat
  | NotDelegation
  | DelegateMismatch
  | AudienceMismatch
  | WithdrawFailed grant_status

section \<open>References\<close>

definition is_control :: "char \<Rightarrow> bool" where
  "is_control c = (let n = (of_char c :: nat) in n < 32 \<or> (127 \<le> n \<and> n \<le> 159))"

definition is_hidden :: "char \<Rightarrow> bool" where
  "is_hidden c = (is_control c \<or> (of_char c :: nat) = 173)"

definition utf8_length :: "string \<Rightarrow> nat" where
  "utf8_length s = sum_list (map (\<lambda>c. if (of_char c :: nat) < 128 then 1 else 2) s)"

definition bad_reference :: grant_error where
  "bad_reference = InvalidGrantReference ''reference must be 1-512 UTF-8 bytes without control or format characters''"

definition parseGrantReference :: "jsval \<Rightarrow> grant_error + string option" where
  "parseGrantReference value = (if value = JUndef then Inr None
     else case as_string value of None \<Rightarrow> Inl bad_reference
     | Some s \<Rightarrow> if js_trim s = [] \<or> utf8_length s > 512 \<or> list_ex is_hidden s then Inl bad_reference else Inr (Some s))"

definition js_opt_string :: "string option \<Rightarrow> jsval" where
  "js_opt_string s = (case s of None \<Rightarrow> JUndef | Some x \<Rightarrow> JStr x)"

definition exact_once_command :: "grant_request \<Rightarrow> bool" where
  "exact_once_command r = (rq_grant_type r = Some Once \<and>
     (case rq_command r of None \<Rightarrow> False | Some argv \<Rightarrow> argv \<noteq> [] \<and> list_all (\<lambda>a. CHR 0x00 \<notin> set a) argv) \<and>
     \<not> truthy_str (rq_run_as r) \<and> \<not> truthy_str (rq_delegator r) \<and> \<not> truthy_str (rq_delegate r) \<and>
     rq_scopes r = None \<and> rq_duration r = None)"

definition assertGrantReferenceRequest :: "grant_request \<Rightarrow> grant_error + unit" where
  "assertGrantReferenceRequest r = (case parseGrantReference (js_opt_string (rq_reference r)) of
     Inl e \<Rightarrow> Inl e | Inr None \<Rightarrow> Inr ()
   | Inr (Some _) \<Rightarrow> if \<not> exact_once_command r
       then Inl (InvalidGrantReference ''reference requires an exact single-use command without delegation or duration'')
       else Inr ())"

definition broker_authority :: "brokered_grant \<Rightarrow> string list" where
  "broker_authority b = [bg_connection_id b, bg_broker_issuer b, bg_agent_issuer b, bg_owner b, bg_key_id b]"

definition grantReferenceKey :: "string \<Rightarrow> string \<Rightarrow> brokered_grant option \<Rightarrow> string" where
  "grantReferenceKey requester reference brokered = json_array [json_quote requester, json_quote reference,
     (case brokered of None \<Rightarrow> ''null'' | Some b \<Rightarrow> json_strings (broker_authority b))]"

fun canonical_js :: "jsval \<Rightarrow> jsval" where
  "canonical_js (JArr xs) = JArr (map canonical_js xs)"
| "canonical_js (JObj ob) = JObj (obj_from_entries (map snd (sort_by (\<lambda>a b. fst (snd a) \<le> fst (snd b))
     (filter (\<lambda>e. fst e) (map snd (obj_entries (map (\<lambda>(k, v). (k, (v \<noteq> JUndef, (k, canonical_js v)))) ob)))))))"
| "canonical_js v = v"

section \<open>A request as a JSON value\<close>

definition js_strings :: "string list \<Rightarrow> jsval" where
  "js_strings xs = JArr (map JStr xs)"

definition js_record :: "string jsobj \<Rightarrow> jsval" where
  "js_record ob = JObj (map (\<lambda>(k, v). (k, JStr v)) ob)"

definition grant_type_name :: "grant_type \<Rightarrow> string" where
  "grant_type_name t = (case t of Once \<Rightarrow> ''once'' | Timed \<Rightarrow> ''timed'' | Always \<Rightarrow> ''always'')"

definition js_grant_type :: "grant_type \<Rightarrow> jsval" where
  "js_grant_type t = JStr (grant_type_name t)"

definition js_constraints :: "cli_constraints \<Rightarrow> jsval" where
  "js_constraints c = JObj (opt_member ''exact_command'' JBool (cc_exact_command c)
     @ opt_member ''single_use'' JBool (cc_single_use c))"

definition js_auth_detail :: "auth_detail \<Rightarrow> jsval" where
  "js_auth_detail d = (case d of
     CliDetail c \<Rightarrow> JObj ([(''type'', JStr (cd_type c)), (''cli_id'', JStr (cd_cli_id c)),
         (''operation_id'', JStr (cd_operation_id c)),
         (''resource_chain'', JArr (map json_of_ref (cd_resource_chain c))), (''action'', JStr (cd_action c)),
         (''permission'', JStr (cd_permission c)), (''display'', JStr (cd_display c)),
         (''risk'', JStr (risk_name (cd_risk c)))]
       @ opt_member ''approval'' js_grant_type (cd_approval c) @ opt_member ''reason'' JStr (cd_reason c)
       @ opt_member ''grant_id'' JStr (cd_grant_id c) @ opt_member ''constraints'' js_constraints (cd_constraints c))
   | GrantDetail g \<Rightarrow> JObj ([(''type'', JStr ''openape_grant''), (''action'', JStr (gd_action g))]
       @ opt_member ''locations'' js_strings (gd_locations g) @ opt_member ''approval'' js_grant_type (gd_approval g)
       @ opt_member ''reason'' JStr (gd_reason g) @ opt_member ''grant_id'' JStr (gd_grant_id g)))"

definition js_exec_context :: "exec_context \<Rightarrow> jsval" where
  "js_exec_context x = JObj (
     opt_member ''files'' (\<lambda>fs. JArr (map (\<lambda>(p, h). JObj [(''path'', JStr p), (''sha256'', JStr h)]) fs)) (ec_files x)
     @ opt_member ''argv'' js_strings (ec_argv x) @ opt_member ''argv_hash'' JStr (ec_argv_hash x)
     @ [(''adapter_id'', JStr (ec_adapter_id x)), (''adapter_version'', JStr (ec_adapter_version x)),
        (''adapter_digest'', JStr (ec_adapter_digest x))]
     @ opt_member ''adapter_owner'' JStr (ec_adapter_owner x) @ opt_member ''adapter_domain'' JStr (ec_adapter_domain x)
     @ [(''resolved_executable'', JStr (ec_resolved_executable x))]
     @ opt_member ''context_bindings'' js_record (ec_context_bindings x)
     @ opt_member ''program_sha256'' JStr (ec_program_sha256 x) @ opt_member ''version_tested'' JBool (ec_version_tested x))"

definition js_standing :: "standing_fields \<Rightarrow> jsval jsobj" where
  "js_standing s = opt_member ''type'' JStr (sf_type s) @ opt_member ''owner'' JStr (sf_owner s)
     @ opt_member ''cli_id'' JStr (sf_cli_id s)
     @ opt_member ''resource_chain_template'' (\<lambda>rs. JArr (map json_of_ref rs)) (sf_template s)
     @ opt_member ''action'' JStr (sf_action s) @ opt_member ''max_risk'' (\<lambda>r. JStr (risk_name r)) (sf_max_risk s)"

text \<open>
  The members of a request that make up its authority: \<open>reference\<close>, \<open>batch\<close>, \<open>summary\<close>, \<open>reason\<close> and
  \<open>submitted_by\<close> are taken out.
\<close>

definition js_authority :: "grant_request \<Rightarrow> jsval" where
  "js_authority r = JObj (
     [(''requester'', JStr (rq_requester r)), (''target_host'', JStr (rq_target_host r)), (''audience'', JStr (rq_audience r))]
     @ opt_member ''grant_type'' js_grant_type (rq_grant_type r)
     @ opt_member ''permissions'' js_strings (rq_permissions r)
     @ opt_member ''authorization_details'' (\<lambda>ds. JArr (map js_auth_detail ds)) (rq_authorization_details r)
     @ opt_member ''command'' js_strings (rq_command r) @ opt_member ''cmd_hash'' JStr (rq_cmd_hash r)
     @ opt_member ''execution_context'' js_exec_context (rq_execution_context r)
     @ opt_member ''duration'' JInt (rq_duration r) @ opt_member ''waits_until'' JInt (rq_waits_until r)
     @ opt_member ''run_as'' JStr (rq_run_as r) @ opt_member ''delegator'' JStr (rq_delegator r)
     @ opt_member ''delegate'' JStr (rq_delegate r) @ opt_member ''scopes'' js_strings (rq_scopes r)
     @ (case rq_standing r of None \<Rightarrow> [] | Some s \<Rightarrow> js_standing s))"

definition grantReferenceBinding :: "grant_request \<Rightarrow> string" where
  "grantReferenceBinding r = json_stringify (canonical_js (js_authority r))"

definition assertSameReferencedGrant :: "grant \<Rightarrow> grant \<Rightarrow> grant_error + unit" where
  "assertSameReferencedGrant existing incoming = (let e = gr_request existing; i = gr_request incoming in
     if rq_reference e \<noteq> rq_reference i
        \<or> grantReferenceKey (rq_requester e) (nullish (rq_reference e) []) (gr_brokered existing)
           \<noteq> grantReferenceKey (rq_requester i) (nullish (rq_reference i) []) (gr_brokered incoming)
        \<or> grantReferenceBinding e \<noteq> grantReferenceBinding i
     then Inl GrantReferenceConflict else Inr ())"

section \<open>Summaries\<close>

definition summary_limits :: "(string \<times> nat) list" where
  "summary_limits = [(''title'', 120), (''description'', 2000), (''origin'', 120), (''link'', 2048)]"

definition hasHiddenCharacter :: "string \<Rightarrow> bool \<Rightarrow> bool" where
  "hasHiddenCharacter value multiline =
     list_ex is_hidden (if multiline then filter (\<lambda>c. c \<noteq> CHR 0x0A) value else value)"

definition readField :: "jsval jsobj \<Rightarrow> string \<Rightarrow> grant_error + string option" where
  "readField summary field = (let value = member summary field; limit = the (map_of summary_limits field) in
     if value = JUndef then Inr None
     else case as_string value of
       None \<Rightarrow> Inl (InvalidGrantSummary (''summary.'' @ field @ '' must be a string''))
     | Some s \<Rightarrow>
         if length s > limit
         then Inl (InvalidGrantSummary (''summary.'' @ field @ '' must be at most '' @ string_of_int (int limit) @ '' characters''))
         else if hasHiddenCharacter s (field = ''description'')
         then Inl (InvalidGrantSummary (''summary.'' @ field @ '' must not contain control or format characters''
                @ (if field = ''description'' then '' other than line feeds'' else [])))
         else Inr (Some s))"

definition parseGrantSummary :: "jsval \<Rightarrow> grant_error + grant_summary option" where
  "parseGrantSummary value = (if value = JUndef then Inr None
     else case as_object value of None \<Rightarrow> Inl (InvalidGrantSummary ''summary must be an object'')
     | Some summary \<Rightarrow>
        if map_of summary ''text'' \<noteq> None
        then Inl (InvalidGrantSummary ''summary.text is no longer supported; send title and description'')
        else let unknown = filter (\<lambda>k. k \<notin> set (map fst summary_limits)) (obj_keys summary) in
        if unknown \<noteq> [] then Inl (InvalidGrantSummary (''summary has unknown fields: '' @ join '', '' unknown))
        else case readField summary ''title'' of Inl e \<Rightarrow> Inl e
        | Inr None \<Rightarrow> Inl (InvalidGrantSummary ''summary.title is required and must not be blank'')
        | Inr (Some title) \<Rightarrow>
          if js_trim title = [] then Inl (InvalidGrantSummary ''summary.title is required and must not be blank'')
          else case readField summary ''description'' of Inl e \<Rightarrow> Inl e | Inr d \<Rightarrow>
            (case readField summary ''origin'' of Inl e \<Rightarrow> Inl e | Inr o' \<Rightarrow>
              (case readField summary ''link'' of Inl e \<Rightarrow> Inl e | Inr l \<Rightarrow>
                Inr (Some \<lparr>gs_title = title, gs_description = d, gs_origin = o', gs_link = l\<rparr>))))"

section \<open>Batches\<close>

definition batch_id_ok :: "string \<Rightarrow> bool" where
  "batch_id_ok s = (1 \<le> length s \<and> length s \<le> 128 \<and> list_all (\<lambda>c. is_word_char c \<or> c \<in> set ''.:-'') s)"

definition bad_batch_title :: "jsval \<Rightarrow> bool" where
  "bad_batch_title v = (v \<noteq> JUndef \<and> (case as_string v of None \<Rightarrow> True | Some s \<Rightarrow> js_trim s = [] \<or> length s > 200))"

definition bad_batch_size :: "jsval \<Rightarrow> bool" where
  "bad_batch_size v = (case v of JUndef \<Rightarrow> False | JInt n \<Rightarrow> n < 1 \<or> n > 100 | _ \<Rightarrow> True)"

definition as_int :: "jsval \<Rightarrow> int option" where
  "as_int v = (case v of JInt n \<Rightarrow> Some n | _ \<Rightarrow> None)"

definition parseGrantBatch :: "jsval \<Rightarrow> grant_error + grant_batch option" where
  "parseGrantBatch value = (if value = JUndef then Inr None
     else case as_object value of None \<Rightarrow> Inl (InvalidGrantBatch ''batch must be an object'')
     | Some batch \<Rightarrow>
        if has_unknown_key batch [''id'', ''title'', ''description'', ''size'']
        then Inl (InvalidGrantBatch ''batch has unknown fields'')
        else (case as_string (member batch ''id'') of
          None \<Rightarrow> Inl (InvalidGrantBatch ''batch.id must be 1-128 characters from A-Z a-z 0-9 . _ : -'')
        | Some i \<Rightarrow>
          if \<not> batch_id_ok i then Inl (InvalidGrantBatch ''batch.id must be 1-128 characters from A-Z a-z 0-9 . _ : -'')
          else if bad_batch_title (member batch ''title'')
          then Inl (InvalidGrantBatch ''batch.title must be 1-200 characters'')
          else if member batch ''description'' \<noteq> JUndef \<and>
            (case as_string (member batch ''description'') of None \<Rightarrow> True | Some s \<Rightarrow> length s > 2000)
          then Inl (InvalidGrantBatch ''batch.description must be a string of at most 2000 characters'')
          else if member batch ''description'' \<noteq> JUndef \<and>
            hasHiddenCharacter (nullish (as_string (member batch ''description'')) []) True
          then Inl (InvalidGrantBatch ''batch.description must not contain control or format characters other than line feeds'')
          else if bad_batch_size (member batch ''size'')
          then Inl (InvalidGrantBatch ''batch.size must be an integer from 1 to 100'')
          else Inr (Some \<lparr>gb_id = i, gb_title = as_string (member batch ''title''),
              gb_description = as_string (member batch ''description''), gb_size = as_int (member batch ''size'')\<rparr>)))"

section \<open>Withdrawal requests and answers\<close>

definition parseGrantWithdrawReason :: "jsval \<Rightarrow> grant_error + string option" where
  "parseGrantWithdrawReason value = (if value = JUndef then Inr None
     else case as_string value of
       None \<Rightarrow> Inl (InvalidGrantWithdraw ''reason must be 1-500 characters without control or format characters'')
     | Some s \<Rightarrow> if js_trim s = [] \<or> length s > 500 \<or> list_ex is_hidden s
         then Inl (InvalidGrantWithdraw ''reason must be 1-500 characters without control or format characters'')
         else Inr (Some s))"

definition parseGrantWithdrawRequest :: "jsval \<Rightarrow> grant_error + (string \<times> string option)" where
  "parseGrantWithdrawRequest input = (case as_object input of
     None \<Rightarrow> Inl (InvalidGrantWithdraw ''A JSON object with a reference is required'')
   | Some body \<Rightarrow>
       if has_unknown_key body [''reference'', ''reason'']
       then Inl (InvalidGrantWithdraw ''Only reference and reason are allowed'')
       else case parseGrantReference (member body ''reference'') of
         Inl (InvalidGrantReference m) \<Rightarrow> Inl (InvalidGrantWithdraw m)
       | Inl e \<Rightarrow> Inl e
       | Inr None \<Rightarrow> Inl (InvalidGrantWithdraw ''A reference is required'')
       | Inr (Some reference) \<Rightarrow> (case parseGrantWithdrawReason (member body ''reason'') of
            Inl e \<Rightarrow> Inl e | Inr reason \<Rightarrow> Inr (reference, reason)))"

datatype withdraw_result =
    WithdrawUnknown
  | WithdrawDone string grant_status
  | AlreadyDecided string grant_status

definition status_of_name :: "string \<Rightarrow> grant_status option" where
  "status_of_name s = map_of [(''pending'', Pending), (''approved'', Approved), (''denied'', Denied), (''revoked'', Revoked),
     (''expired'', Expired), (''used'', Used), (''withdrawn'', Withdrawn)] s"

definition sorted_keys :: "jsval jsobj \<Rightarrow> string list" where
  "sorted_keys ob = sort_by (\<le>) (obj_keys ob)"

text \<open>\<open>Object.keys(answer).sort().join()\<close>\<close>

definition joined_keys :: "jsval jsobj \<Rightarrow> string" where
  "joined_keys ob = join '','' (sorted_keys ob)"

definition answer_status :: "jsval jsobj \<Rightarrow> string \<Rightarrow> grant_status option" where
  "answer_status answer k = (case as_string (member answer k) of None \<Rightarrow> None | Some s \<Rightarrow> status_of_name s)"

definition parseGrantWithdrawResult :: "jsval \<Rightarrow> grant_error + withdraw_result" where
  "parseGrantWithdrawResult value = (let answer = nullish (as_object value) [];
       gid = (case as_string (member answer ''grant_id'') of None \<Rightarrow> None
              | Some s \<Rightarrow> if length s > 0 \<and> length s \<le> 256 then Some s else None);
       keys = joined_keys answer; outcome = as_string (member answer ''outcome'') in
     if outcome = Some ''unknown'' \<and> keys = ''outcome'' then Inr WithdrawUnknown
     else case (outcome = Some ''withdrawn'' \<and> gid \<noteq> None \<and> keys = ''grant_id,outcome,previous_status'',
                answer_status answer ''previous_status'') of
       (True, Some st) \<Rightarrow> if st \<in> {Pending, Approved, Withdrawn} then Inr (WithdrawDone (the gid) st)
          else Inl (InvalidGrantWithdraw ''Invalid grant withdrawal answer'')
     | _ \<Rightarrow> (case (outcome = Some ''already_decided'' \<and> gid \<noteq> None \<and> keys = ''grant_id,outcome,status'',
                 answer_status answer ''status'') of
         (True, Some st) \<Rightarrow> if st \<in> {Denied, Revoked, Expired, Used} then Inr (AlreadyDecided (the gid) st)
            else Inl (InvalidGrantWithdraw ''Invalid grant withdrawal answer'')
       | _ \<Rightarrow> Inl (InvalidGrantWithdraw ''Invalid grant withdrawal answer'')))"

section \<open>The identity of a referenced request\<close>

definition authority_of :: "brokered_grant option \<Rightarrow> string list option" where
  "authority_of b = map_option broker_authority b"

lemma grantReferenceKey_inject:
  "grantReferenceKey r x b = grantReferenceKey r' x' b' \<longleftrightarrow> r = r' \<and> x = x' \<and> authority_of b = authority_of b'"
proof -
  let ?a = "\<lambda>b. case b of None \<Rightarrow> ''null'' | Some b \<Rightarrow> json_strings (broker_authority b)"
  have key: "grantReferenceKey r x b = CHR ''['' # json_quote r @ CHR '','' # json_quote x @ CHR '','' # ?a b @ '']''"
    for r x b by (simp add: grantReferenceKey_def json_array_def)
  have "?a b = ?a b' \<longleftrightarrow> authority_of b = authority_of b'"
    by (cases b; cases b') (simp_all add: authority_of_def json_strings_inject, simp_all add: json_strings_def json_array_def)
  then show ?thesis unfolding key by (auto simp: json_quote_inject)
qed

lemma parseGrantReference_Some:
  "parseGrantReference v = Inr (Some s) \<Longrightarrow> v = JStr s \<and> s \<noteq> [] \<and> utf8_length s \<le> 512 \<and> (\<forall>c\<in>set s. \<not> is_hidden c)"
  by (cases v) (auto simp: parseGrantReference_def list_ex_iff js_trim_def split: if_splits)

lemma readField_Some:
  assumes "readField ob f = Inr (Some s)"
  shows "member ob f = JStr s" "length s \<le> the (map_of summary_limits f)" "\<not> hasHiddenCharacter s (f = ''description'')"
  using assms by (cases "member ob f"; simp add: readField_def Let_def split: if_splits)+

lemma readField_None: "readField ob f = Inr None \<Longrightarrow> member ob f = JUndef"
  by (cases "member ob f") (simp_all add: readField_def Let_def split: if_splits)

section \<open>Properties\<close>

text \<open>
  The reference key is the full authority boundary: two keys are equal only for the same requester,
  the same reference and the same broker binding (connection, broker and agent issuer, owner and key), or
  no broker on either side. No choice of requester or reference text can collide with another's.
\<close>

theorem reference_key_boundary:
  "(grantReferenceKey r x b = grantReferenceKey r' x' b') =
    (r = r' \<and> x = x' \<and> map_option broker_authority b = map_option broker_authority b')"
  using grantReferenceKey_inject by (simp add: authority_of_def)

text \<open>
  An accepted summary is displayable: its title is not blank, each text is the string that was sent,
  within its length limit and without control or format characters (line feeds in the description aside).
\<close>

theorem parsed_summary_displayable:
  assumes "parseGrantSummary v = Inr (Some g)"
  shows "js_trim (gs_title g) \<noteq> [] \<and> length (gs_title g) \<le> 120 \<and> \<not> hasHiddenCharacter (gs_title g) False \<and>
    (gs_description g = None \<or> length (the (gs_description g)) \<le> 2000 \<and> \<not> hasHiddenCharacter (the (gs_description g)) True) \<and>
    (gs_origin g = None \<or> length (the (gs_origin g)) \<le> 120 \<and> \<not> hasHiddenCharacter (the (gs_origin g)) False) \<and>
    (gs_link g = None \<or> length (the (gs_link g)) \<le> 2048 \<and> \<not> hasHiddenCharacter (the (gs_link g)) False)"
proof -
  obtain ob where ob: "as_object v = Some ob" and old: "map_of ob ''text'' = None"
    using assms by (cases "as_object v") (auto simp: parseGrantSummary_def Let_def split: if_splits)
  obtain title where title: "readField ob ''title'' = Inr (Some title)" "js_trim title \<noteq> []"
    using assms by (auto simp: parseGrantSummary_def ob Let_def split: if_splits sum.splits option.splits)
  obtain d o' l where parts: "readField ob ''description'' = Inr d" "readField ob ''origin'' = Inr o'" "readField ob ''link'' = Inr l"
    "g = \<lparr>gs_title = title, gs_description = d, gs_origin = o', gs_link = l\<rparr>"
    using assms title by (auto simp: parseGrantSummary_def ob Let_def split: if_splits sum.splits)
  show ?thesis
    using title parts readField_Some(2,3) [OF title(1)] readField_Some(2,3) [of ob "''description''"]
      readField_Some(2,3) [of ob "''origin''"] readField_Some(2,3) [of ob "''link''"]
    by (cases d; cases o'; cases l) (simp_all add: summary_limits_def)
qed

theorem parsed_summary_displayable_witness:
  "\<not> hasHiddenCharacter ''Deploy'' False"
  using parsed_summary_displayable [of "JObj [(''title'', JStr ''Deploy'')]" "\<lparr>gs_title = ''Deploy'', gs_description = None, gs_origin = None, gs_link = None\<rparr>"]
  by (simp add: parseGrantSummary_def readField_def summary_limits_def hasHiddenCharacter_def is_hidden_def is_control_def
      js_trim_def is_space_def obj_keys_def obj_entries_def is_array_index_def is_digit_def member_def Let_def)

end
