(* ===== verification/GrantStore.thy ===== *)
theory GrantStore
  imports GrantReference
begin

text \<open>
  \<open>packages/grants/src/stores.ts\<close> and \<open>grant-cursor.ts\<close>: the store interface the grant operations
  call and its in-memory implementation. A store is a record of operations on a state \<open>'s\<close>; an optional
  operation is an option. An operation that may throw returns a sum and the state it leaves behind,
  which is not rolled back. The locale \<open>grant_store_laws\<close> holds what the grant operations rely on, and
  \<open>mem\<close> interprets it on the in-memory store.
\<close>

section \<open>The interface\<close>

text \<open>\<open>Partial<OpenApeGrant>\<close>, for the members the callers pass.\<close>

record grant_patch =
  p_decided_by :: "string option"
  p_decided_at :: "int option"
  p_request :: "grant_request option"
  p_expires_at :: "int option"
  p_used_at :: "int option"
  p_decided_by_standing_grant :: "string option"
  p_auto_approval_kind :: "string option"

definition no_patch :: grant_patch where
  "no_patch = \<lparr>p_decided_by = None, p_decided_at = None, p_request = None, p_expires_at = None, p_used_at = None,
     p_decided_by_standing_grant = None, p_auto_approval_kind = None\<rparr>"

text \<open>\<open>{ ...grant, status, ...extra }\<close>\<close>

definition apply_patch :: "grant \<Rightarrow> grant_status \<Rightarrow> grant_patch \<Rightarrow> grant" where
  "apply_patch g st p = g\<lparr>gr_status := st,
     gr_decided_by := (if p_decided_by p = None then gr_decided_by g else p_decided_by p),
     gr_decided_at := (if p_decided_at p = None then gr_decided_at g else p_decided_at p),
     gr_request := nullish (p_request p) (gr_request g),
     gr_expires_at := (if p_expires_at p = None then gr_expires_at g else p_expires_at p),
     gr_used_at := (if p_used_at p = None then gr_used_at g else p_used_at p),
     gr_decided_by_standing_grant := (if p_decided_by_standing_grant p = None then gr_decided_by_standing_grant g
       else p_decided_by_standing_grant p),
     gr_auto_approval_kind := (if p_auto_approval_kind p = None then gr_auto_approval_kind g else p_auto_approval_kind p)\<rparr>"

datatype requester_param = OneRequester string | ManyRequesters "string list"

record list_params =
  lp_limit :: "int option"
  lp_cursor :: "string option"
  lp_broker_owner :: "string option option"
  lp_requester_filter :: "string option"
  lp_batch :: "string option"
  lp_reference :: "string option"
  lp_reference_key :: "string option"
  lp_status :: "grant_status option"
  lp_exclude_status :: "grant_status option"
  lp_requester :: "requester_param option"

definition no_params :: list_params where
  "no_params = \<lparr>lp_limit = None, lp_cursor = None, lp_broker_owner = None, lp_requester_filter = None,
     lp_batch = None, lp_reference = None, lp_reference_key = None, lp_status = None, lp_exclude_status = None,
     lp_requester = None\<rparr>"

record grant_page =
  pg_data :: "grant list"
  pg_cursor :: "string option"
  pg_has_more :: bool

record 's grant_store =
  st_createReferenced :: "(grant \<Rightarrow> 's \<Rightarrow> (grant_error + (grant \<times> bool)) \<times> 's) option"
  st_save :: "grant \<Rightarrow> 's \<Rightarrow> (grant_error + unit) \<times> 's"
  st_findById :: "string \<Rightarrow> 's \<Rightarrow> grant option"
  st_updateStatus :: "string \<Rightarrow> grant_status \<Rightarrow> grant_patch \<Rightarrow> 's \<Rightarrow> (grant_error + unit) \<times> 's"
  st_findPending :: "'s \<Rightarrow> grant list"
  st_findByRequester :: "string \<Rightarrow> 's \<Rightarrow> grant list"
  st_listGrants :: "list_params \<Rightarrow> 's \<Rightarrow> grant_error + grant_page"
  st_claimOnce :: "(string \<Rightarrow> int \<Rightarrow> 's \<Rightarrow> bool \<times> 's) option"
  st_markConsumed :: "(string \<Rightarrow> string \<Rightarrow> 's \<Rightarrow> bool \<times> 's) option"
  st_withdraw :: "(string \<Rightarrow> int \<Rightarrow> string option \<Rightarrow> 's \<Rightarrow> grant_status option \<times> 's) option"

section \<open>Cursors\<close>

definition parseGrantCursor :: "string \<Rightarrow> grant_error + (int \<times> string option)" where
  "parseGrantCursor cursor = (let ds = takeWhile is_digit cursor; rest = dropWhile is_digit cursor; n = nat_of_digits ds in
     if ds = [] \<or> n > 9007199254740991 then Inl (StoreError ''Invalid grant cursor'')
     else case rest of [] \<Rightarrow> Inr (int n, None)
     | c # i \<Rightarrow> if c = CHR '':'' \<and> 1 \<le> length i \<and> length i \<le> 256 \<and> list_all (\<lambda>x. \<not> line_end x) i
         then Inr (int n, Some i) else Inl (StoreError ''Invalid grant cursor''))"

definition grantCursor :: "grant \<Rightarrow> string" where
  "grantCursor g = string_of_int (gr_created_at g) @ '':'' @ gr_id g"

section \<open>The in-memory store\<close>

record mem_store =
  ms_grants :: "(string \<times> grant) list"
  ms_consumed :: "(string \<times> string) list"

definition empty_mem :: mem_store where
  "empty_mem = \<lparr>ms_grants = [], ms_consumed = []\<rparr>"

definition put_grant :: "string \<Rightarrow> grant \<Rightarrow> mem_store \<Rightarrow> mem_store" where
  "put_grant i g s = s\<lparr>ms_grants := AList.update i g (ms_grants s)\<rparr>"

definition mem_findById :: "string \<Rightarrow> mem_store \<Rightarrow> grant option" where
  "mem_findById i s = map_of (ms_grants s) i"

definition ref_key :: "grant \<Rightarrow> string option" where
  "ref_key g = (case rq_reference (gr_request g) of None \<Rightarrow> None
     | Some x \<Rightarrow> Some (grantReferenceKey (rq_requester (gr_request g)) x (gr_brokered g)))"

definition mem_createReferenced :: "grant \<Rightarrow> mem_store \<Rightarrow> (grant_error + (grant \<times> bool)) \<times> mem_store" where
  "mem_createReferenced g s = (case assertGrantReferenceRequest (gr_request g) of
     Inl e \<Rightarrow> (Inl e, s)
   | Inr _ \<Rightarrow> if \<not> truthy_str (rq_reference (gr_request g)) then (Inl (StoreError ''A reference is required''), s)
       else case List.find (\<lambda>item. ref_key item = ref_key g) (map snd (ms_grants s)) of
         Some existing \<Rightarrow> (case assertSameReferencedGrant existing g of
             Inl e \<Rightarrow> (Inl e, s) | Inr _ \<Rightarrow> (Inr (existing, False), s))
       | None \<Rightarrow> (Inr (g, True), put_grant (gr_id g) g s))"

definition mem_save :: "grant \<Rightarrow> mem_store \<Rightarrow> (grant_error + unit) \<times> mem_store" where
  "mem_save g s = (if rq_reference (gr_request g) \<noteq> None
     then (Inl (StoreError ''Use atomic createReferenced for a referenced grant''), s)
     else (Inr (), put_grant (gr_id g) g s))"

definition mem_updateStatus ::
  "string \<Rightarrow> grant_status \<Rightarrow> grant_patch \<Rightarrow> mem_store \<Rightarrow> (grant_error + unit) \<times> mem_store" where
  "mem_updateStatus i st extra s = (case mem_findById i s of
     None \<Rightarrow> (Inl (GrantNotFound i), s)
   | Some g \<Rightarrow> (case (if truthy_str (rq_reference (gr_request g)) \<and> p_request extra \<noteq> None
         then assertSameReferencedGrant g (g\<lparr>gr_request := the (p_request extra)\<rparr>) else Inr ()) of
       Inl e \<Rightarrow> (Inl e, s)
     | Inr _ \<Rightarrow> (Inr (), put_grant i (apply_patch g st extra) s)))"

definition mem_claimOnce :: "string \<Rightarrow> int \<Rightarrow> mem_store \<Rightarrow> bool \<times> mem_store" where
  "mem_claimOnce i usedAt s = (case mem_findById i s of None \<Rightarrow> (False, s)
     | Some g \<Rightarrow> if gr_status g \<noteq> Approved then (False, s)
         else (True, put_grant i (g\<lparr>gr_status := Used, gr_used_at := Some usedAt\<rparr>) s))"

definition withdrawable :: "grant \<Rightarrow> bool" where
  "withdrawable g = (gr_status g = Pending \<or> (gr_status g = Approved \<and> rq_grant_type (gr_request g) = Some Once))"

definition mem_withdraw :: "string \<Rightarrow> int \<Rightarrow> string option \<Rightarrow> mem_store \<Rightarrow> grant_status option \<times> mem_store" where
  "mem_withdraw i withdrawnAt reason s = (case mem_findById i s of None \<Rightarrow> (None, s)
     | Some g \<Rightarrow> if \<not> withdrawable g then (None, s)
         else (Some (gr_status g), put_grant i (g\<lparr>gr_status := Withdrawn, gr_decided_at := Some withdrawnAt,
                gr_withdraw_reason := (if reason \<noteq> None then reason else gr_withdraw_reason g)\<rparr>) s))"

definition mem_markConsumed :: "string \<Rightarrow> string \<Rightarrow> mem_store \<Rightarrow> bool \<times> mem_store" where
  "mem_markConsumed i jti s = (if mem_findById i s = None \<or> map_of (ms_consumed s) i \<noteq> None then (False, s)
     else (True, s\<lparr>ms_consumed := AList.update i jti (ms_consumed s)\<rparr>))"

definition mem_grants :: "mem_store \<Rightarrow> grant list" where
  "mem_grants s = map snd (ms_grants s)"

definition mem_findPending :: "mem_store \<Rightarrow> grant list" where
  "mem_findPending s = filter (\<lambda>g. gr_status g = Pending) (mem_grants s)"

definition mem_findByRequester :: "string \<Rightarrow> mem_store \<Rightarrow> grant list" where
  "mem_findByRequester r s = filter (\<lambda>g. rq_requester (gr_request g) = r) (mem_grants s)"

definition mem_findByDelegate :: "string \<Rightarrow> mem_store \<Rightarrow> grant list" where
  "mem_findByDelegate d s = filter (\<lambda>g. gr_category g = Some DelegationGrant \<and> rq_delegate (gr_request g) = Some d) (mem_grants s)"

definition mem_findByDelegator :: "string \<Rightarrow> mem_store \<Rightarrow> grant list" where
  "mem_findByDelegator d s = filter (\<lambda>g. gr_category g = Some DelegationGrant \<and> rq_delegator (gr_request g) = Some d) (mem_grants s)"

text \<open>The comparator of the listing, newest first, then by descending id.\<close>

definition list_order :: "grant \<Rightarrow> grant \<Rightarrow> bool" where
  "list_order a b = (gr_created_at b < gr_created_at a \<or> (gr_created_at a = gr_created_at b \<and> gr_id b \<le> gr_id a))"

definition truthy_requester :: "requester_param option \<Rightarrow> bool" where
  "truthy_requester r = (case r of None \<Rightarrow> False | Some (OneRequester s) \<Rightarrow> s \<noteq> [] | Some (ManyRequesters _) \<Rightarrow> True)"

definition requester_set :: "requester_param \<Rightarrow> string list" where
  "requester_set r = (case r of OneRequester s \<Rightarrow> [s] | ManyRequesters ss \<Rightarrow> ss)"

definition list_filter :: "list_params \<Rightarrow> grant \<Rightarrow> bool" where
  "list_filter p g = (
     (case lp_status p of None \<Rightarrow> True | Some st \<Rightarrow> gr_status g = st) \<and>
     (case lp_exclude_status p of None \<Rightarrow> True | Some st \<Rightarrow> gr_status g \<noteq> st) \<and>
     (truthy_requester (lp_requester p) \<longrightarrow> (let rs = requester_set (the (lp_requester p)) in
        case (lp_broker_owner p, gr_brokered g) of
          (Some own, Some b) \<Rightarrow> own = Some (bg_owner b)
        | _ \<Rightarrow> rq_requester (gr_request g) \<in> set rs)) \<and>
     (truthy_str (lp_requester_filter p) \<longrightarrow> Some (rq_requester (gr_request g)) = lp_requester_filter p) \<and>
     (truthy_str (lp_batch p) \<longrightarrow> map_option gb_id (rq_batch (gr_request g)) = lp_batch p) \<and>
     (truthy_str (lp_reference p) \<longrightarrow> rq_reference (gr_request g) = lp_reference p) \<and>
     (truthy_str (lp_reference_key p) \<longrightarrow> ref_key g = lp_reference_key p))"

definition after_cursor :: "int \<times> string option \<Rightarrow> grant \<Rightarrow> bool" where
  "after_cursor pos g = (gr_created_at g < fst pos \<or>
     (case snd pos of None \<Rightarrow> False | Some i \<Rightarrow> gr_created_at g = fst pos \<and> gr_id g < i))"

definition page_limit :: "list_params \<Rightarrow> nat" where
  "page_limit p = nat (min (max (nullish (lp_limit p) 20) 1) 100)"

definition take_page :: "nat \<Rightarrow> grant list \<Rightarrow> grant_page" where
  "take_page limit grants = (let page = take limit grants in
     \<lparr>pg_data = page, pg_cursor = (if length page > 0 then Some (grantCursor (last page)) else None),
      pg_has_more = (length grants > limit)\<rparr>)"

definition mem_listGrants :: "list_params \<Rightarrow> mem_store \<Rightarrow> grant_error + grant_page" where
  "mem_listGrants p s = (let grants = sort_by list_order (filter (list_filter p) (mem_grants s)) in
     if truthy_str (lp_cursor p)
     then (case parseGrantCursor (the (lp_cursor p)) of Inl e \<Rightarrow> Inl e
           | Inr pos \<Rightarrow> Inr (take_page (page_limit p) (filter (after_cursor pos) grants)))
     else Inr (take_page (page_limit p) grants))"

definition InMemoryGrantStore :: "mem_store grant_store" where
  "InMemoryGrantStore = \<lparr>st_createReferenced = Some mem_createReferenced, st_save = mem_save,
     st_findById = mem_findById, st_updateStatus = mem_updateStatus, st_findPending = mem_findPending,
     st_findByRequester = mem_findByRequester, st_listGrants = mem_listGrants, st_claimOnce = Some mem_claimOnce,
     st_markConsumed = Some mem_markConsumed, st_withdraw = Some mem_withdraw\<rparr>"

lemma mem_store_simps [simp]:
  "st_createReferenced InMemoryGrantStore = Some mem_createReferenced" "st_save InMemoryGrantStore = mem_save"
  "st_findById InMemoryGrantStore = mem_findById" "st_updateStatus InMemoryGrantStore = mem_updateStatus"
  "st_findPending InMemoryGrantStore = mem_findPending" "st_findByRequester InMemoryGrantStore = mem_findByRequester"
  "st_listGrants InMemoryGrantStore = mem_listGrants" "st_claimOnce InMemoryGrantStore = Some mem_claimOnce"
  "st_markConsumed InMemoryGrantStore = Some mem_markConsumed" "st_withdraw InMemoryGrantStore = Some mem_withdraw"
  by (simp_all add: InMemoryGrantStore_def)

section \<open>The laws the grant operations rely on\<close>

text \<open>
  \<open>binding_kept g p\<close>: what \<open>updateStatus\<close> asks of a new request for a referenced grant.
\<close>

definition binding_kept :: "grant \<Rightarrow> grant_patch \<Rightarrow> bool" where
  "binding_kept g p = (truthy_str (rq_reference (gr_request g)) \<and> p_request p \<noteq> None \<longrightarrow>
     assertSameReferencedGrant g (g\<lparr>gr_request := the (p_request p)\<rparr>) = Inr ())"

lemma binding_kept_no_request [simp]: "p_request p = None \<Longrightarrow> binding_kept g p"
  by (simp add: binding_kept_def)

lemma binding_kept_unreferenced: "\<not> truthy_str (rq_reference (gr_request g)) \<Longrightarrow> binding_kept g p"
  by (simp add: binding_kept_def)

locale grant_store_laws =
  fixes store :: "'s grant_store" and inv :: "'s \<Rightarrow> bool"
  assumes save_law: "inv s \<Longrightarrow> rq_reference (gr_request g) = None \<Longrightarrow>
      \<exists>s'. st_save store g s = (Inr (), s') \<and> inv s' \<and>
        (\<forall>i. st_findById store i s' = (if i = gr_id g then Some g else st_findById store i s))"
    and id_law: "inv s \<Longrightarrow> st_findById store i s = Some g \<Longrightarrow> gr_id g = i"
    and update_law: "inv s \<Longrightarrow> st_findById store i s = Some g \<Longrightarrow> binding_kept g p \<Longrightarrow>
      \<exists>s'. st_updateStatus store i st p s = (Inr (), s') \<and> inv s' \<and>
        (\<forall>j. st_findById store j s' = (if j = i then Some (apply_patch g st p) else st_findById store j s))"
    and update_refused_law: "inv s \<Longrightarrow> st_findById store i s = Some g \<Longrightarrow> \<not> binding_kept g p \<Longrightarrow>
      \<exists>e. st_updateStatus store i st p s = (Inl e, s)"
    and claim_law: "inv s \<Longrightarrow> st_claimOnce store = Some claim \<Longrightarrow> st_findById store i s = Some g \<Longrightarrow>
      gr_status g = Approved \<Longrightarrow>
      \<exists>s'. claim i t s = (True, s') \<and> inv s' \<and>
        (\<forall>j. st_findById store j s' = (if j = i then Some (g\<lparr>gr_status := Used, gr_used_at := Some t\<rparr>) else st_findById store j s))"
    and claim_refused_law: "inv s \<Longrightarrow> st_claimOnce store = Some claim \<Longrightarrow>
      (\<And>g. st_findById store i s = Some g \<Longrightarrow> gr_status g \<noteq> Approved) \<Longrightarrow> claim i t s = (False, s)"

section \<open>The in-memory store keeps them\<close>

text \<open>Every grant stands under its own id, once.\<close>

definition mem_inv :: "mem_store \<Rightarrow> bool" where
  "mem_inv s \<longleftrightarrow> distinct (map fst (ms_grants s)) \<and> (\<forall>(k, g)\<in>set (ms_grants s). gr_id g = k)"

lemma find_put [simp]: "mem_findById j (put_grant i g s) = (if j = i then Some g else mem_findById j s)"
  by (simp add: mem_findById_def put_grant_def)

lemma set_update_subset: "set (AList.update k v m) \<subseteq> insert (k, v) (set m)"
  by (induction m) auto

lemma mem_inv_put: "mem_inv s \<Longrightarrow> gr_id g = i \<Longrightarrow> mem_inv (put_grant i g s)"
  unfolding mem_inv_def put_grant_def using set_update_subset [of i g "ms_grants s"] by fastforce

lemma mem_inv_empty [simp]: "mem_inv empty_mem"
  by (simp add: mem_inv_def empty_mem_def)

lemma mem_id: "mem_inv s \<Longrightarrow> mem_findById i s = Some g \<Longrightarrow> gr_id g = i"
  unfolding mem_inv_def mem_findById_def using map_of_SomeD by fastforce

lemma apply_patch_simps [simp]:
  "gr_id (apply_patch g st p) = gr_id g" "gr_status (apply_patch g st p) = st"
  "gr_request (apply_patch g st p) = nullish (p_request p) (gr_request g)"
  "gr_brokered (apply_patch g st p) = gr_brokered g" "gr_created_at (apply_patch g st p) = gr_created_at g"
  "gr_category (apply_patch g st p) = gr_category g"
  by (simp_all add: apply_patch_def)

interpretation mem: grant_store_laws InMemoryGrantStore mem_inv
proof
  fix s and g :: grant assume "mem_inv s" "rq_reference (gr_request g) = None"
  then show "\<exists>s'. st_save InMemoryGrantStore g s = (Inr (), s') \<and> mem_inv s' \<and>
      (\<forall>i. st_findById InMemoryGrantStore i s' = (if i = gr_id g then Some g else st_findById InMemoryGrantStore i s))"
    by (simp add: mem_save_def mem_inv_put)
next
  fix s i and g :: grant assume "mem_inv s" "st_findById InMemoryGrantStore i s = Some g"
  then show "gr_id g = i" using mem_id by simp
next
  fix s i p st and g :: grant assume "mem_inv s" "st_findById InMemoryGrantStore i s = Some g" "binding_kept g p"
  moreover from this have "mem_inv (put_grant i (apply_patch g st p) s)" using mem_id by (intro mem_inv_put) simp_all
  ultimately show "\<exists>s'. st_updateStatus InMemoryGrantStore i st p s = (Inr (), s') \<and> mem_inv s' \<and>
      (\<forall>j. st_findById InMemoryGrantStore j s' = (if j = i then Some (apply_patch g st p) else st_findById InMemoryGrantStore j s))"
    by (auto simp: mem_updateStatus_def binding_kept_def)
next
  fix s i p st and g :: grant assume "mem_inv s" "st_findById InMemoryGrantStore i s = Some g" "\<not> binding_kept g p"
  then show "\<exists>e. st_updateStatus InMemoryGrantStore i st p s = (Inl e, s)"
    by (cases "assertSameReferencedGrant g (g\<lparr>gr_request := the (p_request p)\<rparr>)")
      (simp_all add: mem_updateStatus_def binding_kept_def)
next
  fix s claim i t and g :: grant
  assume *: "mem_inv s" "st_claimOnce InMemoryGrantStore = Some claim" "st_findById InMemoryGrantStore i s = Some g" "gr_status g = Approved"
  then have "mem_inv (put_grant i (g\<lparr>gr_status := Used, gr_used_at := Some t\<rparr>) s)" using mem_id by (intro mem_inv_put) simp_all
  with * show "\<exists>s'. claim i t s = (True, s') \<and> mem_inv s' \<and>
      (\<forall>j. st_findById InMemoryGrantStore j s' = (if j = i then Some (g\<lparr>gr_status := Used, gr_used_at := Some t\<rparr>) else st_findById InMemoryGrantStore j s))"
    by (auto simp: mem_claimOnce_def)
next
  fix s claim i t
  assume *: "mem_inv s" "st_claimOnce InMemoryGrantStore = Some claim"
    "\<And>g. st_findById InMemoryGrantStore i s = Some g \<Longrightarrow> gr_status g \<noteq> Approved"
  then show "claim i t s = (False, s)" by (auto simp: mem_claimOnce_def split: option.split)
qed

section \<open>Listing\<close>

lemma orders_list: "orders_on A list_order"
  by (auto simp: orders_on_def list_order_def)

lemma mem_createReferenced_new:
  assumes "mem_createReferenced g s = (Inr (g', created), s')"
  shows "created \<Longrightarrow> g' = g \<and> s' = put_grant (gr_id g) g s"
    and "\<not> created \<Longrightarrow> s' = s \<and> g' \<in> set (mem_grants s) \<and> ref_key g' = ref_key g \<and>
      grantReferenceBinding (gr_request g') = grantReferenceBinding (gr_request g)"
proof -
  show "created \<Longrightarrow> g' = g \<and> s' = put_grant (gr_id g) g s"
    using assms by (auto simp: mem_createReferenced_def split: sum.splits if_splits option.splits)
  assume n: "\<not> created"
  obtain e where e: "List.find (\<lambda>item. ref_key item = ref_key g) (map snd (ms_grants s)) = Some e"
      "assertSameReferencedGrant e g = Inr ()" "g' = e" "s' = s"
    using assms n by (auto simp: mem_createReferenced_def split: sum.splits if_splits option.splits)
  then show "s' = s \<and> g' \<in> set (mem_grants s) \<and> ref_key g' = ref_key g \<and>
      grantReferenceBinding (gr_request g') = grantReferenceBinding (gr_request g)"
    using find_Some_mem [OF e(1)] by (auto simp: mem_grants_def assertSameReferencedGrant_def Let_def split: if_splits)
qed

end
