(* ===== verification/ShapeRegistry.thy ===== *)
theory ShapeRegistry
  imports ShapeMatcher
begin

text \<open>
  \<open>packages/grants/src/shape-registry.ts\<close> and \<open>server-resolver.ts\<close>: the shape tiers, the scoped view
  of a store, the in-memory shape store, and the resolution of a command line to an authorization detail.
  Presentation texts and version notes are carried along unread, so they are JSON values here.
\<close>

section \<open>Shapes and tiers\<close>

datatype shape_source = Builtin | Custom

record server_shape =
  sh_cli_id :: string
  sh_executable :: string
  sh_description :: string
  sh_operations :: "shape_operation list"
  sh_source :: shape_source
  sh_owner :: "string option"
  sh_domain :: "string option"
  sh_published_by :: "string option"
  sh_toml :: "string option"
  sh_digest :: string
  sh_versions :: "jsval option"
  sh_tested_digests :: "string list option"
  sh_virtual :: "bool option"
  sh_created_at :: int
  sh_updated_at :: int

datatype shape_tier = TierInstance | TierDomain | TierPersonal

datatype change_action = AddShape | UpdateShape | RemoveShape

record shape_change =
  ch_scope :: shape_tier
  ch_scope_key :: string
  ch_action :: change_action
  ch_cli_id :: string
  ch_previous_digest :: "string option"
  ch_digest :: "string option"
  ch_previous_toml :: "string option"
  ch_toml :: "string option"
  ch_source :: "jsval option"
  ch_actor :: string
  ch_created_at :: int

record shape_batch =
  ba_scope :: shape_tier
  ba_scope_key :: string
  ba_save :: "server_shape list"
  ba_remove :: "string list"
  ba_changes :: "shape_change list"

definition DESKTOP_OWN_SHAPE_IDS :: "string list" where
  "DESKTOP_OWN_SHAPE_IDS = [''pod-runtime'', ''pod-http'', ''pod-ssh'']"

definition emailDomain :: "string option \<Rightarrow> string option" where
  "emailDomain email = (case email of None \<Rightarrow> None
     | Some e \<Rightarrow> (case last_index_of CHR ''@'' e of None \<Rightarrow> None
         | Some at \<Rightarrow> if e \<noteq> [] \<and> at > 0 \<and> at < length e - 1 then Some (to_lower (drop (at + 1) e)) else None))"

record shape_scope =
  sc_owner :: "string option"
  sc_domain :: "string option"

definition shapeScopeOf :: "string option \<Rightarrow> shape_scope" where
  "shapeScopeOf owner = (if truthy_str owner then \<lparr>sc_owner = owner, sc_domain = emailDomain owner\<rparr>
     else \<lparr>sc_owner = None, sc_domain = None\<rparr>)"

record tier_facts =
  tf_owner :: "string option"
  tf_domain :: "string option"
  tf_digest :: "string option"

definition no_tier :: tier_facts where
  "no_tier = \<lparr>tf_owner = None, tf_domain = None, tf_digest = None\<rparr>"

text \<open>The facts an execution context carries; an absent context has none of them.\<close>

definition tier_of :: "exec_context option \<Rightarrow> tier_facts" where
  "tier_of x = (case x of None \<Rightarrow> no_tier
     | Some c \<Rightarrow> \<lparr>tf_owner = ec_adapter_owner c, tf_domain = ec_adapter_domain c, tf_digest = Some (ec_adapter_digest c)\<rparr>)"

definition sameShapeTier :: "tier_facts \<Rightarrow> tier_facts \<Rightarrow> bool" where
  "sameShapeTier a b =
     (if \<not> truthy_str (tf_owner a) \<and> \<not> truthy_str (tf_domain a) \<and> \<not> truthy_str (tf_owner b) \<and> \<not> truthy_str (tf_domain b)
      then True
      else tf_owner a = tf_owner b \<and> tf_domain a = tf_domain b \<and> tf_digest a = tf_digest b)"

definition shape_names :: "server_shape list \<Rightarrow> string list" where
  "shape_names shapes = concat (map (\<lambda>s. [sh_cli_id s, sh_executable s]) shapes)"

definition notIn :: "string list \<Rightarrow> server_shape \<Rightarrow> bool" where
  "notIn taken shape = (sh_cli_id shape \<notin> set taken \<and> sh_executable shape \<notin> set taken)"

text \<open>\<open>scoped(shape, tier)\<close>, with the tier as the owner and domain it sets.\<close>

definition scoped :: "server_shape \<Rightarrow> string option \<Rightarrow> string option \<Rightarrow> server_shape" where
  "scoped shape owner domain = shape\<lparr>sh_tested_digests := None, sh_versions := None, sh_virtual := None,
     sh_owner := owner, sh_domain := domain, sh_source := Custom\<rparr>"

text \<open>The list a scoped view serves, from the three tiers' lists.\<close>

definition scoped_shapes ::
  "shape_scope \<Rightarrow> server_shape list \<Rightarrow> server_shape list \<Rightarrow> server_shape list \<Rightarrow> server_shape list" where
  "scoped_shapes sc registry ownShapes domainShapes =
     (let desktop = notIn (DESKTOP_OWN_SHAPE_IDS @ shape_names (filter (\<lambda>s. truthy_bool (sh_virtual s)) registry));
          personal = (if truthy_str (sc_owner sc)
            then map (\<lambda>s. scoped s (sc_owner sc) None) (filter desktop ownShapes) else []);
          domainTier = (if truthy_str (sc_domain sc)
            then map (\<lambda>s. scoped s None (sc_domain sc)) (filter (notIn (shape_names personal)) (filter desktop domainShapes))
            else [])
      in personal @ domainTier @ filter (notIn (shape_names (personal @ domainTier))) registry)"

section \<open>The in-memory shape store\<close>

type_synonym shape_map = "(string \<times> server_shape) list"

record shape_store =
  ss_shapes :: shape_map
  ss_owned :: "(string \<times> shape_map) list"
  ss_domains :: "(string \<times> shape_map) list"
  ss_audit :: "shape_change list"

definition createInMemoryShapeStore :: "server_shape list \<Rightarrow> shape_store" where
  "createInMemoryShapeStore seed = \<lparr>ss_shapes = foldl (\<lambda>m s. AList.update (sh_cli_id s) s m) [] seed,
     ss_owned = [], ss_domains = [], ss_audit = []\<rparr>"

definition by_cli_id :: "(string \<Rightarrow> string \<Rightarrow> bool) \<Rightarrow> server_shape list \<Rightarrow> server_shape list" where
  "by_cli_id coll = sort_by (\<lambda>a b. coll (sh_cli_id a) (sh_cli_id b))"

definition listShapes :: "(string \<Rightarrow> string \<Rightarrow> bool) \<Rightarrow> shape_store \<Rightarrow> server_shape list" where
  "listShapes coll s = by_cli_id coll (map snd (ss_shapes s))"

definition getShape :: "string \<Rightarrow> shape_store \<Rightarrow> server_shape option" where
  "getShape cliId s = map_of (ss_shapes s) cliId"

definition saveShape :: "server_shape \<Rightarrow> shape_store \<Rightarrow> shape_store" where
  "saveShape shape s = s\<lparr>ss_shapes := AList.update (sh_cli_id shape) shape (ss_shapes s)\<rparr>"

definition deleteShape :: "string \<Rightarrow> shape_store \<Rightarrow> shape_store" where
  "deleteShape cliId s = s\<lparr>ss_shapes := AList.delete cliId (ss_shapes s)\<rparr>"

definition tier_map :: "(string \<times> shape_map) list \<Rightarrow> string \<Rightarrow> shape_map" where
  "tier_map tiers k = nullish (map_of tiers k) []"

definition listOwnerShapes :: "(string \<Rightarrow> string \<Rightarrow> bool) \<Rightarrow> string \<Rightarrow> shape_store \<Rightarrow> server_shape list" where
  "listOwnerShapes coll owner s = by_cli_id coll (map snd (tier_map (ss_owned s) owner))"

definition saveOwnerShape :: "string \<Rightarrow> server_shape \<Rightarrow> shape_store \<Rightarrow> shape_store" where
  "saveOwnerShape owner shape s = s\<lparr>ss_owned := AList.update owner
     (AList.update (sh_cli_id shape) (shape\<lparr>sh_source := Custom, sh_owner := Some owner\<rparr>) (tier_map (ss_owned s) owner)) (ss_owned s)\<rparr>"

definition deleteOwnerShape :: "string \<Rightarrow> string \<Rightarrow> shape_store \<Rightarrow> bool \<times> shape_store" where
  "deleteOwnerShape owner cliId s = (case map_of (ss_owned s) owner of None \<Rightarrow> (False, s)
     | Some m \<Rightarrow> (map_of m cliId \<noteq> None, s\<lparr>ss_owned := AList.update owner (AList.delete cliId m) (ss_owned s)\<rparr>))"

definition listDomainShapes :: "(string \<Rightarrow> string \<Rightarrow> bool) \<Rightarrow> string \<Rightarrow> shape_store \<Rightarrow> server_shape list" where
  "listDomainShapes coll domain s = by_cli_id coll (map snd (tier_map (ss_domains s) domain))"

definition saveDomainShape :: "string \<Rightarrow> server_shape \<Rightarrow> shape_store \<Rightarrow> shape_store" where
  "saveDomainShape domain shape s = s\<lparr>ss_domains := AList.update domain
     (AList.update (sh_cli_id shape) (shape\<lparr>sh_source := Custom, sh_domain := Some domain\<rparr>) (tier_map (ss_domains s) domain)) (ss_domains s)\<rparr>"

definition deleteDomainShape :: "string \<Rightarrow> string \<Rightarrow> shape_store \<Rightarrow> bool \<times> shape_store" where
  "deleteDomainShape domain cliId s = (case map_of (ss_domains s) domain of None \<Rightarrow> (False, s)
     | Some m \<Rightarrow> (map_of m cliId \<noteq> None, s\<lparr>ss_domains := AList.update domain (AList.delete cliId m) (ss_domains s)\<rparr>))"

definition stamp_shape :: "shape_batch \<Rightarrow> server_shape \<Rightarrow> server_shape" where
  "stamp_shape batch shape = (case ba_scope batch of TierInstance \<Rightarrow> shape
     | TierDomain \<Rightarrow> shape\<lparr>sh_source := Custom, sh_domain := Some (ba_scope_key batch)\<rparr>
     | TierPersonal \<Rightarrow> shape\<lparr>sh_source := Custom, sh_owner := Some (ba_scope_key batch)\<rparr>)"

definition change_map :: "shape_batch \<Rightarrow> shape_map \<Rightarrow> shape_map" where
  "change_map batch m = foldl (\<lambda>m shape. AList.update (sh_cli_id shape) (stamp_shape batch shape) m)
     (foldl (\<lambda>m cliId. AList.delete cliId m) m (ba_remove batch)) (ba_save batch)"

definition applyShapeChanges :: "shape_batch \<Rightarrow> shape_store \<Rightarrow> shape_store" where
  "applyShapeChanges batch s = (let k = ba_scope_key batch in
     (case ba_scope batch of
        TierInstance \<Rightarrow> s\<lparr>ss_shapes := change_map batch (ss_shapes s)\<rparr>
      | TierDomain \<Rightarrow> s\<lparr>ss_domains := AList.update k (change_map batch (tier_map (ss_domains s) k)) (ss_domains s)\<rparr>
      | TierPersonal \<Rightarrow> s\<lparr>ss_owned := AList.update k (change_map batch (tier_map (ss_owned s) k)) (ss_owned s)\<rparr>)
     \<lparr>ss_audit := ss_audit s @ ba_changes batch\<rparr>)"

definition listShapeChanges :: "shape_tier \<Rightarrow> string \<Rightarrow> nat \<Rightarrow> string option \<Rightarrow> shape_store \<Rightarrow> shape_change list" where
  "listShapeChanges scope k limit cliId s = take limit (rev (filter (\<lambda>c. ch_scope c = scope \<and> ch_scope_key c = k
     \<and> (case cliId of None \<Rightarrow> True | Some i \<Rightarrow> ch_cli_id c = i)) (ss_audit s)))"

text \<open>
  \<open>scopedShapeStore\<close>: the shapes of a view, and its \<open>getShape\<close>. A scope without owner and domain reads
  the store itself. The view caches its list for one decision, in which the store is not written.
\<close>

definition view_shapes :: "(string \<Rightarrow> string \<Rightarrow> bool) \<Rightarrow> shape_scope \<Rightarrow> shape_store \<Rightarrow> server_shape list" where
  "view_shapes coll sc s = (if \<not> truthy_str (sc_owner sc) \<and> \<not> truthy_str (sc_domain sc) then listShapes coll s
     else scoped_shapes sc (listShapes coll s)
       (if truthy_str (sc_owner sc) then listOwnerShapes coll (the (sc_owner sc)) s else [])
       (if truthy_str (sc_domain sc) then listDomainShapes coll (the (sc_domain sc)) s else []))"

definition view_getShape :: "(string \<Rightarrow> string \<Rightarrow> bool) \<Rightarrow> shape_scope \<Rightarrow> string \<Rightarrow> shape_store \<Rightarrow> server_shape option" where
  "view_getShape coll sc cliId s = (if \<not> truthy_str (sc_owner sc) \<and> \<not> truthy_str (sc_domain sc) then getShape cliId s
     else List.find (\<lambda>shape. sh_cli_id shape = cliId) (view_shapes coll sc s))"

section \<open>Resolution\<close>

definition GENERIC_OPERATION_ID :: string where
  "GENERIC_OPERATION_ID = ''_generic.exec''"

record resolved_command =
  rc_cli_id :: string
  rc_operation_id :: string
  rc_executable :: string
  rc_commandArgv :: "string list"
  rc_bindings :: bindings
  rc_detail :: cli_detail
  rc_context :: exec_context
  rc_permission :: string
  rc_synthetic :: bool

definition resolved_context :: "string list \<Rightarrow> string \<Rightarrow> string \<Rightarrow> string \<Rightarrow> string \<Rightarrow> string option \<Rightarrow> string option
    \<Rightarrow> string \<Rightarrow> bindings \<Rightarrow> exec_context" where
  "resolved_context argv argvHash adapterId version digest owner domain executable bs =
     \<lparr>ec_files = None, ec_argv = Some argv, ec_argv_hash = Some argvHash, ec_adapter_id = adapterId,
      ec_adapter_version = version, ec_adapter_digest = digest, ec_adapter_owner = owner, ec_adapter_domain = domain,
      ec_resolved_executable = executable, ec_context_bindings = Some bs, ec_program_sha256 = None,
      ec_version_tested = None\<rparr>"

definition generic_detail :: "(string \<Rightarrow> string \<Rightarrow> bool) \<Rightarrow> (string \<Rightarrow> string) \<Rightarrow> string \<Rightarrow> string list \<Rightarrow> cli_detail" where
  "generic_detail coll sha cliId fullArgv =
     (let chain = [\<lparr>rr_resource = ''cli'', rr_selector = Some [(''name'', cliId)]\<rparr>,
                   \<lparr>rr_resource = ''argv'', rr_selector = Some [(''hash'', computeArgvHash sha fullArgv)]\<rparr>] in
      \<lparr>cd_type = ''openape_cli'', cd_cli_id = cliId, cd_operation_id = GENERIC_OPERATION_ID, cd_resource_chain = chain,
       cd_action = ''exec'', cd_approval = None, cd_reason = None, cd_grant_id = None,
       cd_permission = canonicalizeCliPermission coll cliId chain ''exec'',
       cd_display = ''Execute (unshaped): `'' @ cliId @ '' '' @ join '' '' (tl fullArgv) @ ''`'', cd_risk = High,
       cd_constraints = Some \<lparr>cc_exact_command = Some True, cc_single_use = None\<rparr>\<rparr>)"

definition buildGenericResolvedServer ::
  "(string \<Rightarrow> string \<Rightarrow> bool) \<Rightarrow> (string \<Rightarrow> string) \<Rightarrow> string \<Rightarrow> string list \<Rightarrow> shape_error + resolved_command" where
  "buildGenericResolvedServer coll sha cliId fullArgv = (case fullArgv of [] \<Rightarrow> Inl EmptyArgv
     | executable # commandArgv \<Rightarrow> let detail = generic_detail coll sha cliId fullArgv in
         Inr \<lparr>rc_cli_id = cliId, rc_operation_id = GENERIC_OPERATION_ID, rc_executable = executable,
           rc_commandArgv = commandArgv, rc_bindings = [], rc_detail = detail,
           rc_context = resolved_context fullArgv (computeArgvHash sha fullArgv) cliId ''openape-shapes/v1'' ''synthetic''
             None None executable [],
           rc_permission = cd_permission detail, rc_synthetic = True\<rparr>)"

definition tryMatchShape :: "(string \<Rightarrow> string \<Rightarrow> bool) \<Rightarrow> (string \<Rightarrow> string) \<Rightarrow> server_shape \<Rightarrow> string list
    \<Rightarrow> shape_error + resolved_command option" where
  "tryMatchShape coll sha shape fullArgv = (case fullArgv of [] \<Rightarrow> Inr None
     | executable # commandArgv \<Rightarrow>
        if executable = [] then Inr None
        else (case matchArgvToOperation (sh_operations shape) commandArgv of None \<Rightarrow> Inr None
          | Some (operation, bs) \<Rightarrow> (case buildCliAuthDetail coll (sh_cli_id shape) operation bs of Inl e \<Rightarrow> Inl e
             | Inr detail \<Rightarrow> Inr (Some \<lparr>rc_cli_id = sh_cli_id shape, rc_operation_id = op_id operation,
                 rc_executable = executable, rc_commandArgv = commandArgv, rc_bindings = bs, rc_detail = detail,
                 rc_context = resolved_context fullArgv (computeArgvHash sha fullArgv) (sh_cli_id shape) ''server''
                   (sh_digest shape) (if truthy_str (sh_owner shape) then sh_owner shape else None)
                   (if truthy_str (sh_domain shape) then sh_domain shape else None) executable bs,
                 rc_permission = cd_permission detail, rc_synthetic = False\<rparr>))))"

text \<open>\<open>lookup\<close> is the \<open>getShape\<close> of the store or view.\<close>

definition resolveServerShape :: "(string \<Rightarrow> string \<Rightarrow> bool) \<Rightarrow> (string \<Rightarrow> string) \<Rightarrow> (string \<Rightarrow> server_shape option)
    \<Rightarrow> string \<Rightarrow> string list \<Rightarrow> shape_error + resolved_command" where
  "resolveServerShape coll sha lookup cliId fullArgv = (if fullArgv = [] then Inl EmptyArgv
     else case lookup cliId of None \<Rightarrow> buildGenericResolvedServer coll sha cliId fullArgv
     | Some shape \<Rightarrow> (case tryMatchShape coll sha shape fullArgv of Inl e \<Rightarrow> Inl e
         | Inr (Some resolved) \<Rightarrow> Inr resolved
         | Inr None \<Rightarrow> buildGenericResolvedServer coll sha cliId fullArgv))"

section \<open>The scoped view\<close>

definition upper_tiers :: "shape_scope \<Rightarrow> server_shape list \<Rightarrow> server_shape list \<Rightarrow> server_shape list \<Rightarrow> server_shape list" where
  "upper_tiers sc registry ownShapes domainShapes =
     (let desktop = notIn (DESKTOP_OWN_SHAPE_IDS @ shape_names (filter (\<lambda>s. truthy_bool (sh_virtual s)) registry));
          personal = (if truthy_str (sc_owner sc)
            then map (\<lambda>s. scoped s (sc_owner sc) None) (filter desktop ownShapes) else [])
      in personal @ (if truthy_str (sc_domain sc)
            then map (\<lambda>s. scoped s None (sc_domain sc)) (filter (notIn (shape_names personal)) (filter desktop domainShapes))
            else []))"

lemma scoped_shapes_tiers:
  "scoped_shapes sc registry own doms = upper_tiers sc registry own doms @
     filter (notIn (shape_names (upper_tiers sc registry own doms))) registry"
  by (simp add: scoped_shapes_def upper_tiers_def Let_def)

lemma scoped_names [simp]: "sh_cli_id (scoped s p d) = sh_cli_id s" "sh_executable (scoped s p d) = sh_executable s"
  "sh_tested_digests (scoped s p d) = None" "sh_virtual (scoped s p d) = None" "sh_owner (scoped s p d) = p"
  "sh_domain (scoped s p d) = d"
  by (simp_all add: scoped_def)

lemma in_shape_names: "n \<in> set (shape_names ss) \<longleftrightarrow> (\<exists>s\<in>set ss. n = sh_cli_id s \<or> n = sh_executable s)"
  by (auto simp: shape_names_def)

lemma upper_tiers_mem:
  assumes "s \<in> set (upper_tiers sc registry own doms)"
  shows "(sh_owner s = sc_owner sc \<and> sh_domain s = None \<and> truthy_str (sc_owner sc) \<or>
      sh_owner s = None \<and> sh_domain s = sc_domain sc \<and> truthy_str (sc_domain sc)) \<and>
    sh_tested_digests s = None \<and> sh_virtual s = None \<and>
    notIn (DESKTOP_OWN_SHAPE_IDS @ shape_names (filter (\<lambda>s. truthy_bool (sh_virtual s)) registry)) s"
  using assms by (auto simp: upper_tiers_def Let_def notIn_def split: if_splits)

section \<open>Properties\<close>

text \<open>
  The scoped view keeps its tiers apart: a virtual shape of the registry (an operation the desktop
  performs itself) is always served; every shape served for an owner or domain is stamped with that owner or
  domain only, never counts as tested or virtual and uses no name of a desktop operation; and a registry
  shape is served only when no upper-tier shape uses its id or executable.
\<close>

theorem scoped_view_tiers:
  "(\<forall>r\<in>set registry. truthy_bool (sh_virtual r) \<longrightarrow> r \<in> set (scoped_shapes sc registry own doms)) \<and>
   (\<forall>s\<in>set (scoped_shapes sc registry own doms). s \<in> set registry \<or>
      (sh_owner s = sc_owner sc \<and> sh_domain s = None \<and> truthy_str (sc_owner sc) \<or>
       sh_owner s = None \<and> sh_domain s = sc_domain sc \<and> truthy_str (sc_domain sc)) \<and>
      sh_tested_digests s = None \<and> sh_virtual s = None \<and>
      sh_cli_id s \<notin> set DESKTOP_OWN_SHAPE_IDS \<and> sh_executable s \<notin> set DESKTOP_OWN_SHAPE_IDS) \<and>
   (\<exists>upper. scoped_shapes sc registry own doms = upper @ filter (notIn (shape_names upper)) registry)"
proof (intro conjI ballI impI)
  fix r assume r: "r \<in> set registry" "truthy_bool (sh_virtual r)"
  let ?u = "upper_tiers sc registry own doms"
  have "n \<notin> set (shape_names ?u)" if n: "n = sh_cli_id r \<or> n = sh_executable r" for n
  proof
    assume "n \<in> set (shape_names ?u)"
    then obtain s where s: "s \<in> set ?u" "n = sh_cli_id s \<or> n = sh_executable s" unfolding in_shape_names by blast
    have "n \<in> set (shape_names (filter (\<lambda>s. truthy_bool (sh_virtual s)) registry))"
      unfolding in_shape_names using r n by auto
    with upper_tiers_mem [OF s(1)] s(2) show False by (auto simp: notIn_def)
  qed
  then have "notIn (shape_names ?u) r" by (simp add: notIn_def)
  with r(1) show "r \<in> set (scoped_shapes sc registry own doms)" by (simp add: scoped_shapes_tiers)
next
  fix s assume "s \<in> set (scoped_shapes sc registry own doms)"
  then have "s \<in> set registry \<or> s \<in> set (upper_tiers sc registry own doms)" by (auto simp: scoped_shapes_tiers)
  then show "s \<in> set registry \<or>
      (sh_owner s = sc_owner sc \<and> sh_domain s = None \<and> truthy_str (sc_owner sc) \<or>
       sh_owner s = None \<and> sh_domain s = sc_domain sc \<and> truthy_str (sc_domain sc)) \<and>
      sh_tested_digests s = None \<and> sh_virtual s = None \<and>
      sh_cli_id s \<notin> set DESKTOP_OWN_SHAPE_IDS \<and> sh_executable s \<notin> set DESKTOP_OWN_SHAPE_IDS"
    using upper_tiers_mem [of s sc registry own doms] by (auto simp: notIn_def)
next
  show "\<exists>upper. scoped_shapes sc registry own doms = upper @ filter (notIn (shape_names upper)) registry"
    using scoped_shapes_tiers by blast
qed

definition example_shape :: "string \<Rightarrow> bool option \<Rightarrow> server_shape" where
  "example_shape n v = \<lparr>sh_cli_id = n, sh_executable = n, sh_description = [], sh_operations = [], sh_source = Builtin,
     sh_owner = None, sh_domain = None, sh_published_by = None, sh_toml = None, sh_digest = ''d'', sh_versions = None,
     sh_tested_digests = None, sh_virtual = v, sh_created_at = 0, sh_updated_at = 0\<rparr>"

theorem scoped_view_tiers_witness:
  "example_shape ''pod-ssh'' (Some True) \<in> set (scoped_shapes \<lparr>sc_owner = Some ''o@x'', sc_domain = None\<rparr>
     [example_shape ''pod-ssh'' (Some True)] [example_shape ''pod-ssh'' None] [])"
  using scoped_view_tiers [of "[example_shape ''pod-ssh'' (Some True)]" "\<lparr>sc_owner = Some ''o@x'', sc_domain = None\<rparr>"
      "[example_shape ''pod-ssh'' None]" "[]"]
  by (simp add: example_shape_def)

lemma generic_chain_facts:
  "cd_resource_chain (generic_detail coll sha c argv) = [\<lparr>rr_resource = ''cli'', rr_selector = Some [(''name'', c)]\<rparr>,
     \<lparr>rr_resource = ''argv'', rr_selector = Some [(''hash'', computeArgvHash sha argv)]\<rparr>]"
  by (simp add: generic_detail_def Let_def)

text \<open>
  A grant for a command no shape describes is a grant for that command line only: the generic detail of
  one argv covers the generic detail of another only when program id and every argument are equal, for any
  collision-free hash whose text has no star.
\<close>

theorem generic_binds_argv:
  assumes "inj sha" "\<forall>x. CHR ''*'' \<notin> set (sha x)"
    and "cliAuthorizationDetailCovers coll (generic_detail coll sha c argv) (generic_detail coll sha c' argv')"
  shows "c = c' \<and> argv = argv'"
proof -
  let ?g = "generic_detail coll sha"
  have "chain_wf (cd_resource_chain (?g c argv))" "chain_wf (cd_resource_chain (?g c' argv'))"
    by (simp_all add: generic_chain_facts)
  then have "covers_spec (?g c argv) (?g c' argv')" using assms(3) by (simp add: covers_iff_spec)
  then obtain pre post where p: "cd_resource_chain (?g c' argv') = pre @ post"
      "list_all2 ref_covers_spec (cd_resource_chain (?g c argv)) pre" and c: "c = c'"
    by (auto simp: covers_spec_def generic_detail_def Let_def)
  have "length pre = 2" using list_all2_lengthD [OF p(2)] by (simp add: generic_chain_facts)
  moreover have "length (cd_resource_chain (?g c' argv')) = 2" by (simp add: generic_chain_facts)
  ultimately have "post = []" using p(1) by simp
  then have "list_all2 ref_covers_spec (cd_resource_chain (?g c argv)) (cd_resource_chain (?g c' argv'))"
    using p by simp
  then have r: "ref_covers_spec \<lparr>rr_resource = ''argv'', rr_selector = Some [(''hash'', computeArgvHash sha argv)]\<rparr>
      \<lparr>rr_resource = ''argv'', rr_selector = Some [(''hash'', computeArgvHash sha argv')]\<rparr>"
    by (simp only: generic_chain_facts list_all2_Cons)
  have f: "sel_fields (Some [(''hash'', computeArgvHash sha xs)]) ''hash'' = Some (computeArgvHash sha xs)" for xs
    by (simp add: sel_fields_Cons computeArgvHash_def)
  have m: "selectorValueMatches (computeArgvHash sha argv) (computeArgvHash sha argv')"
    using r f [of argv] f [of argv'] unfolding ref_covers_spec_def resource_ref.select_convs by fastforce
  have "CHR ''*'' \<notin> set (computeArgvHash sha argv)" using assms(2) by (simp add: computeArgvHash_def)
  with m have "sha (json_strings argv) = sha (json_strings argv')"
    by (simp add: selectorValueMatches_def computeArgvHash_def)
  then have "json_strings argv = json_strings argv'" by (rule injD [OF assms(1)])
  with c show ?thesis by (simp add: json_strings_inject)
qed

text \<open>A collision-free stand-in for the hash: two letters per character, none of them a star.\<close>

definition toy_sha :: "string \<Rightarrow> string" where
  "toy_sha s = concat (map (\<lambda>c. if c = CHR ''*'' then ''aa'' else [CHR ''b'', c]) s)"

lemma toy_sha_simps [simp]:
  "toy_sha [] = []" "toy_sha (c # s) = (if c = CHR ''*'' then ''aa'' else [CHR ''b'', c]) @ toy_sha s"
  by (simp_all add: toy_sha_def)

lemma toy_sha_inj: "inj toy_sha"
proof (rule injI)
  fix a b assume "toy_sha a = toy_sha b"
  then show "a = b"
  proof (induction a arbitrary: b)
    case Nil
    then show ?case by (cases b) (auto split: if_splits)
  next
    case (Cons x a)
    then show ?case by (cases b) (auto split: if_splits)
  qed
qed

lemma toy_sha_no_star: "CHR ''*'' \<notin> set (toy_sha s)"
  by (induction s) auto

theorem generic_binds_argv_witness:
  "\<not> cliAuthorizationDetailCovers (\<le>) (generic_detail (\<le>) toy_sha ''rm'' [''rm'', ''a'']) (generic_detail (\<le>) toy_sha ''rm'' [''rm'', ''b''])"
  using generic_binds_argv [OF toy_sha_inj, of "(\<le>)" "''rm''" "[''rm'', ''a'']" "''rm''" "[''rm'', ''b'']"] toy_sha_no_star by auto

end
