(* ===== verification/Grants.thy ===== *)
theory Grants
  imports GrantStore Similarity ShapeRegistry
begin

text \<open>
  \<open>packages/grants/src/grants.ts\<close> and the withdrawal of \<open>grant-withdraw.ts\<close>: the operations on one
  grant, over any store. \<open>now\<close> is the time in seconds (one reading per operation), \<open>new_id\<close> the fresh UUID.
  An operation returns what it throws or answers and the state it leaves, also when it throws midway.
  The non-null assertion \<open>updated!\<close> is an option.
\<close>

type_synonym 'a outcome = "grant_error + 'a"

datatype extend_mode = Widen | Merge

record approve_overrides =
  ao_grant_type :: "grant_type option"
  ao_duration :: "int option"
  ao_extend_mode :: "extend_mode option"
  ao_extend_grant_ids :: "string list option"

definition no_overrides :: approve_overrides where
  "no_overrides = \<lparr>ao_grant_type = None, ao_duration = None, ao_extend_mode = None, ao_extend_grant_ids = None\<rparr>"

section \<open>Creating\<close>

definition createGrant ::
  "int \<Rightarrow> string \<Rightarrow> grant_request \<Rightarrow> 's grant_store \<Rightarrow> 's \<Rightarrow> grant outcome \<times> 's" where
  "createGrant now new_id request store s = (let g = new_grant new_id None request Pending now in
     if rq_reference request \<noteq> None
     then (case assertGrantReferenceRequest request of Inl e \<Rightarrow> (Inl e, s)
       | Inr _ \<Rightarrow> (case st_createReferenced store of
            None \<Rightarrow> (Inl (StoreError ''Grant references require an atomic store''), s)
          | Some create \<Rightarrow> (case create g s of (Inl e, s') \<Rightarrow> (Inl e, s') | (Inr (g', _), s') \<Rightarrow> (Inr g', s'))))
     else (case st_save store g s of (Inl e, s') \<Rightarrow> (Inl e, s') | (Inr _, s') \<Rightarrow> (Inr g, s')))"

section \<open>Approving, denying, revoking\<close>

definition single_use_detail :: "auth_detail \<Rightarrow> bool" where
  "single_use_detail d = (case d of GrantDetail _ \<Rightarrow> False
     | CliDetail c \<Rightarrow> cd_type c = ''openape_cli'' \<and>
         (case cd_constraints c of None \<Rightarrow> False | Some k \<Rightarrow> truthy_bool (cc_single_use k)))"

definition has_single_use :: "grant_request \<Rightarrow> bool" where
  "has_single_use r = list_ex single_use_detail (nullish (rq_authorization_details r) [])"

definition approval_patch :: "int \<Rightarrow> string \<Rightarrow> grant_request \<Rightarrow> grant_type \<Rightarrow> int option \<Rightarrow> grant_patch" where
  "approval_patch now approver request ty dur = \<lparr>p_decided_by = Some approver, p_decided_at = Some now,
     p_request = Some (request\<lparr>rq_grant_type := Some ty,
        rq_duration := (if dur \<noteq> None then dur else rq_duration request)\<rparr>),
     p_expires_at = (if ty = Timed \<and> truthy_num dur then Some (now + the dur) else None), p_used_at = None,
     p_decided_by_standing_grant = None, p_auto_approval_kind = None\<rparr>"

definition approveGrant :: "int \<Rightarrow> string \<Rightarrow> string \<Rightarrow> 's grant_store \<Rightarrow> approve_overrides \<Rightarrow> 's
    \<Rightarrow> grant option outcome \<times> 's" where
  "approveGrant now grantId approver store overrides s = (case st_findById store grantId s of
     None \<Rightarrow> (Inl (GrantNotFound grantId), s)
   | Some g \<Rightarrow>
       if gr_status g \<noteq> Pending then (Inl (NotPending (gr_status g)), s)
       else let r = gr_request g;
           ty = nullish (nullish_opt (ao_grant_type overrides) (rq_grant_type r)) Once;
           dur = nullish_opt (ao_duration overrides) (rq_duration r) in
         if truthy_str (rq_reference r) \<and> (ty \<noteq> Once \<or> dur \<noteq> None \<or> ao_extend_mode overrides \<noteq> None
            \<or> nullish (ao_extend_grant_ids overrides) [] \<noteq> []) then (Inl ReferencedBinding, s)
         else if has_single_use r \<and> ty \<noteq> Once then (Inl SingleUseRequired, s)
         else if ty = Timed \<and> \<not> truthy_num dur then (Inl DurationRequired, s)
         else (case st_updateStatus store grantId Approved (approval_patch now approver r ty dur) s of
             (Inl e, s') \<Rightarrow> (Inl e, s')
           | (Inr _, s') \<Rightarrow> (Inr (st_findById store grantId s'), s')))"

definition denyGrant :: "int \<Rightarrow> string \<Rightarrow> string \<Rightarrow> 's grant_store \<Rightarrow> 's \<Rightarrow> grant option outcome \<times> 's" where
  "denyGrant now grantId denier store s = (case st_findById store grantId s of
     None \<Rightarrow> (Inl (GrantNotFound grantId), s)
   | Some g \<Rightarrow> if gr_status g \<noteq> Pending then (Inl (NotPending (gr_status g)), s)
       else (case st_updateStatus store grantId Denied (no_patch\<lparr>p_decided_by := Some denier, p_decided_at := Some now\<rparr>) s of
           (Inl e, s') \<Rightarrow> (Inl e, s')
         | (Inr _, s') \<Rightarrow> (Inr (st_findById store grantId s'), s')))"

definition revokeGrant :: "string \<Rightarrow> 's grant_store \<Rightarrow> 's \<Rightarrow> grant option outcome \<times> 's" where
  "revokeGrant grantId store s = (case st_findById store grantId s of
     None \<Rightarrow> (Inl (GrantNotFound grantId), s)
   | Some g \<Rightarrow> if gr_status g \<noteq> Pending \<and> gr_status g \<noteq> Approved then (Inl (NotRevocable (gr_status g)), s)
       else (case st_updateStatus store grantId Revoked no_patch s of
           (Inl e, s') \<Rightarrow> (Inl e, s')
         | (Inr _, s') \<Rightarrow> (Inr (st_findById store grantId s'), s')))"

section \<open>Batches and waiting\<close>

definition same_batch :: "grant_request \<Rightarrow> grant_request \<Rightarrow> grant_batch \<Rightarrow> bool" where
  "same_batch a b batch = (rq_audience a = rq_audience b \<and> rq_target_host a = rq_target_host b
     \<and> rq_waits_until a = rq_waits_until b
     \<and> (case rq_batch a of None \<Rightarrow> gb_title batch = None \<and> gb_description batch = None \<and> gb_size batch = None
        | Some x \<Rightarrow> gb_title x = gb_title batch \<and> gb_description x = gb_description batch \<and> gb_size x = gb_size batch))"

definition assertGrantBatchMember :: "grant_request \<Rightarrow> 's grant_store \<Rightarrow> 's \<Rightarrow> unit outcome" where
  "assertGrantBatchMember request store s = (case rq_batch request of None \<Rightarrow> Inr ()
   | Some batch \<Rightarrow>
       if nullish (rq_grant_type request) Once \<noteq> Once then Inl (InvalidGrantBatch ''batch members must be once grants'')
       else if truthy_str (rq_run_as request) \<or> truthy_str (rq_delegator request) \<or> truthy_str (rq_delegate request)
            \<or> rq_scopes request \<noteq> None
       then Inl (InvalidGrantBatch ''batch members cannot carry run_as or delegation fields'')
       else (case st_listGrants store (no_params\<lparr>lp_requester := Some (OneRequester (rq_requester request)),
             lp_requester_filter := Some (rq_requester request), lp_batch := Some (gb_id batch), lp_limit := Some 100\<rparr>) s of
           Inl e \<Rightarrow> Inl e
         | Inr page \<Rightarrow>
             if pg_data page = [] then Inr ()
             else if \<not> same_batch (gr_request (last (pg_data page))) request batch
             then Inl (InvalidGrantBatch ''batch members must share audience, target_host, waits_until, title, description and size'')
             else (case gb_size batch of
                 Some n \<Rightarrow> if int (length (pg_data page)) \<ge> n
                   then Inl (InvalidGrantBatch ''batch already has its announced size'') else Inr ()
               | None \<Rightarrow> Inr ())))"

definition isCallerWaiting :: "grant_request \<Rightarrow> int \<Rightarrow> bool option" where
  "isCallerWaiting request nowSec = map_option (\<lambda>t. nowSec < t) (rq_waits_until request)"

section \<open>Expiry, introspection and use\<close>

definition isGrantExpired :: "grant \<Rightarrow> int \<Rightarrow> bool" where
  "isGrantExpired g nowSec = (gr_status g = Approved \<and> rq_grant_type (gr_request g) = Some Timed
     \<and> truthy_num (gr_expires_at g) \<and> nowSec \<ge> the (gr_expires_at g))"

definition introspectGrant :: "int \<Rightarrow> string \<Rightarrow> 's grant_store \<Rightarrow> 's \<Rightarrow> grant option outcome \<times> 's" where
  "introspectGrant now grantId store s = (case st_findById store grantId s of
     None \<Rightarrow> (Inr None, s)
   | Some g \<Rightarrow> if isGrantExpired g now
       then (case st_updateStatus store grantId Expired no_patch s of
           (Inl e, s') \<Rightarrow> (Inl e, s') | (Inr _, s') \<Rightarrow> (Inr (st_findById store grantId s'), s'))
       else (Inr (Some g), s))"

definition useGrant :: "int \<Rightarrow> string \<Rightarrow> 's grant_store \<Rightarrow> 's \<Rightarrow> grant option outcome \<times> 's" where
  "useGrant now grantId store s = (case introspectGrant now grantId store s of
     (Inl e, s1) \<Rightarrow> (Inl e, s1)
   | (Inr None, s1) \<Rightarrow> (Inl (GrantNotFound grantId), s1)
   | (Inr (Some g), s1) \<Rightarrow>
       if gr_status g \<noteq> Approved then (Inl (NotApproved (gr_status g)), s1)
       else if rq_grant_type (gr_request g) = Some Once
       then (case st_claimOnce store of
           Some claim \<Rightarrow> (case claim grantId now s1 of (ok, s2) \<Rightarrow>
               if \<not> ok then (Inl ChangedWhileUsed, s2) else (Inr (st_findById store grantId s2), s2))
         | None \<Rightarrow> (case st_updateStatus store grantId Used (no_patch\<lparr>p_used_at := Some now\<rparr>) s1 of
               (Inl e, s2) \<Rightarrow> (Inl e, s2) | (Inr _, s2) \<Rightarrow> (Inr (st_findById store grantId s2), s2)))
       else (Inr (Some g), s1))"

section \<open>Delegations\<close>

record delegation_params =
  dp_delegator :: string
  dp_delegate :: string
  dp_audience :: string
  dp_scopes :: "string list option"
  dp_grant_type :: grant_type
  dp_duration :: "int option"

definition delegation_request :: "delegation_params \<Rightarrow> grant_request" where
  "delegation_request p = (plain_request (dp_delegator p) (dp_audience p) (dp_audience p))
     \<lparr>rq_grant_type := Some (dp_grant_type p), rq_delegator := Some (dp_delegator p), rq_delegate := Some (dp_delegate p),
      rq_scopes := dp_scopes p, rq_duration := dp_duration p\<rparr>"

definition createDelegation :: "int \<Rightarrow> string \<Rightarrow> delegation_params \<Rightarrow> 's grant_store \<Rightarrow> 's
    \<Rightarrow> grant option outcome \<times> 's" where
  "createDelegation now new_id params store s =
     (case st_save store (new_grant new_id (Some DelegationGrant) (delegation_request params) Pending now) s of
        (Inl e, s') \<Rightarrow> (Inl e, s')
      | (Inr _, s') \<Rightarrow> approveGrant now new_id (dp_delegator params) store no_overrides s')"

definition validateDelegation :: "int \<Rightarrow> string \<Rightarrow> string \<Rightarrow> string \<Rightarrow> 's grant_store \<Rightarrow> 's \<Rightarrow> grant outcome \<times> 's" where
  "validateDelegation now grantId delegate audience store s = (case introspectGrant now grantId store s of
     (Inl e, s') \<Rightarrow> (Inl e, s')
   | (Inr None, s') \<Rightarrow> (Inl (GrantNotFound grantId), s')
   | (Inr (Some g), s') \<Rightarrow>
       if gr_category g \<noteq> Some DelegationGrant then (Inl NotDelegation, s')
       else if gr_status g \<noteq> Approved then (Inl (NotApproved (gr_status g)), s')
       else if rq_delegate (gr_request g) \<noteq> Some delegate then (Inl DelegateMismatch, s')
       else if rq_audience (gr_request g) \<noteq> ''*'' \<and> rq_audience (gr_request g) \<noteq> audience then (Inl AudienceMismatch, s')
       else (Inr g, s'))"

section \<open>Approving with an extension or a widening\<close>

text \<open>The checks on the grants to extend; the first failing one throws.\<close>

fun collect_old :: "'s grant_store \<Rightarrow> grant \<Rightarrow> string list \<Rightarrow> 's \<Rightarrow> grant list outcome" where
  "collect_old store pending [] s = Inr []"
| "collect_old store pending (oldId # ids) s = (case st_findById store oldId s of
     None \<Rightarrow> Inl (ExtendNotFound oldId)
   | Some old \<Rightarrow>
       if gr_status old \<noteq> Approved then Inl (ExtendNotApproved (gr_status old))
       else if rq_target_host (gr_request old) \<noteq> rq_target_host (gr_request pending) then Inl ExtendHostMismatch
       else if rq_audience (gr_request old) \<noteq> rq_audience (gr_request pending) then Inl ExtendAudienceMismatch
       else if \<not> sameShapeTier (tier_of (rq_execution_context (gr_request old))) (tier_of (rq_execution_context (gr_request pending)))
       then Inl ExtendShapeMismatch
       else (case collect_old store pending ids s of Inl e \<Rightarrow> Inl e | Inr olds \<Rightarrow> Inr (old # olds)))"

fun revoke_all :: "'s grant_store \<Rightarrow> string list \<Rightarrow> 's \<Rightarrow> unit outcome \<times> 's" where
  "revoke_all store [] s = (Inr (), s)"
| "revoke_all store (i # ids) s = (case revokeGrant i store s of
     (Inl e, s') \<Rightarrow> (Inl e, s') | (Inr _, s') \<Rightarrow> revoke_all store ids s')"

definition extended_details ::
  "(string \<Rightarrow> string \<Rightarrow> bool) \<Rightarrow> extend_mode \<Rightarrow> grant \<Rightarrow> grant list \<Rightarrow> cli_detail list" where
  "extended_details coll mode pending olds = (let incoming = grant_details pending in case mode of
     Widen \<Rightarrow> mergeCliAuthorizationDetails coll [incoming @ widened_pairs coll (concat (map grant_details olds)) incoming]
   | Merge \<Rightarrow> mergeCliAuthorizationDetails coll (incoming # map grant_details olds))"

definition extended_request ::
  "(string \<Rightarrow> string \<Rightarrow> bool) \<Rightarrow> extend_mode \<Rightarrow> grant_request \<Rightarrow> cli_detail list \<Rightarrow> grant_request" where
  "extended_request coll mode r details = r\<lparr>rq_authorization_details := Some (map CliDetail details),
     rq_permissions := Some (map (canonical coll) details),
     rq_command := (if mode = Widen then None else rq_command r),
     rq_cmd_hash := (if mode = Widen then None else rq_cmd_hash r)\<rparr>"

definition approveGrantWithExtension :: "(string \<Rightarrow> string \<Rightarrow> bool) \<Rightarrow> int \<Rightarrow> string \<Rightarrow> string \<Rightarrow> 's grant_store
    \<Rightarrow> extend_mode \<Rightarrow> string list \<Rightarrow> approve_overrides \<Rightarrow> 's \<Rightarrow> grant option outcome \<times> 's" where
  "approveGrantWithExtension coll now grantId approver store mode ids overrides s =
     (case st_findById store grantId s of None \<Rightarrow> (Inl (GrantNotFound grantId), s)
      | Some pending \<Rightarrow>
          if gr_status pending \<noteq> Pending then (Inl (NotPending (gr_status pending)), s)
          else if truthy_str (rq_reference (gr_request pending)) \<or> has_single_use (gr_request pending) then (Inl CannotWiden, s)
          else (case collect_old store pending ids s of Inl e \<Rightarrow> (Inl e, s)
            | Inr olds \<Rightarrow>
                (case st_updateStatus store grantId Pending (no_patch\<lparr>p_request := Some (extended_request coll mode
                      (gr_request pending) (extended_details coll mode pending olds))\<rparr>) s of
                   (Inl e, s1) \<Rightarrow> (Inl e, s1)
                 | (Inr _, s1) \<Rightarrow> (case revoke_all store (map gr_id olds) s1 of
                       (Inl e, s2) \<Rightarrow> (Inl e, s2)
                     | (Inr _, s2) \<Rightarrow> approveGrant now grantId approver store
                         (no_overrides\<lparr>ao_grant_type := ao_grant_type overrides, ao_duration := ao_duration overrides\<rparr>) s2))))"

text \<open>One widened detail against the original at its index.\<close>

definition widen_checked :: "(string \<Rightarrow> string \<Rightarrow> bool) \<Rightarrow> nat \<Rightarrow> cli_detail \<Rightarrow> cli_detail \<Rightarrow> cli_detail outcome" where
  "widen_checked coll idx widened original =
     (if cd_type widened \<noteq> ''openape_cli'' then Inl (WidenType idx)
      else if cd_cli_id widened \<noteq> cd_cli_id original then Inl (WidenCliId idx)
      else if cd_action widened \<noteq> cd_action original then Inl (WidenAction idx)
      else if cd_operation_id widened \<noteq> cd_operation_id original then Inl (WidenOperation idx)
      else if \<not> resourceChainsStructurallyMatch (cd_resource_chain widened) (cd_resource_chain original) then Inl (WidenStructure idx)
      else if \<not> cliAuthorizationDetailCovers coll widened original then Inl (WidenNotCovering idx)
      else let selectorRemoved = list_ex (\<lambda>(o', w). rr_selector o' \<noteq> None \<and> rr_selector w = None)
             (zip (cd_resource_chain original) (cd_resource_chain widened)) in
        Inr (original\<lparr>cd_resource_chain := cd_resource_chain widened, cd_permission := canonical coll widened,
          cd_display := (if cd_display widened \<noteq> [] then cd_display widened else cd_display original),
          cd_constraints := (if selectorRemoved then None else cd_constraints original)\<rparr>))"

fun widen_all :: "(string \<Rightarrow> string \<Rightarrow> bool) \<Rightarrow> nat \<Rightarrow> cli_detail list \<Rightarrow> cli_detail list \<Rightarrow> cli_detail list outcome" where
  "widen_all coll idx (w # ws) (o' # os) = (case widen_checked coll idx w o' of Inl e \<Rightarrow> Inl e
     | Inr d \<Rightarrow> (case widen_all coll (idx + 1) ws os of Inl e \<Rightarrow> Inl e | Inr ds \<Rightarrow> Inr (d # ds)))"
| "widen_all coll idx _ _ = Inr []"

definition approveGrantWithWidening :: "(string \<Rightarrow> string \<Rightarrow> bool) \<Rightarrow> int \<Rightarrow> string \<Rightarrow> string \<Rightarrow> 's grant_store
    \<Rightarrow> cli_detail list \<Rightarrow> approve_overrides \<Rightarrow> 's \<Rightarrow> grant option outcome \<times> 's" where
  "approveGrantWithWidening coll now grantId approver store widened overrides s =
     (case st_findById store grantId s of None \<Rightarrow> (Inl (GrantNotFound grantId), s)
      | Some pending \<Rightarrow>
          if gr_status pending \<noteq> Pending then (Inl (NotPending (gr_status pending)), s)
          else if truthy_str (rq_reference (gr_request pending)) \<or> has_single_use (gr_request pending) then (Inl CannotWiden, s)
          else let original = grant_details pending in
            if original = [] then (Inl NoCliDetails, s)
            else if length widened \<noteq> length original then (Inl (WidenLength (length original) (length widened)), s)
            else (case widen_all coll 0 widened original of Inl e \<Rightarrow> (Inl e, s)
              | Inr normalized \<Rightarrow>
                  (case st_updateStatus store grantId Pending (no_patch\<lparr>p_request := Some ((gr_request pending)
                        \<lparr>rq_authorization_details := Some (map CliDetail normalized),
                         rq_permissions := Some (map cd_permission normalized), rq_command := None, rq_cmd_hash := None\<rparr>)\<rparr>) s of
                     (Inl e, s1) \<Rightarrow> (Inl e, s1)
                   | (Inr _, s1) \<Rightarrow> approveGrant now grantId approver store
                       (no_overrides\<lparr>ao_grant_type := ao_grant_type overrides, ao_duration := ao_duration overrides\<rparr>) s1)))"

section \<open>Withdrawing\<close>

definition find_referenced :: "string \<Rightarrow> 's grant_store \<Rightarrow> 's \<Rightarrow> grant option outcome" where
  "find_referenced k store s = (case st_listGrants store (no_params\<lparr>lp_reference_key := Some k, lp_limit := Some 1\<rparr>) s of
     Inl e \<Rightarrow> Inl e | Inr page \<Rightarrow> Inr (case pg_data page of [] \<Rightarrow> None | g # _ \<Rightarrow> Some g))"

text \<open>
  The state is read again after \<open>withdraw\<close>, by when another request may have changed it: \<open>other\<close> is
  what the rest of the program did in between (the identity when nothing).
\<close>

definition withdrawReferencedGrant :: "int \<Rightarrow> string \<Rightarrow> string option \<Rightarrow> 's grant_store \<Rightarrow> ('s \<Rightarrow> 's) \<Rightarrow> 's
    \<Rightarrow> withdraw_result outcome \<times> 's" where
  "withdrawReferencedGrant now k reason store other s = (case st_withdraw store of
     None \<Rightarrow> (Inl (StoreError ''This store does not support withdrawing grants''), s)
   | Some withdraw \<Rightarrow> (case find_referenced k store s of Inl e \<Rightarrow> (Inl e, s)
     | Inr None \<Rightarrow> (Inr WithdrawUnknown, s)
     | Inr (Some g) \<Rightarrow>
         (case (if gr_status g = Pending \<or> gr_status g = Approved then withdraw (gr_id g) now reason (other s)
                else (None, s)) of
            (Some previous, s1) \<Rightarrow> (Inr (WithdrawDone (gr_id g) previous), s1)
          | (None, s1) \<Rightarrow> (case find_referenced k store s1 of Inl e \<Rightarrow> (Inl e, s1)
              | Inr None \<Rightarrow> (Inl (StoreError ''null grant''), s1)
              | Inr (Some g') \<Rightarrow>
                  if gr_status g' = Withdrawn then (Inr (WithdrawDone (gr_id g') Withdrawn), s1)
                  else if gr_status g' \<in> {Denied, Revoked, Expired, Used} then (Inr (AlreadyDecided (gr_id g') (gr_status g')), s1)
                  else (Inl (WithdrawFailed (gr_status g')), s1)))))"

section \<open>The operations over any store that keeps the laws\<close>

lemma expired_patch_not_expired: "\<not> isGrantExpired (apply_patch g Expired p) t"
  by (simp add: isGrantExpired_def)

definition effective_type :: "approve_overrides \<Rightarrow> grant_request \<Rightarrow> grant_type" where
  "effective_type overrides r = nullish (nullish_opt (ao_grant_type overrides) (rq_grant_type r)) Once"

definition effective_duration :: "approve_overrides \<Rightarrow> grant_request \<Rightarrow> int option" where
  "effective_duration overrides r = nullish_opt (ao_duration overrides) (rq_duration r)"

text \<open>What makes an approval acceptable.\<close>

definition approvable :: "approve_overrides \<Rightarrow> grant \<Rightarrow> bool" where
  "approvable overrides g \<longleftrightarrow> gr_status g = Pending \<and>
     (truthy_str (rq_reference (gr_request g)) \<longrightarrow> effective_type overrides (gr_request g) = Once \<and>
        effective_duration overrides (gr_request g) = None \<and> ao_extend_mode overrides = None \<and>
        nullish (ao_extend_grant_ids overrides) [] = []) \<and>
     (has_single_use (gr_request g) \<longrightarrow> effective_type overrides (gr_request g) = Once) \<and>
     (effective_type overrides (gr_request g) = Timed \<longrightarrow> truthy_num (effective_duration overrides (gr_request g)))"

definition approved_grant :: "int \<Rightarrow> string \<Rightarrow> approve_overrides \<Rightarrow> grant \<Rightarrow> grant" where
  "approved_grant now approver overrides g = apply_patch g Approved (approval_patch now approver (gr_request g)
     (effective_type overrides (gr_request g)) (effective_duration overrides (gr_request g)))"

lemma approve_unfold:
  assumes "st_findById store i s = Some g"
  shows "approvable overrides g \<Longrightarrow> approveGrant now i a store overrides s =
      (case st_updateStatus store i Approved (approval_patch now a (gr_request g)
         (effective_type overrides (gr_request g)) (effective_duration overrides (gr_request g))) s of
         (Inl e, s') \<Rightarrow> (Inl e, s') | (Inr _, s') \<Rightarrow> (Inr (st_findById store i s'), s'))"
    and "\<not> approvable overrides g \<Longrightarrow> \<exists>e. approveGrant now i a store overrides s = (Inl e, s)"
  unfolding approvable_def effective_type_def effective_duration_def
  by (auto simp: approveGrant_def assms Let_def)

lemma approveGrant_missing: "st_findById store i s = None \<Longrightarrow> approveGrant now i a store overrides s = (Inl (GrantNotFound i), s)"
  by (simp add: approveGrant_def)

context grant_store_laws
begin

lemma approve_ok:
  assumes "inv s" "st_findById store i s = Some g" "approvable overrides g"
    and "binding_kept g (approval_patch now a (gr_request g) (effective_type overrides (gr_request g))
        (effective_duration overrides (gr_request g)))"
  obtains s' where "approveGrant now i a store overrides s = (Inr (Some (approved_grant now a overrides g)), s')" "inv s'"
    "\<And>j. st_findById store j s' = (if j = i then Some (approved_grant now a overrides g) else st_findById store j s)"
proof -
  obtain s' where u: "st_updateStatus store i Approved (approval_patch now a (gr_request g)
         (effective_type overrides (gr_request g)) (effective_duration overrides (gr_request g))) s = (Inr (), s')" "inv s'"
      "\<forall>j. st_findById store j s' = (if j = i then Some (approved_grant now a overrides g) else st_findById store j s)"
    using update_law [OF assms(1,2,4), of Approved] unfolding approved_grant_def by blast
  show thesis
    by (rule that [of s']) (use u approve_unfold(1) [OF assms(2,3)] in simp_all)
qed

lemma deny_ok:
  assumes "inv s" "st_findById store i s = Some g" "gr_status g = Pending"
  obtains g' s' where "denyGrant now i a store s = (Inr (Some g'), s')" "inv s'" "gr_status g' = Denied"
    "\<And>j. st_findById store j s' = (if j = i then Some g' else st_findById store j s)"
proof -
  let ?p = "no_patch\<lparr>p_decided_by := Some a, p_decided_at := Some now\<rparr>"
  have "binding_kept g ?p" by (simp add: no_patch_def)
  then obtain s' where u: "st_updateStatus store i Denied ?p s = (Inr (), s')" "inv s'"
      "\<forall>j. st_findById store j s' = (if j = i then Some (apply_patch g Denied ?p) else st_findById store j s)"
    using update_law [OF assms(1,2)] by blast
  show thesis
    by (rule that [of "apply_patch g Denied ?p" s']) (use u assms in \<open>simp_all add: denyGrant_def\<close>)
qed

lemma revoke_ok:
  assumes "inv s" "st_findById store i s = Some g" "gr_status g \<in> {Pending, Approved}"
  obtains g' s' where "revokeGrant i store s = (Inr (Some g'), s')" "inv s'" "gr_status g' = Revoked" "gr_request g' = gr_request g"
    "\<And>j. st_findById store j s' = (if j = i then Some g' else st_findById store j s)"
proof -
  have "binding_kept g no_patch" by (simp add: no_patch_def)
  then obtain s' where u: "st_updateStatus store i Revoked no_patch s = (Inr (), s')" "inv s'"
      "\<forall>j. st_findById store j s' = (if j = i then Some (apply_patch g Revoked no_patch) else st_findById store j s)"
    using update_law [OF assms(1,2)] by blast
  show thesis
    by (rule that [of "apply_patch g Revoked no_patch" s']) (use u assms(2,3) in \<open>auto simp: revokeGrant_def no_patch_def\<close>)
qed

lemma introspect_ok:
  assumes "inv s" "st_findById store i s = Some g"
  obtains g' s' where "introspectGrant now i store s = (Inr (Some g'), s')" "inv s'"
    "g' = (if isGrantExpired g now then apply_patch g Expired no_patch else g)"
    "\<And>j. st_findById store j s' = (if j = i then Some g' else st_findById store j s)"
proof (cases "isGrantExpired g now")
  case True
  have "binding_kept g no_patch" by (simp add: no_patch_def)
  then obtain s' where u: "st_updateStatus store i Expired no_patch s = (Inr (), s')" "inv s'"
      "\<forall>j. st_findById store j s' = (if j = i then Some (apply_patch g Expired no_patch) else st_findById store j s)"
    using update_law [OF assms] by blast
  show thesis
    by (rule that [of "apply_patch g Expired no_patch" s']) (use u assms(2) True in \<open>simp_all add: introspectGrant_def\<close>)
next
  case False
  show thesis by (rule that [of g s]) (use assms False in \<open>simp_all add: introspectGrant_def\<close>)
qed

lemma introspect_missing: "st_findById store i s = None \<Longrightarrow> introspectGrant now i store s = (Inr None, s)"
  by (simp add: introspectGrant_def)

text \<open>Using a grant: what a success means, for a store that can claim.\<close>

lemma use_ok:
  assumes "inv s" "st_claimOnce store = Some claim" "useGrant now i store s = (Inr r, s')"
  obtains g where "st_findById store i s = Some g" "gr_status g = Approved" "\<not> isGrantExpired g now" "inv s'"
    "r = st_findById store i s'"
    "\<And>j. st_findById store j s' = (if j = i then Some (if rq_grant_type (gr_request g) = Some Once
        then g\<lparr>gr_status := Used, gr_used_at := Some now\<rparr> else g) else st_findById store j s)"
proof (cases "st_findById store i s")
  case None
  then show thesis using assms(3) by (simp add: useGrant_def introspect_missing)
next
  case (Some g)
  obtain g1 s1 where i: "introspectGrant now i store s = (Inr (Some g1), s1)" "inv s1"
    "g1 = (if isGrantExpired g now then apply_patch g Expired no_patch else g)"
    "\<And>j. st_findById store j s1 = (if j = i then Some g1 else st_findById store j s)"
    using introspect_ok [OF assms(1) Some] by blast
  have st: "gr_status g1 = Approved" using assms(3) i(1) by (simp add: useGrant_def split: if_splits)
  then have ne: "\<not> isGrantExpired g now" "g1 = g" using i(3) by (auto split: if_splits)
  show thesis
  proof (cases "rq_grant_type (gr_request g) = Some Once")
    case True
    obtain s2 where c: "claim i now s1 = (True, s2)" "inv s2"
        "\<forall>j. st_findById store j s2 = (if j = i then Some (g\<lparr>gr_status := Used, gr_used_at := Some now\<rparr>) else st_findById store j s1)"
      using claim_law [OF i(2) assms(2), of i g now] i(4) ne(2) st by auto
    have r: "r = st_findById store i s2" "s' = s2" using assms(3) i(1) st ne(2) True assms(2) c(1) by (auto simp: useGrant_def)
    show thesis
      by (rule that [OF Some _ ne(1)]) (use st ne(2) c r i(4) True in auto)
  next
    case False
    have r: "r = Some g" "s' = s1" using assms(3) i(1) st ne(2) False by (simp_all add: useGrant_def)
    show thesis
      by (rule that [OF Some _ ne(1)]) (use st ne(2) r i(2,4) False in auto)
  qed
qed

end

section \<open>Outcomes\<close>

text \<open>\<open>changed_one look i g' s s'\<close>: the state differs at \<open>i\<close> only, which is now \<open>g'\<close>.\<close>

definition changed_one :: "(string \<Rightarrow> 's \<Rightarrow> grant option) \<Rightarrow> string \<Rightarrow> grant \<Rightarrow> 's \<Rightarrow> 's \<Rightarrow> bool" where
  "changed_one look i g' s s' \<longleftrightarrow> (\<forall>j. look j s' = (if j = i then Some g' else look j s))"

context grant_store_laws
begin

lemma approve_cases:
  assumes "inv s" "approveGrant now i a store overrides s = (x, s')"
  shows "(\<exists>e. x = Inl e) \<and> s' = s \<and> \<not> (\<exists>g. st_findById store i s = Some g \<and> approvable overrides g \<and> binding_kept g (approval_patch now a (gr_request g) (effective_type overrides (gr_request g)) (effective_duration overrides (gr_request g)))) \<or>
    (\<exists>g. st_findById store i s = Some g \<and> approvable overrides g \<and> x = Inr (Some (approved_grant now a overrides g)) \<and>
       inv s' \<and> changed_one (st_findById store) i (approved_grant now a overrides g) s s')"
proof (cases "st_findById store i s")
  case None
  with assms(2) show ?thesis by (auto simp: approveGrant_missing)
next
  case (Some g)
  let ?p = "approval_patch now a (gr_request g) (effective_type overrides (gr_request g)) (effective_duration overrides (gr_request g))"
  show ?thesis
  proof (cases "approvable overrides g")
    case False
    then obtain e where "approveGrant now i a store overrides s = (Inl e, s)"
      using approve_unfold(2) [OF Some False] by blast
    then show ?thesis using assms(2) Some False by simp
  next
    case ok: True
    show ?thesis
    proof (cases "binding_kept g ?p")
      case True
      obtain s2 where "approveGrant now i a store overrides s = (Inr (Some (approved_grant now a overrides g)), s2)" "inv s2"
        "\<And>j. st_findById store j s2 = (if j = i then Some (approved_grant now a overrides g) else st_findById store j s)"
        using approve_ok [OF assms(1) Some ok True] by blast
      with assms(2) Some ok show ?thesis by (auto simp: changed_one_def)
    next
      case False
      then obtain e where "st_updateStatus store i Approved ?p s = (Inl e, s)"
        using update_refused_law [OF assms(1) Some False] by blast
      then show ?thesis using approve_unfold(1) [OF Some ok, of now a] assms(2) Some False by auto
    qed
  qed
qed

lemma deny_cases:
  assumes "inv s" "denyGrant now i a store s = (x, s')"
  shows "(\<exists>e. x = Inl e) \<and> s' = s \<or>
    (\<exists>g g'. st_findById store i s = Some g \<and> gr_status g = Pending \<and> x = Inr (Some g') \<and> gr_status g' = Denied \<and>
       inv s' \<and> changed_one (st_findById store) i g' s s')"
proof (cases "\<exists>g. st_findById store i s = Some g \<and> gr_status g = Pending")
  case True
  then obtain g where g: "st_findById store i s = Some g" "gr_status g = Pending" by blast
  obtain g' s2 where "denyGrant now i a store s = (Inr (Some g'), s2)" "inv s2" "gr_status g' = Denied"
    "\<And>j. st_findById store j s2 = (if j = i then Some g' else st_findById store j s)"
    using deny_ok [OF assms(1) g] by blast
  with assms(2) g show ?thesis by (auto simp: changed_one_def)
next
  case False
  with assms(2) show ?thesis by (auto simp: denyGrant_def split: option.splits if_splits)
qed

lemma revoke_cases:
  assumes "inv s" "revokeGrant i store s = (x, s')"
  shows "(\<exists>e. x = Inl e) \<and> s' = s \<or>
    (\<exists>g g'. st_findById store i s = Some g \<and> gr_status g \<in> {Pending, Approved} \<and> x = Inr (Some g') \<and>
       gr_status g' = Revoked \<and> gr_request g' = gr_request g \<and> inv s' \<and> changed_one (st_findById store) i g' s s')"
proof (cases "\<exists>g. st_findById store i s = Some g \<and> gr_status g \<in> {Pending, Approved}")
  case True
  then obtain g where g: "st_findById store i s = Some g" "gr_status g \<in> {Pending, Approved}" by blast
  obtain g' s2 where "revokeGrant i store s = (Inr (Some g'), s2)" "inv s2" "gr_status g' = Revoked" "gr_request g' = gr_request g"
    "\<And>j. st_findById store j s2 = (if j = i then Some g' else st_findById store j s)"
    using revoke_ok [OF assms(1) g] by blast
  with assms(2) g show ?thesis by (auto simp: changed_one_def)
next
  case False
  with assms(2) show ?thesis by (auto simp: revokeGrant_def split: option.splits if_splits)
qed

lemma introspect_cases:
  assumes "inv s" "introspectGrant now i store s = (x, s')"
  shows "x = Inr None \<and> s' = s \<and> st_findById store i s = None \<or>
    (\<exists>g g'. st_findById store i s = Some g \<and> x = Inr (Some g') \<and>
       g' = (if isGrantExpired g now then apply_patch g Expired no_patch else g) \<and>
       inv s' \<and> changed_one (st_findById store) i g' s s')"
proof (cases "st_findById store i s")
  case (Some g)
  obtain g' s2 where "introspectGrant now i store s = (Inr (Some g'), s2)" "inv s2"
    "g' = (if isGrantExpired g now then apply_patch g Expired no_patch else g)"
    "\<And>j. st_findById store j s2 = (if j = i then Some g' else st_findById store j s)"
    using introspect_ok [OF assms(1) Some] by blast
  with assms(2) Some show ?thesis by (auto simp: changed_one_def)
qed (use assms(2) in \<open>simp add: introspect_missing\<close>)

text \<open>Revoking a list of grants: on success each was revocable once and is revoked now.\<close>

lemma revoke_all_ok:
  "inv s \<Longrightarrow> revoke_all store ids s = (Inr u, s') \<Longrightarrow> inv s' \<and>
    (\<forall>i\<in>set ids. \<exists>g g'. st_findById store i s = Some g \<and> gr_status g \<in> {Pending, Approved} \<and>
       st_findById store i s' = Some g' \<and> gr_status g' = Revoked \<and> gr_request g' = gr_request g) \<and>
    (\<forall>j. j \<notin> set ids \<longrightarrow> st_findById store j s' = st_findById store j s)"
proof (induction ids arbitrary: s)
  case (Cons i ids)
  obtain x s1 where r: "revokeGrant i store s = (x, s1)" by fastforce
  then obtain y where y: "x = Inr y" using Cons.prems(2) by (cases x) simp_all
  then obtain g g' where g: "st_findById store i s = Some g" "gr_status g \<in> {Pending, Approved}" "gr_status g' = Revoked"
      "gr_request g' = gr_request g" "inv s1" "changed_one (st_findById store) i g' s s1"
    using revoke_cases [OF Cons.prems(1) r] by blast
  have rest: "revoke_all store ids s1 = (Inr u, s')" using Cons.prems(2) r y by simp
  note IH = Cons.IH [OF g(5) rest]
  have ni: "i \<notin> set ids"
  proof
    assume "i \<in> set ids"
    then obtain h where "st_findById store i s1 = Some h" "gr_status h \<in> {Pending, Approved}" using IH by blast
    with g(3,6) show False by (auto simp: changed_one_def)
  qed
  have same: "st_findById store j s1 = st_findById store j s" if "j \<noteq> i" for j using g(6) that by (simp add: changed_one_def)
  have i': "st_findById store i s' = Some g'" using IH ni g(6) by (simp add: changed_one_def)
  show ?case
  proof (intro conjI ballI allI impI)
    show "inv s'" using IH by blast
    fix j assume "j \<in> set (i # ids)"
    then show "\<exists>g g'. st_findById store j s = Some g \<and> gr_status g \<in> {Pending, Approved} \<and>
       st_findById store j s' = Some g' \<and> gr_status g' = Revoked \<and> gr_request g' = gr_request g"
      using g(1-4) i' IH same ni by (cases "j = i") auto
  next
    fix j assume "j \<notin> set (i # ids)"
    then show "st_findById store j s' = st_findById store j s" using IH same by simp
  qed
qed simp

end

section \<open>Extension and widening\<close>

definition old_ok :: "grant \<Rightarrow> grant \<Rightarrow> bool" where
  "old_ok pending old \<longleftrightarrow> gr_status old = Approved \<and>
     rq_target_host (gr_request old) = rq_target_host (gr_request pending) \<and>
     rq_audience (gr_request old) = rq_audience (gr_request pending) \<and>
     sameShapeTier (tier_of (rq_execution_context (gr_request old))) (tier_of (rq_execution_context (gr_request pending)))"

lemma list_all2_member: "list_all2 P xs ys \<Longrightarrow> x \<in> set xs \<Longrightarrow> \<exists>y. y \<in> set ys \<and> P x y"
  by (induction rule: list_all2_induct) auto

lemma collect_old_ok:
  "collect_old store pending ids s = Inr olds \<Longrightarrow>
     list_all2 (\<lambda>i old. st_findById store i s = Some old \<and> old_ok pending old) ids olds"
  by (induction ids arbitrary: olds) (auto simp: old_ok_def split: option.splits if_splits sum.splits)

lemma widen_all_ok:
  "widen_all coll n ws os = Inr ds \<Longrightarrow> length ws = length os \<Longrightarrow>
     list_all2 (\<lambda>d (w, o'). cliAuthorizationDetailCovers coll w o' \<and> cd_cli_id d = cd_cli_id o' \<and> cd_action d = cd_action o' \<and>
       cd_operation_id d = cd_operation_id o' \<and> cd_type d = cd_type o' \<and> cd_type w = ''openape_cli'' \<and>
       cd_cli_id w = cd_cli_id o' \<and> cd_action w = cd_action o' \<and>
       cd_resource_chain d = cd_resource_chain w \<and> cd_permission d = canonical coll d) ds (zip ws os)"
proof (induction coll n ws os arbitrary: ds rule: widen_all.induct)
  case (1 coll idx w ws o' os)
  obtain d where d: "widen_checked coll idx w o' = Inr d" using 1(2) by (auto split: sum.splits)
  obtain ds' where ds: "widen_all coll (idx + 1) ws os = Inr ds'" "ds = d # ds'" using 1(2) d by (auto split: sum.splits)
  show ?case using 1(1) [OF d ds(1)] 1(3) d ds(2)
    by (auto simp: widen_checked_def Let_def split: if_splits)
qed auto

definition mergeable :: "cli_detail \<Rightarrow> bool" where
  "mergeable d \<longleftrightarrow> CHR ''.'' \<notin> set (cd_cli_id d) \<and> chain_wf (cd_resource_chain d) \<and>
     chain_plain (cd_resource_chain d) \<and> chain_self_matching (cd_resource_chain d)"

lemma grant_details_type: "d \<in> set (grant_details g) \<Longrightarrow> cd_type d = ''openape_cli''"
  unfolding grant_details_def by (rule cliDetails_type)

lemma merge_covers_mergeable:
  assumes "\<forall>d\<in>set (concat sets). cd_type d = ''openape_cli'' \<and> mergeable d" "d \<in> set (concat sets)"
  shows "\<exists>m\<in>set (mergeCliAuthorizationDetails coll sets). cliAuthorizationDetailCovers coll m d"
  using merge_covers_sets [of sets coll] assms by (auto simp: mergeable_def)

lemma merged_types: "d \<in> set (mergeCliAuthorizationDetails coll sets) \<Longrightarrow> \<forall>x\<in>set (concat sets). cd_type x = ''openape_cli'' \<Longrightarrow>
    cd_type d = ''openape_cli''"
  unfolding merge_eq using set_keep_first [of "canonical coll" "concat sets"] by auto

lemma cliDetails_all: "\<forall>d\<in>set ds. cd_type d = ''openape_cli'' \<Longrightarrow> cliDetails (Some (map CliDetail ds)) = ds"
  by (induction ds) simp_all

lemma approved_details [simp]: "grant_details (approved_grant now a overrides g) = grant_details g"
  by (simp add: grant_details_def approved_grant_def approval_patch_def)

lemma approved_status [simp]: "gr_status (approved_grant now a overrides g) = Approved"
  by (simp add: approved_grant_def)

context grant_store_laws
begin

lemma extension_ok:
  assumes "inv s" "approveGrantWithExtension coll now i a store mode ids overrides s = (Inr r, s')"
  obtains pending olds g where "st_findById store i s = Some pending" "gr_status pending = Pending" "r = Some g"
    "st_findById store i s' = Some g" "gr_status g = Approved"
    "list_all2 (\<lambda>j old. st_findById store j s = Some old \<and> old_ok pending old) ids olds"
    "\<forall>j\<in>set ids. \<exists>g'. st_findById store j s' = Some g' \<and> gr_status g' = Revoked"
    "\<forall>j. j \<notin> set ids \<and> j \<noteq> i \<longrightarrow> st_findById store j s' = st_findById store j s"
    "rq_authorization_details (gr_request g) = Some (map CliDetail (extended_details coll mode pending olds))"
proof -
  obtain pending where p: "st_findById store i s = Some pending" "gr_status pending = Pending"
      "\<not> truthy_str (rq_reference (gr_request pending))"
    using assms(2) by (auto simp: approveGrantWithExtension_def split: option.splits if_splits)
  have notwide: "\<not> (truthy_str (rq_reference (gr_request pending)) \<or> has_single_use (gr_request pending))"
    using assms(2) p(1,2) by (auto simp: approveGrantWithExtension_def)
  obtain olds where o': "collect_old store pending ids s = Inr olds"
    using assms(2) p(1,2) notwide by (cases "collect_old store pending ids s") (simp_all add: approveGrantWithExtension_def)
  let ?req = "extended_request coll mode (gr_request pending) (extended_details coll mode pending olds)"
  let ?patch = "no_patch\<lparr>p_request := Some ?req\<rparr>"
  let ?ov = "no_overrides\<lparr>ao_grant_type := ao_grant_type overrides, ao_duration := ao_duration overrides\<rparr>"
  obtain s1 where u: "st_updateStatus store i Pending ?patch s = (Inr (), s1)" "inv s1"
      "\<forall>j. st_findById store j s1 = (if j = i then Some (apply_patch pending Pending ?patch) else st_findById store j s)"
    using update_law [OF assms(1) p(1) binding_kept_unreferenced [OF p(3)]] by blast
  obtain y s2 where ra: "revoke_all store (map gr_id olds) s1 = (y, s2)" by fastforce
  have step: "(case y of Inl e \<Rightarrow> (Inl e, s2) | Inr _ \<Rightarrow> approveGrant now i a store ?ov s2) = (Inr r, s')"
    using assms(2) p(1,2) notwide o' u(1) ra by (cases y) (simp_all add: approveGrantWithExtension_def)
  then obtain v where y: "y = Inr v" by (cases y) simp_all
  have ap: "approveGrant now i a store ?ov s2 = (Inr r, s')" using step y by simp
  note rall = revoke_all_ok [OF u(2) ra [unfolded y]]
  have olds: "list_all2 (\<lambda>j old. st_findById store j s = Some old \<and> old_ok pending old) ids olds"
    by (rule collect_old_ok [OF o'])
  then have oldids: "map gr_id olds = ids"
    by (induction rule: list_all2_induct) (use id_law [OF assms(1)] in auto)
  have inot: "i \<notin> set ids"
  proof
    assume "i \<in> set ids"
    then obtain old where "st_findById store i s = Some old" "old_ok pending old"
      using list_all2_member [OF olds] by blast
    with p show False by (simp add: old_ok_def)
  qed
  obtain g0 where ap2: "st_findById store i s2 = Some g0" "r = Some (approved_grant now a ?ov g0)" "inv s'"
      "changed_one (st_findById store) i (approved_grant now a ?ov g0) s2 s'"
    using approve_cases [OF _ ap] rall by blast
  have g0: "g0 = apply_patch pending Pending ?patch" using ap2(1) rall inot u(3) by (simp add: oldids)
  show thesis
  proof (rule that [OF p(1,2) ap2(2) _ approved_status olds])
    show "st_findById store i s' = Some (approved_grant now a ?ov g0)" using ap2(4) by (simp add: changed_one_def)
    show "\<forall>j\<in>set ids. \<exists>g'. st_findById store j s' = Some g' \<and> gr_status g' = Revoked"
      using rall ap2(4) inot unfolding oldids changed_one_def by metis
    show "\<forall>j. j \<notin> set ids \<and> j \<noteq> i \<longrightarrow> st_findById store j s' = st_findById store j s"
      using rall ap2(4) u(3) unfolding oldids changed_one_def by metis
    show "rq_authorization_details (gr_request (approved_grant now a ?ov g0)) = Some (map CliDetail (extended_details coll mode pending olds))"
      by (simp add: approved_grant_def approval_patch_def g0 extended_request_def)
  qed
qed

lemma widening_ok:
  assumes "inv s" "approveGrantWithWidening coll now i a store widened overrides s = (Inr r, s')"
  obtains pending g ds where "st_findById store i s = Some pending" "gr_status pending = Pending" "r = Some g"
    "st_findById store i s' = Some g" "gr_status g = Approved" "length widened = length (grant_details pending)"
    "widen_all coll 0 widened (grant_details pending) = Inr ds"
    "rq_authorization_details (gr_request g) = Some (map CliDetail ds)" "rq_permissions (gr_request g) = Some (map cd_permission ds)"
    "\<forall>j. j \<noteq> i \<longrightarrow> st_findById store j s' = st_findById store j s"
proof -
  obtain pending where p: "st_findById store i s = Some pending" "gr_status pending = Pending"
      "\<not> (truthy_str (rq_reference (gr_request pending)) \<or> has_single_use (gr_request pending))"
    using assms(2) by (auto simp: approveGrantWithWidening_def split: option.splits if_splits)
  have len: "grant_details pending \<noteq> []" "length widened = length (grant_details pending)"
    using assms(2) p by (simp_all add: approveGrantWithWidening_def Let_def split: if_splits)
  obtain ds where ds: "widen_all coll 0 widened (grant_details pending) = Inr ds"
    using assms(2) p len by (cases "widen_all coll 0 widened (grant_details pending)") (simp_all add: approveGrantWithWidening_def Let_def)
  let ?req = "(gr_request pending)\<lparr>rq_authorization_details := Some (map CliDetail ds),
      rq_permissions := Some (map cd_permission ds), rq_command := None, rq_cmd_hash := None\<rparr>"
  let ?patch = "no_patch\<lparr>p_request := Some ?req\<rparr>"
  let ?ov = "no_overrides\<lparr>ao_grant_type := ao_grant_type overrides, ao_duration := ao_duration overrides\<rparr>"
  have unref: "\<not> truthy_str (rq_reference (gr_request pending))" using p(3) by blast
  obtain s1 where u: "st_updateStatus store i Pending ?patch s = (Inr (), s1)" "inv s1"
      "\<forall>j. st_findById store j s1 = (if j = i then Some (apply_patch pending Pending ?patch) else st_findById store j s)"
    using update_law [OF assms(1) p(1) binding_kept_unreferenced [OF unref]] by blast
  have ap: "approveGrant now i a store ?ov s1 = (Inr r, s')"
    using assms(2) p len ds u(1) by (simp add: approveGrantWithWidening_def Let_def)
  obtain g0 where ap2: "st_findById store i s1 = Some g0" "r = Some (approved_grant now a ?ov g0)"
      "changed_one (st_findById store) i (approved_grant now a ?ov g0) s1 s'"
    using approve_cases [OF u(2) ap] by blast
  have g0: "g0 = apply_patch pending Pending ?patch" using ap2(1) u(3) by simp
  show thesis
  proof (rule that [OF p(1,2) ap2(2) _ approved_status len(2) ds])
    show "st_findById store i s' = Some (approved_grant now a ?ov g0)" using ap2(3) by (simp add: changed_one_def)
    show "rq_authorization_details (gr_request (approved_grant now a ?ov g0)) = Some (map CliDetail ds)"
      by (simp add: approved_grant_def approval_patch_def g0)
    show "rq_permissions (gr_request (approved_grant now a ?ov g0)) = Some (map cd_permission ds)"
      by (simp add: approved_grant_def approval_patch_def g0)
    show "\<forall>j. j \<noteq> i \<longrightarrow> st_findById store j s' = st_findById store j s"
      using ap2(3) u(3) by (simp add: changed_one_def)
  qed
qed

end

text \<open>The grant an approval stores, field by field.\<close>

lemma kept_duration: "(if effective_duration overrides r \<noteq> None then effective_duration overrides r else rq_duration r) = effective_duration overrides r"
  by (cases "ao_duration overrides") (simp_all add: effective_duration_def)

lemma approved_grant_eq:
  assumes "approvable overrides g"
  shows "approved_grant now a overrides g = g\<lparr>gr_status := Approved, gr_decided_by := Some a, gr_decided_at := Some now,
     gr_request := (gr_request g)\<lparr>rq_grant_type := Some (effective_type overrides (gr_request g)), rq_duration := effective_duration overrides (gr_request g)\<rparr>,
     gr_expires_at := (if effective_type overrides (gr_request g) = Timed then map_option (\<lambda>d. now + d) (effective_duration overrides (gr_request g))
       else gr_expires_at g)\<rparr>"
proof (cases "effective_type overrides (gr_request g) = Timed")
  case True
  then have "truthy_num (effective_duration overrides (gr_request g))" using assms by (simp add: approvable_def)
  then show ?thesis using True
    by (cases "effective_duration overrides (gr_request g)") (simp_all add: approved_grant_def approval_patch_def apply_patch_def)
next
  case False
  then show ?thesis unfolding approved_grant_def approval_patch_def kept_duration by (simp add: apply_patch_def)
qed

section \<open>Properties\<close>

text \<open>
  C6. Approving either changes nothing and throws, which it does only when the grant is missing, not approvable
  or would lose its reference binding, or approves exactly the grant asked for: it was pending, and what is stored and returned is that grant
  with the approver, the time, the effective type and duration in its request and, when it is timed, an expiry after that non-zero duration; a referenced
  or single-use request stays single-use, and every other grant is untouched.
\<close>

theorem approve_all_branches:
  assumes "mem_inv s" "approveGrant now i a InMemoryGrantStore overrides s = (x, s')"
  shows "((\<exists>e. x = Inl e) \<and> s' = s \<and> \<not> (\<exists>g. mem_findById i s = Some g \<and> approvable overrides g \<and> binding_kept g (approval_patch now a (gr_request g) (effective_type overrides (gr_request g)) (effective_duration overrides (gr_request g))))) \<or>
    (\<exists>g g'. x = Inr (Some g') \<and> mem_findById i s = Some g \<and> mem_findById i s' = Some g' \<and> mem_inv s' \<and>
       gr_status g = Pending \<and> gr_status g' = Approved \<and> gr_decided_by g' = Some a \<and> gr_decided_at g' = Some now \<and>
       rq_grant_type (gr_request g') = Some (effective_type overrides (gr_request g)) \<and>
       rq_duration (gr_request g') = effective_duration overrides (gr_request g) \<and>
       g' = g\<lparr>gr_status := Approved, gr_decided_by := Some a, gr_decided_at := Some now,
         gr_request := (gr_request g)\<lparr>rq_grant_type := Some (effective_type overrides (gr_request g)), rq_duration := effective_duration overrides (gr_request g)\<rparr>,
         gr_expires_at := (if effective_type overrides (gr_request g) = Timed then map_option (\<lambda>d. now + d) (effective_duration overrides (gr_request g))
           else gr_expires_at g)\<rparr> \<and>
       (truthy_str (rq_reference (gr_request g)) \<or> has_single_use (gr_request g) \<longrightarrow> rq_grant_type (gr_request g') = Some Once) \<and>
       (rq_grant_type (gr_request g') = Some Timed \<longrightarrow> (\<exists>d. d \<noteq> 0 \<and>
          effective_duration overrides (gr_request g) = Some d \<and> gr_expires_at g' = Some (now + d))) \<and>
       (\<forall>j. j \<noteq> i \<longrightarrow> mem_findById j s' = mem_findById j s))"
proof (cases "(\<exists>e. x = Inl e) \<and> s' = s \<and> \<not> (\<exists>g. mem_findById i s = Some g \<and> approvable overrides g \<and> binding_kept g (approval_patch now a (gr_request g) (effective_type overrides (gr_request g)) (effective_duration overrides (gr_request g))))")
  case False
  then obtain g where g: "mem_findById i s = Some g" "approvable overrides g"
    "x = Inr (Some (approved_grant now a overrides g))" "mem_inv s'"
    "changed_one mem_findById i (approved_grant now a overrides g) s s'"
    using mem.approve_cases [OF assms] by auto
  let ?t = "effective_type overrides (gr_request g)"
  let ?d = "effective_duration overrides (gr_request g)"
  have parts: "gr_decided_by (approved_grant now a overrides g) = Some a" "gr_decided_at (approved_grant now a overrides g) = Some now"
    "rq_grant_type (gr_request (approved_grant now a overrides g)) = Some ?t"
    by (simp_all add: approved_grant_def approval_patch_def apply_patch_def)
  note stored = approved_grant_eq [OF g(2), of now a]
  have "\<exists>d. d \<noteq> 0 \<and> ?d = Some d \<and> gr_expires_at (approved_grant now a overrides g) = Some (now + d)" if "?t = Timed"
  proof -
    have "truthy_num ?d" using g(2) that by (simp add: approvable_def)
    then obtain d where "?d = Some d" "d \<noteq> 0" by (cases ?d) simp_all
    with that show ?thesis by (simp add: approved_grant_def approval_patch_def apply_patch_def)
  qed
  then have timed: "rq_grant_type (gr_request (approved_grant now a overrides g)) = Some Timed \<longrightarrow>
      (\<exists>d. d \<noteq> 0 \<and> ?d = Some d \<and> gr_expires_at (approved_grant now a overrides g) = Some (now + d))" using parts(3) by simp
  have dur: "rq_duration (gr_request (approved_grant now a overrides g)) = ?d" by (simp add: stored)
  have once: "truthy_str (rq_reference (gr_request g)) \<or> has_single_use (gr_request g) \<longrightarrow>
      rq_grant_type (gr_request (approved_grant now a overrides g)) = Some Once" using g(2) parts(3) by (simp add: approvable_def)
  have rest: "mem_findById i s' = Some (approved_grant now a overrides g)" "\<forall>j. j \<noteq> i \<longrightarrow> mem_findById j s' = mem_findById j s"
      "gr_status g = Pending"
    using g(2,5) by (simp_all add: changed_one_def approvable_def)
  show ?thesis
    by (rule disjI2, rule exI [of _ g], rule exI [of _ "approved_grant now a overrides g"], intro conjI)
      (rule g rest approved_status parts dur once timed stored)+
qed simp

definition pending_store :: "grant_type option \<Rightarrow> int option \<Rightarrow> mem_store" where
  "pending_store ty dur = put_grant ''g'' (new_grant ''g'' None
     ((plain_request ''bot'' ''host'' ''apes'')\<lparr>rq_grant_type := ty, rq_duration := dur\<rparr>) Pending 1) empty_mem"

lemma pending_store_inv: "mem_inv (pending_store ty dur)"
  unfolding pending_store_def by (rule mem_inv_put) simp_all

theorem approve_all_branches_witness:
  "\<exists>g' s'. approveGrant 10 ''g'' ''me'' InMemoryGrantStore no_overrides (pending_store (Some Timed) (Some 60)) = (Inr (Some g'), s') \<and>
     gr_status g' = Approved \<and> gr_expires_at g' = Some 70"
proof -
  let ?s = "pending_store (Some Timed) (Some 60)"
  let ?r = "approveGrant 10 ''g'' ''me'' InMemoryGrantStore no_overrides ?s"
  have f: "mem_findById ''g'' ?s = Some (new_grant ''g'' None
     ((plain_request ''bot'' ''host'' ''apes'')\<lparr>rq_grant_type := Some Timed, rq_duration := Some 60\<rparr>) Pending 1)"
    by (simp add: pending_store_def)
  have r: "\<exists>y. fst ?r = Inr y"
    by (simp add: approveGrant_def f plain_request_def no_overrides_def has_single_use_def mem_updateStatus_def Let_def)
  have "?r = (fst ?r, snd ?r)" by simp
  from approve_all_branches [OF pending_store_inv this] r obtain g g' where g': "fst ?r = Inr (Some g')" "mem_findById ''g'' ?s = Some g"
    "gr_status g' = Approved" "rq_grant_type (gr_request g') = Some (effective_type no_overrides (gr_request g))"
    "rq_grant_type (gr_request g') = Some Timed \<longrightarrow> (\<exists>d. d \<noteq> 0 \<and>
          effective_duration no_overrides (gr_request g) = Some d \<and> gr_expires_at g' = Some (10 + d))"
    by auto
  have e: "effective_type no_overrides (gr_request g) = Timed" "effective_duration no_overrides (gr_request g) = Some 60"
  proof -
    have g: "g = new_grant ''g'' None ((plain_request ''bot'' ''host'' ''apes'')\<lparr>rq_grant_type := Some Timed, rq_duration := Some 60\<rparr>) Pending 1"
      using g'(2) f by (metis option.inject)
    show "effective_type no_overrides (gr_request g) = Timed" "effective_duration no_overrides (gr_request g) = Some 60"
      unfolding g by (simp_all add: effective_type_def effective_duration_def no_overrides_def plain_request_def)
  qed
  then have "gr_expires_at g' = Some 70" using g'(4,5) by simp
  with g'(1,3) \<open>?r = (fst ?r, snd ?r)\<close> show ?thesis by metis
qed

text \<open>
  Extending supersedes: when an approval with extension succeeds, the pending grant is approved with the
  extended details, every named old grant was approved for the same host, audience and shape tier and is
  revoked now, no other grant changed, and every detail of the pending grant (merging: of the old grants
  too) is covered by the new ones, delimiter-free details assumed.
\<close>

theorem extension_supersedes:
  assumes "mem_inv s"
    and "approveGrantWithExtension coll now i a InMemoryGrantStore mode ids overrides s = (Inr r, s')"
  shows "\<exists>pending olds g. mem_findById i s = Some pending \<and> r = Some g \<and> mem_findById i s' = Some g \<and>
    gr_status g = Approved \<and>
    list_all2 (\<lambda>j old. mem_findById j s = Some old \<and> gr_status old = Approved \<and>
       rq_audience (gr_request old) = rq_audience (gr_request pending) \<and>
       rq_target_host (gr_request old) = rq_target_host (gr_request pending)) ids olds \<and>
    (\<forall>j\<in>set ids. \<exists>g'. mem_findById j s' = Some g' \<and> gr_status g' = Revoked) \<and>
    (\<forall>j. j \<notin> set ids \<and> j \<noteq> i \<longrightarrow> mem_findById j s' = mem_findById j s) \<and>
    ((\<forall>d\<in>set (grant_details pending) \<union> (\<Union>old\<in>set olds. set (grant_details old)). mergeable d) \<and> mode = Merge \<longrightarrow>
       (\<forall>d\<in>set (grant_details pending) \<union> (\<Union>old\<in>set olds. set (grant_details old)).
          \<exists>m\<in>set (grant_details g). cliAuthorizationDetailCovers coll m d))"
proof -
  obtain pending olds g where e: "mem_findById i s = Some pending" "gr_status pending = Pending" "r = Some g"
    "mem_findById i s' = Some g" "gr_status g = Approved"
    "list_all2 (\<lambda>j old. mem_findById j s = Some old \<and> old_ok pending old) ids olds"
    "\<forall>j\<in>set ids. \<exists>g'. mem_findById j s' = Some g' \<and> gr_status g' = Revoked"
    "\<forall>j. j \<notin> set ids \<and> j \<noteq> i \<longrightarrow> mem_findById j s' = mem_findById j s"
    "rq_authorization_details (gr_request g) = Some (map CliDetail (extended_details coll mode pending olds))"
    using mem.extension_ok [OF assms] unfolding mem_store_simps by blast
  have cover: "\<exists>m\<in>set (grant_details g). cliAuthorizationDetailCovers coll m d"
    if m: "\<forall>d\<in>set (grant_details pending) \<union> (\<Union>old\<in>set olds. set (grant_details old)). mergeable d" "mode = Merge"
      and d: "d \<in> set (grant_details pending) \<union> (\<Union>old\<in>set olds. set (grant_details old))" for d
  proof -
    let ?sets = "grant_details pending # map grant_details olds"
    have all: "\<forall>d\<in>set (concat ?sets). cd_type d = ''openape_cli'' \<and> mergeable d"
      using m(1) grant_details_type by auto
    have "\<forall>x\<in>set (extended_details coll mode pending olds). cd_type x = ''openape_cli''"
      using merged_types [of _ coll ?sets] all m(2) by (auto simp: extended_details_def Let_def)
    then have "grant_details g = mergeCliAuthorizationDetails coll ?sets"
      using m(2) e(9) by (simp add: grant_details_def cliDetails_all extended_details_def Let_def)
    moreover have "d \<in> set (concat ?sets)" using d by auto
    ultimately show ?thesis using merge_covers_mergeable [OF all] by simp
  qed
  have olds: "list_all2 (\<lambda>j old. mem_findById j s = Some old \<and> gr_status old = Approved \<and>
       rq_audience (gr_request old) = rq_audience (gr_request pending) \<and>
       rq_target_host (gr_request old) = rq_target_host (gr_request pending)) ids olds"
    by (rule list_all2_mono [OF e(6)]) (simp add: old_ok_def)
  show ?thesis
    using cover by (intro exI [of _ pending] exI [of _ olds] exI [of _ g] conjI e(1,3,4,5,7,8) olds) blast
qed

definition extend_store :: mem_store where
  "extend_store = put_grant ''new'' (new_grant ''new'' None (path_request ''/a'') Pending 2)
     (put_grant ''old'' (new_grant ''old'' None (path_request ''/b'') Approved 1) empty_mem)"

lemma extend_store_inv: "mem_inv extend_store"
  unfolding extend_store_def by (intro mem_inv_put mem_inv_empty) simp_all

lemma extend_store_find [simp]:
  "mem_findById ''new'' extend_store = Some (new_grant ''new'' None (path_request ''/a'') Pending 2)"
  "mem_findById ''old'' extend_store = Some (new_grant ''old'' None (path_request ''/b'') Approved 1)"
  by (simp_all add: extend_store_def)

lemma path_request_simps [simp]:
  "rq_reference (path_request p) = None" "rq_execution_context (path_request p) = None" "rq_duration (path_request p) = None"
  "rq_target_host (path_request p) = ''host''" "rq_audience (path_request p) = ''shapes''" "rq_grant_type (path_request p) = Some Always"
  "rq_authorization_details (path_request p) = Some [CliDetail (simple_detail ''cat'' [ref ''file'' [(''path'', p)]] ''read'')]"
  by (simp_all add: path_request_def plain_request_def)

lemma path_grant_details [simp]:
  "grant_details (new_grant i c (path_request p) st t) = [simple_detail ''cat'' [ref ''file'' [(''path'', p)]] ''read'']"
  by (simp add: grant_details_def)

lemmas extension_eval = approveGrantWithExtension_def has_single_use_def single_use_detail_def
  tier_of_def no_tier_def sameShapeTier_def mem_updateStatus_def no_patch_def extended_request_def revokeGrant_def
  approveGrant_def no_overrides_def Let_def

theorem extension_supersedes_witness:
  "\<exists>r s'. approveGrantWithExtension (\<le>) 9 ''new'' ''me'' InMemoryGrantStore Merge [''old''] no_overrides extend_store = (Inr r, s') \<and>
     (\<exists>g'. mem_findById ''old'' s' = Some g' \<and> gr_status g' = Revoked)"
proof -
  let ?e = "approveGrantWithExtension (\<le>) 9 ''new'' ''me'' InMemoryGrantStore Merge [''old''] no_overrides extend_store"
  have "\<exists>y. fst ?e = Inr y" by (simp add: extension_eval extended_details_def merge_eq canonical_eval)
  then obtain r s' where e: "?e = (Inr r, s')" by (metis prod.collapse)
  from extension_supersedes [OF extend_store_inv e] e show ?thesis by auto
qed

text \<open>
  The extension is not atomic: when the final approval is refused (here a timed approval without a
  duration), the old grant has already been revoked and the pending grant rewritten, although the operation
  throws.
\<close>

theorem extension_failure_revokes:
  "\<exists>s'. approveGrantWithExtension (\<le>) 9 ''new'' ''me'' InMemoryGrantStore Merge [''old'']
       (no_overrides\<lparr>ao_grant_type := Some Timed\<rparr>) extend_store = (Inl DurationRequired, s') \<and>
     map_option gr_status (mem_findById ''old'' extend_store) = Some Approved \<and>
     map_option gr_status (mem_findById ''old'' s') = Some Revoked"
  by (simp add: extension_eval extended_details_def merge_eq canonical_eval)

text \<open>
  An approver can only widen: when an approval with widened details succeeds, the stored details match the
  original ones one by one in type, program, action and operation, each covers its original, and each carries the
  canonical permission of its own resources, so no permission string can be forged.
\<close>

theorem widening_only_widens:
  assumes "mem_inv s" "mem_findById i s = Some pending"
    and "\<forall>d\<in>set (grant_details pending) \<union> set widened. chain_wf (cd_resource_chain d)"
    and "approveGrantWithWidening coll now i a InMemoryGrantStore widened overrides s = (Inr r, s')"
  shows "\<exists>g. r = Some g \<and> mem_findById i s' = Some g \<and> gr_status g = Approved \<and>
    rq_permissions (gr_request g) = Some (map cd_permission (grant_details g)) \<and>
    list_all2 (\<lambda>d original. cliAuthorizationDetailCovers coll d original \<and> cd_cli_id d = cd_cli_id original \<and>
      cd_action d = cd_action original \<and> cd_operation_id d = cd_operation_id original \<and>
      cd_permission d = canonical coll d) (grant_details g) (grant_details pending)"
proof -
  obtain g ds where w: "r = Some g" "mem_findById i s' = Some g" "gr_status g = Approved"
    "length widened = length (grant_details pending)" "widen_all coll 0 widened (grant_details pending) = Inr ds"
    "rq_authorization_details (gr_request g) = Some (map CliDetail ds)" "rq_permissions (gr_request g) = Some (map cd_permission ds)"
    using mem.widening_ok [OF assms(1,4)] assms(2) unfolding mem_store_simps by (metis option.inject)
  note ok = widen_all_ok [OF w(5,4)]
  have len: "length ds = length (grant_details pending)" using list_all2_lengthD [OF ok] w(4) by simp
  have each: "cliAuthorizationDetailCovers coll (ds ! k) (grant_details pending ! k) \<and> cd_cli_id (ds ! k) = cd_cli_id (grant_details pending ! k) \<and>
      cd_action (ds ! k) = cd_action (grant_details pending ! k) \<and> cd_operation_id (ds ! k) = cd_operation_id (grant_details pending ! k) \<and>
      cd_permission (ds ! k) = canonical coll (ds ! k) \<and> cd_type (ds ! k) = ''openape_cli''"
    if k: "k < length ds" for k
  proof -
    let ?w = "widened ! k" and ?o = "grant_details pending ! k"
    have o': "?o \<in> set (grant_details pending)" and w': "?w \<in> set widened" using k len w(4) by simp_all
    have zk: "zip widened (grant_details pending) ! k = (?w, ?o)" using k len w(4) by simp
    have p: "cliAuthorizationDetailCovers coll ?w ?o" "cd_cli_id (ds ! k) = cd_cli_id ?o" "cd_action (ds ! k) = cd_action ?o"
      "cd_operation_id (ds ! k) = cd_operation_id ?o" "cd_type (ds ! k) = cd_type ?o" "cd_type ?w = ''openape_cli''"
      "cd_cli_id ?w = cd_cli_id ?o" "cd_action ?w = cd_action ?o" "cd_resource_chain (ds ! k) = cd_resource_chain ?w"
      "cd_permission (ds ! k) = canonical coll (ds ! k)"
      using list_all2_nthD [OF ok k] unfolding zk by simp_all
    have ty: "cd_type ?o = ''openape_cli''" by (rule grant_details_type [OF o'])
    have wf: "chain_wf (cd_resource_chain ?w)" "chain_wf (cd_resource_chain ?o)" using assms(3) o' w' by blast+
    have "covers_spec ?w ?o" using p(1) covers_iff_spec [OF wf] by simp
    then have "covers_spec (ds ! k) ?o" unfolding covers_spec_def using p ty by simp
    then have "cliAuthorizationDetailCovers coll (ds ! k) ?o" using covers_iff_spec [of "ds ! k" ?o] wf p(9) by simp
    with p ty show ?thesis by simp
  qed
  have "\<forall>d\<in>set ds. cd_type d = ''openape_cli''" using each by (metis in_set_conv_nth)
  then have gd: "grant_details g = ds" by (simp add: grant_details_def w(6) cliDetails_all)
  have "list_all2 (\<lambda>d original. cliAuthorizationDetailCovers coll d original \<and> cd_cli_id d = cd_cli_id original \<and>
      cd_action d = cd_action original \<and> cd_operation_id d = cd_operation_id original \<and>
      cd_permission d = canonical coll d) (grant_details g) (grant_details pending)"
    unfolding gd list_all2_conv_all_nth using len each by simp
  with w(1-3,7) gd show ?thesis by simp
qed

theorem widening_only_widens_witness:
  "\<exists>r s'. approveGrantWithWidening (\<le>) 9 ''new'' ''me'' InMemoryGrantStore
      [(simple_detail ''cat'' [ref ''file'' [(''path'', ''/*'')]] ''read'')] no_overrides extend_store = (Inr r, s') \<and>
     (\<exists>g. r = Some g \<and> rq_permissions (gr_request g) = Some (map cd_permission (grant_details g)))"
proof -
  let ?w = "[simple_detail ''cat'' [ref ''file'' [(''path'', ''/*'')]] ''read'']"
  let ?e = "approveGrantWithWidening (\<le>) 9 ''new'' ''me'' InMemoryGrantStore ?w no_overrides extend_store"
  have c: "widen_checked (\<le>) 0 (hd ?w) (simple_detail ''cat'' [ref ''file'' [(''path'', ''/a'')]] ''read'') =
      Inr ((hd ?w)\<lparr>cd_permission := ''cat.file[path=/*]#read''\<rparr>)"
    by (simp add: widen_checked_def simple_detail_def resourceChainsStructurallyMatch_def covers_eval ref_def)
  have "\<exists>y. fst ?e = Inr y"
    using c by (simp add: approveGrantWithWidening_def extension_eval)
  then obtain r s' where e: "?e = (Inr r, s')" by (metis prod.collapse)
  from widening_only_widens [OF extend_store_inv extend_store_find(1) _ e] e show ?thesis by auto
qed

text \<open>
  Introspection never reports a timed grant past its expiry as approved: it answers nothing for an unknown id
  and otherwise the grant, flipped to expired (in the store too) exactly when it had outlived its time.
\<close>

theorem introspect_expires:
  assumes "mem_inv s" "introspectGrant now i InMemoryGrantStore s = (x, s')"
  shows "(x = Inr None \<and> s' = s \<and> mem_findById i s = None) \<or>
    (\<exists>g g'. x = Inr (Some g') \<and> mem_findById i s = Some g \<and> mem_findById i s' = Some g' \<and> \<not> isGrantExpired g' now \<and>
       gr_request g' = gr_request g \<and> gr_status g' = (if isGrantExpired g now then Expired else gr_status g) \<and>
       (\<forall>j. j \<noteq> i \<longrightarrow> mem_findById j s' = mem_findById j s))"
proof (cases "x = Inr None \<and> s' = s \<and> mem_findById i s = None")
  case False
  then obtain g g' where g: "mem_findById i s = Some g" "x = Inr (Some g')"
    "g' = (if isGrantExpired g now then apply_patch g Expired no_patch else g)" "changed_one mem_findById i g' s s'"
    using mem.introspect_cases [OF assms] by auto
  have "\<not> isGrantExpired g' now" "gr_request g' = gr_request g" "gr_status g' = (if isGrantExpired g now then Expired else gr_status g)"
    using g(3) expired_patch_not_expired by (auto simp: no_patch_def)
  with g show ?thesis by (intro disjI2 exI [of _ g] exI [of _ g']) (simp add: changed_one_def)
qed simp

theorem introspect_expires_witness:
  "\<exists>x s'. introspectGrant 5 ''nope'' InMemoryGrantStore empty_mem = (x, s') \<and> x = Inr None"
  using introspect_expires [OF mem_inv_empty, of 5 "''nope''" "Inr None" empty_mem]
  by (simp add: introspectGrant_def mem_findById_def empty_mem_def)

text \<open>
  A delegation is accepted only for its delegate and audience: a successful validation returns an
  approved, unexpired delegation grant of the store that names the delegate, and the audience or \<open>*\<close>.
\<close>

theorem delegation_valid:
  assumes "mem_inv s" "validateDelegation now i delegate audience InMemoryGrantStore s = (Inr g, s')"
  shows "mem_findById i s' = Some g \<and> mem_findById i s = Some g \<and> gr_category g = Some DelegationGrant \<and>
    gr_status g = Approved \<and> \<not> isGrantExpired g now \<and> rq_delegate (gr_request g) = Some delegate \<and>
    rq_audience (gr_request g) \<in> {''*'', audience}"
proof -
  obtain x s1 where i: "introspectGrant now i InMemoryGrantStore s = (x, s1)" by fastforce
  then obtain h where x: "x = Inr (Some h)"
    using assms(2) by (cases x) (auto simp: validateDelegation_def split: option.splits)
  obtain g0 where g0: "mem_findById i s = Some g0" "h = (if isGrantExpired g0 now then apply_patch g0 Expired no_patch else g0)"
    "changed_one mem_findById i h s s1"
    using mem.introspect_cases [OF assms(1) i] x by auto
  have v: "h = g" "s1 = s'" "gr_category g = Some DelegationGrant" "gr_status g = Approved"
    "rq_delegate (gr_request g) = Some delegate" "rq_audience (gr_request g) \<in> {''*'', audience}"
    using assms(2) i x by (auto simp: validateDelegation_def split: if_splits)
  have "\<not> isGrantExpired g0 now" using g0(2) v(1,4) by (auto split: if_splits)
  with g0 v show ?thesis by (simp add: changed_one_def)
qed

definition delegation_store :: mem_store where
  "delegation_store = put_grant ''d'' (new_grant ''d'' (Some DelegationGrant)
     ((plain_request ''o@x'' ''sp'' ''sp'')\<lparr>rq_grant_type := Some Always, rq_delegate := Some ''bot''\<rparr>) Approved 1) empty_mem"

theorem delegation_valid_witness:
  "\<exists>g s'. validateDelegation 5 ''d'' ''bot'' ''sp'' InMemoryGrantStore delegation_store = (Inr g, s') \<and> gr_status g = Approved"
proof -
  have inv: "mem_inv delegation_store" unfolding delegation_store_def by (intro mem_inv_put mem_inv_empty) simp
  obtain g s' where v: "validateDelegation 5 ''d'' ''bot'' ''sp'' InMemoryGrantStore delegation_store = (Inr g, s')"
    by (simp add: validateDelegation_def introspectGrant_def delegation_store_def isGrantExpired_def plain_request_def)
  with delegation_valid [OF inv v] show ?thesis by blast
qed

end
