(* ===== verification/GrantLifecycle.thy ===== *)
theory GrantLifecycle
  imports Grants
begin

text \<open>
  The life of a grant as a state machine over the operations of \<open>grants.ts\<close> on the in-memory store: one
  step is one successful operation, run without another in between, or a claim (the conditional second half of a use or of a token issue, whose check may have
  run at any earlier time). Reachability is the reflexive transitive closure of the steps, with the labels
  of a run kept as a list.
\<close>

datatype lc_event = Created string | Rewritten string | DecidedEvent string | RevokedEvent string
  | Introspected string | Spent string | WithdrawnEvent string

inductive lc_step :: "mem_store \<Rightarrow> lc_event \<Rightarrow> mem_store \<Rightarrow> bool" where
  create: "mem_findById i s = None \<Longrightarrow> createGrant now i request InMemoryGrantStore s = (Inr g, s') \<Longrightarrow>
     lc_step s (Created i) s'"
| rewrite: "mem_findById i s = Some g \<Longrightarrow> gr_status g = Pending \<Longrightarrow>
     mem_updateStatus i Pending (no_patch\<lparr>p_request := Some request\<rparr>) s = (Inr (), s') \<Longrightarrow> lc_step s (Rewritten i) s'"
| approve: "approveGrant now i a InMemoryGrantStore overrides s = (Inr r, s') \<Longrightarrow> lc_step s (DecidedEvent i) s'"
| deny: "denyGrant now i a InMemoryGrantStore s = (Inr r, s') \<Longrightarrow> lc_step s (DecidedEvent i) s'"
| revoke: "revokeGrant i InMemoryGrantStore s = (Inr r, s') \<Longrightarrow> lc_step s (RevokedEvent i) s'"
| introspect: "introspectGrant now i InMemoryGrantStore s = (Inr r, s') \<Longrightarrow> lc_step s (Introspected i) s'"
| claim: "mem_claimOnce i now s = (True, s') \<Longrightarrow> lc_step s (Spent i) s'"
| withdraw: "mem_withdraw i now reason s = (Some previous, s') \<Longrightarrow> lc_step s (WithdrawnEvent i) s'"

inductive lc_run :: "mem_store \<Rightarrow> lc_event list \<Rightarrow> mem_store \<Rightarrow> bool" where
  stop: "lc_run s [] s"
| step: "lc_step s e s' \<Longrightarrow> lc_run s' es s'' \<Longrightarrow> lc_run s (e # es) s''"

inductive_cases lc_step_cases: "lc_step s e s'"

text \<open>The edges of the status machine.\<close>

definition status_edges :: "(grant_status \<times> grant_status) set" where
  "status_edges = {(Pending, Pending), (Pending, Approved), (Pending, Denied), (Pending, Revoked), (Pending, Withdrawn),
     (Approved, Used), (Approved, Revoked), (Approved, Expired), (Approved, Withdrawn)}"

definition terminal :: "grant_status \<Rightarrow> bool" where
  "terminal st = (st \<in> {Denied, Revoked, Expired, Used, Withdrawn})"

text \<open>What a step does to each grant: nothing, or one edge.\<close>

definition edge_step :: "mem_store \<Rightarrow> mem_store \<Rightarrow> bool" where
  "edge_step s s' \<longleftrightarrow> (\<forall>i g. mem_findById i s = Some g \<longrightarrow>
     (\<exists>g'. mem_findById i s' = Some g' \<and> (gr_status g = gr_status g' \<or> (gr_status g, gr_status g') \<in> status_edges)))"

lemma edge_stepI:
  assumes "\<And>j. mem_findById j s' = (if j = i then Some g' else mem_findById j s)"
    and "\<And>g. mem_findById i s = Some g \<Longrightarrow> gr_status g = gr_status g' \<or> (gr_status g, gr_status g') \<in> status_edges"
  shows "edge_step s s'"
  unfolding edge_step_def
proof (intro allI impI)
  fix j g assume g: "mem_findById j s = Some g"
  show "\<exists>g'. mem_findById j s' = Some g' \<and> (gr_status g = gr_status g' \<or> (gr_status g, gr_status g') \<in> status_edges)"
  proof (cases "j = i")
    case True
    with g assms(2) have "gr_status g = gr_status g' \<or> (gr_status g, gr_status g') \<in> status_edges" by blast
    moreover have "mem_findById j s' = Some g'" using assms(1) True by simp
    ultimately show ?thesis by blast
  next
    case False
    then have "mem_findById j s' = Some g" using assms(1) g by simp
    then show ?thesis by blast
  qed
qed

lemma edge_step_refl: "edge_step s s"
  by (simp add: edge_step_def)

lemma edge_step_changed:
  assumes "changed_one mem_findById i g' s s'" "mem_findById i s = Some g"
    "gr_status g = gr_status g' \<or> (gr_status g, gr_status g') \<in> status_edges"
  shows "edge_step s s'"
  by (rule edge_stepI [where i = i and g' = g']) (use assms in \<open>auto simp: changed_one_def\<close>)

lemma mem_update_ok:
  assumes "mem_inv s" "mem_findById i s = Some g" "mem_updateStatus i st p s = (Inr (), s')"
  shows "s' = put_grant i (apply_patch g st p) s" "mem_inv s'"
proof -
  show "s' = put_grant i (apply_patch g st p) s"
    using assms(2,3) by (auto simp: mem_updateStatus_def split: if_splits sum.splits)
  moreover have "mem_inv (put_grant i (apply_patch g st p) s)"
    by (rule mem_inv_put [OF assms(1)]) (use mem_id [OF assms(1,2)] in simp)
  ultimately show "mem_inv s'" by simp
qed

lemma create_ok:
  assumes "mem_inv s" "mem_findById i s = None" "createGrant now i request InMemoryGrantStore s = (Inr g, s')"
  shows "mem_inv s' \<and> edge_step s s'"
proof (cases "s' = s")
  case True
  with assms(1) show ?thesis by (simp add: edge_step_refl)
next
  case False
  let ?g = "new_grant i None request Pending now"
  have "s' = put_grant i ?g s"
  proof (cases "rq_reference request = None")
    case True
    with assms(3) show ?thesis by (auto simp: createGrant_def mem_save_def Let_def split: sum.splits)
  next
    case ref: False
    obtain x s1 where c: "mem_createReferenced ?g s = (x, s1)" by fastforce
    obtain u where "assertGrantReferenceRequest request = Inr u"
      using assms(3) ref by (cases "assertGrantReferenceRequest request") (simp_all add: createGrant_def Let_def)
    then have o': "(case x of Inl e \<Rightarrow> (Inl e, s1) | Inr (g', _) \<Rightarrow> (Inr g', s1)) = (Inr g, s')"
      using assms(3) ref c by (cases x) (auto simp: createGrant_def Let_def split: prod.splits)
    then obtain h b where x: "x = Inr (h, b)" "s1 = s'" by (cases x) auto
    with mem_createReferenced_new [OF c [unfolded x(1)]] False show ?thesis by (cases b) simp_all
  qed
  then show ?thesis
    using mem_inv_put [OF assms(1), of ?g i] assms(2)
    by (auto intro!: edge_stepI [where i = i and g' = ?g])
qed

lemma lc_step_sound:
  assumes "mem_inv s" "lc_step s e s'"
  shows "mem_inv s' \<and> edge_step s s'"
  using assms(2)
proof cases
  case (create i now request g)
  then show ?thesis using create_ok [OF assms(1)] by blast
next
  case (rewrite i g request)
  note m = mem_update_ok [OF assms(1) rewrite(2,4)]
  have "changed_one mem_findById i (apply_patch g Pending (no_patch\<lparr>p_request := Some request\<rparr>)) s s'"
    by (simp add: m(1) changed_one_def)
  then show ?thesis using m(2) edge_step_changed rewrite(2,3) by (metis apply_patch_simps(2))
next
  case (approve now i a overrides r)
  then obtain g where "mem_findById i s = Some g" "approvable overrides g" "mem_inv s'"
    "changed_one mem_findById i (approved_grant now a overrides g) s s'"
    using mem.approve_cases [OF assms(1), of now i a overrides "Inr r" s'] by auto
  then show ?thesis using edge_step_changed by (auto simp: approvable_def status_edges_def)
next
  case (deny now i a r)
  then obtain g g' where "mem_findById i s = Some g" "gr_status g = Pending" "gr_status g' = Denied" "mem_inv s'"
    "changed_one mem_findById i g' s s'"
    using mem.deny_cases [OF assms(1), of now i a "Inr r" s'] by auto
  then show ?thesis using edge_step_changed by (auto simp: status_edges_def)
next
  case (revoke i r)
  then obtain g g' where "mem_findById i s = Some g" "gr_status g \<in> {Pending, Approved}" "gr_status g' = Revoked" "mem_inv s'"
    "changed_one mem_findById i g' s s'"
    using mem.revoke_cases [OF assms(1), of i "Inr r" s'] by auto
  then show ?thesis using edge_step_changed [of i g' s s' g] by (auto simp: status_edges_def)
next
  case (introspect now i r)
  show ?thesis
  proof (cases "s' = s")
    case False
    then obtain g g' where "mem_findById i s = Some g" "mem_inv s'" "changed_one mem_findById i g' s s'"
      "g' = (if isGrantExpired g now then apply_patch g Expired no_patch else g)"
      using mem.introspect_cases [OF assms(1), of now i "Inr r" s'] introspect by auto
    then show ?thesis using edge_step_changed [of i g' s s' g]
      by (cases "isGrantExpired g now") (auto simp: status_edges_def isGrantExpired_def)
  qed (use assms(1) edge_step_refl in simp)
next
  case (claim i now)
  then obtain g where g: "mem_findById i s = Some g" "gr_status g = Approved"
    "s' = put_grant i (g\<lparr>gr_status := Used, gr_used_at := Some now\<rparr>) s"
    by (auto simp: mem_claimOnce_def split: option.splits if_splits)
  have "mem_inv s'" unfolding g(3) by (rule mem_inv_put [OF assms(1)]) (use mem_id [OF assms(1) g(1)] in simp)
  moreover have "edge_step s s'"
    by (rule edge_stepI [where i = i and g' = "g\<lparr>gr_status := Used, gr_used_at := Some now\<rparr>"])
      (use g in \<open>auto simp: status_edges_def\<close>)
  ultimately show ?thesis by simp
next
  case (withdraw i now reason previous)
  then obtain g g' where g: "mem_findById i s = Some g" "withdrawable g" "s' = put_grant i g' s" "gr_status g' = Withdrawn" "gr_id g' = gr_id g"
    by (auto simp: mem_withdraw_def split: option.splits if_splits)
  have "mem_inv s'" unfolding g(3) by (rule mem_inv_put [OF assms(1)]) (use mem_id [OF assms(1) g(1)] g(5) in simp)
  moreover have "edge_step s s'"
    by (rule edge_stepI [where i = i and g' = g']) (use g in \<open>auto simp: status_edges_def withdrawable_def\<close>)
  ultimately show ?thesis by simp
qed

lemma lc_run_inv: "lc_run s es s' \<Longrightarrow> mem_inv s \<Longrightarrow> mem_inv s'"
  by (induction rule: lc_run.induct) (auto dest: lc_step_sound)

lemma terminal_step:
  assumes "mem_inv s" "lc_step s e s'" "mem_findById i s = Some g" "terminal (gr_status g)"
  shows "\<exists>g'. mem_findById i s' = Some g' \<and> gr_status g' = gr_status g"
proof -
  obtain g' where "mem_findById i s' = Some g'" "gr_status g = gr_status g' \<or> (gr_status g, gr_status g') \<in> status_edges"
    using lc_step_sound [OF assms(1,2)] assms(3) unfolding edge_step_def by blast
  with assms(4) show ?thesis by (auto simp: terminal_def status_edges_def)
qed

lemma terminal_run:
  "lc_run s es s' \<Longrightarrow> mem_inv s \<Longrightarrow> mem_findById i s = Some g \<Longrightarrow> terminal (gr_status g) \<Longrightarrow>
     \<exists>g'. mem_findById i s' = Some g' \<and> gr_status g' = gr_status g"
proof (induction arbitrary: g rule: lc_run.induct)
  case (step s e s' es s'')
  obtain g1 where g1: "mem_findById i s' = Some g1" "gr_status g1 = gr_status g"
    using terminal_step [OF step.prems(1) step.hyps(1) step.prems(2,3)] by blast
  have "mem_inv s'" using lc_step_sound [OF step.prems(1) step.hyps(1)] by blast
  from step.IH [OF this g1(1)] g1(2) step.prems(3) show ?case by simp
qed simp

lemma spent_step:
  assumes "lc_step s (Spent i) s'"
  shows "\<exists>g. mem_findById i s = Some g \<and> gr_status g = Approved"
    "\<exists>g'. mem_findById i s' = Some g' \<and> gr_status g' = Used"
proof -
  obtain now where "mem_claimOnce i now s = (True, s')" using assms by (rule lc_step_cases) simp_all
  then show "\<exists>g. mem_findById i s = Some g \<and> gr_status g = Approved"
    "\<exists>g'. mem_findById i s' = Some g' \<and> gr_status g' = Used"
    by (auto simp: mem_claimOnce_def split: option.splits if_splits)
qed

lemma spent_none_after:
  "lc_run s es s' \<Longrightarrow> mem_inv s \<Longrightarrow> mem_findById i s = Some g \<Longrightarrow> terminal (gr_status g) \<Longrightarrow> Spent i \<notin> set es"
proof (induction arbitrary: g rule: lc_run.induct)
  case (step s e s' es s'')
  obtain g1 where g1: "mem_findById i s' = Some g1" "gr_status g1 = gr_status g"
    using terminal_step [OF step.prems(1) step.hyps(1) step.prems(2,3)] by blast
  have "mem_inv s'" using lc_step_sound [OF step.prems(1) step.hyps(1)] by blast
  from step.IH [OF this g1(1)] g1(2) step.prems(3) have "Spent i \<notin> set es" by simp
  moreover have "e \<noteq> Spent i"
  proof
    assume "e = Spent i"
    with step.hyps(1) have "lc_step s (Spent i) s'" by simp
    from spent_step(1) [OF this] step.prems(2,3) show False by (auto simp: terminal_def)
  qed
  ultimately show ?case by simp
qed simp

lemma spent_once:
  "lc_run s es s' \<Longrightarrow> mem_inv s \<Longrightarrow> count_list es (Spent i) \<le> 1"
proof (induction rule: lc_run.induct)
  case (step s e s' es s'')
  have inv: "mem_inv s'" using lc_step_sound [OF step.prems step.hyps(1)] by blast
  show ?case
  proof (cases "e = Spent i")
    case True
    then obtain g' where "mem_findById i s' = Some g'" "gr_status g' = Used" using spent_step(2) step.hyps(1) by blast
    then have "Spent i \<notin> set es" using spent_none_after [OF step.hyps(2) inv] by (simp add: terminal_def)
    then have "count_list es (Spent i) = 0" by (simp add: count_list_0_iff)
    with True show ?thesis by simp
  next
    case False
    with step.IH [OF inv] show ?thesis by simp
  qed
qed simp

section \<open>Properties\<close>

text \<open>
  C4. A decided grant stays decided: along every run of operations from a well-formed store, a grant that is
  denied, revoked, expired, used or withdrawn keeps that status.
\<close>

theorem terminal_status_absorbing:
  assumes "mem_inv s" "lc_run s es s'" "mem_findById i s = Some g" "terminal (gr_status g)"
  shows "\<exists>g'. mem_findById i s' = Some g' \<and> gr_status g' = gr_status g"
  using terminal_run [OF assms(2,1,3,4)] .

definition denied_store :: mem_store where
  "denied_store = put_grant ''d'' (new_grant ''d'' None (plain_request ''b'' ''h'' ''a'') Denied 1) (pending_store (Some Once) None)"

theorem terminal_status_absorbing_witness:
  "\<exists>s'. lc_run denied_store [DecidedEvent ''g''] s' \<and> (\<exists>g'. mem_findById ''d'' s' = Some g' \<and> gr_status g' = Denied)"
proof -
  have inv: "mem_inv denied_store" unfolding denied_store_def by (rule mem_inv_put [OF pending_store_inv]) simp
  have f: "mem_findById ''d'' denied_store = Some (new_grant ''d'' None (plain_request ''b'' ''h'' ''a'') Denied 1)"
    by (simp add: denied_store_def)
  have "\<exists>y. fst (denyGrant 5 ''g'' ''me'' InMemoryGrantStore denied_store) = Inr y"
    by (simp add: denyGrant_def denied_store_def pending_store_def mem_updateStatus_def no_patch_def plain_request_def)
  then obtain r s' where "denyGrant 5 ''g'' ''me'' InMemoryGrantStore denied_store = (Inr r, s')" by (metis prod.collapse)
  then have run: "lc_run denied_store [DecidedEvent ''g''] s'" by (blast intro: lc_run.intros lc_step.deny)
  from terminal_status_absorbing [OF inv run f] run show ?thesis by (auto simp: terminal_def)
qed

text \<open>
  C2. A grant is spent at most once: in every run, however checks and claims of concurrent uses interleave
  with approvals, withdrawals and revocations, at most one claim of a grant succeeds.
\<close>

theorem spent_at_most_once:
  assumes "mem_inv s" "lc_run s es s'"
  shows "count_list es (Spent i) \<le> 1"
  by (rule spent_once [OF assms(2,1)])

definition approved_store :: mem_store where
  "approved_store = put_grant ''g'' (new_grant ''g'' None ((plain_request ''b'' ''h'' ''a'')\<lparr>rq_grant_type := Some Once\<rparr>) Approved 1) empty_mem"

theorem spent_at_most_once_witness:
  "\<exists>s'. lc_run approved_store [Spent ''g''] s' \<and> count_list [Spent ''g''] (Spent ''g'') \<le> 1 \<and> mem_claimOnce ''g'' 6 s' = (False, s')"
proof -
  have inv: "mem_inv approved_store" unfolding approved_store_def by (rule mem_inv_put [OF mem_inv_empty]) simp
  obtain s' where c: "mem_claimOnce ''g'' 5 approved_store = (True, s')" and f: "mem_claimOnce ''g'' 6 s' = (False, s')"
    by (simp add: mem_claimOnce_def approved_store_def)
  then have run: "lc_run approved_store [Spent ''g''] s'" by (blast intro: lc_run.intros lc_step.claim)
  from spent_at_most_once [OF inv run] run f show ?thesis by blast
qed

text \<open>
  Using a grant is sound and spends it: a successful use had an approved, unexpired grant, and when that
  grant is single-use it is marked used, so every later use of it in any run fails.
\<close>

theorem use_once_spends:
  assumes "mem_inv s" "useGrant now i InMemoryGrantStore s = (Inr r, s')" "lc_run s' es s''"
    and "mem_findById i s = Some g" "rq_grant_type (gr_request g) = Some Once"
  shows "gr_status g = Approved \<and> \<not> isGrantExpired g now \<and> (\<exists>e s3. useGrant later i InMemoryGrantStore s'' = (Inl e, s3))"
proof -
  obtain h where h: "mem_findById i s = Some h" "gr_status h = Approved" "\<not> isGrantExpired h now" "mem_inv s'"
    "\<And>j. mem_findById j s' = (if j = i then Some (if rq_grant_type (gr_request h) = Some Once
        then h\<lparr>gr_status := Used, gr_used_at := Some now\<rparr> else h) else mem_findById j s)"
    using mem.use_ok [OF assms(1) _ assms(2)] unfolding mem_store_simps by blast
  have "h = g" using h(1) assms(4) by simp
  then have "mem_findById i s' = Some (g\<lparr>gr_status := Used, gr_used_at := Some now\<rparr>)" using h(5) assms(5) by simp
  then obtain g2 where g2: "mem_findById i s'' = Some g2" "gr_status g2 = Used"
    using terminal_run [OF assms(3) h(4)] by (fastforce simp: terminal_def)
  obtain x s3 where u: "useGrant later i InMemoryGrantStore s'' = (x, s3)" by fastforce
  have "\<exists>e. x = Inl e"
  proof (cases x)
    case (Inr y)
    obtain h2 where "mem_findById i s'' = Some h2" "gr_status h2 = Approved"
      using mem.use_ok [OF lc_run_inv [OF assms(3) h(4)] _ u [unfolded Inr]] unfolding mem_store_simps by blast
    with g2 show ?thesis by simp
  qed simp
  with h \<open>h = g\<close> u show ?thesis by blast
qed

theorem use_once_spends_witness:
  "\<exists>r s'. useGrant 5 ''g'' InMemoryGrantStore approved_store = (Inr r, s') \<and>
     (\<exists>e s3. useGrant 6 ''g'' InMemoryGrantStore s' = (Inl e, s3))"
proof -
  have inv: "mem_inv approved_store" unfolding approved_store_def by (rule mem_inv_put [OF mem_inv_empty]) simp
  let ?g = "new_grant ''g'' None ((plain_request ''b'' ''h'' ''a'')\<lparr>rq_grant_type := Some Once\<rparr>) Approved 1"
  have f: "mem_findById ''g'' approved_store = Some ?g" by (simp add: approved_store_def)
  obtain r s' where u: "useGrant 5 ''g'' InMemoryGrantStore approved_store = (Inr r, s')"
    by (simp add: useGrant_def introspectGrant_def f isGrantExpired_def mem_claimOnce_def plain_request_def)
  from use_once_spends [OF inv u lc_run.stop f] u show ?thesis by (auto simp: plain_request_def)
qed
end
