(* ===== verification/AuthzTokens.thy ===== *)
theory AuthzTokens
  imports GrantLifecycle
begin

text \<open>
  \<open>packages/grants/src/authz-jwt.ts\<close>: the claims of the tokens issued for a grant, and of the command
  tokens bound to one program call. Signing and verifying are calls of the \<open>jose\<close> library and not part of
  the model: a token is its claims. \<open>now\<close> is the time in seconds and \<open>jti\<close> the random token id.
\<close>

section \<open>Broker authority\<close>

text \<open>\<open>brokeredGrantAuthority\<close> drops the requester name.\<close>

definition brokeredGrantAuthority :: "brokered_grant \<Rightarrow> brokered_grant" where
  "brokeredGrantAuthority b = b\<lparr>bg_requester_name := None\<rparr>"

definition sameBrokeredGrant :: "brokered_grant option \<Rightarrow> brokered_grant option \<Rightarrow> bool" where
  "sameBrokeredGrant left right = (case (left, right) of
     (Some l, Some r) \<Rightarrow> bg_connection_id l = bg_connection_id r \<and> bg_broker_issuer l = bg_broker_issuer r \<and>
        bg_agent_issuer l = bg_agent_issuer r \<and> bg_owner l = bg_owner r \<and> bg_key_id l = bg_key_id r
   | (None, None) \<Rightarrow> True
   | _ \<Rightarrow> False)"

lemma sameBrokeredGrant_iff:
  "sameBrokeredGrant a b \<longleftrightarrow> map_option brokeredGrantAuthority a = map_option brokeredGrantAuthority b"
proof -
  have "brokeredGrantAuthority x = brokeredGrantAuthority y \<longleftrightarrow> bg_connection_id x = bg_connection_id y \<and>
      bg_broker_issuer x = bg_broker_issuer y \<and> bg_agent_issuer x = bg_agent_issuer y \<and> bg_owner x = bg_owner y \<and>
      bg_key_id x = bg_key_id y" for x y
    by (cases x; cases y) (simp add: brokeredGrantAuthority_def)
  then show ?thesis by (simp add: sameBrokeredGrant_def split: option.split)
qed

section \<open>Claims\<close>

record authz_claims =
  ac_brokered :: "brokered_grant option"
  ac_iss :: string
  ac_sub :: string
  ac_aud :: string
  ac_target_host :: string
  ac_iat :: int
  ac_exp :: int
  ac_jti :: string
  ac_grant_id :: string
  ac_grant_type :: grant_type
  ac_approval :: "grant_type option"
  ac_permissions :: "string list option"
  ac_authorization_details :: "auth_detail list option"
  ac_scope :: "string list option"
  ac_delegate :: "string option"
  ac_cmd_hash :: "string option"
  ac_command :: "string list option"
  ac_execution_context :: "exec_context option"
  ac_decided_by :: "string option"
  ac_run_as :: "string option"
  ac_argv_hash :: "string option"
  ac_program_sha256 :: "string option"

definition if_truthy :: "string option \<Rightarrow> string option" where
  "if_truthy x = (if truthy_str x then x else None)"

definition base_claims :: "int \<Rightarrow> int \<Rightarrow> string \<Rightarrow> string \<Rightarrow> grant \<Rightarrow> authz_claims" where
  "base_claims now exp jti issuer g = (let r = gr_request g; t = nullish (rq_grant_type r) Once in
     \<lparr>ac_brokered = map_option brokeredGrantAuthority (gr_brokered g), ac_iss = issuer, ac_sub = rq_requester r,
      ac_aud = rq_audience r, ac_target_host = rq_target_host r, ac_iat = now, ac_exp = exp, ac_jti = jti,
      ac_grant_id = gr_id g, ac_grant_type = t, ac_approval = Some t, ac_permissions = None,
      ac_authorization_details = None, ac_scope = None, ac_delegate = None, ac_cmd_hash = None, ac_command = None,
      ac_execution_context = None, ac_decided_by = if_truthy (gr_decided_by g), ac_run_as = if_truthy (rq_run_as r),
      ac_argv_hash = None, ac_program_sha256 = None\<rparr>)"

definition issueAuthzJWT :: "int \<Rightarrow> string \<Rightarrow> string \<Rightarrow> grant \<Rightarrow> authz_claims outcome" where
  "issueAuthzJWT now jti issuer g = (if gr_status g \<noteq> Approved then Inl (NotApproved (gr_status g))
     else case (case nullish (rq_grant_type (gr_request g)) Once of
         Once \<Rightarrow> Inr (now + 300)
       | Timed \<Rightarrow> (if \<not> truthy_num (gr_expires_at g) then Inl (StoreError ''Timed grant missing expires_at'')
                   else Inr (the (gr_expires_at g)))
       | Always \<Rightarrow> Inr (now + 3600)) of
       Inl e \<Rightarrow> Inl e
     | Inr exp \<Rightarrow> if exp \<le> now then Inl (StoreError ''Grant has already expired'')
         else let r = gr_request g in Inr ((base_claims now exp jti issuer g)\<lparr>
           ac_permissions := rq_permissions r, ac_authorization_details := rq_authorization_details r,
           ac_scope := rq_scopes r, ac_delegate := if_truthy (rq_delegate r), ac_cmd_hash := if_truthy (rq_cmd_hash r),
           ac_command := rq_command r, ac_execution_context := rq_execution_context r\<rparr>))"

definition COMMAND_TOKEN_LIFETIME_SECONDS :: int where
  "COMMAND_TOKEN_LIFETIME_SECONDS = 300"

record command_call =
  cc_argvHash :: string
  cc_programSha256 :: string
  cc_detail :: cli_detail
  cc_executionContext :: exec_context

definition issueCommandJWT :: "int \<Rightarrow> string \<Rightarrow> string \<Rightarrow> command_call \<Rightarrow> grant \<Rightarrow> (authz_claims \<times> int) outcome" where
  "issueCommandJWT now jti issuer call g = (if gr_status g \<noteq> Approved then Inl (NotApproved (gr_status g))
     else let exp = (case gr_expires_at g of None \<Rightarrow> now + COMMAND_TOKEN_LIFETIME_SECONDS
         | Some e \<Rightarrow> min (now + COMMAND_TOKEN_LIFETIME_SECONDS) e) in
       if exp \<le> now then Inl (StoreError ''Grant has already expired'')
       else Inr ((base_claims now exp jti issuer g)\<lparr>ac_permissions := Some [cd_permission (cc_detail call)],
         ac_authorization_details := Some [CliDetail (cc_detail call)], ac_command := ec_argv (cc_executionContext call),
         ac_execution_context := Some (cc_executionContext call), ac_argv_hash := Some (cc_argvHash call),
         ac_program_sha256 := Some (cc_programSha256 call)\<rparr>, exp))"

text \<open>The claims have a \<open>jti\<close>, so the \<open>typeof claims.jti === 'string'\<close> test holds of every value of the record.\<close>

definition spentByCommandToken :: "grant \<Rightarrow> authz_claims \<Rightarrow> bool" where
  "spentByCommandToken g c = (gr_status g = Used \<and> nullish (rq_grant_type (gr_request g)) Once = Once \<and>
     ac_grant_id c = gr_id g \<and> ac_sub c = rq_requester (gr_request g) \<and> ac_argv_hash c \<noteq> None \<and> ac_program_sha256 c \<noteq> None)"

lemma base_claims_simps [simp]:
  "ac_iss (base_claims now exp jti issuer g) = issuer" "ac_sub (base_claims now exp jti issuer g) = rq_requester (gr_request g)"
  "ac_aud (base_claims now exp jti issuer g) = rq_audience (gr_request g)"
  "ac_target_host (base_claims now exp jti issuer g) = rq_target_host (gr_request g)"
  "ac_iat (base_claims now exp jti issuer g) = now" "ac_exp (base_claims now exp jti issuer g) = exp"
  "ac_grant_id (base_claims now exp jti issuer g) = gr_id g" "ac_jti (base_claims now exp jti issuer g) = jti"
  "ac_grant_type (base_claims now exp jti issuer g) = nullish (rq_grant_type (gr_request g)) Once"
  "ac_brokered (base_claims now exp jti issuer g) = map_option brokeredGrantAuthority (gr_brokered g)"
  "ac_argv_hash (base_claims now exp jti issuer g) = None" "ac_program_sha256 (base_claims now exp jti issuer g) = None"
  by (simp_all add: base_claims_def Let_def)

lemma command_token_parts:
  assumes "issueCommandJWT now jti issuer call g = Inr (c, exp)"
  shows "gr_status g = Approved" "ac_exp c = exp" "now < exp" "exp \<le> now + 300" "\<And>e. gr_expires_at g = Some e \<Longrightarrow> exp \<le> e"
    "ac_grant_id c = gr_id g" "ac_sub c = rq_requester (gr_request g)" "ac_aud c = rq_audience (gr_request g)"
    "ac_target_host c = rq_target_host (gr_request g)" "ac_argv_hash c = Some (cc_argvHash call)"
    "ac_program_sha256 c = Some (cc_programSha256 call)" "ac_authorization_details c = Some [CliDetail (cc_detail call)]"
    "ac_jti c = jti" "ac_brokered c = map_option brokeredGrantAuthority (gr_brokered g)"
  using assms by (auto simp: issueCommandJWT_def Let_def COMMAND_TOKEN_LIFETIME_SECONDS_def split: if_splits option.splits)

lemma authz_token_parts:
  assumes "issueAuthzJWT now jti issuer g = Inr c"
  shows "gr_status g = Approved" "now < ac_exp c" "ac_iat c = now" "ac_grant_id c = gr_id g"
    "ac_sub c = rq_requester (gr_request g)" "ac_aud c = rq_audience (gr_request g)"
    "ac_target_host c = rq_target_host (gr_request g)" "ac_argv_hash c = None"
    "ac_authorization_details c = rq_authorization_details (gr_request g)"
    "ac_grant_type c = nullish (rq_grant_type (gr_request g)) Once"
    "ac_grant_type c = Once \<Longrightarrow> ac_exp c = now + 300" "ac_grant_type c = Always \<Longrightarrow> ac_exp c = now + 3600"
    "ac_grant_type c = Timed \<Longrightarrow> gr_expires_at g = Some (ac_exp c)"
  using assms by (auto simp: issueAuthzJWT_def Let_def truthy_num_def split: if_splits grant_type.splits sum.splits option.splits)

section \<open>Properties\<close>

text \<open>
  A token never outlives its grant's terms: a token is issued only for an approved grant, names that
  grant, its requester, audience and host, and ends after five minutes for a single-use grant, after an hour
  for a continuing one, and exactly with the grant for a timed one, which then had not expired.
\<close>

theorem authz_token_bound:
  assumes "issueAuthzJWT now jti issuer g = Inr c"
  shows "gr_status g = Approved \<and> ac_grant_id c = gr_id g \<and> ac_sub c = rq_requester (gr_request g) \<and>
    ac_aud c = rq_audience (gr_request g) \<and> ac_target_host c = rq_target_host (gr_request g) \<and> now < ac_exp c \<and>
    \<not> isGrantExpired g now \<and>
    (case nullish (rq_grant_type (gr_request g)) Once of Once \<Rightarrow> ac_exp c = now + 300
     | Timed \<Rightarrow> gr_expires_at g = Some (ac_exp c) | Always \<Rightarrow> ac_exp c = now + 3600)"
proof -
  note p = authz_token_parts [OF assms]
  have "\<not> isGrantExpired g now"
  proof
    assume e: "isGrantExpired g now"
    then have "ac_grant_type c = Timed" using p(10) by (simp add: isGrantExpired_def)
    from p(13) [OF this] e p(2) show False by (simp add: isGrantExpired_def)
  qed
  with p show ?thesis by (cases "nullish (rq_grant_type (gr_request g)) Once") simp_all
qed

definition timed_grant :: grant where
  "timed_grant = (new_grant ''g'' None ((plain_request ''bot'' ''host'' ''shapes'')\<lparr>rq_grant_type := Some Timed\<rparr>) Approved 1)\<lparr>
     gr_expires_at := Some 90\<rparr>"

theorem authz_token_bound_witness:
  "\<exists>c. issueAuthzJWT 5 ''j'' ''idp'' timed_grant = Inr c \<and> ac_exp c = 90 \<and> (\<exists>e. issueAuthzJWT 90 ''j'' ''idp'' timed_grant = Inl e)"
proof -
  obtain c where c: "issueAuthzJWT 5 ''j'' ''idp'' timed_grant = Inr c"
    by (simp add: issueAuthzJWT_def timed_grant_def plain_request_def new_grant_def Let_def)
  have "\<exists>e. issueAuthzJWT 90 ''j'' ''idp'' timed_grant = Inl e"
    by (simp add: issueAuthzJWT_def timed_grant_def plain_request_def new_grant_def)
  with authz_token_bound [OF c] c show ?thesis by (auto simp: timed_grant_def plain_request_def new_grant_def)
qed

lemma not_issued_again:
  assumes "gr_status g \<noteq> Approved"
  shows "issueCommandJWT now jti issuer call g = Inl (NotApproved (gr_status g))" "issueAuthzJWT now jti issuer g = Inl (NotApproved (gr_status g))"
  using assms by (simp_all add: issueCommandJWT_def issueAuthzJWT_def)

text \<open>
  C9. A command token is bound to one call and redeemed once: it lives at most five minutes and never beyond
  the grant, carries the call's argv hash and program hash and its single detail. Once the single-use grant
  it was issued for is claimed, it is recognised as one that spent it, while no ordinary token of the grant is; nobody
  claims the grant again and no token of either kind is issued for it any more; and after one redemption is
  recorded none is accepted again, of this token or of another.
\<close>

theorem command_token_redeemed_once:
  assumes "issueCommandJWT now jti issuer call g = Inr (c, exp)"
    and "nullish (rq_grant_type (gr_request g)) Once = Once"
    and "mem_findById (gr_id g) s = Some g" "mem_claimOnce (gr_id g) now s = (True, s1)"
    and "mem_markConsumed (gr_id g) (ac_jti c) s1 = (True, s2)"
  shows "now < exp \<and> exp \<le> now + 300 \<and> (\<forall>e. gr_expires_at g = Some e \<longrightarrow> exp \<le> e) \<and>
    ac_argv_hash c = Some (cc_argvHash call) \<and> ac_program_sha256 c = Some (cc_programSha256 call) \<and>
    ac_authorization_details c = Some [CliDetail (cc_detail call)] \<and>
    (\<exists>g'. mem_findById (gr_id g) s1 = Some g' \<and> spentByCommandToken g' c \<and>
       (\<forall>t j i c2. issueAuthzJWT t j i g = Inr c2 \<longrightarrow> \<not> spentByCommandToken g' c2) \<and>
       (\<forall>t j i call2. issueCommandJWT t j i call2 g' = Inl (NotApproved Used) \<and> issueAuthzJWT t j i g' = Inl (NotApproved Used))) \<and>
    (\<forall>t. mem_claimOnce (gr_id g) t s1 = (False, s1)) \<and>
    (\<forall>other. mem_markConsumed (gr_id g) other s2 = (False, s2))"
proof -
  note p = command_token_parts [OF assms(1)]
  let ?g = "g\<lparr>gr_status := Used, gr_used_at := Some now\<rparr>"
  have s1: "s1 = put_grant (gr_id g) ?g s"
    using assms(3,4) by (simp add: mem_claimOnce_def split: if_splits)
  then have f: "mem_findById (gr_id g) s1 = Some ?g" by simp
  have "spentByCommandToken ?g c" using p assms(2) by (simp add: spentByCommandToken_def)
  moreover have "\<not> spentByCommandToken ?g c2" if "issueAuthzJWT t j i g = Inr c2" for t j i c2
    using authz_token_parts(8) [OF that] by (simp add: spentByCommandToken_def)
  moreover have "issueCommandJWT t j i call2 ?g = Inl (NotApproved Used)" "issueAuthzJWT t j i ?g = Inl (NotApproved Used)" for t j i call2
    using not_issued_again [of ?g] by simp_all
  ultimately have spent: "\<exists>g'. mem_findById (gr_id g) s1 = Some g' \<and> spentByCommandToken g' c \<and>
       (\<forall>t j i c2. issueAuthzJWT t j i g = Inr c2 \<longrightarrow> \<not> spentByCommandToken g' c2) \<and>
       (\<forall>t j i call2. issueCommandJWT t j i call2 g' = Inl (NotApproved Used) \<and> issueAuthzJWT t j i g' = Inl (NotApproved Used))"
    using f by blast
  have "mem_claimOnce (gr_id g) t s1 = (False, s1)" for t using f by (simp add: mem_claimOnce_def)
  moreover have "mem_markConsumed (gr_id g) other s2 = (False, s2)" for other
    using assms(5) by (auto simp: mem_markConsumed_def split: if_splits)
  ultimately show ?thesis using p spent by auto
qed

definition example_call :: command_call where
  "example_call = \<lparr>cc_argvHash = ''h'', cc_programSha256 = ''p'', cc_detail = simple_detail ''ls'' [] ''read'',
     cc_executionContext = \<lparr>ec_files = None, ec_argv = Some [''ls''], ec_argv_hash = Some ''h'', ec_adapter_id = ''ls'',
       ec_adapter_version = ''server'', ec_adapter_digest = ''d'', ec_adapter_owner = None, ec_adapter_domain = None,
       ec_resolved_executable = ''ls'', ec_context_bindings = None, ec_program_sha256 = Some ''p'', ec_version_tested = None\<rparr>\<rparr>"

theorem command_token_redeemed_once_witness:
  "\<exists>c s1 s2. issueCommandJWT 5 ''j'' ''idp'' example_call (the (mem_findById ''g'' approved_store)) = Inr (c, 305) \<and>
     mem_claimOnce ''g'' 5 approved_store = (True, s1) \<and> mem_markConsumed ''g'' ''j'' s1 = (True, s2) \<and>
     mem_markConsumed ''g'' ''k'' s2 = (False, s2) \<and> mem_claimOnce ''g'' 6 s1 = (False, s1)"
proof -
  let ?g = "new_grant ''g'' None ((plain_request ''b'' ''h'' ''a'')\<lparr>rq_grant_type := Some Once\<rparr>) Approved 1"
  have f: "mem_findById (gr_id ?g) approved_store = Some ?g" by (simp add: approved_store_def)
  obtain c where c: "issueCommandJWT 5 ''j'' ''idp'' example_call ?g = Inr (c, 305)" "ac_jti c = ''j''"
    by (simp add: issueCommandJWT_def COMMAND_TOKEN_LIFETIME_SECONDS_def)
  obtain s1 where s1: "mem_claimOnce (gr_id ?g) 5 approved_store = (True, s1)"
    by (simp add: mem_claimOnce_def approved_store_def)
  obtain s2 where s2: "mem_markConsumed (gr_id ?g) (ac_jti c) s1 = (True, s2)"
    using s1 by (auto simp: mem_claimOnce_def mem_markConsumed_def approved_store_def put_grant_def empty_mem_def mem_findById_def)
  have once: "nullish (rq_grant_type (gr_request ?g)) Once = Once" by (simp add: plain_request_def)
  from command_token_redeemed_once [OF c(1) once f s1 s2] c s1 s2 f show ?thesis by (auto simp: plain_request_def)
qed

end
