(* ===== verification/GrantReuse.thy ===== *)
theory GrantReuse
  imports AuthzTokens CliValidation ShapeRegistry Similarity
begin

text \<open>
  \<open>modules/nuxt-auth-idp/src/runtime/server/utils/grant-reuse.ts\<close>: which stored grant already covers a
  request (\<open>POST /api/grants\<close>) or a program call the IdP resolved itself (\<open>POST /api/grants/authorize\<close>),
  and which request of the same call is the newest. Stored details are the typed ones of the model; a
  detail of another type covers nothing.
\<close>

section \<open>Comparing requests\<close>

definition coverable_details :: "grant_request \<Rightarrow> cli_detail list" where
  "coverable_details r = filter (\<lambda>d. isCoverableCliDetail (json_of_detail d))
     (concat (map (\<lambda>d. case d of CliDetail c \<Rightarrow> [c] | GrantDetail _ \<Rightarrow> []) (nullish (rq_authorization_details r) [])))"

text \<open>
  \<open>detailSignature\<close>; the members of a detail stand in the order of the declared type.
\<close>

definition sorted_selector :: "(string \<Rightarrow> string \<Rightarrow> bool) \<Rightarrow> resource_ref \<Rightarrow> resource_ref" where
  "sorted_selector coll r = r\<lparr>rr_selector := map_option (\<lambda>s.
     obj_from_entries (sort_by (\<lambda>a b. coll (fst a) (fst b)) (obj_entries s))) (rr_selector r)\<rparr>"

definition detailSignature :: "(string \<Rightarrow> string \<Rightarrow> bool) \<Rightarrow> auth_detail \<Rightarrow> string" where
  "detailSignature coll d = (case d of
     CliDetail c \<Rightarrow> (if isCoverableCliDetail (json_of_detail c)
       then json_stringify (js_auth_detail (CliDetail (c\<lparr>cd_permission := canonical coll c,
              cd_resource_chain := map (sorted_selector coll) (cd_resource_chain c)\<rparr>)))
       else json_stringify (js_auth_detail d))
   | GrantDetail _ \<Rightarrow> json_stringify (js_auth_detail d))"

definition hasExactStructuredDetail :: "grant_request \<Rightarrow> bool" where
  "hasExactStructuredDetail r = list_ex isCliAuthorizationDetailExact (coverable_details r)"

definition context_argv_hash :: "grant_request \<Rightarrow> string option" where
  "context_argv_hash r = (case rq_execution_context r of None \<Rightarrow> None | Some c \<Rightarrow> ec_argv_hash c)"

definition context_digest :: "grant_request \<Rightarrow> string option" where
  "context_digest r = map_option ec_adapter_digest (rq_execution_context r)"

definition personal_shape :: "grant_request \<Rightarrow> bool" where
  "personal_shape r = (let t = tier_of (rq_execution_context r) in truthy_str (tf_owner t) \<or> truthy_str (tf_domain t))"

text \<open>\<open>toSorted().join(',')\<close>, in the order of the code units.\<close>

definition joined :: "string list \<Rightarrow> string" where
  "joined xs = join '','' (sort_by (\<le>) xs)"

definition same_command :: "grant_request \<Rightarrow> grant_request \<Rightarrow> bool" where
  "same_command r q = (if (truthy_str (rq_cmd_hash q) \<or> truthy_str (rq_cmd_hash r)) \<and> rq_cmd_hash r \<noteq> rq_cmd_hash q
     then False else True)"

definition same_permissions :: "grant_request \<Rightarrow> grant_request \<Rightarrow> bool" where
  "same_permissions r q = (if rq_permissions q \<noteq> None \<or> rq_permissions r \<noteq> None
     then joined (nullish (rq_permissions q) []) = joined (nullish (rq_permissions r) []) else True)"

definition same_details :: "(string \<Rightarrow> string \<Rightarrow> bool) \<Rightarrow> grant_request \<Rightarrow> grant_request \<Rightarrow> bool" where
  "same_details coll r q = (if rq_authorization_details q \<noteq> None \<or> rq_authorization_details r \<noteq> None
     then joined (map (detailSignature coll) (nullish (rq_authorization_details q) [])) =
          joined (map (detailSignature coll) (nullish (rq_authorization_details r) [])) else True)"

definition not_expired :: "int \<Rightarrow> grant \<Rightarrow> bool" where
  "not_expired now g = (\<not> (truthy_num (gr_expires_at g) \<and> the (gr_expires_at g) \<le> now))"

definition reusable :: "(string \<Rightarrow> string \<Rightarrow> bool) \<Rightarrow> int \<Rightarrow> brokered_grant option \<Rightarrow> grant_request \<Rightarrow> grant \<Rightarrow> bool" where
  "reusable coll now brokered q g = (let r = gr_request g; incoming = coverable_details q; existing = coverable_details r in
     if gr_status g \<noteq> Approved then False
     else if personal_shape r then False
     else if nullish (rq_grant_type r) Once = Once then False
     else if \<not> not_expired now g then False
     else if \<not> sameBrokeredGrant (gr_brokered g) brokered then False
     else if rq_target_host r \<noteq> rq_target_host q then False
     else if rq_audience r \<noteq> rq_audience q then False
     else if rq_run_as r \<noteq> rq_run_as q then False
     else if rq_delegator q \<noteq> rq_delegator r then False
     else if rq_delegate q \<noteq> rq_delegate r then False
     else if incoming \<noteq> [] \<or> existing \<noteq> []
     then (if incoming = [] \<or> existing = [] then False
       else if context_digest r \<noteq> context_digest q then False
       else if \<not> cliAuthorizationDetailsCover coll existing incoming then False
       else if (hasExactStructuredDetail q \<or> hasExactStructuredDetail r) \<and> context_argv_hash r \<noteq> context_argv_hash q
       then False else True)
     else same_command r q \<and> same_permissions r q \<and> same_details coll r q)"

definition findReusableGrant ::
  "(string \<Rightarrow> string \<Rightarrow> bool) \<Rightarrow> int \<Rightarrow> grant list \<Rightarrow> grant_request \<Rightarrow> brokered_grant option \<Rightarrow> grant option" where
  "findReusableGrant coll now existing q brokered = List.find (reusable coll now brokered q) existing"

section \<open>Program calls\<close>

record call_scope =
  cs_target_host :: string
  cs_audience :: string
  cs_detail :: cli_detail
  cs_argvHash :: string
  cs_programSha256 :: string
  cs_requiresOnce :: bool
  cs_files :: "(string \<times> string) list option"
  cs_tier :: tier_facts

definition commandGrantFor :: "brokered_grant option \<Rightarrow> call_scope \<Rightarrow> grant \<Rightarrow> bool" where
  "commandGrantFor brokered call g = (let r = gr_request g in
     if nullish (gr_category g) CommandGrant \<noteq> CommandGrant then False
     else if \<not> sameBrokeredGrant (gr_brokered g) brokered then False
     else if rq_target_host r \<noteq> cs_target_host call \<or> rq_audience r \<noteq> cs_audience call then False
     else \<not> truthy_str (rq_run_as r) \<and> \<not> truthy_str (rq_delegator r) \<and> \<not> truthy_str (rq_delegate r))"

definition context_files :: "grant_request \<Rightarrow> (string \<times> string) list" where
  "context_files r = (case rq_execution_context r of None \<Rightarrow> [] | Some c \<Rightarrow> nullish (ec_files c) [])"

definition context_program :: "grant_request \<Rightarrow> string option" where
  "context_program r = (case rq_execution_context r of None \<Rightarrow> None | Some c \<Rightarrow> ec_program_sha256 c)"

text \<open>\<open>JSON.stringify\<close> of two lists of \<open>{ path, sha256 }\<close> is equal exactly when the lists are.\<close>

definition bindsCall :: "call_scope \<Rightarrow> grant \<Rightarrow> bool" where
  "bindsCall call g = (let r = gr_request g in
     if cs_requiresOnce call \<and> (nullish (rq_grant_type r) Once \<noteq> Once \<or> truthy_str (gr_auto_approval_kind g) \<or>
          truthy_str (gr_decided_by_standing_grant g)) then False
     else if context_files r \<noteq> nullish (cs_files call) [] then False
     else if cs_requiresOnce call \<and> context_argv_hash r \<noteq> Some (cs_argvHash call) then False
     else if (isCliAuthorizationDetailExact (cs_detail call) \<or> hasExactStructuredDetail r) \<and>
          context_argv_hash r \<noteq> Some (cs_argvHash call) then False
     else if cd_operation_id (cs_detail call) = GENERIC_OPERATION_ID \<and> truthy_str (context_program r) \<and>
          context_program r \<noteq> Some (cs_programSha256 call) then False
     else sameShapeTier (tier_of (rq_execution_context r)) (cs_tier call))"

definition covering_grant :: "(string \<Rightarrow> string \<Rightarrow> bool) \<Rightarrow> int \<Rightarrow> call_scope \<Rightarrow> brokered_grant option \<Rightarrow> grant \<Rightarrow> bool" where
  "covering_grant coll now call brokered g =
     (if gr_status g \<noteq> Approved \<or> \<not> not_expired now g then False
      else if \<not> commandGrantFor brokered call g then False
      else let granted = coverable_details (gr_request g) in
        granted \<noteq> [] \<and> cliAuthorizationDetailsCover coll granted [cs_detail call] \<and> bindsCall call g)"

definition findCoveringGrant ::
  "(string \<Rightarrow> string \<Rightarrow> bool) \<Rightarrow> int \<Rightarrow> grant list \<Rightarrow> call_scope \<Rightarrow> brokered_grant option \<Rightarrow> grant option" where
  "findCoveringGrant coll now existing call brokered = (let covering = filter (covering_grant coll now call brokered) existing in
     case List.find (\<lambda>g. nullish (rq_grant_type (gr_request g)) Once \<noteq> Once) covering of
       Some g \<Rightarrow> Some g
     | None \<Rightarrow> (case covering of [] \<Rightarrow> None | g # _ \<Rightarrow> Some g))"

text \<open>\<open>selectorKey\<close>: equal exactly when the sorted entries are equal.\<close>

definition selectorKey :: "(string \<Rightarrow> string \<Rightarrow> bool) \<Rightarrow> selector option \<Rightarrow> (string \<times> string) list" where
  "selectorKey coll sel = sort_by (\<lambda>a b. coll (fst a) (fst b)) (obj_entries (nullish sel []))"

definition sameDetail :: "(string \<Rightarrow> string \<Rightarrow> bool) \<Rightarrow> cli_detail \<Rightarrow> cli_detail \<Rightarrow> bool" where
  "sameDetail coll a b =
     (if cd_cli_id a \<noteq> cd_cli_id b \<or> cd_operation_id a \<noteq> cd_operation_id b \<or> cd_action a \<noteq> cd_action b then False
      else if length (cd_resource_chain a) \<noteq> length (cd_resource_chain b) then False
      else list_all (\<lambda>(x, y). rr_resource x = rr_resource y \<and>
             selectorKey coll (rr_selector x) = selectorKey coll (rr_selector y))
           (zip (cd_resource_chain a) (cd_resource_chain b)))"

definition findLatestRequest ::
  "(string \<Rightarrow> string \<Rightarrow> bool) \<Rightarrow> grant list \<Rightarrow> call_scope \<Rightarrow> brokered_grant option \<Rightarrow> grant option" where
  "findLatestRequest coll existing call brokered = (case sort_by (\<lambda>a b. gr_created_at b \<le> gr_created_at a)
       (filter (\<lambda>g. commandGrantFor brokered call g \<and>
          list_ex (\<lambda>d. sameDetail coll d (cs_detail call)) (coverable_details (gr_request g)) \<and> bindsCall call g) existing) of
     [] \<Rightarrow> None | g # _ \<Rightarrow> Some g)"

section \<open>What the searches return\<close>

lemma coverable_details_type: "d \<in> set (coverable_details r) \<Longrightarrow> cd_type d = ''openape_cli''"
  by (simp add: coverable_details_def)

lemma continuing_type: "nullish t Once \<noteq> Once \<longleftrightarrow> t \<in> {Some Timed, Some Always}"
proof (cases t)
  case (Some x)
  then show ?thesis by (cases x) simp_all
qed simp

lemma not_expired_introspect: "not_expired now g \<Longrightarrow> \<not> isGrantExpired g now"
  by (auto simp: not_expired_def isGrantExpired_def truthy_num_def)

lemma reusableD:
  assumes "reusable coll now brokered q g"
  shows "gr_status g = Approved" "\<not> personal_shape (gr_request g)" "nullish (rq_grant_type (gr_request g)) Once \<noteq> Once"
    "not_expired now g" "sameBrokeredGrant (gr_brokered g) brokered" "rq_target_host (gr_request g) = rq_target_host q"
    "rq_audience (gr_request g) = rq_audience q" "rq_run_as (gr_request g) = rq_run_as q"
    "rq_delegator (gr_request g) = rq_delegator q" "rq_delegate (gr_request g) = rq_delegate q"
    "coverable_details q = [] \<longleftrightarrow> coverable_details (gr_request g) = []"
    "coverable_details q \<noteq> [] \<Longrightarrow> cliAuthorizationDetailsCover coll (coverable_details (gr_request g)) (coverable_details q)"
    "coverable_details q \<noteq> [] \<Longrightarrow> hasExactStructuredDetail q \<or> hasExactStructuredDetail (gr_request g) \<Longrightarrow>
       context_argv_hash (gr_request g) = context_argv_hash q"
    "coverable_details q = [] \<Longrightarrow> same_command (gr_request g) q"
  using assms unfolding reusable_def Let_def by (auto split: if_splits)

lemma covering_grantD:
  assumes "covering_grant coll now call brokered g"
  shows "gr_status g = Approved" "not_expired now g" "commandGrantFor brokered call g" "bindsCall call g"
    "cliAuthorizationDetailsCover coll (coverable_details (gr_request g)) [cs_detail call]"
  using assms unfolding covering_grant_def Let_def by (auto split: if_splits)

lemma commandGrantForD:
  assumes "commandGrantFor brokered call g"
  shows "gr_category g \<in> {None, Some CommandGrant}" "sameBrokeredGrant (gr_brokered g) brokered"
    "rq_target_host (gr_request g) = cs_target_host call" "rq_audience (gr_request g) = cs_audience call"
    "\<not> truthy_str (rq_run_as (gr_request g))" "\<not> truthy_str (rq_delegator (gr_request g))" "\<not> truthy_str (rq_delegate (gr_request g))"
proof -
  show "gr_category g \<in> {None, Some CommandGrant}"
    using assms by (cases "gr_category g") (auto simp: commandGrantFor_def Let_def split: if_splits)
qed (use assms in \<open>auto simp: commandGrantFor_def Let_def split: if_splits\<close>)

lemma bindsCallD:
  assumes "bindsCall call g"
  shows "context_files (gr_request g) = nullish (cs_files call) []"
    "cs_requiresOnce call \<or> isCliAuthorizationDetailExact (cs_detail call) \<or> hasExactStructuredDetail (gr_request g) \<Longrightarrow>
       context_argv_hash (gr_request g) = Some (cs_argvHash call)"
    "cs_requiresOnce call \<Longrightarrow> nullish (rq_grant_type (gr_request g)) Once = Once \<and>
       \<not> truthy_str (gr_auto_approval_kind g) \<and> \<not> truthy_str (gr_decided_by_standing_grant g)"
    "cd_operation_id (cs_detail call) = GENERIC_OPERATION_ID \<Longrightarrow>
       context_program (gr_request g) \<in> {None, Some [], Some (cs_programSha256 call)}"
    "sameShapeTier (tier_of (rq_execution_context (gr_request g))) (cs_tier call)"
  using assms unfolding bindsCall_def Let_def by (auto simp: truthy_str_def split: if_splits)

lemma findCovering_mem:
  assumes "findCoveringGrant coll now existing call brokered = Some g"
  shows "g \<in> set existing" "covering_grant coll now call brokered g"
    "nullish (rq_grant_type (gr_request g)) Once = Once \<Longrightarrow> h \<in> set existing \<Longrightarrow> covering_grant coll now call brokered h \<Longrightarrow>
       nullish (rq_grant_type (gr_request h)) Once = Once"
proof -
  let ?c = "filter (covering_grant coll now call brokered) existing"
  let ?p = "\<lambda>g. nullish (rq_grant_type (gr_request g)) Once \<noteq> Once"
  have "g \<in> set ?c \<and> (?p g \<or> List.find ?p ?c = None)"
  proof (cases "List.find ?p ?c")
    case None
    obtain h hs where c: "?c = h # hs"
      using assms None by (cases ?c) (simp_all add: findCoveringGrant_def)
    have "h = g" using assms None by (simp add: findCoveringGrant_def Let_def c)
    moreover have "h \<in> set ?c" by (simp only: c list.set_intros)
    ultimately show ?thesis using None by simp
  next
    case (Some x)
    with assms have "x = g" by (simp add: findCoveringGrant_def Let_def)
    with find_Some_mem [OF Some] show ?thesis by simp
  qed
  then show "g \<in> set existing" "covering_grant coll now call brokered g"
    "nullish (rq_grant_type (gr_request g)) Once = Once \<Longrightarrow> h \<in> set existing \<Longrightarrow> covering_grant coll now call brokered h \<Longrightarrow>
       nullish (rq_grant_type (gr_request h)) Once = Once"
    by (auto simp: find_None_iff)
qed

lemma covers_one: "cliAuthorizationDetailsCover coll granted required \<Longrightarrow> d \<in> set required \<Longrightarrow>
    \<exists>e\<in>set granted. cliAuthorizationDetailCovers coll e d"
  unfolding cliAuthorizationDetailsCover_def list_all_iff list_ex_iff by blast

text \<open>
  Permission lists are compared after joining their sorted items with a comma, so an item that holds a comma
  equals two items.
\<close>

lemma joined_permissions_collide:
  "same_permissions ((plain_request r h a)\<lparr>rq_permissions := Some [''read,write'']\<rparr>)
     ((plain_request r h a)\<lparr>rq_permissions := Some [''write'', ''read'']\<rparr>)"
  by (simp add: same_permissions_def plain_request_def joined_def)

section \<open>Properties\<close>

text \<open>
  A request is only answered with an old grant that already covers it: the reused grant is approved,
  continuing and unexpired, of the same broker authority, host, audience, local user and delegation, was not
  resolved by a personal or domain shape, and covers every program detail of the request - with the same argv
  hash when either side is bound to an exact command. A request with program details never reuses a grant
  without them, nor the other way round.
\<close>

theorem reuse_sound:
  assumes "findReusableGrant coll now existing q brokered = Some g"
  shows "g \<in> set existing \<and> gr_status g = Approved \<and> rq_grant_type (gr_request g) \<in> {Some Timed, Some Always} \<and>
    \<not> isGrantExpired g now \<and> map_option brokeredGrantAuthority (gr_brokered g) = map_option brokeredGrantAuthority brokered \<and>
    rq_target_host (gr_request g) = rq_target_host q \<and> rq_audience (gr_request g) = rq_audience q \<and>
    rq_run_as (gr_request g) = rq_run_as q \<and> rq_delegator (gr_request g) = rq_delegator q \<and>
    rq_delegate (gr_request g) = rq_delegate q \<and> \<not> personal_shape (gr_request g) \<and>
    (coverable_details q = [] \<longleftrightarrow> coverable_details (gr_request g) = []) \<and>
    (\<forall>d\<in>set (coverable_details q). \<exists>e\<in>set (coverable_details (gr_request g)). cliAuthorizationDetailCovers coll e d) \<and>
    ((\<exists>d\<in>set (coverable_details q @ coverable_details (gr_request g)). isCliAuthorizationDetailExact d) \<longrightarrow>
       context_argv_hash (gr_request g) = context_argv_hash q)"
proof -
  have r: "reusable coll now brokered q g" and mem: "g \<in> set existing"
    using find_Some_mem [OF assms [unfolded findReusableGrant_def]] by simp_all
  note d = reusableD [OF r]
  have c: "\<exists>e\<in>set (coverable_details (gr_request g)). cliAuthorizationDetailCovers coll e x" if "x \<in> set (coverable_details q)" for x
  proof -
    from that have "coverable_details q \<noteq> []" by auto
    from covers_one [OF d(12) [OF this] that] show ?thesis .
  qed
  have x: "context_argv_hash (gr_request g) = context_argv_hash q"
    if "\<exists>d\<in>set (coverable_details q @ coverable_details (gr_request g)). isCliAuthorizationDetailExact d"
  proof -
    have "coverable_details q \<noteq> []" using that d(11) by auto
    moreover have "hasExactStructuredDetail q \<or> hasExactStructuredDetail (gr_request g)"
      using that by (auto simp: hasExactStructuredDetail_def list_ex_iff)
    ultimately show ?thesis by (rule d(13))
  qed
  show ?thesis
    using mem d(1,2,6-11) d(3) [unfolded continuing_type] not_expired_introspect [OF d(4)] d(5) [unfolded sameBrokeredGrant_iff] c x
    by blast
qed

lemma nullish_Always: "nullish (Some Always) Once \<noteq> Once" by simp

theorem reuse_sound_witness:
  "\<exists>g. findReusableGrant (\<le>) 5 [new_grant ''g'' None (path_request ''/tmp/*'') Approved 1] (path_request ''/tmp/a'') None = Some g \<and>
     gr_status g = Approved"
proof -
  let ?g = "new_grant ''g'' None (path_request ''/tmp/*'') Approved 1"
  have d: "coverable_details (path_request p) = [simple_detail ''cat'' [ref ''file'' [(''path'', p)]] ''read'']" for p
    by (simp add: coverable_details_def path_request_def)
  have "cliAuthorizationDetailCovers (\<le>) (simple_detail ''cat'' [ref ''file'' [(''path'', ''/tmp/*'')]] ''read'')
      (simple_detail ''cat'' [ref ''file'' [(''path'', ''/tmp/a'')]] ''read'')"
    by (simp add: covers_eval)
  then have "cliAuthorizationDetailsCover (\<le>) (coverable_details (path_request ''/tmp/*'')) (coverable_details (path_request ''/tmp/a''))"
    by (simp add: d cliAuthorizationDetailsCover_def)
  moreover have "\<not> hasExactStructuredDetail (path_request p)" "\<not> personal_shape (path_request p)" for p
    by (simp_all add: hasExactStructuredDetail_def d isCliAuthorizationDetailExact_def personal_shape_def)
      (simp add: path_request_def plain_request_def tier_of_def no_tier_def)
  moreover have "context_digest (path_request p) = None" "rq_target_host (path_request p) = ''host''"
      "rq_audience (path_request p) = ''shapes''" "rq_run_as (path_request p) = None" "rq_delegator (path_request p) = None"
      "rq_delegate (path_request p) = None" "rq_grant_type (path_request p) = Some Always" for p
    by (simp_all add: path_request_def plain_request_def context_digest_def)
  ultimately have "reusable (\<le>) 5 None (path_request ''/tmp/a'') ?g"
    by (simp add: reusable_def not_expired_def sameBrokeredGrant_def d)
  then have f: "findReusableGrant (\<le>) 5 [?g] (path_request ''/tmp/a'') None = Some ?g" by (simp add: findReusableGrant_def)
  from reuse_sound [OF f] f show ?thesis by blast
qed

text \<open>
  C8. A program call is only covered by a grant that means it: approved and unexpired, a command grant of the
  same broker authority, host and audience that acts for nobody else, with a detail that covers the call and
  the very files it was approved with. An exact detail or a fresh-approval policy ties it to the argv hash, a
  generic one also to the recorded program file; a policy that requires one approval per call is only met by
  a single-use grant a person decided; and a single-use grant is spent only when no continuing one covers.
\<close>

theorem covering_sound:
  assumes "findCoveringGrant coll now existing call brokered = Some g"
  shows "g \<in> set existing \<and> gr_status g = Approved \<and> \<not> isGrantExpired g now \<and> gr_category g \<in> {None, Some CommandGrant} \<and>
    map_option brokeredGrantAuthority (gr_brokered g) = map_option brokeredGrantAuthority brokered \<and>
    rq_target_host (gr_request g) = cs_target_host call \<and> rq_audience (gr_request g) = cs_audience call \<and>
    \<not> truthy_str (rq_run_as (gr_request g)) \<and> \<not> truthy_str (rq_delegator (gr_request g)) \<and> \<not> truthy_str (rq_delegate (gr_request g)) \<and>
    (\<exists>d\<in>set (coverable_details (gr_request g)). cliAuthorizationDetailCovers coll d (cs_detail call)) \<and>
    context_files (gr_request g) = nullish (cs_files call) [] \<and>
    (cs_requiresOnce call \<or> isCliAuthorizationDetailExact (cs_detail call) \<or> hasExactStructuredDetail (gr_request g) \<longrightarrow>
       context_argv_hash (gr_request g) = Some (cs_argvHash call)) \<and>
    (cs_requiresOnce call \<longrightarrow> nullish (rq_grant_type (gr_request g)) Once = Once \<and>
       \<not> truthy_str (gr_auto_approval_kind g) \<and> \<not> truthy_str (gr_decided_by_standing_grant g)) \<and>
    (cd_operation_id (cs_detail call) = GENERIC_OPERATION_ID \<longrightarrow>
       context_program (gr_request g) \<in> {None, Some [], Some (cs_programSha256 call)}) \<and>
    (\<forall>h\<in>set existing. nullish (rq_grant_type (gr_request g)) Once = Once \<longrightarrow> covering_grant coll now call brokered h \<longrightarrow>
       nullish (rq_grant_type (gr_request h)) Once = Once)"
proof -
  note f = findCovering_mem [OF assms]
  note c = covering_grantD [OF f(2)]
  note k = commandGrantForD [OF c(3)] and b = bindsCallD [OF c(4)]
  have "\<exists>d\<in>set (coverable_details (gr_request g)). cliAuthorizationDetailCovers coll d (cs_detail call)"
    using covers_one [OF c(5)] by simp
  then show ?thesis
    using f(1) c(1) not_expired_introspect [OF c(2)] k(1,3-7) k(2) [unfolded sameBrokeredGrant_iff] b(1-4) f(3) by blast
qed

definition cat_call :: "string \<Rightarrow> call_scope" where
  "cat_call p = \<lparr>cs_target_host = ''host'', cs_audience = ''shapes'', cs_detail = simple_detail ''cat'' [ref ''file'' [(''path'', p)]] ''read'',
     cs_argvHash = ''h'', cs_programSha256 = ''s'', cs_requiresOnce = False, cs_files = None, cs_tier = no_tier\<rparr>"

theorem covering_sound_witness:
  "\<exists>g. findCoveringGrant (\<le>) 5 [new_grant ''g'' None (path_request ''/tmp/*'') Approved 1] (cat_call ''/tmp/a'') None = Some g \<and>
     \<not> isGrantExpired g 5"
proof -
  let ?g = "new_grant ''g'' None (path_request ''/tmp/*'') Approved 1"
  have d: "coverable_details (path_request p) = [simple_detail ''cat'' [ref ''file'' [(''path'', p)]] ''read'']" for p
    by (simp add: coverable_details_def path_request_def)
  have "cliAuthorizationDetailCovers (\<le>) (simple_detail ''cat'' [ref ''file'' [(''path'', ''/tmp/*'')]] ''read'')
      (simple_detail ''cat'' [ref ''file'' [(''path'', ''/tmp/a'')]] ''read'')"
    by (simp add: covers_eval)
  then have c: "cliAuthorizationDetailsCover (\<le>) (coverable_details (path_request ''/tmp/*'')) [cs_detail (cat_call ''/tmp/a'')]"
    by (simp add: d cat_call_def cliAuthorizationDetailsCover_def)
  have "commandGrantFor None (cat_call ''/tmp/a'') ?g"
    by (simp add: commandGrantFor_def sameBrokeredGrant_def path_request_def plain_request_def cat_call_def)
  moreover have "bindsCall (cat_call ''/tmp/a'') ?g"
    unfolding bindsCall_def Let_def hasExactStructuredDetail_def new_grant_simps d
    by (simp add: cat_call_def context_files_def isCliAuthorizationDetailExact_def GENERIC_OPERATION_ID_def sameShapeTier_def
      no_tier_def tier_of_def path_request_def plain_request_def simple_detail_def)
  ultimately have "covering_grant (\<le>) 5 (cat_call ''/tmp/a'') None ?g"
    using c by (simp add: covering_grant_def not_expired_def Let_def d)
  then obtain g where f: "findCoveringGrant (\<le>) 5 [?g] (cat_call ''/tmp/a'') None = Some g"
    by (simp add: findCoveringGrant_def split: option.split)
  from covering_sound [OF f] f show ?thesis by blast
qed

end
