(* ===== verification/ProgramCall.thy ===== *)
theory ProgramCall
  imports GrantReuse
begin

text \<open>
  \<open>packages/grants/src/program-authorization.ts\<close>: the strict reader of \<open>POST /api/grants/authorize\<close> bodies
  and the resolution of a program call against the shapes of the store. Messages are those of the source.
  The store is given by the list of shapes it returns and its lookup by id.
\<close>

section \<open>Reading the request\<close>

datatype program_error = InvalidProgram string | ShapeFailure shape_error | OtherFailure grant_error

record program_request =
  pr_target_host :: string
  pr_audience :: string
  pr_name :: string
  pr_sha256 :: string
  pr_argv :: "string list"
  pr_files :: "(string \<times> string) list option"
  pr_grant_type :: grant_type
  pr_summary :: "grant_summary option"
  pr_batch :: "grant_batch option"
  pr_reference :: "string option"

definition PROGRAM_AUTHORIZE_LIMITS_argvItems :: nat where "PROGRAM_AUTHORIZE_LIMITS_argvItems = 256"
definition PROGRAM_AUTHORIZE_LIMITS_tokenChars :: nat where "PROGRAM_AUTHORIZE_LIMITS_tokenChars = 120 * 1024"

definition FIELDS :: "string list" where
  "FIELDS = [''target_host'', ''audience'', ''program'', ''argv'', ''files'', ''grant_type'', ''summary'', ''batch'', ''reference'']"

definition PROGRAM_FIELDS :: "string list" where
  "PROGRAM_FIELDS = [''name'', ''sha256'']"

definition sha256_hex :: "string \<Rightarrow> bool" where
  "sha256_hex s = (length s = 64 \<and> list_all (\<lambda>c. is_digit c \<or> c \<in> set ''abcdef'') s)"

definition NUL :: char where "NUL = CHR 0x00"

definition failed :: "string \<Rightarrow> program_error + 'a" where
  "failed m = Inl (InvalidProgram m)"

definition unknownFields :: "jsval jsobj \<Rightarrow> string list \<Rightarrow> string \<Rightarrow> program_error + unit" where
  "unknownFields ob allowed owner = (let unknown = filter (\<lambda>k. k \<notin> set allowed) (obj_keys ob) in
     if unknown \<noteq> [] then failed (owner @ '' has unknown fields: '' @ join '', '' unknown) else Inr ())"

definition requiredText :: "jsval \<Rightarrow> string \<Rightarrow> nat \<Rightarrow> program_error + string" where
  "requiredText v field maxLength = (case as_string v of
     Some s \<Rightarrow> (if s = [] \<or> length s > maxLength \<or> NUL \<in> set s
       then failed (field @ '' must be a non-empty string without NUL of at most '' @ digits_of maxLength @ '' characters'')
       else Inr s)
   | None \<Rightarrow> failed (field @ '' must be a non-empty string without NUL of at most '' @ digits_of maxLength @ '' characters''))"

definition programName :: "jsval \<Rightarrow> program_error + string" where
  "programName v = (case requiredText v ''program.name'' 255 of Inl e \<Rightarrow> Inl e
   | Inr name \<Rightarrow> if CHR ''/'' \<in> set name \<or> name = ''.'' \<or> name = ''..''
       then failed ''program.name must be the basename of the executable'' else Inr name)"

definition argvList :: "jsval \<Rightarrow> program_error + string list" where
  "argvList v = (case as_array v of None \<Rightarrow> failed ''argv must be an array of strings''
   | Some items \<Rightarrow> if length items > PROGRAM_AUTHORIZE_LIMITS_argvItems
       then failed (''argv must have at most '' @ digits_of PROGRAM_AUTHORIZE_LIMITS_argvItems @ '' items'')
       else if list_ex (\<lambda>x. case as_string x of None \<Rightarrow> True | Some s \<Rightarrow> NUL \<in> set s) items
       then failed ''argv items must be strings without NUL''
       else Inr (map (\<lambda>x. the (as_string x)) items))"

definition grantType :: "jsval \<Rightarrow> program_error + grant_type" where
  "grantType v = (if v = JUndef then Inr Always
     else if v \<noteq> JStr ''always'' \<and> v \<noteq> JStr ''once'' then failed ''grant_type must be always or once''
     else Inr (if v = JStr ''always'' then Always else Once))"

definition programFile :: "jsval \<Rightarrow> program_error + (string \<times> string)" where
  "programFile v = (case as_object v of None \<Rightarrow> failed ''Each file must name a path and sha256''
   | Some file \<Rightarrow> (case unknownFields file [''path'', ''sha256''] ''file'' of Inl e \<Rightarrow> Inl e
     | Inr _ \<Rightarrow> (case requiredText (member file ''path'') ''files.path'' 4096 of Inl e \<Rightarrow> Inl e
       | Inr path \<Rightarrow> if \<not> starts_with path ''/'' \<or> CHR 0x0D \<in> set path \<or> CHR 0x0A \<in> set path
           then failed ''files.path must be an absolute path without line breaks''
           else (case as_string (member file ''sha256'') of
               None \<Rightarrow> failed ''files.sha256 must be 64 lowercase hex characters''
             | Some h \<Rightarrow> if \<not> sha256_hex h then failed ''files.sha256 must be 64 lowercase hex characters'' else Inr (path, h)))))"

fun programFileList :: "jsval list \<Rightarrow> program_error + (string \<times> string) list" where
  "programFileList [] = Inr []"
| "programFileList (v # vs) = (case programFile v of Inl e \<Rightarrow> Inl e
     | Inr f \<Rightarrow> (case programFileList vs of Inl e \<Rightarrow> Inl e | Inr fs \<Rightarrow> Inr (f # fs)))"

definition programFiles :: "jsval \<Rightarrow> program_error + (string \<times> string) list option" where
  "programFiles v = (if v = JUndef then Inr None else case as_array v of
       None \<Rightarrow> failed ''files must contain 1 to 64 content bindings''
     | Some items \<Rightarrow> if items = [] \<or> length items > 64 then failed ''files must contain 1 to 64 content bindings''
         else (case programFileList items of Inl e \<Rightarrow> Inl e
           | Inr fs \<Rightarrow> let files = sort_by (\<lambda>a b. fst a \<le> fst b) fs in
               if \<not> distinct (map fst files) then failed ''files contains duplicate paths'' else Inr (Some files)))"

text \<open>The three readers of the \<open>try\<close> block and its \<open>catch\<close>.\<close>

definition rewrap :: "grant_error \<Rightarrow> program_error" where
  "rewrap e = (case e of InvalidGrantReference m \<Rightarrow> InvalidProgram m
     | InvalidGrantSummary m \<Rightarrow> InvalidProgram (''Invalid summary: '' @ m)
     | InvalidGrantBatch m \<Rightarrow> InvalidProgram (''Invalid batch: '' @ m)
     | _ \<Rightarrow> OtherFailure e)"

definition request_extras :: "jsval jsobj \<Rightarrow> program_request \<Rightarrow> program_error + program_request" where
  "request_extras ob r = (case parseGrantReference (member ob ''reference'') of Inl e \<Rightarrow> Inl (rewrap e)
   | Inr reference \<Rightarrow> if reference \<noteq> None \<and> pr_grant_type r \<noteq> Once then failed ''reference requires grant_type once''
     else (case parseGrantSummary (member ob ''summary'') of Inl e \<Rightarrow> Inl (rewrap e)
       | Inr summary \<Rightarrow> (case parseGrantBatch (member ob ''batch'') of Inl e \<Rightarrow> Inl (rewrap e)
         | Inr batch \<Rightarrow> Inr (r\<lparr>pr_reference := reference, pr_summary := summary, pr_batch := batch\<rparr>))))"

definition parseProgramAuthorizeRequest :: "jsval \<Rightarrow> program_error + program_request" where
  "parseProgramAuthorizeRequest input = (case as_object input of None \<Rightarrow> failed ''The request body must be a JSON object''
   | Some ob \<Rightarrow> (case unknownFields ob FIELDS ''The request'' of Inl e \<Rightarrow> Inl e
     | Inr _ \<Rightarrow> (case as_object (member ob ''program'') of None \<Rightarrow> failed ''program must be an object with name and sha256''
       | Some program \<Rightarrow> (case unknownFields program PROGRAM_FIELDS ''program'' of Inl e \<Rightarrow> Inl e
         | Inr _ \<Rightarrow> (case as_string (member program ''sha256'') of None \<Rightarrow> failed ''program.sha256 must be 64 lowercase hex characters''
           | Some h \<Rightarrow> if \<not> sha256_hex h then failed ''program.sha256 must be 64 lowercase hex characters''
             else (case requiredText (member ob ''target_host'') ''target_host'' 2048 of Inl e \<Rightarrow> Inl e
             | Inr host \<Rightarrow> (case requiredText (member ob ''audience'') ''audience'' 256 of Inl e \<Rightarrow> Inl e
             | Inr aud \<Rightarrow> (case programName (member program ''name'') of Inl e \<Rightarrow> Inl e
             | Inr name \<Rightarrow> (case argvList (member ob ''argv'') of Inl e \<Rightarrow> Inl e
             | Inr argv \<Rightarrow> (case grantType (member ob ''grant_type'') of Inl e \<Rightarrow> Inl e
             | Inr ty \<Rightarrow> (case programFiles (member ob ''files'') of Inl e \<Rightarrow> Inl e
             | Inr files \<Rightarrow> request_extras ob \<lparr>pr_target_host = host, pr_audience = aud, pr_name = name, pr_sha256 = h,
                 pr_argv = argv, pr_files = files, pr_grant_type = ty, pr_summary = None, pr_batch = None,
                 pr_reference = None\<rparr>)))))))))))"

section \<open>Resolving the call\<close>

text \<open>\<open>versions\<close> is an object when present.\<close>

definition isVirtualShape :: "server_shape \<Rightarrow> bool" where
  "isVirtualShape s = (sh_virtual s = Some True \<and> sh_versions s = None \<and> nullish (sh_tested_digests s) [] = [])"

definition selectProgramShape :: "server_shape list \<Rightarrow> program_request \<Rightarrow> (server_shape \<times> bool) option" where
  "selectProgramShape listed r = (let shapes = filter (\<lambda>s. \<not> isVirtualShape s) listed; digest = ''SHA-256:'' @ pr_sha256 r in
     case List.find (\<lambda>s. digest \<in> set (nullish (sh_tested_digests s) [])) shapes of
       Some tested \<Rightarrow> Some (tested, True)
     | None \<Rightarrow> map_option (\<lambda>named. (named, False)) (List.find (\<lambda>s. sh_executable s = pr_name r) shapes))"

definition hasWildcardSelector :: "cli_detail \<Rightarrow> bool" where
  "hasWildcardSelector d = list_ex (\<lambda>r. list_ex (\<lambda>e. CHR ''*'' \<in> set (snd e)) (nullish (rr_selector r) [])) (cd_resource_chain d)"

record program_call =
  pc_executionArgv :: "string list"
  pc_requiresOnce :: bool
  pc_argvHash :: string
  pc_detail :: cli_detail
  pc_context :: exec_context

definition guarded_shape :: "server_shape \<Rightarrow> bool" where
  "guarded_shape s = list_ex (\<lambda>o'. op_decision_of o' \<noteq> None) (sh_operations s)"

definition has_files :: "program_request \<Rightarrow> bool" where
  "has_files r = (nullish (pr_files r) [] \<noteq> [])"

text \<open>A structured resolution that may be used as it is: no files and no wildcard in a selector.\<close>

definition usable :: "program_request \<Rightarrow> resolved_command \<Rightarrow> bool" where
  "usable r c = (\<not> has_files r \<and> \<not> hasWildcardSelector (rc_detail c))"

definition program_context :: "string list \<Rightarrow> string \<Rightarrow> program_request \<Rightarrow> bool \<Rightarrow> exec_context \<Rightarrow> exec_context" where
  "program_context argv argvHash r tested c = c\<lparr>ec_argv := Some argv, ec_argv_hash := Some argvHash,
     ec_program_sha256 := Some (pr_sha256 r), ec_version_tested := Some tested,
     ec_files := (if pr_files r \<noteq> None then pr_files r else ec_files c)\<rparr>"

definition resolveProgramCall :: "(string \<Rightarrow> string \<Rightarrow> bool) \<Rightarrow> (string \<Rightarrow> string) \<Rightarrow> server_shape list
    \<Rightarrow> (string \<Rightarrow> server_shape option) \<Rightarrow> program_request \<Rightarrow> program_error + program_call" where
  "resolveProgramCall coll sha listed lookup r = (let argv = pr_name r # pr_argv r in
     if list_ex (\<lambda>s. isVirtualShape s \<and> (sh_executable s = pr_name r \<or> sh_cli_id s = pr_name r)) listed
     then failed (''program.name '' @ pr_name r @ '' names an operation of the Pods desktop, not a program'')
     else let selection = selectProgramShape listed r in
       case (case selection of None \<Rightarrow> Inr None | Some (s, _) \<Rightarrow> map_sum id Some (resolveServerShape coll sha lookup (sh_cli_id s) argv)) of
         Inl e \<Rightarrow> Inl (ShapeFailure e)
       | Inr structured \<Rightarrow>
         let guarded = (case selection of None \<Rightarrow> False | Some (s, _) \<Rightarrow> guarded_shape s);
             operation = (case (selection, structured) of
                (Some (s, _), Some c) \<Rightarrow> List.find (\<lambda>o'. op_id o' = rc_operation_id c) (sh_operations s) | _ \<Rightarrow> None);
             decision = (case operation of None \<Rightarrow> None | Some o' \<Rightarrow> op_decision_of o') in
         if decision = Some DecideDeny \<or> (guarded \<and> (case structured of None \<Rightarrow> True | Some c \<Rightarrow> rc_synthetic c \<or> \<not> usable r c))
         then failed ''This program requires a registered protected operation; an exact-command fallback cannot bypass its policy''
         else if decision = Some DecideOnce \<and> op_exact_command (the operation) \<noteq> Some True
         then failed ''Registry single-use policy is missing exact-command binding''
         else case (case structured of
              Some c \<Rightarrow> (if usable r c then Inr c
                else buildGenericResolvedServer coll sha (case selection of None \<Rightarrow> pr_name r | Some (s, _) \<Rightarrow> sh_cli_id s) argv)
            | None \<Rightarrow> buildGenericResolvedServer coll sha (case selection of None \<Rightarrow> pr_name r | Some (s, _) \<Rightarrow> sh_cli_id s) argv) of
           Inl e \<Rightarrow> Inl (ShapeFailure e)
         | Inr resolved \<Rightarrow> Inr \<lparr>pc_executionArgv = argv, pc_requiresOnce = (decision = Some DecideOnce),
             pc_argvHash = computeArgvHash sha argv, pc_detail = rc_detail resolved,
             pc_context = program_context argv (computeArgvHash sha argv) r
               (case selection of None \<Rightarrow> False | Some (_, tested) \<Rightarrow> tested) (rc_context resolved)\<rparr>)"

section \<open>Lemmas\<close>

lemma failed_not_Inr [simp]: "failed m \<noteq> Inr x" "Inr x \<noteq> failed m"
  by (simp_all add: failed_def)

lemma requiredText_ok: "requiredText v field n = Inr s \<Longrightarrow> v = JStr s \<and> s \<noteq> [] \<and> length s \<le> n \<and> NUL \<notin> set s"
  by (cases v) (auto simp: requiredText_def split: if_splits)

lemma programName_ok:
  assumes "programName v = Inr s"
  shows "s \<noteq> [] \<and> length s \<le> 255 \<and> NUL \<notin> set s \<and> CHR ''/'' \<notin> set s \<and> s \<noteq> ''.'' \<and> s \<noteq> ''..''"
proof -
  obtain t where "requiredText v ''program.name'' 255 = Inr t"
    using assms by (cases "requiredText v ''program.name'' 255") (simp_all add: programName_def)
  with assms requiredText_ok [OF this] show ?thesis by (auto simp: programName_def split: if_splits)
qed

lemma argvList_ok:
  assumes "argvList v = Inr xs"
  shows "length xs \<le> 256 \<and> list_all (\<lambda>x. NUL \<notin> set x) xs"
proof -
  obtain items where v: "as_array v = Some items" using assms by (cases "as_array v") (simp_all add: argvList_def)
  have "\<not> list_ex (\<lambda>x. case as_string x of None \<Rightarrow> True | Some s \<Rightarrow> NUL \<in> set s) items"
    and "length items \<le> 256" and "xs = map (\<lambda>x. the (as_string x)) items"
    using assms by (auto simp: argvList_def v PROGRAM_AUTHORIZE_LIMITS_argvItems_def split: if_splits)
  then show ?thesis by (auto simp: list_all_iff list_ex_iff split: option.splits)
qed

lemma programFile_ok:
  assumes "programFile v = Inr (path, h)"
  shows "starts_with path ''/'' \<and> length path \<le> 4096 \<and> NUL \<notin> set path \<and> CHR 0x0D \<notin> set path \<and> CHR 0x0A \<notin> set path \<and> sha256_hex h"
proof -
  obtain fo where f: "as_object v = Some fo" using assms by (cases "as_object v") (simp_all add: programFile_def)
  have "\<exists>u p. unknownFields fo [''path'', ''sha256''] ''file'' = Inr u \<and> requiredText (member fo ''path'') ''files.path'' 4096 = Inr p \<and>
      starts_with p ''/'' \<and> CHR 0x0D \<notin> set p \<and> CHR 0x0A \<notin> set p \<and> sha256_hex h \<and> path = p"
    using assms unfolding programFile_def f failed_def option.case step_ok by auto
  then obtain u where "requiredText (member fo ''path'') ''files.path'' 4096 = Inr path" "starts_with path ''/''"
    "CHR 0x0D \<notin> set path" "CHR 0x0A \<notin> set path" "sha256_hex h" by blast
  then show ?thesis using requiredText_ok by blast
qed

definition file_ok :: "string \<times> string \<Rightarrow> bool" where
  "file_ok f = (starts_with (fst f) ''/'' \<and> length (fst f) \<le> 4096 \<and> NUL \<notin> set (fst f) \<and> CHR 0x0D \<notin> set (fst f) \<and>
     CHR 0x0A \<notin> set (fst f) \<and> sha256_hex (snd f))"

lemma programFileList_ok: "programFileList vs = Inr fs \<Longrightarrow> length fs = length vs \<and> list_all file_ok fs"
proof (induction vs arbitrary: fs)
  case (Cons v vs)
  obtain f where f: "programFile v = Inr f" using Cons.prems by (simp split: sum.splits)
  obtain gs where g: "programFileList vs = Inr gs" using Cons.prems by (simp split: sum.splits)
  have "file_ok f" using programFile_ok [of v "fst f" "snd f"] f by (simp add: file_ok_def)
  with Cons.prems Cons.IH [OF g] f g show ?case by auto
qed simp

lemma orders_fst: "orders_on A (\<lambda>a b :: string \<times> string. fst a \<le> fst b)"
  by (auto simp: orders_on_def)

lemma sorted_wrt_strict: "sorted_wrt (\<lambda>a b :: string \<times> string. fst a \<le> fst b) xs \<Longrightarrow> distinct (map fst xs) \<Longrightarrow> sorted_wrt (<) (map fst xs)"
proof (induction xs)
  case (Cons x xs)
  have "fst x < fst y" if "y \<in> set xs" for y
    using Cons.prems that by (auto simp: order.strict_iff_order)
  with Cons show ?case by simp
qed simp

lemma programFiles_ok:
  assumes "programFiles v = Inr (Some fs)"
  shows "fs \<noteq> [] \<and> length fs \<le> 64 \<and> list_all file_ok fs \<and> sorted_wrt (<) (map fst fs)"
proof -
  have nu: "v \<noteq> JUndef" using assms by (auto simp: programFiles_def)
  obtain items where i: "as_array v = Some items" using assms nu by (cases "as_array v") (simp_all add: programFiles_def)
  have b: "items \<noteq> []" "length items \<le> 64" using assms nu i by (auto simp: programFiles_def split: if_splits)
  obtain gs where g: "programFileList items = Inr gs"
    using assms nu i b by (cases "programFileList items") (simp_all add: programFiles_def)
  have fs: "fs = sort_by (\<lambda>a b. fst a \<le> fst b) gs" "distinct (map fst fs)"
    using assms nu i b g by (auto simp: programFiles_def Let_def split: if_splits)
  have "sorted_wrt (\<lambda>a b. fst a \<le> fst b) fs" unfolding fs(1) by (rule sorted_sort_by [OF orders_fst subset_UNIV])
  then have s: "sorted_wrt (<) (map fst fs)" using fs(2) by (rule sorted_wrt_strict)
  have "list_all file_ok fs" "fs \<noteq> []" "length fs = length gs"
    using programFileList_ok [OF g] b(1) by (auto simp: fs(1) list_all_iff)
  with s b(2) programFileList_ok [OF g] show ?thesis by simp
qed

lemma grantType_ok: "grantType v = Inr t \<Longrightarrow> t \<in> {Always, Once}"
  by (auto simp: grantType_def split: if_splits)

lemma request_extras_ok:
  assumes "request_extras ob r = Inr q"
  shows "(pr_reference q \<noteq> None \<longrightarrow> pr_grant_type q = Once) \<and>
    q = r\<lparr>pr_reference := pr_reference q, pr_summary := pr_summary q, pr_batch := pr_batch q\<rparr>"
  using assms by (auto simp: request_extras_def split: sum.splits if_splits)

text \<open>What every later step relies on of a parsed request.\<close>

definition program_request_ok :: "program_request \<Rightarrow> bool" where
  "program_request_ok r = (pr_target_host r \<noteq> [] \<and> length (pr_target_host r) \<le> 2048 \<and> NUL \<notin> set (pr_target_host r) \<and>
     pr_audience r \<noteq> [] \<and> length (pr_audience r) \<le> 256 \<and> NUL \<notin> set (pr_audience r) \<and>
     pr_name r \<noteq> [] \<and> length (pr_name r) \<le> 255 \<and> NUL \<notin> set (pr_name r) \<and> CHR ''/'' \<notin> set (pr_name r) \<and>
     pr_name r \<noteq> ''.'' \<and> pr_name r \<noteq> ''..'' \<and> sha256_hex (pr_sha256 r) \<and>
     length (pr_argv r) \<le> 256 \<and> list_all (\<lambda>x. NUL \<notin> set x) (pr_argv r) \<and> pr_grant_type r \<in> {Always, Once} \<and>
     (case pr_files r of None \<Rightarrow> True | Some fs \<Rightarrow> fs \<noteq> [] \<and> length fs \<le> 64 \<and> list_all file_ok fs \<and> sorted_wrt (<) (map fst fs)) \<and>
     (pr_reference r \<noteq> None \<longrightarrow> pr_grant_type r = Once))"

lemma unknownFields_ok: "unknownFields ob allowed owner = Inr u \<Longrightarrow> fst ` set ob \<subseteq> set allowed"
  by (auto simp: unknownFields_def Let_def filter_empty_conv obj_keys_def split: if_splits)

lemma parseProgram_parts:
  assumes "parseProgramAuthorizeRequest input = Inr r"
  obtains ob program name host aud h argv ty files where "input = JObj ob" "fst ` set ob \<subseteq> set FIELDS"
    "member ob ''program'' = JObj program" "fst ` set program \<subseteq> set PROGRAM_FIELDS"
    "sha256_hex h" "requiredText (member ob ''target_host'') ''target_host'' 2048 = Inr host"
    "requiredText (member ob ''audience'') ''audience'' 256 = Inr aud" "programName (member program ''name'') = Inr name"
    "argvList (member ob ''argv'') = Inr argv" "grantType (member ob ''grant_type'') = Inr ty"
    "programFiles (member ob ''files'') = Inr files"
    "request_extras ob \<lparr>pr_target_host = host, pr_audience = aud, pr_name = name, pr_sha256 = h, pr_argv = argv,
       pr_files = files, pr_grant_type = ty, pr_summary = None, pr_batch = None, pr_reference = None\<rparr> = Inr r"
proof -
  obtain ob where ob: "input = JObj ob" using assms by (cases input) (simp_all add: parseProgramAuthorizeRequest_def)
  obtain u where u: "unknownFields ob FIELDS ''The request'' = Inr u"
    using assms by (simp add: parseProgramAuthorizeRequest_def ob split: sum.splits)
  obtain program where p: "member ob ''program'' = JObj program"
    using assms by (cases "member ob ''program''") (simp_all add: parseProgramAuthorizeRequest_def ob u)
  obtain u2 where u2: "unknownFields program PROGRAM_FIELDS ''program'' = Inr u2"
    using assms by (simp add: parseProgramAuthorizeRequest_def ob u p split: sum.splits)
  have "\<exists>h host aud name argv ty files. sha256_hex h \<and> requiredText (member ob ''target_host'') ''target_host'' 2048 = Inr host \<and>
      requiredText (member ob ''audience'') ''audience'' 256 = Inr aud \<and> programName (member program ''name'') = Inr name \<and>
      argvList (member ob ''argv'') = Inr argv \<and> grantType (member ob ''grant_type'') = Inr ty \<and>
      programFiles (member ob ''files'') = Inr files \<and>
      request_extras ob \<lparr>pr_target_host = host, pr_audience = aud, pr_name = name, pr_sha256 = h, pr_argv = argv,
       pr_files = files, pr_grant_type = ty, pr_summary = None, pr_batch = None, pr_reference = None\<rparr> = Inr r"
    using assms by (simp only: parseProgramAuthorizeRequest_def ob u p u2 as_object.simps option.case sum.case failed_def step_ok) blast
  with that [OF ob unknownFields_ok [OF u] p unknownFields_ok [OF u2]] show thesis by blast
qed

lemma parsed_request_ok:
  assumes "parseProgramAuthorizeRequest input = Inr r"
  shows "program_request_ok r"
proof -
  obtain ob program name host aud h argv ty files where "input = JObj ob" "fst ` set ob \<subseteq> set FIELDS"
    "member ob ''program'' = JObj program" "fst ` set program \<subseteq> set PROGRAM_FIELDS"
    and p: "sha256_hex h" "requiredText (member ob ''target_host'') ''target_host'' 2048 = Inr host"
    "requiredText (member ob ''audience'') ''audience'' 256 = Inr aud" "programName (member program ''name'') = Inr name"
    "argvList (member ob ''argv'') = Inr argv" "grantType (member ob ''grant_type'') = Inr ty"
    "programFiles (member ob ''files'') = Inr files"
    and e: "request_extras ob \<lparr>pr_target_host = host, pr_audience = aud, pr_name = name, pr_sha256 = h, pr_argv = argv,
       pr_files = files, pr_grant_type = ty, pr_summary = None, pr_batch = None, pr_reference = None\<rparr> = Inr r"
    by (rule parseProgram_parts [OF assms])
  have "r = \<lparr>pr_target_host = host, pr_audience = aud, pr_name = name, pr_sha256 = h, pr_argv = argv,
       pr_files = files, pr_grant_type = ty, pr_summary = pr_summary r, pr_batch = pr_batch r, pr_reference = pr_reference r\<rparr>"
    using request_extras_ok [OF e] by simp
  note eq = this
  have f: "pr_target_host r = host" "pr_audience r = aud" "pr_name r = name" "pr_sha256 r = h" "pr_argv r = argv"
      "pr_files r = files" "pr_grant_type r = ty"
    by (subst eq, simp)+
  have files: "case files of None \<Rightarrow> True | Some fs \<Rightarrow> fs \<noteq> [] \<and> length fs \<le> 64 \<and> list_all file_ok fs \<and> sorted_wrt (<) (map fst fs)"
  proof (cases files)
    case (Some fs)
    with programFiles_ok [OF p(7) [unfolded Some]] show ?thesis by simp
  qed simp
  show ?thesis unfolding program_request_ok_def f
    using requiredText_ok [OF p(2)] requiredText_ok [OF p(3)] programName_ok [OF p(4)] argvList_ok [OF p(5)]
      grantType_ok [OF p(6)] p(1) files conjunct1 [OF request_extras_ok [OF e]] f(7) by simp
qed

lemma resolve_matched:
  assumes "resolveServerShape coll sha lookup cli argv = Inr c" "\<not> rc_synthetic c"
  shows "\<exists>s operation bs. lookup cli = Some s \<and> matchArgvToOperation (sh_operations s) (tl argv) = Some (operation, bs) \<and>
    buildCliAuthDetail coll (sh_cli_id s) operation bs = Inr (rc_detail c) \<and> rc_operation_id c = op_id operation"
proof -
  obtain e rest where a: "argv = e # rest" using assms(1) by (cases argv) (simp_all add: resolveServerShape_def)
  have gen: "rc_synthetic c" if "buildGenericResolvedServer coll sha cli argv = Inr c"
    using that by (auto simp: buildGenericResolvedServer_def a Let_def)
  show ?thesis
  proof (cases "lookup cli")
    case None
    with assms gen show ?thesis by (simp add: resolveServerShape_def a)
  next
    case (Some s)
    have "tryMatchShape coll sha s argv = Inr (Some c)"
      using assms gen Some by (auto simp: resolveServerShape_def a split: sum.splits option.splits)
    then show ?thesis using Some
      by (auto simp: tryMatchShape_def a split: if_splits option.splits sum.splits prod.splits)
  qed
qed

lemma generic_ok: "argv \<noteq> [] \<Longrightarrow> \<exists>c. buildGenericResolvedServer coll sha cli argv = Inr c \<and> rc_detail c = generic_detail coll sha cli argv
    \<and> ec_files (rc_context c) = None"
  by (cases argv) (simp_all add: buildGenericResolvedServer_def Let_def resolved_context_def)

lemma program_context_simps [simp]:
  "ec_argv (program_context argv h r t c) = Some argv" "ec_argv_hash (program_context argv h r t c) = Some h"
  "ec_program_sha256 (program_context argv h r t c) = Some (pr_sha256 r)"
  by (simp_all add: program_context_def)

text \<open>The successful branch of the resolution, with what was selected and matched.\<close>

lemma resolveProgramCall_parts:
  assumes "resolveProgramCall coll sha listed lookup r = Inr c"
  shows "\<not> list_ex (\<lambda>s. isVirtualShape s \<and> (sh_executable s = pr_name r \<or> sh_cli_id s = pr_name r)) listed"
    "pc_executionArgv c = pr_name r # pr_argv r" "pc_argvHash c = computeArgvHash sha (pr_name r # pr_argv r)"
    "\<exists>t x. pc_context c = program_context (pr_name r # pr_argv r) (pc_argvHash c) r t x"
    "(\<exists>cli. pc_detail c = generic_detail coll sha cli (pr_name r # pr_argv r)) \<or> (\<not> hasWildcardSelector (pc_detail c) \<and> \<not> has_files r)"
    "\<And>s t. selectProgramShape listed r = Some (s, t) \<Longrightarrow> guarded_shape s \<Longrightarrow>
       \<exists>x. resolveServerShape coll sha lookup (sh_cli_id s) (pr_name r # pr_argv r) = Inr x \<and> \<not> rc_synthetic x \<and> usable r x \<and>
         pc_detail c = rc_detail x \<and> (\<forall>o'. List.find (\<lambda>o'. op_id o' = rc_operation_id x) (sh_operations s) = Some o' \<longrightarrow>
           op_decision_of o' \<noteq> Some DecideDeny \<and> (op_decision_of o' = Some DecideOnce \<longrightarrow> pc_requiresOnce c \<and> op_exact_command o' = Some True))"
proof -
  let ?argv = "pr_name r # pr_argv r"
  let ?sel = "selectProgramShape listed r"
  let ?cli = "case ?sel of None \<Rightarrow> pr_name r | Some (s, _) \<Rightarrow> sh_cli_id s"
  show nv: "\<not> list_ex (\<lambda>s. isVirtualShape s \<and> (sh_executable s = pr_name r \<or> sh_cli_id s = pr_name r)) listed"
    using assms by (auto simp: resolveProgramCall_def Let_def split: if_splits)
  obtain structured where st: "(case ?sel of None \<Rightarrow> Inr None | Some (s, _) \<Rightarrow>
      map_sum id Some (resolveServerShape coll sha lookup (sh_cli_id s) ?argv)) = Inr structured"
    using assms nv by (simp add: resolveProgramCall_def Let_def split: sum.splits)
  define operation where "operation = (case (?sel, structured) of
      (Some (s, _), Some x) \<Rightarrow> List.find (\<lambda>o'. op_id o' = rc_operation_id x) (sh_operations s) | _ \<Rightarrow> None)"
  define decision where "decision = (case operation of None \<Rightarrow> None | Some o' \<Rightarrow> op_decision_of o')"
  define guarded where "guarded = (case ?sel of None \<Rightarrow> False | Some (s, _) \<Rightarrow> guarded_shape s)"
  define resolved where "resolved = (case structured of
      Some x \<Rightarrow> (if usable r x then Inr x else buildGenericResolvedServer coll sha ?cli ?argv)
    | None \<Rightarrow> buildGenericResolvedServer coll sha ?cli ?argv)"
  have ok: "decision \<noteq> Some DecideDeny" "guarded \<longrightarrow> (\<exists>x. structured = Some x \<and> \<not> rc_synthetic x \<and> usable r x)"
      "decision = Some DecideOnce \<longrightarrow> op_exact_command (the operation) = Some True"
    and res: "\<exists>x. resolved = Inr x \<and> c = \<lparr>pc_executionArgv = ?argv, pc_requiresOnce = (decision = Some DecideOnce),
      pc_argvHash = computeArgvHash sha ?argv, pc_detail = rc_detail x,
      pc_context = program_context ?argv (computeArgvHash sha ?argv) r (case ?sel of None \<Rightarrow> False | Some (_, t) \<Rightarrow> t) (rc_context x)\<rparr>"
    using assms unfolding resolveProgramCall_def Let_def if_not_P [OF nv] st sum.case
      operation_def [symmetric] decision_def [symmetric] guarded_def [symmetric] resolved_def [symmetric]
    by (auto simp: split: if_splits option.splits sum.splits)
  then obtain x where x: "resolved = Inr x" and c: "c = \<lparr>pc_executionArgv = ?argv, pc_requiresOnce = (decision = Some DecideOnce),
      pc_argvHash = computeArgvHash sha ?argv, pc_detail = rc_detail x,
      pc_context = program_context ?argv (computeArgvHash sha ?argv) r (case ?sel of None \<Rightarrow> False | Some (_, t) \<Rightarrow> t) (rc_context x)\<rparr>"
    by blast
  show "pc_executionArgv c = ?argv" "pc_argvHash c = computeArgvHash sha ?argv"
    "\<exists>t x. pc_context c = program_context ?argv (pc_argvHash c) r t x"
    using c by auto
  obtain y where y: "buildGenericResolvedServer coll sha ?cli ?argv = Inr y" "rc_detail y = generic_detail coll sha ?cli ?argv"
    using generic_ok [of ?argv coll sha ?cli] by auto
  show "(\<exists>cli. pc_detail c = generic_detail coll sha cli ?argv) \<or> (\<not> hasWildcardSelector (pc_detail c) \<and> \<not> has_files r)"
    using x y c by (auto simp: resolved_def usable_def split: option.splits if_splits)
  fix s t assume s: "?sel = Some (s, t)" "guarded_shape s"
  then obtain z where z: "structured = Some z" "\<not> rc_synthetic z" "usable r z" using ok(2) by (auto simp: guarded_def)
  have "resolveServerShape coll sha lookup (sh_cli_id s) ?argv = Inr z"
    using st s(1) z(1) by (cases "resolveServerShape coll sha lookup (sh_cli_id s) ?argv") simp_all
  moreover have "x = z" using x z by (simp add: resolved_def)
  moreover have "op_decision_of o' \<noteq> Some DecideDeny \<and> (op_decision_of o' = Some DecideOnce \<longrightarrow> pc_requiresOnce c \<and> op_exact_command o' = Some True)"
    if "List.find (\<lambda>o'. op_id o' = rc_operation_id z) (sh_operations s) = Some o'" for o'
  proof -
    have "operation = Some o'" using that s(1) z(1) by (simp add: operation_def)
    then show ?thesis using ok(1,3) c by (simp add: decision_def)
  qed
  ultimately show "\<exists>x. resolveServerShape coll sha lookup (sh_cli_id s) ?argv = Inr x \<and> \<not> rc_synthetic x \<and> usable r x \<and>
         pc_detail c = rc_detail x \<and> (\<forall>o'. List.find (\<lambda>o'. op_id o' = rc_operation_id x) (sh_operations s) = Some o' \<longrightarrow>
           op_decision_of o' \<noteq> Some DecideDeny \<and> (op_decision_of o' = Some DecideOnce \<longrightarrow> pc_requiresOnce c \<and> op_exact_command o' = Some True))"
    using z c by auto
qed

lemma built_constraints: "buildCliAuthDetail coll cli operation bs = Inr d \<Longrightarrow> cd_constraints d = op_constraints operation"
  by (auto simp: buildCliAuthDetail_def step_ok)

lemma find_distinct_id:
  "distinct (map op_id ops) \<Longrightarrow> operation \<in> set ops \<Longrightarrow> List.find (\<lambda>o'. op_id o' = op_id operation) ops = Some operation"
  by (induction ops) (auto simp: image_iff)

section \<open>Properties\<close>

text \<open>
  The reader of program calls is strict: a body it accepts is an object with no field beyond the contract,
  and the request it returns has non-empty bounded texts without NUL, a program name that is a basename, a
  64-digit program hash, at most 256 arguments, at most 64 file bindings with absolute, strictly ascending
  paths, a grant type of always or once, and a reference only together with once.
\<close>

theorem parsed_program_bounds:
  assumes "parseProgramAuthorizeRequest input = Inr r"
  shows "(\<exists>ob. input = JObj ob \<and> fst ` set ob \<subseteq> set FIELDS) \<and> program_request_ok r"
proof -
  obtain ob where "input = JObj ob \<and> fst ` set ob \<subseteq> set FIELDS"
    using assms by (cases input) (auto simp: parseProgramAuthorizeRequest_def step_ok dest!: unknownFields_ok)
  with parsed_request_ok [OF assms] show ?thesis by blast
qed

definition example_body :: jsval where
  "example_body = JObj [(''target_host'', JStr ''host''), (''audience'', JStr ''shapes''),
     (''program'', JObj [(''name'', JStr ''cat''), (''sha256'', JStr (replicate 64 (CHR ''a'')))]),
     (''argv'', JArr [JStr ''/tmp/a'']), (''grant_type'', JStr ''once'')]"

definition example_request :: program_request where
  "example_request = \<lparr>pr_target_host = ''host'', pr_audience = ''shapes'', pr_name = ''cat'', pr_sha256 = replicate 64 (CHR ''a''),
     pr_argv = [''/tmp/a''], pr_files = None, pr_grant_type = Once, pr_summary = None, pr_batch = None, pr_reference = None\<rparr>"

lemmas parse_eval = parseProgramAuthorizeRequest_def unknownFields_def obj_keys_def obj_entries_def
  is_array_index_def is_digit_def FIELDS_def PROGRAM_FIELDS_def sha256_hex_def requiredText_def programName_def argvList_def
  grantType_def programFiles_def request_extras_def parseGrantReference_def parseGrantSummary_def parseGrantBatch_def
  NUL_def PROGRAM_AUTHORIZE_LIMITS_argvItems_def Let_def

lemma example_parsed: "parseProgramAuthorizeRequest example_body = Inr example_request"
  by (simp add: parse_eval example_body_def example_request_def list_all_iff)

theorem parsed_program_bounds_witness:
  "pr_name example_request = ''cat'' \<and> program_request_ok example_request"
  using parsed_program_bounds [OF example_parsed] by (simp add: example_request_def)

text \<open>
  C7. A resolved program call stands for exactly the command that will run: its argv is the program followed by
  the arguments, its context carries the hash of that argv and of the program file, and its detail either is
  the exact-command one, bound to the argv hash, or holds no wildcard and binds no files. No program is read
  with an operation of the desktop. A shape with a policy cannot be bypassed: the detail then comes from a
  registered operation that matches the arguments, that does not deny, and that - when it asks for a fresh
  approval - makes the call single-use and exact.
\<close>

theorem resolved_call_protected:
  assumes "resolveProgramCall coll sha listed lookup r = Inr c"
    and "\<And>s. s \<in> set listed \<Longrightarrow> lookup (sh_cli_id s) = Some s \<and> distinct (map op_id (sh_operations s))"
  shows "pc_executionArgv c = pr_name r # pr_argv r \<and> pc_argvHash c = computeArgvHash sha (pc_executionArgv c) \<and>
    ec_argv_hash (pc_context c) = Some (pc_argvHash c) \<and> ec_program_sha256 (pc_context c) = Some (pr_sha256 r) \<and>
    (\<forall>s\<in>set listed. isVirtualShape s \<longrightarrow> sh_executable s \<noteq> pr_name r \<and> sh_cli_id s \<noteq> pr_name r) \<and>
    ((\<exists>cli. pc_detail c = generic_detail coll sha cli (pc_executionArgv c)) \<or> (\<not> hasWildcardSelector (pc_detail c) \<and> \<not> has_files r)) \<and>
    (\<forall>s t. selectProgramShape listed r = Some (s, t) \<longrightarrow> guarded_shape s \<longrightarrow> (\<exists>operation\<in>set (sh_operations s). \<exists>bs.
       matchArgvToOperation (sh_operations s) (pr_argv r) = Some (operation, bs) \<and>
       buildCliAuthDetail coll (sh_cli_id s) operation bs = Inr (pc_detail c) \<and> op_decision_of operation \<noteq> Some DecideDeny \<and>
       (op_decision_of operation = Some DecideOnce \<longrightarrow> pc_requiresOnce c \<and> isCliAuthorizationDetailExact (pc_detail c))))"
proof -
  note p = resolveProgramCall_parts [OF assms(1)]
  have protected: "\<exists>operation\<in>set (sh_operations s). \<exists>bs. matchArgvToOperation (sh_operations s) (pr_argv r) = Some (operation, bs) \<and>
       buildCliAuthDetail coll (sh_cli_id s) operation bs = Inr (pc_detail c) \<and> op_decision_of operation \<noteq> Some DecideDeny \<and>
       (op_decision_of operation = Some DecideOnce \<longrightarrow> pc_requiresOnce c \<and> isCliAuthorizationDetailExact (pc_detail c))"
    if sel: "selectProgramShape listed r = Some (s, t)" "guarded_shape s" for s t
  proof -
    have mem: "s \<in> set listed"
      using sel(1) by (auto simp: selectProgramShape_def Let_def split: option.splits dest: find_Some_mem)
    obtain x where x: "resolveServerShape coll sha lookup (sh_cli_id s) (pr_name r # pr_argv r) = Inr x" "\<not> rc_synthetic x"
        "pc_detail c = rc_detail x" and dec: "\<And>o'. List.find (\<lambda>o'. op_id o' = rc_operation_id x) (sh_operations s) = Some o' \<Longrightarrow>
           op_decision_of o' \<noteq> Some DecideDeny \<and> (op_decision_of o' = Some DecideOnce \<longrightarrow> pc_requiresOnce c \<and> op_exact_command o' = Some True)"
      using p(6) [OF sel] by blast
    obtain operation bs where m: "matchArgvToOperation (sh_operations s) (pr_argv r) = Some (operation, bs)"
        "buildCliAuthDetail coll (sh_cli_id s) operation bs = Inr (rc_detail x)" "rc_operation_id x = op_id operation"
      using resolve_matched [OF x(1,2)] assms(2) [OF mem] by auto
    have op: "operation \<in> set (sh_operations s)" using matchArgv_mem(1) [OF m(1)] all_matches_mem by blast
    have d: "op_decision_of operation \<noteq> Some DecideDeny" "op_decision_of operation = Some DecideOnce \<Longrightarrow> pc_requiresOnce c"
        "op_decision_of operation = Some DecideOnce \<Longrightarrow> op_exact_command operation = Some True"
      using dec [of operation] find_distinct_id [of "sh_operations s" operation] assms(2) [OF mem] op m(3) by simp_all
    have "isCliAuthorizationDetailExact (rc_detail x)" if "op_exact_command operation = Some True"
      using built_constraints [OF m(2)] that by (simp add: op_constraints_def isCliAuthorizationDetailExact_def)
    with d op m x(3) show ?thesis by auto
  qed
  have virtual: "\<forall>s\<in>set listed. isVirtualShape s \<longrightarrow> sh_executable s \<noteq> pr_name r \<and> sh_cli_id s \<noteq> pr_name r"
    using p(1) by (auto simp: list_ex_iff)
  obtain t x where "pc_context c = program_context (pr_name r # pr_argv r) (pc_argvHash c) r t x" using p(4) by blast
  then show ?thesis using p(2,3,5) virtual protected by simp
qed

definition guarded_example :: server_shape where
  "guarded_example = (example_shape ''git'' None)\<lparr>sh_operations := [clone_operation\<lparr>op_decision_of := Some DecideOnce, op_exact_command := Some True\<rparr>]\<rparr>"

definition git_request :: program_request where
  "git_request = example_request\<lparr>pr_name := ''git'', pr_argv := [''clone'', ''x'']\<rparr>"

theorem resolved_call_protected_witness:
  "\<exists>c. resolveProgramCall (\<le>) toy_sha [guarded_example] (\<lambda>i. if i = ''git'' then Some guarded_example else None) git_request = Inr c \<and>
     pc_requiresOnce c \<and> isCliAuthorizationDetailExact (pc_detail c)"
proof -
  let ?l = "\<lambda>i. if i = ''git'' then Some guarded_example else None"
  have s: "selectProgramShape [guarded_example] git_request = Some (guarded_example, False)" "guarded_shape guarded_example"
      "sh_cli_id guarded_example = ''git''" "\<not> isVirtualShape guarded_example" "distinct (map op_id (sh_operations guarded_example))"
    by (simp_all add: guarded_example_def guarded_shape_def example_shape_def selectProgramShape_def isVirtualShape_def git_request_def example_request_def)
  obtain c where c: "resolveProgramCall (\<le>) toy_sha [guarded_example] ?l git_request = Inr c"
  proof -
    let ?op = "clone_operation\<lparr>op_decision_of := Some DecideOnce, op_exact_command := Some True\<rparr>"
    have m: "matchArgvToOperation [?op] [''clone'', ''x''] = Some (?op, [(''repo'', ''x'')])"
      by (simp add: matcher_eval obj_entries_def)
    have b: "\<exists>d. buildCliAuthDetail (\<le>) ''git'' ?op [(''repo'', ''x'')] = Inr d \<and> \<not> hasWildcardSelector d"
      by (simp add: buildCliAuthDetail_def clone_operation_def split2_def resource_name_ok_def is_word_char_def is_letter_def
        is_digit_def resolve_expression_def hasWildcardSelector_def Let_def)
    then obtain d where d: "buildCliAuthDetail (\<le>) ''git'' ?op [(''repo'', ''x'')] = Inr d" "\<not> hasWildcardSelector d" by blast
    obtain x where x: "resolveServerShape (\<le>) toy_sha ?l ''git'' (pr_name git_request # pr_argv git_request) = Inr x" "rc_detail x = d" "\<not> rc_synthetic x"
        "rc_operation_id x = ''git.clone''"
      using m d(1) s(3) by (simp add: resolveServerShape_def tryMatchShape_def git_request_def guarded_example_def clone_operation_def)
    have u: "usable git_request x" using d(2) x(2) by (simp add: usable_def has_files_def git_request_def example_request_def)
    have f: "List.find (\<lambda>o'. op_id o' = ''git.clone'') (sh_operations guarded_example) = Some ?op"
      by (simp add: guarded_example_def clone_operation_def)
    show thesis
      by (rule that) (simp add: resolveProgramCall_def s x u f Let_def)
  qed
  have h: "\<And>s. s \<in> set [guarded_example] \<Longrightarrow> ?l (sh_cli_id s) = Some s \<and> distinct (map op_id (sh_operations s))"
    using s by simp
  have "\<exists>operation\<in>set (sh_operations guarded_example). op_decision_of operation = Some DecideOnce \<longrightarrow> pc_requiresOnce c \<and> isCliAuthorizationDetailExact (pc_detail c)"
    using resolved_call_protected [OF c h] s by auto
  then show ?thesis using c by (auto simp: guarded_example_def)
qed

end
