(* ===== verification/StandingGrants.thy ===== *)
theory StandingGrants
  imports Grants
begin

text \<open>
  Standing grants, the patterns under which requests are approved without a person:
  \<open>packages/grants/src/standing-grants.ts\<close>, \<open>safe-commands.ts\<close>, the handler
  \<open>standing-grants/index.post.ts\<close> and \<open>seed-safe-commands.ts\<close> of the IdP module.
  A stored standing grant is a grant whose request carries the members of \<open>StandingGrantRequest\<close>
  (\<open>rq_standing\<close>); \<open>coll\<close> is the collation of the canonical string, \<open>now\<close> the time in seconds.
\<close>

section \<open>Requests\<close>

record standing_request =
  sr_owner :: "string option"
  sr_delegate :: string
  sr_audience :: string
  sr_target_host :: "string option"
  sr_cli_id :: "string option"
  sr_template :: "resource_ref list"
  sr_action :: "string option"
  sr_max_risk :: "risk option"
  sr_grant_type :: "grant_type option"
  sr_duration :: "int option"
  sr_reason :: "string option"

text \<open>
  \<open>isStandingGrantRequest\<close> and the cast that follows it: the request read as a standing one, when its
  type is \<open>standing\<close>, its delegate a string and its template a list.
\<close>

definition isStandingGrantRequest :: "grant_request \<Rightarrow> standing_request option" where
  "isStandingGrantRequest r = (case (rq_standing r, rq_delegate r) of
     (Some f, Some delegate) \<Rightarrow> (if sf_type f = Some ''standing'' then (case sf_template f of
         Some template \<Rightarrow> Some \<lparr>sr_owner = sf_owner f, sr_delegate = delegate, sr_audience = rq_audience r,
           sr_target_host = Some (rq_target_host r), sr_cli_id = sf_cli_id f, sr_template = template,
           sr_action = sf_action f, sr_max_risk = sf_max_risk f, sr_grant_type = rq_grant_type r,
           sr_duration = rq_duration r, sr_reason = rq_reason r\<rparr>
       | None \<Rightarrow> None) else None)
   | _ \<Rightarrow> None)"

text \<open>
  The request as it is stored: \<open>requester\<close> is the delegate, so that \<open>findByRequester\<close> of the agent
  returns it, and a missing host is stored as \<open>*\<close>.
\<close>

definition stored_standing :: "standing_request \<Rightarrow> grant_request" where
  "stored_standing r = (plain_request (sr_delegate r) (nullish (sr_target_host r) ''*'') (sr_audience r))\<lparr>
     rq_grant_type := sr_grant_type r, rq_duration := sr_duration r, rq_reason := sr_reason r,
     rq_delegate := Some (sr_delegate r),
     rq_standing := Some \<lparr>sf_type = Some ''standing'', sf_owner = sr_owner r, sf_cli_id = sr_cli_id r,
       sf_template = Some (sr_template r), sf_action = sr_action r, sf_max_risk = sr_max_risk r\<rparr>\<rparr>"

definition standing_grant :: "int \<Rightarrow> string \<Rightarrow> string \<Rightarrow> standing_request \<Rightarrow> grant" where
  "standing_grant now new_id owner r = (new_grant new_id (Some StandingGrant) (stored_standing r) Approved now)\<lparr>
     gr_decided_at := Some now, gr_decided_by := Some owner\<rparr>"

section \<open>Evaluation\<close>

definition buildCoverageDetailFromStandingGrant ::
  "(string \<Rightarrow> string \<Rightarrow> bool) \<Rightarrow> standing_request \<Rightarrow> cli_detail \<Rightarrow> cli_detail" where
  "buildCoverageDetailFromStandingGrant coll r incoming =
     (let cli = nullish (sr_cli_id r) (cd_cli_id incoming); action = nullish (sr_action r) (cd_action incoming) in
      \<lparr>cd_type = ''openape_cli'', cd_cli_id = cli, cd_operation_id = cd_operation_id incoming,
       cd_resource_chain = sr_template r, cd_action = action, cd_approval = None, cd_reason = None, cd_grant_id = None,
       cd_permission = canonicalizeCliPermission coll cli (sr_template r) action,
       cd_display = nullish (sr_reason r) (''standing:'' @ sr_delegate r),
       cd_risk = nullish (sr_max_risk r) Critical, cd_constraints = None\<rparr>)"

definition coversDetail :: "(string \<Rightarrow> string \<Rightarrow> bool) \<Rightarrow> standing_request \<Rightarrow> cli_detail \<Rightarrow> bool" where
  "coversDetail coll r d =
     (if truthy_str (sr_cli_id r) \<and> sr_cli_id r \<noteq> Some (cd_cli_id d) then False
      else if truthy_str (sr_action r) \<and> sr_action r \<noteq> Some (cd_action d) then False
      else if (case sr_max_risk r of None \<Rightarrow> False | Some m \<Rightarrow> m < cd_risk d) then False
      else cliAuthorizationDetailCovers coll (buildCoverageDetailFromStandingGrant coll r d) d)"

definition applicable :: "int \<Rightarrow> grant_request \<Rightarrow> grant \<Rightarrow> (string \<times> standing_request) list" where
  "applicable now incoming g = (if gr_status g \<noteq> Approved then [] else
     case isStandingGrantRequest (gr_request g) of None \<Rightarrow> []
     | Some r \<Rightarrow> if sr_delegate r \<noteq> rq_requester incoming then []
         else if sr_audience r \<noteq> rq_audience incoming then []
         else if truthy_str (sr_target_host r) \<and> sr_target_host r \<noteq> Some ''*'' \<and>
                 sr_target_host r \<noteq> Some (rq_target_host incoming) then []
         else if truthy_num (gr_expires_at g) \<and> the (gr_expires_at g) < now then []
         else [(gr_id g, r)])"

record standing_match =
  mt_standing_grant_id :: string
  mt_derived :: "cli_detail list"

text \<open>The loop over the details; the accumulator is \<open>primaryId\<close>.\<close>

fun cover_each :: "(string \<Rightarrow> string \<Rightarrow> bool) \<Rightarrow> (string \<times> standing_request) list \<Rightarrow> string option \<Rightarrow> cli_detail list
    \<Rightarrow> string option" where
  "cover_each coll app primary [] = primary"
| "cover_each coll app primary (d # ds) = (case List.find (\<lambda>(i, r). coversDetail coll r d) app of
     None \<Rightarrow> None
   | Some (i, r) \<Rightarrow> cover_each coll app (Some (nullish primary i)) ds)"

definition evaluateStandingGrants ::
  "(string \<Rightarrow> string \<Rightarrow> bool) \<Rightarrow> int \<Rightarrow> grant_request \<Rightarrow> 's grant_store \<Rightarrow> 's \<Rightarrow> standing_match option" where
  "evaluateStandingGrants coll now incoming store s =
     (let details = cliDetails (rq_authorization_details incoming) in
      if details = [] then None
      else let app = concat (map (applicable now incoming) (st_findByRequester store (rq_requester incoming) s)) in
        if app = [] then None
        else (case cover_each coll app None details of None \<Rightarrow> None
          | Some i \<Rightarrow> Some \<lparr>mt_standing_grant_id = i, mt_derived = details\<rparr>))"

section \<open>Creating standing grants\<close>

text \<open>
  The body of \<open>POST /api/standing-grants\<close>, for bodies whose members have the declared types; a member
  that is missing (or not of the type the handler checks) is \<open>None\<close>.
\<close>

record standing_body =
  sb_delegate :: "string option"
  sb_audience :: "string option"
  sb_template :: "resource_ref list option"
  sb_grant_type :: "grant_type option"
  sb_duration :: "int option"
  sb_max_risk :: "risk option"
  sb_target_host :: "string option"
  sb_cli_id :: "string option"
  sb_action :: "string option"
  sb_reason :: "string option"

definition only_truthy :: "string option \<Rightarrow> string option" where
  "only_truthy x = (if truthy_str x then x else None)"

definition body_request :: "string \<Rightarrow> standing_body \<Rightarrow> string + standing_request" where
  "body_request owner b = (let grantType = nullish (sb_grant_type b) Always in
     if \<not> truthy_str (sb_delegate b) then Inl ''Missing delegate''
     else if \<not> truthy_str (sb_audience b) then Inl ''Missing audience''
     else case sb_template b of None \<Rightarrow> Inl ''resource_chain_template must be an array''
     | Some template \<Rightarrow>
       if grantType \<noteq> Timed \<and> grantType \<noteq> Always then Inl ''grant_type must be timed or always''
       else if grantType = Timed \<and> sb_duration b = None then Inl ''duration (seconds) required for timed standing grants''
       else Inr \<lparr>sr_owner = Some owner, sr_delegate = the (sb_delegate b), sr_audience = the (sb_audience b),
         sr_target_host = only_truthy (sb_target_host b), sr_cli_id = only_truthy (sb_cli_id b), sr_template = template,
         sr_action = only_truthy (sb_action b), sr_max_risk = sb_max_risk b, sr_grant_type = Some grantType,
         sr_duration = sb_duration b, sr_reason = only_truthy (sb_reason b)\<rparr>)"

definition postStandingGrant ::
  "int \<Rightarrow> string \<Rightarrow> string \<Rightarrow> standing_body \<Rightarrow> 's grant_store \<Rightarrow> 's \<Rightarrow> grant outcome \<times> 's" where
  "postStandingGrant now new_id owner b store s = (case body_request owner b of
     Inl e \<Rightarrow> (Inl (StoreError e), s)
   | Inr r \<Rightarrow> let g = (standing_grant now new_id owner r)\<lparr>gr_expires_at :=
         (if sr_grant_type r = Some Timed \<and> truthy_num (sb_duration b) then Some (now + the (sb_duration b)) else None)\<rparr> in
       (case st_save store g s of (Inl e, s') \<Rightarrow> (Inl e, s') | (Inr _, s') \<Rightarrow> (Inr g, s')))"

section \<open>Safe commands\<close>

record safe_command =
  sc_cli_id :: string
  sc_action :: string
  sc_display :: string
  sc_description :: string

definition SAFE_COMMAND_DEFAULTS :: "safe_command list" where
  "SAFE_COMMAND_DEFAULTS = map (\<lambda>(c, a, d, t). \<lparr>sc_cli_id = c, sc_action = a, sc_display = d, sc_description = t\<rparr>)
   [(''ls'', ''read'', ''List directory contents'', ''Read-only directory listing''),
    (''cat'', ''read'', ''Print file contents'', ''Read-only file read''),
    (''head'', ''read'', ''Show top of file'', ''Read-only partial file read''),
    (''tail'', ''read'', ''Show bottom of file'', ''Read-only partial file read''),
    (''wc'', ''read'', ''Count lines/words/bytes'', ''Read-only counter''),
    (''file'', ''read'', ''Detect file type'', ''Read-only metadata inspection''),
    (''stat'', ''read'', ''File metadata'', ''Read-only metadata''),
    (''which'', ''read'', ''Locate executable'', ''Read-only PATH lookup''),
    (''echo'', ''exec'', ''Echo arguments'', ''Pure output, no side effects''),
    (''date'', ''read'', ''Show date/time'', ''Read-only clock''),
    (''whoami'', ''read'', ''Current user identity'', ''Read-only identity''),
    (''pwd'', ''read'', ''Working directory'', ''Read-only directory info''),
    (''find'', ''read'', ''Search filesystem'', ''Read-only filesystem search''),
    (''grep'', ''read'', ''Search file contents'', ''Read-only text search'')]"

definition SAFE_COMMAND_REASON_DEFAULT :: string where
  "SAFE_COMMAND_REASON_DEFAULT = ''safe-command:default''"

definition SAFE_COMMAND_REASON_CUSTOM :: string where
  "SAFE_COMMAND_REASON_CUSTOM = ''safe-command:custom''"

definition buildSafeCommandRequest :: "string \<Rightarrow> string \<Rightarrow> string \<Rightarrow> string \<Rightarrow> bool \<Rightarrow> standing_request" where
  "buildSafeCommandRequest cliId action owner delegate custom =
     \<lparr>sr_owner = Some owner, sr_delegate = delegate, sr_audience = ''shapes'', sr_target_host = Some ''*'',
      sr_cli_id = Some cliId, sr_template = [], sr_action = Some action, sr_max_risk = Some Low,
      sr_grant_type = Some Always, sr_duration = None,
      sr_reason = Some (if custom then SAFE_COMMAND_REASON_CUSTOM else SAFE_COMMAND_REASON_DEFAULT)\<rparr>"

definition isSafeCommandGrant :: "grant \<Rightarrow> bool" where
  "isSafeCommandGrant g = (rq_reason (gr_request g) = Some SAFE_COMMAND_REASON_DEFAULT \<or>
     rq_reason (gr_request g) = Some SAFE_COMMAND_REASON_CUSTOM)"

definition isDefaultSafeCommandGrant :: "grant \<Rightarrow> bool" where
  "isDefaultSafeCommandGrant g = (rq_reason (gr_request g) = Some SAFE_COMMAND_REASON_DEFAULT)"

text \<open>The program a stored grant pre-authorizes by default, as the seeding reads it.\<close>

definition default_cli :: "grant \<Rightarrow> string list" where
  "default_cli g = (if gr_category g \<noteq> Some StandingGrant then []
     else if gr_status g \<noteq> Approved then []
     else if \<not> isDefaultSafeCommandGrant g then []
     else case rq_standing (gr_request g) of None \<Rightarrow> []
       | Some f \<Rightarrow> (case sf_cli_id f of None \<Rightarrow> [] | Some c \<Rightarrow> [c]))"

definition existing_defaults :: "grant list \<Rightarrow> string list" where
  "existing_defaults gs = concat (map default_cli gs)"

fun seed_loop :: "int \<Rightarrow> (nat \<Rightarrow> string) \<Rightarrow> string \<Rightarrow> string \<Rightarrow> string list \<Rightarrow> safe_command list \<Rightarrow> nat \<Rightarrow> nat
    \<Rightarrow> 's grant_store \<Rightarrow> 's \<Rightarrow> (nat \<times> nat) outcome \<times> 's" where
  "seed_loop now ids delegate owner existing [] created skipped store s = (Inr (created, skipped), s)"
| "seed_loop now ids delegate owner existing (c # cs) created skipped store s =
     (if sc_cli_id c \<in> set existing then seed_loop now ids delegate owner existing cs created (skipped + 1) store s
      else case st_save store (standing_grant now (ids created) owner
          (buildSafeCommandRequest (sc_cli_id c) (sc_action c) owner delegate False)) s of
        (Inl e, s') \<Rightarrow> (Inl e, s')
      | (Inr _, s') \<Rightarrow> seed_loop now ids delegate owner existing cs (created + 1) skipped store s')"

text \<open>\<open>ids n\<close> is the id of the grant created \<open>n\<close>-th.\<close>

definition seedDefaultSafeCommands ::
  "int \<Rightarrow> (nat \<Rightarrow> string) \<Rightarrow> string \<Rightarrow> string \<Rightarrow> 's grant_store \<Rightarrow> 's \<Rightarrow> (nat \<times> nat) outcome \<times> 's" where
  "seedDefaultSafeCommands now ids delegate owner store s =
     seed_loop now ids delegate owner (existing_defaults (st_findByRequester store delegate s))
       SAFE_COMMAND_DEFAULTS 0 0 store s"

section \<open>What a standing grant pre-authorizes\<close>

text \<open>
  The promise to the owner, stated without the matching code: the request comes from the delegate for the
  audience (and host, when one is set), the grant is in force, the program and action are the ones named,
  the risk is at most the cap, and the template is a prefix of the detail's resources whose selectors the
  template demands.
\<close>

definition template_covers :: "resource_ref list \<Rightarrow> resource_ref list \<Rightarrow> bool" where
  "template_covers template chain = (\<exists>pre post. chain = pre @ post \<and> list_all2 ref_covers_spec template pre)"

definition unset_or :: "string option \<Rightarrow> string \<Rightarrow> bool" where
  "unset_or x v = (x = None \<or> x = Some v)"

definition preauthorizes :: "int \<Rightarrow> grant_request \<Rightarrow> grant \<Rightarrow> cli_detail \<Rightarrow> bool" where
  "preauthorizes now incoming g d = (gr_status g = Approved \<and> (\<exists>r. isStandingGrantRequest (gr_request g) = Some r \<and>
     sr_delegate r = rq_requester incoming \<and> sr_audience r = rq_audience incoming \<and>
     rq_target_host (gr_request g) \<in> {[], ''*'', rq_target_host incoming} \<and>
     (gr_expires_at g \<in> {None, Some 0} \<or> now \<le> the (gr_expires_at g)) \<and>
     unset_or (sr_cli_id r) (cd_cli_id d) \<and> unset_or (sr_action r) (cd_action d) \<and>
     (\<forall>m. sr_max_risk r = Some m \<longrightarrow> cd_risk d \<le> m) \<and> template_covers (sr_template r) (cd_resource_chain d)))"

lemma standing_host: "isStandingGrantRequest q = Some r \<Longrightarrow> sr_target_host r = Some (rq_target_host q)"
  by (auto simp: isStandingGrantRequest_def split: option.splits if_splits)

lemma coversDetail_iff:
  assumes "chain_wf (sr_template r)" "chain_wf (cd_resource_chain d)" "cd_type d = ''openape_cli''"
  shows "coversDetail coll r d \<longleftrightarrow> unset_or (sr_cli_id r) (cd_cli_id d) \<and> unset_or (sr_action r) (cd_action d) \<and>
    (\<forall>m. sr_max_risk r = Some m \<longrightarrow> cd_risk d \<le> m) \<and> template_covers (sr_template r) (cd_resource_chain d)"
proof -
  let ?t = "buildCoverageDetailFromStandingGrant coll r d"
  have t: "cd_resource_chain ?t = sr_template r" "cd_cli_id ?t = nullish (sr_cli_id r) (cd_cli_id d)"
      "cd_action ?t = nullish (sr_action r) (cd_action d)" "cd_type ?t = ''openape_cli''"
    by (simp_all add: buildCoverageDetailFromStandingGrant_def Let_def)
  have c: "cliAuthorizationDetailCovers coll ?t d \<longleftrightarrow> nullish (sr_cli_id r) (cd_cli_id d) = cd_cli_id d \<and>
      nullish (sr_action r) (cd_action d) = cd_action d \<and> template_covers (sr_template r) (cd_resource_chain d)"
    using covers_iff_spec [of ?t d coll] assms t by (auto simp: covers_spec_def template_covers_def)
  have risk: "(case sr_max_risk r of None \<Rightarrow> False | Some m \<Rightarrow> m < cd_risk d) \<longleftrightarrow> \<not> (\<forall>m. sr_max_risk r = Some m \<longrightarrow> cd_risk d \<le> m)"
    by (auto split: option.splits)
  show ?thesis
    unfolding coversDetail_def c risk unset_or_def
    by (cases "sr_cli_id r"; cases "sr_action r") (auto simp: truthy_str_def)
qed

lemma applicable_iff:
  "(i, r) \<in> set (applicable now incoming g) \<longleftrightarrow> i = gr_id g \<and> gr_status g = Approved \<and>
     isStandingGrantRequest (gr_request g) = Some r \<and> sr_delegate r = rq_requester incoming \<and>
     sr_audience r = rq_audience incoming \<and> rq_target_host (gr_request g) \<in> {[], ''*'', rq_target_host incoming} \<and>
     (gr_expires_at g \<in> {None, Some 0} \<or> now \<le> the (gr_expires_at g))"
proof (cases "isStandingGrantRequest (gr_request g)")
  case (Some q)
  have h: "truthy_str (sr_target_host q) \<and> sr_target_host q \<noteq> Some ''*'' \<and> sr_target_host q \<noteq> Some (rq_target_host incoming) \<longleftrightarrow>
      rq_target_host (gr_request g) \<notin> {[], ''*'', rq_target_host incoming}"
    using standing_host [OF Some] by (auto simp: truthy_str_def)
  have e: "truthy_num (gr_expires_at g) \<and> the (gr_expires_at g) < now \<longleftrightarrow>
      \<not> (gr_expires_at g \<in> {None, Some 0} \<or> now \<le> the (gr_expires_at g))"
    by (cases "gr_expires_at g") (auto simp: truthy_num_def)
  show ?thesis unfolding applicable_def Some option.case h e by auto
qed (simp add: applicable_def)

lemma preauthorizes_iff:
  assumes "\<And>r. isStandingGrantRequest (gr_request g) = Some r \<Longrightarrow> chain_wf (sr_template r)"
    and "chain_wf (cd_resource_chain d)" "cd_type d = ''openape_cli''"
  shows "preauthorizes now incoming g d \<longleftrightarrow> (\<exists>r. (gr_id g, r) \<in> set (applicable now incoming g) \<and> coversDetail coll r d)"
  unfolding preauthorizes_def applicable_iff using coversDetail_iff assms by blast

lemma cover_each_iff:
  "(cover_each coll app primary ds \<noteq> None) \<longleftrightarrow>
     (\<forall>d\<in>set ds. \<exists>(i, r)\<in>set app. coversDetail coll r d) \<and> (ds = [] \<longrightarrow> primary \<noteq> None)"
proof (induction ds arbitrary: primary)
  case (Cons d ds)
  show ?case
  proof (cases "List.find (\<lambda>(i, r). coversDetail coll r d) app")
    case None
    then have "\<not> (\<exists>(i, r)\<in>set app. coversDetail coll r d)" by (auto simp: find_None_iff)
    with None show ?thesis by simp
  next
    case (Some x)
    then have "\<exists>(i, r)\<in>set app. coversDetail coll r d" using find_Some_mem by fastforce
    with Some Cons.IH show ?thesis by (cases x) simp
  qed
qed simp

lemma cover_each_start:
  "ds \<noteq> [] \<and> app \<noteq> [] \<and> cover_each coll app None ds \<noteq> None \<longleftrightarrow>
     ds \<noteq> [] \<and> (\<forall>d\<in>set ds. \<exists>(i, r)\<in>set app. coversDetail coll r d)"
  unfolding cover_each_iff by (cases ds; cases app) auto

lemma cover_each_primary:
  "cover_each coll app primary ds = Some i \<Longrightarrow> (primary = Some i \<or>
     primary = None \<and> (\<exists>r. ds \<noteq> [] \<and> (i, r) \<in> set app \<and> coversDetail coll r (hd ds)))"
proof (induction ds arbitrary: primary)
  case (Cons d ds)
  then obtain j r where f: "List.find (\<lambda>(i, r). coversDetail coll r d) app = Some (j, r)"
      and c: "cover_each coll app (Some (nullish primary j)) ds = Some i"
    by (auto split: option.splits)
  have "i = nullish primary j" using Cons.IH [OF c] by simp
  then show ?case using find_Some_mem [OF f] by (cases primary) auto
qed simp

definition templates_wf :: "grant list \<Rightarrow> bool" where
  "templates_wf gs = list_all (\<lambda>g. case isStandingGrantRequest (gr_request g) of None \<Rightarrow> True | Some r \<Rightarrow> chain_wf (sr_template r)) gs"

lemma templates_wfD: "templates_wf gs \<Longrightarrow> g \<in> set gs \<Longrightarrow> isStandingGrantRequest (gr_request g) = Some r \<Longrightarrow> chain_wf (sr_template r)"
  unfolding templates_wf_def list_all_iff by fastforce

lemma app_covers_iff:
  assumes "templates_wf gs" "chain_wf (cd_resource_chain d)" "cd_type d = ''openape_cli''"
  shows "(\<exists>(i, r)\<in>set (concat (map (applicable now incoming) gs)). coversDetail coll r d) \<longleftrightarrow>
    (\<exists>g\<in>set gs. preauthorizes now incoming g d)"
proof -
  have i: "i = gr_id g" if "(i, r) \<in> set (applicable now incoming g)" for i r and g :: grant
    using that by (simp add: applicable_iff)
  have "(\<exists>(i, r)\<in>set (concat (map (applicable now incoming) gs)). coversDetail coll r d) \<longleftrightarrow>
      (\<exists>g\<in>set gs. \<exists>i r. (i, r) \<in> set (applicable now incoming g) \<and> coversDetail coll r d)"
    by (simp add: Bex_def) blast
  also have "\<dots> \<longleftrightarrow> (\<exists>g\<in>set gs. \<exists>r. (gr_id g, r) \<in> set (applicable now incoming g) \<and> coversDetail coll r d)"
    using i by blast
  also have "\<dots> \<longleftrightarrow> (\<exists>g\<in>set gs. preauthorizes now incoming g d)"
  proof (rule bex_cong [OF refl])
    fix g :: grant assume "g \<in> set gs"
    then show "(\<exists>r. (gr_id g, r) \<in> set (applicable now incoming g) \<and> coversDetail coll r d) = preauthorizes now incoming g d"
      using preauthorizes_iff [of g d now incoming coll] templates_wfD [OF assms(1)] assms(2,3) by blast
  qed
  finally show ?thesis .
qed

lemma evaluate_Some_iff:
  assumes "templates_wf (st_findByRequester store (rq_requester incoming) s)"
    and "\<forall>d\<in>set (cliDetails (rq_authorization_details incoming)). chain_wf (cd_resource_chain d)"
  shows "evaluateStandingGrants coll now incoming store s \<noteq> None \<longleftrightarrow>
    cliDetails (rq_authorization_details incoming) \<noteq> [] \<and>
    (\<forall>d\<in>set (cliDetails (rq_authorization_details incoming)).
       \<exists>g\<in>set (st_findByRequester store (rq_requester incoming) s). preauthorizes now incoming g d)"
proof -
  let ?ds = "cliDetails (rq_authorization_details incoming)"
  let ?gs = "st_findByRequester store (rq_requester incoming) s"
  let ?app = "concat (map (applicable now incoming) ?gs)"
  have "evaluateStandingGrants coll now incoming store s \<noteq> None \<longleftrightarrow>
      ?ds \<noteq> [] \<and> ?app \<noteq> [] \<and> cover_each coll ?app None ?ds \<noteq> None"
    by (simp add: evaluateStandingGrants_def Let_def split: option.split)
  also have "\<dots> \<longleftrightarrow> ?ds \<noteq> [] \<and> (\<forall>d\<in>set ?ds. \<exists>(i, r)\<in>set ?app. coversDetail coll r d)"
    by (rule cover_each_start)
  also have "\<dots> \<longleftrightarrow> ?ds \<noteq> [] \<and> (\<forall>d\<in>set ?ds. \<exists>g\<in>set ?gs. preauthorizes now incoming g d)"
    using app_covers_iff [OF assms(1)] assms(2) cliDetails_type by blast
  finally show ?thesis .
qed

text \<open>The grant a standing decision is attributed to.\<close>

lemma evaluate_attributed:
  assumes "evaluateStandingGrants coll now incoming store s = Some m"
    and "templates_wf (st_findByRequester store (rq_requester incoming) s)"
    and "\<forall>d\<in>set (cliDetails (rq_authorization_details incoming)). chain_wf (cd_resource_chain d)"
  shows "\<exists>g\<in>set (st_findByRequester store (rq_requester incoming) s). gr_id g = mt_standing_grant_id m \<and>
    preauthorizes now incoming g (hd (cliDetails (rq_authorization_details incoming)))"
proof -
  let ?ds = "cliDetails (rq_authorization_details incoming)"
  let ?gs = "st_findByRequester store (rq_requester incoming) s"
  have m: "?ds \<noteq> []" "cover_each coll (concat (map (applicable now incoming) ?gs)) None ?ds = Some (mt_standing_grant_id m)"
    using assms(1) by (auto simp: evaluateStandingGrants_def Let_def split: if_splits option.splits)
  obtain r g where g: "g \<in> set ?gs" "(mt_standing_grant_id m, r) \<in> set (applicable now incoming g)" "coversDetail coll r (hd ?ds)"
    using cover_each_primary [OF m(2)] by auto
  have hd: "hd ?ds \<in> set ?ds" using m(1) by simp
  have i: "gr_id g = mt_standing_grant_id m" using g(2) by (simp add: applicable_iff)
  have "preauthorizes now incoming g (hd ?ds) \<longleftrightarrow> (\<exists>r. (gr_id g, r) \<in> set (applicable now incoming g) \<and> coversDetail coll r (hd ?ds))"
    by (rule preauthorizes_iff [OF templates_wfD [OF assms(2) g(1)] bspec [OF assms(3) hd] cliDetails_type [OF hd]])
  then have "preauthorizes now incoming g (hd ?ds)" using g(2,3) unfolding i [symmetric] by blast
  with g(1) i show ?thesis by blast
qed

section \<open>Seeding\<close>

lemma mem_grants_put_fresh: "mem_findById i s = None \<Longrightarrow> mem_grants (put_grant i g s) = mem_grants s @ [g]"
proof -
  have u: "map_of m i = None \<Longrightarrow> AList.update i g m = m @ [(i, g)]" for m
    by (induction m) (auto split: if_splits)
  assume "mem_findById i s = None"
  then show ?thesis by (simp add: mem_grants_def put_grant_def mem_findById_def u)
qed

lemma stored_safe_simps [simp]:
  "rq_requester (stored_standing r) = sr_delegate r" "rq_reference (stored_standing r) = None"
  "rq_reason (stored_standing r) = sr_reason r" "gr_request (standing_grant now i own r) = stored_standing r"
  "gr_id (standing_grant now i own r) = i" "gr_status (standing_grant now i own r) = Approved"
  "gr_category (standing_grant now i own r) = Some StandingGrant"
  "rq_target_host (stored_standing r) = nullish (sr_target_host r) ''*''" "gr_expires_at (standing_grant now i own r) = None"
  by (simp_all add: stored_standing_def plain_request_def standing_grant_def new_grant_def)

lemma default_cli_seeded:
  "default_cli (standing_grant now i own (buildSafeCommandRequest c a own d False)) = [c]"
  by (simp add: default_cli_def isDefaultSafeCommandGrant_def)
    (simp add: stored_standing_def buildSafeCommandRequest_def)

lemma seeded_requester [simp]: "sr_delegate (buildSafeCommandRequest c a own d x) = d"
  by (simp add: buildSafeCommandRequest_def)

abbreviation seeded :: "string \<Rightarrow> mem_store \<Rightarrow> string set" where
  "seeded d s \<equiv> set (existing_defaults (mem_findByRequester d s))"

lemma seeded_put:
  assumes "mem_findById i s = None"
  shows "seeded d (put_grant i (standing_grant now i own (buildSafeCommandRequest c a own d False)) s) = insert c (seeded d s)"
  using assms by (auto simp: mem_findByRequester_def mem_grants_put_fresh existing_defaults_def default_cli_seeded)

lemma seed_loop_ok:
  assumes "inj ids" "\<And>n. k \<le> n \<Longrightarrow> mem_findById (ids n) s = None"
  shows "\<exists>c' k' s'. seed_loop now ids d own existing cs k sk InMemoryGrantStore s = (Inr (c', k'), s') \<and>
    seeded d s' = seeded d s \<union> {sc_cli_id c |c. c \<in> set cs \<and> sc_cli_id c \<notin> set existing} \<and>
    c' = k + length (filter (\<lambda>c. sc_cli_id c \<notin> set existing) cs) \<and> k' + c' = sk + k + length cs"
  using assms(2)
proof (induction cs arbitrary: k sk s)
  case (Cons c cs)
  show ?case
  proof (cases "sc_cli_id c \<in> set existing")
    case True
    from Cons.IH [where k = k and s = s and sk = "sk + 1", OF Cons.prems] True show ?thesis by auto
  next
    case False
    let ?g = "standing_grant now (ids k) own (buildSafeCommandRequest (sc_cli_id c) (sc_action c) own d False)"
    have new: "mem_findById (ids n) (put_grant (ids k) ?g s) = None" if "Suc k \<le> n" for n
      using Cons.prems [of n] assms(1) that by (auto dest: injD)
    have step: "seed_loop now ids d own existing (c # cs) k sk InMemoryGrantStore s =
        seed_loop now ids d own existing cs (k + 1) sk InMemoryGrantStore (put_grant (ids k) ?g s)"
      using False by (simp add: mem_save_def)
    have "seeded d (put_grant (ids k) ?g s) = insert (sc_cli_id c) (seeded d s)"
      by (rule seeded_put [OF Cons.prems]) simp
    with Cons.IH [where k = "Suc k" and s = "put_grant (ids k) ?g s" and sk = sk] new step False show ?thesis by auto
  qed
qed simp

lemma seed_loop_skips:
  "(\<And>c. c \<in> set cs \<Longrightarrow> sc_cli_id c \<in> set existing) \<Longrightarrow>
   seed_loop now ids d own existing cs k sk store s = (Inr (k, sk + length cs), s)"
  by (induction cs arbitrary: sk) simp_all

section \<open>Properties\<close>

text \<open>
  C5. Pre-authorization is exactly what the owners promised: a request is approved by standing grants if and
  only if it names at least one program detail and every one of its details is pre-authorized by some
  standing grant stored for its requester - in force, for that audience and host, for that program and
  action, within the risk cap, with a template that is a prefix of the detail's resources.
\<close>

theorem standing_approval_iff:
  assumes "templates_wf (st_findByRequester store (rq_requester incoming) s)"
    and "\<forall>d\<in>set (cliDetails (rq_authorization_details incoming)). chain_wf (cd_resource_chain d)"
  shows "evaluateStandingGrants coll now incoming store s \<noteq> None \<longleftrightarrow>
    cliDetails (rq_authorization_details incoming) \<noteq> [] \<and>
    (\<forall>d\<in>set (cliDetails (rq_authorization_details incoming)).
       \<exists>g\<in>set (st_findByRequester store (rq_requester incoming) s). preauthorizes now incoming g d)"
  by (rule evaluate_Some_iff [OF assms])

definition ls_request :: "string \<Rightarrow> grant_request" where
  "ls_request cli = (plain_request ''bot'' ''host'' ''shapes'')\<lparr>
     rq_authorization_details := Some [CliDetail (simple_detail cli [ref ''file'' [(''path'', ''/tmp'')]] ''read'')]\<rparr>"

definition ls_store :: mem_store where
  "ls_store = put_grant ''s'' (standing_grant 1 ''s'' ''me'' (buildSafeCommandRequest ''ls'' ''read'' ''me'' ''bot'' False)) empty_mem"

lemma ls_details: "cliDetails (rq_authorization_details (ls_request c)) = [simple_detail c [ref ''file'' [(''path'', ''/tmp'')]] ''read'']"
  by (simp add: ls_request_def simple_detail_def)

lemma ls_found: "mem_findByRequester ''bot'' ls_store =
    [standing_grant 1 ''s'' ''me'' (buildSafeCommandRequest ''ls'' ''read'' ''me'' ''bot'' False)]"
proof -
  have "mem_findById ''s'' empty_mem = None" "mem_grants empty_mem = []"
    by (simp_all add: mem_findById_def mem_grants_def empty_mem_def)
  then show ?thesis by (simp add: ls_store_def mem_findByRequester_def mem_grants_put_fresh)
qed

lemma ls_requester [simp]: "rq_requester (ls_request c) = ''bot''"
  by (simp add: ls_request_def plain_request_def)

theorem standing_approval_iff_witness:
  "evaluateStandingGrants (\<le>) 5 (ls_request ''ls'') InMemoryGrantStore ls_store \<noteq> None \<and>
   evaluateStandingGrants (\<le>) 5 (ls_request ''rm'') InMemoryGrantStore ls_store = None"
proof -
  let ?r = "buildSafeCommandRequest ''ls'' ''read'' ''me'' ''bot'' False"
  let ?g = "standing_grant 1 ''s'' ''me'' ?r"
  have r: "isStandingGrantRequest (stored_standing ?r) = Some ?r"
    by (simp add: isStandingGrantRequest_def stored_standing_def plain_request_def buildSafeCommandRequest_def)
  have wf: "templates_wf (st_findByRequester InMemoryGrantStore (rq_requester (ls_request c)) ls_store)" for c
    by (simp add: ls_found templates_wf_def r) (simp add: buildSafeCommandRequest_def)
  have dwf: "\<forall>d\<in>set (cliDetails (rq_authorization_details (ls_request c))). chain_wf (cd_resource_chain d)" for c
    by (simp add: ls_details)
  have p: "preauthorizes 5 (ls_request c) ?g (simple_detail c [ref ''file'' [(''path'', ''/tmp'')]] ''read'') \<longleftrightarrow> c = ''ls''" for c
    by (simp add: preauthorizes_def r) (auto simp: buildSafeCommandRequest_def ls_request_def plain_request_def
      template_covers_def unset_or_def simple_detail_def)
  have "(evaluateStandingGrants (\<le>) 5 (ls_request c) InMemoryGrantStore ls_store \<noteq> None) = (c = ''ls'')" for c
    unfolding standing_approval_iff [OF wf dwf] by (simp add: ls_details ls_found p)
  from this [of "''ls''"] this [of "''rm''"] show ?thesis by simp
qed

text \<open>
  The grant a decision is attributed to pre-authorizes the first detail of the request, and the approved
  details are those of the request, unchanged.
\<close>

theorem standing_attribution:
  assumes "evaluateStandingGrants coll now incoming store s = Some m"
    and "templates_wf (st_findByRequester store (rq_requester incoming) s)"
    and "\<forall>d\<in>set (cliDetails (rq_authorization_details incoming)). chain_wf (cd_resource_chain d)"
  shows "mt_derived m = cliDetails (rq_authorization_details incoming) \<and>
    (\<exists>g\<in>set (st_findByRequester store (rq_requester incoming) s). gr_id g = mt_standing_grant_id m \<and>
       preauthorizes now incoming g (hd (cliDetails (rq_authorization_details incoming))))"
  using evaluate_attributed [OF assms] assms(1)
  by (auto simp: evaluateStandingGrants_def Let_def split: if_splits option.splits)

theorem standing_attribution_witness:
  "\<exists>m. evaluateStandingGrants (\<le>) 5 (ls_request ''ls'') InMemoryGrantStore ls_store = Some m \<and> mt_standing_grant_id m = ''s''"
proof -
  let ?r = "buildSafeCommandRequest ''ls'' ''read'' ''me'' ''bot'' False"
  have r: "isStandingGrantRequest (stored_standing ?r) = Some ?r"
    by (simp add: isStandingGrantRequest_def stored_standing_def plain_request_def buildSafeCommandRequest_def)
  have wf: "templates_wf (st_findByRequester InMemoryGrantStore (rq_requester (ls_request ''ls'')) ls_store)"
    by (simp add: ls_found templates_wf_def r) (simp add: buildSafeCommandRequest_def)
  have dwf: "\<forall>d\<in>set (cliDetails (rq_authorization_details (ls_request ''ls''))). chain_wf (cd_resource_chain d)"
    by (simp add: ls_details)
  have "preauthorizes 5 (ls_request ''ls'') (standing_grant 1 ''s'' ''me'' ?r) (simple_detail ''ls'' [ref ''file'' [(''path'', ''/tmp'')]] ''read'')"
    by (simp add: preauthorizes_def r) (auto simp: buildSafeCommandRequest_def ls_request_def plain_request_def
      template_covers_def unset_or_def simple_detail_def)
  then obtain m where m: "evaluateStandingGrants (\<le>) 5 (ls_request ''ls'') InMemoryGrantStore ls_store = Some m"
    using evaluate_Some_iff [OF wf dwf, of "(\<le>)" 5] by (auto simp: ls_details ls_found)
  have "mt_standing_grant_id m = ''s''"
    using standing_attribution [OF m wf dwf] by (simp add: ls_found)
  with m show ?thesis by blast
qed

text \<open>
  Seeding the default safe commands is idempotent: the first run adds a standing grant for exactly the
  default programs that had none, and a second run, at any time and with any ids, adds none.
\<close>

theorem seeding_idempotent:
  assumes "inj ids" "\<And>n. mem_findById (ids n) s = None"
  shows "\<exists>created skipped s'. seedDefaultSafeCommands now ids delegate owner InMemoryGrantStore s = (Inr (created, skipped), s') \<and>
    created + skipped = length SAFE_COMMAND_DEFAULTS \<and>
    set (existing_defaults (mem_findByRequester delegate s')) =
      set (existing_defaults (mem_findByRequester delegate s)) \<union> set (map sc_cli_id SAFE_COMMAND_DEFAULTS) \<and>
    seedDefaultSafeCommands later ids2 delegate owner InMemoryGrantStore s' = (Inr (0, length SAFE_COMMAND_DEFAULTS), s')"
proof -
  let ?e = "existing_defaults (mem_findByRequester delegate s)"
  obtain c k s' where r: "seedDefaultSafeCommands now ids delegate owner InMemoryGrantStore s = (Inr (c, k), s')"
      "seeded delegate s' = seeded delegate s \<union> {sc_cli_id x |x. x \<in> set SAFE_COMMAND_DEFAULTS \<and> sc_cli_id x \<notin> set ?e}"
      "k + c = length SAFE_COMMAND_DEFAULTS"
    using seed_loop_ok [OF assms(1), of 0 s now delegate owner ?e SAFE_COMMAND_DEFAULTS 0] assms(2)
    by (auto simp: seedDefaultSafeCommands_def)
  have all: "seeded delegate s' = seeded delegate s \<union> set (map sc_cli_id SAFE_COMMAND_DEFAULTS)" unfolding r(2) by auto
  then have "sc_cli_id x \<in> seeded delegate s'" if "x \<in> set SAFE_COMMAND_DEFAULTS" for x using that by auto
  then have "seedDefaultSafeCommands later ids2 delegate owner InMemoryGrantStore s' = (Inr (0, length SAFE_COMMAND_DEFAULTS), s')"
    unfolding seedDefaultSafeCommands_def mem_store_simps by (subst seed_loop_skips) simp_all
  with r(1,3) all show ?thesis by (auto simp: add.commute)
qed

theorem seeding_idempotent_witness:
  "\<exists>s'. seedDefaultSafeCommands 5 (\<lambda>n. replicate n (CHR ''x'')) ''bot'' ''me'' InMemoryGrantStore empty_mem = (Inr (14, 0), s') \<and>
     seedDefaultSafeCommands 9 (\<lambda>n. ''y'') ''bot'' ''me'' InMemoryGrantStore s' = (Inr (0, 14), s')"
proof -
  let ?ids = "\<lambda>n. replicate n (CHR ''x'')"
  have inj: "inj ?ids" by (rule injI) (metis length_replicate)
  have fresh: "mem_findById (?ids n) empty_mem = None" for n by (simp add: mem_findById_def empty_mem_def)
  obtain c k s' where r: "seedDefaultSafeCommands 5 ?ids ''bot'' ''me'' InMemoryGrantStore empty_mem = (Inr (c, k), s')"
    "c + k = length SAFE_COMMAND_DEFAULTS"
    "seedDefaultSafeCommands 9 (\<lambda>n. ''y'') ''bot'' ''me'' InMemoryGrantStore s' = (Inr (0, length SAFE_COMMAND_DEFAULTS), s')"
    using seeding_idempotent [OF inj fresh, of 5 "''bot''" "''me''" 9 "\<lambda>n. ''y''"] by blast
  have e: "existing_defaults (mem_findByRequester ''bot'' empty_mem) = []"
    by (simp add: existing_defaults_def mem_findByRequester_def mem_grants_def empty_mem_def)
  have "c = length (filter (\<lambda>c. sc_cli_id c \<notin> set []) SAFE_COMMAND_DEFAULTS)"
    using seed_loop_ok [OF inj, of 0 empty_mem 5 "''bot''" "''me''" "[]" SAFE_COMMAND_DEFAULTS 0] fresh r(1)
    by (auto simp: seedDefaultSafeCommands_def e)
  then have "c = 14" by (simp add: SAFE_COMMAND_DEFAULTS_def)
  moreover have l: "length SAFE_COMMAND_DEFAULTS = 14" by (simp add: SAFE_COMMAND_DEFAULTS_def)
  ultimately show ?thesis using r by auto
qed

text \<open>
  A timed standing grant posted with duration 0 never ends: the handler accepts it, stores no expiry,
  and no time makes it expired.
\<close>

theorem zero_duration_never_ends:
  assumes "postStandingGrant now new_id owner b store s = (Inr g, s')" "sb_grant_type b = Some Timed" "sb_duration b = Some 0"
  shows "rq_grant_type (gr_request g) = Some Timed \<and> gr_expires_at g = None \<and> \<not> isGrantExpired g later \<and>
    applicable later incoming g = applicable now incoming g"
proof -
  obtain r where r: "body_request owner b = Inr r" using assms(1) by (cases "body_request owner b") (simp_all add: postStandingGrant_def)
  have t: "sr_grant_type r = Some Timed" using r assms(2) by (auto simp: body_request_def Let_def split: if_splits option.splits)
  have "g = standing_grant now new_id owner r"
    using assms(1,3) by (auto simp: postStandingGrant_def r Let_def truthy_num_def standing_grant_def new_grant_def split: prod.splits sum.splits)
  then have g: "gr_expires_at g = None" "rq_grant_type (gr_request g) = Some Timed"
    using t by (simp_all add: stored_standing_def)
  have "applicable later incoming g = applicable now incoming g"
    unfolding applicable_def g(1) by (simp only: truthy_num_def option.case simp_thms if_False)
  with g show ?thesis by (simp add: isGrantExpired_def truthy_num_def)
qed

theorem zero_duration_never_ends_witness:
  "\<exists>g s'. postStandingGrant 5 ''s'' ''me'' \<lparr>sb_delegate = Some ''bot'', sb_audience = Some ''shapes'', sb_template = Some [],
      sb_grant_type = Some Timed, sb_duration = Some 0, sb_max_risk = None, sb_target_host = None, sb_cli_id = None,
      sb_action = None, sb_reason = None\<rparr> InMemoryGrantStore empty_mem = (Inr g, s') \<and> \<not> isGrantExpired g 1000000"
proof -
  let ?b = "\<lparr>sb_delegate = Some ''bot'', sb_audience = Some ''shapes'', sb_template = Some [],
      sb_grant_type = Some Timed, sb_duration = Some 0, sb_max_risk = None, sb_target_host = None, sb_cli_id = None,
      sb_action = None, sb_reason = None\<rparr>"
  obtain g s' where p: "postStandingGrant 5 ''s'' ''me'' ?b InMemoryGrantStore empty_mem = (Inr g, s')"
    by (simp add: postStandingGrant_def body_request_def mem_save_def truthy_str_def truthy_num_def only_truthy_def Let_def)
  from zero_duration_never_ends [OF p] p show ?thesis by auto
qed

end
