(* ===== verification/ProgramAuthorize.thy ===== *)
theory ProgramAuthorize
  imports ProgramCall StandingGrants
begin

text \<open>
  The decision of a program call: \<open>modules/nuxt-auth-idp/src/runtime/server/utils/program-authorize.ts\<close> with
  \<open>grant-reference.ts\<close> of the same directory, over a store of the interface. What is not in the sources or
  only informs somebody is a field of \<open>program_env\<close>: the shape store, the hashes, the pre-approval hooks, the
  signature. Notifications and audit calls change no state of the model. Between the read of a
  grant and the claim that spends it other requests may run: \<open>other k\<close> is what they do to the store during
  attempt \<open>k\<close>.
\<close>

section \<open>Environment, answers, errors\<close>

record program_env =
  en_coll :: "string \<Rightarrow> string \<Rightarrow> bool"
  en_sha :: "string \<Rightarrow> string"
  en_cmd_hash :: "string \<Rightarrow> string"
  en_shape_store :: shape_store
  en_now :: int
  en_new_id :: "nat \<Rightarrow> string"
  en_jti :: "nat \<Rightarrow> string"
  en_issuer :: string
  en_sign :: "authz_claims \<Rightarrow> string"
  en_pre_approval :: "grant_request \<Rightarrow> (string \<times> string) option"

datatype approval_query = ByBatch string string | ByGrant string

datatype authorize_answer =
    AnswerApproved string authz_claims int
  | AnswerPending string approval_query
  | AnswerRefused grant_status string

datatype authorize_error =
    BadCall program_error
  | BadBatch string
  | BadReference grant_error
  | CommandTooLarge
  | ConcurrentlySpent
  | Unsupported
  | InnerError grant_error

record authorize_input =
  in_requester :: string
  in_request :: program_request
  in_brokered :: "brokered_grant option"
  in_shapeOwner :: "string option"

section \<open>Requests\<close>

definition grantRequestFor :: "string \<Rightarrow> program_request \<Rightarrow> program_call \<Rightarrow> string \<Rightarrow> grant_request" where
  "grantRequestFor requester r call cmdHash = (plain_request requester (pr_target_host r) (pr_audience r))\<lparr>
     rq_grant_type := Some (if pc_requiresOnce call then Once else pr_grant_type r),
     rq_permissions := Some [cd_permission (pc_detail call)], rq_authorization_details := Some [CliDetail (pc_detail call)],
     rq_command := Some (pc_executionArgv call), rq_cmd_hash := Some cmdHash, rq_execution_context := Some (pc_context call),
     rq_summary := pr_summary r, rq_batch := pr_batch r, rq_reference := pr_reference r\<rparr>"

definition requestReferencedGrant :: "int \<Rightarrow> string \<Rightarrow> grant_request \<Rightarrow> brokered_grant option \<Rightarrow> 's grant_store \<Rightarrow> 's
    \<Rightarrow> (authorize_error + (grant \<times> bool)) \<times> 's" where
  "requestReferencedGrant now new_id request brokered store s = (case assertGrantReferenceRequest request of
     Inl e \<Rightarrow> (Inl (BadReference e), s)
   | Inr _ \<Rightarrow>
     if \<not> truthy_str (rq_reference request) then (Inl (BadReference (InvalidGrantReference ''A reference is required'')), s)
     else (case st_createReferenced store of None \<Rightarrow> (Inl Unsupported, s)
     | Some create \<Rightarrow>
       let candidate = (new_grant new_id (Some CommandGrant) request Pending now)\<lparr>gr_brokered := brokered\<rparr> in
       (case st_listGrants store (no_params\<lparr>lp_reference_key := Some (grantReferenceKey (rq_requester request)
            (the (rq_reference request)) brokered), lp_limit := Some 1\<rparr>) s of
          Inl e \<Rightarrow> (Inl (InnerError e), s)
        | Inr page \<Rightarrow> (case pg_data page of
            g # _ \<Rightarrow> (case assertSameReferencedGrant g candidate of
                Inl e \<Rightarrow> (Inl (BadReference e), s) | Inr _ \<Rightarrow> (Inr (g, False), s))
          | [] \<Rightarrow> (case assertGrantBatchMember request store s of
                Inl e \<Rightarrow> (Inl (BadReference e), s)
              | Inr _ \<Rightarrow> (case create candidate s of
                  (Inl e, s') \<Rightarrow> (Inl (BadReference e), s') | (Inr r, s') \<Rightarrow> (Inr r, s')))))))"

definition call_token :: "program_call \<Rightarrow> command_call" where
  "call_token call = \<lparr>cc_argvHash = pc_argvHash call, cc_programSha256 = nullish (ec_program_sha256 (pc_context call)) [],
     cc_detail = pc_detail call, cc_executionContext = pc_context call\<rparr>"

text \<open>
  \<open>approvedAnswer\<close>: no answer (\<open>None\<close>) when the grant is single-use and another call spent it first. The
  extended store of the module always has \<open>claimOnce\<close>.
\<close>

definition approvedAnswer :: "program_env \<Rightarrow> nat \<Rightarrow> ('s \<Rightarrow> 's) \<Rightarrow> grant \<Rightarrow> program_call \<Rightarrow> 's grant_store \<Rightarrow> 's
    \<Rightarrow> (authorize_error + authorize_answer option) \<times> 's" where
  "approvedAnswer env k others g call store s =
     (case issueCommandJWT (en_now env) (en_jti env k) (en_issuer env) (call_token call) g of
        Inl e \<Rightarrow> (Inl (InnerError e), s)
      | Inr (c, expiresAt) \<Rightarrow>
        if length (en_sign env c) > PROGRAM_AUTHORIZE_LIMITS_tokenChars then (Inl CommandTooLarge, s)
        else if nullish (rq_grant_type (gr_request g)) Once = Once
        then (case st_claimOnce store of None \<Rightarrow> (Inl Unsupported, s)
          | Some claim \<Rightarrow> (case claim (gr_id g) (en_now env) (others s) of
              (won, s') \<Rightarrow> (Inr (if won then Some (AnswerApproved (gr_id g) c expiresAt) else None), s')))
        else (Inr (Some (AnswerApproved (gr_id g) c expiresAt)), s))"

definition pendingAnswer :: "grant \<Rightarrow> authorize_answer" where
  "pendingAnswer g = AnswerPending (gr_id g) (case rq_batch (gr_request g) of
     Some b \<Rightarrow> ByBatch (rq_requester (gr_request g)) (gb_id b) | None \<Rightarrow> ByGrant (gr_id g))"

definition autoApprove :: "int \<Rightarrow> string \<Rightarrow> grant_request \<Rightarrow> grant_patch \<Rightarrow> 's grant_store \<Rightarrow> 's \<Rightarrow> grant outcome \<times> 's" where
  "autoApprove now new_id request extra store s = (case createGrant now new_id request store s of
     (Inl e, s1) \<Rightarrow> (Inl e, s1)
   | (Inr pending, s1) \<Rightarrow> (case st_updateStatus store (gr_id pending) Approved (extra\<lparr>p_decided_at := Some now\<rparr>) s1 of
       (Inl e, s2) \<Rightarrow> (Inl e, s2)
     | (Inr _, s2) \<Rightarrow> (case st_findById store (gr_id pending) s2 of
         None \<Rightarrow> (Inl (StoreError ''Auto-approved grant disappeared''), s2) | Some g \<Rightarrow> (Inr g, s2))))"

definition requestDecision :: "int \<Rightarrow> string \<Rightarrow> grant_request \<Rightarrow> brokered_grant option \<Rightarrow> 's grant_store \<Rightarrow> 's
    \<Rightarrow> grant outcome \<times> 's" where
  "requestDecision now new_id request brokered store s = (case brokered of
     Some b \<Rightarrow> let g = (new_grant new_id (Some CommandGrant) request Pending now)\<lparr>gr_brokered := Some b\<rparr> in
       (case st_save store g s of (Inl e, s') \<Rightarrow> (Inl e, s') | (Inr _, s') \<Rightarrow> (Inr g, s'))
   | None \<Rightarrow> createGrant now new_id request store s)"

section \<open>Deciding\<close>

definition resolveCall :: "program_env \<Rightarrow> program_request \<Rightarrow> string option \<Rightarrow> authorize_error + program_call" where
  "resolveCall env r shapeOwner = (let sc = shapeScopeOf shapeOwner in
     case resolveProgramCall (en_coll env) (en_sha env) (view_shapes (en_coll env) sc (en_shape_store env))
       (\<lambda>i. view_getShape (en_coll env) sc i (en_shape_store env)) r of
       Inl e \<Rightarrow> Inl (BadCall e) | Inr call \<Rightarrow> Inr call)"

definition call_scope_of :: "program_request \<Rightarrow> program_call \<Rightarrow> call_scope" where
  "call_scope_of r call = \<lparr>cs_target_host = pr_target_host r, cs_audience = pr_audience r, cs_detail = pc_detail call,
     cs_argvHash = pc_argvHash call, cs_programSha256 = pr_sha256 r, cs_requiresOnce = pc_requiresOnce call,
     cs_files = pr_files r, cs_tier = tier_of (Some (pc_context call))\<rparr>"

text \<open>An approval without a person, and the token for it.\<close>

definition auto_answer :: "program_env \<Rightarrow> nat \<Rightarrow> ('s \<Rightarrow> 's) \<Rightarrow> grant_request \<Rightarrow> grant_patch \<Rightarrow> program_call \<Rightarrow> 's grant_store
    \<Rightarrow> 's \<Rightarrow> (authorize_error + authorize_answer option) \<times> 's" where
  "auto_answer env k others request extra call store s =
     (case autoApprove (en_now env) (en_new_id env k) request extra store s of
        (Inl e, s1) \<Rightarrow> (Inl (InnerError e), s1) | (Inr g, s1) \<Rightarrow> approvedAnswer env k others g call store s1)"

definition referenced_answer :: "program_env \<Rightarrow> nat \<Rightarrow> ('s \<Rightarrow> 's) \<Rightarrow> grant_request \<Rightarrow> brokered_grant option \<Rightarrow> program_call
    \<Rightarrow> 's grant_store \<Rightarrow> 's \<Rightarrow> (authorize_error + authorize_answer option) \<times> 's" where
  "referenced_answer env k others request brokered call store s =
     (case requestReferencedGrant (en_now env) (en_new_id env k) request brokered store s of
        (Inl e, s1) \<Rightarrow> (Inl e, s1)
      | (Inr (g, _), s1) \<Rightarrow> (case gr_status g of
          Pending \<Rightarrow> (Inr (Some (pendingAnswer g)), s1)
        | Approved \<Rightarrow> approvedAnswer env k others g call store s1
        | st \<Rightarrow> (Inr (Some (AnswerRefused st (gr_id g))), s1)))"

text \<open>Nothing decides the call yet: pre-approval, else a new request.\<close>

definition fresh_answer :: "program_env \<Rightarrow> nat \<Rightarrow> ('s \<Rightarrow> 's) \<Rightarrow> grant_request \<Rightarrow> brokered_grant option \<Rightarrow> program_call
    \<Rightarrow> 's grant_store \<Rightarrow> 's \<Rightarrow> (authorize_error + authorize_answer option) \<times> 's" where
  "fresh_answer env k others request brokered call store s =
     (case (if brokered = None \<and> \<not> pc_requiresOnce call then en_pre_approval env request else None) of
        Some (decidedBy, kind) \<Rightarrow> auto_answer env k others request
          (no_patch\<lparr>p_decided_by := Some decidedBy, p_auto_approval_kind := Some kind\<rparr>) call store s
      | None \<Rightarrow> (case requestDecision (en_now env) (en_new_id env k) request brokered store s of
          (Inl e, s1) \<Rightarrow> (Inl (InnerError e), s1) | (Inr g, s1) \<Rightarrow> (Inr (Some (pendingAnswer g)), s1)))"

definition undecided_answer :: "program_env \<Rightarrow> nat \<Rightarrow> ('s \<Rightarrow> 's) \<Rightarrow> grant_request \<Rightarrow> brokered_grant option \<Rightarrow> program_call
    \<Rightarrow> grant option \<Rightarrow> 's grant_store \<Rightarrow> 's \<Rightarrow> (authorize_error + authorize_answer option) \<times> 's" where
  "undecided_answer env k others request brokered call latest store s = (case latest of
     Some g \<Rightarrow> (if gr_status g = Pending then (Inr (Some (pendingAnswer g)), s)
       else if gr_status g = Denied \<or> gr_status g = Revoked then (Inr (Some (AnswerRefused (gr_status g) (gr_id g))), s)
       else fresh_answer env k others request brokered call store s)
   | None \<Rightarrow> fresh_answer env k others request brokered call store s)"

definition standing_patch :: "standing_match \<Rightarrow> 's grant_store \<Rightarrow> 's \<Rightarrow> grant_patch" where
  "standing_patch m store s = no_patch\<lparr>
     p_decided_by := (case st_findById store (mt_standing_grant_id m) s of None \<Rightarrow> None | Some g \<Rightarrow> gr_decided_by g),
     p_decided_by_standing_grant := Some (mt_standing_grant_id m), p_auto_approval_kind := Some ''standing''\<rparr>"

definition decideProgramCall :: "program_env \<Rightarrow> nat \<Rightarrow> ('s \<Rightarrow> 's) \<Rightarrow> authorize_input \<Rightarrow> 's grant_store \<Rightarrow> 's
    \<Rightarrow> (authorize_error + authorize_answer option) \<times> 's" where
  "decideProgramCall env k others inp store s = (let r = in_request inp; brokered = in_brokered inp in
     case resolveCall env r (if brokered = None then in_shapeOwner inp else None) of Inl e \<Rightarrow> (Inl e, s)
     | Inr call \<Rightarrow>
       let request = grantRequestFor (in_requester inp) r call (en_cmd_hash env (join '' '' (pc_executionArgv call))) in
       if rq_reference request \<noteq> None then referenced_answer env k others request brokered call store s
       else (case assertGrantBatchMember request store s of
           Inl (InvalidGrantBatch m) \<Rightarrow> (Inl (BadBatch m), s)
         | Inl e \<Rightarrow> (Inl (InnerError e), s)
         | Inr _ \<Rightarrow>
           let existing = st_findByRequester store (in_requester inp) s; scope = call_scope_of r call in
           (case findCoveringGrant (en_coll env) (en_now env) existing scope brokered of
              Some g \<Rightarrow> approvedAnswer env k others g call store s
            | None \<Rightarrow> (case (if brokered = None \<and> \<not> pc_requiresOnce call
                  then evaluateStandingGrants (en_coll env) (en_now env) request store s else None) of
                Some m \<Rightarrow> auto_answer env k others request (standing_patch m store s) call store s
              | None \<Rightarrow> undecided_answer env k others request brokered call
                  (findLatestRequest (en_coll env) existing scope brokered) store s))))"

text \<open>The loop over the attempts; a lost race for a single-use grant decides again.\<close>

fun authorize_attempts :: "nat \<Rightarrow> program_env \<Rightarrow> nat \<Rightarrow> (nat \<Rightarrow> 's \<Rightarrow> 's) \<Rightarrow> authorize_input \<Rightarrow> 's grant_store \<Rightarrow> 's
    \<Rightarrow> (authorize_error + authorize_answer) \<times> 's" where
  "authorize_attempts 0 env k others inp store s = (Inl ConcurrentlySpent, s)"
| "authorize_attempts (Suc n) env k others inp store s = (case decideProgramCall env k (others k) inp store s of
     (Inl e, s1) \<Rightarrow> (Inl e, s1)
   | (Inr (Some a), s1) \<Rightarrow> (Inr a, s1)
   | (Inr None, s1) \<Rightarrow> authorize_attempts n env (k + 1) others inp store s1)"

definition authorizeProgramCall :: "program_env \<Rightarrow> (nat \<Rightarrow> 's \<Rightarrow> 's) \<Rightarrow> authorize_input \<Rightarrow> 's grant_store \<Rightarrow> 's
    \<Rightarrow> (authorize_error + authorize_answer) \<times> 's" where
  "authorizeProgramCall env others inp store s = authorize_attempts 3 env 0 others inp store s"

section \<open>Where an approval comes from\<close>

lemma approvedAnswer_parts:
  assumes "approvedAnswer env k oth g call InMemoryGrantStore s = (Inr (Some a), s')"
  shows "\<exists>c e. issueCommandJWT (en_now env) (en_jti env k) (en_issuer env) (call_token call) g = Inr (c, e) \<and>
    a = AnswerApproved (gr_id g) c e \<and> length (en_sign env c) \<le> PROGRAM_AUTHORIZE_LIMITS_tokenChars \<and>
    (nullish (rq_grant_type (gr_request g)) Once = Once \<longrightarrow> mem_claimOnce (gr_id g) (en_now env) (oth s) = (True, s'))"
  using assms by (auto simp: approvedAnswer_def split: sum.splits prod.splits if_splits)

lemma auto_answer_parts:
  assumes "auto_answer env k oth request extra call InMemoryGrantStore s = (Inr (Some a), s')"
  shows "\<exists>g s1. approvedAnswer env k oth g call InMemoryGrantStore s1 = (Inr (Some a), s')"
  using assms by (auto simp: auto_answer_def split: prod.splits sum.splits)

lemma pendingAnswer_not_approved [simp]: "pendingAnswer g \<noteq> AnswerApproved i c e"
  by (simp add: pendingAnswer_def)

text \<open>\<open>automatic\<close>: a standing grant or a pre-approval hook decided.\<close>

definition automatic :: "program_env \<Rightarrow> authorize_input \<Rightarrow> program_call \<Rightarrow> mem_store \<Rightarrow> bool" where
  "automatic env inp call s = (in_brokered inp = None \<and> \<not> pc_requiresOnce call \<and>
     (let request = grantRequestFor (in_requester inp) (in_request inp) call (en_cmd_hash env (join '' '' (pc_executionArgv call))) in
        evaluateStandingGrants (en_coll env) (en_now env) request InMemoryGrantStore s \<noteq> None \<or> en_pre_approval env request \<noteq> None))"

definition covering :: "program_env \<Rightarrow> authorize_input \<Rightarrow> program_call \<Rightarrow> mem_store \<Rightarrow> grant option" where
  "covering env inp call s = findCoveringGrant (en_coll env) (en_now env) (mem_findByRequester (in_requester inp) s)
     (call_scope_of (in_request inp) call) (in_brokered inp)"

lemma same_referenced_binding:
  "assertSameReferencedGrant a b = Inr u \<Longrightarrow> grantReferenceBinding (gr_request a) = grantReferenceBinding (gr_request b)"
  by (auto simp: assertSameReferencedGrant_def Let_def split: if_splits)

lemma referenced_binding:
  assumes "requestReferencedGrant now i q brokered InMemoryGrantStore s = (Inr (g, b), s')"
  shows "grantReferenceBinding (gr_request g) = grantReferenceBinding q"
proof -
  let ?c = "(new_grant i (Some CommandGrant) q Pending now)\<lparr>gr_brokered := brokered\<rparr>"
  have c: "gr_request ?c = q" by (simp add: new_grant_def)
  have "grantReferenceBinding (gr_request g) = grantReferenceBinding (gr_request ?c)"
  proof (cases "mem_createReferenced ?c s = (Inr (g, b), s')")
    case True
    with mem_createReferenced_new [OF True] show ?thesis by (cases b) simp_all
  next
    case False
    then have "assertSameReferencedGrant g ?c = Inr ()"
      using assms by (auto simp: requestReferencedGrant_def Let_def split: sum.splits if_splits list.splits prod.splits)
    then show ?thesis by (rule same_referenced_binding)
  qed
  with c show ?thesis by simp
qed

lemma undecided_approved:
  assumes "undecided_answer env k oth request brokered call latest InMemoryGrantStore s = (Inr (Some (AnswerApproved i c e)), s')"
  shows "brokered = None \<and> \<not> pc_requiresOnce call \<and> en_pre_approval env request \<noteq> None \<and>
    (\<exists>g s1. approvedAnswer env k oth g call InMemoryGrantStore s1 = (Inr (Some (AnswerApproved i c e)), s'))"
proof -
  have f: "fresh_answer env k oth request brokered call InMemoryGrantStore s = (Inr (Some (AnswerApproved i c e)), s')"
    using assms by (auto simp: undecided_answer_def split: option.splits if_splits)
  then have b: "brokered = None \<and> \<not> pc_requiresOnce call \<and> en_pre_approval env request \<noteq> None"
    by (auto simp: fresh_answer_def split: if_splits option.splits prod.splits sum.splits)
  with f obtain dk where "auto_answer env k oth request dk call InMemoryGrantStore s = (Inr (Some (AnswerApproved i c e)), s')"
    by (auto simp: fresh_answer_def)
  with b auto_answer_parts show ?thesis by blast
qed

lemma decide_approved:
  assumes "decideProgramCall env k oth inp InMemoryGrantStore s = (Inr (Some (AnswerApproved i c e)), s')"
  obtains call g s1 where
    "resolveCall env (in_request inp) (if in_brokered inp = None then in_shapeOwner inp else None) = Inr call"
    "approvedAnswer env k oth g call InMemoryGrantStore s1 = (Inr (Some (AnswerApproved i c e)), s')"
    "pr_reference (in_request inp) = None \<longrightarrow> covering env inp call s = Some g \<or> automatic env inp call s"
    "pr_reference (in_request inp) \<noteq> None \<longrightarrow> grantReferenceBinding (gr_request g) = grantReferenceBinding
       (grantRequestFor (in_requester inp) (in_request inp) call (en_cmd_hash env (join '' '' (pc_executionArgv call))))"
proof -
  note ok = that
  obtain call where call: "resolveCall env (in_request inp) (if in_brokered inp = None then in_shapeOwner inp else None) = Inr call"
    using assms by (simp add: decideProgramCall_def Let_def split: sum.splits)
  let ?q = "grantRequestFor (in_requester inp) (in_request inp) call (en_cmd_hash env (join '' '' (pc_executionArgv call)))"
  have ref: "rq_reference ?q = pr_reference (in_request inp)" by (simp add: grantRequestFor_def)
  show thesis
  proof (cases "pr_reference (in_request inp) = None")
    case False
    then have "referenced_answer env k oth ?q (in_brokered inp) call InMemoryGrantStore s = (Inr (Some (AnswerApproved i c e)), s')"
      using assms by (simp add: decideProgramCall_def Let_def call ref)
    then obtain g b s1 where g: "requestReferencedGrant (en_now env) (en_new_id env k) ?q (in_brokered inp) InMemoryGrantStore s = (Inr (g, b), s1)"
        "approvedAnswer env k oth g call InMemoryGrantStore s1 = (Inr (Some (AnswerApproved i c e)), s')"
      by (auto simp: referenced_answer_def split: prod.splits sum.splits grant_status.splits)
    show thesis by (rule ok [OF call g(2)]) (use False referenced_binding [OF g(1)] in auto)
  next
    case True
    obtain u where u: "assertGrantBatchMember ?q InMemoryGrantStore s = Inr u"
      using assms True by (auto simp: decideProgramCall_def Let_def call ref split: sum.splits grant_error.splits)
    have auto: thesis if "automatic env inp call s" "approvedAnswer env k oth g call InMemoryGrantStore s1 = (Inr (Some (AnswerApproved i c e)), s')" for g s1
      by (rule ok [OF call that(2)]) (use True that(1) in auto)
    show thesis
    proof (cases "covering env inp call s")
      case (Some g)
      then have "approvedAnswer env k oth g call InMemoryGrantStore s = (Inr (Some (AnswerApproved i c e)), s')"
        using assms True by (simp add: decideProgramCall_def Let_def call ref u covering_def)
      from ok [OF call this] Some True show thesis by simp
    next
      case None
      let ?st = "if in_brokered inp = None \<and> \<not> pc_requiresOnce call
        then evaluateStandingGrants (en_coll env) (en_now env) ?q InMemoryGrantStore s else None"
      have d: "decideProgramCall env k oth inp InMemoryGrantStore s = (case ?st of
          Some m \<Rightarrow> auto_answer env k oth ?q (standing_patch m InMemoryGrantStore s) call InMemoryGrantStore s
        | None \<Rightarrow> undecided_answer env k oth ?q (in_brokered inp) call (findLatestRequest (en_coll env)
            (mem_findByRequester (in_requester inp) s) (call_scope_of (in_request inp) call) (in_brokered inp)) InMemoryGrantStore s)"
        using None True by (simp add: decideProgramCall_def Let_def call ref u covering_def)
      show thesis
      proof (cases ?st)
        case None
        have n: "undecided_answer env k oth ?q (in_brokered inp) call (findLatestRequest (en_coll env)
            (mem_findByRequester (in_requester inp) s) (call_scope_of (in_request inp) call) (in_brokered inp)) InMemoryGrantStore s =
            (Inr (Some (AnswerApproved i c e)), s')" using d assms None by simp
        note w = undecided_approved [OF n]
        from w obtain g s1 where "approvedAnswer env k oth g call InMemoryGrantStore s1 = (Inr (Some (AnswerApproved i c e)), s')" by blast
        moreover have "automatic env inp call s" using w by (simp add: automatic_def Let_def)
        ultimately show thesis using auto by blast
      next
        case (Some m)
        have "auto_answer env k oth ?q (standing_patch m InMemoryGrantStore s) call InMemoryGrantStore s =
            (Inr (Some (AnswerApproved i c e)), s')" using d assms Some by simp
        from auto_answer_parts [OF this] obtain g s1
          where "approvedAnswer env k oth g call InMemoryGrantStore s1 = (Inr (Some (AnswerApproved i c e)), s')" by blast
        moreover have "automatic env inp call s" using Some by (auto simp: automatic_def Let_def split: if_splits)
        ultimately show thesis using auto by blast
      qed
    qed
  qed
qed

lemma resolved_token:
  assumes "resolveCall env r owner = Inr call"
  shows "pc_executionArgv call = pr_name r # pr_argv r" "pc_argvHash call = computeArgvHash (en_sha env) (pr_name r # pr_argv r)"
    "cc_argvHash (call_token call) = pc_argvHash call" "cc_programSha256 (call_token call) = pr_sha256 r"
    "cc_detail (call_token call) = pc_detail call"
proof -
  obtain shapes lookup where r: "resolveProgramCall (en_coll env) (en_sha env) shapes lookup r = Inr call"
    using assms by (auto simp: resolveCall_def Let_def split: sum.splits)
  note p = resolveProgramCall_parts [OF r]
  show "pc_executionArgv call = pr_name r # pr_argv r" "pc_argvHash call = computeArgvHash (en_sha env) (pr_name r # pr_argv r)"
    by (rule p(2), rule p(3))
  show "cc_argvHash (call_token call) = pc_argvHash call" "cc_programSha256 (call_token call) = pr_sha256 r"
    "cc_detail (call_token call) = pc_detail call"
    using p(4) by (auto simp: call_token_def)
qed

section \<open>Undisturbed attempts\<close>

lemma mem_grant_find: "mem_inv s \<Longrightarrow> g \<in> set (mem_grants s) \<Longrightarrow> mem_findById (gr_id g) s = Some g"
  by (auto simp: mem_grants_def mem_inv_def mem_findById_def)

lemma approvedAnswer_undisturbed:
  assumes "mem_findById (gr_id g) s = Some g"
  shows "fst (approvedAnswer env k (\<lambda>s. s) g call InMemoryGrantStore s) \<noteq> Inr None"
proof (cases "issueCommandJWT (en_now env) (en_jti env k) (en_issuer env) (call_token call) g")
  case (Inr ce)
  obtain c e where ce: "ce = (c, e)" by fastforce
  have "gr_status g = Approved" using command_token_parts(1) Inr ce by blast
  then show ?thesis using assms by (simp add: approvedAnswer_def Inr ce mem_claimOnce_def)
qed (simp add: approvedAnswer_def)

lemma auto_answer_undisturbed:
  assumes "mem_inv s" "rq_reference q = None" "p_request extra = None"
  shows "fst (auto_answer env k (\<lambda>s. s) q extra call InMemoryGrantStore s) \<noteq> Inr None"
proof -
  let ?p = "new_grant (en_new_id env k) None q Pending (en_now env)"
  let ?g = "apply_patch ?p Approved (extra\<lparr>p_decided_at := Some (en_now env)\<rparr>)"
  have "autoApprove (en_now env) (en_new_id env k) q extra InMemoryGrantStore s =
      (Inr ?g, put_grant (en_new_id env k) ?g (put_grant (en_new_id env k) ?p s))"
    using assms by (simp add: autoApprove_def createGrant_def Let_def mem_save_def mem_updateStatus_def new_grant_def)
  then show ?thesis
    using approvedAnswer_undisturbed [where g = "?g" and s = "put_grant (en_new_id env k) ?g (put_grant (en_new_id env k) ?p s)"]
    by (simp add: auto_answer_def new_grant_def)
qed

section \<open>Properties\<close>

text \<open>
  C1. The endpoint hands out a command token only for the call it resolved itself, on an approved grant: the
  token names the grant and is bound to the hash of the argv that runs, to the program file and to the one
  resolved detail, and lives for at most five minutes. The approval comes from a covering grant of this
  requester or from a standing grant or hook, or - for a referenced request - from a grant with the same
  binding. A call that needs a fresh decision is never approved automatically: the grant is
  single-use and a person decided it. A single-use grant is spent in the store before the answer leaves.
\<close>

theorem command_token_authorized:
  assumes "decideProgramCall env k oth inp InMemoryGrantStore s = (Inr (Some (AnswerApproved i c e)), s')"
  shows "\<exists>call g. resolveCall env (in_request inp) (if in_brokered inp = None then in_shapeOwner inp else None) = Inr call \<and>
    gr_status g = Approved \<and> i = gr_id g \<and> ac_grant_id c = i \<and> ac_sub c = rq_requester (gr_request g) \<and>
    ac_argv_hash c = Some (computeArgvHash (en_sha env) (pr_name (in_request inp) # pr_argv (in_request inp))) \<and>
    ac_program_sha256 c = Some (pr_sha256 (in_request inp)) \<and> ac_authorization_details c = Some [CliDetail (pc_detail call)] \<and>
    en_now env < e \<and> e \<le> en_now env + 300 \<and>
    (pr_reference (in_request inp) = None \<longrightarrow> covering env inp call s = Some g \<or> automatic env inp call s) \<and>
    (pr_reference (in_request inp) = None \<longrightarrow> pc_requiresOnce call \<longrightarrow> nullish (rq_grant_type (gr_request g)) Once = Once \<and>
       \<not> truthy_str (gr_auto_approval_kind g) \<and> \<not> truthy_str (gr_decided_by_standing_grant g)) \<and>
    (pr_reference (in_request inp) \<noteq> None \<longrightarrow> grantReferenceBinding (gr_request g) = grantReferenceBinding
       (grantRequestFor (in_requester inp) (in_request inp) call (en_cmd_hash env (join '' '' (pc_executionArgv call))))) \<and>
    (nullish (rq_grant_type (gr_request g)) Once = Once \<longrightarrow> map_option gr_status (mem_findById i s') = Some Used)"
proof -
  obtain call g s1 where r: "resolveCall env (in_request inp) (if in_brokered inp = None then in_shapeOwner inp else None) = Inr call"
      and a: "approvedAnswer env k oth g call InMemoryGrantStore s1 = (Inr (Some (AnswerApproved i c e)), s')"
      and src: "pr_reference (in_request inp) = None \<longrightarrow> covering env inp call s = Some g \<or> automatic env inp call s"
      and ref: "pr_reference (in_request inp) \<noteq> None \<longrightarrow> grantReferenceBinding (gr_request g) = grantReferenceBinding
       (grantRequestFor (in_requester inp) (in_request inp) call (en_cmd_hash env (join '' '' (pc_executionArgv call))))"
    by (rule decide_approved [OF assms])
  from approvedAnswer_parts [OF a] have t: "issueCommandJWT (en_now env) (en_jti env k) (en_issuer env) (call_token call) g = Inr (c, e)"
      "i = gr_id g" "nullish (rq_grant_type (gr_request g)) Once = Once \<longrightarrow> mem_claimOnce (gr_id g) (en_now env) (oth s1) = (True, s')"
    by auto
  note p = command_token_parts [OF t(1)] and q = resolved_token [OF r]
  have once: "nullish (rq_grant_type (gr_request g)) Once = Once \<and> \<not> truthy_str (gr_auto_approval_kind g) \<and>
      \<not> truthy_str (gr_decided_by_standing_grant g)"
    if n: "pr_reference (in_request inp) = None" "pc_requiresOnce call"
  proof -
    have "covering env inp call s = Some g" using src n by (auto simp: automatic_def)
    then have "covering_grant (en_coll env) (en_now env) (call_scope_of (in_request inp) call) (in_brokered inp) g"
      unfolding covering_def by (rule findCovering_mem(2))
    from bindsCallD(3) [OF covering_grantD(4) [OF this]] n show ?thesis by (simp add: call_scope_of_def)
  qed
  have spent: "map_option gr_status (mem_findById i s') = Some Used" if "nullish (rq_grant_type (gr_request g)) Once = Once"
    using t(2,3) that by (auto simp: mem_claimOnce_def split: option.splits if_splits)
  show ?thesis
    using r p(1,3,4,6,7,10-12) q t(2) src ref once spent by (intro exI [of _ call] exI [of _ g]) simp
qed

section \<open>A call that is not overtaken is decided\<close>

lemma listed_mem:
  assumes "mem_listGrants p s = Inr page" "g \<in> set (pg_data page)"
  shows "g \<in> set (mem_grants s)"
  using assms by (auto simp: mem_listGrants_def take_page_def Let_def set_sort_by dest!: in_set_takeD split: if_splits sum.splits)

lemma referenced_grant_stored:
  assumes "requestReferencedGrant now i q brokered InMemoryGrantStore s = (Inr (g, b), s')" "gr_status g \<noteq> Pending"
  shows "s' = s \<and> g \<in> set (mem_grants s)"
proof -
  let ?c = "(new_grant i (Some CommandGrant) q Pending now)\<lparr>gr_brokered := brokered\<rparr>"
  show ?thesis
  proof (cases "mem_createReferenced ?c s = (Inr (g, b), s')")
    case True
    have "\<not> b" using mem_createReferenced_new(1) [OF True] assms(2) by (auto simp: new_grant_def)
    with mem_createReferenced_new(2) [OF True] show ?thesis by simp
  next
    case False
    then obtain page gs where "mem_listGrants (no_params\<lparr>lp_reference_key := Some (grantReferenceKey (rq_requester q)
        (the (rq_reference q)) brokered), lp_limit := Some 1\<rparr>) s = Inr page" "pg_data page = g # gs" "s' = s"
      using assms(1) by (auto simp: requestReferencedGrant_def Let_def split: sum.splits if_splits list.splits prod.splits)
    then show ?thesis using listed_mem by (metis list.set_intros(1))
  qed
qed

lemma fresh_undisturbed:
  assumes "mem_inv s" "rq_reference q = None"
  shows "fst (fresh_answer env k (\<lambda>s. s) q brokered call InMemoryGrantStore s) \<noteq> Inr None"
  using auto_answer_undisturbed [OF assms] by (auto simp: fresh_answer_def no_patch_def split: option.splits prod.splits sum.splits if_splits)

lemma decide_undisturbed:
  assumes "mem_inv s"
  shows "fst (decideProgramCall env k (\<lambda>s. s) inp InMemoryGrantStore s) \<noteq> Inr None"
proof (cases "resolveCall env (in_request inp) (if in_brokered inp = None then in_shapeOwner inp else None)")
  case (Inr call)
  let ?q = "grantRequestFor (in_requester inp) (in_request inp) call (en_cmd_hash env (join '' '' (pc_executionArgv call)))"
  have referenced: "fst (referenced_answer env k (\<lambda>s. s) ?q b call InMemoryGrantStore s) \<noteq> Inr None" for b
  proof -
    have "fst (approvedAnswer env k (\<lambda>s. s) g call InMemoryGrantStore s1) \<noteq> Inr None"
      if "requestReferencedGrant (en_now env) (en_new_id env k) ?q b InMemoryGrantStore s = (Inr (g, d), s1)" "gr_status g = Approved" for g d s1
      using referenced_grant_stored [OF that(1)] that(2) mem_grant_find [OF assms] approvedAnswer_undisturbed by simp
    then show ?thesis by (auto simp: referenced_answer_def split: prod.splits sum.splits grant_status.splits)
  qed
  have covered: "fst (approvedAnswer env k (\<lambda>s. s) g call InMemoryGrantStore s) \<noteq> Inr None"
    if "findCoveringGrant coll now (mem_findByRequester r s) sc b = Some g" for coll now r sc b g
    using findCovering_mem(1) [OF that] mem_grant_find [OF assms] approvedAnswer_undisturbed by (simp add: mem_findByRequester_def)
  have automatically: "rq_reference ?q = None \<Longrightarrow> fst (auto_answer env k (\<lambda>s. s) ?q (standing_patch m InMemoryGrantStore s) call InMemoryGrantStore s) \<noteq> Inr None" for m
    by (rule auto_answer_undisturbed [OF assms]) (simp_all add: standing_patch_def no_patch_def)
  have "rq_reference ?q = None \<Longrightarrow> fst (undecided_answer env k (\<lambda>s. s) ?q b call l InMemoryGrantStore s) \<noteq> Inr None" for b l
    using fresh_undisturbed [OF assms] by (simp add: undecided_answer_def split: option.split)
  then show ?thesis
    using referenced covered automatically by (simp add: decideProgramCall_def Let_def Inr split: option.splits sum.splits grant_error.splits)
qed (simp add: decideProgramCall_def Let_def)

lemma mem_inv_save: "mem_inv s \<Longrightarrow> mem_inv (snd (mem_save g s))"
  by (simp add: mem_save_def mem_inv_put)

lemma mem_inv_update: "mem_inv s \<Longrightarrow> mem_inv (snd (mem_updateStatus i st p s))"
  using mem_inv_put mem_id by (auto simp: mem_updateStatus_def split: option.split sum.split)

lemma mem_inv_claim: "mem_inv s \<Longrightarrow> mem_inv (snd (mem_claimOnce i t s))"
  using mem_inv_put mem_id by (auto simp: mem_claimOnce_def split: option.split)

lemma mem_inv_referenced: "mem_inv s \<Longrightarrow> mem_inv (snd (mem_createReferenced g s))"
  using mem_inv_put by (auto simp: mem_createReferenced_def split: option.split sum.split)

lemma mem_inv_create: "mem_inv s \<Longrightarrow> mem_inv (snd (createGrant now i q InMemoryGrantStore s))"
  using mem_inv_save [of s "new_grant i None q Pending now"] mem_inv_referenced [of s "new_grant i None q Pending now"]
  by (auto simp: createGrant_def Let_def split: sum.split prod.split)

lemma mem_inv_autoApprove:
  assumes "mem_inv s"
  shows "mem_inv (snd (autoApprove now i q extra InMemoryGrantStore s))"
proof -
  obtain x s1 where c: "createGrant now i q InMemoryGrantStore s = (x, s1)" by fastforce
  with mem_inv_create [OF assms, of now i q] have "mem_inv s1" by simp
  then have "mem_inv (snd (mem_updateStatus j Approved p s1))" for j p by (rule mem_inv_update)
  then show ?thesis using \<open>mem_inv s1\<close> by (auto simp: autoApprove_def c split: sum.split prod.split option.split) (metis snd_conv)+
qed

lemma mem_inv_approved:
  assumes "mem_inv s" "\<And>s. mem_inv s \<Longrightarrow> mem_inv (oth s)"
  shows "mem_inv (snd (approvedAnswer env k oth g call InMemoryGrantStore s))"
  using assms mem_inv_claim [OF assms(2) [OF assms(1)], of "gr_id g" "en_now env"]
  by (auto simp: approvedAnswer_def split: sum.split prod.split)

lemma mem_inv_auto:
  assumes "mem_inv s" "\<And>s. mem_inv s \<Longrightarrow> mem_inv (oth s)"
  shows "mem_inv (snd (auto_answer env k oth q extra call InMemoryGrantStore s))"
  using mem_inv_autoApprove [OF assms(1), of "en_now env" "en_new_id env k" q extra] mem_inv_approved [where oth = oth, OF _ assms(2)]
  by (auto simp: auto_answer_def split: sum.split prod.split)

lemma mem_inv_decision:
  assumes "mem_inv s"
  shows "mem_inv (snd (requestDecision now i q b InMemoryGrantStore s))"
proof (cases b)
  case None
  with mem_inv_create [OF assms] show ?thesis by (simp add: requestDecision_def)
next
  case (Some x)
  let ?g = "(new_grant i (Some CommandGrant) q Pending now)\<lparr>gr_brokered := Some x\<rparr>"
  obtain y s' where "mem_save ?g s = (y, s')" by fastforce
  with Some mem_inv_save [OF assms, of ?g] show ?thesis by (simp add: requestDecision_def Let_def split: sum.split)
qed

lemma mem_inv_referenced_grant:
  assumes "mem_inv s"
  shows "mem_inv (snd (requestReferencedGrant now i q b InMemoryGrantStore s))"
proof -
  let ?g = "(new_grant i (Some CommandGrant) q Pending now)\<lparr>gr_brokered := b\<rparr>"
  obtain y s' where c: "mem_createReferenced ?g s = (y, s')" by fastforce
  with mem_inv_referenced [OF assms, of ?g] have "mem_inv s'" by simp
  with assms show ?thesis by (simp add: requestReferencedGrant_def Let_def c split: sum.split list.split)
qed

lemma mem_inv_decide:
  assumes "mem_inv s" "\<And>s. mem_inv s \<Longrightarrow> mem_inv (oth s)"
  shows "mem_inv (snd (decideProgramCall env k oth inp InMemoryGrantStore s))"
proof -
  note approved = mem_inv_approved [where oth = oth, OF _ assms(2)] and automatic = mem_inv_auto [where oth = oth, OF assms]
  have referenced: "mem_inv (snd (referenced_answer env k oth q b call InMemoryGrantStore s))" for q b call
  proof -
    obtain x s1 where r: "requestReferencedGrant (en_now env) (en_new_id env k) q b InMemoryGrantStore s = (x, s1)" by fastforce
    with mem_inv_referenced_grant [OF assms(1)] have "mem_inv s1" by (metis snd_conv)
    with approved show ?thesis by (simp add: referenced_answer_def r split: sum.split prod.split grant_status.split)
  qed
  have "mem_inv (snd (fresh_answer env k oth q b call InMemoryGrantStore s))" for q b call
  proof -
    have "mem_inv (snd (case requestDecision (en_now env) (en_new_id env k) q b InMemoryGrantStore s of
        (Inl e, s1) \<Rightarrow> (Inl (InnerError e), s1) | (Inr g, s1) \<Rightarrow> (Inr (Some (pendingAnswer g)), s1)))" for b
      using mem_inv_decision [OF assms(1), of "en_now env" "en_new_id env k" q b]
      by (cases "requestDecision (en_now env) (en_new_id env k) q b InMemoryGrantStore s") (simp split: sum.split)
    with automatic show ?thesis by (simp add: fresh_answer_def split: option.split)
  qed
  then have "mem_inv (snd (undecided_answer env k oth q b call l InMemoryGrantStore s))" for q b call l
    using assms(1) by (simp add: undecided_answer_def split: option.split)
  note answers = this automatic referenced approved [OF assms(1)] assms(1)
  show ?thesis
  proof (cases "resolveCall env (in_request inp) (if in_brokered inp = None then in_shapeOwner inp else None)")
    case (Inr call)
    show ?thesis
      by (simp only: decideProgramCall_def Let_def Inr sum.case) (simp add: answers split: sum.split option.split grant_error.split)
  qed (simp add: decideProgramCall_def Let_def assms(1))
qed

lemma answers_never_give_up [simp]:
  "fst (approvedAnswer env k oth g call store s) \<noteq> Inl ConcurrentlySpent"
  "fst (auto_answer env k oth q extra call store s) \<noteq> Inl ConcurrentlySpent"
  "fst (referenced_answer env k oth q b call store s) \<noteq> Inl ConcurrentlySpent"
  "fst (fresh_answer env k oth q b call store s) \<noteq> Inl ConcurrentlySpent"
  "fst (undecided_answer env k oth q b call l store s) \<noteq> Inl ConcurrentlySpent"
proof -
  show a: "fst (approvedAnswer env k oth g call store s) \<noteq> Inl ConcurrentlySpent" for g s
    by (simp add: approvedAnswer_def split: sum.split prod.split option.split)
  show b: "fst (auto_answer env k oth q extra call store s) \<noteq> Inl ConcurrentlySpent" for extra
    by (simp add: auto_answer_def a split: sum.split prod.split)
  have "fst (requestReferencedGrant now i q b store s) \<noteq> Inl ConcurrentlySpent" for now i
    by (simp add: requestReferencedGrant_def Let_def split: sum.split prod.split option.split list.split)
  then show "fst (referenced_answer env k oth q b call store s) \<noteq> Inl ConcurrentlySpent"
    using a by (simp add: referenced_answer_def split: sum.split prod.split grant_status.split) (metis fst_conv)
  show f: "fst (fresh_answer env k oth q b call store s) \<noteq> Inl ConcurrentlySpent"
    by (simp add: fresh_answer_def b split: sum.split prod.split option.split)
  show "fst (undecided_answer env k oth q b call l store s) \<noteq> Inl ConcurrentlySpent"
    by (simp add: undecided_answer_def f split: option.split)
qed

lemma decide_never_gives_up: "fst (decideProgramCall env k oth inp store s) \<noteq> Inl ConcurrentlySpent"
proof (cases "resolveCall env (in_request inp) (if in_brokered inp = None then in_shapeOwner inp else None)")
  case (Inl a)
  moreover have "a \<noteq> ConcurrentlySpent" using Inl by (auto simp: resolveCall_def Let_def split: sum.splits)
  ultimately show ?thesis by (simp add: decideProgramCall_def Let_def)
next
  case (Inr call)
  show ?thesis by (simp only: decideProgramCall_def Let_def Inr sum.case) (simp del: split_paired_All split: sum.split option.split grant_error.split)
qed

text \<open>
  A call is decided as soon as nobody overtakes one of its three attempts: whatever other requests do to the
  store during the other attempts, if during one attempt nobody else touches it, the call ends with an answer
  or with an error of its own, never with the report that concurrent calls spent its grants.
\<close>

theorem overtaken_call_decided:
  assumes "mem_inv s" "\<And>k s. mem_inv s \<Longrightarrow> mem_inv (others k s)" "k < 3" "others k = (\<lambda>s. s)"
  shows "fst (authorizeProgramCall env others inp InMemoryGrantStore s) \<noteq> Inl ConcurrentlySpent"
proof -
  have "k \<in> {j..<j + n} \<Longrightarrow> mem_inv t \<Longrightarrow> fst (authorize_attempts n env j others inp InMemoryGrantStore t) \<noteq> Inl ConcurrentlySpent" for j n t
  proof (induction n arbitrary: j t)
    case (Suc n)
    obtain x t' where d: "decideProgramCall env j (others j) inp InMemoryGrantStore t = (x, t')" by fastforce
    have inv: "mem_inv t'" using mem_inv_decide [where oth = "others j" and env = env and k = j and inp = inp, OF Suc.prems(2)] assms(2) d by simp
    have "x \<noteq> Inl ConcurrentlySpent" using decide_never_gives_up [of env j "others j" inp InMemoryGrantStore t] d by simp
    moreover have "k \<noteq> j" if "x = Inr None" using decide_undisturbed [OF Suc.prems(2), of env j inp] d that assms(4) by auto
    ultimately show ?case using Suc.IH [OF _ inv, of "j + 1"] Suc.prems(1) by (auto simp: d split: sum.split option.split)
  qed simp
  from this [of 0 3] assms(1,3) show ?thesis by (simp add: authorizeProgramCall_def)
qed

definition example_env :: program_env where
  "example_env = \<lparr>en_coll = (\<le>), en_sha = toy_sha, en_cmd_hash = (\<lambda>_. ''hash''), en_shape_store = createInMemoryShapeStore [],
     en_now = 10, en_new_id = (\<lambda>_. ''g1''), en_jti = (\<lambda>_. ''j1''), en_issuer = ''idp'', en_sign = (\<lambda>_. ''jwt''),
     en_pre_approval = (\<lambda>_. Some (''owner'', ''yolo''))\<rparr>"

definition example_input :: authorize_input where
  "example_input = \<lparr>in_requester = ''bot'', in_request = example_request, in_brokered = None, in_shapeOwner = None\<rparr>"

lemma example_call: "\<exists>call. resolveCall example_env example_request None = Inr call \<and> \<not> pc_requiresOnce call"
proof -
  have v: "view_shapes (\<le>) (shapeScopeOf None) (createInMemoryShapeStore []) = []"
    by (simp add: view_shapes_def shapeScopeOf_def listShapes_def createInMemoryShapeStore_def by_cli_id_def)
  obtain g where "buildGenericResolvedServer (\<le>) toy_sha ''cat'' [''cat'', ''/tmp/a''] = Inr g" using generic_ok by blast
  then show ?thesis
    by (simp add: resolveCall_def Let_def example_env_def v resolveProgramCall_def selectProgramShape_def example_request_def)
qed

lemma example_decided:
  "\<exists>c e s'. decideProgramCall example_env 0 (\<lambda>s. s) example_input InMemoryGrantStore empty_mem = (Inr (Some (AnswerApproved ''g1'' c e)), s')"
proof -
  obtain call where call: "resolveCall example_env example_request None = Inr call" "\<not> pc_requiresOnce call"
    using example_call by blast
  have q: "mem_findByRequester r empty_mem = []" for r by (simp add: mem_findByRequester_def mem_grants_def empty_mem_def)
  have c: "findCoveringGrant coll now [] sc b = None" "findLatestRequest coll [] sc b = None" for coll now sc b
    by (simp_all add: findCoveringGrant_def findLatestRequest_def)
  have b: "assertGrantBatchMember (grantRequestFor r example_request call h) InMemoryGrantStore empty_mem = Inr ()" for r h
    by (simp add: assertGrantBatchMember_def grantRequestFor_def example_request_def)
  have st: "evaluateStandingGrants coll now x InMemoryGrantStore empty_mem = None" for coll now x
    by (simp add: evaluateStandingGrants_def q Let_def)
  show ?thesis
    by (simp add: decideProgramCall_def Let_def example_input_def call b q c st undecided_answer_def fresh_answer_def)
      (simp add: auto_answer_def autoApprove_def createGrant_def Let_def mem_save_def mem_updateStatus_def new_grant_def
        approvedAnswer_def issueCommandJWT_def grantRequestFor_def example_request_def example_env_def apply_patch_def no_patch_def
        mem_claimOnce_def call COMMAND_TOKEN_LIFETIME_SECONDS_def PROGRAM_AUTHORIZE_LIMITS_tokenChars_def plain_request_def)
qed

theorem command_token_authorized_witness:
  "\<exists>c e s'. \<exists>g :: grant. decideProgramCall example_env 0 (\<lambda>s. s) example_input InMemoryGrantStore empty_mem =
     (Inr (Some (AnswerApproved ''g1'' c e)), s') \<and> gr_status g = Approved \<and> gr_id g = ''g1'' \<and> e \<le> 310"
proof -
  obtain c e s' where d: "decideProgramCall example_env 0 (\<lambda>s. s) example_input InMemoryGrantStore empty_mem =
      (Inr (Some (AnswerApproved ''g1'' c e)), s')" using example_decided by blast
  have "\<exists>g :: grant. gr_status g = Approved \<and> ''g1'' = gr_id g \<and> e \<le> en_now example_env + 300"
    using command_token_authorized [OF d] by blast
  then obtain g :: grant where "gr_status g = Approved" "''g1'' = gr_id g" "e \<le> en_now example_env + 300" by blast
  with d show ?thesis by (simp add: example_env_def) fastforce
qed

text \<open>Two attempts are overtaken by a call that spends the grant \<open>g1\<close>; the third is not.\<close>

theorem overtaken_call_decided_witness:
  "fst (authorizeProgramCall example_env (\<lambda>k s. if k < 2 then snd (mem_claimOnce ''g1'' 9 s) else s) example_input
     InMemoryGrantStore empty_mem) \<noteq> Inl ConcurrentlySpent"
  by (rule overtaken_call_decided [where k = 2]) (simp_all add: mem_inv_claim)

end
