(* ===== verification/SpTasks.thy ===== *)
theory SpTasks
  imports Json
begin

text \<open>
  The task queue a service provider keeps for its service agents, \<open>packages/sp-tasks/src\<close>: the row type of
  \<open>schema.ts\<close>, the A2A objects of \<open>types.ts\<close>, the queue operations of \<open>queue.ts\<close>, the retries of \<open>harden.ts\<close> and
  the two endpoints of \<open>handlers.ts\<close>. A table is the list of its rows in insertion order. The columns \<open>history\<close>
  and \<open>artifacts\<close> hold the lists their JSON text stands for. Random ids are arguments. \<open>faults i\<close> is the error
  the database raises at attempt \<open>i\<close> of one statement, before it has any effect.
\<close>

section \<open>Data\<close>

datatype task_state = Submitted | Working | InputRequired | AuthRequired | Completed | Failed | Canceled | Rejected

definition TERMINAL_STATES :: "task_state list" where
  "TERMINAL_STATES = [Completed, Failed, Canceled, Rejected]"

record file_part =
  fp_name :: "string option"
  fp_mediaType :: "string option"
  fp_uri :: "string option"
  fp_bytes :: "string option"

datatype part = TextPart string "jsval option" | DataPart jsval "jsval option" | FilePart file_part "jsval option"

datatype message_role = RoleUser | RoleAgent

record message =
  mg_messageId :: string
  mg_role :: message_role
  mg_parts :: "part list"
  mg_contextId :: "string option"
  mg_taskId :: "string option"
  mg_metadata :: "jsval option"

record artifact =
  at_artifactId :: string
  at_name :: "string option"
  at_description :: "string option"
  at_parts :: "part list"
  at_metadata :: "jsval option"

record task_metadata =
  tm_type :: string
  tm_assignee :: "string option"
  tm_leaseUntil :: "int option"
  tm_deliveryCount :: int

record sp_task =
  tk_id :: string
  tk_contextId :: string
  tk_state :: task_state
  tk_artifacts :: "artifact list"
  tk_history :: "message list"
  tk_metadata :: task_metadata

record task_row =
  tr_id :: string
  tr_contextId :: string
  tr_type :: string
  tr_state :: task_state
  tr_history :: "message list"
  tr_artifacts :: "artifact list"
  tr_assignee :: "string option"
  tr_leaseUntil :: "int option"
  tr_deliveryCount :: int
  tr_createdAt :: int
  tr_updatedAt :: int

type_synonym task_table = "task_row list"

datatype task_error = SpTaskError string | DbError string

definition DEFAULT_LEASE_MS :: int where "DEFAULT_LEASE_MS = 30000"

definition dataMessage :: "string \<Rightarrow> jsval \<Rightarrow> message_role \<Rightarrow> message" where
  "dataMessage uuid d role = \<lparr>mg_messageId = uuid, mg_role = role, mg_parts = [DataPart d None], mg_contextId = None,
     mg_taskId = None, mg_metadata = None\<rparr>"

definition textMessage :: "string \<Rightarrow> string \<Rightarrow> message_role \<Rightarrow> message" where
  "textMessage uuid t role = \<lparr>mg_messageId = uuid, mg_role = role, mg_parts = [TextPart t None], mg_contextId = None,
     mg_taskId = None, mg_metadata = None\<rparr>"

definition dataArtifact :: "string \<Rightarrow> jsval \<Rightarrow> string option \<Rightarrow> artifact" where
  "dataArtifact uuid d name = \<lparr>at_artifactId = uuid, at_name = name, at_description = None, at_parts = [DataPart d None],
     at_metadata = None\<rparr>"

definition textArtifact :: "string \<Rightarrow> string \<Rightarrow> string option \<Rightarrow> artifact" where
  "textArtifact uuid t name = \<lparr>at_artifactId = uuid, at_name = name, at_description = None, at_parts = [TextPart t None],
     at_metadata = None\<rparr>"

definition rowToTask :: "task_row \<Rightarrow> sp_task" where
  "rowToTask r = \<lparr>tk_id = tr_id r, tk_contextId = tr_contextId r, tk_state = tr_state r, tk_artifacts = tr_artifacts r,
     tk_history = tr_history r, tk_metadata = \<lparr>tm_type = tr_type r, tm_assignee = tr_assignee r,
       tm_leaseUntil = tr_leaseUntil r, tm_deliveryCount = tr_deliveryCount r\<rparr>\<rparr>"

section \<open>Retries\<close>

text \<open>\<open>/SQLITE_BUSY|database is locked/i\<close>\<close>

definition busy_message :: "string \<Rightarrow> bool" where
  "busy_message m = (includes_str (to_lower m) ''sqlite_busy'' \<or> includes_str (to_lower m) ''database is locked'')"

text \<open>\<open>withBusyRetry\<close> on an operation \<open>fn\<close> over a state; the last component is the milliseconds waited.\<close>

function withBusyRetry_from :: "nat \<Rightarrow> nat \<Rightarrow> nat \<Rightarrow> (nat \<Rightarrow> 's \<Rightarrow> (string + 'a) \<times> 's) \<Rightarrow> 's \<Rightarrow> (string + 'a) \<times> 's \<times> nat" where
  "withBusyRetry_from i tries baseMs fn s = (case fn i s of
     (Inr x, s') \<Rightarrow> (Inr x, s', 0)
   | (Inl m, s') \<Rightarrow> if tries \<le> i + 1 \<or> \<not> busy_message m then (Inl m, s', 0)
       else (case withBusyRetry_from (i + 1) tries baseMs fn s' of (r, s'', w) \<Rightarrow> (r, s'', baseMs * 2 ^ i + w)))"
  by pat_completeness auto
termination by (relation "measure (\<lambda>(i, tries, _). tries - i)") auto

definition withBusyRetry :: "(nat \<Rightarrow> 's \<Rightarrow> (string + 'a) \<times> 's) \<Rightarrow> 's \<Rightarrow> (string + 'a) \<times> 's" where
  "withBusyRetry fn s = (case withBusyRetry_from 0 5 25 fn s of (r, s', _) \<Rightarrow> (r, s'))"

text \<open>One statement of the database: it fails as \<open>faults\<close> says, or runs.\<close>

definition statement :: "(nat \<Rightarrow> string option) \<Rightarrow> ('s \<Rightarrow> (string + 'a) \<times> 's) \<Rightarrow> 's \<Rightarrow> (task_error + 'a) \<times> 's" where
  "statement faults op s = (case withBusyRetry (\<lambda>i s. case faults i of Some m \<Rightarrow> (Inl m, s) | None \<Rightarrow> op s) s of
     (Inl m, s') \<Rightarrow> (Inl (DbError m), s') | (Inr x, s') \<Rightarrow> (Inr x, s'))"

section \<open>Queue operations\<close>

definition getRow :: "string \<Rightarrow> task_table \<Rightarrow> task_row option" where
  "getRow i rows = List.find (\<lambda>r. tr_id r = i) rows"

definition update_row :: "string \<Rightarrow> (task_row \<Rightarrow> task_row) \<Rightarrow> task_table \<Rightarrow> task_table" where
  "update_row i f rows = map (\<lambda>r. if tr_id r = i then f r else r) rows"

text \<open>\<open>i\<close> and \<open>ctx\<close> are the given ids or the random ones that replace them.\<close>

definition enqueueTask :: "(nat \<Rightarrow> string option) \<Rightarrow> string \<Rightarrow> string \<Rightarrow> message \<Rightarrow> string \<Rightarrow> int \<Rightarrow> task_table
    \<Rightarrow> (task_error + sp_task) \<times> task_table" where
  "enqueueTask faults i ty msg ctx now rows = (let m = msg\<lparr>mg_taskId := Some i, mg_contextId := Some ctx\<rparr>;
     row = \<lparr>tr_id = i, tr_contextId = ctx, tr_type = ty, tr_state = Submitted, tr_history = [m], tr_artifacts = [],
       tr_assignee = None, tr_leaseUntil = None, tr_deliveryCount = 0, tr_createdAt = now, tr_updatedAt = now\<rparr> in
     case statement faults (\<lambda>rows. if getRow i rows \<noteq> None then (Inl ''UNIQUE constraint failed: agent_tasks.id'', rows)
         else (Inr (), rows @ [row])) rows of
       (Inl e, rows') \<Rightarrow> (Inl e, rows')
     | (Inr _, rows') \<Rightarrow> (Inr \<lparr>tk_id = i, tk_contextId = ctx, tk_state = Submitted, tk_artifacts = [], tk_history = [m],
         tk_metadata = \<lparr>tm_type = ty, tm_assignee = None, tm_leaseUntil = None, tm_deliveryCount = 0\<rparr>\<rparr>, rows'))"

text \<open>The condition of the inner \<open>SELECT\<close>: comparing a lease that is null is not true.\<close>

definition claimable :: "int \<Rightarrow> task_row \<Rightarrow> bool" where
  "claimable now r = (tr_state r = Submitted \<or>
     (tr_state r = Working \<and> (case tr_leaseUntil r of None \<Rightarrow> False | Some t \<Rightarrow> t < now)))"

text \<open>\<open>ORDER BY created_at ASC LIMIT 1\<close>; of rows of the same time, the one inserted first.\<close>

definition oldest_claimable :: "int \<Rightarrow> task_table \<Rightarrow> task_row option" where
  "oldest_claimable now rows = (case sort_by (\<lambda>a b. tr_createdAt a \<le> tr_createdAt b) (filter (claimable now) rows) of
     [] \<Rightarrow> None | r # _ \<Rightarrow> Some r)"

definition leased :: "string \<Rightarrow> int \<Rightarrow> int \<Rightarrow> task_row \<Rightarrow> task_row" where
  "leased w leaseMs now r = r\<lparr>tr_state := Working, tr_assignee := Some w, tr_leaseUntil := Some (now + leaseMs),
     tr_deliveryCount := tr_deliveryCount r + 1, tr_updatedAt := now\<rparr>"

definition leaseNextTask :: "(nat \<Rightarrow> string option) \<Rightarrow> string \<Rightarrow> int \<Rightarrow> int \<Rightarrow> task_table
    \<Rightarrow> (task_error + sp_task option) \<times> task_table" where
  "leaseNextTask faults w leaseMs now rows = statement faults (\<lambda>rows. case oldest_claimable now rows of
       None \<Rightarrow> (Inr None, rows)
     | Some r \<Rightarrow> (Inr (Some (rowToTask (leased w leaseMs now r))), update_row (tr_id r) (leased w leaseMs now) rows)) rows"

definition valid_lease :: "string \<Rightarrow> int \<Rightarrow> task_row \<Rightarrow> bool" where
  "valid_lease w now r = (tr_assignee r = Some w \<and> (case tr_leaseUntil r of None \<Rightarrow> False | Some t \<Rightarrow> now \<le> t))"

text \<open>
  The new row of \<open>resolveTask\<close> from the row it read. Other requests may change the table between that read and
  the update, which names the task by its id only: \<open>others\<close>.
\<close>

definition resolved_row :: "string \<Rightarrow> task_state \<Rightarrow> artifact option \<Rightarrow> message option \<Rightarrow> int option \<Rightarrow> int \<Rightarrow> task_row
    \<Rightarrow> task_row \<Rightarrow> task_row" where
  "resolved_row w st art msg leaseMs now existing r = (let terminal = st \<in> set TERMINAL_STATES in
     r\<lparr>tr_state := st, tr_artifacts := tr_artifacts existing @ (case art of None \<Rightarrow> [] | Some a \<Rightarrow> [a]),
       tr_history := tr_history existing @ (case msg of None \<Rightarrow> [] | Some m \<Rightarrow> [m]),
       tr_assignee := (if terminal then None else Some w),
       tr_leaseUntil := (if terminal then None else Some (now + nullish leaseMs DEFAULT_LEASE_MS)), tr_updatedAt := now\<rparr>)"

definition resolveTask :: "(nat \<Rightarrow> string option) \<Rightarrow> (nat \<Rightarrow> string option) \<Rightarrow> (task_table \<Rightarrow> task_table) \<Rightarrow> string \<Rightarrow> string
    \<Rightarrow> task_state \<Rightarrow> artifact option \<Rightarrow> message option \<Rightarrow> int option \<Rightarrow> int \<Rightarrow> task_table \<Rightarrow> (task_error + sp_task) \<times> task_table" where
  "resolveTask faults1 faults2 others i w st art msg leaseMs now rows =
     (case statement faults1 (\<lambda>rows. (Inr (getRow i rows), rows)) rows of
        (Inl e, rows) \<Rightarrow> (Inl e, rows)
      | (Inr None, rows) \<Rightarrow> (Inl (SpTaskError (''task '' @ i @ '' not found'')), rows)
      | (Inr (Some existing), rows) \<Rightarrow>
          if \<not> valid_lease w now existing then (Inl (SpTaskError (''stale or invalid lease for task '' @ i)), rows)
          else (case statement faults2 (\<lambda>rows. (Inr (), update_row i (resolved_row w st art msg leaseMs now existing) rows)) (others rows) of
              (Inl e, rows') \<Rightarrow> (Inl e, rows')
            | (Inr _, rows') \<Rightarrow> (Inr (rowToTask (resolved_row w st art msg leaseMs now existing existing)), rows')))"

text \<open>
  The two halves of \<open>resolveTask\<close>, with every other request of the service free to run between them: the read with its lease
  check, and the update from the row that was read.
\<close>

definition resolve_read :: "(nat \<Rightarrow> string option) \<Rightarrow> string \<Rightarrow> string \<Rightarrow> int \<Rightarrow> task_table \<Rightarrow> (task_error + task_row) \<times> task_table" where
  "resolve_read faults i w now rows = (case statement faults (\<lambda>rows. (Inr (getRow i rows), rows)) rows of
      (Inl e, rows) \<Rightarrow> (Inl e, rows)
    | (Inr None, rows) \<Rightarrow> (Inl (SpTaskError (''task '' @ i @ '' not found'')), rows)
    | (Inr (Some existing), rows) \<Rightarrow>
        if \<not> valid_lease w now existing then (Inl (SpTaskError (''stale or invalid lease for task '' @ i)), rows) else (Inr existing, rows))"

definition resolve_update :: "(nat \<Rightarrow> string option) \<Rightarrow> task_row \<Rightarrow> string \<Rightarrow> string \<Rightarrow> task_state \<Rightarrow> artifact option \<Rightarrow> message option
    \<Rightarrow> int option \<Rightarrow> int \<Rightarrow> task_table \<Rightarrow> (task_error + sp_task) \<times> task_table" where
  "resolve_update faults existing i w st art msg leaseMs now rows =
     (case statement faults (\<lambda>rows. (Inr (), update_row i (resolved_row w st art msg leaseMs now existing) rows)) rows of
        (Inl e, rows') \<Rightarrow> (Inl e, rows')
      | (Inr _, rows') \<Rightarrow> (Inr (rowToTask (resolved_row w st art msg leaseMs now existing existing)), rows'))"

lemma resolveTask_halves:
  "resolveTask faults1 faults2 others i w st art msg leaseMs now rows = (case resolve_read faults1 i w now rows of
     (Inl e, rows) \<Rightarrow> (Inl e, rows) | (Inr existing, rows) \<Rightarrow> resolve_update faults2 existing i w st art msg leaseMs now (others rows))"
  by (simp add: resolveTask_def resolve_read_def resolve_update_def split: prod.split sum.split option.split)

definition getTask :: "string \<Rightarrow> task_table \<Rightarrow> sp_task option" where
  "getTask i rows = map_option rowToTask (getRow i rows)"

section \<open>The endpoints\<close>

datatype http_answer = Ok200 "sp_task option" | Unauthorized401 | Bad400 | Conflict409 string | Error500 string

record resolve_body =
  rb_id :: "string option"
  rb_state :: "task_state option"
  rb_artifact :: "artifact option"
  rb_statusMessage :: "message option"

definition getNextTaskHandler :: "(nat \<Rightarrow> string option) \<Rightarrow> int option \<Rightarrow> string option \<Rightarrow> int \<Rightarrow> task_table \<Rightarrow> http_answer \<times> task_table" where
  "getNextTaskHandler faults leaseMs agent now rows = (if \<not> truthy_str agent then (Unauthorized401, rows)
     else case leaseNextTask faults (the agent) (nullish leaseMs DEFAULT_LEASE_MS) now rows of
       (Inr t, rows') \<Rightarrow> (Ok200 t, rows') | (Inl (DbError m), rows') \<Rightarrow> (Error500 m, rows')
     | (Inl (SpTaskError m), rows') \<Rightarrow> (Error500 m, rows'))"

definition resolveTaskHandler :: "(nat \<Rightarrow> string option) \<Rightarrow> (nat \<Rightarrow> string option) \<Rightarrow> (task_table \<Rightarrow> task_table) \<Rightarrow> int option
    \<Rightarrow> string option \<Rightarrow> resolve_body \<Rightarrow> int \<Rightarrow> task_table \<Rightarrow> http_answer \<times> task_table" where
  "resolveTaskHandler faults1 faults2 others leaseMs agent b now rows = (if \<not> truthy_str agent then (Unauthorized401, rows)
     else if \<not> truthy_str (rb_id b) \<or> rb_state b = None then (Bad400, rows)
     else case resolveTask faults1 faults2 others (the (rb_id b)) (the agent) (the (rb_state b)) (rb_artifact b) (rb_statusMessage b)
         (Some (nullish leaseMs DEFAULT_LEASE_MS)) now rows of
       (Inr t, rows') \<Rightarrow> (Ok200 (Some t), rows') | (Inl (SpTaskError m), rows') \<Rightarrow> (Conflict409 m, rows')
     | (Inl (DbError m), rows') \<Rightarrow> (Error500 m, rows'))"


declare withBusyRetry_from.simps [simp del]

section \<open>What a caller of the queue relies on\<close>

text \<open>
  The abstract queue: a task is offered to every poller (perhaps with an earlier holder that may still resolve
  it), held by a worker until a time, parked with a worker that waits for input, or finished.
\<close>

datatype phase = Offered "(string \<times> int) option" | Held string int | Parked string int | Finished

type_synonym task_queue = "string \<Rightarrow> (int \<times> phase) option"

fun due :: "int \<Rightarrow> phase \<Rightarrow> bool" where
  "due now (Offered _) = True"
| "due now (Held _ t) = (t < now)"
| "due now (Parked _ _) = False"
| "due now Finished = False"

fun may_resolve :: "string \<Rightarrow> int \<Rightarrow> phase \<Rightarrow> bool" where
  "may_resolve w now (Offered None) = False"
| "may_resolve w now (Offered (Some (v, t))) = (v = w \<and> now \<le> t)"
| "may_resolve w now (Held v t) = (v = w \<and> now \<le> t)"
| "may_resolve w now (Parked v t) = (v = w \<and> now \<le> t)"
| "may_resolve w now Finished = False"

fun next_phase :: "string \<Rightarrow> int \<Rightarrow> task_state \<Rightarrow> phase" where
  "next_phase w t Submitted = Offered (Some (w, t))"
| "next_phase w t Working = Held w t"
| "next_phase w t InputRequired = Parked w t"
| "next_phase w t AuthRequired = Parked w t"
| "next_phase w t st = Finished"

datatype queue_event = Enqueue string string message string int | Poll string int int
  | Resolve string string task_state "artifact option" "message option" "int option" int

datatype queue_answer = Queued | Got string | Nothing | Resolved | Refused | Broken

inductive spec_step :: "queue_event \<Rightarrow> task_queue \<Rightarrow> queue_answer \<Rightarrow> task_queue \<Rightarrow> bool" where
  enqueue: "q i = None \<Longrightarrow> spec_step (Enqueue i ty m ctx now) q Queued (q(i \<mapsto> (now, Offered None)))"
| poll: "q i = Some (c, p) \<Longrightarrow> due now p \<Longrightarrow> (\<And>j d p'. q j = Some (d, p') \<Longrightarrow> due now p' \<Longrightarrow> c \<le> d) \<Longrightarrow>
    spec_step (Poll w ms now) q (Got i) (q(i \<mapsto> (c, Held w (now + ms))))"
| idle: "(\<And>j d p. q j = Some (d, p) \<Longrightarrow> \<not> due now p) \<Longrightarrow> spec_step (Poll w ms now) q Nothing q"
| resolve: "q i = Some (c, p) \<Longrightarrow> may_resolve w now p \<Longrightarrow>
    spec_step (Resolve i w st art m ms now) q Resolved (q(i \<mapsto> (c, next_phase w (now + nullish ms DEFAULT_LEASE_MS) st)))"
| refuse: "(\<And>c p. q i = Some (c, p) \<Longrightarrow> \<not> may_resolve w now p) \<Longrightarrow> spec_step (Resolve i w st art m ms now) q Refused q"
| broken: "spec_step e q Broken q"

inductive_cases spec_enqueueE: "spec_step (Enqueue i ty m ctx now) q a q'"
inductive_cases spec_pollE: "spec_step (Poll w ms now) q a q'"
inductive_cases spec_resolveE: "spec_step (Resolve i w st art m ms now) q a q'"

section \<open>The table as that queue\<close>

definition phase_of :: "task_row \<Rightarrow> phase" where
  "phase_of r = (let h = (case (tr_assignee r, tr_leaseUntil r) of (Some w, Some t) \<Rightarrow> Some (w, t) | _ \<Rightarrow> None) in
     case tr_state r of Submitted \<Rightarrow> Offered h
     | Working \<Rightarrow> (case h of Some (w, t) \<Rightarrow> Held w t | None \<Rightarrow> Finished)
     | InputRequired \<Rightarrow> (case h of Some (w, t) \<Rightarrow> Parked w t | None \<Rightarrow> Finished)
     | AuthRequired \<Rightarrow> (case h of Some (w, t) \<Rightarrow> Parked w t | None \<Rightarrow> Finished)
     | _ \<Rightarrow> Finished)"

definition queue_of :: "task_table \<Rightarrow> task_queue" where
  "queue_of rows i = map_option (\<lambda>r. (tr_createdAt r, phase_of r)) (getRow i rows)"

text \<open>A lease has both its columns or none; a task at work or waiting has one, a finished task has none.\<close>

definition row_ok :: "task_row \<Rightarrow> bool" where
  "row_ok r = ((tr_assignee r = None \<longleftrightarrow> tr_leaseUntil r = None) \<and>
     (tr_state r \<in> {Working, InputRequired, AuthRequired} \<longrightarrow> tr_assignee r \<noteq> None) \<and>
     (tr_state r \<in> set TERMINAL_STATES \<longrightarrow> tr_assignee r = None))"

definition table_ok :: "task_table \<Rightarrow> bool" where
  "table_ok rows = (distinct (map tr_id rows) \<and> list_all row_ok rows)"

definition queue_step :: "(nat \<Rightarrow> string option) \<times> (nat \<Rightarrow> string option) \<Rightarrow> queue_event \<Rightarrow> task_table \<Rightarrow> queue_answer \<times> task_table" where
  "queue_step f e rows = (case e of
     Enqueue i ty m ctx now \<Rightarrow> (case enqueueTask (fst f) i ty m ctx now rows of
        (Inl _, rows') \<Rightarrow> (Broken, rows') | (Inr _, rows') \<Rightarrow> (Queued, rows'))
   | Poll w ms now \<Rightarrow> (case leaseNextTask (fst f) w ms now rows of
        (Inl _, rows') \<Rightarrow> (Broken, rows') | (Inr None, rows') \<Rightarrow> (Nothing, rows') | (Inr (Some t), rows') \<Rightarrow> (Got (tk_id t), rows'))
   | Resolve i w st art m ms now \<Rightarrow> (case resolveTask (fst f) (snd f) (\<lambda>rows. rows) i w st art m ms now rows of
        (Inl (DbError _), rows') \<Rightarrow> (Broken, rows') | (Inl (SpTaskError _), rows') \<Rightarrow> (Refused, rows')
      | (Inr _, rows') \<Rightarrow> (Resolved, rows')))"

section \<open>Statements and rows\<close>

primrec before :: "(nat \<Rightarrow> 's \<Rightarrow> (string + 'a) \<times> 's) \<Rightarrow> 's \<Rightarrow> nat \<Rightarrow> 's" where
  "before fn s 0 = s"
| "before fn s (Suc j) = snd (fn j (before fn s j))"

lemma retry_from:
  assumes "i < n" "withBusyRetry_from i n b fn (before fn s i) = (r, s', w)"
  shows "\<exists>k. i \<le> k \<and> k < n \<and> fn k (before fn s k) = (r, s') \<and> (\<forall>j\<in>{i..<k}. \<exists>m. fst (fn j (before fn s j)) = Inl m \<and> busy_message m) \<and>
    (k + 1 = n \<or> (\<forall>m. r = Inl m \<longrightarrow> \<not> busy_message m)) \<and> w = b * (2 ^ k - 2 ^ i)"
  using assms
proof (induction "n - i" arbitrary: i w)
  case (Suc d)
  obtain x t where f: "fn i (before fn s i) = (x, t)" by fastforce
  show ?case
  proof (cases "\<exists>m. x = Inl m \<and> busy_message m \<and> i + 1 < n")
    case False
    then have "r = x" "s' = t" "w = 0" "i + 1 = n \<or> (\<forall>m. r = Inl m \<longrightarrow> \<not> busy_message m)"
      using Suc.prems f by (auto simp: withBusyRetry_from.simps [of i] split: sum.splits if_splits)
    with f Suc.prems(1) show ?thesis by (intro exI [of _ i]) simp
  next
    case True
    then obtain m where m: "x = Inl m" "busy_message m" "i + 1 < n" by blast
    have "before fn s (i + 1) = t" by (simp add: f)
    with m Suc.prems(2) f obtain v where v: "withBusyRetry_from (i + 1) n b fn (before fn s (i + 1)) = (r, s', v)" "w = b * 2 ^ i + v"
      by (auto simp: withBusyRetry_from.simps [of i] split: prod.splits)
    have "d = n - (i + 1)" using Suc.hyps(2) by simp
    from Suc.hyps(1) [OF this m(3) v(1)] obtain k where k: "i + 1 \<le> k" "k < n" "fn k (before fn s k) = (r, s')"
        "\<forall>j\<in>{i + 1..<k}. \<exists>m. fst (fn j (before fn s j)) = Inl m \<and> busy_message m"
        "k + 1 = n \<or> (\<forall>m. r = Inl m \<longrightarrow> \<not> busy_message m)" "v = b * (2 ^ k - 2 ^ (i + 1))" by blast
    have "(2::nat) ^ (i + 1) \<le> 2 ^ k" using k(1) by (intro power_increasing) simp_all
    then have "(2::nat) ^ i + (2 ^ k - 2 ^ (i + 1)) = 2 ^ k - 2 ^ i" by simp
    then have w: "w = b * (2 ^ k - 2 ^ i)" using v(2) k(6) by (simp only: flip: distrib_left)
    have "\<forall>j\<in>{i..<k}. \<exists>m. fst (fn j (before fn s j)) = Inl m \<and> busy_message m"
    proof
      fix j assume "j \<in> {i..<k}"
      then consider "j = i" | "j \<in> {i + 1..<k}" by fastforce
      then show "\<exists>m. fst (fn j (before fn s j)) = Inl m \<and> busy_message m" using k(4) f m(1,2) by cases simp_all
    qed
    with k w show ?thesis by (intro exI [of _ k]) simp
  qed
qed simp

lemma statement_cases:
  assumes "statement faults op s = (r, s')" "\<And>m t. op s = (Inl m, t) \<Longrightarrow> t = s"
  obtains x where "op s = (Inr x, s')" "r = Inr x" | m where "r = Inl (DbError m)" "s' = s" "faults = (\<lambda>_. None) \<Longrightarrow> op s = (Inl m, s)"
proof -
  let ?fn = "\<lambda>i s. case faults i of Some m \<Rightarrow> (Inl m, s) | None \<Rightarrow> op s"
  obtain x t w where f: "withBusyRetry_from 0 5 25 ?fn s = (x, t, w)" by (rule prod_cases3)
  then have f': "withBusyRetry_from 0 5 25 ?fn (before ?fn s 0) = (x, t, w)" by simp
  obtain k where k: "?fn k (before ?fn s k) = (x, t)" "\<forall>j\<in>{0..<k}. \<exists>m. fst (?fn j (before ?fn s j)) = Inl m \<and> busy_message m"
    using retry_from [OF _ f'] by auto
  have same: "j \<le> k \<Longrightarrow> before ?fn s j = s" for j
  proof (induction j)
    case (Suc j)
    then have IH: "before ?fn s j = s" by simp
    obtain m where "fst (?fn j (before ?fn s j)) = Inl m" using k(2) Suc.prems by (meson atLeastLessThan_iff less_eq_nat.simps(1) Suc_le_lessD)
    then have "fst (?fn j s) = Inl m" by (simp only: IH)
    with assms(2) have "snd (?fn j s) = s" by (cases "op s") (auto split: option.splits)
    with IH show ?case by simp
  qed simp
  from k(1) have x: "?fn k s = (x, t)" by (simp only: same [OF order_refl])
  have r: "(r, s') = (case x of Inl m \<Rightarrow> Inl (DbError m) | Inr x \<Rightarrow> Inr x, t)"
    using assms(1) f by (cases x) (auto simp: statement_def withBusyRetry_def)
  show thesis
  proof (cases x)
    case (Inl m)
    with x assms(2) r that(2) [of m] show thesis by (cases "faults k") auto
  next
    case (Inr y)
    with x r that(1) [of y] show thesis by (cases "faults k") auto
  qed
qed

lemma getRow_Some: "getRow i rows = Some r \<Longrightarrow> r \<in> set rows \<and> tr_id r = i"
  unfolding getRow_def by (drule find_Some_mem) simp

lemma getRow_mem: "distinct (map tr_id rows) \<Longrightarrow> r \<in> set rows \<Longrightarrow> getRow (tr_id r) rows = Some r"
  by (induction rows) (auto simp: getRow_def)

lemma getRow_None: "getRow i rows = None \<longleftrightarrow> i \<notin> tr_id ` set rows"
  by (auto simp: getRow_def find_None_iff)

lemma getRow_update:
  assumes "\<And>r. tr_id (f r) = tr_id r"
  shows "getRow j (update_row i f rows) = (if j = i then map_option f (getRow i rows) else getRow j rows)"
  by (induction rows) (auto simp: getRow_def update_row_def assms)

lemma getRow_append: "getRow j (rows @ [r]) = (case getRow j rows of Some x \<Rightarrow> Some x | None \<Rightarrow> if tr_id r = j then Some r else None)"
  by (induction rows) (auto simp: getRow_def)

lemma update_row_ids: "(\<And>r. tr_id (f r) = tr_id r) \<Longrightarrow> map tr_id (update_row i f rows) = map tr_id rows"
  by (simp add: update_row_def)

lemma table_ok_update:
  assumes "table_ok rows" "\<And>r. tr_id (f r) = tr_id r" "\<And>r. row_ok r \<Longrightarrow> row_ok (f r)"
  shows "table_ok (update_row i f rows)"
proof -
  have "row_ok x" if "x \<in> set (update_row i f rows)" for x
    using that assms(1,3) by (auto simp: update_row_def table_ok_def list_all_iff)
  then show ?thesis using assms(1) update_row_ids [OF assms(2)] by (simp add: table_ok_def list_all_iff)
qed

lemma row_ok_get: "table_ok rows \<Longrightarrow> getRow i rows = Some r \<Longrightarrow> row_ok r"
  using getRow_Some by (fastforce simp: table_ok_def list_all_iff)

lemma leased_simps [simp]: "tr_id (leased w ms now r) = tr_id r" "tr_createdAt (leased w ms now r) = tr_createdAt r"
  by (simp_all add: leased_def)

lemma resolved_simps [simp]: "tr_id (resolved_row w st art m ms now e r) = tr_id r"
  "tr_createdAt (resolved_row w st art m ms now e r) = tr_createdAt r"
  by (simp_all add: resolved_row_def Let_def)

lemma phase_leased: "phase_of (leased w ms now r) = Held w (now + ms)"
  by (simp add: phase_of_def leased_def)

lemma phase_resolved: "phase_of (resolved_row w st art m ms now e r) = next_phase w (now + nullish ms DEFAULT_LEASE_MS) st"
  by (cases st) (simp_all add: phase_of_def resolved_row_def TERMINAL_STATES_def Let_def)

lemma claimable_due: "row_ok r \<Longrightarrow> claimable now r = due now (phase_of r)"
  by (cases "tr_state r"; cases "tr_assignee r"; cases "tr_leaseUntil r")
    (simp_all add: claimable_def phase_of_def row_ok_def TERMINAL_STATES_def)

lemma valid_may_resolve: "row_ok r \<Longrightarrow> valid_lease w now r = may_resolve w now (phase_of r)"
  by (cases "tr_state r"; cases "tr_assignee r"; cases "tr_leaseUntil r")
    (simp_all add: valid_lease_def phase_of_def row_ok_def TERMINAL_STATES_def)

lemma orders_created: "orders_on A (\<lambda>a b. tr_createdAt a \<le> tr_createdAt b)"
  by (auto simp: orders_on_def)

lemma oldest_Some:
  assumes "oldest_claimable now rows = Some r"
  shows "r \<in> set rows" "claimable now r" "\<And>x. x \<in> set rows \<Longrightarrow> claimable now x \<Longrightarrow> tr_createdAt r \<le> tr_createdAt x"
proof -
  let ?l = "sort_by (\<lambda>a b. tr_createdAt a \<le> tr_createdAt b) (filter (claimable now) rows)"
  obtain rs where l: "?l = r # rs" using assms by (auto simp: oldest_claimable_def split: list.splits)
  have set: "set ?l = {x \<in> set rows. claimable now x}" by auto
  have "sorted_wrt (\<lambda>a b. tr_createdAt a \<le> tr_createdAt b) ?l" by (rule sorted_sort_by [OF orders_created subset_UNIV])
  then have "\<forall>x\<in>set ?l. tr_createdAt r \<le> tr_createdAt x" unfolding l by simp
  with set show "\<And>x. x \<in> set rows \<Longrightarrow> claimable now x \<Longrightarrow> tr_createdAt r \<le> tr_createdAt x" by blast
  have "r \<in> set ?l" by (simp add: l)
  with set show "r \<in> set rows" "claimable now r" by blast+
qed

lemma oldest_None: "oldest_claimable now rows = None \<longleftrightarrow> (\<forall>r\<in>set rows. \<not> claimable now r)"
proof -
  let ?l = "sort_by (\<lambda>a b. tr_createdAt a \<le> tr_createdAt b) (filter (claimable now) rows)"
  have "oldest_claimable now rows = None \<longleftrightarrow> ?l = []" by (cases ?l) (simp_all add: oldest_claimable_def)
  then show ?thesis by (simp add: filter_empty_conv)
qed

lemma row_ok_leased: "row_ok r \<Longrightarrow> row_ok (leased w ms now r)"
  by (simp add: row_ok_def leased_def TERMINAL_STATES_def)

lemma row_ok_resolved: "row_ok r \<Longrightarrow> row_ok (resolved_row w st art m ms now e r)"
  by (cases st) (simp_all add: row_ok_def resolved_row_def TERMINAL_STATES_def Let_def)

lemma queue_of_update:
  assumes "\<And>r. tr_id (f r) = tr_id r" "\<And>r. tr_createdAt (f r) = tr_createdAt r" "\<And>r. phase_of (f r) = p" "getRow i rows = Some r"
  shows "queue_of (update_row i f rows) = (queue_of rows)(i \<mapsto> (tr_createdAt r, p))"
  by (rule ext) (simp add: queue_of_def getRow_update [where f = f, OF assms(1)] assms(2-4))

lemma enqueue_refines:
  assumes "table_ok rows" "queue_step f (Enqueue i ty m ctx now) rows = (a, rows')"
  shows "table_ok rows' \<and> spec_step (Enqueue i ty m ctx now) (queue_of rows) a (queue_of rows') \<and>
    (f = (\<lambda>_. None, \<lambda>_. None) \<longrightarrow> a = Broken \<longrightarrow> getRow i rows \<noteq> None)"
proof -
  let ?row = "\<lparr>tr_id = i, tr_contextId = ctx, tr_type = ty, tr_state = Submitted, tr_history = [m\<lparr>mg_taskId := Some i, mg_contextId := Some ctx\<rparr>],
     tr_artifacts = [], tr_assignee = None, tr_leaseUntil = None, tr_deliveryCount = 0, tr_createdAt = now, tr_updatedAt = now\<rparr>"
  let ?op = "\<lambda>rows. if getRow i rows \<noteq> None then (Inl ''UNIQUE constraint failed: agent_tasks.id'', rows) else (Inr (), rows @ [?row])"
  obtain r t where st: "statement (fst f) ?op rows = (r, t)" by fastforce
  show ?thesis
  proof (rule statement_cases [OF st])
    show "\<And>m t. ?op rows = (Inl m, t) \<Longrightarrow> t = rows" by (simp split: if_splits)
  next
    fix x assume op: "?op rows = (Inr x, t)" and r: "r = Inr x"
    then have new: "getRow i rows = None" "t = rows @ [?row]" by (auto split: if_splits)
    have a: "a = Queued" "rows' = t" using assms(2) st r by (simp_all add: queue_step_def enqueueTask_def Let_def)
    have "queue_of rows' = (queue_of rows)(i \<mapsto> (now, Offered None))"
      using new a by (auto simp: queue_of_def getRow_append phase_of_def split: option.split intro!: ext)
    moreover have "table_ok rows'" using assms(1) new a by (auto simp: table_ok_def getRow_None row_ok_def TERMINAL_STATES_def)
    moreover have "queue_of rows i = None" using new by (simp add: queue_of_def)
    ultimately show ?thesis using spec_step.enqueue [of "queue_of rows" i ty m ctx now] a by simp
  next
    fix e assume r: "r = Inl (DbError e)" and t: "t = rows" and f: "fst f = (\<lambda>_. None) \<Longrightarrow> ?op rows = (Inl e, rows)"
    then have "a = Broken" "rows' = rows" using assms(2) st by (simp_all add: queue_step_def enqueueTask_def Let_def)
    with assms(1) f show ?thesis by (auto intro: spec_step.broken split: if_splits)
  qed
qed

lemma poll_refines:
  assumes "table_ok rows" "queue_step f (Poll w ms now) rows = (a, rows')"
  shows "table_ok rows' \<and> spec_step (Poll w ms now) (queue_of rows) a (queue_of rows') \<and> (f = (\<lambda>_. None, \<lambda>_. None) \<longrightarrow> a \<noteq> Broken)"
proof -
  let ?op = "\<lambda>rows. (case oldest_claimable now rows of None \<Rightarrow> (Inr None, rows)
     | Some r \<Rightarrow> (Inr (Some (rowToTask (leased w ms now r))), update_row (tr_id r) (leased w ms now) rows)) :: (string + sp_task option) \<times> task_table"
  obtain r t where st: "statement (fst f) ?op rows = (r, t)" by fastforce
  have known: "\<exists>x. x \<in> set rows \<and> due now p = claimable now x \<and> tr_createdAt x = d" if "queue_of rows j = Some (d, p)" for j d p
    using that getRow_Some claimable_due row_ok_get [OF assms(1)] by (fastforce simp: queue_of_def)
  show ?thesis
  proof (rule statement_cases [OF st])
    show "\<And>m t. ?op rows = (Inl m, t) \<Longrightarrow> t = rows" by (simp split: option.splits)
  next
    fix x assume op: "?op rows = (Inr x, t)" and r: "r = Inr x"
    show ?thesis
    proof (cases "oldest_claimable now rows")
      case None
      with op r st have a: "a = Nothing" "rows' = rows" using assms(2) by (simp_all add: queue_step_def leaseNextTask_def)
      have "spec_step (Poll w ms now) (queue_of rows) Nothing (queue_of rows)"
        by (rule spec_step.idle) (use known None oldest_None in blast)
      with a assms(1) show ?thesis by simp
    next
      case (Some y)
      note y = oldest_Some [OF Some]
      have get: "getRow (tr_id y) rows = Some y" using assms(1) getRow_mem y(1) by (simp add: table_ok_def)
      from Some op r st have a: "a = Got (tr_id y)" "rows' = update_row (tr_id y) (leased w ms now) rows"
        using assms(2) by (auto simp: queue_step_def leaseNextTask_def rowToTask_def)
      have q: "queue_of rows' = (queue_of rows)(tr_id y \<mapsto> (tr_createdAt y, Held w (now + ms)))"
        unfolding a(2) by (rule queue_of_update) (simp_all add: phase_leased get)
      have "spec_step (Poll w ms now) (queue_of rows) (Got (tr_id y)) ((queue_of rows)(tr_id y \<mapsto> (tr_createdAt y, Held w (now + ms))))"
      proof (rule spec_step.poll)
        show "queue_of rows (tr_id y) = Some (tr_createdAt y, phase_of y)" by (simp add: queue_of_def get)
        show "due now (phase_of y)" using y(2) claimable_due row_ok_get [OF assms(1) get] by simp
        show "queue_of rows j = Some (d, p) \<Longrightarrow> due now p \<Longrightarrow> tr_createdAt y \<le> d" for j d p using known y(3) by blast
      qed
      moreover have "table_ok rows'" unfolding a(2) using table_ok_update [OF assms(1)] row_ok_leased by simp
      ultimately show ?thesis using a q by simp
    qed
  next
    fix e assume r: "r = Inl (DbError e)" and t: "t = rows" and f: "fst f = (\<lambda>_. None) \<Longrightarrow> ?op rows = (Inl e, rows)"
    then have "a = Broken" "rows' = rows" using assms(2) st by (simp_all add: queue_step_def leaseNextTask_def)
    with assms(1) f show ?thesis by (auto intro: spec_step.broken split: option.splits)
  qed
qed

lemma resolve_refines:
  assumes "table_ok rows" "queue_step f (Resolve i w st art m ms now) rows = (a, rows')"
  shows "table_ok rows' \<and> spec_step (Resolve i w st art m ms now) (queue_of rows) a (queue_of rows') \<and>
    (f = (\<lambda>_. None, \<lambda>_. None) \<longrightarrow> a \<noteq> Broken)"
proof -
  obtain r t where rd: "statement (fst f) (\<lambda>rows. (Inr (getRow i rows), rows)) rows = (r, t)" by fastforce
  show ?thesis
  proof (rule statement_cases [OF rd])
    fix e assume r: "r = Inl (DbError e)" "t = rows" and f: "fst f = (\<lambda>_. None) \<Longrightarrow> (Inr (getRow i rows), rows) = (Inl e, rows)"
    have "a = Broken" "rows' = rows" using assms(2) rd r by (simp_all add: queue_step_def resolveTask_def)
    with assms(1) f show ?thesis by (auto intro: spec_step.broken)
  next
    fix x assume "(Inr (getRow i rows), rows) = (Inr x, t)" "r = Inr x"
    with rd have rd: "statement (fst f) (\<lambda>rows. (Inr (getRow i rows), rows)) rows = (Inr (getRow i rows), rows)" by auto
    show ?thesis
    proof (cases "\<exists>y. getRow i rows = Some y \<and> valid_lease w now y")
      case False
      then have "a = Refused" "rows' = rows"
        using assms(2) rd by (auto simp: queue_step_def resolveTask_def split: option.splits if_splits)
      moreover have "spec_step (Resolve i w st art m ms now) (queue_of rows) Refused (queue_of rows)"
        by (rule spec_step.refuse) (use False valid_may_resolve row_ok_get [OF assms(1)] in \<open>auto simp: queue_of_def\<close>)
      ultimately show ?thesis using assms(1) by simp
    next
      case True
      then obtain y where y: "getRow i rows = Some y" "valid_lease w now y" by blast
      let ?f = "resolved_row w st art m ms now y"
      obtain r2 t2 where wr: "statement (snd f) (\<lambda>rows. (Inr (), update_row i ?f rows)) rows = (r2, t2)" by fastforce
      show ?thesis
      proof (rule statement_cases [OF wr])
        fix e assume r: "r2 = Inl (DbError e)" "t2 = rows" and f: "snd f = (\<lambda>_. None) \<Longrightarrow> (Inr (), update_row i ?f rows) = (Inl e, rows)"
        have "a = Broken" "rows' = rows" using assms(2) rd y wr r by (simp_all add: queue_step_def resolveTask_def)
        with assms(1) f show ?thesis by (auto intro: spec_step.broken)
      next
        fix x assume r: "(Inr (), update_row i ?f rows) = (Inr x, t2)" "r2 = Inr x"
        then have a: "a = Resolved" "rows' = update_row i ?f rows" using assms(2) rd y wr by (simp_all add: queue_step_def resolveTask_def)
        have q: "queue_of rows' = (queue_of rows)(i \<mapsto> (tr_createdAt y, next_phase w (now + nullish ms DEFAULT_LEASE_MS) st))"
          unfolding a(2) by (rule queue_of_update) (simp_all add: phase_resolved y)
        have "spec_step (Resolve i w st art m ms now) (queue_of rows) Resolved
            ((queue_of rows)(i \<mapsto> (tr_createdAt y, next_phase w (now + nullish ms DEFAULT_LEASE_MS) st)))"
        proof (rule spec_step.resolve)
          show "queue_of rows i = Some (tr_createdAt y, phase_of y)" by (simp add: queue_of_def y)
          show "may_resolve w now (phase_of y)" using y valid_may_resolve row_ok_get [OF assms(1)] by simp
        qed
        moreover have "table_ok rows'" unfolding a(2) using table_ok_update [OF assms(1)] row_ok_resolved by simp
        ultimately show ?thesis using a q by simp
      qed (simp_all)
    qed
  qed simp_all
qed

lemma queue_step_refines:
  assumes "table_ok rows" "queue_step f e rows = (a, rows')"
  shows "table_ok rows' \<and> spec_step e (queue_of rows) a (queue_of rows')"
  using assms(2)
proof (cases e)
  case (Enqueue i ty m ctx now)
  with enqueue_refines assms show ?thesis by blast
next
  case (Poll w ms now)
  with poll_refines assms show ?thesis by blast
next
  case (Resolve i w st art m ms now)
  with resolve_refines assms show ?thesis by blast
qed

section \<open>What follows for every provider of such a queue\<close>

fun run_events :: "('e \<Rightarrow> 's \<Rightarrow> 'a \<times> 's) \<Rightarrow> 'e list \<Rightarrow> 's \<Rightarrow> 'a list \<times> 's" where
  "run_events step [] s = ([], s)"
| "run_events step (e # es) s = (case step e s of (a, s1) \<Rightarrow> case run_events step es s1 of (as, s2) \<Rightarrow> (a # as, s2))"

fun event_time :: "queue_event \<Rightarrow> int" where
  "event_time (Enqueue i ty m ctx now) = now"
| "event_time (Poll w ms now) = now"
| "event_time (Resolve i w st art m ms now) = now"

fun resolves :: "string \<Rightarrow> string \<Rightarrow> queue_event \<Rightarrow> bool" where
  "resolves i w (Resolve j v st art m ms now) = (j = i \<and> v = w)"
| "resolves i w e = False"

text \<open>\<open>settled p e\<close>: event \<open>e\<close> cannot touch task \<open>i\<close> in phase \<open>p\<close>.\<close>

fun settled :: "string \<Rightarrow> phase \<Rightarrow> queue_event \<Rightarrow> bool" where
  "settled i (Held w t) e = (event_time e \<le> t \<and> \<not> resolves i w e)"
| "settled i (Parked w t) e = (t < event_time e \<or> \<not> resolves i w e)"
| "settled i Finished e = True"
| "settled i (Offered h) e = False"

lemma spec_settled:
  assumes "spec_step e q a q'" "q i = Some (c, p)" "settled i p e"
  shows "q' i = Some (c, p) \<and> a \<noteq> Got i"
  using assms by (induction rule: spec_step.induct) (cases p; auto)+

locale task_service =
  fixes step :: "'e \<Rightarrow> 's \<Rightarrow> queue_answer \<times> 's" and event :: "'e \<Rightarrow> queue_event"
    and queue :: "'s \<Rightarrow> task_queue" and inv :: "'s \<Rightarrow> bool"
  assumes step_law: "inv s \<Longrightarrow> step e s = (a, s') \<Longrightarrow> inv s' \<and> spec_step (event e) (queue s) a (queue s')"
begin

lemma run_settled:
  "inv s \<Longrightarrow> queue s i = Some (c, p) \<Longrightarrow> list_all (\<lambda>e. settled i p (event e)) es \<Longrightarrow> run_events step es s = (as, s') \<Longrightarrow>
    inv s' \<and> queue s' i = Some (c, p) \<and> Got i \<notin> set as"
proof (induction es arbitrary: s as)
  case (Cons e es)
  obtain a s1 bs where r: "step e s = (a, s1)" "run_events step es s1 = (bs, s')" "as = a # bs"
    using Cons.prems(4) by (auto split: prod.splits)
  note l = step_law [OF Cons.prems(1) r(1)]
  have "queue s1 i = Some (c, p) \<and> a \<noteq> Got i"
    using spec_settled [where e = "event e" and q = "queue s" and q' = "queue s1" and a = a and i = i] Cons.prems(2,3) l by simp
  with Cons.IH [of s1 bs] l r Cons.prems(3) show ?case by auto
qed simp

end

interpretation tasks: task_service "\<lambda>(f, e). queue_step f e" snd queue_of table_ok
  by unfold_locales (use queue_step_refines in auto)

section \<open>Draining\<close>

lemma filter_insort_by: "filter P (insort_by le x xs) = (if P x then insort_by le x (filter P xs) else filter P xs)"
  if "orders_on UNIV le" "sorted_wrt le xs" for le
  using that(2)
proof (induction xs)
  case (Cons y ys)
  show ?case
  proof (cases "le x y")
    case False
    then show ?thesis using Cons by auto
  next
    case True
    have "z \<in> set ys \<Longrightarrow> le x z" for z using Cons.prems True orders_onD(2) [OF that(1), of x y z] by auto
    then have "insort_by le x (filter P ys) = x # filter P ys" by (cases "filter P ys") (auto dest: filter_eq_ConsD)
    with True show ?thesis by auto
  qed
qed simp

lemma filter_sort_by: "orders_on UNIV le \<Longrightarrow> filter P (sort_by le xs) = sort_by le (filter P xs)"
  by (induction xs) (simp_all add: filter_insort_by sorted_sort_by [OF _ subset_UNIV])

definition claim_order :: "int \<Rightarrow> task_table \<Rightarrow> string list" where
  "claim_order now rows = map tr_id (sort_by (\<lambda>a b. tr_createdAt a \<le> tr_createdAt b) (filter (claimable now) rows))"

text \<open>No lease ends in the window from \<open>lo\<close> to \<open>hi\<close>.\<close>

definition steady :: "int \<Rightarrow> int \<Rightarrow> task_table \<Rightarrow> bool" where
  "steady lo hi rows = list_all (\<lambda>r. tr_state r = Working \<longrightarrow> (case tr_leaseUntil r of None \<Rightarrow> True | Some t \<Rightarrow> t < lo \<or> hi \<le> t)) rows"

lemma steady_claimable:
  assumes "steady lo hi rows" "r \<in> set rows" "lo \<le> now" "now \<le> hi"
  shows "claimable now r = claimable lo r"
  using assms by (auto simp: steady_def claimable_def list_all_iff split: option.splits)

lemma steady_filter: "steady lo hi rows \<Longrightarrow> lo \<le> now \<Longrightarrow> now \<le> hi \<Longrightarrow> filter (claimable now) rows = filter (claimable lo) rows"
  by (rule filter_cong [OF refl]) (rule steady_claimable; assumption)

lemma statement_ok: "op s = (Inr x, t) \<Longrightarrow> statement (\<lambda>_. None) op s = (Inr x, t)"
proof -
  assume op: "op s = (Inr x, t)"
  have "withBusyRetry_from 0 5 25 (\<lambda>i s. case None of Some m \<Rightarrow> (Inl m, s) | None \<Rightarrow> op s) s = (Inr x, t, 0)"
    unfolding withBusyRetry_from.simps [of 0] option.case op prod.case sum.case ..
  then show ?thesis by (simp only: statement_def withBusyRetry_def prod.case sum.case)
qed

lemma queue_step_poll: "queue_step (\<lambda>_. None, \<lambda>_. None) (Poll w ms now) rows = (case oldest_claimable now rows of None \<Rightarrow> (Nothing, rows)
    | Some r \<Rightarrow> (Got (tr_id r), update_row (tr_id r) (leased w ms now) rows))"
  by (cases "oldest_claimable now rows") (simp_all add: queue_step_def leaseNextTask_def statement_ok rowToTask_def)

lemma poll_takes_first:
  assumes "distinct (map tr_id rows)" "steady lo hi rows" "lo \<le> now" "now \<le> hi" "hi \<le> now + ms" "claim_order lo rows = i # js"
    and "queue_step (\<lambda>_. None, \<lambda>_. None) (Poll w ms now) rows = (a, rows')"
  shows "a = Got i \<and> distinct (map tr_id rows') \<and> steady lo hi rows' \<and> claim_order lo rows' = js"
proof -
  let ?le = "\<lambda>a b. tr_createdAt a \<le> tr_createdAt b"
  obtain r rs where l: "sort_by ?le (filter (claimable lo) rows) = r # rs" "tr_id r = i" "map tr_id rs = js"
    using assms(6) unfolding claim_order_def by (auto simp: map_eq_Cons_conv)
  have old: "oldest_claimable now rows = Some r"
    using l(1) steady_filter [OF assms(2-4)] by (simp add: oldest_claimable_def)
  then have a: "a = Got i" "rows' = update_row i (leased w ms now) rows"
    using assms(7) l(2) by (auto simp: queue_step_poll)
  have ids: "map tr_id rows' = map tr_id rows" using a(2) by (simp add: update_row_ids)
  have st: "steady lo hi rows'"
    using assms(2,5) a(2) by (auto simp: steady_def update_row_def leased_def list_all_iff)
  have "filter (claimable lo) rows' = filter (\<lambda>x. tr_id x \<noteq> i) (filter (claimable lo) rows)"
  proof -
    have "\<not> claimable lo (leased w ms now x)" for x using assms(3-5) by (auto simp: claimable_def leased_def)
    then show ?thesis unfolding a(2) update_row_def by (induction rows) auto
  qed
  then have "sort_by ?le (filter (claimable lo) rows') = filter (\<lambda>x. tr_id x \<noteq> i) (r # rs)"
    by (simp only: l(1) flip: filter_sort_by [OF orders_created, of "\<lambda>x. tr_id x \<noteq> i"])
  also have "\<dots> = rs"
  proof -
    have "distinct (map tr_id (sort_by ?le (filter (claimable lo) rows)))"
      using assms(1) by (auto simp: distinct_map inj_on_def)
    then have "i \<notin> tr_id ` set rs" using l(1,2) by simp
    then show ?thesis using l(2) by (auto simp: filter_id_conv image_iff)
  qed
  finally show ?thesis using a(1) ids st assms(1) l(3) by (simp add: claim_order_def)
qed

lemma polls_take_all:
  assumes "distinct (map tr_id rows)" "steady lo hi rows"
    and "list_all (\<lambda>(w, ms, now). lo \<le> now \<and> now \<le> hi \<and> hi \<le> now + ms) polls"
    and "run_events (\<lambda>(w, ms, now). queue_step (\<lambda>_. None, \<lambda>_. None) (Poll w ms now)) polls rows = (as, rows')"
  shows "as = map Got (take (length polls) (claim_order lo rows)) @ replicate (length polls - length (claim_order lo rows)) Nothing \<and>
    claim_order lo rows' = drop (length polls) (claim_order lo rows)"
  using assms
proof (induction polls arbitrary: rows as)
  case (Cons p ps)
  obtain w ms now where p: "p = (w, ms, now)" by (rule prod_cases3)
  have now: "lo \<le> now" "now \<le> hi" "hi \<le> now + ms" using Cons.prems(3) p by simp_all
  obtain a rows1 bs where s: "queue_step (\<lambda>_. None, \<lambda>_. None) (Poll w ms now) rows = (a, rows1)" "as = a # bs"
      "run_events (\<lambda>(w, ms, now). queue_step (\<lambda>_. None, \<lambda>_. None) (Poll w ms now)) ps rows1 = (bs, rows')"
    using Cons.prems(4) p by (auto split: prod.splits)
  show ?case
  proof (cases "claim_order lo rows")
    case Nil
    then have "oldest_claimable now rows = None" using steady_filter [OF Cons.prems(2) now(1,2)]
      by (simp add: claim_order_def oldest_claimable_def)
    then have "a = Nothing" "rows1 = rows" using s(1) by (auto simp: queue_step_poll)
    with Cons.IH [OF Cons.prems(1,2) _ s(3) [unfolded this]] Cons.prems(3) Nil s(2) show ?thesis by simp
  next
    case (Cons i js)
    note f = poll_takes_first [OF Cons.prems(1,2) now Cons s(1)]
    with Cons.IH [OF _ _ _ s(3)] Cons.prems(3) Cons s(2) show ?thesis by simp
  qed
qed simp

section \<open>Properties\<close>

text \<open>
  C10. The task table refines the abstract queue: every operation keeps the table well formed and answers as one
  step of the queue allows - a poll gives the oldest due task to the poller for its lease, or nothing when none
  is due; a resolve is accepted exactly when the worker holds the task at that time. Only a database error or
  the id of a task that exists makes an operation fail, and then the table is unchanged.
\<close>

theorem table_refines_queue:
  assumes "table_ok rows" "queue_step f e rows = (a, rows')"
  shows "table_ok rows' \<and> spec_step e (queue_of rows) a (queue_of rows') \<and> (a = Broken \<longrightarrow> queue_of rows' = queue_of rows) \<and>
    (f = (\<lambda>_. None, \<lambda>_. None) \<longrightarrow> a = Broken \<longrightarrow> (\<exists>i ty m ctx now r. e = Enqueue i ty m ctx now \<and> getRow i rows = Some r))"
proof -
  have s: "table_ok rows' \<and> spec_step e (queue_of rows) a (queue_of rows')" by (rule queue_step_refines [OF assms])
  moreover have "queue_of rows' = queue_of rows" if "a = Broken"
    using s that by (auto elim: spec_step.cases)
  moreover have "\<exists>i ty m ctx now r. e = Enqueue i ty m ctx now \<and> getRow i rows = Some r" if "f = (\<lambda>_. None, \<lambda>_. None)" "a = Broken"
  proof (cases e)
    case (Enqueue i ty m ctx now)
    with enqueue_refines [OF assms(1) assms(2) [unfolded Enqueue]] that show ?thesis by auto
  next
    case (Poll w ms now)
    with poll_refines [OF assms(1) assms(2) [unfolded Poll]] that show ?thesis by simp
  next
    case (Resolve i w st art m ms now)
    with resolve_refines [OF assms(1) assms(2) [unfolded Resolve]] that show ?thesis by simp
  qed
  ultimately show ?thesis by blast
qed

definition no_faults :: "(nat \<Rightarrow> string option) \<times> (nat \<Rightarrow> string option)" where
  "no_faults = (\<lambda>_. None, \<lambda>_. None)"

definition example_row :: "string \<Rightarrow> int \<Rightarrow> task_state \<Rightarrow> (string \<times> int) option \<Rightarrow> task_row" where
  "example_row i created st lease = \<lparr>tr_id = i, tr_contextId = ''c'', tr_type = ''mail'', tr_state = st, tr_history = [], tr_artifacts = [],
     tr_assignee = map_option fst lease, tr_leaseUntil = map_option snd lease, tr_deliveryCount = 0, tr_createdAt = created, tr_updatedAt = created\<rparr>"

theorem table_refines_queue_witness:
  "\<exists>rows'. queue_step no_faults (Poll ''w'' 30 5) [example_row ''a'' 2 Submitted None, example_row ''b'' 1 Working (Some (''v'', 4))] = (Got ''b'', rows') \<and>
     table_ok rows' \<and> queue_of rows' ''b'' = Some (1, Held ''w'' 35)"
proof -
  let ?rows = "[example_row ''a'' 2 Submitted None, example_row ''b'' 1 Working (Some (''v'', 4))]"
  obtain rows' where s: "queue_step no_faults (Poll ''w'' 30 5) ?rows = (Got ''b'', rows')"
      "rows' = update_row ''b'' (leased ''w'' 30 5) ?rows"
    by (simp add: no_faults_def queue_step_poll oldest_claimable_def claimable_def example_row_def)
  have "table_ok ?rows" by (simp add: table_ok_def row_ok_def example_row_def TERMINAL_STATES_def)
  from table_refines_queue [OF this s(1)] have "table_ok rows'" by blast
  with s show ?thesis by (simp add: queue_of_def getRow_def update_row_def example_row_def phase_of_def leased_def)
qed

section \<open>Overlapping requests\<close>

text \<open>
  Requests of several workers at once: polls and new tasks are one statement each, while a resolve begins with its read and, when that
  finds its lease, stays in flight until its update runs, at any later time and in any order. No answer (\<open>None\<close>) is given in between.
\<close>

record flight =
  fl_row :: task_row
  fl_task :: string
  fl_worker :: string
  fl_state :: task_state
  fl_artifact :: "artifact option"
  fl_message :: "message option"
  fl_leaseMs :: "int option"
  fl_now :: int

datatype move = Begin queue_event | Finish nat

fun begin_time :: "move \<Rightarrow> int option" where
  "begin_time (Begin e) = Some (event_time e)"
| "begin_time (Finish n) = None"

fun begins :: "string \<Rightarrow> string \<Rightarrow> move \<Rightarrow> bool" where
  "begins i w (Begin e) = resolves i w e"
| "begins i w (Finish n) = False"

fun overlap_step :: "(nat \<Rightarrow> string option) \<times> move \<Rightarrow> task_table \<times> flight list \<Rightarrow> queue_answer option \<times> task_table \<times> flight list" where
  "overlap_step (f, Begin (Resolve i w st art m ms now)) (rows, fs) = (case resolve_read f i w now rows of
      (Inl (DbError _), rows') \<Rightarrow> (Some Broken, rows', fs)
    | (Inl (SpTaskError _), rows') \<Rightarrow> (Some Refused, rows', fs)
    | (Inr existing, rows') \<Rightarrow> (None, rows', fs @ [\<lparr>fl_row = existing, fl_task = i, fl_worker = w, fl_state = st, fl_artifact = art,
        fl_message = m, fl_leaseMs = ms, fl_now = now\<rparr>]))"
| "overlap_step (f, Begin e) (rows, fs) = (case queue_step (f, f) e rows of (a, rows') \<Rightarrow> (Some a, rows', fs))"
| "overlap_step (f, Finish n) (rows, fs) = (if n < length fs then let x = fs ! n; rest = take n fs @ drop (Suc n) fs in
      (case resolve_update f (fl_row x) (fl_task x) (fl_worker x) (fl_state x) (fl_artifact x) (fl_message x) (fl_leaseMs x) (fl_now x) rows of
        (Inl _, rows') \<Rightarrow> (Some Broken, rows', rest) | (Inr _, rows') \<Rightarrow> (Some Resolved, rows', rest))
      else (None, rows, fs))"

lemma resolve_read_cases:
  assumes "resolve_read f i w now rows = (x, rows')"
  shows "rows' = rows \<and> (\<forall>r. x = Inr r \<longrightarrow> getRow i rows = Some r \<and> valid_lease w now r)"
proof -
  obtain r t where rd: "statement f (\<lambda>rows. (Inr (getRow i rows), rows)) rows = (r, t)" by fastforce
  show ?thesis
  proof (rule statement_cases [OF rd])
    fix y assume y: "(Inr (getRow i rows), rows) = (Inr y, t)" "r = Inr y"
    then have rd: "statement f (\<lambda>rows. (Inr (getRow i rows), rows)) rows = (Inr (getRow i rows), rows)" using rd by auto
    show ?thesis
    proof (cases "getRow i rows")
      case (Some e)
      with rd assms show ?thesis by (cases "valid_lease w now e") (simp_all add: resolve_read_def, auto)
    qed (use rd assms in \<open>auto simp: resolve_read_def\<close>)
  qed (use rd assms in \<open>auto simp: resolve_read_def\<close>)
qed

lemma resolve_update_cases:
  assumes "resolve_update f e i w st art m ms now rows = (x, rows')"
  shows "rows' = rows \<or> rows' = update_row i (resolved_row w st art m ms now e) rows"
proof -
  let ?op = "\<lambda>rows. (Inr (), update_row i (resolved_row w st art m ms now e) rows) :: (string + unit) \<times> task_table"
  obtain r t where up: "statement f ?op rows = (r, t)" by fastforce
  show ?thesis
    by (rule statement_cases [OF up]) (use up assms in \<open>auto simp: resolve_update_def\<close>)
qed

lemma poll_outcome:
  assumes "queue_step f (Poll w ms now) rows = (a, rows')"
  shows "rows' = rows \<and> a \<in> {Nothing, Broken} \<or> (\<exists>y. oldest_claimable now rows = Some y \<and> a = Got (tr_id y) \<and>
    rows' = update_row (tr_id y) (leased w ms now) rows)"
proof -
  let ?op = "\<lambda>rows. (case oldest_claimable now rows of None \<Rightarrow> (Inr None, rows)
     | Some r \<Rightarrow> (Inr (Some (rowToTask (leased w ms now r))), update_row (tr_id r) (leased w ms now) rows)) :: (string + sp_task option) \<times> task_table"
  obtain r t where st: "statement (fst f) ?op rows = (r, t)" by fastforce
  show ?thesis
  proof (rule statement_cases [OF st])
    show "\<And>m t. ?op rows = (Inl m, t) \<Longrightarrow> t = rows" by (simp split: option.splits)
  next
    fix x assume "?op rows = (Inr x, t)" "r = Inr x"
    with st assms show ?thesis
      by (cases "oldest_claimable now rows") (auto simp: queue_step_def leaseNextTask_def rowToTask_def)
  qed (use st assms in \<open>auto simp: queue_step_def leaseNextTask_def\<close>)
qed

lemma enqueue_outcome:
  assumes "queue_step f (Enqueue j ty m ctx now) rows = (a, rows')"
  shows "a \<in> {Queued, Broken} \<and> (rows' = rows \<or> (\<exists>x. tr_id x = j \<and> rows' = rows @ [x]))"
proof -
  let ?row = "\<lparr>tr_id = j, tr_contextId = ctx, tr_type = ty, tr_state = Submitted, tr_history = [m\<lparr>mg_taskId := Some j, mg_contextId := Some ctx\<rparr>],
     tr_artifacts = [], tr_assignee = None, tr_leaseUntil = None, tr_deliveryCount = 0, tr_createdAt = now, tr_updatedAt = now\<rparr>"
  let ?op = "\<lambda>rows. if getRow j rows \<noteq> None then (Inl ''UNIQUE constraint failed: agent_tasks.id'', rows) else (Inr (), rows @ [?row])"
  obtain r t where st: "statement (fst f) ?op rows = (r, t)" by fastforce
  show ?thesis
  proof (rule statement_cases [OF st])
    show "\<And>m t. ?op rows = (Inl m, t) \<Longrightarrow> t = rows" by (simp split: if_splits)
  next
    fix x assume "?op rows = (Inr x, t)" "r = Inr x"
    then have "t = rows @ [?row]" by (auto split: if_splits)
    with st \<open>r = Inr x\<close> assms show ?thesis by (auto simp: queue_step_def enqueueTask_def Let_def)
  qed (use st assms in \<open>auto simp: queue_step_def enqueueTask_def Let_def\<close>)
qed

text \<open>What keeps a row as it is while a lease on it runs or after it is finished.\<close>

definition untouchable :: "string \<Rightarrow> task_row \<Rightarrow> move \<Rightarrow> bool" where
  "untouchable i r mv = (tr_state r \<in> set TERMINAL_STATES \<or> (\<exists>w t. tr_state r = Working \<and> tr_assignee r = Some w \<and> tr_leaseUntil r = Some t \<and>
     (\<forall>now. begin_time mv = Some now \<longrightarrow> now \<le> t) \<and> \<not> begins i w mv))"

lemma untouchable_not_claimable: "untouchable i r mv \<Longrightarrow> begin_time mv = Some now \<Longrightarrow> \<not> claimable now r"
  by (auto simp: untouchable_def claimable_def TERMINAL_STATES_def)

lemma untouchable_no_lease: "untouchable i r (Begin (Resolve i v st art m ms now)) \<Longrightarrow> row_ok r \<Longrightarrow> \<not> valid_lease v now r"
  by (auto simp: untouchable_def valid_lease_def row_ok_def)

lemma overlap_keeps:
  assumes "table_ok rows" "getRow i rows = Some r" "\<forall>x\<in>set fs. fl_task x \<noteq> i" "untouchable i r mv"
    and "overlap_step (f, mv) (rows, fs) = (a, rows', fs')"
  shows "table_ok rows' \<and> getRow i rows' = Some r \<and> (\<forall>x\<in>set fs'. fl_task x \<noteq> i) \<and> a \<noteq> Some (Got i)"
proof (cases mv)
  case (Finish n)
  show ?thesis
  proof (cases "n < length fs")
    case True
    let ?x = "fs ! n"
    obtain y rows1 where u: "resolve_update f (fl_row ?x) (fl_task ?x) (fl_worker ?x) (fl_state ?x) (fl_artifact ?x) (fl_message ?x) (fl_leaseMs ?x) (fl_now ?x) rows
        = (y, rows1)" by fastforce
    have r: "rows' = rows1" "fs' = take n fs @ drop (Suc n) fs" "a \<noteq> Some (Got i)"
      using assms(5) u True by (auto simp: Finish Let_def split: sum.splits)
    have other: "fl_task ?x \<noteq> i" using assms(3) True by simp
    have "table_ok rows1 \<and> getRow i rows1 = Some r"
      using resolve_update_cases [OF u] assms(1,2) other table_ok_update [OF assms(1)] row_ok_resolved by (auto simp: getRow_update)
    moreover have "set fs' \<subseteq> set fs" unfolding r(2) using set_take_subset [of n fs] set_drop_subset [of "Suc n" fs] by simp
    ultimately show ?thesis using r(1,3) assms(3) by blast
  qed (use assms Finish in simp)
next
  case (Begin e)
  show ?thesis
  proof (cases e)
    case (Enqueue j ty m ctx now)
    obtain b rows1 where q: "queue_step (f, f) e rows = (b, rows1)" by fastforce
    have r: "a = Some b" "rows' = rows1" "fs' = fs" using assms(5) q by (simp_all add: Begin Enqueue)
    have "table_ok rows1" using queue_step_refines [OF assms(1) q] by simp
    moreover have "getRow i rows1 = Some r" using enqueue_outcome [OF q [unfolded Enqueue]] assms(2) by (auto simp: getRow_append)
    moreover have "b \<noteq> Got i" using enqueue_outcome [OF q [unfolded Enqueue]] by auto
    ultimately show ?thesis using r assms(3) by simp
  next
    case (Poll w ms now)
    obtain b rows1 where q: "queue_step (f, f) e rows = (b, rows1)" by fastforce
    have r: "a = Some b" "rows' = rows1" "fs' = fs" using assms(5) q by (simp_all add: Begin Poll)
    have free: "\<not> claimable now r" using untouchable_not_claimable [OF assms(4)] by (simp add: Begin Poll)
    have other: "tr_id y \<noteq> i" if "oldest_claimable now rows = Some y" for y
      using oldest_Some(1,2) [OF that] free getRow_mem [of rows y] assms(1,2) by (auto simp: table_ok_def)
    have "table_ok rows1" using queue_step_refines [OF assms(1) q] by simp
    moreover have "getRow i rows1 = Some r" "b \<noteq> Got i"
      using poll_outcome [OF q [unfolded Poll]] assms(2) other by (auto simp: getRow_update)
    ultimately show ?thesis using r assms(3) by simp
  next
    case (Resolve j v st art m ms now)
    obtain x rows1 where q: "resolve_read f j v now rows = (x, rows1)" by fastforce
    note c = resolve_read_cases [OF q]
    show ?thesis
    proof (cases x)
      case (Inl e')
      with c assms q show ?thesis by (cases e') (auto simp: Begin Resolve)
    next
      case (Inr existing)
      have "j \<noteq> i"
      proof
        assume "j = i"
        with assms(4) have "\<not> valid_lease v now r" using untouchable_no_lease row_ok_get [OF assms(1,2)] by (auto simp: Begin Resolve)
        with c Inr assms(2) \<open>j = i\<close> show False by auto
      qed
      with c assms q Inr show ?thesis by (auto simp: Begin Resolve)
    qed
  qed
qed

lemma overlap_run:
  "table_ok rows \<Longrightarrow> getRow i rows = Some r \<Longrightarrow> \<forall>x\<in>set fs. fl_task x \<noteq> i \<Longrightarrow> list_all (\<lambda>(f, mv). untouchable i r mv) es \<Longrightarrow>
    run_events overlap_step es (rows, fs) = (as, rows', fs') \<Longrightarrow> table_ok rows' \<and> getRow i rows' = Some r \<and> Some (Got i) \<notin> set as"
proof (induction es arbitrary: rows fs as)
  case (Cons e es)
  obtain f mv where e: "e = (f, mv)" by fastforce
  obtain a rows1 fs1 bs where s: "overlap_step (f, mv) (rows, fs) = (a, rows1, fs1)" "run_events overlap_step es (rows1, fs1) = (bs, rows', fs')" "as = a # bs"
    using Cons.prems(5) by (auto simp: e split: prod.splits)
  have "untouchable i r mv" using Cons.prems(4) by (simp add: e)
  note k = overlap_keeps [OF Cons.prems(1-3) this s(1)]
  have "table_ok rows' \<and> getRow i rows' = Some r \<and> Some (Got i) \<notin> set bs"
    by (rule Cons.IH [OF _ _ _ _ s(2)]) (use k Cons.prems(4) in simp_all)
  with k s(3) show ?case by auto
qed simp

text \<open>
  C11. While a worker's lease runs, the task is its alone, however the requests of the workers overlap: of requests begun up to the end
  of the lease, the resolves in two halves with anything in between, none of another worker gets the task and its row stays
  exactly as it was leased. A finished task stays as it is and never comes back. What this needs is that no resolve of the
  task that had passed its check earlier is still in flight: one that is overwrites the row, as \<open>resolve_overtaken\<close> shows.
\<close>

theorem lease_exclusive:
  assumes "table_ok rows" "getRow i rows = Some r" "\<forall>x\<in>set fs. fl_task x \<noteq> i"
    and "run_events overlap_step es (rows, fs) = (as, rows', fs')"
    and "tr_state r = Working \<and> tr_assignee r = Some w \<and> tr_leaseUntil r = Some t \<and>
        list_all (\<lambda>(f, mv). (\<forall>now. begin_time mv = Some now \<longrightarrow> now \<le> t) \<and> \<not> begins i w mv) es \<or> tr_state r \<in> set TERMINAL_STATES"
  shows "Some (Got i) \<notin> set as \<and> getRow i rows' = Some r"
proof -
  have "list_all (\<lambda>(f, mv). untouchable i r mv) es"
    using assms(5) by (auto simp: list_all_iff untouchable_def)
  from overlap_run [OF assms(1-3) this assms(4)] show ?thesis by blast
qed

theorem lease_exclusive_witness:
  "\<exists>as rows' fs'. run_events overlap_step
     [(\<lambda>_. None, Begin (Poll ''v'' 30 10)), (\<lambda>_. None, Begin (Resolve ''a'' ''v'' Completed None None None 10)), (\<lambda>_. None, Finish 0)]
     ([example_row ''a'' 2 Working (Some (''w'', 10)), example_row ''b'' 1 Working (Some (''v'', 9))],
      [\<lparr>fl_row = example_row ''b'' 1 Working (Some (''v'', 9)), fl_task = ''b'', fl_worker = ''v'', fl_state = Completed, fl_artifact = None,
        fl_message = None, fl_leaseMs = None, fl_now = 9\<rparr>]) = (as, rows', fs') \<and>
     Some (Got ''a'') \<notin> set as \<and> getRow ''a'' rows' = Some (example_row ''a'' 2 Working (Some (''w'', 10)))"
proof -
  let ?rows = "[example_row ''a'' 2 Working (Some (''w'', 10)), example_row ''b'' 1 Working (Some (''v'', 9))]"
  let ?fs = "[\<lparr>fl_row = example_row ''b'' 1 Working (Some (''v'', 9)), fl_task = ''b'', fl_worker = ''v'', fl_state = Completed, fl_artifact = None,
        fl_message = None, fl_leaseMs = None, fl_now = 9\<rparr>]"
  let ?es = "[(\<lambda>_. None, Begin (Poll ''v'' 30 10)), (\<lambda>_. None, Begin (Resolve ''a'' ''v'' Completed None None None 10)), (\<lambda>_. None, Finish 0)]
    :: ((nat \<Rightarrow> string option) \<times> move) list"
  obtain ans rows' fs' where run: "run_events overlap_step ?es (?rows, ?fs) = (ans, rows', fs')" by (metis prod.collapse)
  have "table_ok ?rows" "getRow ''a'' ?rows = Some (example_row ''a'' 2 Working (Some (''w'', 10)))" "\<forall>x\<in>set ?fs. fl_task x \<noteq> ''a''"
    by (simp_all add: table_ok_def row_ok_def example_row_def TERMINAL_STATES_def getRow_def)
  from lease_exclusive [OF this run, of "''w''" 10] have "Some (Got ''a'') \<notin> set ans" "getRow ''a'' rows' = Some (example_row ''a'' 2 Working (Some (''w'', 10)))"
    by (simp_all add: example_row_def)
  with run show ?thesis by blast
qed

text \<open>
  C14. Polls deliver everything that is due, oldest first, each task once: while no lease ends, \<open>n\<close> polls return the
  first \<open>n\<close> due tasks in the order of their creation, and nothing once none is left.
\<close>

theorem polls_deliver_in_order:
  assumes "distinct (map tr_id rows)" "steady lo hi rows"
    and "list_all (\<lambda>(w, ms, now). lo \<le> now \<and> now \<le> hi \<and> hi \<le> now + ms) polls"
    and "run_events (\<lambda>(w, ms, now). queue_step (\<lambda>_. None, \<lambda>_. None) (Poll w ms now)) polls rows = (as, rows')"
  shows "as = map Got (take (length polls) (claim_order lo rows)) @ replicate (length polls - length (claim_order lo rows)) Nothing"
  using polls_take_all [OF assms] by blast

theorem polls_deliver_in_order_witness:
  "fst (run_events (\<lambda>(w, ms, now). queue_step (\<lambda>_. None, \<lambda>_. None) (Poll w ms now)) [(''w'', 30, 5), (''v'', 30, 6), (''w'', 30, 7)]
     [example_row ''a'' 2 Submitted None, example_row ''b'' 1 Working (Some (''x'', 4))]) = [Got ''b'', Got ''a'', Nothing]"
proof -
  let ?rows = "[example_row ''a'' 2 Submitted None, example_row ''b'' 1 Working (Some (''x'', 4))]"
  let ?polls = "[(''w'', 30, 5), (''v'', 30, 6), (''w'', 30, 7)] :: (string \<times> int \<times> int) list"
  obtain ans rows' where run: "run_events (\<lambda>(w, ms, now). queue_step (\<lambda>_. None, \<lambda>_. None) (Poll w ms now)) ?polls ?rows = (ans, rows')"
    by fastforce
  have "distinct (map tr_id ?rows)" "steady 5 7 ?rows" "list_all (\<lambda>(w, ms, now). 5 \<le> now \<and> now \<le> 7 \<and> 7 \<le> now + ms) ?polls"
    by (simp_all add: steady_def example_row_def)
  moreover have "claim_order 5 ?rows = [''b'', ''a'']" by (simp add: claim_order_def claimable_def example_row_def)
  ultimately have "ans = [Got ''b'', Got ''a'', Nothing]" using polls_deliver_in_order [OF _ _ _ run, of 5 7] by simp
  with run show ?thesis by simp
qed

text \<open>
  A task whose worker reported that it waits for input and then let its lease run out is stuck: it is still
  unfinished, but no poll returns it and no worker can resolve it, whatever happens from then on.
\<close>

theorem waiting_task_stuck:
  assumes "table_ok rows" "getRow i rows = Some r" "tr_state r \<in> {InputRequired, AuthRequired}"
    and "run_events (\<lambda>(f, e). queue_step f e) es rows = (as, rows')"
    and "list_all (\<lambda>(f, e). the (tr_leaseUntil r) < event_time e) es"
  shows "Got i \<notin> set as \<and> (\<exists>r'. getRow i rows' = Some r' \<and> phase_of r' = phase_of r \<and> tr_state r' \<notin> set TERMINAL_STATES)"
proof -
  have q: "queue_of rows i = Some (tr_createdAt r, phase_of r)" by (simp add: queue_of_def assms(2))
  have ok: "row_ok r" by (rule row_ok_get [OF assms(1,2)])
  then obtain w t where l: "tr_assignee r = Some w" "tr_leaseUntil r = Some t" using assms(3) by (auto simp: row_ok_def)
  then have p: "phase_of r = Parked w t" using assms(3) by (auto simp: phase_of_def)
  have "list_all (\<lambda>e. settled i (phase_of r) (snd e)) es"
    using assms(5) l p by (auto simp: list_all_iff)
  note run = tasks.run_settled [OF assms(1) q this assms(4)]
  then obtain r' where r': "getRow i rows' = Some r'" "phase_of r' = Parked w t" by (auto simp: queue_of_def p)
  then have "tr_state r' \<notin> set TERMINAL_STATES" by (auto simp: phase_of_def TERMINAL_STATES_def)
  with r' p run show ?thesis by simp
qed

theorem waiting_task_stuck_witness:
  "Got ''a'' \<notin> set (fst (run_events (\<lambda>(f, e). queue_step f e)
     [(no_faults, Poll ''w'' 30 11), (no_faults, Resolve ''a'' ''w'' Completed None None None 12)] [example_row ''a'' 2 InputRequired (Some (''w'', 10))]))"
proof -
  let ?rows = "[example_row ''a'' 2 InputRequired (Some (''w'', 10))]"
  let ?es = "[(no_faults, Poll ''w'' 30 11), (no_faults, Resolve ''a'' ''w'' Completed None None None 12)]"
  obtain ans rows' where run: "run_events (\<lambda>(f, e). queue_step f e) ?es ?rows = (ans, rows')" by fastforce
  have "table_ok ?rows" "getRow ''a'' ?rows = Some (example_row ''a'' 2 InputRequired (Some (''w'', 10)))"
      "tr_state (example_row ''a'' 2 InputRequired (Some (''w'', 10))) \<in> {InputRequired, AuthRequired}"
    by (simp_all add: table_ok_def row_ok_def example_row_def TERMINAL_STATES_def getRow_def)
  from waiting_task_stuck [OF this run] have "Got ''a'' \<notin> set ans" by (simp add: example_row_def)
  with run show ?thesis by simp
qed

text \<open>
  A retried operation ends: it makes at most the given number of attempts, every attempt before the last one
  failed because the database was busy, the result is that of the last attempt, and it waited the sum of the
  doubling delays.
\<close>

theorem busy_retry_ends:
  assumes "0 < n" "withBusyRetry_from 0 n b fn s = (r, s', w)"
  shows "\<exists>k<n. fn k (before fn s k) = (r, s') \<and> (\<forall>j<k. \<exists>m. fst (fn j (before fn s j)) = Inl m \<and> busy_message m) \<and>
    (k + 1 = n \<or> (\<forall>m. r = Inl m \<longrightarrow> \<not> busy_message m)) \<and> w = b * (2 ^ k - 1)"
  using retry_from [OF assms(1), of b fn s r s' w] assms(2) by fastforce

theorem busy_retry_ends_witness:
  "\<exists>k::nat. k < 5 \<and> (\<lambda>i s. if i < 2 then (Inl ''SQLITE_BUSY: database is locked'', s) else (Inr (), s + 1)) k (7::nat) = (Inr (), 8) \<and>
     fst (snd (withBusyRetry_from 0 5 25 (\<lambda>i s. if i < 2 then (Inl ''SQLITE_BUSY: database is locked'', s) else (Inr (), s + 1)) (7::nat))) = 8"
proof -
  let ?fn = "\<lambda>i s. if i < 2 then (Inl ''SQLITE_BUSY: database is locked'', s) else (Inr (), s + (1::nat))"
  have b: "busy_message ''SQLITE_BUSY: database is locked''"
    by (simp add: busy_message_def to_lower_def lower_char_def)
  have f: "withBusyRetry_from 0 5 25 ?fn 7 = (Inr (), 8, 75)"
    by (simp add: withBusyRetry_from.simps [of 0] withBusyRetry_from.simps [of "Suc 0"] withBusyRetry_from.simps [of "Suc (Suc 0)"] b)
  from busy_retry_ends [OF _ f] obtain k where "k < 5" "?fn k (before ?fn 7 k) = (Inr (), 8)" "75 = 25 * (2 ^ k - (1::nat))" by auto
  then have "?fn k (7::nat) = (Inr (), 8)" by (simp split: if_splits)
  with \<open>k < 5\<close> f show ?thesis by auto
qed

text \<open>
  The update of \<open>resolveTask\<close> does not repeat the lease condition: a worker overtaken between its read and its
  update finishes a task that another worker holds by then.
\<close>

lemma resolve_overtaken:
  assumes "getRow i rows = Some r" "valid_lease w now r" "st \<in> set TERMINAL_STATES"
  shows "\<exists>t rows'. resolveTask (\<lambda>_. None) (\<lambda>_. None) (update_row i (leased v ms later)) i w st art m lease now rows = (Inr t, rows') \<and>
    map_option tr_state (getRow i rows') = Some st \<and> map_option tr_assignee (getRow i rows') = Some None"
  using assms by (simp add: resolveTask_def statement_ok getRow_update resolved_row_def Let_def)

end
