(* ===== verification/ShellSegments.thy ===== *)
theory ShellSegments
  imports Prelude
begin

text \<open>
  The scan of a shell line in \<open>packages/core/src/validation/shell-segments.ts\<close>: its split at the control operators
  and the search for nested commands. Both loops carry a quote and an escape flag over the characters; the
  recursion carries the same, with the segment read so far.
\<close>

section \<open>Definitions\<close>

datatype quote_state = NoQuote | InSingle | InDouble

definition BACKSLASH :: char where "BACKSLASH = CHR 0x5C"
definition SQUOTE :: char where "SQUOTE = CHR 0x27"
definition DQUOTE :: char where "DQUOTE = CHR 0x22"
definition BACKTICK :: char where "BACKTICK = CHR 0x60"

definition is_operator :: "char \<Rightarrow> bool" where
  "is_operator c = (c = CHR ''&'' \<or> c = CHR ''|'' \<or> c = CHR '';'' \<or> c = CHR 0x0A \<or> c = CHR 0x0D)"

fun closes :: "quote_state \<Rightarrow> char \<Rightarrow> bool" where
  "closes InSingle c = (c = SQUOTE)"
| "closes InDouble c = (c = DQUOTE)"
| "closes NoQuote c = False"

fun split_raw :: "string \<Rightarrow> quote_state \<Rightarrow> bool \<Rightarrow> string \<Rightarrow> string list" where
  "split_raw cur q escaped [] = [cur]"
| "split_raw cur q escaped (c # cs) =
     (if escaped then split_raw (cur @ [c]) q False cs
      else if c = BACKSLASH \<and> q \<noteq> InSingle then split_raw (cur @ [c]) q True cs
      else if q \<noteq> NoQuote then split_raw (cur @ [c]) (if closes q c then NoQuote else q) False cs
      else if c = SQUOTE then split_raw (cur @ [c]) InSingle False cs
      else if c = DQUOTE then split_raw (cur @ [c]) InDouble False cs
      else if is_operator c then cur # split_raw [] NoQuote False cs
      else split_raw (cur @ [c]) NoQuote False cs)"

definition splitCommandSegments :: "string \<Rightarrow> string list" where
  "splitCommandSegments target = filter (\<lambda>s. s \<noteq> []) (map js_trim (split_raw [] NoQuote False target))"

fun opens_paren :: "string \<Rightarrow> bool" where
  "opens_paren [] = False"
| "opens_paren (c # cs) = (c = CHR ''('')"

fun substitution_from :: "quote_state \<Rightarrow> bool \<Rightarrow> string \<Rightarrow> bool" where
  "substitution_from q escaped [] = False"
| "substitution_from q escaped (c # cs) =
     (if escaped then substitution_from q False cs
      else if c = BACKSLASH \<and> q \<noteq> InSingle then substitution_from q True cs
      else if q = InSingle then substitution_from (if c = SQUOTE then NoQuote else q) False cs
      else if c = BACKTICK then True
      else if c = CHR ''$'' \<and> opens_paren cs then True
      else if q = InDouble then substitution_from (if c = DQUOTE then NoQuote else q) False cs
      else if (c = CHR ''<'' \<or> c = CHR ''>'') \<and> opens_paren cs then True
      else substitution_from (if c = SQUOTE then InSingle else if c = DQUOTE then InDouble else q) False cs)"

definition containsCommandSubstitution :: "string \<Rightarrow> bool" where
  "containsCommandSubstitution s = substitution_from NoQuote False s"

section \<open>One step of the scan\<close>

lemmas shell_chars = BACKSLASH_def SQUOTE_def DQUOTE_def BACKTICK_def is_operator_def

definition next_quote :: "quote_state \<Rightarrow> bool \<Rightarrow> char \<Rightarrow> quote_state \<times> bool" where
  "next_quote q e c = (if e then (q, False) else if c = BACKSLASH \<and> q \<noteq> InSingle then (q, True)
     else if q \<noteq> NoQuote then (if closes q c then NoQuote else q, False)
     else (if c = SQUOTE then InSingle else if c = DQUOTE then InDouble else NoQuote, False))"

definition splits_at :: "quote_state \<Rightarrow> bool \<Rightarrow> char \<Rightarrow> bool" where
  "splits_at q e c = (\<not> e \<and> q = NoQuote \<and> is_operator c)"

definition nested_at :: "quote_state \<Rightarrow> bool \<Rightarrow> char \<Rightarrow> string \<Rightarrow> bool" where
  "nested_at q e c cs = (\<not> e \<and> q \<noteq> InSingle \<and> (c = BACKTICK \<or> (c = CHR ''$'' \<and> opens_paren cs) \<or>
     (q = NoQuote \<and> (c = CHR ''<'' \<or> c = CHR ''>'') \<and> opens_paren cs)))"

lemma split_raw_step: "split_raw cur q e (c # cs) = (if splits_at q e c then cur # split_raw [] NoQuote False cs
    else split_raw (cur @ [c]) (fst (next_quote q e c)) (snd (next_quote q e c)) cs)"
  by (cases q) (auto simp: splits_at_def next_quote_def shell_chars)

lemma substitution_step: "substitution_from q e (c # cs) =
    (nested_at q e c cs \<or> substitution_from (fst (next_quote q e c)) (snd (next_quote q e c)) cs)"
  by (cases q) (auto simp: nested_at_def next_quote_def shell_chars)

declare split_raw.simps(2) [simp del] substitution_from.simps(2) [simp del]

lemma split_raw_not_Nil [simp]: "split_raw cur q e cs \<noteq> []"
  by (induction cs arbitrary: cur q e) (simp_all add: split_raw_step)

lemma split_raw_cur:
  "split_raw [] q e cs = s # ss \<Longrightarrow> split_raw cur q e cs = (cur @ s) # ss"
proof (induction cs arbitrary: cur q e s ss)
  case (Cons c cs)
  obtain t ts where t: "split_raw [] (fst (next_quote q e c)) (snd (next_quote q e c)) cs = t # ts"
    by (cases "split_raw [] (fst (next_quote q e c)) (snd (next_quote q e c)) cs") simp_all
  have "split_raw (cur @ [c]) (fst (next_quote q e c)) (snd (next_quote q e c)) cs = ((cur @ [c]) @ t) # ts" for cur
    by (rule Cons.IH [OF t])
  from this [of "[]"] this [of cur] Cons.prems show ?case by (auto simp: split_raw_step split: if_splits)
qed simp

lemma split_raw_Cons:
  assumes "split_raw [] q e (c # cs) = s # ss"
  obtains "splits_at q e c" "s = []" "ss = split_raw [] NoQuote False cs"
  | s' where "\<not> splits_at q e c" "s = c # s'" "split_raw [] (fst (next_quote q e c)) (snd (next_quote q e c)) cs = s' # ss"
proof (cases "splits_at q e c")
  case True
  with assms that(1) show thesis by (simp add: split_raw_step)
next
  case False
  obtain t ts where t: "split_raw [] (fst (next_quote q e c)) (snd (next_quote q e c)) cs = t # ts"
    by (cases "split_raw [] (fst (next_quote q e c)) (snd (next_quote q e c)) cs") simp_all
  from split_raw_cur [OF t, of "[c]"] False assms t that(2) show thesis by (auto simp: split_raw_step)
qed

section \<open>The split loses nothing\<close>

fun weave :: "string list \<Rightarrow> string \<Rightarrow> string" where
  "weave [] ops = []"
| "weave [s] ops = s"
| "weave (s # ss) [] = s"
| "weave (s # ss) (c # ops) = s @ c # weave ss ops"

lemma weave_Cons: "weave ((c # s) # ss) ops = c # weave (s # ss) ops"
  by (cases ss; cases ops) simp_all

lemma split_raw_weave:
  "split_raw [] q e cs = s # ss \<Longrightarrow> \<exists>ops. length ops = length ss \<and> list_all is_operator ops \<and> cs = weave (s # ss) ops"
proof (induction cs arbitrary: q e s ss)
  case (Cons c cs)
  from Cons.prems show ?case
  proof (cases rule: split_raw_Cons)
    case 1
    obtain t ts where t: "split_raw [] NoQuote False cs = t # ts" by (cases "split_raw [] NoQuote False cs") simp_all
    from Cons.IH [OF t] obtain ops where "length ops = length ts" "list_all is_operator ops" "cs = weave (t # ts) ops" by blast
    with 1 t show ?thesis by (intro exI [of _ "c # ops"]) (simp add: splits_at_def)
  next
    case (2 s')
    from Cons.IH [OF 2(3)] 2(2) show ?thesis by (auto simp: weave_Cons)
  qed
qed simp

fun no_split :: "quote_state \<Rightarrow> bool \<Rightarrow> string \<Rightarrow> bool" where
  "no_split q e [] = True"
| "no_split q e (c # cs) = (\<not> splits_at q e c \<and> no_split (fst (next_quote q e c)) (snd (next_quote q e c)) cs)"

lemma no_split_raw: "no_split q e s \<Longrightarrow> split_raw cur q e s = [cur @ s]"
  by (induction s arbitrary: cur q e) (simp_all add: split_raw_step)

lemma segments_no_split:
  "split_raw [] q e cs = s # ss \<Longrightarrow> no_split q e s \<and> list_all (no_split NoQuote False) ss"
proof (induction cs arbitrary: q e s ss)
  case (Cons c cs)
  from Cons.prems show ?case
  proof (cases rule: split_raw_Cons)
    case 1
    obtain t ts where t: "split_raw [] NoQuote False cs = t # ts" by (cases "split_raw [] NoQuote False cs") simp_all
    from Cons.IH [OF t] 1 t show ?thesis by simp
  next
    case (2 s')
    from Cons.IH [OF 2(3)] 2 show ?thesis by simp
  qed
qed simp

section \<open>Nested commands stay within a segment\<close>

lemma opens_paren_segment:
  assumes "split_raw [] q e cs = s # ss"
  shows "opens_paren s = opens_paren cs"
proof (cases cs)
  case (Cons d ds)
  from assms show ?thesis unfolding Cons
    by (cases rule: split_raw_Cons) (auto simp: splits_at_def is_operator_def)
qed (use assms in simp)

lemma substitution_in_segments:
  "split_raw [] q e cs = s # ss \<Longrightarrow> substitution_from q e cs = (substitution_from q e s \<or> list_ex containsCommandSubstitution ss)"
proof (induction cs arbitrary: q e s ss)
  case (Cons c cs)
  from Cons.prems show ?case
  proof (cases rule: split_raw_Cons)
    case 1
    obtain t ts where t: "split_raw [] NoQuote False cs = t # ts" by (cases "split_raw [] NoQuote False cs") simp_all
    have "next_quote q e c = (NoQuote, False)" "\<not> nested_at q e c cs"
      using 1(1) by (auto simp: splits_at_def next_quote_def nested_at_def shell_chars)
    with Cons.IH [OF t] 1 t show ?thesis by (simp add: substitution_step containsCommandSubstitution_def)
  next
    case (2 s')
    have "nested_at q e c s' = nested_at q e c cs" using opens_paren_segment [OF 2(3)] by (simp add: nested_at_def)
    with Cons.IH [OF 2(3)] 2 show ?thesis by (simp add: substitution_step)
  qed
qed simp

section \<open>Trimming\<close>

lemma space_plain:
  assumes "is_space c"
  shows "c \<noteq> BACKSLASH" "c \<noteq> SQUOTE" "c \<noteq> DQUOTE" "c \<noteq> BACKTICK" "c \<noteq> CHR ''$''" "c \<noteq> CHR ''<''" "c \<noteq> CHR ''>''" "c \<noteq> CHR ''(''"
  using assms by (auto simp: is_space_def shell_chars)

lemma next_quote_space: "is_space c \<Longrightarrow> next_quote NoQuote False c = (NoQuote, False)"
  using space_plain by (simp add: next_quote_def)

lemma nested_space: "is_space c \<Longrightarrow> \<not> nested_at q e c cs"
  using space_plain by (auto simp: nested_at_def)

lemma substitution_drop: "substitution_from NoQuote False (dropWhile is_space s) = substitution_from NoQuote False s"
  by (induction s) (simp_all add: substitution_step next_quote_space nested_space)

lemma no_split_drop: "no_split NoQuote False s \<Longrightarrow> no_split NoQuote False (dropWhile is_space s)"
  by (induction s) (auto simp: next_quote_space)

lemma no_split_prefix: "no_split q e (a @ b) \<Longrightarrow> no_split q e a"
  by (induction a arbitrary: q e) simp_all

lemma substitution_spaces: "list_all is_space w \<Longrightarrow> \<not> substitution_from q e w"
  by (induction w arbitrary: q e) (simp_all add: substitution_step nested_space)

lemma substitution_append_spaces:
  assumes "list_all is_space w"
  shows "substitution_from q e (a @ w) = substitution_from q e a"
proof (induction a arbitrary: q e)
  case (Cons c a)
  have "opens_paren (a @ w) = opens_paren a"
    using assms space_plain(8) by (cases a; cases w) auto
  then have "nested_at q e c (a @ w) = nested_at q e c a" by (simp add: nested_at_def)
  with Cons show ?case by (simp add: substitution_step)
qed (simp add: substitution_spaces assms)

lemma trim_parts: "\<exists>w. dropWhile is_space s = js_trim s @ w \<and> list_all is_space w"
proof -
  let ?d = "dropWhile is_space s"
  have "?d = rev (dropWhile is_space (rev ?d)) @ rev (takeWhile is_space (rev ?d))"
    by (metis rev_append rev_rev_ident takeWhile_dropWhile_id)
  moreover have "list_all is_space (rev (takeWhile is_space (rev ?d)))" by (auto simp: list_all_iff dest: set_takeWhileD)
  ultimately show ?thesis unfolding js_trim_def by blast
qed

lemma substitution_trim [simp]: "containsCommandSubstitution (js_trim s) = containsCommandSubstitution s"
proof -
  obtain w where w: "dropWhile is_space s = js_trim s @ w" "list_all is_space w" using trim_parts by blast
  then show ?thesis using substitution_drop [of s] substitution_append_spaces [OF w(2)]
    by (simp add: containsCommandSubstitution_def)
qed

lemma no_split_trim: "no_split NoQuote False s \<Longrightarrow> no_split NoQuote False (js_trim s)"
  using no_split_drop trim_parts no_split_prefix by metis

lemma trim_idem [simp]: "js_trim (js_trim s) = js_trim s"
proof -
  show ?thesis
  proof (cases "js_trim s")
    case (Cons c t)
    obtain w where w: "dropWhile is_space s = js_trim s @ w" using trim_parts by blast
    then have "\<not> is_space c" using Cons hd_dropWhile [of is_space s] by auto
    moreover have "dropWhile is_space (rev (js_trim s)) = rev (js_trim s)"
      by (simp add: js_trim_def)
    ultimately show ?thesis using Cons by (subst js_trim_def) simp
  next
    case Nil
    have "js_trim [] = []" by (simp add: js_trim_def)
    then show ?thesis by (simp only: Nil)
  qed
qed

section \<open>Whole lines\<close>

lemma line_substitution: "list_ex containsCommandSubstitution (splitCommandSegments t) = containsCommandSubstitution t"
proof -
  obtain s ss where r: "split_raw [] NoQuote False t = s # ss" by (cases "split_raw [] NoQuote False t") simp_all
  have "\<not> containsCommandSubstitution x" if "js_trim x = []" for x
    using that substitution_trim [of x] by (simp add: containsCommandSubstitution_def)
  then have "list_ex containsCommandSubstitution (splitCommandSegments t) = list_ex containsCommandSubstitution (s # ss)"
    by (auto simp: splitCommandSegments_def r list_ex_iff)
  then show ?thesis using substitution_in_segments [OF r] by (simp add: containsCommandSubstitution_def)
qed

section \<open>Properties\<close>

text \<open>
  Judging a line by its segments misses nothing: the line is its raw segments joined by the operators it was
  split at, every reported segment is a trimmed, non-empty raw segment that is one command - splitting it
  again returns it alone -, and the line holds a nested command exactly when one of the segments does.
\<close>

theorem segments_faithful:
  "(\<exists>raw ops. splitCommandSegments t = filter (\<lambda>s. s \<noteq> []) (map js_trim raw) \<and> length raw = length ops + 1 \<and>
      list_all is_operator ops \<and> t = weave raw ops) \<and>
   list_all (\<lambda>s. splitCommandSegments s = [s]) (splitCommandSegments t) \<and>
   containsCommandSubstitution t = list_ex containsCommandSubstitution (splitCommandSegments t)"
proof -
  obtain s ss where r: "split_raw [] NoQuote False t = s # ss" by (cases "split_raw [] NoQuote False t") simp_all
  obtain ops where ops: "length ops = length ss" "list_all is_operator ops" "t = weave (s # ss) ops"
    using split_raw_weave [OF r] by blast
  have parts: "splitCommandSegments t = filter (\<lambda>s. s \<noteq> []) (map js_trim (s # ss))" by (simp add: splitCommandSegments_def r)
  have "list_all (no_split NoQuote False) (s # ss)" using segments_no_split [OF r] by simp
  then have "list_all (\<lambda>x. splitCommandSegments x = [x]) (splitCommandSegments t)"
    unfolding parts by (auto simp: list_all_iff splitCommandSegments_def no_split_raw no_split_trim)
  then show ?thesis using parts ops line_substitution [of t] by (intro conjI exI [of _ "s # ss"] exI [of _ ops]) simp_all
qed

end
