(* ===== verification/Yolo.thy ===== *)
theory Yolo
  imports ShellSegments ShapeRegistry Globs
begin

text \<open>
  Approval policies of an agent in \<open>apps/openape-free-idp/server\<close>: the store of \<open>utils/yolo-policy-store.ts\<close>
  (its table as the list of its rows, the pattern columns as the lists their JSON stands for), the endpoints
  \<open>yolo-policy.put.ts\<close> and \<open>yolo-policy.delete.ts\<close> with \<open>utils/yolo-policy-auth.ts\<close>, the decision and its
  explanation of \<open>utils/yolo-evaluator.ts\<close>, and the two hooks of \<open>plugins/06.yolo-hook.ts\<close>. The warning about
  policies without rules is only logged and has no state here; the hooks' owner-facing sentences are left out.
\<close>

section \<open>Policies\<close>

datatype yolo_mode = DenyList | AllowList

record yolo_policy =
  yp_agentEmail :: string
  yp_audience :: string
  yp_mode :: yolo_mode
  yp_enabledBy :: string
  yp_denyRiskThreshold :: "risk option"
  yp_denyPatterns :: "string list"
  yp_allowPatterns :: "string list"
  yp_enabledAt :: int
  yp_expiresAt :: "int option"
  yp_updatedAt :: int

type_synonym yolo_store = "yolo_policy list"

definition AUDIENCE_WILDCARD :: string where "AUDIENCE_WILDCARD = ''*''"

definition yolo_getExact :: "string \<Rightarrow> string \<Rightarrow> yolo_store \<Rightarrow> yolo_policy option" where
  "yolo_getExact email aud s = List.find (\<lambda>p. yp_agentEmail p = email \<and> yp_audience p = aud) s"

definition yolo_get :: "string \<Rightarrow> string option \<Rightarrow> yolo_store \<Rightarrow> yolo_policy option" where
  "yolo_get email aud s = (case (if truthy_str aud \<and> aud \<noteq> Some AUDIENCE_WILDCARD then yolo_getExact email (the aud) s else None) of
     Some p \<Rightarrow> Some p | None \<Rightarrow> yolo_getExact email AUDIENCE_WILDCARD s)"

text \<open>The update on conflict leaves \<open>enabled_at\<close> as it was.\<close>

definition yolo_put :: "yolo_policy \<Rightarrow> yolo_store \<Rightarrow> yolo_store" where
  "yolo_put p s = (if yolo_getExact (yp_agentEmail p) (yp_audience p) s \<noteq> None
     then map (\<lambda>r. if yp_agentEmail r = yp_agentEmail p \<and> yp_audience r = yp_audience p then p\<lparr>yp_enabledAt := yp_enabledAt r\<rparr> else r) s
     else s @ [p])"

definition yolo_delete :: "string \<Rightarrow> string \<Rightarrow> yolo_store \<Rightarrow> yolo_store" where
  "yolo_delete email aud s = filter (\<lambda>p. \<not> (yp_agentEmail p = email \<and> yp_audience p = aud)) s"

section \<open>Who may change a policy\<close>

datatype account_type = AgentAccount | HumanAccount

record account =
  ac_type :: account_type
  ac_owner :: "string option"
  ac_approver :: "string option"

datatype http_status = NotFound404 | BadRequest400 | Forbidden403

definition MANAGEMENT :: string where "MANAGEMENT = ''_management_''"

definition requireYoloPolicyActor :: "string \<Rightarrow> (string \<Rightarrow> account option) \<Rightarrow> (string \<Rightarrow> bool) \<Rightarrow> string \<Rightarrow> http_status + string" where
  "requireYoloPolicyActor caller accounts isAdmin agentEmail = (case accounts agentEmail of
     None \<Rightarrow> Inl NotFound404
   | Some t \<Rightarrow> if ac_type t \<noteq> AgentAccount then Inl BadRequest400
       else if caller = MANAGEMENT \<or> isAdmin caller \<or> Some caller = ac_owner t \<or> Some caller = ac_approver t then Inr caller
       else Inl Forbidden403)"

text \<open>
  The body of a \<open>PUT\<close>: unchecked values, except that \<open>expiresAt\<close> is absent, \<open>null\<close> or an integer - \<open>None\<close>, \<open>Some None\<close>,
  \<open>Some (Some e)\<close>.
\<close>

record policy_body =
  pb_mode :: jsval
  pb_denyRiskThreshold :: jsval
  pb_denyPatterns :: jsval
  pb_allowPatterns :: jsval
  pb_expiresAt :: "int option option"

fun mode_value :: "jsval \<Rightarrow> yolo_mode option" where
  "mode_value (JStr s) = (if s = ''deny-list'' then Some DenyList else if s = ''allow-list'' then Some AllowList else None)"
| "mode_value _ = None"

fun risk_value :: "jsval \<Rightarrow> risk option" where
  "risk_value (JStr s) = (if s = ''low'' then Some Low else if s = ''medium'' then Some Medium else if s = ''high'' then Some High
     else if s = ''critical'' then Some Critical else None)"
| "risk_value _ = None"

definition MAX_PATTERNS :: nat where "MAX_PATTERNS = 64"
definition MAX_PATTERN_LEN :: nat where "MAX_PATTERN_LEN = 200"

fun valid_pattern :: "jsval \<Rightarrow> bool" where
  "valid_pattern (JStr s) = (s \<noteq> [] \<and> length s \<le> MAX_PATTERN_LEN)"
| "valid_pattern _ = False"

definition validatePatternList :: "jsval \<Rightarrow> bool" where
  "validatePatternList v = (v = JUndef \<or> (case as_array v of None \<Rightarrow> False | Some vs \<Rightarrow> length vs \<le> MAX_PATTERNS \<and> list_all valid_pattern vs))"

fun pattern_text :: "jsval \<Rightarrow> string" where
  "pattern_text (JStr s) = s"
| "pattern_text _ = []"

definition add_pattern :: "string list \<Rightarrow> string \<Rightarrow> string list" where
  "add_pattern out p = (let t = js_trim p in if t \<noteq> [] \<and> t \<notin> set out then out @ [t] else out)"

definition normalisePatterns :: "string list \<Rightarrow> string list" where
  "normalisePatterns input = foldl add_pattern [] input"

definition body_patterns :: "jsval \<Rightarrow> string list option \<Rightarrow> string list" where
  "body_patterns v old = (case as_array v of Some vs \<Rightarrow> normalisePatterns (map pattern_text vs) | None \<Rightarrow> nullish old [])"

definition audience_param :: "string option \<Rightarrow> string" where
  "audience_param q = (case map_option js_trim q of Some a \<Rightarrow> if a \<noteq> [] then a else AUDIENCE_WILDCARD | None \<Rightarrow> AUDIENCE_WILDCARD)"

definition updated_policy :: "int \<Rightarrow> string \<Rightarrow> string \<Rightarrow> string \<Rightarrow> policy_body \<Rightarrow> yolo_policy option \<Rightarrow> yolo_policy" where
  "updated_policy now caller email aud b old = \<lparr>yp_agentEmail = email, yp_audience = aud,
     yp_mode = nullish (mode_value (pb_mode b)) (nullish (map_option yp_mode old) DenyList),
     yp_enabledBy = (if caller = MANAGEMENT then nullish (map_option yp_enabledBy old) caller else caller),
     yp_denyRiskThreshold = (if pb_denyRiskThreshold b \<noteq> JUndef then risk_value (pb_denyRiskThreshold b)
       else (case old of Some p \<Rightarrow> yp_denyRiskThreshold p | None \<Rightarrow> None)),
     yp_denyPatterns = body_patterns (pb_denyPatterns b) (map_option yp_denyPatterns old),
     yp_allowPatterns = body_patterns (pb_allowPatterns b) (map_option yp_allowPatterns old),
     yp_enabledAt = nullish (map_option yp_enabledAt old) now,
     yp_expiresAt = (case pb_expiresAt b of Some e \<Rightarrow> e | None \<Rightarrow> (case old of Some p \<Rightarrow> yp_expiresAt p | None \<Rightarrow> None)),
     yp_updatedAt = now\<rparr>"

definition ruleless :: "yolo_policy \<Rightarrow> bool" where
  "ruleless p = (yp_mode p = DenyList \<and> yp_denyPatterns p = [] \<and> yp_denyRiskThreshold p = None)"

definition putYoloPolicy :: "int \<Rightarrow> string \<Rightarrow> (string \<Rightarrow> account option) \<Rightarrow> (string \<Rightarrow> bool) \<Rightarrow> string \<Rightarrow> string option \<Rightarrow> policy_body
    \<Rightarrow> yolo_store \<Rightarrow> (http_status + yolo_policy) \<times> yolo_store" where
  "putYoloPolicy now caller accounts isAdmin email audience b s = (if email = [] then (Inl BadRequest400, s)
     else case requireYoloPolicyActor caller accounts isAdmin email of Inl e \<Rightarrow> (Inl e, s)
     | Inr caller \<Rightarrow> if pb_mode b \<noteq> JUndef \<and> mode_value (pb_mode b) = None then (Inl BadRequest400, s)
       else if pb_denyRiskThreshold b \<notin> {JUndef, JNull} \<and> risk_value (pb_denyRiskThreshold b) = None then (Inl BadRequest400, s)
       else if \<not> validatePatternList (pb_denyPatterns b) \<or> \<not> validatePatternList (pb_allowPatterns b) then (Inl BadRequest400, s)
       else if (case pb_expiresAt b of Some (Some e) \<Rightarrow> e \<le> now | _ \<Rightarrow> False) then (Inl BadRequest400, s)
       else let aud = audience_param audience; p = updated_policy now caller email aud b (yolo_getExact email aud s) in
         if ruleless p then (Inl BadRequest400, s) else (Inr p, yolo_put p s))"

definition deleteYoloPolicy :: "string \<Rightarrow> (string \<Rightarrow> account option) \<Rightarrow> (string \<Rightarrow> bool) \<Rightarrow> string \<Rightarrow> string option
    \<Rightarrow> yolo_store \<Rightarrow> (http_status + unit) \<times> yolo_store" where
  "deleteYoloPolicy caller accounts isAdmin email audience s = (if email = [] then (Inl BadRequest400, s)
     else case requireYoloPolicyActor caller accounts isAdmin email of Inl e \<Rightarrow> (Inl e, s)
     | Inr _ \<Rightarrow> (Inr (), yolo_delete email (audience_param audience) s))"

section \<open>The decision\<close>

definition pattern_atoms :: "string \<Rightarrow> glob_atom list" where
  "pattern_atoms p = map (\<lambda>c. if c = CHR ''*'' then Run else if c = CHR ''?'' then One else Lit c) p"

text \<open>Every special character is escaped, so the expression always compiles.\<close>

definition matchesGlob :: "string \<Rightarrow> string \<Rightarrow> bool" where
  "matchesGlob input p = glob_match (pattern_atoms p) input"

datatype target_kind = CommandTarget | HostTarget

record yolo_context =
  yc_policy :: "yolo_policy option"
  yc_target :: "string option"
  yc_outerTarget :: "string option"
  yc_targetKind :: target_kind
  yc_resolvedRisk :: "risk option"

definition denyHit :: "yolo_policy \<Rightarrow> string \<Rightarrow> bool" where
  "denyHit p text = list_ex (matchesGlob text) (yp_denyPatterns p)"

definition segmentAllowed :: "yolo_policy \<Rightarrow> string \<Rightarrow> bool" where
  "segmentAllowed p seg = (let optIn = containsCommandSubstitution seg in
     list_ex (\<lambda>pattern. matchesGlob seg pattern \<and> (\<not> optIn \<or> containsCommandSubstitution pattern)) (yp_allowPatterns p))"

definition target_segments :: "target_kind \<Rightarrow> string \<Rightarrow> string list" where
  "target_segments k target = (case k of HostTarget \<Rightarrow> [target] | CommandTarget \<Rightarrow> splitCommandSegments target)"

definition policy_expired :: "int \<Rightarrow> yolo_policy \<Rightarrow> bool" where
  "policy_expired now p = (case yp_expiresAt p of None \<Rightarrow> False | Some e \<Rightarrow> e \<le> now)"

definition risk_allows :: "risk option \<Rightarrow> risk option \<Rightarrow> bool" where
  "risk_allows resolved threshold = (case (resolved, threshold) of (Some r, Some t) \<Rightarrow> r \<le> t | _ \<Rightarrow> False)"

definition risk_forbids :: "risk option \<Rightarrow> risk option \<Rightarrow> bool" where
  "risk_forbids resolved threshold = (case (resolved, threshold) of (Some r, Some t) \<Rightarrow> t < r | _ \<Rightarrow> False)"

definition evaluateYoloPolicy :: "int \<Rightarrow> yolo_context \<Rightarrow> string option" where
  "evaluateYoloPolicy now ctx = (case yc_policy ctx of None \<Rightarrow> None
   | Some p \<Rightarrow> if policy_expired now p then None
     else if \<not> truthy_str (yc_target ctx) then None
     else let target = the (yc_target ctx); segments = target_segments (yc_targetKind ctx) target in
       if segments = [] then None
       else if denyHit p target \<or> list_ex (denyHit p) segments \<or>
         (truthy_str (yc_outerTarget ctx) \<and> denyHit p (the (yc_outerTarget ctx))) then None
       else (case yp_mode p of
         AllowList \<Rightarrow> if yp_allowPatterns p \<noteq> [] \<and> list_all (segmentAllowed p) segments then Some (yp_enabledBy p)
           else if risk_allows (yc_resolvedRisk ctx) (yp_denyRiskThreshold p) then Some (yp_enabledBy p) else None
       | DenyList \<Rightarrow> if yp_denyPatterns p = [] \<and> yp_denyRiskThreshold p = None then None
           else if risk_forbids (yc_resolvedRisk ctx) (yp_denyRiskThreshold p) then None
           else if \<not> list_ex containsCommandSubstitution (yp_denyPatterns p) \<and> list_ex containsCommandSubstitution segments then None
           else Some (yp_enabledBy p)))"

section \<open>The explanation\<close>

datatype miss_reason = NoPolicy | PolicyExpired | NoTarget | DeniedByPattern | SegmentsNotAllowed | RiskAboveThreshold | WouldHaveApproved

record yolo_miss =
  ym_reason :: miss_reason
  ym_segments :: "string list option"
  ym_allowedSegments :: "string list option"
  ym_unmatchedSegments :: "string list option"
  ym_substitutionSegments :: "string list option"
  ym_deniedBy :: "string option"
  ym_deniedSegment :: "string option"
  ym_expiredAt :: "int option"
  ym_resolvedRisk :: "risk option"
  ym_riskThreshold :: "risk option"
  ym_mode :: "yolo_mode option"

definition miss :: "miss_reason \<Rightarrow> yolo_mode option \<Rightarrow> yolo_miss" where
  "miss r m = \<lparr>ym_reason = r, ym_segments = None, ym_allowedSegments = None, ym_unmatchedSegments = None, ym_substitutionSegments = None,
     ym_deniedBy = None, ym_deniedSegment = None, ym_expiredAt = None, ym_resolvedRisk = None, ym_riskThreshold = None, ym_mode = m\<rparr>"

fun first_denial :: "string list \<Rightarrow> string list \<Rightarrow> string \<Rightarrow> string option \<Rightarrow> (string \<times> string) option" where
  "first_denial [] segments target outer = None"
| "first_denial (p # ps) segments target outer = (case List.find (\<lambda>sgm. matchesGlob sgm p) segments of
     Some seg \<Rightarrow> Some (p, seg)
   | None \<Rightarrow> if matchesGlob target p then Some (p, target)
       else if truthy_str outer \<and> matchesGlob (the outer) p then Some (p, the outer)
       else first_denial ps segments target outer)"

definition explainYoloMiss :: "int \<Rightarrow> yolo_context \<Rightarrow> yolo_miss" where
  "explainYoloMiss now ctx = (case yc_policy ctx of None \<Rightarrow> miss NoPolicy None
   | Some p \<Rightarrow> if policy_expired now p then (miss PolicyExpired (Some (yp_mode p)))\<lparr>ym_expiredAt := yp_expiresAt p\<rparr>
     else if \<not> truthy_str (yc_target ctx) then miss NoTarget (Some (yp_mode p))
     else let target = the (yc_target ctx); segments = target_segments (yc_targetKind ctx) target;
         base = (\<lambda>r. (miss r (Some (yp_mode p)))\<lparr>ym_segments := Some segments, ym_resolvedRisk := yc_resolvedRisk ctx,
           ym_riskThreshold := yp_denyRiskThreshold p\<rparr>) in
       case first_denial (yp_denyPatterns p) segments target (yc_outerTarget ctx) of
         Some (pattern, seg) \<Rightarrow> (base DeniedByPattern)\<lparr>ym_deniedBy := Some pattern, ym_deniedSegment := Some seg\<rparr>
       | None \<Rightarrow> (case yp_mode p of
           AllowList \<Rightarrow> let unmatched = filter (\<lambda>s. \<not> segmentAllowed p s) segments in
             if unmatched \<noteq> [] \<and> \<not> risk_allows (yc_resolvedRisk ctx) (yp_denyRiskThreshold p)
             then (base SegmentsNotAllowed)\<lparr>ym_allowedSegments := Some (filter (segmentAllowed p) segments),
               ym_unmatchedSegments := Some unmatched, ym_substitutionSegments := Some (filter containsCommandSubstitution unmatched)\<rparr>
             else base WouldHaveApproved
         | DenyList \<Rightarrow> if risk_forbids (yc_resolvedRisk ctx) (yp_denyRiskThreshold p) then base RiskAboveThreshold
             else let substitution = filter containsCommandSubstitution segments in
               if substitution \<noteq> [] \<and> \<not> list_ex containsCommandSubstitution (yp_denyPatterns p)
               then (base SegmentsNotAllowed)\<lparr>ym_unmatchedSegments := Some substitution, ym_substitutionSegments := Some substitution\<rparr>
               else base WouldHaveApproved))"

section \<open>The hooks\<close>

definition cli_risks :: "grant_request \<Rightarrow> risk list" where
  "cli_risks r = concat (map (\<lambda>d. case d of CliDetail c \<Rightarrow> if cd_type c = ''openape_cli'' then [cd_risk c] else [] | GrantDetail _ \<Rightarrow> [])
     (nullish (rq_authorization_details r) []))"

definition idpResolvedRisk :: "grant_request \<Rightarrow> risk option" where
  "idpResolvedRisk r = (case rq_execution_context r of None \<Rightarrow> None
   | Some x \<Rightarrow> if ec_program_sha256 x = None then None
       else (case cli_risks r of [] \<Rightarrow> Some High | x # xs \<Rightarrow> Some (foldl (\<lambda>highest risk. if highest < risk then risk else highest) x xs)))"

definition commandFromRequest :: "grant_request \<Rightarrow> string list option" where
  "commandFromRequest r = (case rq_command r of
     Some (c # cs) \<Rightarrow> Some (c # cs)
   | _ \<Rightarrow> (case rq_execution_context r of None \<Rightarrow> None
      | Some x \<Rightarrow> (case ec_argv x of Some (a # as) \<Rightarrow> Some (a # as) | _ \<Rightarrow> None)))"

definition targetFromRequest :: "grant_request \<Rightarrow> string option" where
  "targetFromRequest r = (case commandFromRequest r of
     Some cmd \<Rightarrow> (case cmd of [sh, flag, line] \<Rightarrow> if (sh = ''bash'' \<or> sh = ''sh'') \<and> flag = ''-c'' then Some line else Some (join '' '' cmd)
       | _ \<Rightarrow> Some (join '' '' cmd))
   | None \<Rightarrow> if rq_target_host r \<noteq> [] then Some (rq_target_host r) else None)"

text \<open>The context both hooks assemble; \<open>lookup\<close> is the \<open>getShape\<close> of the shape store.\<close>

definition resolved_risk :: "(string \<Rightarrow> string \<Rightarrow> bool) \<Rightarrow> (string \<Rightarrow> string) \<Rightarrow> (string \<Rightarrow> server_shape option) \<Rightarrow> yolo_policy option
    \<Rightarrow> grant_request \<Rightarrow> risk option" where
  "resolved_risk coll sha lookup policy r = (case idpResolvedRisk r of Some k \<Rightarrow> Some k
   | None \<Rightarrow> (case (policy, commandFromRequest r) of
       (Some p, Some (c # cs)) \<Rightarrow> if yp_denyRiskThreshold p = None then None
         else (case resolveServerShape coll sha lookup c (c # cs) of
           Inl _ \<Rightarrow> Some High | Inr x \<Rightarrow> Some (if rc_synthetic x then High else cd_risk (rc_detail x)))
     | _ \<Rightarrow> None))"

definition hook_context :: "(string \<Rightarrow> string \<Rightarrow> bool) \<Rightarrow> (string \<Rightarrow> string) \<Rightarrow> (string \<Rightarrow> server_shape option) \<Rightarrow> yolo_store
    \<Rightarrow> grant_request \<Rightarrow> yolo_context" where
  "hook_context coll sha lookup s r = (let policy = yolo_get (rq_requester r) (Some (rq_audience r)) s;
     target = targetFromRequest r; joined = map_option (join '' '') (commandFromRequest r) in
     \<lparr>yc_policy = policy, yc_target = target, yc_outerTarget = (if joined \<noteq> None \<and> joined \<noteq> target then joined else None),
      yc_targetKind = (if commandFromRequest r \<noteq> None then CommandTarget else HostTarget),
      yc_resolvedRisk = resolved_risk coll sha lookup policy r\<rparr>)"

definition preApprovalHook :: "(string \<Rightarrow> string \<Rightarrow> bool) \<Rightarrow> (string \<Rightarrow> string) \<Rightarrow> (string \<Rightarrow> server_shape option) \<Rightarrow> yolo_store \<Rightarrow> int
    \<Rightarrow> grant_request \<Rightarrow> (string \<times> string) option" where
  "preApprovalHook coll sha lookup s now r = map_option (\<lambda>decidedBy. (decidedBy, ''yolo''))
     (evaluateYoloPolicy now (hook_context coll sha lookup s r))"

definition diagnosticHook :: "(string \<Rightarrow> string \<Rightarrow> bool) \<Rightarrow> (string \<Rightarrow> string) \<Rightarrow> (string \<Rightarrow> server_shape option) \<Rightarrow> yolo_store \<Rightarrow> int
    \<Rightarrow> grant_request \<Rightarrow> yolo_miss" where
  "diagnosticHook coll sha lookup s now r = explainYoloMiss now (hook_context coll sha lookup s r)"

section \<open>The target\<close>

lemma join_space_nonempty: "2 \<le> length xs \<Longrightarrow> join '' '' xs \<noteq> []"
  by (induction xs rule: induct_list012) auto

lemma unwrapped:
  assumes "commandFromRequest r = Some cmd" "targetFromRequest r = Some t"
  shows "t = join '' '' cmd \<or> join '' '' cmd \<noteq> []"
  using assms join_space_nonempty [of cmd] by (auto simp: targetFromRequest_def split: list.splits if_splits)

declare not_None_eq [simp del]

section \<open>What an approval means\<close>

lemma target_substitution: "list_ex containsCommandSubstitution (target_segments k t) = containsCommandSubstitution t"
  by (cases k) (simp_all add: target_segments_def line_substitution)

lemma evaluate_Some:
  assumes "evaluateYoloPolicy now ctx = Some d"
  obtains p t where "yc_policy ctx = Some p" "\<not> policy_expired now p" "yc_target ctx = Some t" "t \<noteq> []" "d = yp_enabledBy p"
    "target_segments (yc_targetKind ctx) t \<noteq> []" "\<not> denyHit p t" "list_all (\<lambda>s. \<not> denyHit p s) (target_segments (yc_targetKind ctx) t)"
    "\<not> (truthy_str (yc_outerTarget ctx) \<and> denyHit p (the (yc_outerTarget ctx)))"
    "yp_mode p = AllowList \<longrightarrow> list_all (segmentAllowed p) (target_segments (yc_targetKind ctx) t) \<or>
       risk_allows (yc_resolvedRisk ctx) (yp_denyRiskThreshold p)"
    "yp_mode p = DenyList \<longrightarrow> (yp_denyPatterns p \<noteq> [] \<or> yp_denyRiskThreshold p \<noteq> None) \<and>
       \<not> risk_forbids (yc_resolvedRisk ctx) (yp_denyRiskThreshold p) \<and>
       (list_ex containsCommandSubstitution (yp_denyPatterns p) \<or> \<not> containsCommandSubstitution t)"
proof -
  obtain p where p: "yc_policy ctx = Some p" "\<not> policy_expired now p" "truthy_str (yc_target ctx)"
    using assms by (auto simp: evaluateYoloPolicy_def split: option.splits if_splits)
  then obtain t where t: "yc_target ctx = Some t" "t \<noteq> []" by (auto simp: truthy_str_def split: option.splits)
  let ?s = "target_segments (yc_targetKind ctx) t"
  have c: "?s \<noteq> []" "\<not> denyHit p t" "\<not> list_ex (denyHit p) ?s" "\<not> (truthy_str (yc_outerTarget ctx) \<and> denyHit p (the (yc_outerTarget ctx)))"
    using assms p t by (auto simp: evaluateYoloPolicy_def Let_def split: if_splits)
  have m: "d = yp_enabledBy p"
      "yp_mode p = AllowList \<longrightarrow> list_all (segmentAllowed p) ?s \<or> risk_allows (yc_resolvedRisk ctx) (yp_denyRiskThreshold p)"
      "yp_mode p = DenyList \<longrightarrow> (yp_denyPatterns p \<noteq> [] \<or> yp_denyRiskThreshold p \<noteq> None) \<and> \<not> risk_forbids (yc_resolvedRisk ctx) (yp_denyRiskThreshold p) \<and>
        (list_ex containsCommandSubstitution (yp_denyPatterns p) \<or> \<not> list_ex containsCommandSubstitution ?s)"
    using assms p t c by (auto simp: evaluateYoloPolicy_def Let_def split: if_splits yolo_mode.splits)
  have "list_all (\<lambda>s. \<not> denyHit p s) ?s" using c(3) by (simp add: list_ex_iff list_all_iff)
  with p t c m that show thesis by (simp add: target_substitution)
qed

lemma first_denial_None: "first_denial ps segs t outer = None \<longleftrightarrow> list_all (\<lambda>p. \<not> list_ex (\<lambda>s. matchesGlob s p) segs \<and> \<not> matchesGlob t p \<and>
    \<not> (truthy_str outer \<and> matchesGlob (the outer) p)) ps"
  by (induction ps) (auto simp: find_None_iff list_ex_iff dest: find_Some_mem split: option.split)

lemma denied_iff: "first_denial (yp_denyPatterns p) segs t outer = None \<longleftrightarrow>
    \<not> (denyHit p t \<or> list_ex (denyHit p) segs \<or> (truthy_str outer \<and> denyHit p (the outer)))"
  by (auto simp: first_denial_None denyHit_def list_ex_iff list_all_iff)

text \<open>A pattern without a line break matches no text with one: no wildcard stands for a line break.\<close>

lemma pattern_line_end:
  "glob_match (pattern_atoms p) s \<Longrightarrow> list_all (\<lambda>c. \<not> line_end c) p \<Longrightarrow> list_all (\<lambda>c. \<not> line_end c) s"
proof (induction p arbitrary: s)
  case (Cons c p)
  then obtain q u where s: "s = q @ u" "glob_match (pattern_atoms p) u"
      "glob_piece (if c = CHR ''*'' then Run else if c = CHR ''?'' then One else Lit c) q"
    unfolding pattern_atoms_def list.map glob_match_Cons by blast
  have "list_all (\<lambda>c. \<not> line_end c) q" using s(3) Cons.prems(2) by (auto simp: list_all_iff split: if_splits)
  with s Cons show ?case by simp
qed (simp add: pattern_atoms_def)

lemma denyHit_one_line: "list_all (list_all (\<lambda>c. \<not> line_end c)) (yp_denyPatterns p) \<Longrightarrow> list_ex line_end t \<Longrightarrow> \<not> denyHit p t"
  using pattern_line_end by (fastforce simp: denyHit_def list_ex_iff list_all_iff matchesGlob_def)

section \<open>The stored policies\<close>

definition policies_ok :: "yolo_store \<Rightarrow> bool" where
  "policies_ok s = (distinct (map (\<lambda>p. (yp_agentEmail p, yp_audience p)) s) \<and> list_all (\<lambda>p. \<not> ruleless p) s)"

definition may_manage :: "string \<Rightarrow> (string \<Rightarrow> account option) \<Rightarrow> (string \<Rightarrow> bool) \<Rightarrow> string \<Rightarrow> bool" where
  "may_manage caller accounts isAdmin email = (case accounts email of None \<Rightarrow> False
   | Some t \<Rightarrow> ac_type t = AgentAccount \<and> (caller = MANAGEMENT \<or> isAdmin caller \<or> Some caller = ac_owner t \<or> Some caller = ac_approver t))"

lemma actor_iff: "requireYoloPolicyActor caller accounts isAdmin email = Inr c \<longleftrightarrow> c = caller \<and> may_manage caller accounts isAdmin email"
  by (auto simp: requireYoloPolicyActor_def may_manage_def split: option.split)

lemma getExact_put:
  assumes "yolo_getExact (yp_agentEmail p) (yp_audience p) s = None \<or> (\<exists>r. yolo_getExact (yp_agentEmail p) (yp_audience p) s = Some r \<and> yp_enabledAt p = yp_enabledAt r)"
  shows "yolo_getExact e a (yolo_put p s) = (if (e, a) = (yp_agentEmail p, yp_audience p) then Some p else yolo_getExact e a s)"
proof (cases "yolo_getExact (yp_agentEmail p) (yp_audience p) s")
  case None
  then have put: "yolo_put p s = s @ [p]" by (simp add: yolo_put_def)
  have "List.find P (s @ [p]) = (case List.find P s of None \<Rightarrow> if P p then Some p else None | Some x \<Rightarrow> Some x)" for P
    by (induction s) auto
  with put None show ?thesis by (auto simp: yolo_getExact_def split: option.split)
next
  case (Some r)
  with assms have r: "yp_enabledAt p = yp_enabledAt r" by simp
  let ?f = "\<lambda>r. if yp_agentEmail r = yp_agentEmail p \<and> yp_audience r = yp_audience p then p\<lparr>yp_enabledAt := yp_enabledAt r\<rparr> else r"
  have "yolo_put p s = map ?f s" by (simp add: yolo_put_def Some)
  moreover have "List.find (\<lambda>p. yp_agentEmail p = e \<and> yp_audience p = a) (map ?f s) =
      map_option ?f (List.find (\<lambda>p. yp_agentEmail p = e \<and> yp_audience p = a) s)" by (induction s) auto
  ultimately have "yolo_getExact e a (yolo_put p s) = map_option ?f (yolo_getExact e a s)" by (simp add: yolo_getExact_def)
  moreover have "yp_agentEmail x = e \<and> yp_audience x = a" if "yolo_getExact e a s = Some x" for x
    using find_Some_mem that unfolding yolo_getExact_def by fastforce
  ultimately show ?thesis using Some r by (cases "yolo_getExact e a s") auto
qed

lemma policies_ok_put:
  assumes "policies_ok s" "\<not> ruleless p"
  shows "policies_ok (yolo_put p s)"
proof (cases "yolo_getExact (yp_agentEmail p) (yp_audience p) s")
  case None
  then show ?thesis using assms by (auto simp: policies_ok_def yolo_put_def yolo_getExact_def find_None_iff)
next
  case (Some r)
  let ?f = "\<lambda>r. if yp_agentEmail r = yp_agentEmail p \<and> yp_audience r = yp_audience p then p\<lparr>yp_enabledAt := yp_enabledAt r\<rparr> else r"
  have "map (\<lambda>p. (yp_agentEmail p, yp_audience p)) (map ?f s) = map (\<lambda>p. (yp_agentEmail p, yp_audience p)) s" by simp
  moreover have "list_all (\<lambda>p. \<not> ruleless p) (map ?f s)" using assms by (auto simp: policies_ok_def list_all_iff ruleless_def)
  ultimately show ?thesis using assms(1) by (simp only: policies_ok_def yolo_put_def Some option.distinct if_True simp_thms)
qed

lemma policies_ok_delete: "policies_ok s \<Longrightarrow> policies_ok (yolo_delete e a s)"
  by (auto simp: policies_ok_def yolo_delete_def list_all_iff distinct_map_filter)

lemma updated_key: "yp_agentEmail (updated_policy now c e a b old) = e" "yp_audience (updated_policy now c e a b old) = a"
  "yp_enabledAt (updated_policy now c e a b old) = nullish (map_option yp_enabledAt old) now"
  by (simp_all add: updated_policy_def)

section \<open>Properties\<close>

text \<open>
  The evaluator lets a deny pattern veto in either mode and lets the threshold approve in allow-list mode, as its comment says; the comments of
  the store and of the table call both inert there, and the property below says nothing of these cases.
\<close>

lemma deny_hit_vetoes:
  assumes "yc_policy ctx = Some p" "yc_target ctx = Some t" "denyHit p t"
  shows "evaluateYoloPolicy now ctx = None"
  using assms by (simp add: evaluateYoloPolicy_def Let_def)

text \<open>
  C15. An automatic approval is backed by the policy of the agent for the audience, which is in force. In deny-list mode the policy has rules, no
  deny pattern matches the target, the command line as given, or one of its commands, the risk is not above the threshold, and the line holds
  no nested command unless a deny pattern governs those. In allow-list mode without a threshold every command of the line matches an allow
  pattern, one that spells the nested command out when it holds one.
\<close>

theorem yolo_approval_sound:
  assumes "preApprovalHook coll sha lookup s now r = Some (d, kind)"
  shows "\<exists>p t. yolo_get (rq_requester r) (Some (rq_audience r)) s = Some p \<and> targetFromRequest r = Some t \<and> d = yp_enabledBy p \<and>
    (\<forall>e. yp_expiresAt p = Some e \<longrightarrow> now < e) \<and>
    (yp_mode p = DenyList \<longrightarrow> \<not> ruleless p \<and> \<not> denyHit p t \<and>
        (\<forall>cmd. commandFromRequest r = Some cmd \<longrightarrow> \<not> denyHit p (join '' '' cmd) \<and> list_all (\<lambda>seg. \<not> denyHit p seg) (splitCommandSegments t)) \<and>
        \<not> risk_forbids (resolved_risk coll sha lookup (Some p) r) (yp_denyRiskThreshold p) \<and>
        (containsCommandSubstitution t \<longrightarrow> list_ex containsCommandSubstitution (yp_denyPatterns p))) \<and>
    (yp_mode p = AllowList \<and> yp_denyRiskThreshold p = None \<longrightarrow> (commandFromRequest r \<noteq> None \<and> list_all (\<lambda>seg. \<exists>pat\<in>set (yp_allowPatterns p). matchesGlob seg pat \<and>
          (containsCommandSubstitution seg \<longrightarrow> containsCommandSubstitution pat)) (splitCommandSegments t)) \<or>
        (commandFromRequest r = None \<and> (\<exists>pat\<in>set (yp_allowPatterns p). matchesGlob t pat)))"
proof -
  let ?ctx = "hook_context coll sha lookup s r"
  have "evaluateYoloPolicy now ?ctx = Some d" using assms by (auto simp: preApprovalHook_def)
  then show ?thesis
  proof (rule evaluate_Some)
    fix p t
    assume p: "yc_policy ?ctx = Some p" "\<not> policy_expired now p" "yc_target ?ctx = Some t" "t \<noteq> []" "d = yp_enabledBy p"
      and d: "\<not> denyHit p t" "list_all (\<lambda>s. \<not> denyHit p s) (target_segments (yc_targetKind ?ctx) t)"
        "\<not> (truthy_str (yc_outerTarget ?ctx) \<and> denyHit p (the (yc_outerTarget ?ctx)))"
      and m: "yp_mode p = AllowList \<longrightarrow> list_all (segmentAllowed p) (target_segments (yc_targetKind ?ctx) t) \<or>
          risk_allows (yc_resolvedRisk ?ctx) (yp_denyRiskThreshold p)"
        "yp_mode p = DenyList \<longrightarrow> (yp_denyPatterns p \<noteq> [] \<or> yp_denyRiskThreshold p \<noteq> None) \<and>
          \<not> risk_forbids (yc_resolvedRisk ?ctx) (yp_denyRiskThreshold p) \<and>
          (list_ex containsCommandSubstitution (yp_denyPatterns p) \<or> \<not> containsCommandSubstitution t)"
    have g: "yolo_get (rq_requester r) (Some (rq_audience r)) s = Some p" "targetFromRequest r = Some t"
        "yc_resolvedRisk ?ctx = resolved_risk coll sha lookup (Some p) r"
      using p(1,3) by (simp_all add: hook_context_def Let_def)
    have outer: "\<not> denyHit p (join '' '' cmd)" if cmd: "commandFromRequest r = Some cmd" for cmd
    proof (cases "join '' '' cmd = t")
      case False
      then have "truthy_str (Some (join '' '' cmd))" using unwrapped [OF cmd g(2)] by (auto simp: truthy_str_def)
      with False d(3) cmd g(2) show ?thesis by (simp add: hook_context_def Let_def)
    qed (use d(1) in simp)
    have seg: "target_segments (yc_targetKind ?ctx) t = (if commandFromRequest r = None then [t] else splitCommandSegments t)"
      by (simp add: hook_context_def Let_def target_segments_def)
    have allowed: "segmentAllowed p x \<Longrightarrow> \<exists>pat\<in>set (yp_allowPatterns p). matchesGlob x pat \<and> (containsCommandSubstitution x \<longrightarrow> containsCommandSubstitution pat)" for x
      by (auto simp: segmentAllowed_def Let_def list_ex_iff)
    have "\<not> ruleless p" if "yp_mode p = DenyList" using m(2) that by (auto simp: ruleless_def)
    moreover have "\<forall>e. yp_expiresAt p = Some e \<longrightarrow> now < e" using p(2) by (auto simp: policy_expired_def)
    moreover have "commandFromRequest r = None \<Longrightarrow> list_all (segmentAllowed p) (target_segments (yc_targetKind ?ctx) t) \<Longrightarrow> \<exists>pat\<in>set (yp_allowPatterns p). matchesGlob t pat"
      using allowed [of t] seg by auto
    moreover have "commandFromRequest r \<noteq> None \<Longrightarrow> list_all (segmentAllowed p) (target_segments (yc_targetKind ?ctx) t) \<Longrightarrow>
        list_all (\<lambda>seg. \<exists>pat\<in>set (yp_allowPatterns p). matchesGlob seg pat \<and> (containsCommandSubstitution seg \<longrightarrow> containsCommandSubstitution pat)) (splitCommandSegments t)"
      using allowed seg by (auto simp: list_all_iff)
    moreover have "kind = ''yolo''" using assms by (auto simp: preApprovalHook_def)
    moreover have "\<not> risk_allows (yc_resolvedRisk ?ctx) None" by (simp add: risk_allows_def split: option.splits)
    ultimately show ?thesis
      using g p(5) d(1,2) m seg outer
      by (cases "commandFromRequest r = None"; intro exI [of _ p] exI [of _ t]; auto)
  qed
qed

definition deny_policy :: "string list \<Rightarrow> yolo_policy" where
  "deny_policy ps = \<lparr>yp_agentEmail = ''bot@x'', yp_audience = ''*'', yp_mode = DenyList, yp_enabledBy = ''o@x'', yp_denyRiskThreshold = None,
     yp_denyPatterns = ps, yp_allowPatterns = [], yp_enabledAt = 1, yp_expiresAt = None, yp_updatedAt = 1\<rparr>"

definition shell_request :: "string \<Rightarrow> grant_request" where
  "shell_request line = (plain_request ''bot@x'' ''host'' ''ape-shell'')\<lparr>rq_command := Some [''bash'', ''-c'', line]\<rparr>"

lemma shell_context: "hook_context coll sha lookup [deny_policy ps] (shell_request (c # cs)) = \<lparr>yc_policy = Some (deny_policy ps), yc_target = Some (c # cs),
    yc_outerTarget = Some (''bash -c '' @ c # cs), yc_targetKind = CommandTarget, yc_resolvedRisk = None\<rparr>"
  if "''bash -c '' @ c # cs \<noteq> c # cs"
  using that by (simp add: hook_context_def yolo_get_def yolo_getExact_def AUDIENCE_WILDCARD_def deny_policy_def shell_request_def plain_request_def
      commandFromRequest_def targetFromRequest_def resolved_risk_def idpResolvedRisk_def)

theorem yolo_approval_sound_witness:
  "preApprovalHook (\<le>) toy_sha (\<lambda>_. None) [deny_policy [''*rm*'']] 5 (shell_request ''ls; id'') = Some (''o@x'', ''yolo'') \<and>
   list_all (\<lambda>seg. \<not> denyHit (deny_policy [''*rm*'']) seg) [''ls'', ''id'']"
proof -
  have seg: "splitCommandSegments ''ls; id'' = [''ls'', ''id'']"
    by (simp add: splitCommandSegments_def split_raw_step splits_at_def next_quote_def shell_chars js_trim_def is_space_def)
  have h: "preApprovalHook (\<le>) toy_sha (\<lambda>_. None) [deny_policy [''*rm*'']] 5 (shell_request ''ls; id'') = Some (''o@x'', ''yolo'')"
    by (simp add: preApprovalHook_def shell_context evaluateYoloPolicy_def target_segments_def seg)
      (simp add: deny_policy_def policy_expired_def denyHit_def matchesGlob_def pattern_atoms_def line_end_def risk_forbids_def
        containsCommandSubstitution_def substitution_step nested_at_def next_quote_def shell_chars)
  have g: "yolo_get (rq_requester (shell_request ''ls; id'')) (Some (rq_audience (shell_request ''ls; id''))) [deny_policy [''*rm*'']] = Some (deny_policy [''*rm*''])"
      "commandFromRequest (shell_request ''ls; id'') = Some [''bash'', ''-c'', ''ls; id'']" "targetFromRequest (shell_request ''ls; id'') = Some ''ls; id''"
    by (simp_all add: yolo_get_def yolo_getExact_def AUDIENCE_WILDCARD_def deny_policy_def shell_request_def plain_request_def
      commandFromRequest_def targetFromRequest_def)
  have mode: "yp_mode (deny_policy [''*rm*'']) = DenyList" by (simp add: deny_policy_def)
  from yolo_approval_sound [OF h] obtain p t where
    "yolo_get (rq_requester (shell_request ''ls; id'')) (Some (rq_audience (shell_request ''ls; id''))) [deny_policy [''*rm*'']] = Some p"
    "targetFromRequest (shell_request ''ls; id'') = Some t"
    "yp_mode p = DenyList \<longrightarrow> (\<forall>cmd. commandFromRequest (shell_request ''ls; id'') = Some cmd \<longrightarrow> list_all (\<lambda>seg. \<not> denyHit p seg) (splitCommandSegments t))"
    by (elim exE conjE) blast
  with g mode seg have "list_all (\<lambda>seg. \<not> denyHit (deny_policy [''*rm*'']) seg) [''ls'', ''id'']" by simp
  with h show ?thesis by (rule conjI)
qed

definition unexplained :: "yolo_context \<Rightarrow> bool" where
  "unexplained ctx = (case (yc_policy ctx, yc_target ctx) of
     (Some p, Some t) \<Rightarrow> target_segments (yc_targetKind ctx) t = [] \<or> ruleless p | _ \<Rightarrow> False)"

text \<open>
  The explanation agrees with the decision: a request is approved exactly when the explanation says that it would
  be, except for a line of nothing but operators and for a deny-list without rules - these two are reported as
  approved although they are not.
\<close>

theorem explanation_agrees:
  "(evaluateYoloPolicy now ctx \<noteq> None) = (ym_reason (explainYoloMiss now ctx) = WouldHaveApproved \<and> \<not> unexplained ctx)"
proof (cases "\<exists>p t. yc_policy ctx = Some p \<and> \<not> policy_expired now p \<and> yc_target ctx = Some t \<and> t \<noteq> []")
  case False
  then have "evaluateYoloPolicy now ctx = None" "ym_reason (explainYoloMiss now ctx) \<noteq> WouldHaveApproved"
    by (auto simp: evaluateYoloPolicy_def explainYoloMiss_def miss_def truthy_str_def split: option.splits)
  then show ?thesis by simp
next
  case True
  then obtain p t where p: "yc_policy ctx = Some p" "\<not> policy_expired now p" "yc_target ctx = Some t" "t \<noteq> []" by blast
  let ?s = "target_segments (yc_targetKind ctx) t"
  have u: "unexplained ctx = (?s = [] \<or> ruleless p)" by (simp add: unexplained_def p)
  note den = denied_iff [of p ?s t "yc_outerTarget ctx"]
  show ?thesis
  proof (cases "first_denial (yp_denyPatterns p) ?s t (yc_outerTarget ctx)")
    case (Some x)
    then show ?thesis using den p by (cases x) (auto simp: evaluateYoloPolicy_def explainYoloMiss_def miss_def Let_def)
  next
    case None
    have nd: "\<not> denyHit p t" "\<not> list_ex (denyHit p) ?s" "\<not> (truthy_str (yc_outerTarget ctx) \<and> denyHit p (the (yc_outerTarget ctx)))"
      using den None by auto
    show ?thesis
    proof (cases "yp_mode p")
      case AllowList
      have "yp_allowPatterns p \<noteq> []" if "list_all (segmentAllowed p) ?s" "?s \<noteq> []"
        using that by (cases ?s) (auto simp: segmentAllowed_def Let_def)
      then show ?thesis using p nd None AllowList u
        by (auto simp: evaluateYoloPolicy_def explainYoloMiss_def miss_def ruleless_def filter_empty_conv list_all_iff Let_def)
    next
      case DenyList
      then show ?thesis using p nd None u
        by (auto simp: evaluateYoloPolicy_def explainYoloMiss_def miss_def ruleless_def filter_empty_conv list_ex_iff Let_def)
    qed
  qed
qed

text \<open>
  A line break in a command disarms every deny pattern that holds none: no wildcard stands for a line break, so a
  deny-list policy approves a command whose every part holds a quoted line break, whatever its deny patterns.
\<close>

theorem line_break_disarms_denials:
  assumes "yc_policy ctx = Some p" "yp_mode p = DenyList" "yp_denyPatterns p \<noteq> []" "\<not> policy_expired now p"
    and "list_all (list_all (\<lambda>c. \<not> line_end c)) (yp_denyPatterns p)"
    and "yc_target ctx = Some t" "list_ex line_end t" "target_segments (yc_targetKind ctx) t \<noteq> []"
    and "list_all (list_ex line_end) (target_segments (yc_targetKind ctx) t)"
    and "\<And>x. yc_outerTarget ctx = Some x \<Longrightarrow> list_ex line_end x"
    and "\<not> risk_forbids (yc_resolvedRisk ctx) (yp_denyRiskThreshold p)" "\<not> containsCommandSubstitution t"
  shows "evaluateYoloPolicy now ctx = Some (yp_enabledBy p)"
proof -
  note nd = denyHit_one_line [OF assms(5)]
  have "\<not> list_ex (denyHit p) (target_segments (yc_targetKind ctx) t)" using nd assms(9) by (auto simp: list_ex_iff list_all_iff)
  moreover have "\<not> (truthy_str (yc_outerTarget ctx) \<and> denyHit p (the (yc_outerTarget ctx)))"
    using nd assms(10) by (auto simp: truthy_str_def split: option.splits)
  moreover have "t \<noteq> []" using assms(7) by auto
  ultimately show ?thesis using assms nd [OF assms(7)] by (simp add: evaluateYoloPolicy_def Let_def target_substitution)
qed

text \<open>\<open>rm "a\<close>, a line break, \<open>b"\<close> is approved; with a space for the line break it is not.\<close>

theorem line_break_disarms_denials_witness:
  "(let ctx = (\<lambda>t. \<lparr>yc_policy = Some (deny_policy [''*rm*'']), yc_target = Some t, yc_outerTarget = None, yc_targetKind = CommandTarget, yc_resolvedRisk = None\<rparr>);
      line = (\<lambda>c. ''rm '' @ [DQUOTE, CHR ''a'', c, CHR ''b'', DQUOTE]) in
    evaluateYoloPolicy 5 (ctx (line (CHR 0x0A))) = Some ''o@x'' \<and> evaluateYoloPolicy 5 (ctx (line (CHR '' ''))) = None)"
proof -
  let ?ctx = "\<lambda>t. \<lparr>yc_policy = Some (deny_policy [''*rm*'']), yc_target = Some t, yc_outerTarget = None, yc_targetKind = CommandTarget, yc_resolvedRisk = None\<rparr>"
  let ?line = "\<lambda>c. ''rm '' @ [DQUOTE, CHR ''a'', c, CHR ''b'', DQUOTE]"
  have seg: "splitCommandSegments (?line CHR 0x0A) = [?line CHR 0x0A]"
    by (simp add: splitCommandSegments_def split_raw_step splits_at_def next_quote_def shell_chars js_trim_def is_space_def)
  have sub: "\<not> containsCommandSubstitution (?line CHR 0x0A)"
    by (simp add: containsCommandSubstitution_def substitution_step nested_at_def next_quote_def shell_chars)
  have p: "yp_mode (deny_policy [''*rm*'']) = DenyList" "yp_denyPatterns (deny_policy [''*rm*'']) = [''*rm*'']" "\<not> policy_expired 5 (deny_policy [''*rm*''])"
      "yp_enabledBy (deny_policy [''*rm*'']) = ''o@x''" "yp_denyRiskThreshold (deny_policy [''*rm*'']) = None"
    by (simp_all add: deny_policy_def policy_expired_def)
  have "evaluateYoloPolicy 5 (?ctx (?line CHR 0x0A)) = Some (yp_enabledBy (deny_policy [''*rm*'']))"
    by (rule line_break_disarms_denials [where t = "?line CHR 0x0A"])
      (use seg sub p in \<open>simp_all add: target_segments_def line_end_def risk_forbids_def\<close>)
  moreover have "matchesGlob (?line CHR '' '') ''*rm*''" by (simp add: matchesGlob_def pattern_atoms_def line_end_def DQUOTE_def)
  then have "evaluateYoloPolicy 5 (?ctx (?line CHR '' '')) = None" using p by (simp add: evaluateYoloPolicy_def denyHit_def Let_def)
  ultimately show ?thesis using p(4) by (simp add: Let_def)
qed

text \<open>
  The endpoints keep the stored policies in order: one per agent and audience, none that is a deny-list without
  rules. A request changes the store only for an administrator, the management token, or the owner or approver of
  the agent, only at the named agent and audience, and an accepted one stores the policy it answers.
\<close>

theorem policy_endpoints_safe:
  assumes "policies_ok s" "putYoloPolicy now caller accounts isAdmin email q b s = (r, s1)"
    and "deleteYoloPolicy caller accounts isAdmin email q s = (r', s2)"
  shows "policies_ok s1 \<and> policies_ok s2 \<and> (\<not> may_manage caller accounts isAdmin email \<longrightarrow> s1 = s \<and> s2 = s) \<and>
    (\<forall>e a. (e, a) \<noteq> (email, audience_param q) \<longrightarrow> yolo_getExact e a s1 = yolo_getExact e a s \<and> yolo_getExact e a s2 = yolo_getExact e a s) \<and>
    (\<forall>p. r = Inr p \<longrightarrow> yolo_getExact email (audience_param q) s1 = Some p) \<and>
    (r' = Inr () \<longrightarrow> yolo_getExact email (audience_param q) s2 = None)"
proof -
  let ?p = "updated_policy now caller email (audience_param q) b (yolo_getExact email (audience_param q) s)"
  have put: "(\<exists>x. r = Inl x) \<and> s1 = s \<or> r = Inr ?p \<and> s1 = yolo_put ?p s \<and> \<not> ruleless ?p \<and> may_manage caller accounts isAdmin email"
    using assms(2) by (auto simp: putYoloPolicy_def actor_iff Let_def split: if_splits sum.splits)
  have del: "(\<exists>x. r' = Inl x) \<and> s2 = s \<or> r' = Inr () \<and> s2 = yolo_delete email (audience_param q) s \<and> may_manage caller accounts isAdmin email"
    using assms(3) by (auto simp: deleteYoloPolicy_def actor_iff split: if_splits sum.splits)
  have get1: "yolo_getExact e a (yolo_put ?p s) = (if (e, a) = (email, audience_param q) then Some ?p else yolo_getExact e a s)" for e a
    by (subst getExact_put) (cases "yolo_getExact email (audience_param q) s"; simp add: updated_key)+
  have get2: "yolo_getExact e a (yolo_delete email (audience_param q) s) =
      (if (e, a) = (email, audience_param q) then None else yolo_getExact e a s)" for e a
    unfolding yolo_delete_def yolo_getExact_def by (induction s) auto
  have "policies_ok s1" using put policies_ok_put [OF assms(1)] assms(1) by blast
  moreover have "policies_ok s2" using del policies_ok_delete [OF assms(1)] assms(1) by blast
  ultimately show ?thesis using put del get1 get2 by auto
qed

definition example_accounts :: "string \<Rightarrow> account option" where
  "example_accounts e = (if e = ''bot@x'' then Some \<lparr>ac_type = AgentAccount, ac_owner = Some ''o@x'', ac_approver = None\<rparr> else None)"

definition example_update :: policy_body where
  "example_update = \<lparr>pb_mode = JStr ''deny-list'', pb_denyRiskThreshold = JUndef, pb_denyPatterns = JArr [JStr ''*sudo*''], pb_allowPatterns = JUndef, pb_expiresAt = None\<rparr>"

theorem policy_endpoints_safe_witness:
  "policies_ok (snd (putYoloPolicy 9 ''o@x'' example_accounts (\<lambda>_. False) ''bot@x'' None example_update [deny_policy [''*rm*'']])) \<and>
   snd (putYoloPolicy 9 ''eve@x'' example_accounts (\<lambda>_. False) ''bot@x'' None example_update [deny_policy [''*rm*'']]) = [deny_policy [''*rm*'']]"
proof -
  have ok: "policies_ok [deny_policy [''*rm*'']]" by (simp add: policies_ok_def ruleless_def deny_policy_def)
  have "\<not> may_manage ''eve@x'' example_accounts (\<lambda>_. False) ''bot@x''" by (simp add: may_manage_def example_accounts_def MANAGEMENT_def)
  then show ?thesis
    using policy_endpoints_safe [OF ok prod.collapse [symmetric] prod.collapse [symmetric], of 9 "''o@x''" example_accounts "\<lambda>_. False" "''bot@x''" None example_update]
      policy_endpoints_safe [OF ok prod.collapse [symmetric] prod.collapse [symmetric], of 9 "''eve@x''" example_accounts "\<lambda>_. False" "''bot@x''" None example_update]
    by blast
qed

end
