(* ===== verification/AuthStores.thy ===== *)
theory AuthStores
  imports Types
begin

text \<open>
  The in-memory stores of the identity provider, \<open>packages/auth/src/idp/stores.ts\<close>, with the entry types of
  \<open>stores.types.ts\<close>. A \<open>Map\<close> is its list of entries in insertion order. Times are milliseconds; \<open>now\<close> is
  \<open>Date.now()\<close>. Random tokens and ids are arguments, \<open>hash\<close> is the SHA-256 digest of a token. A store method that
  changes an entry it got from the map changes the map. The key store, which only generates a key, is left out.
\<close>

section \<open>Authorization codes\<close>

record delegate_claim =
  dc_sub :: string
  dc_grant_id :: string

record code_entry =
  ce_code :: string
  ce_clientId :: string
  ce_redirectUri :: string
  ce_codeChallenge :: string
  ce_userId :: string
  ce_nonce :: "string option"
  ce_expiresAt :: int
  ce_act :: "actor_type option"
  ce_delegate :: "delegate_claim option"
  ce_scope :: "string option"
  ce_authorizationDetails :: "auth_detail list option"
  ce_delegationAct :: "string option"
  ce_delegationGrant :: "string option"

type_synonym code_store = "(string \<times> code_entry) list"

definition code_save :: "code_entry \<Rightarrow> code_store \<Rightarrow> code_store" where
  "code_save e s = AList.update (ce_code e) e s"

definition code_delete :: "string \<Rightarrow> code_store \<Rightarrow> code_store" where
  "code_delete c s = AList.delete c s"

definition code_find :: "int \<Rightarrow> string \<Rightarrow> code_store \<Rightarrow> code_entry option \<times> code_store" where
  "code_find now c s = (case map_of s c of None \<Rightarrow> (None, s)
     | Some e \<Rightarrow> if ce_expiresAt e < now then (None, code_delete c s) else (Some e, s))"

section \<open>Consent and admin allow-list\<close>

record consent_entry =
  co_userId :: string
  co_clientId :: string
  co_grantedAt :: int

type_synonym consent_store = "(string \<times> consent_entry) list"

definition consent_key :: "string \<Rightarrow> string \<Rightarrow> string" where
  "consent_key userId clientId = userId @ '':'' @ clientId"

definition hasConsent :: "string \<Rightarrow> string \<Rightarrow> consent_store \<Rightarrow> bool" where
  "hasConsent u c s = (map_of s (consent_key u c) \<noteq> None)"

definition consent_save :: "consent_entry \<Rightarrow> consent_store \<Rightarrow> consent_store" where
  "consent_save e s = AList.update (consent_key (co_userId e) (co_clientId e)) e s"

definition consent_list :: "string \<Rightarrow> consent_store \<Rightarrow> consent_entry list" where
  "consent_list u s = sort_by (\<lambda>a b. co_grantedAt b \<le> co_grantedAt a) (filter (\<lambda>e. co_userId e = u) (map snd s))"

definition consent_revoke :: "string \<Rightarrow> string \<Rightarrow> consent_store \<Rightarrow> consent_store" where
  "consent_revoke u c s = AList.delete (consent_key u c) s"

type_synonym allow_store = "string list"

definition allow_key :: "string \<Rightarrow> string \<Rightarrow> string" where
  "allow_key domain clientId = to_lower domain @ '':'' @ to_lower clientId"

definition isAllowed :: "string \<Rightarrow> string \<Rightarrow> allow_store \<Rightarrow> bool" where
  "isAllowed domain clientId s = (allow_key domain clientId \<in> set s)"

definition allow_add :: "string \<Rightarrow> string \<Rightarrow> allow_store \<Rightarrow> allow_store" where
  "allow_add domain clientId s = (if allow_key domain clientId \<in> set s then s else s @ [allow_key domain clientId])"

section \<open>Used token ids\<close>

type_synonym jti_store = "(string \<times> int) list"

definition jti_cleanup :: "int \<Rightarrow> jti_store \<Rightarrow> jti_store" where
  "jti_cleanup now s = filter (\<lambda>(_, expiresAt). \<not> expiresAt < now) s"

definition hasBeenUsed :: "int \<Rightarrow> string \<Rightarrow> jti_store \<Rightarrow> bool \<times> jti_store" where
  "hasBeenUsed now jti s = (let s' = jti_cleanup now s in (map_of s' jti \<noteq> None, s'))"

definition markUsed :: "int \<Rightarrow> string \<Rightarrow> int \<Rightarrow> jti_store \<Rightarrow> jti_store" where
  "markUsed now jti ttlMs s = AList.update jti (now + ttlMs) s"

section \<open>Refresh tokens\<close>

definition DEFAULT_REFRESH_TTL_MS :: int where
  "DEFAULT_REFRESH_TTL_MS = 30 * 24 * 60 * 60 * 1000"

record refresh_family =
  rf_familyId :: string
  rf_userId :: string
  rf_clientId :: string
  rf_currentTokenHash :: string
  rf_createdAt :: int
  rf_expiresAt :: int
  rf_revoked :: bool

record refresh_token =
  rt_familyId :: string
  rt_userId :: string
  rt_clientId :: string
  rt_expiresAt :: int
  rt_used :: bool

record refresh_store =
  rs_families :: "(string \<times> refresh_family) list"
  rs_tokens :: "(string \<times> refresh_token) list"

datatype refresh_error = InvalidRefreshToken | FamilyRevoked | RefreshExpired | ReuseDetected

record consume_result =
  cr_newToken :: string
  cr_userId :: string
  cr_clientId :: string
  cr_familyId :: string

definition refresh_create :: "(string \<Rightarrow> string) \<Rightarrow> string \<Rightarrow> string \<Rightarrow> int \<Rightarrow> string \<Rightarrow> string \<Rightarrow> int option \<Rightarrow> refresh_store
    \<Rightarrow> (string \<times> string) \<times> refresh_store" where
  "refresh_create hash token familyId now userId clientId ttlMs s = (let expiresAt = now + nullish ttlMs DEFAULT_REFRESH_TTL_MS in
     ((token, familyId), s\<lparr>
       rs_families := AList.update familyId \<lparr>rf_familyId = familyId, rf_userId = userId, rf_clientId = clientId,
         rf_currentTokenHash = hash token, rf_createdAt = now, rf_expiresAt = expiresAt, rf_revoked = False\<rparr> (rs_families s),
       rs_tokens := AList.update (hash token) \<lparr>rt_familyId = familyId, rt_userId = userId, rt_clientId = clientId,
         rt_expiresAt = expiresAt, rt_used = False\<rparr> (rs_tokens s)\<rparr>))"

definition revokeFamily :: "string \<Rightarrow> refresh_store \<Rightarrow> refresh_store" where
  "revokeFamily i s = (case map_of (rs_families s) i of None \<Rightarrow> s
     | Some f \<Rightarrow> s\<lparr>rs_families := AList.update i (f\<lparr>rf_revoked := True\<rparr>) (rs_families s)\<rparr>)"

definition refresh_consume :: "(string \<Rightarrow> string) \<Rightarrow> string \<Rightarrow> int \<Rightarrow> string \<Rightarrow> refresh_store
    \<Rightarrow> (refresh_error + consume_result) \<times> refresh_store" where
  "refresh_consume hash newToken now token s = (case map_of (rs_tokens s) (hash token) of
     None \<Rightarrow> (Inl InvalidRefreshToken, s)
   | Some e \<Rightarrow> (case map_of (rs_families s) (rt_familyId e) of
       None \<Rightarrow> (Inl FamilyRevoked, s)
     | Some f \<Rightarrow> if rf_revoked f then (Inl FamilyRevoked, s)
         else if rt_expiresAt e < now then (Inl RefreshExpired, s)
         else if rt_used e then (Inl ReuseDetected, revokeFamily (rt_familyId e) s)
         else (Inr \<lparr>cr_newToken = newToken, cr_userId = rt_userId e, cr_clientId = rt_clientId e, cr_familyId = rt_familyId e\<rparr>,
           s\<lparr>rs_tokens := AList.update (hash newToken) \<lparr>rt_familyId = rt_familyId e, rt_userId = rt_userId e,
                rt_clientId = rt_clientId e, rt_expiresAt = rf_expiresAt f, rt_used = False\<rparr>
                (AList.update (hash token) (e\<lparr>rt_used := True\<rparr>) (rs_tokens s)),
              rs_families := AList.update (rt_familyId e) (f\<lparr>rf_currentTokenHash := hash newToken\<rparr>) (rs_families s)\<rparr>)))"

definition revokeByToken :: "(string \<Rightarrow> string) \<Rightarrow> string \<Rightarrow> refresh_store \<Rightarrow> refresh_store" where
  "revokeByToken hash token s = (case map_of (rs_tokens s) (hash token) of None \<Rightarrow> s | Some e \<Rightarrow> revokeFamily (rt_familyId e) s)"

definition revokeByUser :: "string \<Rightarrow> refresh_store \<Rightarrow> refresh_store" where
  "revokeByUser u s = s\<lparr>rs_families := map (\<lambda>(i, f). (i, if rf_userId f = u then f\<lparr>rf_revoked := True\<rparr> else f)) (rs_families s)\<rparr>"

text \<open>Pages of the lists: after the cursor when it is found, then the limit.\<close>

record 'a page =
  pa_data :: "'a list"
  pa_cursor :: "string option"
  pa_has_more :: bool

definition after_cursor_key :: "('a \<Rightarrow> string) \<Rightarrow> string option \<Rightarrow> 'a list \<Rightarrow> 'a list" where
  "after_cursor_key key cursor xs = (if truthy_str cursor \<and> list_ex (\<lambda>x. Some (key x) = cursor) xs
     then tl (dropWhile (\<lambda>x. Some (key x) \<noteq> cursor) xs) else xs)"

definition paged :: "('a \<Rightarrow> string) \<Rightarrow> string option \<Rightarrow> int option \<Rightarrow> 'a list \<Rightarrow> 'a page" where
  "paged key cursor limit xs = (let rest = after_cursor_key key cursor xs; n = nat (min (max (nullish limit 50) 1) 100); d = take n rest in
     \<lparr>pa_data = d, pa_cursor = (if d = [] then None else Some (key (last d))), pa_has_more = (n < length rest)\<rparr>)"

definition listFamilies :: "int \<Rightarrow> string option \<Rightarrow> string option \<Rightarrow> int option \<Rightarrow> refresh_store \<Rightarrow> refresh_family page" where
  "listFamilies now userId cursor limit s = paged rf_familyId cursor limit
     (sort_by (\<lambda>a b. rf_createdAt b \<le> rf_createdAt a) (filter (\<lambda>f. \<not> rf_revoked f \<and> \<not> rf_expiresAt f < now \<and>
        (truthy_str userId \<longrightarrow> Some (rf_userId f) = userId)) (map snd (rs_families s))))"

section \<open>Users and keys\<close>

record user =
  us_email :: string
  us_name :: string
  us_owner :: "string option"
  us_approver :: "string option"
  us_type :: "actor_type option"
  us_isActive :: bool
  us_createdAt :: int
  us_lastLoginAt :: "int option"
  us_recoveryVacationMode :: "bool option"
  us_recoveryVacationDays :: "int option"

type_synonym user_store = "(string \<times> user) list"

definition user_create :: "user \<Rightarrow> user_store \<Rightarrow> user \<times> user_store" where
  "user_create u s = (u, AList.update (us_email u) u s)"

definition findByEmail :: "string \<Rightarrow> user_store \<Rightarrow> user option" where
  "findByEmail email s = map_of s email"

definition user_list :: "string option \<Rightarrow> string option \<Rightarrow> int option \<Rightarrow> user_store \<Rightarrow> user page" where
  "user_list search cursor limit s = (let users = sort_by (\<lambda>a b. us_createdAt b \<le> us_createdAt a) (map snd s) in
     paged us_email cursor limit (if truthy_str search
       then filter (\<lambda>u. includes_str (to_lower (us_email u)) (to_lower (the search)) \<or> includes_str (to_lower (us_name u)) (to_lower (the search))) users
       else users))"

text \<open>\<open>data\<close> is what the spread of the given members makes of the user; it leaves the email as it is.\<close>

definition user_update :: "string \<Rightarrow> (user \<Rightarrow> user) \<Rightarrow> user_store \<Rightarrow> (string + user) \<times> user_store" where
  "user_update email data s = (case map_of s email of None \<Rightarrow> (Inl (''User not found: '' @ email), s)
     | Some u \<Rightarrow> (Inr (data u), AList.update email (data u) s))"

definition user_delete :: "string \<Rightarrow> user_store \<Rightarrow> user_store" where
  "user_delete email s = AList.delete email s"

definition findByOwner :: "string \<Rightarrow> user_store \<Rightarrow> user list" where
  "findByOwner owner s = filter (\<lambda>u. us_owner u = Some owner) (map snd s)"

definition findByApprover :: "string \<Rightarrow> user_store \<Rightarrow> user list" where
  "findByApprover approver s = filter (\<lambda>u. us_approver u = Some approver) (map snd s)"

record ssh_key =
  sk_keyId :: string
  sk_userEmail :: string
  sk_publicKey :: string
  sk_name :: string
  sk_createdAt :: int

type_synonym ssh_store = "(string \<times> ssh_key) list"

definition ssh_save :: "ssh_key \<Rightarrow> ssh_store \<Rightarrow> ssh_store" where
  "ssh_save k s = AList.update (sk_keyId k) k s"

definition ssh_findById :: "string \<Rightarrow> ssh_store \<Rightarrow> ssh_key option" where
  "ssh_findById i s = map_of s i"

definition ssh_findByUser :: "string \<Rightarrow> ssh_store \<Rightarrow> ssh_key list" where
  "ssh_findByUser email s = filter (\<lambda>k. sk_userEmail k = email) (map snd s)"

definition ssh_findByPublicKey :: "string \<Rightarrow> ssh_store \<Rightarrow> ssh_key option" where
  "ssh_findByPublicKey p s = List.find (\<lambda>k. sk_publicKey k = p) (map snd s)"

definition ssh_delete :: "string \<Rightarrow> ssh_store \<Rightarrow> ssh_store" where
  "ssh_delete i s = AList.delete i s"

definition ssh_deleteAllForUser :: "string \<Rightarrow> string option \<Rightarrow> ssh_store \<Rightarrow> ssh_store" where
  "ssh_deleteAllForUser email except s = filter (\<lambda>(i, k). \<not> (sk_userEmail k = email \<and> Some i \<noteq> except)) s"

section \<open>Challenges\<close>

record challenge =
  ch_entityId :: string
  ch_expiresAt :: int

type_synonym challenge_store = "(string \<times> challenge) list"

definition createChallenge :: "string \<Rightarrow> int \<Rightarrow> string \<Rightarrow> challenge_store \<Rightarrow> string \<times> challenge_store" where
  "createChallenge random now entityId s = (random, AList.update random \<lparr>ch_entityId = entityId, ch_expiresAt = now + 60000\<rparr> s)"

definition consumeChallenge :: "int \<Rightarrow> string \<Rightarrow> string \<Rightarrow> challenge_store \<Rightarrow> bool \<times> challenge_store" where
  "consumeChallenge now c entityId s = (case map_of s c of None \<Rightarrow> (False, s)
     | Some x \<Rightarrow> (\<not> ch_expiresAt x < now \<and> ch_entityId x = entityId, AList.delete c s))"

section \<open>Addresses and recovery\<close>

type_synonym email_history = "(string \<times> string list) list"

definition history_record :: "string \<Rightarrow> string \<Rightarrow> email_history \<Rightarrow> email_history" where
  "history_record account address s = (let l = nullish (map_of s account) [] in
     if address \<in> set l then s else AList.update account (l @ [address]) s)"

definition history_listAll :: "string \<Rightarrow> email_history \<Rightarrow> string list" where
  "history_listAll email s = (let l = nullish (map_of s email) [] in if email \<in> set l then l else email # l)"

record recovery_token =
  rk_token :: string
  rk_email :: string
  rk_createdAt :: int
  rk_usableAt :: int
  rk_expiresAt :: int
  rk_cancelled :: bool
  rk_cancelledAt :: "int option"
  rk_cancelledReason :: "string option"
  rk_consumed :: bool
  rk_requestIp :: "string option"
  rk_requestUserAgent :: "string option"

type_synonym recovery_store = "(string \<times> recovery_token) list"

definition recovery_save :: "recovery_token \<Rightarrow> recovery_store \<Rightarrow> recovery_store" where
  "recovery_save t s = AList.update (rk_token t) t s"

definition recovery_find :: "int \<Rightarrow> string \<Rightarrow> recovery_store \<Rightarrow> recovery_token option" where
  "recovery_find now t s = (case map_of s t of None \<Rightarrow> None
     | Some e \<Rightarrow> if rk_cancelled e \<or> rk_consumed e then None else if rk_expiresAt e < now then None else Some e)"

definition recovery_active :: "int \<Rightarrow> string \<Rightarrow> recovery_token \<Rightarrow> bool" where
  "recovery_active now email t = (rk_email t = email \<and> \<not> rk_cancelled t \<and> \<not> rk_consumed t \<and> now \<le> rk_expiresAt t)"

definition recovery_listActive :: "int \<Rightarrow> string \<Rightarrow> recovery_store \<Rightarrow> recovery_token list" where
  "recovery_listActive now email s = filter (recovery_active now email) (map snd s)"

definition recovery_listAll :: "string \<Rightarrow> recovery_store \<Rightarrow> recovery_token list" where
  "recovery_listAll email s = filter (\<lambda>t. rk_email t = email) (map snd s)"

definition recovery_markConsumed :: "string \<Rightarrow> recovery_store \<Rightarrow> recovery_store" where
  "recovery_markConsumed t s = (case map_of s t of None \<Rightarrow> s | Some e \<Rightarrow> AList.update t (e\<lparr>rk_consumed := True\<rparr>) s)"

definition cancelAllForEmail :: "int \<Rightarrow> string \<Rightarrow> string \<Rightarrow> recovery_store \<Rightarrow> nat \<times> recovery_store" where
  "cancelAllForEmail now email reason s = (length (filter (recovery_active now email) (map snd s)),
     map (\<lambda>(i, t). (i, if recovery_active now email t
       then t\<lparr>rk_cancelled := True, rk_cancelledAt := Some now, rk_cancelledReason := Some reason\<rparr> else t)) s)"

section \<open>Refresh tokens over time\<close>

inductive refresh_step :: "(string \<Rightarrow> string) \<Rightarrow> refresh_store \<Rightarrow> refresh_store \<Rightarrow> bool" for hash where
  create: "map_of (rs_tokens s) (hash t) = None \<Longrightarrow> map_of (rs_families s) fam = None \<Longrightarrow>
    refresh_step hash s (snd (refresh_create hash t fam now u c ttl s))"
| consume: "map_of (rs_tokens s) (hash n) = None \<Longrightarrow> refresh_step hash s (snd (refresh_consume hash n now t s))"
| revoke_token: "refresh_step hash s (revokeByToken hash t s)"
| revoke_family: "refresh_step hash s (revokeFamily fam s)"
| revoke_user: "refresh_step hash s (revokeByUser u s)"

abbreviation refresh_run :: "(string \<Rightarrow> string) \<Rightarrow> refresh_store \<Rightarrow> refresh_store \<Rightarrow> bool" where
  "refresh_run hash \<equiv> (refresh_step hash)\<^sup>*\<^sup>*"

text \<open>Every token belongs to a stored family, and a family has at most one token that was not used.\<close>

definition refresh_inv :: "refresh_store \<Rightarrow> bool" where
  "refresh_inv s = ((\<forall>h e. map_of (rs_tokens s) h = Some e \<longrightarrow> map_of (rs_families s) (rt_familyId e) \<noteq> None) \<and>
     (\<forall>h h' e e'. map_of (rs_tokens s) h = Some e \<longrightarrow> map_of (rs_tokens s) h' = Some e' \<longrightarrow> \<not> rt_used e \<longrightarrow> \<not> rt_used e' \<longrightarrow>
        rt_familyId e = rt_familyId e' \<longrightarrow> h = h'))"

definition is_revoked :: "string \<Rightarrow> refresh_store \<Rightarrow> bool" where
  "is_revoked i s = (case map_of (rs_families s) i of None \<Rightarrow> False | Some f \<Rightarrow> rf_revoked f)"

definition spent_token :: "string \<Rightarrow> string \<Rightarrow> refresh_store \<Rightarrow> bool" where
  "spent_token h i s = (case map_of (rs_tokens s) h of None \<Rightarrow> False | Some e \<Rightarrow> rt_used e \<and> rt_familyId e = i)"

lemma revokeFamily_simps [simp]:
  "rs_tokens (revokeFamily i s) = rs_tokens s"
  "map_of (rs_families (revokeFamily i s)) j = (if j = i then map_option (\<lambda>f. f\<lparr>rf_revoked := True\<rparr>) (map_of (rs_families s) i)
     else map_of (rs_families s) j)"
  by (auto simp: revokeFamily_def split: option.split)

lemma revokeByUser_simps [simp]:
  "rs_tokens (revokeByUser u s) = rs_tokens s"
  "map_of (rs_families (revokeByUser u s)) j = map_option (\<lambda>f. if rf_userId f = u then f\<lparr>rf_revoked := True\<rparr> else f) (map_of (rs_families s) j)"
  by (simp_all add: revokeByUser_def map_of_map)

lemma consume_cases:
  obtains (refused) x where "refresh_consume hash n now t s = (Inl x, s)" "x = InvalidRefreshToken \<longrightarrow> map_of (rs_tokens s) (hash t) = None"
      "x = RefreshExpired \<longrightarrow> (\<exists>e. map_of (rs_tokens s) (hash t) = Some e \<and> rt_expiresAt e < now)"
      "x = FamilyRevoked \<longrightarrow> (\<exists>e. map_of (rs_tokens s) (hash t) = Some e \<and> (is_revoked (rt_familyId e) s \<or> map_of (rs_families s) (rt_familyId e) = None))"
      "x \<noteq> ReuseDetected"
  | (reuse) e where "map_of (rs_tokens s) (hash t) = Some e" "rt_used e" "map_of (rs_families s) (rt_familyId e) \<noteq> None"
      "refresh_consume hash n now t s = (Inl ReuseDetected, revokeFamily (rt_familyId e) s)"
  | (rotated) e f where "map_of (rs_tokens s) (hash t) = Some e" "\<not> rt_used e" "map_of (rs_families s) (rt_familyId e) = Some f" "\<not> rf_revoked f"
      "now \<le> rt_expiresAt e"
      "refresh_consume hash n now t s = (Inr \<lparr>cr_newToken = n, cr_userId = rt_userId e, cr_clientId = rt_clientId e, cr_familyId = rt_familyId e\<rparr>,
         s\<lparr>rs_tokens := AList.update (hash n) \<lparr>rt_familyId = rt_familyId e, rt_userId = rt_userId e,
                rt_clientId = rt_clientId e, rt_expiresAt = rf_expiresAt f, rt_used = False\<rparr>
                (AList.update (hash t) (e\<lparr>rt_used := True\<rparr>) (rs_tokens s)),
           rs_families := AList.update (rt_familyId e) (f\<lparr>rf_currentTokenHash := hash n\<rparr>) (rs_families s)\<rparr>)"
proof (cases "map_of (rs_tokens s) (hash t)")
  case None
  then show thesis using refused by (simp add: refresh_consume_def)
next
  case (Some e)
  show thesis
  proof (cases "map_of (rs_families s) (rt_familyId e)")
    case None
    then show thesis using refused Some by (simp add: refresh_consume_def)
  next
    case (Some f)
    then show thesis using \<open>map_of (rs_tokens s) (hash t) = Some e\<close> refused reuse rotated
      by (cases "rf_revoked f"; cases "rt_expiresAt e < now"; cases "rt_used e") (simp_all add: refresh_consume_def is_revoked_def)
  qed
qed

lemma step_revoked:
  assumes "refresh_step hash s s'" "is_revoked i s"
  shows "is_revoked i s'"
  using assms
proof (induction rule: refresh_step.induct)
  case (create s t fam now u c ttl)
  then show ?case by (auto simp: refresh_create_def is_revoked_def Let_def split: option.splits)
next
  case (consume s n now t)
  show ?case
  proof (cases rule: consume_cases [of hash n now t s])
    case (rotated e f)
    then show ?thesis using consume by (auto simp: is_revoked_def split: option.splits)
  qed (use consume in \<open>auto simp: is_revoked_def split: option.splits\<close>)
next
  case (revoke_token s t)
  then show ?case by (auto simp: revokeByToken_def is_revoked_def split: option.splits)
next
  case (revoke_family s fam)
  then show ?case by (auto simp: is_revoked_def split: option.splits)
next
  case (revoke_user s u)
  then show ?case by (auto simp: is_revoked_def split: option.splits)
qed

lemma step_spent:
  assumes "refresh_step hash s s'" "spent_token h i s"
  shows "spent_token h i s'"
  using assms
proof (induction rule: refresh_step.induct)
  case (create s t fam now u c ttl)
  then show ?case by (auto simp: refresh_create_def spent_token_def Let_def split: option.splits)
next
  case (consume s n now t)
  show ?case
  proof (cases rule: consume_cases [of hash n now t s])
    case (rotated e f)
    then show ?thesis using consume by (auto simp: spent_token_def split: option.splits)
  qed (use consume in \<open>auto simp: spent_token_def\<close>)
next
  case (revoke_token s t)
  then show ?case by (auto simp: revokeByToken_def spent_token_def split: option.splits)
qed (auto simp: spent_token_def)

lemma revoke_inv: "refresh_inv s \<Longrightarrow> refresh_inv (revokeFamily i s)"
  by (auto simp: refresh_inv_def)

lemma step_inv:
  assumes "refresh_step hash s s'" "refresh_inv s"
  shows "refresh_inv s'"
  using assms
proof (induction rule: refresh_step.induct)
  case (create s t fam now u c ttl)
  then show ?case unfolding refresh_inv_def refresh_create_def Let_def by (simp split: if_splits) (metis option.distinct(1))
next
  case (consume s n now t)
  show ?case
  proof (cases rule: consume_cases [of hash n now t s])
    case (rotated e f)
    then have "rt_familyId e' \<noteq> rt_familyId e" if "map_of (rs_tokens s) h = Some e'" "\<not> rt_used e'" "h \<noteq> hash t" for h e'
      using consume.prems that unfolding refresh_inv_def by blast
    then show ?thesis using rotated consume unfolding refresh_inv_def by (auto split: if_splits)
  qed (use consume revoke_inv in auto)
next
  case (revoke_token s t)
  then show ?case using revoke_inv by (auto simp: revokeByToken_def split: option.splits)
next
  case (revoke_family s fam)
  then show ?case by (rule revoke_inv)
next
  case (revoke_user s u)
  then show ?case by (auto simp: refresh_inv_def)
qed

lemma run_keeps:
  assumes "refresh_run hash s s'"
  shows "refresh_inv s \<Longrightarrow> refresh_inv s'" "is_revoked i s \<Longrightarrow> is_revoked i s'" "spent_token h i s \<Longrightarrow> spent_token h i s'"
  using assms by (induction rule: rtranclp_induct) (auto intro: step_inv step_revoked step_spent)

lemma consume_revoked:
  assumes "fst (refresh_consume hash n now t s) = Inr r"
  shows "\<not> is_revoked (cr_familyId r) s"
  using assms by (cases rule: consume_cases [of hash n now t s]) (auto simp: is_revoked_def)

lemma consume_spends:
  assumes "refresh_consume hash n now t s = (Inr r, s')" "map_of (rs_tokens s) (hash n) = None"
  shows "spent_token (hash t) (cr_familyId r) s'"
  using assms by (cases rule: consume_cases [of hash n now t s]) (auto simp: spent_token_def)

lemma spent_refused:
  assumes "spent_token (hash t) i s" "refresh_inv s"
  shows "\<exists>x s'. refresh_consume hash n now t s = (Inl x, s') \<and> x \<in> {FamilyRevoked, RefreshExpired, ReuseDetected} \<and>
    (x \<noteq> RefreshExpired \<longrightarrow> is_revoked i s')"
proof -
  from assms(1) obtain e where e: "map_of (rs_tokens s) (hash t) = Some e" "rt_used e" "rt_familyId e = i"
    by (auto simp: spent_token_def split: option.splits)
  then have fam: "map_of (rs_families s) i \<noteq> None" using assms(2) unfolding refresh_inv_def by blast
  show ?thesis
  proof (cases rule: consume_cases [of hash n now t s])
    case (refused x)
    then show ?thesis using e fam by (cases x) auto
  next
    case (reuse e')
    then show ?thesis using e by (auto simp: is_revoked_def split: option.splits)
  next
    case (rotated e' f)
    then show ?thesis using e by simp
  qed
qed

text \<open>C16. Refresh tokens rotate. A token that was exchanged once is never exchanged again, whatever the stores' operations
  do in between: presenting it again is refused, and unless it had expired by then, its family is revoked, so that no
  token of the family, the newest one included, is ever exchanged afterwards.\<close>

theorem refresh_rotation:
  assumes "refresh_inv s" "map_of (rs_tokens s) (hash n) = None" "refresh_consume hash n now t s = (Inr r, s1)" "refresh_run hash s1 s2"
  shows "\<exists>x s3. refresh_consume hash n2 now2 t s2 = (Inl x, s3) \<and> x \<in> {FamilyRevoked, RefreshExpired, ReuseDetected} \<and>
    (x \<noteq> RefreshExpired \<longrightarrow> (\<forall>s4 n4 now4 t4 r4. refresh_run hash s3 s4 \<longrightarrow>
       fst (refresh_consume hash n4 now4 t4 s4) = Inr r4 \<longrightarrow> cr_familyId r4 \<noteq> cr_familyId r))"
proof -
  have "refresh_step hash s s1" using refresh_step.consume [where hash = hash and n = n and s = s and now = now and t = t] assms(2,3) by simp
  then have inv: "refresh_inv s2" using step_inv assms(1) run_keeps(1) [OF assms(4)] by blast
  have "spent_token (hash t) (cr_familyId r) s2"
    using run_keeps(3) [OF assms(4) consume_spends [OF assms(3,2)]] .
  from spent_refused [where hash = hash and t = t and n = n2 and now = now2, OF this inv] obtain x s3 where x: "refresh_consume hash n2 now2 t s2 = (Inl x, s3)"
    "x \<in> {FamilyRevoked, RefreshExpired, ReuseDetected}" "x \<noteq> RefreshExpired \<longrightarrow> is_revoked (cr_familyId r) s3" by blast
  have "cr_familyId r4 \<noteq> cr_familyId r" if "x \<noteq> RefreshExpired" "refresh_run hash s3 s4"
      "fst (refresh_consume hash n4 now4 t4 s4) = Inr r4" for s4 n4 now4 t4 r4
    using run_keeps(2) [OF that(2)] x(3) that(1) consume_revoked [OF that(3)] by auto
  with x show ?thesis by blast
qed

definition ex_refresh :: refresh_store where
  "ex_refresh = snd (refresh_create id ''t0'' ''fam'' 0 ''ann'' ''sp'' (Some 1000) \<lparr>rs_families = [], rs_tokens = []\<rparr>)"

lemma ex_refresh_ok: "refresh_inv ex_refresh"
  by (simp add: ex_refresh_def refresh_inv_def refresh_create_def Let_def)

theorem refresh_rotation_witness:
  "\<exists>x s3. refresh_consume id ''t2'' 20 ''t0'' (snd (refresh_consume id ''t1'' 10 ''t0'' ex_refresh)) = (Inl x, s3) \<and>
    x \<in> {FamilyRevoked, RefreshExpired, ReuseDetected} \<and>
    (x \<noteq> RefreshExpired \<longrightarrow> (\<forall>s4 n4 now4 t4 r4. refresh_run id s3 s4 \<longrightarrow>
       fst (refresh_consume id n4 now4 t4 s4) = Inr r4 \<longrightarrow> cr_familyId r4 \<noteq> ''fam''))"
proof -
  have c: "map_of (rs_tokens ex_refresh) (id ''t1'') = None"
    "refresh_consume id ''t1'' 10 ''t0'' ex_refresh = (Inr \<lparr>cr_newToken = ''t1'', cr_userId = ''ann'', cr_clientId = ''sp'', cr_familyId = ''fam''\<rparr>,
       snd (refresh_consume id ''t1'' 10 ''t0'' ex_refresh))"
    by (simp_all add: ex_refresh_def refresh_create_def refresh_consume_def Let_def)
  show ?thesis using refresh_rotation [OF ex_refresh_ok c rtranclp.rtrancl_refl, of "''t2''" 20] by simp
qed

end
