(* ===== verification/TtlCache.thy ===== *)
theory TtlCache
  imports Prelude
begin

text \<open>
  The contract of the provider's caches, as a locale: a lookup answers from a stored entry until it expires, otherwise it
  fetches and stores what it fetched with a lifetime; a failed fetch stores nothing. The lemmas say that a cache only ever holds
  what was fetched, and that an answer is never older than its lifetime. The DNS resolver and the metadata
  resolver are interpretations.
\<close>

locale ttl_cache =
  fixes fetch :: "int \<Rightarrow> string \<Rightarrow> 'v option"
    and life :: "'v \<Rightarrow> int"
    and content :: "'e \<Rightarrow> 'v"
    and expiry :: "'e \<Rightarrow> int"
    and lookup :: "int \<Rightarrow> string \<Rightarrow> (string \<times> 'e) list \<Rightarrow> 'v option \<times> (string \<times> 'e) list"
  assumes hit: "map_of c k = Some e \<Longrightarrow> now < expiry e \<Longrightarrow> lookup now k c = (Some (content e), c)"
    and miss: "(\<And>e. map_of c k = Some e \<Longrightarrow> expiry e \<le> now) \<Longrightarrow> fetch now k = Some v \<Longrightarrow>
      \<exists>e. lookup now k c = (Some v, AList.update k e c) \<and> content e = v \<and> expiry e = now + life v"
    and failed: "(\<And>e. map_of c k = Some e \<Longrightarrow> expiry e \<le> now) \<Longrightarrow> fetch now k = None \<Longrightarrow> lookup now k c = (None, c)"
begin

definition honest :: "int \<Rightarrow> (string \<times> 'e) list \<Rightarrow> bool" where
  "honest now c = (\<forall>k e. map_of c k = Some e \<longrightarrow>
     (\<exists>t\<le>now. fetch t k = Some (content e) \<and> expiry e = t + life (content e)))"

lemma honest_empty: "honest now []"
  by (simp add: honest_def)

lemma honest_later: "honest now c \<Longrightarrow> now \<le> now' \<Longrightarrow> honest now' c"
  unfolding honest_def by (meson order_trans)

lemma honest_delete: "honest now c \<Longrightarrow> honest now (AList.delete k c)"
  by (auto simp: honest_def delete_conv' split: if_splits)

lemma lookup_cases:
  assumes "lookup now k c = (r, c')"
  obtains (cached) e where "map_of c k = Some e" "now < expiry e" "r = Some (content e)" "c' = c"
  | (fetched) v e where "fetch now k = Some v" "r = Some v" "c' = AList.update k e c" "content e = v" "expiry e = now + life v"
  | (failed_fetch) "fetch now k = None" "r = None" "c' = c"
proof (cases "\<exists>e. map_of c k = Some e \<and> now < expiry e")
  case True
  then obtain e where e: "map_of c k = Some e" "now < expiry e" by blast
  from hit [OF e] assms show thesis by (intro cached [OF e]) simp_all
next
  case False
  then have stale: "\<And>e. map_of c k = Some e \<Longrightarrow> expiry e \<le> now" by force
  show thesis
  proof (cases "fetch now k")
    case None
    then show thesis using failed [OF stale None] assms failed_fetch by simp
  next
    case (Some v)
    from miss [OF stale Some] obtain e where "lookup now k c = (Some v, AList.update k e c)" "content e = v" "expiry e = now + life v"
      by blast
    then show thesis using assms fetched [OF Some] by simp
  qed
qed

lemma lookup_honest:
  assumes "honest now0 c" "now0 \<le> now" "lookup now k c = (r, c')"
  shows "honest now c'"
  using assms(3)
proof (cases rule: lookup_cases)
  case (fetched v e)
  then show ?thesis using honest_later [OF assms(1,2)] by (auto simp: honest_def update_conv')
qed (use honest_later [OF assms(1,2)] in simp_all)

lemma lookup_recent:
  assumes "honest now0 c" "now0 \<le> now" "lookup now k c = (Some v, c')"
  shows "\<exists>t\<le>now. (t = now \<or> now < t + life v) \<and> fetch t k = Some v"
  using assms(3)
proof (cases rule: lookup_cases)
  case (cached e)
  then obtain t where "t \<le> now0" "fetch t k = Some (content e)" "expiry e = t + life (content e)"
    using assms(1) unfolding honest_def by blast
  then show ?thesis using cached assms(2) by (intro exI [of _ t]) auto
next
  case (fetched v e)
  then show ?thesis by auto
qed simp

lemma lookup_fails: "lookup now k c = (None, c') \<Longrightarrow> c' = c \<and> fetch now k = None"
  by (cases rule: lookup_cases) auto

end

end
