(* ===== verification/AuthFlows.thy ===== *)
theory AuthFlows
  imports AuthStores Json TtlCache
begin

text \<open>
  The identity provider's protocol steps of \<open>packages/auth/src/idp\<close>: \<open>authorize.ts\<close> (request checks and consent
  policy), \<open>client-metadata.ts\<close> (the service's published redirect addresses, cached), \<open>token.ts\<close> and \<open>refresh.ts\<close>
  (exchange of codes and refresh tokens for assertions), \<open>client-assertion.ts\<close> (authentication of agents by a signed
  statement). \<open>now\<close> is the time in milliseconds. Random values are arguments; a signed token is its claims. The functions
  of \<open>jose\<close>, the network and the \<open>URL\<close> class are parameters. \<open>oth\<close> is what other requests do during an \<open>await\<close>.
\<close>

section \<open>Authorization requests\<close>

record authorize_params =
  ap_client_id :: string
  ap_redirect_uri :: string
  ap_state :: string
  ap_code_challenge :: string
  ap_code_challenge_method :: string
  ap_nonce :: "string option"
  ap_response_type :: string
  ap_scope :: "string option"

definition validateAuthorizeRequest :: "authorize_params \<Rightarrow> string option" where
  "validateAuthorizeRequest p = (if ap_response_type p \<noteq> ''code'' then Some ''Unsupported response_type. Must be \"code\".''
     else if ap_code_challenge_method p \<noteq> ''S256'' then Some ''Unsupported code_challenge_method. Must be \"S256\".''
     else if ap_client_id p = [] \<or> ap_redirect_uri p = [] \<or> ap_state p = [] \<or> ap_code_challenge p = []
     then Some ''Missing required parameters.'' else None)"

datatype policy_decision = AllowIt | AskConsent | DenyIt

text \<open>\<open>extractDomain\<close> of this file: what follows the last \<open>@\<close>, in lower case.\<close>

definition user_domain :: "string \<Rightarrow> string" where
  "user_domain userId = (case last_index_of (CHR ''@'') userId of None \<Rightarrow> [] | Some at \<Rightarrow> to_lower (drop (Suc at) userId))"

definition evaluatePolicy :: "policy_mode option \<Rightarrow> string \<Rightarrow> string \<Rightarrow> consent_store \<Rightarrow> allow_store option \<Rightarrow> policy_decision" where
  "evaluatePolicy mode clientId userId consents allow = (case mode of
     Some ModeOpen \<Rightarrow> AllowIt
   | Some ModeDeny \<Rightarrow> DenyIt
   | Some ModeAllowlistAdmin \<Rightarrow> (case allow of None \<Rightarrow> DenyIt
       | Some a \<Rightarrow> if user_domain userId = [] then DenyIt else if isAllowed (user_domain userId) clientId a then AllowIt else DenyIt)
   | _ \<Rightarrow> (if hasConsent userId clientId consents then AllowIt else AskConsent))"

section \<open>Published metadata of a service\<close>

record client_metadata =
  cm_client_id :: string
  cm_client_name :: "string option"
  cm_redirect_uris :: "string list"
  cm_jwks_uri :: "string option"
  cm_client_uri :: "string option"
  cm_logo_uri :: "string option"
  cm_policy_uri :: "string option"
  cm_tos_uri :: "string option"
  cm_contacts :: "string list option"

definition MAX_DISPLAY_NAME :: nat where
  "MAX_DISPLAY_NAME = 200"

definition MAX_URL :: nat where
  "MAX_URL = 2000"

definition SAFE_URL_SCHEMES :: "string list" where
  "SAFE_URL_SCHEMES = [''https:'', ''http:'']"

definition sanitizeShortString :: "jsval \<Rightarrow> nat \<Rightarrow> string option" where
  "sanitizeShortString v m = (case v of JStr s \<Rightarrow> if js_trim s = [] then None else Some (take m (js_trim s)) | _ \<Rightarrow> None)"

text \<open>\<open>url\<close> is \<open>new URL\<close>: its protocol and its serialisation, \<open>None\<close> when it throws.\<close>

type_synonym url_parser = "string \<Rightarrow> (string \<times> string) option"

definition sanitizeHttpUrl :: "url_parser \<Rightarrow> jsval \<Rightarrow> string option" where
  "sanitizeHttpUrl url v = (case v of
     JStr s \<Rightarrow> if MAX_URL < length s then None else (case url s of None \<Rightarrow> None
       | Some (protocol, href) \<Rightarrow> if protocol \<in> set SAFE_URL_SCHEMES then Some href else None)
   | _ \<Rightarrow> None)"

definition strings_in :: "jsval list \<Rightarrow> string list" where
  "strings_in xs = List.map_filter as_string xs"

definition isValidMetadata :: "jsval \<Rightarrow> bool" where
  "isValidMetadata v = (case v of
     JObj ob \<Rightarrow> as_string (member ob ''client_id'') \<noteq> None \<and>
       (case member ob ''redirect_uris'' of JArr xs \<Rightarrow> list_all (\<lambda>x. as_string x \<noteq> None) xs | _ \<Rightarrow> False)
   | _ \<Rightarrow> False)"

definition sanitizeMetadata :: "url_parser \<Rightarrow> jsval jsobj \<Rightarrow> client_metadata" where
  "sanitizeMetadata url ob = \<lparr>cm_client_id = nullish (as_string (member ob ''client_id'')) [],
     cm_client_name = sanitizeShortString (member ob ''client_name'') MAX_DISPLAY_NAME,
     cm_redirect_uris = strings_in (nullish (as_array (member ob ''redirect_uris'')) []),
     cm_jwks_uri = sanitizeHttpUrl url (member ob ''jwks_uri''), cm_client_uri = sanitizeHttpUrl url (member ob ''client_uri''),
     cm_logo_uri = sanitizeHttpUrl url (member ob ''logo_uri''), cm_policy_uri = sanitizeHttpUrl url (member ob ''policy_uri''),
     cm_tos_uri = sanitizeHttpUrl url (member ob ''tos_uri''),
     cm_contacts = map_option (\<lambda>xs. map (take MAX_DISPLAY_NAME) (strings_in xs)) (as_array (member ob ''contacts''))\<rparr>"

definition looksLikeHostname :: "url_parser \<Rightarrow> string \<Rightarrow> bool" where
  "looksLikeHostname url clientId = (CHR ''.'' \<in> set clientId \<and> url (''https://'' @ clientId @ ''/'') \<noteq> None)"

definition metadata_urls :: "string \<Rightarrow> string list" where
  "metadata_urls clientId = [''https://'' @ clientId @ ''/.well-known/oauth-client-metadata'',
     ''https://'' @ clientId @ ''/.well-known/sp-manifest.json'']"

text \<open>The registered public clients are their own entries (a client id that names a member of \<open>Object.prototype\<close> is left out).
  \<open>web now u\<close> is what a fetch of \<open>u\<close> at \<open>now\<close> returns, \<open>None\<close> when it fails.\<close>

type_synonym web = "int \<Rightarrow> string \<Rightarrow> jsval option"

fun first_valid :: "url_parser \<Rightarrow> web \<Rightarrow> int \<Rightarrow> string list \<Rightarrow> client_metadata option" where
  "first_valid url net now [] = None"
| "first_valid url net now (u # us) = (case net now u of
     Some (JObj ob) \<Rightarrow> if isValidMetadata (JObj ob) then Some (sanitizeMetadata url ob) else first_valid url net now us
   | _ \<Rightarrow> first_valid url net now us)"

definition fetchMetadata :: "url_parser \<Rightarrow> web \<Rightarrow> int \<Rightarrow> string \<Rightarrow> client_metadata option" where
  "fetchMetadata url net now clientId = first_valid url net now (metadata_urls clientId)"

record cache_entry =
  ca_metadata :: "client_metadata option"
  ca_expiresAt :: int

type_synonym metadata_cache = "(string \<times> cache_entry) list"

record resolver_options =
  ro_cacheTtlMs :: "int option"
  ro_publicClients :: "(string \<times> jsval jsobj) list"

definition fresh_metadata :: "url_parser \<Rightarrow> web \<Rightarrow> resolver_options \<Rightarrow> int \<Rightarrow> string \<Rightarrow> client_metadata option" where
  "fresh_metadata url net opts now clientId = (if \<not> looksLikeHostname url clientId
     then map_option (sanitizeMetadata url) (map_of (ro_publicClients opts) clientId)
     else fetchMetadata url net now clientId)"

definition resolve_metadata :: "url_parser \<Rightarrow> web \<Rightarrow> resolver_options \<Rightarrow> int \<Rightarrow> string \<Rightarrow> metadata_cache
    \<Rightarrow> client_metadata option \<times> metadata_cache" where
  "resolve_metadata url net opts now clientId c = (let refresh = (let m = fresh_metadata url net opts now clientId in
       (m, AList.update clientId \<lparr>ca_metadata = m, ca_expiresAt = now + nullish (ro_cacheTtlMs opts) 300000\<rparr> c)) in
     case map_of c clientId of None \<Rightarrow> refresh
     | Some e \<Rightarrow> if now < ca_expiresAt e then (ca_metadata e, c) else refresh)"

datatype metadata_mode = Strict | Permissive

definition check_redirect :: "client_metadata option \<Rightarrow> string \<Rightarrow> metadata_mode \<Rightarrow> string option" where
  "check_redirect m redirectUri mode = (case m of
     None \<Rightarrow> (if mode = Strict then Some ''invalid_client'' else None)
   | Some x \<Rightarrow> if redirectUri \<in> set (cm_redirect_uris x) then None else Some ''invalid_request'')"

definition validateRedirectUri :: "url_parser \<Rightarrow> web \<Rightarrow> resolver_options \<Rightarrow> int \<Rightarrow> string \<Rightarrow> string \<Rightarrow> metadata_mode \<Rightarrow> metadata_cache
    \<Rightarrow> string option \<times> metadata_cache" where
  "validateRedirectUri url net opts now clientId redirectUri mode c = (case resolve_metadata url net opts now clientId c of
     (m, c') \<Rightarrow> (check_redirect m redirectUri mode, c'))"

section \<open>Assertions\<close>

datatype act_claim = ActType actor_type | ActDelegate string

record assertion =
  an_iss :: string
  an_sub :: string
  an_aud :: string
  an_act :: act_claim
  an_iat :: int
  an_exp :: int
  an_jti :: string
  an_nonce :: "string option"
  an_delegation_grant :: "string option"
  an_scope :: "string list option"
  an_delegate :: "delegate_claim option"
  an_email :: "string option"
  an_name :: "string option"
  an_approver :: "string option"
  an_authorization_details :: "auth_detail list option"

record claims_input =
  ci_sub :: string
  ci_aud :: string
  ci_nonce :: "string option"
  ci_act :: "actor_type option"
  ci_delegate :: "delegate_claim option"
  ci_email :: "string option"
  ci_name :: "string option"
  ci_approver :: "string option"
  ci_authorization_details :: "auth_detail list option"
  ci_delegation_act :: "string option"
  ci_delegation_grant :: "string option"
  ci_scope :: "string list option"

definition truthy_opt :: "string option \<Rightarrow> string option" where
  "truthy_opt x = (if truthy_str x then x else None)"

definition nonempty_opt :: "'a list option \<Rightarrow> 'a list option" where
  "nonempty_opt x = (if x = Some [] then None else x)"

definition issueAssertion :: "int \<Rightarrow> string \<Rightarrow> string \<Rightarrow> claims_input \<Rightarrow> assertion" where
  "issueAssertion now jti issuer c = (let t = now div 1000 in
     \<lparr>an_iss = issuer, an_sub = ci_sub c, an_aud = ci_aud c,
      an_act = (case ci_delegation_act c of Some d \<Rightarrow> ActDelegate d | None \<Rightarrow> ActType (nullish (ci_act c) Human)),
      an_iat = t, an_exp = t + 300, an_jti = jti, an_nonce = truthy_opt (ci_nonce c),
      an_delegation_grant = truthy_opt (ci_delegation_grant c), an_scope = ci_scope c, an_delegate = ci_delegate c,
      an_email = truthy_opt (ci_email c), an_name = truthy_opt (ci_name c), an_approver = truthy_opt (ci_approver c),
      an_authorization_details = nonempty_opt (ci_authorization_details c)\<rparr>)"

record extra_claims =
  xc_email :: "string option"
  xc_name :: "string option"
  xc_approver :: "string option"

definition no_extra :: extra_claims where
  "no_extra = \<lparr>xc_email = None, xc_name = None, xc_approver = None\<rparr>"

definition plain_claims :: "string \<Rightarrow> string \<Rightarrow> extra_claims \<Rightarrow> claims_input" where
  "plain_claims sub aud x = \<lparr>ci_sub = sub, ci_aud = aud, ci_nonce = None, ci_act = None, ci_delegate = None,
     ci_email = xc_email x, ci_name = xc_name x, ci_approver = xc_approver x, ci_authorization_details = None,
     ci_delegation_act = None, ci_delegation_grant = None, ci_scope = None\<rparr>"

section \<open>The provider's state\<close>

record idp =
  ip_codes :: code_store
  ip_consents :: consent_store
  ip_allow :: "allow_store option"
  ip_jtis :: jti_store
  ip_refresh :: refresh_store
  ip_users :: user_store
  ip_ssh :: ssh_store
  ip_metadata :: metadata_cache

section \<open>Exchanging a code\<close>

text \<open>\<open>scope.split(/\s+/).filter(Boolean)\<close>\<close>

fun split_space :: "string \<Rightarrow> string list" where
  "split_space [] = [[]]"
| "split_space (c # cs) = (if is_space c then [] # split_space cs
     else (case split_space cs of [] \<Rightarrow> [[c]] | p # ps \<Rightarrow> (c # p) # ps))"

definition scope_words :: "string option \<Rightarrow> string list" where
  "scope_words scope = filter (\<lambda>w. w \<noteq> []) (split_space (nullish scope []))"

record exchange_params =
  tp_grant_type :: string
  tp_code :: string
  tp_code_verifier :: string
  tp_redirect_uri :: string
  tp_client_id :: string

datatype flow_error = UnsupportedGrantType | InvalidCode | ClientIdMismatch | RedirectUriMismatch | PkceFailed
  | RefreshFailed refresh_error | RefreshClientMismatch string string | InactiveUser
  | BadAssertion string | MissingIss | MissingJti | UnknownAgent | JtiReplay

text \<open>\<open>id_token\<close>, \<open>access_token\<close> and \<open>assertion\<close> of the result are the same token.\<close>

record exchange_result =
  xr_assertion :: assertion
  xr_token_type :: string
  xr_expires_in :: int
  xr_refresh_token :: "string option"
  xr_authorization_details :: "auth_detail list option"

definition code_claims :: "code_entry \<Rightarrow> string \<Rightarrow> extra_claims \<Rightarrow> claims_input" where
  "code_claims e clientId x = (plain_claims (ce_userId e) clientId x)\<lparr>ci_nonce := ce_nonce e, ci_act := ce_act e,
     ci_delegate := ce_delegate e, ci_authorization_details := ce_authorizationDetails e,
     ci_delegation_act := ce_delegationAct e, ci_delegation_grant := ce_delegationGrant e\<rparr>"

text \<open>\<open>challenge\<close> is \<open>generateCodeChallenge\<close>; \<open>resolve\<close> reads the user's claims; \<open>withRefresh\<close> says whether a refresh
  token store was passed; \<open>token\<close> and \<open>family\<close> are the random values of a new refresh token.\<close>

definition handleTokenExchange :: "(string \<Rightarrow> string) \<Rightarrow> (string \<Rightarrow> string option \<Rightarrow> idp \<Rightarrow> extra_claims) option \<Rightarrow> bool \<Rightarrow> (string \<Rightarrow> string)
    \<Rightarrow> int \<Rightarrow> string \<Rightarrow> string \<Rightarrow> string \<Rightarrow> string \<Rightarrow> (idp \<Rightarrow> idp) \<Rightarrow> exchange_params \<Rightarrow> idp \<Rightarrow> (flow_error + exchange_result) \<times> idp" where
  "handleTokenExchange challenge resolve withRefresh hash now jti token family issuer oth p s =
     (if tp_grant_type p \<noteq> ''authorization_code'' then (Inl UnsupportedGrantType, s)
      else case code_find now (tp_code p) (ip_codes s) of
        (None, codes) \<Rightarrow> (Inl InvalidCode, s\<lparr>ip_codes := codes\<rparr>)
      | (Some e, _) \<Rightarrow>
          if ce_clientId e \<noteq> tp_client_id p then (Inl ClientIdMismatch, s)
          else if ce_redirectUri e \<noteq> tp_redirect_uri p then (Inl RedirectUriMismatch, s)
          else let s1 = oth s in
            if challenge (tp_code_verifier p) \<noteq> ce_codeChallenge e then (Inl PkceFailed, s1)
            else let s2 = s1\<lparr>ip_codes := code_delete (tp_code p) (ip_codes s1)\<rparr>;
              x = (case resolve of None \<Rightarrow> no_extra | Some f \<Rightarrow> f (ce_userId e) (ce_scope e) s2);
              r = \<lparr>xr_assertion = issueAssertion now jti issuer (code_claims e (tp_client_id p) x), xr_token_type = ''Bearer'',
                xr_expires_in = 300, xr_refresh_token = None, xr_authorization_details = nonempty_opt (ce_authorizationDetails e)\<rparr> in
              if ''offline_access'' \<in> set (scope_words (ce_scope e)) \<and> withRefresh
              then (Inr (r\<lparr>xr_refresh_token := Some token\<rparr>),
                s2\<lparr>ip_refresh := snd (refresh_create hash token family now (ce_userId e) (tp_client_id p) None (ip_refresh s2))\<rparr>)
              else (Inr r, s2))"

section \<open>Exchanging a refresh token\<close>

definition handleRefreshGrant :: "(string \<Rightarrow> string option \<Rightarrow> idp \<Rightarrow> extra_claims) option \<Rightarrow> (string \<Rightarrow> idp \<Rightarrow> bool) option \<Rightarrow> (string \<Rightarrow> string)
    \<Rightarrow> int \<Rightarrow> string \<Rightarrow> string \<Rightarrow> string \<Rightarrow> string \<Rightarrow> string \<Rightarrow> string \<Rightarrow> idp \<Rightarrow> (flow_error + exchange_result) \<times> idp" where
  "handleRefreshGrant resolve isUserActive hash now newToken jti nonce issuer refreshToken clientId s =
     (case refresh_consume hash newToken now refreshToken (ip_refresh s) of
        (Inl e, r) \<Rightarrow> (Inl (RefreshFailed e), s\<lparr>ip_refresh := r\<rparr>)
      | (Inr c, r) \<Rightarrow> let s1 = s\<lparr>ip_refresh := r\<rparr> in
          if cr_clientId c \<noteq> clientId then (Inl (RefreshClientMismatch (cr_clientId c) clientId), s1)
          else if (case isUserActive of None \<Rightarrow> False | Some f \<Rightarrow> \<not> f (cr_userId c) s1)
          then (Inl InactiveUser, s1\<lparr>ip_refresh := revokeFamily (cr_familyId c) r\<rparr>)
          else let x = (case resolve of None \<Rightarrow> no_extra | Some f \<Rightarrow> f (cr_userId c) (Some ''openid email profile'') s1) in
            (Inr \<lparr>xr_assertion = issueAssertion now jti issuer ((plain_claims (cr_userId c) clientId x)\<lparr>ci_nonce := Some nonce\<rparr>),
               xr_token_type = ''Bearer'', xr_expires_in = 300, xr_refresh_token = Some (cr_newToken c),
               xr_authorization_details = None\<rparr>, s1))"

section \<open>Authentication of an agent\<close>

record jwt_claims =
  jc_iss :: "string option"
  jc_sub :: "string option"
  jc_jti :: "string option"
  jc_exp :: "int option"

record client_identity =
  cl_sub :: string
  cl_iss :: string

text \<open>\<open>decode\<close> is \<open>decodeJwt\<close>; \<open>verify token key audience tolerance now\<close> is \<open>jwtVerify\<close> with these options.\<close>

type_synonym jwt_decoder = "string \<Rightarrow> string + jwt_claims"
type_synonym 'k jwt_verifier = "string \<Rightarrow> 'k \<Rightarrow> string \<Rightarrow> int \<Rightarrow> int \<Rightarrow> string + jwt_claims"

definition jti_ttl :: "int \<Rightarrow> jwt_claims \<Rightarrow> int" where
  "jti_ttl now c = max (nullish (jc_exp c) 0 - now div 1000) 60 * 1000"

definition validateClientAssertion :: "jwt_decoder \<Rightarrow> 'k jwt_verifier \<Rightarrow> (string \<Rightarrow> idp \<Rightarrow> 'k option) \<Rightarrow> int \<Rightarrow> string \<Rightarrow> string
    \<Rightarrow> idp \<Rightarrow> (flow_error + client_identity) \<times> idp" where
  "validateClientAssertion decode verify resolveKey now token audience s = (case decode token of
     Inl m \<Rightarrow> (Inl (BadAssertion m), s)
   | Inr c \<Rightarrow> if \<not> truthy_str (jc_iss c) then (Inl MissingIss, s)
       else if \<not> truthy_str (jc_jti c) then (Inl MissingJti, s)
       else (case resolveKey (the (jc_iss c)) s of None \<Rightarrow> (Inl UnknownAgent, s)
         | Some key \<Rightarrow> (case verify token key audience 5 now of Inl m \<Rightarrow> (Inl (BadAssertion m), s)
             | Inr p \<Rightarrow> (case hasBeenUsed now (nullish (jc_jti p) ''undefined'') (ip_jtis s) of
                 (True, j) \<Rightarrow> (Inl JtiReplay, s\<lparr>ip_jtis := j\<rparr>)
               | (False, j) \<Rightarrow> (Inr \<lparr>cl_sub = nullish (jc_sub p) (nullish (jc_iss p) ''undefined''), cl_iss = nullish (jc_iss p) ''undefined''\<rparr>,
                   s\<lparr>ip_jtis := markUsed now (nullish (jc_jti p) ''undefined'') (jti_ttl now p) j\<rparr>)))))"

section \<open>Redirect addresses\<close>

text \<open>The resolver is the cache of the contract: what it fetches is the fresh metadata, absent ones included.\<close>

definition metadata_lookup :: "url_parser \<Rightarrow> web \<Rightarrow> resolver_options \<Rightarrow> int \<Rightarrow> string \<Rightarrow> metadata_cache
    \<Rightarrow> client_metadata option option \<times> metadata_cache" where
  "metadata_lookup url net opts now clientId c = map_prod Some id (resolve_metadata url net opts now clientId c)"

interpretation metadata: ttl_cache "\<lambda>now k. Some (fresh_metadata url net opts now k)" "\<lambda>_. nullish (ro_cacheTtlMs opts) 300000"
    ca_metadata ca_expiresAt "metadata_lookup url net opts" for url net opts
  by unfold_locales (auto simp: metadata_lookup_def resolve_metadata_def Let_def split: option.split)

abbreviation cache_ok :: "url_parser \<Rightarrow> web \<Rightarrow> resolver_options \<Rightarrow> int \<Rightarrow> metadata_cache \<Rightarrow> bool" where
  "cache_ok \<equiv> metadata.honest"

lemma resolve_ok:
  assumes "cache_ok url net opts now0 c" "now0 \<le> now" "resolve_metadata url net opts now clientId c = (m, c')"
  shows "cache_ok url net opts now c'"
    "\<exists>t\<le>now. (t = now \<or> now < t + nullish (ro_cacheTtlMs opts) 300000) \<and> m = fresh_metadata url net opts t clientId"
proof -
  have l: "metadata_lookup url net opts now clientId c = (Some m, c')" using assms(3) by (simp add: metadata_lookup_def)
  show "cache_ok url net opts now c'" by (rule metadata.lookup_honest [OF assms(1,2) l])
  show "\<exists>t\<le>now. (t = now \<or> now < t + nullish (ro_cacheTtlMs opts) 300000) \<and> m = fresh_metadata url net opts t clientId"
    using metadata.lookup_recent [OF assms(1,2) l] by auto
qed

text \<open>What a service has published at time \<open>t\<close>: a registered public client, or one of the two documents of its host.\<close>

definition published :: "url_parser \<Rightarrow> web \<Rightarrow> resolver_options \<Rightarrow> int \<Rightarrow> string \<Rightarrow> jsval jsobj \<Rightarrow> bool" where
  "published url net opts t clientId ob = (if looksLikeHostname url clientId
     then \<exists>u \<in> set (metadata_urls clientId). net t u = Some (JObj ob) else map_of (ro_publicClients opts) clientId = Some ob)"

lemma first_valid_published: "first_valid url net now us = Some m \<Longrightarrow> \<exists>u\<in>set us. \<exists>ob. net now u = Some (JObj ob) \<and> m = sanitizeMetadata url ob"
  by (induction us rule: list.induct) (auto split: option.splits jsval.splits if_splits)

lemma fresh_published:
  assumes "fresh_metadata url net opts t clientId = Some m"
  obtains ob where "published url net opts t clientId ob" "m = sanitizeMetadata url ob"
  using assms by (auto simp: fresh_metadata_def fetchMetadata_def published_def split: if_splits dest!: first_valid_published)

lemma in_strings_in [simp]: "s \<in> set (strings_in xs) \<longleftrightarrow> JStr s \<in> set xs"
proof -
  have "as_string v = Some s \<longleftrightarrow> v = JStr s" for v by (cases v) auto
  then show ?thesis by (force simp: strings_in_def List.map_filter_def)
qed

text \<open>In strict mode a code is only ever sent to an address the service itself published: when the check of the
  redirect address passes, the very same address stood in the service's document (or in the entry of the registered public
  client) at most one cache lifetime before; and the cache stays a record of what was published.\<close>

theorem registered_redirect:
  assumes "cache_ok url net opts now0 c" "now0 \<le> now"
    and "validateRedirectUri url net opts now clientId redirectUri Strict c = (None, c')"
  shows "cache_ok url net opts now c' \<and> (\<exists>t ob uris. t \<le> now \<and> (t = now \<or> now < t + nullish (ro_cacheTtlMs opts) 300000) \<and>
    published url net opts t clientId ob \<and> member ob ''redirect_uris'' = JArr uris \<and> JStr redirectUri \<in> set uris)"
proof -
  obtain m where m: "resolve_metadata url net opts now clientId c = (m, c')" "check_redirect m redirectUri Strict = None"
    using assms(3) by (auto simp: validateRedirectUri_def split: prod.splits)
  from resolve_ok(2) [OF assms(1,2) m(1)] obtain t where t: "t \<le> now" "t = now \<or> now < t + nullish (ro_cacheTtlMs opts) 300000"
    "m = fresh_metadata url net opts t clientId" by blast
  from m(2) obtain x where x: "m = Some x" "redirectUri \<in> set (cm_redirect_uris x)"
    by (auto simp: check_redirect_def split: option.splits if_splits)
  from fresh_published [OF t(3) [symmetric, unfolded x(1)]] obtain ob where
    ob: "published url net opts t clientId ob" "x = sanitizeMetadata url ob" by blast
  from x(2) have "redirectUri \<in> set (strings_in (nullish (as_array (member ob ''redirect_uris'')) []))"
    unfolding ob(2) by (simp add: sanitizeMetadata_def)
  then obtain uris where "member ob ''redirect_uris'' = JArr uris" "JStr redirectUri \<in> set uris"
    by (cases "member ob ''redirect_uris''") auto
  then show ?thesis using resolve_ok(1) [OF assms(1,2) m(1)] t(1,2) ob(1) by blast
qed

definition ex_url :: url_parser where
  "ex_url u = (if starts_with u ''https://'' then Some (''https:'', u) else None)"

definition ex_web :: web where
  "ex_web t u = (if u = ''https://sp.io/.well-known/oauth-client-metadata'' \<and> t < 500
     then Some (JObj [(''client_id'', JStr ''sp.io''), (''redirect_uris'', JArr [JStr ''https://sp.io/cb''])]) else None)"

definition ex_options :: resolver_options where
  "ex_options = \<lparr>ro_cacheTtlMs = Some 1000, ro_publicClients = []\<rparr>"

theorem registered_redirect_witness:
  "\<exists>t ob uris. t \<le> 900 \<and> (t = 900 \<or> 900 < t + 1000) \<and>
    published ex_url ex_web ex_options t ''sp.io'' ob \<and> member ob ''redirect_uris'' = JArr uris \<and> JStr ''https://sp.io/cb'' \<in> set uris"
proof -
  have ok: "cache_ok ex_url ex_web ex_options 0 []" by (rule metadata.honest_empty)
  define c where "c = snd (validateRedirectUri ex_url ex_web ex_options 100 ''sp.io'' ''https://sp.io/cb'' Strict [])"
  have first: "validateRedirectUri ex_url ex_web ex_options 100 ''sp.io'' ''https://sp.io/cb'' Strict [] = (None, c)"
    unfolding c_def by code_simp
  have cached: "validateRedirectUri ex_url ex_web ex_options 900 ''sp.io'' ''https://sp.io/cb'' Strict c = (None, c)"
    unfolding c_def by code_simp
  have "cache_ok ex_url ex_web ex_options 100 c"
    using resolve_ok(1) [OF ok, of 100] first by (auto simp: validateRedirectUri_def split: prod.splits)
  from registered_redirect [OF this _ cached] show ?thesis by (simp add: ex_options_def)
qed

text \<open>What the consent page shows of a service cannot carry a script address or flood the page: for a URL class whose
  serialisation parses back to itself, every link of resolved metadata has the scheme \<open>https:\<close> or \<open>http:\<close>, and a name is
  not empty and at most 200 characters long.\<close>

theorem metadata_displayable:
  assumes "\<And>x p h. url x = Some (p, h) \<Longrightarrow> url h = Some (p, h)"
    and "fresh_metadata url net opts now clientId = Some m"
    and "link \<in> {cm_jwks_uri m, cm_client_uri m, cm_logo_uri m, cm_policy_uri m, cm_tos_uri m}"
  shows "(\<forall>h. link = Some h \<longrightarrow> (\<exists>p. url h = Some (p, h) \<and> (p = ''https:'' \<or> p = ''http:''))) \<and>
    (\<forall>n. cm_client_name m = Some n \<longrightarrow> n \<noteq> [] \<and> length n \<le> 200)"
proof -
  from fresh_published [OF assms(2)] obtain ob where m: "m = sanitizeMetadata url ob" by blast
  have safe: "\<exists>p. url h = Some (p, h) \<and> (p = ''https:'' \<or> p = ''http:'')" if "sanitizeHttpUrl url v = Some h" for v h
    using that assms(1) by (auto simp: sanitizeHttpUrl_def SAFE_URL_SCHEMES_def split: jsval.splits option.splits if_splits)
  have "n \<noteq> [] \<and> length n \<le> 200" if "sanitizeShortString v MAX_DISPLAY_NAME = Some n" for v n
    using that by (auto simp: sanitizeShortString_def MAX_DISPLAY_NAME_def split: jsval.splits if_splits)
  then show ?thesis using safe assms(3) unfolding m by (auto simp: sanitizeMetadata_def)
qed

theorem metadata_displayable_witness:
  "\<exists>p. ex_url ''https://sp.io/'' = Some (p, ''https://sp.io/'') \<and> (p = ''https:'' \<or> p = ''http:'')"
proof -
  define ob where "ob = [(''client_id'', JStr ''ape''), (''redirect_uris'', JArr []), (''tos_uri'', JStr ''https://sp.io/'')]"
  have "fresh_metadata ex_url ex_web \<lparr>ro_cacheTtlMs = None, ro_publicClients = [(''ape'', ob)]\<rparr> 0 ''ape'' = Some (sanitizeMetadata ex_url ob)"
    unfolding ob_def by code_simp
  moreover have "cm_tos_uri (sanitizeMetadata ex_url ob) = Some ''https://sp.io/''" unfolding ob_def by code_simp
  moreover have "ex_url h = Some (p, h)" if "ex_url x = Some (p, h)" for x p h
    using that by (auto simp: ex_url_def split: if_splits)
  ultimately show ?thesis
    using metadata_displayable [of ex_url ex_web "\<lparr>ro_cacheTtlMs = None, ro_publicClients = [(''ape'', ob)]\<rparr>" 0 "''ape''"
      "sanitizeMetadata ex_url ob" "Some ''https://sp.io/''"] by auto
qed
section \<open>Codes and refresh tokens\<close>

lemma code_find_parts:
  assumes "code_find now c s = (Some e, s')"
  shows "map_of s c = Some e" "now \<le> ce_expiresAt e" "s' = s"
  using assms by (auto simp: code_find_def split: option.splits if_splits)

lemma code_find_gone: "map_of s c = None \<Longrightarrow> code_find now c s = (None, s)"
  by (simp add: code_find_def)

lemma deleted_code [simp]: "map_of (code_delete c s) c = None"
  by (simp add: code_delete_def delete_conv)

lemma code_assertion:
  "an_sub (issueAssertion now jti issuer (code_claims e c x)) = ce_userId e" "an_aud (issueAssertion now jti issuer (code_claims e c x)) = c"
  "an_iss (issueAssertion now jti issuer (code_claims e c x)) = issuer" "an_exp (issueAssertion now jti issuer (code_claims e c x)) = now div 1000 + 300"
  "an_act (issueAssertion now jti issuer (code_claims e c x)) =
    (case ce_delegationAct e of Some d \<Rightarrow> ActDelegate d | None \<Rightarrow> ActType (nullish (ce_act e) Human))"
  by (simp_all add: issueAssertion_def code_claims_def plain_claims_def Let_def split: option.split)

lemma exchange_entry:
  assumes "handleTokenExchange challenge resolve withRefresh hash now jti token family issuer oth p s = (Inr r, s')"
  shows "\<exists>e. map_of (ip_codes s) (tp_code p) = Some e \<and> now \<le> ce_expiresAt e \<and> ce_clientId e = tp_client_id p \<and>
    ce_redirectUri e = tp_redirect_uri p \<and> ce_codeChallenge e = challenge (tp_code_verifier p) \<and>
    an_sub (xr_assertion r) = ce_userId e \<and> an_aud (xr_assertion r) = ce_clientId e \<and> an_iss (xr_assertion r) = issuer \<and>
    an_act (xr_assertion r) = (case ce_delegationAct e of Some d \<Rightarrow> ActDelegate d | None \<Rightarrow> ActType (nullish (ce_act e) Human)) \<and>
    an_exp (xr_assertion r) = now div 1000 + 300"
    and "map_of (ip_codes s') (tp_code p) = None"
proof -
  have g: "tp_grant_type p = ''authorization_code''"
    using assms by (simp add: handleTokenExchange_def split: if_splits)
  obtain e c where e: "code_find now (tp_code p) (ip_codes s) = (Some e, c)"
    using assms g by (cases "code_find now (tp_code p) (ip_codes s)"; cases "fst (code_find now (tp_code p) (ip_codes s))")
      (auto simp: handleTokenExchange_def)
  have ok: "ce_clientId e = tp_client_id p" "ce_redirectUri e = tp_redirect_uri p" "ce_codeChallenge e = challenge (tp_code_verifier p)"
    using assms g e by (auto simp: handleTokenExchange_def Let_def split: if_splits)
  show "map_of (ip_codes s') (tp_code p) = None"
    using assms g e ok by (auto simp: handleTokenExchange_def Let_def split: if_splits)
  obtain x where a: "xr_assertion r = issueAssertion now jti issuer (code_claims e (tp_client_id p) x)"
    using assms g e ok by (auto simp: handleTokenExchange_def Let_def split: if_splits)
  show "\<exists>e. map_of (ip_codes s) (tp_code p) = Some e \<and> now \<le> ce_expiresAt e \<and> ce_clientId e = tp_client_id p \<and>
    ce_redirectUri e = tp_redirect_uri p \<and> ce_codeChallenge e = challenge (tp_code_verifier p) \<and>
    an_sub (xr_assertion r) = ce_userId e \<and> an_aud (xr_assertion r) = ce_clientId e \<and> an_iss (xr_assertion r) = issuer \<and>
    an_act (xr_assertion r) = (case ce_delegationAct e of Some d \<Rightarrow> ActDelegate d | None \<Rightarrow> ActType (nullish (ce_act e) Human)) \<and>
    an_exp (xr_assertion r) = now div 1000 + 300"
    using code_find_parts [OF e] ok unfolding a by (simp add: code_assertion)
qed

text \<open>What an exchanged code proves. An exchange only succeeds for a stored code that has not expired, presented by the
  client and with the redirect address it was issued for, with the verifier of its challenge; the assertion then names the
  user of the code and that client, with the delegation of the code, and lives five minutes; and, whatever other requests did
  meanwhile, the code is gone and no later exchange of it succeeds unless it is issued again.\<close>

theorem code_exchange:
  assumes "handleTokenExchange challenge resolve withRefresh hash now jti token family issuer oth p s = (Inr r, s')"
  shows "(\<exists>e. map_of (ip_codes s) (tp_code p) = Some e \<and> now \<le> ce_expiresAt e \<and> ce_clientId e = tp_client_id p \<and>
    ce_redirectUri e = tp_redirect_uri p \<and> ce_codeChallenge e = challenge (tp_code_verifier p) \<and>
    an_sub (xr_assertion r) = ce_userId e \<and> an_aud (xr_assertion r) = ce_clientId e \<and> an_iss (xr_assertion r) = issuer \<and>
    an_act (xr_assertion r) = (case ce_delegationAct e of Some d \<Rightarrow> ActDelegate d | None \<Rightarrow> ActType (nullish (ce_act e) Human)) \<and>
    an_exp (xr_assertion r) = now div 1000 + 300) \<and>
    (\<forall>s2 now2 p2 oth2 hash2 jti2 t2 f2. map_of (ip_codes s2) (tp_code p) = map_of (ip_codes s') (tp_code p) \<longrightarrow> tp_code p2 = tp_code p \<longrightarrow>
       tp_grant_type p2 = ''authorization_code'' \<longrightarrow>
       fst (handleTokenExchange challenge resolve withRefresh hash2 now2 jti2 t2 f2 issuer oth2 p2 s2) = Inl InvalidCode)"
proof -
  have "fst (handleTokenExchange challenge resolve withRefresh hash2 now2 jti2 t2 f2 issuer oth2 p2 s2) = Inl InvalidCode"
    if "map_of (ip_codes s2) (tp_code p) = map_of (ip_codes s') (tp_code p)" "tp_code p2 = tp_code p"
      "tp_grant_type p2 = ''authorization_code''" for s2 now2 p2 oth2 hash2 jti2 t2 f2
    using that exchange_entry(2) [OF assms] by (simp add: handleTokenExchange_def code_find_gone)
  then show ?thesis using exchange_entry(1) [OF assms] by blast
qed

definition ex_idp :: idp where
  "ex_idp = \<lparr>ip_codes = [(''c1'', \<lparr>ce_code = ''c1'', ce_clientId = ''sp'', ce_redirectUri = ''https://sp.io/cb'', ce_codeChallenge = ''v'',
     ce_userId = ''ann@x.io'', ce_nonce = None, ce_expiresAt = 60000, ce_act = None, ce_delegate = None, ce_scope = Some ''openid offline_access'',
     ce_authorizationDetails = None, ce_delegationAct = None, ce_delegationGrant = None\<rparr>)],
   ip_consents = [], ip_allow = None, ip_jtis = [], ip_refresh = \<lparr>rs_families = [], rs_tokens = []\<rparr>, ip_users = [], ip_ssh = [], ip_metadata = []\<rparr>"

definition ex_exchange :: exchange_params where
  "ex_exchange = \<lparr>tp_grant_type = ''authorization_code'', tp_code = ''c1'', tp_code_verifier = ''v'', tp_redirect_uri = ''https://sp.io/cb'',
     tp_client_id = ''sp''\<rparr>"

theorem code_exchange_witness:
  "an_sub (xr_assertion (projr (fst (handleTokenExchange id None True id 1000 ''j'' ''t'' ''f'' ''https://idp'' id ex_exchange ex_idp)))) = ''ann@x.io''"
proof -
  have c: "handleTokenExchange id None True id 1000 ''j'' ''t'' ''f'' ''https://idp'' id ex_exchange ex_idp =
    (Inr (projr (fst (handleTokenExchange id None True id 1000 ''j'' ''t'' ''f'' ''https://idp'' id ex_exchange ex_idp))),
     snd (handleTokenExchange id None True id 1000 ''j'' ''t'' ''f'' ''https://idp'' id ex_exchange ex_idp))"
    by code_simp
  have e: "map_option ce_userId (map_of (ip_codes ex_idp) (tp_code ex_exchange)) = Some ''ann@x.io''"
    by (simp add: ex_idp_def ex_exchange_def)
  from code_exchange [OF c] e show ?thesis by auto
qed

text \<open>The code is looked up before the verifier is checked and deleted after it: two requests that interleave there both succeed.\<close>

lemma code_exchanged_twice:
  "\<exists>p s oth r r'. fst (handleTokenExchange challenge None False id 0 jti t f issuer oth p s) = Inr r \<and>
     fst (handleTokenExchange challenge None False id 0 jti t f issuer id p s) = Inr r' \<and>
     oth s = snd (handleTokenExchange challenge None False id 0 jti t f issuer id p s)"
proof -
  define e where "e = \<lparr>ce_code = ''c'', ce_clientId = ''sp'', ce_redirectUri = ''u'', ce_codeChallenge = challenge ''v'', ce_userId = ''ann'',
    ce_nonce = None, ce_expiresAt = 1, ce_act = None, ce_delegate = None, ce_scope = None, ce_authorizationDetails = None,
    ce_delegationAct = None, ce_delegationGrant = None\<rparr>"
  define p where "p = ex_exchange\<lparr>tp_code := ''c'', tp_redirect_uri := ''u''\<rparr>"
  define s where "s = ex_idp\<lparr>ip_codes := [(''c'', e)]\<rparr>"
  define oth where "oth s0 = snd (handleTokenExchange challenge None False id 0 jti t f issuer id p s0)" for s0
  have "\<exists>r. fst (handleTokenExchange challenge None False id 0 jti t f issuer o' p s) = Inr r" for o'
    by (simp add: handleTokenExchange_def code_find_def p_def s_def e_def ex_exchange_def Let_def)
  then obtain r r' where "fst (handleTokenExchange challenge None False id 0 jti t f issuer oth p s) = Inr r"
    "fst (handleTokenExchange challenge None False id 0 jti t f issuer id p s) = Inr r'" by blast
  moreover have "oth s = snd (handleTokenExchange challenge None False id 0 jti t f issuer id p s)" by (simp add: oth_def)
  ultimately show ?thesis by blast
qed

text \<open>Every token carries the user and the client of its family.\<close>

definition refresh_owner :: "refresh_store \<Rightarrow> bool" where
  "refresh_owner s = (\<forall>h e. map_of (rs_tokens s) h = Some e \<longrightarrow> (\<exists>f. map_of (rs_families s) (rt_familyId e) = Some f \<and>
     rf_userId f = rt_userId e \<and> rf_clientId f = rt_clientId e))"

lemma owner_revoke: "refresh_owner s \<Longrightarrow> refresh_owner (revokeFamily i s)"
  by (fastforce simp: refresh_owner_def)

lemma step_owner:
  assumes "refresh_step hash s s'" "refresh_owner s"
  shows "refresh_owner s'"
  using assms
proof (induction rule: refresh_step.induct)
  case (create s t fam now u c ttl)
  then show ?case by (fastforce simp: refresh_create_def refresh_owner_def Let_def split: if_splits)
next
  case (consume s n now t)
  show ?case
  proof (cases rule: consume_cases [of hash n now t s])
    case (rotated e f)
    have "\<exists>g. map_of (rs_families s) (rt_familyId e') = Some g \<and> rf_userId g = rt_userId e' \<and> rf_clientId g = rt_clientId e'"
      if "map_of (rs_tokens s) h = Some e'" for h e' using consume.prems that unfolding refresh_owner_def by blast
    from this [OF rotated(1)] this show ?thesis unfolding rotated(6) refresh_owner_def using rotated(3) by (fastforce split: if_splits)
  qed (use consume owner_revoke in auto)
next
  case (revoke_token s t)
  then show ?case using owner_revoke by (auto simp: revokeByToken_def split: option.splits)
next
  case (revoke_family s fam)
  then show ?case by (rule owner_revoke)
next
  case (revoke_user s u)
  show ?case unfolding refresh_owner_def
  proof (intro allI impI)
    fix h e
    assume "map_of (rs_tokens (revokeByUser u s)) h = Some e"
    then obtain f where "map_of (rs_families s) (rt_familyId e) = Some f" "rf_userId f = rt_userId e" "rf_clientId f = rt_clientId e"
      using revoke_user unfolding refresh_owner_def by fastforce
    then show "\<exists>f. map_of (rs_families (revokeByUser u s)) (rt_familyId e) = Some f \<and> rf_userId f = rt_userId e \<and> rf_clientId f = rt_clientId e"
      by simp
  qed
qed

text \<open>A refresh token keeps its audience and dies with its user. A refresh only succeeds for the client its family was
  created for, and the new assertion names the user and the client of that family; the family was not revoked, and the user
  is active at that moment. When the user is not, the family is revoked: no token of it is ever exchanged again.\<close>

theorem refresh_audience:
  assumes "refresh_owner (ip_refresh s)"
    and "handleRefreshGrant resolve (Some active) hash now n jti nonce issuer t clientId s = (res, s')"
  shows "(case res of
      Inr r \<Rightarrow> (\<exists>i f. map_of (rs_families (ip_refresh s)) i = Some f \<and> \<not> rf_revoked f \<and> rf_clientId f = clientId \<and>
        an_aud (xr_assertion r) = clientId \<and> an_sub (xr_assertion r) = rf_userId f \<and>
        an_act (xr_assertion r) = ActType Human \<and> active (rf_userId f) s')
    | Inl x \<Rightarrow> x = InactiveUser \<longrightarrow> (\<exists>e. map_of (rs_tokens (ip_refresh s)) (hash t) = Some e \<and> rt_clientId e = clientId \<and>
        (\<forall>s2 n2 now2 t2 r2. refresh_run hash (ip_refresh s') s2 \<longrightarrow> fst (refresh_consume hash n2 now2 t2 s2) = Inr r2 \<longrightarrow>
           cr_familyId r2 \<noteq> rt_familyId e)))"
proof (cases rule: consume_cases [of hash n now t "ip_refresh s"])
  case (refused x)
  then show ?thesis using assms(2) by (auto simp: handleRefreshGrant_def)
next
  case (reuse e)
  then show ?thesis using assms(2) by (auto simp: handleRefreshGrant_def)
next
  case (rotated e f)
  define r where "r = snd (refresh_consume hash n now t (ip_refresh s))"
  define s1 where "s1 = s\<lparr>ip_refresh := r\<rparr>"
  have c: "refresh_consume hash n now t (ip_refresh s) =
    (Inr \<lparr>cr_newToken = n, cr_userId = rt_userId e, cr_clientId = rt_clientId e, cr_familyId = rt_familyId e\<rparr>, r)"
    using rotated(6) r_def by simp
  have own: "rf_userId f = rt_userId e" "rf_clientId f = rt_clientId e"
    using assms(1) rotated(1,3) unfolding refresh_owner_def by force+
  consider (client) "rt_clientId e \<noteq> clientId" | (inactive) "rt_clientId e = clientId" "\<not> active (rt_userId e) s1"
    | (ok) "rt_clientId e = clientId" "active (rt_userId e) s1" by blast
  then show ?thesis
  proof cases
    case client
    then show ?thesis using assms(2) c by (auto simp: handleRefreshGrant_def Let_def)
  next
    case inactive
    then have res: "res = Inl InactiveUser" "ip_refresh s' = revokeFamily (rt_familyId e) r"
      using assms(2) c by (auto simp: handleRefreshGrant_def Let_def s1_def)
    have "is_revoked (rt_familyId e) (ip_refresh s')"
      using rotated(3,6) unfolding res(2) r_def by (simp add: is_revoked_def)
    then have "cr_familyId r2 \<noteq> rt_familyId e" if "refresh_run hash (ip_refresh s') s2" "fst (refresh_consume hash n2 now2 t2 s2) = Inr r2"
      for s2 n2 now2 t2 r2 using run_keeps(2) [OF that(1)] consume_revoked [OF that(2)] by auto
    then show ?thesis using inactive(1) rotated(1) unfolding res(1) by auto
  next
    case ok
    then obtain x y where res: "res = Inr x" "s' = s1" "xr_assertion x = issueAssertion now jti issuer
        ((plain_claims (rt_userId e) clientId y)\<lparr>ci_nonce := Some nonce\<rparr>)"
      using assms(2) c by (auto simp: handleRefreshGrant_def Let_def s1_def)
    have "an_sub (xr_assertion x) = rf_userId f" "an_aud (xr_assertion x) = clientId" "an_act (xr_assertion x) = ActType Human"
      unfolding res(3) own by (simp_all add: issueAssertion_def plain_claims_def Let_def)
    with ok own rotated(3,4) have "map_of (rs_families (ip_refresh s)) (rt_familyId e) = Some f \<and> \<not> rf_revoked f \<and> rf_clientId f = clientId \<and>
        an_aud (xr_assertion x) = clientId \<and> an_sub (xr_assertion x) = rf_userId f \<and>
        an_act (xr_assertion x) = ActType Human \<and> active (rf_userId f) s'"
      unfolding res(2) by simp
    then show ?thesis unfolding res(1) sum.case by blast
  qed
qed

theorem refresh_audience_witness:
  "\<exists>i f. map_of (rs_families ex_refresh) i = Some f \<and> \<not> rf_revoked f \<and> rf_clientId f = ''sp'' \<and> rf_userId f = ''ann''"
proof -
  define s where "s = ex_idp\<lparr>ip_refresh := ex_refresh\<rparr>"
  have own: "refresh_owner (ip_refresh s)" by (simp add: s_def ex_refresh_def refresh_owner_def refresh_create_def Let_def)
  obtain res s' where h: "handleRefreshGrant None (Some (\<lambda>u _. u = ''ann'')) id 10 ''t1'' ''j'' ''n'' ''https://idp'' ''t0'' ''sp'' s = (res, s')"
    by (cases "handleRefreshGrant None (Some (\<lambda>u _. u = ''ann'')) id 10 ''t1'' ''j'' ''n'' ''https://idp'' ''t0'' ''sp'' s") auto
  obtain r where r: "res = Inr r"
    using h by (auto simp: s_def handleRefreshGrant_def refresh_consume_def ex_refresh_def refresh_create_def Let_def)
  from refresh_audience [OF own h] obtain i f where "map_of (rs_families ex_refresh) i = Some f" "\<not> rf_revoked f" "rf_clientId f = ''sp''"
    "rf_userId f = ''ann''" unfolding r by (auto simp: s_def)
  then show ?thesis by blast
qed

text \<open>The client is compared after the token was spent: a request by the wrong client is refused and uses the token up, so the
  next request by the right one counts as reuse and ends the family.\<close>

lemma wrong_client_spends:
  assumes "refresh_consume hash n now t (ip_refresh s) = (Inr c, r)" "cr_clientId c \<noteq> clientId" "map_of (rs_tokens (ip_refresh s)) (hash n) = None"
  shows "fst (handleRefreshGrant resolve act hash now n jti nonce issuer t clientId s) = Inl (RefreshClientMismatch (cr_clientId c) clientId)"
    "spent_token (hash t) (cr_familyId c) (ip_refresh (snd (handleRefreshGrant resolve act hash now n jti nonce issuer t clientId s)))"
  using assms consume_spends [OF assms(1,3)] by (simp_all add: handleRefreshGrant_def Let_def)

section \<open>Agents\<close>

text \<open>What \<open>jwtVerify\<close> documents: it returns the claims that decoding the token shows, and refuses a token whose expiry, with
  the tolerance in seconds, has passed.\<close>

definition jose_ok :: "jwt_decoder \<Rightarrow> 'k jwt_verifier \<Rightarrow> bool" where
  "jose_ok decode verify = (\<forall>token key aud tol now p. verify token key aud tol now = Inr p \<longrightarrow>
     decode token = Inr p \<and> (\<forall>e. jc_exp p = Some e \<longrightarrow> now div 1000 < e + tol))"

inductive assertion_run :: "jwt_decoder \<Rightarrow> 'k jwt_verifier \<Rightarrow> (string \<Rightarrow> idp \<Rightarrow> 'k option) \<Rightarrow> string \<Rightarrow> int \<Rightarrow> idp \<Rightarrow> int \<Rightarrow> idp \<Rightarrow> bool"
  for decode verify resolveKey aud where
  start: "assertion_run decode verify resolveKey aud now s now s"
| more: "assertion_run decode verify resolveKey aud now s now1 s1 \<Longrightarrow> now1 \<le> now2 \<Longrightarrow>
    assertion_run decode verify resolveKey aud now s now2 (snd (validateClientAssertion decode verify resolveKey now2 token aud s1))"

lemma assertion_cases:
  obtains (refused) x where "validateClientAssertion decode verify resolveKey now token aud s = (Inl x, s)"
  | (replay) key p where "verify token key aud 5 now = Inr p"
      "map_of (jti_cleanup now (ip_jtis s)) (nullish (jc_jti p) ''undefined'') \<noteq> None"
      "validateClientAssertion decode verify resolveKey now token aud s = (Inl JtiReplay, s\<lparr>ip_jtis := jti_cleanup now (ip_jtis s)\<rparr>)"
  | (accepted) c key p where "decode token = Inr c" "truthy_str (jc_iss c)" "truthy_str (jc_jti c)" "resolveKey (the (jc_iss c)) s = Some key"
      "verify token key aud 5 now = Inr p" "map_of (jti_cleanup now (ip_jtis s)) (nullish (jc_jti p) ''undefined'') = None"
      "validateClientAssertion decode verify resolveKey now token aud s =
        (Inr \<lparr>cl_sub = nullish (jc_sub p) (nullish (jc_iss p) ''undefined''), cl_iss = nullish (jc_iss p) ''undefined''\<rparr>,
         s\<lparr>ip_jtis := markUsed now (nullish (jc_jti p) ''undefined'') (jti_ttl now p) (jti_cleanup now (ip_jtis s))\<rparr>)"
proof (cases "decode token")
  case (Inl m)
  then show thesis using refused by (simp add: validateClientAssertion_def)
next
  case (Inr c)
  show thesis
  proof (cases "truthy_str (jc_iss c) \<and> truthy_str (jc_jti c)")
    case False
    then show thesis using refused [of MissingIss] refused [of MissingJti] Inr
      by (cases "truthy_str (jc_iss c)") (simp_all add: validateClientAssertion_def)
  next
    case t: True
    show thesis
    proof (cases "resolveKey (the (jc_iss c)) s")
      case None
      then show thesis using refused Inr t by (simp add: validateClientAssertion_def)
    next
      case (Some key)
      show thesis
      proof (cases "verify token key aud 5 now")
        case (Inl m)
        then show thesis using refused Inr t Some by (simp add: validateClientAssertion_def \<open>decode token = Inr c\<close>)
      next
        case (Inr p)
        then show thesis using replay [of key p] accepted [of c key p] \<open>decode token = Inr c\<close> t Some
          by (cases "map_of (jti_cleanup now (ip_jtis s)) (nullish (jc_jti p) ''undefined'')")
            (simp_all add: validateClientAssertion_def hasBeenUsed_def Let_def)
      qed
    qed
  qed
qed

text \<open>A token id is remembered at least until the assertion expires, and nothing else forgets it earlier.\<close>

definition remembered :: "string \<Rightarrow> int \<Rightarrow> jti_store \<Rightarrow> bool" where
  "remembered j until s = (case map_of s j of None \<Rightarrow> False | Some x \<Rightarrow> until \<le> x)"

lemma map_of_filter_none: "map_of s j = None \<Longrightarrow> map_of (filter P s) j = None"
  by (auto simp: map_of_eq_None_iff)

lemma map_of_filter_some: "map_of s j = Some x \<Longrightarrow> P (j, x) \<Longrightarrow> map_of (filter P s) j = Some x"
  by (induction s) (auto split: if_splits)

lemma cleanup_keeps: "remembered j until s \<Longrightarrow> now \<le> until \<Longrightarrow> remembered j until (jti_cleanup now s)"
  by (auto simp: remembered_def jti_cleanup_def map_of_filter_some split: option.splits)

lemma mark_keeps: "remembered j until s \<Longrightarrow> i \<noteq> j \<Longrightarrow> remembered j until (markUsed now i ttl s)"
  by (simp add: remembered_def markUsed_def update_conv')

lemma mark_remembers:
  assumes "jc_exp p = Some e"
  shows "remembered j (1000 * e) (markUsed now j (jti_ttl now p) s)"
proof -
  have "now div 1000 * 1000 \<le> now" by presburger
  then have "1000 * e \<le> now + jti_ttl now p" using assms by (simp add: jti_ttl_def max_def)
  then show ?thesis by (simp add: remembered_def markUsed_def update_conv')
qed

lemma step_remembers:
  assumes "remembered j until (ip_jtis s)" "now \<le> until"
  shows "remembered j until (ip_jtis (snd (validateClientAssertion decode verify resolveKey now token aud s)))"
proof (cases rule: assertion_cases [of decode verify resolveKey now token aud s])
  case (accepted c key p)
  have "remembered j until (jti_cleanup now (ip_jtis s))" using cleanup_keeps assms by blast
  moreover from this accepted(6) have "nullish (jc_jti p) ''undefined'' \<noteq> j" by (auto simp: remembered_def)
  ultimately show ?thesis unfolding accepted(7) by (simp add: mark_keeps)
qed (use assms cleanup_keeps in auto)

lemma run_remembers:
  assumes "assertion_run decode verify resolveKey aud now s now' s'" "remembered j until (ip_jtis s)" "now' \<le> until"
  shows "remembered j until (ip_jtis s')"
  using assms
proof (induction rule: assertion_run.induct)
  case (more now s now1 s1 now2 token)
  then show ?case using step_remembers by simp
qed simp

lemma remembered_refused:
  assumes "jose_ok decode verify" "decode token = Inr p" "remembered (nullish (jc_jti p) ''undefined'') until (ip_jtis s)" "now \<le> until"
  shows "\<exists>x. fst (validateClientAssertion decode verify resolveKey now token aud s) = Inl x"
proof (cases rule: assertion_cases [of decode verify resolveKey now token aud s])
  case (accepted c key q)
  have "q = p" using assms(1,2) accepted(5) by (auto simp: jose_ok_def)
  then show ?thesis using accepted(6) cleanup_keeps [OF assms(3,4)] by (auto simp: remembered_def)
qed auto

text \<open>C17. An agent's signed statement works once. After it was accepted, whatever other statements the provider receives in
  between, the same statement is refused at every later time up to its expiry. For \<open>jose\<close> this assumes what it documents: it
  returns the claims it decodes and refuses expired tokens.\<close>

theorem assertion_once:
  assumes "jose_ok decode verify" "validateClientAssertion decode verify resolveKey now token aud s = (Inr r, s1)"
    and "decode token = Inr p" "jc_exp p = Some e"
    and "assertion_run decode verify resolveKey2 aud2 now s1 now2 s2" "now2 \<le> now3" "now3 \<le> 1000 * e"
  shows "\<exists>x. fst (validateClientAssertion decode verify resolveKey3 now3 token aud3 s2) = Inl x"
proof -
  have "remembered (nullish (jc_jti p) ''undefined'') (1000 * e) (ip_jtis s1)"
  proof (cases rule: assertion_cases [of decode verify resolveKey now token aud s])
    case (accepted c key q)
    have "q = p" using assms(1,3) accepted(5) by (auto simp: jose_ok_def)
    then show ?thesis using accepted(7) assms(2,4) mark_remembers by auto
  qed (use assms(2) in auto)
  then have "remembered (nullish (jc_jti p) ''undefined'') (1000 * e) (ip_jtis s2)"
    using run_remembers [OF assms(5)] assms(6,7) by simp
  then show ?thesis using remembered_refused assms(1,3,7) by blast
qed

text \<open>A verifier that meets the documented behaviour: the token is its claims and the key that signed it.\<close>

definition ex_claims :: "string \<Rightarrow> string \<Rightarrow> jwt_claims" where
  "ex_claims iss sub = \<lparr>jc_iss = Some iss, jc_sub = Some sub, jc_jti = Some ''j1'', jc_exp = Some 300\<rparr>"

definition ex_decode :: jwt_decoder where
  "ex_decode t = (if t = ''self'' then Inr (ex_claims ''bot@x.io'' ''bot@x.io'')
     else if t = ''forged'' then Inr (ex_claims ''bot@x.io'' ''ann@x.io'') else Inl ''invalid'')"

definition ex_verify :: "string jwt_verifier" where
  "ex_verify t key aud tol now = (case ex_decode t of Inl m \<Rightarrow> Inl m
     | Inr p \<Rightarrow> if key = ''botkey'' \<and> now div 1000 < 300 + tol then Inr p else Inl ''rejected'')"

definition ex_key :: "string \<Rightarrow> idp \<Rightarrow> string option" where
  "ex_key iss s = (if iss = ''bot@x.io'' then Some ''botkey'' else None)"

lemma ex_jose: "jose_ok ex_decode ex_verify"
  by (auto simp: jose_ok_def ex_verify_def ex_decode_def ex_claims_def split: if_splits)

lemma ex_accepts:
  "fst (validateClientAssertion ex_decode ex_verify ex_key 1000 ''self'' ''aud'' ex_idp) = Inr \<lparr>cl_sub = ''bot@x.io'', cl_iss = ''bot@x.io''\<rparr>"
  by (simp add: validateClientAssertion_def ex_decode_def ex_verify_def ex_key_def ex_claims_def ex_idp_def hasBeenUsed_def jti_cleanup_def Let_def)

theorem assertion_once_witness:
  "\<exists>x. fst (validateClientAssertion ex_decode ex_verify ex_key 2000 ''self'' ''aud''
     (snd (validateClientAssertion ex_decode ex_verify ex_key 1000 ''self'' ''aud'' ex_idp))) = Inl x"
proof -
  define s1 where "s1 = snd (validateClientAssertion ex_decode ex_verify ex_key 1000 ''self'' ''aud'' ex_idp)"
  have a: "validateClientAssertion ex_decode ex_verify ex_key 1000 ''self'' ''aud'' ex_idp =
    (Inr \<lparr>cl_sub = ''bot@x.io'', cl_iss = ''bot@x.io''\<rparr>, s1)"
    using ex_accepts unfolding s1_def by (simp add: prod_eq_iff)
  have d: "ex_decode ''self'' = Inr (ex_claims ''bot@x.io'' ''bot@x.io'')" by (simp add: ex_decode_def)
  have e: "jc_exp (ex_claims ''bot@x.io'' ''bot@x.io'') = Some 300" by (simp add: ex_claims_def)
  show ?thesis
    using assertion_once [OF ex_jose a d e assertion_run.start, of 2000 ex_key "''aud''"] by (simp add: s1_def)
qed

lemma map_of_filter_drop:
  assumes "distinct (map fst s)" "map_of s j = Some x" "\<not> P (j, x)"
  shows "map_of (filter P s) j = None"
proof -
  have "y = x" if "(j, y) \<in> set s" for y using assms(1,2) that by simp
  then show ?thesis using assms(3) by (auto simp: map_of_eq_None_iff)
qed

text \<open>The window in which a statement is replayed. The verifier tolerates five seconds after the expiry, but the token id
  of a statement first used at least a minute before its expiry is forgotten at the expiry: the same statement
  is accepted a second time within these seconds.\<close>

theorem assertion_replay_window:
  assumes "validateClientAssertion decode verify resolveKey now token aud s = (Inr r, s1)" "distinct (map fst (ip_jtis s))"
    and "decode token = Inr p" "verify token key aud 5 now3 = Inr p" "jc_exp p = Some e"
    and "resolveKey (the (jc_iss p)) s1 = Some key" "jose_ok decode verify" "now div 1000 + 60 \<le> e" "1000 * e + 1000 \<le> now3"
  shows "fst (validateClientAssertion decode verify resolveKey now3 token aud s1) = Inr r"
proof (cases rule: assertion_cases [of decode verify resolveKey now token aud s])
  case (accepted c k q)
  let ?j = "nullish (jc_jti p) ''undefined''"
  have q: "q = p" "c = p" using assms(3,7) accepted(1,5) by (auto simp: jose_ok_def)
  have "now < (now div 1000 + 1) * 1000" by presburger
  then have ttl: "now + jti_ttl now p < now3" using assms(5,8,9) by (simp add: jti_ttl_def max_def)
  have s1: "ip_jtis s1 = markUsed now ?j (jti_ttl now p) (jti_cleanup now (ip_jtis s))"
    using accepted(7) assms(1) q by auto
  have "distinct (map fst (ip_jtis s1))"
    using assms(2) unfolding s1 markUsed_def jti_cleanup_def by (intro distinct_update) (simp add: distinct_map_filter)
  moreover have "map_of (ip_jtis s1) ?j = Some (now + jti_ttl now p)"
    unfolding s1 by (simp add: markUsed_def update_conv')
  ultimately have "map_of (jti_cleanup now3 (ip_jtis s1)) ?j = None"
    unfolding jti_cleanup_def using map_of_filter_drop ttl by fastforce
  then show ?thesis using accepted(2,3) assms(1,3,4,6) q accepted(7)
    by (auto simp: validateClientAssertion_def hasBeenUsed_def Let_def)
qed (use assms(1) in auto)

theorem assertion_replay_window_witness:
  "fst (validateClientAssertion ex_decode ex_verify ex_key 303000 ''self'' ''aud''
     (snd (validateClientAssertion ex_decode ex_verify ex_key 1000 ''self'' ''aud'' ex_idp))) = Inr \<lparr>cl_sub = ''bot@x.io'', cl_iss = ''bot@x.io''\<rparr>"
proof -
  define s1 where "s1 = snd (validateClientAssertion ex_decode ex_verify ex_key 1000 ''self'' ''aud'' ex_idp)"
  let ?p = "ex_claims ''bot@x.io'' ''bot@x.io''"
  have a: "validateClientAssertion ex_decode ex_verify ex_key 1000 ''self'' ''aud'' ex_idp =
    (Inr \<lparr>cl_sub = ''bot@x.io'', cl_iss = ''bot@x.io''\<rparr>, s1)"
    using ex_accepts unfolding s1_def by (simp add: prod_eq_iff)
  have "distinct (map fst (ip_jtis ex_idp))" "ex_decode ''self'' = Inr ?p" "ex_verify ''self'' ''botkey'' ''aud'' 5 303000 = Inr ?p"
    "jc_exp ?p = Some 300" "ex_key (the (jc_iss ?p)) s1 = Some ''botkey''" "(1000::int) div 1000 + 60 \<le> 300" "1000 * 300 + 1000 \<le> (303000::int)"
    by (simp_all add: ex_idp_def ex_decode_def ex_verify_def ex_claims_def ex_key_def)
  from assertion_replay_window [OF a this(1-5) ex_jose this(6,7)] show ?thesis by (simp add: s1_def)
qed

end
