(* ===== verification/IdpEndpoints.thy ===== *)
theory IdpEndpoints
  imports AuthFlows Grants
begin

text \<open>
  The login endpoints of the identity provider: \<open>agent-token.ts\<close> and \<open>agent-auth.ts\<close> (tokens of agents and the bearer check),
  \<open>authorize.get.ts\<close> with the consent and denial pages behind it, \<open>token.post.ts\<close> and \<open>revoke.post.ts\<close>, all under
  \<open>modules/nuxt-auth-idp/src/runtime/server\<close>. The grant store is any store of the interface; a browser session is a record.
  A URL to go to is its base address with the parameters set on it. \<open>now\<close> is in milliseconds; the grants use seconds.
\<close>

section \<open>Tokens of agents\<close>

definition DEFAULT_CLI_AUDIENCE :: string where
  "DEFAULT_CLI_AUDIENCE = ''apes-cli''"

record auth_token =
  at_iss :: string
  at_sub :: string
  at_aud :: string
  at_act :: actor_type
  at_iat :: int
  at_exp :: int

definition issueAuthToken :: "int \<Rightarrow> string \<Rightarrow> string \<Rightarrow> actor_type \<Rightarrow> string option \<Rightarrow> auth_token" where
  "issueAuthToken now issuer sub act aud = (let t = now div 1000 in \<lparr>at_iss = issuer, at_sub = sub,
     at_aud = nullish aud DEFAULT_CLI_AUDIENCE, at_act = act, at_iat = t, at_exp = t + 8 * 60 * 60\<rparr>)"

definition issueAgentToken :: "int \<Rightarrow> string \<Rightarrow> string \<Rightarrow> string option \<Rightarrow> auth_token" where
  "issueAgentToken now issuer sub aud = issueAuthToken now issuer sub Agent (Some (nullish aud DEFAULT_CLI_AUDIENCE))"

record auth_payload =
  ay_sub :: string
  ay_act :: act_claim
  ay_aud :: "string option"
  ay_delegation_grant :: "string option"

text \<open>\<open>verify token issuer audience now\<close> is \<open>jwtVerify\<close> with the provider's key: the claims as a JSON object. A token of the
  provider always has a \<open>sub\<close>.\<close>

type_synonym own_verifier = "string \<Rightarrow> string \<Rightarrow> string option \<Rightarrow> int \<Rightarrow> string + jsval jsobj"

definition act_of :: "jsval \<Rightarrow> act_claim option" where
  "act_of v = (if v = JStr ''agent'' then Some (ActType Agent) else if v = JStr ''human'' then Some (ActType Human)
     else case as_object v of None \<Rightarrow> None | Some ob \<Rightarrow> map_option ActDelegate (as_string (member ob ''sub'')))"

definition verifyAuthToken :: "own_verifier \<Rightarrow> string \<Rightarrow> string \<Rightarrow> string option \<Rightarrow> int \<Rightarrow> string + auth_payload" where
  "verifyAuthToken verify token issuer expectedAud now = (case verify token issuer (truthy_opt expectedAud) now of
     Inl m \<Rightarrow> Inl m
   | Inr p \<Rightarrow> (case act_of (member p ''act'') of None \<Rightarrow> Inl ''Invalid act claim''
       | Some a \<Rightarrow> Inr \<lparr>ay_sub = nullish (as_string (member p ''sub'')) [], ay_act = a, ay_aud = as_string (member p ''aud''),
           ay_delegation_grant = as_string (member p ''delegation_grant'')\<rparr>))"

definition verifyAgentToken :: "own_verifier \<Rightarrow> string \<Rightarrow> string \<Rightarrow> string option \<Rightarrow> int \<Rightarrow> string + auth_payload" where
  "verifyAgentToken verify token issuer expectedAud now = (case verifyAuthToken verify token issuer expectedAud now of
     Inl m \<Rightarrow> Inl m | Inr p \<Rightarrow> if ay_act p \<noteq> ActType Agent then Inl ''Not an agent token'' else Inr p)"

definition bearer_token :: "string option \<Rightarrow> string option" where
  "bearer_token header = (case header of None \<Rightarrow> None | Some h \<Rightarrow> if starts_with h ''Bearer '' then Some (drop 7 h) else None)"

definition tryBearerAuth :: "own_verifier \<Rightarrow> string \<Rightarrow> int \<Rightarrow> string option \<Rightarrow> auth_payload option" where
  "tryBearerAuth verify issuer now header = (case bearer_token header of None \<Rightarrow> None
     | Some token \<Rightarrow> (case verifyAuthToken verify token issuer (Some DEFAULT_CLI_AUDIENCE) now of Inl _ \<Rightarrow> None
         | Inr p \<Rightarrow> if (case ay_act p of ActDelegate _ \<Rightarrow> True | ActType _ \<Rightarrow> False) \<or> truthy_str (ay_delegation_grant p) then None else Some p))"

definition requireAgent :: "own_verifier \<Rightarrow> string \<Rightarrow> int \<Rightarrow> string option \<Rightarrow> (int \<times> string) + auth_payload" where
  "requireAgent verify issuer now header = (case bearer_token header of None \<Rightarrow> Inl (401, ''Bearer token required'')
     | Some token \<Rightarrow> (case verifyAgentToken verify token issuer None now of Inl _ \<Rightarrow> Inl (401, ''Invalid or expired agent token'') | Inr p \<Rightarrow> Inr p))"

definition tryAgentAuth :: "own_verifier \<Rightarrow> string \<Rightarrow> int \<Rightarrow> string option \<Rightarrow> auth_payload option" where
  "tryAgentAuth verify issuer now header = (case tryBearerAuth verify issuer now header of None \<Rightarrow> None
     | Some p \<Rightarrow> if ay_act p \<noteq> ActType Agent then None else Some p)"

section \<open>The token endpoint\<close>

text \<open>\<open>None\<close> is the error thrown for a malformed JSON body; \<open>keyOf\<close> turns a stored public key into a key object.\<close>

type_synonym form = "(string \<times> string) list"

datatype error_text = Plain string | FlowText flow_error | GrantText grant_error

datatype token_answer = OAuthError int string error_text | DelegatedToken assertion | AgentToken auth_token | Exchanged exchange_result

definition resolveUserClaims :: "string \<Rightarrow> string option \<Rightarrow> idp \<Rightarrow> extra_claims" where
  "resolveUserClaims userId scope s = (let scopes = set (scope_words scope); includeAll = (scopes = {}) in
     if \<not> (includeAll \<or> ''email'' \<in> scopes \<or> ''profile'' \<in> scopes) then no_extra
     else (case findByEmail userId (ip_users s) of None \<Rightarrow> no_extra
       | Some u \<Rightarrow> \<lparr>xc_email = (if includeAll \<or> ''email'' \<in> scopes then Some (us_email u) else None),
           xc_name = (if includeAll \<or> ''profile'' \<in> scopes then Some (us_name u) else None),
           xc_approver = truthy_opt (us_approver u)\<rparr>))"

definition agentKey :: "(string \<Rightarrow> 'k) \<Rightarrow> string \<Rightarrow> idp \<Rightarrow> 'k option" where
  "agentKey keyOf email s = (case findByEmail email (ip_users s) of None \<Rightarrow> None
     | Some u \<Rightarrow> if \<not> us_isActive u then None
         else (case ssh_findByUser email (ip_ssh s) of [] \<Rightarrow> None | k # _ \<Rightarrow> Some (keyOf (sk_publicKey k))))"

definition handleClientCredentialsGrant :: "jwt_decoder \<Rightarrow> 'k jwt_verifier \<Rightarrow> (string \<Rightarrow> 'k) \<Rightarrow> 'g grant_store \<Rightarrow> int \<Rightarrow> string \<Rightarrow> string \<Rightarrow> string
    \<Rightarrow> form \<Rightarrow> idp \<times> 'g \<Rightarrow> token_answer \<times> idp \<times> 'g" where
  "handleClientCredentialsGrant decode verify keyOf store now jti nonce issuer body st = (case st of (s, g) \<Rightarrow>
     if map_of body ''client_assertion_type'' \<noteq> Some ''urn:ietf:params:oauth:client-assertion-type:jwt-bearer''
     then (OAuthError 400 ''invalid_request'' (Plain ''Unsupported client_assertion_type''), s, g)
     else if \<not> truthy_str (map_of body ''client_assertion'') then (OAuthError 400 ''invalid_request'' (Plain ''Missing client_assertion''), s, g)
     else (case validateClientAssertion decode verify (agentKey keyOf) now (the (map_of body ''client_assertion'')) (issuer @ ''/token'') s of
       (Inl e, s1) \<Rightarrow> (OAuthError 401 ''invalid_client'' (FlowText e), s1, g)
     | (Inr cl, s1) \<Rightarrow>
         if truthy_str (map_of body ''delegation_grant'')
         then if \<not> truthy_str (map_of body ''audience'') then (OAuthError 400 ''invalid_request'' (Plain ''Missing audience for delegation''), s1, g)
           else (let audience = the (map_of body ''audience'') in
             case validateDelegation (now div 1000) (the (map_of body ''delegation_grant'')) (cl_sub cl) audience store g of
               (Inl e, g1) \<Rightarrow> (OAuthError 401 ''invalid_client'' (GrantText e), s1, g1)
             | (Inr gr, g1) \<Rightarrow> (case useGrant (now div 1000) (gr_id gr) store g1 of
                 (Inl e, g2) \<Rightarrow> (OAuthError 401 ''invalid_client'' (GrantText e), s1, g2)
               | (Inr _, g2) \<Rightarrow> (DelegatedToken (issueAssertion now jti issuer ((plain_claims (nullish (rq_delegator (gr_request gr)) []) audience no_extra)
                   \<lparr>ci_nonce := Some nonce, ci_delegation_act := Some (cl_sub cl), ci_delegation_grant := Some (gr_id gr),
                     ci_scope := Some (nullish (rq_scopes (gr_request gr)) [])\<rparr>)), s1, g2)))
         else (AgentToken (issueAgentToken now issuer (cl_sub cl) None), s1, g)))"

definition handleRefreshTokenGrant :: "(string \<Rightarrow> string) \<Rightarrow> int \<Rightarrow> string \<Rightarrow> string \<Rightarrow> string \<Rightarrow> string \<Rightarrow> form \<Rightarrow> idp \<Rightarrow> token_answer \<times> idp" where
  "handleRefreshTokenGrant hash now newToken jti nonce issuer body s =
     (if \<not> truthy_str (map_of body ''refresh_token'') then (OAuthError 400 ''invalid_request'' (Plain ''Missing refresh_token''), s)
      else if \<not> truthy_str (map_of body ''client_id'') then (OAuthError 400 ''invalid_request'' (Plain ''Missing client_id''), s)
      else (case handleRefreshGrant (Some resolveUserClaims)
              (Some (\<lambda>userId t. case findByEmail userId (ip_users t) of None \<Rightarrow> True | Some u \<Rightarrow> us_isActive u))
              hash now newToken jti nonce issuer (the (map_of body ''refresh_token'')) (the (map_of body ''client_id'')) s of
          (Inl e, s1) \<Rightarrow> (OAuthError (if e = InactiveUser then 403 else 400) ''invalid_grant'' (FlowText e), s1)
        | (Inr r, s1) \<Rightarrow> (Exchanged r, s1)))"

definition handleAuthorizationCodeGrant :: "(string \<Rightarrow> string) \<Rightarrow> (string \<Rightarrow> string) \<Rightarrow> int \<Rightarrow> string \<Rightarrow> string \<Rightarrow> string \<Rightarrow> string \<Rightarrow> (idp \<Rightarrow> idp)
    \<Rightarrow> form \<Rightarrow> idp \<Rightarrow> token_answer \<times> idp" where
  "handleAuthorizationCodeGrant challenge hash now jti token family issuer oth body s =
     (if \<not> list_all (\<lambda>k. truthy_str (map_of body k)) [''grant_type'', ''code'', ''code_verifier'', ''redirect_uri'', ''client_id'']
      then (OAuthError 400 ''invalid_request'' (Plain ''Missing required fields: grant_type, code, code_verifier, redirect_uri, client_id''), s)
      else (case handleTokenExchange challenge (Some resolveUserClaims) True hash now jti token family issuer oth
              \<lparr>tp_grant_type = the (map_of body ''grant_type''), tp_code = the (map_of body ''code''), tp_code_verifier = the (map_of body ''code_verifier''),
                tp_redirect_uri = the (map_of body ''redirect_uri''), tp_client_id = the (map_of body ''client_id'')\<rparr> s of
          (Inl e, s1) \<Rightarrow> (OAuthError 400 ''invalid_grant'' (FlowText e), s1)
        | (Inr r, s1) \<Rightarrow> (Exchanged r, s1)))"

text \<open>The random values of a request.\<close>

record token_randoms =
  tr_jti :: string
  tr_nonce :: string
  tr_token :: string
  tr_family :: string

definition token_post :: "jwt_decoder \<Rightarrow> 'k jwt_verifier \<Rightarrow> (string \<Rightarrow> 'k) \<Rightarrow> (string \<Rightarrow> string) \<Rightarrow> (string \<Rightarrow> string) \<Rightarrow> 'g grant_store \<Rightarrow> int \<Rightarrow> token_randoms
    \<Rightarrow> string \<Rightarrow> (idp \<Rightarrow> idp) \<Rightarrow> form option \<Rightarrow> idp \<times> 'g \<Rightarrow> token_answer \<times> idp \<times> 'g" where
  "token_post decode verify keyOf challenge hash store now r issuer oth body st = (case body of
     None \<Rightarrow> (OAuthError 400 ''invalid_request'' (Plain ''Malformed request body''), st)
   | Some b \<Rightarrow>
       if map_of b ''grant_type'' = Some ''client_credentials''
       then handleClientCredentialsGrant decode verify keyOf store now (tr_jti r) (tr_nonce r) issuer b st
       else if map_of b ''grant_type'' = Some ''refresh_token''
       then (case handleRefreshTokenGrant hash now (tr_token r) (tr_jti r) (tr_nonce r) issuer b (fst st) of (a, s1) \<Rightarrow> (a, s1, snd st))
       else if map_of b ''grant_type'' = Some ''authorization_code''
       then (case handleAuthorizationCodeGrant challenge hash now (tr_jti r) (tr_token r) (tr_family r) issuer oth b (fst st) of (a, s1) \<Rightarrow> (a, s1, snd st))
       else (OAuthError 400 ''unsupported_grant_type'' (Plain ''Grant type not supported''), st))"

definition revoke_post :: "(string \<Rightarrow> string) \<Rightarrow> form option \<Rightarrow> idp \<Rightarrow> ((int \<times> string) + unit) \<times> idp" where
  "revoke_post hash body s = (case body of None \<Rightarrow> (Inl (400, ''Invalid JSON body''), s)
     | Some b \<Rightarrow> if \<not> truthy_str (map_of b ''token'') then (Inl (400, ''Missing token''), s)
         else (Inr (), s\<lparr>ip_refresh := revokeByToken hash (the (map_of b ''token'')) (ip_refresh s)\<rparr>))"

section \<open>What the agent branch checks\<close>

lemma claims_simps [simp]:
  "an_sub (issueAssertion now jti issuer c) = ci_sub c" "an_aud (issueAssertion now jti issuer c) = ci_aud c"
  "an_iss (issueAssertion now jti issuer c) = issuer" "an_scope (issueAssertion now jti issuer c) = ci_scope c"
  "an_delegation_grant (issueAssertion now jti issuer c) = truthy_opt (ci_delegation_grant c)"
  "an_exp (issueAssertion now jti issuer c) = now div 1000 + 300"
  "an_act (issueAssertion now jti issuer c) = (case ci_delegation_act c of Some d \<Rightarrow> ActDelegate d | None \<Rightarrow> ActType (nullish (ci_act c) Human))"
  by (simp_all add: issueAssertion_def Let_def)

lemma plain_claims_simps [simp]:
  "ci_sub (plain_claims sub aud x) = sub" "ci_aud (plain_claims sub aud x) = aud" "ci_act (plain_claims sub aud x) = None"
  by (simp_all add: plain_claims_def)

lemma agentKey_parts:
  assumes "agentKey keyOf email s = Some key"
  shows "\<exists>u k ks. findByEmail email (ip_users s) = Some u \<and> us_isActive u \<and> ssh_findByUser email (ip_ssh s) = k # ks \<and> key = keyOf (sk_publicKey k)"
  using assms by (auto simp: agentKey_def split: option.splits list.splits if_splits)

lemma client_verified:
  assumes "validateClientAssertion decode verify (agentKey keyOf) now token aud s = (Inr cl, s')" "jose_ok decode verify"
  shows "\<exists>p u k ks. decode token = Inr p \<and> findByEmail (cl_iss cl) (ip_users s) = Some u \<and> us_isActive u \<and>
    ssh_findByUser (cl_iss cl) (ip_ssh s) = k # ks \<and> verify token (keyOf (sk_publicKey k)) aud 5 now = Inr p \<and>
    jc_iss p = Some (cl_iss cl) \<and> cl_sub cl = nullish (jc_sub p) (cl_iss cl)"
proof (cases rule: assertion_cases [of decode verify "agentKey keyOf" now token aud s])
  case (accepted c key p)
  have c: "c = p" using assms(2) accepted(1,5) by (auto simp: jose_ok_def)
  obtain i where i: "jc_iss p = Some i" using accepted(2) c by (auto simp: truthy_str_def split: option.splits)
  have cl: "cl_iss cl = i" "cl_sub cl = nullish (jc_sub p) i" using accepted(7) assms(1) i by auto
  from agentKey_parts [OF accepted(4)] show ?thesis using accepted(1,5) c i cl by auto
qed (use assms(1) in auto)

lemma client_branch:
  assumes "handleClientCredentialsGrant decode verify keyOf store now jti nonce issuer body (s, g) = (a, s', g')"
    and "\<And>c e t. a \<noteq> OAuthError c e t"
  obtains cl s1 where "validateClientAssertion decode verify (agentKey keyOf) now (the (map_of body ''client_assertion'')) (issuer @ ''/token'') s = (Inr cl, s1)"
    "s' = s1" "\<not> truthy_str (map_of body ''delegation_grant'')" "g' = g" "a = AgentToken (issueAgentToken now issuer (cl_sub cl) None)"
  | cl s1 gr g1 x where "validateClientAssertion decode verify (agentKey keyOf) now (the (map_of body ''client_assertion'')) (issuer @ ''/token'') s = (Inr cl, s1)"
    "s' = s1" "validateDelegation (now div 1000) (the (map_of body ''delegation_grant'')) (cl_sub cl) (the (map_of body ''audience'')) store g = (Inr gr, g1)"
    "useGrant (now div 1000) (gr_id gr) store g1 = (Inr x, g')"
    "a = DelegatedToken (issueAssertion now jti issuer ((plain_claims (nullish (rq_delegator (gr_request gr)) []) (the (map_of body ''audience'')) no_extra)
       \<lparr>ci_nonce := Some nonce, ci_delegation_act := Some (cl_sub cl), ci_delegation_grant := Some (gr_id gr),
         ci_scope := Some (nullish (rq_scopes (gr_request gr)) [])\<rparr>))"
proof -
  obtain x s1 where v: "validateClientAssertion decode verify (agentKey keyOf) now (the (map_of body ''client_assertion'')) (issuer @ ''/token'') s = (x, s1)"
    by fastforce
  have "\<exists>cl. x = Inr cl" using assms v unfolding handleClientCredentialsGrant_def by (cases x) (auto split: if_splits)
  then obtain cl where cl: "x = Inr cl" by blast
  show thesis
  proof (cases "truthy_str (map_of body ''delegation_grant'')")
    case False
    then show thesis using that(1) assms v cl unfolding handleClientCredentialsGrant_def by (auto split: if_splits)
  next
    case True
    obtain y g1 where d: "validateDelegation (now div 1000) (the (map_of body ''delegation_grant'')) (cl_sub cl) (the (map_of body ''audience'')) store g = (y, g1)"
      by fastforce
    have "\<exists>gr. y = Inr gr" using assms v cl True d unfolding handleClientCredentialsGrant_def by (cases y) (auto split: if_splits)
    then obtain gr where gr: "y = Inr gr" by blast
    obtain z g2 where u: "useGrant (now div 1000) (gr_id gr) store g1 = (z, g2)" by fastforce
    have "\<exists>w. z = Inr w" using assms v cl True d gr u unfolding handleClientCredentialsGrant_def by (cases z) (auto split: if_splits)
    then obtain w where w: "z = Inr w" by blast
    show thesis
      using that(2) [OF v [unfolded cl] _ d [unfolded gr]] assms v cl True d gr u w
      unfolding handleClientCredentialsGrant_def by (auto split: if_splits)
  qed
qed

text \<open>What a token of the client-credentials branch rests on. Every such token was asked for with a statement that the key
  of an active user verified, the first key stored for the user it names as its issuer. A delegated token moreover rests on an
  approved, unexpired delegation to the statement's subject for that audience: it names the delegator, the acting subject and
  the grant, and carries exactly the scopes of the grant, none when the grant lists none.\<close>

theorem client_credentials_sound:
  assumes "handleClientCredentialsGrant decode verify keyOf InMemoryGrantStore now jti nonce issuer body (s, g) = (a, s', g')"
    and "\<And>c e t. a \<noteq> OAuthError c e t" "jose_ok decode verify" "mem_inv g"
  shows "\<exists>p iss u k ks. decode (the (map_of body ''client_assertion'')) = Inr p \<and> jc_iss p = Some iss \<and>
    findByEmail iss (ip_users s) = Some u \<and> us_isActive u \<and> ssh_findByUser iss (ip_ssh s) = k # ks \<and>
    verify (the (map_of body ''client_assertion'')) (keyOf (sk_publicKey k)) (issuer @ ''/token'') 5 now = Inr p \<and>
    (case a of AgentToken t \<Rightarrow> at_sub t = nullish (jc_sub p) iss \<and> at_act t = Agent \<and> at_aud t = ''apes-cli''
     | DelegatedToken t \<Rightarrow> (\<exists>gr. mem_findById (the (map_of body ''delegation_grant'')) g = Some gr \<and> gr_category gr = Some DelegationGrant \<and>
         gr_status gr = Approved \<and> \<not> isGrantExpired gr (now div 1000) \<and> rq_delegate (gr_request gr) = Some (nullish (jc_sub p) iss) \<and>
         rq_audience (gr_request gr) \<in> {''*'', an_aud t} \<and> an_sub t = nullish (rq_delegator (gr_request gr)) [] \<and>
         an_act t = ActDelegate (nullish (jc_sub p) iss) \<and> an_scope t = Some (nullish (rq_scopes (gr_request gr)) []))
     | _ \<Rightarrow> False)"
  using assms(1,2)
proof (cases rule: client_branch)
  case (1 cl s1)
  from client_verified [OF 1(1) assms(3)] show ?thesis using 1(5)
    by (auto simp: issueAgentToken_def issueAuthToken_def DEFAULT_CLI_AUDIENCE_def Let_def)
next
  case (2 cl s1 gr g1 x)
  from client_verified [OF 2(1) assms(3)] obtain p u k ks where p: "decode (the (map_of body ''client_assertion'')) = Inr p"
    "findByEmail (cl_iss cl) (ip_users s) = Some u" "us_isActive u" "ssh_findByUser (cl_iss cl) (ip_ssh s) = k # ks"
    "verify (the (map_of body ''client_assertion'')) (keyOf (sk_publicKey k)) (issuer @ ''/token'') 5 now = Inr p"
    "jc_iss p = Some (cl_iss cl)" "cl_sub cl = nullish (jc_sub p) (cl_iss cl)" by blast
  note d = delegation_valid [OF assms(4) 2(3)]
  from 2(5) show ?thesis
    using p d by (intro exI [of _ p] exI [of _ "cl_iss cl"] exI [of _ u] exI [of _ k] exI [of _ ks]) auto
qed

definition ex_bot :: idp where
  "ex_bot = ex_idp\<lparr>ip_users := [(''bot@x.io'', \<lparr>us_email = ''bot@x.io'', us_name = ''bot'', us_owner = Some ''ann@x.io'', us_approver = None,
       us_type = Some Agent, us_isActive = True, us_createdAt = 0, us_lastLoginAt = None, us_recoveryVacationMode = None, us_recoveryVacationDays = None\<rparr>)],
     ip_ssh := [(''k'', \<lparr>sk_keyId = ''k'', sk_userEmail = ''bot@x.io'', sk_publicKey = ''botkey'', sk_name = ''k'', sk_createdAt = 0\<rparr>)]\<rparr>"

definition ex_form :: "string \<Rightarrow> form" where
  "ex_form token = [(''client_assertion_type'', ''urn:ietf:params:oauth:client-assertion-type:jwt-bearer''), (''client_assertion'', token)]"

lemma ex_bot_simps:
  "findByEmail ''bot@x.io'' (ip_users ex_bot) = Some \<lparr>us_email = ''bot@x.io'', us_name = ''bot'', us_owner = Some ''ann@x.io'', us_approver = None,
       us_type = Some Agent, us_isActive = True, us_createdAt = 0, us_lastLoginAt = None, us_recoveryVacationMode = None, us_recoveryVacationDays = None\<rparr>"
  "ssh_findByUser ''bot@x.io'' (ip_ssh ex_bot) = [\<lparr>sk_keyId = ''k'', sk_userEmail = ''bot@x.io'', sk_publicKey = ''botkey'', sk_name = ''k'', sk_createdAt = 0\<rparr>]"
  "ip_jtis ex_bot = []"
  by (simp_all add: ex_bot_def findByEmail_def ssh_findByUser_def ex_idp_def)

lemma ex_bot_accepts:
  assumes "token = ''self'' \<or> token = ''forged''"
  shows "fst (handleClientCredentialsGrant ex_decode ex_verify id InMemoryGrantStore 1000 ''j'' ''n'' ''https://idp'' (ex_form token) (ex_bot, empty_mem)) =
    AgentToken (issueAgentToken 1000 ''https://idp'' (if token = ''self'' then ''bot@x.io'' else ''ann@x.io'') None)"
proof -
  have "agentKey id ''bot@x.io'' ex_bot = Some ''botkey''" by (simp add: agentKey_def ex_bot_simps)
  then show ?thesis using assms
    by (auto simp: handleClientCredentialsGrant_def ex_form_def validateClientAssertion_def ex_decode_def ex_claims_def ex_verify_def
      hasBeenUsed_def jti_cleanup_def ex_bot_simps Let_def)
qed

theorem client_credentials_sound_witness:
  "\<exists>p iss u k ks. ex_decode ''self'' = Inr p \<and> jc_iss p = Some iss \<and> findByEmail iss (ip_users ex_bot) = Some u \<and> us_isActive u \<and>
    ssh_findByUser iss (ip_ssh ex_bot) = k # ks"
proof -
  obtain a s' g' where h: "handleClientCredentialsGrant ex_decode ex_verify id InMemoryGrantStore 1000 ''j'' ''n'' ''https://idp'' (ex_form ''self'')
      (ex_bot, empty_mem) = (a, s', g')" by (metis surj_pair)
  then have "\<And>c e t. a \<noteq> OAuthError c e t" using ex_bot_accepts [of "''self''"] by auto
  from client_credentials_sound [OF h this ex_jose mem_inv_empty] show ?thesis by (auto simp: ex_form_def)
qed

text \<open>C18. The subject of a statement is not compared with its issuer. The key is looked up by the issuer, the token is issued for
  the subject: any active user with a stored key gets an agent's token for whatever name its own statement gives, another
  agent or a person included.\<close>

theorem agent_names_any_subject:
  assumes "map_of body ''client_assertion_type'' = Some ''urn:ietf:params:oauth:client-assertion-type:jwt-bearer''"
    and "map_of body ''client_assertion'' = Some token" "token \<noteq> []" "\<not> truthy_str (map_of body ''delegation_grant'')"
    and "decode token = Inr \<lparr>jc_iss = Some iss, jc_sub = Some sub, jc_jti = Some j, jc_exp = e\<rparr>" "iss \<noteq> []" "j \<noteq> []"
    and "findByEmail iss (ip_users s) = Some u" "us_isActive u" "ssh_findByUser iss (ip_ssh s) = k # ks"
    and "verify token (keyOf (sk_publicKey k)) (issuer @ ''/token'') 5 now = decode token" "j \<notin> fst ` set (ip_jtis s)"
  shows "fst (handleClientCredentialsGrant decode verify keyOf store now jti nonce issuer body (s, g)) =
    AgentToken \<lparr>at_iss = issuer, at_sub = sub, at_aud = ''apes-cli'', at_act = Agent, at_iat = now div 1000, at_exp = now div 1000 + 28800\<rparr>"
proof -
  have key: "agentKey keyOf iss s = Some (keyOf (sk_publicKey k))" using assms(8-10) by (simp add: agentKey_def)
  have "map_of (jti_cleanup now (ip_jtis s)) j = None" using assms(12) by (force simp: jti_cleanup_def map_of_eq_None_iff)
  then show ?thesis using assms(1-7,11) key
    by (simp add: handleClientCredentialsGrant_def validateClientAssertion_def hasBeenUsed_def Let_def issueAgentToken_def issueAuthToken_def
      DEFAULT_CLI_AUDIENCE_def)
qed

theorem agent_names_any_subject_witness:
  "fst (handleClientCredentialsGrant ex_decode ex_verify id InMemoryGrantStore 1000 ''j'' ''n'' ''https://idp'' (ex_form ''forged'') (ex_bot, empty_mem)) =
    AgentToken \<lparr>at_iss = ''https://idp'', at_sub = ''ann@x.io'', at_aud = ''apes-cli'', at_act = Agent, at_iat = 1, at_exp = 28801\<rparr>"
proof -
  have "ex_decode ''forged'' = Inr \<lparr>jc_iss = Some ''bot@x.io'', jc_sub = Some ''ann@x.io'', jc_jti = Some ''j1'', jc_exp = Some 300\<rparr>"
    by (simp add: ex_decode_def ex_claims_def)
  from agent_names_any_subject [of "ex_form ''forged''" "''forged''" ex_decode, OF _ _ _ _ this _ _ ex_bot_simps(1) _ ex_bot_simps(2), of ex_verify id "''https://idp''" 1000]
  show ?thesis by (simp add: ex_form_def ex_bot_simps ex_verify_def ex_decode_def)
qed

section \<open>Bearer tokens\<close>

text \<open>The signed object of \<open>issueAssertion\<close>; \<open>details\<close> writes an authorization detail.\<close>

definition assertion_payload :: "(auth_detail \<Rightarrow> jsval) \<Rightarrow> assertion \<Rightarrow> jsval jsobj" where
  "assertion_payload details a =
     [(''iss'', JStr (an_iss a)), (''sub'', JStr (an_sub a)), (''aud'', JStr (an_aud a)),
      (''act'', case an_act a of ActType Human \<Rightarrow> JStr ''human'' | ActType Agent \<Rightarrow> JStr ''agent'' | ActDelegate d \<Rightarrow> JObj [(''sub'', JStr d)]),
      (''iat'', JInt (an_iat a)), (''exp'', JInt (an_exp a)), (''jti'', JStr (an_jti a))]
     @ opt_member ''nonce'' JStr (an_nonce a) @ opt_member ''delegation_grant'' JStr (an_delegation_grant a)
     @ opt_member ''scope'' (\<lambda>xs. JArr (map JStr xs)) (an_scope a)
     @ opt_member ''delegate'' (\<lambda>d. JObj [(''sub'', JStr (dc_sub d)), (''act'', JStr ''agent''), (''grant_id'', JStr (dc_grant_id d))]) (an_delegate a)
     @ opt_member ''email'' JStr (an_email a) @ opt_member ''name'' JStr (an_name a) @ opt_member ''approver'' JStr (an_approver a)
     @ opt_member ''authorization_details'' (\<lambda>xs. JArr (map details xs)) (an_authorization_details a)"

lemma payload_members:
  "member (assertion_payload details a) ''act'' =
     (case an_act a of ActType Human \<Rightarrow> JStr ''human'' | ActType Agent \<Rightarrow> JStr ''agent'' | ActDelegate d \<Rightarrow> JObj [(''sub'', JStr d)])"
  "member (assertion_payload details a) ''sub'' = JStr (an_sub a)" "member (assertion_payload details a) ''aud'' = JStr (an_aud a)"
  by (simp_all add: assertion_payload_def member_def)

text \<open>The act of an assertion survives signing and verifying.\<close>

lemma act_roundtrip: "act_of (member (assertion_payload details a) ''act'') = Some (an_act a)"
  unfolding payload_members by (simp add: act_of_def member_def split: act_claim.split actor_type.split)

lemma delegated_refused:
  assumes "verify token issuer (Some DEFAULT_CLI_AUDIENCE) now \<in> {Inl m, Inr (assertion_payload details a)}" "an_act a = ActDelegate d"
  shows "tryBearerAuth verify issuer now (Some (''Bearer '' @ token)) = None"
proof (cases "verify token issuer (Some DEFAULT_CLI_AUDIENCE) now")
  case (Inl e)
  then show ?thesis by (simp add: tryBearerAuth_def bearer_token_def verifyAuthToken_def truthy_opt_def DEFAULT_CLI_AUDIENCE_def)
next
  case (Inr p)
  then have "p = assertion_payload details a" using assms(1) by auto
  then have "act_of (member p ''act'') = Some (ActDelegate d)" using act_roundtrip assms(2) by simp
  then show ?thesis using Inr
    by (simp add: tryBearerAuth_def bearer_token_def verifyAuthToken_def truthy_opt_def DEFAULT_CLI_AUDIENCE_def)
qed

text \<open>A delegate never reaches the endpoints of the delegator. A token that the token endpoint issued to a delegate, by the
  client-credentials branch or for a code with a delegation, is refused by the bearer check whenever it is presented,
  whatever audience it was issued for.\<close>

theorem delegate_not_bearer:
  assumes "fst (token_post decode verifyClient keyOf challenge hash InMemoryGrantStore now r issuer oth body st) = ans"
    and "ans = DelegatedToken a \<or> (\<exists>x. ans = Exchanged x \<and> a = xr_assertion x \<and> (\<exists>d. an_act a = ActDelegate d))"
    and "verify token issuer (Some DEFAULT_CLI_AUDIENCE) now2 \<in> {Inl m, Inr (assertion_payload details a)}"
  shows "tryBearerAuth verify issuer now2 (Some (''Bearer '' @ token)) = None"
proof -
  have "\<exists>d. an_act a = ActDelegate d"
  proof (cases "ans = DelegatedToken a")
    case True
    then obtain b where b: "body = Some b" "fst (handleClientCredentialsGrant decode verifyClient keyOf InMemoryGrantStore now (tr_jti r) (tr_nonce r) issuer b st) = DelegatedToken a"
      using assms(1) by (auto simp: token_post_def handleRefreshTokenGrant_def handleAuthorizationCodeGrant_def split: option.splits if_splits prod.splits sum.splits)
    obtain s g x s' g' where st: "st = (s, g)" "handleClientCredentialsGrant decode verifyClient keyOf InMemoryGrantStore now (tr_jti r) (tr_nonce r) issuer b st = (x, s', g')"
      by (metis surj_pair)
    then have x: "x = DelegatedToken a" using b(2) by simp
    then have "\<And>c e t. x \<noteq> OAuthError c e t" by simp
    with st(2) [unfolded st(1)] show ?thesis
    proof (cases rule: client_branch)
      case (2 cl s1 gr g1 y)
      then show ?thesis using x by auto
    qed (use x in auto)
  qed (use assms(2) in auto)
  then show ?thesis using delegated_refused assms(3) by blast
qed

definition ex_delegating :: mem_store where
  "ex_delegating = put_grant ''d'' (new_grant ''d'' (Some DelegationGrant)
     ((plain_request ''o@x'' ''sp'' ''sp'')\<lparr>rq_grant_type := Some Always, rq_delegator := Some ''ann@x.io'', rq_delegate := Some ''bot@x.io''\<rparr>) Approved 1) empty_mem"

definition ex_delegated_form :: form where
  "ex_delegated_form = (''grant_type'', ''client_credentials'') # (''delegation_grant'', ''d'') # (''audience'', ''sp'') # ex_form ''self''"

theorem delegate_not_bearer_witness:
  "\<exists>a. fst (token_post ex_decode ex_verify id id id InMemoryGrantStore 1000 \<lparr>tr_jti = ''j'', tr_nonce = ''n'', tr_token = ''t'', tr_family = ''f''\<rparr>
      ''https://idp'' id (Some ex_delegated_form) (ex_bot, ex_delegating)) = DelegatedToken a \<and>
     tryBearerAuth (\<lambda>_ _ _ _. Inr (assertion_payload (\<lambda>_. JNull) a)) ''https://idp'' 2000 (Some (''Bearer '' @ ''tok'')) = None"
proof -
  let ?r = "\<lparr>tr_jti = ''j'', tr_nonce = ''n'', tr_token = ''t'', tr_family = ''f''\<rparr>"
  have "agentKey id ''bot@x.io'' ex_bot = Some ''botkey''" by (simp add: agentKey_def ex_bot_simps)
  then have "\<exists>a. fst (token_post ex_decode ex_verify id id id InMemoryGrantStore 1000 ?r ''https://idp'' id (Some ex_delegated_form) (ex_bot, ex_delegating)) = DelegatedToken a"
    by (simp add: token_post_def handleClientCredentialsGrant_def ex_delegated_form_def ex_form_def validateClientAssertion_def ex_decode_def
      ex_claims_def ex_verify_def hasBeenUsed_def jti_cleanup_def ex_bot_simps Let_def validateDelegation_def useGrant_def introspectGrant_def
      ex_delegating_def isGrantExpired_def plain_request_def)
  then obtain a where a: "fst (token_post ex_decode ex_verify id id id InMemoryGrantStore 1000 ?r ''https://idp'' id (Some ex_delegated_form) (ex_bot, ex_delegating)) = DelegatedToken a" ..
  have "tryBearerAuth (\<lambda>_ _ _ _. Inr (assertion_payload (\<lambda>_. JNull) a)) ''https://idp'' 2000 (Some (''Bearer '' @ ''tok'')) = None"
    by (rule delegate_not_bearer [OF a, of a _ _ 2000 "[]" "\<lambda>_. JNull"]) simp_all
  with a show ?thesis by blast
qed

end
