(* ===== verification/AuthorizeEndpoint.thy ===== *)
theory AuthorizeEndpoint
  imports IdpEndpoints
begin

text \<open>
  \<open>routes/authorize.get.ts\<close> of the identity provider: from the request of a service to the code, a login, consent or denial
  page, or an error; and the pages' own endpoints \<open>api/authorize/consent.*.ts\<close> and \<open>denied.*.ts\<close>. \<open>ddisa domain\<close> is the
  policy mode of the domain's DNS record, \<open>url\<close> is \<open>new URL\<close>; an uncaught exception is \<open>Failed\<close>. The bearer's identity is
  the result of \<open>tryBearerAuth\<close>.
\<close>

section \<open>Requests and sessions\<close>

record authorize_query =
  aq_params :: authorize_params
  aq_delegation_grant :: string
  aq_login_hint :: string
  aq_authorization_details :: string

record pending_consent =
  pc_query :: authorize_query
  pc_csrfToken :: string
  pc_createdAt :: int

datatype deny_reason = ModeDenyReason | NotApprovedReason

record pending_deny =
  pd_query :: authorize_query
  pd_reason :: deny_reason
  pd_createdAt :: int

record session =
  se_userId :: "string option"
  se_pendingAuthorize :: "authorize_params option"
  se_returnTo :: "authorize_query option"
  se_pendingConsent :: "pending_consent option"
  se_pendingDeny :: "pending_deny option"

datatype authorize_page = AuthorizeProblem int string | BackToService string "(string \<times> string) list" | LoginPage string | DeniedPage | ConsentPage
  | CodeIssued string string string | Failed

definition userActive :: "string \<Rightarrow> idp \<Rightarrow> bool" where
  "userActive userId s = (case findByEmail userId (ip_users s) of None \<Rightarrow> True | Some u \<Rightarrow> us_isActive u)"

text \<open>\<open>String(v ?? '')\<close>\<close>

fun js_String :: "jsval \<Rightarrow> string" where
  "js_String JUndef = []"
| "js_String JNull = []"
| "js_String (JBool b) = (if b then ''true'' else ''false'')"
| "js_String (JInt i) = string_of_int i"
| "js_String JNonInt = ''NaN''"
| "js_String (JStr s) = s"
| "js_String (JArr xs) = join '','' (map js_String xs)"
| "js_String (JObj ob) = ''[object Object]''"

definition accepted_detail :: "jsval \<Rightarrow> bool" where
  "accepted_detail v = (case v of
     JObj ob \<Rightarrow> js_String (member ob ''type'') \<in> {''openape_grant'', ''openape_cli''} \<and> as_string (member ob ''action'') \<noteq> None
   | _ \<Rightarrow> False)"

definition parseAuthorizationDetails :: "(string \<Rightarrow> jsval option) \<Rightarrow> string \<Rightarrow> jsval list" where
  "parseAuthorizationDetails parse raw = (if raw = [] then []
     else case parse raw of Some (JArr xs) \<Rightarrow> filter accepted_detail xs | _ \<Rightarrow> [])"

text \<open>\<open>extractDomain\<close> of the core package: it throws unless there is exactly one \<open>@\<close> with something behind it.\<close>

definition core_extractDomain :: "string \<Rightarrow> string option" where
  "core_extractDomain email = (case split_on (CHR ''@'') email of [_, d] \<Rightarrow> if d = [] then None else Some d | _ \<Rightarrow> None)"

section \<open>Who asks\<close>

record identity =
  id_userId :: string
  id_actorType :: "actor_type option"
  id_delegationAct :: "string option"
  id_delegationGrant :: "string option"

text \<open>\<open>act_as who\<close> is the part of both branches after the actor is known: with a delegation the user is its delegator, and the
  delegation is used.\<close>

definition act_as :: "string \<Rightarrow> actor_type option \<Rightarrow> authorize_query \<Rightarrow> 'g grant_store \<Rightarrow> int \<Rightarrow> 'g \<Rightarrow> (authorize_page + identity) \<times> 'g" where
  "act_as actor actorType q store now g = (if aq_delegation_grant q = [] then
       (Inr \<lparr>id_userId = actor, id_actorType = actorType, id_delegationAct = None, id_delegationGrant = None\<rparr>, g)
     else (case validateDelegation (now div 1000) (aq_delegation_grant q) actor (ap_client_id (aq_params q)) store g of
       (Inl e, g1) \<Rightarrow> (Inl Failed, g1)
     | (Inr gr, g1) \<Rightarrow> (case useGrant (now div 1000) (gr_id gr) store g1 of
         (Inl e, g2) \<Rightarrow> (Inl Failed, g2)
       | (Inr _, g2) \<Rightarrow> (Inr \<lparr>id_userId = nullish (rq_delegator (gr_request gr)) [], id_actorType = None,
           id_delegationAct = Some actor, id_delegationGrant = Some (gr_id gr)\<rparr>, g2))))"

definition needs_login :: "session \<Rightarrow> string \<Rightarrow> bool" where
  "needs_login se hint = (\<not> truthy_str (se_userId se) \<or>
     (hint \<noteq> [] \<and> map_option (\<lambda>u. to_lower (js_trim u)) (se_userId se) \<noteq> Some hint))"

definition identify :: "auth_payload option \<Rightarrow> authorize_query \<Rightarrow> 'g grant_store \<Rightarrow> int \<Rightarrow> idp \<Rightarrow> session \<Rightarrow> 'g \<Rightarrow> (authorize_page + identity) \<times> session \<times> 'g" where
  "identify bearer q store now s se g = (let hint = to_lower (js_trim (aq_login_hint q)) in
     case bearer of
       Some p \<Rightarrow> if \<not> userActive (ay_sub p) s then (Inl (AuthorizeProblem 403 ''User is inactive''), se, g)
         else (case act_as (ay_sub p) (if ay_act p = ActType Agent then Some Agent else None) q store now g of (r, g1) \<Rightarrow> (r, se, g1))
     | None \<Rightarrow> if needs_login se hint
         then (Inl (LoginPage hint), se\<lparr>se_pendingAuthorize := Some (aq_params q), se_returnTo := Some q\<rparr>, g)
         else let u = the (se_userId se) in
           if \<not> userActive u s then (Inl (AuthorizeProblem 403 ''User is inactive''), se, g)
           else (case act_as u None q store now g of (r, g1) \<Rightarrow> (r, se, g1)))"

section \<open>The handler\<close>

definition deny_text :: "policy_mode option \<Rightarrow> string" where
  "deny_text mode = (if mode = Some ModeDeny then ''Domain owner forbids this IdP for the user's email domain.''
     else ''SP is not on the admin-curated allowlist for the user's email domain.'')"

definition invalid_request :: "url_parser \<Rightarrow> authorize_params \<Rightarrow> string \<Rightarrow> authorize_page" where
  "invalid_request url p err = (if ap_redirect_uri p \<noteq> [] \<and> url (ap_redirect_uri p) \<noteq> None
     then BackToService (ap_redirect_uri p) ([(''error'', ''invalid_request''), (''error_description'', err)]
       @ (if ap_state p \<noteq> [] then [(''state'', ap_state p)] else []))
     else AuthorizeProblem 400 err)"

definition back_to :: "url_parser \<Rightarrow> string \<Rightarrow> (string \<times> string) list \<Rightarrow> authorize_page" where
  "back_to url uri ps = (if url uri = None then Failed else BackToService uri ps)"

definition new_code :: "string \<Rightarrow> int \<Rightarrow> authorize_params \<Rightarrow> identity \<Rightarrow> code_entry" where
  "new_code code now p i = \<lparr>ce_code = code, ce_clientId = ap_client_id p, ce_redirectUri = ap_redirect_uri p, ce_codeChallenge = ap_code_challenge p,
     ce_userId = id_userId i, ce_nonce = ap_nonce p, ce_expiresAt = now + 60000, ce_act = id_actorType i, ce_delegate = None,
     ce_scope = truthy_opt (ap_scope p), ce_authorizationDetails = None, ce_delegationAct = id_delegationAct i,
     ce_delegationGrant = id_delegationGrant i\<rparr>"

text \<open>What happens once the user is known: policy, pages, the code. \<open>parse\<close> is \<open>JSON.parse\<close>, \<open>fresh\<close> the random value of the
  code or the CSRF token.\<close>

definition decide :: "url_parser \<Rightarrow> (string \<Rightarrow> policy_mode option) \<Rightarrow> (string \<Rightarrow> jsval option) \<Rightarrow> int \<Rightarrow> string \<Rightarrow> bool \<Rightarrow> authorize_query \<Rightarrow> identity
    \<Rightarrow> idp \<Rightarrow> session \<Rightarrow> authorize_page \<times> idp \<times> session" where
  "decide url ddisa parse now fresh human q i s se = (let p = aq_params q in
     case core_extractDomain (id_userId i) of None \<Rightarrow> (Failed, s, se)
     | Some domain \<Rightarrow> (let mode = ddisa domain in
         case evaluatePolicy mode (ap_client_id p) (id_userId i) (ip_consents s) (ip_allow s) of
           DenyIt \<Rightarrow> if human then (DeniedPage, s, se\<lparr>se_pendingDeny := Some \<lparr>pd_query = q,
                pd_reason = (if mode = Some ModeDeny then ModeDenyReason else NotApprovedReason), pd_createdAt = now\<rparr>\<rparr>)
              else (back_to url (ap_redirect_uri p) [(''error'', ''access_denied''), (''error_description'', deny_text mode), (''state'', ap_state p)], s, se)
         | AskConsent \<Rightarrow> if human then (ConsentPage, s, se\<lparr>se_pendingConsent := Some \<lparr>pc_query = q, pc_csrfToken = fresh, pc_createdAt = now\<rparr>\<rparr>)
              else (back_to url (ap_redirect_uri p) [(''error'', ''consent_required''), (''state'', ap_state p)], s, se)
         | AllowIt \<Rightarrow>
             if js_trim (aq_authorization_details q) \<noteq> [] \<and> parseAuthorizationDetails parse (aq_authorization_details q) \<noteq> []
             then (AuthorizeProblem 400 ''`authorization_details` is not supported on /authorize'', s, se)
             else let s1 = s\<lparr>ip_codes := code_save (new_code fresh now p i) (ip_codes s)\<rparr> in
               if url (ap_redirect_uri p) = None then (Failed, s1, se)
               else (CodeIssued (ap_redirect_uri p) fresh (ap_state p), s1,
                 if human then se\<lparr>se_pendingAuthorize := None, se_returnTo := None\<rparr> else se)))"

definition authorize_get :: "url_parser \<Rightarrow> web \<Rightarrow> resolver_options \<Rightarrow> metadata_mode \<Rightarrow> (string \<Rightarrow> policy_mode option) \<Rightarrow> (string \<Rightarrow> jsval option)
    \<Rightarrow> 'g grant_store \<Rightarrow> int \<Rightarrow> string \<Rightarrow> auth_payload option \<Rightarrow> authorize_query \<Rightarrow> idp \<times> session \<times> 'g \<Rightarrow> authorize_page \<times> idp \<times> session \<times> 'g" where
  "authorize_get url net opts mdMode ddisa parse store now fresh bearer q st = (case st of (s, se, g) \<Rightarrow> let p = aq_params q in
     (case validateAuthorizeRequest p of
        Some err \<Rightarrow> (invalid_request url p err, s, se, g)
      | None \<Rightarrow> (case validateRedirectUri url net opts now (ap_client_id p) (ap_redirect_uri p) mdMode (ip_metadata s) of
          (Some err, c) \<Rightarrow> (AuthorizeProblem 400 err, s\<lparr>ip_metadata := c\<rparr>, se, g)
        | (None, c) \<Rightarrow> let s1 = s\<lparr>ip_metadata := c\<rparr> in
            (case identify bearer q store now s1 se g of
               (Inl a, se1, g1) \<Rightarrow> (a, s1, se1, g1)
             | (Inr i, se1, g1) \<Rightarrow>
                 if aq_delegation_grant q \<noteq> [] \<and> \<not> userActive (id_userId i) s1
                 then (AuthorizeProblem 403 ''User is inactive'', s1, se1, g1)
                 else (case decide url ddisa parse now fresh (bearer = None) q i s1 se1 of (a, s2, se2) \<Rightarrow> (a, s2, se2, g1))))))"

section \<open>The consent and denial pages\<close>

definition CONSENT_TTL_MS :: int where
  "CONSENT_TTL_MS = 5 * 60000"

record consent_body =
  cb_csrfToken :: "string option"
  cb_action :: "string option"

record consent_view =
  cv_csrfToken :: string
  cv_clientId :: string
  cv_redirectUri :: string
  cv_metadata :: "client_metadata option"

definition consent_get :: "url_parser \<Rightarrow> web \<Rightarrow> resolver_options \<Rightarrow> int \<Rightarrow> idp \<Rightarrow> session \<Rightarrow> ((int \<times> string) + consent_view) \<times> idp" where
  "consent_get url net opts now s se = (if \<not> truthy_str (se_userId se) then (Inl (401, ''Not authenticated''), s)
     else case se_pendingConsent se of None \<Rightarrow> (Inl (404, ''No pending consent in session''), s)
     | Some pc \<Rightarrow> (let p = aq_params (pc_query pc) in case resolve_metadata url net opts now (ap_client_id p) (ip_metadata s) of
         (m, c) \<Rightarrow> (Inr \<lparr>cv_csrfToken = pc_csrfToken pc, cv_clientId = ap_client_id p, cv_redirectUri = ap_redirect_uri p, cv_metadata = m\<rparr>,
           s\<lparr>ip_metadata := c\<rparr>)))"

datatype page_answer = PageProblem int string | GoTo string "(string \<times> string) list" | ResumeAuthorize authorize_query | PageFailed

definition go_to :: "url_parser \<Rightarrow> string \<Rightarrow> (string \<times> string) list \<Rightarrow> string \<Rightarrow> page_answer" where
  "go_to url uri ps state = (if url uri = None then PageFailed else GoTo uri (ps @ (if state \<noteq> [] then [(''state'', state)] else [])))"

definition consent_post :: "url_parser \<Rightarrow> int \<Rightarrow> consent_body \<Rightarrow> idp \<times> session \<Rightarrow> page_answer \<times> idp \<times> session" where
  "consent_post url now body st = (case st of (s, se) \<Rightarrow>
     if \<not> truthy_str (se_userId se) then (PageProblem 401 ''Not authenticated'', s, se)
     else case se_pendingConsent se of
       None \<Rightarrow> (PageProblem 400 ''No pending consent in session'', s, se)
     | Some pc \<Rightarrow> (let p = aq_params (pc_query pc); se1 = se\<lparr>se_pendingConsent := None\<rparr> in
         if CONSENT_TTL_MS < now - pc_createdAt pc then (PageProblem 400 ''Consent request expired'', s, se1)
         else if \<not> truthy_str (cb_csrfToken body) \<or> cb_csrfToken body \<noteq> Some (pc_csrfToken pc) then (PageProblem 403 ''Invalid CSRF token'', s, se)
         else if cb_action body = Some ''cancel''
         then (go_to url (ap_redirect_uri p) [(''error'', ''access_denied'')] (ap_state p), s, se1)
         else (ResumeAuthorize (pc_query pc), s\<lparr>ip_consents := consent_save \<lparr>co_userId = the (se_userId se), co_clientId = ap_client_id p,
             co_grantedAt = now div 1000\<rparr> (ip_consents s)\<rparr>, se1)))"

definition denied_get :: "session \<Rightarrow> (int \<times> string) + (string \<times> deny_reason)" where
  "denied_get se = (case se_pendingDeny se of None \<Rightarrow> Inl (404, ''No pending deny in session'')
     | Some d \<Rightarrow> Inr (ap_client_id (aq_params (pd_query d)), pd_reason d))"

definition denied_post :: "url_parser \<Rightarrow> session \<Rightarrow> page_answer \<times> session" where
  "denied_post url se = (case se_pendingDeny se of None \<Rightarrow> (PageProblem 400 ''No pending deny in session'', se)
     | Some d \<Rightarrow> (let p = aq_params (pd_query d) in
         (go_to url (ap_redirect_uri p) [(''error'', ''access_denied''),
            (''error_description'', deny_text (if pd_reason d = ModeDenyReason then Some ModeDeny else None))] (ap_state p),
          se\<lparr>se_pendingDeny := None\<rparr>)))"

section \<open>Whose code\<close>

text \<open>Who a request may be for: the active user of the session or of the bearer token, or the active delegator of a valid
  delegation to that user for the client.\<close>

definition identified :: "auth_payload option \<Rightarrow> authorize_query \<Rightarrow> int \<Rightarrow> idp \<Rightarrow> session \<Rightarrow> mem_store \<Rightarrow> identity \<Rightarrow> bool" where
  "identified bearer q now s se g i = (\<exists>actor.
     (case bearer of Some b \<Rightarrow> actor = ay_sub b | None \<Rightarrow> se_userId se = Some actor \<and> actor \<noteq> []) \<and> userActive actor s \<and>
     (if aq_delegation_grant q = [] then id_userId i = actor \<and> id_delegationAct i = None
      else \<exists>gr. mem_findById (aq_delegation_grant q) g = Some gr \<and> gr_category gr = Some DelegationGrant \<and> gr_status gr = Approved \<and>
        \<not> isGrantExpired gr (now div 1000) \<and> rq_delegate (gr_request gr) = Some actor \<and> rq_audience (gr_request gr) \<in> {''*'', ap_client_id (aq_params q)} \<and>
        id_userId i = nullish (rq_delegator (gr_request gr)) [] \<and> id_delegationAct i = Some actor))"

lemma act_as_parts:
  assumes "act_as actor t q InMemoryGrantStore now g = (Inr i, g')" "mem_inv g"
  shows "(if aq_delegation_grant q = [] then id_userId i = actor \<and> id_delegationAct i = None
    else \<exists>gr. mem_findById (aq_delegation_grant q) g = Some gr \<and> gr_category gr = Some DelegationGrant \<and> gr_status gr = Approved \<and>
      \<not> isGrantExpired gr (now div 1000) \<and> rq_delegate (gr_request gr) = Some actor \<and> rq_audience (gr_request gr) \<in> {''*'', ap_client_id (aq_params q)} \<and>
      id_userId i = nullish (rq_delegator (gr_request gr)) [] \<and> id_delegationAct i = Some actor)"
proof (cases "aq_delegation_grant q = []")
  case True
  then show ?thesis using assms(1) by (simp add: act_as_def) auto
next
  case False
  obtain x g1 where v: "validateDelegation (now div 1000) (aq_delegation_grant q) actor (ap_client_id (aq_params q)) InMemoryGrantStore g = (x, g1)"
    by fastforce
  then obtain gr where x: "x = Inr gr" using assms(1) False by (cases x) (auto simp: act_as_def)
  have "id_userId i = nullish (rq_delegator (gr_request gr)) [] \<and> id_delegationAct i = Some actor"
    using assms(1) False v x by (auto simp: act_as_def split: prod.splits sum.splits)
  then show ?thesis using False delegation_valid [OF assms(2) v [unfolded x]] by auto
qed

lemma identify_parts:
  assumes "identify bearer q InMemoryGrantStore now s se g = (Inr i, se1, g1)" "mem_inv g"
  shows "identified bearer q now s se g i" "se1 = se"
proof -
  have "identified bearer q now s se g i \<and> se1 = se"
  proof (cases bearer)
    case (Some p)
    let ?t = "if ay_act p = ActType Agent then Some Agent else None"
    have a: "userActive (ay_sub p) s" "act_as (ay_sub p) ?t q InMemoryGrantStore now g = (Inr i, g1)" "se1 = se"
      using assms(1) Some by (auto simp: identify_def Let_def split: if_splits prod.splits)
    then show ?thesis using act_as_parts [OF a(2) assms(2)] Some by (auto simp: identified_def)
  next
    case None
    have n: "\<not> needs_login se (to_lower (js_trim (aq_login_hint q)))" using assms(1) None by (auto simp: identify_def Let_def)
    then obtain u where u: "se_userId se = Some u" "u \<noteq> []" by (auto simp: needs_login_def truthy_str_def split: option.splits)
    have a: "userActive u s" "act_as u None q InMemoryGrantStore now g = (Inr i, g1)" "se1 = se"
      using assms(1) None n u by (auto simp: identify_def Let_def split: if_splits prod.splits)
    then show ?thesis using act_as_parts [OF a(2) assms(2)] None u by (auto simp: identified_def)
  qed
  then show "identified bearer q now s se g i" "se1 = se" by auto
qed

lemma decide_code:
  assumes "decide url ddisa parse now fresh human q i s se = (CodeIssued uri code state, s', se')"
  shows "\<exists>d. core_extractDomain (id_userId i) = Some d \<and>
      evaluatePolicy (ddisa d) (ap_client_id (aq_params q)) (id_userId i) (ip_consents s) (ip_allow s) = AllowIt"
    "uri = ap_redirect_uri (aq_params q)" "code = fresh" "state = ap_state (aq_params q)"
    "s' = s\<lparr>ip_codes := code_save (new_code fresh now (aq_params q) i) (ip_codes s)\<rparr>"
  using assms by (auto simp: decide_def back_to_def Let_def split: option.splits policy_decision.splits if_splits)

lemma userActive_metadata [simp]: "userActive u (s\<lparr>ip_metadata := c\<rparr>) = userActive u s"
  by (simp add: userActive_def)

lemma identified_metadata [simp]: "identified bearer q now (s\<lparr>ip_metadata := c\<rparr>) se g i = identified bearer q now s se g i"
  by (simp add: identified_def)

lemma authorize_code:
  assumes "authorize_get url net opts mdMode ddisa parse InMemoryGrantStore now fresh bearer q (s, se, g) = (CodeIssued uri code state, s', se', g')"
    and "mem_inv g"
  shows "validateAuthorizeRequest (aq_params q) = None"
    "fst (validateRedirectUri url net opts now (ap_client_id (aq_params q)) (ap_redirect_uri (aq_params q)) mdMode (ip_metadata s)) = None"
    "uri = ap_redirect_uri (aq_params q)" "code = fresh" "state = ap_state (aq_params q)"
    "\<exists>i d. identified bearer q now s se g i \<and> userActive (id_userId i) s \<and> core_extractDomain (id_userId i) = Some d \<and>
       evaluatePolicy (ddisa d) (ap_client_id (aq_params q)) (id_userId i) (ip_consents s) (ip_allow s) = AllowIt \<and>
       ip_codes s' = code_save (new_code fresh now (aq_params q) i) (ip_codes s)"
proof -
  have ok: "validateAuthorizeRequest (aq_params q) = None"
    using assms(1) by (auto simp: authorize_get_def invalid_request_def Let_def split: option.splits if_splits)
  obtain v c where v: "validateRedirectUri url net opts now (ap_client_id (aq_params q)) (ap_redirect_uri (aq_params q)) mdMode (ip_metadata s) = (v, c)"
    by fastforce
  have vn: "v = None" using assms(1) ok v by (cases v) (auto simp: authorize_get_def Let_def)
  define s1 where "s1 = s\<lparr>ip_metadata := c\<rparr>"
  obtain r se1 g1 where i: "identify bearer q InMemoryGrantStore now s1 se g = (r, se1, g1)" by (metis surj_pair)
  have noCode: "fst (identify bearer q InMemoryGrantStore now s1 se g) \<noteq> Inl (CodeIssued uri code state)"
    by (auto simp: identify_def act_as_def Let_def split: option.splits prod.splits sum.splits if_splits)
  obtain i where r: "r = Inr i" using assms(1) ok v vn i noCode s1_def by (cases r) (auto simp: authorize_get_def Let_def)
  have act: "\<not> (aq_delegation_grant q \<noteq> [] \<and> \<not> userActive (id_userId i) s1)"
    and d: "decide url ddisa parse now fresh (bearer = None) q i s1 se1 = (CodeIssued uri code state, s', se')"
    using assms(1) ok v vn i r s1_def by (auto simp: authorize_get_def Let_def split: if_splits prod.splits)
  note ident = identify_parts [OF i [unfolded r] assms(2)]
  have "userActive (id_userId i) s1" using act ident(1) by (auto simp: identified_def)
  then show "\<exists>i d. identified bearer q now s se g i \<and> userActive (id_userId i) s \<and> core_extractDomain (id_userId i) = Some d \<and>
       evaluatePolicy (ddisa d) (ap_client_id (aq_params q)) (id_userId i) (ip_consents s) (ip_allow s) = AllowIt \<and>
       ip_codes s' = code_save (new_code fresh now (aq_params q) i) (ip_codes s)"
    using ident(1) decide_code(1,5) [OF d] unfolding s1_def by auto
  show "validateAuthorizeRequest (aq_params q) = None" by (rule ok)
  show "fst (validateRedirectUri url net opts now (ap_client_id (aq_params q)) (ap_redirect_uri (aq_params q)) mdMode (ip_metadata s)) = None"
    using v vn by simp
  show "uri = ap_redirect_uri (aq_params q)" "code = fresh" "state = ap_state (aq_params q)" using decide_code(2,3,4) [OF d] by auto
qed

text \<open>C19. From the login to the token. A token got for a code that the authorization endpoint issued names exactly the user the
  request was for: the active user of the session or bearer token, or the active delegator of a valid delegation to that user,
  who then is named as the actor. The policy of the user's domain allowed the client; and the token was fetched within a minute
  by the client that asked, from the redirect address that was checked, with the verifier of the challenge it sent.\<close>

theorem login_end_to_end:
  assumes "authorize_get url net opts mdMode ddisa parse InMemoryGrantStore now fresh bearer q (s, se, g) = (CodeIssued uri code state, s', se', g')"
    and "mem_inv g" "map_of (ip_codes s2) code = map_of (ip_codes s') code" "tp_code p = code"
    and "handleTokenExchange challenge resolve withRefresh hash now2 jti token family issuer oth p s2 = (Inr r, s3)"
  shows "tp_client_id p = ap_client_id (aq_params q) \<and> tp_redirect_uri p = uri \<and> uri = ap_redirect_uri (aq_params q) \<and>
    fst (validateRedirectUri url net opts now (tp_client_id p) uri mdMode (ip_metadata s)) = None \<and>
    challenge (tp_code_verifier p) = ap_code_challenge (aq_params q) \<and> now2 \<le> now + 60000 \<and> an_aud (xr_assertion r) = ap_client_id (aq_params q) \<and>
    (\<exists>i d. identified bearer q now s se g i \<and> userActive (id_userId i) s \<and> an_sub (xr_assertion r) = id_userId i \<and>
       an_act (xr_assertion r) = (case id_delegationAct i of Some a \<Rightarrow> ActDelegate a | None \<Rightarrow> ActType (nullish (id_actorType i) Human)) \<and>
       core_extractDomain (id_userId i) = Some d \<and>
       evaluatePolicy (ddisa d) (ap_client_id (aq_params q)) (id_userId i) (ip_consents s) (ip_allow s) = AllowIt)"
proof -
  note a = authorize_code [OF assms(1,2)]
  from a(6) obtain i d where i: "identified bearer q now s se g i" "userActive (id_userId i) s" "core_extractDomain (id_userId i) = Some d"
    "evaluatePolicy (ddisa d) (ap_client_id (aq_params q)) (id_userId i) (ip_consents s) (ip_allow s) = AllowIt"
    "ip_codes s' = code_save (new_code fresh now (aq_params q) i) (ip_codes s)" by blast
  have stored: "map_of (ip_codes s2) (tp_code p) = Some (new_code fresh now (aq_params q) i)"
    using assms(3,4) i(5) a(4) by (simp add: code_save_def new_code_def update_conv')
  have e: "map_of (ip_codes s2) (tp_code p) = Some e \<and> now2 \<le> ce_expiresAt e \<and> ce_clientId e = tp_client_id p \<and> ce_redirectUri e = tp_redirect_uri p \<and>
      ce_codeChallenge e = challenge (tp_code_verifier p) \<and> an_sub (xr_assertion r) = ce_userId e \<and> an_aud (xr_assertion r) = ce_clientId e \<and>
      an_act (xr_assertion r) = (case ce_delegationAct e of Some d \<Rightarrow> ActDelegate d | None \<Rightarrow> ActType (nullish (ce_act e) Human))"
    if "e = new_code fresh now (aq_params q) i" for e
    using exchange_entry [OF assms(5)] stored that by auto
  from e [OF refl] have x: "now2 \<le> now + 60000" "ap_client_id (aq_params q) = tp_client_id p" "ap_redirect_uri (aq_params q) = tp_redirect_uri p"
    "ap_code_challenge (aq_params q) = challenge (tp_code_verifier p)" "an_sub (xr_assertion r) = id_userId i" "an_aud (xr_assertion r) = tp_client_id p"
    "an_act (xr_assertion r) = (case id_delegationAct i of Some a \<Rightarrow> ActDelegate a | None \<Rightarrow> ActType (nullish (id_actorType i) Human))"
    by (simp_all add: new_code_def split: option.splits)
  show ?thesis using x a(2,3) i(1-4) by (intro conjI exI [of _ i] exI [of _ d]) simp_all
qed

definition ex_params :: authorize_params where
  "ex_params = \<lparr>ap_client_id = ''sp'', ap_redirect_uri = ''https://sp.io/cb'', ap_state = ''st'', ap_code_challenge = ''v'', ap_code_challenge_method = ''S256'',
     ap_nonce = None, ap_response_type = ''code'', ap_scope = None\<rparr>"

definition ex_query :: authorize_query where
  "ex_query = \<lparr>aq_params = ex_params, aq_delegation_grant = [], aq_login_hint = [], aq_authorization_details = []\<rparr>"

definition ex_session :: "string \<Rightarrow> session" where
  "ex_session u = \<lparr>se_userId = Some u, se_pendingAuthorize = None, se_returnTo = None, se_pendingConsent = None, se_pendingDeny = None\<rparr>"

definition ex_server :: idp where
  "ex_server = ex_idp\<lparr>ip_codes := []\<rparr>"

lemma ex_code:
  "authorize_get ex_url ex_web ex_options Permissive (\<lambda>_. Some ModeOpen) (\<lambda>_. None) InMemoryGrantStore 1000 ''c9'' None ex_query
     (ex_server, ex_session ''ann@x.io'', empty_mem) =
   (CodeIssued ''https://sp.io/cb'' ''c9'' ''st'', ex_server\<lparr>ip_metadata := [(''sp'', \<lparr>ca_metadata = None, ca_expiresAt = 2000\<rparr>)],
      ip_codes := [(''c9'', new_code ''c9'' 1000 ex_params \<lparr>id_userId = ''ann@x.io'', id_actorType = None, id_delegationAct = None, id_delegationGrant = None\<rparr>)]\<rparr>,
    ex_session ''ann@x.io'', empty_mem)"
proof -
  have d: "core_extractDomain ''ann@x.io'' = Some ''x.io''" by code_simp
  have m: "validateRedirectUri ex_url ex_web ex_options 1000 ''sp'' ''https://sp.io/cb'' Permissive [] = (None, [(''sp'', \<lparr>ca_metadata = None, ca_expiresAt = 2000\<rparr>)])"
    by code_simp
  have v: "validateAuthorizeRequest ex_params = None" by (simp add: validateAuthorizeRequest_def ex_params_def)
  have i: "identify None ex_query InMemoryGrantStore 1000 (ex_server\<lparr>ip_metadata := c\<rparr>) (ex_session ''ann@x.io'') empty_mem =
    (Inr \<lparr>id_userId = ''ann@x.io'', id_actorType = None, id_delegationAct = None, id_delegationGrant = None\<rparr>, ex_session ''ann@x.io'', empty_mem)" for c
    by (simp add: identify_def needs_login_def act_as_def userActive_def ex_query_def ex_session_def ex_server_def ex_idp_def js_trim_def to_lower_def
      findByEmail_def Let_def)
  have u: "ex_url ''https://sp.io/cb'' = Some (''https:'', ''https://sp.io/cb'')" by (simp add: ex_url_def)
  show ?thesis
    using m v i by (simp add: authorize_get_def decide_def d u ex_query_def evaluatePolicy_def js_trim_def code_save_def new_code_def Let_def
      ex_session_def ex_server_def ex_idp_def ex_params_def)
qed

theorem login_end_to_end_witness:
  "\<exists>r s3. handleTokenExchange id None False id 2000 ''j'' ''t'' ''f'' ''https://idp'' id (ex_exchange\<lparr>tp_code := ''c9''\<rparr>)
     (fst (snd (authorize_get ex_url ex_web ex_options Permissive (\<lambda>_. Some ModeOpen) (\<lambda>_. None) InMemoryGrantStore 1000 ''c9'' None ex_query
       (ex_server, ex_session ''ann@x.io'', empty_mem)))) = (Inr r, s3) \<and> an_sub (xr_assertion r) = ''ann@x.io''"
proof -
  let ?s = "fst (snd (authorize_get ex_url ex_web ex_options Permissive (\<lambda>_. Some ModeOpen) (\<lambda>_. None) InMemoryGrantStore 1000 ''c9'' None ex_query
       (ex_server, ex_session ''ann@x.io'', empty_mem)))"
  obtain r s3 where r: "handleTokenExchange id None False id 2000 ''j'' ''t'' ''f'' ''https://idp'' id (ex_exchange\<lparr>tp_code := ''c9''\<rparr>) ?s = (Inr r, s3)"
    by (simp add: ex_code handleTokenExchange_def code_find_def ex_exchange_def new_code_def ex_params_def Let_def)
  have "tp_code (ex_exchange\<lparr>tp_code := ''c9''\<rparr>) = ''c9''" by simp
  note login_end_to_end [OF ex_code mem_inv_empty _ this, OF _ r]
  then have "\<exists>i. identified None ex_query 1000 ex_server (ex_session ''ann@x.io'') empty_mem i \<and> an_sub (xr_assertion r) = id_userId i"
    by (simp add: ex_code) blast
  then have "an_sub (xr_assertion r) = ''ann@x.io''" by (auto simp: identified_def ex_query_def ex_session_def)
  with r show ?thesis by blast
qed

section \<open>Consent\<close>

lemma consent_key_same_client: "consent_key u c = consent_key v c \<longleftrightarrow> u = v"
  by (simp add: consent_key_def)

lemma consent_post_parts:
  assumes "consent_post url now body (s, se) = (a, s', se')"
  shows "s' = s \<or> (\<exists>u pc. se_userId se = Some u \<and> u \<noteq> [] \<and> se_pendingConsent se = Some pc \<and> now - pc_createdAt pc \<le> CONSENT_TTL_MS \<and>
      cb_csrfToken body = Some (pc_csrfToken pc) \<and> pc_csrfToken pc \<noteq> [] \<and> cb_action body \<noteq> Some ''cancel'' \<and> a = ResumeAuthorize (pc_query pc) \<and>
      s' = s\<lparr>ip_consents := consent_save \<lparr>co_userId = u, co_clientId = ap_client_id (aq_params (pc_query pc)), co_grantedAt = now div 1000\<rparr> (ip_consents s)\<rparr>)"
    "se_userId se' = se_userId se"
  using assms by (auto simp: consent_post_def truthy_str_def Let_def split: option.splits if_splits)

lemma saved_consent: "hasConsent u c (consent_save e s) \<longleftrightarrow> consent_key (co_userId e) (co_clientId e) = consent_key u c \<or> hasConsent u c s"
  by (auto simp: hasConsent_def consent_save_def update_conv')

lemma consent_key_inj:
  assumes "CHR '':'' \<notin> set u" "CHR '':'' \<notin> set v" "consent_key u c = consent_key v d"
  shows "u = v \<and> c = d"
  using assms
proof (induction u arbitrary: v)
  case Nil
  then show ?case by (cases v) (auto simp: consent_key_def)
next
  case (Cons x u)
  then show ?case by (cases v) (auto simp: consent_key_def)
qed

text \<open>Consent is given by the person it is about. When the consent endpoint makes a user's consent to a client true, the
  session is that user's, it had been sent to the consent page for exactly this client at most five minutes before, and the
  request carries the page's secret token. (Names of users hold no colon, as e-mail addresses do not.)\<close>

theorem consent_guarded:
  assumes "consent_post url now body (s, se) = (a, s', se')" "hasConsent u c (ip_consents s')" "\<not> hasConsent u c (ip_consents s)"
    and "CHR '':'' \<notin> set u" "\<And>v. se_userId se = Some v \<Longrightarrow> CHR '':'' \<notin> set v"
  shows "se_userId se = Some u \<and> (\<exists>pc. se_pendingConsent se = Some pc \<and> ap_client_id (aq_params (pc_query pc)) = c \<and>
    now - pc_createdAt pc \<le> 300000 \<and> cb_csrfToken body = Some (pc_csrfToken pc) \<and> se_pendingConsent se' = None)"
proof -
  from consent_post_parts(1) [OF assms(1)] assms(2,3) obtain v pc where p: "se_userId se = Some v" "se_pendingConsent se = Some pc"
    "now - pc_createdAt pc \<le> CONSENT_TTL_MS" "cb_csrfToken body = Some (pc_csrfToken pc)" "a = ResumeAuthorize (pc_query pc)"
    "s' = s\<lparr>ip_consents := consent_save \<lparr>co_userId = v, co_clientId = ap_client_id (aq_params (pc_query pc)), co_grantedAt = now div 1000\<rparr> (ip_consents s)\<rparr>"
    by auto
  have "consent_key v (ap_client_id (aq_params (pc_query pc))) = consent_key u c" using assms(2,3) p(6) by (simp add: saved_consent)
  then have "v = u" "ap_client_id (aq_params (pc_query pc)) = c" using consent_key_inj assms(4,5) p(1) by blast+
  moreover have "se_pendingConsent se' = None"
    using assms(1) p(5) by (auto simp: consent_post_def go_to_def Let_def split: option.splits if_splits)
  ultimately show ?thesis using p by (simp add: CONSENT_TTL_MS_def)
qed

definition ex_asked :: session where
  "ex_asked = (ex_session ''ann@x.io'')\<lparr>se_pendingConsent := Some \<lparr>pc_query = ex_query, pc_csrfToken = ''secret'', pc_createdAt = 1000\<rparr>\<rparr>"

lemma ex_asked_simps [simp]: "se_userId ex_asked = Some ''ann@x.io''"
  "se_pendingConsent ex_asked = Some \<lparr>pc_query = ex_query, pc_csrfToken = ''secret'', pc_createdAt = 1000\<rparr>" "ap_client_id (aq_params ex_query) = ''sp''"
  by (simp_all add: ex_asked_def ex_session_def ex_query_def ex_params_def)

theorem consent_guarded_witness:
  "\<exists>pc. se_pendingConsent ex_asked = Some pc \<and> ap_client_id (aq_params (pc_query pc)) = ''sp'' \<and> 9000 - pc_createdAt pc \<le> 300000"
proof -
  obtain a s' se' where h: "consent_post ex_url 9000 \<lparr>cb_csrfToken = Some ''secret'', cb_action = None\<rparr> (ex_server, ex_asked) = (a, s', se')"
    by (metis surj_pair)
  then have "hasConsent ''ann@x.io'' ''sp'' (ip_consents s')" "\<not> hasConsent ''ann@x.io'' ''sp'' (ip_consents ex_server)"
    by (auto simp: consent_post_def CONSENT_TTL_MS_def hasConsent_def consent_save_def ex_server_def ex_idp_def)
  from consent_guarded [OF h this] show ?thesis by auto
qed

text \<open>What a request that ended on the consent page had passed.\<close>

lemma authorize_asks:
  assumes "authorize_get url net opts mdMode ddisa parse InMemoryGrantStore now fresh bearer q (s, se, g) = (ConsentPage, s', se', g')" "mem_inv g"
  shows "bearer = None" "validateAuthorizeRequest (aq_params q) = None"
    "se' = se\<lparr>se_pendingConsent := Some \<lparr>pc_query = q, pc_csrfToken = fresh, pc_createdAt = now\<rparr>\<rparr>" "\<exists>c. s' = s\<lparr>ip_metadata := c\<rparr>"
    "\<exists>i d. identify None q InMemoryGrantStore now s' se g = (Inr i, se, g') \<and> identified None q now s se g i \<and> userActive (id_userId i) s \<and>
      core_extractDomain (id_userId i) = Some d \<and> evaluatePolicy (ddisa d) (ap_client_id (aq_params q)) (id_userId i) (ip_consents s) (ip_allow s) = AskConsent"
proof -
  show ok: "validateAuthorizeRequest (aq_params q) = None"
    using assms(1) by (auto simp: authorize_get_def invalid_request_def Let_def split: option.splits if_splits)
  obtain v c where v: "validateRedirectUri url net opts now (ap_client_id (aq_params q)) (ap_redirect_uri (aq_params q)) mdMode (ip_metadata s) = (v, c)"
    by fastforce
  have vn: "v = None" using assms(1) ok v by (cases v) (auto simp: authorize_get_def Let_def)
  define s1 where "s1 = s\<lparr>ip_metadata := c\<rparr>"
  obtain r se1 g1 where i: "identify bearer q InMemoryGrantStore now s1 se g = (r, se1, g1)" by (metis surj_pair)
  have "fst (identify bearer q InMemoryGrantStore now s1 se g) \<noteq> Inl ConsentPage"
    by (auto simp: identify_def act_as_def Let_def split: option.splits prod.splits sum.splits if_splits)
  then obtain i where r: "r = Inr i" using assms(1) ok v vn i s1_def by (cases r) (auto simp: authorize_get_def Let_def)
  have act: "\<not> (aq_delegation_grant q \<noteq> [] \<and> \<not> userActive (id_userId i) s1)"
    and d: "decide url ddisa parse now fresh (bearer = None) q i s1 se1 = (ConsentPage, s', se')" and g: "g1 = g'"
    using assms(1) ok v vn i r s1_def by (auto simp: authorize_get_def Let_def split: if_splits prod.splits)
  note ident = identify_parts [OF i [unfolded r] assms(2)]
  have act': "userActive (id_userId i) s1" using act ident(1) by (auto simp: identified_def)
  have e: "bearer = None \<and> s' = s1 \<and> se' = se1\<lparr>se_pendingConsent := Some \<lparr>pc_query = q, pc_csrfToken = fresh, pc_createdAt = now\<rparr>\<rparr> \<and>
    (\<exists>d. core_extractDomain (id_userId i) = Some d \<and> evaluatePolicy (ddisa d) (ap_client_id (aq_params q)) (id_userId i) (ip_consents s1) (ip_allow s1) = AskConsent)"
    using d by (auto simp: decide_def back_to_def Let_def split: option.splits policy_decision.splits if_splits)
  show "bearer = None" "\<exists>c. s' = s\<lparr>ip_metadata := c\<rparr>" using e s1_def by auto
  show "se' = se\<lparr>se_pendingConsent := Some \<lparr>pc_query = q, pc_csrfToken = fresh, pc_createdAt = now\<rparr>\<rparr>" using e ident(2) by simp
  show "\<exists>i d. identify None q InMemoryGrantStore now s' se g = (Inr i, se, g') \<and> identified None q now s se g i \<and> userActive (id_userId i) s \<and>
      core_extractDomain (id_userId i) = Some d \<and> evaluatePolicy (ddisa d) (ap_client_id (aq_params q)) (id_userId i) (ip_consents s) (ip_allow s) = AskConsent"
    using e i r g ident act' s1_def by auto
qed

lemma ask_then_allow:
  assumes "evaluatePolicy m c u s a = AskConsent" "hasConsent u c s'"
  shows "evaluatePolicy m c u s' a = AllowIt"
  using assms by (auto simp: evaluatePolicy_def split: option.splits policy_mode.splits if_splits)

lemma ask_again:
  assumes "evaluatePolicy m c u s a = AskConsent" "\<not> hasConsent u c s'"
  shows "evaluatePolicy m c u s' a = AskConsent"
  using assms by (auto simp: evaluatePolicy_def split: option.splits policy_mode.splits if_splits)

lemma asked_no_consent: "evaluatePolicy m c u s a = AskConsent \<Longrightarrow> \<not> hasConsent u c s"
  by (auto simp: evaluatePolicy_def split: option.splits policy_mode.splits if_splits)

text \<open>Approving leads on. A person who asked for themselves and was sent to the consent page, and approves there within five
  minutes, is sent back to the same request, and the code is then issued, as long as the service's redirect address is still
  published and the policy of the domain did not change.\<close>

theorem consent_leads_to_code:
  assumes "authorize_get url net opts mdMode ddisa parse InMemoryGrantStore now fresh bearer q (s, se, g) = (ConsentPage, s1, se1, g1)" "mem_inv g"
    and "aq_delegation_grant q = []" "aq_authorization_details q = []" "url (ap_redirect_uri (aq_params q)) \<noteq> None" "fresh \<noteq> []"
    and "now2 - now \<le> 300000" "cb_csrfToken body = Some fresh" "cb_action body \<noteq> Some ''cancel''"
    and "consent_post url now2 body (s1, se1) = (a, s2, se2)"
    and "fst (validateRedirectUri url net opts now3 (ap_client_id (aq_params q)) (ap_redirect_uri (aq_params q)) mdMode (ip_metadata s2)) = None"
  shows "a = ResumeAuthorize q \<and>
    (\<exists>s3 se3. authorize_get url net opts mdMode ddisa parse InMemoryGrantStore now3 code None q (s2, se2, g1) =
      (CodeIssued (ap_redirect_uri (aq_params q)) code (ap_state (aq_params q)), s3, se3, g1))"
proof -
  note b = authorize_asks [OF assms(1,2)]
  from b(5) obtain i d where i: "identify None q InMemoryGrantStore now s1 se g = (Inr i, se, g1)" "identified None q now s se g i" "userActive (id_userId i) s"
    "core_extractDomain (id_userId i) = Some d"
    "evaluatePolicy (ddisa d) (ap_client_id (aq_params q)) (id_userId i) (ip_consents s) (ip_allow s) = AskConsent" by blast
  from i(2) assms(3) have u: "se_userId se = Some (id_userId i)" "id_userId i \<noteq> []" by (auto simp: identified_def)
  from b(4) obtain c where s1: "s1 = s\<lparr>ip_metadata := c\<rparr>" by blast
  have cp: "a = ResumeAuthorize q" "se2 = se1\<lparr>se_pendingConsent := None\<rparr>"
    "s2 = s1\<lparr>ip_consents := consent_save \<lparr>co_userId = id_userId i, co_clientId = ap_client_id (aq_params q), co_grantedAt = now2 div 1000\<rparr> (ip_consents s1)\<rparr>"
    using assms(6-10) u b(3) by (auto simp: consent_post_def CONSENT_TTL_MS_def Let_def)
  have has: "hasConsent (id_userId i) (ap_client_id (aq_params q)) (ip_consents s2)" unfolding cp(3) by (simp add: saved_consent)
  obtain c3 where c3: "validateRedirectUri url net opts now3 (ap_client_id (aq_params q)) (ap_redirect_uri (aq_params q)) mdMode (ip_metadata s2) = (None, c3)"
    using assms(11) by (cases "validateRedirectUri url net opts now3 (ap_client_id (aq_params q)) (ap_redirect_uri (aq_params q)) mdMode (ip_metadata s2)") auto
  define s3 where "s3 = s2\<lparr>ip_metadata := c3\<rparr>"
  have act: "userActive x s3 = userActive x s" for x unfolding s3_def cp(3) s1 by (simp add: userActive_def)
  have nl: "\<not> needs_login se (to_lower (js_trim (aq_login_hint q)))" using i(1) by (auto simp: identify_def Let_def)
  have same: "i = \<lparr>id_userId = id_userId i, id_actorType = None, id_delegationAct = None, id_delegationGrant = None\<rparr>" "g1 = g"
    using i(1) nl assms(3) u by (auto simp: identify_def act_as_def Let_def split: if_splits)
  have nl2: "\<not> needs_login se2 (to_lower (js_trim (aq_login_hint q)))" using nl unfolding cp(2) b(3) by (simp add: needs_login_def)
  have su: "se_userId se2 = Some (id_userId i)" using u unfolding cp(2) b(3) by simp
  have id3: "identify None q InMemoryGrantStore now3 s3 se2 g1 = (Inr i, se2, g1)"
    using nl2 su act i(3) assms(3) same(1) by (simp add: identify_def act_as_def Let_def)
  have "evaluatePolicy (ddisa d) (ap_client_id (aq_params q)) (id_userId i) (ip_consents s3) (ip_allow s3) = AllowIt"
    using ask_then_allow [OF i(5)] has unfolding s3_def cp(3) s1 by simp
  then have "\<exists>s4 se4. decide url ddisa parse now3 code True q i s3 se2 = (CodeIssued (ap_redirect_uri (aq_params q)) code (ap_state (aq_params q)), s4, se4)"
    using i(4) assms(4,5) by (auto simp: decide_def js_trim_def Let_def)
  then show ?thesis using cp(1) b(2) c3 id3 assms(3) s3_def by (auto simp: authorize_get_def Let_def)
qed

lemma ex_asks:
  "\<exists>s1 se1. authorize_get ex_url ex_web ex_options Permissive (\<lambda>_. None) (\<lambda>_. None) InMemoryGrantStore 1000 ''secret'' None ex_query
     (ex_server, ex_session ''ann@x.io'', empty_mem) = (ConsentPage, s1, se1, empty_mem) \<and> ip_metadata s1 = [(''sp'', \<lparr>ca_metadata = None, ca_expiresAt = 2000\<rparr>)]"
proof -
  have d: "core_extractDomain ''ann@x.io'' = Some ''x.io''" by code_simp
  have m: "validateRedirectUri ex_url ex_web ex_options 1000 ''sp'' ''https://sp.io/cb'' Permissive [] = (None, [(''sp'', \<lparr>ca_metadata = None, ca_expiresAt = 2000\<rparr>)])"
    by code_simp
  have v: "validateAuthorizeRequest ex_params = None" by (simp add: validateAuthorizeRequest_def ex_params_def)
  have i: "identify None ex_query InMemoryGrantStore 1000 (ex_server\<lparr>ip_metadata := c\<rparr>) (ex_session ''ann@x.io'') empty_mem =
    (Inr \<lparr>id_userId = ''ann@x.io'', id_actorType = None, id_delegationAct = None, id_delegationGrant = None\<rparr>, ex_session ''ann@x.io'', empty_mem)" for c
    by (simp add: identify_def needs_login_def act_as_def userActive_def ex_query_def ex_session_def ex_server_def ex_idp_def js_trim_def to_lower_def
      findByEmail_def Let_def)
  show ?thesis
    using m v i by (simp add: authorize_get_def decide_def d ex_query_def evaluatePolicy_def hasConsent_def Let_def ex_session_def ex_server_def ex_idp_def ex_params_def)
qed

theorem consent_leads_to_code_witness:
  "\<exists>s2 se2 s3 se3. authorize_get ex_url ex_web ex_options Permissive (\<lambda>_. None) (\<lambda>_. None) InMemoryGrantStore 1900 ''c9'' None ex_query
      (s2, se2, empty_mem) = (CodeIssued ''https://sp.io/cb'' ''c9'' ''st'', s3, se3, empty_mem)"
proof -
  obtain s1 se1 where h: "authorize_get ex_url ex_web ex_options Permissive (\<lambda>_. None) (\<lambda>_. None) InMemoryGrantStore 1000 ''secret'' None ex_query
     (ex_server, ex_session ''ann@x.io'', empty_mem) = (ConsentPage, s1, se1, empty_mem)" "ip_metadata s1 = [(''sp'', \<lparr>ca_metadata = None, ca_expiresAt = 2000\<rparr>)]"
    using ex_asks by blast
  obtain a s2 se2 where c: "consent_post ex_url 1500 \<lparr>cb_csrfToken = Some ''secret'', cb_action = None\<rparr> (s1, se1) = (a, s2, se2)" by (metis surj_pair)
  have "ip_metadata s2 = ip_metadata s1" using consent_post_parts(1) [OF c] by auto
  then have r: "fst (validateRedirectUri ex_url ex_web ex_options 1900 (ap_client_id (aq_params ex_query)) (ap_redirect_uri (aq_params ex_query)) Permissive (ip_metadata s2)) = None"
    unfolding h(2) ex_query_def ex_params_def by (simp add: validateRedirectUri_def resolve_metadata_def check_redirect_def Let_def)
  have q: "aq_delegation_grant ex_query = []" "aq_authorization_details ex_query = []" "ex_url (ap_redirect_uri (aq_params ex_query)) \<noteq> None"
    "''secret'' \<noteq> []" "(1500::int) - 1000 \<le> 300000" by (simp_all add: ex_query_def ex_params_def ex_url_def)
  from consent_leads_to_code [OF h(1) mem_inv_empty q _ _ c r, of "''c9''"] show ?thesis by (auto simp: ex_query_def ex_params_def)
qed

section \<open>Consent and delegations\<close>

lemma act_as_store:
  assumes "act_as actor t q InMemoryGrantStore now g = (Inr i, g')" "mem_inv g" "mem_findById k g = Some gr"
  shows "mem_inv g'" "\<exists>gr'. mem_findById k g' = Some gr' \<and> gr_request gr' = gr_request gr"
proof -
  have "mem_inv g' \<and> (\<exists>gr'. mem_findById k g' = Some gr' \<and> gr_request gr' = gr_request gr)"
  proof (cases "aq_delegation_grant q = []")
    case True
    then show ?thesis using assms by (simp add: act_as_def)
  next
    case False
    obtain x g1 where v: "validateDelegation (now div 1000) (aq_delegation_grant q) actor (ap_client_id (aq_params q)) InMemoryGrantStore g = (x, g1)"
      by fastforce
    then obtain d where x: "x = Inr d" using assms(1) False by (cases x) (auto simp: act_as_def)
    obtain y g2 where u: "useGrant (now div 1000) (gr_id d) InMemoryGrantStore g1 = (y, g2)" by fastforce
    then obtain z where y: "y = Inr z" "g2 = g'" using assms(1) False v x by (cases y) (auto simp: act_as_def)
    obtain w g1' where w: "introspectGrant (now div 1000) (aq_delegation_grant q) InMemoryGrantStore g = (w, g1')" by fastforce
    have "g1' = g1" using v w x by (cases w) (auto simp: validateDelegation_def split: option.splits if_splits)
    note vv = delegation_valid [OF assms(2) v [unfolded x]]
    have inv1: "mem_inv g1" and same: "mem_findById k g1 = mem_findById k g" for k
      using mem.introspect_cases [OF assms(2) w] vv \<open>g1' = g1\<close> by (auto simp: changed_one_def)
    obtain claim where claim: "st_claimOnce InMemoryGrantStore = Some claim" by (simp add: InMemoryGrantStore_def)
    show ?thesis
      by (rule mem.use_ok [OF inv1 claim u [unfolded y(1)]]) (use assms(3) same y(2) in \<open>auto split: if_splits\<close>)
  qed
  then show "mem_inv g'" "\<exists>gr'. mem_findById k g' = Some gr' \<and> gr_request gr' = gr_request gr" by auto
qed

text \<open>Consent never helps a delegate. The consent page records the consent of the person in front of it, while the policy asks
  for the consent of the user the request is for. When a request with a delegation ends on the consent page, no answer
  given there makes the resumed request issue a code: it asks again, or fails because the single-use delegation is used up.\<close>

theorem delegated_consent_never_ends:
  assumes "authorize_get url net opts mdMode ddisa parse InMemoryGrantStore now fresh None q (s, se, g) = (ConsentPage, s1, se1, g1)" "mem_inv g"
    and "aq_delegation_grant q \<noteq> []" "mem_findById (aq_delegation_grant q) g = Some gr" "rq_delegator (gr_request gr) \<noteq> se_userId se"
    and "consent_post url now2 body (s1, se1) = (a, s2, se2)"
  shows "fst (authorize_get url net opts mdMode ddisa parse InMemoryGrantStore now3 fresh3 None q (s2, se2, g1)) \<noteq> CodeIssued uri code state"
proof
  assume "fst (authorize_get url net opts mdMode ddisa parse InMemoryGrantStore now3 fresh3 None q (s2, se2, g1)) = CodeIssued uri code state"
  then obtain s4 se4 g4 where code: "authorize_get url net opts mdMode ddisa parse InMemoryGrantStore now3 fresh3 None q (s2, se2, g1) = (CodeIssued uri code state, s4, se4, g4)"
    by (metis prod.collapse)
  note b = authorize_asks [OF assms(1,2)]
  from b(5) obtain i d where i: "identify None q InMemoryGrantStore now s1 se g = (Inr i, se, g1)" "identified None q now s se g i"
    "core_extractDomain (id_userId i) = Some d"
    "evaluatePolicy (ddisa d) (ap_client_id (aq_params q)) (id_userId i) (ip_consents s) (ip_allow s) = AskConsent" by blast
  have boss: "id_userId i = nullish (rq_delegator (gr_request gr)) []" using i(2) assms(3,4) by (auto simp: identified_def)
  obtain actor where act: "se_userId se = Some actor" "actor \<noteq> []" using i(2) by (auto simp: identified_def)
  have "act_as actor None q InMemoryGrantStore now g = (Inr i, g1)"
    using i(1) act by (auto simp: identify_def Let_def split: if_splits prod.splits)
  from act_as_store [OF this assms(2,4)] obtain gr' where g1: "mem_inv g1" "mem_findById (aq_delegation_grant q) g1 = Some gr'" "gr_request gr' = gr_request gr"
    by blast
  from authorize_code(6) [OF code g1(1)] obtain i3 d3 where i3: "identified None q now3 s2 se2 g1 i3" "core_extractDomain (id_userId i3) = Some d3"
    "evaluatePolicy (ddisa d3) (ap_client_id (aq_params q)) (id_userId i3) (ip_consents s2) (ip_allow s2) = AllowIt" by blast
  have same: "id_userId i3 = id_userId i" using i3(1) g1 assms(3) boss by (auto simp: identified_def)
  have ne: "id_userId i \<noteq> actor" using boss assms(5) act by (cases "rq_delegator (gr_request gr)") auto
  have "\<not> hasConsent (id_userId i) (ap_client_id (aq_params q)) (ip_consents s)" using asked_no_consent [OF i(4)] .
  then have "\<not> hasConsent (id_userId i) (ap_client_id (aq_params q)) (ip_consents s2)" "ip_allow s2 = ip_allow s"
    using consent_post_parts(1) [OF assms(6)] b(3,4) act ne by (auto simp: saved_consent consent_key_same_client)
  then have "evaluatePolicy (ddisa d) (ap_client_id (aq_params q)) (id_userId i) (ip_consents s2) (ip_allow s2) = AskConsent"
    using ask_again [OF i(4)] by simp
  then show False using i3(2,3) i(3) same by simp
qed

definition ex_boss :: mem_store where
  "ex_boss = put_grant ''d'' (new_grant ''d'' (Some DelegationGrant)
     ((plain_request ''o@x'' ''sp'' ''sp'')\<lparr>rq_grant_type := Some Always, rq_delegator := Some ''bob@x.io'', rq_delegate := Some ''ann@x.io''\<rparr>) Approved 1) empty_mem"

definition ex_delegate_query :: authorize_query where
  "ex_delegate_query = ex_query\<lparr>aq_delegation_grant := ''d''\<rparr>"

theorem delegated_consent_never_ends_witness:
  "\<exists>s1 se1 s2 se2. authorize_get ex_url ex_web ex_options Permissive (\<lambda>_. None) (\<lambda>_. None) InMemoryGrantStore 1000 ''secret'' None ex_delegate_query
      (ex_server, ex_session ''ann@x.io'', ex_boss) = (ConsentPage, s1, se1, ex_boss) \<and>
    consent_post ex_url 1500 \<lparr>cb_csrfToken = Some ''secret'', cb_action = None\<rparr> (s1, se1) = (ResumeAuthorize ex_delegate_query, s2, se2) \<and>
    fst (authorize_get ex_url ex_web ex_options Permissive (\<lambda>_. None) (\<lambda>_. None) InMemoryGrantStore 1900 ''c9'' None ex_delegate_query (s2, se2, ex_boss))
      \<noteq> CodeIssued ''https://sp.io/cb'' ''c9'' ''st''"
proof -
  have d: "core_extractDomain ''bob@x.io'' = Some ''x.io''" by code_simp
  have m: "validateRedirectUri ex_url ex_web ex_options 1000 ''sp'' ''https://sp.io/cb'' Permissive [] = (None, [(''sp'', \<lparr>ca_metadata = None, ca_expiresAt = 2000\<rparr>)])"
    by code_simp
  have v: "validateAuthorizeRequest ex_params = None" by (simp add: validateAuthorizeRequest_def ex_params_def)
  have inv: "mem_inv ex_boss" unfolding ex_boss_def by (intro mem_inv_put mem_inv_empty) simp
  have gr: "mem_findById ''d'' ex_boss = Some (new_grant ''d'' (Some DelegationGrant)
     ((plain_request ''o@x'' ''sp'' ''sp'')\<lparr>rq_grant_type := Some Always, rq_delegator := Some ''bob@x.io'', rq_delegate := Some ''ann@x.io''\<rparr>) Approved 1)"
    by (simp add: ex_boss_def)
  have i: "identify None ex_delegate_query InMemoryGrantStore 1000 (ex_server\<lparr>ip_metadata := c\<rparr>) (ex_session ''ann@x.io'') ex_boss =
    (Inr \<lparr>id_userId = ''bob@x.io'', id_actorType = None, id_delegationAct = Some ''ann@x.io'', id_delegationGrant = Some ''d''\<rparr>, ex_session ''ann@x.io'', ex_boss)" for c
    using gr by (simp add: identify_def needs_login_def act_as_def userActive_def ex_delegate_query_def ex_query_def ex_params_def ex_session_def ex_server_def ex_idp_def
      js_trim_def to_lower_def findByEmail_def validateDelegation_def useGrant_def introspectGrant_def isGrantExpired_def plain_request_def Let_def)
  obtain s1 se1 where h: "authorize_get ex_url ex_web ex_options Permissive (\<lambda>_. None) (\<lambda>_. None) InMemoryGrantStore 1000 ''secret'' None ex_delegate_query
     (ex_server, ex_session ''ann@x.io'', ex_boss) = (ConsentPage, s1, se1, ex_boss)"
    and se1: "se1 = (ex_session ''ann@x.io'')\<lparr>se_pendingConsent := Some \<lparr>pc_query = ex_delegate_query, pc_csrfToken = ''secret'', pc_createdAt = 1000\<rparr>\<rparr>"
    using m v i by (simp add: authorize_get_def decide_def d ex_delegate_query_def ex_query_def evaluatePolicy_def hasConsent_def userActive_def findByEmail_def Let_def
      ex_session_def ex_server_def ex_idp_def ex_params_def)
  obtain s2 se2 where c: "consent_post ex_url 1500 \<lparr>cb_csrfToken = Some ''secret'', cb_action = None\<rparr> (s1, se1) = (ResumeAuthorize ex_delegate_query, s2, se2)"
    by (simp add: consent_post_def se1 ex_session_def CONSENT_TTL_MS_def Let_def)
  have "aq_delegation_grant ex_delegate_query = ''d''" "rq_delegator (gr_request (new_grant ''d'' (Some DelegationGrant)
     ((plain_request ''o@x'' ''sp'' ''sp'')\<lparr>rq_grant_type := Some Always, rq_delegator := Some ''bob@x.io'', rq_delegate := Some ''ann@x.io''\<rparr>) Approved 1)) \<noteq> se_userId (ex_session ''ann@x.io'')"
    by (simp_all add: ex_delegate_query_def ex_session_def)
  then have "fst (authorize_get ex_url ex_web ex_options Permissive (\<lambda>_. None) (\<lambda>_. None) InMemoryGrantStore 1900 ''c9'' None ex_delegate_query (s2, se2, ex_boss))
      \<noteq> CodeIssued ''https://sp.io/cb'' ''c9'' ''st''"
    using delegated_consent_never_ends [OF h inv _ _ _ c] gr by simp
  with h c show ?thesis by blast
qed

end
