(* ===== verification/ProxyRules.thy ===== *)
theory ProxyRules
  imports Globs Json Types "HOL-Library.Word"
begin

unbundle bit_operations_syntax

text \<open>
  The rules of the egress proxy, \<open>packages/proxy/src\<close>: \<open>matcher.ts\<close> (deny, allow and grant rules), \<open>ssrf.ts\<close> (addresses a request may
  not reach), \<open>secrets-match.ts\<close> and \<open>secrets-store.ts\<close> (secrets put into requests). The patterns escape every special character but
  the question mark, which stays a quantifier: a pattern is a list of alternatives, \<open>None\<close> when the expression does not compile.
  An IPv4 address is a 32-bit word. \<open>isIP\<close> of Node is written out for both address families.
\<close>

section \<open>Patterns\<close>

datatype pattern_token = Tok glob_atom | Quantifier

fun rule_tokens :: "string \<Rightarrow> pattern_token list" where
  "rule_tokens [] = []"
| "rule_tokens (c # cs) = (if c = CHR ''*''
     then (case cs of d # ds \<Rightarrow> if d = CHR ''*'' then Tok Run # rule_tokens ds else Tok SegRun # rule_tokens cs | [] \<Rightarrow> [Tok SegRun])
     else (if c = CHR ''?'' then Quantifier else Tok (Lit c)) # rule_tokens cs)"

fun secret_tokens :: "string \<Rightarrow> pattern_token list" where
  "secret_tokens [] = []"
| "secret_tokens (c # cs) = (if c = CHR ''*'' then Tok Run else if c = CHR ''?'' then Quantifier else Tok (Lit c)) # secret_tokens cs"

text \<open>An atom may carry up to two question marks when it is a literal (optional, then lazy), one when it is a run (lazy).\<close>

definition quantified :: "glob_atom \<Rightarrow> nat \<Rightarrow> glob_atom list list option" where
  "quantified a n = (case a of Lit c \<Rightarrow> (if n = 0 then Some [[a]] else if n \<le> 2 then Some [[a], []] else None)
     | _ \<Rightarrow> (if n \<le> 1 then Some [[a]] else None))"

fun alternatives :: "pattern_token list \<Rightarrow> glob_atom list list option" where
  "alternatives [] = Some [[]]"
| "alternatives (Quantifier # ts) = None"
| "alternatives (Tok a # ts) = (let n = length (takeWhile (\<lambda>t. t = Quantifier) ts) in
     case (quantified a n, alternatives (drop n ts)) of
       (Some xs, Some ys) \<Rightarrow> Some (concat (map (\<lambda>x. map (\<lambda>y. x @ y) ys) xs))
     | _ \<Rightarrow> None)"

definition pattern_test :: "pattern_token list \<Rightarrow> string \<Rightarrow> bool option" where
  "pattern_test ts s = map_option (\<lambda>alts. list_ex (\<lambda>as. glob_match as s) alts) (alternatives ts)"

definition globMatch :: "string \<Rightarrow> string \<Rightarrow> bool option" where
  "globMatch pattern s = pattern_test (rule_tokens pattern) s"

section \<open>Rules\<close>

datatype default_action = AllowAction | BlockAction | RequestAction | RequestAsync

record rule_entry =
  ru_domain :: string
  ru_methods :: "string list option"
  ru_path :: "string option"
  ru_note :: "string option"

record grant_rule = rule_entry +
  ru_grant_type :: grant_type
  ru_permissions :: "string list option"
  ru_duration :: "int option"

datatype rule_action = AllowRule | DenyRule "string option" | GrantRequired grant_rule

text \<open>\<open>toUpperCase\<close> of a method name, which is ASCII.\<close>

definition to_upper :: "string \<Rightarrow> string" where
  "to_upper s = map (\<lambda>c. let n = (of_char c :: nat) in if 97 \<le> n \<and> n \<le> 122 then char_of (n - 32) else c) s"

definition matchesRule :: "'a rule_entry_scheme \<Rightarrow> string \<Rightarrow> string \<Rightarrow> string \<Rightarrow> bool option" where
  "matchesRule r domain method path = (case globMatch (ru_domain r) domain of
     None \<Rightarrow> None | Some False \<Rightarrow> Some False
   | Some True \<Rightarrow>
       if ru_methods r \<noteq> None \<and> ru_methods r \<noteq> Some [] \<and> to_upper method \<notin> set (the (ru_methods r)) then Some False
       else if truthy_str (ru_path r) then globMatch (the (ru_path r)) path else Some True)"

text \<open>The first rule of a list that matches; the outer \<open>None\<close> is an expression that does not compile.\<close>

fun first_rule :: "'a rule_entry_scheme list \<Rightarrow> string \<Rightarrow> string \<Rightarrow> string \<Rightarrow> 'a rule_entry_scheme option option" where
  "first_rule [] domain method path = Some None"
| "first_rule (r # rs) domain method path = (case matchesRule r domain method path of None \<Rightarrow> None
     | Some True \<Rightarrow> Some (Some r) | Some False \<Rightarrow> first_rule rs domain method path)"

definition catch_all :: grant_rule where
  "catch_all = \<lparr>ru_domain = ''*'', ru_methods = None, ru_path = None, ru_note = None, ru_grant_type = Once, ru_permissions = None, ru_duration = None\<rparr>"

record rule_lists =
  rl_allow :: "rule_entry list"
  rl_deny :: "rule_entry list"
  rl_grant_required :: "grant_rule list"

definition evaluateRules :: "default_action \<Rightarrow> rule_lists \<Rightarrow> string \<Rightarrow> string \<Rightarrow> string \<Rightarrow> rule_action option" where
  "evaluateRules action rl domain method path = (case first_rule (rl_deny rl) domain method path of None \<Rightarrow> None
     | Some (Some r) \<Rightarrow> Some (DenyRule (ru_note r))
     | Some None \<Rightarrow> (case first_rule (rl_allow rl) domain method path of None \<Rightarrow> None
         | Some (Some r) \<Rightarrow> Some AllowRule
         | Some None \<Rightarrow> (case first_rule (rl_grant_required rl) domain method path of None \<Rightarrow> None
             | Some (Some r) \<Rightarrow> Some (GrantRequired r)
             | Some None \<Rightarrow> Some (if action = BlockAction then DenyRule (Some ''No matching rule (default: block)'')
                 else if action = AllowAction then AllowRule else GrantRequired catch_all))))"

section \<open>Addresses\<close>

definition octet :: "string \<Rightarrow> nat option" where
  "octet s = (if s \<noteq> [] \<and> list_all is_digit s \<and> length s \<le> 3 \<and> (length s = 1 \<or> hd s \<noteq> CHR ''0'') \<and> nat_of_digits s \<le> 255
     then Some (nat_of_digits s) else None)"

definition octets :: "string \<Rightarrow> (nat \<times> nat \<times> nat \<times> nat) option" where
  "octets s = (case map octet (split_on (CHR ''.'') s) of [Some a, Some b, Some c, Some d] \<Rightarrow> Some (a, b, c, d) | _ \<Rightarrow> None)"

definition hex_group :: "string \<Rightarrow> 16 word option" where
  "hex_group s = (if s \<noteq> [] \<and> length s \<le> 4 \<and> list_all (\<lambda>c. is_digit c \<or> lower_char c \<in> set ''abcdef'') s
     then Some (of_nat (foldl (\<lambda>n c. 16 * n + (if is_digit c then of_char c - 48 else of_char (lower_char c) - 87)) 0 s)) else None)"

text \<open>The groups of one side of an IPv6 address; the last one may be an IPv4 address, which counts as two.\<close>

fun groups :: "bool \<Rightarrow> string list \<Rightarrow> 16 word list option" where
  "groups v4 [] = Some []"
| "groups v4 [s] = (case hex_group s of Some w \<Rightarrow> Some [w]
     | None \<Rightarrow> (if v4 then map_option (\<lambda>(a, b, c, d). [of_nat (256 * a + b), of_nat (256 * c + d)]) (octets s) else None))"
| "groups v4 (s # ss) = (case (hex_group s, groups v4 ss) of (Some w, Some ws) \<Rightarrow> Some (w # ws) | _ \<Rightarrow> None)"

fun at_double_colon :: "string \<Rightarrow> (string \<times> string) option" where
  "at_double_colon [] = None"
| "at_double_colon [c] = None"
| "at_double_colon (c # d # s) = (if c = CHR '':'' \<and> d = CHR '':'' then Some ([], s)
     else map_option (\<lambda>(l, r). (c # l, r)) (at_double_colon (d # s)))"

definition side :: "bool \<Rightarrow> string \<Rightarrow> 16 word list option" where
  "side v4 s = (if s = [] then Some [] else groups v4 (split_on (CHR '':'') s))"

definition zone_ok :: "string \<Rightarrow> bool" where
  "zone_ok s = (s = [] \<or> (hd s = CHR ''%'' \<and> tl s \<noteq> [] \<and> list_all (\<lambda>c. is_letter c \<or> is_digit c \<or> c \<in> set ''-.:'') (tl s)))"

definition ipv6_words :: "string \<Rightarrow> 16 word list option" where
  "ipv6_words ip = (let s = takeWhile (\<lambda>c. c \<noteq> CHR ''%'') ip in
     if \<not> zone_ok (dropWhile (\<lambda>c. c \<noteq> CHR ''%'') ip) then None
     else case at_double_colon s of
       None \<Rightarrow> (case side True s of Some ws \<Rightarrow> if length ws = 8 then Some ws else None | None \<Rightarrow> None)
     | Some (l, r) \<Rightarrow> (case (side False l, side True r) of
         (Some ls, Some rs) \<Rightarrow> if length ls + length rs \<le> 7 then Some (ls @ replicate (8 - length ls - length rs) 0 @ rs) else None
       | _ \<Rightarrow> None))"

definition isIP :: "string \<Rightarrow> nat" where
  "isIP s = (if octets s \<noteq> None then 4 else if ipv6_words s \<noteq> None then 6 else 0)"

definition PRIVATE_RANGES_V4 :: "(32 word \<times> 32 word) list" where
  "PRIVATE_RANGES_V4 = [(0x7F000000, 0xFF000000), (0x0A000000, 0xFF000000), (0xAC100000, 0xFFF00000),
     (0xC0A80000, 0xFFFF0000), (0xA9FE0000, 0xFFFF0000), (0x00000000, 0xFF000000)]"

definition ipv4ToNumber :: "nat \<times> nat \<times> nat \<times> nat \<Rightarrow> 32 word" where
  "ipv4ToNumber q = (case q of (a, b, c, d) \<Rightarrow> push_bit 24 (of_nat a) OR push_bit 16 (of_nat b) OR push_bit 8 (of_nat c) OR of_nat d)"

definition private_number :: "32 word \<Rightarrow> bool" where
  "private_number n = list_ex (\<lambda>(prefix, m). n AND m = prefix) PRIVATE_RANGES_V4"

text \<open>\<open>Number\<close> of four runs of digits, as the mapped form and \<open>isIP\<close> guarantee.\<close>

definition isPrivateIPv4 :: "string \<Rightarrow> bool" where
  "isPrivateIPv4 ip = (case map nat_of_digits (split_on (CHR ''.'') ip) of [a, b, c, d] \<Rightarrow> private_number (ipv4ToNumber (a, b, c, d)) | _ \<Rightarrow> False)"

definition mapped_v4 :: "string \<Rightarrow> string option" where
  "mapped_v4 s = (if starts_with s ''::ffff:'' then (let r = drop 7 s; parts = split_on (CHR ''.'') r in
     if length parts = 4 \<and> list_all (\<lambda>p. p \<noteq> [] \<and> list_all is_digit p) parts then Some r else None) else None)"

definition isPrivateIPv6 :: "string \<Rightarrow> bool" where
  "isPrivateIPv6 ip = (let n = to_lower ip in
     n = ''::1'' \<or> n = ''::'' \<or> list_ex (starts_with n) [''fe8'', ''fe9'', ''fea'', ''feb'', ''fd'']
     \<or> (case mapped_v4 n of None \<Rightarrow> False | Some v \<Rightarrow> isPrivateIPv4 v))"

definition isPrivateIP :: "string \<Rightarrow> bool" where
  "isPrivateIP ip = (if isIP ip = 4 then isPrivateIPv4 ip else if isIP ip = 6 then isPrivateIPv6 ip else False)"

datatype egress_result = EgressOk | EgressPrivate | Unresolvable string

text \<open>\<open>dns4\<close> and \<open>dns6\<close> are the two queries, \<open>None\<close> when rejected.\<close>

definition checkEgress :: "(string \<Rightarrow> string list option) \<Rightarrow> (string \<Rightarrow> string list option) \<Rightarrow> string \<Rightarrow> egress_result" where
  "checkEgress dns4 dns6 hostname = (if isIP hostname \<noteq> 0 then if isPrivateIP hostname then EgressPrivate else EgressOk
     else if hostname = ''localhost'' then EgressPrivate
     else let addrs = nullish (dns4 hostname) [] @ nullish (dns6 hostname) [] in
       if addrs = [] then Unresolvable ''no-records'' else if list_ex isPrivateIP addrs then EgressPrivate else EgressOk)"

definition isPrivateOrLoopback :: "(string \<Rightarrow> string list option) \<Rightarrow> (string \<Rightarrow> string list option) \<Rightarrow> string \<Rightarrow> bool" where
  "isPrivateOrLoopback dns4 dns6 hostname = (checkEgress dns4 dns6 hostname \<noteq> EgressOk)"

section \<open>Secrets\<close>

record secret_entry =
  sc_name :: string
  sc_target :: string
  sc_header :: string
  sc_template :: string
  sc_secret :: string

record target_url =
  tu_hostname :: string
  tu_port :: string
  tu_pathname :: string

definition literalPrefixLen :: "string \<Rightarrow> nat" where
  "literalPrefixLen glob = length (takeWhile (\<lambda>c. c \<noteq> CHR ''*'') glob)"

definition targetString :: "target_url \<Rightarrow> string" where
  "targetString u = tu_hostname u @ (if tu_port u \<noteq> [] then CHR '':'' # tu_port u else []) @ (if tu_pathname u = ''/'' then [] else tu_pathname u)"

definition secret_applies :: "target_url \<Rightarrow> secret_entry \<Rightarrow> bool option" where
  "secret_applies u e = (case alternatives (secret_tokens (sc_target e)) of None \<Rightarrow> None
     | Some alts \<Rightarrow> Some (list_ex (\<lambda>as. glob_match as (targetString u) \<or> glob_match as (targetString u @ ''/'')) alts))"

fun best_secret :: "target_url \<Rightarrow> secret_entry list \<Rightarrow> secret_entry option \<Rightarrow> secret_entry option option" where
  "best_secret u [] best = Some best"
| "best_secret u (e # es) best = (case secret_applies u e of None \<Rightarrow> None
     | Some False \<Rightarrow> best_secret u es best
     | Some True \<Rightarrow> best_secret u es (case best of None \<Rightarrow> Some e
         | Some b \<Rightarrow> if literalPrefixLen (sc_target b) < literalPrefixLen (sc_target e) then Some e else best))"

definition matchSecret :: "target_url \<Rightarrow> secret_entry list \<Rightarrow> secret_entry option option" where
  "matchSecret u es = best_secret u es None"

text \<open>\<open>template.replace(/\$\{value\}/g, value)\<close>: in the replacement \<open>$$\<close>, \<open>$&\<close>, \<open>$`\<close> and \<open>$'\<close> are patterns; \<open>pre\<close> and \<open>post\<close> are what is
  before and after the match.\<close>

definition placeholder :: string where
  "placeholder = ''${value}''"

fun expand_dollar :: "string \<Rightarrow> string \<Rightarrow> string \<Rightarrow> string" where
  "expand_dollar pre post [] = []"
| "expand_dollar pre post [c] = [c]"
| "expand_dollar pre post (c # d # s) = (if c = CHR ''$'' \<and> d = CHR ''$'' then CHR ''$'' # expand_dollar pre post s
     else if c = CHR ''$'' \<and> d = CHR ''&'' then placeholder @ expand_dollar pre post s
     else if c = CHR ''$'' \<and> d = CHR ''`'' then pre @ expand_dollar pre post s
     else if c = CHR ''$'' \<and> d = CHR 0x27 then post @ expand_dollar pre post s
     else c # expand_dollar pre post (d # s))"

function replace_all :: "string \<Rightarrow> string \<Rightarrow> string \<Rightarrow> string" where
  "replace_all done v [] = []"
| "replace_all done v (c # cs) = (if starts_with (c # cs) placeholder
     then expand_dollar done (drop 8 (c # cs)) v @ replace_all (done @ placeholder) v (drop 8 (c # cs))
     else c # replace_all (done @ [c]) v cs)"
  by pat_completeness auto
termination by (relation "measure (\<lambda>(_, _, s). length s)") auto

definition render_secret :: "secret_entry \<Rightarrow> string" where
  "render_secret e = replace_all [] (sc_secret e) (sc_template e)"

text \<open>\<open>parseSecretsBlob\<close> after the TOML parser: \<open>bytes\<close> is the length of the text, \<open>entries\<close> are \<open>Object.entries\<close> of its block.\<close>

datatype secrets_error = BlobTooLarge | UnsupportedVersion | MissingField string string | DuplicateTarget string

definition secret_field :: "jsval jsobj \<Rightarrow> string \<Rightarrow> string option" where
  "secret_field ob k = (case member ob k of JStr s \<Rightarrow> if s = [] then None else Some s | _ \<Rightarrow> None)"

fun read_secrets :: "(string \<times> jsval jsobj) list \<Rightarrow> secrets_error + secret_entry list" where
  "read_secrets [] = Inr []"
| "read_secrets ((name, raw) # rs) = (case filter (\<lambda>k. secret_field raw k = None) [''target'', ''header'', ''template'', ''value''] of
     k # _ \<Rightarrow> Inl (MissingField name k)
   | [] \<Rightarrow> (case read_secrets rs of Inl e \<Rightarrow> Inl e
       | Inr es \<Rightarrow> Inr (\<lparr>sc_name = name, sc_target = the (secret_field raw ''target''), sc_header = the (secret_field raw ''header''),
           sc_template = the (secret_field raw ''template''), sc_secret = the (secret_field raw ''value'')\<rparr> # es)))"

fun duplicate_target :: "string list \<Rightarrow> string option" where
  "duplicate_target [] = None"
| "duplicate_target (t # ts) = (case duplicate_target ts of Some d \<Rightarrow> Some d | None \<Rightarrow> if t \<in> set ts then Some t else None)"

definition parseSecretsBlob :: "nat \<Rightarrow> jsval \<Rightarrow> (string \<times> jsval jsobj) list option \<Rightarrow> secrets_error + secret_entry list" where
  "parseSecretsBlob bytes version block = (if 4 * 1024 < bytes then Inl BlobTooLarge
     else if version \<noteq> JStr ''1'' then Inl UnsupportedVersion
     else case read_secrets (nullish block []) of Inl e \<Rightarrow> Inl e
     | Inr es \<Rightarrow> (case duplicate_target (rev (map sc_target es)) of Some t \<Rightarrow> Inl (DuplicateTarget t) | None \<Rightarrow> Inr es))"

section \<open>Private IPv4 addresses\<close>

lemma octet_bound: "octet s = Some n \<Longrightarrow> n \<le> 255 \<and> nat_of_digits s = n"
  by (auto simp: octet_def split: if_splits)

lemma octets_parts:
  assumes "octets ip = Some (a, b, c, d)"
  shows "a \<le> 255" "b \<le> 255" "c \<le> 255" "d \<le> 255" "map nat_of_digits (split_on (CHR ''.'') ip) = [a, b, c, d]"
proof -
  obtain w x y z where s: "split_on (CHR ''.'') ip = [w, x, y, z]" "octet w = Some a" "octet x = Some b" "octet y = Some c" "octet z = Some d"
    using assms by (auto simp: octets_def map_eq_Cons_conv split: list.splits option.splits)
  then show "a \<le> 255" "b \<le> 255" "c \<le> 255" "d \<le> 255" "map nat_of_digits (split_on (CHR ''.'') ip) = [a, b, c, d]"
    using octet_bound by auto
qed

text \<open>A word with low bits only is added to by the higher bits; a masked comparison is a comparison of the quotient.\<close>

lemma low_bits:
  fixes y :: "'a::len word"
  assumes "unat y < 2 ^ n" "n \<le> m"
  shows "\<not> bit y m"
proof -
  have "take_bit n y = y" using assms(1) by (simp add: word_unat_eq_iff unsigned_take_bit_eq take_bit_nat_eq_self)
  then show ?thesis using assms(2) by (metis bit_take_bit_iff linorder_not_less)
qed

lemma or_low:
  fixes x y :: "'a::len word"
  assumes "unat y < 2 ^ n"
  shows "push_bit n x OR y = push_bit n x + y"
  using low_bits [OF assms] by (subst disjunctive_add) (auto simp: bit_push_bit_iff not_le)

lemma shift_unat:
  assumes "a * 2 ^ n < 2 ^ LENGTH('a)"
  shows "unat (push_bit n (of_nat a) :: 'a::len word) = a * 2 ^ n"
proof -
  have "(push_bit n (of_nat a) :: 'a word) = of_nat (a * 2 ^ n)" by (simp add: push_bit_eq_mult)
  then show ?thesis using assms by (simp only: unat_of_nat mod_less)
qed

lemma number_sum:
  assumes "a \<le> 255" "b \<le> 255" "c \<le> 255" "d \<le> 255"
  shows "unat (ipv4ToNumber (a, b, c, d)) = a * 2 ^ 24 + b * 2 ^ 16 + c * 2 ^ 8 + d"
proof -
  let ?d = "of_nat d :: 32 word"
  have d: "unat ?d = d" using assms by (simp add: unat_of_nat take_bit_nat_eq_self)
  have c: "unat (push_bit 8 (of_nat c) OR ?d) = c * 2 ^ 8 + d"
    using assms d by (subst or_low) (auto simp: unat_word_ariths shift_unat)
  have b: "unat (push_bit 16 (of_nat b) OR (push_bit 8 (of_nat c) OR ?d)) = b * 2 ^ 16 + c * 2 ^ 8 + d"
    using assms c by (subst or_low) (auto simp: unat_word_ariths shift_unat)
  show ?thesis
    using assms b unfolding ipv4ToNumber_def prod.case by (subst or_low) (auto simp: unat_word_ariths shift_unat)
qed

lemma masked_range:
  fixes w :: "'a::len word"
  assumes "k < LENGTH('a)" "p < 2 ^ (LENGTH('a) - k)"
  shows "w AND push_bit k (mask (LENGTH('a) - k)) = push_bit k (of_nat p) \<longleftrightarrow> unat w div 2 ^ k = p"
proof -
  have "w AND push_bit k (mask (LENGTH('a) - k)) = push_bit k (drop_bit k w)"
    by (rule bit_word_eqI) (auto simp: bit_simps)
  moreover have "push_bit k (drop_bit k w) = push_bit k (of_nat p :: 'a word) \<longleftrightarrow> unat w div 2 ^ k = p"
  proof -
    have "unat (drop_bit k w) = drop_bit k (unat w)" by transfer (simp add: drop_bit_take_bit nat_take_bit_eq drop_bit_nat_eq)
    then have u: "unat (drop_bit k w) = unat w div 2 ^ k" by (simp only: drop_bit_eq_div)
    have of_nat_drop: "of_nat (unat w div 2 ^ k) = drop_bit k w" unfolding u [symmetric] by simp
    have "unat w div 2 ^ k * 2 ^ k \<le> unat w" by simp
    also have "unat w < 2 ^ LENGTH('a)" by simp
    finally have l: "unat (push_bit k (drop_bit k w)) = unat w div 2 ^ k * 2 ^ k"
      using shift_unat [of "unat w div 2 ^ k" k, where 'a = 'a] by (simp only: of_nat_drop)
    have "p * 2 ^ k < 2 ^ (LENGTH('a) - k) * 2 ^ k" using assms(2) by simp
    then have "p * 2 ^ k < 2 ^ LENGTH('a)" using assms(1) by (simp flip: power_add)
    then have "unat (push_bit k (of_nat p :: 'a word)) = p * 2 ^ k" by (rule shift_unat)
    with l show ?thesis by (simp add: word_unat_eq_iff)
  qed
  ultimately show ?thesis by simp
qed

lemma private_number_iff:
  "private_number w \<longleftrightarrow> unat w div 2 ^ 24 \<in> {0, 10, 127} \<or> unat w div 2 ^ 20 = 2753 \<or> unat w div 2 ^ 16 \<in> {49320, 43518}"
proof -
  have m: "(0xFF000000 :: 32 word) = push_bit 24 (mask (LENGTH(32) - 24))" "(0xFFF00000 :: 32 word) = push_bit 20 (mask (LENGTH(32) - 20))"
    "(0xFFFF0000 :: 32 word) = push_bit 16 (mask (LENGTH(32) - 16))" by (simp_all add: mask_eq_exp_minus_1)
  have p: "(0x7F000000 :: 32 word) = push_bit 24 (of_nat 127)" "(0x0A000000 :: 32 word) = push_bit 24 (of_nat 10)" "(0 :: 32 word) = push_bit 24 (of_nat 0)"
    "(0xAC100000 :: 32 word) = push_bit 20 (of_nat 2753)" "(0xC0A80000 :: 32 word) = push_bit 16 (of_nat 49320)"
    "(0xA9FE0000 :: 32 word) = push_bit 16 (of_nat 43518)" by (simp_all add: push_bit_eq_mult)
  have r: "w AND 0xFF000000 = 0x7F000000 \<longleftrightarrow> unat w div 2 ^ 24 = 127" "w AND 0xFF000000 = 0x0A000000 \<longleftrightarrow> unat w div 2 ^ 24 = 10"
    "w AND 0xFF000000 = 0 \<longleftrightarrow> unat w div 2 ^ 24 = 0" "w AND 0xFFF00000 = 0xAC100000 \<longleftrightarrow> unat w div 2 ^ 20 = 2753"
    "w AND 0xFFFF0000 = 0xC0A80000 \<longleftrightarrow> unat w div 2 ^ 16 = 49320" "w AND 0xFFFF0000 = 0xA9FE0000 \<longleftrightarrow> unat w div 2 ^ 16 = 43518"
    unfolding m p by (rule masked_range; simp)+
  show ?thesis unfolding private_number_def PRIVATE_RANGES_V4_def using r by auto
qed

definition private_block :: "nat \<Rightarrow> nat \<Rightarrow> bool" where
  "private_block a b = (a \<in> {0, 10, 127} \<or> (a = 172 \<and> 16 \<le> b \<and> b \<le> 31) \<or> (a = 192 \<and> b = 168) \<or> (a = 169 \<and> b = 254))"

lemma private_v4_iff:
  assumes "octets ip = Some (a, b, c, d)"
  shows "isPrivateIP ip \<longleftrightarrow> private_block a b"
proof -
  note o = octets_parts [OF assms]
  let ?n = "a * 2 ^ 24 + b * 2 ^ 16 + c * 2 ^ 8 + d"
  have "b * 65536 + c * 256 + d < 16777216" "c * 256 + d < 65536" using o(1-4) by linarith+
  then have n: "?n div 2 ^ 24 = a" "?n div 2 ^ 16 = a * 256 + b" by simp_all
  have "?n div 2 ^ 20 = ?n div 2 ^ 16 div 16" by (simp add: div_mult2_eq [symmetric])
  also have "\<dots> = a * 16 + b div 16" unfolding n(2) by simp
  finally have m: "?n div 2 ^ 20 = a * 16 + b div 16" .
  then have "private_number (ipv4ToNumber (a, b, c, d)) \<longleftrightarrow> a \<in> {0, 10, 127} \<or> a * 16 + b div 16 = 2753 \<or> a * 256 + b \<in> {49320, 43518}"
    unfolding private_number_iff number_sum [OF o(1-4)] n m by simp
  also have "a * 16 + b div 16 = 2753 \<longleftrightarrow> a = 172 \<and> 16 \<le> b \<and> b \<le> 31"
  proof -
    have "(a * 16 + q) div 16 = a \<and> (a * 16 + q) mod 16 = q" if "q \<le> 15" for q using that by simp
    then have "a * 16 + q = 2753 \<longleftrightarrow> a = 2753 div 16 \<and> q = 2753 mod 16" if "q \<le> 15" for q using that by (metis div_mult_mod_eq)
    then have "a * 16 + q = 2753 \<longleftrightarrow> a = 172 \<and> q = 1" if "q \<le> 15" for q using that by simp
    moreover have "b div 16 \<le> 15" "b div 16 = 1 \<longleftrightarrow> 16 \<le> b \<and> b \<le> 31" using o(2) by auto
    ultimately show ?thesis by simp
  qed
  also have "a * 256 + b \<in> {49320, 43518} \<longleftrightarrow> (a = 192 \<and> b = 168) \<or> (a = 169 \<and> b = 254)"
  proof -
    have "(a * 256 + b) div 256 = a \<and> (a * 256 + b) mod 256 = b" using o(2) by simp
    then have "a * 256 + b = k \<longleftrightarrow> a = k div 256 \<and> b = k mod 256" for k by (metis div_mult_mod_eq)
    then show ?thesis by simp
  qed
  finally show ?thesis using assms o(5) by (simp add: isPrivateIP_def isIP_def isPrivateIPv4_def private_block_def)
qed

text \<open>No request leaves for a private IPv4 address. An address in dotted notation is refused exactly when it lies in one of the
  blocks 0/8, 10/8, 127/8, 169.254/16, 172.16/12 and 192.168/16; and when a host name passes, no IPv4 address in either of
  its DNS answers lies in one of them.\<close>

theorem egress_v4_screened:
  assumes "octets ip = Some (a, b, c, d)"
  shows "checkEgress dns4 dns6 ip = (if private_block a b then EgressPrivate else EgressOk) \<and>
    (isIP host = 0 \<and> ip \<in> set (nullish (dns4 host) [] @ nullish (dns6 host) []) \<and> private_block a b \<longrightarrow> checkEgress dns4 dns6 host = EgressPrivate)"
proof -
  have "isIP ip \<noteq> 0" using assms by (simp add: isIP_def)
  then have "checkEgress dns4 dns6 ip = (if private_block a b then EgressPrivate else EgressOk)"
    using private_v4_iff [OF assms] by (simp add: checkEgress_def)
  moreover have "checkEgress dns4 dns6 host = EgressPrivate"
    if "isIP host = 0" "ip \<in> set (nullish (dns4 host) [] @ nullish (dns6 host) [])" "private_block a b"
  proof -
    have "nullish (dns4 host) [] @ nullish (dns6 host) [] \<noteq> []" "list_ex isPrivateIP (nullish (dns4 host) [] @ nullish (dns6 host) [])"
      using that private_v4_iff [OF assms] by (auto simp: list_ex_iff)
    then show ?thesis using that(1) by (auto simp: checkEgress_def Let_def)
  qed
  ultimately show ?thesis by blast
qed

theorem egress_v4_screened_witness:
  "checkEgress (\<lambda>_. Some [''10.1.2.3'']) (\<lambda>_. None) ''evil.io'' = EgressPrivate"
proof -
  have "octets ''10.1.2.3'' = Some (10, 1, 2, 3)" "isIP ''evil.io'' = 0" by code_simp+
  then show ?thesis using egress_v4_screened [of "''10.1.2.3''" 10 1 2 3 "\<lambda>_. Some [''10.1.2.3'']" "\<lambda>_. None" "''evil.io''"]
    by (simp add: private_block_def)
qed

lemmas v6_eval = ipv6_words_def zone_ok_def side_def hex_group_def is_digit_def lower_char_def octets_def octet_def nat_of_digits_def is_letter_def

text \<open>
  What the screen guarantees of an address, in numbers for IPv4 and, for IPv6, in the spellings it recognises: not the loopback and
  unspecified address in their short form, no link-local prefix, no \<open>fd\<close> prefix, and no mapped private address in dotted notation.
\<close>

definition screened :: "string \<Rightarrow> bool" where
  "screened x = (case octets x of Some (a, b, c, d) \<Rightarrow> \<not> private_block a b
     | None \<Rightarrow> ipv6_words x = None \<or> (let n = to_lower x in n \<noteq> ''::1'' \<and> n \<noteq> ''::'' \<and>
         \<not> list_ex (starts_with n) [''fe8'', ''fe9'', ''fea'', ''feb'', ''fd''] \<and>
         (case octets (drop 7 n) of Some (a, b, c, d) \<Rightarrow> starts_with n ''::ffff:'' \<longrightarrow> \<not> private_block a b | None \<Rightarrow> True)))"

lemma octet_digits: "octet p = Some v \<Longrightarrow> p \<noteq> [] \<and> list_all is_digit p"
  by (simp add: octet_def split: if_splits)

lemma octets_mapped:
  assumes "octets q = Some (a, b, c, d)"
  shows "mapped_v4 (''::ffff:'' @ q) = Some q"
proof -
  obtain p1 p2 p3 p4 where s: "split_on (CHR ''.'') q = [p1, p2, p3, p4]" "octet p1 = Some a" "octet p2 = Some b" "octet p3 = Some c" "octet p4 = Some d"
    using assms by (auto simp: octets_def split: list.splits option.splits)
  have "starts_with (''::ffff:'' @ q) ''::ffff:''" "drop 7 (''::ffff:'' @ q) = q" by simp_all
  with s show ?thesis using octet_digits by (simp only: mapped_v4_def Let_def if_True) simp
qed

lemma public_screened:
  assumes "\<not> isPrivateIP x"
  shows "screened x"
proof (cases "octets x")
  case (Some q)
  obtain a b c d where q: "q = (a, b, c, d)" by (metis prod_cases4)
  with private_v4_iff Some assms show ?thesis by (simp add: screened_def)
next
  case None
  let ?n = "to_lower x"
  have "\<not> private_block a b" if o: "octets (drop 7 ?n) = Some (a, b, c, d)" and m: "starts_with ?n ''::ffff:''" and w: "ipv6_words x \<noteq> None" for a b c d
  proof -
    obtain t where t: "?n = ''::ffff:'' @ t" using m by (auto simp: starts_with_iff)
    then have d: "drop 7 ?n = t" by simp
    have "mapped_v4 ?n = Some t" using octets_mapped [OF o] unfolding t by simp
    then have "\<not> isPrivateIPv4 t" using assms None w by (simp add: isPrivateIP_def isIP_def isPrivateIPv6_def Let_def)
    moreover have "isIP t = 4" using o unfolding d by (simp add: isIP_def)
    ultimately have "\<not> isPrivateIP t" by (simp add: isPrivateIP_def)
    with private_v4_iff o show ?thesis unfolding d by simp
  qed
  then show ?thesis using assms None
    by (auto simp: screened_def isPrivateIP_def isIP_def isPrivateIPv6_def Let_def split: option.splits)
qed

lemma egress_screened:
  assumes "checkEgress dns4 dns6 host = EgressOk"
  shows "host \<noteq> ''localhost'' \<and> (let addrs = (if isIP host \<noteq> 0 then [host] else nullish (dns4 host) [] @ nullish (dns6 host) []) in
    addrs \<noteq> [] \<and> list_all screened addrs)"
proof -
  have "isIP ''localhost'' = 0" by code_simp
  then show ?thesis using assms public_screened
    by (auto simp: checkEgress_def Let_def list_all_iff list_ex_iff split: if_splits)
qed

text \<open>Half of the private IPv6 block is not refused. A host whose only address is in the half \<open>fc00::/8\<close> of the block for
  private networks passes the check, and so do the loopback and the unspecified address when they are written out.\<close>

theorem private_v6_passes:
  assumes "isIP host = 0" "host \<noteq> ''localhost''" "dns4 host = None" "dns6 host \<in> {Some [''fc00::1''], Some [''0:0:0:0:0:0:0:1''], Some [''::ffff:7f00:1'']}"
  shows "checkEgress dns4 dns6 host = EgressOk"
proof -
  have "\<not> isPrivateIP ''fc00::1''" "\<not> isPrivateIP ''0:0:0:0:0:0:0:1''" "\<not> isPrivateIP ''::ffff:7f00:1''"
    by (simp_all add: isPrivateIP_def isIP_def isPrivateIPv6_def mapped_v4_def to_lower_def v6_eval)
  then show ?thesis using assms by (auto simp: checkEgress_def)
qed

lemma private_v6_words: "ipv6_words ''fc00::1'' = Some [0xFC00, 0, 0, 0, 0, 0, 0, 1]" "ipv6_words ''0:0:0:0:0:0:0:1'' = ipv6_words ''::1''"
  "ipv6_words ''::ffff:7f00:1'' = ipv6_words ''::ffff:127.0.0.1''"
  by (simp_all add: v6_eval) (simp_all add: numeral_eq_Suc)

theorem private_v6_passes_witness: "checkEgress (\<lambda>_. None) (\<lambda>_. Some [''fc00::1'']) ''evil.io'' = EgressOk"
proof -
  have "isIP ''evil.io'' = 0" by code_simp
  then show ?thesis using private_v6_passes [of "''evil.io''" "\<lambda>_. None" "\<lambda>_. Some [''fc00::1'']"] by simp
qed

section \<open>Rules and secrets\<close>

text \<open>The rules as a decision: whether each expression compiles is one question, which list matches first the other.\<close>

definition rule_hits :: "'a rule_entry_scheme \<Rightarrow> string \<Rightarrow> string \<Rightarrow> string \<Rightarrow> bool" where
  "rule_hits r domain method path = (matchesRule r domain method path = Some True)"

lemma first_rule_hit:
  assumes "\<forall>r\<in>set rs. matchesRule r d m p \<noteq> None"
  shows "first_rule rs d m p = Some (List.find (\<lambda>r. rule_hits r d m p) rs)"
  using assms by (induction rs) (auto simp: rule_hits_def split: option.splits bool.splits)

lemma find_some: "List.find P rs = Some r \<Longrightarrow> r \<in> set rs \<and> P r"
  by (metis find_Some_iff nth_mem)

lemma find_none: "List.find P rs = None \<longleftrightarrow> (\<forall>r\<in>set rs. \<not> P r)"
  by (auto simp: find_None_iff)

text \<open>Deny rules come first. When every pattern compiles, a request that a deny rule matches is denied whatever the other lists
  say; otherwise it passes if an allow rule matches it, else it needs a grant under the first matching grant rule; and with none
  the default action decides, a request for a single-use grant unless it is set to allow or block.\<close>

theorem rules_in_order:
  assumes "\<forall>r\<in>set (rl_deny rl). matchesRule r d m p \<noteq> None" "\<forall>r\<in>set (rl_allow rl). matchesRule r d m p \<noteq> None"
    "\<forall>r\<in>set (rl_grant_required rl). matchesRule r d m p \<noteq> None"
  shows "\<exists>a. evaluateRules action rl d m p = Some a \<and>
    ((\<exists>r\<in>set (rl_deny rl). rule_hits r d m p) \<longrightarrow> (\<exists>r\<in>set (rl_deny rl). rule_hits r d m p \<and> a = DenyRule (ru_note r))) \<and>
    (a = AllowRule \<longleftrightarrow> (\<forall>r\<in>set (rl_deny rl). \<not> rule_hits r d m p) \<and> ((\<exists>r\<in>set (rl_allow rl). rule_hits r d m p) \<or>
       (action = AllowAction \<and> (\<forall>r\<in>set (rl_grant_required rl). \<not> rule_hits r d m p)))) \<and>
    (\<forall>g. a = GrantRequired g \<longrightarrow> (g \<in> set (rl_grant_required rl) \<and> rule_hits g d m p) \<or>
       (g = catch_all \<and> action \<in> {RequestAction, RequestAsync} \<and> (\<forall>r\<in>set (rl_grant_required rl). \<not> rule_hits r d m p)))"
proof -
  note f = first_rule_hit [OF assms(1)] first_rule_hit [OF assms(2)] first_rule_hit [OF assms(3)]
  show ?thesis
  proof (cases "List.find (\<lambda>r. rule_hits r d m p) (rl_deny rl)")
    case (Some r)
    then have "evaluateRules action rl d m p = Some (DenyRule (ru_note r))" by (simp add: evaluateRules_def f)
    then show ?thesis using find_some [OF Some] by auto
  next
    case None
    note deny = None [unfolded find_none]
    show ?thesis
    proof (cases "List.find (\<lambda>r. rule_hits r d m p) (rl_allow rl)")
      case (Some r)
      then have "evaluateRules action rl d m p = Some AllowRule" using None by (simp add: evaluateRules_def f)
      then show ?thesis using find_some [OF Some] deny by auto
    next
      case no_allow: None
      note allow = no_allow [unfolded find_none]
      show ?thesis
      proof (cases "List.find (\<lambda>r. rule_hits r d m p) (rl_grant_required rl)")
        case (Some r)
        then have "evaluateRules action rl d m p = Some (GrantRequired r)" using None no_allow by (simp add: evaluateRules_def f)
        then show ?thesis using find_some [OF Some] deny allow by auto
      next
        case no_grant: None
        have "evaluateRules action rl d m p = Some (if action = BlockAction then DenyRule (Some ''No matching rule (default: block)'')
            else if action = AllowAction then AllowRule else GrantRequired catch_all)"
          using None no_allow no_grant by (simp add: evaluateRules_def f)
        then show ?thesis using deny allow no_grant [unfolded find_none] by (cases action) auto
      qed
    qed
  qed
qed

definition ex_rule :: "string \<Rightarrow> rule_entry" where
  "ex_rule d = \<lparr>ru_domain = d, ru_methods = None, ru_path = None, ru_note = None\<rparr>"

theorem rules_in_order_witness:
  "\<exists>r. evaluateRules AllowAction \<lparr>rl_allow = [ex_rule ''*''], rl_deny = [ex_rule ''*.evil.io''], rl_grant_required = []\<rparr> ''x.evil.io'' ''GET'' ''/'' = Some (DenyRule r)"
proof -
  have "matchesRule (ex_rule ''*.evil.io'') ''x.evil.io'' ''GET'' ''/'' = Some True" "matchesRule (ex_rule ''*'') ''x.evil.io'' ''GET'' ''/'' = Some True"
    by code_simp+
  then show ?thesis
    using rules_in_order [of "\<lparr>rl_allow = [ex_rule ''*''], rl_deny = [ex_rule ''*.evil.io''], rl_grant_required = []\<rparr>" "''x.evil.io''" "''GET''" "''/''" AllowAction]
    by (auto simp: rule_hits_def)
qed

text \<open>Putting a text at every placeholder, read literally.\<close>

function subst_all :: "string \<Rightarrow> string \<Rightarrow> string" where
  "subst_all v [] = []"
| "subst_all v (c # cs) = (if starts_with (c # cs) placeholder then v @ subst_all v (drop 8 (c # cs)) else c # subst_all v cs)"
  by pat_completeness auto
termination by (relation "measure (\<lambda>(_, s). length s)") auto

lemma expand_plain: "CHR ''$'' \<notin> set v \<Longrightarrow> expand_dollar pre post v = v"
  by (induction pre post v rule: expand_dollar.induct) auto

lemma expand_pair: "CHR ''$'' \<notin> set x \<Longrightarrow> CHR ''$'' \<notin> set y \<Longrightarrow> expand_dollar pre post (x @ ''$$'' @ y) = x @ ''$'' @ y"
proof (induction x)
  case (Cons c x)
  then show ?case by (cases x) auto
qed (simp add: expand_plain)

text \<open>A secret reaches the request unchanged unless it holds a dollar sign: then the header is the template with the secret at
  every placeholder. Two dollar signs in a row arrive as one, because the replacement text of \<open>replace\<close> has its own patterns.\<close>

theorem secret_rendering:
  "(CHR ''$'' \<notin> set (sc_secret e) \<longrightarrow> render_secret e = subst_all (sc_secret e) (sc_template e)) \<and>
   (sc_template e = placeholder \<longrightarrow> sc_secret e = x @ ''$$'' @ y \<longrightarrow> CHR ''$'' \<notin> set x \<longrightarrow> CHR ''$'' \<notin> set y \<longrightarrow> render_secret e = x @ ''$'' @ y)"
proof -
  have "replace_all pre v t = subst_all v t" if "CHR ''$'' \<notin> set v" for pre v t
    using that by (induction pre v t rule: replace_all.induct) (simp_all add: expand_plain)
  moreover have "replace_all [] v placeholder = expand_dollar [] [] v" for v by (simp add: placeholder_def)
  ultimately show ?thesis using expand_pair by (auto simp: render_secret_def)
qed

theorem secret_rendering_witness:
  "render_secret \<lparr>sc_name = ''n'', sc_target = ''a.io/*'', sc_header = ''Authorization'', sc_template = placeholder, sc_secret = ''pa$$word''\<rparr> = ''pa$word''"
  using secret_rendering [of "\<lparr>sc_name = ''n'', sc_target = ''a.io/*'', sc_header = ''Authorization'', sc_template = placeholder, sc_secret = ''pa$$word''\<rparr>" "''pa''" "''word''"]
  by simp

end
