(* ===== verification/EgressProxy.thy ===== *)
theory EgressProxy
  imports ProxyRules
begin

text \<open>
  The requests of the egress proxy: \<open>auth.ts\<close>, \<open>grants-client.ts\<close>, the forward path of \<open>proxy.ts\<close> and the tunnels of \<open>connect.ts\<close>
  in \<open>packages/proxy/src\<close>. A handler returns its answer and the lines of the audit. The identity provider is a record of what it
  answers; \<open>parse\<close> is \<open>new URL\<close>, \<open>verify\<close> the token check against a provider, \<open>sha\<close> the hash. Sockets, TLS and
  the piping of bytes are left out: an accepted request is \<open>Forwarded\<close> with its headers or a \<open>Tunnel\<close>.
\<close>

section \<open>Configuration and identity\<close>

record agent_config =
  ag_email :: string
  ag_idp_url :: string
  ag_allow :: "rule_entry list option"
  ag_deny :: "rule_entry list option"
  ag_grant_required :: "grant_rule list option"

record proxy_config =
  px_default_action :: default_action
  px_mandatory_auth :: "bool option"
  px_agents :: "agent_config list"

text \<open>The expression \<open>/^Bearer (.+)$/i\<close>.\<close>

definition proxy_bearer :: "string \<Rightarrow> string option" where
  "proxy_bearer h = (if starts_with (to_lower h) ''bearer '' \<and> drop 7 h \<noteq> [] \<and> list_all (\<lambda>c. \<not> line_end c) (drop 7 h) then Some (drop 7 h) else None)"

text \<open>\<open>Inl\<close> is an \<open>AuthError\<close>; \<open>verify token idp\<close> are the claims, \<open>None\<close> when the verification fails.\<close>

type_synonym proxy_verifier = "string \<Rightarrow> string \<Rightarrow> jsval jsobj option"

definition verifyAgentAuth :: "proxy_verifier \<Rightarrow> string option \<Rightarrow> string \<Rightarrow> bool \<Rightarrow> string + string option" where
  "verifyAgentAuth verify header idpUrl mandatory = (let refuse = (\<lambda>m. if mandatory then Inl m else Inr None) in
     if \<not> truthy_str header then refuse ''JWT required''
     else case proxy_bearer (the header) of None \<Rightarrow> refuse ''Invalid authorization header''
     | Some token \<Rightarrow> (case verify token idpUrl of None \<Rightarrow> refuse ''JWT verification failed''
         | Some p \<Rightarrow> (case member p ''sub'' of
             JStr sub \<Rightarrow> if member p ''act'' \<noteq> JStr ''agent'' \<or> sub = [] then refuse ''Invalid agent token'' else Inr (Some sub)
           | _ \<Rightarrow> refuse ''Invalid agent token'')))"

fun first_identity :: "proxy_verifier \<Rightarrow> string option \<Rightarrow> bool \<Rightarrow> agent_config list \<Rightarrow> string + string option" where
  "first_identity verify header strict [] = Inr None"
| "first_identity verify header strict (a # as) = (case verifyAgentAuth verify header (ag_idp_url a) strict of
     Inl m \<Rightarrow> Inl m | Inr (Some e) \<Rightarrow> Inr (Some e) | Inr None \<Rightarrow> first_identity verify header strict as)"

definition requester_identity :: "proxy_verifier \<Rightarrow> proxy_config \<Rightarrow> string option \<Rightarrow> string + string option" where
  "requester_identity verify cfg header = (let m = nullish (px_mandatory_auth cfg) False in
     case first_identity verify header (m \<and> length (px_agents cfg) = 1) (px_agents cfg) of
       Inl e \<Rightarrow> Inl e | Inr i \<Rightarrow> if m \<and> i = None then Inl ''JWT required'' else Inr i)"

definition agent_named :: "string \<Rightarrow> proxy_config \<Rightarrow> agent_config option" where
  "agent_named email cfg = List.find (\<lambda>a. ag_email a = email) (px_agents cfg)"

definition agent_rules :: "agent_config \<Rightarrow> rule_lists" where
  "agent_rules a = \<lparr>rl_allow = nullish (ag_allow a) [], rl_deny = nullish (ag_deny a) [], rl_grant_required = nullish (ag_grant_required a) []\<rparr>"

section \<open>The identity provider's grants\<close>

record grant_ask =
  ga_requester :: string
  ga_targetHost :: string
  ga_audience :: string
  ga_grantType :: grant_type
  ga_permissions :: "string list option"
  ga_reason :: string
  ga_requestHash :: "string option"
  ga_duration :: "int option"
  ga_agentToken :: "string option"

text \<open>\<open>gc_list\<close> is the answer of the listing, \<open>None\<close> when it fails; \<open>gc_poll t\<close> reads a grant at time \<open>t\<close>, \<open>Inl\<close> for a failed read.\<close>

record grants_client =
  gc_list :: "string \<Rightarrow> grant list option"
  gc_request :: "grant_ask \<Rightarrow> string + grant"
  gc_poll :: "int \<Rightarrow> string \<Rightarrow> int + grant"

definition usable_grant :: "int \<Rightarrow> string \<Rightarrow> string \<Rightarrow> string list option \<Rightarrow> grant \<Rightarrow> bool" where
  "usable_grant now host audience permissions g = (let r = gr_request g in
     gr_status g = Approved \<and> \<not> (truthy_num (gr_expires_at g) \<and> the (gr_expires_at g) \<le> now) \<and> rq_grant_type r \<noteq> Some Once \<and>
     rq_target_host r = host \<and> rq_audience r = audience \<and>
     (nullish permissions [] \<noteq> [] \<and> nullish (rq_permissions r) [] \<noteq> [] \<longrightarrow> set (the permissions) \<subseteq> set (the (rq_permissions r))))"

definition findExistingGrant :: "grants_client \<Rightarrow> int \<Rightarrow> string \<Rightarrow> string \<Rightarrow> string \<Rightarrow> string list option \<Rightarrow> grant option" where
  "findExistingGrant gc now requester host audience permissions = (case gc_list gc requester of None \<Rightarrow> None
     | Some gs \<Rightarrow> List.find (usable_grant now host audience permissions) gs)"

datatype wait_error = PollFailed int | TimedOut

text \<open>Polls from \<open>t\<close> until the deadline, every two seconds.\<close>

function wait_from :: "grants_client \<Rightarrow> string \<Rightarrow> int \<Rightarrow> int \<Rightarrow> wait_error + grant" where
  "wait_from gc i deadline t = (if t < deadline then (case gc_poll gc t i of Inl status \<Rightarrow> Inl (PollFailed status)
     | Inr g \<Rightarrow> if gr_status g \<noteq> Pending then Inr g else wait_from gc i deadline (t + 2000)) else Inl TimedOut)"
  by pat_completeness auto
termination by (relation "measure (\<lambda>(_, _, d, t). nat (d - t))") auto

definition waitForApproval :: "grants_client \<Rightarrow> string \<Rightarrow> int \<Rightarrow> wait_error + grant" where
  "waitForApproval gc i now = wait_from gc i (now + 300000) now"

declare wait_from.simps [simp del]

section \<open>Answers\<close>

datatype audit_action = AuAllow | AuDeny | AuGrantApproved | AuGrantDenied | AuGrantTimeout | AuError

record audit_entry =
  au_agent :: string
  au_action :: audit_action
  au_rule :: string
  au_grant :: "string option"
  au_requestHash :: "string option"

definition audit :: "string \<Rightarrow> audit_action \<Rightarrow> string \<Rightarrow> string option \<Rightarrow> string option \<Rightarrow> audit_entry" where
  "audit agent action rule grantId requestHash = \<lparr>au_agent = agent, au_action = action, au_rule = rule, au_grant = grantId, au_requestHash = requestHash\<rparr>"

type_synonym headers = "(string \<times> string) list"

text \<open>\<open>Threw\<close> is an uncaught exception: a pattern that does not compile, or a daemon with no agent.\<close>

datatype proxy_answer = Refused nat string | Forwarded headers | Tunnel string int bool | Threw

section \<open>Forwarded requests\<close>

record proxy_request =
  pq_target :: string
  pq_method :: string
  pq_headers :: headers
  pq_body :: "string option"
  pq_health :: bool

definition computeRequestHash :: "(string \<Rightarrow> string) \<Rightarrow> string \<Rightarrow> string \<Rightarrow> string option \<Rightarrow> string" where
  "computeRequestHash sha method target body = sha (method @ '' '' @ target @ [CHR 0x0A] @ nullish body [])"

text \<open>Header names are in lower case, as \<open>Headers\<close> keeps them.\<close>

definition forwardRequest :: "secret_entry list option \<Rightarrow> target_url \<Rightarrow> headers \<Rightarrow> proxy_answer" where
  "forwardRequest store target hs = (let h = filter (\<lambda>(k, _). k \<notin> {''proxy-authorization'', ''proxy-connection'', ''host''}) hs in
     case store of None \<Rightarrow> Forwarded h
     | Some es \<Rightarrow> (case matchSecret target es of None \<Rightarrow> Threw | Some None \<Rightarrow> Forwarded h
         | Some (Some e) \<Rightarrow> Forwarded (AList.update (to_lower (sc_header e)) (render_secret e) h)))"

record proxy_env =
  pe_verify :: proxy_verifier
  pe_parse :: "string \<Rightarrow> target_url option"
  pe_sha :: "string \<Rightarrow> string"
  pe_dns4 :: "string \<Rightarrow> string list option"
  pe_dns6 :: "string \<Rightarrow> string list option"
  pe_client :: "string \<Rightarrow> grants_client"
  pe_secrets :: "secret_entry list option"
  pe_leafCache :: bool
  pe_daemonMode :: bool

definition fetch_ask :: "string \<Rightarrow> string \<Rightarrow> grant_rule \<Rightarrow> string list \<Rightarrow> string \<Rightarrow> string \<Rightarrow> string \<Rightarrow> string option \<Rightarrow> grant_ask" where
  "fetch_ask requester host rule permissions method target requestHash token = \<lparr>ga_requester = requester, ga_targetHost = host, ga_audience = ''ape-proxy'',
     ga_grantType = ru_grant_type rule, ga_permissions = Some permissions, ga_reason = method @ '' '' @ target, ga_requestHash = Some requestHash,
     ga_duration = ru_duration rule, ga_agentToken = token\<rparr>"

text \<open>What follows the rule decision that a grant is needed.\<close>

definition with_grant :: "proxy_env \<Rightarrow> default_action \<Rightarrow> int \<Rightarrow> proxy_request \<Rightarrow> target_url \<Rightarrow> agent_config \<Rightarrow> string \<Rightarrow> string option \<Rightarrow> grant_rule
    \<Rightarrow> proxy_answer \<times> audit_entry list" where
  "with_grant env action now req target a email token rule = (let host = tu_hostname target; gc = pe_client env (ag_email a);
     permissions = nullish (ru_permissions rule) [to_lower (pq_method req) @ '':'' @ host];
     h = computeRequestHash (pe_sha env) (pq_method req) (pq_target req) (pq_body req);
     ask = fetch_ask email host rule permissions (pq_method req) (pq_target req) h token;
     forward = forwardRequest (pe_secrets env) target (pq_headers req) in
     case findExistingGrant gc (now div 1000) email host ''proxy'' (Some permissions) of
       Some g \<Rightarrow> (forward, [audit email AuGrantApproved ''standing-grant'' (Some (gr_id g)) (Some h)])
     | None \<Rightarrow>
         if action = BlockAction then (Refused 403 ''No grant'', [audit email AuDeny ''no-grant (block mode)'' None None])
         else if action = RequestAsync
         then (Refused 407 ''Grant required'', [audit email AuGrantDenied ''grant_required (async)''
             (case gc_request gc ask of Inl _ \<Rightarrow> None | Inr g \<Rightarrow> Some (gr_id g)) None])
         else (case gc_request gc ask of
             Inl e \<Rightarrow> (Refused 504 e, [audit email AuGrantTimeout ''grant_required'' None None])
           | Inr g \<Rightarrow> (case waitForApproval gc (gr_id g) now of
               Inl _ \<Rightarrow> (Refused 504 ''Grant request failed'', [audit email AuGrantTimeout ''grant_required'' None None])
             | Inr d \<Rightarrow> if gr_status d = Approved then (forward, [audit email AuGrantApproved ''grant_required'' (Some (gr_id d)) (Some h)])
                 else (Refused 403 ''Grant denied'', [audit email AuGrantDenied ''grant_required'' (Some (gr_id d)) None]))))"

definition pick_agent :: "proxy_config \<Rightarrow> string option \<Rightarrow> (nat \<times> string) + agent_config" where
  "pick_agent cfg email = (case email of
     Some e \<Rightarrow> (case agent_named e cfg of None \<Rightarrow> Inl (403, ''Forbidden: unknown agent'') | Some a \<Rightarrow> Inr a)
   | None \<Rightarrow> (case px_agents cfg of [a] \<Rightarrow> Inr a | _ \<Rightarrow> Inl (401, ''Unauthorized: JWT required for multi-agent proxy'')))"

definition proxy_fetch :: "proxy_env \<Rightarrow> proxy_config \<Rightarrow> int \<Rightarrow> proxy_request \<Rightarrow> proxy_answer \<times> audit_entry list" where
  "proxy_fetch env cfg now req = (if pq_health req then (Refused 200 ''ok'', [])
     else case pe_parse env (pq_target req) of None \<Rightarrow> (Refused 400 ''Invalid target URL'', [])
     | Some target \<Rightarrow> (let host = tu_hostname target; header = map_of (pq_headers req) ''proxy-authorization'' in
         case checkEgress (pe_dns4 env) (pe_dns6 env) host of
           EgressPrivate \<Rightarrow> (Refused 403 ''Blocked: private/loopback IP'', [])
         | Unresolvable _ \<Rightarrow> (Refused 502 ''DNS lookup failed'', [])
         | EgressOk \<Rightarrow> if pe_daemonMode env \<and> px_agents cfg = [] then (Threw, []) else (case (if pe_daemonMode env then Inr (map_option ag_email (case px_agents cfg of [] \<Rightarrow> None | a # _ \<Rightarrow> Some a))
               else requester_identity (pe_verify env) cfg header) of
             Inl m \<Rightarrow> (Refused 401 (''Unauthorized: '' @ m), [])
           | Inr identity \<Rightarrow> (case pick_agent cfg identity of Inl (st, m) \<Rightarrow> (Refused st m, [])
             | Inr a \<Rightarrow> (let email = nullish identity (ag_email a);
                 token = (if identity = None then None else Option.bind header proxy_bearer) in
                 case evaluateRules (px_default_action cfg) (agent_rules a) host (pq_method req) (tu_pathname target) of
                   None \<Rightarrow> (Threw, [])
                 | Some (DenyRule note) \<Rightarrow> (Refused 403 ''Blocked'', [audit email AuDeny ''deny-list'' None None])
                 | Some AllowRule \<Rightarrow> (forwardRequest (pe_secrets env) target (pq_headers req), [audit email AuAllow ''allow-list'' None None])
                 | Some (GrantRequired rule) \<Rightarrow> with_grant env (px_default_action cfg) now req target a email token rule)))))"

section \<open>Tunnels\<close>

text \<open>\<open>target.split(':')\<close>: the host and the port, 443 when it is missing or empty.\<close>

definition connect_target :: "string \<Rightarrow> (string \<times> int) option" where
  "connect_target t = (let parts = split_on (CHR '':'') t; port = (case tl parts of [] \<Rightarrow> Some 443 | p # _ \<Rightarrow> if p = [] then Some 443 else parse_int p) in
     if hd parts = [] \<or> port = None \<or> port = Some 0 then None else Some (hd parts, the port))"

definition idp_hosts :: "(string \<Rightarrow> target_url option) \<Rightarrow> proxy_config \<Rightarrow> string list" where
  "idp_hosts parse cfg = filter (\<lambda>h. h \<noteq> []) (map (\<lambda>a. case parse (ag_idp_url a) of None \<Rightarrow> [] | Some u \<Rightarrow> to_lower (tu_hostname u)) (px_agents cfg))"

definition connect_identity :: "proxy_env \<Rightarrow> proxy_config \<Rightarrow> string option \<Rightarrow> (nat \<times> string) + string option" where
  "connect_identity env cfg header = (if pe_daemonMode env then Inr (map_option ag_email (case px_agents cfg of [] \<Rightarrow> None | a # _ \<Rightarrow> Some a))
     else case requester_identity (pe_verify env) cfg header of
       Inl m \<Rightarrow> Inl (401, m)
     | Inr (Some e) \<Rightarrow> (if agent_named e cfg = None then Inl (403, ''Forbidden'') else Inr (Some e))
     | Inr None \<Rightarrow> (if 1 < length (px_agents cfg) then Inl (401, ''JWT required for multi-agent proxy'') else Inr None))"

definition open_tunnel :: "proxy_env \<Rightarrow> string \<Rightarrow> int \<Rightarrow> proxy_answer" where
  "open_tunnel env host port = Tunnel host port (pe_secrets env \<noteq> None \<and> pe_leafCache env)"

definition handleConnect :: "proxy_env \<Rightarrow> proxy_config \<Rightarrow> int \<Rightarrow> string \<Rightarrow> string option \<Rightarrow> proxy_answer \<times> audit_entry list" where
  "handleConnect env cfg now target header = (case connect_target target of None \<Rightarrow> (Refused 400 ''Bad Request'', [])
     | Some (host, port) \<Rightarrow>
         if to_lower host \<in> set (idp_hosts (pe_parse env) cfg) then (Tunnel host port False, [audit ''system'' AuAllow ''idp-system-bypass'' None None])
         else (case connect_identity env cfg header of Inl (st, m) \<Rightarrow> (Refused st m, [])
         | Inr identity \<Rightarrow> (let who = nullish identity (case px_agents cfg of [] \<Rightarrow> ''unknown'' | a # _ \<Rightarrow> ag_email a) in
             case checkEgress (pe_dns4 env) (pe_dns6 env) host of
               EgressPrivate \<Rightarrow> (Refused 403 ''Forbidden'', [audit who AuDeny ''ssrf-blocked'' None None])
             | Unresolvable r \<Rightarrow> (Refused 502 ''DNS lookup failed'', [audit who AuError (''dns-unresolvable ('' @ r @ '')'') None None])
             | EgressOk \<Rightarrow> (case (case identity of Some e \<Rightarrow> agent_named e cfg | None \<Rightarrow> (case px_agents cfg of [] \<Rightarrow> None | a # _ \<Rightarrow> Some a)) of
                 None \<Rightarrow> (Refused 403 ''Forbidden'', [])
               | Some a \<Rightarrow> (let email = nullish identity (ag_email a); gc = pe_client env (ag_email a) in
                   case evaluateRules (px_default_action cfg) (agent_rules a) host ''CONNECT'' ''/'' of
                     None \<Rightarrow> (Threw, [])
                   | Some (DenyRule note) \<Rightarrow> (Refused 403 ''Blocked'', [audit email AuDeny ''deny-list'' None None])
                   | Some AllowRule \<Rightarrow> (open_tunnel env host port, [audit email AuAllow ''allow-list'' None None])
                   | Some (GrantRequired rule) \<Rightarrow>
                       (case gc_request gc \<lparr>ga_requester = email, ga_targetHost = host, ga_audience = ''ape-proxy'', ga_grantType = ru_grant_type rule,
                           ga_permissions = ru_permissions rule, ga_reason = ''CONNECT '' @ host @ '':'' @ string_of_int port, ga_requestHash = None,
                           ga_duration = ru_duration rule, ga_agentToken = None\<rparr> of
                         Inl e \<Rightarrow> (Refused 504 e, [audit email AuGrantTimeout ''grant_required'' None None])
                       | Inr g \<Rightarrow> (case waitForApproval gc (gr_id g) now of
                           Inl _ \<Rightarrow> (Refused 504 ''Grant request failed'', [audit email AuGrantTimeout ''grant_required'' None None])
                         | Inr d \<Rightarrow> if gr_status d = Approved
                             then (open_tunnel env host port, [audit email AuGrantApproved ''grant_required'' (Some (gr_id d)) None])
                             else (Refused 403 ''Grant denied'', [audit email AuGrantDenied ''grant_required'' (Some (gr_id d)) None]))))))))"



section \<open>Waiting for a decision\<close>

lemma wait_from_polls:
  "wait_from gc i (t + 2000 * int n) t = (case List.find (\<lambda>r. case r of Inl _ \<Rightarrow> True | Inr g \<Rightarrow> gr_status g \<noteq> Pending)
      (map (\<lambda>k. gc_poll gc (t + 2000 * int k) i) [0..<n]) of
     None \<Rightarrow> Inl TimedOut | Some (Inl s) \<Rightarrow> Inl (PollFailed s) | Some (Inr g) \<Rightarrow> Inr g)"
proof (induction n arbitrary: t)
  case 0
  show ?case by (simp add: wait_from.simps)
next
  case (Suc n)
  have shift: "map (\<lambda>k. gc_poll gc (t + 2000 * int k) i) [0..<Suc n] = gc_poll gc t i # map (\<lambda>k. gc_poll gc (t + 2000 + 2000 * int k) i) [0..<n]"
    by (simp add: upt_conv_Cons map_Suc_upt [symmetric] comp_def algebra_simps del: upt_Suc)
  have d: "t + 2000 * int (Suc n) = (t + 2000) + 2000 * int n" by simp
  show ?case unfolding shift d
    by (subst wait_from.simps, cases "gc_poll gc t i") (simp_all add: Suc.IH [of "t + 2000"])
qed

lemma wait_schedule:
  "waitForApproval gc i now = (case List.find (\<lambda>r. case r of Inl _ \<Rightarrow> True | Inr g \<Rightarrow> gr_status g \<noteq> Pending)
      (map (\<lambda>k. gc_poll gc (now + 2000 * int k) i) [0..<150]) of
     None \<Rightarrow> Inl TimedOut | Some (Inl s) \<Rightarrow> Inl (PollFailed s) | Some (Inr g) \<Rightarrow> Inr g)"
  using wait_from_polls [of gc i now 150] by (simp add: waitForApproval_def)

text \<open>C21. Waiting for an approval ends. The proxy reads the grant at most 150 times, two seconds apart, and takes the first answer
  that is a failure or a decided grant; if the grant stays pending throughout, the wait is over after five minutes.\<close>

theorem approval_wait:
  "waitForApproval gc i now = (case List.find (\<lambda>r. case r of Inl _ \<Rightarrow> True | Inr g \<Rightarrow> gr_status g \<noteq> Pending)
      (map (\<lambda>k. gc_poll gc (now + 2000 * int k) i) [0..<150]) of
     None \<Rightarrow> Inl TimedOut | Some (Inl s) \<Rightarrow> Inl (PollFailed s) | Some (Inr g) \<Rightarrow> Inr g)"
  by (rule wait_schedule)

lemma waited:
  assumes "wait_from gc i d t = Inr g"
  shows "gr_status g \<noteq> Pending \<and> (\<exists>u. t \<le> u \<and> u < d \<and> gc_poll gc u i = Inr g)"
  using assms
proof (induction gc i d t rule: wait_from.induct)
  case (1 gc i d t)
  from "1.prems" have t: "t < d" by (subst (asm) wait_from.simps) (simp split: if_splits)
  show ?case
  proof (cases "gc_poll gc t i")
    case (Inl s)
    then show ?thesis using "1.prems" t by (subst (asm) wait_from.simps) simp
  next
    case (Inr g')
    show ?thesis
    proof (cases "gr_status g' = Pending")
      case True
      then have "wait_from gc i d (t + 2000) = Inr g" using "1.prems" t Inr by (subst (asm) wait_from.simps) simp
      from "1.IH" [OF t Inr _ this] True obtain u where "gr_status g \<noteq> Pending" "t + 2000 \<le> u" "u < d" "gc_poll gc u i = Inr g" by auto
    then show ?thesis by (intro conjI exI [of _ u]) auto
    next
      case False
      then have "g' = g" using "1.prems" t Inr by (subst (asm) wait_from.simps) simp
      then show ?thesis using False t Inr by auto
    qed
  qed
qed

section \<open>Who a request comes from\<close>

text \<open>A token that the provider of some configured agent verifies as an agent's.\<close>

definition token_for :: "proxy_verifier \<Rightarrow> proxy_config \<Rightarrow> string option \<Rightarrow> string \<Rightarrow> bool" where
  "token_for verify cfg header e = (\<exists>h t p. header = Some h \<and> proxy_bearer h = Some t \<and> (\<exists>a\<in>set (px_agents cfg). verify t (ag_idp_url a) = Some p) \<and>
     member p ''sub'' = JStr e \<and> member p ''act'' = JStr ''agent'' \<and> e \<noteq> [])"

lemma verified_agent:
  assumes "verifyAgentAuth verify header idp m = Inr (Some e)"
  obtains h t p where "header = Some h" "proxy_bearer h = Some t" "verify t idp = Some p" "member p ''sub'' = JStr e" "member p ''act'' = JStr ''agent''" "e \<noteq> []"
proof -
  from assms obtain h where h: "header = Some h" "truthy_str header" by (cases header) (auto simp: verifyAgentAuth_def Let_def split: if_splits)
  from assms h obtain t where t: "proxy_bearer h = Some t" by (cases "proxy_bearer h") (auto simp: verifyAgentAuth_def Let_def split: if_splits)
  from assms h t obtain p where p: "verify t idp = Some p" by (cases "verify t idp") (auto simp: verifyAgentAuth_def Let_def split: if_splits)
  from assms h t p have "member p ''sub'' = JStr e \<and> member p ''act'' = JStr ''agent'' \<and> e \<noteq> []"
    by (auto simp: verifyAgentAuth_def Let_def split: if_splits jsval.splits)
  then show ?thesis using that h t p by auto
qed

lemma first_identity_some:
  "first_identity verify header strict as = Inr (Some e) \<Longrightarrow> \<exists>a\<in>set as. verifyAgentAuth verify header (ag_idp_url a) strict = Inr (Some e)"
  by (induction as) (auto split: sum.splits option.splits)

lemma requester_token:
  assumes "requester_identity verify cfg header = Inr (Some e)"
  shows "token_for verify cfg header e"
proof -
  have "first_identity verify header (nullish (px_mandatory_auth cfg) False \<and> length (px_agents cfg) = 1) (px_agents cfg) = Inr (Some e)"
    using assms by (auto simp: requester_identity_def Let_def split: sum.splits if_splits)
  from first_identity_some [OF this] obtain a where a: "a \<in> set (px_agents cfg)"
    "verifyAgentAuth verify header (ag_idp_url a) (nullish (px_mandatory_auth cfg) False \<and> length (px_agents cfg) = 1) = Inr (Some e)" by auto
  from a(2) obtain h t p where "header = Some h" "proxy_bearer h = Some t" "verify t (ag_idp_url a) = Some p" "member p ''sub'' = JStr e"
    "member p ''act'' = JStr ''agent''" "e \<noteq> []" by (elim verified_agent)
  with a(1) show ?thesis unfolding token_for_def by blast
qed

lemma requester_none:
  "requester_identity verify cfg header = Inr None \<Longrightarrow> px_mandatory_auth cfg \<noteq> Some True"
  by (auto simp: requester_identity_def Let_def nullish_def split: sum.splits if_splits option.splits)

text \<open>The agent whose rules decide: the daemon's, the one a token names, or the only one when no token is asked for.\<close>

definition speaks_for :: "proxy_env \<Rightarrow> proxy_config \<Rightarrow> string option \<Rightarrow> agent_config \<Rightarrow> bool" where
  "speaks_for env cfg header a = (a \<in> set (px_agents cfg) \<and> (if pe_daemonMode env then agent_named (ag_email (hd (px_agents cfg))) cfg = Some a
     else token_for (pe_verify env) cfg header (ag_email a) \<or> (px_agents cfg = [a] \<and> px_mandatory_auth cfg \<noteq> Some True)))"

lemma agent_named_in: "agent_named e cfg = Some a \<Longrightarrow> a \<in> set (px_agents cfg) \<and> ag_email a = e"
  unfolding agent_named_def using find_some by fastforce

lemma picked_speaks:
  assumes "(if pe_daemonMode env then Inr (map_option ag_email (case px_agents cfg of [] \<Rightarrow> None | b # _ \<Rightarrow> Some b))
      else requester_identity (pe_verify env) cfg header) = Inr identity"
    and "pick_agent cfg identity = Inr a" "\<not> (pe_daemonMode env \<and> px_agents cfg = [])"
  shows "speaks_for env cfg header a"
proof (cases identity)
  case None
  then have "px_agents cfg = [a]" using assms(2) by (auto simp: pick_agent_def split: list.splits)
  then show ?thesis using assms(1) None requester_none by (auto simp: speaks_for_def split: if_splits)
next
  case (Some e)
  then have a: "agent_named e cfg = Some a" using assms(2) by (auto simp: pick_agent_def split: option.splits)
  note m = agent_named_in [OF a]
  show ?thesis
  proof (cases "pe_daemonMode env")
    case True
    then obtain b bs where b: "px_agents cfg = b # bs" using assms(3) by (cases "px_agents cfg") auto
    then have "e = ag_email b" using assms(1) Some True by simp
    then show ?thesis using True a m b by (simp add: speaks_for_def)
  next
    case False
    then have "token_for (pe_verify env) cfg header e" using assms(1) Some by (intro requester_token) simp
    then show ?thesis using False m by (simp add: speaks_for_def)
  qed
qed
section \<open>What is let through\<close>

text \<open>No deny rule of the agent matches.\<close>

definition not_denied :: "proxy_config \<Rightarrow> agent_config \<Rightarrow> string \<Rightarrow> string \<Rightarrow> string \<Rightarrow> bool" where
  "not_denied cfg a host method path = (first_rule (nullish (ag_deny a) []) host method path = Some None)"

definition approved_by_poll :: "grants_client \<Rightarrow> int \<Rightarrow> grant_ask \<Rightarrow> bool" where
  "approved_by_poll gc now ask = (\<exists>g t d. gc_request gc ask = Inr g \<and> now \<le> t \<and> t < now + 300000 \<and> gc_poll gc t (gr_id g) = Inr d \<and> gr_status d = Approved)"

lemma evaluated_not_denied:
  assumes "evaluateRules action (agent_rules a) host method path = Some r" "\<And>n. r \<noteq> DenyRule n"
  shows "not_denied cfg a host method path"
  using assms by (auto simp: evaluateRules_def agent_rules_def not_denied_def split: option.splits)

lemma waited_approved:
  assumes "gc_request gc ask = Inr g" "waitForApproval gc (gr_id g) now = Inr d" "gr_status d = Approved"
  shows "approved_by_poll gc now ask"
  using waited [of gc "gr_id g" "now + 300000" now d] assms unfolding approved_by_poll_def waitForApproval_def by blast

lemma forwarded_headers:
  assumes "forwardRequest store target hs = Forwarded out"
  shows "\<forall>(k, v)\<in>set out. (k, v) \<in> set hs \<and> k \<notin> {''proxy-authorization'', ''proxy-connection'', ''host''} \<or>
    (\<exists>es e. store = Some es \<and> matchSecret target es = Some (Some e) \<and> k = to_lower (sc_header e) \<and> v = render_secret e)"
proof (cases store)
  case None
  then show ?thesis using assms by (auto simp: forwardRequest_def)
next
  case (Some es)
  have upd: "set (AList.update k v h) \<subseteq> insert (k, v) (set h)" for k v and h :: headers
    by (induction h) auto
  show ?thesis
  proof (cases "matchSecret target es")
    case None
    then show ?thesis using assms Some by (simp add: forwardRequest_def Let_def)
  next
    case m: (Some o')
    show ?thesis
    proof (cases o')
      case None
      then show ?thesis using assms Some m by (auto simp: forwardRequest_def)
    next
      case (Some e)
      then have "out = AList.update (to_lower (sc_header e)) (render_secret e) (filter (\<lambda>(k, _). k \<notin> {''proxy-authorization'', ''proxy-connection'', ''host''}) hs)"
        using assms \<open>store = Some es\<close> m by (simp add: forwardRequest_def Let_def)
      then have "set out \<subseteq> insert (to_lower (sc_header e), render_secret e) (set (filter (\<lambda>(k, _). k \<notin> {''proxy-authorization'', ''proxy-connection'', ''host''}) hs))"
        using upd by blast
      then show ?thesis using Some \<open>store = Some es\<close> m by fastforce
    qed
  qed
qed

lemma granted_forward:
  assumes "with_grant env action now req target a email token rule = (Forwarded out, log)"
  shows "forwardRequest (pe_secrets env) target (pq_headers req) = Forwarded out \<and>
    ((\<exists>gs g. gc_list (pe_client env (ag_email a)) email = Some gs \<and> g \<in> set gs \<and> usable_grant (now div 1000) (tu_hostname target) ''proxy''
        (Some (nullish (ru_permissions rule) [to_lower (pq_method req) @ '':'' @ tu_hostname target])) g) \<or>
     (action \<notin> {BlockAction, RequestAsync} \<and> approved_by_poll (pe_client env (ag_email a)) now
        (fetch_ask email (tu_hostname target) rule (nullish (ru_permissions rule) [to_lower (pq_method req) @ '':'' @ tu_hostname target])
          (pq_method req) (pq_target req) (computeRequestHash (pe_sha env) (pq_method req) (pq_target req) (pq_body req)) token)))"
    (is "_ \<and> (?reuse \<or> ?asked)")
proof (cases "findExistingGrant (pe_client env (ag_email a)) (now div 1000) email (tu_hostname target) ''proxy''
    (Some (nullish (ru_permissions rule) [to_lower (pq_method req) @ '':'' @ tu_hostname target]))")
  case (Some g)
  then have ?reuse by (auto simp: findExistingGrant_def split: option.splits dest: find_some)
  then show ?thesis using assms Some by (simp add: with_grant_def Let_def)
next
  case None
  let ?ask = "fetch_ask email (tu_hostname target) rule (nullish (ru_permissions rule) [to_lower (pq_method req) @ '':'' @ tu_hostname target])
          (pq_method req) (pq_target req) (computeRequestHash (pe_sha env) (pq_method req) (pq_target req) (pq_body req)) token"
  note eq = assms [unfolded with_grant_def Let_def None option.case]
  have act: "action \<notin> {BlockAction, RequestAsync}" using eq by (auto split: if_splits)
  then obtain g where g: "gc_request (pe_client env (ag_email a)) ?ask = Inr g" using eq by (auto split: sum.splits)
  then obtain d where d: "waitForApproval (pe_client env (ag_email a)) (gr_id g) now = Inr d" using eq act by (auto split: sum.splits)
  then have "gr_status d = Approved \<and> forwardRequest (pe_secrets env) target (pq_headers req) = Forwarded out"
    using eq act g by (auto split: if_splits)
  then show ?thesis using waited_approved [OF g d] act by blast
qed
text \<open>The grant that lets a request through: one the provider lists and the client finds usable, or one asked for now and approved
  within five minutes.\<close>

definition grant_lets :: "proxy_env \<Rightarrow> proxy_config \<Rightarrow> int \<Rightarrow> proxy_request \<Rightarrow> string \<Rightarrow> agent_config \<Rightarrow> string \<Rightarrow> grant_rule \<Rightarrow> bool" where
  "grant_lets env cfg now req host a email rule = (let gc = pe_client env (ag_email a);
     permissions = nullish (ru_permissions rule) [to_lower (pq_method req) @ '':'' @ host] in
     (\<exists>gs g. gc_list gc email = Some gs \<and> g \<in> set gs \<and> usable_grant (now div 1000) host ''proxy'' (Some permissions) g) \<or>
     (px_default_action cfg \<notin> {BlockAction, RequestAsync} \<and> (\<exists>token. approved_by_poll gc now (fetch_ask email host rule permissions
        (pq_method req) (pq_target req) (computeRequestHash (pe_sha env) (pq_method req) (pq_target req) (pq_body req)) token))))"

lemma fetch_decides:
  assumes "\<not> pq_health req" "pe_parse env (pq_target req) = Some target" "checkEgress (pe_dns4 env) (pe_dns6 env) (tu_hostname target) = EgressOk"
    and "\<not> pe_daemonMode env" "requester_identity (pe_verify env) cfg (map_of (pq_headers req) ''proxy-authorization'') = Inr identity"
    and "pick_agent cfg identity = Inr a"
    and "evaluateRules (px_default_action cfg) (agent_rules a) (tu_hostname target) (pq_method req) (tu_pathname target) = Some r"
  shows "proxy_fetch env cfg now req = (let email = nullish identity (ag_email a) in case r of
      DenyRule n \<Rightarrow> (Refused 403 ''Blocked'', [audit email AuDeny ''deny-list'' None None])
    | AllowRule \<Rightarrow> (forwardRequest (pe_secrets env) target (pq_headers req), [audit email AuAllow ''allow-list'' None None])
    | GrantRequired rule \<Rightarrow> with_grant env (px_default_action cfg) now req target a email
        (if identity = None then None else Option.bind (map_of (pq_headers req) ''proxy-authorization'') proxy_bearer) rule)"
  using assms by (simp add: proxy_fetch_def Let_def)

lemma fetch_stages:
  assumes "proxy_fetch env cfg now req = (Forwarded out, log)"
  obtains target a email token where "pe_parse env (pq_target req) = Some target" "checkEgress (pe_dns4 env) (pe_dns6 env) (tu_hostname target) = EgressOk"
    "speaks_for env cfg (map_of (pq_headers req) ''proxy-authorization'') a" "email = ag_email a"
    "case evaluateRules (px_default_action cfg) (agent_rules a) (tu_hostname target) (pq_method req) (tu_pathname target) of
       Some AllowRule \<Rightarrow> forwardRequest (pe_secrets env) target (pq_headers req) = Forwarded out
     | Some (GrantRequired rule) \<Rightarrow> with_grant env (px_default_action cfg) now req target a email token rule = (Forwarded out, log)
     | _ \<Rightarrow> False"
proof -
  from assms have nh: "\<not> pq_health req" by (auto simp: proxy_fetch_def)
  with assms obtain target where t: "pe_parse env (pq_target req) = Some target" by (cases "pe_parse env (pq_target req)") (auto simp: proxy_fetch_def)
  note eq = assms [unfolded proxy_fetch_def, simplified nh t, simplified]
  have eg: "checkEgress (pe_dns4 env) (pe_dns6 env) (tu_hostname target) = EgressOk"
    using eq by (cases "checkEgress (pe_dns4 env) (pe_dns6 env) (tu_hostname target)") (auto simp: Let_def)
  note eq2 = eq [unfolded Let_def eg, simplified]
  let ?id = "if pe_daemonMode env then Inr (map_option ag_email (case px_agents cfg of [] \<Rightarrow> None | b # _ \<Rightarrow> Some b))
      else requester_identity (pe_verify env) cfg (map_of (pq_headers req) ''proxy-authorization'')"
  have nd: "\<not> (pe_daemonMode env \<and> px_agents cfg = [])" using eq2 by (auto split: if_splits)
  obtain identity where i: "?id = Inr identity" using eq2 nd by (cases ?id) (auto split: if_splits)
  obtain a where a: "pick_agent cfg identity = Inr a" using eq2 nd i by (cases "pick_agent cfg identity") (auto split: if_splits)
  note speaks = picked_speaks [OF i a nd]
  have email: "nullish identity (ag_email a) = ag_email a"
    using a agent_named_in by (cases identity) (auto simp: pick_agent_def nullish_def split: option.splits list.splits)
  let ?token = "if identity = None then None else Option.bind (map_of (pq_headers req) ''proxy-authorization'') proxy_bearer"
  have last: "(case evaluateRules (px_default_action cfg) (agent_rules a) (tu_hostname target) (pq_method req) (tu_pathname target) of
                   None \<Rightarrow> (Threw, [])
                 | Some (DenyRule note) \<Rightarrow> (Refused 403 ''Blocked'', [audit (nullish identity (ag_email a)) AuDeny ''deny-list'' None None])
                 | Some AllowRule \<Rightarrow> (forwardRequest (pe_secrets env) target (pq_headers req), [audit (nullish identity (ag_email a)) AuAllow ''allow-list'' None None])
                 | Some (GrantRequired rule) \<Rightarrow> with_grant env (px_default_action cfg) now req target a (nullish identity (ag_email a)) ?token rule) = (Forwarded out, log)"
    using eq2 nd i a by (auto split: if_splits)
  show ?thesis using last [unfolded email] that [OF t eg speaks refl, of ?token] by (auto split: option.splits rule_action.splits)
qed

text \<open>C20. Nothing leaves the proxy unchecked. A request is forwarded only to a target that is not \<open>localhost\<close> and whose address - itself, or every
  answer of the proxy's own lookup of its name - passes the screen: an IPv4 address outside the six private blocks, an IPv6 address not in one of the
  spellings the screen knows (it misses \<open>fc00::/8\<close>, written-out and hexadecimal mapped forms, and the connection looks the name up
  again). It is forwarded on behalf of a configured agent (the daemon's, the one a verified agent token names, or the only one when no token is asked for), when no deny rule
  of that agent matches and an allow rule or the default lets it pass or a grant does; and what is forwarded carries the request's own
  headers without the proxy's, at most one of them set to a secret stored for the target.\<close>

theorem forwarded_authorized:
  assumes "proxy_fetch env cfg now req = (Forwarded out, log)"
  shows "\<exists>target a. pe_parse env (pq_target req) = Some target \<and> tu_hostname target \<noteq> ''localhost'' \<and>
    (let addrs = (if isIP (tu_hostname target) \<noteq> 0 then [tu_hostname target]
        else nullish (pe_dns4 env (tu_hostname target)) [] @ nullish (pe_dns6 env (tu_hostname target)) []) in addrs \<noteq> [] \<and> list_all screened addrs) \<and>
    speaks_for env cfg (map_of (pq_headers req) ''proxy-authorization'') a \<and>
    not_denied cfg a (tu_hostname target) (pq_method req) (tu_pathname target) \<and>
    (evaluateRules (px_default_action cfg) (agent_rules a) (tu_hostname target) (pq_method req) (tu_pathname target) = Some AllowRule \<or>
     (\<exists>rule. evaluateRules (px_default_action cfg) (agent_rules a) (tu_hostname target) (pq_method req) (tu_pathname target) = Some (GrantRequired rule) \<and>
       grant_lets env cfg now req (tu_hostname target) a (ag_email a) rule)) \<and>
    (\<forall>(k, v)\<in>set out. (k, v) \<in> set (pq_headers req) \<and> k \<notin> {''proxy-authorization'', ''proxy-connection'', ''host''} \<or>
      (\<exists>es e. pe_secrets env = Some es \<and> matchSecret target es = Some (Some e) \<and> k = to_lower (sc_header e) \<and> v = render_secret e))"
proof -
  from fetch_stages [OF assms] obtain target a email token where t: "pe_parse env (pq_target req) = Some target"
    "checkEgress (pe_dns4 env) (pe_dns6 env) (tu_hostname target) = EgressOk"
    "speaks_for env cfg (map_of (pq_headers req) ''proxy-authorization'') a" and email: "email = ag_email a" and
    c: "case evaluateRules (px_default_action cfg) (agent_rules a) (tu_hostname target) (pq_method req) (tu_pathname target) of
       Some AllowRule \<Rightarrow> forwardRequest (pe_secrets env) target (pq_headers req) = Forwarded out
     | Some (GrantRequired rule) \<Rightarrow> with_grant env (px_default_action cfg) now req target a email token rule = (Forwarded out, log)
     | _ \<Rightarrow> False" by metis
  then obtain r where r: "evaluateRules (px_default_action cfg) (agent_rules a) (tu_hostname target) (pq_method req) (tu_pathname target) = Some r"
    "\<And>n. r \<noteq> DenyRule n"
    by (auto split: option.splits rule_action.splits)
  note nd = evaluated_not_denied [OF r]
  have f: "forwardRequest (pe_secrets env) target (pq_headers req) = Forwarded out \<and> (r = AllowRule \<or> (\<exists>rule. r = GrantRequired rule \<and>
      grant_lets env cfg now req (tu_hostname target) a (ag_email a) rule))"
  proof (cases r)
    case (GrantRequired rule)
    then have w: "with_grant env (px_default_action cfg) now req target a (ag_email a) token rule = (Forwarded out, log)" using c r(1) email by simp
    show ?thesis using granted_forward [OF w] GrantRequired unfolding grant_lets_def Let_def by blast
  qed (use c r in auto)
  show ?thesis using t(1,3) egress_screened [OF t(2)] r(1) nd f forwarded_headers [of "pe_secrets env" target "pq_headers req" out] by blast
qed

definition ex_agent :: "string \<Rightarrow> string \<Rightarrow> rule_entry list \<Rightarrow> rule_entry list \<Rightarrow> agent_config" where
  "ex_agent email idp allow deny = \<lparr>ag_email = email, ag_idp_url = idp, ag_allow = Some allow, ag_deny = Some deny, ag_grant_required = None\<rparr>"

definition ex_env :: proxy_env where
  "ex_env = \<lparr>pe_verify = \<lambda>t idp. if idp = ''https://a.idp'' then Some [(''sub'', JStr t), (''act'', JStr ''agent'')] else None,
     pe_parse = \<lambda>u. if starts_with u ''https://'' then Some \<lparr>tu_hostname = drop 8 u, tu_port = [], tu_pathname = ''/''\<rparr> else None,
     pe_sha = \<lambda>s. s, pe_dns4 = \<lambda>_. Some [''93.184.216.34''], pe_dns6 = \<lambda>_. None,
     pe_client = \<lambda>_. \<lparr>gc_list = \<lambda>_. None, gc_request = \<lambda>_. Inl ''down'', gc_poll = \<lambda>_ _. Inl 500\<rparr>, pe_secrets = None, pe_leafCache = False, pe_daemonMode = False\<rparr>"

definition ex_request :: "string \<Rightarrow> string \<Rightarrow> proxy_request" where
  "ex_request target token = \<lparr>pq_target = target, pq_method = ''GET'', pq_headers = [(''accept'', ''x''), (''proxy-authorization'', ''Bearer '' @ token)], pq_body = None, pq_health = False\<rparr>"

lemma ex_public: "checkEgress (\<lambda>_. Some [''93.184.216.34'']) (\<lambda>_. None) ''api.io'' = EgressOk"
  by code_simp

lemma ex_allow: "evaluateRules BlockAction \<lparr>rl_allow = [ex_rule ''api.io''], rl_deny = [], rl_grant_required = []\<rparr> ''api.io'' ''GET'' ''/'' = Some AllowRule"
  by code_simp
definition ex_config :: proxy_config where
  "ex_config = \<lparr>px_default_action = BlockAction, px_mandatory_auth = Some True,
     px_agents = [ex_agent ''a@x'' ''https://a.idp'' [] [], ex_agent ''b@x'' ''https://b.idp'' [ex_rule ''api.io''] []]\<rparr>"

text \<open>The token is verified at the first agent's provider and names the second agent, whose provider refuses it.\<close>

lemma ex_bearer: "proxy_bearer ''Bearer b@x'' = Some ''b@x''"
  by code_simp

definition ex_target :: target_url where
  "ex_target = \<lparr>tu_hostname = ''api.io'', tu_port = [], tu_pathname = ''/''\<rparr>"

lemma ex_parsed: "pe_parse ex_env ''https://api.io'' = Some ex_target"
  by (simp add: ex_env_def ex_target_def)

lemma ex_open: "checkEgress (pe_dns4 ex_env) (pe_dns6 ex_env) (tu_hostname ex_target) = EgressOk"
  using ex_public by (simp add: ex_env_def ex_target_def)

lemma ex_header: "map_of (pq_headers (ex_request u t)) ''proxy-authorization'' = Some (''Bearer '' @ t)" "pq_target (ex_request u t) = u"
    "\<not> pq_health (ex_request u t)" "pq_method (ex_request u t) = ''GET''" "\<not> pe_daemonMode ex_env" "pe_secrets ex_env = None"
  by (simp_all add: ex_request_def ex_env_def)

lemma ex_fetch: "proxy_fetch ex_env ex_config 0 (ex_request ''https://api.io'' ''b@x'') = (Forwarded [(''accept'', ''x'')], [audit ''b@x'' AuAllow ''allow-list'' None None])"
proof -
  let ?b = "ex_agent ''b@x'' ''https://b.idp'' [ex_rule ''api.io''] []"
  have i: "requester_identity (pe_verify ex_env) ex_config (map_of (pq_headers (ex_request ''https://api.io'' ''b@x'')) ''proxy-authorization'') = Inr (Some ''b@x'')"
    by (simp add: ex_header) (simp add: requester_identity_def ex_env_def ex_config_def ex_agent_def nullish_def verifyAgentAuth_def ex_bearer member_def)
  have p: "pick_agent ex_config (Some ''b@x'') = Inr ?b"
    by (simp add: pick_agent_def agent_named_def ex_config_def ex_agent_def)
  have r: "evaluateRules (px_default_action ex_config) (agent_rules ?b) (tu_hostname ex_target) (pq_method (ex_request ''https://api.io'' ''b@x'')) (tu_pathname ex_target) = Some AllowRule"
    using ex_allow by (simp add: ex_config_def ex_agent_def agent_rules_def nullish_def ex_target_def ex_header)
  show ?thesis
    by (subst fetch_decides [OF _ _ _ _ i p r]) (simp_all add: ex_header ex_parsed ex_open forwardRequest_def nullish_def, simp add: ex_request_def)
qed

theorem forwarded_authorized_witness:
  "\<exists>target a. pe_parse ex_env ''https://api.io'' = Some target \<and> list_all screened [''93.184.216.34''] \<and> speaks_for ex_env ex_config (Some ''Bearer b@x'') a \<and>
    not_denied ex_config a (tu_hostname target) ''GET'' (tu_pathname target)"
proof -
  have "isIP ''api.io'' = 0" by code_simp
  then show ?thesis using forwarded_authorized [OF ex_fetch] by (auto simp: ex_request_def ex_parsed ex_target_def ex_env_def)
qed

text \<open>The provider of one agent can speak for another. A token that names a configured agent is accepted when the provider of any
  configured agent verifies it, in the order of the agents, whatever the provider of the agent it names would say.\<close>

theorem any_provider_names_agent:
  assumes "pre @ a # post = px_agents cfg" "\<And>x. x \<in> set pre \<Longrightarrow> verify t (ag_idp_url x) = None" "1 < length (px_agents cfg)"
    and "verify t (ag_idp_url a) = Some p" "member p ''sub'' = JStr (ag_email b)" "member p ''act'' = JStr ''agent''" "ag_email b \<noteq> []"
    and "proxy_bearer h = Some t" "h \<noteq> []" "agent_named (ag_email b) cfg = Some b"
  shows "requester_identity verify cfg (Some h) = Inr (Some (ag_email b)) \<and> pick_agent cfg (Some (ag_email b)) = Inr b"
proof -
  have a: "verifyAgentAuth verify (Some h) (ag_idp_url a) False = Inr (Some (ag_email b))"
    using assms by (simp add: verifyAgentAuth_def)
  have "first_identity verify (Some h) False (xs @ a # post) = Inr (Some (ag_email b))" if "\<forall>x\<in>set xs. verify t (ag_idp_url x) = None" for xs
    using that assms(8,9) a by (induction xs) (simp_all add: verifyAgentAuth_def)
  then have "first_identity verify (Some h) False (px_agents cfg) = Inr (Some (ag_email b))" using assms(1,2) by metis
  moreover have "length (px_agents cfg) \<noteq> 1" using assms(3) by simp
  ultimately show ?thesis using assms(10) by (simp add: requester_identity_def pick_agent_def Let_def)
qed

theorem any_provider_names_agent_witness:
  "requester_identity (pe_verify ex_env) ex_config (Some ''Bearer b@x'') = Inr (Some ''b@x'') \<and> pe_verify ex_env ''b@x'' ''https://b.idp'' = None"
proof -
  let ?b = "ex_agent ''b@x'' ''https://b.idp'' [ex_rule ''api.io''] []"
  have "requester_identity (pe_verify ex_env) ex_config (Some ''Bearer b@x'') = Inr (Some (ag_email ?b)) \<and> pick_agent ex_config (Some (ag_email ?b)) = Inr ?b"
    by (rule any_provider_names_agent [where pre = "[]" and t = "''b@x''" and p = "[(''sub'', JStr ''b@x''), (''act'', JStr ''agent'')]"
          and a = "ex_agent ''a@x'' ''https://a.idp'' [] []" and post = "[?b]"])
      (simp_all add: ex_env_def ex_config_def ex_agent_def member_def ex_bearer agent_named_def)
  then show ?thesis by (simp add: ex_agent_def ex_env_def)
qed

section \<open>Grants that are never found again\<close>

lemma never_usable:
  assumes "\<And>gs g. gc_list gc e = Some gs \<Longrightarrow> g \<in> set gs \<Longrightarrow> rq_audience (gr_request g) \<noteq> aud"
  shows "findExistingGrant gc now e host aud permissions = None"
  using assms by (auto simp: findExistingGrant_def find_None_iff usable_grant_def Let_def split: option.splits)

lemma poll_ignores_list: "waitForApproval (gc\<lparr>gc_list := l\<rparr>) i now = waitForApproval gc i now"
  by (simp add: wait_schedule)

text \<open>The proxy never finds a grant it asked for. It requests grants for the audience \<open>ape-proxy\<close> and looks for standing ones under
  the audience \<open>proxy\<close>: if every grant the provider lists has the audience the proxy asks for, each request is answered as if the
  listing failed, so an approval for a time or for always is asked for again on the next request.\<close>

theorem standing_grant_never_found:
  assumes "\<And>a e gs g. gc_list (pe_client env a) e = Some gs \<Longrightarrow> g \<in> set gs \<Longrightarrow> rq_audience (gr_request g) = ''ape-proxy''"
  shows "proxy_fetch env cfg now req = proxy_fetch (env\<lparr>pe_client := \<lambda>a. (pe_client env a)\<lparr>gc_list := \<lambda>_. None\<rparr>\<rparr>) cfg now req"
proof -
  have none: "findExistingGrant (pe_client env x) t e host ''proxy'' p = None" for x t e host p
    by (rule never_usable) (use assms in auto)
  have none': "findExistingGrant (gc\<lparr>gc_list := \<lambda>_. None\<rparr>) t e host ''proxy'' p = None" for gc t e host p
    by (simp add: findExistingGrant_def)
  let ?e = "env\<lparr>pe_client := \<lambda>a. (pe_client env a)\<lparr>gc_list := \<lambda>_. None\<rparr>\<rparr>"
  have w: "with_grant (env\<lparr>pe_client := \<lambda>a. (pe_client env a)\<lparr>gc_list := \<lambda>_. None\<rparr>\<rparr>) = with_grant env"
    by (intro ext) (simp add: with_grant_def none none' poll_ignores_list Let_def split: sum.split)
  have s: "pe_verify ?e = pe_verify env" "pe_parse ?e = pe_parse env" "pe_dns4 ?e = pe_dns4 env" "pe_dns6 ?e = pe_dns6 env"
    "pe_secrets ?e = pe_secrets env" "pe_daemonMode ?e = pe_daemonMode env" by simp_all
  show ?thesis unfolding proxy_fetch_def s w ..
qed

definition ex_standing :: grant where
  "ex_standing = \<lparr>gr_brokered = None, gr_id = ''g'', gr_category = None,
     gr_request = (plain_request ''b@x'' ''api.io'' ''ape-proxy'')\<lparr>rq_grant_type := Some Always\<rparr>, gr_status = Approved, gr_decided_by = Some ''o@x'',
     gr_created_at = 1, gr_decided_at = Some 2, gr_expires_at = None, gr_used_at = None, gr_withdraw_reason = None,
     gr_decided_by_standing_grant = None, gr_auto_approval_kind = None\<rparr>"

theorem standing_grant_never_found_witness:
  "fst (proxy_fetch (ex_env\<lparr>pe_client := \<lambda>_. \<lparr>gc_list = \<lambda>_. Some [ex_standing], gc_request = \<lambda>_. Inl ''down'', gc_poll = \<lambda>_ _. Inl 500\<rparr>\<rparr>)
     \<lparr>px_default_action = RequestAction, px_mandatory_auth = None, px_agents = [ex_agent ''b@x'' ''https://b.idp'' [] []]\<rparr> 0 (ex_request ''https://api.io'' ''t''))
   = Refused 504 ''down''"
proof -
  let ?e = "ex_env\<lparr>pe_client := \<lambda>_. \<lparr>gc_list = \<lambda>_. Some [ex_standing], gc_request = \<lambda>_. Inl ''down'', gc_poll = \<lambda>_ _. Inl 500\<rparr>\<rparr>"
  let ?c = "\<lparr>px_default_action = RequestAction, px_mandatory_auth = None, px_agents = [ex_agent ''b@x'' ''https://b.idp'' [] []]\<rparr>"
  have eq: "proxy_fetch ?e ?c 0 (ex_request ''https://api.io'' ''t'') =
      proxy_fetch (?e\<lparr>pe_client := \<lambda>a. (pe_client ?e a)\<lparr>gc_list := \<lambda>_. None\<rparr>\<rparr>) ?c 0 (ex_request ''https://api.io'' ''t'')"
    by (rule standing_grant_never_found) (auto simp: ex_standing_def plain_request_def)
  let ?a = "ex_agent ''b@x'' ''https://b.idp'' [] []"
  let ?e' = "?e\<lparr>pe_client := \<lambda>a. (pe_client ?e a)\<lparr>gc_list := \<lambda>_. None\<rparr>\<rparr>"
  have i: "requester_identity (pe_verify ?e') ?c (map_of (pq_headers (ex_request ''https://api.io'' ''t'')) ''proxy-authorization'') = Inr None"
    by (simp add: ex_header) (simp add: requester_identity_def ex_env_def ex_agent_def nullish_def verifyAgentAuth_def split: option.split)
  have p: "pick_agent ?c None = Inr ?a" by (simp add: pick_agent_def)
  have r: "evaluateRules (px_default_action ?c) (agent_rules ?a) (tu_hostname ex_target) (pq_method (ex_request ''https://api.io'' ''t'')) (tu_pathname ex_target) = Some (GrantRequired catch_all)"
    by (simp add: ex_agent_def agent_rules_def nullish_def evaluateRules_def)
  have "proxy_fetch ?e' ?c 0 (ex_request ''https://api.io'' ''t'') = with_grant ?e' RequestAction 0 (ex_request ''https://api.io'' ''t'') ex_target ?a ''b@x'' None catch_all"
    by (subst fetch_decides [OF _ _ _ _ i p r]) (simp_all add: ex_header ex_parsed ex_open nullish_def ex_agent_def)
  then show ?thesis unfolding eq by (simp add: with_grant_def findExistingGrant_def Let_def)
qed
section \<open>Tunnels\<close>

lemma literal_pattern:
  assumes "CHR ''*'' \<notin> set d" "CHR ''?'' \<notin> set d"
  shows "globMatch d s = Some (s = d)"
proof -
  have "rule_tokens d = map (\<lambda>c. Tok (Lit c)) d" using assms by (induction d) auto
  moreover have "alternatives (map (\<lambda>c. Tok (Lit c)) e) = Some [map Lit e]" for e
  proof (induction e)
    case (Cons c e)
    have "takeWhile (\<lambda>t. t = Quantifier) (map (\<lambda>c. Tok (Lit c)) e) = []" by (cases e) auto
    then show ?case using Cons.IH by (simp add: quantified_def)
  qed simp
  ultimately show ?thesis by (simp add: globMatch_def pattern_test_def glob_match_lits)
qed

lemma connect_speaks:
  assumes "connect_identity env cfg header = Inr identity"
    and "(case identity of Some e \<Rightarrow> agent_named e cfg | None \<Rightarrow> (case px_agents cfg of [] \<Rightarrow> None | b # _ \<Rightarrow> Some b)) = Some a"
  shows "speaks_for env cfg header a \<and> nullish identity (ag_email a) = ag_email a"
proof (cases "pe_daemonMode env")
  case True
  then obtain b bs where b: "px_agents cfg = b # bs" using assms by (cases "px_agents cfg") (auto simp: connect_identity_def)
  then have i: "identity = Some (ag_email b)" using assms(1) True by (auto simp: connect_identity_def)
  then have "agent_named (ag_email b) cfg = Some a" using assms(2) by simp
  then show ?thesis using agent_named_in [of "ag_email b" cfg a] True b i by (simp add: speaks_for_def nullish_def)
next
  case False
  show ?thesis
  proof (cases identity)
    case None
    then have r: "requester_identity (pe_verify env) cfg header = Inr None" and "\<not> 1 < length (px_agents cfg)"
      using assms(1) False by (auto simp: connect_identity_def split: sum.splits option.splits if_splits)
    then have "px_agents cfg = [a]" using assms(2) None by (cases "px_agents cfg") auto
    then show ?thesis using requester_none [OF r] False None by (simp add: speaks_for_def nullish_def)
  next
    case (Some e)
    then have r: "requester_identity (pe_verify env) cfg header = Inr (Some e)"
      using assms(1) False by (auto simp: connect_identity_def split: sum.splits option.splits if_splits)
    then show ?thesis using requester_token [OF r] agent_named_in assms(2) Some False by (auto simp: speaks_for_def nullish_def)
  qed
qed

text \<open>A tunnel opens on the same terms as a request. \<open>CONNECT\<close> is accepted for a host of a configured identity provider, without
  any check and never with inspection; for every other host only when its addresses are all public, an agent speaks for it, no deny rule
  of that agent matches and an allow rule or the default lets it pass or a grant asked for now is approved within five minutes.\<close>

theorem tunnel_authorized:
  assumes "handleConnect env cfg now target header = (Tunnel host port inspected, log)"
  shows "connect_target target = Some (host, port) \<and> ((to_lower host \<in> set (idp_hosts (pe_parse env) cfg) \<and> \<not> inspected) \<or>
    (checkEgress (pe_dns4 env) (pe_dns6 env) host = EgressOk \<and> (\<exists>a. speaks_for env cfg header a \<and> not_denied cfg a host ''CONNECT'' ''/'' \<and>
      (evaluateRules (px_default_action cfg) (agent_rules a) host ''CONNECT'' ''/'' = Some AllowRule \<or>
       (\<exists>rule ask. evaluateRules (px_default_action cfg) (agent_rules a) host ''CONNECT'' ''/'' = Some (GrantRequired rule) \<and> ga_requester ask = ag_email a \<and>
         ga_targetHost ask = host \<and> ga_grantType ask = ru_grant_type rule \<and> approved_by_poll (pe_client env (ag_email a)) now ask)))))"
proof -
  obtain h p where t: "connect_target target = Some (h, p)" using assms by (cases "connect_target target") (auto simp: handleConnect_def)
  show ?thesis
  proof (cases "to_lower h \<in> set (idp_hosts (pe_parse env) cfg)")
    case True
    then show ?thesis using assms t by (auto simp: handleConnect_def)
  next
    case False
    note eq = assms [unfolded handleConnect_def, simplified t False, simplified]
    obtain identity where i: "connect_identity env cfg header = Inr identity" using eq False by (cases "connect_identity env cfg header") auto
    note eq2 = eq [simplified i False Let_def, simplified]
    have eg: "checkEgress (pe_dns4 env) (pe_dns6 env) h = EgressOk" using eq2 False
      by (cases "checkEgress (pe_dns4 env) (pe_dns6 env) h") auto
    obtain a where a: "(case identity of Some e \<Rightarrow> agent_named e cfg | None \<Rightarrow> (case px_agents cfg of [] \<Rightarrow> None | b # _ \<Rightarrow> Some b)) = Some a"
      using eq2 False eg by (cases "case identity of Some e \<Rightarrow> agent_named e cfg | None \<Rightarrow> (case px_agents cfg of [] \<Rightarrow> None | b # _ \<Rightarrow> Some b)") auto
    note sp = connect_speaks [OF i a]
    note eq3 = eq2 [simplified False eg a, simplified, unfolded conjunct2 [OF sp]]
    obtain r where r: "evaluateRules (px_default_action cfg) (agent_rules a) h ''CONNECT'' ''/'' = Some r" using eq3 False
      by (cases "evaluateRules (px_default_action cfg) (agent_rules a) h ''CONNECT'' ''/''") auto
    show ?thesis
    proof (cases r)
      case AllowRule
      then have "h = host \<and> p = port" using eq3 r False by (simp add: open_tunnel_def)
      then show ?thesis using AllowRule r t eg sp evaluated_not_denied [OF r] by auto
    next
      case (DenyRule n)
      then show ?thesis using eq3 r False by simp
    next
      case (GrantRequired rule)
      let ?ask = "\<lparr>ga_requester = ag_email a, ga_targetHost = h, ga_audience = ''ape-proxy'', ga_grantType = ru_grant_type rule,
                           ga_permissions = ru_permissions rule, ga_reason = ''CONNECT '' @ h @ '':'' @ string_of_int p, ga_requestHash = None,
                           ga_duration = ru_duration rule, ga_agentToken = None\<rparr>"
      note eq4 = eq3 [simplified False r GrantRequired, simplified]
      obtain g where g: "gc_request (pe_client env (ag_email a)) ?ask = Inr g" using eq4 False
        by (cases "gc_request (pe_client env (ag_email a)) ?ask") auto
      obtain d where d: "waitForApproval (pe_client env (ag_email a)) (gr_id g) now = Inr d" using eq4 False g
        by (cases "waitForApproval (pe_client env (ag_email a)) (gr_id g) now") auto
      have "gr_status d = Approved \<and> h = host \<and> p = port" using eq4 False g d by (auto simp: open_tunnel_def split: if_splits)
      then show ?thesis using GrantRequired r t eg sp evaluated_not_denied [OF r] waited_approved [OF g d] by (auto intro!: exI [of _ ?ask])
    qed
  qed
qed
definition ex_daemon :: "(string \<Rightarrow> string list option) \<Rightarrow> proxy_env" where
  "ex_daemon dns = \<lparr>pe_verify = \<lambda>_ _. None, pe_parse = \<lambda>_. None, pe_sha = \<lambda>s. s, pe_dns4 = dns, pe_dns6 = \<lambda>_. None,
     pe_client = \<lambda>_. \<lparr>gc_list = \<lambda>_. None, gc_request = \<lambda>_. Inl ''down'', gc_poll = \<lambda>_ _. Inl 500\<rparr>, pe_secrets = None, pe_leafCache = False, pe_daemonMode = True\<rparr>"

text \<open>A deny rule for a host does not hold for the host in capital letters. The tunnel's target is matched as it was sent, while the name
  service ignores case: where the rules deny one literal host and the default allows, every spelling of the host that is not the rule's own is
  let through.\<close>

theorem connect_case_evades:
  assumes "pe_daemonMode env" "px_agents cfg = [a]" "px_default_action cfg = AllowAction"
    and "ag_deny a = Some [ex_rule d]" "nullish (ag_allow a) [] = []" "nullish (ag_grant_required a) [] = []"
    and "to_lower host = d" "host \<noteq> d" "CHR ''*'' \<notin> set d" "CHR ''?'' \<notin> set d"
    and "connect_target target = Some (host, port)" "d \<notin> set (idp_hosts (pe_parse env) cfg)"
    and "checkEgress (pe_dns4 env) (pe_dns6 env) host = EgressOk"
  shows "fst (handleConnect env cfg now target header) = open_tunnel env host port \<and>
    evaluateRules AllowAction (agent_rules a) d ''CONNECT'' ''/'' = Some (DenyRule None)"
proof -
  have m: "globMatch d s = Some (s = d)" for s by (rule literal_pattern) (use assms in auto)
  have i: "connect_identity env cfg header = Inr (Some (ag_email a))" "agent_named (ag_email a) cfg = Some a"
    using assms(1,2) by (simp_all add: connect_identity_def agent_named_def)
  have r: "evaluateRules AllowAction (agent_rules a) h ''CONNECT'' ''/'' = Some (if h = d then DenyRule None else AllowRule)" for h
    using assms(4-6) m by (simp add: evaluateRules_def agent_rules_def matchesRule_def ex_rule_def nullish_def [of "Some _"])
  show ?thesis using assms(3,7,8,11,12,13) i r by (simp add: handleConnect_def Let_def)
qed

theorem connect_case_evades_witness:
  "fst (handleConnect (ex_daemon (\<lambda>_. Some [''93.184.216.34''])) \<lparr>px_default_action = AllowAction, px_mandatory_auth = None,
     px_agents = [ex_agent ''a@x'' [] [] [ex_rule ''evil.io'']]\<rparr> 0 ''EVIL.io:443'' None) = Tunnel ''EVIL.io'' 443 False"
proof -
  let ?e = "ex_daemon (\<lambda>_. Some [''93.184.216.34''])"
  have t: "connect_target ''EVIL.io:443'' = Some (''EVIL.io'', 443)" "to_lower ''EVIL.io'' = ''evil.io''" by code_simp+
  have e: "checkEgress (pe_dns4 ?e) (pe_dns6 ?e) ''EVIL.io'' = EgressOk"
    by (simp add: ex_daemon_def, code_simp)
  show ?thesis
    using connect_case_evades [of ?e "\<lparr>px_default_action = AllowAction, px_mandatory_auth = None, px_agents = [ex_agent ''a@x'' [] [] [ex_rule ''evil.io'']]\<rparr>"
        "ex_agent ''a@x'' [] [] [ex_rule ''evil.io'']" "''evil.io''" "''EVIL.io''" "''EVIL.io:443''" 443 0 None] t e
    by (simp add: ex_daemon_def ex_agent_def nullish_def idp_hosts_def open_tunnel_def)
qed

theorem tunnel_authorized_witness:
  "\<exists>a. speaks_for (ex_daemon (\<lambda>_. Some [''93.184.216.34''])) \<lparr>px_default_action = AllowAction, px_mandatory_auth = None,
     px_agents = [ex_agent ''a@x'' [] [] []]\<rparr> None a"
proof -
  let ?e = "ex_daemon (\<lambda>_. Some [''93.184.216.34''])"
  let ?c = "\<lparr>px_default_action = AllowAction, px_mandatory_auth = None, px_agents = [ex_agent ''a@x'' [] [] []]\<rparr>"
  have t: "connect_target ''api.io:443'' = Some (''api.io'', 443)" by code_simp
  have e: "checkEgress (pe_dns4 ?e) (pe_dns6 ?e) ''api.io'' = EgressOk" using ex_public by (simp add: ex_daemon_def)
  have h: "idp_hosts (pe_parse ?e) ?c = []" by (simp add: idp_hosts_def ex_daemon_def)
  have i: "connect_identity ?e ?c None = Inr (Some ''a@x'')" "agent_named ''a@x'' ?c = Some (ex_agent ''a@x'' [] [] [])"
    by (simp_all add: connect_identity_def agent_named_def ex_daemon_def ex_agent_def)
  have r: "evaluateRules AllowAction (agent_rules (ex_agent ''a@x'' [] [] [])) ''api.io'' ''CONNECT'' ''/'' = Some AllowRule"
    by (simp add: evaluateRules_def agent_rules_def ex_agent_def nullish_def)
  have "handleConnect ?e ?c 0 ''api.io:443'' None = (Tunnel ''api.io'' 443 False, [audit ''a@x'' AuAllow ''allow-list'' None None])"
    using t e h i r by (simp add: handleConnect_def Let_def nullish_def open_tunnel_def) (simp add: ex_daemon_def)
  from tunnel_authorized [OF this] h show ?thesis by auto
qed

end
