(* ===== verification/DnsRecords.thy ===== *)
theory DnsRecords
  imports Types TtlCache
begin

text \<open>
  \<open>packages/core/src/dns/parser.ts\<close> and \<open>resolver.ts\<close>: the DNS record that names a domain's identity provider and login policy.
  \<open>urlOf\<close> is \<open>new URL\<close>: protocol, user name and password, \<open>None\<close> when it throws. \<open>native\<close> and \<open>doh\<close> answer a TXT query at a
  time, \<open>None\<close> when they throw. A priority that is not a number is \<open>Some None\<close>; records with such priorities keep the order an
  insertion sort gives them. Times are milliseconds, lifetimes seconds.
\<close>

section \<open>Parsing\<close>

type_synonym idp_url = "string \<Rightarrow> (string \<times> string \<times> string) option"

definition printable :: "char \<Rightarrow> bool" where
  "printable c = (let n = (of_char c :: nat) in n = 9 \<or> (32 \<le> n \<and> n \<le> 126))"

definition isValidIdpUrl :: "idp_url \<Rightarrow> bool \<Rightarrow> string \<Rightarrow> string option" where
  "isValidIdpUrl urlOf allowHttp v = (if v = [] then None else case urlOf v of None \<Rightarrow> None
     | Some (protocol, username, password) \<Rightarrow>
         if protocol \<noteq> ''https:'' \<and> \<not> (allowHttp \<and> protocol = ''http:'') then None
         else if username \<noteq> [] \<or> password \<noteq> [] then None
         else if \<not> list_all printable v then None else Some v)"

definition mode_of :: "string \<Rightarrow> policy_mode option" where
  "mode_of v = map_of [(''open'', ModeOpen), (''allowlist-admin'', ModeAllowlistAdmin), (''allowlist-user'', ModeAllowlistUser), (''deny'', ModeDeny)] v"

definition mode_name :: "policy_mode \<Rightarrow> string" where
  "mode_name m = (case m of ModeOpen \<Rightarrow> ''open'' | ModeAllowlistAdmin \<Rightarrow> ''allowlist-admin'' | ModeAllowlistUser \<Rightarrow> ''allowlist-user'' | ModeDeny \<Rightarrow> ''deny'')"

record ddisa_fields =
  df_idp :: "string option"
  df_mode :: "policy_mode option"
  df_priority :: "int option option"
  df_policy_endpoint :: "string option"

record ddisa_record =
  dr_version :: string
  dr_idp :: string
  dr_mode :: "policy_mode option"
  dr_priority :: "int option option"
  dr_policy_endpoint :: "string option"
  dr_raw :: string

definition read_field :: "idp_url \<Rightarrow> bool \<Rightarrow> ddisa_fields \<Rightarrow> string \<Rightarrow> ddisa_fields" where
  "read_field urlOf allowHttp r part = (case index_of (CHR ''='') part of None \<Rightarrow> r
     | Some i \<Rightarrow> (let key = to_lower (js_trim (take i part)); v = js_trim (drop (Suc i) part) in
         if key = ''idp'' then (case isValidIdpUrl urlOf allowHttp v of None \<Rightarrow> r | Some u \<Rightarrow> r\<lparr>df_idp := Some u\<rparr>)
         else if key = ''mode'' then (case mode_of v of None \<Rightarrow> r | Some m \<Rightarrow> r\<lparr>df_mode := Some m\<rparr>)
         else if key = ''priority'' then r\<lparr>df_priority := Some (parse_int v)\<rparr>
         else if key = ''policy_endpoint'' \<or> key = ''policy'' then r\<lparr>df_policy_endpoint := Some v\<rparr>
         else r))"

definition no_fields :: ddisa_fields where
  "no_fields = \<lparr>df_idp = None, df_mode = None, df_priority = None, df_policy_endpoint = None\<rparr>"

definition parseDDISARecord :: "idp_url \<Rightarrow> bool \<Rightarrow> string \<Rightarrow> ddisa_record option" where
  "parseDDISARecord urlOf allowHttp txt = (let trimmed = js_trim txt in
     case index_of (CHR '' '') trimmed of None \<Rightarrow> None
     | Some i \<Rightarrow> if js_trim (take i trimmed) \<noteq> ''v=ddisa1'' then None
         else (let r = foldl (read_field urlOf allowHttp) no_fields (map js_trim (split_on (CHR '';'') (drop (Suc i) trimmed))) in
           case df_idp r of None \<Rightarrow> None
           | Some u \<Rightarrow> if u = [] then None else Some \<lparr>dr_version = ''ddisa1'', dr_idp = u, dr_mode = df_mode r, dr_priority = df_priority r,
               dr_policy_endpoint = df_policy_endpoint r, dr_raw = txt\<rparr>))"

section \<open>Resolving\<close>

record mock_record =
  mk_version :: "string option"
  mk_idp :: string
  mk_mode :: "policy_mode option"
  mk_priority :: "int option option"
  mk_policy_endpoint :: "string option"

definition mock_raw :: "string \<Rightarrow> policy_mode option \<Rightarrow> string" where
  "mock_raw idp mode = ''v=ddisa1 idp='' @ idp @ (case mode of None \<Rightarrow> [] | Some m \<Rightarrow> ''; mode='' @ mode_name m)"

definition env_record :: "mock_record \<Rightarrow> ddisa_record" where
  "env_record m = \<lparr>dr_version = ''ddisa1'', dr_idp = mk_idp m, dr_mode = mk_mode m, dr_priority = None, dr_policy_endpoint = None,
     dr_raw = mock_raw (mk_idp m) (mk_mode m)\<rparr>"

definition option_record :: "mock_record \<Rightarrow> ddisa_record" where
  "option_record m = \<lparr>dr_version = nullish (mk_version m) ''ddisa1'', dr_idp = mk_idp m, dr_mode = mk_mode m, dr_priority = mk_priority m,
     dr_policy_endpoint = mk_policy_endpoint m, dr_raw = mock_raw (mk_idp m) (mk_mode m)\<rparr>"

record dns_options =
  do_noCache :: bool
  do_cacheTTL :: "int option"
  do_negativeCacheTTL :: "int option"
  do_mockRecords :: "(string \<times> mock_record) list"

type_synonym txt_query = "int \<Rightarrow> string \<Rightarrow> string list option"

definition resolveTXTRecords :: "txt_query \<Rightarrow> txt_query \<Rightarrow> txt_query" where
  "resolveTXTRecords native doh now domain = (case native now domain of None \<Rightarrow> doh now domain | Some rs \<Rightarrow> Some rs)"

definition priority_le :: "ddisa_record \<Rightarrow> ddisa_record \<Rightarrow> bool" where
  "priority_le a b = (case (nullish (dr_priority a) (Some 10), nullish (dr_priority b) (Some 10)) of (Some x, Some y) \<Rightarrow> x \<le> y | _ \<Rightarrow> True)"

definition valid_records :: "idp_url \<Rightarrow> bool \<Rightarrow> string list \<Rightarrow> ddisa_record list" where
  "valid_records urlOf allowHttp rs = List.map_filter (\<lambda>r. if includes_str r ''v=ddisa1'' then parseDDISARecord urlOf allowHttp r else None) rs"

definition best_record :: "idp_url \<Rightarrow> bool \<Rightarrow> string list \<Rightarrow> ddisa_record option" where
  "best_record urlOf allowHttp rs = (case sort_by priority_le (valid_records urlOf allowHttp rs) of [] \<Rightarrow> None | b # _ \<Rightarrow> Some b)"

record dns_entry =
  de_record :: "ddisa_record option"
  de_expires :: int

type_synonym dns_cache = "(string \<times> dns_entry) list"

definition dns_life :: "dns_options \<Rightarrow> ddisa_record option \<Rightarrow> int" where
  "dns_life opts r = (case r of None \<Rightarrow> nullish (do_negativeCacheTTL opts) 60 | Some _ \<Rightarrow> nullish (do_cacheTTL opts) 300) * 1000"

definition query_record :: "idp_url \<Rightarrow> bool \<Rightarrow> txt_query \<Rightarrow> int \<Rightarrow> string \<Rightarrow> ddisa_record option option" where
  "query_record urlOf allowHttp query now domain = map_option (best_record urlOf allowHttp) (query now (''_ddisa.'' @ domain))"

definition query_and_store :: "idp_url \<Rightarrow> bool \<Rightarrow> txt_query \<Rightarrow> dns_options \<Rightarrow> int \<Rightarrow> string \<Rightarrow> dns_cache \<Rightarrow> ddisa_record option option \<times> dns_cache" where
  "query_and_store urlOf allowHttp query opts now domain c = (case query_record urlOf allowHttp query now domain of None \<Rightarrow> (None, c)
     | Some r \<Rightarrow> (Some r, AList.update domain \<lparr>de_record = r, de_expires = now + dns_life opts r\<rparr> c))"

definition cached_record :: "idp_url \<Rightarrow> bool \<Rightarrow> txt_query \<Rightarrow> dns_options \<Rightarrow> int \<Rightarrow> string \<Rightarrow> dns_cache \<Rightarrow> ddisa_record option option \<times> dns_cache" where
  "cached_record urlOf allowHttp query opts now domain c = (case map_of c domain of
     None \<Rightarrow> query_and_store urlOf allowHttp query opts now domain c
   | Some e \<Rightarrow> if now < de_expires e then (Some (de_record e), c) else query_and_store urlOf allowHttp query opts now domain c)"

text \<open>\<open>env\<close> is the parsed environment variable with mock records; the outer \<open>None\<close> of the result is a thrown error.\<close>

definition resolveDDISA :: "idp_url \<Rightarrow> bool \<Rightarrow> (string \<times> mock_record) list \<Rightarrow> txt_query \<Rightarrow> txt_query \<Rightarrow> dns_options \<Rightarrow> int \<Rightarrow> string \<Rightarrow> dns_cache
    \<Rightarrow> ddisa_record option option \<times> dns_cache" where
  "resolveDDISA urlOf allowHttp env native doh opts now domain c = (case map_of env domain of Some m \<Rightarrow> (Some (Some (env_record m)), c)
     | None \<Rightarrow> (case map_of (do_mockRecords opts) domain of Some m \<Rightarrow> (Some (Some (option_record m)), c)
       | None \<Rightarrow> (if do_noCache opts then query_and_store urlOf allowHttp (resolveTXTRecords native doh) opts now domain c
           else cached_record urlOf allowHttp (resolveTXTRecords native doh) opts now domain c)))"

definition resolveIdP :: "idp_url \<Rightarrow> bool \<Rightarrow> (string \<times> mock_record) list \<Rightarrow> txt_query \<Rightarrow> txt_query \<Rightarrow> dns_options \<Rightarrow> int \<Rightarrow> string \<Rightarrow> dns_cache
    \<Rightarrow> string option option \<times> dns_cache" where
  "resolveIdP urlOf allowHttp env native doh opts now domain c = (case resolveDDISA urlOf allowHttp env native doh opts now domain c of
     (r, c') \<Rightarrow> (map_option (map_option dr_idp) r, c'))"

definition clearDNSCacheFor :: "string \<Rightarrow> dns_cache \<Rightarrow> bool \<times> dns_cache" where
  "clearDNSCacheFor domain c = (map_of c domain \<noteq> None, AList.delete domain c)"

section \<open>The cache\<close>

interpretation dns: ttl_cache "query_record urlOf allowHttp query" "dns_life opts" de_record de_expires "cached_record urlOf allowHttp query opts"
  for urlOf allowHttp query opts
  by unfold_locales (auto simp: cached_record_def query_and_store_def split: option.splits)

section \<open>Properties\<close>

lemma trim_id: "s \<noteq> [] \<Longrightarrow> \<not> is_space (hd s) \<Longrightarrow> \<not> is_space (last s) \<Longrightarrow> js_trim s = s"
proof -
  assume a: "s \<noteq> []" "\<not> is_space (hd s)" "\<not> is_space (last s)"
  obtain d ds where r: "rev s = d # ds" using a(1) by (cases "rev s") auto
  then have "last s = d" using a(1) by (metis hd_rev list.sel(1))
  then have "dropWhile is_space (rev s) = rev s" using r a(3) by simp
  moreover have "dropWhile is_space s = s" using a(1,2) by (cases s) auto
  ultimately show ?thesis by (simp add: js_trim_def)
qed

lemma trimmed_ends: "js_trim s = s \<Longrightarrow> s \<noteq> [] \<Longrightarrow> \<not> is_space (hd s) \<and> \<not> is_space (last s)"
proof -
  assume a: "js_trim s = s" "s \<noteq> []"
  define u where "u = dropWhile is_space s"
  have t: "rev (dropWhile is_space (rev u)) = s" using a(1) by (simp add: js_trim_def u_def)
  have len: "length u \<le> length s" unfolding u_def by (rule length_dropWhile_le)
  have "length (dropWhile is_space (rev u)) \<le> length u" using length_dropWhile_le [of is_space "rev u"] by simp
  then have "length u = length s" using t len by (metis le_antisym length_rev)
  then have u: "u = s" unfolding u_def by (metis append_Nil append_same_eq length_append takeWhile_dropWhile_id add_cancel_left_left length_0_conv)
  have h: "\<not> is_space (hd s)" using u a(2) unfolding u_def by (metis hd_dropWhile)
  have "dropWhile is_space (rev s) = rev s" using t u by (metis rev_rev_ident)
  then have "\<not> is_space (hd (rev s))" using a(2) by (metis hd_dropWhile rev_is_Nil_conv)
  with h a(2) show ?thesis by (simp add: hd_rev)
qed

lemma valid_idp: "isValidIdpUrl urlOf allowHttp v = Some u \<Longrightarrow> u = v \<and> v \<noteq> [] \<and> list_all printable v \<and>
    (\<exists>p. urlOf v = Some (p, [], []) \<and> (p = ''https:'' \<or> allowHttp \<and> p = ''http:''))"
  by (auto simp: isValidIdpUrl_def split: option.splits prod.splits if_splits)

lemma mode_of_name [simp]: "mode_of (mode_name m) = Some m"
  by (cases m) (simp_all add: mode_of_def mode_name_def)

lemma mode_part: "js_trim ('' mode='' @ mode_name m) = ''mode='' @ mode_name m"
  by (cases m) (simp_all add: mode_name_def js_trim_def is_space_def)

lemma idp_part:
  assumes "isValidIdpUrl urlOf allowHttp idp = Some idp" "js_trim idp = idp"
  shows "js_trim (''idp='' @ idp) = ''idp='' @ idp" "read_field urlOf allowHttp r (''idp='' @ idp) = r\<lparr>df_idp := Some idp\<rparr>"
proof -
  have ne: "idp \<noteq> []" using valid_idp [OF assms(1)] by simp
  then show "js_trim (''idp='' @ idp) = ''idp='' @ idp" using trimmed_ends [OF assms(2)] by (intro trim_id) (auto simp: is_space_def)
  have "index_of (CHR ''='') (''idp'' @ CHR ''='' # idp) = Some 3" using index_of_append [of "CHR ''=''" "''idp''" idp] by simp
  moreover have "js_trim ''idp'' = ''idp''" "to_lower ''idp'' = ''idp''" by code_simp+
  ultimately show "read_field urlOf allowHttp r (''idp='' @ idp) = r\<lparr>df_idp := Some idp\<rparr>"
    using assms by (simp add: read_field_def)
qed

lemma mode_field: "read_field urlOf allowHttp r (''mode='' @ mode_name m) = r\<lparr>df_mode := Some m\<rparr>"
proof -
  have "index_of (CHR ''='') (''mode'' @ CHR ''='' # mode_name m) = Some 4" using index_of_append [of "CHR ''=''" "''mode''"] by simp
  moreover have "js_trim ''mode'' = ''mode''" "to_lower ''mode'' = ''mode''" "js_trim (mode_name m) = mode_name m"
    by (code_simp, code_simp, cases m) (simp_all add: mode_name_def js_trim_def is_space_def)
  ultimately show ?thesis by (simp add: read_field_def)
qed

text \<open>A record that was written is read back. The record text made of a provider's address and a mode parses to exactly that
  address and mode, for every address the resolver accepts that is trimmed and holds no semicolon.\<close>

theorem ddisa_roundtrip:
  assumes "isValidIdpUrl urlOf allowHttp idp = Some idp" "js_trim idp = idp" "CHR '';'' \<notin> set idp"
  shows "parseDDISARecord urlOf allowHttp (mock_raw idp mode) = Some \<lparr>dr_version = ''ddisa1'', dr_idp = idp, dr_mode = mode,
    dr_priority = None, dr_policy_endpoint = None, dr_raw = mock_raw idp mode\<rparr>"
proof -
  define rest where "rest = ''idp='' @ idp @ (case mode of None \<Rightarrow> [] | Some m \<Rightarrow> ''; mode='' @ mode_name m)"
  have ne: "idp \<noteq> []" using valid_idp [OF assms(1)] by simp
  have ends: "\<not> is_space (last idp)" using trimmed_ends [OF assms(2) ne] by simp
  have raw: "mock_raw idp mode = ''v=ddisa1'' @ CHR '' '' # rest" by (simp add: mock_raw_def rest_def)
  have "\<not> is_space (last (mock_raw idp mode))"
  proof (cases mode)
    case (Some m)
    then show ?thesis by (cases m) (simp_all add: mock_raw_def mode_name_def is_space_def)
  qed (use ne ends in \<open>simp add: mock_raw_def\<close>)
  then have trim: "js_trim (mock_raw idp mode) = mock_raw idp mode" by (intro trim_id) (auto simp: mock_raw_def is_space_def)
  have "map js_trim (split_on (CHR '';'') rest) = (case mode of None \<Rightarrow> [''idp='' @ idp] | Some m \<Rightarrow> [''idp='' @ idp, ''mode='' @ mode_name m])"
  proof (cases mode)
    case None
    then have "split_on (CHR '';'') rest = [''idp='' @ idp]" using assms(3) split_on_no_sep [of "CHR '';''" "''idp='' @ idp"] by (simp add: rest_def)
    then show ?thesis using None idp_part(1) [OF assms(1,2)] by simp
  next
    case (Some m)
    have "CHR '';'' \<notin> set ('' mode='' @ mode_name m)" by (cases m) (simp_all add: mode_name_def)
    then have "split_on (CHR '';'') rest = [''idp='' @ idp, '' mode='' @ mode_name m]"
      using Some assms(3) split_on_append_sep [of "CHR '';''" "''idp='' @ idp" "'' mode='' @ mode_name m"]
        split_on_no_sep [of "CHR '';''" "'' mode='' @ mode_name m"] by (simp add: rest_def)
    then show ?thesis using Some idp_part(1) [OF assms(1,2)] mode_part by simp
  qed
  then have "foldl (read_field urlOf allowHttp) no_fields (map js_trim (split_on (CHR '';'') rest)) = no_fields\<lparr>df_idp := Some idp, df_mode := mode\<rparr>"
    using idp_part(2) [OF assms(1,2)] mode_field by (cases mode) (simp_all add: no_fields_def)
  moreover have "index_of (CHR '' '') (''v=ddisa1'' @ CHR '' '' # rest) = Some 8" using index_of_append [of "CHR '' ''" "''v=ddisa1''" rest] by simp
  moreover have "js_trim ''v=ddisa1'' = ''v=ddisa1''" by code_simp
  ultimately show ?thesis using ne trim unfolding raw by (simp add: parseDDISARecord_def no_fields_def)
qed

definition ex_idp_url :: idp_url where
  "ex_idp_url u = (if starts_with u ''https://'' then Some (''https:'', [], []) else None)"

theorem ddisa_roundtrip_witness:
  "parseDDISARecord ex_idp_url False ''v=ddisa1 idp=https://idp.x.io; mode=deny'' = Some \<lparr>dr_version = ''ddisa1'', dr_idp = ''https://idp.x.io'',
    dr_mode = Some ModeDeny, dr_priority = None, dr_policy_endpoint = None, dr_raw = ''v=ddisa1 idp=https://idp.x.io; mode=deny''\<rparr>"
proof -
  have "isValidIdpUrl ex_idp_url False ''https://idp.x.io'' = Some ''https://idp.x.io''" "js_trim ''https://idp.x.io'' = ''https://idp.x.io''"
    by code_simp+
  from ddisa_roundtrip [OF this, of "Some ModeDeny"] show ?thesis by (simp add: mock_raw_def mode_name_def)
qed

lemma parse_valid:
  assumes "parseDDISARecord urlOf allowHttp line = Some r"
  shows "list_all printable (dr_idp r) \<and> (\<exists>p. urlOf (dr_idp r) = Some (p, [], []) \<and> (p = ''https:'' \<or> allowHttp \<and> p = ''http:''))"
proof -
  have step: "df_idp (read_field urlOf allowHttp f x) = df_idp f \<or> (\<exists>v. isValidIdpUrl urlOf allowHttp v = df_idp (read_field urlOf allowHttp f x))" for f x
  proof (cases "index_of (CHR ''='') x")
    case (Some i)
    then show ?thesis
      by (cases "isValidIdpUrl urlOf allowHttp (js_trim (drop (Suc i) x))") (auto simp: read_field_def Let_def split: option.split)
  next
    case None
    then show ?thesis unfolding read_field_def None by (simp del: index_of_None)
  qed
  have keep: "df_idp (foldl (read_field urlOf allowHttp) f ps) = Some u \<Longrightarrow> df_idp f = Some u \<or> (\<exists>v. isValidIdpUrl urlOf allowHttp v = Some u)" for f ps u
  proof (induction ps arbitrary: f)
    case (Cons x ps)
    then show ?case using step [of f x] by (metis foldl_Cons)
  qed simp
  obtain ps where "df_idp (foldl (read_field urlOf allowHttp) no_fields ps) = Some (dr_idp r)"
    using assms by (auto simp: parseDDISARecord_def Let_def split: option.splits if_splits)
  from keep [OF this] show ?thesis using valid_idp by (fastforce simp: no_fields_def)
qed

lemma valid_records_set: "r \<in> set (valid_records urlOf allowHttp rs) \<longleftrightarrow>
    (\<exists>line \<in> set rs. includes_str line ''v=ddisa1'' \<and> parseDDISARecord urlOf allowHttp line = Some r)"
  by (force simp: valid_records_def List.map_filter_def split: if_splits)

definition numbered :: "ddisa_record \<Rightarrow> bool" where
  "numbered r = (dr_priority r \<noteq> Some None)"

definition rank :: "ddisa_record \<Rightarrow> int" where
  "rank r = the (nullish (dr_priority r) (Some 10))"

lemma priority_le_rank: "numbered a \<Longrightarrow> numbered b \<Longrightarrow> priority_le a b \<longleftrightarrow> rank a \<le> rank b"
  by (auto simp: priority_le_def numbered_def rank_def nullish_def split: option.splits)

lemma insort_min:
  assumes "sorted_wrt (\<lambda>a b. rank a \<le> rank b) xs" "numbered x" "\<forall>y\<in>set xs. numbered y"
  shows "sorted_wrt (\<lambda>a b. rank a \<le> rank b) (insort_by priority_le x xs)"
  using assms
proof (induction xs)
  case (Cons y ys)
  then show ?case using priority_le_rank [of x y] by (auto split: if_splits)
qed simp

lemma sort_rank:
  assumes "\<forall>r\<in>set xs. numbered r"
  shows "sorted_wrt (\<lambda>a b. rank a \<le> rank b) (sort_by priority_le xs)"
  using assms by (induction xs) (auto intro: insort_min)

text \<open>The record that decides a login. What the resolver answers from DNS was published, as a whole and within the lifetime of
  its cache entry, by the domain: it is a valid record of the TXT answer, its provider's address has the scheme \<open>https\<close> (or \<open>http\<close>
  when that is switched on), no credentials and only printable characters; and no valid record of that answer had a lower
  priority number.\<close>

theorem resolved_record:
  assumes "dns.honest urlOf allowHttp query opts now0 c" "now0 \<le> now" "query = resolveTXTRecords native doh"
    and "map_of env domain = None" "map_of (do_mockRecords opts) domain = None" "\<not> do_noCache opts"
    and "resolveDDISA urlOf allowHttp env native doh opts now domain c = (Some (Some r), c')"
  shows "dns.honest urlOf allowHttp query opts now c' \<and> (\<exists>t rs. t \<le> now \<and> (t = now \<or> now < t + nullish (do_cacheTTL opts) 300 * 1000) \<and>
    query t (''_ddisa.'' @ domain) = Some rs \<and> (\<exists>line\<in>set rs. parseDDISARecord urlOf allowHttp line = Some r) \<and>
    list_all printable (dr_idp r) \<and> (\<exists>p. urlOf (dr_idp r) = Some (p, [], []) \<and> (p = ''https:'' \<or> allowHttp \<and> p = ''http:'')) \<and>
    ((\<forall>x\<in>set (valid_records urlOf allowHttp rs). numbered x) \<longrightarrow> (\<forall>x\<in>set (valid_records urlOf allowHttp rs). rank r \<le> rank x)))"
proof -
  have l: "cached_record urlOf allowHttp query opts now domain c = (Some (Some r), c')"
    using assms(3-7) by (simp add: resolveDDISA_def)
  from dns.lookup_recent [OF assms(1,2) l] obtain t where t: "t \<le> now" "t = now \<or> now < t + nullish (do_cacheTTL opts) 300 * 1000"
    "query_record urlOf allowHttp query t domain = Some (Some r)" by (auto simp: dns_life_def)
  then obtain rs where rs: "query t (''_ddisa.'' @ domain) = Some rs" "best_record urlOf allowHttp rs = Some r"
    by (auto simp: query_record_def)
  then obtain xs where xs: "sort_by priority_le (valid_records urlOf allowHttp rs) = r # xs"
    by (auto simp: best_record_def split: list.splits)
  then have "r \<in> set (valid_records urlOf allowHttp rs)" by (metis set_sort_by list.set_intros(1))
  then obtain line where line: "line \<in> set rs" "parseDDISARecord urlOf allowHttp line = Some r" using valid_records_set by auto
  have "rank r \<le> rank x" if "\<forall>x\<in>set (valid_records urlOf allowHttp rs). numbered x" "x \<in> set (valid_records urlOf allowHttp rs)" for x
  proof -
    have "x = r \<or> x \<in> set xs" using that(2) xs by (metis set_sort_by set_ConsD)
    then show ?thesis using sort_rank [OF that(1)] xs by auto
  qed
  then show ?thesis using dns.lookup_honest [OF assms(1,2) l] t(1,2) rs(1) line parse_valid [OF line(2)] by blast
qed

definition ex_dns :: txt_query where
  "ex_dns t d = (if d = ''_ddisa.x.io'' then Some [''v=ddisa1 idp=https://b.io; priority=20'', ''v=ddisa1 idp=https://a.io; mode=deny''] else None)"

definition ex_dns_options :: dns_options where
  "ex_dns_options = \<lparr>do_noCache = False, do_cacheTTL = None, do_negativeCacheTTL = None, do_mockRecords = []\<rparr>"

theorem resolved_record_witness:
  "\<exists>r c'. resolveDDISA ex_idp_url False [] ex_dns (\<lambda>_ _. None) ex_dns_options 5 ''x.io'' [] = (Some (Some r), c') \<and> dr_idp r = ''https://a.io'' \<and>
    (\<exists>p. ex_idp_url (dr_idp r) = Some (p, [], []))"
proof -
  have v: "valid_records ex_idp_url False [''v=ddisa1 idp=https://b.io; priority=20'', ''v=ddisa1 idp=https://a.io; mode=deny''] =
    [\<lparr>dr_version = ''ddisa1'', dr_idp = ''https://b.io'', dr_mode = None, dr_priority = Some (Some 20), dr_policy_endpoint = None, dr_raw = ''v=ddisa1 idp=https://b.io; priority=20''\<rparr>,
     \<lparr>dr_version = ''ddisa1'', dr_idp = ''https://a.io'', dr_mode = Some ModeDeny, dr_priority = None, dr_policy_endpoint = None, dr_raw = ''v=ddisa1 idp=https://a.io; mode=deny''\<rparr>]"
    by code_simp
  obtain r c' where r: "resolveDDISA ex_idp_url False [] ex_dns (\<lambda>_ _. None) ex_dns_options 5 ''x.io'' [] = (Some (Some r), c')" "dr_idp r = ''https://a.io''"
    by (simp add: resolveDDISA_def cached_record_def query_and_store_def query_record_def resolveTXTRecords_def ex_dns_def ex_dns_options_def best_record_def v priority_le_def)
  from resolved_record [OF dns.honest_empty order_refl refl _ _ _ r(1)] show ?thesis using r by (auto simp: ex_dns_options_def)
qed

end
