(* ===== verification/Identity.thy ===== *)
theory Identity
  imports Types Json
begin

text \<open>
  Identities. \<open>act.ts\<close>, \<open>agent-email.ts\<close> and \<open>reconcile.ts\<close> of \<open>packages/core/src/identity\<close>: the actor type of a token, reading the name
  and the owner out of an agent's address, and the report that joins the agents of three registries. \<open>utils/agent-email.ts\<close> of
  \<open>apps/openape-free-idp\<close>, which makes the address. \<open>sha\<close> is the hexadecimal digest, \<open>coll\<close> is \<open>localeCompare\<close>.
\<close>

section \<open>Reading an agent's address\<close>

record parsed_email =
  pa_agentName :: string
  pa_ownerLocalpart :: string
  pa_ownerDomain :: string
  pa_ownerEmail :: string

definition hex_lower :: "char \<Rightarrow> bool" where
  "hex_lower c = (is_digit c \<or> c \<in> set ''abcdef'')"

text \<open>The expression \<open>/^(.+)-([a-f0-9]{8})$/\<close>, whose first group is the agent's name.\<close>

definition without_hash :: "string \<Rightarrow> string option" where
  "without_hash n = (let k = length n - 9 in
     if 9 < length n \<and> n ! k = CHR ''-'' \<and> list_all hex_lower (drop (Suc k) n) \<and> list_all (\<lambda>c. c \<noteq> CHR 0x0A \<and> c \<noteq> CHR 0x0D) (take k n)
     then Some (take k n) else None)"

definition replace_char :: "char \<Rightarrow> char \<Rightarrow> string \<Rightarrow> string" where
  "replace_char a b s = map (\<lambda>c. if c = a then b else c) s"

definition parseAgentEmail :: "string \<Rightarrow> parsed_email option" where
  "parseAgentEmail email = (let lower = to_lower email in case last_index_of (CHR ''@'') lower of None \<Rightarrow> None
     | Some i \<Rightarrow> (case split_on (CHR ''+'') (take i lower) of
         name # local # d # ds \<Rightarrow> (let domain = replace_char (CHR ''_'') (CHR ''.'') (join ''+'' (d # ds)) in
           if domain = [] \<or> local = [] \<or> name = [] then None
           else Some \<lparr>pa_agentName = (case without_hash name of Some n \<Rightarrow> n | None \<Rightarrow> name), pa_ownerLocalpart = local, pa_ownerDomain = domain,
             pa_ownerEmail = local @ ''@'' @ domain\<rparr>)
       | _ \<Rightarrow> None))"

section \<open>Making an agent's address\<close>

definition dash :: char where "dash = CHR ''-''"

fun collapse_dashes :: "string \<Rightarrow> string" where
  "collapse_dashes (a # b # s) = (if a = dash \<and> b = dash then collapse_dashes (b # s) else a # collapse_dashes (b # s))"
| "collapse_dashes s = s"

definition name_char :: "char \<Rightarrow> bool" where
  "name_char c = ((let n = (of_char c :: nat) in 97 \<le> n \<and> n \<le> 122) \<or> is_digit c \<or> c = dash)"

definition trim_dashes :: "string \<Rightarrow> string" where
  "trim_dashes s = rev (dropWhile (\<lambda>c. c = dash) (rev (dropWhile (\<lambda>c. c = dash) s)))"

definition sanitizeName :: "string \<Rightarrow> string" where
  "sanitizeName name = (let s = collapse_dashes (trim_dashes (map (\<lambda>c. if name_char c then c else dash) (to_lower name))) in if s = [] then ''agent'' else s)"

definition ownerHash :: "(string \<Rightarrow> string) \<Rightarrow> string \<Rightarrow> string" where
  "ownerHash sha owner = take 8 (sha (to_lower (js_trim owner)))"

text \<open>\<open>None\<close> is the \<open>TypeError\<close> of an owner without an at sign.\<close>

definition deriveAgentEmail :: "(string \<Rightarrow> string) \<Rightarrow> string \<Rightarrow> string \<Rightarrow> string \<Rightarrow> string option" where
  "deriveAgentEmail sha owner name host = (case split_on (CHR ''@'') owner of
     local # domain # _ \<Rightarrow> Some (sanitizeName name @ ''-'' @ ownerHash sha owner @ ''+'' @ local @ ''+'' @ replace_char (CHR ''.'') (CHR ''_'') domain @ ''@'' @ host)
   | _ \<Rightarrow> None)"

section \<open>The actor of a token\<close>

text \<open>Only the string \<open>human\<close> makes a human.\<close>

definition normalizeActClaim :: "jsval \<Rightarrow> actor_type" where
  "normalizeActClaim act = (if act = JStr ''human'' then Human else Agent)"

section \<open>Joining the registries\<close>

record agent_row =
  aw_parsed :: parsed_email
  aw_inOrg :: bool
  aw_inTroop :: bool
  aw_inTasks :: bool

datatype registry = Org | Troop | Tasks

definition mark_row :: "registry \<Rightarrow> agent_row \<Rightarrow> agent_row" where
  "mark_row st r = (case st of Org \<Rightarrow> r\<lparr>aw_inOrg := True\<rparr> | Troop \<Rightarrow> r\<lparr>aw_inTroop := True\<rparr> | Tasks \<Rightarrow> r\<lparr>aw_inTasks := True\<rparr>)"

type_synonym registry_rows = "(string \<times> agent_row) list"

definition visit :: "registry \<Rightarrow> registry_rows \<times> nat \<Rightarrow> string \<Rightarrow> registry_rows \<times> nat" where
  "visit st acc raw = (case acc of (rows, skipped) \<Rightarrow> (case parseAgentEmail raw of None \<Rightarrow> (rows, Suc skipped)
     | Some p \<Rightarrow> (let k = to_lower raw; r = (case map_of rows k of None \<Rightarrow> \<lparr>aw_parsed = p, aw_inOrg = False, aw_inTroop = False, aw_inTasks = False\<rparr> | Some r \<Rightarrow> r) in
         (AList.update k (mark_row st r) rows, skipped))))"

definition linked :: "agent_row \<Rightarrow> bool" where
  "linked r = (aw_inOrg r \<and> aw_inTroop r)"

record reconcile_result =
  rr_identities :: "(string \<times> agent_row) list"
  rr_total :: nat
  rr_linked :: nat
  rr_partial :: nat
  rr_humansSkipped :: nat

definition reconcileIdentities :: "(string \<Rightarrow> string \<Rightarrow> bool) \<Rightarrow> string list \<Rightarrow> string list \<Rightarrow> string list \<Rightarrow> reconcile_result" where
  "reconcileIdentities coll org troop tasks = (case foldl (visit Tasks) (foldl (visit Troop) (foldl (visit Org) ([], 0) org) troop) tasks of (rows, skipped) \<Rightarrow>
     (let ids = sort_by (\<lambda>a b. coll (pa_agentName (aw_parsed (snd a))) (pa_agentName (aw_parsed (snd b)))) rows in
       \<lparr>rr_identities = ids, rr_total = length ids, rr_linked = length (filter (\<lambda>(_, r). linked r) ids),
         rr_partial = length (filter (\<lambda>(_, r). \<not> linked r) ids), rr_humansSkipped = skipped\<rparr>))"

section \<open>Names\<close>

lemma lower_name_char: "name_char c \<Longrightarrow> lower_char c = c"
  by (auto simp: name_char_def lower_char_def is_digit_def dash_def Let_def)

lemma collapse_set: "set (collapse_dashes s) \<subseteq> set s"
proof (induction s rule: collapse_dashes.induct)
  case (1 a b s)
  show ?case
  proof (cases "a = dash \<and> b = dash")
    case True
    then show ?thesis using 1(1) by (simp add: subset_insertI2)
  next
    case False
    then have "set (collapse_dashes (b # s)) \<subseteq> set (b # s)" using 1(2) by blast
    then show ?thesis unfolding collapse_dashes.simps if_not_P [OF False] by auto
  qed
qed simp_all

lemma name_char_dash [simp]: "name_char dash"
  by (simp add: name_char_def)

lemma trim_set: "set (trim_dashes s) \<subseteq> set s"
  by (auto simp: trim_dashes_def dest!: set_dropWhileD)

lemma sanitize_chars: "list_all name_char (sanitizeName name)"
proof -
  let ?m = "map (\<lambda>c. if name_char c then c else dash) (to_lower name)"
  have m: "list_all name_char ?m" by (auto simp: list_all_iff)
  have "set (collapse_dashes (trim_dashes ?m)) \<subseteq> set ?m" using collapse_set trim_set by (rule subset_trans)
  with m have "list_all name_char (collapse_dashes (trim_dashes ?m))" unfolding list_all_iff by fast
  moreover have "list_all name_char ''agent''" by code_simp
  ultimately show ?thesis by (simp only: sanitizeName_def Let_def split: if_split) blast
qed

lemma sanitize_nonempty: "sanitizeName name \<noteq> []"
  by (simp add: sanitizeName_def Let_def)

lemma plain_name: "list_all name_char s \<Longrightarrow> to_lower s = s \<and> CHR ''+'' \<notin> set s \<and> CHR ''@'' \<notin> set s \<and> CHR 0x0A \<notin> set s \<and> CHR 0x0D \<notin> set s"
  by (auto simp: list_all_iff to_lower_def lower_name_char map_idI name_char_def is_digit_def dash_def)

lemma hex_name: "hex_lower c \<Longrightarrow> name_char c"
  by (auto simp: hex_lower_def name_char_def)

lemma hash_found:
  assumes "list_all name_char s" "s \<noteq> []" "length h = 8" "list_all hex_lower h"
  shows "without_hash (s @ dash # h) = Some s"
  using assms plain_name [OF assms(1)] by (auto simp: without_hash_def Let_def dash_def list_all_iff)

lemma last_at: "CHR ''@'' \<notin> set b \<Longrightarrow> last_index_of (CHR ''@'') (a @ CHR ''@'' # b) = Some (length a)"
proof -
  assume "CHR ''@'' \<notin> set b"
  then have "index_of (CHR ''@'') (rev (a @ CHR ''@'' # b)) = Some (length b)" using index_of_append [of _ "rev b" "rev a"] by simp
  then show ?thesis by (simp add: last_index_of_def)
qed

lemma dots_back: "CHR ''_'' \<notin> set d \<Longrightarrow> replace_char (CHR ''_'') (CHR ''.'') (replace_char (CHR ''.'') (CHR ''_'') d) = d"
  by (induction d) (auto simp: replace_char_def)

lemma replace_set: "c \<notin> set d \<Longrightarrow> c \<noteq> b \<Longrightarrow> c \<notin> set (replace_char a b d)"
  by (auto simp: replace_char_def)

lemma lower_replace: "to_lower d = d \<Longrightarrow> to_lower (replace_char (CHR ''.'') (CHR ''_'') d) = replace_char (CHR ''.'') (CHR ''_'') d"
  by (induction d) (auto simp: to_lower_def replace_char_def lower_char_def)

text \<open>An agent's address tells its owner. The address the provider makes for an owner and a name is read back as that owner and the
  cleaned name, for an owner in small letters whose local part has no plus sign and whose domain has no underscore.\<close>

theorem agent_address_roundtrip:
  assumes "owner = local @ ''@'' @ domain" "to_lower owner = owner" "to_lower host = host"
    and "CHR ''@'' \<notin> set local" "CHR ''+'' \<notin> set local" "local \<noteq> []"
    and "CHR ''@'' \<notin> set domain" "CHR ''+'' \<notin> set domain" "CHR ''_'' \<notin> set domain" "domain \<noteq> []" "CHR ''@'' \<notin> set host"
    and hash: "length (ownerHash sha owner) = 8" "list_all hex_lower (ownerHash sha owner)"
  shows "\<exists>email. deriveAgentEmail sha owner name host = Some email \<and>
    parseAgentEmail email = Some \<lparr>pa_agentName = sanitizeName name, pa_ownerLocalpart = local, pa_ownerDomain = domain, pa_ownerEmail = owner\<rparr>"
proof -
  let ?n = "sanitizeName name @ dash # ownerHash sha owner"
  let ?d = "replace_char (CHR ''.'') (CHR ''_'') domain"
  let ?e = "(?n @ CHR ''+'' # local @ CHR ''+'' # ?d) @ CHR ''@'' # host"
  have n: "list_all name_char ?n" using sanitize_chars hash(2) by (auto simp: list_all_iff name_char_def hex_lower_def)
  note plain = plain_name [OF n]
  have low: "to_lower local = local" "to_lower domain = domain" using assms(1,2) by (auto simp: to_lower_def)
  have lower: "to_lower ?e = ?e" using plain low lower_replace [OF low(2)] assms(3)
    by (auto simp: to_lower_def lower_char_def)
  have "split_on (CHR ''@'') owner = [local, domain]"
    using assms(1,4,7) by (simp add: split_on_append_sep split_on_no_sep)
  then have d: "deriveAgentEmail sha owner name host = Some ?e" by (simp add: deriveAgentEmail_def dash_def)
  have s: "split_on (CHR ''+'') (?n @ CHR ''+'' # local @ CHR ''+'' # ?d) = [?n, local, ?d]"
    using plain assms(5,8) replace_set [of "CHR ''+''" domain "CHR ''_''" "CHR ''.''"] by (simp add: split_on_append_sep split_on_no_sep del: append.simps append_assoc)
  have "?d \<noteq> []" using assms(10) by (simp add: replace_char_def)
  then have "parseAgentEmail ?e = Some \<lparr>pa_agentName = sanitizeName name, pa_ownerLocalpart = local, pa_ownerDomain = domain, pa_ownerEmail = owner\<rparr>"
    using assms hash_found [OF sanitize_chars sanitize_nonempty hash] s
    unfolding parseAgentEmail_def Let_def lower last_at [OF assms(11)]
    by (simp add: dots_back del: append_assoc)
  then show ?thesis using d by blast
qed

theorem agent_address_roundtrip_witness:
  "\<exists>email. deriveAgentEmail (\<lambda>_. ''cb6bf26a00'') ''ada@x.io'' ''My Agent'' ''id.openape.ai'' = Some email \<and>
    parseAgentEmail email = Some \<lparr>pa_agentName = sanitizeName ''My Agent'', pa_ownerLocalpart = ''ada'', pa_ownerDomain = ''x.io'', pa_ownerEmail = ''ada@x.io''\<rparr>"
proof (rule agent_address_roundtrip)
  show "to_lower ''ada@x.io'' = ''ada@x.io''" "to_lower ''id.openape.ai'' = ''id.openape.ai''" by code_simp+
  show "list_all hex_lower (ownerHash (\<lambda>_. ''cb6bf26a00'') ''ada@x.io'')" by (simp add: ownerHash_def hex_lower_def is_digit_def)
qed (simp_all add: ownerHash_def)

text \<open>An owner with a plus sign in the local part is misread. Then the address names a different owner: the local part ends at the plus
  sign and the rest of it is taken for the beginning of the domain.\<close>

theorem plus_owner_misread:
  assumes "owner = a @ ''+'' @ b @ ''@'' @ domain" "to_lower owner = owner" "to_lower host = host"
    and "CHR ''@'' \<notin> set (a @ b)" "CHR ''+'' \<notin> set (a @ b)" "a \<noteq> []" "CHR ''_'' \<notin> set b"
    and "CHR ''@'' \<notin> set domain" "CHR ''+'' \<notin> set domain" "CHR ''_'' \<notin> set domain" "CHR ''@'' \<notin> set host"
    and "list_all hex_lower (ownerHash sha owner)"
  shows "\<exists>email p. deriveAgentEmail sha owner name host = Some email \<and> parseAgentEmail email = Some p \<and> pa_ownerEmail p = a @ ''@'' @ b @ ''+'' @ domain"
proof -
  let ?n = "sanitizeName name @ dash # ownerHash sha owner"
  let ?d = "replace_char (CHR ''.'') (CHR ''_'') domain"
  let ?e = "(?n @ CHR ''+'' # a @ CHR ''+'' # b @ CHR ''+'' # ?d) @ CHR ''@'' # host"
  have n: "list_all name_char ?n" using sanitize_chars assms(12) by (auto simp: list_all_iff name_char_def hex_lower_def)
  note plain = plain_name [OF n]
  have low: "to_lower a = a" "to_lower b = b" "to_lower domain = domain" using assms(1,2) by (auto simp: to_lower_def)
  have lower: "to_lower ?e = ?e" using plain low lower_replace [OF low(3)] assms(3)
    by (auto simp: to_lower_def lower_char_def)
  have "split_on (CHR ''@'') owner = [a @ ''+'' @ b, domain]"
    using assms(1,4,8) split_on_append_sep [of "CHR ''@''" "a @ ''+'' @ b" domain] by (simp add: split_on_no_sep)
  then have d: "deriveAgentEmail sha owner name host = Some ?e" by (simp add: deriveAgentEmail_def dash_def)
  have s: "split_on (CHR ''+'') (?n @ CHR ''+'' # a @ CHR ''+'' # b @ CHR ''+'' # ?d) = [?n, a, b, ?d]"
    using plain assms(5,9) replace_set [of "CHR ''+''" domain "CHR ''_''" "CHR ''.''"]
    by (simp add: split_on_append_sep split_on_no_sep del: append.simps append_assoc)
  have j: "replace_char (CHR ''_'') (CHR ''.'') (join ''+'' [b, ?d]) = b @ ''+'' @ domain"
    using assms(7,10) dots_back by (simp add: replace_char_def map_idI) (auto simp: replace_char_def intro: map_idI)
  show ?thesis
    using d assms(6) s unfolding parseAgentEmail_def Let_def
    by (intro exI [of _ ?e]) (simp add: lower last_at [OF assms(11)] j del: append_assoc append.simps join.simps replace_char_def)
qed
theorem plus_owner_misread_witness:
  "\<exists>email p. deriveAgentEmail (\<lambda>_. ''cb6bf26a00'') ''ada+work@x.io'' ''bot'' ''id.openape.ai'' = Some email \<and>
    parseAgentEmail email = Some p \<and> pa_ownerEmail p = ''ada@work+x.io''"
proof -
  have l: "to_lower ''ada+work@x.io'' = ''ada+work@x.io''" "to_lower ''id.openape.ai'' = ''id.openape.ai''" by code_simp+
  show ?thesis
    using plus_owner_misread [of "''ada+work@x.io''" "''ada''" "''work''" "''x.io''" "''id.openape.ai''" "\<lambda>_. ''cb6bf26a00''" "''bot''"] l
    by (simp add: ownerHash_def hex_lower_def is_digit_def)
qed

section \<open>The joined registries\<close>

text \<open>The addresses of a registry that are agents', in small letters.\<close>

definition agent_keys :: "string list \<Rightarrow> string set" where
  "agent_keys xs = to_lower ` {x \<in> set xs. parseAgentEmail x \<noteq> None}"

definition flag :: "registry \<Rightarrow> agent_row \<Rightarrow> bool" where
  "flag st r = (case st of Org \<Rightarrow> aw_inOrg r | Troop \<Rightarrow> aw_inTroop r | Tasks \<Rightarrow> aw_inTasks r)"

lemma flag_mark: "flag st' (mark_row st r) = (st' = st \<or> flag st' r)"
  by (cases st; cases st') (simp_all add: flag_def mark_row_def)

lemma flag_new: "\<not> flag st \<lparr>aw_parsed = p, aw_inOrg = False, aw_inTroop = False, aw_inTasks = False\<rparr>"
  by (cases st) (simp_all add: flag_def)

text \<open>\<open>F st\<close> are the keys seen in the registry \<open>st\<close> so far.\<close>

definition row_ok :: "(registry \<Rightarrow> string set) \<Rightarrow> string \<Rightarrow> agent_row option \<Rightarrow> bool" where
  "row_ok F k ro = (case ro of None \<Rightarrow> \<forall>st. k \<notin> F st | Some r \<Rightarrow> (\<exists>st. k \<in> F st) \<and> (\<forall>st. flag st r = (k \<in> F st)))"

definition rows_joined :: "(registry \<Rightarrow> string set) \<Rightarrow> registry_rows \<Rightarrow> bool" where
  "rows_joined F rows = (distinct (map fst rows) \<and> (\<forall>k. row_ok F k (map_of rows k)))"

lemma visit_step:
  assumes "rows_joined F rows" "visit st (rows, n) raw = (rows', n')" "parseAgentEmail raw = Some p"
  shows "n' = n \<and> rows_joined (F(st := insert (to_lower raw) (F st))) rows'"
proof -
  define r where "r = (case map_of rows (to_lower raw) of None \<Rightarrow> \<lparr>aw_parsed = p, aw_inOrg = False, aw_inTroop = False, aw_inTasks = False\<rparr> | Some r \<Rightarrow> r)"
  have eq: "rows' = AList.update (to_lower raw) (mark_row st r) rows" "n' = n" using assms(2,3) by (auto simp: visit_def Let_def r_def)
  have old: "row_ok F k (map_of rows k)" for k using assms(1) by (simp add: rows_joined_def)
  have r: "flag st' r = (to_lower raw \<in> F st')" for st'
    using old [of "to_lower raw"] flag_new by (cases "map_of rows (to_lower raw)") (auto simp: r_def row_ok_def)
  have new: "row_ok (F(st := insert (to_lower raw) (F st))) k (map_of rows' k)" for k
  proof (cases "k = to_lower raw")
    case True
    then show ?thesis using r by (auto simp: eq update_conv row_ok_def flag_mark)
  next
    case False
    then have "map_of rows' k = map_of rows k" by (simp add: eq update_conv)
    moreover have "k \<in> (F(st := insert (to_lower raw) (F st))) st' \<longleftrightarrow> k \<in> F st'" for st' using False by simp
    ultimately show ?thesis using old [of k] by (cases "map_of rows k") (simp_all add: row_ok_def del: fun_upd_apply)
  qed
  have "distinct (map fst rows')" using assms(1) eq by (simp add: rows_joined_def distinct_update)
  then show ?thesis using new eq by (simp add: rows_joined_def)
qed

lemma visit_all:
  "rows_joined F rows \<Longrightarrow> foldl (visit st) (rows, n) xs = (rows', n') \<Longrightarrow>
    rows_joined (F(st := F st \<union> agent_keys xs)) rows' \<and> n' = n + length (filter (\<lambda>x. parseAgentEmail x = None) xs)"
proof (induction xs arbitrary: F rows n)
  case Nil
  then show ?case by (simp add: agent_keys_def)
next
  case (Cons x xs)
  obtain rows1 n1 where v: "visit st (rows, n) x = (rows1, n1)" by (cases "visit st (rows, n) x")
  then have f: "foldl (visit st) (rows1, n1) xs = (rows', n')" using Cons.prems(2) by simp
  show ?case
  proof (cases "parseAgentEmail x")
    case None
    then have "rows1 = rows \<and> n1 = Suc n" using v by (simp add: visit_def)
    moreover have "agent_keys (x # xs) = agent_keys xs" using None by (auto simp: agent_keys_def)
    ultimately show ?thesis using Cons.IH [OF _ f] Cons.prems(1) None by simp
  next
    case (Some p)
    from visit_step [OF Cons.prems(1) v Some] have s: "n1 = n" "rows_joined (F(st := insert (to_lower x) (F st))) rows1" by auto
    have k: "F st \<union> agent_keys (x # xs) = insert (to_lower x) (F st) \<union> agent_keys xs" using Some by (auto simp: agent_keys_def)
    have "(F(st := insert (to_lower x) (F st)))(st := (F(st := insert (to_lower x) (F st))) st \<union> agent_keys xs) = F(st := F st \<union> agent_keys (x # xs))"
      unfolding k by simp
    then show ?thesis using Cons.IH [OF s(2) f] s(1) Some by (simp del: fun_upd_apply)
  qed
qed

text \<open>The report joins the three registries. It holds every agent address that any of them has exactly once, whatever its capital letters,
  and marks it with the registries that have it; linked and partial rows add up to the total, and every other address is counted as a person.\<close>

theorem reconcile_joins:
  "\<exists>rows. rr_identities (reconcileIdentities coll org troop tasks) = rows \<and> distinct (map fst rows) \<and>
    fst ` set rows = agent_keys org \<union> agent_keys troop \<union> agent_keys tasks \<and>
    (\<forall>(k, r)\<in>set rows. aw_inOrg r = (k \<in> agent_keys org) \<and> aw_inTroop r = (k \<in> agent_keys troop) \<and> aw_inTasks r = (k \<in> agent_keys tasks)) \<and>
    rr_total (reconcileIdentities coll org troop tasks) = rr_linked (reconcileIdentities coll org troop tasks) + rr_partial (reconcileIdentities coll org troop tasks) \<and>
    rr_humansSkipped (reconcileIdentities coll org troop tasks) = length (filter (\<lambda>x. parseAgentEmail x = None) (org @ troop @ tasks))"
proof -
  obtain r1 n1 where 1: "foldl (visit Org) ([], 0) org = (r1, n1)" by (cases "foldl (visit Org) ([], 0) org")
  obtain r2 n2 where 2: "foldl (visit Troop) (r1, n1) troop = (r2, n2)" by (cases "foldl (visit Troop) (r1, n1) troop")
  obtain r3 n3 where 3: "foldl (visit Tasks) (r2, n2) tasks = (r3, n3)" by (cases "foldl (visit Tasks) (r2, n2) tasks")
  let ?F = "\<lambda>st. case st of Org \<Rightarrow> agent_keys org | Troop \<Rightarrow> agent_keys troop | Tasks \<Rightarrow> agent_keys tasks"
  have start: "rows_joined (\<lambda>_. {}) []" by (simp add: rows_joined_def row_ok_def)
  note v1 = visit_all [OF start 1]
  note v2 = visit_all [OF conjunct1 [OF v1] 2]
  note v3 = visit_all [OF conjunct1 [OF v2] 3]
  have F: "rows_joined ?F r3"
  proof -
    have "(\<lambda>_. {})(Org := {} \<union> agent_keys org, Troop := {} \<union> agent_keys troop, Tasks := {} \<union> agent_keys tasks) = ?F"
      by (rule ext) (simp split: registry.split)
    then show ?thesis using v3 by simp
  qed
  let ?ids = "sort_by (\<lambda>a b. coll (pa_agentName (aw_parsed (snd a))) (pa_agentName (aw_parsed (snd b)))) r3"
  have res: "reconcileIdentities coll org troop tasks = \<lparr>rr_identities = ?ids, rr_total = length ?ids, rr_linked = length (filter (\<lambda>(_, r). linked r) ?ids),
         rr_partial = length (filter (\<lambda>(_, r). \<not> linked r) ?ids), rr_humansSkipped = n3\<rparr>"
    by (simp add: reconcileIdentities_def 1 2 3 Let_def)
  have d: "distinct (map fst r3)" and at: "\<And>k. row_ok ?F k (map_of r3 k)" using F by (simp_all add: rows_joined_def)
  have d': "distinct (map fst ?ids)"
    using d mset_eq_imp_distinct_iff [of "map fst ?ids" "map fst r3"] by simp
  have some: "(\<exists>st. k \<in> ?F st) \<longleftrightarrow> k \<in> agent_keys org \<union> agent_keys troop \<union> agent_keys tasks" for k
  proof -
    have "(\<exists>st. P st) = (P Org \<or> P Troop \<or> P Tasks)" for P by (metis registry.exhaust)
    then show ?thesis by simp
  qed
  have keys: "k \<in> fst ` set r3 \<longleftrightarrow> k \<in> agent_keys org \<union> agent_keys troop \<union> agent_keys tasks" for k
    using at [of k] map_of_eq_None_iff [of r3 k] unfolding some [symmetric] by (cases "map_of r3 k") (auto simp: row_ok_def)
  have flags: "aw_inOrg r = (k \<in> agent_keys org) \<and> aw_inTroop r = (k \<in> agent_keys troop) \<and> aw_inTasks r = (k \<in> agent_keys tasks)" if "(k, r) \<in> set r3" for k r
  proof -
    have "flag st r = (k \<in> ?F st)" for st using at [of k] map_of_is_SomeI [OF d that] by (simp add: row_ok_def)
    from this [of Org] this [of Troop] this [of Tasks] show ?thesis by (simp add: flag_def)
  qed
  have total: "length ?ids = length (filter (\<lambda>(_, r). linked r) ?ids) + length (filter (\<lambda>(_, r). \<not> linked r) ?ids)"
    using sum_length_filter_compl [of "\<lambda>(_, r). linked r" ?ids] by (simp add: case_prod_unfold)
  have k: "fst ` set ?ids = agent_keys org \<union> agent_keys troop \<union> agent_keys tasks"
    by (intro set_eqI) (simp only: set_sort_by keys)
  have n: "n3 = length (filter (\<lambda>x. parseAgentEmail x = None) (org @ troop @ tasks))" using v1 v2 v3 by simp
  show ?thesis unfolding res reconcile_result.simps using d' k total n flags by (intro exI [of _ ?ids] conjI) (simp_all, fastforce)
qed

end
