(* ===== verification/SpLogin.thy ===== *)
theory SpLogin
  imports AuthorizeEndpoint DnsRecords Identity
begin

text \<open>
  The login at a service. \<open>packages/core/src/validation/assertion.ts\<close>, \<open>packages/auth/src/sp\<close> (\<open>discovery.ts\<close>, \<open>auth-url.ts\<close>,
  \<open>callback.ts\<close>) and the service module's \<open>api/login.post.ts\<close>, \<open>api/callback.get.ts\<close>, \<open>utils/sp-config.ts\<close>, \<open>utils/client-id.ts\<close> and
  \<open>utils/grants.ts\<close>. The browser keeps two sealed cookies, the login in progress and the session. \<open>resolve\<close> is \<open>resolveDDISA\<close>, \<open>ask\<close> the request to
  a provider's token endpoint, \<open>verify\<close> is \<open>verifyJWT\<close> with its key, issuer, audiences and the time. Numbers in tokens are integers. Clearing
  the cookie of the login, which the callback does not wait for, is taken to be done before the answer.
\<close>

section \<open>Configuration\<close>

record sp_raw_config =
  xs_clientId :: "string option"
  xs_openapeUrl :: "string option"
  xs_fallbackIdpUrl :: "string option"
  xs_postLoginRedirect :: "string option"

record sp_config =
  sf_clientId :: string
  sf_openapeUrl :: string
  sf_fallbackIdpUrl :: string
  sf_postLoginRedirect :: string

definition or_default :: "string option \<Rightarrow> string \<Rightarrow> string" where
  "or_default x d = (if truthy_str x then the x else d)"

definition DEFAULT_POST_LOGIN_REDIRECT :: string where
  "DEFAULT_POST_LOGIN_REDIRECT = ''/''"

definition getSpConfig :: "sp_raw_config \<Rightarrow> sp_config" where
  "getSpConfig x = \<lparr>sf_clientId = js_trim (or_default (xs_clientId x) []), sf_openapeUrl = js_trim (or_default (xs_openapeUrl x) []),
     sf_fallbackIdpUrl = js_trim (or_default (xs_fallbackIdpUrl x) ''https://id.openape.at''),
     sf_postLoginRedirect = js_trim (or_default (xs_postLoginRedirect x) DEFAULT_POST_LOGIN_REDIRECT)\<rparr>"

definition resolveClientId :: "string \<Rightarrow> string \<Rightarrow> string" where
  "resolveClientId configured host = (if js_trim configured \<noteq> [] then js_trim configured else host)"

definition getClientId :: "sp_config \<Rightarrow> string \<Rightarrow> string" where
  "getClientId cfg host = resolveClientId (sf_clientId cfg) host"

section \<open>The browser\<close>

record auth_flow_state =
  fl_codeVerifier :: string
  fl_state :: string
  fl_nonce :: string
  fl_idpUrl :: string
  fl_createdAt :: int

record flow_cookie =
  fc_state :: string
  fc_flow :: auth_flow_state
  fc_exp :: int

record sp_browser =
  sb_flow :: "flow_cookie option"
  sb_claims :: "jsval jsobj option"
  sb_authorizationDetails :: "jsval"

definition saveFlowState :: "int \<Rightarrow> string \<Rightarrow> auth_flow_state \<Rightarrow> sp_browser \<Rightarrow> sp_browser" where
  "saveFlowState now state flow b = b\<lparr>sb_flow := Some \<lparr>fc_state = state, fc_flow = flow, fc_exp = now + 10 * 60 * 1000\<rparr>\<rparr>"

definition getFlowState :: "int \<Rightarrow> string \<Rightarrow> sp_browser \<Rightarrow> auth_flow_state option" where
  "getFlowState now expected b = (case sb_flow b of None \<Rightarrow> None
     | Some c \<Rightarrow> if fc_state c = [] \<or> fc_state c \<noteq> expected \<or> fc_exp c < now then None else Some (fc_flow c))"

definition clearFlowState :: "sp_browser \<Rightarrow> sp_browser" where
  "clearFlowState b = b\<lparr>sb_flow := None\<rparr>"

section \<open>Starting a login\<close>

record idp_config =
  ic_idpUrl :: string
  ic_mode :: "policy_mode option"

text \<open>The outer \<open>None\<close> is an exception.\<close>

definition discoverIdP :: "(string \<Rightarrow> ddisa_record option option) \<Rightarrow> string \<Rightarrow> string option \<Rightarrow> idp_config option option" where
  "discoverIdP resolve email fallback = (case core_extractDomain email of None \<Rightarrow> None
     | Some domain \<Rightarrow> (case resolve domain of None \<Rightarrow> None
         | Some None \<Rightarrow> Some (if truthy_str fallback then Some \<lparr>ic_idpUrl = the fallback, ic_mode = None\<rparr> else None)
         | Some (Some r) \<Rightarrow> Some (Some \<lparr>ic_idpUrl = dr_idp r, ic_mode = dr_mode r\<rparr>)))"

record flow_randoms =
  fr_verifier :: string
  fr_state :: string
  fr_nonce :: string

text \<open>The address of the provider and the parameters of the query; \<open>challenge\<close> is \<open>generateCodeChallenge\<close>.\<close>

definition createAuthorizationURL :: "(string \<Rightarrow> string) \<Rightarrow> flow_randoms \<Rightarrow> int \<Rightarrow> string \<Rightarrow> string \<Rightarrow> string \<Rightarrow> string option
    \<Rightarrow> (string \<times> (string \<times> string) list) \<times> auth_flow_state" where
  "createAuthorizationURL challenge r now idpUrl clientId redirectUri email =
     ((idpUrl @ ''/authorize'', [(''response_type'', ''code''), (''client_id'', clientId), (''redirect_uri'', redirectUri), (''state'', fr_state r),
        (''code_challenge'', challenge (fr_verifier r)), (''code_challenge_method'', ''S256''), (''nonce'', fr_nonce r)]
        @ (if truthy_str email then [(''login_hint'', the email)] else [])),
      \<lparr>fl_codeVerifier = fr_verifier r, fl_state = fr_state r, fl_nonce = fr_nonce r, fl_idpUrl = idpUrl, fl_createdAt = now\<rparr>)"

datatype login_answer = BadEmail | NoProvider | LoginThrew | RedirectTo string "(string \<times> string) list"

definition login_post :: "(string \<Rightarrow> ddisa_record option option) \<Rightarrow> (string \<Rightarrow> string) \<Rightarrow> flow_randoms \<Rightarrow> int \<Rightarrow> sp_config \<Rightarrow> string \<Rightarrow> string \<Rightarrow> string option
    \<Rightarrow> sp_browser \<Rightarrow> login_answer \<times> sp_browser" where
  "login_post resolve challenge r now cfg origin host body b =
     (if \<not> truthy_str body \<or> CHR ''@'' \<notin> set (the body) then (BadEmail, b)
      else let email = js_trim (the body) in
        case (if sf_openapeUrl cfg \<noteq> [] then Some (Some \<lparr>ic_idpUrl = sf_openapeUrl cfg, ic_mode = None\<rparr>)
            else discoverIdP resolve email (Some (sf_fallbackIdpUrl cfg))) of
          None \<Rightarrow> (LoginThrew, b)
        | Some None \<Rightarrow> (NoProvider, b)
        | Some (Some c) \<Rightarrow> (case createAuthorizationURL challenge r now (ic_idpUrl c) (getClientId cfg host) (origin @ ''/api/callback'') (Some email) of
            ((u, ps), flow) \<Rightarrow> (RedirectTo u ps, saveFlowState now (fl_state flow) flow b)))"

section \<open>Checking an assertion\<close>

datatype key_source = PublicKey string | JwksUri string

type_synonym jwt_check = "key_source \<Rightarrow> string \<Rightarrow> string list \<Rightarrow> int \<Rightarrow> string \<Rightarrow> string + jsval jsobj"

record assertion_options =
  ao_expectedIss :: string
  ao_expectedAud :: string
  ao_jwksUri :: "string option"
  ao_publicKey :: "string option"
  ao_expectedNonce :: "string option"

datatype assertion_error = NoKey | VerifyFailed string | TtlExceeded | NonceMismatch | BadDelegationAct | BadActType | MissingSub

definition js_truthy :: "jsval \<Rightarrow> bool" where
  "js_truthy v = (case v of JUndef \<Rightarrow> False | JNull \<Rightarrow> False | JBool b \<Rightarrow> b | JInt i \<Rightarrow> i \<noteq> 0 | JStr s \<Rightarrow> s \<noteq> [] | _ \<Rightarrow> True)"

text \<open>A comparison with a missing number is false.\<close>

definition ttl_exceeds :: "jsval jsobj \<Rightarrow> bool" where
  "ttl_exceeds p = (case (member p ''exp'', member p ''iat'') of (JInt e, JInt i) \<Rightarrow> 300 < e - i | _ \<Rightarrow> False)"

text \<open>\<open>'sub' in null\<close> throws, which ends as a failed validation.\<close>

definition act_error :: "jsval \<Rightarrow> assertion_error option" where
  "act_error act = (case act of JUndef \<Rightarrow> None | JStr _ \<Rightarrow> None
     | JObj ob \<Rightarrow> if as_string (member ob ''sub'') = None then Some BadDelegationAct else None
     | JArr _ \<Rightarrow> Some BadDelegationAct | JNull \<Rightarrow> Some (VerifyFailed ''TypeError'') | _ \<Rightarrow> Some BadActType)"

definition validateAssertion :: "jwt_check \<Rightarrow> assertion_options \<Rightarrow> int \<Rightarrow> string option \<Rightarrow> assertion_error + jsval jsobj" where
  "validateAssertion verify opts now token = (case (case ao_publicKey opts of Some k \<Rightarrow> Some (PublicKey k)
       | None \<Rightarrow> if truthy_str (ao_jwksUri opts) then Some (JwksUri (the (ao_jwksUri opts))) else None) of
     None \<Rightarrow> Inl NoKey
   | Some k \<Rightarrow> (case token of None \<Rightarrow> Inl (VerifyFailed ''Compact JWS must be a string or Uint8Array'')
     | Some t \<Rightarrow> (case verify k (ao_expectedIss opts) [ao_expectedAud opts] now t of Inl m \<Rightarrow> Inl (VerifyFailed m)
       | Inr p \<Rightarrow>
           if ttl_exceeds p then Inl TtlExceeded
           else if truthy_str (ao_expectedNonce opts) \<and> member p ''nonce'' \<noteq> JStr (the (ao_expectedNonce opts)) then Inl NonceMismatch
           else case act_error (member p ''act'') of Some e \<Rightarrow> Inl e
           | None \<Rightarrow> if \<not> js_truthy (member p ''sub'') then Inl MissingSub else Inr p)))"

section \<open>The callback\<close>

type_synonym token_endpoint = "string \<Rightarrow> exchange_params \<Rightarrow> string + jsval jsobj"

datatype callback_error = ProviderError string | MissingParameter | InvalidState | StateMismatch | ExchangeFailed string | AssertionInvalid assertion_error

definition handleCallback :: "token_endpoint \<Rightarrow> jwt_check \<Rightarrow> string option \<Rightarrow> int \<Rightarrow> string \<Rightarrow> string \<Rightarrow> auth_flow_state \<Rightarrow> string \<Rightarrow> string
    \<Rightarrow> callback_error + jsval jsobj \<times> string option \<times> jsval" where
  "handleCallback ask verify publicKey now code state flow clientId redirectUri = (if state \<noteq> fl_state flow then Inl StateMismatch
     else case ask (fl_idpUrl flow @ ''/token'') \<lparr>tp_grant_type = ''authorization_code'', tp_code = code, tp_code_verifier = fl_codeVerifier flow,
         tp_redirect_uri = redirectUri, tp_client_id = clientId\<rparr> of
       Inl m \<Rightarrow> Inl (ExchangeFailed m)
     | Inr body \<Rightarrow> (case validateAssertion verify \<lparr>ao_expectedIss = fl_idpUrl flow, ao_expectedAud = clientId,
           ao_jwksUri = (if truthy_str publicKey then None else Some (fl_idpUrl flow @ ''/.well-known/jwks.json'')), ao_publicKey = publicKey,
           ao_expectedNonce = Some (fl_nonce flow)\<rparr> now (as_string (member body ''assertion'')) of
         Inl e \<Rightarrow> Inl (AssertionInvalid e)
       | Inr claims \<Rightarrow> Inr (claims, as_string (member body ''assertion''), member body ''authorization_details'')))"

record callback_query =
  cq_code :: "string option"
  cq_state :: "string option"
  cq_error :: "string option"
  cq_error_description :: "string option"

datatype callback_answer = ErrorPage callback_error | Landed string

definition callback_get :: "token_endpoint \<Rightarrow> jwt_check \<Rightarrow> int \<Rightarrow> sp_config \<Rightarrow> string \<Rightarrow> string \<Rightarrow> callback_query \<Rightarrow> sp_browser \<Rightarrow> callback_answer \<times> sp_browser" where
  "callback_get ask verify now cfg origin host q b =
     (if truthy_str (cq_error q) then (ErrorPage (ProviderError (or_default (cq_error_description q) (the (cq_error q)))), b)
      else if \<not> truthy_str (cq_code q) \<or> \<not> truthy_str (cq_state q) then (ErrorPage MissingParameter, b)
      else case getFlowState now (the (cq_state q)) b of None \<Rightarrow> (ErrorPage InvalidState, b)
      | Some flow \<Rightarrow> (case handleCallback ask verify None now (the (cq_code q)) (the (cq_state q)) flow (getClientId cfg host) (origin @ ''/api/callback'') of
          Inl e \<Rightarrow> (ErrorPage e, clearFlowState b)
        | Inr (claims, _, details) \<Rightarrow> (Landed (if sf_postLoginRedirect cfg \<noteq> [] then sf_postLoginRedirect cfg else DEFAULT_POST_LOGIN_REDIRECT),
            (clearFlowState b)\<lparr>sb_claims := Some claims, sb_authorizationDetails := details\<rparr>)))"

section \<open>Grants of a session\<close>

definition findGrant :: "sp_browser \<Rightarrow> string \<Rightarrow> jsval jsobj option" where
  "findGrant b action = (case sb_authorizationDetails b of
     JArr ds \<Rightarrow> List.find (\<lambda>d. member d ''action'' = JStr action) (List.map_filter as_object ds) | _ \<Rightarrow> None)"

definition hasGrant :: "sp_browser \<Rightarrow> string \<Rightarrow> bool" where
  "hasGrant b action = (findGrant b action \<noteq> None)"

definition isDelegated :: "sp_browser \<Rightarrow> bool" where
  "isDelegated b = (case sb_claims b of None \<Rightarrow> False | Some c \<Rightarrow> (case member c ''act'' of JObj ob \<Rightarrow> ''sub'' \<in> fst ` set ob | _ \<Rightarrow> False))"

definition getActor :: "sp_browser \<Rightarrow> jsval" where
  "getActor b = (case sb_claims b of None \<Rightarrow> JNull | Some c \<Rightarrow> (case member c ''act'' of JObj ob \<Rightarrow> if ''sub'' \<in> fst ` set ob then member ob ''sub'' else JNull | _ \<Rightarrow> JNull))"

definition getSubject :: "sp_browser \<Rightarrow> jsval" where
  "getSubject b = (case sb_claims b of None \<Rightarrow> JNull | Some c \<Rightarrow> (case member c ''sub'' of JUndef \<Rightarrow> JNull | v \<Rightarrow> v))"

section \<open>What a session says\<close>

lemma validated:
  assumes "validateAssertion verify opts now token = Inr p"
  obtains k t where "token = Some t" "verify k (ao_expectedIss opts) [ao_expectedAud opts] now t = Inr p" "\<not> ttl_exceeds p"
    "truthy_str (ao_expectedNonce opts) \<Longrightarrow> member p ''nonce'' = JStr (the (ao_expectedNonce opts))" "act_error (member p ''act'') = None" "js_truthy (member p ''sub'')"
    "k = (case ao_publicKey opts of Some pk \<Rightarrow> PublicKey pk | None \<Rightarrow> JwksUri (the (ao_jwksUri opts)))"
proof -
  let ?key = "case ao_publicKey opts of Some k \<Rightarrow> Some (PublicKey k) | None \<Rightarrow> if truthy_str (ao_jwksUri opts) then Some (JwksUri (the (ao_jwksUri opts))) else None"
  from assms obtain k where k: "?key = Some k" by (cases ?key) (auto simp: validateAssertion_def)
  note eq = assms [unfolded validateAssertion_def k option.case]
  from eq obtain t where t: "token = Some t" by (cases token) auto
  from eq t obtain q where q: "verify k (ao_expectedIss opts) [ao_expectedAud opts] now t = Inr q"
    by (cases "verify k (ao_expectedIss opts) [ao_expectedAud opts] now t") auto
  have "k = (case ao_publicKey opts of Some pk \<Rightarrow> PublicKey pk | None \<Rightarrow> JwksUri (the (ao_jwksUri opts)))"
    using k by (auto split: option.splits if_splits)
  then show ?thesis using that [OF t] eq q t by (auto split: if_splits option.splits)
qed

lemma landed:
  assumes "callback_get ask verify now cfg origin host q b = (Landed u, b')"
  obtains c claims raw details where "sb_flow b = Some c" "cq_state q = Some (fc_state c)" "fc_state c \<noteq> []" "now \<le> fc_exp c" "fl_state (fc_flow c) = fc_state c"
    "truthy_str (cq_code q)" "b' = (clearFlowState b)\<lparr>sb_claims := Some claims, sb_authorizationDetails := details\<rparr>"
    "handleCallback ask verify None now (the (cq_code q)) (fc_state c) (fc_flow c) (getClientId cfg host) (origin @ ''/api/callback'') = Inr (claims, raw, details)"
proof -
  have e: "\<not> truthy_str (cq_error q)" "truthy_str (cq_code q)" "truthy_str (cq_state q)" using assms by (auto simp: callback_get_def split: if_splits)
  note eq = assms [unfolded callback_get_def, simplified e, simplified]
  obtain flow where f: "getFlowState now (the (cq_state q)) b = Some flow" using eq by (cases "getFlowState now (the (cq_state q)) b") auto
  then obtain c where c: "sb_flow b = Some c" "fc_state c \<noteq> []" "fc_state c = the (cq_state q)" "now \<le> fc_exp c" "flow = fc_flow c"
    by (auto simp: getFlowState_def split: option.splits if_splits)
  have st: "cq_state q = Some (fc_state c)" using e(3) c(3) by (cases "cq_state q") auto
  let ?h = "handleCallback ask verify None now (the (cq_code q)) (the (cq_state q)) flow (getClientId cfg host) (origin @ ''/api/callback'')"
  obtain claims raw details where h: "?h = Inr (claims, raw, details)" using eq f by (cases ?h) auto
  have fs: "fl_state flow = fc_state c" using h c(3) by (auto simp: handleCallback_def split: if_splits)
  have b': "b' = (clearFlowState b)\<lparr>sb_claims := Some claims, sb_authorizationDetails := details\<rparr>" using eq f h by simp
  show ?thesis by (rule that [OF c(1) st c(2) c(4) fs [unfolded c(5)] e(2) b' h [folded c(3), unfolded c(5)]])
qed

lemma callback_claims:
  assumes "handleCallback ask verify None now code state flow clientId redirectUri = Inr (claims, raw, details)"
  obtains body t where "ask (fl_idpUrl flow @ ''/token'') \<lparr>tp_grant_type = ''authorization_code'', tp_code = code,
      tp_code_verifier = fl_codeVerifier flow, tp_redirect_uri = redirectUri, tp_client_id = clientId\<rparr> = Inr body"
    "member body ''assertion'' = JStr t" "verify (JwksUri (fl_idpUrl flow @ ''/.well-known/jwks.json'')) (fl_idpUrl flow) [clientId] now t = Inr claims"
    "\<not> ttl_exceeds claims" "fl_nonce flow \<noteq> [] \<Longrightarrow> member claims ''nonce'' = JStr (fl_nonce flow)" "js_truthy (member claims ''sub'')" "act_error (member claims ''act'') = None"
proof -
  let ?p = "\<lparr>tp_grant_type = ''authorization_code'', tp_code = code, tp_code_verifier = fl_codeVerifier flow, tp_redirect_uri = redirectUri, tp_client_id = clientId\<rparr>"
  have s: "state = fl_state flow" using assms by (auto simp: handleCallback_def split: if_splits)
  note eq = assms [unfolded handleCallback_def s, simplified]
  obtain body where b: "ask (fl_idpUrl flow @ ''/token'') ?p = Inr body" using eq by (cases "ask (fl_idpUrl flow @ ''/token'') ?p") auto
  let ?o = "\<lparr>ao_expectedIss = fl_idpUrl flow, ao_expectedAud = clientId, ao_jwksUri = Some (fl_idpUrl flow @ ''/.well-known/jwks.json''), ao_publicKey = None,
           ao_expectedNonce = Some (fl_nonce flow)\<rparr>"
  have v: "validateAssertion verify ?o now (as_string (member body ''assertion'')) = Inr claims"
    using eq b by (auto split: sum.splits)
  have str: "v = JStr t" if "as_string v = Some t" for v t using that by (cases v) auto
  from v obtain k t where "as_string (member body ''assertion'') = Some t" "verify k (fl_idpUrl flow) [clientId] now t = Inr claims" "\<not> ttl_exceeds claims"
    "fl_nonce flow \<noteq> [] \<Longrightarrow> member claims ''nonce'' = JStr (fl_nonce flow)" "act_error (member claims ''act'') = None" "js_truthy (member claims ''sub'')"
    "k = JwksUri (fl_idpUrl flow @ ''/.well-known/jwks.json'')"
    by (rule validated) (auto simp: truthy_str_def)
  then show ?thesis using that [OF b str] by blast
qed

text \<open>A browser at the service: the logins it begins and the callbacks it opens, in any number and order.\<close>

datatype sp_event = BeginLogin "string \<Rightarrow> ddisa_record option option" flow_randoms int string string "string option"
  | FinishLogin token_endpoint jwt_check int string string callback_query

fun sp_step :: "(string \<Rightarrow> string) \<Rightarrow> sp_config \<Rightarrow> sp_event \<Rightarrow> sp_browser \<Rightarrow> sp_browser" where
  "sp_step challenge cfg (BeginLogin resolve r now origin host email) b = snd (login_post resolve challenge r now cfg origin host email b)"
| "sp_step challenge cfg (FinishLogin ask verify now origin host q) b = snd (callback_get ask verify now cfg origin host q b)"

text \<open>The provider a login goes to.\<close>

definition login_provider :: "(string \<Rightarrow> ddisa_record option option) \<Rightarrow> sp_config \<Rightarrow> string option \<Rightarrow> string \<Rightarrow> bool" where
  "login_provider resolve cfg email idp = (if sf_openapeUrl cfg \<noteq> [] then idp = sf_openapeUrl cfg
     else (case discoverIdP resolve (js_trim (the email)) (Some (sf_fallbackIdpUrl cfg)) of Some (Some c) \<Rightarrow> ic_idpUrl c = idp | _ \<Rightarrow> False))"

lemma login_post_flow:
  "snd (login_post resolve challenge r now cfg origin host email b) = b \<or> (\<exists>idp. login_provider resolve cfg email idp \<and>
     sb_flow (snd (login_post resolve challenge r now cfg origin host email b)) = Some \<lparr>fc_state = fr_state r, fc_flow = \<lparr>fl_codeVerifier = fr_verifier r,
       fl_state = fr_state r, fl_nonce = fr_nonce r, fl_idpUrl = idp, fl_createdAt = now\<rparr>, fc_exp = now + 600000\<rparr>)"
  by (auto simp: login_post_def createAuthorizationURL_def saveFlowState_def login_provider_def Let_def split: option.splits)

lemma callback_flow: "sb_flow (snd (callback_get ask verify now cfg origin host q b)) \<in> {sb_flow b, None}"
  by (simp add: callback_get_def clearFlowState_def split: option.split sum.split prod.split)

lemma flow_from_login:
  assumes "sb_flow b = None" "sb_flow (fold (sp_step challenge cfg) es b) = Some c"
  shows "\<exists>resolve r t origin host email idp. BeginLogin resolve r t origin host email \<in> set es \<and> login_provider resolve cfg email idp \<and>
    c = \<lparr>fc_state = fr_state r, fc_flow = \<lparr>fl_codeVerifier = fr_verifier r, fl_state = fr_state r, fl_nonce = fr_nonce r, fl_idpUrl = idp,
      fl_createdAt = t\<rparr>, fc_exp = t + 600000\<rparr>"
  using assms(2)
proof (induction es rule: rev_induct)
  case Nil
  with assms(1) show ?case by simp
next
  case (snoc e es)
  let ?b = "fold (sp_step challenge cfg) es b"
  show ?case
  proof (cases e)
    case (BeginLogin resolve r now origin host email)
    then consider "sp_step challenge cfg e ?b = ?b" | idp where "login_provider resolve cfg email idp"
        "sb_flow (sp_step challenge cfg e ?b) = Some \<lparr>fc_state = fr_state r, fc_flow = \<lparr>fl_codeVerifier = fr_verifier r,
       fl_state = fr_state r, fl_nonce = fr_nonce r, fl_idpUrl = idp, fl_createdAt = now\<rparr>, fc_exp = now + 600000\<rparr>"
      using login_post_flow [of resolve challenge r now cfg origin host email ?b] by auto
    then show ?thesis
    proof cases
      case 1
      with snoc.prems have "sb_flow ?b = Some c" by simp
      from snoc.IH [OF this] show ?thesis unfolding set_append by blast
    next
      case 2
      with snoc.prems have "c = \<lparr>fc_state = fr_state r, fc_flow = \<lparr>fl_codeVerifier = fr_verifier r,
       fl_state = fr_state r, fl_nonce = fr_nonce r, fl_idpUrl = idp, fl_createdAt = now\<rparr>, fc_exp = now + 600000\<rparr>" by simp
      with 2(1) BeginLogin show ?thesis unfolding set_append by fastforce
    qed
  next
    case (FinishLogin ask verify now origin host q)
    then have "sb_flow ?b = Some c" using snoc.prems callback_flow [of ask verify now cfg origin host q ?b] by auto
    from snoc.IH [OF this] show ?thesis unfolding set_append by blast
  qed
qed

text \<open>C22. What a login at a service rests on. When a callback lands in a browser that came to the service without a flow cookie, then, whatever logins
  and callbacks it went through since, it began a login at most ten minutes before, with the same state; the code was exchanged at the provider that
  login was sent to, with the verifier kept then; and the session's claims come from a token which that provider's keys verify for this client, with the
  nonce of that login, at most five minutes long where it states its times, and naming a subject. The cookie is gone afterwards.\<close>

theorem sp_login_sound:
  assumes "sb_flow b0 = None" "callback_get ask verify now cfg origin host q (fold (sp_step challenge cfg) es b0) = (Landed u, b')"
  shows "\<exists>resolve r t origin' host' email idp claims body tok. BeginLogin resolve r t origin' host' email \<in> set es \<and> now \<le> t + 10 * 60 * 1000 \<and>
    cq_state q = Some (fr_state r) \<and> login_provider resolve cfg email idp \<and>
    ask (idp @ ''/token'') \<lparr>tp_grant_type = ''authorization_code'', tp_code = the (cq_code q),
      tp_code_verifier = fr_verifier r, tp_redirect_uri = origin @ ''/api/callback'', tp_client_id = getClientId cfg host\<rparr> = Inr body \<and>
    member body ''assertion'' = JStr tok \<and>
    verify (JwksUri (idp @ ''/.well-known/jwks.json'')) idp [getClientId cfg host] now tok = Inr claims \<and>
    (fr_nonce r \<noteq> [] \<longrightarrow> member claims ''nonce'' = JStr (fr_nonce r)) \<and>
    (\<forall>e i. member claims ''exp'' = JInt e \<and> member claims ''iat'' = JInt i \<longrightarrow> e - i \<le> 300) \<and> js_truthy (member claims ''sub'') \<and>
    sb_claims b' = Some claims \<and> sb_flow b' = None"
proof -
  let ?b = "fold (sp_step challenge cfg) es b0"
  obtain c claims raw details where c: "sb_flow ?b = Some c" "cq_state q = Some (fc_state c)" "now \<le> fc_exp c" "fl_state (fc_flow c) = fc_state c"
      "b' = (clearFlowState ?b)\<lparr>sb_claims := Some claims, sb_authorizationDetails := details\<rparr>"
    and h: "handleCallback ask verify None now (the (cq_code q)) (fc_state c) (fc_flow c) (getClientId cfg host) (origin @ ''/api/callback'') = Inr (claims, raw, details)"
    by (rule landed [OF assms(2)]) blast
  obtain resolve r t o' h' email idp where l: "BeginLogin resolve r t o' h' email \<in> set es" "login_provider resolve cfg email idp"
      "c = \<lparr>fc_state = fr_state r, fc_flow = \<lparr>fl_codeVerifier = fr_verifier r, fl_state = fr_state r, fl_nonce = fr_nonce r, fl_idpUrl = idp,
        fl_createdAt = t\<rparr>, fc_exp = t + 600000\<rparr>"
    using flow_from_login [OF assms(1) c(1)] by blast
  have f: "fl_idpUrl (fc_flow c) = idp" "fl_codeVerifier (fc_flow c) = fr_verifier r" "fl_nonce (fc_flow c) = fr_nonce r" "fc_state c = fr_state r"
      "fc_exp c = t + 600000" by (simp_all add: l(3))
  obtain body tok where k: "ask (idp @ ''/token'') \<lparr>tp_grant_type = ''authorization_code'', tp_code = the (cq_code q),
        tp_code_verifier = fr_verifier r, tp_redirect_uri = origin @ ''/api/callback'', tp_client_id = getClientId cfg host\<rparr> = Inr body"
      "member body ''assertion'' = JStr tok" "verify (JwksUri (idp @ ''/.well-known/jwks.json'')) idp [getClientId cfg host] now tok = Inr claims"
      "\<not> ttl_exceeds claims" "fr_nonce r \<noteq> [] \<Longrightarrow> member claims ''nonce'' = JStr (fr_nonce r)" "js_truthy (member claims ''sub'')"
    by (rule callback_claims [OF h, unfolded f]) blast
  have "now \<le> t + 10 * 60 * 1000" "cq_state q = Some (fr_state r)" "sb_claims b' = Some claims" "sb_flow b' = None"
    using c(2,3) by (simp_all add: f c(5) clearFlowState_def)
  moreover have "\<forall>e i. member claims ''exp'' = JInt e \<and> member claims ''iat'' = JInt i \<longrightarrow> e - i \<le> 300"
    using k(4) by (auto simp: ttl_exceeds_def)
  ultimately show ?thesis using l(1,2) k(1-3,5,6) by blast
qed

text \<open>A callback works once. Whatever the first attempt with a browser's state ended in, after it was processed the browser has no login in
  progress, and the same address opened again is refused before the provider is asked.\<close>

theorem callback_single_use:
  assumes "callback_get ask verify now cfg origin host q b = (r, b')" "getFlowState now (the (cq_state q)) b \<noteq> None"
    and "\<not> truthy_str (cq_error q)" "truthy_str (cq_code q)" "truthy_str (cq_state q)"
  shows "callback_get ask2 verify2 now2 cfg origin host q b' = (ErrorPage InvalidState, b')"
proof -
  obtain flow where f: "getFlowState now (the (cq_state q)) b = Some flow" using assms(2) by auto
  have "sb_flow b' = None" using assms(1,3,4,5) f by (auto simp: callback_get_def clearFlowState_def split: sum.splits)
  then show ?thesis using assms(3,4,5) by (simp add: callback_get_def getFlowState_def)
qed
section \<open>The subject of a session\<close>

text \<open>C23. The provider of one domain can name a user of another. A login begun with an address of a domain goes to the provider of that domain, and its
  assertion is checked against that provider alone: whatever subject it names becomes the subject of the session, even one whose
  domain names a different provider.\<close>

theorem provider_names_any_user:
  assumes "login_post resolve challenge r now cfg origin host (Some email) b = (RedirectTo u ps, b1)" "sf_openapeUrl cfg = []"
    and "core_extractDomain (js_trim email) = Some d" "resolve d = Some (Some rec)"
    and "core_extractDomain victim = Some d2" "resolve d2 = Some (Some rec2)" "dr_idp rec2 \<noteq> dr_idp rec" "victim \<noteq> []"
    and "ask (dr_idp rec @ ''/token'') = (\<lambda>p. Inr [(''assertion'', JStr t)])"
    and "verify (JwksUri (dr_idp rec @ ''/.well-known/jwks.json'')) (dr_idp rec) [getClientId cfg host] now2 t = Inr claims"
    and "member claims ''sub'' = JStr victim" "member claims ''nonce'' = JStr (fr_nonce r)" "member claims ''act'' = JStr ''human''" "\<not> ttl_exceeds claims"
    and "now2 \<le> now + 600000" "fr_state r \<noteq> []" "code \<noteq> []"
  shows "\<exists>v b2. callback_get ask verify now2 cfg origin host \<lparr>cq_code = Some code, cq_state = Some (fr_state r), cq_error = None, cq_error_description = None\<rparr> b1
      = (Landed v, b2) \<and> getSubject b2 = JStr victim"
proof -
  have b: "truthy_str (Some email) \<and> CHR ''@'' \<in> set email" using assms(1) by (auto simp: login_post_def truthy_str_def split: if_splits)
  let ?f = "\<lparr>fl_codeVerifier = fr_verifier r, fl_state = fr_state r, fl_nonce = fr_nonce r, fl_idpUrl = dr_idp rec, fl_createdAt = now\<rparr>"
  have b1: "b1 = saveFlowState now (fr_state r) ?f b"
    using assms(1) b by (simp add: login_post_def assms(2) discoverIdP_def assms(3,4) createAuthorizationURL_def Let_def)
  have g: "getFlowState now2 (fr_state r) b1 = Some ?f" using assms(15,16) by (simp add: b1 saveFlowState_def getFlowState_def)
  have v: "validateAssertion verify \<lparr>ao_expectedIss = dr_idp rec, ao_expectedAud = getClientId cfg host,
           ao_jwksUri = Some (dr_idp rec @ ''/.well-known/jwks.json''), ao_publicKey = None, ao_expectedNonce = Some (fr_nonce r)\<rparr> now2 (Some t) = Inr claims"
    using assms(8,10,11,12,13,14) by (simp add: validateAssertion_def act_error_def js_truthy_def)
  have "handleCallback ask verify None now2 code (fr_state r) ?f (getClientId cfg host) (origin @ ''/api/callback'') = Inr (claims, Some t, JUndef)"
    using v by (simp add: handleCallback_def assms(9) member_def)
  then show ?thesis using g assms(11,16,17) by (simp add: callback_get_def clearFlowState_def getSubject_def)
qed

definition ex_dns_of :: "string \<Rightarrow> ddisa_record option option" where
  "ex_dns_of d = Some (Some \<lparr>dr_version = ''ddisa1'', dr_idp = ''https://id.'' @ d, dr_mode = None, dr_priority = None, dr_policy_endpoint = None, dr_raw = []\<rparr>)"

definition ex_sp :: sp_config where
  "ex_sp = getSpConfig \<lparr>xs_clientId = Some ''sp.io'', xs_openapeUrl = None, xs_fallbackIdpUrl = None, xs_postLoginRedirect = None\<rparr>"

definition ex_randoms :: flow_randoms where
  "ex_randoms = \<lparr>fr_verifier = ''v'', fr_state = ''s'', fr_nonce = ''n''\<rparr>"

definition ex_browser :: sp_browser where
  "ex_browser = \<lparr>sb_flow = None, sb_claims = None, sb_authorizationDetails = JUndef\<rparr>"

definition ex_token_claims :: "jsval jsobj" where
  "ex_token_claims = [(''sub'', JStr ''bob@b.io''), (''nonce'', JStr ''n''), (''act'', JStr ''human'')]"

definition ex_ask :: token_endpoint where
  "ex_ask u p = Inr [(''assertion'', JStr ''jwt'')]"

definition ex_check :: jwt_check where
  "ex_check k iss auds now t = (if iss = ''https://id.evil.io'' then Inr ex_token_claims else Inl ''bad signature'')"

definition ex_callback :: callback_query where
  "ex_callback = \<lparr>cq_code = Some ''c'', cq_state = Some ''s'', cq_error = None, cq_error_description = None\<rparr>"

lemma ex_sp_config: "sf_openapeUrl ex_sp = []" "getClientId ex_sp h = ''sp.io''"
  by (simp_all add: ex_sp_def getSpConfig_def or_default_def getClientId_def resolveClientId_def js_trim_def is_space_def)

lemma ex_login: "login_post ex_dns_of id ex_randoms 0 ex_sp ''https://sp.io'' ''sp.io'' (Some ''eve@evil.io'') ex_browser =
    (RedirectTo ''https://id.evil.io/authorize'' [(''response_type'', ''code''), (''client_id'', ''sp.io''), (''redirect_uri'', ''https://sp.io/api/callback''),
       (''state'', ''s''), (''code_challenge'', ''v''), (''code_challenge_method'', ''S256''), (''nonce'', ''n''), (''login_hint'', ''eve@evil.io'')],
     ex_browser\<lparr>sb_flow := Some \<lparr>fc_state = ''s'', fc_flow = \<lparr>fl_codeVerifier = ''v'', fl_state = ''s'', fl_nonce = ''n'', fl_idpUrl = ''https://id.evil.io'', fl_createdAt = 0\<rparr>, fc_exp = 600000\<rparr>\<rparr>)"
proof -
  have "js_trim ''eve@evil.io'' = ''eve@evil.io''" "core_extractDomain ''eve@evil.io'' = Some ''evil.io''" by code_simp+
  then show ?thesis
    by (simp add: login_post_def ex_sp_config discoverIdP_def ex_dns_of_def createAuthorizationURL_def ex_randoms_def saveFlowState_def Let_def)
qed

theorem provider_names_any_user_witness:
  "\<exists>v b2. callback_get ex_ask ex_check 1000 ex_sp ''https://sp.io'' ''sp.io'' ex_callback
      (snd (login_post ex_dns_of id ex_randoms 0 ex_sp ''https://sp.io'' ''sp.io'' (Some ''eve@evil.io'') ex_browser)) = (Landed v, b2) \<and> getSubject b2 = JStr ''bob@b.io''"
proof -
  let ?r = "\<lparr>dr_version = ''ddisa1'', dr_idp = ''https://id.evil.io'', dr_mode = None, dr_priority = None, dr_policy_endpoint = None, dr_raw = []\<rparr>"
  let ?r2 = "\<lparr>dr_version = ''ddisa1'', dr_idp = ''https://id.b.io'', dr_mode = None, dr_priority = None, dr_policy_endpoint = None, dr_raw = []\<rparr>"
  have d: "core_extractDomain (js_trim ''eve@evil.io'') = Some ''evil.io''" "core_extractDomain ''bob@b.io'' = Some ''b.io''" by code_simp+
  show ?thesis
    using provider_names_any_user [OF ex_login ex_sp_config(1) d(1) _ d(2), of ?r ?r2 ex_ask "''jwt''" ex_check 1000 ex_token_claims "''c''"]
    unfolding ex_login by (simp add: ex_dns_of_def ex_ask_def [abs_def] ex_check_def ex_token_claims_def member_def ttl_exceeds_def ex_randoms_def ex_callback_def)
qed

theorem sp_login_sound_witness:
  "\<exists>r t. 1000 \<le> t + 10 * 60 * 1000 \<and> cq_state ex_callback = Some (fr_state r) \<and>
    (\<exists>resolve o' h' email. BeginLogin resolve r t o' h' email \<in> set [BeginLogin ex_dns_of ex_randoms 0 ''https://sp.io'' ''sp.io'' (Some ''eve@evil.io'')])"
proof -
  let ?es = "[BeginLogin ex_dns_of ex_randoms 0 ''https://sp.io'' ''sp.io'' (Some ''eve@evil.io'')]"
  have b: "fold (sp_step id ex_sp) ?es ex_browser
      = snd (login_post ex_dns_of id ex_randoms 0 ex_sp ''https://sp.io'' ''sp.io'' (Some ''eve@evil.io'') ex_browser)" by simp
  have n: "sb_flow ex_browser = None" by (simp add: ex_browser_def)
  obtain v b2 where "callback_get ex_ask ex_check 1000 ex_sp ''https://sp.io'' ''sp.io'' ex_callback (fold (sp_step id ex_sp) ?es ex_browser) = (Landed v, b2)"
    unfolding b
    by (simp add: ex_login callback_get_def ex_callback_def getFlowState_def handleCallback_def ex_ask_def validateAssertion_def ex_check_def ex_token_claims_def
        ttl_exceeds_def act_error_def js_truthy_def member_def)
  from sp_login_sound [OF n this] show ?thesis by blast
qed

theorem callback_single_use_witness:
  "callback_get ex_ask ex_check 2000 ex_sp ''https://sp.io'' ''sp.io'' ex_callback (snd (callback_get ex_ask ex_check 1000 ex_sp ''https://sp.io'' ''sp.io'' ex_callback
      (snd (login_post ex_dns_of id ex_randoms 0 ex_sp ''https://sp.io'' ''sp.io'' (Some ''eve@evil.io'') ex_browser))))
    = (ErrorPage InvalidState, snd (callback_get ex_ask ex_check 1000 ex_sp ''https://sp.io'' ''sp.io'' ex_callback
      (snd (login_post ex_dns_of id ex_randoms 0 ex_sp ''https://sp.io'' ''sp.io'' (Some ''eve@evil.io'') ex_browser))))"
  by (rule callback_single_use [OF prod.collapse [symmetric]]) (simp_all add: ex_login ex_callback_def getFlowState_def)

section \<open>The service and the provider together\<close>

text \<open>The members of an assertion that the service reads.\<close>

definition claims_of :: "assertion \<Rightarrow> jsval jsobj" where
  "claims_of a = [(''iss'', JStr (an_iss a)), (''sub'', JStr (an_sub a)), (''aud'', JStr (an_aud a)),
     (''act'', case an_act a of ActDelegate d \<Rightarrow> JObj [(''sub'', JStr d)] | ActType t \<Rightarrow> JStr (case t of Human \<Rightarrow> ''human'' | Agent \<Rightarrow> ''agent'')),
     (''iat'', JInt (an_iat a)), (''exp'', JInt (an_exp a)), (''nonce'', case an_nonce a of None \<Rightarrow> JUndef | Some n \<Rightarrow> JStr n)]"

text \<open>The token endpoint of the provider model, with \<open>tok\<close> for signing, and a check that accepts what the provider signed for the audience, the
  assertions in \<open>signed\<close>.\<close>

definition provider_endpoint :: "(assertion \<Rightarrow> string) \<Rightarrow> string \<Rightarrow> (exchange_params \<Rightarrow> (flow_error + exchange_result) \<times> idp) \<Rightarrow> token_endpoint" where
  "provider_endpoint tok issuer exchange u p = (if u \<noteq> issuer @ ''/token'' then Inl ''404''
     else case fst (exchange p) of Inl _ \<Rightarrow> Inl ''400'' | Inr r \<Rightarrow> Inr [(''assertion'', JStr (tok (xr_assertion r)))])"

definition checks_provider :: "(assertion \<Rightarrow> string) \<Rightarrow> assertion set \<Rightarrow> string \<Rightarrow> jwt_check \<Rightarrow> bool" where
  "checks_provider tok signed issuer verify = (inj_on tok signed \<and> (\<forall>auds now t c. verify (JwksUri (issuer @ ''/.well-known/jwks.json'')) issuer auds now t = Inr c \<longrightarrow>
     (\<exists>a\<in>signed. t = tok a \<and> c = claims_of a \<and> an_aud a \<in> set auds)))"

text \<open>C24. From the provider to the service's session. When a service's callback lands with a code that the authorization endpoint of its provider issued,
  the subject of the session is the user that endpoint identified, active then; and the request for the code was the service's own: it came with its
  client, its redirect address, the challenge of its verifier and its nonce. This assumes that the service accepts only what the provider signed.\<close>

theorem session_end_to_end:
  assumes "authorize_get url net opts mdMode ddisa parse InMemoryGrantStore now fresh bearer q (s, se, g) = (CodeIssued uri code state, s', se', g')"
    and "mem_inv g" "map_of (ip_codes s2) code = map_of (ip_codes s') code"
    and "callback_get (provider_endpoint tok issuer (\<lambda>p. handleTokenExchange challenge resolve withRefresh hash now2 jti token family issuer oth p s2)) verify now3 cfg origin host cq b
      = (Landed v, b')" "cq_code cq = Some code"
    and "checks_provider tok signed issuer verify" "\<And>p r. fst (handleTokenExchange challenge resolve withRefresh hash now2 jti token family issuer oth p s2) = Inr r \<Longrightarrow> xr_assertion r \<in> signed"
    and "sb_flow b = Some c" "fl_idpUrl (fc_flow c) = issuer" "fl_nonce (fc_flow c) \<noteq> []"
  shows "(\<exists>i. identified bearer q now s se g i \<and> userActive (id_userId i) s \<and> getSubject b' = JStr (id_userId i)) \<and>
    ap_client_id (aq_params q) = getClientId cfg host \<and> ap_redirect_uri (aq_params q) = origin @ ''/api/callback'' \<and>
    challenge (fl_codeVerifier (fc_flow c)) = ap_code_challenge (aq_params q) \<and> ap_nonce (aq_params q) = Some (fl_nonce (fc_flow c))"
proof -
  let ?ask = "provider_endpoint tok issuer (\<lambda>p. handleTokenExchange challenge resolve withRefresh hash now2 jti token family issuer oth p s2)"
  let ?p = "\<lparr>tp_grant_type = ''authorization_code'', tp_code = code, tp_code_verifier = fl_codeVerifier (fc_flow c), tp_redirect_uri = origin @ ''/api/callback'',
      tp_client_id = getClientId cfg host\<rparr>"
  let ?x = "handleTokenExchange challenge resolve withRefresh hash now2 jti token family issuer oth ?p s2"
  obtain claims raw details where b': "b' = (clearFlowState b)\<lparr>sb_claims := Some claims, sb_authorizationDetails := details\<rparr>"
    and h: "handleCallback ?ask verify None now3 code (fc_state c) (fc_flow c) (getClientId cfg host) (origin @ ''/api/callback'') = Inr (claims, raw, details)"
    by (rule landed [OF assms(4)]) (use assms(5,8) in auto)
  obtain body t where body: "?ask (issuer @ ''/token'') ?p = Inr body" "member body ''assertion'' = JStr t"
    and t: "verify (JwksUri (issuer @ ''/.well-known/jwks.json'')) issuer [getClientId cfg host] now3 t = Inr claims"
    and n: "member claims ''nonce'' = JStr (fl_nonce (fc_flow c))" and sub: "js_truthy (member claims ''sub'')"
    by (rule callback_claims [OF h]) (use assms(9,10) in auto)
  obtain r s3 where r: "?x = (Inr r, s3)" "t = tok (xr_assertion r)"
    using body by (cases ?x) (auto simp: provider_endpoint_def member_def split: sum.splits)
  have "xr_assertion r \<in> signed" using assms(7) r(1) by (metis fst_conv)
  moreover obtain a where "a \<in> signed" "t = tok a" "claims = claims_of a" using assms(6) t unfolding checks_provider_def by blast
  ultimately have claims: "claims = claims_of (xr_assertion r)" using assms(6) r(2) unfolding checks_provider_def by (metis inj_onD)
  note e = login_end_to_end [OF assms(1,2,3) _ r(1), simplified]
  from e obtain i where i: "identified bearer q now s se g i" "userActive (id_userId i) s" "an_sub (xr_assertion r) = id_userId i" by auto
  have subj: "getSubject b' = JStr (id_userId i)"
    by (simp add: b' getSubject_def claims claims_of_def member_def i(3))
  obtain entry where entry: "map_of (ip_codes s') code = Some entry" "ce_nonce entry = ap_nonce (aq_params q)"
    using authorize_code [OF assms(1,2)] by (auto simp: code_save_def new_code_def)
  have "an_nonce (xr_assertion r) = truthy_opt (ap_nonce (aq_params q))"
  proof -
    obtain ce where ce: "fst (code_find now2 code (ip_codes s2)) = Some ce" "an_nonce (xr_assertion r) = truthy_opt (ce_nonce ce)"
      using r(1) by (auto simp: handleTokenExchange_def Let_def issueAssertion_def code_claims_def plain_claims_def split: prod.splits option.splits if_splits)
    have "map_of (ip_codes s2) code = Some ce" using ce(1) by (auto simp: code_find_def split: option.splits if_splits)
    then show ?thesis using ce(2) entry assms(3) by simp
  qed
  moreover have "an_nonce (xr_assertion r) = Some (fl_nonce (fc_flow c))"
    using n unfolding claims claims_of_def by (auto simp: member_def split: option.splits)
  ultimately have "ap_nonce (aq_params q) = Some (fl_nonce (fc_flow c))" by (auto simp: truthy_opt_def split: if_splits)
  then show ?thesis using i subj e by auto
qed

definition ex_anywhere :: url_parser where
  "ex_anywhere u = Some (''https:'', u)"

definition ex_sp_query :: authorize_query where
  "ex_sp_query = \<lparr>aq_params = ex_params\<lparr>ap_client_id := ''sp.io'', ap_redirect_uri := ''https://sp.io/api/callback'', ap_nonce := Some ''n''\<rparr>,
     aq_delegation_grant = [], aq_login_hint = [], aq_authorization_details = []\<rparr>"

definition ex_ann :: identity where
  "ex_ann = \<lparr>id_userId = ''ann@x.io'', id_actorType = None, id_delegationAct = None, id_delegationGrant = None\<rparr>"

definition ex_after :: idp where
  "ex_after = ex_server\<lparr>ip_metadata := [(''sp.io'', \<lparr>ca_metadata = None, ca_expiresAt = 2000\<rparr>)], ip_codes := [(''c9'', new_code ''c9'' 1000 (aq_params ex_sp_query) ex_ann)]\<rparr>"

lemma ex_sp_code:
  "authorize_get ex_anywhere ex_web ex_options Permissive (\<lambda>_. Some ModeOpen) (\<lambda>_. None) InMemoryGrantStore 1000 ''c9'' None ex_sp_query
     (ex_server, ex_session ''ann@x.io'', empty_mem) = (CodeIssued ''https://sp.io/api/callback'' ''c9'' ''st'', ex_after, ex_session ''ann@x.io'', empty_mem)"
proof -
  have d: "core_extractDomain ''ann@x.io'' = Some ''x.io''" by code_simp
  have m: "validateRedirectUri ex_anywhere ex_web ex_options 1000 ''sp.io'' ''https://sp.io/api/callback'' Permissive [] = (None, [(''sp.io'', \<lparr>ca_metadata = None, ca_expiresAt = 2000\<rparr>)])"
    by code_simp
  have v: "validateAuthorizeRequest (aq_params ex_sp_query) = None" by (simp add: validateAuthorizeRequest_def ex_params_def ex_sp_query_def)
  have i: "identify None ex_sp_query InMemoryGrantStore 1000 (ex_server\<lparr>ip_metadata := c\<rparr>) (ex_session ''ann@x.io'') empty_mem =
    (Inr ex_ann, ex_session ''ann@x.io'', empty_mem)" for c
    by (simp add: identify_def act_as_def needs_login_def userActive_def ex_session_def ex_sp_query_def ex_server_def ex_idp_def findByEmail_def js_trim_def is_space_def to_lower_def lower_char_def ex_ann_def)
  show ?thesis
    using m v i by (simp add: authorize_get_def decide_def d ex_anywhere_def ex_sp_query_def evaluatePolicy_def js_trim_def code_save_def new_code_def Let_def
      ex_session_def ex_server_def ex_idp_def ex_params_def ex_after_def ex_ann_def)
qed

definition ex_signed :: assertion where
  "ex_signed = issueAssertion 2000 ''j'' ''https://idp'' (code_claims (new_code ''c9'' 1000 (aq_params ex_sp_query) ex_ann) ''sp.io'' no_extra)"

lemma ex_sp_exchange:
  "fst (handleTokenExchange id None False id 2000 ''j'' ''t'' ''f'' ''https://idp'' id p ex_after) = Inr r \<Longrightarrow> xr_assertion r = ex_signed"
  by (auto simp: handleTokenExchange_def code_find_def ex_after_def ex_signed_def new_code_def ex_sp_query_def ex_params_def ex_server_def Let_def
      split: if_splits option.splits)

definition ex_sp_browser :: sp_browser where
  "ex_sp_browser = ex_browser\<lparr>sb_flow := Some \<lparr>fc_state = ''st'', fc_flow = \<lparr>fl_codeVerifier = ''v'', fl_state = ''st'', fl_nonce = ''n'', fl_idpUrl = ''https://idp'',
     fl_createdAt = 0\<rparr>, fc_exp = 600000\<rparr>\<rparr>"

definition ex_provider_check :: jwt_check where
  "ex_provider_check k iss auds now t = (if iss = ''https://idp'' \<and> t = ''jwt'' \<and> ''sp.io'' \<in> set auds then Inr (claims_of ex_signed) else Inl ''bad'')"

theorem session_end_to_end_witness:
  "\<exists>v b'. callback_get (provider_endpoint (\<lambda>_. ''jwt'') ''https://idp'' (\<lambda>p. handleTokenExchange id None False id 2000 ''j'' ''t'' ''f'' ''https://idp'' id p ex_after))
      ex_provider_check 3000 ex_sp ''https://sp.io'' ''sp.io'' \<lparr>cq_code = Some ''c9'', cq_state = Some ''st'', cq_error = None, cq_error_description = None\<rparr> ex_sp_browser
    = (Landed v, b') \<and> getSubject b' = JStr ''ann@x.io''"
proof -
  let ?ask = "provider_endpoint (\<lambda>_. ''jwt'') ''https://idp'' (\<lambda>p. handleTokenExchange id None False id 2000 ''j'' ''t'' ''f'' ''https://idp'' id p ex_after)"
  let ?q = "\<lparr>cq_code = Some ''c9'', cq_state = Some ''st'', cq_error = None, cq_error_description = None\<rparr>"
  let ?p = "\<lparr>tp_grant_type = ''authorization_code'', tp_code = ''c9'', tp_code_verifier = ''v'', tp_redirect_uri = ''https://sp.io/api/callback'', tp_client_id = ''sp.io''\<rparr>"
  have ok: "isl (fst (handleTokenExchange id None False id 2000 ''j'' ''t'' ''f'' ''https://idp'' id ?p ex_after)) = False"
    by (simp add: handleTokenExchange_def code_find_def ex_after_def new_code_def ex_sp_query_def ex_params_def Let_def)
  then have ask: "?ask ''https://idp/token'' ?p = Inr [(''assertion'', JStr ''jwt'')]"
    by (cases "fst (handleTokenExchange id None False id 2000 ''j'' ''t'' ''f'' ''https://idp'' id ?p ex_after)") (simp_all add: provider_endpoint_def)
  have c: "ttl_exceeds (claims_of ex_signed) = False" "member (claims_of ex_signed) ''nonce'' = JStr ''n''" "act_error (member (claims_of ex_signed) ''act'') = None"
    "js_truthy (member (claims_of ex_signed) ''sub'')"
    by (simp_all add: ttl_exceeds_def claims_of_def member_def ex_signed_def issueAssertion_def code_claims_def plain_claims_def new_code_def ex_sp_query_def ex_params_def
        ex_ann_def truthy_opt_def act_error_def js_truthy_def no_extra_def)
  obtain v b' where l: "callback_get ?ask ex_provider_check 3000 ex_sp ''https://sp.io'' ''sp.io'' ?q ex_sp_browser = (Landed v, b')"
    using c by (simp add: callback_get_def getFlowState_def ex_sp_browser_def handleCallback_def ask ex_sp_config validateAssertion_def ex_provider_check_def member_def [of "[_]"])
  have k: "checks_provider (\<lambda>_. ''jwt'') {ex_signed} ''https://idp'' ex_provider_check"
    by (auto simp: checks_provider_def ex_provider_check_def ex_signed_def issueAssertion_def code_claims_def plain_claims_def split: if_splits)
  note session_end_to_end [OF ex_sp_code mem_inv_empty refl l _ k]
  then have "\<exists>i. identified None ex_sp_query 1000 ex_server (ex_session ''ann@x.io'') empty_mem i \<and> getSubject b' = JStr (id_userId i)"
    using ex_sp_exchange by (auto simp: ex_sp_browser_def)
  then have "getSubject b' = JStr ''ann@x.io''" by (auto simp: identified_def ex_sp_query_def ex_session_def)
  with l show ?thesis by blast
qed

end
