(* ===== verification/NetGuard.thy ===== *)
theory NetGuard
  imports ProxyRules
begin

text \<open>
  \<open>packages/core/src/net/ssrf-guard.ts\<close>: which addresses the services may not fetch from. \<open>url\<close> is \<open>new URL\<close> (protocol and host name, an
  IPv6 host in brackets), \<open>lookup\<close> the name service, \<open>None\<close> when it fails.
\<close>

definition blocked_v4 :: "string \<Rightarrow> bool" where
  "blocked_v4 ip = (case map nat_of_digits (split_on (CHR ''.'') ip) of
     a # b # _ \<Rightarrow> a = 0 \<or> a = 127 \<or> a = 10 \<or> (a = 172 \<and> 16 \<le> b \<and> b \<le> 31) \<or> (a = 192 \<and> b = 168) \<or> (a = 169 \<and> b = 254) \<or> (a = 100 \<and> 64 \<le> b \<and> b \<le> 127)
   | _ \<Rightarrow> False)"

definition unbracketed :: "string \<Rightarrow> string" where
  "unbracketed s = (let t = (if s \<noteq> [] \<and> hd s = CHR ''['' then tl s else s) in if t \<noteq> [] \<and> last t = CHR '']'' then butlast t else t)"

text \<open>The expression \<open>/^::ffff:(\d{1,3}(?:\.\d{1,3}){3})$/\<close>.\<close>

definition mapped_quad :: "string \<Rightarrow> string option" where
  "mapped_quad s = (if starts_with s ''::ffff:'' then (let r = drop 7 s; parts = split_on (CHR ''.'') r in
     if length parts = 4 \<and> list_all (\<lambda>p. p \<noteq> [] \<and> length p \<le> 3 \<and> list_all is_digit p) parts then Some r else None) else None)"

text \<open>A mapped address that is not an IPv4 address falls through every other test.\<close>

definition isBlockedAddress :: "string \<Rightarrow> bool" where
  "isBlockedAddress ip = (if isIP ip = 4 then blocked_v4 ip
     else (let low = unbracketed (to_lower ip) in
       low = ''::'' \<or> low = ''::1'' \<or> starts_with low ''fe80'' \<or> starts_with low ''fc'' \<or> starts_with low ''fd'' \<or>
       (case mapped_quad low of Some m \<Rightarrow> isIP m = 4 \<and> blocked_v4 m | None \<Rightarrow> False)))"

datatype url_error = InvalidUrl | WrongScheme string | LookupFailed | NotResolved string | PrivateAddress string

definition assertPublicUrl :: "(string \<Rightarrow> (string \<times> string) option) \<Rightarrow> (string \<Rightarrow> string list option) \<Rightarrow> bool \<Rightarrow> string \<Rightarrow> url_error + string \<times> string" where
  "assertPublicUrl url lookup allowHttp raw = (case url raw of None \<Rightarrow> Inl InvalidUrl
     | Some (protocol, hostname) \<Rightarrow>
         if protocol \<noteq> ''https:'' \<and> \<not> (allowHttp \<and> protocol = ''http:'') then Inl (WrongScheme protocol)
         else (let host = unbracketed hostname in
           case (if isIP host \<noteq> 0 then Some [host] else lookup host) of None \<Rightarrow> Inl LookupFailed
           | Some addrs \<Rightarrow> if addrs = [] then Inl (NotResolved host)
               else (case List.find isBlockedAddress addrs of Some a \<Rightarrow> Inl (PrivateAddress a) | None \<Rightarrow> Inr (protocol, hostname))))"

lemma blocked_quad:
  assumes "octets ip = Some (a, b, c, d)"
  shows "isBlockedAddress ip \<longleftrightarrow> private_block a b \<or> (a = 100 \<and> 64 \<le> b \<and> b \<le> 127)"
  using assms octets_parts [OF assms] by (auto simp: isBlockedAddress_def isIP_def blocked_v4_def private_block_def)

text \<open>The two guards against private addresses agree on IPv4, but for one block. The services' guard refuses an IPv4 address exactly when the
  egress proxy's does or it lies in the shared block 100.64/10 of carriers, which only the services refuse.\<close>

theorem guards_agree_v4:
  assumes "octets ip = Some (a, b, c, d)"
  shows "isBlockedAddress ip \<longleftrightarrow> isPrivateIP ip \<or> (a = 100 \<and> 64 \<le> b \<and> b \<le> 127)"
  using blocked_quad [OF assms] private_v4_iff [OF assms] by simp

theorem guards_agree_v4_witness: "isBlockedAddress ''100.64.0.1'' \<and> \<not> isPrivateIP ''100.64.0.1''"
proof -
  have o: "octets ''100.64.0.1'' = Some (100, 64, 0, 1)" by code_simp
  have "\<not> isPrivateIP ''100.64.0.1''" using private_v4_iff [OF o] by (simp add: private_block_def)
  then show ?thesis using guards_agree_v4 [OF o] by simp
qed

text \<open>A service fetches only from public addresses. When the guard lets an address of the web pass, its scheme is \<open>https\<close>, or \<open>http\<close> where
  that is allowed, its host is an address or was resolved to at least one, and none of them lies in a private, loopback, link-local or shared
  IPv4 block.\<close>

theorem public_url_sound:
  assumes "assertPublicUrl url lookup allowHttp raw = Inr (protocol, hostname)"
  shows "url raw = Some (protocol, hostname) \<and> (protocol = ''https:'' \<or> (allowHttp \<and> protocol = ''http:'')) \<and>
    (\<exists>addrs. addrs \<noteq> [] \<and> (if isIP (unbracketed hostname) \<noteq> 0 then addrs = [unbracketed hostname] else lookup (unbracketed hostname) = Some addrs) \<and>
      (\<forall>x\<in>set addrs. \<not> isBlockedAddress x) \<and>
      (\<forall>x\<in>set addrs. \<forall>a b c d. octets x = Some (a, b, c, d) \<longrightarrow> \<not> private_block a b \<and> \<not> (a = 100 \<and> 64 \<le> b \<and> b \<le> 127)))"
proof -
  obtain p h where u: "url raw = Some (p, h)" using assms by (cases "url raw") (auto simp: assertPublicUrl_def)
  note eq = assms [unfolded assertPublicUrl_def u option.case prod.case Let_def]
  have s: "p = ''https:'' \<or> (allowHttp \<and> p = ''http:'')" using eq by (auto split: if_splits)
  obtain addrs where a: "(if isIP (unbracketed h) \<noteq> 0 then Some [unbracketed h] else lookup (unbracketed h)) = Some addrs"
    using eq s by (cases "if isIP (unbracketed h) \<noteq> 0 then Some [unbracketed h] else lookup (unbracketed h)") (auto split: if_splits)
  have "addrs \<noteq> [] \<and> List.find isBlockedAddress addrs = None \<and> p = protocol \<and> h = hostname"
    using eq s unfolding a by (auto split: if_splits option.splits)
  moreover have "(if isIP (unbracketed h) \<noteq> 0 then addrs = [unbracketed h] else lookup (unbracketed h) = Some addrs)" using a by (auto split: if_splits)
  ultimately show ?thesis using u s blocked_quad unfolding find_none by (intro conjI exI [of _ addrs]) auto
qed

definition ex_web :: "string \<Rightarrow> (string \<times> string) option" where
  "ex_web u = (if u = ''https://a.io/'' then Some (''https:'', ''a.io'') else if u = ''https://[::ffff:127.0.0.1]/'' then Some (''https:'', ''[::ffff:7f00:1]'') else None)"

theorem public_url_sound_witness: "\<exists>addrs. addrs \<noteq> [] \<and> (\<forall>x\<in>set addrs. \<not> isBlockedAddress x)"
proof -
  have i: "isIP ''a.io'' = 0" "unbracketed ''a.io'' = ''a.io''" by code_simp+
  have b: "\<not> isBlockedAddress ''93.184.216.34''" by code_simp
  have "assertPublicUrl ex_web (\<lambda>_. Some [''93.184.216.34'']) False ''https://a.io/'' = Inr (''https:'', ''a.io'')"
    using i b by (simp add: assertPublicUrl_def ex_web_def Let_def)
  from public_url_sound [OF this] show ?thesis by blast
qed

text \<open>A loopback address in IPv6 notation passes. The guard looks for the IPv4 address of a mapped one in decimal notation, but the web address
  parser writes it in hexadecimal; so the host is accepted, though the decimal form of the same address is refused. Link-local addresses beyond
  \<open>fe80\<close> pass as well.\<close>

theorem mapped_loopback_passes:
  assumes "url raw = Some (''https:'', host)" "host \<in> {''[::ffff:7f00:1]'', ''[febf::1]''}"
  shows "assertPublicUrl url lookup allowHttp raw = Inr (''https:'', host) \<and> isBlockedAddress ''::ffff:127.0.0.1'' \<and>
    ipv6_words ''::ffff:7f00:1'' = ipv6_words ''::ffff:127.0.0.1''"
proof -
  have o: "octets ''127.0.0.1'' = Some (127, 0, 0, 1)" by code_simp
  have p: "\<not> isBlockedAddress ''::ffff:7f00:1''" "\<not> isBlockedAddress ''febf::1''"
    by (simp_all add: isBlockedAddress_def isIP_def unbracketed_def mapped_quad_def to_lower_def v6_eval)
  have i: "isIP ''::ffff:7f00:1'' \<noteq> 0" "isIP ''febf::1'' \<noteq> 0"
    by (simp_all add: isIP_def v6_eval)
  have "isBlockedAddress ''::ffff:127.0.0.1''" using o
    by (simp add: isBlockedAddress_def isIP_def unbracketed_def mapped_quad_def to_lower_def lower_char_def is_digit_def blocked_v4_def nat_of_digits_def octets_def octet_def)
  moreover have "unbracketed ''[::ffff:7f00:1]'' = ''::ffff:7f00:1''" "unbracketed ''[febf::1]'' = ''febf::1''"
    by (simp_all add: unbracketed_def)
  ultimately show ?thesis using assms p i private_v6_words by (auto simp: assertPublicUrl_def Let_def)
qed

theorem mapped_loopback_passes_witness:
  "assertPublicUrl ex_web (\<lambda>_. None) False ''https://[::ffff:127.0.0.1]/'' = Inr (''https:'', ''[::ffff:7f00:1]'')"
  using mapped_loopback_passes [of ex_web "''https://[::ffff:127.0.0.1]/''" "''[::ffff:7f00:1]''" "\<lambda>_. None" False] by (simp add: ex_web_def)

end
