(* ===== verification/SpExchange.thy ===== *)
theory SpExchange
  imports SpLogin NetGuard
begin

text \<open>
  Tokens at a service: the service module's \<open>utils/ddisa-issuer.ts\<close>, \<open>cli-exchange.ts\<close>, \<open>cli-token.ts\<close>, \<open>require-auth.ts\<close> and
  \<open>verified-principal.ts\<close>. A token of an identity provider is exchanged for one of the service, which then is checked against the scopes it
  carries. \<open>payload\<close> decodes the middle part of a token, \<open>idpOf\<close> is \<open>resolveIdP\<close> (the outer \<open>None\<close> an exception), \<open>safe\<close> the guard
  of addresses, \<open>verify\<close> the check of a provider's token, \<open>local\<close> that of the service's own, \<open>introspect\<close> asks a provider for a
  grant. An error is its status and message. A body is given parsed.
\<close>

type_synonym http_error = "int \<times> string"

section \<open>The issuer of a token\<close>

definition FALLBACK_ISSUER :: string where
  "FALLBACK_ISSUER = ''https://id.openape.ai''"

definition unsafeDecodeSub :: "(string \<Rightarrow> jsval option) \<Rightarrow> string \<Rightarrow> string option" where
  "unsafeDecodeSub payload token = (case split_on (CHR ''.'') token of
     [_, p, _] \<Rightarrow> (case payload p of
         Some (JObj ob) \<Rightarrow> (case member ob ''sub'' of JStr s \<Rightarrow> if CHR ''@'' \<in> set s then Some s else None | _ \<Rightarrow> None)
       | _ \<Rightarrow> None)
   | _ \<Rightarrow> None)"

definition without_slash :: "string \<Rightarrow> string" where
  "without_slash s = (if s \<noteq> [] \<and> last s = CHR ''/'' then butlast s else s)"

datatype issuer_result = IssuerThrew | NoSubject | ResolvedIssuer string string

definition resolveIssuerForToken :: "(string \<Rightarrow> jsval option) \<Rightarrow> (string \<Rightarrow> string option option) \<Rightarrow> string \<Rightarrow> issuer_result" where
  "resolveIssuerForToken payload idpOf token = (case unsafeDecodeSub payload token of None \<Rightarrow> NoSubject
     | Some sub \<Rightarrow> (case core_extractDomain sub of None \<Rightarrow> IssuerThrew
         | Some d \<Rightarrow> ResolvedIssuer sub (without_slash (case idpOf d of Some (Some u) \<Rightarrow> if u = [] then FALLBACK_ISSUER else u | _ \<Rightarrow> FALLBACK_ISSUER))))"

section \<open>Checking a provider's token\<close>

definition FIRST_PARTY_AUD :: string where
  "FIRST_PARTY_AUD = ''apes-cli''"

text \<open>What the service asks of the outside; \<open>we_jwks\<close> is \<open>new URL('/.well-known/jwks.json', idp)\<close>.\<close>

datatype grant_answer = GrantMissing | GrantFailed | GrantBody jsval

record sp_world =
  we_payload :: "string \<Rightarrow> jsval option"
  we_idpOf :: "string \<Rightarrow> string option option"
  we_safe :: "string \<Rightarrow> bool"
  we_jwks :: "string \<Rightarrow> string"
  we_verify :: jwt_check
  we_local :: "int \<Rightarrow> string \<Rightarrow> jsval jsobj option"
  we_introspect :: "string \<Rightarrow> string \<Rightarrow> grant_answer"

definition verifyIdpToken :: "sp_world \<Rightarrow> int \<Rightarrow> string \<Rightarrow> string list \<Rightarrow> http_error + jsval jsobj \<times> string" where
  "verifyIdpToken w now token auds = (case resolveIssuerForToken (we_payload w) (we_idpOf w) token of
     IssuerThrew \<Rightarrow> Inl (500, [])
   | NoSubject \<Rightarrow> Inl (401, ''subject_token has no usable subject claim'')
   | ResolvedIssuer _ idpUrl \<Rightarrow>
       if \<not> we_safe w idpUrl then Inl (502, ''IdP issuer not permitted'')
       else (case we_verify w (JwksUri (we_jwks w idpUrl)) idpUrl auds now token of
           Inl _ \<Rightarrow> Inl (401, ''Invalid subject_token'')
         | Inr claims \<Rightarrow> Inr (claims, idpUrl)))"

section \<open>The service's own tokens\<close>

record cli_params =
  cp_email :: string
  cp_act :: actor_type
  cp_scope :: "jsval list option"
  cp_delegate :: "string option"

definition act_name :: "actor_type \<Rightarrow> string" where
  "act_name a = (case a of Human \<Rightarrow> ''human'' | Agent \<Rightarrow> ''agent'')"

definition js_opt :: "string option \<Rightarrow> jsval" where
  "js_opt x = (case x of None \<Rightarrow> JNull | Some s \<Rightarrow> JStr s)"

definition cli_ttl :: "cli_params \<Rightarrow> int" where
  "cli_ttl p = (if nullish (cp_scope p) [] \<noteq> [] \<or> truthy_str (cp_delegate p) then 15 * 60 else 30 * 24 * 3600)"

text \<open>The payload of the token and its expiry; \<open>None\<close> is the missing or short secret.\<close>

definition signCliToken :: "string \<Rightarrow> string \<Rightarrow> int \<Rightarrow> cli_params \<Rightarrow> (jsval jsobj \<times> int) option" where
  "signCliToken secret clientId now p = (if length secret < 32 then None
     else let exp = now div 1000 + cli_ttl p in
       Some ([(''typ'', JStr ''cli''), (''sub'', JStr (cp_email p)), (''email'', JStr (cp_email p)), (''act'', JStr (act_name (cp_act p)))]
         @ (case cp_scope p of None \<Rightarrow> [] | Some sc \<Rightarrow> [(''scope'', JArr sc), (''delegate'', js_opt (cp_delegate p))])
         @ [(''iss'', JStr clientId), (''aud'', JStr clientId), (''iat'', JInt (now div 1000)), (''exp'', JInt exp)], exp))"

record cli_identity =
  cy_email :: string
  cy_act :: actor_type
  cy_scope :: "string list option"
  cy_claims :: "jsval jsobj"

definition all_strings :: "jsval list \<Rightarrow> bool" where
  "all_strings vs = list_all (\<lambda>v. as_string v \<noteq> None) vs"

definition verifyCliToken :: "sp_world \<Rightarrow> int \<Rightarrow> string \<Rightarrow> cli_identity option" where
  "verifyCliToken w now token = (case we_local w now token of None \<Rightarrow> None
     | Some p \<Rightarrow> if member p ''typ'' \<noteq> JStr ''cli'' then None
         else (case (member p ''sub'', member p ''email'') of
             (JStr _, JStr email) \<Rightarrow>
               if member p ''act'' \<noteq> JStr ''human'' \<and> member p ''act'' \<noteq> JStr ''agent'' then None
               else if \<not> (case member p ''scope'' of JUndef \<Rightarrow> True | JArr vs \<Rightarrow> all_strings vs | _ \<Rightarrow> False) then None
               else if \<not> (case member p ''delegate'' of JUndef \<Rightarrow> True | JNull \<Rightarrow> True | JStr _ \<Rightarrow> True | _ \<Rightarrow> False) then None
               else Some \<lparr>cy_email = email, cy_act = (if member p ''act'' = JStr ''human'' then Human else Agent),
                   cy_scope = (case member p ''scope'' of JArr vs \<Rightarrow> Some (List.map_filter as_string vs) | _ \<Rightarrow> None), cy_claims = p\<rparr>
           | _ \<Rightarrow> None))"

section \<open>The exchange\<close>

definition parseTokenScopes :: "jsval jsobj \<Rightarrow> string list option" where
  "parseTokenScopes claims = (let s = member claims ''scope''; raw = (if s = JUndef \<or> s = JNull then member claims ''scopes'' else s) in
     case raw of JUndef \<Rightarrow> None | JNull \<Rightarrow> None | JArr vs \<Rightarrow> Some (List.map_filter as_string vs) | JStr t \<Rightarrow> Some (scope_words (Some t)) | _ \<Rightarrow> Some [])"

definition sub_of :: "jsval \<Rightarrow> string option" where
  "sub_of v = (case v of JObj ob \<Rightarrow> as_string (member ob ''sub'') | _ \<Rightarrow> None)"

definition extractDelegate :: "jsval jsobj \<Rightarrow> string option" where
  "extractDelegate claims = (case member claims ''delegate'' of JStr d \<Rightarrow> Some d
     | d \<Rightarrow> (case sub_of d of Some s \<Rightarrow> Some s | None \<Rightarrow> sub_of (member claims ''act'')))"

definition is_object :: "jsval \<Rightarrow> bool" where
  "is_object v = (case v of JObj _ \<Rightarrow> True | JArr _ \<Rightarrow> True | _ \<Rightarrow> False)"

definition first_party_aud :: "jsval \<Rightarrow> bool" where
  "first_party_aud v = (v = JStr FIRST_PARTY_AUD \<or> (case v of JArr vs \<Rightarrow> JStr FIRST_PARTY_AUD \<in> set vs | _ \<Rightarrow> False))"

definition delegated_claims :: "jsval jsobj \<Rightarrow> bool" where
  "delegated_claims c = (is_object (member c ''act'') \<or> \<not> first_party_aud (member c ''aud'') \<or> as_string (member c ''delegation_grant'') \<noteq> None
     \<or> as_string (member c ''grant_id'') \<noteq> None)"

definition grant_active :: "sp_world \<Rightarrow> string \<Rightarrow> jsval jsobj \<Rightarrow> http_error option" where
  "grant_active w idpUrl c = (case member c ''delegation_grant'' of
     JStr i \<Rightarrow> (if i = [] then None else case we_introspect w idpUrl i of
         GrantFailed \<Rightarrow> Some (502, ''could not verify delegation grant status'')
       | GrantMissing \<Rightarrow> Some (401, ''delegation grant not active'')
       | GrantBody v \<Rightarrow> if (case v of JObj ob \<Rightarrow> member ob ''status'' | _ \<Rightarrow> JUndef) = JStr ''approved'' then None else Some (401, ''delegation grant not active''))
   | _ \<Rightarrow> None)"

record exchange_answer =
  xa_token :: "jsval jsobj"
  xa_expires_at :: int
  xa_aud :: string
  xa_scope :: "jsval list option"
  xa_delegate :: "string option"

record exchange_config =
  xc_clientId :: string
  xc_secret :: string
  xc_catalog :: "string list option"

definition minted :: "exchange_config \<Rightarrow> int \<Rightarrow> cli_params \<Rightarrow> http_error + exchange_answer" where
  "minted cfg now p = (case signCliToken (xc_secret cfg) (xc_clientId cfg) now p of
     None \<Rightarrow> Inl (500, ''CLI token secret not configured (openapeSp.sessionSecret < 32 chars)'')
   | Some (t, e) \<Rightarrow> Inr \<lparr>xa_token = t, xa_expires_at = e, xa_aud = xc_clientId cfg, xa_scope = cp_scope p, xa_delegate = cp_delegate p\<rparr>)"

definition requested_scopes :: "jsval jsobj \<Rightarrow> jsval jsobj \<Rightarrow> jsval list" where
  "requested_scopes body claims = (case as_array (member body ''scopes'') of Some vs \<Rightarrow> vs | None \<Rightarrow> map JStr (nullish (parseTokenScopes claims) []))"

definition isScopedExchange :: "jsval jsobj \<Rightarrow> jsval jsobj \<Rightarrow> bool" where
  "isScopedExchange body claims = (delegated_claims claims \<or> parseTokenScopes claims \<noteq> None \<or> as_array (member body ''scopes'') \<noteq> None)"

definition exchange_params_of :: "jsval jsobj \<Rightarrow> jsval jsobj \<Rightarrow> string \<Rightarrow> cli_params" where
  "exchange_params_of body claims sub = (let act = normalizeActClaim (member claims ''act'') in
     if \<not> isScopedExchange body claims then \<lparr>cp_email = sub, cp_act = act, cp_scope = None, cp_delegate = None\<rparr>
     else \<lparr>cp_email = sub, cp_act = act, cp_scope = Some (requested_scopes body claims), cp_delegate = extractDelegate claims\<rparr>)"

definition cliExchange :: "sp_world \<Rightarrow> exchange_config \<Rightarrow> int \<Rightarrow> jsval jsobj \<Rightarrow> http_error + exchange_answer" where
  "cliExchange w cfg now body = (case member body ''subject_token'' of
     JStr token \<Rightarrow> (if token = [] then Inl (400, ''subject_token required'')
       else case verifyIdpToken w now token (filter (\<lambda>a. a \<noteq> []) [FIRST_PARTY_AUD, xc_clientId cfg]) of
         Inl e \<Rightarrow> Inl e
       | Inr (claims, idpUrl) \<Rightarrow> (case member claims ''sub'' of
           JStr sub \<Rightarrow> (if CHR ''@'' \<notin> set sub then Inl (401, ''subject_token has no usable subject claim'')
             else case grant_active w idpUrl claims of Some e \<Rightarrow> Inl e
             | None \<Rightarrow>
                 if delegated_claims claims \<and> parseTokenScopes claims = None then Inl (401, ''delegated token carries no scope claim'')
                 else if (case xc_catalog cfg of None \<Rightarrow> False | Some ids \<Rightarrow> \<not> set (requested_scopes body claims) \<subseteq> JStr ` set ids) then Inl (400, ''invalid_scope'')
                 else if (case parseTokenScopes claims of None \<Rightarrow> False | Some ts \<Rightarrow> \<not> set (requested_scopes body claims) \<subseteq> JStr ` set ts) then Inl (400, ''invalid_scope'')
                 else minted cfg now (exchange_params_of body claims sub))
         | _ \<Rightarrow> Inl (401, ''subject_token has no usable subject claim'')))
   | _ \<Rightarrow> Inl (400, ''subject_token required''))"

section \<open>Who calls\<close>

record caller =
  cl_email :: jsval
  cl_act :: actor_type
  cl_scope :: "string list option"

record catalog_entry =
  ca_id :: string
  ca_grants :: "string list option"

record sp_request =
  sq_method :: string
  sq_path :: string
  sq_authorization :: "string option"

record route_config =
  rc_sessionSecret :: string
  rc_catalog :: "catalog_entry list"
  rc_catalogOnly :: "string list option"

definition segments :: "string \<Rightarrow> string list" where
  "segments p = filter (\<lambda>s. s \<noteq> []) (split_on (CHR ''/'') p)"

definition segment_matches :: "string \<Rightarrow> string \<Rightarrow> bool" where
  "segment_matches g s = (starts_with g '':'' \<or> (starts_with g ''['' \<and> last g = CHR '']'') \<or> g = s)"

definition grantCoversRequest :: "string \<Rightarrow> string \<Rightarrow> string \<Rightarrow> bool" where
  "grantCoversRequest grant method path = (case split_space (js_trim grant) of
     m # p # _ \<Rightarrow> (if m = [] \<or> p = [] then False
       else to_upper m = method \<and> list_all2 segment_matches (segments p) (segments path))
   | _ \<Rightarrow> False)"

definition request_path :: "sp_request \<Rightarrow> string" where
  "request_path r = takeWhile (\<lambda>c. c \<noteq> CHR ''?'') (sq_path r)"

definition entry_covers :: "sp_request \<Rightarrow> catalog_entry \<Rightarrow> bool" where
  "entry_covers r e = list_ex (\<lambda>g. grantCoversRequest g (to_upper (sq_method r)) (request_path r)) (nullish (ca_grants e) [])"

definition needed_scope :: "string list \<Rightarrow> string \<Rightarrow> string" where
  "needed_scope conventional method = (case conventional of [] \<Rightarrow> ''undefined'' | s # _ \<Rightarrow> takeWhile (\<lambda>c. c \<noteq> CHR '':'') s)
     @ (if method = ''GET'' \<or> method = ''HEAD'' then '':read'' else '':write'')"

definition assertScopeCoversRequest :: "route_config \<Rightarrow> sp_request \<Rightarrow> string list \<Rightarrow> http_error option" where
  "assertScopeCoversRequest cfg r scope = (if scope = [] then Some (403, ''Delegated token carries no scope'')
     else if list_ex (\<lambda>e. ca_id e \<in> set scope \<and> entry_covers r e) (rc_catalog cfg) then None
     else let conventional = filter (\<lambda>i. i \<notin> set (nullish (rc_catalogOnly cfg) [])) scope in
       if needed_scope conventional (to_upper (sq_method r)) \<in> set conventional then None else Some (403, ''Forbidden''))"

definition assertCatalogScopeCoversRequest :: "route_config \<Rightarrow> sp_request \<Rightarrow> string list \<Rightarrow> string list \<Rightarrow> http_error option" where
  "assertCatalogScopeCoversRequest cfg r scope required =
     (if list_ex (\<lambda>e. ca_id e \<in> set required \<and> ca_id e \<in> set scope \<and> entry_covers r e) (rc_catalog cfg) then None
      else Some (403, ''Scope does not permit this operation''))"

definition enforceScope :: "route_config \<Rightarrow> sp_request \<Rightarrow> caller \<Rightarrow> http_error + caller" where
  "enforceScope cfg r c = (case cl_scope c of None \<Rightarrow> Inr c
     | Some sc \<Rightarrow> (case assertScopeCoversRequest cfg r sc of Some e \<Rightarrow> Inl e | None \<Rightarrow> Inr c))"

definition sp_verifyAgentToken :: "sp_world \<Rightarrow> int \<Rightarrow> string \<Rightarrow> caller option" where
  "sp_verifyAgentToken w now token = (case verifyIdpToken w now token [FIRST_PARTY_AUD] of Inl _ \<Rightarrow> None
     | Inr (c, _) \<Rightarrow> if is_object (member c ''act'') \<or> list_ex (\<lambda>k. k \<in> fst ` set c) [''delegate'', ''delegation_grant'', ''grant_id'', ''scope'', ''scopes''] then None
         else (case member c ''sub'' of
             JStr sub \<Rightarrow> if CHR ''@'' \<in> set sub then Some \<lparr>cl_email = JStr sub, cl_act = normalizeActClaim (member c ''act''), cl_scope = None\<rparr> else None
           | _ \<Rightarrow> None))"

definition bearer_value :: "string option \<Rightarrow> string" where
  "bearer_value h = (case h of None \<Rightarrow> [] | Some s \<Rightarrow> if starts_with s ''Bearer '' then js_trim (drop 7 s) else [])"

text \<open>\<open>session\<close> are the claims of the session cookie, \<open>None\<close> when it cannot be opened.\<close>

definition session_caller :: "route_config \<Rightarrow> jsval jsobj option option \<Rightarrow> caller option" where
  "session_caller cfg session = (if rc_sessionSecret cfg = [] then None else case session of
     Some (Some claims) \<Rightarrow> (let e = member claims ''email''; email = (if e = JUndef \<or> e = JNull then member claims ''sub'' else e) in
       if js_truthy email then Some \<lparr>cl_email = email, cl_act = normalizeActClaim (member claims ''act''), cl_scope = None\<rparr> else None)
   | _ \<Rightarrow> None)"

definition requireCaller :: "sp_world \<Rightarrow> route_config \<Rightarrow> int \<Rightarrow> jsval jsobj option option \<Rightarrow> sp_request \<Rightarrow> http_error + caller" where
  "requireCaller w cfg now session r = (case session_caller cfg session of Some c \<Rightarrow> Inr c
     | None \<Rightarrow> (let token = bearer_value (sq_authorization r) in
         if token = [] then Inl (401, ''Unauthorized'')
         else case verifyCliToken w now token of
           Some i \<Rightarrow> enforceScope cfg r \<lparr>cl_email = JStr (cy_email i), cl_act = cy_act i, cl_scope = cy_scope i\<rparr>
         | None \<Rightarrow> (case sp_verifyAgentToken w now token of Some c \<Rightarrow> Inr c | None \<Rightarrow> Inl (401, ''Unauthorized''))))"

section \<open>The principal of a scoped route\<close>

record principal =
  pr_subject :: string
  pr_actor :: string
  pr_act :: actor_type
  pr_scope :: "string list option"

definition orNullish :: "jsval \<Rightarrow> jsval \<Rightarrow> jsval" where
  "orNullish a b = (if a = JUndef \<or> a = JNull then b else a)"

definition principalFromClaims :: "jsval jsobj \<Rightarrow> http_error + principal" where
  "principalFromClaims c = (let subject = orNullish (member c ''sub'') (member c ''email''); act = member c ''act'';
     actorClaim = (case act of JObj ob \<Rightarrow> member ob ''sub'' | _ \<Rightarrow> JUndef);
     delegate = (case member c ''delegate'' of JObj ob \<Rightarrow> member ob ''sub'' | JArr _ \<Rightarrow> JUndef | d \<Rightarrow> d);
     actor = orNullish (orNullish actorClaim delegate) subject; scope = member c ''scope'';
     refuse = Inl (401, ''Invalid or unbounded principal'') in
     case (subject, actor) of
       (JStr s, JStr a) \<Rightarrow>
         if s = [] \<or> a = [] \<or> (js_truthy actorClaim \<and> js_truthy delegate \<and> actorClaim \<noteq> delegate)
           \<or> \<not> (case scope of JUndef \<Rightarrow> True | JArr vs \<Rightarrow> all_strings vs | _ \<Rightarrow> False) \<or> (a \<noteq> s \<and> as_array scope = None) then refuse
         else Inr \<lparr>pr_subject = s, pr_actor = a, pr_act = (if a \<noteq> s \<or> act \<noteq> JStr ''human'' then Agent else Human),
             pr_scope = map_option (List.map_filter as_string) (as_array scope)\<rparr>
     | _ \<Rightarrow> refuse)"

definition requireScopes :: "route_config \<Rightarrow> sp_request \<Rightarrow> string list \<Rightarrow> http_error + principal \<Rightarrow> http_error + principal" where
  "requireScopes cfg r required p = (case p of Inl e \<Rightarrow> Inl e
     | Inr q \<Rightarrow> (case pr_scope q of None \<Rightarrow> Inr q
         | Some sc \<Rightarrow> (case assertCatalogScopeCoversRequest cfg r sc required of Some e \<Rightarrow> Inl e | None \<Rightarrow> Inr q)))"

definition requireScopedPrincipal :: "sp_world \<Rightarrow> route_config \<Rightarrow> int \<Rightarrow> jsval jsobj option option \<Rightarrow> sp_request \<Rightarrow> string list \<Rightarrow> http_error + principal" where
  "requireScopedPrincipal w cfg now session r required = (if truthy_str (sq_authorization r)
     then (case (let t = bearer_value (sq_authorization r) in if t = [] then None else verifyCliToken w now t) of
         None \<Rightarrow> Inl (401, ''Valid exchanged bearer token required'')
       | Some i \<Rightarrow> requireScopes cfg r required (principalFromClaims (cy_claims i)))
     else if rc_sessionSecret cfg = [] then Inl (401, ''Authentication required'')
     else (case session of None \<Rightarrow> Inl (401, ''Valid session required'')
       | Some None \<Rightarrow> Inl (401, ''Authentication required'')
       | Some (Some c) \<Rightarrow> requireScopes cfg r required (principalFromClaims c)))"

section \<open>What an exchange hands out\<close>

lemma idp_token:
  assumes "verifyIdpToken w now token auds = Inr (claims, idpUrl)"
  obtains sub where "resolveIssuerForToken (we_payload w) (we_idpOf w) token = ResolvedIssuer sub idpUrl" "we_safe w idpUrl"
    "we_verify w (JwksUri (we_jwks w idpUrl)) idpUrl auds now token = Inr claims"
  using assms by (cases "resolveIssuerForToken (we_payload w) (we_idpOf w) token") (auto simp: verifyIdpToken_def split: if_splits sum.splits)

text \<open>The issuer is the one the subject's domain names, the default one where it names none.\<close>

definition authoritative :: "sp_world \<Rightarrow> string \<Rightarrow> string \<Rightarrow> bool" where
  "authoritative w sub issuer = (\<exists>d. core_extractDomain sub = Some d \<and>
     issuer = without_slash (case we_idpOf w d of Some (Some u) \<Rightarrow> if u = [] then FALLBACK_ISSUER else u | _ \<Rightarrow> FALLBACK_ISSUER))"

lemma resolved_issuer:
  assumes "resolveIssuerForToken payload idpOf token = ResolvedIssuer sub issuer"
  shows "unsafeDecodeSub payload token = Some sub \<and> (\<exists>d. core_extractDomain sub = Some d \<and>
     issuer = without_slash (case idpOf d of Some (Some u) \<Rightarrow> if u = [] then FALLBACK_ISSUER else u | _ \<Rightarrow> FALLBACK_ISSUER))"
  using assms by (auto simp: resolveIssuerForToken_def split: option.splits)

text \<open>The check of a token returns the claims that decoding it gives, as \<open>jose\<close> does.\<close>

definition decodes_alike :: "sp_world \<Rightarrow> bool" where
  "decodes_alike w = (\<forall>k iss auds now t c s. we_verify w k iss auds now t = Inr c \<and> unsafeDecodeSub (we_payload w) t = Some s \<longrightarrow> member c ''sub'' = JStr s)"

lemma exchange_stages:
  assumes "cliExchange w cfg now body = Inr x"
  obtains token claims idpUrl sub where "member body ''subject_token'' = JStr token"
    "verifyIdpToken w now token (filter (\<lambda>a. a \<noteq> []) [FIRST_PARTY_AUD, xc_clientId cfg]) = Inr (claims, idpUrl)"
    "member claims ''sub'' = JStr sub" "grant_active w idpUrl claims = None"
    "delegated_claims claims \<longrightarrow> parseTokenScopes claims \<noteq> None"
    "\<forall>ids. xc_catalog cfg = Some ids \<longrightarrow> set (requested_scopes body claims) \<subseteq> JStr ` set ids"
    "\<forall>ts. parseTokenScopes claims = Some ts \<longrightarrow> set (requested_scopes body claims) \<subseteq> JStr ` set ts"
    "minted cfg now (exchange_params_of body claims sub) = Inr x"
proof -
  obtain token where t: "member body ''subject_token'' = JStr token" using assms by (cases "member body ''subject_token''") (auto simp: cliExchange_def)
  let ?v = "verifyIdpToken w now token (filter (\<lambda>a. a \<noteq> []) [FIRST_PARTY_AUD, xc_clientId cfg])"
  have ne: "token \<noteq> []" using assms t by (auto simp: cliExchange_def)
  obtain claims idpUrl where v: "?v = Inr (claims, idpUrl)" using assms t ne by (cases ?v) (auto simp: cliExchange_def simp del: filter.simps)
  note eq = assms [unfolded cliExchange_def t jsval.case if_not_P [OF ne] v sum.case prod.case]
  obtain sub where s: "member claims ''sub'' = JStr sub" using eq by (cases "member claims ''sub''") auto
  have at: "CHR ''@'' \<in> set sub" using eq s by (auto split: if_splits)
  have g: "grant_active w idpUrl claims = None" using eq s at by (cases "grant_active w idpUrl claims") auto
  have not_not: "\<not> CHR ''@'' \<notin> set sub" using at by simp
  note eq2 = eq [unfolded s jsval.case if_not_P [OF not_not] g option.case]
  have d: "delegated_claims claims \<longrightarrow> parseTokenScopes claims \<noteq> None" using eq2 by (auto split: if_splits)
  then have nd: "\<not> (delegated_claims claims \<and> parseTokenScopes claims = None)" by blast
  note eq3 = eq2 [unfolded if_not_P [OF nd]]
  have c1: "set (requested_scopes body claims) \<subseteq> JStr ` set ids" if "xc_catalog cfg = Some ids" for ids using eq3 that by (auto split: if_splits)
  have c2: "set (requested_scopes body claims) \<subseteq> JStr ` set ts" if "parseTokenScopes claims = Some ts" for ts using eq3 that by (auto split: if_splits)
  have m: "minted cfg now (exchange_params_of body claims sub) = Inr x" using eq3 by (simp split: if_splits)
  show ?thesis by (rule that [OF t v s g d _ _ m]) (use c1 c2 in blast)+
qed

lemma minted_token:
  assumes "minted cfg now p = Inr x"
  shows "xa_expires_at x = now div 1000 + cli_ttl p \<and> xa_scope x = cp_scope p \<and> xa_delegate x = cp_delegate p \<and>
    member (xa_token x) ''typ'' = JStr ''cli'' \<and> member (xa_token x) ''sub'' = JStr (cp_email p) \<and> member (xa_token x) ''email'' = JStr (cp_email p) \<and>
    member (xa_token x) ''act'' = JStr (act_name (cp_act p)) \<and> member (xa_token x) ''scope'' = (case cp_scope p of None \<Rightarrow> JUndef | Some sc \<Rightarrow> JArr sc) \<and>
    member (xa_token x) ''delegate'' = (case cp_scope p of None \<Rightarrow> JUndef | Some _ \<Rightarrow> js_opt (cp_delegate p))"
proof -
  obtain t e where "signCliToken (xc_secret cfg) (xc_clientId cfg) now p = Some (t, e)"
    using assms by (cases "signCliToken (xc_secret cfg) (xc_clientId cfg) now p") (auto simp: minted_def)
  with assms show ?thesis
    by (cases "cp_scope p") (simp_all add: minted_def signCliToken_def member_def Let_def split: if_splits, auto)
qed

text \<open>An exchange never widens a delegation. A token handed out for a delegated one of an identity provider carries only scopes of that token and,
  where the service publishes a catalog, of the catalog; it ends after fifteen minutes if it permits anything. The provider that verified the token
  is the one the subject's own domain names, at a public address, and where the token names a grant the provider just called it
  approved. This assumes that checking a token returns the claims that it decodes to.\<close>

theorem exchange_bounded:
  assumes "cliExchange w cfg now body = Inr x" "decodes_alike w"
  shows "\<exists>token claims issuer sub. member body ''subject_token'' = JStr token \<and> we_verify w (JwksUri (we_jwks w issuer)) issuer
      (filter (\<lambda>a. a \<noteq> []) [FIRST_PARTY_AUD, xc_clientId cfg]) now token = Inr claims \<and>
    member claims ''sub'' = JStr sub \<and> authoritative w sub issuer \<and> we_safe w issuer \<and> member (xa_token x) ''sub'' = JStr sub \<and>
    (\<forall>i. member claims ''delegation_grant'' = JStr i \<and> i \<noteq> [] \<longrightarrow> (\<exists>ob. we_introspect w issuer i = GrantBody (JObj ob) \<and> member ob ''status'' = JStr ''approved'')) \<and>
    (delegated_claims claims \<longrightarrow> (\<exists>ts sc. parseTokenScopes claims = Some ts \<and> member (xa_token x) ''scope'' = JArr sc \<and> set sc \<subseteq> JStr ` set ts \<and>
       (\<forall>ids. xc_catalog cfg = Some ids \<longrightarrow> set sc \<subseteq> JStr ` set ids) \<and> (sc \<noteq> [] \<longrightarrow> xa_expires_at x = now div 1000 + 900)))"
proof -
  obtain token claims issuer sub where t: "member body ''subject_token'' = JStr token"
    and v: "verifyIdpToken w now token (filter (\<lambda>a. a \<noteq> []) [FIRST_PARTY_AUD, xc_clientId cfg]) = Inr (claims, issuer)"
    and s: "member claims ''sub'' = JStr sub" and g: "grant_active w issuer claims = None" and d: "delegated_claims claims \<longrightarrow> parseTokenScopes claims \<noteq> None"
    and c: "\<forall>ids. xc_catalog cfg = Some ids \<longrightarrow> set (requested_scopes body claims) \<subseteq> JStr ` set ids"
      "\<forall>ts. parseTokenScopes claims = Some ts \<longrightarrow> set (requested_scopes body claims) \<subseteq> JStr ` set ts"
    and m: "minted cfg now (exchange_params_of body claims sub) = Inr x"
    by (rule exchange_stages [OF assms(1)])
  obtain peeked where p: "resolveIssuerForToken (we_payload w) (we_idpOf w) token = ResolvedIssuer peeked issuer" "we_safe w issuer"
    "we_verify w (JwksUri (we_jwks w issuer)) issuer (filter (\<lambda>a. a \<noteq> []) [FIRST_PARTY_AUD, xc_clientId cfg]) now token = Inr claims" by (rule idp_token [OF v])
  have "unsafeDecodeSub (we_payload w) token = Some peeked \<and> authoritative w peeked issuer" using resolved_issuer [OF p(1)] by (auto simp: authoritative_def)
  moreover have "peeked = sub" using assms(2) p(3) s calculation unfolding decodes_alike_def by fastforce
  ultimately have auth: "authoritative w sub issuer" by simp
  have grant: "\<exists>ob. we_introspect w issuer i = GrantBody (JObj ob) \<and> member ob ''status'' = JStr ''approved''" if "member claims ''delegation_grant'' = JStr i" "i \<noteq> []" for i
    using g that by (auto simp: grant_active_def split: grant_answer.splits if_splits jsval.splits)
  have sub: "member (xa_token x) ''sub'' = JStr sub" using minted_token [OF m] by (simp add: exchange_params_of_def Let_def)
  have "\<exists>ts sc. parseTokenScopes claims = Some ts \<and> member (xa_token x) ''scope'' = JArr sc \<and> set sc \<subseteq> JStr ` set ts \<and>
       (\<forall>ids. xc_catalog cfg = Some ids \<longrightarrow> set sc \<subseteq> JStr ` set ids) \<and> (sc \<noteq> [] \<longrightarrow> xa_expires_at x = now div 1000 + 900)" if "delegated_claims claims"
  proof -
    from d that obtain ts where ts: "parseTokenScopes claims = Some ts" by auto
    have "member (xa_token x) ''scope'' = JArr (requested_scopes body claims)" "requested_scopes body claims \<noteq> [] \<longrightarrow> xa_expires_at x = now div 1000 + 900"
      using minted_token [OF m] that by (simp_all add: exchange_params_of_def isScopedExchange_def cli_ttl_def Let_def)
    then show ?thesis using ts c by blast
  qed
  then show ?thesis using t p(2,3) auth s sub grant by blast
qed

text \<open>Only a first-party token is exchanged for an unrestricted one. A token without a scope, which no route restricts, is handed out only for a token
  whose audience is that of the first-party tools, which carries no scope, no actor object and no grant, and when no scopes were asked for.\<close>

theorem unrestricted_only_first_party:
  assumes "cliExchange w cfg now body = Inr x" "member (xa_token x) ''scope'' = JUndef"
  shows "\<exists>token claims issuer. member body ''subject_token'' = JStr token \<and> verifyIdpToken w now token (filter (\<lambda>a. a \<noteq> []) [FIRST_PARTY_AUD, xc_clientId cfg]) = Inr (claims, issuer) \<and>
    first_party_aud (member claims ''aud'') \<and> \<not> is_object (member claims ''act'') \<and> as_string (member claims ''delegation_grant'') = None \<and>
    as_string (member claims ''grant_id'') = None \<and> parseTokenScopes claims = None \<and> as_array (member body ''scopes'') = None"
proof (rule exchange_stages [OF assms(1)])
  fix token claims issuer sub
  assume t: "member body ''subject_token'' = JStr token" and v: "verifyIdpToken w now token (filter (\<lambda>a. a \<noteq> []) [FIRST_PARTY_AUD, xc_clientId cfg]) = Inr (claims, issuer)"
    and m: "minted cfg now (exchange_params_of body claims sub) = Inr x"
  have "\<not> isScopedExchange body claims" using minted_token [OF m] assms(2) by (auto simp: exchange_params_of_def Let_def)
  then show ?thesis using t v by (auto simp: delegated_claims_def isScopedExchange_def)
qed
section \<open>What a token permits\<close>

lemma strings_back: "all_strings vs \<Longrightarrow> map JStr (List.map_filter as_string vs) = vs"
proof (induction vs)
  case (Cons v vs)
  then show ?case by (cases v) (simp_all add: all_strings_def List.map_filter_simps)
qed (simp add: List.map_filter_simps)

text \<open>What \<open>assertScopeCoversRequest\<close> asks: a catalog entry of a held scope that grants the route, or the conventional read or write scope.\<close>

definition permits :: "route_config \<Rightarrow> sp_request \<Rightarrow> string list \<Rightarrow> bool" where
  "permits cfg r scope = (scope \<noteq> [] \<and> ((\<exists>e\<in>set (rc_catalog cfg). ca_id e \<in> set scope \<and> entry_covers r e) \<or>
     (\<exists>p. p @ (if to_upper (sq_method r) = ''GET'' \<or> to_upper (sq_method r) = ''HEAD'' then '':read'' else '':write'') \<in> set scope)))"

lemma covered_permits: "assertScopeCoversRequest cfg r scope = None \<Longrightarrow> permits cfg r scope"
  by (auto simp: assertScopeCoversRequest_def permits_def list_ex_iff Let_def needed_scope_def split: if_splits)

text \<open>A token of the service permits no more than its exchange gave. When a request is accepted with a token that an exchange handed out, the caller is
  the subject of the exchange; and if the token carries a scope, the caller carries the same one, it is not empty and one of it permits the route.\<close>

theorem exchanged_token_enforced:
  assumes "cliExchange w cfg now body = Inr x" "we_local w now2 t = Some (xa_token x)" "sp_verifyAgentToken w now2 t = None"
    and "bearer_value (sq_authorization r) = t" "t \<noteq> []" "session_caller rc session = None"
    and "requireCaller w rc now2 session r = Inr c"
  shows "cl_email c = member (xa_token x) ''sub'' \<and>
    (case member (xa_token x) ''scope'' of JUndef \<Rightarrow> cl_scope c = None
     | JArr vs \<Rightarrow> (\<exists>sc. vs = map JStr sc \<and> cl_scope c = Some sc \<and> permits rc r sc) | _ \<Rightarrow> False)"
proof -
  obtain i where i: "verifyCliToken w now2 t = Some i" and e: "enforceScope rc r \<lparr>cl_email = JStr (cy_email i), cl_act = cy_act i, cl_scope = cy_scope i\<rparr> = Inr c"
    using assms(3-7) by (auto simp: requireCaller_def Let_def split: option.splits)
  have c: "c = \<lparr>cl_email = JStr (cy_email i), cl_act = cy_act i, cl_scope = cy_scope i\<rparr>" "\<And>sc. cy_scope i = Some sc \<Longrightarrow> permits rc r sc"
    using e covered_permits by (auto simp: enforceScope_def split: option.splits)
  obtain p where m: "minted cfg now p = Inr x" by (rule exchange_stages [OF assms(1)]) blast
  note tok = minted_token [OF m]
  have "member (xa_token x) ''email'' = member (xa_token x) ''sub''" using tok by simp
  then have email: "JStr (cy_email i) = member (xa_token x) ''sub''"
    using i assms(2) by (auto simp: verifyCliToken_def split: if_splits jsval.splits)
  show ?thesis
  proof (cases "cp_scope p")
    case None
    then have "member (xa_token x) ''scope'' = JUndef" using tok by simp
    moreover have "cy_scope i = None" using i assms(2) calculation by (auto simp: verifyCliToken_def split: if_splits jsval.splits)
    ultimately show ?thesis using c(1) email by simp
  next
    case (Some sc)
    then have s: "member (xa_token x) ''scope'' = JArr sc" using tok by simp
    then have "all_strings sc \<and> cy_scope i = Some (List.map_filter as_string sc)"
      using i assms(2) by (auto simp: verifyCliToken_def split: if_splits jsval.splits)
    then show ?thesis using c email s strings_back [of sc] by auto
  qed
qed

lemma principal_read:
  assumes "principalFromClaims c = Inr p"
  shows "pr_subject p \<noteq> [] \<and> pr_actor p \<noteq> [] \<and> (pr_actor p \<noteq> pr_subject p \<longrightarrow> pr_scope p \<noteq> None \<and> pr_act p = Agent)"
proof -
  note eq = assms [unfolded principalFromClaims_def Let_def]
  let ?subject = "orNullish (member c ''sub'') (member c ''email'')"
  let ?actor = "orNullish (orNullish (case member c ''act'' of JObj ob \<Rightarrow> member ob ''sub'' | _ \<Rightarrow> JUndef)
      (case member c ''delegate'' of JObj ob \<Rightarrow> member ob ''sub'' | JArr _ \<Rightarrow> JUndef | d \<Rightarrow> d))"
  obtain s where s: "?subject = JStr s" using eq by (cases ?subject) simp_all
  note eq2 = eq [unfolded s]
  obtain a where a: "?actor (JStr s) = JStr a" using eq2 by (cases "?actor (JStr s)") simp_all
  show ?thesis using eq2 unfolding a by (simp split: if_splits) auto
qed

text \<open>Whoever acts for another is bounded. A scoped route accepts a caller that acts for a different subject only with a list of scopes; and whenever the
  caller carries scopes, one of them is required by the route, and the catalog says that it grants the method and the path.\<close>

theorem principal_bounded:
  assumes "requireScopedPrincipal w cfg now session r required = Inr p"
  shows "pr_subject p \<noteq> [] \<and> pr_actor p \<noteq> [] \<and> (pr_actor p \<noteq> pr_subject p \<longrightarrow> pr_scope p \<noteq> None \<and> pr_act p = Agent) \<and>
    (\<forall>sc. pr_scope p = Some sc \<longrightarrow> (\<exists>e\<in>set (rc_catalog cfg). ca_id e \<in> set required \<and> ca_id e \<in> set sc \<and> entry_covers r e))"
proof -
  obtain claims where s: "requireScopes cfg r required (principalFromClaims claims) = Inr p"
    using assms by (auto simp: requireScopedPrincipal_def Let_def split: if_splits option.splits)
  then have pr: "principalFromClaims claims = Inr p" by (auto simp: requireScopes_def split: sum.splits option.splits)
  have cov: "\<exists>e\<in>set (rc_catalog cfg). ca_id e \<in> set required \<and> ca_id e \<in> set sc \<and> entry_covers r e" if "pr_scope p = Some sc" for sc
    using s that unfolding requireScopes_def pr by (auto simp: assertCatalogScopeCoversRequest_def list_ex_iff split: if_splits)
  have "pr_subject p \<noteq> [] \<and> pr_actor p \<noteq> [] \<and> (pr_actor p \<noteq> pr_subject p \<longrightarrow> pr_scope p \<noteq> None \<and> pr_act p = Agent)"
    using principal_read [OF pr] .
  then show ?thesis using cov by blast
qed

text \<open>A session of a delegate is not bounded. When the session's claims say that a delegate acts for the subject, a route that only asks who calls accepts the
  session for every method and path, as the subject and without scopes, even with an empty list of scopes; the scoped routes refuse the same session.\<close>

theorem delegated_session_unbounded:
  assumes "rc_sessionSecret cfg \<noteq> []" "member claims ''email'' = JUndef" "member claims ''sub'' = JStr s" "s \<noteq> []"
    and "member claims ''act'' = JObj [(''sub'', JStr d)]" "d \<noteq> []" "d \<noteq> s" "member claims ''delegate'' = JUndef" "member claims ''scope'' = JArr []"
  shows "requireCaller w cfg now (Some (Some claims)) r = Inr \<lparr>cl_email = JStr s, cl_act = Agent, cl_scope = None\<rparr> \<and>
    (\<not> truthy_str (sq_authorization r) \<longrightarrow> requireScopedPrincipal w cfg now (Some (Some claims)) r required = Inl (403, ''Scope does not permit this operation''))"
proof -
  have "principalFromClaims claims = Inr \<lparr>pr_subject = s, pr_actor = d, pr_act = Agent, pr_scope = Some []\<rparr>"
    using assms by (simp add: principalFromClaims_def orNullish_def Let_def member_def [of "[_]"] all_strings_def List.map_filter_simps js_truthy_def)
  then show ?thesis using assms
    by (simp add: requireCaller_def session_caller_def requireScopedPrincipal_def requireScopes_def assertCatalogScopeCoversRequest_def js_truthy_def normalizeActClaim_def
        list_ex_iff Let_def)
qed

definition ex_claims_of :: "jsval jsobj \<Rightarrow> sp_world" where
  "ex_claims_of c = \<lparr>we_payload = \<lambda>p. Some (JObj [(''sub'', JStr ''ann@x.io'')]), we_idpOf = \<lambda>d. Some (Some (''https://id.'' @ d @ ''/'')), we_safe = \<lambda>_. True,
     we_jwks = \<lambda>i. i, we_verify = \<lambda>k iss auds now t. if iss = ''https://id.x.io'' \<and> t = ''a.b.c'' then Inr c else Inl ''bad'',
     we_local = \<lambda>now t. if t = ''cli'' then Some [(''typ'', JStr ''cli''), (''sub'', JStr ''ann@x.io''), (''email'', JStr ''ann@x.io''), (''act'', JStr ''agent''),
       (''scope'', JArr [JStr ''tasks:read'']), (''delegate'', JStr ''bot@x.io''), (''iss'', JStr ''sp.io''), (''aud'', JStr ''sp.io''), (''iat'', JInt 0), (''exp'', JInt 900)] else None,
     we_introspect = \<lambda>_ _. GrantBody (JObj [(''status'', JStr ''approved'')])\<rparr>"

definition ex_delegated :: "jsval jsobj" where
  "ex_delegated = [(''sub'', JStr ''ann@x.io''), (''aud'', JStr ''sp.io''), (''act'', JObj [(''sub'', JStr ''bot@x.io'')]), (''delegation_grant'', JStr ''g1''),
     (''scope'', JArr [JStr ''tasks:read'', JStr ''tasks:write''])]"

definition ex_exchange_config :: exchange_config where
  "ex_exchange_config = \<lparr>xc_clientId = ''sp.io'', xc_secret = replicate 32 (CHR ''k''), xc_catalog = None\<rparr>"

definition ex_body :: "jsval jsobj" where
  "ex_body = [(''subject_token'', JStr ''a.b.c''), (''scopes'', JArr [JStr ''tasks:read''])]"

lemma ex_verified: "verifyIdpToken (ex_claims_of c) now ''a.b.c'' auds = Inr (c, ''https://id.x.io'')"
proof -
  have "core_extractDomain ''ann@x.io'' = Some ''x.io''" by code_simp
  then show ?thesis
    by (simp add: verifyIdpToken_def resolveIssuerForToken_def unsafeDecodeSub_def ex_claims_of_def member_def without_slash_def)
qed

lemma ex_exchanged: "cliExchange (ex_claims_of ex_delegated) ex_exchange_config 0 ex_body =
  Inr \<lparr>xa_token = the (we_local (ex_claims_of ex_delegated) 0 ''cli''), xa_expires_at = 900, xa_aud = ''sp.io'', xa_scope = Some [JStr ''tasks:read''], xa_delegate = Some ''bot@x.io''\<rparr>"
proof -
  have t: "member ex_body ''subject_token'' = JStr ''a.b.c''" by (simp add: ex_body_def member_def)
  show ?thesis
    by (simp add: cliExchange_def t ex_verified)
      (simp add: ex_delegated_def member_def grant_active_def ex_claims_of_def parseTokenScopes_def List.map_filter_simps requested_scopes_def ex_body_def ex_exchange_config_def
        minted_def signCliToken_def exchange_params_of_def isScopedExchange_def delegated_claims_def is_object_def extractDelegate_def sub_of_def normalizeActClaim_def act_name_def
        cli_ttl_def js_opt_def Let_def)
qed

theorem exchange_bounded_witness:
  "\<exists>x sc. cliExchange (ex_claims_of ex_delegated) ex_exchange_config 0 ex_body = Inr x \<and> member (xa_token x) ''scope'' = JArr sc \<and>
    set sc \<subseteq> JStr ` {''tasks:read'', ''tasks:write''} \<and> xa_expires_at x = 900"
proof -
  have e: "claims = ex_delegated" if "we_verify (ex_claims_of ex_delegated) k i a 0 t = Inr claims" for k i a t claims
    using that by (auto simp: ex_claims_of_def split: if_splits)
  have d: "delegated_claims ex_delegated" "parseTokenScopes ex_delegated = Some [''tasks:read'', ''tasks:write'']"
    by (simp_all add: delegated_claims_def is_object_def ex_delegated_def member_def parseTokenScopes_def List.map_filter_simps Let_def)
  have "decodes_alike (ex_claims_of ex_delegated)"
    by (auto simp: decodes_alike_def ex_claims_of_def ex_delegated_def member_def unsafeDecodeSub_def split: if_splits list.splits)
  from exchange_bounded [OF ex_exchanged this] e obtain sc where
    "member (xa_token \<lparr>xa_token = the (we_local (ex_claims_of ex_delegated) 0 ''cli''), xa_expires_at = 900, xa_aud = ''sp.io'', xa_scope = Some [JStr ''tasks:read''], xa_delegate = Some ''bot@x.io''\<rparr>) ''scope'' = JArr sc"
    "set sc \<subseteq> JStr ` {''tasks:read'', ''tasks:write''}"
    using d by fastforce
  then show ?thesis using ex_exchanged by (intro exI conjI) auto
qed

definition ex_first_party :: "jsval jsobj" where
  "ex_first_party = [(''sub'', JStr ''ann@x.io''), (''aud'', JStr ''apes-cli''), (''act'', JStr ''human'')]"

theorem unrestricted_only_first_party_witness:
  "\<exists>x. cliExchange (ex_claims_of ex_first_party) ex_exchange_config 0 [(''subject_token'', JStr ''a.b.c'')] = Inr x \<and> member (xa_token x) ''scope'' = JUndef \<and>
    first_party_aud (member ex_first_party ''aud'')"
proof -
  have b: "member [(''subject_token'', JStr ''a.b.c'')] ''subject_token'' = JStr ''a.b.c''" by (simp add: member_def)
  obtain x where x: "cliExchange (ex_claims_of ex_first_party) ex_exchange_config 0 [(''subject_token'', JStr ''a.b.c'')] = Inr x" "member (xa_token x) ''scope'' = JUndef"
    by (simp add: cliExchange_def b ex_verified)
      (simp add: ex_first_party_def member_def grant_active_def parseTokenScopes_def requested_scopes_def ex_exchange_config_def FIRST_PARTY_AUD_def first_party_aud_def
        minted_def signCliToken_def exchange_params_of_def isScopedExchange_def delegated_claims_def is_object_def Let_def)
  from unrestricted_only_first_party [OF x] have "first_party_aud (member ex_first_party ''aud'')" by (auto simp: b ex_verified)
  with x show ?thesis by blast
qed

definition ex_routes :: route_config where
  "ex_routes = \<lparr>rc_sessionSecret = replicate 32 (CHR ''k''), rc_catalog = [\<lparr>ca_id = ''tasks:read'', ca_grants = Some [''GET /api/tasks/:id'']\<rparr>], rc_catalogOnly = None\<rparr>"

definition ex_get :: sp_request where
  "ex_get = \<lparr>sq_method = ''GET'', sq_path = ''/api/tasks/7?x=1'', sq_authorization = Some ''Bearer cli''\<rparr>"

lemma ex_route: "grantCoversRequest ''GET /api/tasks/:id'' ''GET'' ''/api/tasks/7''"
  by code_simp

lemma ex_entry: "entry_covers ex_get \<lparr>ca_id = ''tasks:read'', ca_grants = Some [''GET /api/tasks/:id'']\<rparr>"
proof -
  have "to_upper ''GET'' = ''GET''" by code_simp
  then show ?thesis using ex_route by (simp add: entry_covers_def request_path_def ex_get_def)
qed

lemma ex_cli: "verifyCliToken (ex_claims_of c) 0 ''cli'' = Some \<lparr>cy_email = ''ann@x.io'', cy_act = Agent, cy_scope = Some [''tasks:read''],
    cy_claims = the (we_local (ex_claims_of c) 0 ''cli'')\<rparr>"
  by (simp add: verifyCliToken_def ex_claims_of_def member_def all_strings_def List.map_filter_simps)

lemma ex_bearer_token: "bearer_value (sq_authorization ex_get) = ''cli''"
  by code_simp

theorem exchanged_token_enforced_witness:
  "\<exists>c. requireCaller (ex_claims_of ex_delegated) ex_routes 0 None ex_get = Inr c \<and> cl_email c = JStr ''ann@x.io'' \<and> cl_scope c = Some [''tasks:read'']"
proof -
  have "assertScopeCoversRequest ex_routes ex_get [''tasks:read''] = None"
    using ex_entry by (simp add: assertScopeCoversRequest_def ex_routes_def)
  then obtain c where c: "requireCaller (ex_claims_of ex_delegated) ex_routes 0 None ex_get = Inr c"
    by (simp add: requireCaller_def session_caller_def ex_bearer_token ex_cli enforceScope_def Let_def)
  have l: "we_local (ex_claims_of ex_delegated) 0 ''cli'' = Some (the (we_local (ex_claims_of ex_delegated) 0 ''cli''))" by (simp add: ex_claims_of_def)
  have n: "sp_verifyAgentToken (ex_claims_of ex_delegated) 0 ''cli'' = None"
    by (simp add: sp_verifyAgentToken_def verifyIdpToken_def resolveIssuerForToken_def unsafeDecodeSub_def)
  have s: "session_caller ex_routes None = None" by (simp add: session_caller_def)
  have "cl_email c = member (the (we_local (ex_claims_of ex_delegated) 0 ''cli'')) ''sub'' \<and> (case member (the (we_local (ex_claims_of ex_delegated) 0 ''cli'')) ''scope'' of
      JUndef \<Rightarrow> cl_scope c = None | JArr vs \<Rightarrow> (\<exists>sc. vs = map JStr sc \<and> cl_scope c = Some sc \<and> permits ex_routes ex_get sc) | _ \<Rightarrow> False)"
    using exchanged_token_enforced [OF ex_exchanged _ n ex_bearer_token _ s c] l by simp
  then show ?thesis using c by (auto simp: ex_claims_of_def member_def)
qed

theorem principal_bounded_witness:
  "\<exists>p. requireScopedPrincipal (ex_claims_of ex_delegated) ex_routes 0 None ex_get [''tasks:read''] = Inr p \<and> pr_actor p = ''bot@x.io'' \<and> pr_act p = Agent"
proof -
  have "principalFromClaims (the (we_local (ex_claims_of ex_delegated) 0 ''cli'')) = Inr \<lparr>pr_subject = ''ann@x.io'', pr_actor = ''bot@x.io'', pr_act = Agent, pr_scope = Some [''tasks:read'']\<rparr>"
    by (simp add: principalFromClaims_def ex_claims_of_def member_def orNullish_def all_strings_def List.map_filter_simps js_truthy_def Let_def)
  then have p: "requireScopedPrincipal (ex_claims_of ex_delegated) ex_routes 0 None ex_get [''tasks:read''] =
      Inr \<lparr>pr_subject = ''ann@x.io'', pr_actor = ''bot@x.io'', pr_act = Agent, pr_scope = Some [''tasks:read'']\<rparr>"
    using ex_entry ex_cli ex_bearer_token
    by (simp add: requireScopedPrincipal_def requireScopes_def assertCatalogScopeCoversRequest_def ex_routes_def Let_def) (simp add: ex_get_def)
  from principal_bounded [OF p] show ?thesis using p by auto
qed

theorem delegated_session_unbounded_witness:
  "requireCaller (ex_claims_of []) ex_routes 0 (Some (Some [(''sub'', JStr ''ann@x.io''), (''act'', JObj [(''sub'', JStr ''bot@x.io'')]), (''scope'', JArr [])])) ex_get
    = Inr \<lparr>cl_email = JStr ''ann@x.io'', cl_act = Agent, cl_scope = None\<rparr>"
  using delegated_session_unbounded [of ex_routes "[(''sub'', JStr ''ann@x.io''), (''act'', JObj [(''sub'', JStr ''bot@x.io'')]), (''scope'', JArr [])]" "''ann@x.io''" "''bot@x.io''"]
  by (simp add: member_def ex_routes_def)

end
