(* ===== verification/GrantAuthority.thy ===== *)
theory GrantAuthority
  imports IdpEndpoints ProgramAuthorize
begin

text \<open>
  Who may do what with a grant at the identity provider: the server utilities \<open>admin.ts\<close> (management token, session, administrators),
  \<open>broker-owner.ts\<close>, \<open>grant-authority.ts\<close> (the policy per action) and \<open>owner-shape-current.ts\<close> (shapes that changed since the request).
  An event is its headers and its session; a session that cannot be read is \<open>None\<close>. A problem is its status and its title. The broker
  store is a record of operations on the state of the grant store, with which it shares its database.
\<close>

type_synonym problem = "int \<times> error_text"

abbreviation problem :: "int \<Rightarrow> string \<Rightarrow> problem" where
  "problem status title \<equiv> (status, Plain title)"

section \<open>Authentication\<close>

record auth_env =
  ae_managementToken :: string
  ae_adminEmails :: string
  ae_contextAdmins :: "string list option"
  ae_adminResolver :: "(string \<Rightarrow> bool) option"
  ae_rootResolver :: "(string \<Rightarrow> bool) option"
  ae_issuer :: string
  ae_verify :: own_verifier
  ae_now :: int
  ae_coll :: "string \<Rightarrow> string \<Rightarrow> bool"
  ae_shapes :: shape_store

record web_event =
  ev_authorization :: "string option"
  ev_origin :: "string option"
  ev_method :: string
  ev_session :: "string option option"

definition normal_emails :: "string list \<Rightarrow> string list" where
  "normal_emails es = filter (\<lambda>e. e \<noteq> []) (map (\<lambda>e. to_lower (js_trim e)) es)"

definition getAdminEmails :: "auth_env \<Rightarrow> string list" where
  "getAdminEmails env = (case ae_contextAdmins env of Some es \<Rightarrow> normal_emails es
     | None \<Rightarrow> if ae_adminEmails env = [] then [] else normal_emails (split_on (CHR '','') (ae_adminEmails env)))"

definition isAdmin :: "auth_env \<Rightarrow> string \<Rightarrow> bool" where
  "isAdmin env email = (to_lower email \<in> set (getAdminEmails env))"

text \<open>\<open>auth.replace(/^Bearer\s+/i, '')\<close>\<close>

definition without_bearer :: "string \<Rightarrow> string" where
  "without_bearer a = (if to_lower (take 6 a) = ''bearer'' \<and> (case drop 6 a of [] \<Rightarrow> False | c # _ \<Rightarrow> is_space c)
     then dropWhile is_space (drop 6 a) else a)"

datatype token_check = TokenValid | TokenInvalid | TokenNone

definition checkManagementToken :: "auth_env \<Rightarrow> web_event \<Rightarrow> token_check" where
  "checkManagementToken env ev = (if \<not> truthy_str (ev_authorization ev) then TokenNone
     else if ae_managementToken env = [] then TokenInvalid
     else if without_bearer (the (ev_authorization ev)) = ae_managementToken env then TokenValid else TokenInvalid)"

definition hasValidManagementToken :: "auth_env \<Rightarrow> web_event \<Rightarrow> bool" where
  "hasValidManagementToken env ev = (checkManagementToken env ev = TokenValid)"

definition bearer_of :: "auth_env \<Rightarrow> web_event \<Rightarrow> auth_payload option" where
  "bearer_of env ev = tryBearerAuth (ae_verify env) (ae_issuer env) (ae_now env) (ev_authorization ev)"

definition session_user :: "web_event \<Rightarrow> problem + string" where
  "session_user ev = (case ev_session ev of Some (Some u) \<Rightarrow> if u = [] then Inl (problem 401 ''Authentication required'') else Inr u
     | _ \<Rightarrow> Inl (problem 401 ''Authentication required''))"

definition requireAuth :: "auth_env \<Rightarrow> web_event \<Rightarrow> problem + string" where
  "requireAuth env ev = (case checkManagementToken env ev of TokenValid \<Rightarrow> Inr ''_management_''
     | TokenInvalid \<Rightarrow> (case bearer_of env ev of Some p \<Rightarrow> Inr (ay_sub p) | None \<Rightarrow> Inl (problem 403 ''Invalid token''))
     | TokenNone \<Rightarrow> session_user ev)"

datatype admin_tier = TierAdmin | TierRoot

definition requireAdminOfTier :: "auth_env \<Rightarrow> web_event \<Rightarrow> admin_tier \<Rightarrow> problem + string" where
  "requireAdminOfTier env ev tier = (let refused = Inl (problem 403 (if tier = TierRoot then ''Root admin access required'' else ''Admin access required'')) in
     case checkManagementToken env ev of TokenValid \<Rightarrow> Inr ''_management_''
     | TokenInvalid \<Rightarrow> Inl (problem 403 ''Invalid management token'')
     | TokenNone \<Rightarrow> (case session_user ev of Inl e \<Rightarrow> Inl e
         | Inr email \<Rightarrow> (case (if tier = TierRoot then ae_rootResolver env else ae_adminResolver env) of
             Some resolver \<Rightarrow> if resolver email then Inr email else refused
           | None \<Rightarrow> if tier = TierAdmin \<and> isAdmin env email then Inr email else refused)))"

definition requireAdmin :: "auth_env \<Rightarrow> web_event \<Rightarrow> problem + string" where
  "requireAdmin env ev = requireAdminOfTier env ev TierAdmin"

definition requireRootAdmin :: "auth_env \<Rightarrow> web_event \<Rightarrow> problem + string" where
  "requireRootAdmin env ev = requireAdminOfTier env ev TierRoot"

section \<open>Brokered grants\<close>

record broker_connection =
  bc_id :: string
  bc_owner_issuer :: string
  bc_owner_subject :: string
  bc_broker_issuer :: string
  bc_agent_domain :: string
  bc_active :: bool
  bc_created_at :: int

record agent_binding =
  ab_subject :: string
  ab_key_id :: string
  ab_owner :: string
  ab_decision_issuer :: string
  ab_connection_id :: string

record consumed_answer =
  co_status :: string
  co_error :: "string option"
  co_grant :: "grant option"

record 's broker =
  bk_getConnection :: "string \<Rightarrow> 's \<Rightarrow> broker_connection option"
  bk_assertConnection :: "brokered_grant \<Rightarrow> 's \<Rightarrow> problem option"
  bk_recordToken :: "grant \<Rightarrow> 's \<Rightarrow> problem option \<times> 's"
  bk_consume :: "string \<Rightarrow> authz_claims \<Rightarrow> 's \<Rightarrow> (problem + consumed_answer) \<times> 's"
  bk_getAgent :: "string \<Rightarrow> 's \<Rightarrow> agent_binding option"

definition no_broker :: problem where
  "no_broker = problem 503 ''Grant brokering is not configured''"

definition requireBrokerOwner :: "auth_env \<Rightarrow> web_event \<Rightarrow> user_store \<Rightarrow> bool \<Rightarrow> problem + string" where
  "requireBrokerOwner env ev users write =
     (case (if truthy_str (ev_authorization ev) then (case bearer_of env ev of
              Some p \<Rightarrow> if ay_act p \<noteq> ActType Human \<or> truthy_str (ay_delegation_grant p)
                then Inl (problem 403 ''Direct human authentication is required'') else Inr (Some (ay_sub p))
            | None \<Rightarrow> Inl (problem 403 ''Direct human authentication is required''))
           else if write \<and> ev_origin ev \<noteq> Some (ae_issuer env) then Inl (problem 403 ''Owner request origin is invalid'')
           else (case ev_session ev of None \<Rightarrow> Inl (problem 500 ''Server Error'') | Some u \<Rightarrow> Inr u)) of
        Inl e \<Rightarrow> Inl e
      | Inr subject \<Rightarrow> if \<not> truthy_str subject then Inl (problem 401 ''Owner sign-in is required'')
          else (case findByEmail (the subject) users of
              None \<Rightarrow> Inl (problem 403 ''An active human owner is required'')
            | Some u \<Rightarrow> if \<not> us_isActive u \<or> us_type u = Some Agent \<or> truthy_str (us_owner u)
                then Inl (problem 403 ''An active human owner is required'') else Inr (the subject)))"

definition requireBrokerGrantOwner :: "auth_env \<Rightarrow> web_event \<Rightarrow> 's broker option \<Rightarrow> user_store \<Rightarrow> grant \<Rightarrow> bool \<Rightarrow> 's \<Rightarrow> problem + string" where
  "requireBrokerGrantOwner env ev broker users g active s = (case requireBrokerOwner env ev users (ev_method ev \<noteq> ''GET'') of
     Inl e \<Rightarrow> Inl e
   | Inr owner \<Rightarrow> (case gr_brokered g of None \<Rightarrow> Inl (problem 403 ''This grant belongs to another owner'')
     | Some b \<Rightarrow> if bg_owner b \<noteq> owner then Inl (problem 403 ''This grant belongs to another owner'')
       else (case broker of None \<Rightarrow> Inl no_broker
       | Some bk \<Rightarrow> (case bk_getConnection bk (bg_connection_id b) s of
           None \<Rightarrow> Inl (problem 403 ''Grant owner binding is invalid'')
         | Some c \<Rightarrow> if bc_owner_subject c \<noteq> owner \<or> bc_broker_issuer c \<noteq> bg_broker_issuer b
             then Inl (problem 403 ''Grant owner binding is invalid'')
             else if active then (case bk_assertConnection bk b s of Some e \<Rightarrow> Inl e | None \<Rightarrow> Inr owner)
             else Inr owner))))"

section \<open>The policy\<close>

datatype grant_action = ActApprove | ActDeny | ActRevoke

definition may_approve :: "user \<Rightarrow> string \<Rightarrow> bool" where
  "may_approve u identity = (us_owner u = Some identity \<or> us_approver u = Some identity \<or>
     us_approver u = None \<and> us_owner u = None \<and> us_email u = identity)"

definition requireGrantActionAuthority :: "auth_env \<Rightarrow> web_event \<Rightarrow> 's broker option \<Rightarrow> user_store \<Rightarrow> grant \<Rightarrow> string \<Rightarrow> grant_action
    \<Rightarrow> 's \<Rightarrow> problem option" where
  "requireGrantActionAuthority env ev broker users g identity action s =
     (if gr_brokered g \<noteq> None
      then (case requireBrokerGrantOwner env ev broker users g (action = ActApprove) s of Inl e \<Rightarrow> Some e | Inr _ \<Rightarrow> None)
      else let requester = rq_requester (gr_request g); user = findByEmail requester users in
        if action = ActApprove \<and> identity = ''_management_'' then None
        else if action = ActDeny \<and> requester = identity then None
        else if action = ActRevoke
        then (if requester = identity \<or> (case user of None \<Rightarrow> False | Some u \<Rightarrow> us_approver u = Some identity) \<or> isAdmin env identity
              then None else Some (problem 403 ''Only the requester, approver, or admin can revoke this grant''))
        else (case user of None \<Rightarrow> Some (problem 403 ''Requester not found for this grant'')
          | Some u \<Rightarrow> if action = ActDeny
              then (if us_owner u = Some identity \<or> us_approver u = Some identity then None
                else Some (problem 403 ''Only the owner or approver can deny this grant''))
              else if may_approve u identity then None
              else Some (problem 403 ''Only the owner or approver can approve this grant'')))"

section \<open>Shapes that changed\<close>

definition shapeOwnerOf :: "user \<Rightarrow> string option" where
  "shapeOwnerOf account = (if us_owner account \<noteq> None then us_owner account
     else if us_type account = Some Agent then None else Some (us_email account))"

definition shape_facts :: "server_shape \<Rightarrow> tier_facts" where
  "shape_facts sh = \<lparr>tf_owner = sh_owner sh, tf_domain = sh_domain sh, tf_digest = Some (sh_digest sh)\<rparr>"

definition assertScopedShapeCurrent :: "auth_env \<Rightarrow> user_store \<Rightarrow> grant \<Rightarrow> problem option" where
  "assertScopedShapeCurrent env users g = (let context = rq_execution_context (gr_request g); tier = tier_of context;
       tiered = truthy_str (tf_owner tier) \<or> truthy_str (tf_domain tier);
       detail = (case cliDetails (rq_authorization_details (gr_request g)) of [] \<Rightarrow> None | d # _ \<Rightarrow> Some d) in
     if \<not> tiered \<and> (gr_brokered g \<noteq> None \<or> (case detail of None \<Rightarrow> True | Some d \<Rightarrow> cd_operation_id d = GENERIC_OPERATION_ID)) then None
     else let account = (if gr_brokered g \<noteq> None then None else findByEmail (rq_requester (gr_request g)) users);
         scope = shapeScopeOf (case account of None \<Rightarrow> None | Some u \<Rightarrow> shapeOwnerOf u);
         shape = (case detail of None \<Rightarrow> None | Some d \<Rightarrow> view_getShape (ae_coll env) scope (cd_cli_id d) (ae_shapes env)) in
       if tiered
       then (case shape of
           None \<Rightarrow> Some (problem 409 ''The personal or domain shape this grant was approved for changed or was removed; request the command again'')
         | Some sh \<Rightarrow> if \<not> truthy_str (sh_owner sh) \<and> \<not> truthy_str (sh_domain sh) \<or> \<not> sameShapeTier tier (shape_facts sh)
             then Some (problem 409 ''The personal or domain shape this grant was approved for changed or was removed; request the command again'')
             else None)
       else if (case detail of None \<Rightarrow> True | Some d \<Rightarrow> getShape (cd_cli_id d) (ae_shapes env) = None) then None
       else (case shape of
           None \<Rightarrow> Some (problem 409 ''A personal or domain shape now overrides the IdP-wide shape this grant was approved for; request the command again'')
         | Some sh \<Rightarrow> if truthy_str (sh_owner sh) \<or> truthy_str (sh_domain sh)
             then Some (problem 409 ''A personal or domain shape now overrides the IdP-wide shape this grant was approved for; request the command again'')
             else None))"

end
