(* ===== verification/BrowserSessions.thy ===== *)
theory BrowserSessions
  imports SpLogin GrantAuthority
begin

text \<open>
  Browser sessions at the identity provider and the ways they travel: \<open>utils/session.ts\<close>, \<open>utils/qr-login.ts\<close>, \<open>api/session/qr\<close>,
  \<open>api/session/transfer.post.ts\<close>, \<open>transfer/[token].get.ts\<close> and \<open>logout.post.ts\<close>. The data of a session is the sealed cookie's object; the
  seal and the cookie are the library's. A storage is its list of entries per prefix of the keys. \<open>sha\<close> is the SHA-256 digest; the comparison
  of two digests compares their texts. Tokens are arguments; times are milliseconds.
\<close>

section \<open>Sessions\<close>

type_synonym session_data = "jsval jsobj"

definition QR_CHANNEL_TTL_MS :: int where "QR_CHANNEL_TTL_MS = 120000"

definition QR_SESSION_TTL_MS :: int where "QR_SESSION_TTL_MS = 60 * 60 * 1000"

record qr_requester =
  qr_ip :: string
  qr_userAgent :: string

datatype qr_state = QrPending | QrApproved

record qr_channel =
  qc_state :: qr_state
  qc_claimSecretHash :: string
  qc_requester :: qr_requester
  qc_session :: "session_data option"
  qc_expiresAt :: int

record qr_session =
  qs_userId :: jsval
  qs_requester :: qr_requester
  qs_createdAt :: int
  qs_expiresAt :: int

record stored_transfer =
  tr_session :: session_data
  tr_expiresAt :: int

record grant_storage =
  gk_channels :: "(string \<times> qr_channel) list"
  gk_qr_sessions :: "(string \<times> qr_session) list"
  gk_transfers :: "(string \<times> stored_transfer) list"

definition empty_storage :: grant_storage where
  "empty_storage = \<lparr>gk_channels = [], gk_qr_sessions = [], gk_transfers = []\<rparr>"

definition QR_TOKEN_ok :: "string \<Rightarrow> bool" where
  "QR_TOKEN_ok t = (length t = 64 \<and> list_all (\<lambda>c. c \<in> set ''0123456789abcdef'') t)"

text \<open>\<open>session.update\<close>: the members of the first object over those of the second.\<close>

definition session_update :: "jsval jsobj \<Rightarrow> session_data \<Rightarrow> session_data" where
  "session_update new data = fold (\<lambda>(k, v) d. AList.update k v d) new data"

text \<open>
  \<open>getAppSession\<close>, after the seal was opened: a session that came by QR ends with its record. The expiry the sources write is an integer.
\<close>

definition is_js_string :: "jsval \<Rightarrow> bool" where
  "is_js_string v = (case v of JStr _ \<Rightarrow> True | _ \<Rightarrow> False)"

definition getAppSession :: "int \<Rightarrow> grant_storage \<Rightarrow> session_data \<Rightarrow> session_data" where
  "getAppSession now kv data = (if js_truthy (member data ''userId'') \<and> is_js_string (member data ''qrChannelId'')
     then (let expired = (case member data ''qrExpiresAt'' of JInt e \<Rightarrow> e < now | _ \<Rightarrow> True);
               channel = nullish (as_string (member data ''qrChannelId'')) [] in
       if expired \<or> map_of (gk_qr_sessions kv) channel = None then [] else data)
     else data)"

definition logged_in :: "session_data \<Rightarrow> bool" where
  "logged_in data = js_truthy (member data ''userId'')"

definition not_authenticated :: problem where
  "not_authenticated = problem 401 ''Not authenticated''"

section \<open>QR sign-in\<close>

definition qr_open :: "(string \<Rightarrow> string) \<Rightarrow> int \<Rightarrow> string \<Rightarrow> string \<Rightarrow> qr_requester \<Rightarrow> grant_storage \<Rightarrow> (string \<times> string) \<times> grant_storage" where
  "qr_open sha now channelId claimSecret requester kv = ((channelId, claimSecret),
     kv\<lparr>gk_channels := AList.update channelId \<lparr>qc_state = QrPending, qc_claimSecretHash = sha claimSecret, qc_requester = requester,
       qc_session = None, qc_expiresAt = now + QR_CHANNEL_TTL_MS\<rparr> (gk_channels kv)\<rparr>)"

definition live_channel :: "int \<Rightarrow> string \<Rightarrow> grant_storage \<Rightarrow> qr_channel option" where
  "live_channel now i kv = (case map_of (gk_channels kv) i of None \<Rightarrow> None
     | Some c \<Rightarrow> if qc_expiresAt c < now then None else Some c)"

definition qr_get :: "int \<Rightarrow> session_data \<Rightarrow> string \<Rightarrow> grant_storage \<Rightarrow> problem + (qr_state \<times> qr_requester \<times> int)" where
  "qr_get now data i kv = (if \<not> logged_in (getAppSession now kv data) then Inl not_authenticated
     else if \<not> QR_TOKEN_ok i then Inl (problem 400 ''Malformed channel id'')
     else (case live_channel now i kv of None \<Rightarrow> Inl (problem 404 ''Sign-in code expired or unknown'')
       | Some c \<Rightarrow> Inr (qc_state c, qc_requester c, qc_expiresAt c)))"

text \<open>\<open>other\<close> is what runs between the reading of the channel and its writing.\<close>

definition qr_approve :: "int \<Rightarrow> session_data \<Rightarrow> string \<Rightarrow> (grant_storage \<Rightarrow> grant_storage) \<Rightarrow> grant_storage \<Rightarrow> (problem + unit) \<times> grant_storage" where
  "qr_approve now data i other kv = (let session = getAppSession now kv data in
     if \<not> logged_in session then (Inl not_authenticated, kv)
     else if js_truthy (member session ''qrChannelId'') then (Inl (problem 403 ''A QR sign-in session cannot approve another QR sign-in''), kv)
     else if \<not> QR_TOKEN_ok i then (Inl (problem 400 ''Malformed channel id''), kv)
     else (case live_channel now i kv of None \<Rightarrow> (Inl (problem 404 ''Sign-in code expired or unknown''), kv)
       | Some c \<Rightarrow> if qc_state c \<noteq> QrPending then (Inl (problem 409 ''Sign-in code already approved''), kv)
           else let kv1 = other kv in
             (Inr (), kv1\<lparr>gk_channels := AList.update i (c\<lparr>qc_state := QrApproved, qc_session := Some session\<rparr>) (gk_channels kv1)\<rparr>)))"

datatype claim_answer = ClaimPending | Claimed session_data

definition qr_claim :: "(string \<Rightarrow> string) \<Rightarrow> int \<Rightarrow> session_data \<Rightarrow> string \<Rightarrow> string \<Rightarrow> grant_storage \<Rightarrow> (problem + claim_answer) \<times> grant_storage" where
  "qr_claim sha now data i claimSecret kv =
     (if \<not> QR_TOKEN_ok i \<or> \<not> QR_TOKEN_ok claimSecret then (Inl (problem 400 ''Malformed channel id or claim secret''), kv)
      else case live_channel now i kv of
        None \<Rightarrow> (Inl (problem 401 ''Sign-in code expired or unknown''), kv\<lparr>gk_channels := AList.delete i (gk_channels kv)\<rparr>)
      | Some c \<Rightarrow> if sha claimSecret \<noteq> qc_claimSecretHash c then (Inl (problem 401 ''Invalid claim secret''), kv)
          else (case (if qc_state c = QrApproved then qc_session c else None) of None \<Rightarrow> (Inr ClaimPending, kv)
            | Some snapshot \<Rightarrow>
                let record = \<lparr>qs_userId = member snapshot ''userId'', qs_requester = qc_requester c, qs_createdAt = now, qs_expiresAt = now + QR_SESSION_TTL_MS\<rparr>;
                    kv1 = kv\<lparr>gk_channels := AList.delete i (gk_channels kv), gk_qr_sessions := AList.update i record (gk_qr_sessions kv)\<rparr> in
                (Inr (Claimed (session_update (snapshot @ [(''qrChannelId'', JStr i), (''qrExpiresAt'', JInt (now + QR_SESSION_TTL_MS))])
                   (getAppSession now kv1 data))), kv1)))"

definition qr_deny :: "int \<Rightarrow> session_data \<Rightarrow> string \<Rightarrow> grant_storage \<Rightarrow> (problem + unit) \<times> grant_storage" where
  "qr_deny now data i kv = (if \<not> logged_in (getAppSession now kv data) then (Inl not_authenticated, kv)
     else if \<not> QR_TOKEN_ok i then (Inl (problem 400 ''Malformed channel id''), kv)
     else (Inr (), kv\<lparr>gk_channels := AList.delete i (gk_channels kv)\<rparr>))"

definition qr_sessions_get :: "int \<Rightarrow> session_data \<Rightarrow> grant_storage \<Rightarrow> (problem + (string \<times> qr_session) list) \<times> grant_storage" where
  "qr_sessions_get now data kv = (let session = getAppSession now kv data in
     if \<not> logged_in session then (Inl not_authenticated, kv)
     else let kept = filter (\<lambda>(i, r). \<not> qs_expiresAt r < now) (gk_qr_sessions kv) in
       (Inr (filter (\<lambda>(i, r). qs_userId r = member session ''userId'') kept), kv\<lparr>gk_qr_sessions := kept\<rparr>))"

definition qr_session_delete :: "int \<Rightarrow> session_data \<Rightarrow> string \<Rightarrow> grant_storage \<Rightarrow> (problem + unit) \<times> grant_storage" where
  "qr_session_delete now data i kv = (let session = getAppSession now kv data in
     if \<not> logged_in session then (Inl not_authenticated, kv)
     else if \<not> QR_TOKEN_ok i then (Inl (problem 400 ''Malformed session id''), kv)
     else if (case map_of (gk_qr_sessions kv) i of None \<Rightarrow> False | Some r \<Rightarrow> qs_userId r \<noteq> member session ''userId'')
     then (Inl (problem 403 ''Not your session''), kv)
     else (Inr (), kv\<lparr>gk_qr_sessions := AList.delete i (gk_qr_sessions kv)\<rparr>))"

section \<open>Transfers\<close>

definition transfer_post :: "int \<Rightarrow> session_data \<Rightarrow> string \<Rightarrow> grant_storage \<Rightarrow> (problem + string) \<times> grant_storage" where
  "transfer_post now data token kv = (let session = getAppSession now kv data in
     if \<not> logged_in session then (Inl not_authenticated, kv)
     else (Inr token, kv\<lparr>gk_transfers := AList.update token \<lparr>tr_session = session, tr_expiresAt = now + 60000\<rparr> (gk_transfers kv)\<rparr>))"

text \<open>The entry is read and removed in two calls; \<open>other\<close> runs between them.\<close>

definition transfer_get :: "int \<Rightarrow> session_data \<Rightarrow> string \<Rightarrow> (grant_storage \<Rightarrow> grant_storage) \<Rightarrow> grant_storage \<Rightarrow> (problem + session_data) \<times> grant_storage" where
  "transfer_get now data token other kv = (if \<not> QR_TOKEN_ok token then (Inl (problem 400 ''Malformed transfer token''), kv)
     else let stored = map_of (gk_transfers kv) token; kv1 = other kv; kv2 = kv1\<lparr>gk_transfers := AList.delete token (gk_transfers kv1)\<rparr> in
       (case stored of None \<Rightarrow> (Inl (problem 401 ''Transfer link expired or already used''), kv2)
        | Some t \<Rightarrow> if tr_expiresAt t < now then (Inl (problem 401 ''Transfer link expired or already used''), kv2)
            else (Inr (session_update (tr_session t) (getAppSession now kv2 data)), kv2)))"

definition session_logout :: "session_data \<Rightarrow> session_data" where
  "session_logout data = []"


section \<open>Members of a session\<close>

lemma session_update_simps [simp]: "session_update [] d = d" "session_update ((k, v) # new) d = session_update new (AList.update k v d)"
  by (simp_all add: session_update_def)

lemma session_update_append: "session_update (a @ b) d = session_update b (session_update a d)"
  by (simp add: session_update_def)

lemma member_update [simp]: "member (AList.update k v d) j = (if j = k then v else member d j)"
  by (simp add: member_def update_conv)

lemma member_session_update:
  "distinct (map fst new) \<Longrightarrow> member (session_update new d) k = (if k \<in> set (map fst new) then member new k else member d k)"
proof (induction new arbitrary: d)
  case (Cons x new)
  then show ?case by (cases x) (auto simp: member_def)
qed simp

text \<open>The session a kiosk gets: the members of the approving session, and its own limits.\<close>

lemma kiosk_members:
  assumes "distinct (map fst snapshot)"
  shows "member (session_update (snapshot @ [(''qrChannelId'', JStr i), (''qrExpiresAt'', JInt e)]) d) ''qrChannelId'' = JStr i"
    "member (session_update (snapshot @ [(''qrChannelId'', JStr i), (''qrExpiresAt'', JInt e)]) d) ''qrExpiresAt'' = JInt e"
    "member snapshot ''userId'' \<noteq> JUndef \<Longrightarrow>
       member (session_update (snapshot @ [(''qrChannelId'', JStr i), (''qrExpiresAt'', JInt e)]) d) ''userId'' = member snapshot ''userId''"
proof -
  have k: "k \<in> set (map fst snapshot)" if "member snapshot k \<noteq> JUndef" for k
    using that by (force simp: member_def split: option.splits dest!: map_of_SomeD)
  show "member (session_update (snapshot @ [(''qrChannelId'', JStr i), (''qrExpiresAt'', JInt e)]) d) ''qrChannelId'' = JStr i"
    "member (session_update (snapshot @ [(''qrChannelId'', JStr i), (''qrExpiresAt'', JInt e)]) d) ''qrExpiresAt'' = JInt e"
    by (simp_all add: session_update_append)
  assume "member snapshot ''userId'' \<noteq> JUndef"
  then show "member (session_update (snapshot @ [(''qrChannelId'', JStr i), (''qrExpiresAt'', JInt e)]) d) ''userId'' = member snapshot ''userId''"
    using member_session_update [OF assms, of d "''userId''"] k by (simp add: session_update_append)
qed

text \<open>A session with a channel lives exactly as long as its record and its expiry.\<close>

lemma kiosk_session_ends:
  assumes "logged_in d" "member d ''qrChannelId'' = JStr i" "member d ''qrExpiresAt'' = JInt e"
  shows "getAppSession t kv d = (if e < t \<or> map_of (gk_qr_sessions kv) i = None then [] else d)"
  using assms by (simp add: getAppSession_def logged_in_def is_js_string_def)

lemma getAppSession_cases: "getAppSession now kv d = d \<or> getAppSession now kv d = []"
  by (simp add: getAppSession_def Let_def)

lemma not_logged_in_empty [simp]: "\<not> logged_in []"
  by (simp add: logged_in_def member_def js_truthy_def)

section \<open>Runs\<close>

text \<open>
  What happened, in order. The identifier of a channel is new when it is opened; an approval writes a channel it read in any earlier state;
  the channel of a denial or an expiry is gone.
\<close>

datatype qr_event = Opened string string | ApprovedBy string session_data | ClaimedAs string | Denied string

inductive qr_run :: "(string \<Rightarrow> string) \<Rightarrow> qr_event list \<Rightarrow> grant_storage \<Rightarrow> bool" for sha where
  start: "qr_run sha [] empty_storage"
| opened: "qr_run sha h kv \<Longrightarrow> (\<And>x. Opened i x \<notin> set h) \<Longrightarrow> qr_run sha (h @ [Opened i x]) (snd (qr_open sha now i x requester kv))"
| approve: "qr_run sha h0 kv0 \<Longrightarrow> qr_run sha (h0 @ h1) kv1 \<Longrightarrow> distinct (map fst data) \<Longrightarrow>
    qr_approve now data i (\<lambda>kv. kv1) kv0 = (Inr (), kv2) \<Longrightarrow> qr_run sha (h0 @ h1 @ [ApprovedBy i data]) kv2"
| claim: "qr_run sha h kv \<Longrightarrow> qr_claim sha now data i x kv = (Inr (Claimed d), kv1) \<Longrightarrow> qr_run sha (h @ [ClaimedAs i]) kv1"
| refused: "qr_run sha h kv \<Longrightarrow> qr_claim sha now data i x kv = (r, kv1) \<Longrightarrow> (\<And>d. r \<noteq> Inr (Claimed d)) \<Longrightarrow> qr_run sha h kv1"
| deny: "qr_run sha h kv \<Longrightarrow> qr_deny now data i kv = (r, kv1) \<Longrightarrow> qr_run sha (h @ [Denied i]) kv1"
| listed: "qr_run sha h kv \<Longrightarrow> qr_sessions_get now data kv = (r, kv1) \<Longrightarrow> qr_run sha h kv1"
| transfers: "qr_run sha h kv \<Longrightarrow> qr_run sha h (kv\<lparr>gk_transfers := ts\<rparr>)"
| revoke: "qr_run sha h kv \<Longrightarrow> qr_session_delete now data i kv = (r, kv1) \<Longrightarrow> qr_run sha h kv1"

definition channel_ok :: "(string \<Rightarrow> string) \<Rightarrow> qr_event list \<Rightarrow> string \<Rightarrow> qr_channel \<Rightarrow> bool" where
  "channel_ok sha h i c \<longleftrightarrow> (\<exists>x. Opened i x \<in> set h \<and> qc_claimSecretHash c = sha x) \<and>
     (\<forall>snapshot. qc_state c = QrApproved \<longrightarrow> qc_session c = Some snapshot \<longrightarrow>
        ApprovedBy i snapshot \<in> set h \<and> distinct (map fst snapshot) \<and> logged_in snapshot \<and> \<not> js_truthy (member snapshot ''qrChannelId''))"

definition channels_ok :: "(string \<Rightarrow> string) \<Rightarrow> qr_event list \<Rightarrow> grant_storage \<Rightarrow> bool" where
  "channels_ok sha h kv \<longleftrightarrow> (\<forall>i c. map_of (gk_channels kv) i = Some c \<longrightarrow> channel_ok sha h i c)"

lemma channel_ok_mono: "channel_ok sha h i c \<Longrightarrow> set h \<subseteq> set h' \<Longrightarrow> channel_ok sha h' i c"
  unfolding channel_ok_def by blast

lemma channels_ok_mono: "channels_ok sha h kv \<Longrightarrow> set h \<subseteq> set h' \<Longrightarrow> channels_ok sha h' kv"
  unfolding channels_ok_def using channel_ok_mono by blast

lemma channels_ok_delete: "channels_ok sha h kv \<Longrightarrow> channels_ok sha h (kv\<lparr>gk_channels := AList.delete i (gk_channels kv)\<rparr>)"
  by (auto simp: channels_ok_def delete_conv' split: if_splits)

lemma channels_ok_update: "channels_ok sha h kv \<Longrightarrow> channel_ok sha h i c \<Longrightarrow> channels_ok sha h (kv\<lparr>gk_channels := AList.update i c (gk_channels kv)\<rparr>)"
  by (simp add: channels_ok_def update_conv)

lemma channels_ok_sessions [simp]: "channels_ok sha h (kv\<lparr>gk_qr_sessions := x\<rparr>) = channels_ok sha h kv"
  by (simp add: channels_ok_def)

lemma live_channelD: "live_channel now i kv = Some c \<Longrightarrow> map_of (gk_channels kv) i = Some c \<and> \<not> qc_expiresAt c < now"
  by (auto simp: live_channel_def split: option.splits if_splits)

lemma qr_approve_ok:
  assumes "qr_approve now data i other kv = (Inr (), kv2)"
  obtains c where "map_of (gk_channels kv) i = Some c" "qc_state c = QrPending" "getAppSession now kv data = data" "logged_in data"
    "\<not> js_truthy (member data ''qrChannelId'')"
    "kv2 = (other kv)\<lparr>gk_channels := AList.update i (c\<lparr>qc_state := QrApproved, qc_session := Some data\<rparr>) (gk_channels (other kv))\<rparr>"
proof -
  have l: "logged_in (getAppSession now kv data)" using assms by (auto simp: qr_approve_def Let_def split: if_splits)
  then have d: "getAppSession now kv data = data" using getAppSession_cases [of now kv data] by auto
  show thesis
    using assms l that unfolding qr_approve_def d by (auto simp: Let_def dest!: live_channelD split: if_splits option.splits)
qed

lemma claim_cases:
  assumes "qr_claim sha now data i x kv = (r, kv1)"
  shows "(\<forall>d. r \<noteq> Inr (Claimed d)) \<and> (kv1 = kv \<or> kv1 = kv\<lparr>gk_channels := AList.delete i (gk_channels kv)\<rparr>) \<or>
    (\<exists>c snapshot d. map_of (gk_channels kv) i = Some c \<and> \<not> qc_expiresAt c < now \<and> sha x = qc_claimSecretHash c \<and> qc_state c = QrApproved \<and>
       qc_session c = Some snapshot \<and> r = Inr (Claimed (session_update (snapshot @ [(''qrChannelId'', JStr i), (''qrExpiresAt'', JInt (now + QR_SESSION_TTL_MS))]) d)) \<and>
       kv1 = kv\<lparr>gk_channels := AList.delete i (gk_channels kv), gk_qr_sessions := AList.update i \<lparr>qs_userId = member snapshot ''userId'',
         qs_requester = qc_requester c, qs_createdAt = now, qs_expiresAt = now + QR_SESSION_TTL_MS\<rparr> (gk_qr_sessions kv)\<rparr>)"
proof (cases "QR_TOKEN_ok i \<and> QR_TOKEN_ok x")
  case ok: True
  show ?thesis
  proof (cases "live_channel now i kv")
    case None
    then show ?thesis using assms ok by (auto simp: qr_claim_def)
  next
    case (Some c)
    note l = live_channelD [OF Some]
    show ?thesis
    proof (cases "sha x = qc_claimSecretHash c \<and> qc_state c = QrApproved \<and> qc_session c \<noteq> None")
      case True
      then obtain snapshot where "qc_session c = Some snapshot" by blast
      with True l ok Some assms show ?thesis by (auto simp: qr_claim_def Let_def)
    next
      case False
      have "r = Inl (problem 401 ''Invalid claim secret'') \<and> kv1 = kv \<or> r = Inr ClaimPending \<and> kv1 = kv"
      proof (cases "sha x = qc_claimSecretHash c")
        case True
        then have "(if qc_state c = QrApproved then qc_session c else None) = None" using False by auto
        then show ?thesis using assms ok Some True by (simp add: qr_claim_def)
      qed (use assms ok Some in \<open>simp add: qr_claim_def\<close>)
      then show ?thesis by auto
    qed
  qed
qed (use assms in \<open>auto simp: qr_claim_def\<close>)

lemma run_channels: "qr_run sha h kv \<Longrightarrow> channels_ok sha h kv"
proof (induction rule: qr_run.induct)
  case start
  then show ?case by (simp add: channels_ok_def empty_storage_def)
next
  case (opened h kv i x now requester)
  have old: "channels_ok sha (h @ [Opened i x]) kv" by (rule channels_ok_mono [OF opened.IH]) auto
  have "channel_ok sha (h @ [Opened i x]) i \<lparr>qc_state = QrPending, qc_claimSecretHash = sha x, qc_requester = requester,
       qc_session = None, qc_expiresAt = now + QR_CHANNEL_TTL_MS\<rparr>"
    by (auto simp: channel_ok_def)
  from channels_ok_update [OF old this] show ?case by (simp add: qr_open_def)
next
  case (approve h0 kv0 h1 kv1 data now i kv2)
  obtain c where c: "map_of (gk_channels kv0) i = Some c" "qc_state c = QrPending" "getAppSession now kv0 data = data" "logged_in data"
    "\<not> js_truthy (member data ''qrChannelId'')"
    "kv2 = kv1\<lparr>gk_channels := AList.update i (c\<lparr>qc_state := QrApproved, qc_session := Some data\<rparr>) (gk_channels kv1)\<rparr>"
    by (rule qr_approve_ok [OF approve.hyps(4)])
  have "channels_ok sha (h0 @ h1 @ [ApprovedBy i data]) kv1" by (rule channels_ok_mono [OF approve.IH(2)]) auto
  moreover have "channel_ok sha (h0 @ h1 @ [ApprovedBy i data]) i c"
    by (rule channel_ok_mono [of sha h0]) (use approve.IH(1) c(1) in \<open>simp_all add: channels_ok_def\<close>, blast)
  then have "channel_ok sha (h0 @ h1 @ [ApprovedBy i data]) i (c\<lparr>qc_state := QrApproved, qc_session := Some data\<rparr>)"
    using c(4,5) approve.hyps(3) by (auto simp: channel_ok_def)
  ultimately show ?case unfolding c(6) by (rule channels_ok_update)
next
  case (claim h kv now data i x d kv1)
  have "channels_ok sha (h @ [ClaimedAs i]) kv" by (rule channels_ok_mono [OF claim.IH]) auto
  from channels_ok_delete [OF this, of i] have "channels_ok sha (h @ [ClaimedAs i]) (kv\<lparr>gk_channels := AList.delete i (gk_channels kv), gk_qr_sessions := y\<rparr>)" for y
    by (simp add: channels_ok_def)
  with claim_cases [OF claim.hyps(2)] show ?case by (elim disjE exE conjE) simp_all
next
  case (refused h kv now data i x r kv1)
  then have "kv1 = kv \<or> kv1 = kv\<lparr>gk_channels := AList.delete i (gk_channels kv)\<rparr>"
    using claim_cases [OF refused.hyps(2)] refused.hyps(3) by blast
  then show ?case using refused.IH channels_ok_delete by (elim disjE) simp_all
next
  case (deny h kv now data i r kv1)
  have "channels_ok sha (h @ [Denied i]) kv" by (rule channels_ok_mono [OF deny.IH]) auto
  moreover have "kv1 = kv \<or> kv1 = kv\<lparr>gk_channels := AList.delete i (gk_channels kv)\<rparr>"
    using deny.hyps(2) by (auto simp: qr_deny_def split: if_splits)
  ultimately show ?case using channels_ok_delete by (elim disjE) simp_all
next
  case (listed h kv now data r kv1)
  then show ?case by (auto simp: qr_sessions_get_def Let_def split: if_splits)
next
  case (transfers h kv ts)
  then show ?case by (simp add: channels_ok_def)
next
  case (revoke h kv now data i r kv1)
  then show ?case by (auto simp: qr_session_delete_def Let_def split: if_splits)
qed


section \<open>Properties\<close>

lemma claimedD:
  assumes "qr_claim sha now data i x kv = (Inr (Claimed d), kv1)"
  obtains c snapshot d0 where "map_of (gk_channels kv) i = Some c" "sha x = qc_claimSecretHash c" "qc_state c = QrApproved" "qc_session c = Some snapshot"
    "d = session_update (snapshot @ [(''qrChannelId'', JStr i), (''qrExpiresAt'', JInt (now + QR_SESSION_TTL_MS))]) d0"
    "kv1 = kv\<lparr>gk_channels := AList.delete i (gk_channels kv), gk_qr_sessions := AList.update i \<lparr>qs_userId = member snapshot ''userId'',
       qs_requester = qc_requester c, qs_createdAt = now, qs_expiresAt = now + QR_SESSION_TTL_MS\<rparr> (gk_qr_sessions kv)\<rparr>"
  using claim_cases [OF assms] that by (elim disjE exE conjE) simp_all

text \<open>
  C32. Whoever signs in by QR holds the secret the channel was opened with and gets the session of somebody who approved that very channel from a
  session that did not itself come by QR; whatever other requests ran between an approval's reading and writing. The channel is gone then, the
  new session names the approver and its channel, and at every later time it is over once an hour has passed or its record was removed.
\<close>

theorem qr_sign_in_sound:
  assumes "qr_run sha h kv" "qr_claim sha now data i x kv = (Inr (Claimed d), kv1)"
  shows "(\<exists>x0. Opened i x0 \<in> set h \<and> sha x = sha x0) \<and>
    (\<exists>approver. ApprovedBy i approver \<in> set h \<and> logged_in approver \<and> \<not> js_truthy (member approver ''qrChannelId'') \<and>
       member d ''userId'' = member approver ''userId'' \<and> map_option qs_userId (map_of (gk_qr_sessions kv1) i) = Some (member approver ''userId'')) \<and>
    logged_in d \<and> member d ''qrChannelId'' = JStr i \<and> map_of (gk_channels kv1) i = None \<and>
    (\<forall>t kv2. getAppSession t kv2 d = (if now + QR_SESSION_TTL_MS < t \<or> map_of (gk_qr_sessions kv2) i = None then [] else d))"
proof -
  obtain c snapshot d0 where c: "map_of (gk_channels kv) i = Some c" "sha x = qc_claimSecretHash c" "qc_state c = QrApproved" "qc_session c = Some snapshot"
    "d = session_update (snapshot @ [(''qrChannelId'', JStr i), (''qrExpiresAt'', JInt (now + QR_SESSION_TTL_MS))]) d0"
    "kv1 = kv\<lparr>gk_channels := AList.delete i (gk_channels kv), gk_qr_sessions := AList.update i \<lparr>qs_userId = member snapshot ''userId'',
       qs_requester = qc_requester c, qs_createdAt = now, qs_expiresAt = now + QR_SESSION_TTL_MS\<rparr> (gk_qr_sessions kv)\<rparr>"
    by (rule claimedD [OF assms(2)])
  have ok: "channel_ok sha h i c" using run_channels [OF assms(1)] c(1) by (simp add: channels_ok_def)
  then have s: "ApprovedBy i snapshot \<in> set h" "distinct (map fst snapshot)" "logged_in snapshot" "\<not> js_truthy (member snapshot ''qrChannelId'')"
    using c(3,4) by (simp_all add: channel_ok_def)
  have u: "member snapshot ''userId'' \<noteq> JUndef" using s(3) by (auto simp: logged_in_def js_truthy_def)
  note m = kiosk_members [OF s(2), of i "now + QR_SESSION_TTL_MS" d0, folded c(5)]
  have l: "logged_in d" using m(3) [OF u] s(3) by (simp add: logged_in_def)
  have "\<exists>x0. Opened i x0 \<in> set h \<and> sha x = sha x0" using ok c(2) by (auto simp: channel_ok_def)
  moreover have "map_of (gk_channels kv1) i = None" "map_option qs_userId (map_of (gk_qr_sessions kv1) i) = Some (member snapshot ''userId'')"
    by (simp_all add: c(6) delete_conv' update_conv)
  ultimately show ?thesis using s l m(1) m(3) [OF u] kiosk_session_ends [OF l m(1,2)] by blast
qed

definition hex64 :: "char \<Rightarrow> string" where
  "hex64 c = replicate 64 c"

lemma hex64_ok: "c \<in> {CHR ''a'', CHR ''b''} \<Longrightarrow> QR_TOKEN_ok (hex64 c)"
  by (auto simp: QR_TOKEN_ok_def hex64_def list_all_iff)

definition phone :: session_data where
  "phone = [(''userId'', JStr ''ada'')]"

lemma phone_simps [simp]: "logged_in phone" "\<not> js_truthy (member phone ''qrChannelId'')" "distinct (map fst phone)" "getAppSession t kv phone = phone"
  "member phone ''userId'' = JStr ''ada''"
  by (simp_all add: phone_def logged_in_def member_def js_truthy_def getAppSession_def is_js_string_def)

definition one_channel :: "qr_state \<Rightarrow> session_data option \<Rightarrow> qr_channel" where
  "one_channel st session = \<lparr>qc_state = st, qc_claimSecretHash = hex64 (CHR ''b''), qc_requester = \<lparr>qr_ip = ''ip'', qr_userAgent = ''ua''\<rparr>,
     qc_session = session, qc_expiresAt = 120000\<rparr>"

lemma sign_in_run:
  "qr_run (\<lambda>x. x) [Opened (hex64 (CHR ''a'')) (hex64 (CHR ''b'')), ApprovedBy (hex64 (CHR ''a'')) phone]
     (empty_storage\<lparr>gk_channels := [(hex64 (CHR ''a''), one_channel QrApproved (Some phone))]\<rparr>)"
proof -
  let ?i = "hex64 (CHR ''a'')" and ?x = "hex64 (CHR ''b'')" and ?q = "\<lparr>qr_ip = ''ip'', qr_userAgent = ''ua''\<rparr>"
  let ?kv = "empty_storage\<lparr>gk_channels := [(hex64 (CHR ''a''), one_channel QrPending None)]\<rparr>"
  have "qr_run (\<lambda>x. x) ([] @ [Opened ?i ?x]) (snd (qr_open (\<lambda>x. x) 0 ?i ?x ?q empty_storage))"
    by (rule qr_run.opened [OF qr_run.start]) simp
  moreover have "snd (qr_open (\<lambda>x. x) 0 ?i ?x ?q empty_storage) = ?kv"
    by (simp add: qr_open_def empty_storage_def one_channel_def QR_CHANNEL_TTL_MS_def)
  ultimately have o': "qr_run (\<lambda>x. x) [Opened ?i ?x] ?kv" by simp
  have "qr_approve 5 phone ?i (\<lambda>kv. ?kv) ?kv = (Inr (), empty_storage\<lparr>gk_channels := [(?i, one_channel QrApproved (Some phone))]\<rparr>)"
    by (simp add: qr_approve_def Let_def hex64_ok live_channel_def) (simp add: one_channel_def)
  from qr_run.approve [OF o' _ _ this, of "[]"] o' show ?thesis by simp
qed

theorem qr_sign_in_sound_witness:
  "\<exists>d kv1. qr_claim (\<lambda>x. x) 6 [] (hex64 (CHR ''a'')) (hex64 (CHR ''b''))
     (empty_storage\<lparr>gk_channels := [(hex64 (CHR ''a''), one_channel QrApproved (Some phone))]\<rparr>) = (Inr (Claimed d), kv1) \<and>
     member d ''userId'' = JStr ''ada'' \<and> getAppSession 7 kv1 d = d \<and> getAppSession 3600007 kv1 d = []"
proof -
  let ?kv = "empty_storage\<lparr>gk_channels := [(hex64 (CHR ''a''), one_channel QrApproved (Some phone))]\<rparr>"
  obtain d kv1 where c: "qr_claim (\<lambda>x. x) 6 [] (hex64 (CHR ''a'')) (hex64 (CHR ''b'')) ?kv = (Inr (Claimed d), kv1)"
    by (simp add: qr_claim_def hex64_ok live_channel_def) (simp add: one_channel_def Let_def)
  note s = qr_sign_in_sound [OF sign_in_run c]
  have only: "ApprovedBy i a \<in> set [Opened i x, ApprovedBy i phone] \<Longrightarrow> a = phone" for i a x by simp
  from s have "member d ''userId'' = JStr ''ada''" using only by fastforce
  moreover have "map_of (gk_qr_sessions kv1) (hex64 (CHR ''a'')) \<noteq> None" using s by auto
  ultimately show ?thesis using c s by (intro exI [of _ d] exI [of _ kv1]) (auto simp: QR_SESSION_TTL_MS_def)
qed

text \<open>
  A transfer link signs in once when its requests follow each other, with the members of the session it was made from, its limits included;
  but the entry is read before it is removed, so two requests that overlap both sign in, although the handler promises that a replay cannot
  outlive the first attempt.
\<close>

theorem transfer_once_unless_raced:
  assumes "QR_TOKEN_ok token" "map_of (gk_transfers kv) token = Some t" "now \<le> tr_expiresAt t" "distinct (map fst (tr_session t))"
  shows "(\<exists>d kv1. transfer_get now data token (\<lambda>s. s) kv = (Inr d, kv1) \<and> (\<forall>k\<in>set (map fst (tr_session t)). member d k = member (tr_session t) k) \<and>
       (\<forall>now2 data2 other2. \<exists>p. fst (transfer_get now2 data2 token other2 kv1) = Inl p)) \<and>
    (\<exists>d1 d2 kv2. transfer_get now data1 token (\<lambda>s. snd (transfer_get now data2 token (\<lambda>s. s) s)) kv = (Inr d1, kv2) \<and>
       fst (transfer_get now data2 token (\<lambda>s. s) kv) = Inr d2)"
proof -
  let ?kv1 = "kv\<lparr>gk_transfers := AList.delete token (gk_transfers kv)\<rparr>"
  have one: "transfer_get now data token other kv = (Inr (session_update (tr_session t) (getAppSession now
      ((other kv)\<lparr>gk_transfers := AList.delete token (gk_transfers (other kv))\<rparr>) data)), (other kv)\<lparr>gk_transfers := AList.delete token (gk_transfers (other kv))\<rparr>)"
    for data other using assms(1-3) by (simp add: transfer_get_def Let_def)
  have gone: "\<exists>p. fst (transfer_get now2 data2 token other2 ?kv1) = Inl p" for now2 data2 other2
    using assms(1) by (simp add: transfer_get_def Let_def delete_conv')
  show ?thesis
    using gone by (intro conjI exI [of _ "session_update (tr_session t) x" for x]) (auto simp: one member_session_update [OF assms(4)])
qed

theorem transfer_once_unless_raced_witness:
  "\<exists>d1 d2 kv2. transfer_get 5 [] (hex64 (CHR ''a'')) (\<lambda>s. snd (transfer_get 5 [] (hex64 (CHR ''a'')) (\<lambda>s. s) s))
       (empty_storage\<lparr>gk_transfers := [(hex64 (CHR ''a''), \<lparr>tr_session = phone, tr_expiresAt = 60000\<rparr>)]\<rparr>) = (Inr d1, kv2) \<and>
     fst (transfer_get 5 [] (hex64 (CHR ''a'')) (\<lambda>s. s)
       (empty_storage\<lparr>gk_transfers := [(hex64 (CHR ''a''), \<lparr>tr_session = phone, tr_expiresAt = 60000\<rparr>)]\<rparr>)) = Inr d2"
  using transfer_once_unless_raced [of "hex64 (CHR ''a'')" "empty_storage\<lparr>gk_transfers := [(hex64 (CHR ''a''), \<lparr>tr_session = phone, tr_expiresAt = 60000\<rparr>)]\<rparr>"
      "\<lparr>tr_session = phone, tr_expiresAt = 60000\<rparr>" 5 "[]" "[]" "[]"] hex64_ok by simp

end
