(* ===== verification/GrantEndpoints.thy ===== *)
theory GrantEndpoints
  imports GrantAuthority
begin

text \<open>
  The endpoints that decide and spend grants, under \<open>modules/nuxt-auth-idp/src/runtime/server/api/grants\<close>: \<open>approve\<close>, \<open>deny\<close>,
  \<open>revoke\<close>, \<open>batch\<close>, \<open>token\<close>, \<open>consume\<close>, \<open>verify\<close>, \<open>withdraw\<close>, with \<open>utils/broker-forward.ts\<close>. A handler returns its answer or
  the problem it throws, and the state of the grant store. An exception that no handler catches is a problem of status 500. Bodies hold
  values of their declared types; \<open>check\<close> is the signature check of a grant token, \<open>ask\<close> the request to another provider.
\<close>

abbreviation in_seconds :: "auth_env \<Rightarrow> int" where
  "in_seconds env \<equiv> ae_now env div 1000"

definition no_grant_id :: problem where "no_grant_id = problem 400 ''Grant ID is required''"

definition no_grant :: problem where "no_grant = problem 404 ''Grant not found''"

text \<open>The \<open>catch\<close> of the handlers around an operation, and an exception nobody catches.\<close>

fun refused_with :: "int \<Rightarrow> 'a outcome \<times> 's \<Rightarrow> (problem + 'a) \<times> 's" where
  "refused_with status (Inl e, s) = (Inl (status, GrantText e), s)"
| "refused_with status (Inr x, s) = (Inr x, s)"

section \<open>Approving\<close>

record approve_body =
  ab_grant_type :: "string option"
  ab_duration :: "int option"
  ab_widened :: "cli_detail list option"
  ab_extend_mode :: "string option"
  ab_extend_ids :: "string list option"

definition grant_type_of :: "string \<Rightarrow> grant_type option" where
  "grant_type_of t = (if t = ''once'' then Some Once else if t = ''timed'' then Some Timed else if t = ''always'' then Some Always else None)"

definition extend_mode_of :: "string \<Rightarrow> extend_mode option" where
  "extend_mode_of m = (if m = ''widen'' then Some Widen else if m = ''merge'' then Some Merge else None)"

definition override_problem :: "approve_body \<Rightarrow> problem option" where
  "override_problem b = (case ab_grant_type b of None \<Rightarrow> None
     | Some t \<Rightarrow> if grant_type_of t = None then Some (problem 400 ''Invalid grant_type. Must be one of: once, timed, always'')
         else if t = ''timed'' \<and> (case ab_duration b of None \<Rightarrow> True | Some d \<Rightarrow> d \<le> 0)
         then Some (problem 400 ''Duration must be a positive number for timed grants'') else None)"

definition body_type :: "approve_body \<Rightarrow> grant_type option" where
  "body_type b = (case ab_grant_type b of None \<Rightarrow> None | Some t \<Rightarrow> grant_type_of t)"

definition has_widened :: "approve_body \<Rightarrow> bool" where
  "has_widened b = (case ab_widened b of None \<Rightarrow> False | Some ds \<Rightarrow> ds \<noteq> [])"

definition has_extend :: "approve_body \<Rightarrow> bool" where
  "has_extend b = (truthy_str (ab_extend_mode b) \<and> (case ab_extend_ids b of None \<Rightarrow> False | Some ids \<Rightarrow> ids \<noteq> []))"

definition approve_as_asked :: "auth_env \<Rightarrow> string \<Rightarrow> string \<Rightarrow> 's grant_store \<Rightarrow> approve_body \<Rightarrow> 's \<Rightarrow> (problem + grant option) \<times> 's" where
  "approve_as_asked env i email store b s = (let ov = no_overrides\<lparr>ao_grant_type := body_type b, ao_duration := ab_duration b\<rparr> in
     if has_extend b
     then (case extend_mode_of (the (ab_extend_mode b)) of
         None \<Rightarrow> (Inl (problem 400 ''Invalid extend_mode. Must be \"widen\" or \"merge\"''), s)
       | Some m \<Rightarrow> refused_with 400 (approveGrantWithExtension (ae_coll env) (in_seconds env) i email store m (nullish (ab_extend_ids b) []) ov s))
     else if has_widened b
     then refused_with 400 (approveGrantWithWidening (ae_coll env) (in_seconds env) i email store (nullish (ab_widened b) []) ov s)
     else refused_with 400 (approveGrant (in_seconds env) i email store (if body_type b = None then no_overrides else ov) s))"

text \<open>A store that lost the grant makes \<open>issueAuthzJWT\<close> throw a type error.\<close>

definition token_of_approved :: "auth_env \<Rightarrow> string \<Rightarrow> grant option \<Rightarrow> problem + (grant \<times> authz_claims)" where
  "token_of_approved env jti g = (case g of None \<Rightarrow> Inl (problem 400 ''Cannot read properties of null (reading status)'')
     | Some a \<Rightarrow> (case issueAuthzJWT (in_seconds env) jti (ae_issuer env) a of Inl e \<Rightarrow> Inl (400, GrantText e) | Inr c \<Rightarrow> Inr (a, c)))"

definition approve_and_sign :: "auth_env \<Rightarrow> 's broker option \<Rightarrow> 's grant_store \<Rightarrow> string \<Rightarrow> string \<Rightarrow> string \<Rightarrow> approve_body \<Rightarrow> 's
    \<Rightarrow> (problem + (grant \<times> authz_claims)) \<times> 's" where
  "approve_and_sign env broker store jti i email b s = (case approve_as_asked env i email store b s of
     (Inl e, s1) \<Rightarrow> (Inl e, s1)
   | (Inr g, s1) \<Rightarrow> (case token_of_approved env jti g of Inl e \<Rightarrow> (Inl e, s1)
       | Inr (a, c) \<Rightarrow> if gr_brokered a = None then (Inr (a, c), s1)
           else (case broker of None \<Rightarrow> (Inl no_broker, s1)
             | Some bk \<Rightarrow> (case bk_recordToken bk a s1 of (Some e, s2) \<Rightarrow> (Inl e, s2) | (None, s2) \<Rightarrow> (Inr (a, c), s2)))))"

definition approve_post :: "auth_env \<Rightarrow> web_event \<Rightarrow> 's broker option \<Rightarrow> user_store \<Rightarrow> 's grant_store \<Rightarrow> string \<Rightarrow> string \<Rightarrow> approve_body \<Rightarrow> 's
    \<Rightarrow> (problem + (grant \<times> authz_claims)) \<times> 's" where
  "approve_post env ev broker users store jti i b s = (if i = [] then (Inl no_grant_id, s)
     else case requireAuth env ev of Inl e \<Rightarrow> (Inl e, s)
     | Inr email \<Rightarrow> (case override_problem b of Some e \<Rightarrow> (Inl e, s)
     | None \<Rightarrow> (case st_findById store i s of None \<Rightarrow> (Inl no_grant, s)
     | Some g \<Rightarrow> (case requireGrantActionAuthority env ev broker users g email ActApprove s of Some e \<Rightarrow> (Inl e, s)
     | None \<Rightarrow> (case assertScopedShapeCurrent env users g of Some e \<Rightarrow> (Inl e, s)
     | None \<Rightarrow> if has_widened b \<and> has_extend b then (Inl (problem 400 ''widened_details and extend_mode are mutually exclusive''), s)
         else if gr_brokered g \<noteq> None \<and> (has_widened b \<or> has_extend b)
         then (Inl (problem 400 ''Brokered grants require a new request to change actions''), s)
         else approve_and_sign env broker store jti i email b s)))))"

section \<open>Denying, revoking and batches\<close>

definition deny_post :: "auth_env \<Rightarrow> web_event \<Rightarrow> 's broker option \<Rightarrow> user_store \<Rightarrow> 's grant_store \<Rightarrow> string \<Rightarrow> 's \<Rightarrow> (problem + grant option) \<times> 's" where
  "deny_post env ev broker users store i s = (if i = [] then (Inl no_grant_id, s)
     else case requireAuth env ev of Inl e \<Rightarrow> (Inl e, s)
     | Inr email \<Rightarrow> (case st_findById store i s of None \<Rightarrow> (Inl no_grant, s)
     | Some g \<Rightarrow> (case requireGrantActionAuthority env ev broker users g email ActDeny s of Some e \<Rightarrow> (Inl e, s)
     | None \<Rightarrow> refused_with 400 (denyGrant (in_seconds env) i email store s))))"

definition revoke_identity :: "auth_env \<Rightarrow> web_event \<Rightarrow> problem + string" where
  "revoke_identity env ev = (case bearer_of env ev of Some p \<Rightarrow> Inr (ay_sub p) | None \<Rightarrow> requireAuth env ev)"

definition revoke_grant_post :: "auth_env \<Rightarrow> web_event \<Rightarrow> 's broker option \<Rightarrow> user_store \<Rightarrow> 's grant_store \<Rightarrow> string \<Rightarrow> 's \<Rightarrow> (problem + grant option) \<times> 's" where
  "revoke_grant_post env ev broker users store i s = (if i = [] then (Inl no_grant_id, s)
     else case revoke_identity env ev of Inl e \<Rightarrow> (Inl e, s)
     | Inr identity \<Rightarrow> (case st_findById store i s of None \<Rightarrow> (Inl no_grant, s)
     | Some g \<Rightarrow> (case requireGrantActionAuthority env ev broker users g identity ActRevoke s of Some e \<Rightarrow> (Inl e, s)
     | None \<Rightarrow> refused_with 400 (revokeGrant i store s))))"

text \<open>A batch runs its operations one by one; a failing one is recorded and the rest still run.\<close>

record batch_operation =
  bo_id :: string
  bo_action :: string
  bo_grant_type :: "grant_type option"
  bo_duration :: "int option"

record batch_result =
  br_id :: string
  br_outcome :: "problem + grant_status"

definition action_of :: "string \<Rightarrow> grant_action option" where
  "action_of a = (if a = ''approve'' then Some ActApprove else if a = ''deny'' then Some ActDeny else if a = ''revoke'' then Some ActRevoke else None)"

definition run_action :: "auth_env \<Rightarrow> 's grant_store \<Rightarrow> string \<Rightarrow> batch_operation \<Rightarrow> grant_action \<Rightarrow> 's \<Rightarrow> (problem + grant option) \<times> 's" where
  "run_action env store email item act s = refused_with 400 (case act of
     ActApprove \<Rightarrow> approveGrant (in_seconds env) (bo_id item) email store (if bo_grant_type item = None then no_overrides
        else no_overrides\<lparr>ao_grant_type := bo_grant_type item, ao_duration := bo_duration item\<rparr>) s
   | ActDeny \<Rightarrow> denyGrant (in_seconds env) (bo_id item) email store s
   | ActRevoke \<Rightarrow> revokeGrant (bo_id item) store s)"

definition batch_step :: "auth_env \<Rightarrow> web_event \<Rightarrow> 's broker option \<Rightarrow> user_store \<Rightarrow> 's grant_store \<Rightarrow> string \<Rightarrow> batch_operation \<Rightarrow> 's
    \<Rightarrow> (problem + grant_status) \<times> 's" where
  "batch_step env ev broker users store email item s = (case action_of (bo_action item) of
     None \<Rightarrow> (Inl (problem 400 (''Invalid action: '' @ bo_action item)), s)
   | Some act \<Rightarrow> (case st_findById store (bo_id item) s of None \<Rightarrow> (Inl no_grant, s)
   | Some g \<Rightarrow> (case requireGrantActionAuthority env ev broker users g email act s of Some e \<Rightarrow> (Inl e, s)
   | None \<Rightarrow> (case run_action env store email item act s of (Inl e, s1) \<Rightarrow> (Inl e, s1)
       | (Inr None, s1) \<Rightarrow> (Inl (problem 400 ''Cannot read properties of null (reading status)''), s1)
       | (Inr (Some a), s1) \<Rightarrow> (Inr (gr_status a), s1)))))"

fun batch_loop :: "auth_env \<Rightarrow> web_event \<Rightarrow> 's broker option \<Rightarrow> user_store \<Rightarrow> 's grant_store \<Rightarrow> string \<Rightarrow> batch_operation list \<Rightarrow> 's
    \<Rightarrow> batch_result list \<times> 's" where
  "batch_loop env ev broker users store email [] s = ([], s)"
| "batch_loop env ev broker users store email (item # items) s =
     (case batch_step env ev broker users store email item s of (r, s1) \<Rightarrow>
        (case batch_loop env ev broker users store email items s1 of (rs, s2) \<Rightarrow> (\<lparr>br_id = bo_id item, br_outcome = r\<rparr> # rs, s2)))"

definition batch_post :: "auth_env \<Rightarrow> web_event \<Rightarrow> 's broker option \<Rightarrow> user_store \<Rightarrow> 's grant_store \<Rightarrow> batch_operation list option \<Rightarrow> 's
    \<Rightarrow> (problem + batch_result list) \<times> 's" where
  "batch_post env ev broker users store ops s = (case requireAuth env ev of Inl e \<Rightarrow> (Inl e, s)
     | Inr email \<Rightarrow> (case ops of None \<Rightarrow> (Inl (problem 400 ''Missing or empty operations array''), s)
       | Some items \<Rightarrow> if items = [] then (Inl (problem 400 ''Missing or empty operations array''), s)
           else (case batch_loop env ev broker users store email items s of (rs, s1) \<Rightarrow> (Inr rs, s1))))"

section \<open>Grants that another provider decides\<close>

datatype broker_operation = OpCreate grant_request | OpGet string | OpGetReference string | OpToken string | OpWithdraw string "string option"

type_synonym broker_ask = "agent_binding \<Rightarrow> broker_operation \<Rightarrow> string \<Rightarrow> problem + jsval"

definition maybeForwardBrokerGrant :: "auth_env \<Rightarrow> web_event \<Rightarrow> 's broker option \<Rightarrow> user_store \<Rightarrow> ssh_store \<Rightarrow> broker_ask \<Rightarrow> broker_operation
    \<Rightarrow> 's \<Rightarrow> problem + jsval option" where
  "maybeForwardBrokerGrant env ev broker users ssh ask op s = (case broker of None \<Rightarrow> Inr None
     | Some bk \<Rightarrow> (case bearer_of env ev of None \<Rightarrow> Inr None
     | Some caller \<Rightarrow> if ay_act caller \<noteq> ActType Agent \<or> truthy_str (ay_delegation_grant caller) then Inr None
         else (case bk_getAgent bk (ay_sub caller) s of None \<Rightarrow> Inr None
         | Some binding \<Rightarrow> (case (findByEmail (ay_sub caller) users, ssh_findByUser (ay_sub caller) ssh) of
             (Some u, [k]) \<Rightarrow> if \<not> us_isActive u \<or> us_type u \<noteq> Some Agent \<or> sk_keyId k \<noteq> ab_key_id binding
               then Inl (problem 403 ''Brokered agent identity or key is inactive'')
               else (case ask binding op (us_name u) of Inl e \<Rightarrow> Inl e | Inr v \<Rightarrow> Inr (Some v))
           | _ \<Rightarrow> Inl (problem 403 ''Brokered agent identity or key is inactive'')))))"

section \<open>Tokens for approved grants\<close>

datatype 'a forwarded = ForwardedTo jsval | Here 'a

definition caller_identity :: "auth_env \<Rightarrow> web_event \<Rightarrow> string option" where
  "caller_identity env ev = (case bearer_of env ev of
     Some p \<Rightarrow> if ay_sub p \<noteq> [] then Some (ay_sub p) else (case ev_session ev of Some u \<Rightarrow> u | None \<Rightarrow> None)
   | None \<Rightarrow> (case ev_session ev of Some u \<Rightarrow> u | None \<Rightarrow> None))"

definition token_grant_post :: "auth_env \<Rightarrow> web_event \<Rightarrow> 's broker option \<Rightarrow> user_store \<Rightarrow> ssh_store \<Rightarrow> broker_ask \<Rightarrow> 's grant_store \<Rightarrow> string \<Rightarrow> string
    \<Rightarrow> 's \<Rightarrow> (problem + (authz_claims \<times> grant) forwarded) \<times> 's" where
  "token_grant_post env ev broker users ssh ask store jti i s = (let who = caller_identity env ev in
     if \<not> truthy_str who then (Inl (problem 401 ''Authentication required (agent token or session)''), s)
     else if i = [] then (Inl no_grant_id, s)
     else (case maybeForwardBrokerGrant env ev broker users ssh ask (OpToken i) s of Inl e \<Rightarrow> (Inl e, s)
     | Inr (Some v) \<Rightarrow> (Inr (ForwardedTo v), s)
     | Inr None \<Rightarrow> (case introspectGrant (in_seconds env) i store s of
         (Inl e, s1) \<Rightarrow> (Inl (500, GrantText e), s1)
       | (Inr None, s1) \<Rightarrow> (Inl no_grant, s1)
       | (Inr (Some g), s1) \<Rightarrow>
           if gr_brokered g \<noteq> None then (Inl (problem 403 ''Brokered tokens must be retrieved through the authorized broker''), s1)
           else if Some (rq_requester (gr_request g)) \<noteq> who then (Inl (problem 403 ''Grant does not belong to this identity''), s1)
           else if gr_status g \<noteq> Approved then (Inl (400, GrantText (NotApproved (gr_status g))), s1)
           else (case assertScopedShapeCurrent env users g of Some e \<Rightarrow> (Inl e, s1)
             | None \<Rightarrow> (case issueAuthzJWT (in_seconds env) jti (ae_issuer env) g of
                 Inl e \<Rightarrow> (Inl (500, GrantText e), s1) | Inr c \<Rightarrow> (Inr (Here (c, g)), s1))))))"

section \<open>Spending\<close>

type_synonym token_checker = "string \<Rightarrow> string + authz_claims"

datatype consume_answer = Consumed "grant option" | StillValid grant | NotConsumable string grant_status | ByBroker consumed_answer

definition status_error :: "grant_status \<Rightarrow> string" where
  "status_error st = (case st of Used \<Rightarrow> ''already_consumed'' | Revoked \<Rightarrow> ''revoked'' | Denied \<Rightarrow> ''denied'' | Expired \<Rightarrow> ''expired''
     | Withdrawn \<Rightarrow> ''withdrawn'' | Pending \<Rightarrow> ''not_approved'' | Approved \<Rightarrow> [])"

definition consume_checked :: "auth_env \<Rightarrow> 's grant_store \<Rightarrow> string \<Rightarrow> authz_claims \<Rightarrow> grant \<Rightarrow> 's \<Rightarrow> (problem + consume_answer) \<times> 's" where
  "consume_checked env store i c g s = (if gr_status g = Used
     then (if spentByCommandToken g c then (case st_markConsumed store of None \<Rightarrow> (Inl (problem 500 ''Server Error''), s)
           | Some mark \<Rightarrow> (case mark i (ac_jti c) s of (True, s1) \<Rightarrow> (Inr (Consumed (Some g)), s1)
               | (False, s1) \<Rightarrow> (Inr (NotConsumable (status_error Used) Used), s1)))
         else (Inr (NotConsumable (status_error Used) Used), s))
     else if gr_status g \<noteq> Approved then (Inr (NotConsumable (status_error (gr_status g)) (gr_status g)), s)
     else if rq_grant_type (gr_request g) = Some Once
     then (case useGrant (in_seconds env) i store s of (Inl e, s1) \<Rightarrow> (Inl (500, GrantText e), s1) | (Inr u, s1) \<Rightarrow> (Inr (Consumed u), s1))
     else (Inr (StillValid g), s))"

definition consume_post :: "auth_env \<Rightarrow> web_event \<Rightarrow> 's broker option \<Rightarrow> user_store \<Rightarrow> token_checker \<Rightarrow> 's grant_store \<Rightarrow> string \<Rightarrow> 's
    \<Rightarrow> (problem + consume_answer) \<times> 's" where
  "consume_post env ev broker users check store i s = (if i = [] then (Inl no_grant_id, s)
     else case bearer_token (ev_authorization ev) of None \<Rightarrow> (Inl (problem 401 ''Missing or invalid Authorization header''), s)
     | Some token \<Rightarrow> (case check token of Inl m \<Rightarrow> (Inl (problem 401 (''Invalid grant token: '' @ m)), s)
     | Inr c \<Rightarrow> if ac_grant_id c \<noteq> i then (Inl (problem 400 ''Grant ID in token does not match URL''), s)
         else (case introspectGrant (in_seconds env) i store s of
           (Inl e, s1) \<Rightarrow> (Inl (500, GrantText e), s1)
         | (Inr None, s1) \<Rightarrow> (Inl no_grant, s1)
         | (Inr (Some g), s1) \<Rightarrow>
             if gr_brokered g \<noteq> None \<or> ac_brokered c \<noteq> None
             then (case broker of None \<Rightarrow> (Inl no_broker, s1)
               | Some bk \<Rightarrow> (case bk_consume bk i c s1 of (Inl e, s2) \<Rightarrow> (Inl e, s2) | (Inr a, s2) \<Rightarrow> (Inr (ByBroker a), s2)))
             else if ac_sub c \<noteq> rq_requester (gr_request g)
             then (Inl (problem 403 ''Grant requester does not match the token subject''), s1)
             else if (case findByEmail (rq_requester (gr_request g)) users of None \<Rightarrow> True | Some u \<Rightarrow> \<not> us_isActive u)
             then (Inl (problem 403 ''Grant requester is inactive or missing''), s1)
             else consume_checked env store i c g s1)))"

datatype verify_answer = NotValid string | NotValidStatus grant_status | ValidToken authz_claims "grant option" | VerifiedByBroker consumed_answer authz_claims

definition verify_post :: "auth_env \<Rightarrow> 's broker option \<Rightarrow> token_checker \<Rightarrow> 's grant_store \<Rightarrow> string option \<Rightarrow> 's \<Rightarrow> (problem + verify_answer) \<times> 's" where
  "verify_post env broker check store token s = (if \<not> truthy_str token then (Inr (NotValid ''Missing token''), s)
     else case check (the token) of Inl m \<Rightarrow> (Inr (NotValid m), s)
     | Inr c \<Rightarrow> if ac_grant_id c = [] then (Inr (NotValid ''Missing grant_id in token''), s)
         else (case introspectGrant (in_seconds env) (ac_grant_id c) store s of
           (Inl e, s1) \<Rightarrow> (Inl (500, GrantText e), s1)
         | (Inr None, s1) \<Rightarrow> (Inr (NotValid ''Grant not found''), s1)
         | (Inr (Some g), s1) \<Rightarrow>
             if gr_brokered g \<noteq> None \<or> ac_brokered c \<noteq> None
             then (case broker of None \<Rightarrow> (Inl no_broker, s1)
               | Some bk \<Rightarrow> (case bk_consume bk (ac_grant_id c) c s1 of (Inl e, s2) \<Rightarrow> (Inl e, s2) | (Inr a, s2) \<Rightarrow> (Inr (VerifiedByBroker a c), s2)))
             else if gr_status g \<noteq> Approved then (Inr (NotValidStatus (gr_status g)), s1)
             else if rq_grant_type (gr_request g) = Some Once
             then (case useGrant (in_seconds env) (ac_grant_id c) store s1 of
                 (Inl e, s2) \<Rightarrow> (Inl (500, GrantText e), s2) | (Inr u, s2) \<Rightarrow> (Inr (ValidToken c u), s2))
             else (Inr (ValidToken c (Some g)), s1)))"

section \<open>Withdrawing\<close>

text \<open>\<open>limited\<close> is what the rate limiter throws for a caller without a token; \<open>other\<close> as in \<open>withdrawReferencedGrant\<close>.\<close>

definition withdraw_post :: "auth_env \<Rightarrow> web_event \<Rightarrow> problem option \<Rightarrow> 's broker option \<Rightarrow> user_store \<Rightarrow> ssh_store \<Rightarrow> broker_ask \<Rightarrow> 's grant_store
    \<Rightarrow> ('s \<Rightarrow> 's) \<Rightarrow> jsval \<Rightarrow> 's \<Rightarrow> (problem + withdraw_result) \<times> 's" where
  "withdraw_post env ev limited broker users ssh ask store other body s = (case bearer_of env ev of
     None \<Rightarrow> (Inl (nullish limited (problem 401 ''Authentication required: only the requester can withdraw its request'')), s)
   | Some caller \<Rightarrow> if truthy_str (ay_delegation_grant caller) then (Inl (problem 403 ''A delegated session cannot withdraw requests''), s)
     else (case parseGrantWithdrawRequest body of Inl e \<Rightarrow> (Inl (400, GrantText e), s)
     | Inr (reference, reason) \<Rightarrow> (case maybeForwardBrokerGrant env ev broker users ssh ask (OpWithdraw reference reason) s of
         Inl e \<Rightarrow> (Inl e, s)
       | Inr (Some v) \<Rightarrow> (case parseGrantWithdrawResult v of
           Inl _ \<Rightarrow> (Inl (problem 503 ''The decision identity provider returned an invalid withdrawal answer''), s) | Inr r \<Rightarrow> (Inr r, s))
       | Inr None \<Rightarrow> (case findByEmail (ay_sub caller) users of None \<Rightarrow> (Inl (problem 403 ''The requester account is inactive or missing''), s)
         | Some u \<Rightarrow> if \<not> us_isActive u then (Inl (problem 403 ''The requester account is inactive or missing''), s)
             else if st_withdraw store = None then (Inl (problem 501 ''This store does not support withdrawing grant requests''), s)
             else refused_with 500 (withdrawReferencedGrant (in_seconds env) (grantReferenceKey (ay_sub caller) reference None) reason store other s)))))"


section \<open>What an approval rests on\<close>

text \<open>The same parties: what no approval changes of a grant.\<close>

definition same_parties :: "grant \<Rightarrow> grant \<Rightarrow> bool" where
  "same_parties g h \<longleftrightarrow> gr_id g = gr_id h \<and> gr_brokered g = gr_brokered h \<and>
     rq_requester (gr_request g) = rq_requester (gr_request h) \<and> rq_target_host (gr_request g) = rq_target_host (gr_request h) \<and>
     rq_audience (gr_request g) = rq_audience (gr_request h)"

lemma same_parties_refl [simp]: "same_parties g g"
  by (simp add: same_parties_def)

lemma same_parties_trans: "same_parties g h \<Longrightarrow> same_parties h k \<Longrightarrow> same_parties g k"
  by (simp add: same_parties_def)

lemma approved_parties: "same_parties (approved_grant now a ov g) g"
  by (simp add: same_parties_def approved_grant_def approval_patch_def)

lemma approved_decider: "gr_decided_by (approved_grant now a ov g) = Some a"
  by (simp add: approved_grant_def approval_patch_def apply_patch_def)

lemma extended_parties: "same_parties (apply_patch g Pending (no_patch\<lparr>p_request := Some (extended_request coll m (gr_request g) ds)\<rparr>)) g"
  by (simp add: same_parties_def extended_request_def)

lemma refused_with_ok: "refused_with n x = (Inr r, s) \<longleftrightarrow> x = (Inr r, s)"
  by (cases x; cases "fst x") auto

lemma refused_with_state: "snd (refused_with n x) = snd x"
  by (cases x; cases "fst x") auto

context grant_store_laws
begin

lemma approve_decided:
  assumes "inv s" "approveGrant now i a store ov s = (Inr r, s')"
  shows "\<exists>g h. st_findById store i s = Some g \<and> gr_status g = Pending \<and> r = Some h \<and> st_findById store i s' = Some h \<and>
    gr_status h = Approved \<and> gr_decided_by h = Some a \<and> same_parties h g"
  using approve_cases [OF assms] approved_parties [of now a ov]
  by (auto simp: approved_decider changed_one_def approvable_def)

lemma extension_decided:
  assumes "inv s" "approveGrantWithExtension coll now i a store mode ids ov s = (Inr r, s')"
  shows "\<exists>g h. st_findById store i s = Some g \<and> gr_status g = Pending \<and> r = Some h \<and> st_findById store i s' = Some h \<and>
    gr_status h = Approved \<and> gr_decided_by h = Some a \<and> same_parties h g"
proof -
  obtain g where g: "st_findById store i s = Some g" "gr_status g = Pending"
      "\<not> (truthy_str (rq_reference (gr_request g)) \<or> has_single_use (gr_request g))"
    using assms(2) by (auto simp: approveGrantWithExtension_def split: option.splits if_splits)
  obtain olds where olds: "collect_old store g ids s = Inr olds"
    using assms(2) g by (cases "collect_old store g ids s") (simp_all add: approveGrantWithExtension_def)
  let ?patch = "no_patch\<lparr>p_request := Some (extended_request coll mode (gr_request g) (extended_details coll mode g olds))\<rparr>"
  have unref: "\<not> truthy_str (rq_reference (gr_request g))" using g(3) by blast
  obtain s1 where u: "st_updateStatus store i Pending ?patch s = (Inr (), s1)" "inv s1"
      "\<forall>j. st_findById store j s1 = (if j = i then Some (apply_patch g Pending ?patch) else st_findById store j s)"
    using update_law [OF assms(1) g(1) binding_kept_unreferenced [OF unref]] by blast
  obtain y s2 where ra: "revoke_all store (map gr_id olds) s1 = (y, s2)" by fastforce
  let ?ov = "no_overrides\<lparr>ao_grant_type := ao_grant_type ov, ao_duration := ao_duration ov\<rparr>"
  have step: "(case y of Inl e \<Rightarrow> (Inl e, s2) | Inr _ \<Rightarrow> approveGrant now i a store ?ov s2) = (Inr r, s')"
    using assms(2) g olds u(1) ra by (cases y) (simp_all add: approveGrantWithExtension_def)
  then obtain v where y: "y = Inr v" by (cases y) simp_all
  note rall = revoke_all_ok [OF u(2) ra [unfolded y]]
  have "list_all2 (\<lambda>j old. st_findById store j s = Some old \<and> old_ok g old) ids olds" by (rule collect_old_ok [OF olds])
  then have oldids: "map gr_id olds = ids \<and> (\<forall>j\<in>set ids. \<exists>old. st_findById store j s = Some old \<and> gr_status old = Approved)"
    by (induction rule: list_all2_induct) (use id_law [OF assms(1)] in \<open>auto simp: old_ok_def\<close>)
  then have "i \<notin> set ids" using g by auto
  then have at: "st_findById store i s2 = Some (apply_patch g Pending ?patch)" using rall u(3) oldids by simp
  have "approveGrant now i a store ?ov s2 = (Inr r, s')" using step y by simp
  with approve_decided [OF _ this] rall at obtain h where "r = Some h" "st_findById store i s' = Some h" "gr_status h = Approved"
      "gr_decided_by h = Some a" "same_parties h (apply_patch g Pending ?patch)" by auto
  with g same_parties_trans [OF _ extended_parties] show ?thesis by blast
qed

lemma widening_decided:
  assumes "inv s" "approveGrantWithWidening coll now i a store widened ov s = (Inr r, s')"
  shows "\<exists>g h. st_findById store i s = Some g \<and> gr_status g = Pending \<and> r = Some h \<and> st_findById store i s' = Some h \<and>
    gr_status h = Approved \<and> gr_decided_by h = Some a \<and> same_parties h g"
proof -
  obtain g where g: "st_findById store i s = Some g" "gr_status g = Pending"
      "\<not> (truthy_str (rq_reference (gr_request g)) \<or> has_single_use (gr_request g))"
    using assms(2) by (auto simp: approveGrantWithWidening_def split: option.splits if_splits)
  have len: "grant_details g \<noteq> []" "length widened = length (grant_details g)"
    using assms(2) g by (simp_all add: approveGrantWithWidening_def Let_def split: if_splits)
  obtain ds where ds: "widen_all coll 0 widened (grant_details g) = Inr ds"
    using assms(2) g len by (cases "widen_all coll 0 widened (grant_details g)") (simp_all add: approveGrantWithWidening_def Let_def)
  let ?patch = "no_patch\<lparr>p_request := Some ((gr_request g)\<lparr>rq_authorization_details := Some (map CliDetail ds),
      rq_permissions := Some (map cd_permission ds), rq_command := None, rq_cmd_hash := None\<rparr>)\<rparr>"
  have unref: "\<not> truthy_str (rq_reference (gr_request g))" using g(3) by blast
  obtain s1 where u: "st_updateStatus store i Pending ?patch s = (Inr (), s1)" "inv s1"
      "\<forall>j. st_findById store j s1 = (if j = i then Some (apply_patch g Pending ?patch) else st_findById store j s)"
    using update_law [OF assms(1) g(1) binding_kept_unreferenced [OF unref]] by blast
  have "approveGrant now i a store (no_overrides\<lparr>ao_grant_type := ao_grant_type ov, ao_duration := ao_duration ov\<rparr>) s1 = (Inr r, s')"
    using assms(2) g len ds u(1) by (simp add: approveGrantWithWidening_def Let_def)
  with approve_decided [OF u(2) this] u(3) obtain h where "r = Some h" "st_findById store i s' = Some h" "gr_status h = Approved"
      "gr_decided_by h = Some a" "same_parties h (apply_patch g Pending ?patch)" by auto
  moreover have "same_parties (apply_patch g Pending ?patch) g" by (simp add: same_parties_def)
  ultimately show ?thesis using g(1,2) same_parties_trans by blast
qed

lemma asked_decided:
  assumes "inv s" "approve_as_asked env i email store b s = (Inr r, s')"
  shows "\<exists>g h. st_findById store i s = Some g \<and> gr_status g = Pending \<and> r = Some h \<and> st_findById store i s' = Some h \<and>
    gr_status h = Approved \<and> gr_decided_by h = Some email \<and> same_parties h g"
  using assms(2) unfolding approve_as_asked_def Let_def
  by (auto simp: refused_with_ok split: if_splits option.splits
      dest: approve_decided [OF assms(1)] extension_decided [OF assms(1)] widening_decided [OF assms(1)])

end

lemma token_of_approved_ok:
  "token_of_approved env jti g = Inr (a, c) \<longleftrightarrow> g = Some a \<and> issueAuthzJWT (in_seconds env) jti (ae_issuer env) a = Inr c"
  by (auto simp: token_of_approved_def split: option.splits sum.splits)

lemma approve_and_signD:
  assumes "approve_and_sign env broker store jti i email b s = (Inr (a, c), s')"
  shows "\<exists>s1. approve_as_asked env i email store b s = (Inr (Some a), s1) \<and>
    issueAuthzJWT (in_seconds env) jti (ae_issuer env) a = Inr c \<and> (gr_brokered a = None \<longrightarrow> s' = s1)"
proof -
  obtain r s1 where r: "approve_as_asked env i email store b s = (r, s1)" by fastforce
  then obtain g where g: "r = Inr g" using assms by (cases r) (simp_all add: approve_and_sign_def)
  with r assms have "token_of_approved env jti g = Inr (a, c) \<and> (gr_brokered a = None \<longrightarrow> s' = s1)"
    by (auto simp: approve_and_sign_def split: sum.splits if_splits option.splits prod.splits)
  with r g show ?thesis by (auto simp: token_of_approved_ok)
qed

lemma approve_postD:
  assumes "approve_post env ev broker users store jti i b s = (Inr (a, c), s')"
  shows "\<exists>email g. requireAuth env ev = Inr email \<and> st_findById store i s = Some g \<and>
    requireGrantActionAuthority env ev broker users g email ActApprove s = None \<and> assertScopedShapeCurrent env users g = None \<and>
    (gr_brokered g \<noteq> None \<longrightarrow> \<not> has_widened b \<and> \<not> has_extend b) \<and>
    approve_and_sign env broker store jti i email b s = (Inr (a, c), s')"
  using assms by (auto simp: approve_post_def split: if_splits sum.splits option.splits)

lemma authority_approve:
  "requireGrantActionAuthority env ev broker users g email ActApprove s = None \<longleftrightarrow>
    (if gr_brokered g = None then email = ''_management_'' \<or> (\<exists>u. findByEmail (rq_requester (gr_request g)) users = Some u \<and> may_approve u email)
     else \<exists>owner. requireBrokerGrantOwner env ev broker users g True s = Inr owner)"
  by (auto simp: requireGrantActionAuthority_def Let_def split: sum.splits option.splits if_splits)


definition ex_env :: auth_env where
  "ex_env = \<lparr>ae_managementToken = [], ae_adminEmails = [], ae_contextAdmins = None, ae_adminResolver = None, ae_rootResolver = None,
     ae_issuer = ''idp'', ae_verify = (\<lambda>t i a n. Inl ''no''), ae_now = 5000, ae_coll = (\<le>), ae_shapes = createInMemoryShapeStore []\<rparr>"

definition ex_event :: "string \<Rightarrow> web_event" where
  "ex_event u = \<lparr>ev_authorization = None, ev_origin = None, ev_method = ''POST'', ev_session = Some (Some u)\<rparr>"

definition ex_user :: "string \<Rightarrow> string option \<Rightarrow> actor_type option \<Rightarrow> user" where
  "ex_user e owner ty = \<lparr>us_email = e, us_name = e, us_owner = owner, us_approver = None, us_type = ty, us_isActive = True, us_createdAt = 0,
     us_lastLoginAt = None, us_recoveryVacationMode = None, us_recoveryVacationDays = None\<rparr>"

definition ex_users :: user_store where
  "ex_users = [(''bot'', ex_user ''bot'' (Some ''ada'') (Some Agent)), (''ada'', ex_user ''ada'' None None)]"

definition plain_body :: approve_body where
  "plain_body = \<lparr>ab_grant_type = None, ab_duration = None, ab_widened = None, ab_extend_mode = None, ab_extend_ids = None\<rparr>"

lemma ex_session [simp]: "u \<noteq> [] \<Longrightarrow> requireAuth ex_env (ex_event u) = Inr u"
  by (simp add: requireAuth_def checkManagementToken_def ex_event_def session_user_def)

lemma ex_no_bearer [simp]: "bearer_of ex_env (ex_event u) = None"
  by (simp add: bearer_of_def tryBearerAuth_def bearer_token_def ex_event_def)

lemma ex_found [simp]: "findByEmail ''bot'' ex_users = Some (ex_user ''bot'' (Some ''ada'') (Some Agent))"
  "findByEmail ''ada'' ex_users = Some (ex_user ''ada'' None None)"
  by (simp_all add: findByEmail_def ex_users_def)

lemma ex_no_details [simp]: "gr_brokered g = None \<Longrightarrow> rq_execution_context (gr_request g) = None \<Longrightarrow>
    rq_authorization_details (gr_request g) = None \<Longrightarrow> assertScopedShapeCurrent env users g = None"
  by (simp add: assertScopedShapeCurrent_def tier_of_def no_tier_def truthy_str_def)

definition ex_pending :: grant where
  "ex_pending = new_grant ''g'' None ((plain_request ''bot'' ''host'' ''apes'')\<lparr>rq_grant_type := Some Once\<rparr>) Pending 1"

definition ex_pending_store :: mem_store where
  "ex_pending_store = put_grant ''g'' ex_pending empty_mem"

lemma ex_pending_simps [simp]:
  "gr_brokered ex_pending = None" "gr_id ex_pending = ''g''" "gr_status ex_pending = Pending" "rq_requester (gr_request ex_pending) = ''bot''"
  "rq_grant_type (gr_request ex_pending) = Some Once" "rq_reference (gr_request ex_pending) = None" "gr_decided_by ex_pending = None"
  "rq_authorization_details (gr_request ex_pending) = None" "rq_execution_context (gr_request ex_pending) = None"
  "mem_findById ''g'' ex_pending_store = Some ex_pending"
  by (simp_all add: ex_pending_def ex_pending_store_def plain_request_def)

lemma ex_pending_inv: "mem_inv ex_pending_store"
  unfolding ex_pending_store_def by (rule mem_inv_put [OF mem_inv_empty]) simp

lemma ex_pending_approved:
  "\<exists>s'. approveGrant now ''g'' a InMemoryGrantStore no_overrides ex_pending_store = (Inr (Some (approved_grant now a no_overrides ex_pending)), s')"
proof -
  have "approvable no_overrides ex_pending" "binding_kept ex_pending p" for p
    by (simp_all add: approvable_def binding_kept_def effective_type_def effective_duration_def no_overrides_def has_single_use_def truthy_str_def)
  with mem.approve_ok [OF ex_pending_inv, of "''g''" ex_pending no_overrides now a] show ?thesis by fastforce
qed

lemma ex_pending_token:
  "\<exists>c. token_of_approved env j (Some (approved_grant now a no_overrides ex_pending)) = Inr (approved_grant now a no_overrides ex_pending, c)"
proof -
  have "rq_grant_type (gr_request (approved_grant now a no_overrides ex_pending)) = Some Once"
    by (simp add: approved_grant_def approval_patch_def effective_type_def no_overrides_def)
  then show ?thesis by (simp add: token_of_approved_def issueAuthzJWT_def Let_def)
qed

lemma plain_body_simps [simp]: "override_problem plain_body = None" "\<not> has_widened plain_body" "\<not> has_extend plain_body" "body_type plain_body = None"
  by (simp_all add: override_problem_def plain_body_def has_widened_def has_extend_def body_type_def truthy_str_def)

lemma approve_plain [simp]: "approve_as_asked env i email store plain_body s = refused_with 400 (approveGrant (in_seconds env) i email store no_overrides s)"
  by (simp add: approve_as_asked_def Let_def)


section \<open>Batches against single calls\<close>

text \<open>What a batch records of the answer of the single endpoint.\<close>

definition recorded :: "problem + grant option \<Rightarrow> problem + grant_status" where
  "recorded r = (case r of Inl e \<Rightarrow> Inl e | Inr None \<Rightarrow> Inl (problem 400 ''Cannot read properties of null (reading status)'')
     | Inr (Some g) \<Rightarrow> Inr (gr_status g))"

lemma batch_step_eq:
  assumes "action_of (bo_action item) = Some act" "st_findById store (bo_id item) s = Some g"
    "requireGrantActionAuthority env ev broker users g email act s = None"
  shows "batch_step env ev broker users store email item s =
    (recorded (fst (run_action env store email item act s)), snd (run_action env store email item act s))"
  using assms by (cases "run_action env store email item act s") (auto simp: batch_step_def recorded_def split: sum.split option.split)

lemma batch_deny:
  assumes "requireAuth env ev = Inr email" "bo_id item \<noteq> []" "bo_action item = ''deny''"
  shows "batch_step env ev broker users store email item s =
      (recorded (fst (deny_post env ev broker users store (bo_id item) s)), snd (deny_post env ev broker users store (bo_id item) s))"
  using assms by (cases "refused_with 400 (denyGrant (in_seconds env) (bo_id item) email store s)")
    (auto simp: batch_step_def deny_post_def action_of_def recorded_def run_action_def split: option.split sum.split)

lemma batch_revoke:
  assumes "revoke_identity env ev = Inr email" "bo_id item \<noteq> []" "bo_action item = ''revoke''"
  shows "batch_step env ev broker users store email item s =
      (recorded (fst (revoke_grant_post env ev broker users store (bo_id item) s)), snd (revoke_grant_post env ev broker users store (bo_id item) s))"
  using assms by (cases "refused_with 400 (revokeGrant (bo_id item) store s)")
    (auto simp: batch_step_def revoke_grant_post_def action_of_def recorded_def run_action_def split: option.split sum.split)

text \<open>\<open>plain_as body item\<close>: a body of the single endpoint that asks for the override of the batch member and nothing else.\<close>

definition plain_as :: "approve_body \<Rightarrow> batch_operation \<Rightarrow> bool" where
  "plain_as body item = (body_type body = bo_grant_type item \<and> ab_duration body = bo_duration item \<and> \<not> has_widened body \<and> \<not> has_extend body)"

definition item_overrides :: "batch_operation \<Rightarrow> approve_overrides" where
  "item_overrides item = (if bo_grant_type item = None then no_overrides
     else no_overrides\<lparr>ao_grant_type := bo_grant_type item, ao_duration := bo_duration item\<rparr>)"

lemma approve_as_plain: "plain_as body item \<Longrightarrow>
    approve_as_asked env i email store body s = refused_with 400 (approveGrant (in_seconds env) i email store (item_overrides item) s)"
  by (simp add: approve_as_asked_def plain_as_def item_overrides_def Let_def)

lemma approve_and_sign_state:
  assumes "mem_inv s" "mem_findById i s = Some g" "gr_brokered g = None" "plain_as body item"
  shows "snd (approve_and_sign env broker InMemoryGrantStore jti i email body s) =
    snd (approveGrant (in_seconds env) i email InMemoryGrantStore (item_overrides item) s)"
proof (cases "approveGrant (in_seconds env) i email InMemoryGrantStore (item_overrides item) s")
  case (Pair r s1)
  show ?thesis
  proof (cases r)
    case (Inr h)
    obtain a where a: "h = Some a" "same_parties a g"
      using mem.approve_decided [OF assms(1) Pair [unfolded Inr]] assms(2) by auto
    then have "gr_brokered a = None" using assms(3) by (simp add: same_parties_def)
    with Pair Inr a(1) show ?thesis by (auto simp: approve_and_sign_def approve_as_plain [OF assms(4)] token_of_approved_def split: sum.split)
  qed (use Pair in \<open>simp add: approve_and_sign_def approve_as_plain [OF assms(4)]\<close>)
qed

lemma run_approve: "run_action env store email item ActApprove s = refused_with 400 (approveGrant (in_seconds env) (bo_id item) email store (item_overrides item) s)"
  by (simp add: run_action_def item_overrides_def)

lemma batch_approve:
  assumes "requireAuth env ev = Inr email" "bo_id item \<noteq> []" "bo_action item = ''approve''" "plain_as body item" "override_problem body = None" "mem_inv s"
    "mem_findById (bo_id item) s = Some g" "gr_brokered g = None" "assertScopedShapeCurrent env users g = None"
  shows "snd (batch_step env ev broker users InMemoryGrantStore email item s) =
    snd (approve_post env ev broker users InMemoryGrantStore jti (bo_id item) body s)"
proof (cases "requireGrantActionAuthority env ev broker users g email ActApprove s")
  case None
  have single: "approve_post env ev broker users InMemoryGrantStore jti (bo_id item) body s = approve_and_sign env broker InMemoryGrantStore jti (bo_id item) email body s"
    using assms None by (simp add: approve_post_def plain_as_def)
  have "snd (batch_step env ev broker users InMemoryGrantStore email item s) = snd (run_action env InMemoryGrantStore email item ActApprove s)"
    using batch_step_eq [of item ActApprove InMemoryGrantStore s g env ev broker users email] assms(3,7) None by (simp add: action_of_def)
  also have "\<dots> = snd (approveGrant (in_seconds env) (bo_id item) email InMemoryGrantStore (item_overrides item) s)"
    by (simp add: run_approve refused_with_state)
  finally show ?thesis unfolding single approve_and_sign_state [OF assms(6,7,8,4)] .
next
  case (Some e)
  with assms show ?thesis by (simp add: batch_step_def approve_post_def action_of_def)
qed


lemma ex_revoker [simp]: "u \<noteq> [] \<Longrightarrow> revoke_identity ex_env (ex_event u) = Inr u"
  by (simp add: revoke_identity_def)

definition ex_item :: "string \<Rightarrow> batch_operation" where
  "ex_item a = \<lparr>bo_id = ''g'', bo_action = a, bo_grant_type = None, bo_duration = None\<rparr>"

lemma ex_item_simps [simp]: "bo_id (ex_item a) = ''g''" "bo_action (ex_item a) = a" "bo_grant_type (ex_item a) = None"
  by (simp_all add: ex_item_def)

definition hourly :: approve_body where
  "hourly = plain_body\<lparr>ab_grant_type := Some ''timed'', ab_duration := Some 3600\<rparr>"


text \<open>
  A batch approves what the single endpoint refuses. A grant that was requested with a personal or domain shape that
  has changed since is refused by the single endpoint with the problem of the shape check; the same approval in a batch goes
  through, because the batch never asks for the shape.
\<close>

theorem batch_skips_shape_check:
  assumes "mem_inv s" "mem_findById (bo_id item) s = Some g" "approvable no_overrides g"
    "binding_kept g (approval_patch (in_seconds env) email (gr_request g) (effective_type no_overrides (gr_request g))
       (effective_duration no_overrides (gr_request g)))"
    and "requireAuth env ev = Inr email" "bo_id item \<noteq> []" "bo_action item = ''approve''" "bo_grant_type item = None"
    and "requireGrantActionAuthority env ev broker users g email ActApprove s = None" "assertScopedShapeCurrent env users g = Some e"
  shows "approve_post env ev broker users InMemoryGrantStore jti (bo_id item) plain_body s = (Inl e, s) \<and>
    fst (batch_step env ev broker users InMemoryGrantStore email item s) = Inr Approved"
proof
  show "approve_post env ev broker users InMemoryGrantStore jti (bo_id item) plain_body s = (Inl e, s)"
    using assms by (simp add: approve_post_def)
  have at: "st_findById InMemoryGrantStore (bo_id item) s = Some g" using assms(2) by simp
  obtain s' where "approveGrant (in_seconds env) (bo_id item) email InMemoryGrantStore no_overrides s =
      (Inr (Some (approved_grant (in_seconds env) email no_overrides g)), s')"
    using mem.approve_ok [OF assms(1) at assms(3,4)] by blast
  then show "fst (batch_step env ev broker users InMemoryGrantStore email item s) = Inr Approved"
    using assms(2,7,8,9) by (simp add: batch_step_eq action_of_def run_action_def recorded_def)
qed

definition ex_tiered :: grant where
  "ex_tiered = new_grant ''g'' None ((plain_request ''bot'' ''host'' ''apes'')\<lparr>rq_grant_type := Some Once,
     rq_execution_context := Some ((cc_executionContext example_call)\<lparr>ec_adapter_owner := Some ''ada''\<rparr>)\<rparr>) Pending 1"

theorem batch_skips_shape_check_witness:
  "\<exists>e s. approve_post ex_env (ex_event ''ada'') None ex_users InMemoryGrantStore ''j'' ''g'' plain_body s = (Inl e, s) \<and>
     fst (batch_step ex_env (ex_event ''ada'') None ex_users InMemoryGrantStore ''ada'' (ex_item ''approve'') s) = Inr Approved"
proof -
  let ?s = "put_grant ''g'' ex_tiered empty_mem"
  have r: "gr_request ex_tiered = (plain_request ''bot'' ''host'' ''apes'')\<lparr>rq_grant_type := Some Once,
     rq_execution_context := Some ((cc_executionContext example_call)\<lparr>ec_adapter_owner := Some ''ada''\<rparr>)\<rparr>"
    "gr_status ex_tiered = Pending" "gr_brokered ex_tiered = None" "gr_id ex_tiered = ''g''" by (simp_all add: ex_tiered_def)
  have inv: "mem_inv ?s" by (rule mem_inv_put [OF mem_inv_empty]) (rule r(4))
  have f: "mem_findById (bo_id (ex_item ''approve'')) ?s = Some ex_tiered" by simp
  have ap: "approvable no_overrides ex_tiered"
    by (simp add: approvable_def r no_overrides_def effective_type_def effective_duration_def has_single_use_def plain_request_def truthy_str_def)
  have bk: "binding_kept ex_tiered p" for p by (rule binding_kept_unreferenced) (simp add: r plain_request_def truthy_str_def)
  have au: "requireGrantActionAuthority ex_env (ex_event ''ada'') None ex_users ex_tiered ''ada'' ActApprove ?s = None"
    by (simp add: requireGrantActionAuthority_def r plain_request_def may_approve_def ex_user_def)
  obtain e where e: "assertScopedShapeCurrent ex_env ex_users ex_tiered = Some e"
    by (simp add: assertScopedShapeCurrent_def r plain_request_def tier_of_def truthy_str_def Let_def)
  have id: "bo_id (ex_item ''approve'') \<noteq> []" "bo_action (ex_item ''approve'') = ''approve''" "bo_grant_type (ex_item ''approve'') = None"
    "requireAuth ex_env (ex_event ''ada'') = Inr ''ada''" by simp_all
  show ?thesis using batch_skips_shape_check [OF inv f ap bk id(4) id(1-3) au e, of "''j''"]
    by (intro exI [of _ e] exI [of _ ?s]) simp
qed

section \<open>Spending a single-use grant\<close>

lemma introspect_once:
  assumes "st_findById store i s = Some g" "gr_status g \<noteq> Approved \<or> rq_grant_type (gr_request g) = Some Once"
  shows "introspectGrant now i store s = (Inr (Some g), s)"
  using assms by (auto simp: introspectGrant_def isGrantExpired_def)

lemma consume_postD:
  assumes "consume_post env ev broker users check store i s = (Inr (Consumed u), s')" "st_findById store i s = Some g"
    "gr_status g = Approved" "rq_grant_type (gr_request g) = Some Once"
  shows "useGrant (in_seconds env) i store s = (Inr u, s')"
proof -
  have i: "introspectGrant (in_seconds env) i store s = (Inr (Some g), s)" by (rule introspect_once) (use assms in simp_all)
  have "\<exists>c. consume_checked env store i c g s = (Inr (Consumed u), s')"
    using assms(1) by (auto simp: consume_post_def i split: if_splits option.splits sum.splits prod.splits)
  with assms(3,4) show ?thesis by (auto simp: consume_checked_def split: prod.splits sum.splits)
qed

lemma verify_postD:
  assumes "verify_post env broker check store token s = (Inr (ValidToken c u), s')" "ac_grant_id c = i" "st_findById store i s = Some g"
    "gr_status g = Approved" "rq_grant_type (gr_request g) = Some Once"
  shows "useGrant (in_seconds env) i store s = (Inr u, s')"
proof -
  have c: "check (the token) = Inr c"
    using assms(1) by (auto simp: verify_post_def split: if_splits option.splits sum.splits prod.splits)
  have i: "introspectGrant (in_seconds env) i store s = (Inr (Some g), s)" by (rule introspect_once) (use assms in simp_all)
  show ?thesis using assms(1,2,4,5) by (auto simp: verify_post_def c i split: if_splits option.splits sum.splits prod.splits)
qed

lemma used_not_spendable:
  assumes "st_findById store i s = Some g" "gr_status g = Used"
  shows "fst (verify_post env broker check store token s) = Inr (ValidToken c u) \<Longrightarrow> ac_grant_id c \<noteq> i"
    "fst (consume_post env ev broker users check store i s) = Inr (Consumed u) \<Longrightarrow>
       \<exists>t c. bearer_token (ev_authorization ev) = Some t \<and> check t = Inr c \<and> ac_argv_hash c \<noteq> None"
    "fst (consume_post env ev broker users check store i s) \<noteq> Inr (StillValid h)"
proof -
  have i: "introspectGrant now i store s = (Inr (Some g), s)" for now by (rule introspect_once) (use assms in simp_all)
  show "ac_grant_id c \<noteq> i" if v: "fst (verify_post env broker check store token s) = Inr (ValidToken c u)"
  proof
    assume c: "ac_grant_id c = i"
    have "check (the token) = Inr c" using v by (auto simp: verify_post_def split: if_splits option.splits sum.splits prod.splits)
    with v c assms(2) show False by (auto simp: verify_post_def i split: if_splits option.splits sum.splits prod.splits)
  qed
  show "fst (consume_post env ev broker users check store i s) = Inr (Consumed u) \<Longrightarrow>
       \<exists>t c. bearer_token (ev_authorization ev) = Some t \<and> check t = Inr c \<and> ac_argv_hash c \<noteq> None"
    using assms(2) by (auto simp: consume_post_def i consume_checked_def spentByCommandToken_def split: if_splits option.splits sum.splits prod.splits)
  show "fst (consume_post env ev broker users check store i s) \<noteq> Inr (StillValid h)"
    using assms(2) by (auto simp: consume_post_def i consume_checked_def split: if_splits option.splits sum.splits prod.splits bool.splits)
qed

text \<open>
  A single-use grant is redeemed once. When an approved single-use grant was redeemed at the consume or the verify
  endpoint, the grant had been approved and is used now; after any further run of grant operations, no token of the grant verifies
  again, none keeps it valid, and the only tokens that are still consumed are command tokens, which are bound to one call.
\<close>

theorem redeemed_once:
  assumes "mem_inv s" "mem_findById i s = Some g" "gr_status g = Approved" "rq_grant_type (gr_request g) = Some Once"
    and "consume_post env ev broker users check InMemoryGrantStore i s = (Inr (Consumed u), s1) \<or>
      (\<exists>c. verify_post env broker check InMemoryGrantStore token s = (Inr (ValidToken c u), s1) \<and> ac_grant_id c = i)"
    and "lc_run s1 es s2"
  shows "(\<exists>h. mem_findById i s1 = Some h \<and> gr_status h = Used) \<and>
    (\<forall>env' broker' check' t c v. fst (verify_post env' broker' check' InMemoryGrantStore t s2) = Inr (ValidToken c v) \<longrightarrow> ac_grant_id c \<noteq> i) \<and>
    (\<forall>env' ev' broker' users' check' h. fst (consume_post env' ev' broker' users' check' InMemoryGrantStore i s2) \<noteq> Inr (StillValid h)) \<and>
    (\<forall>env' ev' broker' users' check' v. fst (consume_post env' ev' broker' users' check' InMemoryGrantStore i s2) = Inr (Consumed v) \<longrightarrow>
      (\<exists>t c. bearer_token (ev_authorization ev') = Some t \<and> check' t = Inr c \<and> ac_argv_hash c \<noteq> None))"
proof -
  have u: "useGrant (in_seconds env) i InMemoryGrantStore s = (Inr u, s1)"
    using assms(5) consume_postD [of env ev broker users check InMemoryGrantStore i s u s1 g] assms(2-4)
      verify_postD [of env broker check InMemoryGrantStore token s _ u s1 i g] by auto
  obtain h where h: "mem_findById i s = Some h" "mem_inv s1"
    "\<And>j. mem_findById j s1 = (if j = i then Some (if rq_grant_type (gr_request h) = Some Once
        then h\<lparr>gr_status := Used, gr_used_at := Some (in_seconds env)\<rparr> else h) else mem_findById j s)"
    using mem.use_ok [OF assms(1) _ u] unfolding mem_store_simps by blast
  then have f1: "mem_findById i s1 = Some (g\<lparr>gr_status := Used, gr_used_at := Some (in_seconds env)\<rparr>)" using assms(2,4) by simp
  obtain g2 where g2: "mem_findById i s2 = Some g2" "gr_status g2 = Used"
    using terminal_run [OF assms(6) h(2) f1] by (auto simp: terminal_def)
  have at: "st_findById InMemoryGrantStore i s2 = Some g2" using g2(1) by simp
  show ?thesis using f1 used_not_spendable [OF at g2(2)] by auto
qed

definition ex_authz_claims :: authz_claims where
  "ex_authz_claims = base_claims 1 301 ''j'' ''idp'' (the (mem_findById ''g'' approved_store))"

definition ex_bearer_event :: web_event where
  "ex_bearer_event = \<lparr>ev_authorization = Some ''Bearer t'', ev_origin = None, ev_method = ''POST'', ev_session = None\<rparr>"

theorem redeemed_once_witness:
  "\<exists>u s1. consume_post ex_env ex_bearer_event None [(''b'', ex_user ''b'' None None)] (\<lambda>t. Inr ex_authz_claims) InMemoryGrantStore ''g'' approved_store =
     (Inr (Consumed u), s1) \<and> (\<exists>h. mem_findById ''g'' s1 = Some h \<and> gr_status h = Used)"
proof -
  let ?g = "new_grant ''g'' None ((plain_request ''b'' ''h'' ''a'')\<lparr>rq_grant_type := Some Once\<rparr>) Approved 1"
  have inv: "mem_inv approved_store" unfolding approved_store_def by (rule mem_inv_put [OF mem_inv_empty]) simp
  have f: "mem_findById ''g'' approved_store = Some ?g" by (simp add: approved_store_def)
  have g: "gr_status ?g = Approved" "rq_grant_type (gr_request ?g) = Some Once" by simp_all
  have b: "bearer_token (ev_authorization ex_bearer_event) = Some ''t''" by (simp add: ex_bearer_event_def bearer_token_def)
  have c: "ac_grant_id ex_authz_claims = ''g''" "ac_brokered ex_authz_claims = None" "ac_sub ex_authz_claims = ''b''"
    by (simp_all add: ex_authz_claims_def f plain_request_def)
  have i: "introspectGrant now ''g'' InMemoryGrantStore approved_store = (Inr (Some ?g), approved_store)" for now
    by (rule introspect_once) (simp_all add: f)
  obtain u s1 where u: "useGrant (in_seconds ex_env) ''g'' InMemoryGrantStore approved_store = (Inr u, s1)"
    by (simp add: useGrant_def i mem_claimOnce_def f)
  have user: "findByEmail ''b'' [(''b'', ex_user ''b'' None None)] = Some (ex_user ''b'' None None)" "us_isActive (ex_user ''b'' None None)"
    by (simp_all add: findByEmail_def ex_user_def)
  have ok: "consume_post ex_env ex_bearer_event None [(''b'', ex_user ''b'' None None)] (\<lambda>t. Inr ex_authz_claims) InMemoryGrantStore ''g'' approved_store =
     (Inr (Consumed u), s1)"
    by (simp add: consume_post_def b c i user consume_checked_def u plain_request_def)
  show ?thesis using redeemed_once [OF inv f g disjI1 [OF ok] lc_run.stop] ok
    by (intro exI [of _ u] exI [of _ s1] conjI) simp_all
qed

end
