(* ===== verification/GrantRequests.thy ===== *)
theory GrantRequests
  imports GrantEndpoints
begin

text \<open>
  Asking for grants at the identity provider: \<open>api/grants/index.post.ts\<close> with \<open>utils/grants-delegation.ts\<close> (delegates at the grants API),
  \<open>utils/broker-grant-request.ts\<close> and \<open>utils/pre-approval-hooks.ts\<close>. A request body has the members of its declared type, also those of a
  standing grant, which the handler stores unread; its summary and batch are untyped values. Notifications change no state.
\<close>

section \<open>Delegates at the grants API\<close>

definition GRANTS_READ_SCOPE :: string where "GRANTS_READ_SCOPE = ''grants:read''"

definition GRANTS_REQUEST_SCOPE :: string where "GRANTS_REQUEST_SCOPE = ''grants:request''"

definition GRANTS_DELEGATION_SCOPES :: "string list" where "GRANTS_DELEGATION_SCOPES = [GRANTS_READ_SCOPE, GRANTS_REQUEST_SCOPE]"

record grants_delegate =
  gd_delegator :: string
  gd_delegate :: string
  gd_delegationGrant :: string

definition grantsDelegationProblem :: "auth_env \<Rightarrow> user_store \<Rightarrow> string \<Rightarrow> string \<Rightarrow> string \<Rightarrow> string list option \<Rightarrow> string option" where
  "grantsDelegationProblem env users delegator delegate audience scopes =
     (let grants = filter (\<lambda>sc. starts_with sc ''grants:'') (nullish scopes []) in
      if grants = [] then None
      else case List.find (\<lambda>sc. sc \<notin> set GRANTS_DELEGATION_SCOPES) grants of
        Some unknown \<Rightarrow> Some (''Unknown grants scope '' @ unknown @ '': only '' @ join '' and '' GRANTS_DELEGATION_SCOPES @ '' can be delegated'')
      | None \<Rightarrow> if audience \<noteq> ae_issuer env then Some ''Grants scopes require the IdP issuer as the delegation audience''
          else (case findByEmail delegate users of
              None \<Rightarrow> Some ''Grants scopes can only be delegated to one of your own active agents''
            | Some u \<Rightarrow> if \<not> us_isActive u \<or> us_owner u \<noteq> Some delegator
                then Some ''Grants scopes can only be delegated to one of your own active agents'' else None))"

definition delegationProblem :: "auth_env \<Rightarrow> user_store \<Rightarrow> grant option \<Rightarrow> string \<Rightarrow> string \<Rightarrow> string \<Rightarrow> string option" where
  "delegationProblem env users g delegator delegate scope = (case g of None \<Rightarrow> Some ''The delegation is not active''
     | Some d \<Rightarrow> if gr_category d \<noteq> Some DelegationGrant \<or> gr_status d \<noteq> Approved then Some ''The delegation is not active''
         else let r = gr_request d in
           if rq_delegator r \<noteq> Some delegator \<or> rq_delegate r \<noteq> Some delegate then Some ''The token does not match its delegation''
           else if scope \<notin> set (nullish (rq_scopes r) []) then Some (''The delegation does not include '' @ scope)
           else grantsDelegationProblem env users delegator delegate (rq_audience r) (rq_scopes r))"

definition delegated_token :: "auth_env \<Rightarrow> web_event \<Rightarrow> (string \<times> string \<times> string) option" where
  "delegated_token env ev = (case bearer_token (ev_authorization ev) of None \<Rightarrow> None
     | Some token \<Rightarrow> if token = [] then None
       else (case verifyAuthToken (ae_verify env) token (ae_issuer env) (Some (ae_issuer env)) (ae_now env) of Inl _ \<Rightarrow> None
         | Inr p \<Rightarrow> (case (ay_act p, ay_delegation_grant p) of
             (ActDelegate d, Some i) \<Rightarrow> if i = [] then None else Some (ay_sub p, d, i)
           | _ \<Rightarrow> None)))"

definition tryGrantsDelegate :: "auth_env \<Rightarrow> web_event \<Rightarrow> user_store \<Rightarrow> 's grant_store \<Rightarrow> string \<Rightarrow> 's
    \<Rightarrow> (problem + grants_delegate option) \<times> 's" where
  "tryGrantsDelegate env ev users store scope s = (case delegated_token env ev of None \<Rightarrow> (Inr None, s)
     | Some (delegator, delegate, i) \<Rightarrow> (case introspectGrant (in_seconds env) i store s of
         (Inl e, s1) \<Rightarrow> (Inl (500, GrantText e), s1)
       | (Inr g, s1) \<Rightarrow> (case delegationProblem env users g delegator delegate scope of
           Some m \<Rightarrow> (Inl (problem 403 m), s1)
         | None \<Rightarrow> (Inr (Some \<lparr>gd_delegator = delegator, gd_delegate = delegate, gd_delegationGrant = i\<rparr>), s1))))"

section \<open>Requests for brokered identities\<close>

definition brokerString_ok :: "string \<Rightarrow> bool" where
  "brokerString_ok v = (v \<noteq> [] \<and> length v \<le> 2048 \<and> list_all (\<lambda>c. 32 < (of_char c :: nat)) v)"

definition argv_ok :: "string list \<Rightarrow> bool" where
  "argv_ok xs = (xs \<noteq> [] \<and> length xs \<le> 100 \<and> list_all (\<lambda>a. length a \<le> 4096 \<and> CHR 0x00 \<notin> set a) xs)"

definition broker_context_ok :: "grant_request \<Rightarrow> exec_context \<Rightarrow> bool" where
  "broker_context_ok r c = (ec_files c = None \<and> ec_adapter_owner c = None \<and> ec_adapter_domain c = None \<and> ec_program_sha256 c = None \<and>
     ec_version_tested c = None \<and> brokerString_ok (ec_adapter_id c) \<and> brokerString_ok (ec_adapter_version c) \<and>
     brokerString_ok (ec_adapter_digest c) \<and> brokerString_ok (ec_resolved_executable c) \<and>
     (case ec_argv c of None \<Rightarrow> False | Some a \<Rightarrow> argv_ok a \<and> (rq_command r = None \<or> rq_command r = Some a)))"

definition broker_detail_ok :: "(string \<Rightarrow> string \<Rightarrow> bool) \<Rightarrow> auth_detail \<Rightarrow> bool" where
  "broker_detail_ok coll d = (case d of GrantDetail _ \<Rightarrow> False
     | CliDetail c \<Rightarrow> cd_type c = ''openape_cli'' \<and> cv_valid (validateCliAuthorizationDetail coll (json_of_detail c)))"

record create_body =
  cb_request :: grant_request
  cb_summary :: jsval
  cb_batch :: jsval

text \<open>Whether \<open>parseBrokerGrantRequest\<close> accepts; what it normalises is normalised again by the handler.\<close>

definition parseBrokerGrantRequest_ok :: "auth_env \<Rightarrow> create_body \<Rightarrow> bool" where
  "parseBrokerGrantRequest_ok env b = (let r = cb_request b in
     rq_run_as r = None \<and> rq_submitted_by r = None \<and> rq_delegator r = None \<and> rq_delegate r = None \<and> rq_scopes r = None \<and> rq_standing r = None \<and>
     brokerString_ok (rq_target_host r) \<and> brokerString_ok (rq_audience r) \<and> rq_grant_type r \<noteq> None \<and>
     (rq_grant_type r = Some Timed \<longrightarrow> (case rq_duration r of None \<Rightarrow> False | Some d \<Rightarrow> 0 < d)) \<and>
     (case rq_command r of None \<Rightarrow> True | Some c \<Rightarrow> argv_ok c) \<and>
     (case rq_permissions r of None \<Rightarrow> True | Some ps \<Rightarrow> length ps \<le> 100 \<and> list_all (\<lambda>p. length p \<le> 4096) ps) \<and>
     (case rq_reason r of None \<Rightarrow> True | Some x \<Rightarrow> length x \<le> 4096) \<and>
     (case rq_reference r of None \<Rightarrow> True | Some x \<Rightarrow> parseGrantReference (JStr x) = Inr (Some x)) \<and>
     (case parseGrantSummary (cb_summary b) of Inl _ \<Rightarrow> False | Inr _ \<Rightarrow> True) \<and>
     (case parseGrantBatch (cb_batch b) of Inl _ \<Rightarrow> False | Inr _ \<Rightarrow> True) \<and>
     (case rq_waits_until r of None \<Rightarrow> True | Some t \<Rightarrow> ae_now env < t * 1000) \<and>
     (case rq_authorization_details r of None \<Rightarrow> True
        | Some ds \<Rightarrow> ds \<noteq> [] \<and> length ds \<le> 100 \<and> list_all (broker_detail_ok (ae_coll env)) ds) \<and>
     (case rq_execution_context r of None \<Rightarrow> True | Some c \<Rightarrow> broker_context_ok r c) \<and>
     (rq_command r \<noteq> None \<or> rq_execution_context r \<noteq> None \<or> rq_authorization_details r \<noteq> None \<or> nullish (rq_permissions r) [] \<noteq> []) \<and>
     (rq_cmd_hash r \<noteq> None \<longrightarrow> rq_command r \<noteq> None \<or> rq_execution_context r \<noteq> None))"

definition ownedBrokeredIdentity :: "'s broker option \<Rightarrow> 's grant_store \<Rightarrow> string \<Rightarrow> string \<Rightarrow> 's \<Rightarrow> brokered_grant option" where
  "ownedBrokeredIdentity broker store requester owner s = (case broker of None \<Rightarrow> None
     | Some bk \<Rightarrow> (case sort_by (\<lambda>a b. gr_created_at b \<le> gr_created_at a)
           (filter (\<lambda>g. map_option bg_owner (gr_brokered g) = Some owner) (st_findByRequester store requester s)) of
         [] \<Rightarrow> None
       | g # _ \<Rightarrow> (case gr_brokered g of None \<Rightarrow> None
         | Some b \<Rightarrow> (case bk_getConnection bk (bg_connection_id b) s of None \<Rightarrow> None
           | Some c \<Rightarrow> if \<not> bc_active c \<or> bc_owner_subject c \<noteq> owner \<or> bc_broker_issuer c \<noteq> bg_broker_issuer b
               \<or> (case split_on (CHR ''@'') requester of _ # d # _ \<Rightarrow> bc_agent_domain c \<noteq> d | _ \<Rightarrow> True) then None else Some b))))"

definition not_own_agent :: problem where
  "not_own_agent = problem 403 ''A delegate can only request grants for its delegator\\'s own agents''"

definition assertDelegatedRequest :: "auth_env \<Rightarrow> 's broker option \<Rightarrow> user_store \<Rightarrow> 's grant_store \<Rightarrow> create_body \<Rightarrow> grants_delegate \<Rightarrow> 's
    \<Rightarrow> problem + brokered_grant option" where
  "assertDelegatedRequest env broker users store b d s = (let r = cb_request b in
     if rq_delegator r \<noteq> None \<or> rq_delegate r \<noteq> None \<or> rq_scopes r \<noteq> None then Inl (problem 400 ''A delegate cannot request a delegation'')
     else case findByEmail (rq_requester r) users of
       Some u \<Rightarrow> if \<not> us_isActive u \<or> us_owner u \<noteq> Some (gd_delegator d) then Inl not_own_agent else Inr None
     | None \<Rightarrow> (case ownedBrokeredIdentity broker store (rq_requester r) (gd_delegator d) s of
         None \<Rightarrow> Inl not_own_agent
       | Some br \<Rightarrow> if parseBrokerGrantRequest_ok env b then Inr (Some br) else Inl (problem 400 ''Invalid broker input'')))"

section \<open>Asking for a grant\<close>

record create_env =
  ce_sha :: "string \<Rightarrow> string"
  ce_cmd_hash :: "string \<Rightarrow> string"
  ce_new_id :: string
  ce_hooks :: "(grant_request \<Rightarrow> (string \<times> string) option option) list"
  ce_allowUnauthenticated :: bool

text \<open>A hook that throws is passed over; its answer is who decided and the kind of approval.\<close>

fun runPreApprovalHooks :: "(grant_request \<Rightarrow> (string \<times> string) option option) list \<Rightarrow> grant_request \<Rightarrow> (string \<times> string) option" where
  "runPreApprovalHooks [] r = None"
| "runPreApprovalHooks (hook # hooks) r = (case hook r of Some (Some a) \<Rightarrow> Some a | _ \<Rightarrow> runPreApprovalHooks hooks r)"

definition normal_detail :: "(string \<Rightarrow> string \<Rightarrow> bool) \<Rightarrow> auth_detail \<Rightarrow> problem + auth_detail" where
  "normal_detail coll d = (case d of GrantDetail _ \<Rightarrow> Inr d
     | CliDetail c \<Rightarrow> if cd_type c \<noteq> ''openape_cli'' then Inr d
         else let v = validateCliAuthorizationDetail coll (json_of_detail c) in
           if \<not> cv_valid v then Inl (problem 400 (''Invalid authorization_details entry: '' @ join ''; '' (cv_errors v)))
           else Inr (CliDetail (c\<lparr>cd_permission := canonical coll c\<rparr>)))"

fun normal_details :: "(string \<Rightarrow> string \<Rightarrow> bool) \<Rightarrow> auth_detail list \<Rightarrow> problem + auth_detail list" where
  "normal_details coll [] = Inr []"
| "normal_details coll (d # ds) = (case normal_detail coll d of Inl e \<Rightarrow> Inl e
     | Inr d' \<Rightarrow> (case normal_details coll ds of Inl e \<Rightarrow> Inl e | Inr ds' \<Rightarrow> Inr (d' # ds')))"

definition normalizeAuthorizationDetails :: "(string \<Rightarrow> string \<Rightarrow> bool) \<Rightarrow> auth_detail list option \<Rightarrow> problem + auth_detail list option" where
  "normalizeAuthorizationDetails coll details = (case details of None \<Rightarrow> Inr None | Some [] \<Rightarrow> Inr None
     | Some ds \<Rightarrow> (case normal_details coll ds of Inl e \<Rightarrow> Inl e | Inr ds' \<Rightarrow> Inr (Some ds')))"

definition detail_permission :: "(string \<Rightarrow> string \<Rightarrow> bool) \<Rightarrow> auth_detail \<Rightarrow> string" where
  "detail_permission coll d = (case d of CliDetail c \<Rightarrow> if cd_type c = ''openape_cli'' then canonical coll c else cd_action c
     | GrantDetail g \<Rightarrow> gd_action g)"

definition own_resolution :: "exec_context \<Rightarrow> bool" where
  "own_resolution c = (ec_program_sha256 c \<noteq> None \<or> ec_version_tested c \<noteq> None \<or> ec_adapter_owner c \<noteq> None \<or> ec_adapter_domain c \<noteq> None)"

text \<open>The members the server computes: permissions, the hash of the arguments, the command and its hash.\<close>

definition with_permissions :: "(string \<Rightarrow> string \<Rightarrow> bool) \<Rightarrow> grant_request \<Rightarrow> grant_request" where
  "with_permissions coll r = (case rq_authorization_details r of None \<Rightarrow> r | Some [] \<Rightarrow> r
     | Some ds \<Rightarrow> r\<lparr>rq_permissions := Some (map (detail_permission coll) ds)\<rparr>)"

definition with_context :: "create_env \<Rightarrow> grant_request \<Rightarrow> grant_request" where
  "with_context ce r = (case rq_execution_context r of None \<Rightarrow> r
     | Some c \<Rightarrow> (case ec_argv c of None \<Rightarrow> r | Some [] \<Rightarrow> r
       | Some argv \<Rightarrow> r\<lparr>rq_execution_context := Some (c\<lparr>ec_argv_hash := Some (computeArgvHash (ce_sha ce) argv),
             ec_resolved_executable := (if ec_resolved_executable c \<noteq> [] then ec_resolved_executable c else hd argv)\<rparr>),
           rq_command := (if nullish (rq_command r) [] = [] then Some argv else rq_command r)\<rparr>))"

definition with_hash :: "create_env \<Rightarrow> grant_request \<Rightarrow> grant_request" where
  "with_hash ce r = (case rq_command r of None \<Rightarrow> r | Some [] \<Rightarrow> r
     | Some c \<Rightarrow> r\<lparr>rq_cmd_hash := Some (ce_cmd_hash ce (join '' '' c))\<rparr>)"

text \<open>Who asks: a delegate, the subject of a token, or whoever the operator names.\<close>

definition identified_request :: "auth_env \<Rightarrow> create_env \<Rightarrow> web_event \<Rightarrow> grants_delegate option \<Rightarrow> grant_request \<Rightarrow> problem + grant_request" where
  "identified_request env ce ev delegate r = (case delegate of
     Some d \<Rightarrow> Inr (r\<lparr>rq_submitted_by := Some \<lparr>sub_delegate = gd_delegate d, sub_delegation_grant = gd_delegationGrant d\<rparr>\<rparr>)
   | None \<Rightarrow> (case bearer_of env ev of Some p \<Rightarrow> Inr (r\<lparr>rq_requester := ay_sub p\<rparr>)
     | None \<Rightarrow> if \<not> hasValidManagementToken env ev \<and> \<not> ce_allowUnauthenticated ce
         then Inl (problem 401 ''Authentication required: grant requests must carry a Bearer token identifying the requester'') else Inr r))"

definition with_lifetime :: "grant_request \<Rightarrow> problem + grant_request" where
  "with_lifetime r = (if rq_requester r = [] \<or> rq_target_host r = [] \<or> rq_audience r = []
     then Inl (problem 400 ''Missing required fields: requester, target_host, audience'')
     else let r1 = r\<lparr>rq_grant_type := Some (nullish (rq_grant_type r) Once)\<rparr> in
       if rq_grant_type r1 = Some Timed \<and> \<not> truthy_num (rq_duration r1) then Inl (problem 400 ''Duration is required for timed grants'')
       else Inr r1)"

definition with_display :: "auth_env \<Rightarrow> 's grant_store \<Rightarrow> create_body \<Rightarrow> grant_request \<Rightarrow> 's \<Rightarrow> problem + grant_request" where
  "with_display env store b r s = (case parseGrantSummary (cb_summary b) of
     Inl (InvalidGrantSummary m) \<Rightarrow> Inl (problem 400 (''Invalid summary: '' @ m))
   | Inl e \<Rightarrow> Inl (500, GrantText e)
   | Inr summary \<Rightarrow> (case parseGrantBatch (cb_batch b) of
       Inl (InvalidGrantBatch m) \<Rightarrow> Inl (problem 400 (''Invalid batch: '' @ m))
     | Inl e \<Rightarrow> Inl (500, GrantText e)
     | Inr batch \<Rightarrow> let r1 = r\<lparr>rq_summary := summary, rq_batch := batch\<rparr> in
         (case (if rq_reference r1 = None then assertGrantBatchMember r1 store s else Inr ()) of
           Inl (InvalidGrantBatch m) \<Rightarrow> Inl (problem 400 (''Invalid batch: '' @ m))
         | Inl e \<Rightarrow> Inl (500, GrantText e)
         | Inr _ \<Rightarrow> Inr r1)))"

definition with_action :: "auth_env \<Rightarrow> create_env \<Rightarrow> grant_request \<Rightarrow> problem + grant_request" where
  "with_action env ce r = (case normalizeAuthorizationDetails (ae_coll env) (rq_authorization_details r) of Inl e \<Rightarrow> Inl e
     | Inr ds \<Rightarrow> let r1 = with_permissions (ae_coll env) (r\<lparr>rq_authorization_details := ds\<rparr>) in
         if (case rq_execution_context r1 of None \<Rightarrow> False | Some c \<Rightarrow> own_resolution c)
         then Inl (problem 400 ''execution_context.program_sha256, version_tested, adapter_owner and adapter_domain are set by the IdP; use POST /api/grants/authorize'')
         else Inr (with_hash ce (with_context ce r1)))"

definition prepared_request :: "auth_env \<Rightarrow> create_env \<Rightarrow> web_event \<Rightarrow> 's grant_store \<Rightarrow> grants_delegate option \<Rightarrow> create_body \<Rightarrow> 's
    \<Rightarrow> problem + grant_request" where
  "prepared_request env ce ev store delegate b s =
     (case identified_request env ce ev delegate ((cb_request b)\<lparr>rq_submitted_by := None\<rparr>) of Inl e \<Rightarrow> Inl e
      | Inr r1 \<Rightarrow> (case with_lifetime r1 of Inl e \<Rightarrow> Inl e
      | Inr r2 \<Rightarrow> (case with_display env store b r2 s of Inl e \<Rightarrow> Inl e
      | Inr r3 \<Rightarrow> with_action env ce r3)))"

datatype create_answer = CreatedPending grant | CreatedSimilar grant similar_result | ReferencedGrant grant bool | Reused grant
  | AutoApproved "grant option" | ForwardedRequest jsval

definition createPendingGrant :: "auth_env \<Rightarrow> create_env \<Rightarrow> 's grant_store \<Rightarrow> grant_request \<Rightarrow> brokered_grant option \<Rightarrow> 's
    \<Rightarrow> (problem + grant) \<times> 's" where
  "createPendingGrant env ce store r brokered s = refused_with 500 (case brokered of
     Some b \<Rightarrow> let g = (new_grant (ce_new_id ce) (Some CommandGrant) r Pending (in_seconds env))\<lparr>gr_brokered := Some b\<rparr> in
       (case st_save store g s of (Inl e, s1) \<Rightarrow> (Inl e, s1) | (Inr _, s1) \<Rightarrow> (Inr g, s1))
   | None \<Rightarrow> createGrant (in_seconds env) (ce_new_id ce) r store s)"

definition approve_created :: "auth_env \<Rightarrow> create_env \<Rightarrow> 's grant_store \<Rightarrow> grant_request \<Rightarrow> grant_patch \<Rightarrow> 's \<Rightarrow> (problem + create_answer) \<times> 's" where
  "approve_created env ce store r patch s = (case createGrant (in_seconds env) (ce_new_id ce) r store s of
     (Inl e, s1) \<Rightarrow> (Inl (500, GrantText e), s1)
   | (Inr g, s1) \<Rightarrow> (case st_updateStatus store (gr_id g) Approved (patch\<lparr>p_decided_at := Some (in_seconds env)\<rparr>) s1 of
       (Inl e, s2) \<Rightarrow> (Inl (500, GrantText e), s2)
     | (Inr _, s2) \<Rightarrow> (Inr (AutoApproved (st_findById store (gr_id g) s2)), s2)))"

text \<open>The standing grant is read again, after the pending grant was created.\<close>

definition approve_by_standing :: "auth_env \<Rightarrow> create_env \<Rightarrow> 's grant_store \<Rightarrow> grant_request \<Rightarrow> standing_match \<Rightarrow> 's \<Rightarrow> (problem + create_answer) \<times> 's" where
  "approve_by_standing env ce store r m s = (case createGrant (in_seconds env) (ce_new_id ce) r store s of
     (Inl e, s1) \<Rightarrow> (Inl (500, GrantText e), s1)
   | (Inr g, s1) \<Rightarrow> (case st_updateStatus store (gr_id g) Approved ((standing_patch m store s1)\<lparr>p_decided_at := Some (in_seconds env)\<rparr>) s1 of
       (Inl e, s2) \<Rightarrow> (Inl (500, GrantText e), s2)
     | (Inr _, s2) \<Rightarrow> (Inr (AutoApproved (st_findById store (gr_id g) s2)), s2)))"

definition pending_answer :: "(problem + grant) \<times> 's \<Rightarrow> (grant \<Rightarrow> create_answer) \<Rightarrow> (problem + create_answer) \<times> 's" where
  "pending_answer x mk = (case x of (Inl e, s) \<Rightarrow> (Inl e, s) | (Inr g, s) \<Rightarrow> (Inr (mk g), s))"

definition decide_request :: "auth_env \<Rightarrow> create_env \<Rightarrow> 's grant_store \<Rightarrow> grant_request \<Rightarrow> 's \<Rightarrow> (problem + create_answer) \<times> 's" where
  "decide_request env ce store r s = (let now = in_seconds env; existing = st_findByRequester store (rq_requester r) s in
     case findReusableGrant (ae_coll env) now existing r None of
       Some g \<Rightarrow> (Inr (Reused g), s)
     | None \<Rightarrow> (case evaluateStandingGrants (ae_coll env) now r store s of
         Some m \<Rightarrow> approve_by_standing env ce store r m s
       | None \<Rightarrow> (case runPreApprovalHooks (ce_hooks ce) r of
           Some (decidedBy, kind) \<Rightarrow> approve_created env ce store r (no_patch\<lparr>p_decided_by := Some decidedBy, p_auto_approval_kind := Some kind\<rparr>) s
         | None \<Rightarrow> (case findSimilarCliGrants (ae_coll env) now r existing of
             Some sim \<Rightarrow> pending_answer (createPendingGrant env ce store r None s) (\<lambda>g. CreatedSimilar g sim)
           | None \<Rightarrow> pending_answer (createPendingGrant env ce store r None s) CreatedPending))))"

definition reference_problem :: "authorize_error \<Rightarrow> problem" where
  "reference_problem e = (case e of
     BadReference GrantReferenceConflict \<Rightarrow> (409, GrantText GrantReferenceConflict)
   | BadReference (InvalidGrantReference m) \<Rightarrow> problem 400 m
   | BadReference (InvalidGrantBatch m) \<Rightarrow> problem 400 m
   | BadReference x \<Rightarrow> (500, GrantText x)
   | Unsupported \<Rightarrow> problem 501 ''This store does not support grant references''
   | InnerError x \<Rightarrow> (500, GrantText x)
   | _ \<Rightarrow> problem 500 ''Server Error'')"

text \<open>What follows once the request is complete: a referenced grant, a delegate's request, which is always left pending, or a decision.\<close>

definition settle_request :: "auth_env \<Rightarrow> create_env \<Rightarrow> 's grant_store \<Rightarrow> grants_delegate option \<Rightarrow> brokered_grant option \<Rightarrow> grant_request
    \<Rightarrow> 's \<Rightarrow> (problem + create_answer) \<times> 's" where
  "settle_request env ce store delegate brokered r s = (if rq_reference r \<noteq> None
     then (case requestReferencedGrant (in_seconds env) (ce_new_id ce) r brokered store s of
         (Inl e, s1) \<Rightarrow> (Inl (reference_problem e), s1) | (Inr (g, new), s1) \<Rightarrow> (Inr (ReferencedGrant g new), s1))
     else if delegate \<noteq> None then pending_answer (createPendingGrant env ce store r brokered s) CreatedPending
     else decide_request env ce store r s)"

definition grants_post :: "auth_env \<Rightarrow> create_env \<Rightarrow> web_event \<Rightarrow> 's broker option \<Rightarrow> user_store \<Rightarrow> ssh_store \<Rightarrow> broker_ask \<Rightarrow> 's grant_store \<Rightarrow> create_body
    \<Rightarrow> 's \<Rightarrow> (problem + create_answer) \<times> 's" where
  "grants_post env ce ev broker users ssh ask store b s =
     (case maybeForwardBrokerGrant env ev broker users ssh ask (OpCreate ((cb_request b)\<lparr>rq_submitted_by := None\<rparr>)) s of Inl e \<Rightarrow> (Inl e, s)
      | Inr (Some v) \<Rightarrow> (Inr (ForwardedRequest v), s)
      | Inr None \<Rightarrow> (case tryGrantsDelegate env ev users store GRANTS_REQUEST_SCOPE s of (Inl e, s1) \<Rightarrow> (Inl e, s1)
      | (Inr delegate, s1) \<Rightarrow>
          (case (case delegate of None \<Rightarrow> Inr None
                 | Some d \<Rightarrow> assertDelegatedRequest env broker users store (b\<lparr>cb_request := (cb_request b)\<lparr>rq_submitted_by := None\<rparr>\<rparr>) d s1) of
             Inl e \<Rightarrow> (Inl e, s1)
           | Inr brokered \<Rightarrow> (case prepared_request env ce ev store delegate b s1 of Inl e \<Rightarrow> (Inl e, s1)
             | Inr r \<Rightarrow> settle_request env ce store delegate brokered r s1))))"

section \<open>What is kept of a request\<close>

text \<open>The members of a request no step of the handler computes.\<close>

definition asked_same :: "grant_request \<Rightarrow> grant_request \<Rightarrow> bool" where
  "asked_same r q \<longleftrightarrow> rq_requester r = rq_requester q \<and> rq_submitted_by r = rq_submitted_by q \<and> rq_standing r = rq_standing q \<and>
     rq_delegator r = rq_delegator q \<and> rq_delegate r = rq_delegate q \<and> rq_reference r = rq_reference q \<and>
     rq_target_host r = rq_target_host q \<and> rq_audience r = rq_audience q"

lemma asked_same_refl [simp]: "asked_same r r"
  by (simp add: asked_same_def)

lemma asked_same_trans: "asked_same p q \<Longrightarrow> asked_same q r \<Longrightarrow> asked_same p r"
  by (simp add: asked_same_def)

lemma with_permissions_same: "asked_same (with_permissions coll r) r"
  by (simp add: with_permissions_def asked_same_def split: option.split list.split)

lemma with_context_same: "asked_same (with_context ce r) r"
  by (simp add: with_context_def asked_same_def split: option.split list.split)

lemma with_hash_same: "asked_same (with_hash ce r) r"
  by (simp add: with_hash_def asked_same_def split: option.split list.split)

lemma with_lifetime_same: "with_lifetime r = Inr r' \<Longrightarrow> asked_same r' r"
  by (auto simp: with_lifetime_def Let_def asked_same_def split: if_splits)

lemma with_display_same: "with_display env store b r s = Inr r' \<Longrightarrow> asked_same r' r"
  by (auto simp: with_display_def Let_def asked_same_def split: sum.splits grant_error.splits if_splits)

lemma with_action_same: "with_action env ce r = Inr r' \<Longrightarrow> asked_same r' r"
  unfolding with_action_def Let_def
  by (auto split: sum.splits if_splits intro!: asked_same_trans [OF with_hash_same] asked_same_trans [OF with_context_same]
      asked_same_trans [OF with_permissions_same]) (simp_all add: asked_same_def)

lemma prepared_same:
  assumes "prepared_request env ce ev store delegate b s = Inr r"
  obtains r1 where "identified_request env ce ev delegate ((cb_request b)\<lparr>rq_submitted_by := None\<rparr>) = Inr r1" "asked_same r r1"
proof -
  obtain r1 r2 r3 where p: "identified_request env ce ev delegate ((cb_request b)\<lparr>rq_submitted_by := None\<rparr>) = Inr r1"
      "with_lifetime r1 = Inr r2" "with_display env store b r2 s = Inr r3" "with_action env ce r3 = Inr r"
    using assms unfolding prepared_request_def by (auto split: sum.splits)
  show thesis
    by (rule that [OF p(1)]) (meson p(2-4) asked_same_trans with_lifetime_same with_display_same with_action_same)
qed

lemma identified_asker:
  assumes "identified_request env ce ev delegate q = Inr r" "bearer_of env ev = Some p" "delegate = None"
  shows "r = q\<lparr>rq_requester := ay_sub p\<rparr>"
  using assms by (simp add: identified_request_def)

lemma identified_delegate:
  assumes "identified_request env ce ev (Some d) q = Inr r"
  shows "r = q\<lparr>rq_submitted_by := Some \<lparr>sub_delegate = gd_delegate d, sub_delegation_grant = gd_delegationGrant d\<rparr>\<rparr>"
  using assms by (simp add: identified_request_def)

text \<open>Every answer of the handler but a forwarded one comes after these steps.\<close>

lemma grants_postD:
  assumes "grants_post env ce ev broker users ssh ask store b s = (Inr a, s')" "\<And>v. a \<noteq> ForwardedRequest v"
  shows "\<exists>delegate s1 brokered r. tryGrantsDelegate env ev users store GRANTS_REQUEST_SCOPE s = (Inr delegate, s1) \<and>
    prepared_request env ce ev store delegate b s1 = Inr r \<and>
    (\<forall>d. delegate = Some d \<longrightarrow>
       assertDelegatedRequest env broker users store (b\<lparr>cb_request := (cb_request b)\<lparr>rq_submitted_by := None\<rparr>\<rparr>) d s1 = Inr brokered) \<and>
    settle_request env ce store delegate brokered r s1 = (Inr a, s')"
proof -
  have "maybeForwardBrokerGrant env ev broker users ssh ask (OpCreate ((cb_request b)\<lparr>rq_submitted_by := None\<rparr>)) s = Inr None"
    using assms by (auto simp: grants_post_def split: sum.splits option.splits)
  note rest = assms(1) [unfolded grants_post_def this sum.case option.case]
  obtain delegate s1 where t: "tryGrantsDelegate env ev users store GRANTS_REQUEST_SCOPE s = (Inr delegate, s1)"
    using rest by (cases "tryGrantsDelegate env ev users store GRANTS_REQUEST_SCOPE s") (auto split: sum.splits)
  let ?c = "case delegate of None \<Rightarrow> Inr None
     | Some d \<Rightarrow> assertDelegatedRequest env broker users store (b\<lparr>cb_request := (cb_request b)\<lparr>rq_submitted_by := None\<rparr>\<rparr>) d s1"
  obtain brokered where br: "?c = Inr brokered" using rest t by (cases ?c) auto
  obtain r where p: "prepared_request env ce ev store delegate b s1 = Inr r"
    using rest t br by (cases "prepared_request env ce ev store delegate b s1") auto
  show ?thesis
    by (intro exI conjI, rule t, rule p) (use rest t br p in auto)
qed


section \<open>Delegates\<close>

lemma introspect_approved:
  assumes "introspectGrant now i InMemoryGrantStore s = (Inr (Some g), s1)" "gr_status g = Approved"
  shows "s1 = s \<and> mem_findById i s = Some g"
  using assms by (auto simp: introspectGrant_def mem_updateStatus_def split: option.splits if_splits sum.splits)

lemma delegationProblem_none:
  "delegationProblem env users g delegator delegate scope = None \<Longrightarrow>
     \<exists>h. g = Some h \<and> gr_category h = Some DelegationGrant \<and> gr_status h = Approved \<and> rq_delegator (gr_request h) = Some delegator \<and>
       rq_delegate (gr_request h) = Some delegate \<and> scope \<in> set (nullish (rq_scopes (gr_request h)) [])"
  by (auto simp: delegationProblem_def Let_def split: option.splits if_splits)

lemma tryGrantsDelegateD:
  assumes "tryGrantsDelegate env ev users InMemoryGrantStore scope s = (Inr delegate, s1)"
  shows "s1 = s \<and> (\<forall>d. delegate = Some d \<longrightarrow> delegated_token env ev = Some (gd_delegator d, gd_delegate d, gd_delegationGrant d) \<and>
    (\<exists>h. mem_findById (gd_delegationGrant d) s = Some h \<and> delegationProblem env users (Some h) (gd_delegator d) (gd_delegate d) scope = None))"
proof (cases "delegated_token env ev")
  case (Some t)
  obtain a e i where t: "t = (a, e, i)" by (cases t) auto
  obtain x s2 where x: "introspectGrant (in_seconds env) i InMemoryGrantStore s = (x, s2)" by fastforce
  obtain g where g: "x = Inr g" "delegationProblem env users g a e scope = None" "s1 = s2"
    "delegate = Some \<lparr>gd_delegator = a, gd_delegate = e, gd_delegationGrant = i\<rparr>"
    using assms Some t x unfolding tryGrantsDelegate_def by (auto split: sum.splits option.splits)
  obtain h where h: "g = Some h" "gr_status h = Approved" using delegationProblem_none [OF g(2)] by blast
  note i = introspect_approved [OF x [unfolded g(1) h(1)] h(2)]
  then show ?thesis using g t h(1) Some by simp
qed (use assms in \<open>simp add: tryGrantsDelegate_def\<close>)

text \<open>A requester that belongs to the delegator.\<close>

definition own_requester :: "'s broker option \<Rightarrow> user_store \<Rightarrow> 's grant_store \<Rightarrow> string \<Rightarrow> string \<Rightarrow> 's \<Rightarrow> bool" where
  "own_requester broker users store q owner s = (case findByEmail q users of
     Some u \<Rightarrow> us_isActive u \<and> us_owner u = Some owner | None \<Rightarrow> ownedBrokeredIdentity broker store q owner s \<noteq> None)"

lemma delegated_own:
  "assertDelegatedRequest env broker users store b d s = Inr br \<Longrightarrow> own_requester broker users store (rq_requester (cb_request b)) (gd_delegator d) s"
  by (auto simp: assertDelegatedRequest_def own_requester_def Let_def split: if_splits option.splits)

section \<open>Decisions\<close>

lemma mem_save_ok: "rq_reference (gr_request g) = None \<Longrightarrow> mem_save g s = (Inr (), put_grant (gr_id g) g s)"
  by (simp add: mem_save_def)

lemma create_unreferenced:
  "rq_reference r = None \<Longrightarrow> createGrant now i r InMemoryGrantStore s = (Inr (new_grant i None r Pending now), put_grant i (new_grant i None r Pending now) s)"
  by (simp add: createGrant_def Let_def mem_save_ok)

lemma put_put [simp]: "put_grant i h (put_grant i g s) = put_grant i h s"
  by (simp add: put_grant_def)

lemma update_put:
  "p_request p = None \<Longrightarrow> mem_updateStatus i st p (put_grant i g s) = (Inr (), put_grant i (apply_patch g st p) s)"
  by (simp add: mem_updateStatus_def)

lemma created_pending:
  assumes "createPendingGrant env ce InMemoryGrantStore r brokered s = (Inr g, s')" "rq_reference r = None"
  shows "gr_status g = Pending \<and> gr_request g = r \<and> gr_brokered g = brokered \<and> s' = put_grant (ce_new_id ce) g s"
  using assms by (auto simp: createPendingGrant_def create_unreferenced mem_save_ok Let_def refused_with_ok split: option.splits)

lemma decide_cases:
  assumes "decide_request env ce InMemoryGrantStore r s = (Inr a, s')" "rq_reference r = None"
  shows "(\<exists>g. a = Reused g \<and> s' = s \<and> g \<in> set (mem_findByRequester (rq_requester r) s)) \<or>
    (\<exists>m g. a = AutoApproved (Some g) \<and> evaluateStandingGrants (ae_coll env) (in_seconds env) r InMemoryGrantStore s = Some m \<and>
       gr_request g = r \<and> gr_status g = Approved \<and> gr_decided_by_standing_grant g = Some (mt_standing_grant_id m) \<and>
       gr_auto_approval_kind g = Some ''standing'' \<and> gr_expires_at g = None \<and> s' = put_grant (ce_new_id ce) g s) \<or>
    (\<exists>who kind g. a = AutoApproved (Some g) \<and> runPreApprovalHooks (ce_hooks ce) r = Some (who, kind) \<and>
       gr_request g = r \<and> gr_status g = Approved \<and> gr_decided_by g = Some who \<and> gr_expires_at g = None \<and> s' = put_grant (ce_new_id ce) g s) \<or>
    (\<exists>g. (a = CreatedPending g \<or> (\<exists>sim. a = CreatedSimilar g sim)) \<and> gr_request g = r \<and> gr_status g = Pending \<and>
       s' = put_grant (ce_new_id ce) g s)"
proof (cases "findReusableGrant (ae_coll env) (in_seconds env) (mem_findByRequester (rq_requester r) s) r None")
  case (Some g)
  then show ?thesis using assms(1) find_Some_mem by (fastforce simp: decide_request_def Let_def findReusableGrant_def)
next
  case reuse: None
  let ?n = "new_grant (ce_new_id ce) None r Pending (in_seconds env)"
  show ?thesis
  proof (cases "evaluateStandingGrants (ae_coll env) (in_seconds env) r InMemoryGrantStore s")
    case (Some m)
    let ?p = "(standing_patch m InMemoryGrantStore (put_grant (ce_new_id ce) ?n s))\<lparr>p_decided_at := Some (in_seconds env)\<rparr>"
    have p: "p_request ?p = None" "p_expires_at ?p = None" "p_decided_by_standing_grant ?p = Some (mt_standing_grant_id m)"
      "p_auto_approval_kind ?p = Some ''standing''"
      by (simp_all add: standing_patch_def no_patch_def)
    have "a = AutoApproved (Some (apply_patch ?n Approved ?p))" "s' = put_grant (ce_new_id ce) (apply_patch ?n Approved ?p) s"
      using assms reuse Some by (simp_all add: decide_request_def Let_def approve_by_standing_def create_unreferenced update_put p(1))
    then show ?thesis using Some p by (auto simp: apply_patch_def)
  next
    case no_rule: None
    show ?thesis
    proof (cases "runPreApprovalHooks (ce_hooks ce) r")
      case (Some w)
      obtain who kind where w: "w = (who, kind)" by (cases w)
      let ?p = "no_patch\<lparr>p_decided_by := Some who, p_auto_approval_kind := Some kind, p_decided_at := Some (in_seconds env)\<rparr>"
      have p: "p_request ?p = None" "p_expires_at ?p = None" by (simp_all add: no_patch_def)
      have "a = AutoApproved (Some (apply_patch ?n Approved ?p))" "s' = put_grant (ce_new_id ce) (apply_patch ?n Approved ?p) s"
        using assms reuse no_rule Some w by (simp_all add: decide_request_def Let_def approve_created_def create_unreferenced update_put p(1))
      then show ?thesis using Some w p by (auto simp: apply_patch_def)
    next
      case None
      obtain x s2 where x: "createPendingGrant env ce InMemoryGrantStore r None s = (x, s2)" by fastforce
      then obtain g where g: "x = Inr g" "a = CreatedPending g \<or> (\<exists>sim. a = CreatedSimilar g sim)" "s2 = s'"
        using assms(1) reuse no_rule None by (auto simp: decide_request_def Let_def pending_answer_def split: option.splits sum.splits)
      with created_pending [OF x [unfolded g(1)] assms(2)] show ?thesis by blast
    qed
  qed
qed


section \<open>Properties\<close>

text \<open>The grant an answer stores anew.\<close>

definition created_grant :: "create_answer \<Rightarrow> grant option" where
  "created_grant a = (case a of CreatedPending g \<Rightarrow> Some g | CreatedSimilar g _ \<Rightarrow> Some g | ReferencedGrant g new \<Rightarrow> if new then Some g else None
     | AutoApproved g \<Rightarrow> g | Reused _ \<Rightarrow> None | ForwardedRequest _ \<Rightarrow> None)"

lemma referenced_new:
  assumes "requestReferencedGrant now i r brokered InMemoryGrantStore s = (Inr (g, True), s')"
  shows "gr_request g = r \<and> gr_status g = Pending \<and> gr_brokered g = brokered \<and> gr_id g = i \<and> s' = put_grant i g s"
proof -
  let ?c = "(new_grant i (Some CommandGrant) r Pending now)\<lparr>gr_brokered := brokered\<rparr>"
  have "mem_createReferenced ?c s = (Inr (g, True), s')"
    using assms by (auto simp: requestReferencedGrant_def Let_def split: sum.splits if_splits option.splits list.splits prod.splits)
  with mem_createReferenced_new(1) [OF this] show ?thesis by simp
qed

lemma referenced_old:
  "requestReferencedGrant now i r brokered InMemoryGrantStore s = (Inr (g, False), s') \<Longrightarrow> s' = s"
  by (auto simp: requestReferencedGrant_def Let_def dest: mem_createReferenced_new(2) split: sum.splits if_splits option.splits list.splits prod.splits)

lemma grants_post_created:
  assumes "grants_post env ce ev broker users ssh ask InMemoryGrantStore b s = (Inr a, s')" "created_grant a = Some g"
  obtains delegate r where "tryGrantsDelegate env ev users InMemoryGrantStore GRANTS_REQUEST_SCOPE s = (Inr delegate, s)"
    "prepared_request env ce ev InMemoryGrantStore delegate b s = Inr r" "gr_request g = r" "s' = put_grant (ce_new_id ce) g s"
    "\<And>d. delegate = Some d \<Longrightarrow> own_requester broker users InMemoryGrantStore (rq_requester (cb_request b)) (gd_delegator d) s \<and> gr_status g = Pending"
    "delegate = None \<Longrightarrow> rq_reference r = None \<Longrightarrow> decide_request env ce InMemoryGrantStore r s = (Inr a, s')"
proof -
  have nf: "a \<noteq> ForwardedRequest v" for v using assms(2) by (auto simp: created_grant_def)
  obtain delegate s1 brokered r where p: "tryGrantsDelegate env ev users InMemoryGrantStore GRANTS_REQUEST_SCOPE s = (Inr delegate, s1)"
    "prepared_request env ce ev InMemoryGrantStore delegate b s1 = Inr r"
    and own: "\<forall>d. delegate = Some d \<longrightarrow> assertDelegatedRequest env broker users InMemoryGrantStore (b\<lparr>cb_request := (cb_request b)\<lparr>rq_submitted_by := None\<rparr>\<rparr>) d s1 = Inr brokered"
    and fin: "settle_request env ce InMemoryGrantStore delegate brokered r s1 = (Inr a, s')"
    using grants_postD [OF assms(1) nf] by (elim exE conjE)
  have s1: "s1 = s" using tryGrantsDelegateD [OF p(1)] by blast
  have core: "gr_request g = r \<and> s' = put_grant (ce_new_id ce) g s \<and> (delegate \<noteq> None \<longrightarrow> gr_status g = Pending) \<and>
      (delegate = None \<longrightarrow> rq_reference r = None \<longrightarrow> decide_request env ce InMemoryGrantStore r s = (Inr a, s'))"
  proof (cases "rq_reference r")
    case (Some x)
    have "requestReferencedGrant (in_seconds env) (ce_new_id ce) r brokered InMemoryGrantStore s = (Inr (g, True), s')"
      using fin assms(2) Some s1 by (auto simp: settle_request_def created_grant_def split: prod.splits sum.splits if_splits)
    from referenced_new [OF this] show ?thesis using Some by simp
  next
    case None
    show ?thesis
    proof (cases delegate)
      case (Some d)
      obtain x s2 where x: "createPendingGrant env ce InMemoryGrantStore r brokered s = (x, s2)" by fastforce
      have "x = Inr g" "s2 = s'" using fin None Some s1 x assms(2) by (auto simp: settle_request_def pending_answer_def created_grant_def split: sum.splits)
      with created_pending [of env ce r brokered s g s'] x None Some show ?thesis by auto
    next
      case none: None
      have d: "decide_request env ce InMemoryGrantStore r s = (Inr a, s')" using fin None none s1 by (simp add: settle_request_def)
      then show ?thesis using decide_cases [OF d None] assms(2) none by (auto simp: created_grant_def)
    qed
  qed
  show thesis
    by (rule that [of delegate r]) (use p s1 own core delegated_own in \<open>fastforce+\<close>)
qed

text \<open>
  C27. A request is stored under the identity its token proves: the requester of a new grant is the subject of the caller's own token, whatever
  the body names, and then it has no submitter; or the caller is a delegate whose delegation is approved and includes \<open>grants:request\<close>, the
  requester is one of the delegator's own active agents or brokered identities, the grant records the delegate as its submitter and is left
  pending. The identity the body names is taken only when there is no such token: from the operator, whose token says it, or where the
  deployment allows unauthenticated requests.
\<close>

theorem requester_proven:
  assumes "grants_post env ce ev broker users ssh ask InMemoryGrantStore b s = (Inr a, s')" "created_grant a = Some g"
  shows "mem_findById (ce_new_id ce) s' = Some g \<and>
    ((\<exists>p. bearer_of env ev = Some p \<and> rq_requester (gr_request g) = ay_sub p \<and> rq_submitted_by (gr_request g) = None) \<or>
     (\<exists>owner delegate i h. delegated_token env ev = Some (owner, delegate, i) \<and> mem_findById i s = Some h \<and> gr_status h = Approved \<and>
        rq_delegator (gr_request h) = Some owner \<and> rq_delegate (gr_request h) = Some delegate \<and>
        GRANTS_REQUEST_SCOPE \<in> set (nullish (rq_scopes (gr_request h)) []) \<and>
        own_requester broker users InMemoryGrantStore (rq_requester (gr_request g)) owner s \<and>
        rq_submitted_by (gr_request g) = Some \<lparr>sub_delegate = delegate, sub_delegation_grant = i\<rparr> \<and> gr_status g = Pending) \<or>
     bearer_of env ev = None \<and> (hasValidManagementToken env ev \<or> ce_allowUnauthenticated ce) \<and>
        rq_requester (gr_request g) = rq_requester (cb_request b) \<and> rq_submitted_by (gr_request g) = None)"
proof -
  obtain delegate r where p: "tryGrantsDelegate env ev users InMemoryGrantStore GRANTS_REQUEST_SCOPE s = (Inr delegate, s)"
    "prepared_request env ce ev InMemoryGrantStore delegate b s = Inr r" "gr_request g = r" "s' = put_grant (ce_new_id ce) g s"
    and own: "\<And>d. delegate = Some d \<Longrightarrow> own_requester broker users InMemoryGrantStore (rq_requester (cb_request b)) (gd_delegator d) s \<and> gr_status g = Pending"
    using grants_post_created [OF assms(1,2)] by metis
  obtain r1 where i: "identified_request env ce ev delegate ((cb_request b)\<lparr>rq_submitted_by := None\<rparr>) = Inr r1" "asked_same r r1"
    using prepared_same [OF p(2)] .
  show ?thesis
  proof (cases delegate)
    case None
    show ?thesis
    proof (cases "bearer_of env ev")
      case b: (Some p1)
      have "r1 = (cb_request b)\<lparr>rq_submitted_by := None, rq_requester := ay_sub p1\<rparr>"
        using identified_asker [OF i(1) b None] by simp
      then show ?thesis using i(2) b p(3,4) by (simp add: asked_same_def)
    next
      case b: None
      then have "r1 = (cb_request b)\<lparr>rq_submitted_by := None\<rparr>" "hasValidManagementToken env ev \<or> ce_allowUnauthenticated ce"
        using i(1) None by (auto simp: identified_request_def split: if_splits)
      then show ?thesis using i(2) b p(3,4) by (simp add: asked_same_def)
    qed
  next
    case (Some d)
    have r1: "r1 = (cb_request b)\<lparr>rq_submitted_by := Some \<lparr>sub_delegate = gd_delegate d, sub_delegation_grant = gd_delegationGrant d\<rparr>\<rparr>"
      using identified_delegate [OF i(1) [unfolded Some]] by simp
    obtain h where h: "delegated_token env ev = Some (gd_delegator d, gd_delegate d, gd_delegationGrant d)"
      "mem_findById (gd_delegationGrant d) s = Some h" "delegationProblem env users (Some h) (gd_delegator d) (gd_delegate d) GRANTS_REQUEST_SCOPE = None"
      using tryGrantsDelegateD [OF p(1)] Some by blast
    note ok = delegationProblem_none [OF h(3)]
    show ?thesis using own [OF Some] h(1,2) ok i(2) r1 p(3,4) by (auto simp: asked_same_def)
  qed
qed

text \<open>
  C28. The endpoint approves a request by itself only under a rule: without hooks an approved answer is attributed to a standing grant of the
  requester in force for its first detail, and each of its details is pre-authorized by one. It keeps the request as asked and sets no expiry.
\<close>

theorem auto_approval_covered:
  assumes "grants_post env ce ev broker users ssh ask InMemoryGrantStore b s = (Inr (AutoApproved x), s')" "ce_hooks ce = []"
    and "templates_wf (mem_grants s)" "\<And>g d. x = Some g \<Longrightarrow> d \<in> set (grant_details g) \<Longrightarrow> chain_wf (cd_resource_chain d)"
  shows "\<exists>g. x = Some g \<and> gr_status g = Approved \<and> gr_expires_at g = None \<and> mem_findById (ce_new_id ce) s' = Some g \<and>
    (\<forall>d\<in>set (grant_details g). \<exists>h\<in>set (mem_findByRequester (rq_requester (gr_request g)) s). preauthorizes (in_seconds env) (gr_request g) h d) \<and>
    (\<exists>h\<in>set (mem_findByRequester (rq_requester (gr_request g)) s). gr_decided_by_standing_grant g = Some (gr_id h) \<and>
       preauthorizes (in_seconds env) (gr_request g) h (hd (grant_details g)))"
proof -
  have nf: "AutoApproved x \<noteq> ForwardedRequest v" for v by simp
  obtain delegate s1 brokered r where p: "tryGrantsDelegate env ev users InMemoryGrantStore GRANTS_REQUEST_SCOPE s = (Inr delegate, s1)"
    and fin: "settle_request env ce InMemoryGrantStore delegate brokered r s1 = (Inr (AutoApproved x), s')"
    using grants_postD [OF assms(1) nf] by (elim exE conjE)
  have s1: "s1 = s" using tryGrantsDelegateD [OF p] by blast
  have d: "rq_reference r = None" "decide_request env ce InMemoryGrantStore r s = (Inr (AutoApproved x), s')"
    using fin s1 by (auto simp: settle_request_def pending_answer_def split: option.splits if_splits sum.splits prod.splits)
  obtain m g where g: "x = Some g" "evaluateStandingGrants (ae_coll env) (in_seconds env) r InMemoryGrantStore s = Some m"
    "gr_request g = r" "gr_status g = Approved" "gr_decided_by_standing_grant g = Some (mt_standing_grant_id m)" "gr_expires_at g = None"
    "s' = put_grant (ce_new_id ce) g s"
    using decide_cases [OF d(2,1)] assms(2) by auto
  let ?gs = "st_findByRequester InMemoryGrantStore (rq_requester r) s"
  have wf: "templates_wf ?gs" using assms(3) by (simp add: templates_wf_def list_all_iff mem_findByRequester_def)
  have det: "grant_details g = cliDetails (rq_authorization_details r)" by (simp add: grant_details_def g(3))
  have dwf: "\<forall>d\<in>set (cliDetails (rq_authorization_details r)). chain_wf (cd_resource_chain d)"
    using assms(4) [OF g(1)] unfolding det by blast
  have "evaluateStandingGrants (ae_coll env) (in_seconds env) r InMemoryGrantStore s \<noteq> None" using g(2) by simp
  note all = evaluate_Some_iff [THEN iffD1, OF wf dwf this]
  note att = evaluate_attributed [OF g(2) wf dwf, folded det]
  then obtain h where h: "h \<in> set (mem_findByRequester (rq_requester r) s)" "gr_id h = mt_standing_grant_id m"
    "preauthorizes (in_seconds env) r h (hd (grant_details g))"
    by auto
  show ?thesis
    using g all [folded det] by (intro exI [of _ g] conjI bexI [of _ h]) (use g h in simp_all)
qed


text \<open>A rule in an ordinary request: its type, its delegate and a template that demands nothing.\<close>

definition carries_rule :: "grant_request \<Rightarrow> string \<Rightarrow> bool" where
  "carries_rule r agent = (rq_delegate r = Some agent \<and> (case rq_standing r of None \<Rightarrow> False
     | Some f \<Rightarrow> sf_type f = Some ''standing'' \<and> sf_template f = Some [] \<and> sf_cli_id f = None \<and> sf_action f = None \<and> sf_max_risk f = None))"

lemma rule_covers:
  assumes "carries_rule (gr_request h) agent" "h \<in> set (st_findByRequester store agent t)" "gr_status h = Approved" "gr_expires_at h = None"
    and "rq_requester incoming = agent" "rq_audience incoming = rq_audience (gr_request h)" "rq_target_host incoming = rq_target_host (gr_request h)"
    and "cliDetails (rq_authorization_details incoming) \<noteq> []" "\<forall>d\<in>set (cliDetails (rq_authorization_details incoming)). chain_wf (cd_resource_chain d)"
  shows "evaluateStandingGrants coll now incoming store t \<noteq> None"
proof -
  let ?ds = "cliDetails (rq_authorization_details incoming)"
  let ?app = "concat (map (applicable now incoming) (st_findByRequester store (rq_requester incoming) t))"
  obtain r where r: "isStandingGrantRequest (gr_request h) = Some r" "sr_delegate r = agent" "sr_audience r = rq_audience (gr_request h)"
    "sr_template r = []" "sr_cli_id r = None" "sr_action r = None" "sr_max_risk r = None"
    using assms(1) by (auto simp: carries_rule_def isStandingGrantRequest_def split: option.splits)
  have app: "(gr_id h, r) \<in> set ?app"
    using assms(2-7) r(1-3) by (auto simp: applicable_iff intro!: bexI [of _ h])
  have "coversDetail coll r d" if "d \<in> set ?ds" for d
    by (rule coversDetail_iff [THEN iffD2])
      (use r(4-7) that assms(9) cliDetails_type [OF that] in \<open>simp_all add: unset_or_def template_covers_def\<close>)
  with app have "\<forall>d\<in>set ?ds. \<exists>(i, r)\<in>set ?app. coversDetail coll r d" by blast
  with cover_each_start [of ?ds ?app coll] assms(8) show ?thesis
    by (auto simp: evaluateStandingGrants_def Let_def split: option.splits)
qed

text \<open>
  C29. An agent can have itself a rule approved that nobody wrote: the handler stores the members of a standing grant that the body of an ordinary
  request carries, and once that request is approved as what it shows, evaluation reads it as a standing grant of its requester, though its
  category is not \<open>standing\<close>. From then on every request of the agent for the same audience and host is covered, whatever its program, action
  and risk, also when the approved request was for one use.
\<close>

theorem smuggled_standing_rule:
  assumes "grants_post env ce ev broker users ssh ask InMemoryGrantStore b s = (Inr a, s')" "created_grant a = Some g"
    and "delegated_token env ev = None" "bearer_of env ev = Some p" "carries_rule (cb_request b) (ay_sub p)"
    and "h \<in> set (mem_findByRequester (ay_sub p) t)" "gr_request h = gr_request g" "gr_status h = Approved" "gr_expires_at h = None"
    and "rq_requester incoming = ay_sub p" "rq_audience incoming = rq_audience (cb_request b)" "rq_target_host incoming = rq_target_host (cb_request b)"
    and "cliDetails (rq_authorization_details incoming) \<noteq> []" "\<forall>d\<in>set (cliDetails (rq_authorization_details incoming)). chain_wf (cd_resource_chain d)"
  shows "evaluateStandingGrants coll now incoming InMemoryGrantStore t \<noteq> None"
proof -
  obtain delegate r where d: "tryGrantsDelegate env ev users InMemoryGrantStore GRANTS_REQUEST_SCOPE s = (Inr delegate, s)"
    "prepared_request env ce ev InMemoryGrantStore delegate b s = Inr r" "gr_request g = r"
    using grants_post_created [OF assms(1,2)] by metis
  have none: "delegate = None" using d(1) assms(3) by (simp add: tryGrantsDelegate_def)
  obtain r1 where i: "identified_request env ce ev delegate ((cb_request b)\<lparr>rq_submitted_by := None\<rparr>) = Inr r1" "asked_same r r1"
    using prepared_same [OF d(2)] .
  have "r1 = (cb_request b)\<lparr>rq_submitted_by := None, rq_requester := ay_sub p\<rparr>" using identified_asker [OF i(1) assms(4) none] by simp
  then have r: "rq_standing r = rq_standing (cb_request b)" "rq_delegate r = rq_delegate (cb_request b)" "rq_audience r = rq_audience (cb_request b)"
    "rq_target_host r = rq_target_host (cb_request b)"
    using i(2) by (simp_all add: asked_same_def)
  show ?thesis
    by (rule rule_covers [of h "ay_sub p"]) (use assms(5-14) d(3) r in \<open>simp_all add: carries_rule_def\<close>)
qed


section \<open>Concrete runs\<close>

text \<open>An event with a token of \<open>bot\<close>, an operation of its own, and a request that carries a rule.\<close>

definition bot_env :: auth_env where
  "bot_env = ex_env\<lparr>ae_verify := (\<lambda>t i a n. Inr [(''sub'', JStr ''bot''), (''act'', JStr ''agent'')])\<rparr>"

definition bot_create :: create_env where
  "bot_create = \<lparr>ce_sha = (\<lambda>x. x), ce_cmd_hash = (\<lambda>x. x), ce_new_id = ''g'', ce_hooks = [], ce_allowUnauthenticated = False\<rparr>"

definition bare_body :: "grant_request \<Rightarrow> create_body" where
  "bare_body r = \<lparr>cb_request = r, cb_summary = JUndef, cb_batch = JUndef\<rparr>"

definition smuggle_request :: grant_request where
  "smuggle_request = (plain_request ''x'' ''host'' ''shapes'')\<lparr>rq_delegate := Some ''bot'', rq_standing := Some \<lparr>sf_type = Some ''standing'',
     sf_owner = None, sf_cli_id = None, sf_template = Some [], sf_action = None, sf_max_risk = None\<rparr>\<rparr>"

lemma bot_env_simps [simp]: "in_seconds bot_env = 5" "ae_coll bot_env = (\<le>)"
  by (simp_all add: bot_env_def ex_env_def)

lemma bot_bearer: "bearer_of bot_env ex_bearer_event = Some \<lparr>ay_sub = ''bot'', ay_act = ActType Agent, ay_aud = None, ay_delegation_grant = None\<rparr>"
  by (simp add: bearer_of_def bot_env_def ex_bearer_event_def bearer_token_def tryBearerAuth_def verifyAuthToken_def act_of_def member_def truthy_str_def)

lemma bot_no_delegate: "delegated_token bot_env ex_bearer_event = None"
  by (simp add: delegated_token_def bot_env_def ex_bearer_event_def bearer_token_def verifyAuthToken_def act_of_def member_def)

lemma bot_no_operator: "\<not> hasValidManagementToken bot_env ex_bearer_event"
  by (simp add: hasValidManagementToken_def checkManagementToken_def bot_env_def ex_env_def ex_bearer_event_def)

lemma bot_post:
  assumes "rq_target_host q \<noteq> []" "rq_audience q \<noteq> []" "rq_grant_type q \<noteq> Some Timed" "rq_batch q = None" "rq_reference q = None"
    "with_action bot_env bot_create (q\<lparr>rq_submitted_by := None, rq_requester := ''bot'', rq_grant_type := Some (nullish (rq_grant_type q) Once),
       rq_summary := None, rq_batch := None\<rparr>) = Inr r" "rq_reference r = None"
  shows "grants_post bot_env bot_create ex_bearer_event None ex_users [] ask InMemoryGrantStore (bare_body q) s =
    decide_request bot_env bot_create InMemoryGrantStore r s"
proof -
  have "with_lifetime (q\<lparr>rq_submitted_by := None, rq_requester := ''bot''\<rparr>) =
      Inr (q\<lparr>rq_submitted_by := None, rq_requester := ''bot'', rq_grant_type := Some (nullish (rq_grant_type q) Once)\<rparr>)"
    using assms(1-3) by (cases "rq_grant_type q") (auto simp: with_lifetime_def Let_def)
  then show ?thesis
    using assms(4-7) by (simp add: grants_post_def maybeForwardBrokerGrant_def tryGrantsDelegate_def bot_no_delegate bare_body_def
      prepared_request_def identified_request_def bot_bearer with_display_def parseGrantSummary_def parseGrantBatch_def assertGrantBatchMember_def
      settle_request_def Let_def)
qed

lemma smuggled_run:
  "\<exists>g. grants_post bot_env bot_create ex_bearer_event None ex_users [] ask InMemoryGrantStore (bare_body smuggle_request) empty_mem =
     (Inr (CreatedPending g), put_grant ''g'' g empty_mem) \<and> rq_grant_type (gr_request g) = Some Once \<and> gr_status g = Pending \<and> gr_id g = ''g'' \<and>
     rq_authorization_details (gr_request g) = None \<and> rq_reference (gr_request g) = None \<and> rq_requester (gr_request g) = ''bot'' \<and>
     gr_expires_at g = None \<and> gr_category g = None \<and> rq_duration (gr_request g) = None"
proof -
  let ?r = "smuggle_request\<lparr>rq_submitted_by := None, rq_requester := ''bot'', rq_grant_type := Some Once, rq_summary := None, rq_batch := None\<rparr>"
  have r: "rq_authorization_details ?r = None" "rq_reference ?r = None" "rq_requester ?r = ''bot''" "rq_grant_type ?r = Some Once"
    "rq_execution_context ?r = None" "rq_command ?r = None" "rq_duration ?r = None"
    by (simp_all add: smuggle_request_def plain_request_def)
  have "with_action bot_env bot_create ?r = Inr ?r"
    by (simp add: with_action_def normalizeAuthorizationDetails_def with_permissions_def with_hash_def with_context_def smuggle_request_def plain_request_def)
  then have "grants_post bot_env bot_create ex_bearer_event None ex_users [] ask InMemoryGrantStore (bare_body smuggle_request) empty_mem =
      decide_request bot_env bot_create InMemoryGrantStore ?r empty_mem"
    by (intro bot_post) (simp_all add: smuggle_request_def plain_request_def)
  also have "\<dots> = (Inr (CreatedPending (new_grant ''g'' None ?r Pending 5)), put_grant ''g'' (new_grant ''g'' None ?r Pending 5) empty_mem)"
    using r by (simp add: decide_request_def Let_def mem_findByRequester_def mem_grants_def empty_mem_def findReusableGrant_def evaluateStandingGrants_def
      findSimilarCliGrants_def bot_create_def createPendingGrant_def create_unreferenced pending_answer_def)
  finally show ?thesis using r by simp
qed

theorem requester_proven_witness:
  "\<exists>g s'. grants_post bot_env bot_create ex_bearer_event None ex_users [] (\<lambda>a o' n. Inl no_broker) InMemoryGrantStore (bare_body smuggle_request) empty_mem =
     (Inr (CreatedPending g), s') \<and> rq_requester (cb_request (bare_body smuggle_request)) = ''x'' \<and> rq_requester (gr_request g) = ''bot''"
proof -
  obtain g where g: "grants_post bot_env bot_create ex_bearer_event None ex_users [] (\<lambda>a o' n. Inl no_broker) InMemoryGrantStore (bare_body smuggle_request) empty_mem =
     (Inr (CreatedPending g), put_grant ''g'' g empty_mem)"
    using smuggled_run by blast
  have "rq_requester (gr_request g) = ''bot''"
    using requester_proven [OF g] bot_bearer bot_no_delegate by (simp add: created_grant_def)
  moreover have "rq_requester (cb_request (bare_body smuggle_request)) = ''x''"
    by (simp add: bare_body_def smuggle_request_def plain_request_def)
  ultimately show ?thesis using g by blast
qed

lemma ls_wf: "\<forall>d\<in>set (cliDetails (rq_authorization_details (ls_request c))). chain_wf (cd_resource_chain d)"
  by (simp add: ls_details)

theorem smuggled_standing_rule_witness:
  "\<exists>g s1 h s2. grants_post bot_env bot_create ex_bearer_event None ex_users [] (\<lambda>a o' n. Inl no_broker) InMemoryGrantStore (bare_body smuggle_request) empty_mem =
     (Inr (CreatedPending g), s1) \<and> rq_grant_type (gr_request g) = Some Once \<and> rq_authorization_details (gr_request g) = None \<and>
     approveGrant 6 ''g'' ''ada'' InMemoryGrantStore no_overrides s1 = (Inr (Some h), s2) \<and> gr_category h \<noteq> Some StandingGrant \<and>
     evaluateStandingGrants (\<le>) 7 (ls_request ''rm'') InMemoryGrantStore s2 \<noteq> None"
proof -
  obtain g where g: "grants_post bot_env bot_create ex_bearer_event None ex_users [] (\<lambda>a o' n. Inl no_broker) InMemoryGrantStore (bare_body smuggle_request) empty_mem =
     (Inr (CreatedPending g), put_grant ''g'' g empty_mem)" "rq_grant_type (gr_request g) = Some Once" "gr_status g = Pending" "gr_id g = ''g''"
     "rq_authorization_details (gr_request g) = None" "rq_reference (gr_request g) = None" "rq_requester (gr_request g) = ''bot''"
     "gr_expires_at g = None" "gr_category g = None" "rq_duration (gr_request g) = None"
    using smuggled_run by blast
  let ?s = "put_grant ''g'' g empty_mem"
  let ?h = "approved_grant 6 ''ada'' no_overrides g"
  have ok: "approvable no_overrides g"
    using g(2,3,5,6) by (simp add: approvable_def truthy_str_def effective_type_def effective_duration_def no_overrides_def has_single_use_def)
  have a: "approveGrant 6 ''g'' ''ada'' InMemoryGrantStore no_overrides ?s = (Inr (Some ?h), put_grant ''g'' ?h empty_mem)"
    using approve_unfold(1) [of InMemoryGrantStore "''g''" ?s g no_overrides 6 "''ada''"] ok g(6)
    by (simp add: mem_updateStatus_def truthy_str_def approved_grant_def)
  have h: "gr_request ?h = gr_request g" "gr_status ?h = Approved" "gr_expires_at ?h = None" "gr_category ?h = None"
    using g(2,8-10) by (simp_all add: approved_grant_def approval_patch_def effective_type_def effective_duration_def no_overrides_def apply_patch_def no_patch_def)
  have m: "?h \<in> set (mem_findByRequester ''bot'' (put_grant ''g'' ?h empty_mem))"
    using h(1) g(7) by (simp add: mem_findByRequester_def mem_grants_def put_grant_def empty_mem_def)
  have c: "carries_rule (cb_request (bare_body smuggle_request)) ''bot''" "rq_audience (cb_request (bare_body smuggle_request)) = ''shapes''"
    "rq_target_host (cb_request (bare_body smuggle_request)) = ''host''"
    by (simp_all add: carries_rule_def bare_body_def smuggle_request_def plain_request_def)
  have "evaluateStandingGrants (\<le>) 7 (ls_request ''rm'') InMemoryGrantStore (put_grant ''g'' ?h empty_mem) \<noteq> None"
    by (rule smuggled_standing_rule [OF g(1) _ bot_no_delegate bot_bearer _ _ h(1-3)])
      (use c m ls_details ls_wf in \<open>simp_all add: created_grant_def ls_request_def plain_request_def\<close>)
  moreover have "gr_category ?h \<noteq> Some StandingGrant" unfolding h(4) by simp
  ultimately show ?thesis using g(1,2,5) a by (intro exI conjI)
qed


definition listed_detail :: cli_detail where
  "listed_detail = (simple_detail ''ls'' [ref ''file'' [(''path'', ''/tmp'')]] ''read'')\<lparr>cd_permission := ''ls.file[path=/tmp]#read''\<rparr>"

lemma listed_detail_simps [simp]: "cd_type listed_detail = ''openape_cli''" 
  "canonicalizeCliPermission (\<le>) (cd_cli_id listed_detail) [ref ''file'' [(''path'', ''/tmp'')]] (cd_action listed_detail) = cd_permission listed_detail"
  "cd_resource_chain listed_detail = [ref ''file'' [(''path'', ''/tmp'')]]"
  by (simp_all add: listed_detail_def canonical_eval)

lemma listed_detail_valid: "cv_valid (validateCliAuthorizationDetail (\<le>) (json_of_detail listed_detail))"
  by (simp add: validate_typed_iff canonical_eval ref_complete_def listed_detail_def simple_detail_def ref_def)

definition listing_request :: grant_request where
  "listing_request = (plain_request ''x'' ''host'' ''shapes'')\<lparr>rq_authorization_details := Some [CliDetail listed_detail]\<rparr>"

lemma ls_templates: "templates_wf (mem_grants ls_store)"
proof -
  let ?r = "buildSafeCommandRequest ''ls'' ''read'' ''me'' ''bot'' False"
  have "isStandingGrantRequest (stored_standing ?r) = Some ?r"
    by (simp add: isStandingGrantRequest_def stored_standing_def plain_request_def buildSafeCommandRequest_def)
  moreover have "mem_grants ls_store = [standing_grant 1 ''s'' ''me'' ?r]"
    by (simp add: ls_store_def mem_grants_def put_grant_def empty_mem_def)
  ultimately show ?thesis by (simp add: templates_wf_def) (simp add: buildSafeCommandRequest_def)
qed

theorem auto_approval_covered_witness:
  "\<exists>g s'. grants_post bot_env bot_create ex_bearer_event None ex_users [] (\<lambda>a o' n. Inl no_broker) InMemoryGrantStore (bare_body listing_request) ls_store =
     (Inr (AutoApproved (Some g)), s') \<and> gr_decided_by_standing_grant g = Some ''s''"
proof -
  let ?r = "listing_request\<lparr>rq_submitted_by := None, rq_requester := ''bot'', rq_grant_type := Some Once, rq_summary := None, rq_batch := None\<rparr>"
  define q where "q = ?r\<lparr>rq_permissions := Some [cd_permission listed_detail]\<rparr>"
  let ?s = "buildSafeCommandRequest ''ls'' ''read'' ''me'' ''bot'' False"
  have n: "normalizeAuthorizationDetails (\<le>) (Some [CliDetail listed_detail]) = Inr (Some [CliDetail listed_detail])"
    by (simp add: normalizeAuthorizationDetails_def normal_detail_def listed_detail_valid)
  have q: "rq_authorization_details q = Some [CliDetail listed_detail]" "rq_reference q = None" "rq_requester q = ''bot''" "rq_delegate q = None"
    by (simp_all add: q_def listing_request_def plain_request_def)
  have "with_action bot_env bot_create ?r = Inr q"
    by (simp add: q_def with_action_def n with_permissions_def with_hash_def with_context_def listing_request_def plain_request_def detail_permission_def)
  then have run: "grants_post bot_env bot_create ex_bearer_event None ex_users [] (\<lambda>a o' n. Inl no_broker) InMemoryGrantStore (bare_body listing_request) ls_store =
      decide_request bot_env bot_create InMemoryGrantStore q ls_store"
    by (intro bot_post) (simp_all add: q_def listing_request_def plain_request_def)
  have r: "isStandingGrantRequest (stored_standing ?s) = Some ?s"
    by (simp add: isStandingGrantRequest_def stored_standing_def plain_request_def buildSafeCommandRequest_def)
  have wf: "templates_wf (st_findByRequester InMemoryGrantStore (rq_requester q) ls_store)"
    using ls_templates by (simp add: templates_wf_def list_all_iff mem_findByRequester_def)
  have det: "cliDetails (rq_authorization_details q) = [listed_detail]" using q(1) by simp
  have dwf: "\<forall>d\<in>set (cliDetails (rq_authorization_details q)). chain_wf (cd_resource_chain d)" unfolding det by simp
  have "preauthorizes 5 q (standing_grant 1 ''s'' ''me'' ?s) listed_detail"
    by (simp add: preauthorizes_def r) (auto simp: q_def buildSafeCommandRequest_def listing_request_def plain_request_def listed_detail_def
      template_covers_def unset_or_def simple_detail_def)
  then obtain m where m: "evaluateStandingGrants (\<le>) 5 q InMemoryGrantStore ls_store = Some m"
    using evaluate_Some_iff [OF wf dwf, of "(\<le>)" 5] q(3) by (auto simp: det ls_found)
  have reuse: "findReusableGrant (\<le>) 5 (mem_findByRequester ''bot'' ls_store) q None = None"
    using reusableD(10) [of "(\<le>)" 5 None q "standing_grant 1 ''s'' ''me'' ?s"] q(4)
    by (auto simp: ls_found findReusableGrant_def standing_grant_def stored_standing_def plain_request_def)
  obtain x s' where x: "decide_request bot_env bot_create InMemoryGrantStore q ls_store = (Inr (AutoApproved x), s')"
    using m reuse q by (simp add: decide_request_def Let_def approve_by_standing_def create_unreferenced update_put standing_patch_def no_patch_def)
  have dets: "grant_details g = [listed_detail]" if "x = Some g" for g
    using decide_cases [OF x q(2)] that q(1) by (auto simp: grant_details_def)
  have dw: "chain_wf (cd_resource_chain d)" if "x = Some g" "d \<in> set (grant_details g)" for g d
    using dets [OF that(1)] that(2) by simp
  have no_hooks: "ce_hooks bot_create = []" by (simp add: bot_create_def)
  have "\<exists>g. x = Some g \<and> (\<exists>h\<in>set (mem_findByRequester (rq_requester (gr_request g)) ls_store). gr_decided_by_standing_grant g = Some (gr_id h))"
    using auto_approval_covered [OF run [unfolded x] no_hooks ls_templates] dw by blast
  then obtain g h where g: "x = Some g" "h \<in> set (mem_findByRequester (rq_requester (gr_request g)) ls_store)" "gr_decided_by_standing_grant g = Some (gr_id h)"
    by blast
  have "h \<in> set (mem_grants ls_store)" using g(2) by (simp add: mem_findByRequester_def)
  then have "gr_id h = ''s''" by (simp add: ls_store_def mem_grants_def put_grant_def empty_mem_def standing_grant_def)
  with g run x show ?thesis by (intro exI [of _ g] exI [of _ s']) simp
qed

end
