(* ===== verification/GrantLists.thy ===== *)
theory GrantLists
  imports GrantRequests Widening
begin

text \<open>
  Reading and delegating at the identity provider: \<open>api/grants/index.get.ts\<close> and \<open>[id].get.ts\<close>, \<open>api/delegations\<close>,
  \<open>api/standing-grants\<close> (\<open>index.get.ts\<close>, \<open>[id].delete.ts\<close>, \<open>bulk-seed.post.ts\<close>) and \<open>utils/expire-stale-grants.ts\<close>. A query holds the
  parsed values of its parameters. The cards that a listing adds to its grants, the entity tag and the diagnostics of a pending grant are left out.
\<close>

section \<open>Expiring what a listing shows\<close>

text \<open>All updates run; the first that fails rejects the call.\<close>

fun update_all :: "'s grant_store \<Rightarrow> grant_status \<Rightarrow> string list \<Rightarrow> 's \<Rightarrow> unit outcome \<times> 's" where
  "update_all store st [] s = (Inr (), s)"
| "update_all store st (i # ids) s = (case st_updateStatus store i st no_patch s of (r, s1) \<Rightarrow>
     (case update_all store st ids s1 of (r', s2) \<Rightarrow> (case r of Inl e \<Rightarrow> (Inl e, s2) | Inr _ \<Rightarrow> (r', s2))))"

definition expireStaleGrants :: "int \<Rightarrow> grant list \<Rightarrow> 's grant_store \<Rightarrow> 's \<Rightarrow> grant list outcome \<times> 's" where
  "expireStaleGrants now grants store s = (let stale = map gr_id (filter (\<lambda>g. isGrantExpired g now) grants) in
     case update_all store Expired stale s of (Inl e, s1) \<Rightarrow> (Inl e, s1)
     | (Inr _, s1) \<Rightarrow> (Inr (map (\<lambda>g. if gr_id g \<in> set stale then g\<lparr>gr_status := Expired\<rparr> else g) grants), s1))"

section \<open>Delegations\<close>

text \<open>A member of the body that is missing or not a string is \<open>None\<close>.\<close>

record delegation_body =
  db_delegate :: "string option"
  db_audience :: "string option"
  db_grant_type :: "string option"
  db_scopes :: "string list option"
  db_duration :: "int option"

definition requested_type :: "string option \<Rightarrow> grant_type option" where
  "requested_type t = (if truthy_str t then grant_type_of (the t) else Some Once)"

definition delegations_post :: "auth_env \<Rightarrow> web_event \<Rightarrow> user_store \<Rightarrow> 's grant_store \<Rightarrow> string \<Rightarrow> delegation_body \<Rightarrow> 's
    \<Rightarrow> (problem + grant option) \<times> 's" where
  "delegations_post env ev users store new_id b s =
     (if (case bearer_of env ev of None \<Rightarrow> False | Some p \<Rightarrow> ay_act p \<noteq> ActType Human)
      then (Inl (problem 403 ''Only humans can create delegations''), s)
      else case requireAuth env ev of Inl e \<Rightarrow> (Inl e, s)
      | Inr delegator \<Rightarrow>
        if \<not> truthy_str (db_delegate b) then (Inl (problem 400 ''Missing delegate''), s)
        else if \<not> truthy_str (db_audience b) then (Inl (problem 400 ''Missing audience''), s)
        else (case requested_type (db_grant_type b) of None \<Rightarrow> (Inl (problem 400 ''Invalid grant_type''), s)
        | Some ty \<Rightarrow> (case grantsDelegationProblem env users delegator (the (db_delegate b)) (the (db_audience b)) (db_scopes b) of
            Some m \<Rightarrow> (Inl (problem 400 m), s)
          | None \<Rightarrow> refused_with 500 (createDelegation (in_seconds env) new_id \<lparr>dp_delegator = delegator, dp_delegate = the (db_delegate b),
              dp_audience = the (db_audience b), dp_scopes = db_scopes b, dp_grant_type = ty, dp_duration = db_duration b\<rparr> store s))))"

definition delegation_delete :: "auth_env \<Rightarrow> web_event \<Rightarrow> 's grant_store \<Rightarrow> string \<Rightarrow> 's \<Rightarrow> (problem + grant option) \<times> 's" where
  "delegation_delete env ev store i s = (case requireAuth env ev of Inl e \<Rightarrow> (Inl e, s)
     | Inr email \<Rightarrow> if i = [] then (Inl (problem 400 ''Missing delegation ID''), s)
       else (case st_findById store i s of None \<Rightarrow> (Inl (problem 404 ''Delegation not found''), s)
       | Some g \<Rightarrow> if gr_category g \<noteq> Some DelegationGrant then (Inl (problem 404 ''Delegation not found''), s)
           else if rq_delegator (gr_request g) \<noteq> Some email then (Inl (problem 403 ''Not authorized to revoke this delegation''), s)
           else refused_with 500 (revokeGrant i store s)))"

datatype validity = ValidDelegation grant "string list" | InvalidDelegation grant_error

definition delegation_validate :: "int \<Rightarrow> 's grant_store \<Rightarrow> string \<Rightarrow> string \<Rightarrow> string \<Rightarrow> 's \<Rightarrow> (problem + validity) \<times> 's" where
  "delegation_validate now store i delegate audience s = (if i = [] then (Inl (problem 400 ''Missing delegation ID''), s)
     else if delegate = [] \<or> audience = [] then (Inl (problem 400 ''Missing delegate or audience''), s)
     else (case validateDelegation now i delegate audience store s of
         (Inl e, s1) \<Rightarrow> (Inr (InvalidDelegation e), s1)
       | (Inr g, s1) \<Rightarrow> (Inr (ValidDelegation g (nullish (rq_scopes (gr_request g)) [])), s1)))"

text \<open>Newest first.\<close>

definition by_created :: "grant list \<Rightarrow> grant list" where
  "by_created gs = sort_by (\<lambda>a b. gr_created_at b \<le> gr_created_at a) gs"

definition query_limit :: "int option \<Rightarrow> int" where
  "query_limit n = min (max (if truthy_num n then the n else 20) 1) 100"

text \<open>\<open>Number(cursor)\<close>: a cursor that is not a number is below nothing.\<close>

definition cursor_number :: "string \<Rightarrow> int option" where
  "cursor_number c = (if c \<noteq> [] \<and> list_all is_digit c then Some (int (nat_of_digits c)) else None)"

definition from_cursor :: "string option \<Rightarrow> grant list \<Rightarrow> grant list" where
  "from_cursor cursor gs = (if \<not> truthy_str cursor then gs
     else case cursor_number (the cursor) of None \<Rightarrow> [] | Some t \<Rightarrow> dropWhile (\<lambda>g. \<not> gr_created_at g < t) gs)"

definition paginate :: "grant list \<Rightarrow> int \<Rightarrow> string option \<Rightarrow> grant_page" where
  "paginate gs limit cursor = (let filtered = from_cursor cursor gs; page = take (nat limit) filtered in
     \<lparr>pg_data = page, pg_cursor = (if page = [] then None else Some (string_of_int (gr_created_at (last page)))),
      pg_has_more = (length filtered > nat limit)\<rparr>)"

fun first_by_id :: "string set \<Rightarrow> grant list \<Rightarrow> grant list" where
  "first_by_id seen [] = []"
| "first_by_id seen (g # gs) = (if gr_id g \<in> seen then first_by_id seen gs else g # first_by_id (insert (gr_id g) seen) gs)"

record 's delegation_finder =
  fd_byDelegator :: "string \<Rightarrow> 's \<Rightarrow> grant list"
  fd_byDelegate :: "string \<Rightarrow> 's \<Rightarrow> grant list"

definition mem_finder :: "mem_store delegation_finder" where
  "mem_finder = \<lparr>fd_byDelegator = mem_findByDelegator, fd_byDelegate = mem_findByDelegate\<rparr>"

definition expired_page :: "int \<Rightarrow> grant list \<Rightarrow> 's grant_store \<Rightarrow> (grant list \<Rightarrow> grant_page) \<Rightarrow> 's \<Rightarrow> (problem + grant_page) \<times> 's" where
  "expired_page now gs store mk s = (case expireStaleGrants now gs store s of
     (Inl e, s1) \<Rightarrow> (Inl (500, GrantText e), s1) | (Inr gs', s1) \<Rightarrow> (Inr (mk gs'), s1))"

definition delegations_get :: "auth_env \<Rightarrow> web_event \<Rightarrow> 's grant_store \<Rightarrow> 's delegation_finder \<Rightarrow> string option \<Rightarrow> int option \<Rightarrow> string option
    \<Rightarrow> 's \<Rightarrow> (problem + grant_page) \<times> 's" where
  "delegations_get env ev store fd role limit cursor s = (case requireAuth env ev of Inl e \<Rightarrow> (Inl e, s)
     | Inr email \<Rightarrow> let now = in_seconds env; page = (\<lambda>gs. paginate gs (query_limit limit) cursor) in
         if role = Some ''delegator'' then expired_page now (fd_byDelegator fd email s) store (page \<circ> by_created) s
         else if role = Some ''delegate'' then expired_page now (fd_byDelegate fd email s) store (page \<circ> by_created) s
         else expired_page now (by_created (first_by_id {} (fd_byDelegator fd email s @ fd_byDelegate fd email s))) store page s)"

section \<open>Standing grants\<close>

definition standing_delete :: "auth_env \<Rightarrow> web_event \<Rightarrow> 's grant_store \<Rightarrow> string \<Rightarrow> 's \<Rightarrow> (problem + unit) \<times> 's" where
  "standing_delete env ev store i s = (case requireAuth env ev of Inl e \<Rightarrow> (Inl e, s)
     | Inr owner \<Rightarrow> if i = [] then (Inl (problem 400 ''Missing id''), s)
       else (case st_findById store i s of None \<Rightarrow> (Inl (problem 404 ''Standing grant not found''), s)
       | Some g \<Rightarrow> (case (if gr_category g = Some StandingGrant then isStandingGrantRequest (gr_request g) else None) of
           None \<Rightarrow> (Inl (problem 404 ''Standing grant not found''), s)
         | Some r \<Rightarrow> if sr_owner r \<noteq> Some owner then (Inl (problem 403 ''Not the owner of this standing grant''), s)
             else (case revokeGrant i store s of (Inl e, s1) \<Rightarrow> (Inl (500, GrantText e), s1) | (Inr _, s1) \<Rightarrow> (Inr (), s1)))))"

definition is_standing_of :: "string \<Rightarrow> grant \<Rightarrow> bool" where
  "is_standing_of owner g = (gr_category g = Some StandingGrant \<and> (case isStandingGrantRequest (gr_request g) of
     None \<Rightarrow> False | Some r \<Rightarrow> sr_owner r = Some owner))"

definition reader_of :: "auth_env \<Rightarrow> web_event \<Rightarrow> user_store \<Rightarrow> 's grant_store \<Rightarrow> 's \<Rightarrow> (problem + string) \<times> 's" where
  "reader_of env ev users store s = (case tryGrantsDelegate env ev users store GRANTS_READ_SCOPE s of
     (Inl e, s1) \<Rightarrow> (Inl e, s1) | (Inr (Some d), s1) \<Rightarrow> (Inr (gd_delegator d), s1) | (Inr None, s1) \<Rightarrow> (requireAuth env ev, s1))"

definition standing_get :: "auth_env \<Rightarrow> web_event \<Rightarrow> user_store \<Rightarrow> 's grant_store \<Rightarrow> 's \<Rightarrow> (problem + grant list) \<times> 's" where
  "standing_get env ev users store s = (case reader_of env ev users store s of (Inl e, s1) \<Rightarrow> (Inl e, s1)
     | (Inr owner, s1) \<Rightarrow> (case st_listGrants store no_params s1 of
         Inl e \<Rightarrow> (Inl (500, GrantText e), s1) | Inr page \<Rightarrow> (Inr (filter (is_standing_of owner) (pg_data page)), s1)))"

record seed_result =
  se_delegate :: string
  se_created :: nat
  se_skipped :: nat

text \<open>\<open>ids k n\<close> is the id of the \<open>n\<close>-th grant created for the \<open>k\<close>-th delegate.\<close>

fun seed_each :: "int \<Rightarrow> (nat \<Rightarrow> nat \<Rightarrow> string) \<Rightarrow> string \<Rightarrow> string list \<Rightarrow> nat \<Rightarrow> string list \<Rightarrow> 's grant_store \<Rightarrow> 's
    \<Rightarrow> (problem + seed_result list) \<times> 's" where
  "seed_each now ids owner owned k [] store s = (Inr [], s)"
| "seed_each now ids owner owned k (d # ds) store s =
     (case (if d \<notin> set owned then (Inr (0, 0), s) else seedDefaultSafeCommands now (ids k) d owner store s) of
        (Inl e, s1) \<Rightarrow> (Inl (500, GrantText e), s1)
      | (Inr (c, k'), s1) \<Rightarrow> (case seed_each now ids owner owned (k + 1) ds store s1 of
          (Inl e, s2) \<Rightarrow> (Inl e, s2) | (Inr rs, s2) \<Rightarrow> (Inr (\<lparr>se_delegate = d, se_created = c, se_skipped = k'\<rparr> # rs), s2)))"

definition bulk_seed_post :: "auth_env \<Rightarrow> web_event \<Rightarrow> user_store \<Rightarrow> 's grant_store \<Rightarrow> (nat \<Rightarrow> nat \<Rightarrow> string) \<Rightarrow> string option list option \<Rightarrow> 's
    \<Rightarrow> (problem + seed_result list) \<times> 's" where
  "bulk_seed_post env ev users store ids delegates s = (case requireAuth env ev of Inl e \<Rightarrow> (Inl e, s)
     | Inr owner \<Rightarrow> (case delegates of None \<Rightarrow> (Inl (problem 400 ''delegates must be a non-empty array''), s)
       | Some ds \<Rightarrow> if ds = [] then (Inl (problem 400 ''delegates must be a non-empty array''), s)
         else if length ds > 50 then (Inl (problem 400 ''delegates may not exceed 50 entries''), s)
         else if \<exists>d\<in>set ds. (case d of None \<Rightarrow> True | Some x \<Rightarrow> x = [] \<or> length x > 255)
         then (Inl (problem 400 ''each delegate must be a non-empty string''), s)
         else seed_each (in_seconds env) ids owner (map us_email (findByOwner owner users)) 0 (map the ds) store s))"

section \<open>Listing grants\<close>

record list_query =
  lq_limit :: "int option"
  lq_cursor :: "string option"
  lq_status :: "grant_status option"
  lq_requester :: "string option"
  lq_batch :: "string option"
  lq_reference :: jsval
  lq_section :: "string option"
  lq_days :: "int option"

datatype list_answer = Listed grant_page | ForwardedList "jsval list"

definition isActiveGrant :: "grant \<Rightarrow> bool" where
  "isActiveGrant g = (gr_status g = Pending \<or> gr_status g = Approved \<and> rq_grant_type (gr_request g) \<noteq> Some Once)"

definition list_reader :: "auth_env \<Rightarrow> web_event \<Rightarrow> user_store \<Rightarrow> 's grant_store \<Rightarrow> 's
    \<Rightarrow> (problem + (string \<times> grants_delegate option \<times> auth_payload option)) \<times> 's" where
  "list_reader env ev users store s = (case tryGrantsDelegate env ev users store GRANTS_READ_SCOPE s of (Inl e, s1) \<Rightarrow> (Inl e, s1)
     | (Inr delegate, s1) \<Rightarrow>
         let bearer = (if delegate = None then bearer_of env ev else None);
             email = (case delegate of Some d \<Rightarrow> Some (gd_delegator d)
               | None \<Rightarrow> (case bearer of Some p \<Rightarrow> Some (ay_sub p) | None \<Rightarrow> (case ev_session ev of Some u \<Rightarrow> u | None \<Rightarrow> None))) in
         if truthy_str email then (Inr (the email, delegate, bearer), s1) else (Inl (problem 401 ''Authentication required''), s1))"

definition visible_requesters :: "user_store \<Rightarrow> string \<Rightarrow> string list" where
  "visible_requesters users email = email # map us_email (findByOwner email users) @ map us_email (findByApprover email users)"

text \<open>Whose brokered grants the caller reads: \<open>Some None\<close> when none, \<open>None\<close> without a broker store.\<close>

definition broker_visibility :: "'s broker option \<Rightarrow> user_store \<Rightarrow> string \<Rightarrow> auth_payload option \<Rightarrow> string option option" where
  "broker_visibility broker users email bearer = (if broker = None then None
     else Some (case findByEmail email users of None \<Rightarrow> None
       | Some u \<Rightarrow> if us_isActive u \<and> us_type u \<noteq> Some Agent \<and> \<not> truthy_str (us_owner u) \<and>
            (case bearer of None \<Rightarrow> True | Some p \<Rightarrow> \<not> truthy_str (ay_delegation_grant p) \<and> ay_act p \<noteq> ActType Agent)
           then Some email else None))"

definition list_pages :: "auth_env \<Rightarrow> 's broker option \<Rightarrow> user_store \<Rightarrow> 's grant_store \<Rightarrow> list_query \<Rightarrow> string option \<Rightarrow> string \<Rightarrow> auth_payload option
    \<Rightarrow> list_params" where
  "list_pages env broker users store q reference email bearer =
     (let p = no_params\<lparr>lp_limit := Some (query_limit (lq_limit q)), lp_cursor := only_truthy (lq_cursor q), lp_status := lq_status q,
         lp_broker_owner := broker_visibility broker users email bearer,
         lp_requester := Some (ManyRequesters (visible_requesters users email))\<rparr> in
      if truthy_str (lq_requester q)
      then (let p1 = p\<lparr>lp_batch := only_truthy (lq_batch q), lp_reference := reference,
          lp_exclude_status := (if truthy_str (lq_batch q) \<and> lq_section q = Some ''history'' then Some Pending else None)\<rparr> in
        if broker \<noteq> None then p1\<lparr>lp_requester_filter := lq_requester q\<rparr>
        else p1\<lparr>lp_broker_owner := None, lp_requester := Some (OneRequester (the (lq_requester q)))\<rparr>)
      else p)"

definition history_page :: "auth_env \<Rightarrow> list_query \<Rightarrow> grant list \<Rightarrow> grant_page" where
  "history_page env q owned =
     (let cutoff = in_seconds env - min (max (if truthy_num (lq_days q) then the (lq_days q) else 7) 1) 90 * 86400;
          history = filter (\<lambda>g. \<not> isActiveGrant g \<and> cutoff \<le> gr_created_at g) owned in
      paginate (case lq_status q of None \<Rightarrow> history | Some st \<Rightarrow> filter (\<lambda>g. gr_status g = st) history) (query_limit (lq_limit q)) (lq_cursor q))"

definition list_visible :: "auth_env \<Rightarrow> 's broker option \<Rightarrow> user_store \<Rightarrow> 's grant_store \<Rightarrow> list_query \<Rightarrow> string option \<Rightarrow> string \<Rightarrow> auth_payload option
    \<Rightarrow> 's \<Rightarrow> (problem + list_answer) \<times> 's" where
  "list_visible env broker users store q reference email bearer s =
     (let now = in_seconds env; listed = (\<lambda>x. case x of (Inl e, s1) \<Rightarrow> (Inl e, s1) | (Inr page, s1) \<Rightarrow> (Inr (Listed page), s1));
          p = list_pages env broker users store q reference email bearer in
      if (truthy_str (lq_batch q) \<or> truthy_str reference) \<and> \<not> truthy_str (lq_requester q)
      then (Inl (problem 400 ''The batch or reference filter requires a requester''), s)
      else if truthy_str (lq_requester q) \<and> the (lq_requester q) \<notin> set (visible_requesters users email) \<and> broker = None
      then (Inl (problem 403 ''Not authorized to list grants for this requester''), s)
      else if truthy_str (lq_requester q) \<or> \<not> truthy_str (lq_section q)
      then (case st_listGrants store p s of Inl e \<Rightarrow> (Inl (500, GrantText e), s)
        | Inr page \<Rightarrow> listed (expired_page now (pg_data page) store (\<lambda>gs. page\<lparr>pg_data := gs\<rparr>) s))
      else (case st_listGrants store (no_params\<lparr>lp_requester := Some (ManyRequesters (visible_requesters users email)), lp_limit := Some 10000,
            lp_broker_owner := broker_visibility broker users email bearer\<rparr>) s of
          Inl e \<Rightarrow> (Inl (500, GrantText e), s)
        | Inr page \<Rightarrow> listed (expired_page now (pg_data page) store (\<lambda>owned. if lq_section q = Some ''active''
            then \<lparr>pg_data = filter isActiveGrant owned, pg_cursor = None, pg_has_more = False\<rparr> else history_page env q owned) s)))"

definition grants_get :: "auth_env \<Rightarrow> web_event \<Rightarrow> 's broker option \<Rightarrow> user_store \<Rightarrow> ssh_store \<Rightarrow> broker_ask \<Rightarrow> 's grant_store \<Rightarrow> list_query
    \<Rightarrow> 's \<Rightarrow> (problem + list_answer) \<times> 's" where
  "grants_get env ev broker users ssh ask store q s =
     (if truthy_str (lq_cursor q) \<and> isl (parseGrantCursor (the (lq_cursor q))) then (Inl (problem 400 ''Invalid grant cursor''), s)
      else case parseGrantReference (lq_reference q) of Inl e \<Rightarrow> (Inl (400, GrantText e), s)
      | Inr reference \<Rightarrow> (case list_reader env ev users store s of (Inl e, s1) \<Rightarrow> (Inl e, s1)
      | (Inr (email, delegate, bearer), s1) \<Rightarrow>
          (case (if reference \<noteq> None \<and> bearer \<noteq> None \<and> delegate = None
                 then maybeForwardBrokerGrant env ev broker users ssh ask (OpGetReference (the reference)) s1 else Inr None) of
             Inl e \<Rightarrow> (Inl e, s1)
           | Inr (Some v) \<Rightarrow> if truthy_str (lq_requester q) \<and> lq_requester q \<noteq> Some email
               then (Inl (problem 403 ''Reference lookup must name the authenticated requester''), s1)
               else (Inr (ForwardedList (if v = JNull then [] else [v])), s1)
           | Inr None \<Rightarrow> list_visible env broker users store q reference email bearer s1)))"

text \<open>\<open>GET /api/grants/:id\<close>: the grant itself, with the grants like a pending one and its widenings.\<close>

datatype grant_view = ForwardedView jsval | GrantView grant "similar_result option" "widening_suggestion list list option"

definition grant_get :: "auth_env \<Rightarrow> web_event \<Rightarrow> 's broker option \<Rightarrow> user_store \<Rightarrow> ssh_store \<Rightarrow> broker_ask \<Rightarrow> 's grant_store \<Rightarrow> string
    \<Rightarrow> 's \<Rightarrow> (problem + grant_view) \<times> 's" where
  "grant_get env ev broker users ssh ask store i s = (if i = [] then (Inl no_grant_id, s)
     else case maybeForwardBrokerGrant env ev broker users ssh ask (OpGet i) s of Inl e \<Rightarrow> (Inl e, s)
     | Inr (Some v) \<Rightarrow> (Inr (ForwardedView v), s)
     | Inr None \<Rightarrow> (case introspectGrant (in_seconds env) i store s of
         (Inl e, s1) \<Rightarrow> (Inl (500, GrantText e), s1)
       | (Inr None, s1) \<Rightarrow> (Inl no_grant, s1)
       | (Inr (Some g), s1) \<Rightarrow>
           if gr_brokered g \<noteq> None
           then (case requireBrokerGrantOwner env ev broker users g False s1 of Inl e \<Rightarrow> (Inl e, s1) | Inr _ \<Rightarrow> (Inr (GrantView g None None), s1))
           else (let details = cliDetails (rq_authorization_details (gr_request g)) in
             if gr_status g = Pending \<and> details \<noteq> []
             then (Inr (GrantView g (findSimilarCliGrants (ae_coll env) (in_seconds env) (gr_request g)
                 (st_findByRequester store (rq_requester (gr_request g)) s1)) (Some (buildWideningSuggestionsForGrant (ae_coll env) details))), s1)
             else (Inr (GrantView g None None), s1))))"


section \<open>Expiry in listings\<close>

lemma mem_update_expired: "mem_findById i s = Some g \<Longrightarrow> mem_updateStatus i Expired no_patch s = (Inr (), put_grant i (apply_patch g Expired no_patch) s)"
  by (simp add: mem_updateStatus_def no_patch_def)

lemma update_all_expired:
  assumes "\<forall>i\<in>set ids. mem_findById i s \<noteq> None"
  shows "\<exists>s'. update_all InMemoryGrantStore Expired ids s = (Inr (), s') \<and>
    (\<forall>i. mem_findById i s' = (if i \<in> set ids then map_option (\<lambda>g. g\<lparr>gr_status := Expired\<rparr>) (mem_findById i s) else mem_findById i s))"
  using assms
proof (induction ids arbitrary: s)
  case (Cons i ids)
  obtain g where g: "mem_findById i s = Some g" using Cons.prems by auto
  let ?s = "put_grant i (apply_patch g Expired no_patch) s"
  have e: "apply_patch h Expired no_patch = h\<lparr>gr_status := Expired\<rparr>" for h by (simp add: apply_patch_def no_patch_def)
  have "\<forall>j\<in>set ids. mem_findById j ?s \<noteq> None" using Cons.prems by simp
  with Cons.IH obtain s' where s': "update_all InMemoryGrantStore Expired ids ?s = (Inr (), s')"
    "\<forall>j. mem_findById j s' = (if j \<in> set ids then map_option (\<lambda>g. g\<lparr>gr_status := Expired\<rparr>) (mem_findById j ?s) else mem_findById j ?s)"
    by blast
  show ?case by (intro exI [of _ s']) (use s' g e in \<open>auto simp: mem_update_expired\<close>)
qed simp

lemma expireStale_cases:
  assumes "\<forall>g\<in>set gs. mem_findById (gr_id g) s \<noteq> None"
  obtains gs' s' where "expireStaleGrants now gs InMemoryGrantStore s = (Inr gs', s')"
    "gs' = map (\<lambda>g. if \<exists>h\<in>set gs. gr_id h = gr_id g \<and> isGrantExpired h now then g\<lparr>gr_status := Expired\<rparr> else g) gs"
    "\<And>i. mem_findById i s' = (if \<exists>h\<in>set gs. gr_id h = i \<and> isGrantExpired h now
        then map_option (\<lambda>g. g\<lparr>gr_status := Expired\<rparr>) (mem_findById i s) else mem_findById i s)"
proof -
  let ?ids = "map gr_id (filter (\<lambda>g. isGrantExpired g now) gs)"
  have ids: "i \<in> set ?ids \<longleftrightarrow> (\<exists>h\<in>set gs. gr_id h = i \<and> isGrantExpired h now)" for i by auto
  have "\<forall>i\<in>set ?ids. mem_findById i s \<noteq> None" using assms by auto
  from update_all_expired [OF this] obtain s' where s': "update_all InMemoryGrantStore Expired ?ids s = (Inr (), s')"
    "\<forall>i. mem_findById i s' = (if i \<in> set ?ids then map_option (\<lambda>g. g\<lparr>gr_status := Expired\<rparr>) (mem_findById i s) else mem_findById i s)"
    by blast
  show thesis
    by (rule that [of "map (\<lambda>g. if gr_id g \<in> set ?ids then g\<lparr>gr_status := Expired\<rparr> else g) gs" s'])
      (use s' ids in \<open>simp_all add: expireStaleGrants_def Let_def\<close>)
qed

lemma listed_in_store: "mem_inv s \<Longrightarrow> mem_listGrants p s = Inr page \<Longrightarrow> g \<in> set (pg_data page) \<Longrightarrow>
    g \<in> set (mem_grants s) \<and> list_filter p g \<and> mem_findById (gr_id g) s = Some g"
proof -
  assume a: "mem_inv s" "mem_listGrants p s = Inr page" "g \<in> set (pg_data page)"
  have m: "g \<in> set (mem_grants s) \<and> list_filter p g"
    using a(2,3) by (auto simp: mem_listGrants_def Let_def take_page_def dest!: in_set_takeD split: if_splits sum.splits)
  then obtain k where "(k, g) \<in> set (ms_grants s)" by (auto simp: mem_grants_def)
  with a(1) have "mem_findById (gr_id g) s = Some g" by (auto simp: mem_inv_def mem_findById_def)
  with m show ?thesis by blast
qed


lemma expired_page_data:
  assumes "\<forall>h\<in>set gs. mem_findById (gr_id h) s = Some h" "expired_page now gs InMemoryGrantStore mk s = (Inr page, s')"
    and "\<And>xs. set (pg_data (mk xs)) \<subseteq> set xs" "g \<in> set (pg_data page)"
  shows "\<not> isGrantExpired g now \<and> mem_findById (gr_id g) s' = Some g \<and> (\<exists>h\<in>set gs. gr_request g = gr_request h \<and> gr_brokered g = gr_brokered h)"
proof -
  have "\<forall>h\<in>set gs. mem_findById (gr_id h) s \<noteq> None" using assms(1) by simp
  from expireStale_cases [OF this] obtain gs' s1 where e: "expireStaleGrants now gs InMemoryGrantStore s = (Inr gs', s1)"
    "gs' = map (\<lambda>g. if \<exists>h\<in>set gs. gr_id h = gr_id g \<and> isGrantExpired h now then g\<lparr>gr_status := Expired\<rparr> else g) gs"
    "\<And>i. mem_findById i s1 = (if \<exists>h\<in>set gs. gr_id h = i \<and> isGrantExpired h now
        then map_option (\<lambda>g. g\<lparr>gr_status := Expired\<rparr>) (mem_findById i s) else mem_findById i s)"
    by blast
  have p: "page = mk gs'" "s' = s1" using assms(2) e(1) by (simp_all add: expired_page_def)
  with assms(3,4) have "g \<in> set gs'" by blast
  then obtain h where h: "h \<in> set gs" "g = (if \<exists>k\<in>set gs. gr_id k = gr_id h \<and> isGrantExpired k now then h\<lparr>gr_status := Expired\<rparr> else h)"
    unfolding e(2) set_map by blast
  have one: "k = h" if "k \<in> set gs" "gr_id k = gr_id h" for k using assms(1) h(1) that by (metis option.inject)
  have stale: "(\<exists>k\<in>set gs. gr_id k = gr_id h \<and> isGrantExpired k now) \<longleftrightarrow> isGrantExpired h now" using one h(1) by blast
  have g: "g = (if isGrantExpired h now then h\<lparr>gr_status := Expired\<rparr> else h)" using h(2) unfolding stale .
  have "mem_findById (gr_id h) s' = Some g" using e(3) [of "gr_id h"] assms(1) h(1) g p(2) unfolding stale by simp
  moreover have "gr_id g = gr_id h" "gr_request g = gr_request h" "gr_brokered g = gr_brokered h" using g by simp_all
  moreover have "\<not> isGrantExpired g now" using g by (auto simp: isGrantExpired_def)
  ultimately show ?thesis using h(1) by auto
qed

lemma from_cursor_subset: "set (from_cursor c gs) \<subseteq> set gs"
  by (auto simp: from_cursor_def dest: set_dropWhileD split: option.splits)

lemma paginate_subset: "set (pg_data (paginate gs limit c)) \<subseteq> set gs"
  using from_cursor_subset [of c gs] by (auto simp: paginate_def Let_def dest!: in_set_takeD)

lemma history_subset: "set (pg_data (history_page env q gs)) \<subseteq> set gs"
  using paginate_subset by (fastforce simp: history_page_def Let_def split: option.splits)

text \<open>Who a caller of the listing is.\<close>

definition reads_as :: "auth_env \<Rightarrow> web_event \<Rightarrow> mem_store \<Rightarrow> string \<Rightarrow> bool" where
  "reads_as env ev s email \<longleftrightarrow> (\<exists>p. bearer_of env ev = Some p \<and> ay_sub p = email) \<or> ev_session ev = Some (Some email) \<or>
     (\<exists>delegate i h. delegated_token env ev = Some (email, delegate, i) \<and> mem_findById i s = Some h \<and> gr_status h = Approved \<and>
        rq_delegator (gr_request h) = Some email \<and> rq_delegate (gr_request h) = Some delegate \<and>
        GRANTS_READ_SCOPE \<in> set (nullish (rq_scopes (gr_request h)) []))"

lemma list_reader_reads:
  assumes "list_reader env ev users InMemoryGrantStore s = (Inr (email, delegate, bearer), s1)"
  shows "s1 = s \<and> reads_as env ev s email"
proof -
  obtain d s2 where t: "tryGrantsDelegate env ev users InMemoryGrantStore GRANTS_READ_SCOPE s = (Inr d, s2)"
    using assms by (cases "tryGrantsDelegate env ev users InMemoryGrantStore GRANTS_READ_SCOPE s") (auto simp: list_reader_def split: sum.splits)
  note td = tryGrantsDelegateD [OF t]
  show ?thesis
  proof (cases d)
    case None
    then show ?thesis using assms t td by (auto simp: list_reader_def Let_def reads_as_def truthy_str_def split: if_splits option.splits)
  next
    case (Some x)
    then obtain h where h: "delegated_token env ev = Some (gd_delegator x, gd_delegate x, gd_delegationGrant x)"
      "mem_findById (gd_delegationGrant x) s = Some h" "delegationProblem env users (Some h) (gd_delegator x) (gd_delegate x) GRANTS_READ_SCOPE = None"
      using td by blast
    have "email = gd_delegator x" "s1 = s" using assms t td Some by (auto simp: list_reader_def Let_def split: if_splits)
    with h delegationProblem_none [OF h(3)] show ?thesis by (auto simp: reads_as_def)
  qed
qed

definition may_read :: "user_store \<Rightarrow> string \<Rightarrow> grant_request \<Rightarrow> brokered_grant option \<Rightarrow> bool" where
  "may_read users email r brokered \<longleftrightarrow> rq_requester r \<in> set (visible_requesters users email) \<or> (\<exists>b. brokered = Some b \<and> bg_owner b = email)"

lemma filter_requester:
  assumes "list_filter p g" "lp_requester p = Some r" "truthy_requester (Some r)"
  shows "case (lp_broker_owner p, gr_brokered g) of (Some own, Some b) \<Rightarrow> own = Some (bg_owner b)
     | _ \<Rightarrow> rq_requester (gr_request g) \<in> set (requester_set r)"
  using assms by (simp add: list_filter_def Let_def)

lemma broker_visibility_owner: "broker_visibility broker users email bearer = Some (Some x) \<Longrightarrow> x = email"
  by (auto simp: broker_visibility_def split: if_splits option.splits)

lemma filter_visible:
  assumes "list_filter p g" "lp_requester p = Some (ManyRequesters (visible_requesters users email))" "lp_broker_owner p = broker_visibility broker users email bearer"
  shows "may_read users email (gr_request g) (gr_brokered g)"
proof -
  have t: "truthy_requester (Some (ManyRequesters (visible_requesters users email)))" by (simp add: truthy_requester_def)
  note f = filter_requester [OF assms(1,2) t, unfolded requester_set_def requester_param.case]
  show ?thesis
  proof (cases "(lp_broker_owner p, gr_brokered g)")
    case (Pair x y)
    then show ?thesis using f assms(3) by (cases x; cases y) (auto simp: may_read_def dest: broker_visibility_owner)
  qed
qed

lemma list_pages_one:
  assumes "truthy_str (lq_requester q)" "broker = None"
  shows "lp_requester (list_pages env broker users store q reference email bearer) = Some (OneRequester (the (lq_requester q)))"
    "lp_broker_owner (list_pages env broker users store q reference email bearer) = None"
  using assms by (simp_all add: list_pages_def Let_def)

lemma list_pages_many:
  assumes "\<not> (truthy_str (lq_requester q) \<and> broker = None)"
  shows "lp_requester (list_pages env broker users store q reference email bearer) = Some (ManyRequesters (visible_requesters users email))"
    "lp_broker_owner (list_pages env broker users store q reference email bearer) = broker_visibility broker users email bearer"
  using assms by (auto simp: list_pages_def Let_def)

lemma list_pages_visible:
  assumes "list_filter (list_pages env broker users store q reference email bearer) g"
    and "\<not> (truthy_str (lq_requester q) \<and> the (lq_requester q) \<notin> set (visible_requesters users email) \<and> broker = None)"
  shows "may_read users email (gr_request g) (gr_brokered g)"
proof (cases "truthy_str (lq_requester q) \<and> broker = None")
  case True
  then have t: "truthy_requester (Some (OneRequester (the (lq_requester q))))" by (auto simp: truthy_requester_def truthy_str_def split: option.splits)
  have "rq_requester (gr_request g) = the (lq_requester q)"
    using filter_requester [OF assms(1) list_pages_one(1) t] True list_pages_one(2) [of q broker] by (simp add: requester_set_def)
  with assms(2) True show ?thesis by (simp add: may_read_def)
next
  case False
  show ?thesis by (rule filter_visible [OF assms(1) list_pages_many [OF False]])
qed

text \<open>
  C30. A listing shows its caller, who is the subject of a token, the signed-in user or the delegator of an approved delegation that includes
  \<open>grants:read\<close>, only grants of itself, of the users it owns or approves for and of the brokered identities it owns, whatever the query asks;
  and none that has ended is shown or left in the store as approved.
\<close>

theorem list_confined:
  assumes "mem_inv s" "grants_get env ev broker users ssh ask InMemoryGrantStore q s = (Inr (Listed page), s')" "g \<in> set (pg_data page)"
  shows "\<exists>email. reads_as env ev s email \<and> may_read users email (gr_request g) (gr_brokered g) \<and> \<not> isGrantExpired g (in_seconds env) \<and>
    mem_findById (gr_id g) s' = Some g"
proof -
  obtain reference email delegate bearer s1 where r: "list_reader env ev users InMemoryGrantStore s = (Inr (email, delegate, bearer), s1)"
    "list_visible env broker users InMemoryGrantStore q reference email bearer s1 = (Inr (Listed page), s')"
    using assms(2) by (auto simp: grants_get_def split: if_splits sum.splits option.splits prod.splits)
  have s1: "s1 = s" "reads_as env ev s email" using list_reader_reads [OF r(1)] by auto
  obtain p raw mk where p: "mem_listGrants p s = Inr raw" "expired_page (in_seconds env) (pg_data raw) InMemoryGrantStore mk s = (Inr page, s')"
    "\<And>xs. set (pg_data (mk xs)) \<subseteq> set xs" "\<And>h. list_filter p h \<Longrightarrow> may_read users email (gr_request h) (gr_brokered h)"
  proof -
    let ?p = "list_pages env broker users InMemoryGrantStore q reference email bearer"
    let ?all = "no_params\<lparr>lp_requester := Some (ManyRequesters (visible_requesters users email)), lp_limit := Some 10000,
            lp_broker_owner := broker_visibility broker users email bearer\<rparr>"
    have allowed: "\<not> (truthy_str (lq_requester q) \<and> the (lq_requester q) \<notin> set (visible_requesters users email) \<and> broker = None)"
      using r(2) by (auto simp: list_visible_def Let_def split: if_splits)
    show thesis
    proof (cases "truthy_str (lq_requester q) \<or> \<not> truthy_str (lq_section q)")
      case True
      obtain raw where raw: "mem_listGrants ?p s = Inr raw"
        using r(2) True s1(1) by (cases "mem_listGrants ?p s") (auto simp: list_visible_def Let_def split: if_splits)
      have e: "expired_page (in_seconds env) (pg_data raw) InMemoryGrantStore (\<lambda>gs. raw\<lparr>pg_data := gs\<rparr>) s = (Inr page, s')"
        using r(2) True s1(1) raw by (auto simp: list_visible_def Let_def split: if_splits prod.splits sum.splits)
      show thesis by (rule that [OF raw e]) (simp_all add: list_pages_visible [OF _ allowed])
    next
      case False
      obtain raw where raw: "mem_listGrants ?all s = Inr raw"
        using r(2) False s1(1) by (cases "mem_listGrants ?all s") (auto simp: list_visible_def Let_def split: if_splits)
      have e: "expired_page (in_seconds env) (pg_data raw) InMemoryGrantStore (\<lambda>owned. if lq_section q = Some ''active''
            then \<lparr>pg_data = filter isActiveGrant owned, pg_cursor = None, pg_has_more = False\<rparr> else history_page env q owned) s = (Inr page, s')"
        using r(2) False s1(1) raw by (auto simp: list_visible_def Let_def split: if_splits prod.splits sum.splits)
      show thesis
        by (rule that [OF raw e]) (use history_subset in \<open>auto intro: filter_visible\<close>)
    qed
  qed
  have "\<forall>h\<in>set (pg_data raw). mem_findById (gr_id h) s = Some h" using listed_in_store [OF assms(1) p(1)] by blast
  from expired_page_data [OF this p(2,3) assms(3)] p(4) listed_in_store [OF assms(1) p(1)] s1(2) show ?thesis by metis
qed


definition plain_query :: list_query where
  "plain_query = \<lparr>lq_limit = None, lq_cursor = None, lq_status = None, lq_requester = None, lq_batch = None, lq_reference = JUndef,
     lq_section = None, lq_days = None\<rparr>"

definition two_requesters :: mem_store where
  "two_requesters = put_grant ''k'' (new_grant ''k'' None (plain_request ''eve'' ''host'' ''apes'') Pending 2) ex_pending_store"

lemma two_requesters_inv: "mem_inv two_requesters"
  unfolding two_requesters_def by (rule mem_inv_put [OF ex_pending_inv]) simp

theorem list_confined_witness:
  "\<exists>page s'. grants_get ex_env (ex_event ''ada'') None ex_users [] (\<lambda>a o' n. Inl no_broker) InMemoryGrantStore plain_query two_requesters =
     (Inr (Listed page), s') \<and> map gr_id (pg_data page) = [''g''] \<and> may_read ex_users ''ada'' (gr_request (hd (pg_data page))) None"
proof -
  let ?p = "list_pages ex_env None ex_users InMemoryGrantStore plain_query None ''ada'' None"
  have v: "visible_requesters ex_users ''ada'' = [''ada'', ''bot'']"
    by (simp add: visible_requesters_def findByOwner_def findByApprover_def ex_users_def ex_user_def)
  have q: "\<not> truthy_str (lq_cursor plain_query)" "lq_reference plain_query = JUndef" "\<not> truthy_str (lq_requester plain_query)"
    "\<not> truthy_str (lq_batch plain_query)" "\<not> truthy_str (lq_section plain_query)"
    by (simp_all add: plain_query_def truthy_str_def)
  have d: "delegated_token ex_env (ex_event ''ada'') = None" by (simp add: delegated_token_def bearer_token_def ex_event_def)
  have reader: "list_reader ex_env (ex_event ''ada'') ex_users InMemoryGrantStore s = (Inr (''ada'', None, None), s)" for s
    by (simp add: list_reader_def tryGrantsDelegate_def d) (simp add: ex_event_def truthy_str_def)
  have ref: "parseGrantReference JUndef = Inr None" by (simp add: parseGrantReference_def)
  have ids: "mem_grants two_requesters = [ex_pending, new_grant ''k'' None (plain_request ''eve'' ''host'' ''apes'') Pending 2]"
    by (simp add: two_requesters_def ex_pending_store_def mem_grants_def put_grant_def empty_mem_def)
  have f: "list_filter ?p ex_pending" "\<not> list_filter ?p (new_grant ''k'' None (plain_request ''eve'' ''host'' ''apes'') Pending 2)"
    by (simp_all add: list_filter_def list_pages_def plain_query_def v truthy_str_def only_truthy_def truthy_requester_def requester_set_def
        no_params_def broker_visibility_def plain_request_def)
  have c: "\<not> truthy_str (lp_cursor ?p)" "page_limit ?p = 20"
    by (simp_all add: list_pages_def plain_query_def truthy_str_def only_truthy_def page_limit_def query_limit_def truthy_num_def no_params_def)
  have l: "mem_listGrants ?p two_requesters = Inr (take_page 20 [ex_pending])"
    using c by (simp add: mem_listGrants_def ids f)
  obtain s' where e: "expired_page (in_seconds ex_env) [ex_pending] InMemoryGrantStore (\<lambda>gs. (take_page 20 [ex_pending])\<lparr>pg_data := gs\<rparr>) two_requesters =
      (Inr ((take_page 20 [ex_pending])\<lparr>pg_data := [ex_pending]\<rparr>), s')"
    by (simp add: expired_page_def expireStaleGrants_def isGrantExpired_def)
  let ?page = "(take_page 20 [ex_pending])\<lparr>pg_data := [ex_pending]\<rparr>"
  have data: "pg_data (take_page 20 [ex_pending]) = [ex_pending]" by (simp add: take_page_def)
  have run: "grants_get ex_env (ex_event ''ada'') None ex_users [] (\<lambda>a o' n. Inl no_broker) InMemoryGrantStore plain_query two_requesters = (Inr (Listed ?page), s')"
    using q ref reader l e data by (simp add: grants_get_def list_visible_def Let_def truthy_str_def)
  obtain email where "reads_as ex_env (ex_event ''ada'') two_requesters email \<and> may_read ex_users email (gr_request ex_pending) (gr_brokered ex_pending)"
    using list_confined [OF two_requesters_inv run, of ex_pending] by fastforce
  moreover have "reads_as ex_env (ex_event ''ada'') two_requesters email \<Longrightarrow> email = ''ada''"
    by (auto simp: reads_as_def d) (simp add: ex_event_def)
  ultimately show ?thesis using run by (intro exI [of _ ?page] exI [of _ s']) simp
qed

text \<open>
  The list of a user's standing grants reads one page of the grants of everyone: it holds those among the twenty newest grants of the
  provider, whoever they belong to, so that a standing grant older than those is not shown, though it still approves requests.
\<close>

theorem standing_list_one_page:
  "standing_get env ev users InMemoryGrantStore s = (case reader_of env ev users InMemoryGrantStore s of (Inl e, s1) \<Rightarrow> (Inl e, s1)
     | (Inr owner, s1) \<Rightarrow> (Inr (filter (is_standing_of owner) (take 20 (sort_by list_order (mem_grants s1)))), s1))"
proof -
  have "list_filter no_params = (\<lambda>g. True)" by (intro ext) (simp add: list_filter_def no_params_def truthy_requester_def truthy_str_def)
  moreover have "\<not> truthy_str (lp_cursor no_params)" "page_limit no_params = 20" by (simp_all add: no_params_def truthy_str_def page_limit_def)
  ultimately show ?thesis
    by (simp add: standing_get_def mem_listGrants_def take_page_def Let_def split: prod.splits sum.splits)
qed

lemma grantsDelegationProblem_none:
  "grantsDelegationProblem env users delegator delegate audience scopes = None \<longleftrightarrow>
     (\<forall>sc\<in>set (nullish scopes []). starts_with sc ''grants:'' \<longrightarrow> sc \<in> set GRANTS_DELEGATION_SCOPES \<and> audience = ae_issuer env \<and>
        (\<exists>u. findByEmail delegate users = Some u \<and> us_isActive u \<and> us_owner u = Some delegator))"
proof (cases "filter (\<lambda>sc. starts_with sc ''grants:'') (nullish scopes []) = []")
  case True
  then show ?thesis by (auto simp: grantsDelegationProblem_def filter_empty_conv)
next
  case False
  then obtain sc where sc: "sc \<in> set (nullish scopes [])" "starts_with sc ''grants:''" by (auto simp: filter_empty_conv)
  show ?thesis
  proof (cases "List.find (\<lambda>sc. sc \<notin> set GRANTS_DELEGATION_SCOPES) (filter (\<lambda>sc. starts_with sc ''grants:'') (nullish scopes []))")
    case None
    then have "\<forall>x\<in>set (nullish scopes []). starts_with x ''grants:'' \<longrightarrow> x \<in> set GRANTS_DELEGATION_SCOPES" by (auto simp: find_None_iff)
    with None show ?thesis using sc False by (auto simp: grantsDelegationProblem_def Let_def split: option.splits)
  next
    case (Some x)
    from find_Some_mem [OF this] Some False show ?thesis by (auto simp: grantsDelegationProblem_def Let_def)
  qed
qed

lemma createDelegation_ok:
  assumes "mem_inv s" "createDelegation now i p InMemoryGrantStore s = (Inr x, s')"
  shows "\<exists>g. x = Some g \<and> mem_findById i s' = Some g \<and> gr_status g = Approved \<and> gr_category g = Some DelegationGrant \<and>
    gr_decided_by g = Some (dp_delegator p) \<and> rq_delegator (gr_request g) = Some (dp_delegator p) \<and> rq_delegate (gr_request g) = Some (dp_delegate p) \<and>
    rq_scopes (gr_request g) = dp_scopes p \<and> rq_audience (gr_request g) = dp_audience p"
proof -
  let ?n = "new_grant i (Some DelegationGrant) (delegation_request p) Pending now"
  have ref: "rq_reference (gr_request ?n) = None" by (simp add: delegation_request_def plain_request_def)
  have a: "approveGrant now i (dp_delegator p) InMemoryGrantStore no_overrides (put_grant i ?n s) = (Inr x, s')"
    using assms(2) ref by (simp add: createDelegation_def mem_save_ok)
  have inv: "mem_inv (put_grant i ?n s)" by (rule mem_inv_put [OF assms(1)]) simp
  obtain g where g: "mem_findById i (put_grant i ?n s) = Some g" "x = Some (approved_grant now (dp_delegator p) no_overrides g)"
    "changed_one (st_findById InMemoryGrantStore) i (approved_grant now (dp_delegator p) no_overrides g) (put_grant i ?n s) s'"
    using mem.approve_cases [OF inv a] by auto
  have "g = ?n" using g(1) by simp
  then have n: "same_parties (approved_grant now (dp_delegator p) no_overrides ?n) ?n" and x: "x = Some (approved_grant now (dp_delegator p) no_overrides ?n)"
    using approved_parties g(2) by auto
  have f: "mem_findById i s' = x" using g(2,3) by (simp add: changed_one_def)
  show ?thesis
    unfolding x f by (simp add: approved_decider) (simp add: approved_grant_def approval_patch_def delegation_request_def plain_request_def split: option.split)
qed

text \<open>
  C31. Nobody delegates for another: a delegation is stored as approved by its delegator, who is the caller - the user of a browser session, which
  may be an agent's, the operator, or the subject of a bearer token, and then of one for a human. One that carries a \<open>grants:\<close> scope is for the provider itself, goes to an active agent of the delegator and
  has no scope of that kind beyond reading and requesting, so that no delegate can decide.
\<close>

theorem delegation_confined:
  assumes "mem_inv s" "delegations_post env ev users InMemoryGrantStore new_id b s = (Inr x, s')"
  shows "\<exists>owner g. requireAuth env ev = Inr owner \<and> (\<forall>p. bearer_of env ev = Some p \<longrightarrow> ay_act p = ActType Human) \<and>
    x = Some g \<and> mem_findById new_id s' = Some g \<and> gr_status g = Approved \<and> gr_category g = Some DelegationGrant \<and>
    gr_decided_by g = Some owner \<and> rq_delegator (gr_request g) = Some owner \<and> rq_delegate (gr_request g) = db_delegate b \<and>
    (\<forall>sc\<in>set (nullish (rq_scopes (gr_request g)) []). starts_with sc ''grants:'' \<longrightarrow>
       sc \<in> {GRANTS_READ_SCOPE, GRANTS_REQUEST_SCOPE} \<and> rq_audience (gr_request g) = ae_issuer env \<and>
       (\<exists>u. findByEmail (the (db_delegate b)) users = Some u \<and> us_isActive u \<and> us_owner u = Some owner))"
proof -
  obtain owner ty where o': "requireAuth env ev = Inr owner" "\<forall>p. bearer_of env ev = Some p \<longrightarrow> ay_act p = ActType Human" "truthy_str (db_delegate b)"
    "grantsDelegationProblem env users owner (the (db_delegate b)) (the (db_audience b)) (db_scopes b) = None"
    "createDelegation (in_seconds env) new_id \<lparr>dp_delegator = owner, dp_delegate = the (db_delegate b),
       dp_audience = the (db_audience b), dp_scopes = db_scopes b, dp_grant_type = ty, dp_duration = db_duration b\<rparr> InMemoryGrantStore s = (Inr x, s')"
    using assms(2) unfolding delegations_post_def by (auto simp: refused_with_ok split: if_splits sum.splits option.splits)
  have d: "Some (the (db_delegate b)) = db_delegate b" using o'(3) by (auto simp: truthy_str_def split: option.splits)
  from createDelegation_ok [OF assms(1) o'(5)] o'(1,2) o'(4) [unfolded grantsDelegationProblem_none] d
  show ?thesis by (auto simp: GRANTS_DELEGATION_SCOPES_def)
qed

definition ex_delegation :: "string list \<Rightarrow> delegation_body" where
  "ex_delegation scopes = \<lparr>db_delegate = Some ''bot'', db_audience = Some ''idp'', db_grant_type = Some ''always'', db_scopes = Some scopes, db_duration = None\<rparr>"

theorem delegation_confined_witness:
  "\<exists>g s'. delegations_post ex_env (ex_event ''ada'') ex_users InMemoryGrantStore ''d'' (ex_delegation [''grants:read'']) empty_mem = (Inr (Some g), s') \<and>
     rq_delegator (gr_request g) = Some ''ada'' \<and>
     delegations_post ex_env (ex_event ''ada'') ex_users InMemoryGrantStore ''d'' (ex_delegation [''grants:approve'']) empty_mem =
       (Inl (problem 400 ''Unknown grants scope grants:approve: only grants:read and grants:request can be delegated''), empty_mem)"
proof -
  have auth: "requireAuth ex_env (ex_event ''ada'') = Inr ''ada''" by simp
  have ok: "grantsDelegationProblem ex_env ex_users ''ada'' ''bot'' ''idp'' (Some [''grants:read'']) = None"
    by (simp add: grantsDelegationProblem_none GRANTS_DELEGATION_SCOPES_def GRANTS_READ_SCOPE_def) (simp add: ex_env_def ex_user_def)
  have no: "grantsDelegationProblem ex_env ex_users ''ada'' ''bot'' ''idp'' (Some [''grants:approve'']) =
      Some ''Unknown grants scope grants:approve: only grants:read and grants:request can be delegated''"
    by (simp add: grantsDelegationProblem_def Let_def GRANTS_DELEGATION_SCOPES_def GRANTS_READ_SCOPE_def GRANTS_REQUEST_SCOPE_def)
  have ty: "requested_type (Some ''always'') = Some Always" by (simp add: requested_type_def truthy_str_def grant_type_of_def)
  let ?p = "\<lparr>dp_delegator = ''ada'', dp_delegate = ''bot'', dp_audience = ''idp'', dp_scopes = Some [''grants:read''], dp_grant_type = Always, dp_duration = None\<rparr>"
  let ?n = "new_grant ''d'' (Some DelegationGrant) (delegation_request ?p) Pending (in_seconds ex_env)"
  have n: "rq_reference (gr_request ?n) = None" "approvable no_overrides ?n"
    by (simp_all add: delegation_request_def plain_request_def approvable_def effective_type_def no_overrides_def has_single_use_def)
  have inv: "mem_inv (put_grant ''d'' ?n empty_mem)" by (rule mem_inv_put [OF mem_inv_empty]) simp
  have f: "st_findById InMemoryGrantStore ''d'' (put_grant ''d'' ?n empty_mem) = Some ?n" by simp
  have b: "binding_kept ?n q" for q
    by (rule binding_kept_unreferenced) (use n(1) in \<open>simp add: truthy_str_def\<close>)
  obtain s' where "approveGrant (in_seconds ex_env) ''d'' ''ada'' InMemoryGrantStore no_overrides (put_grant ''d'' ?n empty_mem) =
      (Inr (Some (approved_grant (in_seconds ex_env) ''ada'' no_overrides ?n)), s')"
    using mem.approve_ok [OF inv f n(2) b] by blast
  then have c: "createDelegation (in_seconds ex_env) ''d'' ?p InMemoryGrantStore empty_mem = (Inr (Some (approved_grant (in_seconds ex_env) ''ada'' no_overrides ?n)), s')"
    using n(1) by (simp add: createDelegation_def mem_save_ok)
  have run: "delegations_post ex_env (ex_event ''ada'') ex_users InMemoryGrantStore ''d'' (ex_delegation [''grants:read'']) empty_mem =
      (Inr (Some (approved_grant (in_seconds ex_env) ''ada'' no_overrides ?n)), s')"
    by (simp add: delegations_post_def auth ex_delegation_def truthy_str_def ty ok c)
  have bad: "delegations_post ex_env (ex_event ''ada'') ex_users InMemoryGrantStore ''d'' (ex_delegation [''grants:approve'']) empty_mem =
       (Inl (problem 400 ''Unknown grants scope grants:approve: only grants:read and grants:request can be delegated''), empty_mem)"
    by (simp add: delegations_post_def auth ex_delegation_def truthy_str_def ty no)
  show ?thesis using delegation_confined [OF mem_inv_empty run] run bad auth by auto
qed

end
