(* ===== verification/KeyLogin.thy ===== *)
theory KeyLogin
  imports BrowserSessions GrantLists "HOL-Library.Word"
begin

text \<open>
  Signing in with an SSH key at the identity provider: \<open>utils/ed25519.ts\<close>, \<open>utils/sshsig.ts\<close>, \<open>utils/grant-challenge-store.ts\<close>,
  \<open>utils/ssh-key-store.ts\<close>, \<open>api/auth\<close> and \<open>api/agent\<close> (\<open>challenge\<close>, \<open>authenticate\<close>, \<open>enroll\<close>), \<open>api/session/login.post.ts\<close> and
  \<open>ssh-keys\<close>. Bytes are 8-bit words; \<open>ke_b64\<close> decodes base 64 as Node does, \<open>ke_verify\<close> checks an Ed25519 signature of bytes, \<open>ke_hash\<close>
  computes a digest by its name and \<open>ke_key_id\<close> names a key by its bytes. The locale \<open>key_store_laws\<close> is the contract of the key stores; the
  in-memory store of \<open>packages/auth\<close> and the one on a storage interpret it.
\<close>

section \<open>Wire format\<close>

type_synonym bytes = "8 word list"

definition byte_of :: "char \<Rightarrow> 8 word" where
  "byte_of c = word_of_nat (of_char c)"

definition utf8_bytes :: "string \<Rightarrow> bytes" where
  "utf8_bytes s = concat (map (\<lambda>c. let n = (of_char c :: nat) in
     if n < 128 then [word_of_nat n] else [word_of_nat (192 + n div 64), word_of_nat (128 + n mod 64)]) s)"

definition subarray :: "bytes \<Rightarrow> nat \<Rightarrow> nat \<Rightarrow> bytes" where
  "subarray bs from until = take (until - from) (drop from bs)"

text \<open>\<open>None\<close> is the error thrown when the four bytes are not there.\<close>

definition readUInt32BE :: "bytes \<Rightarrow> nat \<Rightarrow> nat option" where
  "readUInt32BE bs off = (if off + 4 \<le> length bs then Some (foldl (\<lambda>n b. n * 256 + unat b) 0 (take 4 (drop off bs))) else None)"

definition writeUInt32BE :: "nat \<Rightarrow> bytes" where
  "writeUInt32BE n = [word_of_nat (n div 16777216), word_of_nat (n div 65536), word_of_nat (n div 256), word_of_nat n]"

definition readString :: "bytes \<Rightarrow> nat \<Rightarrow> (bytes \<times> nat) option" where
  "readString bs off = (case readUInt32BE bs off of None \<Rightarrow> None
     | Some len \<Rightarrow> Some (subarray bs (off + 4) (off + 4 + len), off + 4 + len))"

definition wireBuffer :: "bytes \<Rightarrow> bytes" where
  "wireBuffer bs = writeUInt32BE (length bs) @ bs"

definition wireString :: "string \<Rightarrow> bytes" where
  "wireString s = wireBuffer (utf8_bytes s)"

section \<open>Keys and signatures\<close>

record key_env =
  ke_b64 :: "string \<Rightarrow> bytes"
  ke_verify :: "bytes \<Rightarrow> bytes \<Rightarrow> bytes \<Rightarrow> bool"
  ke_hash :: "string \<Rightarrow> (bytes \<Rightarrow> bytes) option"
  ke_key_id :: "bytes \<Rightarrow> string"

text \<open>\<open>split(/\s+/)\<close>, and the words of a trimmed string.\<close>

fun split_spaces :: "string \<Rightarrow> string \<Rightarrow> string list" where
  "split_spaces acc [] = [rev acc]"
| "split_spaces acc (c # cs) = (if is_space c then (if cs \<noteq> [] \<and> is_space (hd cs) then split_spaces acc cs else rev acc # split_spaces [] cs)
     else split_spaces (c # acc) cs)"

definition key_parts :: "string \<Rightarrow> string list" where
  "key_parts key = split_spaces [] (js_trim key)"

definition key_data :: "string \<Rightarrow> string option" where
  "key_data key = (case key_parts key of _ # d # _ \<Rightarrow> Some d | _ \<Rightarrow> None)"

text \<open>The 32 bytes of an \<open>ssh-ed25519\<close> public key; \<open>None\<close> is a thrown error.\<close>

definition parseSSHEd25519PublicKey :: "key_env \<Rightarrow> string \<Rightarrow> bytes option" where
  "parseSSHEd25519PublicKey ke sshKey = (let parts = key_parts sshKey in
     if hd parts \<noteq> ''ssh-ed25519'' \<or> length parts < 2 \<or> parts ! 1 = [] then None
     else let wire = ke_b64 ke (parts ! 1) in
       case readString wire 0 of None \<Rightarrow> None
       | Some (keyType, off) \<Rightarrow> if keyType \<noteq> utf8_bytes ''ssh-ed25519'' then None
           else (case readString wire off of None \<Rightarrow> None
             | Some (rawKey, _) \<Rightarrow> if length rawKey \<noteq> 32 then None else Some rawKey))"

definition verifyEd25519Signature :: "key_env \<Rightarrow> string \<Rightarrow> string \<Rightarrow> bytes \<Rightarrow> bool option" where
  "verifyEd25519Signature ke sshPublicKey data signature = (case parseSSHEd25519PublicKey ke sshPublicKey of None \<Rightarrow> None
     | Some k \<Rightarrow> Some (ke_verify ke k (utf8_bytes data) signature))"

text \<open>The key as \<open>sshsig.ts\<close> reads it, without looking at its type again.\<close>

definition raw_key :: "key_env \<Rightarrow> string \<Rightarrow> bytes option option" where
  "raw_key ke sshPublicKey = (let parts = key_parts sshPublicKey in
     if hd parts \<noteq> ''ssh-ed25519'' \<or> length parts < 2 \<or> parts ! 1 = [] then Some None
     else let wire = ke_b64 ke (parts ! 1) in
       case readString wire 0 of None \<Rightarrow> None
       | Some (_, off) \<Rightarrow> (case readString wire off of None \<Rightarrow> None
         | Some (k, _) \<Rightarrow> if length k \<noteq> 32 then Some None else Some (Some k)))"

fun remove_first :: "string \<Rightarrow> string \<Rightarrow> string" where
  "remove_first pat [] = []"
| "remove_first pat (c # cs) = (if starts_with (c # cs) pat then drop (length pat) (c # cs) else c # remove_first pat cs)"

definition ascii_text :: "bytes \<Rightarrow> string option" where
  "ascii_text bs = (if \<forall>b\<in>set bs. unat b < 128 then Some (map (\<lambda>b. char_of (unat b)) bs) else None)"

definition SSHSIG_MAGIC :: string where "SSHSIG_MAGIC = ''SSHSIG''"

definition signed_data :: "string \<Rightarrow> string \<Rightarrow> bytes \<Rightarrow> bytes" where
  "signed_data namespace hashAlgo messageHash =
     utf8_bytes SSHSIG_MAGIC @ wireString namespace @ wireString [] @ wireString hashAlgo @ wireBuffer messageHash"

text \<open>The members of the envelope: namespace, digest name and raw signature. \<open>Some None\<close> is a refusal, \<open>None\<close> a thrown error.\<close>

definition read_envelope :: "bytes \<Rightarrow> string \<Rightarrow> (bytes \<times> bytes) option option" where
  "read_envelope blob namespace = (if take 6 blob \<noteq> utf8_bytes SSHSIG_MAGIC then Some None
     else case readUInt32BE blob 6 of None \<Rightarrow> None
     | Some version \<Rightarrow> if version \<noteq> 1 then Some None
       else (case readString blob 10 of None \<Rightarrow> None
       | Some (_, o1) \<Rightarrow> (case readString blob o1 of None \<Rightarrow> None
       | Some (ns, o2) \<Rightarrow> if ns \<noteq> utf8_bytes namespace then Some None
         else (case readString blob o2 of None \<Rightarrow> None
         | Some (_, o3) \<Rightarrow> (case readString blob o3 of None \<Rightarrow> None
         | Some (hashAlgo, o4) \<Rightarrow> (case readString blob o4 of None \<Rightarrow> None
         | Some (sigBlob, _) \<Rightarrow> (case readString sigBlob 0 of None \<Rightarrow> None
           | Some (sigAlgo, o5) \<Rightarrow> if sigAlgo \<noteq> utf8_bytes ''ssh-ed25519'' then Some None
             else (case readString sigBlob o5 of None \<Rightarrow> None
             | Some (rawSig, _) \<Rightarrow> if length rawSig \<noteq> 64 then Some None else Some (Some (hashAlgo, rawSig))))))))))"

definition verifySSHSignature :: "key_env \<Rightarrow> string \<Rightarrow> string \<Rightarrow> string \<Rightarrow> string \<Rightarrow> bool option" where
  "verifySSHSignature ke sshPublicKey message signaturePem expectedNamespace =
     (let b64 = filter (\<lambda>c. \<not> is_space c) (remove_first ''-----END SSH SIGNATURE-----'' (remove_first ''-----BEGIN SSH SIGNATURE-----'' signaturePem)) in
      case read_envelope (ke_b64 ke b64) expectedNamespace of None \<Rightarrow> None
      | Some None \<Rightarrow> Some False
      | Some (Some (algo, rawSig)) \<Rightarrow> (case ascii_text algo of None \<Rightarrow> None
        | Some hashAlgo \<Rightarrow> (case ke_hash ke (remove_first ''-'' hashAlgo) of None \<Rightarrow> None
          | Some digest \<Rightarrow> (case raw_key ke sshPublicKey of None \<Rightarrow> None
            | Some None \<Rightarrow> Some False
            | Some (Some k) \<Rightarrow> Some (ke_verify ke k (signed_data expectedNamespace hashAlgo (digest (utf8_bytes message))) rawSig)))))"

section \<open>Stores of keys\<close>

record 'k key_store =
  kt_save :: "ssh_key \<Rightarrow> 'k \<Rightarrow> 'k"
  kt_findById :: "string \<Rightarrow> 'k \<Rightarrow> ssh_key option"
  kt_findByUser :: "string \<Rightarrow> 'k \<Rightarrow> ssh_key list"
  kt_findByPublicKey :: "string \<Rightarrow> 'k \<Rightarrow> ssh_key option"
  kt_delete :: "string \<Rightarrow> 'k \<Rightarrow> 'k"

definition InMemorySshKeyStore :: "ssh_store key_store" where
  "InMemorySshKeyStore = \<lparr>kt_save = ssh_save, kt_findById = ssh_findById, kt_findByUser = ssh_findByUser,
     kt_findByPublicKey = ssh_findByPublicKey, kt_delete = ssh_delete\<rparr>"

record ssh_storage =
  ss_keys :: "(string \<times> ssh_key) list"
  ss_index :: "(string \<times> string list) list"

definition stored_index :: "string \<Rightarrow> ssh_storage \<Rightarrow> string list" where
  "stored_index email s = nullish (map_of (ss_index s) email) []"

definition stored_save :: "ssh_key \<Rightarrow> ssh_storage \<Rightarrow> ssh_storage" where
  "stored_save k s = (let index = stored_index (sk_userEmail k) s in
     s\<lparr>ss_keys := AList.update (sk_keyId k) k (ss_keys s),
       ss_index := (if sk_keyId k \<in> set index then ss_index s else AList.update (sk_userEmail k) (index @ [sk_keyId k]) (ss_index s))\<rparr>)"

definition stored_findById :: "string \<Rightarrow> ssh_storage \<Rightarrow> ssh_key option" where
  "stored_findById i s = map_of (ss_keys s) i"

definition stored_findByUser :: "string \<Rightarrow> ssh_storage \<Rightarrow> ssh_key list" where
  "stored_findByUser email s = concat (map (\<lambda>i. case map_of (ss_keys s) i of None \<Rightarrow> [] | Some k \<Rightarrow> [k]) (stored_index email s))"

definition stored_findByPublicKey :: "string \<Rightarrow> ssh_storage \<Rightarrow> ssh_key option" where
  "stored_findByPublicKey p s = List.find (\<lambda>k. sk_publicKey k = p) (map snd (ss_keys s))"

definition stored_delete :: "string \<Rightarrow> ssh_storage \<Rightarrow> ssh_storage" where
  "stored_delete i s = (let s1 = (case map_of (ss_keys s) i of None \<Rightarrow> s
       | Some k \<Rightarrow> s\<lparr>ss_index := AList.update (sk_userEmail k) (filter (\<lambda>j. j \<noteq> i) (stored_index (sk_userEmail k) s)) (ss_index s)\<rparr>) in
     s1\<lparr>ss_keys := AList.delete i (ss_keys s1)\<rparr>)"

definition stored_deleteAllForUser :: "string \<Rightarrow> string option \<Rightarrow> ssh_storage \<Rightarrow> ssh_storage" where
  "stored_deleteAllForUser email except s = (let index = stored_index email s; remaining = filter (\<lambda>i. Some i = except) index in
     s\<lparr>ss_keys := fold (\<lambda>i ks. AList.delete i ks) (filter (\<lambda>i. Some i \<noteq> except) index) (ss_keys s),
       ss_index := (if remaining \<noteq> [] then AList.update email remaining (ss_index s) else AList.delete email (ss_index s))\<rparr>)"

definition createSshKeyStore :: "ssh_storage key_store" where
  "createSshKeyStore = \<lparr>kt_save = stored_save, kt_findById = stored_findById, kt_findByUser = stored_findByUser,
     kt_findByPublicKey = stored_findByPublicKey, kt_delete = stored_delete\<rparr>"

section \<open>Challenges\<close>

definition grant_createChallenge :: "string \<Rightarrow> int \<Rightarrow> string \<Rightarrow> challenge_store \<Rightarrow> string \<times> challenge_store" where
  "grant_createChallenge random now agentId s = (random, AList.update random \<lparr>ch_entityId = agentId, ch_expiresAt = now + 300000\<rparr> s)"

text \<open>The entry is read and removed in two calls; \<open>other\<close> runs between them.\<close>

definition grant_consumeChallenge :: "(challenge_store \<Rightarrow> challenge_store) \<Rightarrow> int \<Rightarrow> string \<Rightarrow> string \<Rightarrow> challenge_store \<Rightarrow> bool \<times> challenge_store" where
  "grant_consumeChallenge other now c agentId s = (case map_of s c of None \<Rightarrow> (False, s)
     | Some x \<Rightarrow> (\<not> ch_expiresAt x < now \<and> ch_entityId x = agentId, AList.delete c (other s)))"

section \<open>Challenge and response\<close>

definition challenge_post :: "int \<Rightarrow> string \<Rightarrow> user_store \<Rightarrow> 'k key_store \<Rightarrow> 'k \<Rightarrow> string \<Rightarrow> challenge_store \<Rightarrow> (problem + string) \<times> challenge_store" where
  "challenge_post now random users ks k i cs = (if i = [] then (Inl (problem 400 ''Missing required field: id''), cs)
     else if (case findByEmail i users of None \<Rightarrow> False | Some u \<Rightarrow> \<not> us_isActive u) then (Inl (problem 403 ''User is inactive''), cs)
     else if kt_findByUser ks i k \<noteq> [] then (case grant_createChallenge random now i cs of (c, cs1) \<Rightarrow> (Inr c, cs1))
     else (Inl (problem 404 ''No user with SSH keys found for this identity''), cs))"

definition agent_challenge_post :: "int \<Rightarrow> string \<Rightarrow> user_store \<Rightarrow> 'k key_store \<Rightarrow> 'k \<Rightarrow> string \<Rightarrow> challenge_store \<Rightarrow> (problem + string) \<times> challenge_store" where
  "agent_challenge_post now random users ks k i cs = (if i = [] then (Inl (problem 400 ''Missing required field: agent_id''), cs)
     else if (case findByEmail i users of None \<Rightarrow> False | Some u \<Rightarrow> \<not> us_isActive u) then (Inl (problem 404 ''User not found or inactive''), cs)
     else if kt_findByUser ks i k = [] then (Inl (problem 404 ''User not found or has no SSH keys''), cs)
     else (case grant_createChallenge random now i cs of (c, cs1) \<Rightarrow> (Inr c, cs1)))"

record login_body =
  lb_id :: string
  lb_challenge :: string
  lb_signature :: string
  lb_public_key :: "string option"

definition login_keys :: "'k key_store \<Rightarrow> 'k \<Rightarrow> login_body \<Rightarrow> problem + ssh_key list" where
  "login_keys ks k b = (if truthy_str (lb_public_key b)
     then (case kt_findByPublicKey ks (the (lb_public_key b)) k of None \<Rightarrow> Inl (problem 404 ''SSH key not found for this user'')
       | Some x \<Rightarrow> if sk_userEmail x \<noteq> lb_id b then Inl (problem 404 ''SSH key not found for this user'') else Inr [x])
     else (let keys = kt_findByUser ks (lb_id b) k in if keys = [] then Inl (problem 404 ''No user with SSH keys found'') else Inr keys))"

text \<open>The first key that verifies; \<open>None\<close> when a stored key cannot be read.\<close>

fun some_key_verifies :: "(string \<Rightarrow> bool option) \<Rightarrow> ssh_key list \<Rightarrow> bool option" where
  "some_key_verifies verify [] = Some False"
| "some_key_verifies verify (k # ks) = (case verify (sk_publicKey k) of None \<Rightarrow> None
     | Some True \<Rightarrow> Some True | Some False \<Rightarrow> some_key_verifies verify ks)"

definition actor_of :: "user \<Rightarrow> actor_type" where
  "actor_of u = nullish (us_type u) (if truthy_str (us_owner u) then Agent else Human)"

definition key_login :: "(login_body \<Rightarrow> string \<Rightarrow> bool option) \<Rightarrow> (challenge_store \<Rightarrow> challenge_store) \<Rightarrow> int \<Rightarrow> user_store \<Rightarrow> 'k key_store \<Rightarrow> 'k
    \<Rightarrow> login_body \<Rightarrow> challenge_store \<Rightarrow> (problem + user) \<times> challenge_store" where
  "key_login verify other now users ks k b cs =
     (if lb_id b = [] \<or> lb_challenge b = [] \<or> lb_signature b = [] then (Inl (problem 400 ''Missing required fields: id, challenge, signature''), cs)
      else case login_keys ks k b of Inl e \<Rightarrow> (Inl e, cs)
      | Inr keys \<Rightarrow> (case findByEmail (lb_id b) users of None \<Rightarrow> (Inl (problem 404 ''User not found''), cs)
        | Some u \<Rightarrow> if \<not> us_isActive u then (Inl (problem 403 ''User is inactive''), cs)
            else (case grant_consumeChallenge other now (lb_challenge b) (lb_id b) cs of
              (ok, cs1) \<Rightarrow> if \<not> ok then (Inl (problem 401 ''Invalid, expired, or already used challenge''), cs1)
                else (case some_key_verifies (verify b) keys of None \<Rightarrow> (Inl (problem 500 ''Server Error''), cs1)
                  | Some False \<Rightarrow> (Inl (problem 401 ''Invalid signature''), cs1)
                  | Some True \<Rightarrow> (Inr u, cs1)))))"

definition plain_signature :: "key_env \<Rightarrow> login_body \<Rightarrow> string \<Rightarrow> bool option" where
  "plain_signature ke b publicKey = verifyEd25519Signature ke publicKey (lb_challenge b) (ke_b64 ke (lb_signature b))"

definition any_signature :: "key_env \<Rightarrow> login_body \<Rightarrow> string \<Rightarrow> bool option" where
  "any_signature ke b publicKey = (let s = js_trim (lb_signature b) in
     if starts_with s ''-----BEGIN SSH SIGNATURE-----'' then verifySSHSignature ke publicKey (lb_challenge b) s ''openape''
     else verifyEd25519Signature ke publicKey (lb_challenge b) (ke_b64 ke s))"

definition authenticate_post :: "key_env \<Rightarrow> string \<Rightarrow> (challenge_store \<Rightarrow> challenge_store) \<Rightarrow> int \<Rightarrow> user_store \<Rightarrow> 'k key_store \<Rightarrow> 'k \<Rightarrow> login_body \<Rightarrow> challenge_store
    \<Rightarrow> (problem + auth_token) \<times> challenge_store" where
  "authenticate_post ke issuer other now users ks k b cs = (case key_login (plain_signature ke) other now users ks k b cs of
     (Inl e, cs1) \<Rightarrow> (Inl e, cs1) | (Inr u, cs1) \<Rightarrow> (Inr (issueAuthToken now issuer (us_email u) (actor_of u) None), cs1))"

text \<open>The older endpoint, whose refusals differ and which takes no public key.\<close>

definition agent_authenticate_post :: "key_env \<Rightarrow> string \<Rightarrow> (challenge_store \<Rightarrow> challenge_store) \<Rightarrow> int \<Rightarrow> user_store \<Rightarrow> 'k key_store \<Rightarrow> 'k \<Rightarrow> login_body \<Rightarrow> challenge_store
    \<Rightarrow> (problem + auth_token) \<times> challenge_store" where
  "agent_authenticate_post ke issuer other now users ks k b cs =
     (if lb_id b = [] \<or> lb_challenge b = [] \<or> lb_signature b = [] then (Inl (problem 400 ''Missing required fields: agent_id, challenge, signature''), cs)
      else case findByEmail (lb_id b) users of None \<Rightarrow> (Inl (problem 404 ''User not found or inactive''), cs)
      | Some u \<Rightarrow> if \<not> us_isActive u then (Inl (problem 404 ''User not found or inactive''), cs)
          else (let keys = kt_findByUser ks (lb_id b) k in if keys = [] then (Inl (problem 404 ''No SSH keys found for this user''), cs)
          else (case grant_consumeChallenge other now (lb_challenge b) (lb_id b) cs of
              (ok, cs1) \<Rightarrow> if \<not> ok then (Inl (problem 401 ''Invalid, expired, or already used challenge''), cs1)
                else (case some_key_verifies (plain_signature ke b) keys of None \<Rightarrow> (Inl (problem 500 ''Server Error''), cs1)
                  | Some False \<Rightarrow> (Inl (problem 401 ''Invalid signature''), cs1)
                  | Some True \<Rightarrow> (Inr (issueAuthToken now issuer (us_email u) (actor_of u) None), cs1)))))"

definition session_login_post :: "key_env \<Rightarrow> (challenge_store \<Rightarrow> challenge_store) \<Rightarrow> int \<Rightarrow> user_store \<Rightarrow> 'k key_store \<Rightarrow> 'k \<Rightarrow> grant_storage \<Rightarrow> session_data
    \<Rightarrow> login_body \<Rightarrow> challenge_store \<Rightarrow> (problem + session_data) \<times> challenge_store" where
  "session_login_post ke other now users ks k kv data b cs = (case key_login (any_signature ke) other now users ks k b cs of
     (Inl e, cs1) \<Rightarrow> (Inl e, cs1)
   | (Inr u, cs1) \<Rightarrow> (Inr (session_update [(''userId'', JStr (us_email u))] (getAppSession now kv data)), cs1))"

section \<open>Keys of an account\<close>

definition session_email :: "session_data \<Rightarrow> string option" where
  "session_email data = (case member data ''userId'' of JStr u \<Rightarrow> if u = [] then None else Some u | _ \<Rightarrow> None)"

definition ssh_keys_get :: "int \<Rightarrow> grant_storage \<Rightarrow> session_data \<Rightarrow> 'k key_store \<Rightarrow> 'k \<Rightarrow> problem + ssh_key list" where
  "ssh_keys_get now kv data ks k = (case session_email (getAppSession now kv data) of None \<Rightarrow> Inl not_authenticated
     | Some email \<Rightarrow> Inr (kt_findByUser ks email k))"

definition ssh_keys_post :: "key_env \<Rightarrow> int \<Rightarrow> grant_storage \<Rightarrow> session_data \<Rightarrow> 'k key_store \<Rightarrow> string option \<Rightarrow> string option \<Rightarrow> 'k \<Rightarrow> (problem + ssh_key) \<times> 'k" where
  "ssh_keys_post ke now kv data ks publicKey name k = (case session_email (getAppSession now kv data) of None \<Rightarrow> (Inl not_authenticated, k)
     | Some email \<Rightarrow> if \<not> truthy_str publicKey then (Inl (problem 400 ''Missing required field: publicKey''), k)
       else (let key = js_trim (the publicKey); parts = key_parts key; comment = (if length parts \<ge> 3 then Some (join '' '' (drop 2 parts)) else None) in
         if parseSSHEd25519PublicKey ke key = None then (Inl (problem 400 ''Invalid SSH key. Must be ssh-ed25519 format (paste the contents of ~/.ssh/id_ed25519.pub).''), k)
         else if kt_findByPublicKey ks key k \<noteq> None then (Inl (problem 409 ''This SSH key is already registered''), k)
         else let x = \<lparr>sk_keyId = ke_key_id ke (ke_b64 ke (parts ! 1)), sk_userEmail = email, sk_publicKey = key,
                sk_name = (if truthy_str name then the name else if truthy_str comment then the comment else ''SSH Key''), sk_createdAt = now div 1000\<rparr> in
           (Inr x, kt_save ks x k)))"

definition ssh_key_delete :: "int \<Rightarrow> grant_storage \<Rightarrow> session_data \<Rightarrow> 'k key_store \<Rightarrow> string \<Rightarrow> 'k \<Rightarrow> (problem + unit) \<times> 'k" where
  "ssh_key_delete now kv data ks keyId k = (case session_email (getAppSession now kv data) of None \<Rightarrow> (Inl not_authenticated, k)
     | Some email \<Rightarrow> if keyId = [] then (Inl (problem 400 ''Key ID is required''), k)
       else (case kt_findById ks keyId k of None \<Rightarrow> (Inl (problem 404 ''SSH key not found''), k)
         | Some x \<Rightarrow> if sk_userEmail x \<noteq> email then (Inl (problem 404 ''SSH key not found''), k) else (Inr (), kt_delete ks keyId k)))"

section \<open>Enrolment\<close>

record enroll_body =
  eb_email :: string
  eb_name :: string
  eb_publicKey :: string
  eb_owner :: "string option"
  eb_approver :: "string option"
  eb_type :: "actor_type option"

record enrolled =
  en_email :: string
  en_owner :: string
  en_seeded :: nat

definition enroll_problem :: "enroll_body \<Rightarrow> problem option" where
  "enroll_problem b = (if eb_email b = [] \<or> eb_name b = [] \<or> eb_publicKey b = [] then Some (problem 400 ''Missing required fields: email, name, publicKey'')
     else if length (eb_email b) > 255 then Some (problem 400 ''Email must not exceed 255 characters'')
     else if length (eb_name b) > 255 then Some (problem 400 ''Name must not exceed 255 characters'')
     else if length (eb_publicKey b) > 1000 then Some (problem 400 ''Public key must not exceed 1000 characters'')
     else if \<not> starts_with (eb_publicKey b) ''ssh-ed25519 '' then Some (problem 400 ''Public key must be in ssh-ed25519 format'') else None)"

definition enroll_post :: "auth_env \<Rightarrow> web_event \<Rightarrow> key_env \<Rightarrow> 'k key_store \<Rightarrow> 's grant_store \<Rightarrow> (nat \<Rightarrow> string) \<Rightarrow> enroll_body \<Rightarrow> user_store \<times> 'k \<times> 's
    \<Rightarrow> (problem + enrolled) \<times> (user_store \<times> 'k \<times> 's)" where
  "enroll_post env ev ke ks store ids b st = (case st of (users, k, s) \<Rightarrow> (case requireAdmin env ev of Inl e \<Rightarrow> (Inl e, st)
     | Inr adminEmail \<Rightarrow> (case enroll_problem b of Some e \<Rightarrow> (Inl e, st)
     | None \<Rightarrow> if findByEmail (eb_email b) users \<noteq> None then (Inl (problem 409 ''A user with this email already exists''), st)
       else (case key_data (eb_publicKey b) of None \<Rightarrow> (Inl (problem 500 ''Server Error''), st)
       | Some data \<Rightarrow> if kt_findByPublicKey ks (js_trim (eb_publicKey b)) k \<noteq> None then (Inl (problem 409 ''A user with this public key already exists''), st)
         else let isHuman = (eb_type b = Some Human \<or> \<not> truthy_str (eb_owner b)); owner = (if isHuman then None else eb_owner b);
              approver = (if isHuman then None else if truthy_str (eb_approver b) then eb_approver b else Some adminEmail);
              now = in_seconds env;
              u = \<lparr>us_email = eb_email b, us_name = eb_name b, us_owner = owner, us_approver = approver, us_type = Some (if isHuman then Human else Agent),
                us_isActive = True, us_createdAt = now, us_lastLoginAt = None, us_recoveryVacationMode = None, us_recoveryVacationDays = None\<rparr>;
              users1 = snd (user_create u users);
              k1 = kt_save ks \<lparr>sk_keyId = ke_key_id ke (ke_b64 ke data), sk_userEmail = eb_email b, sk_publicKey = js_trim (eb_publicKey b),
                sk_name = eb_name b, sk_createdAt = now\<rparr> k;
              seeded = (if \<not> isHuman then seedDefaultSafeCommands now ids (eb_email b) (the owner) store s else (Inr (0, 0), s)) in
           (Inr \<lparr>en_email = eb_email b, en_owner = (if truthy_str owner then the owner else eb_email b),
              en_seeded = (case fst seeded of Inl _ \<Rightarrow> 0 | Inr (created, _) \<Rightarrow> created)\<rparr>, users1, k1, snd seeded)))))"


section \<open>The wire format read back\<close>

lemma byte_mod: "unat (word_of_nat n :: 8 word) = n mod 256"
  by (simp add: unat_of_nat)

lemma length_writeUInt32BE [simp]: "length (writeUInt32BE n) = 4"
  by (simp add: writeUInt32BE_def)

lemma readUInt32BE_write:
  assumes "n < 4294967296"
  shows "readUInt32BE (pre @ writeUInt32BE n @ post) (length pre) = Some n"
proof -
  have "n div 16777216 mod 256 = n div 16777216" using assms by simp
  moreover have "((n div 16777216 * 256 + n div 65536 mod 256) * 256 + n div 256 mod 256) * 256 + n mod 256 = n"
  proof -
    have "n div 16777216 * 256 + n div 65536 mod 256 = n div 65536"
      using div_mult2_eq [of n 65536 256] by simp
    moreover have "n div 65536 * 256 + n div 256 mod 256 = n div 256"
      using div_mult2_eq [of n 256 256] by simp
    ultimately show ?thesis by simp
  qed
  ultimately show ?thesis by (simp add: readUInt32BE_def writeUInt32BE_def byte_mod)
qed

lemma length_wireBuffer [simp]: "length (wireBuffer bs) = length bs + 4"
  by (simp add: wireBuffer_def)

lemma readString_at:
  assumes "length bs < 4294967296" "length pre = off"
  shows "readString (pre @ wireBuffer bs @ post) off = Some (bs, off + 4 + length bs)"
  using readUInt32BE_write [OF assms(1), of pre "bs @ post"] assms(2)
  by (auto simp: readString_def wireBuffer_def subarray_def)

text \<open>What \<open>ssh-keygen -Y sign\<close> writes: the version, a public key, the namespace, a reserved member, the digest and the signature.\<close>

definition envelope :: "bytes \<Rightarrow> string \<Rightarrow> bytes \<Rightarrow> string \<Rightarrow> bytes \<Rightarrow> bytes" where
  "envelope pk namespace reserved hashAlgo rawSig = utf8_bytes SSHSIG_MAGIC @ writeUInt32BE 1 @ wireBuffer pk @ wireString namespace @
     wireBuffer reserved @ wireString hashAlgo @ wireBuffer (wireString ''ssh-ed25519'' @ wireBuffer rawSig)"

lemma readString_0: "length bs < 4294967296 \<Longrightarrow> readString (wireBuffer bs @ post) 0 = Some (bs, 4 + length bs)"
  using readString_at [of bs "[]" 0 post] by simp

lemma envelope_signature:
  assumes "length rawSig < 4294967296"
  shows "readString (wireString ''ssh-ed25519'' @ wireBuffer rawSig) 0 = Some (utf8_bytes ''ssh-ed25519'', 15)"
    "readString (wireString ''ssh-ed25519'' @ wireBuffer rawSig) 15 = Some (rawSig, 19 + length rawSig)"
proof -
  have l: "length (utf8_bytes ''ssh-ed25519'') = 11" by (simp add: utf8_bytes_def)
  show "readString (wireString ''ssh-ed25519'' @ wireBuffer rawSig) 0 = Some (utf8_bytes ''ssh-ed25519'', 15)"
    unfolding wireString_def by (subst readString_0) (simp_all add: l)
  show "readString (wireString ''ssh-ed25519'' @ wireBuffer rawSig) 15 = Some (rawSig, 19 + length rawSig)"
    using readString_at [OF assms, of "wireString ''ssh-ed25519''" 15 "[]"] by (simp add: wireString_def l)
qed

text \<open>
  The reader takes apart what a signer wrote: the digest's name and the 64 bytes of the signature come back, and the embedded public key and
  the reserved member play no part. With another namespace the envelope is refused.
\<close>

theorem envelope_read_back:
  assumes "length pk < 4294967296" "length (utf8_bytes ns) < 4294967296" "length reserved < 4294967296" "length (utf8_bytes algo) < 4294967296"
    "length rawSig = 64"
  shows "read_envelope (envelope pk ns reserved algo rawSig) expected =
    Some (if utf8_bytes expected = utf8_bytes ns then Some (utf8_bytes algo, rawSig) else None)"
proof -
  let ?e = "envelope pk ns reserved algo rawSig" and ?m = "utf8_bytes SSHSIG_MAGIC" and ?s = "wireString ''ssh-ed25519'' @ wireBuffer rawSig"
  have m: "length ?m = 6" by (simp add: SSHSIG_MAGIC_def utf8_bytes_def)
  have sl: "length ?s = 83" using assms(5) by (simp add: wireString_def utf8_bytes_def)
  define o1 where "o1 = 14 + length pk"
  define o2 where "o2 = o1 + 4 + length (utf8_bytes ns)"
  define o3 where "o3 = o2 + 4 + length reserved"
  define o4 where "o4 = o3 + 4 + length (utf8_bytes algo)"
  have v: "readUInt32BE ?e 6 = Some 1"
    using readUInt32BE_write [of 1 ?m] m by (simp add: envelope_def)
  have r1: "readString ?e 10 = Some (pk, o1)"
    using readString_at [OF assms(1), of "?m @ writeUInt32BE 1" 10] m by (simp add: envelope_def o1_def)
  have r2: "readString ?e o1 = Some (utf8_bytes ns, o2)"
    using readString_at [OF assms(2), of "?m @ writeUInt32BE 1 @ wireBuffer pk" o1] m by (simp add: envelope_def wireString_def o1_def o2_def)
  have r3: "readString ?e o2 = Some (reserved, o3)"
    using readString_at [OF assms(3), of "?m @ writeUInt32BE 1 @ wireBuffer pk @ wireString ns" o2] m
    by (simp add: envelope_def wireString_def o1_def o2_def o3_def)
  have r4: "readString ?e o3 = Some (utf8_bytes algo, o4)"
    using readString_at [OF assms(4), of "?m @ writeUInt32BE 1 @ wireBuffer pk @ wireString ns @ wireBuffer reserved" o3] m
    by (simp add: envelope_def wireString_def o1_def o2_def o3_def o4_def)
  have r5: "readString ?e o4 = Some (?s, o4 + 4 + length ?s)"
    using readString_at [of ?s "?m @ writeUInt32BE 1 @ wireBuffer pk @ wireString ns @ wireBuffer reserved @ wireString algo" o4 "[]"] m sl
    by (simp add: envelope_def wireString_def o1_def o2_def o3_def o4_def)
  have t: "take 6 ?e = ?m" using m by (simp add: envelope_def)
  have sig: "readString ?s 0 = Some (utf8_bytes ''ssh-ed25519'', 15)" "readString ?s 15 = Some (rawSig, 83)"
    using envelope_signature [of rawSig] assms(5) by simp_all
  show ?thesis
  proof (cases "utf8_bytes expected = utf8_bytes ns")
    case True
    then show ?thesis
      by (simp only: read_envelope_def t v r1 r2 r3 r4 r5 sig option.case prod.case assms(5) refl simp_thms if_False if_True)
  next
    case False
    then have "utf8_bytes ns \<noteq> utf8_bytes expected" by simp
    with False show ?thesis by (simp only: read_envelope_def t v r1 r2 option.case prod.case refl simp_thms if_False if_True)
  qed
qed

theorem envelope_read_back_witness:
  "read_envelope (envelope [1, 2] ''openape'' [] ''sha512'' (replicate 64 7)) ''file'' = Some None \<and>
   read_envelope (envelope [1, 2] ''openape'' [] ''sha512'' (replicate 64 7)) ''openape'' = Some (Some (utf8_bytes ''sha512'', replicate 64 7))"
proof -
  have u: "length (utf8_bytes ''openape'') = 7" "length (utf8_bytes ''sha512'') = 6" "utf8_bytes ''file'' \<noteq> utf8_bytes ''openape''"
    by (simp_all add: utf8_bytes_def)
  note e = envelope_read_back [of "[1, 2]" "''openape''" "[]" "''sha512''" "replicate 64 7"]
  show ?thesis using e [of "''file''"] e [of "''openape''"] u by simp
qed


section \<open>The contract of the key stores\<close>

locale key_store_laws =
  fixes ks :: "'k key_store" and inv :: "'k \<Rightarrow> bool"
  assumes inv_save: "inv k \<Longrightarrow> inv (kt_save ks x k)"
    and inv_delete: "inv k \<Longrightarrow> inv (kt_delete ks i k)"
    and findById_save: "kt_findById ks i (kt_save ks x k) = (if i = sk_keyId x then Some x else kt_findById ks i k)"
    and findById_delete: "kt_findById ks i (kt_delete ks j k) = (if i = j then None else kt_findById ks i k)"
    and findByUser_stored: "inv k \<Longrightarrow> x \<in> set (kt_findByUser ks email k) \<Longrightarrow> kt_findById ks (sk_keyId x) k = Some x"
    and findByUser_finds: "inv k \<Longrightarrow> kt_findById ks i k = Some x \<Longrightarrow> x \<in> set (kt_findByUser ks (sk_userEmail x) k)"
    and findByPublicKey_stored: "inv k \<Longrightarrow> kt_findByPublicKey ks p k = Some x \<Longrightarrow> sk_publicKey x = p \<and> kt_findById ks (sk_keyId x) k = Some x"
    and findByPublicKey_none: "inv k \<Longrightarrow> kt_findByPublicKey ks p k = None \<Longrightarrow> kt_findById ks i k = Some x \<Longrightarrow> sk_publicKey x \<noteq> p"
begin

lemma login_keys_stored:
  "inv k \<Longrightarrow> login_keys ks k b = Inr keys \<Longrightarrow> x \<in> set keys \<Longrightarrow> kt_findById ks (sk_keyId x) k = Some x"
  by (auto simp: login_keys_def Let_def findByUser_stored dest: findByPublicKey_stored split: if_splits option.splits)

text \<open>A key that verified is a stored one.\<close>

lemma verified_key:
  assumes "some_key_verifies verify keys = Some True"
  shows "\<exists>x\<in>set keys. verify (sk_publicKey x) = Some True"
  using assms by (induction keys) (auto split: option.splits bool.splits)

text \<open>A new text is found under its record once it is saved, whatever the record was before.\<close>

lemma saved_found:
  assumes "inv k" "kt_findByPublicKey ks (sk_publicKey y) k = None"
  shows "kt_findByPublicKey ks (sk_publicKey y) (kt_save ks y k) = Some y" "y \<in> set (kt_findByUser ks (sk_userEmail y) (kt_save ks y k))"
proof -
  let ?k = "kt_save ks y k"
  have inv: "inv ?k" and y: "kt_findById ks (sk_keyId y) ?k = Some y" using assms(1) by (simp_all add: inv_save findById_save)
  then obtain z where z: "kt_findByPublicKey ks (sk_publicKey y) ?k = Some z" using findByPublicKey_none [OF inv _ y] by fastforce
  note f = findByPublicKey_stored [OF inv z]
  have "sk_keyId z = sk_keyId y"
  proof (rule ccontr)
    assume "sk_keyId z \<noteq> sk_keyId y"
    then have "kt_findById ks (sk_keyId z) k = Some z" using f findById_save by metis
    from findByPublicKey_none [OF assms this] f show False by simp
  qed
  with f y have "z = y" by (metis option.inject)
  with z show "kt_findByPublicKey ks (sk_publicKey y) ?k = Some y" by simp
  show "y \<in> set (kt_findByUser ks (sk_userEmail y) ?k)" by (rule findByUser_finds [OF inv y])
qed

text \<open>Saving over a record changes its owner; the old owner is then refused, and the new one removes it.\<close>

lemma owner_replaced:
  assumes "kt_findById ks i k = Some x" "sk_keyId y = i" "sk_userEmail y \<noteq> sk_userEmail x"
  shows "kt_findById ks i (kt_save ks y k) = Some y" "kt_findById ks i (kt_delete ks i (kt_save ks y k)) = None"
  using assms by (simp_all add: findById_save findById_delete)

end

definition ssh_ids_ok :: "ssh_store \<Rightarrow> bool" where
  "ssh_ids_ok s \<longleftrightarrow> distinct (map fst s) \<and> (\<forall>(i, x) \<in> set s. sk_keyId x = i)"

lemma find_value: "List.find P (map snd s) = Some x \<Longrightarrow> \<exists>i. (i, x) \<in> set s \<and> P x"
  by (induction s) (auto split: if_splits)

lemma find_value_none: "List.find P (map snd s) = None \<Longrightarrow> map_of s i = Some x \<Longrightarrow> \<not> P x"
  by (induction s) (auto split: if_splits)

lemma ids_update: "ssh_ids_ok s \<Longrightarrow> ssh_ids_ok (AList.update (sk_keyId x) x s)"
  using set_update_subset [of "sk_keyId x" x s] by (auto simp: ssh_ids_ok_def distinct_update)

lemma ids_delete: "ssh_ids_ok s \<Longrightarrow> ssh_ids_ok (AList.delete i s)"
  by (auto simp: ssh_ids_ok_def AList.delete_eq distinct_map_filter)

lemma ids_mem: "ssh_ids_ok s \<Longrightarrow> (i, x) \<in> set s \<Longrightarrow> map_of s (sk_keyId x) = Some x"
  by (auto simp: ssh_ids_ok_def)

lemmas key_store_simps = InMemorySshKeyStore_def createSshKeyStore_def ssh_save_def ssh_findById_def ssh_findByUser_def ssh_findByPublicKey_def
  ssh_delete_def stored_findById_def stored_findByPublicKey_def update_conv' delete_conv'

interpretation mks: key_store_laws InMemorySshKeyStore ssh_ids_ok
proof
  show "ssh_ids_ok k \<Longrightarrow> x \<in> set (kt_findByUser InMemorySshKeyStore email k) \<Longrightarrow> kt_findById InMemorySshKeyStore (sk_keyId x) k = Some x" for k x email
    by (auto simp: key_store_simps dest: ids_mem)
  show "ssh_ids_ok k \<Longrightarrow> kt_findById InMemorySshKeyStore i k = Some x \<Longrightarrow> x \<in> set (kt_findByUser InMemorySshKeyStore (sk_userEmail x) k)" for k i x
    by (force simp: key_store_simps dest: map_of_SomeD)
  show "ssh_ids_ok k \<Longrightarrow> kt_findByPublicKey InMemorySshKeyStore p k = Some x \<Longrightarrow>
      sk_publicKey x = p \<and> kt_findById InMemorySshKeyStore (sk_keyId x) k = Some x" for k p x
    by (auto simp: key_store_simps dest!: find_value dest: ids_mem)
  show "ssh_ids_ok k \<Longrightarrow> kt_findByPublicKey InMemorySshKeyStore p k = None \<Longrightarrow> kt_findById InMemorySshKeyStore i k = Some x \<Longrightarrow> sk_publicKey x \<noteq> p" for k p i x
    by (auto simp: key_store_simps dest: find_value_none)
qed (auto simp: key_store_simps ids_update ids_delete)

text \<open>The storage-backed one keeps each key in its owner's index, and may keep it in others.\<close>

definition ssh_index_ok :: "ssh_storage \<Rightarrow> bool" where
  "ssh_index_ok s \<longleftrightarrow> ssh_ids_ok (ss_keys s) \<and> (\<forall>i x. map_of (ss_keys s) i = Some x \<longrightarrow> i \<in> set (stored_index (sk_userEmail x) s))"

lemma index_update [simp]:
  "stored_index e (s\<lparr>ss_index := AList.update u l (ss_index s)\<rparr>) = (if e = u then l else stored_index e s)"
  "stored_index e (s\<lparr>ss_keys := x, ss_index := AList.update u l (ss_index s)\<rparr>) = (if e = u then l else stored_index e s)"
  "stored_index e (s\<lparr>ss_keys := x\<rparr>) = stored_index e s"
  by (simp_all add: stored_index_def update_conv' nullish_def)

lemma index_save: "stored_index e (stored_save y s) =
    (if e = sk_userEmail y \<and> sk_keyId y \<notin> set (stored_index e s) then stored_index e s @ [sk_keyId y] else stored_index e s)"
  by (auto simp: stored_save_def Let_def stored_index_def update_conv')

lemma index_delete: "j \<in> set (stored_index e s) \<Longrightarrow> j \<noteq> i \<Longrightarrow> j \<in> set (stored_index e (stored_delete i s))"
  by (auto simp: stored_delete_def Let_def split: option.splits)

lemma keys_save [simp]: "ss_keys (stored_save y s) = AList.update (sk_keyId y) y (ss_keys s)"
  by (simp add: stored_save_def Let_def)

lemma keys_delete [simp]: "ss_keys (stored_delete i s) = AList.delete i (ss_keys s)"
  by (auto simp: stored_delete_def Let_def split: option.splits)

lemma set_stored_findByUser: "set (stored_findByUser e s) = {x. \<exists>i\<in>set (stored_index e s). map_of (ss_keys s) i = Some x}"
  by (auto simp: stored_findByUser_def split: option.splits)

interpretation sks: key_store_laws createSshKeyStore ssh_index_ok
proof
  show "ssh_index_ok k \<Longrightarrow> ssh_index_ok (kt_save createSshKeyStore x k)" for k x
    by (auto simp: ssh_index_ok_def key_store_simps ids_update index_save) metis+
  show "ssh_index_ok k \<Longrightarrow> ssh_index_ok (kt_delete createSshKeyStore i k)" for k i
    by (auto simp: ssh_index_ok_def key_store_simps ids_delete index_delete split: if_splits)
  show "ssh_index_ok k \<Longrightarrow> x \<in> set (kt_findByUser createSshKeyStore email k) \<Longrightarrow> kt_findById createSshKeyStore (sk_keyId x) k = Some x" for k x email
    by (auto simp: key_store_simps set_stored_findByUser ssh_index_ok_def dest!: map_of_SomeD dest: ids_mem)
  show "ssh_index_ok k \<Longrightarrow> kt_findById createSshKeyStore i k = Some x \<Longrightarrow> x \<in> set (kt_findByUser createSshKeyStore (sk_userEmail x) k)" for k i x
    by (auto simp: key_store_simps set_stored_findByUser ssh_index_ok_def)
  show "ssh_index_ok k \<Longrightarrow> kt_findByPublicKey createSshKeyStore p k = Some x \<Longrightarrow>
      sk_publicKey x = p \<and> kt_findById createSshKeyStore (sk_keyId x) k = Some x" for k p x
    by (auto simp: key_store_simps ssh_index_ok_def dest!: find_value dest: ids_mem)
  show "ssh_index_ok k \<Longrightarrow> kt_findByPublicKey createSshKeyStore p k = None \<Longrightarrow> kt_findById createSshKeyStore i k = Some x \<Longrightarrow> sk_publicKey x \<noteq> p" for k p i x
    by (auto simp: key_store_simps dest: find_value_none)
qed (auto simp: key_store_simps)


section \<open>Keys that were registered\<close>

text \<open>
  The life of the default store: every endpoint that saves a key names it by the digest of the bytes its text holds, and requires an \<open>ssh-ed25519\<close>
  text; \<open>H\<close> collects what was ever saved. A key whose record was replaced keeps its place in the index of its first owner.
\<close>

definition empty_keys :: ssh_storage where
  "empty_keys = \<lparr>ss_keys = [], ss_index = []\<rparr>"

definition well_named :: "key_env \<Rightarrow> ssh_key \<Rightarrow> bool" where
  "well_named ke x \<longleftrightarrow> hd (key_parts (sk_publicKey x)) = ''ssh-ed25519'' \<and>
     (\<exists>d. key_data (sk_publicKey x) = Some d \<and> d \<noteq> [] \<and> sk_keyId x = ke_key_id ke (ke_b64 ke d))"

inductive keys_reach :: "key_env \<Rightarrow> ssh_key set \<Rightarrow> ssh_storage \<Rightarrow> bool" for ke :: key_env where
  start: "keys_reach ke {} empty_keys"
| save: "keys_reach ke H s \<Longrightarrow> well_named ke x \<Longrightarrow> keys_reach ke (insert x H) (stored_save x s)"
| delete: "keys_reach ke H s \<Longrightarrow> keys_reach ke H (stored_delete i s)"
| delete_all: "keys_reach ke H s \<Longrightarrow> keys_reach ke H (stored_deleteAllForUser email except s)"

text \<open>The endpoints take these steps.\<close>

lemma trim_ends: "js_trim s = [] \<or> \<not> is_space (last (js_trim s))"
proof (cases "dropWhile is_space (rev (dropWhile is_space s)) = []")
  case False
  from hd_dropWhile [OF this] False show ?thesis unfolding js_trim_def by (simp only: last_rev) simp
qed (simp only: js_trim_def rev.simps simp_thms)

lemma trim_starts: "js_trim s = [] \<or> \<not> is_space (hd (js_trim s))"
proof -
  have "rev (dropWhile is_space (rev t)) = [] \<or> hd (rev (dropWhile is_space (rev t))) = hd t" for t
    by (metis append_is_Nil_conv hd_append2 rev_append rev_rev_ident takeWhile_dropWhile_id)
  then have "js_trim s = [] \<or> hd (js_trim s) = hd (dropWhile is_space s)" unfolding js_trim_def .
  moreover have "js_trim s = []" if "dropWhile is_space s = []" unfolding js_trim_def that by simp
  ultimately show ?thesis using hd_dropWhile [of is_space s] by metis
qed

lemma untouched_trim:
  assumes "s \<noteq> []" "\<not> is_space (hd s)" "\<not> is_space (last s)"
  shows "js_trim s = s"
proof -
  have keep: "dropWhile is_space xs = xs" if "\<not> is_space (hd xs)" for xs using that by (cases xs) auto
  show ?thesis unfolding js_trim_def keep [OF assms(2)] using keep [of "rev s"] assms(1,3) by (simp add: hd_rev)
qed

lemma trim_trim [simp]: "js_trim (js_trim s) = js_trim s"
proof (cases "js_trim s = []")
  case False
  with trim_starts [of s] trim_ends [of s] show ?thesis by (intro untouched_trim) simp_all
next
  case True
  have "js_trim [] = []" by (simp add: js_trim_def)
  then show ?thesis unfolding True .
qed

lemma key_parts_trim [simp]: "key_parts (js_trim s) = key_parts s"
  by (simp add: key_parts_def)

lemma split_first: "acc \<noteq> [] \<Longrightarrow> split_spaces acc s \<noteq> [] \<and> hd (split_spaces acc s) \<noteq> []"
  by (induction acc s rule: split_spaces.induct) auto

lemma split_later: "s = [] \<or> \<not> is_space (last s) \<Longrightarrow> w \<in> set (tl (split_spaces acc s)) \<Longrightarrow> w \<noteq> []"
proof (induction acc s rule: split_spaces.induct)
  case (2 acc c cs)
  show ?case
  proof (cases "is_space c")
    case False
    have "cs = [] \<or> \<not> is_space (last cs)" using "2.prems"(1) by (cases "cs = []") simp_all
    moreover have "w \<in> set (tl (split_spaces (c # acc) cs))" using "2.prems"(2) False by simp
    ultimately show ?thesis by (rule "2.IH"(3) [OF False])
  next
    case True
    have cs: "cs \<noteq> []" using "2.prems"(1) True by (cases "cs = []") simp_all
    have last: "cs = [] \<or> \<not> is_space (last cs)" using "2.prems"(1) cs by simp
    show ?thesis
    proof (cases "is_space (hd cs)")
      case space: True
      with cs have both: "cs \<noteq> [] \<and> is_space (hd cs)" by simp
      have "w \<in> set (tl (split_spaces acc cs))" using "2.prems"(2) True both by simp
      then show ?thesis by (rule "2.IH"(1) [OF True both last])
    next
      case word: False
      then have no: "\<not> (cs \<noteq> [] \<and> is_space (hd cs))" by simp
      obtain d ds where d: "cs = d # ds" using cs by (cases cs) auto
      have "split_spaces [] cs = split_spaces [d] ds" using word d by simp
      then have first: "split_spaces [] cs \<noteq> []" "hd (split_spaces [] cs) \<noteq> []" using split_first [of "[d]" ds] by simp_all
      have "w \<in> set (split_spaces [] cs)" using "2.prems"(2) True no by simp
      then have "w = hd (split_spaces [] cs) \<or> w \<in> set (tl (split_spaces [] cs))" using first(1) by (cases "split_spaces [] cs") simp_all
      then show ?thesis
      proof
        assume "w = hd (split_spaces [] cs)"
        with first(2) show ?thesis by simp
      qed (rule "2.IH"(2) [OF True no last])
    qed
  qed
qed simp

lemma key_data_word: "key_data s = Some d \<Longrightarrow> d \<noteq> []"
proof -
  assume "key_data s = Some d"
  then obtain a ws where "split_spaces [] (js_trim s) = a # d # ws" by (auto simp: key_data_def key_parts_def split: list.splits)
  then show "d \<noteq> []" using split_later [OF trim_ends [of s], of d "[]"] by simp
qed

lemma posted_named:
  assumes "ssh_keys_post ke now kv data createSshKeyStore publicKey name k = (Inr x, k1)"
  shows "k1 = stored_save x k \<and> well_named ke x \<and> session_email (getAppSession now kv data) = Some (sk_userEmail x)"
proof -
  obtain email where e: "session_email (getAppSession now kv data) = Some email" using assms by (auto simp: ssh_keys_post_def split: option.splits)
  let ?key = "js_trim (the publicKey)"
  have p: "parseSSHEd25519PublicKey ke ?key \<noteq> None" and x: "sk_keyId x = ke_key_id ke (ke_b64 ke (key_parts ?key ! 1))" "sk_publicKey x = ?key" "sk_userEmail x = email"
    and k1: "k1 = stored_save x k"
    using assms e by (auto simp: ssh_keys_post_def Let_def createSshKeyStore_def split: if_splits)
  have w: "hd (key_parts ?key) = ''ssh-ed25519''" "2 \<le> length (key_parts ?key)" using p by (auto simp: parseSSHEd25519PublicKey_def Let_def split: if_splits)
  then obtain a d ws where parts: "key_parts ?key = a # d # ws" by (cases "key_parts ?key"; cases "tl (key_parts ?key)") auto
  then have "key_data ?key = Some d" by (simp add: key_data_def)
  with w(1) x k1 e parts key_data_word show ?thesis by (auto simp: well_named_def)
qed

lemma removed_step:
  assumes "ssh_key_delete now kv data createSshKeyStore i k = (r, k1)"
  shows "k1 = k \<or> k1 = stored_delete i k"
  using assms by (auto simp: ssh_key_delete_def createSshKeyStore_def split: option.splits if_splits)

lemma split_space: "is_space c \<Longrightarrow> hd (split_spaces acc (c # u)) = rev acc"
  by (induction u arbitrary: c) auto

lemma split_word: "list_all (\<lambda>c. \<not> is_space c) w \<Longrightarrow> split_spaces acc (w @ u) = split_spaces (rev w @ acc) u"
  by (induction w arbitrary: acc) auto

lemma trim_prefix: "\<not> is_space (hd s) \<Longrightarrow> \<exists>r. s = js_trim s @ r"
proof -
  assume "\<not> is_space (hd s)"
  then have "dropWhile is_space s = s" by (cases s) auto
  then have "s = js_trim s @ rev (takeWhile is_space (rev s))"
    unfolding js_trim_def by (metis rev_append rev_rev_ident takeWhile_dropWhile_id)
  then show ?thesis ..
qed

lemma prefix_cases: "a @ c # u = k @ r \<Longrightarrow> (\<exists>v. a = k @ v) \<or> (\<exists>v. k = a @ c # v)"
  by (auto simp: append_eq_append_conv2 Cons_eq_append_conv)

text \<open>A text that starts with the key type and a space, and holds a second word, has the type as its first word.\<close>

lemma prefixed_type:
  assumes "starts_with key ''ssh-ed25519 ''" "key_data key = Some d"
  shows "hd (key_parts key) = ''ssh-ed25519''"
proof -
  let ?w = "''ssh-ed25519''"
  obtain u where key: "key = ?w @ CHR '' '' # u" using assms(1) by (auto simp: starts_with_iff)
  have word: "list_all (\<lambda>c. \<not> is_space c) ?w" by code_simp
  obtain r where r: "?w @ CHR '' '' # u = js_trim key @ r" using trim_prefix [of key] word key by auto
  have "(\<exists>v. ?w = js_trim key @ v) \<or> (\<exists>v. js_trim key = ?w @ CHR '' '' # v)"
    by (rule prefix_cases [OF r])
  then show ?thesis
  proof (elim disjE exE)
    fix v assume v: "?w = js_trim key @ v"
    have "list_all (\<lambda>c. \<not> is_space c) (js_trim key)" using word unfolding v by simp
    from split_word [OF this, of "[]" "[]"] have "key_parts key = [js_trim key]" by (simp add: key_parts_def)
    with assms(2) show ?thesis by (simp add: key_data_def)
  next
    fix v assume v: "js_trim key = ?w @ CHR '' '' # v"
    have "is_space (CHR '' '')" by code_simp
    with split_space [of "CHR '' ''" "rev ?w" v] show ?thesis unfolding key_parts_def v split_word [OF word] by simp
  qed
qed

lemma enrolled_named:
  assumes "enroll_post env ev ke createSshKeyStore store ids b (users, k, s) = (Inr e, (users1, k1, s1))"
  shows "\<exists>x. k1 = stored_save x k \<and> well_named ke x \<and> sk_userEmail x = eb_email b"
proof -
  obtain d where d: "key_data (eb_publicKey b) = Some d" using assms(1)
    by (auto simp: enroll_post_def split: sum.splits option.splits if_splits)
  then obtain x where x: "k1 = stored_save x k" "sk_keyId x = ke_key_id ke (ke_b64 ke d)" "sk_userEmail x = eb_email b" "sk_publicKey x = js_trim (eb_publicKey b)"
    using assms(1) by (auto simp: enroll_post_def Let_def createSshKeyStore_def split: sum.splits option.splits if_splits)
  have "starts_with (eb_publicKey b) ''ssh-ed25519 ''" using assms(1)
    by (auto simp: enroll_post_def enroll_problem_def split: sum.splits option.splits if_splits)
  note word = prefixed_type [OF this d]
  have "key_data (js_trim (eb_publicKey b)) = Some d" using d by (simp add: key_data_def)
  with x word key_data_word [OF d] show ?thesis by (auto simp: well_named_def)
qed

text \<open>The invariants of such a life.\<close>

lemma map_of_fold_delete: "map_of (fold (\<lambda>i ks. AList.delete i ks) is ks) j = (if j \<in> set is then None else map_of ks j)"
  by (induction "is" arbitrary: ks) (auto simp: delete_conv')

lemma ids_fold_delete: "ssh_ids_ok ks \<Longrightarrow> ssh_ids_ok (fold (\<lambda>i ks. AList.delete i ks) is ks)"
  by (induction "is" arbitrary: ks) (auto simp: ids_delete)

lemma index_delete_all: "stored_index e (stored_deleteAllForUser email except s) =
    (if e = email then filter (\<lambda>i. Some i = except) (stored_index email s) else stored_index e s)"
  by (auto simp: stored_deleteAllForUser_def Let_def stored_index_def update_conv' delete_conv' nullish_def)

lemma keys_delete_all: "map_of (ss_keys (stored_deleteAllForUser email except s)) i =
    (if i \<in> set (stored_index email s) \<and> Some i \<noteq> except then None else map_of (ss_keys s) i)"
  by (simp add: stored_deleteAllForUser_def Let_def map_of_fold_delete)

lemma index_ok_delete_all:
  assumes "ssh_index_ok s"
  shows "ssh_index_ok (stored_deleteAllForUser email except s)"
proof -
  have "ssh_ids_ok (ss_keys (stored_deleteAllForUser email except s))"
    using assms by (simp add: stored_deleteAllForUser_def Let_def ids_fold_delete ssh_index_ok_def)
  then show ?thesis using assms by (auto simp: ssh_index_ok_def keys_delete_all index_delete_all split: if_splits)
qed

lemma index_delete_sub: "set (stored_index e (stored_delete i s)) \<subseteq> set (stored_index e s)"
  by (auto simp: stored_delete_def Let_def split: option.splits if_splits)

lemma reach_invariant:
  assumes "keys_reach ke H s"
  shows "ssh_index_ok s \<and> (\<forall>x\<in>H. well_named ke x) \<and> (\<forall>i x. map_of (ss_keys s) i = Some x \<longrightarrow> x \<in> H \<and> sk_keyId x = i) \<and>
    (\<forall>e. \<forall>i\<in>set (stored_index e s). \<exists>own\<in>H. sk_userEmail own = e \<and> sk_keyId own = i)"
  using assms
proof induction
  case start
  then show ?case by (simp add: empty_keys_def ssh_index_ok_def ssh_ids_ok_def stored_index_def nullish_def)
next
  case (save H s x)
  have "ssh_index_ok (stored_save x s)" using save.IH sks.inv_save [of s x] by (simp add: createSshKeyStore_def)
  moreover have "\<exists>own\<in>insert x H. sk_userEmail own = e \<and> sk_keyId own = i" if "i \<in> set (stored_index e (stored_save x s))" for e i
    using that save.IH by (auto simp: index_save split: if_splits)
  ultimately show ?case using save.IH save.hyps(2) by (auto simp: update_conv')
next
  case (delete H s i)
  have "ssh_index_ok (stored_delete i s)" using delete.IH sks.inv_delete [of s i] by (simp add: createSshKeyStore_def)
  moreover have "x \<in> H \<and> sk_keyId x = j" if "map_of (ss_keys (stored_delete i s)) j = Some x" for j x
    using that delete.IH by (simp add: delete_conv' split: if_splits)
  moreover have "\<exists>own\<in>H. sk_userEmail own = e \<and> sk_keyId own = j" if "j \<in> set (stored_index e (stored_delete i s))" for e j
    using that delete.IH index_delete_sub [of e i s] by blast
  ultimately show ?case using delete.IH by blast
next
  case (delete_all H s email except)
  have "x \<in> H \<and> sk_keyId x = j" if "map_of (ss_keys (stored_deleteAllForUser email except s)) j = Some x" for j x
    using that delete_all.IH by (simp add: keys_delete_all split: if_splits)
  moreover have "\<exists>own\<in>H. sk_userEmail own = e \<and> sk_keyId own = j" if "j \<in> set (stored_index e (stored_deleteAllForUser email except s))" for e j
    using that delete_all.IH by (simp add: index_delete_all split: if_splits)
  ultimately show ?case using delete_all.IH index_ok_delete_all [of s email except] by blast
qed

text \<open>Two texts of the same bytes verify the same signatures.\<close>

definition key_wire :: "key_env \<Rightarrow> ssh_key \<Rightarrow> bytes" where
  "key_wire ke x = ke_b64 ke (the (key_data (sk_publicKey x)))"

lemma same_wire_parse:
  assumes "well_named ke x" "well_named ke y" "key_wire ke x = key_wire ke y"
  shows "parseSSHEd25519PublicKey ke (sk_publicKey x) = parseSSHEd25519PublicKey ke (sk_publicKey y)"
proof -
  have parts: "\<exists>d ws. key_parts (sk_publicKey z) = ''ssh-ed25519'' # d # ws \<and> d \<noteq> [] \<and> key_wire ke z = ke_b64 ke d" if "well_named ke z" for z
    using that by (auto simp: well_named_def key_data_def key_wire_def split: list.splits)
  obtain d ws where x: "key_parts (sk_publicKey x) = ''ssh-ed25519'' # d # ws" "d \<noteq> []" "key_wire ke x = ke_b64 ke d" using parts [OF assms(1)] by blast
  obtain d' ws' where y: "key_parts (sk_publicKey y) = ''ssh-ed25519'' # d' # ws'" "d' \<noteq> []" "key_wire ke y = ke_b64 ke d'" using parts [OF assms(2)] by blast
  have wire: "ke_b64 ke d' = ke_b64 ke d" using assms(3) x(3) y(3) by simp
  have second: "(p # q # r) ! 1 = q" for p q :: string and r by simp
  show ?thesis using x(2) y(2) unfolding parseSSHEd25519PublicKey_def Let_def x(1) y(1) second wire by simp
qed

lemma registered_key:
  assumes r: "keys_reach ke H k" and inj: "inj_on (ke_key_id ke) (key_wire ke ` H)"
    and keys: "login_keys createSshKeyStore k b = Inr keys" "x \<in> set keys" "verifyEd25519Signature ke (sk_publicKey x) m sg = Some True"
  shows "\<exists>own\<in>H. sk_userEmail own = lb_id b \<and> verifyEd25519Signature ke (sk_publicKey own) m sg = Some True \<and> (\<exists>y. stored_findById (sk_keyId own) k = Some y)"
proof -
  note inv = reach_invariant [OF r]
  have x: "stored_findById (sk_keyId x) k = Some x"
    using sks.login_keys_stored [OF _ keys(1,2)] inv by (simp add: createSshKeyStore_def)
  then have xH: "x \<in> H" using inv by (simp add: stored_findById_def)
  obtain own where own: "own \<in> H" "sk_userEmail own = lb_id b" "sk_keyId own = sk_keyId x"
  proof (cases "truthy_str (lb_public_key b)")
    case True
    with keys(1,2) have "sk_userEmail x = lb_id b" by (auto simp: login_keys_def split: option.splits if_splits)
    with xH show ?thesis by (rule that) simp
  next
    case False
    with keys(1,2) have "x \<in> set (stored_findByUser (lb_id b) k)" by (auto simp: login_keys_def Let_def createSshKeyStore_def split: if_splits)
    then obtain i where i: "i \<in> set (stored_index (lb_id b) k)" "map_of (ss_keys k) i = Some x" by (auto simp: set_stored_findByUser)
    then have "sk_keyId x = i" using inv by blast
    with i(1) inv that show ?thesis by metis
  qed
  have named: "well_named ke own" "well_named ke x" using inv own(1) xH by blast+
  have "ke_key_id ke (key_wire ke z) = sk_keyId z" if "well_named ke z" for z using that by (auto simp: well_named_def key_wire_def)
  with named own(3) have "key_wire ke own = key_wire ke x" using inj own(1) xH by (metis image_eqI inj_on_eq_iff)
  with same_wire_parse [OF named] keys(3) have "verifyEd25519Signature ke (sk_publicKey own) m sg = Some True" by (simp add: verifyEd25519Signature_def)
  with own x show ?thesis by metis
qed


section \<open>Properties\<close>

lemma consume_ok:
  assumes "grant_consumeChallenge other now c i cs = (True, cs1)"
  shows "(\<exists>x. map_of cs c = Some x \<and> ch_entityId x = i \<and> now \<le> ch_expiresAt x) \<and> map_of cs1 c = None"
  using assms by (auto simp: grant_consumeChallenge_def delete_conv' split: option.splits)

lemma consume_gone: "map_of cs c = None \<Longrightarrow> grant_consumeChallenge other now c i cs = (False, cs)"
  by (simp add: grant_consumeChallenge_def)

lemma key_login_gone: "map_of cs (lb_challenge b) = None \<Longrightarrow> isl (fst (key_login verify other now users ks k b cs))"
  by (simp add: key_login_def consume_gone split: sum.splits option.splits)

text \<open>The other requests only leave their mark on the challenges.\<close>

lemma consume_other: "fst (grant_consumeChallenge other now c i cs) = fst (grant_consumeChallenge (\<lambda>s. s) now c i cs)"
  by (simp add: grant_consumeChallenge_def split: option.splits)

lemma key_login_other: "fst (key_login verify other now users ks k b cs) = fst (key_login verify (\<lambda>s. s) now users ks k b cs)"
  using consume_other [of other now "lb_challenge b" "lb_id b" cs]
  by (simp add: key_login_def split_def split: sum.splits option.splits bool.splits)

lemma key_loginD:
  assumes "key_login verify other now users ks k b cs = (Inr u, cs1)"
  shows "\<exists>keys. login_keys ks k b = Inr keys \<and> findByEmail (lb_id b) users = Some u \<and> us_isActive u \<and>
    (\<exists>c. map_of cs (lb_challenge b) = Some c \<and> ch_entityId c = lb_id b \<and> now \<le> ch_expiresAt c) \<and> map_of cs1 (lb_challenge b) = None \<and>
    some_key_verifies (verify b) keys = Some True"
proof -
  from assms obtain keys v where k: "login_keys ks k b = Inr keys" "findByEmail (lb_id b) users = Some v" "us_isActive v"
    by (auto simp: key_login_def split: if_splits sum.splits option.splits)
  obtain ok cs2 where c: "grant_consumeChallenge other now (lb_challenge b) (lb_id b) cs = (ok, cs2)" by fastforce
  with assms k have "ok \<and> cs2 = cs1 \<and> v = u \<and> some_key_verifies (verify b) keys = Some True"
    by (simp add: key_login_def split: if_splits option.splits bool.splits)
  with k c consume_ok [of other now "lb_challenge b" "lb_id b" cs cs1] show ?thesis by (intro exI [of _ keys]) simp
qed


text \<open>An example: a base 64 decoder that knows two texts, and a signature that repeats the challenge.\<close>

definition ex_wire :: bytes where
  "ex_wire = wireString ''ssh-ed25519'' @ wireBuffer (replicate 32 1)"

definition ex_ke :: key_env where
  "ex_ke = \<lparr>ke_b64 = (\<lambda>s. if s = ''AAAA'' then ex_wire else utf8_bytes s), ke_verify = (\<lambda>k d s. k = replicate 32 1 \<and> d = s),
     ke_hash = (\<lambda>n. Some (\<lambda>x. x)), ke_key_id = (\<lambda>w. if w = ex_wire then ''id1'' else ''id2'')\<rparr>"

definition ex_ssh :: "string \<Rightarrow> string \<Rightarrow> ssh_key" where
  "ex_ssh email comment = \<lparr>sk_keyId = ''id1'', sk_userEmail = email, sk_publicKey = ''ssh-ed25519 AAAA'' @ comment, sk_name = ''SSH Key'', sk_createdAt = 0\<rparr>"

lemma ex_ssh_simps [simp]: "sk_keyId (ex_ssh e c) = ''id1''" "sk_userEmail (ex_ssh e c) = e" "sk_publicKey (ex_ssh e c) = ''ssh-ed25519 AAAA'' @ c"
  by (simp_all add: ex_ssh_def)

lemma ex_ssh_readable:
  assumes "key_parts key = ''ssh-ed25519'' # ''AAAA'' # rest"
  shows "parseSSHEd25519PublicKey ex_ke key = Some (replicate 32 1)"
proof -
  have l: "length (utf8_bytes ''ssh-ed25519'') = 11" by (simp add: utf8_bytes_def)
  have "readString ex_wire 0 = Some (utf8_bytes ''ssh-ed25519'', 15)" "readString ex_wire 15 = Some (replicate 32 1, 51)"
    using envelope_signature [of "replicate 32 1"] by (simp_all add: ex_wire_def)
  then show ?thesis using assms by (simp add: parseSSHEd25519PublicKey_def ex_ke_def Let_def)
qed

definition ex_login :: "string \<Rightarrow> login_body" where
  "ex_login i = \<lparr>lb_id = i, lb_challenge = ''c1'', lb_signature = ''c1'', lb_public_key = None\<rparr>"

definition ex_challenge :: "string \<Rightarrow> challenge_store" where
  "ex_challenge i = [(''c1'', \<lparr>ch_entityId = i, ch_expiresAt = 300000\<rparr>)]"

lemma ex_verifies: "plain_signature ex_ke (ex_login i) (sk_publicKey (ex_ssh e [])) = Some True" "any_signature ex_ke (ex_login i) (sk_publicKey (ex_ssh e [])) = Some True"
proof -
  have "parseSSHEd25519PublicKey ex_ke ''ssh-ed25519 AAAA'' = Some (replicate 32 1)"
    by (rule ex_ssh_readable [of _ "[]"]) code_simp
  moreover have "js_trim ''c1'' = ''c1''" by code_simp
  ultimately show "plain_signature ex_ke (ex_login i) (sk_publicKey (ex_ssh e [])) = Some True"
    "any_signature ex_ke (ex_login i) (sk_publicKey (ex_ssh e [])) = Some True"
    by (simp_all add: plain_signature_def any_signature_def verifyEd25519Signature_def ex_login_def ex_ke_def Let_def)
qed

lemma ex_ssh_login:
  assumes "findByEmail i users = Some u" "us_isActive u" "verify (ex_login i) (sk_publicKey (ex_ssh i [])) = Some True" "i \<noteq> []"
  shows "key_login verify (\<lambda>s. s) 5 users InMemorySshKeyStore [(''id1'', ex_ssh i [])] (ex_login i) (ex_challenge i) = (Inr u, [])"
  using assms by (simp add: key_login_def login_keys_def key_store_simps grant_consumeChallenge_def ex_challenge_def ex_login_def)


definition ex_keys :: ssh_storage where
  "ex_keys = stored_save (ex_ssh ''ada'' []) empty_keys"

lemma ex_keys_eq: "ex_keys = \<lparr>ss_keys = [(''id1'', ex_ssh ''ada'' [])], ss_index = [(''ada'', [''id1''])]\<rparr>"
  by (simp add: ex_keys_def stored_save_def empty_keys_def stored_index_def nullish_def Let_def)

lemma ex_keys_reach: "keys_reach ex_ke {ex_ssh ''ada'' []} ex_keys"
proof -
  have "key_parts ''ssh-ed25519 AAAA'' = [''ssh-ed25519'', ''AAAA'']" by code_simp
  then have "well_named ex_ke (ex_ssh ''ada'' [])" by (simp add: well_named_def key_data_def ex_ke_def)
  from keys_reach.save [OF keys_reach.start this] show ?thesis by (simp add: ex_keys_def)
qed


text \<open>
  C34. The comment of a key is part of the text that must be new, but not of its identifier. A user who registers a key of somebody else under
  another comment overwrites the record in both stores: the owner is refused when he removes his key (the answer is that there is none), and
  the other removes it for him.
\<close>

theorem key_record_taken:
  assumes "session_email (getAppSession now kv data) = Some other" "session_email (getAppSession now kv owner_data) = Some (sk_userEmail x)"
    "other \<noteq> sk_userEmail x" "sk_keyId x \<noteq> []" "key \<noteq> []" "js_trim key = key" "parseSSHEd25519PublicKey ke key \<noteq> None"
    "sk_keyId x = ke_key_id ke (ke_b64 ke (key_parts key ! 1))"
    "ssh_findById (sk_keyId x) m = Some x" "ssh_findByPublicKey key m = None"
    "stored_findById (sk_keyId x) s = Some x" "stored_findByPublicKey key s = None"
  shows "\<exists>y m1 s1. sk_userEmail y = other \<and> sk_publicKey y = key \<and>
    ssh_keys_post ke now kv data InMemorySshKeyStore (Some key) name m = (Inr y, m1) \<and> ssh_findById (sk_keyId x) m1 = Some y \<and>
    ssh_key_delete now kv owner_data InMemorySshKeyStore (sk_keyId x) m1 = (Inl (problem 404 ''SSH key not found''), m1) \<and>
    ssh_findById (sk_keyId x) (snd (ssh_key_delete now kv data InMemorySshKeyStore (sk_keyId x) m1)) = None \<and>
    ssh_keys_post ke now kv data createSshKeyStore (Some key) name s = (Inr y, s1) \<and> stored_findById (sk_keyId x) s1 = Some y \<and>
    ssh_key_delete now kv owner_data createSshKeyStore (sk_keyId x) s1 = (Inl (problem 404 ''SSH key not found''), s1) \<and>
    stored_findById (sk_keyId x) (snd (ssh_key_delete now kv data createSshKeyStore (sk_keyId x) s1)) = None"
proof -
  let ?parts = "key_parts key"
  let ?comment = "if length ?parts \<ge> 3 then Some (join '' '' (drop 2 ?parts)) else None"
  define y where "y = \<lparr>sk_keyId = sk_keyId x, sk_userEmail = other, sk_publicKey = key,
    sk_name = (if truthy_str name then the name else if truthy_str ?comment then the ?comment else ''SSH Key''), sk_createdAt = now div 1000\<rparr>"
  have y: "sk_userEmail y = other" "sk_publicKey y = key" "sk_keyId y = sk_keyId x" by (simp_all add: y_def)
  have ne: "truthy_str (Some key)" using assms(5) by (simp add: truthy_str_def)
  have post: "ssh_keys_post ke now kv data ks (Some key) name k = (Inr y, kt_save ks y k)" if "kt_findByPublicKey ks key k = None" for ks :: "'x key_store" and k
    using assms(1,6,7,8) ne that by (simp add: ssh_keys_post_def Let_def y_def)
  have m: "kt_findById InMemorySshKeyStore (sk_keyId x) m = Some x" "kt_findByPublicKey InMemorySshKeyStore key m = None"
    and s: "kt_findById createSshKeyStore (sk_keyId x) s = Some x" "kt_findByPublicKey createSshKeyStore key s = None"
    using assms(9-12) by (simp_all add: InMemorySshKeyStore_def createSshKeyStore_def)
  note mt = mks.owner_replaced [OF m(1) y(3)] and st = sks.owner_replaced [OF s(1) y(3)]
  have del: "ssh_key_delete now kv owner_data ks (sk_keyId x) k = (Inl (problem 404 ''SSH key not found''), k)"
      "snd (ssh_key_delete now kv data ks (sk_keyId x) k) = kt_delete ks (sk_keyId x) k"
    if "kt_findById ks (sk_keyId x) k = Some y" for ks :: "'x key_store" and k
    using assms(1-4) that y by (simp_all add: ssh_key_delete_def)
  have "kt_findById InMemorySshKeyStore (sk_keyId x) (kt_save InMemorySshKeyStore y m) = Some y"
    "kt_findById createSshKeyStore (sk_keyId x) (kt_save createSshKeyStore y s) = Some y"
    using mt(1) st(1) assms(3) y(1) by simp_all
  with mt(2) st(2) post [OF m(2)] post [OF s(2)] del y assms(3) show ?thesis
    by (intro exI [of _ y] exI [of _ "kt_save InMemorySshKeyStore y m"] exI [of _ "kt_save createSshKeyStore y s"])
      (simp add: del InMemorySshKeyStore_def createSshKeyStore_def)
qed


definition ex_session :: "string \<Rightarrow> session_data" where
  "ex_session e = [(''userId'', JStr e)]"

lemma ex_session_simps [simp]: "getAppSession t kv (ex_session e) = ex_session e" "e \<noteq> [] \<Longrightarrow> session_email (ex_session e) = Some e"
  "member (ex_session e) ''userId'' = JStr e" "member (ex_session e) ''qrChannelId'' = JUndef"
  by (simp_all add: ex_session_def session_email_def getAppSession_def member_def is_js_string_def)

lemma eve_parts: "js_trim ''ssh-ed25519 AAAA eve'' = ''ssh-ed25519 AAAA eve''" "key_parts ''ssh-ed25519 AAAA eve'' = [''ssh-ed25519'', ''AAAA'', ''eve'']"
  "js_trim ''ssh-ed25519 AAAA'' = ''ssh-ed25519 AAAA''" "key_parts ''ssh-ed25519 AAAA'' = [''ssh-ed25519'', ''AAAA'']"
  by code_simp+

theorem key_record_taken_witness:
  "\<exists>y m1. ssh_keys_post ex_ke 5 empty_storage (ex_session ''eve'') InMemorySshKeyStore (Some ''ssh-ed25519 AAAA eve'') None [(''id1'', ex_ssh ''ada'' [])] = (Inr y, m1) \<and>
     ssh_key_delete 5 empty_storage (ex_session ''ada'') InMemorySshKeyStore ''id1'' m1 = (Inl (problem 404 ''SSH key not found''), m1) \<and>
     ssh_findById ''id1'' (snd (ssh_key_delete 5 empty_storage (ex_session ''eve'') InMemorySshKeyStore ''id1'' m1)) = None"
proof -
  have r: "parseSSHEd25519PublicKey ex_ke ''ssh-ed25519 AAAA eve'' \<noteq> None" using ex_ssh_readable [OF eve_parts(2)] by simp
  note t = key_record_taken [of 5 empty_storage "ex_session ''eve''" "''eve''" "ex_session ''ada''" "ex_ssh ''ada'' []" "''ssh-ed25519 AAAA eve''" ex_ke
      "[(''id1'', ex_ssh ''ada'' [])]" "\<lparr>ss_keys = [(''id1'', ex_ssh ''ada'' [])], ss_index = [(''ada'', [''id1''])]\<rparr>" None]
  have "ke_key_id ex_ke (ke_b64 ex_ke ''AAAA'') = ''id1''" by (simp add: ex_ke_def)
  with t r show ?thesis by (auto simp: eve_parts ssh_findById_def ssh_findByPublicKey_def stored_findById_def stored_findByPublicKey_def)
qed

text \<open>What a session login leaves in the cookie of a browser that had none.\<close>

lemma fresh_login:
  assumes "key_login (any_signature ke) other now users ks k b cs = (Inr u, cs1)"
  shows "session_login_post ke other now users ks k kv [] b cs = (Inr (ex_session (us_email u)), cs1)"
  using assms by (simp add: session_login_post_def ex_session_def getAppSession_def member_def js_truthy_def)

text \<open>
  C35. The limits of a QR session can be left behind: the session registers a key of its own, asks for a challenge and signs in with it. What it gets
  names the same account, carries no channel, and no removal of the QR session's record and no passing of time ends it.
\<close>

theorem kiosk_escapes:
  assumes "getAppSession now kv d = d" "session_email d = Some e" "member d ''qrChannelId'' = JStr i" "ssh_ids_ok k"
    "findByEmail e users = Some u" "us_isActive u" "us_email u = e" "key \<noteq> []" "js_trim key = key" "parseSSHEd25519PublicKey ke key \<noteq> None"
    "ssh_findByPublicKey key k = None" "lb_id b = e" "lb_challenge b \<noteq> []" "lb_signature b \<noteq> []" "lb_public_key b = Some key"
    "any_signature ke b key = Some True"
  shows "\<exists>x k1 cs1 cs2 d2. ssh_keys_post ke now kv d InMemorySshKeyStore (Some key) name k = (Inr x, k1) \<and>
    challenge_post now (lb_challenge b) users InMemorySshKeyStore k1 e cs = (Inr (lb_challenge b), cs1) \<and>
    session_login_post ke (\<lambda>s. s) now users InMemorySshKeyStore k1 kv [] b cs1 = (Inr d2, cs2) \<and>
    session_email d2 = Some e \<and> member d2 ''qrChannelId'' = JUndef \<and> (\<forall>t kv2. getAppSession t kv2 d2 = d2)"
proof -
  obtain x where x: "ssh_keys_post ke now kv d InMemorySshKeyStore (Some key) name k = (Inr x, kt_save InMemorySshKeyStore x k)"
    "sk_userEmail x = e" "sk_publicKey x = key"
    using assms(1,2,8-11) by (simp add: ssh_keys_post_def Let_def truthy_str_def InMemorySshKeyStore_def)
  let ?k = "kt_save InMemorySshKeyStore x k"
  have found: "kt_findByPublicKey InMemorySshKeyStore key ?k = Some x" "kt_findByUser InMemorySshKeyStore e ?k \<noteq> []"
    using mks.saved_found [OF assms(4), of x] assms(11) x(2,3) by (auto simp: InMemorySshKeyStore_def)
  have e: "e \<noteq> []" using assms(2) by (auto simp: session_email_def split: jsval.splits if_splits)
  let ?cs = "AList.update (lb_challenge b) \<lparr>ch_entityId = e, ch_expiresAt = now + 300000\<rparr> cs"
  have c: "challenge_post now (lb_challenge b) users InMemorySshKeyStore ?k e cs = (Inr (lb_challenge b), ?cs)"
    using e assms(5,6) found(2) by (simp add: challenge_post_def grant_createChallenge_def)
  obtain cs2 where "key_login (any_signature ke) (\<lambda>s. s) now users InMemorySshKeyStore ?k b ?cs = (Inr u, cs2)"
    using e assms(5,6,8,12-16) found(1) x(2,3) by (simp add: key_login_def login_keys_def truthy_str_def grant_consumeChallenge_def update_conv')
  from fresh_login [OF this, of kv] x(1) c assms(7) e show ?thesis
    by (intro exI [of _ x] exI [of _ ?k] exI [of _ ?cs] exI [of _ cs2] exI [of _ "ex_session e"]) simp
qed

text \<open>
  An agent's key opens a browser session as well as an agent's token: the session names the agent, and approves the sign-in of another machine,
  which the endpoint reserves for people "by construction".
\<close>

theorem agent_opens_session:
  assumes "session_login_post ke other now users InMemorySshKeyStore k kv [] b cs = (Inr d, cs1)" "findByEmail (lb_id b) users = Some u"
    "us_email u \<noteq> []" "us_type u = Some Agent" "QR_TOKEN_ok i" "live_channel t i kv2 = Some c" "qc_state c = QrPending"
  shows "session_email d = Some (us_email u) \<and> (\<exists>kv3. qr_approve t d i (\<lambda>s. s) kv2 = (Inr (), kv3)) \<and>
    (\<forall>issuer at. fst (authenticate_post ke issuer other now users InMemorySshKeyStore k b cs) = Inr at \<longrightarrow> at_act at = Agent)"
proof -
  obtain v where v: "key_login (any_signature ke) other now users InMemorySshKeyStore k b cs = (Inr v, cs1)"
    using assms(1) by (auto simp: session_login_post_def split: prod.splits sum.splits)
  with key_loginD [OF v] assms(2) have "v = u" by auto
  with fresh_login [OF v, of kv] assms(1) have d: "d = ex_session (us_email u)" by simp
  have l: "logged_in d" using assms(3) by (simp add: d logged_in_def js_truthy_def)
  have "at_act at = Agent" if "fst (authenticate_post ke issuer other now users InMemorySshKeyStore k b cs) = Inr at" for issuer at
  proof -
    from that obtain w cs2 where w: "key_login (plain_signature ke) other now users InMemorySshKeyStore k b cs = (Inr w, cs2)"
      "at = issueAuthToken now issuer (us_email w) (actor_of w) None"
      by (auto simp: authenticate_post_def split: prod.splits sum.splits)
    with key_loginD [OF w(1)] assms(2,4) show ?thesis by (auto simp: issueAuthToken_def actor_of_def nullish_def Let_def)
  qed
  moreover have "\<exists>kv3. qr_approve t d i (\<lambda>s. s) kv2 = (Inr (), kv3)"
    using assms(5-7) l by (simp add: qr_approve_def Let_def d js_truthy_def)
  ultimately show ?thesis using assms(3) by (simp add: d)
qed

theorem kiosk_escapes_witness:
  "\<exists>x k1 cs1 cs2 d2. ssh_keys_post ex_ke 5 (empty_storage\<lparr>gk_qr_sessions := [(''q'', \<lparr>qs_userId = JStr ''ada'', qs_requester = \<lparr>qr_ip = [], qr_userAgent = []\<rparr>,
       qs_createdAt = 0, qs_expiresAt = 3600000\<rparr>)]\<rparr>) [(''userId'', JStr ''ada''), (''qrChannelId'', JStr ''q''), (''qrExpiresAt'', JInt 3600000)]
       InMemorySshKeyStore (Some ''ssh-ed25519 AAAA'') None [] = (Inr x, k1) \<and>
     session_login_post ex_ke (\<lambda>s. s) 5 ex_users InMemorySshKeyStore k1 empty_storage [] (ex_login ''ada''\<lparr>lb_public_key := Some ''ssh-ed25519 AAAA''\<rparr>) cs1 = (Inr d2, cs2) \<and>
     getAppSession 9999999 empty_storage d2 = d2 \<and> session_email d2 = Some ''ada''"
proof -
  let ?kv = "empty_storage\<lparr>gk_qr_sessions := [(''q'', \<lparr>qs_userId = JStr ''ada'', qs_requester = \<lparr>qr_ip = [], qr_userAgent = []\<rparr>, qs_createdAt = 0, qs_expiresAt = 3600000\<rparr>)]\<rparr>"
  let ?d = "[(''userId'', JStr ''ada''), (''qrChannelId'', JStr ''q''), (''qrExpiresAt'', JInt 3600000)]"
  let ?b = "ex_login ''ada''\<lparr>lb_public_key := Some ''ssh-ed25519 AAAA''\<rparr>"
  have d: "getAppSession 5 ?kv ?d = ?d" "session_email ?d = Some ''ada''" "member ?d ''qrChannelId'' = JStr ''q''"
    by (simp_all add: getAppSession_def session_email_def member_def js_truthy_def is_js_string_def)
  have r: "parseSSHEd25519PublicKey ex_ke ''ssh-ed25519 AAAA'' \<noteq> None" using ex_ssh_readable [OF eve_parts(4)] by simp
  have "any_signature ex_ke ?b ''ssh-ed25519 AAAA'' = any_signature ex_ke (ex_login ''ada'') ''ssh-ed25519 AAAA''"
    by (simp add: any_signature_def Let_def)
  then have s: "any_signature ex_ke ?b ''ssh-ed25519 AAAA'' = Some True" using ex_verifies(2) [of "''ada''" "''ada''"] by simp
  obtain x k1 cs1 cs2 d2 where "ssh_keys_post ex_ke 5 ?kv ?d InMemorySshKeyStore (Some ''ssh-ed25519 AAAA'') None [] = (Inr x, k1)"
    "session_login_post ex_ke (\<lambda>s. s) 5 ex_users InMemorySshKeyStore k1 ?kv [] ?b cs1 = (Inr d2, cs2)"
    "session_email d2 = Some ''ada''" "\<forall>t kv2. getAppSession t kv2 d2 = d2"
    using kiosk_escapes [OF d, of "[]" ex_users "ex_user ''ada'' None None" "''ssh-ed25519 AAAA''" ex_ke ?b None "[]"] r s
    by (auto simp: ssh_ids_ok_def ex_user_def eve_parts ssh_findByPublicKey_def ex_login_def)
  moreover have "session_login_post ex_ke (\<lambda>s. s) 5 ex_users InMemorySshKeyStore k1 empty_storage [] ?b cs1 =
      session_login_post ex_ke (\<lambda>s. s) 5 ex_users InMemorySshKeyStore k1 ?kv [] ?b cs1"
    by (simp add: session_login_post_def getAppSession_def member_def js_truthy_def split: prod.splits sum.splits)
  ultimately show ?thesis by metis
qed

theorem agent_opens_session_witness:
  "\<exists>d cs1 kv3. session_login_post ex_ke (\<lambda>s. s) 5 ex_users InMemorySshKeyStore [(''id1'', ex_ssh ''bot'' [])] empty_storage [] (ex_login ''bot'') (ex_challenge ''bot'') = (Inr d, cs1) \<and>
     session_email d = Some ''bot'' \<and>
     qr_approve 6 d (hex64 (CHR ''a'')) (\<lambda>s. s) (empty_storage\<lparr>gk_channels := [(hex64 (CHR ''a''), one_channel QrPending None)]\<rparr>) = (Inr (), kv3)"
proof -
  have u: "us_isActive (ex_user ''bot'' (Some ''ada'') (Some Agent))" by (simp add: ex_user_def)
  note login = fresh_login [OF ex_ssh_login [of "''bot''" ex_users _ "any_signature ex_ke", OF ex_found(1) u ex_verifies(2)], of empty_storage]
  have l: "live_channel 6 (hex64 (CHR ''a'')) (empty_storage\<lparr>gk_channels := [(hex64 (CHR ''a''), one_channel QrPending None)]\<rparr>) = Some (one_channel QrPending None)"
    by (simp add: live_channel_def) (simp add: one_channel_def)
  have "session_login_post ex_ke (\<lambda>s. s) 5 ex_users InMemorySshKeyStore [(''id1'', ex_ssh ''bot'' [])] empty_storage [] (ex_login ''bot'') (ex_challenge ''bot'') = (Inr (ex_session ''bot''), [])"
    using login by (simp add: ex_user_def)
  from this agent_opens_session [OF this _ _ _ hex64_ok l] show ?thesis
    by (auto simp: ex_login_def ex_user_def one_channel_def)
qed

end
