(* ===== verification/RateLimit.thy ===== *)
theory RateLimit
  imports GrantAuthority "HOL-Library.Word"
begin

unbundle bit_operations_syntax

text \<open>
  The rate limits of the identity provider: \<open>plugins/rate-limit.ts\<close> counts the requests of an address per kind of traffic in windows of a
  minute, \<open>utils/authorize-rate-limit.ts\<close> the program calls of a proven requester. Times are milliseconds; an IPv4 address is a 32-bit word. The
  headers of an answer that are not about the limit, and the page a browser gets, are left out.
\<close>

section \<open>Numbers in text\<close>

text \<open>\<open>Number(s)\<close> where it is an integer, \<open>None\<close> otherwise; decimals are exact and what exceeds a double is infinite.\<close>

definition digit_value :: "char \<Rightarrow> nat" where
  "digit_value c = (let n = of_char (lower_char c) in if 48 \<le> n \<and> n \<le> 57 then n - 48 else if 97 \<le> n \<and> n \<le> 102 then n - 87 else 99)"

definition radix_number :: "nat \<Rightarrow> string \<Rightarrow> int option" where
  "radix_number b s = (if s \<noteq> [] \<and> list_all (\<lambda>c. digit_value c < b) s then Some (int (foldl (\<lambda>n c. n * b + digit_value c) 0 s)) else None)"

definition js_sign :: "string \<Rightarrow> bool \<times> string" where
  "js_sign s = (case s of [] \<Rightarrow> (False, s) | c # cs \<Rightarrow> if c = CHR ''-'' then (True, cs) else if c = CHR ''+'' then (False, cs) else (False, s))"

definition js_exponent :: "string \<Rightarrow> int option" where
  "js_exponent s = (case s of [] \<Rightarrow> Some 0
     | c # cs \<Rightarrow> if lower_char c \<noteq> CHR ''e'' then None
       else (case js_sign cs of (neg, ds) \<Rightarrow> if ds \<noteq> [] \<and> list_all is_digit ds
         then Some (if neg then - int (nat_of_digits ds) else int (nat_of_digits ds)) else None))"

definition decimal_number :: "string \<Rightarrow> int option" where
  "decimal_number s = (case js_sign s of (neg, u) \<Rightarrow>
     let whole = takeWhile is_digit u; r1 = dropWhile is_digit u; point = (r1 \<noteq> [] \<and> hd r1 = CHR ''.'');
         part = (if point then takeWhile is_digit (tl r1) else []); r2 = (if point then dropWhile is_digit (tl r1) else r1);
         n = nat_of_digits (whole @ part) in
     if whole @ part = [] then None
     else case js_exponent r2 of None \<Rightarrow> None
     | Some e \<Rightarrow> let scale = e - int (length part) in
         if n = 0 then Some 0 else if scale > 308 then None
         else let v = (if 0 \<le> scale then Some (int n * 10 ^ nat scale) else if 10 ^ nat (- scale) dvd int n then Some (int n div 10 ^ nat (- scale)) else None) in
           map_option (\<lambda>i. if neg then - i else i) v)"

definition number_int :: "string \<Rightarrow> int option" where
  "number_int s = (let t = js_trim s; p = to_lower (take 2 t) in
     if t = [] then Some 0
     else if p = ''0x'' then radix_number 16 (drop 2 t) else if p = ''0o'' then radix_number 8 (drop 2 t)
     else if p = ''0b'' then radix_number 2 (drop 2 t) else decimal_number t)"

section \<open>Addresses\<close>

fun shift_octets :: "32 word \<Rightarrow> string list \<Rightarrow> 32 word option" where
  "shift_octets n [] = Some n"
| "shift_octets n (p # ps) = (case number_int p of None \<Rightarrow> None
     | Some x \<Rightarrow> if x < 0 \<or> x > 255 then None else shift_octets (push_bit 8 n OR word_of_int x) ps)"

definition ipv4ToInt :: "string \<Rightarrow> 32 word option" where
  "ipv4ToInt ip = (let parts = split_on (CHR ''.'') ip in if length parts \<noteq> 4 then None else shift_octets 0 parts)"

definition prefix_mask :: "nat \<Rightarrow> 32 word" where
  "prefix_mask prefix = (push_bit (32 - prefix) 1 - 1) XOR 0xFFFFFFFF"

definition ipMatches :: "string \<Rightarrow> string \<Rightarrow> bool" where
  "ipMatches ip cidr = (if cidr = ip then True
     else if CHR ''/'' \<notin> set cidr then False
     else let parts = split_on (CHR ''/'') cidr; base = parts ! 0; prefixStr = parts ! 1 in
       if base = [] \<or> prefixStr = [] then False
       else (case number_int prefixStr of None \<Rightarrow> False
         | Some p \<Rightarrow> if p < 0 \<or> p > 32 then False
             else (case (ipv4ToInt ip, ipv4ToInt base) of (Some a, Some b) \<Rightarrow>
                 if p = 0 then True else (a AND prefix_mask (nat p)) = (b AND prefix_mask (nat p))
               | _ \<Rightarrow> False)))"

definition ipInTrustedList :: "string \<Rightarrow> string list \<Rightarrow> bool" where
  "ipInTrustedList ip trusted = list_ex (ipMatches ip) trusted"

definition entries :: "string \<Rightarrow> string list" where
  "entries raw = filter (\<lambda>s. s \<noteq> []) (map js_trim (split_on (CHR '','') raw))"

definition parseTrustedProxies :: "string option \<Rightarrow> string list" where
  "parseTrustedProxies raw = (if truthy_str raw then entries (the raw) else [])"

text \<open>The loop from the right: the first entry that is not a trusted proxy.\<close>

fun first_untrusted :: "string list \<Rightarrow> string list \<Rightarrow> string option" where
  "first_untrusted trusted [] = None"
| "first_untrusted trusted (c # cs) = (if ipInTrustedList c trusted then first_untrusted trusted cs else Some c)"

record net_request =
  nr_peer :: "string option"
  nr_forwarded :: "string list option"
  nr_path :: string

definition resolveClientIp :: "net_request \<Rightarrow> string list \<Rightarrow> string" where
  "resolveClientIp r trusted = (let peer = (if truthy_str (nr_peer r) then the (nr_peer r) else ''unknown'') in
     if trusted = [] then peer
     else if peer = ''unknown'' then peer
     else if \<not> ipInTrustedList peer trusted then peer
     else case nr_forwarded r of None \<Rightarrow> peer
     | Some values \<Rightarrow> let xff = join '','' values in
         if xff = [] then peer else nullish (first_untrusted trusted (rev (entries xff))) peer)"

section \<open>Windows\<close>

definition WINDOW_MS :: int where "WINDOW_MS = 60000"

definition CLEANUP_INTERVAL_MS :: int where "CLEANUP_INTERVAL_MS = 300000"

record rate_entry =
  re_count :: nat
  re_resetAt :: int

record limiter =
  li_store :: "(string \<times> rate_entry) list"
  li_lastCleanup :: int

definition rate_cleanup :: "int \<Rightarrow> limiter \<Rightarrow> limiter" where
  "rate_cleanup now s = (if now - li_lastCleanup s < CLEANUP_INTERVAL_MS then s
     else s\<lparr>li_lastCleanup := now, li_store := filter (\<lambda>(k, e). \<not> re_resetAt e \<le> now) (li_store s)\<rparr>)"

definition charge :: "string \<Rightarrow> int \<Rightarrow> limiter \<Rightarrow> rate_entry \<times> limiter" where
  "charge key now s = (let entry = (case map_of (li_store s) key of None \<Rightarrow> \<lparr>re_count = 0, re_resetAt = now + WINDOW_MS\<rparr>
       | Some e \<Rightarrow> if re_resetAt e \<le> now then \<lparr>re_count = 0, re_resetAt = now + WINDOW_MS\<rparr> else e);
     e1 = entry\<lparr>re_count := re_count entry + 1\<rparr> in (e1, s\<lparr>li_store := AList.update key e1 (li_store s)\<rparr>))"

definition retry_after :: "int \<Rightarrow> rate_entry \<Rightarrow> int" where
  "retry_after now e = (re_resetAt e - now + 999) div 1000"

section \<open>The limiter of requests\<close>

definition max_setting :: "string option \<Rightarrow> nat \<Rightarrow> nat" where
  "max_setting raw d = (case raw of None \<Rightarrow> d | Some v \<Rightarrow> (case number_int v of None \<Rightarrow> d | Some n \<Rightarrow> if n > 0 then nat n else d))"

record rate_config =
  rc_e2e :: bool
  rc_trusted :: "string list"
  rc_maxAuth :: nat
  rc_maxAgent :: nat
  rc_maxManagement :: nat
  rc_maxQr :: nat

record rate_environment =
  rv_e2e :: "string option"
  rv_proxies :: "string option"
  rv_auth :: "string option"
  rv_agent :: "string option"
  rv_management :: "string option"
  rv_qr :: "string option"

definition rate_settings :: "rate_environment \<Rightarrow> rate_config" where
  "rate_settings v = \<lparr>rc_e2e = (rv_e2e v = Some ''1''), rc_trusted = parseTrustedProxies (rv_proxies v), rc_maxAuth = max_setting (rv_auth v) 10,
     rc_maxAgent = max_setting (rv_agent v) 120, rc_maxManagement = max_setting (rv_management v) 60, rc_maxQr = max_setting (rv_qr v) 90\<rparr>"

text \<open>A prefix of the path that ends at a word boundary.\<close>

definition path_prefix :: "string \<Rightarrow> string \<Rightarrow> bool" where
  "path_prefix path p = (starts_with path p \<and> (case drop (length p) path of [] \<Rightarrow> True | c # _ \<Rightarrow> \<not> is_word_char c))"

definition RE_AUTH_PATHS :: "string \<Rightarrow> bool" where
  "RE_AUTH_PATHS path = list_ex (path_prefix path) [''/api/session'', ''/api/auth'', ''/api/agent'', ''/api/webauthn'', ''/api/enroll'', ''/api/register'',
     ''/api/my-agents'', ''/api/push'', ''/api/users'', ''/api/grants'', ''/authorize'', ''/token'']"

definition RE_AGENT_PATHS :: "string \<Rightarrow> bool" where
  "RE_AGENT_PATHS path = list_ex (path_prefix path) [''/api/agent'', ''/api/grants'', ''/token'']"

definition RE_MANAGEMENT_PATHS :: "string \<Rightarrow> bool" where
  "RE_MANAGEMENT_PATHS path = list_ex (path_prefix path) [''/api/my-agents'', ''/api/users'']"

definition RE_QR_PATHS :: "string \<Rightarrow> bool" where
  "RE_QR_PATHS path = path_prefix path ''/api/session/qr''"

definition RE_SUBJECT_LIMITED_PATHS :: "string \<Rightarrow> bool" where
  "RE_SUBJECT_LIMITED_PATHS path = (starts_with path ''/api/grants/authorize'' \<and>
     (case drop (length ''/api/grants/authorize'') path of [] \<Rightarrow> True | c # _ \<Rightarrow> c = CHR ''?''))"

definition bucket_of :: "rate_config \<Rightarrow> string \<Rightarrow> string \<times> nat" where
  "bucket_of cfg path = (if RE_QR_PATHS path then (''qr'', rc_maxQr cfg)
     else if RE_AGENT_PATHS path then (''agent'', rc_maxAgent cfg)
     else if RE_MANAGEMENT_PATHS path then (''mgmt'', rc_maxManagement cfg)
     else (''auth'', rc_maxAuth cfg))"

datatype rate_answer = NotLimited | Admitted nat int | TooMany int

definition rate_limit :: "rate_config \<Rightarrow> int \<Rightarrow> net_request \<Rightarrow> limiter \<Rightarrow> rate_answer \<times> limiter" where
  "rate_limit cfg now r s = (if rc_e2e cfg then (NotLimited, s)
     else if \<not> RE_AUTH_PATHS (nr_path r) \<or> RE_SUBJECT_LIMITED_PATHS (nr_path r) then (NotLimited, s)
     else case bucket_of cfg (nr_path r) of (bucket, maxRequests) \<Rightarrow>
       (case charge (resolveClientIp r (rc_trusted cfg) @ '':'' @ bucket) now (rate_cleanup now s) of (entry, s1) \<Rightarrow>
         (if re_count entry > maxRequests then TooMany (retry_after now entry) else Admitted (maxRequests - re_count entry) (re_resetAt entry), s1)))"

definition chargeUnauthenticatedRequest :: "rate_config \<Rightarrow> int \<Rightarrow> net_request \<Rightarrow> limiter \<Rightarrow> rate_answer \<times> limiter" where
  "chargeUnauthenticatedRequest cfg now r s = (if rc_e2e cfg then (NotLimited, s)
     else (case charge (resolveClientIp r (rc_trusted cfg) @ '':agent'') now (rate_cleanup now s) of (entry, s1) \<Rightarrow>
       (if re_count entry \<le> rc_maxAgent cfg then Admitted (rc_maxAgent cfg - re_count entry) (re_resetAt entry) else TooMany (retry_after now entry), s1)))"

section \<open>The limit of program calls\<close>

definition enforceAuthorizeRateLimit :: "string option \<Rightarrow> int \<Rightarrow> string \<Rightarrow> limiter \<Rightarrow> rate_answer \<times> limiter" where
  "enforceAuthorizeRateLimit raw now subject s = (let limit = max_setting raw 600 in
     case charge subject now (rate_cleanup now s) of (entry, s1) \<Rightarrow>
       (if re_count entry \<le> limit then Admitted (limit - re_count entry) (re_resetAt entry) else TooMany (retry_after now entry), s1))"


section \<open>Prefixes of addresses\<close>

lemma prefix_mask_bit:
  assumes "p \<le> 32"
  shows "bit (prefix_mask p) n \<longleftrightarrow> 32 - p \<le> n \<and> n < 32"
proof -
  have m: "push_bit (32 - p) (1 :: 32 word) - 1 = mask (32 - p)"
    by (simp add: mask_eq_decr_exp push_bit_eq_mult)
  have f: "(0xFFFFFFFF :: 32 word) = - 1" by simp
  have "prefix_mask p = NOT (mask (32 - p))"
    unfolding prefix_mask_def m f by (rule bit_word_eqI) (simp add: bit_simps)
  then show ?thesis by (auto simp: bit_simps)
qed

lemma masked_eq:
  assumes "p \<le> 32"
  shows "(a AND prefix_mask p) = (b AND prefix_mask p) \<longleftrightarrow> drop_bit (32 - p) a = drop_bit (32 - p) (b :: 32 word)"
proof
  assume l: "(a AND prefix_mask p) = (b AND prefix_mask p)"
  have "bit a n = bit b n" if "32 - p \<le> n" for n
  proof (cases "n < 32")
    case True
    with that assms arg_cong [OF l, of "\<lambda>x. bit x n"] show ?thesis by (simp add: bit_and_iff prefix_mask_bit)
  next
    case False
    then show ?thesis by (auto dest: bit_imp_le_length)
  qed
  then show "drop_bit (32 - p) a = drop_bit (32 - p) b" by (intro bit_word_eqI) (simp add: bit_drop_bit_eq)
next
  assume r: "drop_bit (32 - p) a = drop_bit (32 - p) b"
  have "bit a n = bit b n" if "32 - p \<le> n" for n
  proof -
    have "bit (drop_bit (32 - p) a) (n - (32 - p)) = bit (drop_bit (32 - p) b) (n - (32 - p))" using r by simp
    with that show ?thesis by (simp add: bit_drop_bit_eq)
  qed
  with assms show "(a AND prefix_mask p) = (b AND prefix_mask p)"
    by (intro bit_word_eqI) (auto simp: bit_and_iff prefix_mask_bit)
qed

lemma digits_of_ok: "digits_of n \<noteq> [] \<and> list_all is_digit (digits_of n)"
proof (induction n rule: less_induct)
  case (less n)
  show ?case
  proof (cases "n < 10")
    case True
    then have "digits_of n = [char_of (48 + n)]" by (subst digits_of.simps) simp
    with True show ?thesis by (simp add: is_digit_def Let_def)
  next
    case False
    then have "n div 10 < n" by simp
    from less [OF this] have "list_all is_digit (digits_of (n div 10))" by simp
    moreover have "digits_of n = digits_of (n div 10) @ [char_of (48 + n mod 10)]" using False by (subst digits_of.simps) simp
    moreover have "n mod 10 < 10" by simp
    then have "is_digit (char_of (48 + n mod 10))" by (simp add: is_digit_def Let_def)
    ultimately show ?thesis by simp
  qed
qed

lemma nat_of_digits_snoc: "nat_of_digits (s @ [c]) = 10 * nat_of_digits s + (of_char c - 48)"
  by (simp add: nat_of_digits_def)

lemma nat_of_digits_of: "nat_of_digits (digits_of n) = n"
proof (induction n rule: less_induct)
  case (less n)
  show ?case
  proof (cases "n < 10")
    case True
    then show ?thesis by (subst digits_of.simps) (simp add: nat_of_digits_def)
  next
    case False
    then have d: "n div 10 < n" by simp
    have "digits_of n = digits_of (n div 10) @ [char_of (48 + n mod 10)]" using False by (subst digits_of.simps) simp
    then show ?thesis using less [OF d] by (simp add: nat_of_digits_snoc) 
  qed
qed

lemma digit_not_space: "is_digit c \<Longrightarrow> \<not> is_space c"
  by (auto simp: is_digit_def is_space_def Let_def)

lemma trim_digits: "list_all is_digit s \<Longrightarrow> js_trim s = s"
proof -
  assume d: "list_all is_digit s"
  have "dropWhile is_space s = s" if "list_all is_digit s" for s
    using that by (cases s) (simp_all add: digit_not_space)
  with d have "dropWhile is_space s = s" "dropWhile is_space (rev s) = rev s" by (simp_all add: list_all_rev)
  then show ?thesis by (simp add: js_trim_def)
qed

lemma digit_lower: "is_digit c \<Longrightarrow> lower_char c = c"
  by (auto simp: is_digit_def lower_char_def Let_def)

lemma number_of_digits:
  assumes "list_all is_digit s" "s \<noteq> []"
  shows "number_int s = Some (int (nat_of_digits s))"
proof -
  have w: "takeWhile is_digit s = s" "dropWhile is_digit s = []" using assms(1) by (simp_all add: list_all_iff)
  obtain c cs where s: "s = c # cs" using assms(2) by (cases s) auto
  have c: "is_digit c" using assms(1) s by simp
  have no: "c \<noteq> CHR ''-''" "c \<noteq> CHR ''+''" using c by (auto simp: is_digit_def)
  have p: "to_lower (take 2 s) = take 2 s" using assms(1) by (auto simp: to_lower_def list_all_iff digit_lower intro!: map_idI dest: in_set_takeD)
  have "take 2 s \<noteq> [CHR ''0'', x]" if "\<not> is_digit x" for x
    using assms(1) that s by (cases cs) auto
  then have q: "take 2 s \<noteq> ''0x''" "take 2 s \<noteq> ''0o''" "take 2 s \<noteq> ''0b''" by (simp_all add: is_digit_def)
  have "js_sign s = (False, s)" using s no by (simp add: js_sign_def)
  then have "decimal_number s = Some (int (nat_of_digits s))"
    using assms(2) by (simp add: decimal_number_def w js_exponent_def Let_def)
  then show ?thesis using assms p q by (simp add: number_int_def trim_digits)
qed

text \<open>
  A range with a prefix length admits exactly the addresses that agree with its base on that many leading bits, for every length from 0 to 32.
\<close>

theorem cidr_prefix:
  assumes "ipv4ToInt ip = Some a" "ipv4ToInt base = Some b" "CHR ''/'' \<notin> set base" "base \<noteq> []" "p \<le> 32" "CHR ''/'' \<notin> set ip"
  shows "ipMatches ip (base @ CHR ''/'' # digits_of p) \<longleftrightarrow> drop_bit (32 - p) a = drop_bit (32 - p) b"
proof -
  have d: "digits_of p \<noteq> []" "list_all is_digit (digits_of p)" using digits_of_ok [of p] by simp_all
  then have "CHR ''/'' \<notin> set (digits_of p)" by (auto simp: list_all_iff is_digit_def)
  then have parts: "split_on (CHR ''/'') (base @ CHR ''/'' # digits_of p) = [base, digits_of p]"
    using assms(3) by (simp add: split_on_append_sep split_on_no_sep)
  have n: "number_int (digits_of p) = Some (int p)" using number_of_digits [OF d(2,1)] by (simp add: nat_of_digits_of)
  have "base @ CHR ''/'' # digits_of p \<noteq> ip" using assms(6) by auto
  then have "ipMatches ip (base @ CHR ''/'' # digits_of p) = (p = 0 \<or> (a AND prefix_mask p) = (b AND prefix_mask p))"
    using assms(1,2,4,5) d(1) n by (simp add: ipMatches_def parts)
  moreover have "drop_bit 32 x = 0" for x :: "32 word" by (rule bit_word_eqI) (auto simp: bit_drop_bit_eq dest: bit_imp_le_length)
  ultimately show ?thesis using masked_eq [OF assms(5), of a b] by (cases "p = 0") simp_all
qed


theorem cidr_prefix_witness:
  "ipMatches ''10.1.200.7'' ''10.1.128.0/17'' \<and> \<not> ipMatches ''10.1.100.7'' ''10.1.128.0/17''"
proof -
  have a: "ipv4ToInt ''10.1.200.7'' = Some 0x0A01C807" "ipv4ToInt ''10.1.100.7'' = Some 0x0A016407" "ipv4ToInt ''10.1.128.0'' = Some 0x0A018000"
    by code_simp+
  have d: "digits_of 17 = ''17''" by code_simp
  have "drop_bit 15 (0x0A01C807 :: 32 word) = drop_bit 15 0x0A018000" "drop_bit 15 (0x0A016407 :: 32 word) \<noteq> drop_bit 15 0x0A018000"
    by code_simp+
  then show ?thesis using cidr_prefix [OF a(1,3), of 17] cidr_prefix [OF a(2,3), of 17] by (simp add: d)
qed

section \<open>The client behind the proxies\<close>

lemma split_on_append: "split_on x (a @ x # b) = split_on x a @ split_on x b"
proof (induction a)
  case (Cons c a)
  then show ?case by (cases "split_on x a") (auto split: list.splits)
qed simp

lemma entries_append: "entries (a @ CHR '','' # b) = entries a @ entries b"
  by (simp add: entries_def split_on_append)

lemma first_untrusted_append: "first_untrusted t (xs @ ys) = (case first_untrusted t xs of None \<Rightarrow> first_untrusted t ys | Some x \<Rightarrow> Some x)"
  by (induction xs) auto

lemma first_untrusted_split: "first_untrusted t xs = Some c \<Longrightarrow> \<exists>a b. xs = a @ c # b \<and> \<not> ipInTrustedList c t \<and> list_all (\<lambda>x. ipInTrustedList x t) a"
proof (induction xs)
  case (Cons x xs)
  show ?case
  proof (cases "ipInTrustedList x t")
    case True
    with Cons obtain a b where "xs = a @ c # b" "\<not> ipInTrustedList c t" "list_all (\<lambda>x. ipInTrustedList x t) a" by auto
    with True have "x # xs = (x # a) @ c # b" "list_all (\<lambda>x. ipInTrustedList x t) (x # a)" by simp_all
    with \<open>\<not> ipInTrustedList c t\<close> show ?thesis by blast
  next
    case False
    with Cons.prems have "x # xs = [] @ c # xs" by simp
    with False Cons.prems show ?thesis by (metis append_Nil first_untrusted.simps(2) list.pred_inject(1) option.inject)
  qed
qed simp

lemma first_untrusted_None: "first_untrusted t xs = None \<longleftrightarrow> list_all (\<lambda>x. ipInTrustedList x t) xs"
  by (induction xs) auto

text \<open>
  C37. A peer that is no trusted proxy is counted itself whatever header it sends. Behind a trusted peer the client is the right-most forwarded entry
  that is no trusted proxy, and what stands to the left of it is without effect: when the proxies appended such an entry, no text in front of what
  they appended changes the bucket. When they appended none - the client itself has an address in a trusted range - its own text decides.
\<close>

theorem forged_chain_ignored:
  assumes "truthy_str (nr_peer r)"
  shows "(\<not> (ipInTrustedList (the (nr_peer r)) trusted \<and> nr_peer r \<noteq> Some ''unknown'') \<longrightarrow>
      (\<forall>header. resolveClientIp (r\<lparr>nr_forwarded := header\<rparr>) trusted = the (nr_peer r))) \<and>
    (ipInTrustedList (the (nr_peer r)) trusted \<and> nr_peer r \<noteq> Some ''unknown'' \<longrightarrow>
      (if \<exists>c \<in> set (entries appended). \<not> ipInTrustedList c trusted
       then \<exists>left c right. entries appended = left @ c # right \<and> \<not> ipInTrustedList c trusted \<and> list_all (\<lambda>x. ipInTrustedList x trusted) right \<and>
         (\<forall>forged. resolveClientIp (r\<lparr>nr_forwarded := Some [forged @ CHR '','' # appended]\<rparr>) trusted = c)
       else \<forall>own. resolveClientIp (r\<lparr>nr_forwarded := Some [own @ CHR '','' # appended]\<rparr>) trusted =
         nullish (first_untrusted trusted (rev (entries own))) (the (nr_peer r))))"
proof -
  let ?P = "ipInTrustedList (the (nr_peer r)) trusted \<and> nr_peer r \<noteq> Some ''unknown''"
  obtain peer where peer: "nr_peer r = Some peer" "peer \<noteq> []" using assms by (cases "nr_peer r") auto
  have none: "\<not> ipInTrustedList x []" for x by (simp add: ipInTrustedList_def)
  have direct: "resolveClientIp (r\<lparr>nr_forwarded := header\<rparr>) trusted = peer" if "\<not> ?P" for header
    using that peer by (auto simp: resolveClientIp_def Let_def)
  have chain: "resolveClientIp (r\<lparr>nr_forwarded := Some [own @ CHR '','' # appended]\<rparr>) trusted =
      (case first_untrusted trusted (rev (entries appended)) of Some c \<Rightarrow> c | None \<Rightarrow> nullish (first_untrusted trusted (rev (entries own))) peer)" if p: ?P for own
  proof -
    have "trusted \<noteq> []" "peer \<noteq> ''unknown''" "ipInTrustedList peer trusted" using p peer none by auto
    then show ?thesis using peer
      by (simp add: resolveClientIp_def Let_def entries_append first_untrusted_append split: option.split)
  qed
  show ?thesis
  proof (cases "first_untrusted trusted (rev (entries appended))")
    case None
    then have "\<not> (\<exists>c \<in> set (entries appended). \<not> ipInTrustedList c trusted)" by (simp add: first_untrusted_None list_all_iff)
    then show ?thesis using direct chain None peer(1) by simp
  next
    case (Some c)
    then obtain a b where ab: "rev (entries appended) = a @ c # b" "\<not> ipInTrustedList c trusted" "list_all (\<lambda>x. ipInTrustedList x trusted) a"
      using first_untrusted_split by blast
    have e: "entries appended = rev b @ c # rev a" using arg_cong [OF ab(1), of rev] by (simp only: rev_rev_ident rev_append rev.simps append_assoc append_Cons append_Nil)
    then have "\<exists>c \<in> set (entries appended). \<not> ipInTrustedList c trusted" using ab(2) by auto
    moreover have "list_all (\<lambda>x. ipInTrustedList x trusted) (rev a)" using ab(3) by (simp add: list_all_iff)
    ultimately have "\<exists>left c right. entries appended = left @ c # right \<and> \<not> ipInTrustedList c trusted \<and> list_all (\<lambda>x. ipInTrustedList x trusted) right \<and>
         (\<forall>forged. resolveClientIp (r\<lparr>nr_forwarded := Some [forged @ CHR '','' # appended]\<rparr>) trusted = c)" if ?P
      using chain [OF that] Some e ab(2) by (intro exI [of _ "rev b"] exI [of _ c] exI [of _ "rev a"]) simp
    with \<open>\<exists>c \<in> set (entries appended). \<not> ipInTrustedList c trusted\<close> direct peer(1) show ?thesis by (simp only: option.sel if_True) blast
  qed
qed

theorem forged_chain_ignored_witness:
  "resolveClientIp \<lparr>nr_peer = Some ''10.0.0.1'', nr_forwarded = Some [''9.9.9.9, 8.8.8.8,5.5.5.5, 10.0.0.2''], nr_path = ''/token''\<rparr> [''10.0.0.0/8''] = ''5.5.5.5'' \<and>
   resolveClientIp \<lparr>nr_peer = Some ''10.0.0.1'', nr_forwarded = Some [''9.9.9.9,10.5.5.5''], nr_path = ''/token''\<rparr> [''10.0.0.0/8''] = ''9.9.9.9''"
proof -
  let ?r = "\<lparr>nr_peer = Some ''10.0.0.1'', nr_forwarded = None, nr_path = ''/token''\<rparr>"
  have p: "ipInTrustedList ''10.0.0.1'' [''10.0.0.0/8'']" "\<not> ipInTrustedList ''5.5.5.5'' [''10.0.0.0/8'']" "ipInTrustedList ''10.0.0.2'' [''10.0.0.0/8'']"
    "ipInTrustedList ''10.5.5.5'' [''10.0.0.0/8'']" by code_simp+
  have e: "entries ''5.5.5.5, 10.0.0.2'' = [''5.5.5.5'', ''10.0.0.2'']" "entries ''10.5.5.5'' = [''10.5.5.5'']" by code_simp+
  have f: "first_untrusted [''10.0.0.0/8''] (rev (entries ''9.9.9.9'')) = Some ''9.9.9.9''" by code_simp
  have "\<exists>left c right. [''5.5.5.5'', ''10.0.0.2''] = left @ c # right \<and> \<not> ipInTrustedList c [''10.0.0.0/8''] \<and>
      list_all (\<lambda>x. ipInTrustedList x [''10.0.0.0/8'']) right \<and>
      (\<forall>forged. resolveClientIp (?r\<lparr>nr_forwarded := Some [forged @ CHR '','' # ''5.5.5.5, 10.0.0.2'']\<rparr>) [''10.0.0.0/8''] = c)"
    using forged_chain_ignored [of ?r "[''10.0.0.0/8'']" "''5.5.5.5, 10.0.0.2''"] p e by simp
  then have "\<forall>forged. resolveClientIp (?r\<lparr>nr_forwarded := Some [forged @ CHR '','' # ''5.5.5.5, 10.0.0.2'']\<rparr>) [''10.0.0.0/8''] = ''5.5.5.5''"
    using p(3) by (auto simp: Cons_eq_append_conv)
  then have a: "resolveClientIp (?r\<lparr>nr_forwarded := Some [''9.9.9.9, 8.8.8.8'' @ CHR '','' # ''5.5.5.5, 10.0.0.2'']\<rparr>) [''10.0.0.0/8''] = ''5.5.5.5''" ..
  have "\<forall>own. resolveClientIp (?r\<lparr>nr_forwarded := Some [own @ CHR '','' # ''10.5.5.5'']\<rparr>) [''10.0.0.0/8''] =
      nullish (first_untrusted [''10.0.0.0/8''] (rev (entries own))) ''10.0.0.1''"
    using forged_chain_ignored [of ?r "[''10.0.0.0/8'']" "''10.5.5.5''"] p e by simp
  from this [rule_format, of "''9.9.9.9''"] f a show ?thesis by simp
qed

section \<open>Windows\<close>

text \<open>What the two limits have in common: a request clears the store now and then and is charged to a key.\<close>

definition hit :: "int \<Rightarrow> string \<Rightarrow> limiter \<Rightarrow> rate_entry \<times> limiter" where
  "hit now key s = charge key now (rate_cleanup now s)"

fun admitted :: "nat \<Rightarrow> string \<Rightarrow> (int \<times> string) list \<Rightarrow> limiter \<Rightarrow> nat" where
  "admitted m k [] s = 0"
| "admitted m k ((now, key) # hs) s = (case hit now key s of (e, s1) \<Rightarrow> (if key = k \<and> re_count e \<le> m then 1 else 0) + admitted m k hs s1)"

text \<open>Every key once, and no entry without a request.\<close>

definition sole :: "limiter \<Rightarrow> bool" where
  "sole s \<longleftrightarrow> distinct (map fst (li_store s)) \<and> (\<forall>(k, e)\<in>set (li_store s). 1 \<le> re_count e)"

lemma map_of_filter_value: "distinct (map fst m) \<Longrightarrow> map_of (filter (\<lambda>(k, e). P e) m) k = (case map_of m k of None \<Rightarrow> None | Some e \<Rightarrow> if P e then Some e else None)"
  by (induction m) (auto split: option.splits dest: map_of_SomeD simp: map_of_eq_None_iff image_iff)

lemma sole_hit: "sole s \<Longrightarrow> sole (snd (hit now key s))"
  using set_update_subset [of key _ "li_store (rate_cleanup now s)"]
  by (fastforce simp: sole_def hit_def charge_def rate_cleanup_def Let_def distinct_update distinct_map_filter)

text \<open>The entry of a key that is over counts as none; clearing the store removes only such entries.\<close>

definition live :: "int \<Rightarrow> string \<Rightarrow> limiter \<Rightarrow> rate_entry option" where
  "live now k s = (case map_of (li_store s) k of None \<Rightarrow> None | Some e \<Rightarrow> if re_resetAt e \<le> now then None else Some e)"

lemma live_cleanup: "sole s \<Longrightarrow> now \<le> t \<Longrightarrow> live t k (rate_cleanup now s) = live t k s"
  using map_of_filter_value [of "li_store s" "\<lambda>e. \<not> re_resetAt e \<le> now" k]
  by (auto simp: live_def rate_cleanup_def sole_def split: option.splits)

lemma hit_entry: "sole s \<Longrightarrow> fst (hit now k s) = (case live now k s of None \<Rightarrow> \<lparr>re_count = 1, re_resetAt = now + WINDOW_MS\<rparr>
     | Some e \<Rightarrow> e\<lparr>re_count := re_count e + 1\<rparr>)"
  using live_cleanup [of s now now k] by (auto simp: hit_def charge_def live_def Let_def split: option.splits if_splits)

lemma live_hit: "sole s \<Longrightarrow> now \<le> t \<Longrightarrow> live t k (snd (hit now key s)) =
    (if key = k then (let e = fst (hit now k s) in if re_resetAt e \<le> t then None else Some e) else live t k s)"
  using live_cleanup [of s now t k] by (auto simp: hit_def charge_def live_def Let_def update_conv split: option.splits)

lemma live_later: "live t k s = Some e \<Longrightarrow> t \<le> u \<Longrightarrow> u < re_resetAt e \<Longrightarrow> live u k s = Some e"
  by (auto simp: live_def split: option.splits if_splits)

lemma live_none: "live t k s = None \<Longrightarrow> t \<le> u \<Longrightarrow> live u k s = None"
  by (auto simp: live_def split: option.splits if_splits)

lemmas hit_rules = sole_hit hit_entry live_hit

lemma admitted_live:
  assumes "sole s" "live u k s = Some e" "sorted (map fst hs)" "\<forall>h\<in>set hs. u \<le> fst h \<and> fst h < re_resetAt e"
  shows "admitted m k hs s \<le> m - re_count e"
  using assms
proof (induction hs arbitrary: s e u)
  case (Cons h hs)
  obtain now key where h: "h = (now, key)" by fastforce
  have n: "u \<le> now" "now < re_resetAt e" using Cons.prems(4) h by auto
  have l: "live now k s = Some e" by (rule live_later [OF Cons.prems(2) n])
  have later: "sorted (map fst hs)" "\<forall>h\<in>set hs. now \<le> fst h \<and> fst h < re_resetAt e" using Cons.prems(3,4) h by auto
  note sole1 = sole_hit [OF Cons.prems(1), of now key]
  show ?case
  proof (cases "key = k")
    case True
    let ?e = "e\<lparr>re_count := re_count e + 1\<rparr>"
    have f: "fst (hit now k s) = ?e" using hit_entry [OF Cons.prems(1), of now k] l by simp
    then have "live now k (snd (hit now key s)) = Some ?e" using live_hit [OF Cons.prems(1), of now now k key] True n by simp
    from Cons.IH [OF sole1 this later(1)] later(2) have "admitted m k hs (snd (hit now key s)) \<le> m - (re_count e + 1)" by simp
    then show ?thesis using f True by (auto simp: h split_def)
  next
    case False
    then have "live now k (snd (hit now key s)) = Some e" using live_hit [OF Cons.prems(1), of now now k key] l by simp
    from Cons.IH [OF sole1 this later] False show ?thesis by (simp add: h split_def)
  qed
qed simp

lemma admitted_dead:
  assumes "sole s" "live u k s = None" "sorted (map fst hs)" "\<forall>h\<in>set hs. u \<le> fst h \<and> t0 \<le> fst h \<and> fst h < t0 + WINDOW_MS"
  shows "admitted m k hs s \<le> m"
  using assms
proof (induction hs arbitrary: s u)
  case (Cons h hs)
  obtain now key where h: "h = (now, key)" by fastforce
  have n: "u \<le> now" "t0 \<le> now" using Cons.prems(4) h by auto
  have l: "live now k s = None" by (rule live_none [OF Cons.prems(2) n(1)])
  have later: "sorted (map fst hs)" "\<forall>h\<in>set hs. now \<le> fst h \<and> t0 \<le> fst h \<and> fst h < t0 + WINDOW_MS" using Cons.prems(3,4) h by auto
  note sole1 = sole_hit [OF Cons.prems(1), of now key]
  show ?case
  proof (cases "key = k")
    case True
    let ?e = "\<lparr>re_count = 1, re_resetAt = now + WINDOW_MS\<rparr>"
    have f: "fst (hit now k s) = ?e" using hit_entry [OF Cons.prems(1), of now k] l by simp
    then have "live now k (snd (hit now key s)) = Some ?e"
      using live_hit [OF Cons.prems(1), of now now k key] True by (simp add: WINDOW_MS_def)
    moreover have "\<forall>h\<in>set hs. now \<le> fst h \<and> fst h < now + WINDOW_MS" using later(2) n(2) by force
    ultimately have "admitted m k hs (snd (hit now key s)) \<le> m - 1" using admitted_live [OF sole1 _ later(1), of now k ?e m] by simp
    then show ?thesis using f True by (auto simp: h split_def)
  next
    case False
    then have "live now k (snd (hit now key s)) = None" using live_hit [OF Cons.prems(1), of now now k key] l by simp
    from Cons.IH [OF sole1 this later] False show ?thesis by (simp add: h split_def)
  qed
qed simp

lemma admitted_window:
  assumes "sole s" "live u k s = Some e" "sorted (map fst hs)" "\<forall>h\<in>set hs. u \<le> fst h \<and> t0 \<le> fst h \<and> fst h < t0 + WINDOW_MS"
  shows "admitted m k hs s \<le> (m - re_count e) + m"
  using assms
proof (induction hs arbitrary: s e u)
  case (Cons h hs)
  obtain now key where h: "h = (now, key)" by fastforce
  have n: "u \<le> now" using Cons.prems(4) h by auto
  have later: "sorted (map fst hs)" "\<forall>h\<in>set hs. now \<le> fst h \<and> t0 \<le> fst h \<and> fst h < t0 + WINDOW_MS" using Cons.prems(3,4) h by auto
  note sole1 = sole_hit [OF Cons.prems(1), of now key]
  show ?case
  proof (cases "now < re_resetAt e")
    case False
    then have l: "live now k s = None" using Cons.prems(2) by (auto simp: live_def split: option.splits if_splits)
    have "\<forall>h\<in>set (h # hs). now \<le> fst h \<and> t0 \<le> fst h \<and> fst h < t0 + WINDOW_MS" using later(2) Cons.prems(4) h by auto
    from admitted_dead [OF Cons.prems(1) l Cons.prems(3) this, of m] show ?thesis by simp
  next
    case r: True
    have l: "live now k s = Some e" by (rule live_later [OF Cons.prems(2) n r])
    show ?thesis
    proof (cases "key = k")
      case True
      let ?e = "e\<lparr>re_count := re_count e + 1\<rparr>"
      have f: "fst (hit now k s) = ?e" using hit_entry [OF Cons.prems(1), of now k] l by simp
      then have "live now k (snd (hit now key s)) = Some ?e" using live_hit [OF Cons.prems(1), of now now k key] True r by simp
      from Cons.IH [OF sole1 this later] have "admitted m k hs (snd (hit now key s)) \<le> (m - (re_count e + 1)) + m" by simp
      then show ?thesis using f True by (auto simp: h split_def)
    next
      case False
      then have "live now k (snd (hit now key s)) = Some e" using live_hit [OF Cons.prems(1), of now now k key] l by simp
      from Cons.IH [OF sole1 this later] False show ?thesis by (simp add: h split_def)
    qed
  qed
qed simp

lemma admitted_twice:
  assumes "sole s" "sorted (map fst hs)" "\<forall>h\<in>set hs. t0 \<le> fst h \<and> fst h < t0 + WINDOW_MS"
  shows "admitted m k hs s \<le> 2 * m - 1"
proof (cases "live t0 k s")
  case None
  from admitted_dead [OF assms(1) None assms(2), of t0 m] assms(3) show ?thesis by simp
next
  case (Some e)
  then have "1 \<le> re_count e" using assms(1) by (auto simp: sole_def live_def split: option.splits if_splits dest!: map_of_SomeD)
  with admitted_window [OF assms(1) Some assms(2), of t0 m] assms(3) show ?thesis by simp
qed

section \<open>The bound\<close>

text \<open>The answers to the requests of a time, in order.\<close>

fun limit_run :: "rate_config \<Rightarrow> (int \<times> net_request) list \<Rightarrow> limiter \<Rightarrow> rate_answer list" where
  "limit_run cfg [] s = []"
| "limit_run cfg ((now, r) # rs) s = (case rate_limit cfg now r s of (a, s1) \<Rightarrow> a # limit_run cfg rs s1)"

definition admits :: "rate_answer \<Rightarrow> bool" where
  "admits a = (case a of Admitted _ _ \<Rightarrow> True | _ \<Rightarrow> False)"

definition passed :: "rate_config \<Rightarrow> string \<Rightarrow> string \<Rightarrow> (int \<times> net_request) list \<Rightarrow> rate_answer list \<Rightarrow> nat" where
  "passed cfg ip bucket rs as = length (filter (\<lambda>((now, r), a). admits a \<and>
     resolveClientIp r (rc_trusted cfg) = ip \<and> fst (bucket_of cfg (nr_path r)) = bucket) (zip rs as))"

definition limited_path :: "rate_config \<Rightarrow> string \<Rightarrow> bool" where
  "limited_path cfg path \<longleftrightarrow> \<not> rc_e2e cfg \<and> RE_AUTH_PATHS path \<and> \<not> RE_SUBJECT_LIMITED_PATHS path"

definition rate_key :: "rate_config \<Rightarrow> net_request \<Rightarrow> string" where
  "rate_key cfg r = resolveClientIp r (rc_trusted cfg) @ '':'' @ fst (bucket_of cfg (nr_path r))"

lemma rate_limit_hit:
  "rate_limit cfg now r s = (if limited_path cfg (nr_path r)
     then (case hit now (rate_key cfg r) s of (e, s1) \<Rightarrow> (if re_count e > snd (bucket_of cfg (nr_path r)) then TooMany (retry_after now e)
        else Admitted (snd (bucket_of cfg (nr_path r)) - re_count e) (re_resetAt e), s1)) else (NotLimited, s))"
  by (auto simp: rate_limit_def limited_path_def hit_def rate_key_def split: prod.splits)

lemma bucket_max: "fst (bucket_of cfg p) = fst (bucket_of cfg q) \<Longrightarrow> snd (bucket_of cfg p) = snd (bucket_of cfg q)"
  by (auto simp: bucket_of_def split: if_splits)

lemma passed_admitted:
  "passed cfg ip (fst (bucket_of cfg path)) rs (limit_run cfg rs s) \<le>
     admitted (snd (bucket_of cfg path)) (ip @ '':'' @ fst (bucket_of cfg path)) (map (\<lambda>(now, r). (now, rate_key cfg r)) (filter (\<lambda>(now, r). limited_path cfg (nr_path r)) rs)) s"
proof (induction rs arbitrary: s)
  case (Cons h rs)
  obtain now r where h: "h = (now, r)" by fastforce
  show ?case
  proof (cases "limited_path cfg (nr_path r)")
    case True
    obtain e s1 where e: "hit now (rate_key cfg r) s = (e, s1)" by fastforce
    have m: "fst (bucket_of cfg (nr_path r)) = fst (bucket_of cfg path) \<Longrightarrow> snd (bucket_of cfg (nr_path r)) = snd (bucket_of cfg path)"
      by (rule bucket_max)
    show ?thesis using Cons.IH [of s1] True e m by (auto simp: h passed_def rate_limit_hit admits_def rate_key_def)
  next
    case False
    then show ?thesis using Cons.IH [of s] by (simp add: h passed_def rate_limit_hit admits_def)
  qed
qed (simp add: passed_def)

text \<open>
  C36. In any minute, whatever came before, one address gets fewer than twice the limit of its bucket answered, although the windows are fixed and
  the store is cleared in between; requests of other addresses and buckets change nothing.
\<close>

theorem window_bound:
  assumes "sole s" "sorted (map fst rs)" "\<forall>(now, r)\<in>set rs. t \<le> now \<and> now < t + WINDOW_MS"
  shows "passed cfg ip (fst (bucket_of cfg path)) rs (limit_run cfg rs s) \<le> 2 * snd (bucket_of cfg path) - 1"
proof -
  let ?hs = "map (\<lambda>(now, r). (now, rate_key cfg r)) (filter (\<lambda>(now, r). limited_path cfg (nr_path r)) rs)"
  have "map fst ?hs = map fst (filter (\<lambda>(now, r). limited_path cfg (nr_path r)) rs)" by (simp add: split_def comp_def)
  then have "sorted (map fst ?hs)" by (simp only:) (rule sorted_filter [OF assms(2)])
  moreover have "\<forall>h\<in>set ?hs. t \<le> fst h \<and> fst h < t + WINDOW_MS" using assms(3) by auto
  ultimately show ?thesis using passed_admitted admitted_twice [OF assms(1)] order_trans by blast
qed

definition ex_limits :: rate_config where
  "ex_limits = \<lparr>rc_e2e = False, rc_trusted = [], rc_maxAuth = 2, rc_maxAgent = 120, rc_maxManagement = 60, rc_maxQr = 90\<rparr>"

definition ex_call :: net_request where
  "ex_call = \<lparr>nr_peer = Some ''5.5.5.5'', nr_forwarded = None, nr_path = ''/authorize''\<rparr>"

theorem window_bound_witness:
  "passed ex_limits ''5.5.5.5'' ''auth'' [(59999, ex_call), (60000, ex_call), (60001, ex_call), (60002, ex_call)]
     (limit_run ex_limits [(59999, ex_call), (60000, ex_call), (60001, ex_call), (60002, ex_call)]
       \<lparr>li_store = [(''5.5.5.5:auth'', \<lparr>re_count = 1, re_resetAt = 60000\<rparr>)], li_lastCleanup = 0\<rparr>) = 3"
proof -
  have b: "fst (bucket_of ex_limits ''/authorize'') = ''auth''" "snd (bucket_of ex_limits ''/authorize'') = 2" by code_simp+
  have "passed ex_limits ''5.5.5.5'' ''auth'' [(59999, ex_call), (60000, ex_call), (60001, ex_call), (60002, ex_call)]
     (limit_run ex_limits [(59999, ex_call), (60000, ex_call), (60001, ex_call), (60002, ex_call)]
       \<lparr>li_store = [(''5.5.5.5:auth'', \<lparr>re_count = 1, re_resetAt = 60000\<rparr>)], li_lastCleanup = 0\<rparr>) \<le> 3"
    using window_bound [of "\<lparr>li_store = [(''5.5.5.5:auth'', \<lparr>re_count = 1, re_resetAt = 60000\<rparr>)], li_lastCleanup = 0\<rparr>"
        "[(59999, ex_call), (60000, ex_call), (60001, ex_call), (60002, ex_call)]" 59999 ex_limits "''5.5.5.5''" "''/authorize''"]
    by (simp add: b sole_def WINDOW_MS_def)
  moreover have "passed ex_limits ''5.5.5.5'' ''auth'' [(59999, ex_call), (60000, ex_call), (60001, ex_call), (60002, ex_call)]
     (limit_run ex_limits [(59999, ex_call), (60000, ex_call), (60001, ex_call), (60002, ex_call)]
       \<lparr>li_store = [(''5.5.5.5:auth'', \<lparr>re_count = 1, re_resetAt = 60000\<rparr>)], li_lastCleanup = 0\<rparr>) \<ge> 3"
    by code_simp
  ultimately show ?thesis by simp
qed

text \<open>The same bound for the program calls of a proven requester.\<close>

fun authorize_passed :: "string option \<Rightarrow> string \<Rightarrow> (int \<times> string) list \<Rightarrow> limiter \<Rightarrow> nat" where
  "authorize_passed raw who [] s = 0"
| "authorize_passed raw who ((now, subject) # rs) s = (case enforceAuthorizeRateLimit raw now subject s of
     (a, s1) \<Rightarrow> (if admits a \<and> subject = who then 1 else 0) + authorize_passed raw who rs s1)"

theorem authorize_bound:
  assumes "sole s" "sorted (map fst rs)" "\<forall>h\<in>set rs. t \<le> fst h \<and> fst h < t + WINDOW_MS"
  shows "authorize_passed raw who rs s \<le> 2 * max_setting raw 600 - 1"
proof -
  have "authorize_passed raw who rs s = admitted (max_setting raw 600) who rs s"
    by (induction rs arbitrary: s) (auto simp: enforceAuthorizeRateLimit_def hit_def admits_def Let_def split_def)
  with admitted_twice [OF assms] show ?thesis by simp
qed

theorem authorize_bound_witness:
  "authorize_passed (Some ''2'') ''bot'' [(1, ''bot''), (2, ''bot''), (3, ''bot''), (4, ''other'')] \<lparr>li_store = [], li_lastCleanup = 0\<rparr> \<le> 3"
  using authorize_bound [of "\<lparr>li_store = [], li_lastCleanup = 0\<rparr>" "[(1, ''bot''), (2, ''bot''), (3, ''bot''), (4, ''other'')]" 0 "Some ''2''" "''bot''"]
  by (simp add: sole_def WINDOW_MS_def max_setting_def number_of_digits is_digit_def nat_of_digits_def)

end
