(* ===== verification/DrizzleStore.thy ===== *)
theory DrizzleStore
  imports AuthzTokens AuthStores
begin

text \<open>
  The grant store of the deployed provider: \<open>drizzle-grant-store.ts\<close> and \<open>broker-audit.ts\<close> of \<open>apps/openape-free-idp\<close>, over the tables
  \<open>grants\<close>, \<open>broker_connections\<close> and \<open>broker_audit\<close>, with the three transactions of \<open>drizzle-broker-store.ts\<close> that write to the grants or
  their audit. A transaction is one function; its rows are a list in the order of their
  insertion. The table of users is an argument. The retries on a locked database are those of \<open>SpTasks\<close> and end in the transaction or its error. Times are seconds.
\<close>

section \<open>Rows\<close>

record grant_row =
  gw_id :: string
  gw_status :: grant_status
  gw_type :: "grant_category option"
  gw_requester :: string
  gw_referenceKey :: "string option"
  gw_brokered :: "brokered_grant option"
  gw_brokerOwner :: "string option"
  gw_targetHost :: string
  gw_audience :: string
  gw_grantType :: grant_type
  gw_request :: grant_request
  gw_createdAt :: int
  gw_decidedAt :: "int option"
  gw_decidedBy :: "string option"
  gw_expiresAt :: "int option"
  gw_usedAt :: "int option"
  gw_consumedJti :: "string option"
  gw_withdrawReason :: "string option"
  gw_decidedByStandingGrant :: "string option"
  gw_autoApprovalKind :: "string option"

definition grantToRow :: "grant \<Rightarrow> grant_row" where
  "grantToRow g = \<lparr>gw_id = gr_id g, gw_status = gr_status g, gw_type = gr_category g, gw_requester = rq_requester (gr_request g),
     gw_referenceKey = ref_key g, gw_brokered = gr_brokered g, gw_brokerOwner = map_option bg_owner (gr_brokered g),
     gw_targetHost = rq_target_host (gr_request g), gw_audience = rq_audience (gr_request g), gw_grantType = nullish (rq_grant_type (gr_request g)) Once,
     gw_request = gr_request g, gw_createdAt = gr_created_at g, gw_decidedAt = gr_decided_at g, gw_decidedBy = gr_decided_by g,
     gw_expiresAt = gr_expires_at g, gw_usedAt = gr_used_at g, gw_consumedJti = None, gw_withdrawReason = gr_withdraw_reason g,
     gw_decidedByStandingGrant = gr_decided_by_standing_grant g, gw_autoApprovalKind = gr_auto_approval_kind g\<rparr>"

definition rowToGrant :: "grant_row \<Rightarrow> grant" where
  "rowToGrant w = \<lparr>gr_brokered = gw_brokered w, gr_id = gw_id w, gr_category = gw_type w,
     gr_request = (gw_request w)\<lparr>rq_requester := gw_requester w, rq_target_host := gw_targetHost w, rq_audience := gw_audience w,
       rq_grant_type := Some (gw_grantType w)\<rparr>,
     gr_status = gw_status w, gr_decided_by = gw_decidedBy w, gr_created_at = gw_createdAt w, gr_decided_at = gw_decidedAt w,
     gr_expires_at = gw_expiresAt w, gr_used_at = gw_usedAt w,
     gr_withdraw_reason = (if truthy_str (gw_withdrawReason w) then gw_withdrawReason w else None),
     gr_decided_by_standing_grant = gw_decidedByStandingGrant w, gr_auto_approval_kind = gw_autoApprovalKind w\<rparr>"

text \<open>The value of the column \<open>status\<close>.\<close>

definition status_name :: "grant_status \<Rightarrow> string" where
  "status_name st = (case st of Pending \<Rightarrow> ''pending'' | Approved \<Rightarrow> ''approved'' | Denied \<Rightarrow> ''denied'' | Revoked \<Rightarrow> ''revoked''
     | Expired \<Rightarrow> ''expired'' | Used \<Rightarrow> ''used'' | Withdrawn \<Rightarrow> ''withdrawn'')"

record audit_row =
  au_grantId :: string
  au_owner :: string
  au_agent :: string
  au_brokerIssuer :: string
  au_connectionId :: string
  au_event :: string
  au_createdAt :: int

record connection_row =
  cn_active :: bool
  cn_owner :: string
  cn_ownerIssuer :: string
  cn_brokerIssuer :: string

record drizzle_db =
  db_grants :: "grant_row list"
  db_connections :: "(string \<times> connection_row) list"
  db_audit :: "audit_row list"

datatype drizzle_error = HttpError int string | Thrown grant_error

text \<open>The row of a grant with provenance; the callers check that it has one. The event is any text: \<open>created\<close>, a status, \<open>token_issued\<close> or \<open>consumed\<close>.\<close>

definition brokerAuditRow :: "int \<Rightarrow> grant_row \<Rightarrow> string \<Rightarrow> audit_row" where
  "brokerAuditRow now w e = (let b = the (gw_brokered w) in \<lparr>au_grantId = gw_id w, au_owner = bg_owner b, au_agent = gw_requester w,
     au_brokerIssuer = bg_broker_issuer b, au_connectionId = bg_connection_id b, au_event = e, au_createdAt = now\<rparr>)"

text \<open>\<open>update(grants).set(...).where(...)\<close> with an audit row for each brokered grant it touched.\<close>

definition update_rows :: "int \<Rightarrow> string \<Rightarrow> (grant_row \<Rightarrow> bool) \<Rightarrow> (grant_row \<Rightarrow> grant_row) \<Rightarrow> drizzle_db \<Rightarrow> drizzle_db" where
  "update_rows now e P f db = db\<lparr>db_grants := map (\<lambda>w. if P w then f w else w) (db_grants db),
     db_audit := db_audit db @ map (\<lambda>w. brokerAuditRow now (f w) e) (filter (\<lambda>w. P w \<and> gw_brokered w \<noteq> None) (db_grants db))\<rparr>"

definition row_of :: "string \<Rightarrow> drizzle_db \<Rightarrow> grant_row option" where
  "row_of i db = List.find (\<lambda>w. gw_id w = i) (db_grants db)"

section \<open>Expiry\<close>

definition PENDING_REQUEST_TTL_SECONDS :: int where "PENDING_REQUEST_TTL_SECONDS = 48 * 3600"

definition BROKER_PENDING_LIMIT :: nat where "BROKER_PENDING_LIMIT = 300"

definition expirePendingRequests :: "int \<Rightarrow> drizzle_db \<Rightarrow> drizzle_db" where
  "expirePendingRequests now db = update_rows now (status_name Expired)
     (\<lambda>w. gw_status w = Pending \<and> gw_createdAt w < now - PENDING_REQUEST_TTL_SECONDS) (\<lambda>w. w\<lparr>gw_status := Expired\<rparr>) db"

section \<open>Creation\<close>

definition connection_refused :: "brokered_grant \<Rightarrow> drizzle_db \<Rightarrow> bool" where
  "connection_refused b db = (case map_of (db_connections db) (bg_connection_id b) of None \<Rightarrow> True
     | Some c \<Rightarrow> \<not> cn_active c \<or> cn_owner c \<noteq> bg_owner b)"

definition pending_of :: "string \<Rightarrow> drizzle_db \<Rightarrow> nat" where
  "pending_of owner db = length (filter (\<lambda>w. gw_brokerOwner w = Some owner \<and> gw_status w = Pending) (db_grants db))"

definition no_connection :: drizzle_error where
  "no_connection = HttpError 403 ''Broker connection is missing or revoked''"

definition inbox_full :: drizzle_error where
  "inbox_full = HttpError 429 ''Decide or dismiss existing broker requests before submitting more''"

text \<open>The insertion with its audit row; a primary key that is taken is an error of the database.\<close>

definition insert_grant :: "int \<Rightarrow> grant_row \<Rightarrow> drizzle_db \<Rightarrow> (drizzle_error + unit) \<times> drizzle_db" where
  "insert_grant now w db = (if row_of (gw_id w) db \<noteq> None then (Inl (Thrown (StoreError ''UNIQUE constraint failed: grants.id'')), db)
     else (Inr (), db\<lparr>db_grants := db_grants db @ [w],
       db_audit := db_audit db @ (if gw_brokered w \<noteq> None then [brokerAuditRow now w ''created''] else [])\<rparr>))"

definition drz_createReferenced :: "int \<Rightarrow> grant \<Rightarrow> drizzle_db \<Rightarrow> (drizzle_error + grant \<times> bool) \<times> drizzle_db" where
  "drz_createReferenced now g db0 = (case assertGrantReferenceRequest (gr_request g) of Inl e \<Rightarrow> (Inl (Thrown e), db0)
     | Inr _ \<Rightarrow> let w = grantToRow g in
       if \<not> truthy_str (gw_referenceKey w) then (Inl (Thrown (StoreError ''A reference is required'')), db0)
       else let db = expirePendingRequests now db0 in
       if (case gr_brokered g of None \<Rightarrow> False | Some b \<Rightarrow> connection_refused b db) then (Inl no_connection, db)
       else (case List.find (\<lambda>v. gw_referenceKey v = gw_referenceKey w) (db_grants db) of
         Some existing \<Rightarrow> (case assertSameReferencedGrant (rowToGrant existing) g of Inl e \<Rightarrow> (Inl (Thrown e), db)
           | Inr _ \<Rightarrow> (Inr (rowToGrant existing, False), db))
       | None \<Rightarrow> if (case gr_brokered g of None \<Rightarrow> False | Some b \<Rightarrow> pending_of (bg_owner b) db \<ge> BROKER_PENDING_LIMIT) then (Inl inbox_full, db)
           else (case insert_grant now w db of (Inl e, db1) \<Rightarrow> (Inl e, db1) | (Inr _, db1) \<Rightarrow> (Inr (g, True), db1))))"

text \<open>The members of a row that a second save of the same id replaces.\<close>

definition resaved :: "grant_row \<Rightarrow> grant_row \<Rightarrow> grant_row" where
  "resaved w old = w\<lparr>gw_referenceKey := gw_referenceKey old, gw_consumedJti := gw_consumedJti old, gw_withdrawReason := gw_withdrawReason old\<rparr>"

definition drz_save :: "int \<Rightarrow> grant \<Rightarrow> drizzle_db \<Rightarrow> (drizzle_error + unit) \<times> drizzle_db" where
  "drz_save now g db = (if rq_reference (gr_request g) \<noteq> None then (Inl (Thrown (StoreError ''Use atomic createReferenced for a referenced grant'')), db)
     else let w = grantToRow g in (case gr_brokered g of
       Some b \<Rightarrow> let db1 = expirePendingRequests now db in
         if connection_refused b db1 then (Inl no_connection, db1)
         else if pending_of (bg_owner b) db1 \<ge> BROKER_PENDING_LIMIT then (Inl inbox_full, db1)
         else insert_grant now w db1
     | None \<Rightarrow> (Inr (), if row_of (gw_id w) db = None then db\<lparr>db_grants := db_grants db @ [w]\<rparr>
         else db\<lparr>db_grants := map (\<lambda>v. if gw_id v = gw_id w then resaved w v else v) (db_grants db)\<rparr>)))"

section \<open>Changes of status\<close>

definition patched :: "grant_status \<Rightarrow> grant_patch \<Rightarrow> grant_row \<Rightarrow> grant_row" where
  "patched st p w = w\<lparr>gw_status := st,
     gw_decidedBy := (if p_decided_by p = None then gw_decidedBy w else p_decided_by p),
     gw_decidedAt := (if p_decided_at p = None then gw_decidedAt w else p_decided_at p),
     gw_expiresAt := (if p_expires_at p = None then gw_expiresAt w else p_expires_at p),
     gw_usedAt := (if p_used_at p = None then gw_usedAt w else p_used_at p),
     gw_decidedByStandingGrant := (if p_decided_by_standing_grant p = None then gw_decidedByStandingGrant w else p_decided_by_standing_grant p),
     gw_autoApprovalKind := (if p_auto_approval_kind p = None then gw_autoApprovalKind w else p_auto_approval_kind p),
     gw_request := nullish (p_request p) (gw_request w),
     gw_grantType := (case p_request p of None \<Rightarrow> gw_grantType w | Some r \<Rightarrow> nullish (rq_grant_type r) Once)\<rparr>"

definition bound_request :: "grant_row \<Rightarrow> grant_patch \<Rightarrow> grant_error + unit" where
  "bound_request w p = (if p_request p \<noteq> None \<and> truthy_str (rq_reference (gr_request (rowToGrant w)))
     then assertSameReferencedGrant (rowToGrant w) ((rowToGrant w)\<lparr>gr_request := the (p_request p)\<rparr>) else Inr ())"

definition drz_updateStatus :: "int \<Rightarrow> string \<Rightarrow> grant_status \<Rightarrow> grant_patch \<Rightarrow> drizzle_db \<Rightarrow> (drizzle_error + unit) \<times> drizzle_db" where
  "drz_updateStatus now i st p db0 = (let db = expirePendingRequests now db0 in
     case row_of i db of None \<Rightarrow> (Inl (Thrown (GrantNotFound i)), db)
     | Some w \<Rightarrow> (case bound_request w p of Inl e \<Rightarrow> (Inl (Thrown e), db)
       | Inr _ \<Rightarrow> if (gw_brokered w \<noteq> None \<or> truthy_str (gw_referenceKey w) \<or> gw_status w = Expired) \<and> st \<in> {Approved, Denied} \<and> gw_status w \<noteq> Pending
           then (Inl (HttpError 409 ''Grant was already decided''), db)
           else if gw_status w = Withdrawn then (Inl (HttpError 409 ''Grant was withdrawn by its requester''), db)
           else (Inr (), update_rows now (status_name st) (\<lambda>v. gw_id v = i) (patched st p) db)))"

definition drz_claimOnce :: "int \<Rightarrow> string \<Rightarrow> int \<Rightarrow> drizzle_db \<Rightarrow> bool \<times> drizzle_db" where
  "drz_claimOnce now i usedAt db = (let P = (\<lambda>w. gw_id w = i \<and> gw_status w = Approved) in
     (list_ex P (db_grants db), update_rows now (status_name Used) P (\<lambda>w. w\<lparr>gw_status := Used, gw_usedAt := Some usedAt\<rparr>) db))"

definition drz_withdraw :: "int \<Rightarrow> string \<Rightarrow> int \<Rightarrow> string option \<Rightarrow> drizzle_db \<Rightarrow> grant_status option \<times> drizzle_db" where
  "drz_withdraw now i withdrawnAt reason db = (case row_of i db of None \<Rightarrow> (None, db)
     | Some w \<Rightarrow> if \<not> (gw_status w = Pending \<or> (gw_status w = Approved \<and> gw_grantType w = Once)) then (None, db)
         else (Some (gw_status w), update_rows now (status_name Withdrawn) (\<lambda>v. gw_id v = i \<and> gw_status v = gw_status w)
           (\<lambda>v. v\<lparr>gw_status := Withdrawn, gw_decidedAt := Some withdrawnAt, gw_withdrawReason := reason\<rparr>) db))"

definition drz_markConsumed :: "string \<Rightarrow> string \<Rightarrow> drizzle_db \<Rightarrow> bool \<times> drizzle_db" where
  "drz_markConsumed i jti db = (let P = (\<lambda>w. gw_id w = i \<and> gw_consumedJti w = None) in
     (list_ex P (db_grants db), db\<lparr>db_grants := map (\<lambda>w. if P w then w\<lparr>gw_consumedJti := Some jti\<rparr> else w) (db_grants db)\<rparr>))"

section \<open>The broker's writes\<close>

definition rejected :: "string \<Rightarrow> drizzle_error" where
  "rejected message = HttpError 403 message"

definition checkConnection :: "brokered_grant \<Rightarrow> drizzle_db \<Rightarrow> drizzle_error + connection_row" where
  "checkConnection b db = (case map_of (db_connections db) (bg_connection_id b) of None \<Rightarrow> Inl no_connection
     | Some c \<Rightarrow> if \<not> cn_active c then Inl no_connection
         else if cn_owner c \<noteq> bg_owner b \<or> cn_brokerIssuer c \<noteq> bg_broker_issuer b \<or> cn_brokerIssuer c \<noteq> bg_agent_issuer b
         then Inl (rejected ''Broker connection does not match the grant'') else Inr c)"

definition owner_inactive :: "user_store \<Rightarrow> string \<Rightarrow> bool" where
  "owner_inactive users owner = (case findByEmail owner users of None \<Rightarrow> True
     | Some u \<Rightarrow> \<not> us_isActive u \<or> us_type u = Some Agent \<or> truthy_str (us_owner u))"

text \<open>The checks of the connection and its owner that the three transactions share.\<close>

definition live_connection :: "user_store \<Rightarrow> brokered_grant \<Rightarrow> drizzle_db \<Rightarrow> drizzle_error + connection_row" where
  "live_connection users b db = (case checkConnection b db of Inl e \<Rightarrow> Inl e
     | Inr c \<Rightarrow> if owner_inactive users (cn_owner c) then Inl (rejected ''Broker owner is inactive'') else Inr c)"

definition past :: "int \<Rightarrow> int option \<Rightarrow> bool" where
  "past now e = (truthy_num e \<and> the e \<le> now)"

definition drz_recordToken :: "int \<Rightarrow> user_store \<Rightarrow> grant \<Rightarrow> drizzle_db \<Rightarrow> (drizzle_error + unit) \<times> drizzle_db" where
  "drz_recordToken now users g db = (case (row_of (gr_id g) db, gr_brokered g) of
     (Some w, Some b) \<Rightarrow> if gw_status w \<noteq> Approved \<or> \<not> sameBrokeredGrant (gw_brokered w) (Some b) then (Inl (rejected ''Grant is no longer approved''), db)
       else (case live_connection users b db of Inl e \<Rightarrow> (Inl e, db)
         | Inr _ \<Rightarrow> if past now (gw_expiresAt w) then (Inl (rejected ''Grant has expired''), db)
             else (Inr (), db\<lparr>db_audit := db_audit db @ [brokerAuditRow now (grantToRow g) ''token_issued'']\<rparr>))
   | (Some w, None) \<Rightarrow> (Inl (if gw_status w \<noteq> Approved \<or> gw_brokered w \<noteq> None then rejected ''Grant is no longer approved''
       else Thrown (StoreError ''Cannot read properties of undefined'')), db)
   | (None, _) \<Rightarrow> (Inl (rejected ''Grant is no longer approved''), db))"

datatype redeemed = Valid grant | Consumed grant | Unusable string string

definition mismatched :: "string \<Rightarrow> authz_claims \<Rightarrow> grant \<Rightarrow> bool" where
  "mismatched i c g = (case gr_brokered g of None \<Rightarrow> True | Some b \<Rightarrow> \<not> sameBrokeredGrant (Some b) (ac_brokered c) \<or>
     ac_sub c \<noteq> rq_requester (gr_request g) \<or> ac_grant_id c \<noteq> i \<or> ac_aud c \<noteq> rq_audience (gr_request g) \<or>
     ac_target_host c \<noteq> rq_target_host (gr_request g) \<or> ac_decided_by c \<noteq> Some (bg_owner b))"

text \<open>
  The end of \<open>consume\<close>, with the checks behind it: \<open>w\<close> is the row that was read. A grant that its command token had spent is confirmed once; an
  approval is used up when it is for one use.
\<close>

definition redemption :: "int \<Rightarrow> string \<Rightarrow> authz_claims \<Rightarrow> grant_row \<Rightarrow> drizzle_db \<Rightarrow> redeemed \<times> drizzle_db" where
  "redemption now i c w db = (let g = rowToGrant w; consumed = (\<lambda>d. d\<lparr>db_audit := db_audit d @ [brokerAuditRow now w ''consumed'']\<rparr>) in
     if spentByCommandToken g c
     then (case drz_markConsumed i (ac_jti c) db of (False, db1) \<Rightarrow> (Unusable ''used'' ''already_consumed'', db1)
       | (True, db1) \<Rightarrow> (Consumed g, consumed db1))
     else if gr_status g \<noteq> Approved
     then (Unusable (status_name (gr_status g)) (if gr_status g = Used then ''already_consumed'' else status_name (gr_status g)), db)
     else if past now (gr_expires_at g) then (Unusable ''expired'' ''expired'', db)
     else if rq_grant_type (gr_request g) \<noteq> Some Once then (Valid g, consumed db)
     else (Consumed (g\<lparr>gr_status := Used, gr_used_at := Some now\<rparr>),
       (consumed db)\<lparr>db_grants := map (\<lambda>v. if gw_id v = i then v\<lparr>gw_status := Used, gw_usedAt := Some now\<rparr> else v) (db_grants db)\<rparr>))"

definition drz_consume :: "int \<Rightarrow> user_store \<Rightarrow> string \<Rightarrow> authz_claims \<Rightarrow> drizzle_db \<Rightarrow> (drizzle_error + redeemed) \<times> drizzle_db" where
  "drz_consume now users i c db = (case row_of i db of None \<Rightarrow> (Inl (rejected ''Brokered grant was not found''), db)
     | Some w \<Rightarrow> let g = rowToGrant w in
       if mismatched i c g then (Inl (rejected ''Brokered grant provenance mismatch''), db)
       else (case checkConnection (the (gr_brokered g)) db of Inl e \<Rightarrow> (Inl e, db)
         | Inr cn \<Rightarrow> if ac_iss c \<noteq> cn_ownerIssuer cn then (Inl (rejected ''Grant decision issuer mismatch''), db)
           else if owner_inactive users (cn_owner cn) then (Inl (rejected ''Broker owner is inactive''), db)
           else (case redemption now i c w db of (r, db1) \<Rightarrow> (Inr r, db1))))"

text \<open>A name within 120 characters and without control or format characters, trimmed.\<close>

definition brokerRequesterName :: "string \<Rightarrow> string option" where
  "brokerRequesterName value = (if js_trim value = [] \<or> length value > 120 \<or> list_ex is_hidden value then None else Some (js_trim value))"

definition drz_updateRequesterName :: "user_store \<Rightarrow> string \<Rightarrow> brokered_grant \<Rightarrow> string \<Rightarrow> drizzle_db \<Rightarrow> (drizzle_error + unit) \<times> drizzle_db" where
  "drz_updateRequesterName users subject b name db = (case brokerRequesterName name of
     None \<Rightarrow> (Inl (Thrown (StoreError ''Invalid broker requester name'')), db)
   | Some n \<Rightarrow> (case live_connection users b db of Inl e \<Rightarrow> (Inl e, db)
     | Inr _ \<Rightarrow> (Inr (), db\<lparr>db_grants := map (\<lambda>w. case gw_brokered w of None \<Rightarrow> w
         | Some x \<Rightarrow> if gw_requester w = subject \<and> sameBrokeredGrant (Some x) (Some b) \<and> bg_requester_name x \<noteq> Some n
             then w\<lparr>gw_brokered := Some (x\<lparr>bg_requester_name := Some n\<rparr>)\<rparr> else w) (db_grants db)\<rparr>)))"

section \<open>Queries\<close>

definition drz_findById :: "int \<Rightarrow> string \<Rightarrow> drizzle_db \<Rightarrow> grant option \<times> drizzle_db" where
  "drz_findById now i db0 = (let db = expirePendingRequests now db0 in (map_option rowToGrant (row_of i db), db))"

text \<open>\<open>orderBy(desc(createdAt))\<close>\<close>

definition query :: "(grant_row \<Rightarrow> bool) \<Rightarrow> int \<Rightarrow> drizzle_db \<Rightarrow> grant list \<times> drizzle_db" where
  "query P now db0 = (let db = expirePendingRequests now db0 in
     (map rowToGrant (sort_by (\<lambda>a b. gw_createdAt b \<le> gw_createdAt a) (filter P (db_grants db))), db))"

definition drz_findPending :: "int \<Rightarrow> drizzle_db \<Rightarrow> grant list \<times> drizzle_db" where
  "drz_findPending = query (\<lambda>w. gw_status w = Pending)"

definition drz_findByRequester :: "string \<Rightarrow> int \<Rightarrow> drizzle_db \<Rightarrow> grant list \<times> drizzle_db" where
  "drz_findByRequester r = query (\<lambda>w. gw_requester w = r)"

definition drz_findAll :: "int \<Rightarrow> drizzle_db \<Rightarrow> grant list \<times> drizzle_db" where
  "drz_findAll = query (\<lambda>w. True)"

definition drz_findByDelegate :: "string \<Rightarrow> int \<Rightarrow> drizzle_db \<Rightarrow> grant list \<times> drizzle_db" where
  "drz_findByDelegate d = query (\<lambda>w. gw_type w = Some DelegationGrant \<and> rq_delegate (gw_request w) = Some d)"

definition drz_findByDelegator :: "string \<Rightarrow> int \<Rightarrow> drizzle_db \<Rightarrow> grant list \<times> drizzle_db" where
  "drz_findByDelegator d = query (\<lambda>w. gw_type w = Some DelegationGrant \<and> rq_delegator (gw_request w) = Some d)"

definition row_listed :: "list_params \<Rightarrow> grant_row \<Rightarrow> bool" where
  "row_listed p w = (
     (case lp_exclude_status p of None \<Rightarrow> True | Some st \<Rightarrow> gw_status w \<noteq> st) \<and>
     (case lp_status p of None \<Rightarrow> True | Some st \<Rightarrow> gw_status w = st) \<and>
     (truthy_requester (lp_requester p) \<longrightarrow> (let named = gw_requester w \<in> set (requester_set (the (lp_requester p))) in
        case lp_broker_owner p of Some None \<Rightarrow> gw_brokered w = None \<and> named
        | Some (Some own) \<Rightarrow> if own \<noteq> [] then (gw_brokered w = None \<and> named) \<or> gw_brokerOwner w = Some own else named
        | None \<Rightarrow> named)) \<and>
     (truthy_str (lp_requester_filter p) \<longrightarrow> Some (gw_requester w) = lp_requester_filter p) \<and>
     (truthy_str (lp_batch p) \<longrightarrow> map_option gb_id (rq_batch (gw_request w)) = lp_batch p) \<and>
     (truthy_str (lp_reference p) \<longrightarrow> rq_reference (gw_request w) = lp_reference p) \<and>
     (truthy_str (lp_reference_key p) \<longrightarrow> gw_referenceKey w = lp_reference_key p))"

definition row_order :: "grant_row \<Rightarrow> grant_row \<Rightarrow> bool" where
  "row_order a b = (gw_createdAt b < gw_createdAt a \<or> (gw_createdAt a = gw_createdAt b \<and> gw_id b \<le> gw_id a))"

definition row_after :: "int \<times> string option \<Rightarrow> grant_row \<Rightarrow> bool" where
  "row_after pos w = (gw_createdAt w < fst pos \<or> (case snd pos of None \<Rightarrow> False | Some i \<Rightarrow> gw_createdAt w = fst pos \<and> gw_id w < i))"

definition drz_listGrants :: "int \<Rightarrow> list_params \<Rightarrow> drizzle_db \<Rightarrow> (grant_error + grant_page) \<times> drizzle_db" where
  "drz_listGrants now p db0 = (let db = expirePendingRequests now db0; limit = nat (min (max (nullish (lp_limit p) 20) 1) 1000) in
     case (if truthy_str (lp_cursor p) then map_sum id Some (parseGrantCursor (the (lp_cursor p))) else Inr None) of
       Inl e \<Rightarrow> (Inl e, db)
     | Inr pos \<Rightarrow> (Inr (take_page limit (map rowToGrant (sort_by row_order
         (filter (\<lambda>w. row_listed p w \<and> (case pos of None \<Rightarrow> True | Some c \<Rightarrow> row_after c w)) (db_grants db))))), db))"


section \<open>Rows and grants\<close>

text \<open>
  What is stored comes back: every member of a grant, with the default of its type written out. An empty reason of a withdrawal is dropped.
\<close>

theorem row_roundtrip:
  "rowToGrant (grantToRow g) = g\<lparr>gr_request := (gr_request g)\<lparr>rq_grant_type := Some (nullish (rq_grant_type (gr_request g)) Once)\<rparr>,
     gr_withdraw_reason := (if gr_withdraw_reason g = Some [] then None else gr_withdraw_reason g)\<rparr>"
proof -
  have r: "q\<lparr>rq_requester := rq_requester q, rq_target_host := rq_target_host q, rq_audience := rq_audience q, rq_grant_type := x\<rparr> = q\<lparr>rq_grant_type := x\<rparr>"
    for q :: grant_request and x by (cases q) simp
  have "truthy_str x = (x \<noteq> None \<and> x \<noteq> Some [])" for x by (cases x) auto
  then show ?thesis unfolding rowToGrant_def grantToRow_def by (cases g) (auto simp: r)
qed

section \<open>The invariant\<close>

definition trail :: "string \<Rightarrow> drizzle_db \<Rightarrow> string list" where
  "trail i db = map au_event (filter (\<lambda>a. au_grantId a = i) (db_audit db))"

text \<open>
  What the audit of a brokered grant records, with the status the grant has at its end. It is decided once, while it waits, and nothing follows a
  withdrawal. A token is issued while the grant is approved. A redemption confirms a grant that
  was spent by its command token, leaves a continuing approval as it is or spends a single-use one, which has then no event \<open>used\<close>.
\<close>

definition status_change :: "grant_status \<Rightarrow> grant_status \<Rightarrow> bool" where
  "status_change s st \<longleftrightarrow> st \<noteq> Pending \<and> s \<noteq> Withdrawn \<and> (st \<in> {Approved, Denied} \<longrightarrow> s = Pending)"

inductive audit_run :: "string list \<Rightarrow> grant_status \<Rightarrow> bool" where
  created: "audit_run [''created''] Pending"
| status: "audit_run es s \<Longrightarrow> status_change s st \<Longrightarrow> audit_run (es @ [status_name st]) st"
| token: "audit_run es Approved \<Longrightarrow> audit_run (es @ [''token_issued'']) Approved"
| redeemed: "audit_run es s \<Longrightarrow> s \<in> {Approved, Used} \<Longrightarrow> audit_run (es @ [''consumed'']) s"
| spent: "audit_run es Approved \<Longrightarrow> audit_run (es @ [''consumed'']) Used"

definition decisions :: "string list \<Rightarrow> nat" where
  "decisions es = length (filter (\<lambda>e. e = ''approved'' \<or> e = ''denied'') es)"

lemma status_name_decision: "(status_name st = ''approved'' \<or> status_name st = ''denied'') \<longleftrightarrow> st \<in> {Approved, Denied}"
  by (cases st) (simp_all add: status_name_def)

lemma audit_run_shape: "audit_run es s \<Longrightarrow> es \<noteq> [] \<and> hd es = ''created'' \<and> decisions es \<le> (if s = Pending then 0 else 1)"
proof (induction rule: audit_run.induct)
  case (status es s st)
  then show ?case by (auto simp: decisions_def status_change_def status_name_decision split: if_splits)
qed (auto simp: decisions_def)

definition audited :: "drizzle_db \<Rightarrow> grant_row \<Rightarrow> bool" where
  "audited db w \<longleftrightarrow> (gw_brokered w \<noteq> None \<longrightarrow> audit_run (trail (gw_id w) db) (gw_status w))"

definition row_sound :: "grant_row \<Rightarrow> bool" where
  "row_sound w \<longleftrightarrow> gw_brokerOwner w = map_option bg_owner (gw_brokered w) \<and>
     (truthy_str (gw_referenceKey w) \<longrightarrow> truthy_str (rq_reference (gw_request w)))"

definition stored_keys :: "drizzle_db \<Rightarrow> string list" where
  "stored_keys db = map (\<lambda>w. the (gw_referenceKey w)) (filter (\<lambda>w. gw_referenceKey w \<noteq> None) (db_grants db))"

definition db_ok :: "drizzle_db \<Rightarrow> bool" where
  "db_ok db \<longleftrightarrow> distinct (map gw_id (db_grants db)) \<and> distinct (stored_keys db) \<and>
     (\<forall>w\<in>set (db_grants db). row_sound w \<and> audited db w) \<and> (\<forall>owner. pending_of owner db \<le> BROKER_PENDING_LIMIT) \<and>
     (\<forall>a\<in>set (db_audit db). au_grantId a \<in> gw_id ` set (db_grants db))"

text \<open>A change that keeps a row's identity: its id, its reference and the authority of its broker, though not the requester's name.\<close>

definition keeps_identity :: "(grant_row \<Rightarrow> grant_row) \<Rightarrow> bool" where
  "keeps_identity f \<longleftrightarrow> (\<forall>w. gw_id (f w) = gw_id w \<and> gw_referenceKey (f w) = gw_referenceKey w \<and> gw_brokerOwner (f w) = gw_brokerOwner w \<and>
     map_option brokeredGrantAuthority (gw_brokered (f w)) = map_option brokeredGrantAuthority (gw_brokered w))"

lemma authority_owner:
  assumes "map_option brokeredGrantAuthority a = map_option brokeredGrantAuthority b"
  shows "map_option bg_owner a = map_option bg_owner b" "(a = None) = (b = None)"
proof -
  have s: "sameBrokeredGrant a b" using assms by (simp only: sameBrokeredGrant_iff)
  show "map_option bg_owner a = map_option bg_owner b" using s by (cases a; cases b) (simp_all add: sameBrokeredGrant_def)
  show "(a = None) = (b = None)" using s by (cases a; cases b) (simp_all add: sameBrokeredGrant_def)
qed

lemma keeps_simps:
  assumes "keeps_identity f"
  shows "gw_id (f w) = gw_id w" "gw_referenceKey (f w) = gw_referenceKey w" "gw_brokerOwner (f w) = gw_brokerOwner w"
    "(gw_brokered (f w) = None) = (gw_brokered w = None)" "map_option bg_owner (gw_brokered (f w)) = map_option bg_owner (gw_brokered w)"
  using assms by (simp_all add: keeps_identity_def authority_owner [of "gw_brokered (f w)" "gw_brokered w"])

lemma keeps_if: "keeps_identity f \<Longrightarrow> keeps_identity (\<lambda>w. if P w then f w else w)"
  by (simp add: keeps_identity_def)

lemma row_sound_keeps: "keeps_identity f \<Longrightarrow> row_sound w \<Longrightarrow> rq_reference (gw_request (f w)) = rq_reference (gw_request w) \<Longrightarrow> row_sound (f w)"
  by (simp add: row_sound_def keeps_simps)

lemma updated_ids: "keeps_identity g \<Longrightarrow> map gw_id (map g ws) = map gw_id ws"
  by (simp add: keeps_simps)

lemma updated_keys: "keeps_identity g \<Longrightarrow> map (\<lambda>w. the (gw_referenceKey w)) (filter (\<lambda>w. gw_referenceKey w \<noteq> None) (map g ws)) =
    map (\<lambda>w. the (gw_referenceKey w)) (filter (\<lambda>w. gw_referenceKey w \<noteq> None) ws)"
  by (induction ws) (auto simp: keeps_simps)

lemma updated_pending:
  assumes "keeps_identity g" "\<And>w. w \<in> set ws \<Longrightarrow> gw_brokerOwner w \<noteq> None \<Longrightarrow> gw_status (g w) = Pending \<Longrightarrow> gw_status w = Pending"
  shows "length (filter (\<lambda>w. gw_brokerOwner w = Some o' \<and> gw_status w = Pending) (map g ws)) \<le>
    length (filter (\<lambda>w. gw_brokerOwner w = Some o' \<and> gw_status w = Pending) ws)"
  using assms(2)
proof (induction ws)
  case (Cons w ws)
  have "gw_brokerOwner (g w) = Some o' \<and> gw_status (g w) = Pending \<Longrightarrow> gw_brokerOwner w = Some o' \<and> gw_status w = Pending"
    using Cons.prems [of w] by (simp add: keeps_simps [OF assms(1)])
  with Cons show ?case by simp
qed simp

lemma audit_id [simp]: "au_grantId (brokerAuditRow now w e) = gw_id w" "au_event (brokerAuditRow now w e) = e"
  by (simp_all add: brokerAuditRow_def Let_def)

lemma filter_id_distinct:
  assumes "distinct (map gw_id ws)" "w \<in> set ws"
  shows "filter (\<lambda>v. Q v \<and> gw_id v = gw_id w) ws = (if Q w then [w] else [])"
  using assms
proof (induction ws)
  case (Cons v ws)
  show ?case
  proof (cases "w = v")
    case True
    have "filter (\<lambda>u. Q u \<and> gw_id u = gw_id v) ws = []" using Cons.prems(1) by (auto simp: filter_empty_conv) (metis imageI)
    with True show ?thesis by simp
  next
    case False
    then have "w \<in> set ws" "gw_id v \<noteq> gw_id w" using Cons.prems by auto
    with Cons show ?thesis by simp
  qed
qed simp

lemma find_row: "distinct (map gw_id ws) \<Longrightarrow> w \<in> set ws \<Longrightarrow> List.find (\<lambda>v. gw_id v = gw_id w) ws = Some w"
  by (induction ws) (auto simp: image_iff)

lemma row_of_none: "row_of i db = None \<longleftrightarrow> i \<notin> gw_id ` set (db_grants db)"
  by (auto simp: row_of_def find_None_iff)

lemma row_of_mem: "row_of i db = Some w \<Longrightarrow> w \<in> set (db_grants db) \<and> gw_id w = i"
  unfolding row_of_def by (auto dest: find_Some_mem)

lemma row_of_unique: "db_ok db \<Longrightarrow> row_of i db = Some w \<Longrightarrow> v \<in> set (db_grants db) \<Longrightarrow> gw_id v = i \<Longrightarrow> v = w"
  using find_row [of "db_grants db" v] by (auto simp: db_ok_def row_of_def)

lemma row_of_map: "keeps_identity g \<Longrightarrow> db_grants db' = map g (db_grants db) \<Longrightarrow> row_of i db' = map_option g (row_of i db)"
proof -
  assume k: "keeps_identity g" and r: "db_grants db' = map g (db_grants db)"
  have "List.find (\<lambda>w. gw_id w = i) (map g ws) = map_option g (List.find (\<lambda>w. gw_id w = i) ws)" for ws
    by (induction ws) (auto simp: keeps_simps [OF k])
  then show ?thesis by (simp add: row_of_def r)
qed

lemma row_of_update: "keeps_identity f \<Longrightarrow> row_of i (update_rows now e P f db) = map_option (\<lambda>w. if P w then f w else w) (row_of i db)"
  by (rule row_of_map [OF keeps_if]) (simp_all add: update_rows_def)

lemma trail_update:
  assumes "distinct (map gw_id (db_grants db))" "w \<in> set (db_grants db)" "keeps_identity f"
  shows "trail (gw_id w) (update_rows now e P f db) = trail (gw_id w) db @ (if P w \<and> gw_brokered w \<noteq> None then [e] else [])"
proof -
  have "filter (\<lambda>a. au_grantId a = gw_id w) (map (\<lambda>w. brokerAuditRow now (f w) e) (filter (\<lambda>w. P w \<and> gw_brokered w \<noteq> None) (db_grants db))) =
      map (\<lambda>w. brokerAuditRow now (f w) e) (filter (\<lambda>v. (P v \<and> gw_brokered v \<noteq> None) \<and> gw_id v = gw_id w) (db_grants db))"
    using assms(3) by (simp add: filter_map comp_def keeps_simps conj_commute cong: filter_cong)
  also have "\<dots> = map (\<lambda>w. brokerAuditRow now (f w) e) (if P w \<and> gw_brokered w \<noteq> None then [w] else [])"
    using filter_id_distinct [OF assms(1,2), of "\<lambda>v. P v \<and> gw_brokered v \<noteq> None"] by simp
  finally show ?thesis by (simp add: trail_def update_rows_def)
qed

text \<open>A transaction that rewrites the rows and adds to their audit keeps the invariant when each row with its audit does.\<close>

lemma ok_rows:
  assumes ok: "db_ok db" and k: "keeps_identity g" and rows: "db_grants db' = map g (db_grants db)"
    and aud: "db_audit db' = db_audit db @ as" "\<And>a. a \<in> set as \<Longrightarrow> au_grantId a \<in> gw_id ` set (db_grants db)"
    and each: "\<And>w. w \<in> set (db_grants db) \<Longrightarrow> row_sound w \<Longrightarrow> audited db w \<Longrightarrow> row_sound (g w) \<and> audited db' (g w)"
    and pend: "\<And>w. w \<in> set (db_grants db) \<Longrightarrow> gw_brokerOwner w \<noteq> None \<Longrightarrow> gw_status (g w) = Pending \<Longrightarrow> gw_status w = Pending"
  shows "db_ok db'"
proof -
  have ids: "map gw_id (db_grants db') = map gw_id (db_grants db)" unfolding rows by (rule updated_ids [OF k])
  have keys: "stored_keys db' = stored_keys db" unfolding stored_keys_def rows by (rule updated_keys [OF k])
  have pending: "pending_of owner db' \<le> BROKER_PENDING_LIMIT" for owner
  proof -
    have "pending_of owner db' \<le> pending_of owner db" unfolding pending_of_def rows by (rule updated_pending [OF k pend])
    also have "\<dots> \<le> BROKER_PENDING_LIMIT" using ok by (simp add: db_ok_def)
    finally show ?thesis .
  qed
  have "gw_id ` set (db_grants db') = gw_id ` set (db_grants db)" using arg_cong [OF ids, of set] by (simp only: set_map)
  moreover have "\<forall>v\<in>set (db_grants db'). row_sound v \<and> audited db' v"
    using ok each unfolding rows set_map db_ok_def by blast
  moreover have "au_grantId a \<in> gw_id ` set (db_grants db)" if "a \<in> set (db_audit db')" for a
    using that ok aud(2) unfolding aud(1) set_append db_ok_def by blast
  ultimately show ?thesis using ok pending unfolding db_ok_def ids keys by simp
qed

lemma ok_update:
  assumes ok: "db_ok db" and k: "keeps_identity f" and st: "\<And>w. gw_status (f w) = st"
    and change: "\<And>w. w \<in> set (db_grants db) \<Longrightarrow> P w \<Longrightarrow> gw_brokered w \<noteq> None \<Longrightarrow> status_change (gw_status w) st"
    and sound: "\<And>w. w \<in> set (db_grants db) \<Longrightarrow> P w \<Longrightarrow> row_sound w \<Longrightarrow> row_sound (f w)"
  shows "db_ok (update_rows now (status_name st) P f db)"
proof (rule ok_rows [OF ok keeps_if [OF k]])
  let ?db = "update_rows now (status_name st) P f db"
  show "db_grants ?db = map (\<lambda>w. if P w then f w else w) (db_grants db)"
    "db_audit ?db = db_audit db @ map (\<lambda>w. brokerAuditRow now (f w) (status_name st)) (filter (\<lambda>w. P w \<and> gw_brokered w \<noteq> None) (db_grants db))"
    by (simp_all add: update_rows_def)
  have d: "distinct (map gw_id (db_grants db))" using ok by (simp add: db_ok_def)
  fix w
  show "au_grantId a \<in> gw_id ` set (db_grants db)"
    if "a \<in> set (map (\<lambda>w. brokerAuditRow now (f w) (status_name st)) (filter (\<lambda>w. P w \<and> gw_brokered w \<noteq> None) (db_grants db)))" for a
    using that by (auto simp: keeps_simps [OF k])
  assume w: "w \<in> set (db_grants db)"
  have t: "trail (gw_id w) ?db = trail (gw_id w) db @ (if P w \<and> gw_brokered w \<noteq> None then [status_name st] else [])"
    by (rule trail_update [OF d w k])
  show "row_sound (if P w then f w else w) \<and> audited ?db (if P w then f w else w)" if s: "row_sound w" "audited db w"
  proof (cases "P w")
    case True
    have "audited ?db (f w)" using s(2) t True audit_run.status [OF _ change [OF w True]] by (simp add: audited_def keeps_simps [OF k] st)
    with True sound [OF w True s(1)] show ?thesis by simp
  next
    case False
    then show ?thesis using s t by (simp add: audited_def)
  qed
  assume "gw_brokerOwner w \<noteq> None" "gw_status (if P w then f w else w) = Pending"
  moreover have "row_sound w" using ok w by (simp add: db_ok_def)
  ultimately show "gw_status w = Pending" using change [OF w] by (cases "P w") (auto simp: st row_sound_def status_change_def)
qed

text \<open>A transaction that adds one event to the audit of one brokered grant.\<close>

lemma ok_event:
  assumes ok: "db_ok db" and w: "row_of i db = Some w" "gw_brokered w \<noteq> None" and k: "keeps_identity h" and q: "\<And>v. gw_request (h v) = gw_request v"
    and run: "\<And>es. audit_run es (gw_status w) \<Longrightarrow> audit_run (es @ [e]) (gw_status (h w))" and np: "gw_status (h w) \<noteq> Pending"
    and a: "au_grantId a = i" "au_event a = e"
    and db': "db_grants db' = map (\<lambda>v. if gw_id v = i then h v else v) (db_grants db)" "db_audit db' = db_audit db @ [a]"
  shows "db_ok db'"
proof (rule ok_rows [OF ok keeps_if [OF k] db'])
  have m: "w \<in> set (db_grants db)" "gw_id w = i" using row_of_mem [OF w(1)] by simp_all
  show "au_grantId b \<in> gw_id ` set (db_grants db)" if "b \<in> set [a]" for b using that m a by auto
  fix v assume v: "v \<in> set (db_grants db)"
  have t: "trail j db' = trail j db @ (if j = i then [e] else [])" for j by (simp add: trail_def db' a)
  show "row_sound (if gw_id v = i then h v else v) \<and> audited db' (if gw_id v = i then h v else v)" if s: "row_sound v" "audited db v"
  proof (cases "gw_id v = i")
    case True
    then have "v = w" by (rule row_of_unique [OF ok w(1) v])
    with s True t run w(2) show ?thesis by (simp add: row_sound_keeps [OF k] q audited_def keeps_simps [OF k])
  next
    case False
    with s t show ?thesis by (simp add: audited_def)
  qed
  assume "gw_status (if gw_id v = i then h v else v) = Pending"
  with np row_of_unique [OF ok w(1) v] show "gw_status v = Pending" by (auto split: if_splits)
qed

lemma ok_insert:
  assumes "db_ok db" "row_of (gw_id w) db = None" "row_sound w" "gw_status w = Pending"
    "gw_referenceKey w = None \<or> the (gw_referenceKey w) \<notin> set (stored_keys db)"
    "\<And>b. gw_brokered w = Some b \<Longrightarrow> pending_of (bg_owner b) db < BROKER_PENDING_LIMIT"
  shows "db_ok (db\<lparr>db_grants := db_grants db @ [w], db_audit := db_audit db @ (if gw_brokered w \<noteq> None then [brokerAuditRow now w ''created''] else [])\<rparr>)"
proof -
  let ?db = "db\<lparr>db_grants := db_grants db @ [w], db_audit := db_audit db @ (if gw_brokered w \<noteq> None then [brokerAuditRow now w ''created''] else [])\<rparr>"
  have fresh: "gw_id w \<notin> gw_id ` set (db_grants db)" using assms(2) by (simp add: row_of_none)
  have "au_grantId a \<noteq> gw_id w" if "a \<in> set (db_audit db)" for a
    using assms(1) that fresh unfolding db_ok_def by metis
  then have none: "trail (gw_id w) db = []" by (simp add: trail_def filter_empty_conv)
  have old: "trail (gw_id v) ?db = trail (gw_id v) db" if "v \<in> set (db_grants db)" for v
    using that fresh by (auto simp: trail_def)
  have "audited ?db v" if "v \<in> set (db_grants db)" for v
    using assms(1) that old [OF that] by (simp add: db_ok_def audited_def)
  moreover have "audited ?db w" using none assms(4) audit_run.created by (auto simp: audited_def trail_def)
  moreover have "pending_of owner ?db \<le> BROKER_PENDING_LIMIT" for owner
  proof (cases "gw_brokerOwner w = Some owner")
    case True
    then obtain b where "gw_brokered w = Some b" "bg_owner b = owner" using assms(3) by (cases "gw_brokered w") (auto simp: row_sound_def)
    with assms(4,6) True show ?thesis by (auto simp: pending_of_def)
  next
    case False
    then show ?thesis using assms(1) by (auto simp: pending_of_def db_ok_def)
  qed
  ultimately show ?thesis using assms(1,3,5) fresh by (auto simp: db_ok_def stored_keys_def)
qed


section \<open>Any order of transactions\<close>

text \<open>
  One transaction. The ids of new grants are new, and a brokered or referenced grant is created pending. The status pending is written by the two
  approvals that rewrite a request first (\<open>approveGrantWithExtension\<close> and \<open>approveGrantWithWidening\<close>): both refuse a request with a
  reference, and the endpoint that calls them refuses a brokered grant before; neither changes later, so the row is that of a plain grant when
  they write it. The tables of connections and users change as they like.
\<close>

inductive drz_step :: "drizzle_db \<Rightarrow> drizzle_db \<Rightarrow> bool" where
  expire: "drz_step db (expirePendingRequests now db)"
| create: "gr_status g = Pending \<Longrightarrow> drz_step db (snd (drz_createReferenced now g db))"
| save: "row_of (gr_id g) db = None \<Longrightarrow> gr_brokered g \<noteq> None \<Longrightarrow> gr_status g = Pending \<Longrightarrow> drz_step db (snd (drz_save now g db))"
| save_plain: "row_of (gr_id g) db = None \<Longrightarrow> gr_brokered g = None \<Longrightarrow> drz_step db (snd (drz_save now g db))"
| update: "st \<noteq> Pending \<or> (\<forall>w. row_of i db = Some w \<longrightarrow> gw_brokered w = None \<and> \<not> truthy_str (rq_reference (gw_request w))) \<Longrightarrow>
    drz_step db (snd (drz_updateStatus now i st p db))"
| claim: "drz_step db (snd (drz_claimOnce now i t db))"
| withdraw: "drz_step db (snd (drz_withdraw now i t reason db))"
| mark: "drz_step db (snd (drz_markConsumed i jti db))"
| record_token: "drz_step db (snd (drz_recordToken now users g db))"
| redeem: "drz_step db (snd (drz_consume now users i c db))"
| rename: "drz_step db (snd (drz_updateRequesterName users subject b name db))"
| connections: "drz_step db (db\<lparr>db_connections := cs\<rparr>)"

lemma keeps_patched [simp]: "keeps_identity (patched st p)" "gw_status (patched st p w) = st"
  by (simp_all add: keeps_identity_def patched_def)

lemma keeps_status: "keeps_identity (\<lambda>w. w\<lparr>gw_status := st\<rparr>)" "keeps_identity (\<lambda>w. w\<lparr>gw_status := st, gw_usedAt := u\<rparr>)"
  "keeps_identity (\<lambda>w. w\<lparr>gw_status := st, gw_decidedAt := d, gw_withdrawReason := r\<rparr>)" "keeps_identity (\<lambda>w. w\<lparr>gw_consumedJti := j\<rparr>)" "keeps_identity (\<lambda>w. w)"
  by (simp_all add: keeps_identity_def)

lemma same_referenced: "assertSameReferencedGrant a b = Inr u \<Longrightarrow> rq_reference (gr_request a) = rq_reference (gr_request b)"
  by (auto simp: assertSameReferencedGrant_def Let_def split: if_splits)

lemma stored_reference [simp]: "rq_reference (gr_request (rowToGrant w)) = rq_reference (gw_request w)"
  by (simp add: rowToGrant_def)

lemma stored_parts: "gr_brokered (rowToGrant w) = gw_brokered w" "gr_status (rowToGrant w) = gw_status w"
  by (simp_all add: rowToGrant_def)

lemma row_sound_patched:
  assumes "bound_request w p = Inr ()" "row_sound w"
  shows "row_sound (patched st p w)"
proof -
  have "truthy_str (rq_reference (gw_request w)) \<Longrightarrow> truthy_str (rq_reference (nullish (p_request p) (gw_request w)))"
    using assms(1) same_referenced [of "rowToGrant w" "(rowToGrant w)\<lparr>gr_request := the (p_request p)\<rparr>"]
    by (cases "p_request p") (auto simp: bound_request_def)
  then show ?thesis using assms(2) by (simp add: row_sound_def patched_def)
qed

lemma ok_expire: "db_ok db \<Longrightarrow> db_ok (expirePendingRequests now db)"
  unfolding expirePendingRequests_def
  by (rule ok_update) (auto simp: keeps_status status_change_def intro: row_sound_keeps [OF keeps_status(1)])

lemma row_of_expire: "row_of i (expirePendingRequests now db) = map_option (\<lambda>w. if gw_status w = Pending \<and> gw_createdAt w < now - PENDING_REQUEST_TTL_SECONDS
    then w\<lparr>gw_status := Expired\<rparr> else w) (row_of i db)"
  unfolding expirePendingRequests_def by (rule row_of_update [OF keeps_status(1)])

lemma grantToRow_parts: "gw_id (grantToRow g) = gr_id g" "gw_status (grantToRow g) = gr_status g" "gw_brokered (grantToRow g) = gr_brokered g"
  "gw_referenceKey (grantToRow g) = ref_key g" "gw_brokerOwner (grantToRow g) = map_option bg_owner (gr_brokered g)" "gw_request (grantToRow g) = gr_request g"
  by (simp_all add: grantToRow_def)

lemma unreferenced_key: "rq_reference (gr_request g) = None \<Longrightarrow> ref_key g = None"
  by (simp add: ref_key_def)

lemma grantToRow_sound:
  assumes "assertGrantReferenceRequest (gr_request g) = Inr u \<or> rq_reference (gr_request g) = None"
  shows "row_sound (grantToRow g)"
proof -
  have "s \<noteq> []" if q: "rq_reference (gr_request g) = Some s" for s
  proof -
    obtain x where x: "parseGrantReference (JStr s) = Inr x" using assms q
      by (cases "parseGrantReference (JStr s)") (simp_all add: assertGrantReferenceRequest_def js_opt_string_def)
    moreover from x have "x = Some s" by (auto simp: parseGrantReference_def split: if_splits)
    ultimately show ?thesis using parseGrantReference_Some [of "JStr s" s] by simp
  qed
  then show ?thesis by (auto simp: row_sound_def grantToRow_parts ref_key_def truthy_str_def split: option.splits)
qed

lemma key_free: "List.find (\<lambda>v. gw_referenceKey v = k) (db_grants db) = None \<Longrightarrow> k = None \<or> the k \<notin> set (stored_keys db)"
  by (auto simp: stored_keys_def find_None_iff)

lemma insert_cases: "insert_grant now w db = (r, db1) \<Longrightarrow> (r = Inr () \<and> row_of (gw_id w) db = None \<and>
    db1 = db\<lparr>db_grants := db_grants db @ [w], db_audit := db_audit db @ (if gw_brokered w \<noteq> None then [brokerAuditRow now w ''created''] else [])\<rparr>) \<or>
    (db1 = db \<and> isl r)"
  by (auto simp: insert_grant_def split: if_splits)

lemma create_cases:
  "snd (drz_createReferenced now g db0) = db0 \<or>
   (let db = expirePendingRequests now db0; w = grantToRow g in snd (drz_createReferenced now g db0) = db \<or>
     (snd (drz_createReferenced now g db0) = db\<lparr>db_grants := db_grants db @ [w], db_audit := db_audit db @ (if gw_brokered w \<noteq> None then [brokerAuditRow now w ''created''] else [])\<rparr> \<and>
      row_sound w \<and> row_of (gw_id w) db = None \<and> List.find (\<lambda>v. gw_referenceKey v = gw_referenceKey w) (db_grants db) = None \<and>
      (\<forall>b. gr_brokered g = Some b \<longrightarrow> pending_of (bg_owner b) db < BROKER_PENDING_LIMIT)))"
  by (auto simp: drz_createReferenced_def Let_def split: sum.splits option.splits if_splits prod.splits dest!: insert_cases intro: grantToRow_sound)

lemma save_cases:
  assumes "gr_brokered g = Some b"
  shows "snd (drz_save now g db0) = db0 \<or>
   (let db = expirePendingRequests now db0; w = grantToRow g in snd (drz_save now g db0) = db \<or>
     (snd (drz_save now g db0) = db\<lparr>db_grants := db_grants db @ [w], db_audit := db_audit db @ [brokerAuditRow now w ''created'']\<rparr> \<and>
      rq_reference (gr_request g) = None \<and> row_of (gw_id w) db = None \<and> pending_of (bg_owner b) db < BROKER_PENDING_LIMIT))"
  using assms by (auto simp: drz_save_def insert_grant_def grantToRow_parts Let_def split: if_splits)

lemma update_cases:
  "drz_updateStatus now i st p db0 = (r, db1) \<Longrightarrow> (let db = expirePendingRequests now db0 in
     (isl r \<and> db1 = db) \<or> (r = Inr () \<and> db1 = update_rows now (status_name st) (\<lambda>v. gw_id v = i) (patched st p) db \<and>
       (\<exists>w. row_of i db = Some w \<and> bound_request w p = Inr () \<and> gw_status w \<noteq> Withdrawn \<and>
         \<not> ((gw_brokered w \<noteq> None \<or> truthy_str (gw_referenceKey w) \<or> gw_status w = Expired) \<and> st \<in> {Approved, Denied} \<and> gw_status w \<noteq> Pending))))"
  unfolding drz_updateStatus_def Let_def
  by (cases "row_of i (expirePendingRequests now db0)") (auto split: sum.splits if_splits)

lemma token_cases:
  "snd (drz_recordToken now users g db) = db \<or> (\<exists>w. row_of (gr_id g) db = Some w \<and> gw_brokered w \<noteq> None \<and> gw_status w = Approved \<and>
     snd (drz_recordToken now users g db) = db\<lparr>db_audit := db_audit db @ [brokerAuditRow now (grantToRow g) ''token_issued'']\<rparr>)"
  by (auto simp: drz_recordToken_def sameBrokeredGrant_def split: option.splits sum.splits if_splits)

text \<open>A redemption leaves the rows, or records itself and lets the approval stand, confirms the claim or spends the grant.\<close>

definition redeems :: "grant_row \<Rightarrow> (grant_row \<Rightarrow> grant_row) \<Rightarrow> bool" where
  "redeems w h \<longleftrightarrow> gw_brokered w \<noteq> None \<and> keeps_identity h \<and> (\<forall>v. gw_request (h v) = gw_request v \<and> gw_status (h v) \<in> {gw_status v, Used}) \<and>
     (gw_status w = Approved \<or> gw_status w = Used)"

text \<open>The rows and the audit after a redemption of the row \<open>w\<close>.\<close>

definition redeemed_db :: "int \<Rightarrow> string \<Rightarrow> grant_row \<Rightarrow> (grant_row \<Rightarrow> grant_row) \<Rightarrow> drizzle_db \<Rightarrow> drizzle_db" where
  "redeemed_db now i w h db = db\<lparr>db_grants := map (\<lambda>v. if gw_id v = i then h v else v) (db_grants db),
     db_audit := db_audit db @ [brokerAuditRow now w ''consumed'']\<rparr>"

lemma redeems_cases:
  assumes "gw_brokered w \<noteq> None"
  shows "gw_status w = Used \<Longrightarrow> redeems w (\<lambda>v. if gw_consumedJti v = None then v\<lparr>gw_consumedJti := j\<rparr> else v)"
    "gw_status w = Approved \<Longrightarrow> redeems w (\<lambda>v. v)" "gw_status w = Approved \<Longrightarrow> redeems w (\<lambda>v. v\<lparr>gw_status := Used, gw_usedAt := u\<rparr>)"
  using assms keeps_status by (simp_all add: redeems_def keeps_if)

lemma marked_db: "drz_markConsumed i j db = (list_ex (\<lambda>w. gw_id w = i \<and> gw_consumedJti w = None) (db_grants db),
    db\<lparr>db_grants := map (\<lambda>v. if gw_id v = i then if gw_consumedJti v = None then v\<lparr>gw_consumedJti := Some j\<rparr> else v else v) (db_grants db)\<rparr>)"
  by (simp add: drz_markConsumed_def Let_def cong: map_cong)

lemma unmarked_db: "drz_markConsumed i j db = (False, db1) \<Longrightarrow> db1 = db"
proof -
  assume m: "drz_markConsumed i j db = (False, db1)"
  have "map (\<lambda>v. if gw_id v = i then if gw_consumedJti v = None then v\<lparr>gw_consumedJti := Some j\<rparr> else v else v) (db_grants db) = db_grants db"
    using m by (intro map_idI) (auto simp: marked_db list_ex_iff)
  with m show ?thesis by (simp add: marked_db)
qed

lemma redemption_cases:
  assumes "gw_brokered w \<noteq> None"
  shows "snd (redemption now i c w db) = db \<or> (\<exists>h. redeems w h \<and> snd (redemption now i c w db) = redeemed_db now i w h db)"
proof -
  have g: "gr_status (rowToGrant w) = gw_status w" by (simp add: rowToGrant_def)
  consider (used) "spentByCommandToken (rowToGrant w) c" | (other) "\<not> spentByCommandToken (rowToGrant w) c" "gw_status w \<noteq> Approved"
    | (approved) "\<not> spentByCommandToken (rowToGrant w) c" "gw_status w = Approved" by blast
  then show ?thesis
  proof cases
    case used
    then have "gw_status w = Used" by (simp add: spentByCommandToken_def g)
    from redeems_cases(1) [OF assms this, of "Some (ac_jti c)"] obtain h where h: "redeems w h"
        "h = (\<lambda>v. if gw_consumedJti v = None then v\<lparr>gw_consumedJti := Some (ac_jti c)\<rparr> else v)" by blast
    have "snd (redemption now i c w db) = (if fst (drz_markConsumed i (ac_jti c) db) then redeemed_db now i w h db else db)"
      using used unmarked_db [of i "ac_jti c" db "snd (drz_markConsumed i (ac_jti c) db)"]
      by (cases "fst (drz_markConsumed i (ac_jti c) db)") (simp_all add: redemption_def marked_db redeemed_db_def h(2) Let_def split: prod.split)
    with h(1) show ?thesis by metis
  next
    case approved
    have "snd (redemption now i c w db) = db \<or> snd (redemption now i c w db) = redeemed_db now i w (\<lambda>v. v) db \<or>
        snd (redemption now i c w db) = redeemed_db now i w (\<lambda>v. v\<lparr>gw_status := Used, gw_usedAt := Some now\<rparr>) db"
      using approved by (simp add: redemption_def Let_def g redeemed_db_def)
    with redeems_cases(2,3) [OF assms approved(2)] show ?thesis by metis
  qed (simp add: redemption_def Let_def g)
qed

lemma redeem_cases:
  "snd (drz_consume now users i c db) = db \<or>
   (\<exists>w h. row_of i db = Some w \<and> redeems w h \<and> snd (drz_consume now users i c db) = redeemed_db now i w h db)"
proof (cases "row_of i db")
  case (Some w)
  have "gw_brokered w \<noteq> None" if "\<not> mismatched i c (rowToGrant w)" using that
    by (cases "gw_brokered w") (simp_all add: mismatched_def stored_parts)
  then have "snd (drz_consume now users i c db) = db \<or> (gw_brokered w \<noteq> None \<and> snd (drz_consume now users i c db) = snd (redemption now i c w db))"
    by (auto simp: drz_consume_def Some Let_def split: sum.splits prod.splits)
  with redemption_cases [of w now i c db] Some show ?thesis by metis
qed (simp add: drz_consume_def)

definition renamed :: "string \<Rightarrow> brokered_grant \<Rightarrow> string \<Rightarrow> grant_row \<Rightarrow> grant_row" where
  "renamed subject b n w = (case gw_brokered w of None \<Rightarrow> w
     | Some x \<Rightarrow> if gw_requester w = subject \<and> sameBrokeredGrant (Some x) (Some b) \<and> bg_requester_name x \<noteq> Some n
         then w\<lparr>gw_brokered := Some (x\<lparr>bg_requester_name := Some n\<rparr>)\<rparr> else w)"

lemma keeps_renamed: "keeps_identity (renamed subject b n)" "gw_status (renamed subject b n w) = gw_status w"
  "gw_request (renamed subject b n w) = gw_request w"
  by (auto simp: keeps_identity_def renamed_def brokeredGrantAuthority_def split: option.split)

lemma rename_cases: "snd (drz_updateRequesterName users subject b name db) = db \<or>
  (\<exists>n. snd (drz_updateRequesterName users subject b name db) = db\<lparr>db_grants := map (renamed subject b n) (db_grants db)\<rparr>)"
  by (auto simp: drz_updateRequesterName_def renamed_def [abs_def] split: option.split sum.split)

lemma ok_map:
  assumes ok: "db_ok db" and k: "keeps_identity g" and same: "\<And>w. gw_status (g w) = gw_status w" "\<And>w. gw_request (g w) = gw_request w"
  shows "db_ok (db\<lparr>db_grants := map g (db_grants db)\<rparr>)"
  by (rule ok_rows [OF ok k, where as = "[]"])
    (simp_all add: same audited_def keeps_simps [OF k] trail_def row_sound_keeps [OF k])

lemma ok_step: "drz_step db db' \<Longrightarrow> db_ok db \<Longrightarrow> db_ok db'"
proof (induction rule: drz_step.induct)
  case (expire db now)
  then show ?case by (rule ok_expire)
next
  case (create g db now)
  let ?db = "expirePendingRequests now db" and ?w = "grantToRow g"
  have e: "db_ok ?db" by (rule ok_expire [OF create.prems])
  have ins: "db_ok (?db\<lparr>db_grants := db_grants ?db @ [?w], db_audit := db_audit ?db @ (if gw_brokered ?w \<noteq> None then [brokerAuditRow now ?w ''created''] else [])\<rparr>)"
    if "row_sound ?w" "row_of (gw_id ?w) ?db = None" "List.find (\<lambda>v. gw_referenceKey v = gw_referenceKey ?w) (db_grants ?db) = None"
      "\<forall>b. gr_brokered g = Some b \<longrightarrow> pending_of (bg_owner b) ?db < BROKER_PENDING_LIMIT"
    by (rule ok_insert [OF e that(2,1)]) (use that create.hyps key_free [OF that(3)] in \<open>simp_all add: grantToRow_parts\<close>)
  show ?case using create_cases [of now g db] create.prems e ins unfolding Let_def by (elim disjE conjE) simp_all
next
  case (save g db now)
  obtain b where b: "gr_brokered g = Some b" using save.hyps(2) by auto
  let ?db = "expirePendingRequests now db" and ?w = "grantToRow g"
  have e: "db_ok ?db" by (rule ok_expire [OF save.prems])
  have ins: "db_ok (?db\<lparr>db_grants := db_grants ?db @ [?w], db_audit := db_audit ?db @ (if gw_brokered ?w \<noteq> None then [brokerAuditRow now ?w ''created''] else [])\<rparr>)"
    if "row_of (gw_id ?w) ?db = None" "rq_reference (gr_request g) = None" "pending_of (bg_owner b) ?db < BROKER_PENDING_LIMIT"
    by (rule ok_insert [OF e that(1)]) (use that b save.hyps in \<open>simp_all add: grantToRow_parts grantToRow_sound unreferenced_key\<close>)
  show ?case using save_cases [OF b, of now db] save.prems e ins b unfolding Let_def by (elim disjE conjE) (simp_all add: grantToRow_parts)
next
  case (save_plain g db now)
  show ?case
  proof (cases "rq_reference (gr_request g) = None")
    case True
    have "db_ok (db\<lparr>db_grants := db_grants db @ [grantToRow g]\<rparr>)"
      using save_plain True grantToRow_sound [of g]
      by (auto simp: db_ok_def grantToRow_parts row_of_none audited_def stored_keys_def unreferenced_key pending_of_def trail_def)
    with save_plain True show ?thesis by (simp add: drz_save_def Let_def grantToRow_parts)
  qed (use save_plain in \<open>simp add: drz_save_def\<close>)
next
  case (update st i db now p)
  obtain r db1 where u: "drz_updateStatus now i st p db = (r, db1)" by fastforce
  let ?db = "expirePendingRequests now db"
  have e: "db_ok ?db" by (rule ok_expire [OF update.prems])
  have "db_ok (update_rows now (status_name st) (\<lambda>v. gw_id v = i) (patched st p) ?db)"
    if w: "row_of i ?db = Some w" "bound_request w p = Inr ()" "gw_status w \<noteq> Withdrawn"
      and d: "\<not> ((gw_brokered w \<noteq> None \<or> truthy_str (gw_referenceKey w) \<or> gw_status w = Expired) \<and> st \<in> {Approved, Denied} \<and> gw_status w \<noteq> Pending)" for w
  proof (rule ok_update [OF e keeps_patched])
    fix v assume v: "v \<in> set (db_grants ?db)" "gw_id v = i"
    have same: "v = w" by (rule row_of_unique [OF e w(1) v])
    show "row_sound v \<Longrightarrow> row_sound (patched st p v)" unfolding same by (rule row_sound_patched [OF w(2)])
    assume b: "gw_brokered v \<noteq> None"
    have "st \<noteq> Pending"
    proof
      assume "st = Pending"
      with update.hyps w(1) b same show False by (auto simp: row_of_expire split: if_splits)
    qed
    then show "status_change (gw_status v) st" using w(3) d b same by (auto simp: status_change_def)
  qed
  with update_cases [OF u] e show ?case unfolding u snd_conv Let_def by blast
next
  case (claim db now i t)
  show ?case unfolding drz_claimOnce_def Let_def snd_conv
    by (rule ok_update [OF claim.prems]) (auto simp: keeps_status status_change_def intro: row_sound_keeps [OF keeps_status(2)])
next
  case (withdraw db now i t reason)
  show ?case
  proof (cases "row_of i db")
    case (Some w)
    have "db_ok (update_rows now (status_name Withdrawn) (\<lambda>v. gw_id v = i \<and> gw_status v = gw_status w)
        (\<lambda>v. v\<lparr>gw_status := Withdrawn, gw_decidedAt := Some t, gw_withdrawReason := reason\<rparr>) db)"
      if "gw_status w = Pending \<or> (gw_status w = Approved \<and> gw_grantType w = Once)"
      by (rule ok_update [OF withdraw.prems]) (use that in \<open>auto simp: keeps_status status_change_def intro: row_sound_keeps [OF keeps_status(3)]\<close>)
    with withdraw.prems show ?thesis by (simp add: drz_withdraw_def Some)
  qed (use withdraw.prems in \<open>simp add: drz_withdraw_def\<close>)
next
  case (mark db i jti)
  show ?case unfolding marked_db snd_conv
    by (rule ok_map [OF mark.prems]) (auto intro!: keeps_if keeps_status)
next
  case (record_token db now users g)
  have "db_ok (db\<lparr>db_audit := db_audit db @ [brokerAuditRow now (grantToRow g) ''token_issued'']\<rparr>)"
    if w: "row_of (gr_id g) db = Some w" "gw_brokered w \<noteq> None" "gw_status w = Approved" for w
    by (rule ok_event [OF record_token.prems w(1,2) keeps_status(5)])
      (simp_all add: w(3) grantToRow_parts audit_run.token)
  with token_cases [of now users g db] record_token.prems show ?case by metis
next
  case (redeem db now users i c)
  have "db_ok (redeemed_db now i w h db)" if w: "row_of i db = Some w" "redeems w h" for w h
  proof (rule ok_event [OF redeem.prems w(1)])
    have id: "gw_id w = i" using row_of_mem [OF w(1)] by simp
    show "gw_brokered w \<noteq> None" "keeps_identity h" "gw_request (h v) = gw_request v" for v using w(2) by (simp_all add: redeems_def)
    have s: "gw_status w \<in> {Approved, Used}" "gw_status (h w) = gw_status w \<or> gw_status (h w) = Used" using w(2) by (auto simp: redeems_def)
    show "audit_run (es @ [''consumed'']) (gw_status (h w))" if "audit_run es (gw_status w)" for es
      using s that audit_run.redeemed [OF that] audit_run.spent [of es] by auto
    show "gw_status (h w) \<noteq> Pending" using s by auto
    show "au_grantId (brokerAuditRow now w ''consumed'') = i" "au_event (brokerAuditRow now w ''consumed'') = ''consumed''" using id by simp_all
  qed (simp_all add: redeemed_db_def)
  with redeem_cases [of now users i c db] redeem.prems show ?case by metis
next
  case (rename db users subject b name)
  have "db_ok (db\<lparr>db_grants := map (renamed subject b n) (db_grants db)\<rparr>)" for n
    by (rule ok_map [OF rename.prems keeps_renamed])
  with rename_cases [of users subject b name db] rename.prems show ?case by metis
next
  case (connections db cs)
  then show ?case by (simp add: db_ok_def stored_keys_def pending_of_def audited_def trail_def)
qed


section \<open>Properties\<close>

definition empty_db :: drizzle_db where
  "empty_db = \<lparr>db_grants = [], db_connections = [], db_audit = []\<rparr>"

definition drz_reachable :: "drizzle_db \<Rightarrow> bool" where
  "drz_reachable db \<longleftrightarrow> drz_step\<^sup>*\<^sup>* empty_db db"

lemma ok_reachable: "drz_reachable db \<Longrightarrow> db_ok db"
proof -
  have "drz_step\<^sup>*\<^sup>* a db \<Longrightarrow> db_ok a \<Longrightarrow> db_ok db" for a
    by (induction rule: rtranclp_induct) (auto intro: ok_step)
  moreover have "db_ok empty_db" by (simp add: db_ok_def empty_db_def stored_keys_def pending_of_def BROKER_PENDING_LIMIT_def)
  ultimately show "drz_reachable db \<Longrightarrow> db_ok db" by (simp add: drz_reachable_def)
qed

text \<open>
  C38. After any transactions in any order: a reference names one grant, no owner has more than 300 brokered requests waiting, and the audit of a
  brokered grant begins with its creation, holds at most one decision, and is a run that leads to the status the grant has: by its last status event,
  or by a redemption that spent an approval; tokens are issued and redeemed only after the approval.
\<close>

theorem production_store_sound:
  assumes "drz_reachable db"
  shows "distinct (map gw_id (db_grants db)) \<and> distinct (stored_keys db) \<and> (\<forall>owner. pending_of owner db \<le> 300) \<and>
    (\<forall>w\<in>set (db_grants db). gw_brokered w \<noteq> None \<longrightarrow> trail (gw_id w) db \<noteq> [] \<and> hd (trail (gw_id w) db) = ''created'' \<and>
       decisions (trail (gw_id w) db) \<le> 1 \<and> audit_run (trail (gw_id w) db) (gw_status w))"
proof -
  have "audit_run es s \<Longrightarrow> es \<noteq> [] \<and> hd es = ''created'' \<and> decisions es \<le> 1" for es s
    using audit_run_shape [of es s] by (auto split: if_splits)
  with ok_reachable [OF assms] show ?thesis unfolding db_ok_def audited_def BROKER_PENDING_LIMIT_def by blast
qed

text \<open>A grant that is bound to a broker or a reference, and was spent, refused, taken back or let expire.\<close>

definition settled :: "string \<Rightarrow> drizzle_db \<Rightarrow> bool" where
  "settled i db \<longleftrightarrow> (\<exists>w. row_of i db = Some w \<and> (gw_brokered w \<noteq> None \<or> truthy_str (gw_referenceKey w)) \<and> gw_status w \<noteq> Pending \<and> gw_status w \<noteq> Approved)"

lemma settled_update:
  assumes "settled i db" "keeps_identity f" "\<And>w. P w \<Longrightarrow> gw_id w = i \<Longrightarrow> row_of i db = Some w \<Longrightarrow> gw_status (f w) \<noteq> Pending \<and> gw_status (f w) \<noteq> Approved"
  shows "settled i (update_rows now e P f db)"
proof -
  obtain w where w: "row_of i db = Some w" "gw_brokered w \<noteq> None \<or> truthy_str (gw_referenceKey w)" "gw_status w \<noteq> Pending" "gw_status w \<noteq> Approved"
    using assms(1) by (auto simp: settled_def)
  have kept: "gw_brokered (f w) \<noteq> None \<or> truthy_str (gw_referenceKey (f w))" using w(2) by (simp add: keeps_simps [OF assms(2)])
  have "gw_id w = i" using row_of_mem [OF w(1)] by simp
  with assms(3) w have "P w \<Longrightarrow> gw_status (f w) \<noteq> Pending \<and> gw_status (f w) \<noteq> Approved" by blast
  moreover have "row_of i (update_rows now e P f db) = Some (if P w then f w else w)" by (simp add: row_of_update [OF assms(2)] w(1))
  ultimately show ?thesis using w(2-4) kept unfolding settled_def by (cases "P w") simp_all
qed

lemma settled_expire: "settled i db \<Longrightarrow> settled i (expirePendingRequests now db)"
  unfolding expirePendingRequests_def by (rule settled_update) (simp_all add: keeps_identity_def)

lemma find_append_some: "List.find P xs = Some x \<Longrightarrow> List.find P (xs @ ys) = Some x"
  by (induction xs) (auto split: if_splits)

lemma row_of_append: "row_of i db = Some w \<Longrightarrow> row_of i (db\<lparr>db_grants := db_grants db @ (ws :: grant_row list), db_audit := x\<rparr>) = Some w"
  by (simp add: row_of_def find_append_some)

lemma settled_insert: "settled i db \<Longrightarrow> settled i (db\<lparr>db_grants := db_grants db @ ws, db_audit := x\<rparr>)"
  unfolding settled_def using row_of_append by blast

lemma settled_map:
  assumes "settled i db" "keeps_identity g" "db_grants db' = map g (db_grants db)" "\<And>w. gw_status (g w) = gw_status w \<or> gw_status (g w) = Used"
  shows "settled i db'"
proof -
  obtain w where w: "row_of i db = Some w" "gw_brokered w \<noteq> None \<or> truthy_str (gw_referenceKey w)" "gw_status w \<noteq> Pending" "gw_status w \<noteq> Approved"
    using assms(1) by (auto simp: settled_def)
  have "row_of i db' = Some (g w)" by (simp add: row_of_map [OF assms(2,3)] w(1))
  moreover have "gw_brokered (g w) \<noteq> None \<or> truthy_str (gw_referenceKey (g w))" using w(2) by (simp add: keeps_simps [OF assms(2)])
  moreover have "gw_status (g w) \<noteq> Pending \<and> gw_status (g w) \<noteq> Approved" using assms(4) [of w] w(3,4) by auto
  ultimately show ?thesis unfolding settled_def by blast
qed

lemma settled_step: "drz_step db db' \<Longrightarrow> db_ok db \<Longrightarrow> settled i db \<Longrightarrow> settled i db'"
proof (induction rule: drz_step.induct)
  case (expire db now)
  then show ?case by (intro settled_expire)
next
  case (create g db now)
  note e = settled_expire [OF create.prems(2), of now]
  show ?case using create_cases [of now g db] create.prems e settled_insert [OF e] unfolding Let_def by (elim disjE conjE) simp_all
next
  case (save g db now)
  obtain b where b: "gr_brokered g = Some b" using save.hyps(2) by auto
  note e = settled_expire [OF save.prems(2), of now]
  show ?case using save_cases [OF b, of now db] save.prems e settled_insert [OF e] unfolding Let_def by (elim disjE conjE) simp_all
next
  case (save_plain g db now)
  have "settled i (db\<lparr>db_grants := db_grants db @ [grantToRow g]\<rparr>)"
    using settled_insert [OF save_plain.prems(2), where ws = "[grantToRow g]" and x = "db_audit db"] by simp
  with save_plain show ?case by (simp add: drz_save_def Let_def grantToRow_parts)
next
  case (update st j db now p)
  obtain r db1 where u: "drz_updateStatus now j st p db = (r, db1)" by fastforce
  let ?db = "expirePendingRequests now db"
  note e = settled_expire [OF update.prems(2), of now]
  have "settled i (update_rows now (status_name st) (\<lambda>v. gw_id v = j) (patched st p) ?db)"
    if w: "row_of j ?db = Some w"
      and ok: "\<not> ((gw_brokered w \<noteq> None \<or> truthy_str (gw_referenceKey w) \<or> gw_status w = Expired) \<and> st \<in> {Approved, Denied} \<and> gw_status w \<noteq> Pending)" for w
  proof (rule settled_update [OF e keeps_patched(1)])
    fix v assume v: "gw_id v = j" "gw_id v = i" "row_of i ?db = Some v"
    then have same: "v = w" using w by simp
    have bound: "gw_brokered w \<noteq> None \<or> truthy_str (gw_referenceKey w)" "gw_status w \<noteq> Pending" using e v same by (auto simp: settled_def)
    have "st \<noteq> Pending"
    proof
      assume "st = Pending"
      obtain x where x: "row_of j db = Some x" "w = (if gw_status x = Pending \<and> gw_createdAt x < now - PENDING_REQUEST_TTL_SECONDS then x\<lparr>gw_status := Expired\<rparr> else x)"
        using w by (auto simp: row_of_expire)
      then have "gw_brokered w = None" "\<not> truthy_str (rq_reference (gw_request x))" using \<open>st = Pending\<close> update.hyps by auto
      moreover have "truthy_str (gw_referenceKey x) \<Longrightarrow> truthy_str (rq_reference (gw_request x))"
        using update.prems(1) row_of_mem [OF x(1)] by (auto simp: db_ok_def row_sound_def)
      ultimately show False using bound(1) x(2) by (auto split: if_splits)
    qed
    then show "gw_status (patched st p v) \<noteq> Pending \<and> gw_status (patched st p v) \<noteq> Approved" using ok bound by auto
  qed
  with update_cases [OF u] e show ?case unfolding u snd_conv Let_def by blast
next
  case (claim db now j t)
  show ?case unfolding drz_claimOnce_def Let_def snd_conv by (rule settled_update [OF claim.prems(2)]) (simp_all add: keeps_status)
next
  case (withdraw db now j t reason)
  have "settled i (update_rows now (status_name Withdrawn) P (\<lambda>v. v\<lparr>gw_status := Withdrawn, gw_decidedAt := Some t, gw_withdrawReason := reason\<rparr>) db)" for P
    by (rule settled_update [OF withdraw.prems(2)]) (simp_all add: keeps_status)
  with withdraw.prems show ?case by (simp add: drz_withdraw_def split: option.split)
next
  case (mark db j jti)
  show ?case unfolding marked_db snd_conv
    by (rule settled_map [OF mark.prems(2), where g = "\<lambda>v. if gw_id v = j then if gw_consumedJti v = None then v\<lparr>gw_consumedJti := Some jti\<rparr> else v else v"])
      (auto intro!: keeps_if keeps_status)
next
  case (record_token db now users g)
  have "settled i (db\<lparr>db_audit := x\<rparr>)" for x using record_token.prems(2) by (simp add: settled_def row_of_def)
  with token_cases [of now users g db] record_token.prems(2) show ?case by metis
next
  case (redeem db now users j c)
  have "settled i (redeemed_db now j w h db)" if "redeems w h" for w h
    by (rule settled_map [OF redeem.prems(2) keeps_if [of h "\<lambda>v. gw_id v = j"]]) (use that in \<open>auto simp: redeems_def redeemed_db_def\<close>)
  with redeem_cases [of now users j c db] redeem.prems(2) show ?case by metis
next
  case (rename db users subject b name)
  have "settled i (db\<lparr>db_grants := map (renamed subject b n) (db_grants db)\<rparr>)" for n
    by (rule settled_map [OF rename.prems(2) keeps_renamed(1) [of subject b n]]) (simp_all add: keeps_renamed)
  with rename_cases [of users subject b name db] rename.prems(2) show ?case by metis
next
  case (connections db cs)
  then show ?case by (simp add: settled_def row_of_def)
qed

lemma claim_row: "distinct (map gw_id (db_grants db)) \<Longrightarrow> fst (drz_claimOnce now i t db) \<longleftrightarrow> (\<exists>w. row_of i db = Some w \<and> gw_status w = Approved)"
  by (auto simp: drz_claimOnce_def Let_def list_ex_iff row_of_def dest: find_Some_mem find_row)

text \<open>
  C39. A brokered or referenced grant is claimed at most once: whatever transactions run after a claim, an expiry, a refusal or a withdrawal, the
  broker's among them, no later claim succeeds, and no later decision is accepted. The transactions are those of \<open>drz_step\<close>: a request is written
  back as pending only for a plain grant, which the callers ensure and \<open>updateStatus\<close> does not.
\<close>

theorem bound_grant_final:
  assumes "drz_reachable db" "settled i db" "drz_step\<^sup>*\<^sup>* db db'"
  shows "\<not> fst (drz_claimOnce now i t db') \<and> (\<forall>p st. st \<in> {Approved, Denied} \<longrightarrow> isl (fst (drz_updateStatus now i st p db')))"
proof -
  have "db_ok db' \<and> settled i db'" using assms(3,2) ok_reachable [OF assms(1)]
    by (induction rule: rtranclp_induct) (auto intro: settled_step ok_step)
  then have s: "settled i db'" ..
  have "drz_reachable db'" using assms(1,3) by (auto simp: drz_reachable_def)
  then have d: "distinct (map gw_id (db_grants db'))" using ok_reachable by (simp add: db_ok_def)
  have "isl (fst (drz_updateStatus now i st p db'))" if "st \<in> {Approved, Denied}" for st p
  proof -
    obtain r db1 where u: "drz_updateStatus now i st p db' = (r, db1)" by fastforce
    have "settled i (expirePendingRequests now db')" by (rule settled_expire [OF s])
    with update_cases [OF u] that show ?thesis by (auto simp: u Let_def settled_def)
  qed
  then show ?thesis using s claim_row [OF d, of now i t] by (auto simp: settled_def)
qed

text \<open>
  C40. A plain grant has no such guard: an approval whose request was read while the grant was pending is written over whatever happened since. A
  grant that was refused or revoked in between is approved, and a single-use grant that was approved by somebody else and already claimed
  is approved again and claimed a second time.
\<close>

theorem late_approval_wins:
  assumes "db_ok db" "row_of i db = Some w" "gw_brokered w = None" "gw_referenceKey w = None" "rq_reference (gw_request w) = None"
    "gw_status w \<in> {Denied, Revoked, Used}"
  shows "\<exists>db1. drz_updateStatus now i Approved p db = (Inr (), db1) \<and> fst (drz_claimOnce now i t db1)"
proof -
  let ?db = "expirePendingRequests now db" and ?f = "patched Approved p"
  have e: "row_of i ?db = Some w" using assms(2,6) by (auto simp: row_of_expire)
  have "bound_request w p = Inr ()" using assms(5) by (simp add: bound_request_def rowToGrant_def truthy_str_def)
  then have u: "drz_updateStatus now i Approved p db = (Inr (), update_rows now (status_name Approved) (\<lambda>v. gw_id v = i) ?f ?db)"
    using assms(3,4,6) by (auto simp: drz_updateStatus_def Let_def e truthy_str_def)
  have b: "bound_request w p = Inr ()" by fact
  have "db_ok (update_rows now (status_name Approved) (\<lambda>v. gw_id v = i) ?f ?db)"
    by (rule ok_update [OF ok_expire [OF assms(1)]])
      (use row_of_unique [OF ok_expire [OF assms(1)] e] assms(3) row_sound_patched [OF b] in auto)
  moreover have "row_of i (update_rows now (status_name Approved) (\<lambda>v. gw_id v = i) ?f ?db) = Some (?f w)"
    using e row_of_mem [OF assms(2)] by (simp add: row_of_update)
  ultimately show ?thesis using u claim_row by (auto simp: db_ok_def)
qed


definition ex_provenance :: brokered_grant where
  "ex_provenance = \<lparr>bg_connection_id = ''c'', bg_broker_issuer = ''https://b'', bg_agent_issuer = ''https://b'', bg_owner = ''ada'', bg_key_id = ''k'', bg_requester_name = None\<rparr>"

definition ex_brokered :: grant where
  "ex_brokered = (new_grant ''g'' None (plain_request ''bot'' ''h'' ''a'') Pending 0)\<lparr>gr_brokered := Some ex_provenance\<rparr>"

definition ex_db :: drizzle_db where
  "ex_db = empty_db\<lparr>db_connections := [(''c'', \<lparr>cn_active = True, cn_owner = ''ada'', cn_ownerIssuer = ''https://i'', cn_brokerIssuer = ''https://b''\<rparr>)]\<rparr>"

definition ex_saved :: drizzle_db where
  "ex_saved = snd (drz_save 0 ex_brokered ex_db)"

definition ex_claimed :: drizzle_db where
  "ex_claimed = snd (drz_claimOnce 2 ''g'' 2 (snd (drz_updateStatus 1 ''g'' Approved no_patch ex_saved)))"

lemma ex_save_reachable: "drz_reachable ex_saved"
proof -
  have "drz_step empty_db ex_db" unfolding ex_db_def by (rule drz_step.connections)
  moreover have "drz_step ex_db ex_saved" unfolding ex_saved_def
    by (rule drz_step.save) (simp_all add: ex_db_def empty_db_def row_of_def ex_brokered_def)
  ultimately show ?thesis unfolding drz_reachable_def by (meson rtranclp.rtrancl_into_rtrancl rtranclp.rtrancl_refl)
qed

lemma ex_claimed_reachable: "drz_reachable ex_claimed"
proof -
  have "drz_step ex_saved (snd (drz_updateStatus 1 ''g'' Approved no_patch ex_saved))" by (rule drz_step.update) simp
  moreover have "drz_step (snd (drz_updateStatus 1 ''g'' Approved no_patch ex_saved)) ex_claimed" unfolding ex_claimed_def by (rule drz_step.claim)
  ultimately show ?thesis using ex_save_reachable unfolding drz_reachable_def by (meson rtranclp.rtrancl_into_rtrancl)
qed

lemma ex_saved_eq: "ex_saved = ex_db\<lparr>db_grants := [grantToRow ex_brokered], db_audit := [brokerAuditRow 0 (grantToRow ex_brokered) ''created'']\<rparr>"
  by (simp add: ex_saved_def drz_save_def insert_grant_def expirePendingRequests_def update_rows_def connection_refused_def pending_of_def ex_db_def empty_db_def
    ex_brokered_def ex_provenance_def plain_request_def row_of_def grantToRow_def BROKER_PENDING_LIMIT_def Let_def)

lemma ex_claimed_row: "\<exists>w. row_of ''g'' ex_claimed = Some w \<and> gw_brokered w = Some ex_provenance \<and> gw_status w = Used"
proof -
  let ?w = "grantToRow ex_brokered"
  have w: "gw_id ?w = ''g''" "gw_status ?w = Pending" "gw_createdAt ?w = 0" "gw_brokered ?w = Some ex_provenance"
    by (simp_all add: grantToRow_def ex_brokered_def)
  have r: "row_of ''g'' ex_saved = Some ?w" by (simp add: ex_saved_eq row_of_def w)
  have e: "row_of ''g'' (expirePendingRequests 1 ex_saved) = Some ?w" by (simp add: row_of_expire r w PENDING_REQUEST_TTL_SECONDS_def)
  have b: "bound_request ?w no_patch = Inr ()" by (simp add: bound_request_def no_patch_def)
  have u: "snd (drz_updateStatus 1 ''g'' Approved no_patch ex_saved) =
      update_rows 1 (status_name Approved) (\<lambda>v. gw_id v = ''g'') (patched Approved no_patch) (expirePendingRequests 1 ex_saved)"
    by (simp add: drz_updateStatus_def e b w)
  then have "row_of ''g'' (snd (drz_updateStatus 1 ''g'' Approved no_patch ex_saved)) = Some (patched Approved no_patch ?w)"
    by (simp add: row_of_update e w)
  moreover have "gw_id (patched Approved no_patch ?w) = ''g''" "gw_brokered (patched Approved no_patch ?w) = Some ex_provenance"
    using w by (simp_all add: patched_def)
  ultimately show ?thesis unfolding ex_claimed_def drz_claimOnce_def Let_def snd_conv
    by (subst row_of_update) (simp_all add: keeps_identity_def)
qed

text \<open>The run of \<open>broker-store.test.ts\<close>: the approval issues a token, whose redemption spends the grant.\<close>

definition ex_owner :: user_store where
  "ex_owner = [(''ada'', \<lparr>us_email = ''ada'', us_name = ''Ada'', us_owner = None, us_approver = None, us_type = Some Human, us_isActive = True,
     us_createdAt = 0, us_lastLoginAt = None, us_recoveryVacationMode = None, us_recoveryVacationDays = None\<rparr>)]"

definition ex_claims :: authz_claims where
  "ex_claims = (base_claims 1 300 ''t'' ''https://i'' ex_brokered)\<lparr>ac_decided_by := Some ''ada''\<rparr>"

definition ex_approved :: drizzle_db where
  "ex_approved = snd (drz_updateStatus 1 ''g'' Approved no_patch ex_saved)"

definition ex_redeemed :: drizzle_db where
  "ex_redeemed = snd (drz_consume 3 ex_owner ''g'' ex_claims (snd (drz_recordToken 2 ex_owner ex_brokered ex_approved)))"

lemma ex_redeemed_reachable: "drz_reachable ex_redeemed"
proof -
  have "drz_step ex_saved ex_approved" unfolding ex_approved_def by (rule drz_step.update) simp
  moreover have "drz_step ex_approved (snd (drz_recordToken 2 ex_owner ex_brokered ex_approved))" by (rule drz_step.record_token)
  moreover have "drz_step (snd (drz_recordToken 2 ex_owner ex_brokered ex_approved)) ex_redeemed" unfolding ex_redeemed_def by (rule drz_step.redeem)
  ultimately show ?thesis using ex_save_reachable unfolding drz_reachable_def by (meson rtranclp.rtrancl_into_rtrancl)
qed

lemma ex_approved_eq: "ex_approved = ex_db\<lparr>db_grants := [patched Approved no_patch (grantToRow ex_brokered)],
    db_audit := [brokerAuditRow 0 (grantToRow ex_brokered) ''created'', brokerAuditRow 1 (patched Approved no_patch (grantToRow ex_brokered)) ''approved'']\<rparr>"
proof -
  have w: "gw_id (grantToRow ex_brokered) = ''g''" "gw_status (grantToRow ex_brokered) = Pending" "gw_createdAt (grantToRow ex_brokered) = 0"
    "gw_brokered (grantToRow ex_brokered) = Some ex_provenance" by (simp_all add: grantToRow_def ex_brokered_def)
  have b: "bound_request w no_patch = Inr ()" for w by (simp add: bound_request_def no_patch_def)
  have e: "expirePendingRequests 1 ex_saved = ex_saved"
    by (simp add: expirePendingRequests_def update_rows_def ex_saved_eq w PENDING_REQUEST_TTL_SECONDS_def)
  show ?thesis unfolding ex_approved_def drz_updateStatus_def e Let_def
    by (simp add: ex_saved_eq row_of_def w b update_rows_def status_name_def)
qed

lemma ex_redeemed_trail: "trail ''g'' ex_redeemed = [''created'', ''approved'', ''token_issued'', ''consumed'']"
  "\<exists>w. db_grants ex_redeemed = [w] \<and> gw_id w = ''g'' \<and> gw_brokered w \<noteq> None \<and> gw_status w = Used"
proof -
  let ?w = "patched Approved no_patch (grantToRow ex_brokered)"
  have w: "gw_id ?w = ''g''" "gw_status ?w = Approved" "gw_brokered ?w = Some ex_provenance" "gw_expiresAt ?w = None"
    "gr_id ex_brokered = ''g''" "gr_brokered ex_brokered = Some ex_provenance" "gw_id (grantToRow ex_brokered) = ''g''"
    by (simp_all add: patched_def no_patch_def grantToRow_def ex_brokered_def)
  have live: "checkConnection ex_provenance (ex_db\<lparr>db_grants := x, db_audit := y\<rparr>) = Inr \<lparr>cn_active = True, cn_owner = ''ada'', cn_ownerIssuer = ''https://i'', cn_brokerIssuer = ''https://b''\<rparr>"
    "owner_inactive ex_owner ''ada'' = False" for x y
    by (simp_all add: checkConnection_def ex_db_def empty_db_def ex_provenance_def owner_inactive_def ex_owner_def findByEmail_def truthy_str_def)
  let ?db = "ex_db\<lparr>db_grants := [?w], db_audit := [brokerAuditRow 0 (grantToRow ex_brokered) ''created'', brokerAuditRow 1 ?w ''approved'', brokerAuditRow 2 (grantToRow ex_brokered) ''token_issued'']\<rparr>"
  have t: "snd (drz_recordToken 2 ex_owner ex_brokered ex_approved) = ?db"
    by (simp add: drz_recordToken_def ex_approved_eq row_of_def w live_connection_def live past_def truthy_num_def sameBrokeredGrant_def)
  have g: "gr_id (rowToGrant ?w) = ''g''" "gr_status (rowToGrant ?w) = Approved" "gr_expires_at (rowToGrant ?w) = None"
    "rq_grant_type (gr_request (rowToGrant ?w)) = Some Once" "gr_brokered (rowToGrant ?w) = Some ex_provenance"
    by (simp_all add: rowToGrant_def patched_def no_patch_def grantToRow_def ex_brokered_def plain_request_def)
  have m: "\<not> mismatched ''g'' ex_claims (rowToGrant ?w)"
    by (simp add: mismatched_def ex_claims_def)
      (simp add: rowToGrant_def patched_def no_patch_def grantToRow_def ex_brokered_def plain_request_def ex_provenance_def
        sameBrokeredGrant_def brokeredGrantAuthority_def)
  have eq: "ex_redeemed = redeemed_db 3 ''g'' ?w (\<lambda>v. v\<lparr>gw_status := Used, gw_usedAt := Some 3\<rparr>) ?db"
    by (simp add: ex_redeemed_def t drz_consume_def row_of_def w Let_def m g live redemption_def spentByCommandToken_def past_def truthy_num_def redeemed_db_def)
      (simp add: ex_claims_def)
  show "trail ''g'' ex_redeemed = [''created'', ''approved'', ''token_issued'', ''consumed'']"
    unfolding eq by (simp add: redeemed_db_def trail_def w)
  show "\<exists>w. db_grants ex_redeemed = [w] \<and> gw_id w = ''g'' \<and> gw_brokered w \<noteq> None \<and> gw_status w = Used"
    unfolding eq by (simp add: redeemed_db_def w)
qed

theorem production_store_sound_witness:
  "trail ''g'' ex_redeemed = [''created'', ''approved'', ''token_issued'', ''consumed''] \<and> audit_run (trail ''g'' ex_redeemed) Used \<and>
   decisions (trail ''g'' ex_redeemed) \<le> 1 \<and> pending_of ''ada'' ex_redeemed \<le> 300"
proof -
  obtain w where w: "db_grants ex_redeemed = [w]" "gw_id w = ''g''" "gw_brokered w \<noteq> None" "gw_status w = Used" using ex_redeemed_trail(2) by blast
  then have "audit_run (trail ''g'' ex_redeemed) Used \<and> decisions (trail ''g'' ex_redeemed) \<le> 1 \<and> pending_of ''ada'' ex_redeemed \<le> 300"
    using production_store_sound [OF ex_redeemed_reachable] by fastforce
  with ex_redeemed_trail(1) show ?thesis by blast
qed

theorem bound_grant_final_witness:
  "\<not> fst (drz_claimOnce 3 ''g'' 3 (snd (drz_updateStatus 3 ''g'' Revoked no_patch ex_claimed))) \<and>
   isl (fst (drz_updateStatus 3 ''g'' Approved no_patch (snd (drz_updateStatus 3 ''g'' Revoked no_patch ex_claimed))))"
proof -
  have s: "settled ''g'' ex_claimed" using ex_claimed_row by (auto simp: settled_def)
  have "drz_step ex_claimed (snd (drz_updateStatus 3 ''g'' Revoked no_patch ex_claimed))" by (rule drz_step.update) simp
  from bound_grant_final [OF ex_claimed_reachable s, OF r_into_rtranclp, OF this] show ?thesis by blast
qed

definition ex_spent :: drizzle_db where
  "ex_spent = snd (drz_claimOnce 2 ''g'' 2 (snd (drz_updateStatus 1 ''g'' Approved no_patch
     (snd (drz_save 0 (new_grant ''g'' None (plain_request ''bot'' ''h'' ''a'') Pending 0) empty_db)))))"

theorem late_approval_wins_witness:
  "\<exists>db1. drz_updateStatus 3 ''g'' Approved no_patch ex_spent = (Inr (), db1) \<and> fst (drz_claimOnce 3 ''g'' 4 db1)"
proof -
  let ?g = "new_grant ''g'' None (plain_request ''bot'' ''h'' ''a'') Pending 0"
  let ?db = "snd (drz_save 0 ?g empty_db)" and ?w = "grantToRow (new_grant ''g'' None (plain_request ''bot'' ''h'' ''a'') Pending 0)"
  have "drz_step empty_db ?db" by (rule drz_step.save_plain) (simp_all add: empty_db_def row_of_def)
  moreover have "drz_step ?db (snd (drz_updateStatus 1 ''g'' Approved no_patch ?db))" by (rule drz_step.update) simp
  moreover have "drz_step (snd (drz_updateStatus 1 ''g'' Approved no_patch ?db)) ex_spent" unfolding ex_spent_def by (rule drz_step.claim)
  ultimately have ok: "db_ok ex_spent" using ok_reachable unfolding drz_reachable_def
    by (meson rtranclp.rtrancl_into_rtrancl rtranclp.rtrancl_refl)
  have w: "gw_id ?w = ''g''" "gw_status ?w = Pending" "gw_createdAt ?w = 0" "gw_brokered ?w = None" "gw_referenceKey ?w = None" "rq_reference (gw_request ?w) = None"
    by (simp_all add: grantToRow_def plain_request_def ref_key_def)
  have r: "row_of ''g'' ?db = Some ?w"
    using w(1) by (simp add: drz_save_def empty_db_def row_of_def plain_request_def Let_def)
  have e: "row_of ''g'' (expirePendingRequests 1 ?db) = Some ?w" using r w by (simp add: row_of_expire PENDING_REQUEST_TTL_SECONDS_def)
  have b: "bound_request ?w no_patch = Inr ()" by (simp add: bound_request_def no_patch_def)
  have "row_of ''g'' (snd (drz_updateStatus 1 ''g'' Approved no_patch ?db)) = Some (patched Approved no_patch ?w)"
    using e w by (simp add: drz_updateStatus_def b row_of_update)
  then have "row_of ''g'' ex_spent = Some ((patched Approved no_patch ?w)\<lparr>gw_status := Used, gw_usedAt := Some 2\<rparr>)"
    unfolding ex_spent_def drz_claimOnce_def Let_def snd_conv by (subst row_of_update) (use w(1) in \<open>simp_all add: keeps_identity_def patched_def\<close>)
  from late_approval_wins [OF ok this, where p = no_patch and now = 3 and t = 4] w show ?thesis by (simp add: patched_def no_patch_def)
qed

end
