(* ===== verification/Spec2Isabelle.thy ===== *)
theory Spec2Isabelle
  imports Widening Similarity ShapeMatcher GrantLifecycle ProgramAuthorize SpTasks Yolo AuthorizeEndpoint EgressProxy SpExchange KeyLogin RateLimit DrizzleStore
begin

text \<open>
  \<^bold>\<open>A model of OpenApe's authorization core.\<close> An agent asks for permission to run a command, a person or a rule of that person answers with a
  grant, and the grant is redeemed by tokens that bind it. Around that core stand the identity provider, which knows people and agents and
  signs them in at services, the service providers, which accept its assertions, and the egress proxy, which lets an agent's requests out. The
  theories model these parts as the TypeScript sources under \<open>src/\<close> have them and prove what each promises.

  \<^bold>\<open>Foundations.\<close> \<open>Prelude\<close> is the ECMAScript library the sources use (strings, arrays, sorting, maps), with the shared lemmas; \<open>Json\<close> values
  of type \<open>unknown\<close> and their serialisation; \<open>Types\<close> the data model of \<open>packages/core/src/types\<close>; \<open>Globs\<close> the patterns compiled to
  regular expressions.

  \<^bold>\<open>Details and what covers them\<close> (\<open>packages/grants\<close>). \<open>CliPermissions\<close> (\<open>cli-permissions.ts\<close>) is the language of permissions: canonical
  strings, covering, widening, merging. Its lemmas show covering a preorder with a declarative reading and the canonical form injective.
  \<open>CliValidation\<close> checks untyped details against it, \<open>Widening\<close> (\<open>widening-suggestions.ts\<close>) and \<open>Similarity\<close> (\<open>similarity.ts\<close>) offer an approver
  wider or related details and show that these cover what they should. \<open>ShapeMatcher\<close> and \<open>ShapeRegistry\<close> (\<open>shape-matcher.ts\<close>,
  \<open>shape-registry.ts\<close>, \<open>server-resolver.ts\<close>) turn a command line into a detail by published shapes, \<open>ProgramCall\<close> (\<open>program-authorization.ts\<close>)
  does so for a whole program call.

  \<^bold>\<open>Grants.\<close> \<open>GrantReference\<close> reads the untrusted members of a request; \<open>GrantStore\<close> (\<open>stores.ts\<close>) is the store as a record of operations on
  a state, the locale \<open>grant_store_laws\<close> with what the operations on grants rely on, and its interpretation \<open>mem\<close> on the in-memory store.
  \<open>Grants\<close> (\<open>grants.ts\<close>, \<open>grant-withdraw.ts\<close>) has one function per operation, proved over any lawful store; \<open>GrantLifecycle\<close> closes them
  under steps, interleaved claims included, and shows finished grants final and single-use grants spent once. \<open>StandingGrants\<close> are the
  rules under which requests need no person, \<open>GrantReuse\<close> the search for a grant that already covers a call, \<open>AuthzTokens\<close>
  (\<open>authz-jwt.ts\<close>) the claims a grant is redeemed with.

  \<^bold>\<open>The grants API of the identity provider\<close> (\<open>modules/nuxt-auth-idp/src/runtime/server\<close>). \<open>GrantRequests\<close> is asking for a grant
  (\<open>api/grants/index.post.ts\<close> with delegates and brokered identities), \<open>GrantLists\<close> reading and delegating, \<open>GrantAuthority\<close> who may do what
  (\<open>admin.ts\<close>, \<open>grant-authority.ts\<close>, \<open>broker-owner.ts\<close>, \<open>owner-shape-current.ts\<close>), \<open>GrantEndpoints\<close> approving, denying, revoking, in batches
  too, and tokens, \<open>ProgramAuthorize\<close> (\<open>program-authorize.ts\<close>) the call that resolves, decides and signs in one. Their properties compose the
  operations below them: a request carries the identity its token proves, only its owner approves it, and it is redeemed once.
  \<open>ShellSegments\<close> (the scan of a shell line in \<open>packages/core\<close>) and \<open>Yolo\<close> (policies of \<open>apps/openape-free-idp\<close>) are the hooks that approve
  without a rule. \<open>DrizzleStore\<close> is the store of that application on its database tables, with the audit of brokered grants and the writes of its broker
  store (tokens, redemptions, names): every order of these transactions keeps the uniqueness of references, the bound of waiting requests and an
  audit that accounts for each status (\<open>audit_run\<close>), leaves finished brokered and referenced grants finished - because callers write the status
  pending for plain grants only - and shows where a late decision overwrites another.

  \<^bold>\<open>Identity and sign-in.\<close> \<open>AuthStores\<close> and \<open>AuthFlows\<close> (\<open>packages/auth/src/idp\<close>) are the provider's stores and protocol steps, \<open>TtlCache\<close> the
  locale of its caches, \<open>IdpEndpoints\<close> agent tokens and the token and revocation endpoints, \<open>AuthorizeEndpoint\<close> the authorization endpoint
  with consent; \<open>BrowserSessions\<close> the cookie sessions and their travel by QR code or link, \<open>KeyLogin\<close> challenges, SSH signatures, key stores and
  the endpoints that sign in with a key, sound for every life of the default store (\<open>keys_reach\<close>), \<open>RateLimit\<close> the limits per address and per requester; \<open>Identity\<close> agents' addresses and the join of registries; \<open>DnsRecords\<close> and \<open>NetGuard\<close> (\<open>packages/core\<close>) the discovery of a
  domain's provider and the addresses nobody may fetch from. \<open>SpLogin\<close> and \<open>SpExchange\<close> (\<open>packages/auth/src/sp\<close>, the service module) are the
  other end: login, callback, token exchange and the check of an exchanged token. \<open>login_end_to_end\<close> and \<open>session_end_to_end\<close> run both ends together.

  \<^bold>\<open>Services of agents.\<close> \<open>ProxyRules\<close> and \<open>EgressProxy\<close> (\<open>packages/proxy\<close>) decide what leaves the machine and with which secrets; \<open>SpTasks\<close>
  (\<open>packages/sp-tasks\<close>) is the queue of a service agent, with an abstract lease queue that the table refines and runs of overlapping requests in which a resolve is
  two steps (\<open>overlap_step\<close>).

  \<^bold>\<open>Conventions.\<close> A handler is a function from its environment, stores and input to an answer or a problem (status and text) and the state it leaves,
  which is not rolled back when it throws; an exception that nobody catches is status 500. Stores are records of operations over a state
  \<open>'s\<close> where an interface exists in the sources and association lists in insertion order where the sources use a \<open>Map\<close>. Time, fresh ids, random
  tokens, hashes, the collation of the platform (\<open>coll\<close>), \<open>new URL\<close>, DNS, HTTP answers and the verification of signatures are arguments: the code that
  provides them is not in the sources. What other requests do between two steps of a handler is a function (\<open>other\<close>, \<open>oth\<close>) applied to the state
  there, so that a property holds for every interleaving at that place. Numbers of the sources that are counts, times or durations are integers,
  far below the range where the platform's doubles lose precision; bytes and addresses keep their width. Strings are Latin-1. A value's
  truthiness is written out.

  \<^bold>\<open>Bounds.\<close> Three loops of the sources end by a bound of their own, which the model keeps as its fuel: three attempts of a program call, 150 polls
  for an approval, the retries of a busy table; the theorems on them are proved for the bound of the source, with the answer when it runs out.
  Every other recursion is structural or has its termination proof.

  \<^bold>\<open>Not modelled.\<close> Web pages and desktop windows (\<open>apps\<close> but for the server files named above), command-line front ends
  (\<open>packages/apes\<close>, \<open>packages/ape-tasks\<close> and others), whose work is calling the endpoints modelled here and printing; database bindings, whose
  operations are the interfaces above; mail, push and telemetry; WebAuthn ceremonies and the signing of tokens, which are calls of libraries; tests
  and build files. What the manifest lists as partly modelled names its rest.
\<close>

end
